(* ===== verification/GoPrelude.thy ===== *)
theory GoPrelude
  imports Main "HOL-Library.Word" "HOL-Library.Signed_Division"
begin

text \<open>
  What every component of the model shares: Go's fixed-width integers, Go's truncating division,
  decimal rendering and parsing of integers (\<open>strconv\<close>), the string helpers the sources call
  (\<open>strings\<close>), the model of \<open>math/rand\<close>, and generic lemmas on lists, maps and sums.

  A Go integer of width \<open>w\<close> is an \<open>int\<close>; every Go operation that can leave the width is wrapped
  by \<open>wrap w\<close> (two's complement), abbreviated \<open>i8\<close>, \<open>i16\<close>, \<open>i32\<close>, \<open>i64\<close>; Go's \<open>int\<close> is 64 bits
  wide, as on every platform the repository builds for. Bit sets are words of the library.
  A Go string is a list of bytes (\<open>string\<close>); the character classes of \<open>unicode\<close> are modelled on
  ASCII, so a byte above 127 is neither a space nor a letter nor a cased letter.
\<close>

named_theorems go_int "facts about wrap-around and ranges"
named_theorems go_result "case analysis of sum results"

text \<open>Durations are counted in nanoseconds, as \<open>time.Duration\<close> does.\<close>

abbreviation (input) Second :: int where "Second \<equiv> 1000000000"
abbreviation (input) Millisecond :: int where "Millisecond \<equiv> 1000000"

section \<open>Fixed-width integers\<close>

definition wrap :: "nat \<Rightarrow> int \<Rightarrow> int" where
  "wrap w x = (x + 2 ^ (w - 1)) mod 2 ^ w - 2 ^ (w - 1)"

definition in_range :: "nat \<Rightarrow> int \<Rightarrow> bool" where
  "in_range w x \<longleftrightarrow> - (2 ^ (w - 1)) \<le> x \<and> x < 2 ^ (w - 1)"

abbreviation i8 :: "int \<Rightarrow> int" where "i8 \<equiv> wrap 8"
abbreviation i16 :: "int \<Rightarrow> int" where "i16 \<equiv> wrap 16"
abbreviation i32 :: "int \<Rightarrow> int" where "i32 \<equiv> wrap 32"
abbreviation i64 :: "int \<Rightarrow> int" where "i64 \<equiv> wrap 64"

abbreviation MaxInt64 :: int where "MaxInt64 \<equiv> 9223372036854775807"
abbreviation MinInt64 :: int where "MinInt64 \<equiv> -9223372036854775808"
abbreviation MaxInt32 :: int where "MaxInt32 \<equiv> 2147483647"

lemma wrap_in_range [go_int, simp]: "0 < w \<Longrightarrow> in_range w (wrap w x)"
proof -
  assume w: "0 < w"
  have e: "(2::int) ^ w = 2 * 2 ^ (w - 1)"
    using w by (cases w) auto
  have "0 \<le> (x + 2 ^ (w - 1)) mod 2 ^ w" "(x + 2 ^ (w - 1)) mod 2 ^ w < 2 ^ w"
    by simp_all
  then show ?thesis
    unfolding in_range_def wrap_def e by linarith
qed

lemma wrap_id [go_int]: "0 < w \<Longrightarrow> in_range w x \<Longrightarrow> wrap w x = x"
proof -
  assume w: "0 < w" and r: "in_range w x"
  have e: "(2::int) ^ w = 2 * 2 ^ (w - 1)"
    using w by (cases w) auto
  from r have "0 \<le> x + 2 ^ (w - 1)" "x + 2 ^ (w - 1) < 2 ^ w"
    unfolding in_range_def e by linarith+
  then show ?thesis by (simp add: wrap_def)
qed

lemma wrap_idem [simp]: "0 < w \<Longrightarrow> wrap w (wrap w x) = wrap w x"
  by (simp add: wrap_id)

lemma wrap_cong_mod: "0 < w \<Longrightarrow> 2 ^ w dvd (wrap w x - x)"
  by (simp add: wrap_def mod_eq_dvd_iff [symmetric] mod_diff_left_eq)

text \<open>\<open>wrap\<close> is the library's two's complement reading of the low \<open>w\<close> bits.\<close>

lemma wrap_signed_take_bit: "wrap (Suc n) x = signed_take_bit n x"
  by (simp add: wrap_def signed_take_bit_eq_take_bit_shift take_bit_eq_mod)

lemma in_range_8 [go_int]: "in_range 8 x \<longleftrightarrow> -128 \<le> x \<and> x < 128"
  by (simp add: in_range_def)
lemma in_range_16 [go_int]: "in_range 16 x \<longleftrightarrow> -32768 \<le> x \<and> x < 32768"
  by (simp add: in_range_def)
lemma in_range_32 [go_int]: "in_range 32 x \<longleftrightarrow> -2147483648 \<le> x \<and> x < 2147483648"
  by (simp add: in_range_def)
lemma in_range_64 [go_int]: "in_range 64 x \<longleftrightarrow> MinInt64 \<le> x \<and> x < 9223372036854775808"
  by (simp add: in_range_def)

lemma i8_id [go_int]: "-128 \<le> x \<Longrightarrow> x < 128 \<Longrightarrow> i8 x = x"
  by (simp add: wrap_id in_range_8)
lemma i16_id [go_int]: "-32768 \<le> x \<Longrightarrow> x < 32768 \<Longrightarrow> i16 x = x"
  by (simp add: wrap_id in_range_16)
lemma i32_id [go_int]: "-2147483648 \<le> x \<Longrightarrow> x < 2147483648 \<Longrightarrow> i32 x = x"
  by (simp add: wrap_id in_range_32)
lemma i64_id [go_int]: "MinInt64 \<le> x \<Longrightarrow> x < 9223372036854775808 \<Longrightarrow> i64 x = x"
  by (simp add: wrap_id in_range_64)

lemma wrap_bounds32: "-2147483648 \<le> i32 x" "i32 x < 2147483648"
  using wrap_in_range [of 32 x] by (simp_all add: in_range_32)
lemma wrap_bounds64: "MinInt64 \<le> i64 x" "i64 x < 9223372036854775808"
  using wrap_in_range [of 64 x] by (simp_all add: in_range_64)

section \<open>Go's division\<close>

text \<open>Go's \<open>/\<close> truncates toward zero and \<open>%\<close> takes the sign of the dividend: the library's
  \<open>sdiv\<close> and \<open>smod\<close>. For operands that are not negative they are \<open>div\<close> and \<open>mod\<close>.\<close>

lemma sdiv_nonneg: "0 \<le> a \<Longrightarrow> 0 \<le> b \<Longrightarrow> (a::int) sdiv b = a div b"
  by (cases "a = 0"; cases "b = 0") (auto simp: signed_divide_int_def)

lemma smod_nonneg: "0 \<le> a \<Longrightarrow> 0 \<le> b \<Longrightarrow> (a::int) smod b = a mod b"
  by (cases "a = 0") (auto simp: signed_modulo_int_def)

section \<open>Decimal integers (strconv)\<close>

abbreviation ord :: "char \<Rightarrow> nat" where "ord c \<equiv> of_char c"

fun show_nat :: "nat \<Rightarrow> string" where
  "show_nat n =
     (if n < 10 then [char_of (48 + n)]
      else show_nat (n div 10) @ [char_of (48 + n mod 10)])"

declare show_nat.simps [simp del]

definition show_int :: "int \<Rightarrow> string" where
  "show_int i = (if i < 0 then CHR ''-'' # show_nat (nat (- i)) else show_nat (nat i))"

definition is_digit :: "char \<Rightarrow> bool" where
  "is_digit c \<longleftrightarrow> 48 \<le> ord c \<and> ord c \<le> 57"

definition digits_val :: "string \<Rightarrow> nat" where
  "digits_val ds = foldl (\<lambda>a c. a * 10 + (ord c - 48)) 0 ds"

text \<open>\<open>strconv.ParseInt(s, 10, 64)\<close> (and \<open>strconv.Atoi\<close> on a 64-bit platform): an optional sign,
  then at least one decimal digit and nothing else, the value in range.\<close>

definition parse_int64 :: "string \<Rightarrow> int option" where
  "parse_int64 s =
     (let neg = (s \<noteq> [] \<and> hd s = CHR ''-'');
          ds = (if s \<noteq> [] \<and> (hd s = CHR ''-'' \<or> hd s = CHR ''+'') then tl s else s)
      in if ds = [] \<or> \<not> list_all is_digit ds then None
         else let v = int (digits_val ds); x = (if neg then - v else v)
              in if in_range 64 x then Some x else None)"

lemma show_nat_nonempty [simp]: "show_nat n \<noteq> []"
  by (subst show_nat.simps) simp

lemma ord_digit [simp]: "d < 10 \<Longrightarrow> ord (char_of (48 + d :: nat)) = 48 + d"
  by simp

lemma show_nat_digits: "list_all is_digit (show_nat n)"
proof (induction n rule: show_nat.induct)
  case (1 n)
  show ?case
  proof (cases "n < 10")
    case True
    then show ?thesis by (subst show_nat.simps) (simp add: is_digit_def)
  next
    case False
    have "is_digit (char_of (48 + n mod 10))" by (simp add: is_digit_def less_Suc_eq_le [symmetric])
    with False 1 show ?thesis by (subst show_nat.simps) simp
  qed
qed

lemma digits_val_snoc: "digits_val (ds @ [c]) = digits_val ds * 10 + (ord c - 48)"
  by (simp add: digits_val_def)

lemma digits_val_show_nat [simp]: "digits_val (show_nat n) = n"
proof (induction n rule: show_nat.induct)
  case (1 n)
  show ?case
  proof (cases "n < 10")
    case True
    then show ?thesis by (subst show_nat.simps) (simp add: digits_val_def)
  next
    case False
    with 1 show ?thesis
      by (subst show_nat.simps) (simp add: digits_val_snoc)
  qed
qed

lemma is_digit_not_sign: "is_digit c \<Longrightarrow> c \<noteq> CHR ''-'' \<and> c \<noteq> CHR ''+'' \<and> c \<noteq> CHR '' ''"
  by (auto simp: is_digit_def)

lemma hd_show_nat: "is_digit (hd (show_nat n))"
  using show_nat_digits [of n] by (cases "show_nat n") auto

lemma parse_int64_show_nat:
  "int n < 9223372036854775808 \<Longrightarrow> parse_int64 (show_nat n) = Some (int n)"
  using is_digit_not_sign [OF hd_show_nat [of n]]
  by (simp add: parse_int64_def in_range_64 show_nat_digits)

lemma parse_int64_neg_show_nat:
  "int n \<le> 9223372036854775808 \<Longrightarrow> parse_int64 (CHR ''-'' # show_nat n) = Some (- int n)"
  by (simp add: parse_int64_def in_range_64 show_nat_digits)

theorem parse_show_int: "in_range 64 x \<Longrightarrow> parse_int64 (show_int x) = Some x"
  using parse_int64_show_nat [of "nat x"] parse_int64_neg_show_nat [of "nat (- x)"]
  by (cases "x < 0") (simp_all add: show_int_def in_range_64)

section \<open>Strings\<close>

definition is_space :: "char \<Rightarrow> bool" where
  "is_space c \<longleftrightarrow> c = CHR '' '' \<or> (9 \<le> ord c \<and> ord c \<le> 13)"

definition is_upper :: "char \<Rightarrow> bool" where
  "is_upper c \<longleftrightarrow> 65 \<le> ord c \<and> ord c \<le> 90"

definition is_letter :: "char \<Rightarrow> bool" where
  "is_letter c \<longleftrightarrow> is_upper c \<or> (97 \<le> ord c \<and> ord c \<le> 122)"

definition lower_char :: "char \<Rightarrow> char" where
  "lower_char c = (if is_upper c then char_of (ord c + 32) else c)"

definition to_lower :: "string \<Rightarrow> string" where
  "to_lower s = map lower_char s"

text \<open>\<open>strings.TrimSpace\<close> and \<open>strings.Fields\<close>.\<close>

definition trim_space :: "string \<Rightarrow> string" where
  "trim_space s = rev (dropWhile is_space (rev (dropWhile is_space s)))"

fun fields_aux :: "string \<Rightarrow> string \<Rightarrow> string list" where
  "fields_aux acc [] = (if acc = [] then [] else [acc])"
| "fields_aux acc (c # cs) =
     (if is_space c then (if acc = [] then fields_aux [] cs else acc # fields_aux [] cs)
      else fields_aux (acc @ [c]) cs)"

definition fields :: "string \<Rightarrow> string list" where
  "fields s = fields_aux [] s"

lemma is_digit_not_space: "is_digit c \<Longrightarrow> \<not> is_space c"
  by (auto simp: is_digit_def is_space_def)

lemma is_digit_not_letter: "is_digit c \<Longrightarrow> \<not> is_letter c"
  by (auto simp: is_digit_def is_letter_def is_upper_def)

lemma fields_aux_word: "\<forall>c \<in> set w. \<not> is_space c \<Longrightarrow> fields_aux acc (w @ s) = fields_aux (acc @ w) s"
  by (induction w arbitrary: acc) auto

lemma fields_word: "w \<noteq> [] \<Longrightarrow> \<forall>c \<in> set w. \<not> is_space c \<Longrightarrow> fields w = [w]"
  using fields_aux_word [of w "[]" "[]"] by (simp add: fields_def)

lemma fields_word_space:
  "w \<noteq> [] \<Longrightarrow> \<forall>c \<in> set w. \<not> is_space c \<Longrightarrow> fields (w @ CHR '' '' # s) = w # fields s"
  using fields_aux_word [of w "[]" "CHR '' '' # s"] by (simp add: fields_def is_space_def)

lemma trim_space_id:
  "s \<noteq> [] \<Longrightarrow> \<not> is_space (hd s) \<Longrightarrow> \<not> is_space (last s) \<Longrightarrow> trim_space s = s"
proof -
  assume s: "s \<noteq> []" "\<not> is_space (hd s)" "\<not> is_space (last s)"
  then have "dropWhile is_space s = s" by (simp add: dropWhile_eq_self_iff)
  moreover from s have "dropWhile is_space (rev s) = rev s"
    by (simp add: dropWhile_eq_self_iff hd_rev)
  ultimately show ?thesis by (simp add: trim_space_def)
qed

section \<open>Random numbers (math/rand)\<close>

text \<open>
  A \<open>*rand.Rand\<close> is the list of the draws still to come; \<open>Intn n\<close> reduces the next one into
  \<open>[0, n)\<close>. Every finite run of the program is such a list, so what is proved for all lists holds
  for all runs. An exhausted list draws 0.
\<close>

type_synonym rng = "int list"

definition Intn :: "rng \<Rightarrow> int \<Rightarrow> int \<times> rng" where
  "Intn r n = (case r of [] \<Rightarrow> (0, []) | x # xs \<Rightarrow> (x mod n, xs))"

lemma Intn_bounds: "0 < n \<Longrightarrow> 0 \<le> fst (Intn r n) \<and> fst (Intn r n) < n"
  by (auto simp: Intn_def split: list.splits)

section \<open>Lists\<close>

lemma list_all_take: "list_all P xs \<Longrightarrow> list_all P (take n xs)"
  by (meson in_set_takeD list_all_iff)

lemma list_all_drop: "list_all P xs \<Longrightarrow> list_all P (drop n xs)"
  by (meson in_set_dropD list_all_iff)

section \<open>Go maps as association lists\<close>

text \<open>A Go map whose entries are iterated is kept as an association list with distinct keys.\<close>

primrec map_put :: "'k \<Rightarrow> 'v \<Rightarrow> ('k \<times> 'v) list \<Rightarrow> ('k \<times> 'v) list" where
  "map_put k v [] = [(k, v)]"
| "map_put k v (p # ps) = (if fst p = k then (k, v) # ps else p # map_put k v ps)"

definition map_del :: "'k \<Rightarrow> ('k \<times> 'v) list \<Rightarrow> ('k \<times> 'v) list" where
  "map_del k m = filter (\<lambda>p. fst p \<noteq> k) m"

definition map_get :: "('k \<times> 'v) list \<Rightarrow> 'k \<Rightarrow> 'v \<Rightarrow> 'v" where
  "map_get m k d = (case map_of m k of None \<Rightarrow> d | Some v \<Rightarrow> v)"

abbreviation keys :: "('k \<times> 'v) list \<Rightarrow> 'k list" where
  "keys m \<equiv> map fst m"

lemma map_of_put [simp]: "map_of (map_put k v m) = (map_of m)(k \<mapsto> v)"
  by (induction m) auto

lemma map_of_del [simp]: "map_of (map_del k m) = (map_of m)(k := None)"
  by (induction m) (auto simp: map_del_def)

lemma map_get_put [simp]: "map_get (map_put k v m) k' d = (if k' = k then v else map_get m k' d)"
  by (simp add: map_get_def)

lemma keys_put: "set (keys (map_put k v m)) = insert k (set (keys m))"
  by (induction m) auto

lemma keys_del: "set (keys (map_del k m)) = set (keys m) - {k}"
  by (auto simp: map_del_def)

lemma distinct_put [simp]: "distinct (keys m) \<Longrightarrow> distinct (keys (map_put k v m))"
proof (induction m)
  case (Cons p m)
  then show ?case using keys_put [of k v m] by auto
qed simp

lemma distinct_del [simp]: "distinct (keys m) \<Longrightarrow> distinct (keys (map_del k m))"
  by (induction m) (auto simp: map_del_def)

abbreviation vals_sum :: "('k \<times> int) list \<Rightarrow> int" where
  "vals_sum m \<equiv> sum_list (map snd m)"

lemma map_get_absent: "k \<notin> set (keys m) \<Longrightarrow> map_get m k d = d"
  using map_of_eq_None_iff [of m k] by (simp add: map_get_def)

lemma vals_sum_put: "vals_sum (map_put k v m) = vals_sum m - map_get m k 0 + v"
  by (induction m) (auto simp: map_get_def)

lemma map_get_le_sum:
  assumes "\<forall>p\<in>set m. 0 \<le> snd p"
  shows "0 \<le> map_get m k 0 \<and> map_get m k 0 \<le> vals_sum m"
  using assms
proof (induction m)
  case (Cons p m)
  have "0 \<le> vals_sum m" using Cons.prems by (intro sum_list_nonneg) auto
  with Cons show ?case by (cases p) (auto simp: map_get_def)
qed (simp add: map_get_def)

lemma map_get_in: "distinct (keys m) \<Longrightarrow> (k, v) \<in> set m \<Longrightarrow> map_get m k d = v"
  by (simp add: map_get_def)

lemma map_put_in: "(k', v') \<in> set (map_put k v m) \<Longrightarrow> (k', v') \<in> set m \<or> (k' = k \<and> v' = v)"
  by (induction m) (auto split: if_splits)

lemma map_put_fresh: "k \<notin> set (keys m) \<Longrightarrow> map_put k v m = m @ [(k, v)]"
  by (induction m) auto

lemma map_put_split:
  "map_of m k = Some u \<Longrightarrow> distinct (keys m) \<Longrightarrow>
     \<exists>xs ys. m = xs @ (k, u) # ys \<and> map_put k v m = xs @ (k, v) # ys \<and> k \<notin> set (keys (xs @ ys))"
proof (induction m)
  case (Cons p m)
  show ?case
  proof (cases "fst p = k")
    case True
    with Cons.prems have "p # m = [] @ (k, u) # m \<and> map_put k v (p # m) = [] @ (k, v) # m \<and>
        k \<notin> set (keys ([] @ m))" by (cases p) auto
    then show ?thesis by blast
  next
    case False
    with Cons obtain xs ys where "m = xs @ (k, u) # ys" "map_put k v m = xs @ (k, v) # ys"
      "k \<notin> set (keys (xs @ ys))" by (cases p) auto
    with False show ?thesis by (intro exI [of _ "p # xs"] exI [of _ ys]) auto
  qed
qed simp

section \<open>The contract of a row store\<close>

text \<open>What the callers of the repository rely on, for any update that keeps the row's identity.\<close>

locale row_store =
  fixes get :: "'s \<Rightarrow> int \<Rightarrow> 'e + 'c"
    and upd :: "'s \<Rightarrow> int \<Rightarrow> ('c \<Rightarrow> 'e + 'c) \<Rightarrow> 's \<times> 'e option"
    and stable :: "('c \<Rightarrow> 'e + 'c) \<Rightarrow> bool"
    and missing :: 'e
  assumes missing: "get s i = Inl e \<Longrightarrow> e = missing \<and> upd s i f = (s, Some missing)"
    and accepted: "get s i = Inr c \<Longrightarrow> f c = Inr d \<Longrightarrow> stable f \<Longrightarrow>
      snd (upd s i f) = None \<and> get (fst (upd s i f)) i = Inr d"
    and refused: "get s i = Inr c \<Longrightarrow> f c = Inl e \<Longrightarrow> upd s i f = (s, Some e)"
    and others: "stable f \<Longrightarrow> i \<noteq> j \<Longrightarrow> get (fst (upd s i f)) j = get s j"
begin

lemma failed_unchanged: "stable f \<Longrightarrow> snd (upd s i f) = Some e \<Longrightarrow> fst (upd s i f) = s"
  using missing refused accepted by (cases "get s i"; metis fst_conv obj_sumE option.distinct(1))

text \<open>Two updates in a row compose, when both are accepted.\<close>

lemma upd_upd:
  assumes "get s i = Inr c" "f c = Inr d" "stable f" "g d = Inr e" "stable g"
  shows "get (fst (upd (fst (upd s i f)) i g)) i = Inr e"
  using accepted [OF assms(1-3)] accepted [of "fst (upd s i f)" i d g e] assms(4,5) by blast

text \<open>A guard that the first update falsifies refuses the second: the row keeps what the first wrote.\<close>

lemma compare_and_set:
  assumes "get s i = Inr c" "f c = Inr d" "stable f" "g d = Inl e"
  shows "upd (fst (upd s i f)) i g = (fst (upd s i f), Some e) \<and> get (fst (upd s i f)) i = Inr d"
  using accepted [OF assms(1-3)] refused [of "fst (upd s i f)" i d g e] assms(4) by blast

text \<open>Every row after an update, in one equation.\<close>

lemma get_upd:
  assumes "stable f"
  shows "get (fst (upd s i f)) j =
    (if j = i then case get s i of Inl e \<Rightarrow> Inl e
                   | Inr c \<Rightarrow> (case f c of Inl e \<Rightarrow> Inr c | Inr d \<Rightarrow> Inr d)
     else get s j)"
proof (cases "get s i")
  case (Inl e)
  with missing [OF this, of f] show ?thesis by simp
next
  case (Inr c)
  then show ?thesis
    using others [OF assms, of i j s] refused [OF Inr] accepted [OF Inr _ assms] by (cases "f c") auto
qed

lemma get_fold_upd:
  assumes "stable f" "\<And>c d e. f c = Inr d \<Longrightarrow> f d = Inr e \<Longrightarrow> e = d"
  shows "get (fold (\<lambda>i s. fst (upd s i f)) is s) j =
    (case get s j of Inl e \<Rightarrow> Inl e
     | Inr c \<Rightarrow> if j \<in> set is then case f c of Inl e \<Rightarrow> Inr c | Inr d \<Rightarrow> Inr d else Inr c)"
proof (induction "is" arbitrary: s)
  case Nil
  then show ?case by (simp split: sum.split)
next
  case (Cons i "is")
  show ?case by (simp add: Cons get_upd [OF assms(1)] split: sum.split) (use assms(2) in blast)
qed

text \<open>Between two states no row appears or vanishes, and every row evolves by \<open>R\<close>.\<close>

definition evolves :: "('c \<Rightarrow> 'c \<Rightarrow> bool) \<Rightarrow> 's \<Rightarrow> 's \<Rightarrow> bool" where
  "evolves R s s' \<longleftrightarrow> (\<forall>i e. get s i = Inl e \<longrightarrow> get s' i = Inl e)
     \<and> (\<forall>i c. get s i = Inr c \<longrightarrow> (\<exists>d. get s' i = Inr d \<and> R c d))"

lemma evolvesD: "evolves R s s' \<Longrightarrow> get s i = Inr c \<Longrightarrow> \<exists>d. get s' i = Inr d \<and> R c d"
  by (simp add: evolves_def)

lemma evolves_back:
  assumes "evolves R s s'" "get s' i = Inr d"
  shows "\<exists>c. get s i = Inr c \<and> R c d"
proof (cases "get s i")
  case (Inr c)
  with assms(1) obtain d' where "get s' i = Inr d'" "R c d'" unfolding evolves_def by blast
  with assms(2) Inr show ?thesis by simp
qed (use assms in \<open>simp add: evolves_def\<close>)

lemma evolves_missing: "evolves R s s' \<Longrightarrow> get s i = Inl e \<Longrightarrow> get s' i = Inl e"
  by (simp add: evolves_def)

lemma evolves_refl: "(\<And>i c. get s i = Inr c \<Longrightarrow> R c c) \<Longrightarrow> evolves R s s"
  by (simp add: evolves_def)

lemma evolves_trans:
  assumes "evolves R s t" "evolves S t u" "\<And>c d e. R c d \<Longrightarrow> S d e \<Longrightarrow> T c e"
  shows "evolves T s u"
  unfolding evolves_def
proof (intro conjI allI impI)
  fix i e assume "get s i = Inl e"
  then show "get u i = Inl e" using assms(1,2) evolves_missing by metis
next
  fix i c assume "get s i = Inr c"
  then obtain d where d: "get t i = Inr d" "R c d" using evolvesD [OF assms(1)] by metis
  then obtain e where "get u i = Inr e" "S d e" using evolvesD [OF assms(2)] by metis
  with d assms(3) show "\<exists>d. get u i = Inr d \<and> T c d" by blast
qed

lemma evolves_mono: "evolves R s t \<Longrightarrow> (\<And>c d. R c d \<Longrightarrow> S c d) \<Longrightarrow> evolves S s t"
  by (rule evolves_trans [of R s t "(=)" t]) (auto simp: evolves_def)

lemma evolves_upd:
  assumes "stable f" "\<And>j c. get s j = Inr c \<Longrightarrow> R c c" "\<And>c d. get s i = Inr c \<Longrightarrow> f c = Inr d \<Longrightarrow> R c d"
  shows "evolves R s (fst (upd s i f))"
proof (cases "\<exists>c d. get s i = Inr c \<and> f c = Inr d")
  case True
  then obtain c d where cd: "get s i = Inr c" "f c = Inr d" by blast
  note a = accepted [OF cd assms(1), THEN conjunct2]
  show ?thesis unfolding evolves_def
  proof (intro conjI allI impI)
    fix j e assume "get s j = Inl e"
    then show "get (fst (upd s i f)) j = Inl e" using others [OF assms(1), of i j s] cd by (cases "i = j") auto
  next
    fix j b assume b: "get s j = Inr b"
    show "\<exists>d. get (fst (upd s i f)) j = Inr d \<and> R b d"
    proof (cases "i = j")
      case True
      with a b cd assms(3) show ?thesis by auto
    next
      case False
      with others [OF assms(1) False, of s] b assms(2) show ?thesis by auto
    qed
  qed
next
  case False
  have "fst (upd s i f) = s"
  proof (cases "get s i")
    case (Inl e)
    then show ?thesis using missing [OF Inl, of f] by simp
  next
    case (Inr c)
    with False obtain e where "f c = Inl e" by (cases "f c") auto
    with refused [OF Inr] show ?thesis by simp
  qed
  with assms(2) show ?thesis by (simp add: evolves_refl)
qed

end

end
