(* ===== verification/Utf8.thy ===== *)
theory Utf8
  imports GoPrelude
begin

text \<open>
  Go's \<open>unicode/utf8\<close> as the sources use it: \<open>EncodeRune\<close>, \<open>DecodeRune\<close>, \<open>DecodeLastRune\<close>,
  \<open>RuneCountInString\<close>, and \<open>unicode.IsSpace\<close>. A rune is a natural number; a byte a character. The
  decoder is written with the accept ranges of the standard library, so it refuses overlong forms,
  surrogates and values above 0x10FFFF, and reports a bad byte as \<open>RuneError\<close> of size 1.
\<close>

type_synonym rune = nat

definition RuneError :: rune where "RuneError = 0xFFFD"

definition valid_rune :: "rune \<Rightarrow> bool" where
  "valid_rune r \<longleftrightarrow> r < 0xD800 \<or> (0xE000 \<le> r \<and> r \<le> 0x10FFFF)"

definition cont :: "nat \<Rightarrow> char" where "cont n = char_of (0x80 + n mod 64)"

definition EncodeRune :: "rune \<Rightarrow> string" where
  "EncodeRune r0 =
     (let r = (if valid_rune r0 then r0 else RuneError)
      in if r \<le> 0x7F then [char_of r]
         else if r \<le> 0x7FF then [char_of (0xC0 + r div 64), cont r]
         else if r \<le> 0xFFFF then [char_of (0xE0 + r div 4096), cont (r div 64), cont r]
         else [char_of (0xF0 + r div 262144), cont (r div 4096), cont (r div 64), cont r])"

definition is_cont :: "char \<Rightarrow> bool" where "is_cont c \<longleftrightarrow> 0x80 \<le> ord c \<and> ord c \<le> 0xBF"

definition accept_lo :: "nat \<Rightarrow> nat" where
  "accept_lo p0 = (if p0 = 0xE0 then 0xA0 else if p0 = 0xF0 then 0x90 else 0x80)"
definition accept_hi :: "nat \<Rightarrow> nat" where
  "accept_hi p0 = (if p0 = 0xED then 0x9F else if p0 = 0xF4 then 0x8F else 0xBF)"

definition rune_size :: "nat \<Rightarrow> nat" where
  "rune_size p0 = (if 0xC2 \<le> p0 \<and> p0 \<le> 0xDF then 2 else if 0xE0 \<le> p0 \<and> p0 \<le> 0xEF then 3
                   else if 0xF0 \<le> p0 \<and> p0 \<le> 0xF4 then 4 else 0)"

definition DecodeRune :: "string \<Rightarrow> rune \<times> nat" where
  "DecodeRune p =
     (if p = [] then (RuneError, 0)
      else let p0 = ord (p ! 0); sz = rune_size p0
           in if p0 < 0x80 then (p0, 1)
              else if sz = 0 then (RuneError, 1)
              else if length p < sz then (RuneError, 1)
              else if ord (p ! 1) < accept_lo p0 \<or> ord (p ! 1) > accept_hi p0 then (RuneError, 1)
              else if sz = 2 then ((p0 mod 32) * 64 + ord (p ! 1) mod 64, 2)
              else if \<not> is_cont (p ! 2) then (RuneError, 1)
              else if sz = 3 then ((p0 mod 16) * 4096 + (ord (p ! 1) mod 64) * 64 + ord (p ! 2) mod 64, 3)
              else if \<not> is_cont (p ! 3) then (RuneError, 1)
              else ((p0 mod 8) * 262144 + (ord (p ! 1) mod 64) * 4096 + (ord (p ! 2) mod 64) * 64
                      + ord (p ! 3) mod 64, 4))"

definition RuneStart :: "char \<Rightarrow> bool" where "RuneStart c \<longleftrightarrow> \<not> is_cont c"

function back_loop :: "string \<Rightarrow> int \<Rightarrow> int \<Rightarrow> int" where
  "back_loop p start lim =
     (if start \<ge> lim then (if RuneStart (p ! nat start) then start else back_loop p (start - 1) lim) else start)"
  by pat_completeness auto
termination by (relation "measure (\<lambda>(p, start, lim). nat (start + 1 - lim))") auto

declare back_loop.simps [simp del]

definition DecodeLastRune :: "string \<Rightarrow> rune \<times> nat" where
  "DecodeLastRune p =
     (if p = [] then (RuneError, 0)
      else if ord (last p) < 0x80 then (ord (last p), 1)
      else let e = int (length p);
               lim = (if e - 4 < 0 then 0 else e - 4);
               s0 = back_loop p (e - 2) lim;
               start = (if s0 < 0 then 0 else s0);
               (r, size) = DecodeRune (drop (nat start) p)
           in if start + int size \<noteq> e then (RuneError, 1) else (r, size))"

text \<open>\<open>unicode.IsSpace\<close>.\<close>

definition rune_is_space :: "rune \<Rightarrow> bool" where
  "rune_is_space r \<longleftrightarrow> (9 \<le> r \<and> r \<le> 13) \<or> r = 0x20 \<or> r = 0x85 \<or> r = 0xA0 \<or> r = 0x1680
     \<or> (0x2000 \<le> r \<and> r \<le> 0x200A) \<or> r = 0x2028 \<or> r = 0x2029 \<or> r = 0x202F \<or> r = 0x205F \<or> r = 0x3000"

lemma DecodeRune_size: "p \<noteq> [] \<Longrightarrow> 1 \<le> snd (DecodeRune p) \<and> snd (DecodeRune p) \<le> length p"
  by (auto simp: DecodeRune_def Let_def rune_size_def Suc_le_eq split: if_splits)

lemma back_loop_le: "back_loop p start lim \<le> start"
  by (induction p start lim rule: back_loop.induct) (subst back_loop.simps, force)

lemma DecodeLastRune_size: "p \<noteq> [] \<Longrightarrow> 1 \<le> snd (DecodeLastRune p) \<and> snd (DecodeLastRune p) \<le> length p"
proof -
  assume p: "p \<noteq> []"
  define lim where "lim = (if int (length p) - 4 < 0 then 0 else int (length p) - 4)"
  define s0 where "s0 = back_loop p (int (length p) - 2) lim"
  define start where "start = (if s0 < 0 then 0 else s0)"
  define d where "d = DecodeRune (drop (nat start) p)"
  have e: "DecodeLastRune p = (if ord (last p) < 0x80 then (ord (last p), 1)
      else if start + int (snd d) \<noteq> int (length p) then (RuneError, 1) else d)"
    unfolding DecodeLastRune_def Let_def split_beta lim_def [symmetric] s0_def [symmetric]
      start_def [symmetric] d_def [symmetric] by (simp add: p)
  have "1 \<le> snd d \<and> snd d \<le> length p" if "start + int (snd d) = int (length p)"
  proof (cases "drop (nat start) p = []")
    case True
    have "int (snd d) = 0" using True by (simp add: d_def DecodeRune_def)
    have "s0 \<le> int (length p) - 2" unfolding s0_def by (rule back_loop_le)
    then have "start < int (length p)" using p by (simp add: start_def split: if_splits)
    with True have False by (simp add: start_def split: if_splits)
    then show ?thesis ..
  next
    case False
    from DecodeRune_size [OF this] show ?thesis by (auto simp: d_def)
  qed
  then show ?thesis unfolding e using p by (simp add: Suc_le_eq)
qed

fun rune_count :: "nat \<Rightarrow> string \<Rightarrow> nat" where
  "rune_count 0 s = 0"
| "rune_count (Suc fuel) s = (if s = [] then 0 else Suc (rune_count fuel (drop (snd (DecodeRune s)) s)))"

definition RuneCountInString :: "string \<Rightarrow> nat" where "RuneCountInString s = rune_count (length s) s"

definition encs :: "rune list \<Rightarrow> string" where "encs rs = concat (map EncodeRune rs)"

lemma encs_simps [simp]: "encs [] = []" "encs (r # rs) = EncodeRune r @ encs rs" "encs (a @ b) = encs a @ encs b"
  by (simp_all add: encs_def)

section \<open>Decoding what was encoded\<close>

lemma cont_facts [simp]: "ord (cont n) = 0x80 + n mod 64" "is_cont (cont n)"
proof -
  have "n mod 64 < 64" by simp
  then have "0x80 + n mod 64 < 256" by linarith
  then show "ord (cont n) = 0x80 + n mod 64" by (simp add: cont_def)
  then show "is_cont (cont n)" using \<open>n mod 64 < 64\<close> by (simp add: is_cont_def)
qed

lemma mod_over_base: "b mod m = 0 \<Longrightarrow> q < m \<Longrightarrow> (b + q) mod m = (q :: nat)"
  by (metis add.left_neutral mod_add_left_eq mod_less)

lemma digits64:
  "(r :: nat) div 4096 * 4096 + r div 64 mod 64 * 64 + r mod 64 = r"
  "r div 262144 * 262144 + r div 4096 mod 64 * 4096 + r div 64 mod 64 * 64 + r mod 64 = r"
proof -
  have d: "r div 64 div 64 = r div 4096" "r div 4096 div 64 = r div 262144"
    by (simp_all add: div_mult2_eq [symmetric])
  note m = div_mult_mod_eq [of r 64] div_mult_mod_eq [of "r div 64" 64] div_mult_mod_eq [of "r div 4096" 64]
  show "r div 4096 * 4096 + r div 64 mod 64 * 64 + r mod 64 = r"
    using m(1,2) unfolding d by linarith
  show "r div 262144 * 262144 + r div 4096 mod 64 * 4096 + r div 64 mod 64 * 64 + r mod 64 = r"
    using m unfolding d by linarith
qed

lemma EncodeRune_nonempty [simp]: "EncodeRune r \<noteq> []" "0 < length (EncodeRune r)"
  by (simp_all add: EncodeRune_def Let_def)

lemma rune_cases [consumes 1, case_names one two three four]:
  assumes "valid_rune r"
    "r \<le> 0x7F \<Longrightarrow> EncodeRune r = [char_of r] \<Longrightarrow> P"
    "0x80 \<le> r \<Longrightarrow> r \<le> 0x7FF \<Longrightarrow> EncodeRune r = [char_of (0xC0 + r div 64), cont r] \<Longrightarrow> P"
    "0x800 \<le> r \<Longrightarrow> r \<le> 0xFFFF \<Longrightarrow> r < 0xD800 \<or> 0xE000 \<le> r \<Longrightarrow>
       EncodeRune r = [char_of (0xE0 + r div 4096), cont (r div 64), cont r] \<Longrightarrow> P"
    "0x10000 \<le> r \<Longrightarrow> r \<le> 0x10FFFF \<Longrightarrow>
       EncodeRune r = [char_of (0xF0 + r div 262144), cont (r div 4096), cont (r div 64), cont r] \<Longrightarrow> P"
  shows P
proof -
  consider "r \<le> 0x7F" | "0x80 \<le> r" "r \<le> 0x7FF" | "0x800 \<le> r" "r \<le> 0xFFFF" | "0x10000 \<le> r" by linarith
  then show P
  proof cases
    case 1
    then show P using assms(1) by (intro assms(2)) (simp_all add: EncodeRune_def Let_def)
  next
    case 2
    then show P using assms(1) by (intro assms(3)) (simp_all add: EncodeRune_def Let_def)
  next
    case 3
    then show P using assms(1) by (intro assms(4)) (simp_all add: EncodeRune_def Let_def valid_rune_def)
  next
    case 4
    then show P using assms(1) by (intro assms(5)) (simp_all add: EncodeRune_def Let_def valid_rune_def)
  qed
qed

lemma DecodeRune_enc:
  assumes "valid_rune r"
  shows "DecodeRune (EncodeRune r @ s) = (r, length (EncodeRune r))"
  using assms
proof (cases rule: rune_cases)
  case one
  then show ?thesis by (simp add: DecodeRune_def)
next
  case two
  define q where "q = r div 64"
  have q: "2 \<le> q" "q < 32" "q * 64 + r mod 64 = r" using two by (simp_all add: q_def)
  have o: "ord (char_of (0xC0 + q) :: char) = 0xC0 + q" using q by simp
  have m: "(192 + q) mod 32 = q" "(128 + r mod 64) mod 64 = r mod 64" using q by (simp_all add: mod_over_base)
  have c: "r mod 64 < 64" by simp
  show ?thesis using q c m
    by (simp add: two(3) q_def [symmetric] DecodeRune_def Let_def o rune_size_def accept_lo_def accept_hi_def)
next
  case three
  define q where "q = r div 4096"
  define a where "a = r div 64 mod 64"
  have q: "q < 16" "q * 4096 + a * 64 + r mod 64 = r"
    using three digits64(1) [of r] by (simp_all add: q_def a_def)
  have a: "a < 64" by (simp add: a_def)
  have o: "ord (char_of (0xE0 + q) :: char) = 0xE0 + q" using q by simp
  have m: "(224 + q) mod 16 = q" "(128 + r mod 64) mod 64 = r mod 64" "(128 + a) mod 64 = a"
    using q a by (simp_all add: mod_over_base)
  have c: "r mod 64 < 64" by simp
  have lo: "q = 0 \<Longrightarrow> 32 \<le> a" using three(1) q c by linarith
  have hi: "q = 13 \<Longrightarrow> a < 32" using three(3) q c a by linarith
  have n: "224 + q \<noteq> 240" "224 + q \<noteq> 244" "224 + q = 224 \<longleftrightarrow> q = 0" "224 + q = 237 \<longleftrightarrow> q = 13"
    using q by linarith+
  show ?thesis using q c m a lo hi
    by (auto simp: three(4) q_def [symmetric] a_def [symmetric] DecodeRune_def Let_def o rune_size_def
        accept_lo_def accept_hi_def n)
next
  case four
  define q where "q = r div 262144"
  define a where "a = r div 4096 mod 64"
  define b where "b = r div 64 mod 64"
  have q: "q \<le> 4" "q * 262144 + a * 4096 + b * 64 + r mod 64 = r"
    using four digits64(2) [of r] by (simp_all add: q_def a_def b_def)
  have a: "a < 64" "b < 64" by (simp_all add: a_def b_def)
  have o: "ord (char_of (0xF0 + q) :: char) = 0xF0 + q" using q by simp
  have m: "(240 + q) mod 8 = q" "(128 + r mod 64) mod 64 = r mod 64" "(128 + a) mod 64 = a"
    "(128 + b) mod 64 = b"
    using q a by (simp_all add: mod_over_base)
  have c: "r mod 64 < 64" by simp
  have lo: "q = 0 \<Longrightarrow> 16 \<le> a" using four(1) q c a by linarith
  have hi: "q = 4 \<Longrightarrow> a < 16" using four(2) q c a by linarith
  have n: "240 + q \<noteq> 224" "240 + q \<noteq> 237" "240 + q = 240 \<longleftrightarrow> q = 0" "240 + q = 244 \<longleftrightarrow> q = 4"
    using q by linarith+
  show ?thesis using q c m a lo hi
    by (auto simp: four(3) q_def [symmetric] a_def [symmetric] b_def [symmetric] DecodeRune_def Let_def o
        rune_size_def accept_lo_def accept_hi_def n)
qed


lemma rune_start_lead: "(p0 :: nat) < 0x80 \<or> 0xC0 \<le> p0 \<Longrightarrow> p0 < 256 \<Longrightarrow> RuneStart (char_of p0)"
  by (auto simp: RuneStart_def is_cont_def)

lemma cont_not_start [simp]: "\<not> RuneStart (cont n)"
  by (simp add: RuneStart_def)

text \<open>The backward search over a lead byte and its continuation bytes stops at the lead.\<close>

lemma back_loop_lead:
  assumes "RuneStart (p ! a)" "\<And>i. a < i \<Longrightarrow> i \<le> a + k \<Longrightarrow> \<not> RuneStart (p ! i)" "lim \<le> int a"
  shows "back_loop p (int (a + k)) lim = int a"
  using assms(2)
proof (induction k)
  case 0
  then show ?case using assms(1,3) by (subst back_loop.simps) simp
next
  case (Suc k)
  have "\<not> RuneStart (p ! (a + Suc k))" using Suc.prems [of "a + Suc k"] by simp
  then have "back_loop p (int (a + Suc k)) lim = back_loop p (int (a + k)) lim"
    using assms(3) by (subst back_loop.simps) (simp add: nat_add_distrib)
  then show ?case using Suc.IH Suc.prems by simp
qed

lemma DecodeLastRune_multi:
  assumes "valid_rune r" "EncodeRune r = l # cs" "RuneStart l" "\<forall>c\<in>set cs. \<not> RuneStart c"
    "1 \<le> length cs" "length cs \<le> 3"
  shows "DecodeLastRune (s @ EncodeRune r) = (r, length (EncodeRune r))"
proof -
  let ?p = "s @ EncodeRune r"
  let ?lim = "if int (length ?p) - 4 < 0 then 0 else int (length ?p) - 4"
  have p: "?p = s @ l # cs" by (simp add: assms(2))
  have "last cs \<in> set cs" using assms(5) by (cases cs) auto
  then have "\<not> RuneStart (last cs)" using assms(4) by blast
  then have lst: "\<not> ord (last ?p) < 0x80" using assms(5) by (auto simp: p RuneStart_def is_cont_def)
  have n: "RuneStart (?p ! length s)" by (simp add: p assms(3))
  have c: "\<not> RuneStart (?p ! i)" if "length s < i" "i \<le> length s + (length cs - 1)" for i
  proof -
    have "?p ! i = cs ! (i - length s - 1)" using that(1) by (simp add: p nth_append nth_Cons')
    moreover have "i - length s - 1 < length cs" using that assms(5) by linarith
    ultimately show ?thesis using assms(4) by simp
  qed
  have e: "int (length ?p) - 2 = int (length s + (length cs - 1))" using assms(5) by (simp add: p)
  have "?lim \<le> int (length s)" using assms(6) by (simp add: p)
  from back_loop_lead [OF n c this]
  have b: "back_loop ?p (int (length ?p) - 2) ?lim = int (length s)" unfolding e .
  have d: "DecodeRune (drop (length s) ?p) = (r, length (EncodeRune r))"
    using DecodeRune_enc [OF assms(1), of "[]"] by simp
  have ne: "?p \<noteq> []" by simp
  show ?thesis unfolding DecodeLastRune_def Let_def b using lst ne d by simp
qed

lemma DecodeLastRune_enc:
  assumes "valid_rune r"
  shows "DecodeLastRune (s @ EncodeRune r) = (r, length (EncodeRune r))"
  using assms
proof (cases rule: rune_cases)
  case one
  then show ?thesis by (simp add: DecodeLastRune_def)
next
  case two
  have "RuneStart (char_of (0xC0 + r div 64))" using two by (intro rune_start_lead) auto
  from DecodeLastRune_multi [OF assms two(3) this] show ?thesis by simp
next
  case three
  have "RuneStart (char_of (0xE0 + r div 4096))" using three by (intro rune_start_lead) auto
  from DecodeLastRune_multi [OF assms three(4) this] show ?thesis by simp
next
  case four
  have "RuneStart (char_of (0xF0 + r div 262144))" using four by (intro rune_start_lead) auto
  from DecodeLastRune_multi [OF assms four(3) this] show ?thesis by simp
qed

text \<open>The rune count of an encoded text is its number of runes.\<close>

lemma rune_count_encs: "list_all valid_rune rs \<Longrightarrow> length (encs rs) \<le> k \<Longrightarrow> rune_count k (encs rs) = length rs"
proof (induction rs arbitrary: k)
  case Nil
  then show ?case by (cases k) simp_all
next
  case (Cons r rs)
  have "Suc (length (encs rs)) \<le> k"
    using Cons.prems(2) EncodeRune_nonempty(2) [of r] unfolding encs_simps length_append by linarith
  then obtain k' where k: "k = Suc k'" "length (encs rs) \<le> k'" by (cases k) auto
  with Cons show ?case by (simp add: DecodeRune_enc)
qed

lemma RuneCount_encs: "list_all valid_rune rs \<Longrightarrow> RuneCountInString (encs rs) = length rs"
  by (simp add: RuneCountInString_def rune_count_encs)

end
