(* ===== verification/LineEditor.thy ===== *)
theory LineEditor
  imports Utf8
begin

text \<open>
  The input line of a session: \<open>telnet/lineedit.go\<close> (the cursor-aware buffer and the bytes it echoes) and
  \<open>telnet/history.go\<close> (the ring of entered lines). The display widths come from a third-party package,
  so \<open>RuneWidth\<close> and \<open>StringWidth\<close> are parameters: every primitive takes both. A primitive returns the new
  state and the bytes for the terminal (the empty list for Go's nil). The cursor is a byte offset; that it
  stays inside the buffer, where Go would otherwise panic, is part of the refinement proved here.
\<close>

section \<open>The line\<close>

record LineEdit =
  le_Buf :: string
  le_Cursor :: nat

type_synonym widths = "(rune \<Rightarrow> nat) \<times> (string \<Rightarrow> nat)"

definition ASCII_BS :: char where "ASCII_BS = CHR 0x08"

abbreviation bs :: "nat \<Rightarrow> string" where "bs n \<equiv> replicate n ASCII_BS"
abbreviation blanks :: "nat \<Rightarrow> string" where "blanks n \<equiv> replicate n (CHR '' '')"
abbreviation upto :: "LineEdit \<Rightarrow> string" where "upto l \<equiv> take (le_Cursor l) (le_Buf l)"
abbreviation after :: "LineEdit \<Rightarrow> string" where "after l \<equiv> drop (le_Cursor l) (le_Buf l)"

definition cellWidth :: "widths \<Rightarrow> string \<Rightarrow> nat" where "cellWidth w b = snd w b"

definition runeCellWidth :: "widths \<Rightarrow> rune \<Rightarrow> nat" where
  "runeCellWidth w r = (let n = fst w r in if n = 0 then 1 else n)"

definition LineReset :: "LineEdit \<Rightarrow> LineEdit" where "LineReset l = \<lparr>le_Buf = [], le_Cursor = 0\<rparr>"

definition Insert :: "widths \<Rightarrow> char \<Rightarrow> LineEdit \<Rightarrow> LineEdit \<times> string" where
  "Insert w b l =
     (let suffix = after l
      in (\<lparr>le_Buf = upto l @ [b] @ suffix, le_Cursor = le_Cursor l + 1\<rparr>,
          if suffix = [] then [b] else [b] @ suffix @ bs (cellWidth w suffix)))"

definition InsertRune :: "widths \<Rightarrow> rune \<Rightarrow> LineEdit \<Rightarrow> LineEdit \<times> string" where
  "InsertRune w r l =
     (let enc = EncodeRune r; suffix = after l
      in (\<lparr>le_Buf = upto l @ enc @ suffix, le_Cursor = le_Cursor l + length enc\<rparr>,
          if suffix = [] then enc else enc @ suffix @ bs (cellWidth w suffix)))"

definition Backspace :: "widths \<Rightarrow> LineEdit \<Rightarrow> LineEdit \<times> string" where
  "Backspace w l =
     (if le_Cursor l = 0 then (l, [])
      else let (r, size) = DecodeLastRune (upto l); n = runeCellWidth w r; suffix = after l
           in (\<lparr>le_Buf = take (le_Cursor l - size) (le_Buf l) @ suffix, le_Cursor = le_Cursor l - size\<rparr>,
               bs n @ suffix @ blanks n @ bs (cellWidth w suffix + n)))"

definition Delete :: "widths \<Rightarrow> LineEdit \<Rightarrow> LineEdit \<times> string" where
  "Delete w l =
     (if le_Cursor l \<ge> length (le_Buf l) then (l, [])
      else let (r, size) = DecodeRune (after l); n = runeCellWidth w r;
               suffix = drop (le_Cursor l + size) (le_Buf l)
           in (\<lparr>le_Buf = upto l @ suffix, le_Cursor = le_Cursor l\<rparr>,
               suffix @ blanks n @ bs (cellWidth w suffix + n)))"

definition MoveLeft :: "widths \<Rightarrow> LineEdit \<Rightarrow> LineEdit \<times> string" where
  "MoveLeft w l =
     (if le_Cursor l = 0 then (l, [])
      else let (r, size) = DecodeLastRune (upto l)
           in (l\<lparr>le_Cursor := le_Cursor l - size\<rparr>, bs (runeCellWidth w r)))"

definition MoveRight :: "LineEdit \<Rightarrow> LineEdit \<times> string" where
  "MoveRight l =
     (if le_Cursor l \<ge> length (le_Buf l) then (l, [])
      else let (r, size) = DecodeRune (after l)
           in (l\<lparr>le_Cursor := le_Cursor l + size\<rparr>, take size (after l)))"

definition MoveHome :: "widths \<Rightarrow> LineEdit \<Rightarrow> LineEdit \<times> string" where
  "MoveHome w l =
     (if le_Cursor l = 0 then (l, []) else (l\<lparr>le_Cursor := 0\<rparr>, bs (cellWidth w (upto l))))"

definition MoveEnd :: "LineEdit \<Rightarrow> LineEdit \<times> string" where
  "MoveEnd l =
     (if le_Cursor l \<ge> length (le_Buf l) then (l, [])
      else (l\<lparr>le_Cursor := length (le_Buf l)\<rparr>, after l))"

definition KillToStart :: "widths \<Rightarrow> LineEdit \<Rightarrow> LineEdit \<times> string" where
  "KillToStart w l =
     (if le_Cursor l = 0 then (l, [])
      else let n = cellWidth w (upto l); rest = after l
           in (\<lparr>le_Buf = rest, le_Cursor = 0\<rparr>, bs n @ rest @ blanks n @ bs (cellWidth w rest + n)))"

definition KillToEnd :: "widths \<Rightarrow> LineEdit \<Rightarrow> LineEdit \<times> string" where
  "KillToEnd w l =
     (if le_Cursor l \<ge> length (le_Buf l) then (l, [])
      else let n = cellWidth w (after l)
           in (\<lparr>le_Buf = upto l, le_Cursor = le_Cursor l\<rparr>, blanks n @ bs n))"

text \<open>The two backward loops of \<open>KillPrevWord\<close>.\<close>

function skip_back :: "(rune \<Rightarrow> bool) \<Rightarrow> string \<Rightarrow> nat \<Rightarrow> nat" where
  "skip_back P buf i =
     (if i > 0 then
        (let (r, size) = DecodeLastRune (take i buf)
         in if size = 0 \<or> \<not> P r then i else skip_back P buf (i - size))
      else i)"
  by pat_completeness auto
termination by (relation "measure (\<lambda>(P, buf, i). i)") auto

declare skip_back.simps [simp del]

definition KillPrevWord :: "widths \<Rightarrow> LineEdit \<Rightarrow> LineEdit \<times> string" where
  "KillPrevWord w l =
     (if le_Cursor l = 0 then (l, [])
      else let i = skip_back (\<lambda>r. \<not> rune_is_space r) (le_Buf l) (skip_back rune_is_space (le_Buf l) (le_Cursor l))
           in if i = le_Cursor l then (l, [])
              else let n = cellWidth w (drop i (upto l)); suffix = after l
                   in (\<lparr>le_Buf = take i (le_Buf l) @ suffix, le_Cursor = i\<rparr>,
                       bs n @ suffix @ blanks n @ bs (cellWidth w suffix + n)))"

definition Replace :: "widths \<Rightarrow> string \<Rightarrow> LineEdit \<Rightarrow> LineEdit \<times> string" where
  "Replace w s l =
     (\<lparr>le_Buf = s, le_Cursor = length s\<rparr>,
      bs (cellWidth w (upto l)) @ blanks (cellWidth w (le_Buf l)) @ bs (cellWidth w (le_Buf l)) @ s)"

text \<open>The operations as data, so that a session is a list of them.\<close>

datatype edit_op = EInsert char | EInsertRune rune | EBackspace | EDelete | ELeft | ERight | EHome | EEnd
  | EKillStart | EKillEnd | EKillWord | EReplace string

fun edit :: "widths \<Rightarrow> edit_op \<Rightarrow> LineEdit \<Rightarrow> LineEdit \<times> string" where
  "edit w (EInsert b) l = Insert w b l"
| "edit w (EInsertRune r) l = InsertRune w r l"
| "edit w EBackspace l = Backspace w l"
| "edit w EDelete l = Delete w l"
| "edit w ELeft l = MoveLeft w l"
| "edit w ERight l = MoveRight l"
| "edit w EHome l = MoveHome w l"
| "edit w EEnd l = MoveEnd l"
| "edit w EKillStart l = KillToStart w l"
| "edit w EKillEnd l = KillToEnd w l"
| "edit w EKillWord l = KillPrevWord w l"
| "edit w (EReplace s) l = Replace w s l"

fun edits :: "widths \<Rightarrow> edit_op list \<Rightarrow> LineEdit \<Rightarrow> LineEdit \<times> string" where
  "edits w [] l = (l, [])"
| "edits w (p # ps) l = (let (l1, e1) = edit w p l; (l2, e2) = edits w ps l1 in (l2, e1 @ e2))"

section \<open>The history\<close>

definition historyCap :: nat where "historyCap = 100"

record History =
  hi_entries :: "string list"
  hi_idx :: nat
  hi_draft :: string

definition HistoryReset :: "History \<Rightarrow> History" where
  "HistoryReset h = h\<lparr>hi_idx := length (hi_entries h), hi_draft := []\<rparr>"

definition HistoryAdd :: "string \<Rightarrow> History \<Rightarrow> History" where
  "HistoryAdd line h =
     (if line = [] then HistoryReset h
      else if hi_entries h \<noteq> [] \<and> last (hi_entries h) = line then HistoryReset h
      else let es = (if length (hi_entries h) = historyCap then tl (hi_entries h) else hi_entries h)
           in HistoryReset (h\<lparr>hi_entries := es @ [line]\<rparr>))"

definition HistoryPrev :: "string \<Rightarrow> History \<Rightarrow> History \<times> string option" where
  "HistoryPrev live h =
     (if hi_entries h = [] then (h, None)
      else let h1 = (if hi_idx h = length (hi_entries h) then h\<lparr>hi_draft := live\<rparr> else h)
           in if hi_idx h1 = 0 then (h1, Some (hi_entries h1 ! 0))
              else let h2 = h1\<lparr>hi_idx := hi_idx h1 - 1\<rparr> in (h2, Some (hi_entries h2 ! hi_idx h2)))"

definition HistoryNext :: "History \<Rightarrow> History \<times> string option" where
  "HistoryNext h =
     (if hi_idx h \<ge> length (hi_entries h) then (h, None)
      else let h1 = h\<lparr>hi_idx := hi_idx h + 1\<rparr>
           in if hi_idx h1 = length (hi_entries h1) then (h1\<lparr>hi_draft := []\<rparr>, Some (hi_draft h1))
              else (h1, Some (hi_entries h1 ! hi_idx h1)))"

definition HistoryLen :: "History \<Rightarrow> nat" where "HistoryLen h = length (hi_entries h)"

section \<open>The specification: a text with a gap\<close>

text \<open>The abstract line is the runes before the cursor and the runes behind it; every primitive has a one-line
  meaning on them.\<close>

type_synonym gap = "rune list \<times> rune list"

fun decode_all :: "nat \<Rightarrow> string \<Rightarrow> rune list" where
  "decode_all 0 s = []"
| "decode_all (Suc n) s =
     (if s = [] then [] else let (r, size) = DecodeRune s in r # decode_all n (drop size s))"

definition kill_word :: "rune list \<Rightarrow> rune list" where
  "kill_word x = rev (dropWhile (\<lambda>r. \<not> rune_is_space r) (dropWhile rune_is_space (rev x)))"

fun gap_edit :: "edit_op \<Rightarrow> gap \<Rightarrow> gap" where
  "gap_edit (EInsert b) (x, y) = (x @ [ord b], y)"
| "gap_edit (EInsertRune r) (x, y) = (x @ [r], y)"
| "gap_edit EBackspace (x, y) = (butlast x, y)"
| "gap_edit EDelete (x, y) = (x, tl y)"
| "gap_edit ELeft (x, y) = (butlast x, if x = [] then y else last x # y)"
| "gap_edit ERight (x, y) = (x @ take 1 y, tl y)"
| "gap_edit EHome (x, y) = ([], x @ y)"
| "gap_edit EEnd (x, y) = (x @ y, [])"
| "gap_edit EKillStart (x, y) = ([], y)"
| "gap_edit EKillEnd (x, y) = (x, [])"
| "gap_edit EKillWord (x, y) = (kill_word x, y)"
| "gap_edit (EReplace s) (x, y) = (decode_all (length s) s, [])"

definition represents :: "LineEdit \<Rightarrow> gap \<Rightarrow> bool" where
  "represents l g \<longleftrightarrow> list_all valid_rune (fst g) \<and> list_all valid_rune (snd g)
     \<and> le_Buf l = encs (fst g) @ encs (snd g) \<and> le_Cursor l = length (encs (fst g))"

text \<open>Typed bytes are ASCII, typed runes are scalar values, and a replaced line is UTF-8 text.\<close>

fun op_ok :: "edit_op \<Rightarrow> bool" where
  "op_ok (EInsert b) \<longleftrightarrow> ord b < 0x80"
| "op_ok (EInsertRune r) \<longleftrightarrow> valid_rune r"
| "op_ok (EReplace s) \<longleftrightarrow> s = encs (decode_all (length s) s) \<and> list_all valid_rune (decode_all (length s) s)"
| "op_ok _ \<longleftrightarrow> True"

lemma decode_all_encs: "list_all valid_rune rs \<Longrightarrow> length (encs rs) \<le> k \<Longrightarrow> decode_all k (encs rs) = rs"
proof (induction rs arbitrary: k)
  case Nil
  then show ?case by (cases k) simp_all
next
  case (Cons r rs)
  have "Suc (length (encs rs)) \<le> k"
    using Cons.prems(2) EncodeRune_nonempty(2) [of r] unfolding encs_simps length_append by linarith
  then obtain k' where k: "k = Suc k'" "length (encs rs) \<le> k'" by (cases k) auto
  with Cons show ?case by (simp add: DecodeRune_enc)
qed

lemma op_ok_encs: "list_all valid_rune rs \<Longrightarrow> op_ok (EReplace (encs rs))"
  by (simp add: decode_all_encs)

lemma encs_empty_iff [simp]: "encs x = [] \<longleftrightarrow> x = []"
  by (cases x) auto

lemma ascii_enc: "ord b < 0x80 \<Longrightarrow> EncodeRune (ord b) = [b]" "ord b < 0x80 \<Longrightarrow> valid_rune (ord b)"
  by (simp_all add: EncodeRune_def valid_rune_def)

lemma snoc_obtain: "list_all P x \<Longrightarrow> x \<noteq> [] \<Longrightarrow> \<exists>x' r. x = x' @ [r] \<and> list_all P x' \<and> P r"
  by (cases x rule: rev_cases) auto

lemma skip_back_suffix:
  "i \<le> length a \<Longrightarrow> skip_back P (a @ t) i = skip_back P (a @ t') i"
proof (induction i rule: less_induct)
  case (less i)
  have t: "take i (a @ t) = take i (a @ t')" using less.prems by simp
  obtain r size where d: "DecodeLastRune (take i (a @ t')) = (r, size)" by (cases "DecodeLastRune (take i (a @ t'))")
  show ?case
  proof (cases "0 < i \<and> \<not> (size = 0 \<or> \<not> P r)")
    case True
    then have "skip_back P (a @ t) (i - size) = skip_back P (a @ t') (i - size)"
      using less.prems by (intro less.IH) auto
    with True show ?thesis
      unfolding skip_back.simps [of P "a @ t" i] skip_back.simps [of P "a @ t'" i] t d by simp
  next
    case False
    then show ?thesis
      unfolding skip_back.simps [of P "a @ t" i] skip_back.simps [of P "a @ t'" i] t d by auto
  qed
qed

lemma skip_back_encs:
  "list_all valid_rune x \<Longrightarrow> skip_back P (encs x @ t) (length (encs x)) = length (encs (rev (dropWhile P (rev x))))"
proof (induction x rule: rev_induct)
  case Nil
  then show ?case by (simp add: skip_back.simps)
next
  case (snoc r x)
  have v: "valid_rune r" "list_all valid_rune x" using snoc.prems by simp_all
  have d: "DecodeLastRune (take (length (encs (x @ [r]))) (encs (x @ [r]) @ t)) = (r, length (EncodeRune r))"
    using DecodeLastRune_enc [OF v(1), of "encs x"] by simp
  have l: "0 < length (encs (x @ [r]))" "length (encs (x @ [r])) - length (EncodeRune r) = length (encs x)" by simp_all
  show ?case
  proof (cases "P r")
    case True
    have "skip_back P (encs (x @ [r]) @ t) (length (encs (x @ [r]))) =
        skip_back P (encs x @ (EncodeRune r @ t)) (length (encs x))"
      using True l(1) unfolding skip_back.simps [of P "encs (x @ [r]) @ t" "length (encs (x @ [r]))"] d by simp
    also have "\<dots> = length (encs (rev (dropWhile P (rev x))))"
      using snoc.IH [OF v(2)] skip_back_suffix [of "length (encs x)" "encs x" P "EncodeRune r @ t" t] by simp
    finally show ?thesis using True by simp
  next
    case False
    then show ?thesis
      unfolding skip_back.simps [of P "encs (x @ [r]) @ t" "length (encs (x @ [r]))"] d by simp
  qed
qed

lemma list_all_rev_drop: "list_all P x \<Longrightarrow> list_all P (rev (dropWhile Q (rev x)))"
  by (auto simp: list_all_iff dest: set_dropWhileD)


lemma representsD:
  assumes "represents l (x, y)"
  shows "upto l = encs x" "after l = encs y" "le_Cursor l = length (encs x)" "le_Buf l = encs x @ encs y"
    "list_all valid_rune x" "list_all valid_rune y" "le_Cursor l = 0 \<longleftrightarrow> x = []"
    "length (le_Buf l) \<le> le_Cursor l \<longleftrightarrow> y = []"
  using assms by (simp_all add: represents_def)

lemma represents_make:
  "list_all valid_rune x \<Longrightarrow> list_all valid_rune y \<Longrightarrow>
   represents \<lparr>le_Buf = encs x @ encs y, le_Cursor = length (encs x)\<rparr> (x, y)"
  by (simp add: represents_def)

lemma kill_word_alt: "kill_word x = rev (dropWhile (\<lambda>r. \<not> rune_is_space r) (rev (rev (dropWhile rune_is_space (rev x)))))"
  by (simp add: kill_word_def)

lemma kill_index:
  assumes "represents l (x, y)"
  shows "skip_back (\<lambda>r. \<not> rune_is_space r) (le_Buf l) (skip_back rune_is_space (le_Buf l) (le_Cursor l))
    = length (encs (kill_word x))"
proof -
  note d = representsD [OF assms]
  define x1 where "x1 = rev (dropWhile rune_is_space (rev x))"
  obtain z where z: "x = x1 @ z"
    by (metis takeWhile_dropWhile_id rev_append rev_rev_ident x1_def)
  have v: "list_all valid_rune x1" unfolding x1_def using d(5) by (rule list_all_rev_drop)
  have "skip_back rune_is_space (le_Buf l) (le_Cursor l) = length (encs x1)"
    unfolding d(3,4) x1_def by (rule skip_back_encs [OF d(5)])
  moreover have "skip_back (\<lambda>r. \<not> rune_is_space r) (le_Buf l) (length (encs x1)) = length (encs (kill_word x))"
    unfolding d(4) z encs_simps append_assoc kill_word_alt using skip_back_encs [OF v, of "\<lambda>r. \<not> rune_is_space r" "encs z @ encs y"]
    by (simp add: x1_def [symmetric] z [symmetric])
  ultimately show ?thesis by simp
qed

lemma kill_word_prefix: "\<exists>z. x = kill_word x @ z"
proof -
  have "rev x = (takeWhile rune_is_space (rev x)
      @ takeWhile (\<lambda>r. \<not> rune_is_space r) (dropWhile rune_is_space (rev x))) @ rev (kill_word x)"
    by (simp add: kill_word_def)
  then show ?thesis by (metis rev_append rev_rev_ident)
qed

lemma edit_represents:
  assumes "represents l (x, y)" "op_ok p"
  shows "represents (fst (edit w p l)) (gap_edit p (x, y))"
proof -
  note d = representsD [OF assms(1)]
  show ?thesis
  proof (cases p)
    case (EInsert b)
    have "encs (x @ [ord b]) = encs x @ [b]" using assms(2) EInsert by (simp add: ascii_enc)
    with EInsert assms(2) d show ?thesis by (simp add: Insert_def Let_def represents_def ascii_enc)
  next
    case (EInsertRune r)
    with assms(2) d show ?thesis by (simp add: InsertRune_def Let_def represents_def)
  next
    case EBackspace
    show ?thesis
    proof (cases "x = []")
      case True
      with EBackspace assms(1) d show ?thesis by (simp add: Backspace_def)
    next
      case False
      with d(5) obtain x' r where x: "x = x' @ [r]" "list_all valid_rune x'" "valid_rune r" using snoc_obtain by blast
      have "DecodeLastRune (upto l) = (r, length (EncodeRune r))"
        unfolding d(1) x(1) using DecodeLastRune_enc [OF x(3)] by simp
      with EBackspace x d show ?thesis by (simp add: Backspace_def Let_def represents_def)
    qed
  next
    case EDelete
    show ?thesis
    proof (cases y)
      case Nil
      with EDelete assms(1) d show ?thesis by (simp add: Delete_def)
    next
      case (Cons r y')
      then have v: "valid_rune r" "list_all valid_rune y'" using d(6) by simp_all
      have "DecodeRune (after l) = (r, length (EncodeRune r))"
        unfolding d(2) Cons using DecodeRune_enc [OF v(1)] by simp
      with EDelete Cons v d show ?thesis by (simp add: Delete_def Let_def represents_def)
    qed
  next
    case ELeft
    show ?thesis
    proof (cases "x = []")
      case True
      with ELeft assms(1) d show ?thesis by (simp add: MoveLeft_def)
    next
      case False
      with d(5) obtain x' r where x: "x = x' @ [r]" "list_all valid_rune x'" "valid_rune r" using snoc_obtain by blast
      have "DecodeLastRune (upto l) = (r, length (EncodeRune r))"
        unfolding d(1) x(1) using DecodeLastRune_enc [OF x(3)] by simp
      with ELeft x d show ?thesis by (simp add: MoveLeft_def Let_def represents_def)
    qed
  next
    case ERight
    show ?thesis
    proof (cases y)
      case Nil
      with ERight assms(1) d show ?thesis by (simp add: MoveRight_def)
    next
      case (Cons r y')
      then have v: "valid_rune r" "list_all valid_rune y'" using d(6) by simp_all
      have "DecodeRune (after l) = (r, length (EncodeRune r))"
        unfolding d(2) Cons using DecodeRune_enc [OF v(1)] by simp
      with ERight Cons v d show ?thesis by (simp add: MoveRight_def Let_def represents_def)
    qed
  next
    case EKillWord
    obtain z where z: "x = kill_word x @ z" using kill_word_prefix by blast
    have v: "list_all valid_rune (kill_word x)" using d(5) z by (metis list_all_append)
    show ?thesis
    proof (cases "z = []")
      case True
      with z have "kill_word x = x" by simp
      with EKillWord assms(1) d kill_index [OF assms(1)] show ?thesis by (auto simp: KillPrevWord_def)
    next
      case False
      then have l: "length (encs (kill_word x)) < length (encs x)" by (subst (2) z) simp
      have t: "take (length (encs (kill_word x))) (encs x @ encs y) = encs (kill_word x)"
        by (subst (2) z) simp
      have "le_Cursor l \<noteq> 0" using l d by auto
      then show ?thesis using EKillWord l t v d(2,3,4,6) kill_index [OF assms(1)]
        by (simp add: KillPrevWord_def Let_def represents_def)
    qed
  next
    case (EReplace s)
    with assms(2) show ?thesis by (simp add: Replace_def represents_def)
  qed (use assms d in \<open>auto simp: MoveHome_def MoveEnd_def KillToStart_def KillToEnd_def Let_def represents_def\<close>)
qed

text \<open>C11: The byte buffer with its byte cursor refines a list of runes with a gap: for every sequence of
  primitives the cursor stays on a rune boundary inside the buffer, the buffer stays the UTF-8 encoding of
  the abstract text, and each primitive has exactly its abstract meaning; whatever the display widths.\<close>

theorem LineEdit_refines:
  assumes "represents l g" "\<forall>p\<in>set ps. op_ok p"
  shows "represents (fst (edits w ps l)) (fold gap_edit ps g)"
  using assms
proof (induction ps arbitrary: l g)
  case (Cons p ps)
  obtain x y where g: "g = (x, y)" by (cases g)
  have "represents (fst (edit w p l)) (gap_edit p g)"
    unfolding g using Cons.prems by (intro edit_represents) (simp_all add: g)
  from Cons.IH [OF this] Cons.prems(2) show ?case by (simp add: split_beta Let_def)
qed simp

theorem LineEdit_refines_witness:
  "represents (fst (edits (\<lambda>r. 1, length) [EInsertRune 0xE9, EInsert (CHR ''a''), ELeft, EBackspace]
     \<lparr>le_Buf = [], le_Cursor = 0\<rparr>)) ([], [97])"
  using LineEdit_refines [of "\<lparr>le_Buf = [], le_Cursor = 0\<rparr>" "([], [])"
      "[EInsertRune 0xE9, EInsert (CHR ''a''), ELeft, EBackspace]" "(\<lambda>r. 1, length)"]
  by (simp add: represents_def valid_rune_def)


section \<open>The display stays in sync\<close>

text \<open>A terminal row to the right of the prompt: backspace moves the cursor left, any other byte is drawn at
  the cursor, over what is there. (The row is as long as needed; a terminal's own line wrap is not modelled.)\<close>

record Terminal =
  tm_cells :: string
  tm_col :: nat

definition term_put :: "char \<Rightarrow> Terminal \<Rightarrow> Terminal" where
  "term_put c t =
     (if c = ASCII_BS then t\<lparr>tm_col := tm_col t - 1\<rparr>
      else \<lparr>tm_cells = take (tm_col t) (tm_cells t) @ [c] @ drop (tm_col t + 1) (tm_cells t),
            tm_col = tm_col t + 1\<rparr>)"

abbreviation shown :: "string \<Rightarrow> Terminal \<Rightarrow> Terminal" where "shown out t \<equiv> fold term_put out t"

definition printable :: "char \<Rightarrow> bool" where "printable c \<longleftrightarrow> 0x20 \<le> ord c \<and> ord c < 0x7F"

definition in_sync :: "Terminal \<Rightarrow> LineEdit \<Rightarrow> bool" where
  "in_sync t l \<longleftrightarrow> list_all printable (le_Buf l) \<and> le_Cursor l \<le> length (le_Buf l)
     \<and> (\<exists>k. tm_cells t = le_Buf l @ blanks k) \<and> tm_col t = le_Cursor l"

text \<open>What the width package documents for printable ASCII: one cell each.\<close>

definition ascii_widths :: "widths \<Rightarrow> bool" where
  "ascii_widths w \<longleftrightarrow> (\<forall>c. printable c \<longrightarrow> fst w (ord c) = 1) \<and> (\<forall>s. list_all printable s \<longrightarrow> snd w s = length s)"

fun op_ascii :: "edit_op \<Rightarrow> bool" where
  "op_ascii (EInsert b) \<longleftrightarrow> printable b"
| "op_ascii (EInsertRune r) \<longleftrightarrow> 0x20 \<le> r \<and> r < 0x7F"
| "op_ascii (EReplace s) \<longleftrightarrow> list_all printable s"
| "op_ascii _ \<longleftrightarrow> True"

lemma term_put_bs [simp]: "term_put ASCII_BS t = t\<lparr>tm_col := tm_col t - 1\<rparr>"
  by (simp add: term_put_def)

lemma term_put_char:
  "c \<noteq> ASCII_BS \<Longrightarrow> length a = n \<Longrightarrow>
   term_put c \<lparr>tm_cells = a @ b, tm_col = n\<rparr> = \<lparr>tm_cells = (a @ [c]) @ drop 1 b, tm_col = n + 1\<rparr>"
  by (simp add: term_put_def)

lemma shown_bs': "n \<le> c \<Longrightarrow> shown (bs n) \<lparr>tm_cells = a, tm_col = c\<rparr> = \<lparr>tm_cells = a, tm_col = c - n\<rparr>"
proof (induction n arbitrary: c)
  case (Suc n)
  have "shown (bs (Suc n)) \<lparr>tm_cells = a, tm_col = c\<rparr> = shown (bs n) \<lparr>tm_cells = a, tm_col = c - 1\<rparr>"
    unfolding replicate_Suc fold_simps by simp
  with Suc show ?case by simp
qed simp

lemma shown_text:
  "ASCII_BS \<notin> set s \<Longrightarrow> length a = c \<Longrightarrow>
   shown s \<lparr>tm_cells = a @ b, tm_col = c\<rparr> = \<lparr>tm_cells = a @ s @ drop (length s) b, tm_col = c + length s\<rparr>"
proof (induction s arbitrary: a b c)
  case (Cons x s)
  have "shown (x # s) \<lparr>tm_cells = a @ b, tm_col = c\<rparr> =
      shown s \<lparr>tm_cells = (a @ [x]) @ drop 1 b, tm_col = c + 1\<rparr>"
    unfolding fold_simps using Cons.prems by (subst term_put_char) auto
  also have "\<dots> = \<lparr>tm_cells = (a @ [x]) @ s @ drop (length s) (drop 1 b), tm_col = c + 1 + length s\<rparr>"
    using Cons.prems by (intro Cons.IH) auto
  finally show ?case by simp
qed simp

lemma shown_append: "shown (a @ b) t = shown b (shown a t)"
  by simp

lemma printable_not_bs: "list_all printable s \<Longrightarrow> ASCII_BS \<notin> set s"
  by (auto simp: list_all_iff printable_def ASCII_BS_def)

lemma blanks_not_bs: "ASCII_BS \<notin> set (blanks n)"
  by (simp add: ASCII_BS_def)

text \<open>The echo every removing primitive is an instance of: step back \<open>n\<close>, redraw the suffix over the removed
  text, blank the \<open>n\<close> freed cells, step back to the cursor.\<close>

lemma redraw_here:
  assumes "length a = c" "list_all printable s" "length x = n"
  shows "shown (s @ blanks n @ bs (length s + n)) \<lparr>tm_cells = a @ x @ s @ blanks k, tm_col = c\<rparr> =
    \<lparr>tm_cells = a @ s @ blanks (n + k), tm_col = c\<rparr>"
proof -
  have 2: "shown s \<lparr>tm_cells = a @ x @ s @ blanks k, tm_col = c\<rparr> =
      \<lparr>tm_cells = (a @ s) @ drop (length s) (x @ s @ blanks k), tm_col = c + length s\<rparr>"
    using shown_text [OF printable_not_bs [OF assms(2)] assms(1)] by simp
  have d: "drop n (drop (length s) (x @ s @ blanks k)) = blanks k"
    using assms(3) by (simp add: drop_drop add.commute)
  have 3: "shown (blanks n) \<lparr>tm_cells = (a @ s) @ drop (length s) (x @ s @ blanks k), tm_col = c + length s\<rparr> =
      \<lparr>tm_cells = (a @ s) @ blanks n @ blanks k, tm_col = c + length s + n\<rparr>"
    using shown_text [OF blanks_not_bs, of "a @ s" "c + length s" n] assms(1) by (simp only: d length_replicate length_append)
  have 4: "shown (bs (length s + n)) \<lparr>tm_cells = (a @ s) @ blanks n @ blanks k, tm_col = c + length s + n\<rparr> =
      \<lparr>tm_cells = (a @ s) @ blanks n @ blanks k, tm_col = c\<rparr>" by (subst shown_bs') simp_all
  show ?thesis unfolding shown_append 2 3 4 by (simp add: replicate_add)
qed

lemma redraw:
  assumes "length a = c" "list_all printable s" "length x = n"
  shows "shown (bs n @ s @ blanks n @ bs (length s + n)) \<lparr>tm_cells = a @ x @ s @ blanks k, tm_col = c + n\<rparr> =
    \<lparr>tm_cells = a @ s @ blanks (n + k), tm_col = c\<rparr>"
proof -
  have 1: "shown (bs n) \<lparr>tm_cells = a @ x @ s @ blanks k, tm_col = c + n\<rparr> =
      \<lparr>tm_cells = a @ x @ s @ blanks k, tm_col = c\<rparr>" by (subst shown_bs') simp_all
  show ?thesis unfolding shown_append [of "bs n"] 1 by (rule redraw_here [OF assms])
qed

lemma in_syncD:
  assumes "in_sync t l"
  shows "\<exists>x y k. l = \<lparr>le_Buf = x @ y, le_Cursor = length x\<rparr>
    \<and> t = \<lparr>tm_cells = x @ y @ blanks k, tm_col = length x\<rparr> \<and> list_all printable x \<and> list_all printable y"
proof -
  obtain k where k: "tm_cells t = le_Buf l @ blanks k" "tm_col t = le_Cursor l" "list_all printable (le_Buf l)"
    "le_Cursor l \<le> length (le_Buf l)" using assms by (auto simp: in_sync_def)
  have "l = \<lparr>le_Buf = upto l @ after l, le_Cursor = length (upto l)\<rparr>" using k(4) by simp
  moreover have "t = \<lparr>tm_cells = upto l @ after l @ blanks k, tm_col = length (upto l)\<rparr>"
    using k(1,2,4) by (simp add: append_assoc [symmetric] del: append_assoc)
  moreover have "list_all printable (upto l)" "list_all printable (after l)"
    using k(3) by (metis append_take_drop_id list_all_append)+
  ultimately show ?thesis by blast
qed

lemma in_syncI:
  "list_all printable x \<Longrightarrow> list_all printable y \<Longrightarrow>
   in_sync \<lparr>tm_cells = x @ y @ blanks k, tm_col = length x\<rparr> \<lparr>le_Buf = x @ y, le_Cursor = length x\<rparr>"
  by (auto simp: in_sync_def)

lemma ascii_last: "printable c \<Longrightarrow> DecodeLastRune (x @ [c]) = (ord c, 1)"
  by (simp add: DecodeLastRune_def printable_def)

lemma ascii_first: "printable c \<Longrightarrow> DecodeRune (c # x) = (ord c, 1)"
  by (simp add: DecodeRune_def printable_def)

lemma skip_back_le: "skip_back P buf i \<le> i"
proof (induction P buf i rule: skip_back.induct)
  case (1 P buf i)
  obtain r size where d: "DecodeLastRune (take i buf) = (r, size)" by (cases "DecodeLastRune (take i buf)")
  show ?case
  proof (cases "0 < i \<and> \<not> (size = 0 \<or> \<not> P r)")
    case True
    then have "skip_back P buf (i - size) \<le> i - size" using 1 [of "(r, size)" r size] d by simp
    with True show ?thesis unfolding skip_back.simps [of P buf i] d by simp
  next
    case False
    then show ?thesis unfolding skip_back.simps [of P buf i] d by auto
  qed
qed

lemma drop_Suc_length: "drop (Suc (length y)) (y @ z) = drop 1 z"
  by simp

lemma widths_one:
  assumes "ascii_widths w"
  shows "printable c \<Longrightarrow> runeCellWidth w (ord c) = 1" "list_all printable s \<Longrightarrow> cellWidth w s = length s"
  using assms by (simp_all add: ascii_widths_def runeCellWidth_def cellWidth_def)

lemma insert_shown:
  assumes "printable b" "list_all printable y"
  shows "shown ([b] @ y @ bs (length y)) \<lparr>tm_cells = x @ y @ blanks k, tm_col = length x\<rparr> =
    \<lparr>tm_cells = (x @ [b]) @ y @ blanks (k - 1), tm_col = length (x @ [b])\<rparr>"
proof -
  have nb: "ASCII_BS \<notin> set ([b] @ y)" using assms printable_not_bs [of "[b] @ y"] by simp
  have "shown ([b] @ y) \<lparr>tm_cells = x @ y @ blanks k, tm_col = length x\<rparr> =
      \<lparr>tm_cells = (x @ [b]) @ y @ blanks (k - 1), tm_col = length (x @ [b]) + length y\<rparr>"
    using shown_text [OF nb refl, of x "y @ blanks k"] by (simp add: drop_Suc_length)
  moreover have "shown (bs (length y)) \<lparr>tm_cells = (x @ [b]) @ y @ blanks (k - 1), tm_col = length (x @ [b]) + length y\<rparr> =
      \<lparr>tm_cells = (x @ [b]) @ y @ blanks (k - 1), tm_col = length (x @ [b])\<rparr>"
    by (subst shown_bs') simp_all
  ultimately show ?thesis unfolding append_assoc [symmetric, of "[b]"] shown_append [of _ "bs (length y)"] by simp
qed


lemma edit_in_sync:
  assumes w: "ascii_widths w" and s: "in_sync t l" and p: "op_ascii p"
  shows "in_sync (shown (snd (edit w p l)) t) (fst (edit w p l))"
proof -
  obtain x y k where l: "l = \<lparr>le_Buf = x @ y, le_Cursor = length x\<rparr>"
    and t: "t = \<lparr>tm_cells = x @ y @ blanks k, tm_col = length x\<rparr>"
    and v: "list_all printable x" "list_all printable y"
    using in_syncD [OF s] by blast
  note cw = widths_one [OF w]
  note i = in_syncI
  show ?thesis
  proof (cases p)
    case (EInsert b)
    then have b: "printable b" using p by simp
    have "snd (edit w p l) = [b] @ y @ bs (length y)" "fst (edit w p l) = \<lparr>le_Buf = (x @ [b]) @ y, le_Cursor = length (x @ [b])\<rparr>"
      using EInsert v cw by (simp_all add: l Insert_def Let_def)
    then show ?thesis using insert_shown [OF b v(2)] i [of "x @ [b]" y] v b by (simp only: t) simp
  next
    case (EInsertRune r)
    then have r: "printable (char_of r)" "EncodeRune r = [char_of r]" using p
      by (simp_all add: printable_def EncodeRune_def valid_rune_def Let_def)
    have "snd (edit w p l) = [char_of r] @ y @ bs (length y)"
      "fst (edit w p l) = \<lparr>le_Buf = (x @ [char_of r]) @ y, le_Cursor = length (x @ [char_of r])\<rparr>"
      using EInsertRune v cw r by (simp_all add: l InsertRune_def Let_def)
    then show ?thesis using insert_shown [OF r(1) v(2)] i [of "x @ [char_of r]" y] v r by (simp only: t) simp
  next
    case EBackspace
    show ?thesis
    proof (cases x rule: rev_cases)
      case (snoc x' c)
      then have c: "printable c" "list_all printable x'" using v by simp_all
      have "edit w p l = (\<lparr>le_Buf = x' @ y, le_Cursor = length x'\<rparr>, bs 1 @ y @ blanks 1 @ bs (length y + 1))"
        using EBackspace snoc cw c v ascii_last by (simp add: l Backspace_def Let_def)
      then show ?thesis using redraw [OF refl v(2), of "[c]" 1 x' k] i [OF c(2) v(2), of "Suc k"] by (simp add: t snoc)
    qed (use EBackspace s in \<open>simp add: l Backspace_def\<close>)
  next
    case EDelete
    show ?thesis
    proof (cases y)
      case (Cons c y')
      then have c: "printable c" "list_all printable y'" using v by simp_all
      have "edit w p l = (\<lparr>le_Buf = x @ y', le_Cursor = length x\<rparr>, y' @ blanks 1 @ bs (length y' + 1))"
        using EDelete Cons cw c v ascii_first by (simp add: l Delete_def Let_def)
      then show ?thesis using redraw_here [OF refl c(2), of "[c]" 1 x k] i [OF v(1) c(2), of "Suc k"] by (simp add: t Cons)
    qed (use EDelete s in \<open>simp add: l Delete_def\<close>)
  next
    case ELeft
    show ?thesis
    proof (cases x rule: rev_cases)
      case (snoc x' c)
      then have c: "printable c" "list_all printable x'" "list_all printable (c # y)" using v by simp_all
      have "edit w p l = (\<lparr>le_Buf = x' @ c # y, le_Cursor = length x'\<rparr>, bs 1)"
        using ELeft snoc cw c v ascii_last by (simp add: l MoveLeft_def Let_def)
      then show ?thesis using i [OF c(2,3), of k] by (simp add: t snoc)
    qed (use ELeft s in \<open>simp add: l MoveLeft_def\<close>)
  next
    case ERight
    show ?thesis
    proof (cases y)
      case (Cons c y')
      then have c: "printable c" "list_all printable y'" "list_all printable (x @ [c])" using v by simp_all
      have "edit w p l = (\<lparr>le_Buf = (x @ [c]) @ y', le_Cursor = length (x @ [c])\<rparr>, [c])"
        using ERight Cons cw c v ascii_first by (simp add: l MoveRight_def Let_def)
      moreover have "ASCII_BS \<notin> set [c]" using c printable_not_bs [of "[c]"] by simp
      ultimately show ?thesis using shown_text [of "[c]" x "length x"] i [OF c(3,2), of k] by (simp add: t Cons)
    qed (use ERight s in \<open>simp add: l MoveRight_def\<close>)
  next
    case EHome
    have "shown (bs (length x)) t = \<lparr>tm_cells = [] @ (x @ y) @ blanks k, tm_col = length ([] :: string)\<rparr>"
      unfolding t by (subst shown_bs') simp_all
    moreover have "edit w p l = (\<lparr>le_Buf = [] @ (x @ y), le_Cursor = length ([] :: string)\<rparr>, bs (length x))"
      using EHome v cw by (cases "x = []") (simp_all add: l MoveHome_def)
    ultimately show ?thesis using i [of "[]" "x @ y" k] v by (simp only: fst_conv snd_conv) simp
  next
    case EEnd
    have "shown y t = \<lparr>tm_cells = (x @ y) @ [] @ blanks k, tm_col = length (x @ y)\<rparr>"
      using shown_text [OF printable_not_bs [OF v(2)], of x "length x"] by (simp add: t)
    moreover have "edit w p l = (\<lparr>le_Buf = (x @ y) @ [], le_Cursor = length (x @ y)\<rparr>, y)"
      using EEnd by (cases "y = []") (simp_all add: l MoveEnd_def)
    ultimately show ?thesis using i [of "x @ y" "[]" k] v by (simp only: fst_conv snd_conv) simp
  next
    case EKillStart
    show ?thesis
    proof (cases "x = []")
      case False
      then have "edit w p l = (\<lparr>le_Buf = [] @ y, le_Cursor = length ([] :: string)\<rparr>,
          bs (length x) @ y @ blanks (length x) @ bs (length y + length x))"
        using EKillStart v cw by (simp add: l KillToStart_def Let_def)
      then show ?thesis using redraw [of "[]" 0 y x "length x" k] i [of "[]" y "length x + k"] v
        by (simp only: t fst_conv snd_conv) simp
    qed (use EKillStart s in \<open>simp add: l KillToStart_def\<close>)
  next
    case EKillEnd
    show ?thesis
    proof (cases "y = []")
      case False
      then have "edit w p l = (\<lparr>le_Buf = x @ [], le_Cursor = length x\<rparr>, [] @ blanks (length y) @ bs (length ([] :: string) + length y))"
        using EKillEnd v cw by (simp add: l KillToEnd_def Let_def)
      then show ?thesis using redraw_here [of x "length x" "[]" y "length y" k] i [of x "[]" "length y + k"] v
        by (simp only: t fst_conv snd_conv) simp
    qed (use EKillEnd s in \<open>simp add: l KillToEnd_def\<close>)
  next
    case EKillWord
    define n where "n = skip_back (\<lambda>r. \<not> rune_is_space r) (x @ y) (skip_back rune_is_space (x @ y) (length x))"
    have n: "n \<le> length x" unfolding n_def by (rule order_trans [OF skip_back_le skip_back_le])
    show ?thesis
    proof (cases "x = [] \<or> n = length x")
      case True
      then show ?thesis using EKillWord s by (auto simp: l KillPrevWord_def n_def Let_def)
    next
      case False
      define a where "a = take n x"
      define z where "z = drop n x"
      have az: "x = a @ z" "length a = n" using n by (simp_all add: a_def z_def)
      have va: "list_all printable a" "list_all printable z" using v(1) unfolding az(1) by simp_all
      have tk: "take n (x @ y) = a" using n by (simp add: a_def)
      have "edit w p l = (\<lparr>le_Buf = a @ y, le_Cursor = length a\<rparr>,
          bs (length z) @ y @ blanks (length z) @ bs (length y + length z))"
        using EKillWord False v va(2) cw az(2) tk
        by (simp add: l KillPrevWord_def Let_def n_def [symmetric] z_def [symmetric])
      then show ?thesis using redraw [OF refl v(2) refl, of z a k] i [OF va(1) v(2), of "length z + k"]
        by (simp only: t az(1) fst_conv snd_conv append_assoc length_append)
    qed
  next
    case (EReplace q)
    then have q: "list_all printable q" using p by simp
    define m where "m = length (x @ y)"
    have vm: "cellWidth w x = length x" "cellWidth w (x @ y) = m" using v cw by (simp_all add: m_def)
    have e: "edit w p l = (\<lparr>le_Buf = q @ [], le_Cursor = length q\<rparr>, bs (length x) @ blanks m @ bs m @ q)"
      using EReplace vm by (simp add: l Replace_def)
    have 1: "shown (bs (length x)) t = \<lparr>tm_cells = [] @ (x @ y) @ blanks k, tm_col = 0\<rparr>"
      unfolding t by (subst shown_bs') simp_all
    have 2: "shown (blanks m) \<lparr>tm_cells = [] @ (x @ y) @ blanks k, tm_col = 0\<rparr> =
        \<lparr>tm_cells = blanks m @ blanks k, tm_col = m\<rparr>"
      using shown_text [OF blanks_not_bs, of "[]" 0 m "(x @ y) @ blanks k"] by (simp add: m_def)
    have 3: "shown (bs m) \<lparr>tm_cells = blanks m @ blanks k, tm_col = m\<rparr> = \<lparr>tm_cells = [] @ blanks (m + k), tm_col = 0\<rparr>"
      by (subst shown_bs') (simp_all add: replicate_add)
    have 4: "shown q \<lparr>tm_cells = [] @ blanks (m + k), tm_col = 0\<rparr> =
        \<lparr>tm_cells = q @ [] @ blanks (m + k - length q), tm_col = length q\<rparr>"
      using shown_text [OF printable_not_bs [OF q], of "[]" 0 "blanks (m + k)"] by simp
    show ?thesis unfolding e fst_conv snd_conv shown_append [of "bs (length x)"] 1 shown_append [of "blanks m"] 2
        shown_append [of "bs m"] 3 4 using i [OF q, of "[]" "m + k - length q"] by simp
  qed
qed

text \<open>What the player sees is what will be sent: for every sequence of primitives on printable ASCII, with
  width functions that give such characters one cell, the bytes the primitives echo keep the terminal row
  equal to the buffer (then blanks) and the terminal cursor at the buffer's cursor.\<close>

lemma display_in_sync:
  assumes "ascii_widths w" "in_sync t l" "\<forall>p\<in>set ps. op_ascii p"
  shows "in_sync (shown (snd (edits w ps l)) t) (fst (edits w ps l))"
  using assms(2,3)
proof (induction ps arbitrary: l t)
  case (Cons p ps)
  have "in_sync (shown (snd (edit w p l)) t) (fst (edit w p l))"
    using Cons.prems by (intro edit_in_sync [OF assms(1)]) simp_all
  from Cons.IH [OF this] Cons.prems(2) show ?case by (simp add: split_beta Let_def)
qed simp

section \<open>Navigation\<close>

text \<open>The invariant of the ring: at most 100 entries, none empty, no two equal neighbours, the cursor inside.\<close>

definition history_ok :: "History \<Rightarrow> bool" where
  "history_ok h \<longleftrightarrow> length (hi_entries h) \<le> historyCap \<and> hi_idx h \<le> length (hi_entries h)
     \<and> [] \<notin> set (hi_entries h) \<and> distinct_adj (hi_entries h)"

datatype history_op = HAdd string | HPrev string | HNext

fun history_step :: "history_op \<Rightarrow> History \<Rightarrow> History" where
  "history_step (HAdd line) h = HistoryAdd line h"
| "history_step (HPrev live) h = fst (HistoryPrev live h)"
| "history_step HNext h = fst (HistoryNext h)"

lemma history_step_ok: "history_ok h \<Longrightarrow> history_ok (history_step p h)"
proof (cases p)
  case (HAdd line)
  assume h: "history_ok h"
  define es where "es = (if length (hi_entries h) = historyCap then tl (hi_entries h) else hi_entries h)"
  have es: "length es < historyCap" "[] \<notin> set es" "distinct_adj es"
    using h by (cases "hi_entries h"; auto simp: es_def history_ok_def historyCap_def dest: distinct_adj_ConsD)+
  have ls: "es = [] \<or> last es = last (hi_entries h)"
    by (cases "hi_entries h") (auto simp: es_def)
  show ?thesis
  proof (cases "line = [] \<or> (hi_entries h \<noteq> [] \<and> last (hi_entries h) = line)")
    case True
    then show ?thesis using h by (auto simp: HAdd HistoryAdd_def HistoryReset_def history_ok_def)
  next
    case False
    have "distinct_adj (es @ [line])"
      using es(3) ls False by (cases "es = []") (auto simp: distinct_adj_append_iff es_def split: if_splits)
    moreover have "HistoryAdd line h = HistoryReset (h\<lparr>hi_entries := es @ [line]\<rparr>)"
      using False by (auto simp: HistoryAdd_def Let_def es_def)
    ultimately show ?thesis using es False by (auto simp: HAdd HistoryReset_def history_ok_def)
  qed
qed (auto simp: HistoryPrev_def HistoryNext_def history_ok_def Let_def)

fun prevs :: "nat \<Rightarrow> string \<Rightarrow> History \<Rightarrow> History" where
  "prevs 0 live h = h"
| "prevs (Suc n) live h = fst (HistoryPrev live (prevs n live h))"

fun nexts :: "nat \<Rightarrow> History \<Rightarrow> History \<times> string option" where
  "nexts 0 h = (h, None)"
| "nexts (Suc n) h = (case HistoryNext h of (h1, r) \<Rightarrow> if n = 0 then (h1, r) else nexts n h1)"

lemma prevs_pos:
  "n \<le> length (hi_entries h) \<Longrightarrow> 0 < n \<Longrightarrow> hi_idx h = length (hi_entries h) \<Longrightarrow>
   prevs n live h = h\<lparr>hi_idx := length (hi_entries h) - n, hi_draft := live\<rparr>"
proof (induction n)
  case (Suc n)
  show ?case
  proof (cases "n = 0")
    case True
    then show ?thesis using Suc.prems by (auto simp: HistoryPrev_def Let_def)
  next
    case False
    with Suc have "prevs n live h = h\<lparr>hi_idx := length (hi_entries h) - n, hi_draft := live\<rparr>" by simp
    then show ?thesis using Suc.prems False by (auto simp: HistoryPrev_def Let_def)
  qed
qed simp

lemma nexts_pos:
  "n \<le> length es \<Longrightarrow> 0 < n \<Longrightarrow>
   nexts n \<lparr>hi_entries = es, hi_idx = length es - n, hi_draft = d\<rparr> =
     (\<lparr>hi_entries = es, hi_idx = length es, hi_draft = []\<rparr>, Some d)"
proof (induction n)
  case (Suc n)
  show ?case
  proof (cases "n = 0")
    case True
    then show ?thesis using Suc.prems by (auto simp: HistoryNext_def Let_def)
  next
    case False
    have "HistoryNext \<lparr>hi_entries = es, hi_idx = length es - Suc n, hi_draft = d\<rparr> =
        (\<lparr>hi_entries = es, hi_idx = length es - n, hi_draft = d\<rparr>, Some (es ! (length es - n)))"
    proof -
      have "Suc (length es - Suc n) = length es - n" "length es - n \<noteq> length es" using Suc.prems False by arith+
      then show ?thesis using Suc.prems by (simp add: HistoryNext_def Let_def)
    qed
    then show ?thesis using Suc False by simp
  qed
qed simp

text \<open>The history keeps its invariant under every sequence of entered lines and arrow keys, the line just
  entered is its newest entry, and walking \<open>n\<close> entries up and \<open>n\<close> down again gives back the line that was
  being typed, unchanged, having stopped at the \<open>n\<close>-th newest entry.\<close>

lemma history_navigation:
  assumes "history_ok h" "0 < n" "n \<le> length (hi_entries (HistoryAdd line (fold history_step ps h)))" "line \<noteq> []"
  shows "history_ok (HistoryAdd line (fold history_step ps h))
    \<and> last (hi_entries (HistoryAdd line (fold history_step ps h))) = line
    \<and> (let h' = HistoryAdd line (fold history_step ps h)
       in hi_idx (prevs n live h') = length (hi_entries h') - n
          \<and> nexts n (prevs n live h') = (h', Some live))"
proof -
  define h' where "h' = HistoryAdd line (fold history_step ps h)"
  have f: "history_ok (fold history_step ps h)" using assms(1)
    by (induction ps arbitrary: h) (auto simp: history_step_ok)
  from history_step_ok [OF f, of "HAdd line"] have ok: "history_ok h'" by (simp add: h'_def)
  have r: "hi_idx h' = length (hi_entries h')" "hi_draft h' = []" "last (hi_entries h') = line"
    using assms(4) by (auto simp: h'_def HistoryAdd_def HistoryReset_def Let_def)
  have p: "prevs n live h' = h'\<lparr>hi_idx := length (hi_entries h') - n, hi_draft := live\<rparr>"
    using assms(2,3) r(1) by (intro prevs_pos) (simp_all add: h'_def)
  have "nexts n (prevs n live h') = (h', Some live)"
    using nexts_pos [of n "hi_entries h'" live] assms(2,3) r unfolding p
    by (cases h') (simp add: h'_def [symmetric])
  with ok r p show ?thesis unfolding h'_def [symmetric] by (simp add: Let_def)
qed

end
