(* ===== verification/Tokenizer.thy ===== *)
theory Tokenizer
  imports GoPrelude
begin

text \<open>
  \<open>telnet/tokenize.go\<close>: the argument tokenizer, the command separator and the trailing partial for tab
  completion. Each \<open>for\<close> loop is one structural recursion whose parameters are the loop's variables; the
  byte read ahead after a backslash is a second pattern.
\<close>

section \<open>The tokenizer\<close>

datatype token_error = ErrUnbalancedQuote

definition DQ :: char where "DQ = CHR 0x22"
definition SQ :: char where "SQ = CHR 0x27"
definition BSL :: char where "BSL = CHR 0x5C"
definition TAB :: char where "TAB = CHR 0x09"

lemmas quote_bytes = DQ_def SQ_def BSL_def TAB_def

definition unescape :: "char \<Rightarrow> char" where
  "unescape next = (if next = CHR ''n'' then CHR 0x0A else if next = CHR ''t'' then CHR 0x09
                    else if next = CHR ''r'' then CHR 0x0D else next)"

fun tok_loop :: "string list \<Rightarrow> string \<Rightarrow> bool \<Rightarrow> char option \<Rightarrow> string \<Rightarrow> token_error + string list" where
  "tok_loop out cur inTok quote [] =
     (if quote \<noteq> None then Inl ErrUnbalancedQuote else Inr (if inTok then out @ [cur] else out))"
| "tok_loop out cur inTok quote (c # cs) =
     (case quote of
        None \<Rightarrow>
          if c = CHR '' '' \<or> c = TAB then
            (if inTok then tok_loop (out @ [cur]) [] False None cs else tok_loop out cur inTok None cs)
          else if c = DQ \<or> c = SQ then tok_loop out cur True (Some c) cs
          else if c = BSL \<and> cs \<noteq> [] then
            (case cs of n # cs' \<Rightarrow> tok_loop out (cur @ [n]) True None cs' | [] \<Rightarrow> Inr out)
          else tok_loop out (cur @ [c]) True None cs
      | Some q \<Rightarrow>
          if c = q then tok_loop out cur inTok None cs
          else if q = DQ \<and> c = BSL \<and> cs \<noteq> [] then
            (case cs of n # cs' \<Rightarrow> tok_loop out (cur @ [unescape n]) inTok quote cs' | [] \<Rightarrow> Inr out)
          else tok_loop out (cur @ [c]) inTok quote cs)"

definition Tokenize :: "string \<Rightarrow> token_error + string list" where
  "Tokenize s = (if s = [] then Inr [] else tok_loop [] [] False None s)"

section \<open>The separator\<close>

definition flush_seg :: "string list \<Rightarrow> string \<Rightarrow> string list" where
  "flush_seg out cur = (let seg = trim_space cur in if seg \<noteq> [] then out @ [seg] else out)"

fun semi_loop :: "string list \<Rightarrow> string \<Rightarrow> char option \<Rightarrow> string \<Rightarrow> token_error + string list" where
  "semi_loop out cur quote [] =
     (if quote \<noteq> None then Inl ErrUnbalancedQuote else Inr (flush_seg out cur))"
| "semi_loop out cur quote (c # cs) =
     (case quote of
        None \<Rightarrow>
          if c = CHR '';'' then semi_loop (flush_seg out cur) [] None cs
          else if c = DQ \<or> c = SQ then semi_loop out (cur @ [c]) (Some c) cs
          else if c = BSL \<and> cs \<noteq> [] then
            (case cs of n # cs' \<Rightarrow> semi_loop out (cur @ [c, n]) None cs' | [] \<Rightarrow> Inr out)
          else semi_loop out (cur @ [c]) None cs
      | Some q \<Rightarrow>
          if c = q then semi_loop out (cur @ [c]) None cs
          else if q = DQ \<and> c = BSL \<and> cs \<noteq> [] then
            (case cs of n # cs' \<Rightarrow> semi_loop out (cur @ [c, n]) quote cs' | [] \<Rightarrow> Inr out)
          else semi_loop out (cur @ [c]) quote cs)"

definition SplitOnSemicolon :: "string \<Rightarrow> token_error + string list" where
  "SplitOnSemicolon s = (if s = [] then Inr [] else semi_loop [] [] None s)"

section \<open>The trailing partial\<close>

text \<open>The loop keeps the current index, the start of the token and its two flags.\<close>

fun partial_loop :: "nat \<Rightarrow> nat \<Rightarrow> bool \<Rightarrow> char option \<Rightarrow> string \<Rightarrow> nat \<times> bool \<times> char option" where
  "partial_loop i start hasToken quote [] = (start, hasToken, quote)"
| "partial_loop i start hasToken quote (c # cs) =
     (case quote of
        None \<Rightarrow>
          (let start' = (if hasToken then start else i)
           in if c = CHR '' '' \<or> c = TAB then partial_loop (i + 1) start False None cs
              else if c = DQ \<or> c = SQ then partial_loop (i + 1) start' True (Some c) cs
              else if c = BSL \<and> cs \<noteq> [] then
                (case cs of n # cs' \<Rightarrow> partial_loop (i + 2) start' True None cs' | [] \<Rightarrow> (start', True, None))
              else partial_loop (i + 1) start' True None cs)
      | Some q \<Rightarrow>
          if c = q then partial_loop (i + 1) start hasToken None cs
          else if q = DQ \<and> c = BSL \<and> cs \<noteq> [] then
            (case cs of n # cs' \<Rightarrow> partial_loop (i + 2) start hasToken quote cs' | [] \<Rightarrow> (start, hasToken, quote))
          else partial_loop (i + 1) start hasToken quote cs)"

definition CompletionPartial :: "string \<Rightarrow> string \<times> bool" where
  "CompletionPartial buf =
     (let (start, hasToken, quote) = partial_loop 0 0 False None buf
      in if \<not> hasToken then ([], quote \<noteq> None) else (drop start buf, quote \<noteq> None))"

section \<open>Quoting: every argument list can be typed\<close>

text \<open>The quoted form of an argument, as the grammar in the source's comment defines it.\<close>

definition quote_char :: "char \<Rightarrow> string" where
  "quote_char c = (if c = DQ \<or> c = BSL then [BSL, c] else [c])"

definition quote_arg :: "string \<Rightarrow> string" where
  "quote_arg a = DQ # concat (map quote_char a) @ [DQ]"

fun words :: "string list \<Rightarrow> string" where
  "words [] = []"
| "words [a] = quote_arg a"
| "words (a # b # as) = quote_arg a @ CHR '' '' # words (b # as)"

fun line_of :: "string list list \<Rightarrow> string" where
  "line_of [] = []"
| "line_of [c] = words c"
| "line_of (c # d # cs) = words c @ CHR '';'' # line_of (d # cs)"

lemma unescape_quoted [simp]: "unescape DQ = DQ" "unescape BSL = BSL"
  by (simp_all add: unescape_def quote_bytes)

lemma tok_quoted:
  "tok_loop out cur inTok (Some DQ) (concat (map quote_char a) @ DQ # s) = tok_loop out (cur @ a) inTok None s"
proof (induction a arbitrary: cur)
  case (Cons c a)
  then show ?case by (cases "c = DQ \<or> c = BSL") (auto simp: quote_char_def quote_bytes unescape_def)
qed simp

lemma tok_arg: "tok_loop out cur inTok None (quote_arg a @ s) = tok_loop out (cur @ a) True None s"
  by (simp add: quote_arg_def tok_quoted) (simp add: quote_bytes)

lemma tok_words: "as \<noteq> [] \<Longrightarrow> tok_loop out [] False None (words as) = Inr (out @ as)"
proof (induction as arbitrary: out rule: words.induct)
  case (2 a)
  then show ?case using tok_arg [of out "[]" False a "[]"] by simp
next
  case (3 a b as)
  then show ?case by (simp add: tok_arg)
qed simp

lemma split_quoted:
  "semi_loop out cur (Some DQ) (concat (map quote_char a) @ DQ # s) =
     semi_loop out (cur @ concat (map quote_char a) @ [DQ]) None s"
proof (induction a arbitrary: cur)
  case (Cons c a)
  then show ?case by (cases "c = DQ \<or> c = BSL") (auto simp: quote_char_def quote_bytes)
qed simp

lemma split_arg: "semi_loop out cur None (quote_arg a @ s) = semi_loop out (cur @ quote_arg a) None s"
  by (simp add: quote_arg_def split_quoted) (simp add: quote_bytes)

lemma split_words: "semi_loop out cur None (words as @ s) = semi_loop out (cur @ words as) None s"
proof (induction as arbitrary: cur rule: words.induct)
  case (2 a)
  then show ?case by (simp add: split_arg)
next
  case (3 a b as)
  have "semi_loop out cur None (words (a # b # as) @ s) =
      semi_loop out (cur @ quote_arg a @ '' '') None (words (b # as) @ s)"
    by (simp add: split_arg) (simp add: quote_bytes)
  with 3 show ?case by simp
qed simp

lemma words_ends: "as \<noteq> [] \<Longrightarrow> words as \<noteq> [] \<and> hd (words as) = DQ \<and> last (words as) = DQ"
  by (induction as rule: words.induct) (auto simp: quote_arg_def)

lemma trim_words: "as \<noteq> [] \<Longrightarrow> trim_space (words as) = words as"
  using words_ends [of as] by (intro trim_space_id) (auto simp: DQ_def is_space_def)

lemma split_line:
  "cmds \<noteq> [] \<Longrightarrow> [] \<notin> set cmds \<Longrightarrow> semi_loop out [] None (line_of cmds) = Inr (out @ map words cmds)"
proof (induction cmds arbitrary: out rule: line_of.induct)
  case (2 c)
  then show ?case using split_words [of out "[]" c "[]"] words_ends [of c]
    by (simp add: flush_seg_def trim_words Let_def)
next
  case (3 c d cs)
  have c: "c \<noteq> []" using 3(3) by auto
  have "semi_loop out [] None (line_of (c # d # cs)) = semi_loop (out @ [words c]) [] None (line_of (d # cs))"
    using split_words [of out "[]" c "CHR '';'' # line_of (d # cs)"] words_ends [OF c]
    by (simp add: flush_seg_def trim_words [OF c] Let_def)
  with 3 show ?case by simp
qed simp

text \<open>C10: Every list of commands can be typed on one line: quoting the arguments (doubling quotes and backslashes
  with a backslash) and joining with blanks and semicolons is undone exactly by \<open>SplitOnSemicolon\<close> and
  \<open>Tokenize\<close>, whatever bytes the arguments contain, semicolons, quotes and blanks included.\<close>

theorem quoting_roundtrip:
  assumes "cmds \<noteq> []" "[] \<notin> set cmds"
  shows "SplitOnSemicolon (line_of cmds) = Inr (map words cmds) \<and> (\<forall>c\<in>set cmds. Tokenize (words c) = Inr c)"
proof -
  have "line_of cmds \<noteq> []" using assms words_ends by (cases cmds rule: line_of.cases) auto
  then have "SplitOnSemicolon (line_of cmds) = Inr (map words cmds)"
    using split_line [OF assms, of "[]"] by (simp add: SplitOnSemicolon_def)
  moreover have "Tokenize (words c) = Inr c" if "c \<in> set cmds" for c
    using that assms(2) tok_words [of c "[]"] words_ends [of c] by (auto simp: Tokenize_def)
  ultimately show ?thesis by blast
qed

theorem quoting_roundtrip_witness:
  "SplitOnSemicolon (line_of [[''say'', ''a;b''], [''look'']]) = Inr (map words [[''say'', ''a;b''], [''look'']])"
  using quoting_roundtrip [of "[[''say'', ''a;b''], [''look'']]"] by simp

text \<open>The quoting state alone.\<close>

fun unbalanced :: "char option \<Rightarrow> string \<Rightarrow> bool" where
  "unbalanced quote [] = (quote \<noteq> None)"
| "unbalanced quote (c # cs) =
     (case quote of
        None \<Rightarrow> if c = DQ \<or> c = SQ then unbalanced (Some c) cs
          else if c = BSL \<and> cs \<noteq> [] then (case cs of n # cs' \<Rightarrow> unbalanced None cs' | [] \<Rightarrow> False)
          else unbalanced None cs
      | Some q \<Rightarrow> if c = q then unbalanced None cs
          else if q = DQ \<and> c = BSL \<and> cs \<noteq> [] then (case cs of n # cs' \<Rightarrow> unbalanced quote cs' | [] \<Rightarrow> False)
          else unbalanced quote cs)"

lemma separators_plain:
  "CHR '' '' \<noteq> DQ" "CHR '' '' \<noteq> SQ" "CHR '' '' \<noteq> BSL" "TAB \<noteq> DQ" "TAB \<noteq> SQ" "TAB \<noteq> BSL"
  "CHR '';'' \<noteq> DQ" "CHR '';'' \<noteq> SQ" "CHR '';'' \<noteq> BSL"
  by (simp_all add: quote_bytes)

lemma tok_unbalanced: "(tok_loop out cur inTok quote s = Inl ErrUnbalancedQuote) = unbalanced quote s"
proof (induction out cur inTok quote s rule: tok_loop.induct)
  case (2 out cur inTok quote c cs)
  show ?case
  proof (cases quote)
    case None
    consider "c = CHR '' '' \<or> c = TAB" | "c = DQ \<or> c = SQ" | "c = BSL" "cs \<noteq> []"
      | "c \<noteq> CHR '' ''" "c \<noteq> TAB" "c \<noteq> DQ" "c \<noteq> SQ" "c \<noteq> BSL \<or> cs = []" by blast
    then show ?thesis
    proof cases
      case 1
      then have "\<not> (c = DQ \<or> c = SQ)" "c \<noteq> BSL" using separators_plain by auto
      then show ?thesis using None 1 2(1,2) by simp
    next
      case c: 2
      then have "\<not> (c = CHR '' '' \<or> c = TAB)" using separators_plain by auto
      then show ?thesis using None c 2(3) by simp
    next
      case c: 3
      then obtain n cs' where cs: "cs = n # cs'" by (cases cs) auto
      have "\<not> (c = CHR '' '' \<or> c = TAB)" "\<not> (c = DQ \<or> c = SQ)" using c(1) separators_plain by (auto simp: quote_bytes)
      then show ?thesis using None c cs 2(4) by simp
    next
      case 4
      then show ?thesis using None 2(5) by simp
    qed
  next
    case (Some q)
    consider "c = q" | "c \<noteq> q" "q = DQ" "c = BSL" "cs \<noteq> []" | "c \<noteq> q" "\<not> (q = DQ \<and> c = BSL \<and> cs \<noteq> [])" by blast
    then show ?thesis
    proof cases
      case 1
      then show ?thesis using Some 2(6) by simp
    next
      case c: 2
      then obtain n cs' where cs: "cs = n # cs'" by (cases cs) auto
      show ?thesis using Some c cs 2(7) by simp
    next
      case 3
      then show ?thesis using Some 2(8) by simp
    qed
  qed
qed simp

lemma split_unbalanced: "(semi_loop out cur quote s = Inl ErrUnbalancedQuote) = unbalanced quote s"
proof (induction out cur quote s rule: semi_loop.induct)
  case (2 out cur quote c cs)
  show ?case
  proof (cases quote)
    case None
    consider "c = CHR '';''" | "c = DQ \<or> c = SQ" | "c = BSL" "cs \<noteq> []"
      | "c \<noteq> CHR '';''" "c \<noteq> DQ" "c \<noteq> SQ" "c \<noteq> BSL \<or> cs = []" by blast
    then show ?thesis
    proof cases
      case 1
      then have "\<not> (c = DQ \<or> c = SQ)" "c \<noteq> BSL" using separators_plain by auto
      then show ?thesis using None 1 2(1) by simp
    next
      case c: 2
      then have "c \<noteq> CHR '';''" using separators_plain by auto
      then show ?thesis using None c 2(2) by simp
    next
      case c: 3
      then obtain n cs' where cs: "cs = n # cs'" by (cases cs) auto
      have "c \<noteq> CHR '';''" "\<not> (c = DQ \<or> c = SQ)" using c(1) separators_plain by (auto simp: quote_bytes)
      then show ?thesis using None c cs 2(3) by simp
    next
      case 4
      then show ?thesis using None 2(4) by simp
    qed
  next
    case (Some q)
    consider "c = q" | "c \<noteq> q" "q = DQ" "c = BSL" "cs \<noteq> []" | "c \<noteq> q" "\<not> (q = DQ \<and> c = BSL \<and> cs \<noteq> [])" by blast
    then show ?thesis
    proof cases
      case 1
      then show ?thesis using Some 2(5) by simp
    next
      case c: 2
      then obtain n cs' where cs: "cs = n # cs'" by (cases cs) auto
      show ?thesis using Some c cs 2(6) by simp
    next
      case 3
      then show ?thesis using Some 2(7) by simp
    qed
  qed
qed simp

text \<open>The separator and the tokenizer agree on quoting: for every input, one reports an unbalanced quote
  exactly when the other does.\<close>

lemma split_and_tokenize_agree:
  "(SplitOnSemicolon s = Inl ErrUnbalancedQuote) = (Tokenize s = Inl ErrUnbalancedQuote)"
  using tok_unbalanced [of "[]" "[]" False None s] split_unbalanced [of "[]" "[]" None s]
  by (cases "s = []") (simp_all add: SplitOnSemicolon_def Tokenize_def)

end
