(* ===== verification/TelnetColor.thy ===== *)
theory TelnetColor
  imports GoPrelude
begin

text \<open>
  Terminal colours: \<open>telnet/color.go\<close> (colour levels, SGR sequences, down-sampling of RGB colours and
  \<open>StripANSI\<close>). Strings are lists of bytes; Go \<open>int\<close> sums of channel values are tiny and not wrapped,
  except where the source adds to an unclamped value.
\<close>

section \<open>Colour levels\<close>

definition ColorLevelNone :: int where "ColorLevelNone = 0"
definition ColorLevelBasic :: int where "ColorLevelBasic = 8"
definition ColorLevel16 :: int where "ColorLevel16 = 16"
definition ColorLevel256 :: int where "ColorLevel256 = 256"
definition ColorLevelTrueColor :: int where "ColorLevelTrueColor = 16777216"

lemmas color_levels = ColorLevelNone_def ColorLevelBasic_def ColorLevel16_def ColorLevel256_def
  ColorLevelTrueColor_def

definition ParseColorLevel :: "string \<Rightarrow> int option" where
  "ParseColorLevel s =
     (let t = to_lower (trim_space s)
      in if t \<in> {''none'', ''off'', ''plain'', ''0''} then Some ColorLevelNone
         else if t \<in> {''basic'', ''8''} then Some ColorLevelBasic
         else if t \<in> {''16'', ''ansi''} then Some ColorLevel16
         else if t \<in> {''256'', ''xterm'', ''xterm256'', ''xterm-256''} then Some ColorLevel256
         else if t \<in> {''truecolor'', ''24bit'', ''24-bit'', ''rgb''} then Some ColorLevelTrueColor
         else None)"

definition ColorLevelName :: "int \<Rightarrow> string" where
  "ColorLevelName level =
     (if level = ColorLevelNone then ''none'' else if level = ColorLevelBasic then ''basic''
      else if level = ColorLevel16 then ''16'' else if level = ColorLevel256 then ''256''
      else if level = ColorLevelTrueColor then ''truecolor'' else ''auto'')"

text \<open>\<open>strings.HasPrefix\<close> and \<open>strings.Contains\<close>.\<close>

fun has_prefix :: "string \<Rightarrow> string \<Rightarrow> bool" where
  "has_prefix s [] = True"
| "has_prefix [] (p # ps) = False"
| "has_prefix (c # s) (p # ps) = (c = p \<and> has_prefix s ps)"

fun contains :: "string \<Rightarrow> string \<Rightarrow> bool" where
  "contains [] p = (p = [])"
| "contains (c # s) p = (has_prefix (c # s) p \<or> contains s p)"

definition DetectColorLevel :: "string \<Rightarrow> int" where
  "DetectColorLevel term =
     (let t = to_lower term
      in if t \<in> {''xterm-direct'', ''xterm-truecolor'', ''iterm'', ''iterm2''} then ColorLevelTrueColor
         else if t \<in> {''xterm-256color'', ''rxvt-unicode-256color'', ''screen-256color'', ''mudlet''}
         then ColorLevel256
         else if t \<in> {''xterm'', ''vt100'', ''ansi'', ''linux''} then ColorLevel16
         else if t \<in> {''dumb'', ''unknown''} then ColorLevelNone
         else if contains t ''truecolor'' \<or> contains t ''24bit'' \<or> contains t ''direct''
         then ColorLevelTrueColor
         else if contains t ''256'' then ColorLevel256
         else if contains t ''color'' then ColorLevel16
         else ColorLevel16)"

section \<open>Escape sequences\<close>

definition ESC :: char where "ESC = CHR 0x1B"
definition CRLF :: string where "CRLF = [CHR 0x0D, CHR 0x0A]"

text \<open>The inner loop of \<open>StripANSI\<close>: everything up to and including the final byte of a CSI sequence.\<close>

definition csi_final :: "char \<Rightarrow> bool" where "csi_final c \<longleftrightarrow> 0x40 \<le> ord c \<and> ord c \<le> 0x7E"

fun skip_csi :: "string \<Rightarrow> string" where
  "skip_csi [] = []"
| "skip_csi (c # cs) = (if csi_final c then cs else skip_csi cs)"

lemma skip_csi_length [termination_simp]: "length (skip_csi s) \<le> length s"
  by (induction s) auto

fun strip_loop :: "string \<Rightarrow> string" where
  "strip_loop [] = []"
| "strip_loop (c # cs) =
     (if c = ESC then
        (case cs of [] \<Rightarrow> []
         | d # ds \<Rightarrow> if d = CHR ''['' then strip_loop (skip_csi ds) else strip_loop ds)
      else c # strip_loop cs)"

definition StripANSI :: "string \<Rightarrow> string" where
  "StripANSI b = (if ESC \<notin> set b then b else strip_loop b)"

fun join :: "string \<Rightarrow> string list \<Rightarrow> string" where
  "join sep [] = []"
| "join sep [x] = x"
| "join sep (x # y # xs) = x @ sep @ join sep (y # xs)"

definition SGR :: "int list \<Rightarrow> string" where
  "SGR codes =
     (if codes = [] then ESC # ''[0m'' else ESC # CHR ''['' # join '';'' (map show_int codes) @ ''m'')"

section \<open>Down-sampling\<close>

definition clamp8 :: "int \<Rightarrow> int" where
  "clamp8 v = (if v < 0 then 0 else if v > 255 then 255 else v)"

definition rgb6 :: "int \<Rightarrow> int" where
  "rgb6 v = (if v < 48 then 0 else if v < 115 then 1 else if v < 155 then 2 else if v < 195 then 3
             else if v < 235 then 4 else 5)"

definition rgbTo256 :: "int \<Rightarrow> int \<Rightarrow> int \<Rightarrow> int" where
  "rgbTo256 r g b = 16 + 36 * rgb6 (clamp8 r) + 6 * rgb6 (clamp8 g) + rgb6 (clamp8 b)"

definition rgbTo16 :: "int \<Rightarrow> int \<Rightarrow> int \<Rightarrow> bool \<Rightarrow> int" where
  "rgbTo16 r0 g0 b0 bg =
     (let r = clamp8 r0; g = clamp8 g0; bb = clamp8 b0;
          mx1 = (if g > r then g else r);
          mx = (if bb > mx1 then bb else mx1);
          bright = (mx \<ge> 128);
          hi = (\<lambda>v. v + 64 \<ge> mx \<and> mx > 0);
          rH = hi r; gH = hi g; bH = hi bb;
          idx = (if \<not> rH \<and> \<not> gH \<and> \<not> bH then 0 else if rH \<and> gH \<and> bH then 7
                 else if rH \<and> gH then 3 else if gH \<and> bH then 6 else if rH \<and> bH then 5
                 else if rH then 1 else if gH then 2 else if bH then 4 else 7);
          base = (if bg then 40 else 30)
      in (if bright then base + 60 else base) + idx)"

definition RenderRGBFG :: "int \<Rightarrow> int \<Rightarrow> int \<Rightarrow> int \<Rightarrow> string" where
  "RenderRGBFG level r g b =
     (if level = ColorLevelNone then []
      else if level = ColorLevelTrueColor then
        ESC # ''[38;2;'' @ show_int (clamp8 r) @ '';'' @ show_int (clamp8 g) @ '';'' @ show_int (clamp8 b) @ ''m''
      else if level = ColorLevel256 then ESC # ''[38;5;'' @ show_int (rgbTo256 r g b) @ ''m''
      else ESC # CHR ''['' # show_int (rgbTo16 r g b False) @ ''m'')"

definition RenderRGBBG :: "int \<Rightarrow> int \<Rightarrow> int \<Rightarrow> int \<Rightarrow> string" where
  "RenderRGBBG level r g b =
     (if level = ColorLevelNone then []
      else if level = ColorLevelTrueColor then
        ESC # ''[48;2;'' @ show_int (clamp8 r) @ '';'' @ show_int (clamp8 g) @ '';'' @ show_int (clamp8 b) @ ''m''
      else if level = ColorLevel256 then ESC # ''[48;5;'' @ show_int (rgbTo256 r g b) @ ''m''
      else ESC # CHR ''['' # show_int (rgbTo16 r g b True) @ ''m'')"

section \<open>Properties\<close>

lemma strip_no_esc: "ESC \<notin> set (strip_loop s)"
  by (induction s rule: strip_loop.induct) (auto split: list.splits)

lemma strip_plain: "ESC \<notin> set a \<Longrightarrow> strip_loop (a @ s) = a @ strip_loop s"
  by (induction a) auto

lemma StripANSI_loop: "StripANSI b = strip_loop b"
  using strip_plain [of b "[]"] by (simp add: StripANSI_def)

lemma skip_csi_params: "\<forall>c\<in>set p. \<not> csi_final c \<Longrightarrow> csi_final f \<Longrightarrow> skip_csi (p @ f # s) = s"
  by (induction p) auto

lemma strip_sequence:
  "\<forall>c\<in>set p. \<not> csi_final c \<Longrightarrow> csi_final f \<Longrightarrow> strip_loop (ESC # CHR ''['' # p @ f # s) = strip_loop s"
  by (simp add: skip_csi_params)

lemma digit_not_final: "is_digit c \<Longrightarrow> \<not> csi_final c"
  by (simp add: is_digit_def csi_final_def)

lemma show_int_not_final: "\<forall>c\<in>set (show_int x). \<not> csi_final c"
proof -
  have "\<forall>c\<in>set (show_nat n). \<not> csi_final c" for n
    using show_nat_digits [of n] digit_not_final by (auto simp: list_all_iff)
  then show ?thesis by (auto simp: show_int_def csi_final_def)
qed

lemma join_not_final:
  "\<forall>x\<in>set xs. \<forall>c\<in>set x. \<not> csi_final c \<Longrightarrow> \<forall>c\<in>set (join '';'' xs). \<not> csi_final c"
  by (induction "'';''" xs rule: join.induct) (auto simp: csi_final_def)

text \<open>Every sequence the renderers emit is one complete CSI sequence.\<close>

definition is_csi :: "string \<Rightarrow> bool" where
  "is_csi q \<longleftrightarrow> (\<exists>p f. q = ESC # CHR ''['' # p @ [f] \<and> (\<forall>c\<in>set p. \<not> csi_final c) \<and> csi_final f)"

lemma is_csi_strip: "is_csi q \<Longrightarrow> strip_loop (q @ s) = strip_loop s"
  by (auto simp: is_csi_def skip_csi_params)

lemma is_csiI: "\<forall>c\<in>set p. \<not> csi_final c \<Longrightarrow> csi_final f \<Longrightarrow> is_csi (ESC # CHR ''['' # p @ [f])"
  by (auto simp: is_csi_def)

lemma SGR_csi: "is_csi (SGR codes)"
proof (cases "codes = []")
  case True
  then show ?thesis using is_csiI [of "''0''" "CHR ''m''"] by (simp add: SGR_def csi_final_def)
next
  case False
  have "\<forall>c\<in>set (join '';'' (map show_int codes)). \<not> csi_final c"
    using show_int_not_final by (intro join_not_final) auto
  from is_csiI [OF this, of "CHR ''m''"] False show ?thesis by (simp add: SGR_def csi_final_def)
qed

lemma Render_csi:
  "RenderRGBFG level r g b = [] \<or> is_csi (RenderRGBFG level r g b)"
  "RenderRGBBG level r g b = [] \<or> is_csi (RenderRGBBG level r g b)"
proof -
  have f: "csi_final (CHR ''m'')" by (simp add: csi_final_def)
  have l: "\<forall>c\<in>set ''38;2;''. \<not> csi_final c" "\<forall>c\<in>set ''38;5;''. \<not> csi_final c"
    "\<forall>c\<in>set ''48;2;''. \<not> csi_final c" "\<forall>c\<in>set ''48;5;''. \<not> csi_final c" "\<not> csi_final (CHR '';'')"
    by (simp_all add: csi_final_def)
  note s = show_int_not_final
  show "RenderRGBFG level r g b = [] \<or> is_csi (RenderRGBFG level r g b)"
    using is_csiI [OF _ f, of "''38;2;'' @ show_int (clamp8 r) @ '';'' @ show_int (clamp8 g) @ '';'' @ show_int (clamp8 b)"]
      is_csiI [OF _ f, of "''38;5;'' @ show_int (rgbTo256 r g b)"]
      is_csiI [OF s f, of "rgbTo16 r g b False"] s l
    by (auto simp: RenderRGBFG_def ball_Un)
  show "RenderRGBBG level r g b = [] \<or> is_csi (RenderRGBBG level r g b)"
    using is_csiI [OF _ f, of "''48;2;'' @ show_int (clamp8 r) @ '';'' @ show_int (clamp8 g) @ '';'' @ show_int (clamp8 b)"]
      is_csiI [OF _ f, of "''48;5;'' @ show_int (rgbTo256 r g b)"]
      is_csiI [OF s f, of "rgbTo16 r g b True"] s l
    by (auto simp: RenderRGBBG_def ball_Un)
qed

text \<open>\<open>StripANSI\<close> leaves no escape byte, keeps text without escapes unchanged, is idempotent, and removes
  exactly the sequences the renderers emit, for every colour level and every (also out-of-range) colour: a
  rendered line stripped is the plain line.\<close>

lemma StripANSI_exact:
  "ESC \<notin> set (StripANSI s) \<and> StripANSI (StripANSI s) = StripANSI s
   \<and> StripANSI (SGR codes @ s) = StripANSI s
   \<and> StripANSI (RenderRGBFG level r g b @ RenderRGBBG level' r' g' b' @ s @ SGR codes) = StripANSI (s @ SGR codes)
   \<and> (ESC \<notin> set a \<longrightarrow> StripANSI (a @ SGR codes @ s) = a @ StripANSI s)"
proof -
  have n: "ESC \<notin> set (StripANSI s)" by (simp add: StripANSI_loop strip_no_esc)
  then have i: "StripANSI (StripANSI s) = StripANSI s" by (simp add: StripANSI_def)
  have "strip_loop (RenderRGBFG level r g b @ t) = strip_loop t"
    "strip_loop (RenderRGBBG level' r' g' b' @ t) = strip_loop t" for t
    using Render_csi(1) [of level r g b] Render_csi(2) [of level' r' g' b'] is_csi_strip by auto
  with n i show ?thesis using is_csi_strip [OF SGR_csi] strip_plain by (simp add: StripANSI_loop)
qed

text \<open>The colour-level names round-trip through the parser, whatever the case and the surrounding spaces,
  and the down-samplers stay inside their palettes for every integer input.\<close>

lemma color_tables:
  "(\<forall>l\<in>{ColorLevelNone, ColorLevelBasic, ColorLevel16, ColorLevel256, ColorLevelTrueColor}.
      ParseColorLevel (ColorLevelName l) = Some l)
   \<and> 16 \<le> rgbTo256 r g b \<and> rgbTo256 r g b \<le> 231
   \<and> rgbTo16 r g b bg \<in> (if bg then {40..47} \<union> {100..107} else {30..37} \<union> {90..97})"
proof -
  have "ParseColorLevel (ColorLevelName l) = Some l"
    if "l \<in> {ColorLevelNone, ColorLevelBasic, ColorLevel16, ColorLevel256, ColorLevelTrueColor}" for l
    using that
    by (auto simp: color_levels ParseColorLevel_def ColorLevelName_def trim_space_def is_space_def to_lower_def
        lower_char_def is_upper_def)
  moreover have "0 \<le> rgb6 v" "rgb6 v \<le> 5" for v by (simp_all add: rgb6_def)
  then have "16 \<le> rgbTo256 r g b" "rgbTo256 r g b \<le> 231"
    unfolding rgbTo256_def by (smt (verit))+
  moreover have "rgbTo16 r g b bg \<in> (if bg then {40..47} \<union> {100..107} else {30..37} \<union> {90..97})"
    unfolding rgbTo16_def Let_def by (simp split: if_splits)
  ultimately show ?thesis by blast
qed

end
