(* ===== verification/CommandLine.thy ===== *)
theory CommandLine
  imports Tokenizer TelnetColor "HOL-Library.List_Lexorder" "HOL-Library.Char_ord"
begin

text \<open>
  Commands: \<open>telnet/command.go\<close> (the registry of verbs and the dispatcher of an input line),
  \<open>alias.go\<close> (user aliases) and \<open>badinput.go\<close> (the throttle of refused input). Go compares strings bytewise,
  which is the lexicographic order of the library on lists of characters. \<open>sort.Search\<close> is its binary
  search. A \<open>*Command\<close> is its record: names are unique in a registry, so equal records are the same pointer.
  The body of a command is a parameter that may change the session in any way.
\<close>

section \<open>User aliases\<close>

definition validVerb :: "string \<Rightarrow> bool" where
  "validVerb v \<longleftrightarrow> v \<noteq> [] \<and> list_all (\<lambda>c. ord c < 0x80 \<and> \<not> (0x41 \<le> ord c \<and> ord c \<le> 0x5A)
     \<and> c \<noteq> CHR '' '' \<and> \<not> ord c < 0x20 \<and> ord c \<noteq> 0x7F) v"

type_synonym AliasTable = "(string \<times> string) list"

definition alias_Set :: "AliasTable \<Rightarrow> string \<Rightarrow> string \<Rightarrow> AliasTable \<times> bool" where
  "alias_Set t name0 expansion0 =
     (let name = to_lower (trim_space name0); expansion = trim_space expansion0
      in if name = [] \<or> expansion = [] then (t, False)
         else if \<not> validVerb name then (t, False)
         else (map_put name expansion t, True))"

definition alias_Delete :: "AliasTable \<Rightarrow> string \<Rightarrow> AliasTable \<times> bool" where
  "alias_Delete t name0 =
     (let name = to_lower (trim_space name0)
      in case map_of t name of None \<Rightarrow> (t, False) | Some v \<Rightarrow> (map_del name t, True))"

definition alias_Lookup :: "AliasTable \<Rightarrow> string \<Rightarrow> string option" where
  "alias_Lookup t name = map_of t (to_lower name)"

text \<open>\<open>All\<close>: the names in order and, beside them, their expansions.\<close>

definition alias_All :: "AliasTable \<Rightarrow> string list \<times> string list" where
  "alias_All t = (let names = sort (keys t) in (names, map (\<lambda>n. map_get t n []) names))"

definition is_blank :: "char \<Rightarrow> bool" where "is_blank c \<longleftrightarrow> c = CHR '' '' \<or> c = TAB"

definition splitVerb :: "string \<Rightarrow> string \<times> string" where
  "splitVerb line =
     (let v = takeWhile (\<lambda>c. \<not> is_blank c) line
      in if length v = length line then (line, []) else (v, trim_space (drop (length v + 1) line)))"

definition expandAlias :: "AliasTable \<Rightarrow> string \<Rightarrow> string" where
  "expandAlias t line =
     (let (verb, rest) = splitVerb line
      in if verb = [] then line
         else case alias_Lookup t verb of None \<Rightarrow> line
           | Some e \<Rightarrow> if rest = [] then e else e @ '' '' @ rest)"

section \<open>The throttle of bad input\<close>

text \<open>The tracker of one session: the window in nanoseconds and the burst; the entry is the anchor and count.\<close>

record BadInputTracker =
  bt_window :: int
  bt_maxInBurst :: int

definition bad_Record ::
    "BadInputTracker option \<Rightarrow> int \<Rightarrow> (int \<times> int) option \<Rightarrow> (int \<times> int) option \<times> bool" where
  "bad_Record tracker now entry =
     (case tracker of None \<Rightarrow> (entry, True)
      | Some t \<Rightarrow>
          (case entry of None \<Rightarrow> (Some (now, 1), True)
           | Some (firstAt, cnt) \<Rightarrow>
               if bt_window t > 0 \<and> now - firstAt > bt_window t then (Some (now, 1), True)
               else (Some (firstAt, i64 (cnt + 1)),
                     if bt_maxInBurst t \<le> 0 then True else \<not> (i64 (cnt + 1) > bt_maxInBurst t))))"

section \<open>The registry\<close>

record Command =
  cm_Name :: string
  cm_Aliases :: "string list"
  cm_MinArgs :: int
  cm_Help :: string
  cm_Long :: string
  cm_Auth :: int
  cm_Lag :: int
  cm_HasRun :: bool

record CmdRegistry =
  rg_sorted :: "Command list"
  rg_aliases :: "(string \<times> Command) list"

datatype cmd_error = ErrUnknownCommand | ErrAmbiguousPrefix string | ErrDuplicateCommand string | ErrInvalidCommand

definition NewRegistry :: CmdRegistry where "NewRegistry = \<lparr>rg_sorted = [], rg_aliases = []\<rparr>"

function bin_search :: "(nat \<Rightarrow> bool) \<Rightarrow> nat \<Rightarrow> nat \<Rightarrow> nat" where
  "bin_search f i j =
     (if i < j then let h = (i + j) div 2 in if \<not> f h then bin_search f (h + 1) j else bin_search f i h else i)"
  by pat_completeness auto
termination by (relation "measure (\<lambda>(f, i, j). j - i)") auto

declare bin_search.simps [simp del]

definition cmd_search :: "Command list \<Rightarrow> string \<Rightarrow> nat" where
  "cmd_search xs v = bin_search (\<lambda>i. v \<le> cm_Name (xs ! i)) 0 (length xs)"

definition lookupExactLocked :: "CmdRegistry \<Rightarrow> string \<Rightarrow> Command option" where
  "lookupExactLocked r verb =
     (case map_of (rg_aliases r) verb of Some c \<Rightarrow> Some c
      | None \<Rightarrow> let idx = cmd_search (rg_sorted r) verb
                in if idx < length (rg_sorted r) \<and> cm_Name (rg_sorted r ! idx) = verb
                   then Some (rg_sorted r ! idx) else None)"

fun first_dup :: "CmdRegistry \<Rightarrow> string list \<Rightarrow> string option" where
  "first_dup r [] = None"
| "first_dup r (a # as) = (if lookupExactLocked r a \<noteq> None then Some a else first_dup r as)"

fun put_aliases :: "Command \<Rightarrow> string list \<Rightarrow> (string \<times> Command) list \<Rightarrow> (string \<times> Command) list" where
  "put_aliases c [] m = m"
| "put_aliases c (a # as) m = put_aliases c as (map_put a c m)"

definition registerLocked :: "CmdRegistry \<Rightarrow> Command \<Rightarrow> CmdRegistry \<times> cmd_error option" where
  "registerLocked r c =
     (if \<not> cm_HasRun c then (r, Some ErrInvalidCommand)
      else if \<not> validVerb (cm_Name c) then (r, Some ErrInvalidCommand)
      else if \<not> list_all validVerb (cm_Aliases c) then (r, Some ErrInvalidCommand)
      else if lookupExactLocked r (cm_Name c) \<noteq> None then (r, Some (ErrDuplicateCommand (cm_Name c)))
      else case first_dup r (cm_Aliases c) of Some a \<Rightarrow> (r, Some (ErrDuplicateCommand a))
        | None \<Rightarrow>
            let idx = cmd_search (rg_sorted r) (cm_Name c)
            in (\<lparr>rg_sorted = take idx (rg_sorted r) @ [c] @ drop idx (rg_sorted r),
                 rg_aliases = put_aliases c (cm_Aliases c) (rg_aliases r)\<rparr>, None))"

fun Register :: "CmdRegistry \<Rightarrow> Command list \<Rightarrow> CmdRegistry \<times> cmd_error option" where
  "Register r [] = (r, None)"
| "Register r (c # cs) = (case registerLocked r c of (r1, None) \<Rightarrow> Register r1 cs | (r1, Some e) \<Rightarrow> (r1, Some e))"

fun drop_aliases :: "Command \<Rightarrow> string list \<Rightarrow> (string \<times> Command) list \<Rightarrow> (string \<times> Command) list" where
  "drop_aliases c [] m = m"
| "drop_aliases c (a # as) m = drop_aliases c as (if map_of m a = Some c then map_del a m else m)"

definition Unregister :: "CmdRegistry \<Rightarrow> string \<Rightarrow> CmdRegistry \<times> cmd_error option" where
  "Unregister r name0 =
     (let name = to_lower (trim_space name0)
      in if name = [] then (r, Some ErrUnknownCommand)
         else let idx = cmd_search (rg_sorted r) name
              in if idx \<ge> length (rg_sorted r) \<or> cm_Name (rg_sorted r ! idx) \<noteq> name then (r, Some ErrUnknownCommand)
                 else let cmd = rg_sorted r ! idx
                      in (\<lparr>rg_sorted = take idx (rg_sorted r) @ drop (idx + 1) (rg_sorted r),
                           rg_aliases = drop_aliases cmd (cm_Aliases cmd) (rg_aliases r)\<rparr>, None))"

text \<open>The scan of \<open>prefixLocked\<close> from the first name not below the prefix, up to the first miss.\<close>

definition prefixLocked :: "CmdRegistry \<Rightarrow> string \<Rightarrow> Command list" where
  "prefixLocked r p =
     (if p = [] then rg_sorted r
      else takeWhile (\<lambda>c. has_prefix (cm_Name c) p) (drop (cmd_search (rg_sorted r) p) (rg_sorted r)))"

definition joinNames :: "Command list \<Rightarrow> string" where
  "joinNames cmds = join '', '' (map cm_Name cmds)"

definition Lookup :: "CmdRegistry \<Rightarrow> string \<Rightarrow> cmd_error + Command" where
  "Lookup r verb0 =
     (let verb = to_lower verb0
      in if verb = [] then Inl ErrUnknownCommand
         else case lookupExactLocked r verb of Some c \<Rightarrow> Inr c
           | None \<Rightarrow> (case prefixLocked r verb of [] \<Rightarrow> Inl ErrUnknownCommand
                     | [c] \<Rightarrow> Inr c
                     | matches \<Rightarrow> Inl (ErrAmbiguousPrefix (joinNames matches))))"

definition LookupExact :: "CmdRegistry \<Rightarrow> string \<Rightarrow> cmd_error + Command" where
  "LookupExact r verb0 =
     (let verb = to_lower verb0
      in if verb = [] then Inl ErrUnknownCommand
         else case lookupExactLocked r verb of Some c \<Rightarrow> Inr c | None \<Rightarrow> Inl ErrUnknownCommand)"

definition Prefix :: "CmdRegistry \<Rightarrow> string \<Rightarrow> Command list" where "Prefix r p = prefixLocked r (to_lower p)"
definition All :: "CmdRegistry \<Rightarrow> Command list" where "All r = rg_sorted r"

section \<open>The binary search\<close>

lemma bin_search_spec:
  "i \<le> j \<Longrightarrow> \<forall>a b. i \<le> a \<and> a \<le> b \<and> b < j \<and> f a \<longrightarrow> f b \<Longrightarrow>
   i \<le> bin_search f i j \<and> bin_search f i j \<le> j \<and> (\<forall>x. i \<le> x \<and> x < bin_search f i j \<longrightarrow> \<not> f x)
     \<and> (\<forall>x. bin_search f i j \<le> x \<and> x < j \<longrightarrow> f x)"
proof (induction f i j rule: bin_search.induct)
  case (1 f i j)
  show ?case
  proof (cases "i < j")
    case True
    define h where "h = (i + j) div 2"
    have h: "i \<le> h" "h < j" using True by (simp_all add: h_def)
    show ?thesis
    proof (cases "f h")
      case False
      have ih: "h + 1 \<le> bin_search f (h + 1) j \<and> bin_search f (h + 1) j \<le> j
          \<and> (\<forall>x. h + 1 \<le> x \<and> x < bin_search f (h + 1) j \<longrightarrow> \<not> f x) \<and> (\<forall>x. bin_search f (h + 1) j \<le> x \<and> x < j \<longrightarrow> f x)"
      proof (rule 1(1) [OF True h_def False])
        show "h + 1 \<le> j" using h by simp
        show "\<forall>a b. h + 1 \<le> a \<and> a \<le> b \<and> b < j \<and> f a \<longrightarrow> f b" using 1(4) h by (meson le_trans le_add1)
      qed
      have below: "\<not> f x" if "i \<le> x" "x \<le> h" for x using 1(4) that h False by blast
      have e: "bin_search f i j = bin_search f (h + 1) j"
        using True False by (subst bin_search.simps) (simp add: h_def)
      have "\<forall>x. i \<le> x \<and> x < bin_search f (h + 1) j \<longrightarrow> \<not> f x"
        using ih below by (metis Suc_eq_plus1 not_less_eq_eq)
      with ih h show ?thesis unfolding e by auto
    next
      case ft: True
      have ih: "i \<le> bin_search f i h \<and> bin_search f i h \<le> h \<and> (\<forall>x. i \<le> x \<and> x < bin_search f i h \<longrightarrow> \<not> f x)
          \<and> (\<forall>x. bin_search f i h \<le> x \<and> x < h \<longrightarrow> f x)"
      proof (rule 1(2) [OF True h_def])
        show "\<not> \<not> f h" "i \<le> h" using ft h by simp_all
        show "\<forall>a b. i \<le> a \<and> a \<le> b \<and> b < h \<and> f a \<longrightarrow> f b" using 1(4) h by (meson less_trans)
      qed
      have above: "f x" if "h \<le> x" "x < j" for x using 1(4) that h ft by blast
      have e: "bin_search f i j = bin_search f i h"
        using True ft by (subst bin_search.simps) (simp add: h_def)
      have "\<forall>x. bin_search f i h \<le> x \<and> x < j \<longrightarrow> f x" using ih above by (metis not_less)
      with ih h show ?thesis unfolding e by auto
    qed
  next
    case False
    then have "bin_search f i j = i" by (subst bin_search.simps) simp
    with False 1(3) show ?thesis by auto
  qed
qed


section \<open>The registry's invariant\<close>

definition names :: "Command list \<Rightarrow> string list" where "names xs = map cm_Name xs"

definition reg_ok :: "CmdRegistry \<Rightarrow> bool" where
  "reg_ok r \<longleftrightarrow> sorted_wrt (<) (names (rg_sorted r)) \<and> distinct (keys (rg_aliases r))
     \<and> (\<forall>a c. map_of (rg_aliases r) a = Some c \<longleftrightarrow> c \<in> set (rg_sorted r) \<and> a \<in> set (cm_Aliases c))
     \<and> (\<forall>a c d. map_of (rg_aliases r) a = Some c \<longrightarrow> d \<in> set (rg_sorted r) \<longrightarrow> cm_Name d = a \<longrightarrow> d = c)"

lemma cmd_search_split:
  assumes "sorted_wrt (<) (names xs)"
  shows "cmd_search xs v \<le> length xs \<and> (\<forall>c\<in>set (take (cmd_search xs v) xs). cm_Name c < v)
    \<and> (\<forall>c\<in>set (drop (cmd_search xs v) xs). v \<le> cm_Name c)"
proof -
  have lt: "cm_Name (xs ! a) \<le> cm_Name (xs ! b)" if "a \<le> b" "b < length xs" for a b
    using sorted_wrt_nth_less [OF assms, of a b] that by (cases "a = b") (auto simp: names_def)
  have "\<forall>a b. 0 \<le> a \<and> a \<le> b \<and> b < length xs \<and> v \<le> cm_Name (xs ! a) \<longrightarrow> v \<le> cm_Name (xs ! b)"
    using lt by (meson order_trans)
  note b = bin_search_spec [OF le0 this, folded cmd_search_def]
  have s: "cmd_search xs v \<le> length xs"
    "\<forall>x. x < cmd_search xs v \<longrightarrow> \<not> v \<le> cm_Name (xs ! x)"
    "\<forall>x. cmd_search xs v \<le> x \<and> x < length xs \<longrightarrow> v \<le> cm_Name (xs ! x)"
    using b by blast+
  have "cm_Name c < v" if "c \<in> set (take (cmd_search xs v) xs)" for c
  proof -
    obtain i where "i < cmd_search xs v" "c = xs ! i" using \<open>c \<in> set (take _ _)\<close> s(1) by (auto simp: in_set_conv_nth)
    with s(2) show ?thesis by (simp add: not_le)
  qed
  moreover have "v \<le> cm_Name c" if "c \<in> set (drop (cmd_search xs v) xs)" for c
  proof -
    obtain i where "i < length xs - cmd_search xs v" "c = xs ! (cmd_search xs v + i)"
      using \<open>c \<in> set (drop _ _)\<close> s(1) by (auto simp: in_set_conv_nth)
    with s(3) show ?thesis by simp
  qed
  ultimately show ?thesis using s(1) by blast
qed

lemma names_unique:
  assumes "sorted_wrt (<) (names xs)" "c \<in> set xs" "d \<in> set xs" "cm_Name c = cm_Name d"
  shows "c = d"
proof -
  have "distinct (names xs)" using assms(1) by (simp add: strict_sorted_iff)
  then have "inj_on cm_Name (set xs)" by (simp add: names_def distinct_map)
  with assms(2-4) show ?thesis by (auto dest: inj_onD)
qed

lemma cmd_search_found:
  assumes "sorted_wrt (<) (names xs)" "c \<in> set xs" "cm_Name c = v"
  shows "cmd_search xs v < length xs \<and> xs ! cmd_search xs v = c"
proof -
  let ?k = "cmd_search xs v"
  note k = cmd_search_split [OF assms(1), of v]
  have c: "c \<in> set (drop ?k xs)"
    using assms(2,3) k by (metis append_take_drop_id Un_iff less_irrefl set_append)
  then have l: "?k < length xs" by (metis drop_all empty_iff empty_set not_le)
  then obtain ys where d: "drop ?k xs = xs ! ?k # ys" by (metis Cons_nth_drop_Suc)
  have "sorted_wrt (<) (names (drop ?k xs))" using assms(1) sorted_wrt_drop by (auto simp: names_def drop_map [symmetric])
  then have first: "\<forall>e\<in>set ys. cm_Name (xs ! ?k) < cm_Name e" by (simp add: d names_def)
  have "v \<le> cm_Name (xs ! ?k)" using k d by simp
  then have "c \<notin> set ys" using first assms(3) by (metis less_le_not_le)
  with c d have "c = xs ! ?k" by simp
  with l show ?thesis by simp
qed

lemma lookupExact_spec:
  assumes "reg_ok r"
  shows "lookupExactLocked r v = Some c \<longleftrightarrow> c \<in> set (rg_sorted r) \<and> (cm_Name c = v \<or> v \<in> set (cm_Aliases c))"
proof -
  have s: "sorted_wrt (<) (names (rg_sorted r))"
    and al: "\<And>a c. map_of (rg_aliases r) a = Some c \<longleftrightarrow> c \<in> set (rg_sorted r) \<and> a \<in> set (cm_Aliases c)"
    and un: "\<And>a c d. map_of (rg_aliases r) a = Some c \<Longrightarrow> d \<in> set (rg_sorted r) \<Longrightarrow> cm_Name d = a \<Longrightarrow> d = c"
    using assms by (auto simp: reg_ok_def)
  show ?thesis
  proof (cases "map_of (rg_aliases r) v")
    case (Some d)
    then have "lookupExactLocked r v = Some d" by (simp add: lookupExactLocked_def)
    moreover have "c \<in> set (rg_sorted r) \<and> (cm_Name c = v \<or> v \<in> set (cm_Aliases c)) \<longleftrightarrow> c = d"
      using al [of v d] al [of v c] un [OF Some, of c] Some by auto
    ultimately show ?thesis by auto
  next
    case None
    define k where "k = cmd_search (rg_sorted r) v"
    have e: "lookupExactLocked r v =
        (if k < length (rg_sorted r) \<and> cm_Name (rg_sorted r ! k) = v then Some (rg_sorted r ! k) else None)"
      by (simp add: lookupExactLocked_def None k_def Let_def)
    show ?thesis
    proof
      assume "lookupExactLocked r v = Some c"
      then show "c \<in> set (rg_sorted r) \<and> (cm_Name c = v \<or> v \<in> set (cm_Aliases c))"
        unfolding e by (auto split: if_splits)
    next
      assume a: "c \<in> set (rg_sorted r) \<and> (cm_Name c = v \<or> v \<in> set (cm_Aliases c))"
      then have "cm_Name c = v" using al [of v c] None by auto
      with a cmd_search_found [OF s] show "lookupExactLocked r v = Some c" unfolding e k_def by auto
    qed
  qed
qed

lemma first_dup_None: "first_dup r as = None \<Longrightarrow> a \<in> set as \<Longrightarrow> lookupExactLocked r a = None"
  by (induction as) (auto split: if_splits)

lemma put_aliases_of: "map_of (put_aliases c as m) a = (if a \<in> set as then Some c else map_of m a)"
  by (induction as arbitrary: m) auto

lemma put_aliases_distinct: "distinct (keys m) \<Longrightarrow> distinct (keys (put_aliases c as m))"
  by (induction as arbitrary: m) auto

lemma drop_aliases_of: "map_of (drop_aliases c as m) a = (if a \<in> set as \<and> map_of m a = Some c then None else map_of m a)"
  by (induction as arbitrary: m) auto

lemma drop_aliases_distinct: "distinct (keys m) \<Longrightarrow> distinct (keys (drop_aliases c as m))"
  by (induction as arbitrary: m) auto

lemma register_ok: "reg_ok r \<Longrightarrow> reg_ok (fst (registerLocked r c))"
proof (cases "snd (registerLocked r c)")
  case (Some e)
  then have "fst (registerLocked r c) = r"
    by (auto simp: registerLocked_def Let_def split: if_splits option.splits)
  then show "reg_ok r \<Longrightarrow> ?thesis" by simp
next
  case None
  assume ok: "reg_ok r"
  let ?k = "cmd_search (rg_sorted r) (cm_Name c)"
  let ?xs = "rg_sorted r"
  have n: "lookupExactLocked r (cm_Name c) = None" "first_dup r (cm_Aliases c) = None"
    and e: "fst (registerLocked r c) = \<lparr>rg_sorted = take ?k ?xs @ [c] @ drop ?k ?xs,
      rg_aliases = put_aliases c (cm_Aliases c) (rg_aliases r)\<rparr>"
    using None by (auto simp: registerLocked_def Let_def split: if_splits option.splits)
  have fresh: "d \<notin> set ?xs \<or> (cm_Name d \<noteq> v \<and> v \<notin> set (cm_Aliases d))" if "v = cm_Name c \<or> v \<in> set (cm_Aliases c)" for v d
    using that n first_dup_None [OF n(2)] lookupExact_spec [OF ok, of v d] by auto
  have s: "sorted_wrt (<) (names ?xs)" using ok by (simp add: reg_ok_def)
  note k = cmd_search_split [OF s, of "cm_Name c"]
  have st: "set (take ?k ?xs @ [c] @ drop ?k ?xs) = insert c (set ?xs)"
    by (metis Un_insert_right append_take_drop_id insert_is_Un list.simps(15) set_append sup_bot.right_neutral empty_set Un_insert_left sup_commute)
  have ts: "sorted_wrt (<) (names (take ?k ?xs))" "sorted_wrt (<) (names (drop ?k ?xs))"
    using s sorted_wrt_take sorted_wrt_drop by (auto simp: names_def take_map [symmetric] drop_map [symmetric])
  have gt: "cm_Name c < cm_Name d" if "d \<in> set (drop ?k ?xs)" for d
    using k that fresh [of "cm_Name c" d] by (metis in_set_dropD order_le_less)
  have "sorted_wrt (<) (names (take ?k ?xs @ [c] @ drop ?k ?xs))"
    using ts k gt by (auto simp: names_def sorted_wrt_append intro: less_trans)
  moreover have "distinct (keys (put_aliases c (cm_Aliases c) (rg_aliases r)))"
    using ok by (simp add: reg_ok_def put_aliases_distinct)
  moreover have "map_of (put_aliases c (cm_Aliases c) (rg_aliases r)) a = Some d \<longleftrightarrow>
      d \<in> insert c (set ?xs) \<and> a \<in> set (cm_Aliases d)" for a d
  proof -
    have "map_of (rg_aliases r) a = Some d \<longleftrightarrow> d \<in> set ?xs \<and> a \<in> set (cm_Aliases d)"
      using ok by (simp add: reg_ok_def)
    then show ?thesis using fresh [of a d] fresh [of a c] by (auto simp: put_aliases_of)
  qed
  moreover have "d' = d" if "map_of (put_aliases c (cm_Aliases c) (rg_aliases r)) a = Some d"
    "d' \<in> insert c (set ?xs)" "cm_Name d' = a" for a d d'
  proof (cases "a \<in> set (cm_Aliases c)")
    case True
    then show ?thesis using that fresh [of a d'] by (auto simp: put_aliases_of)
  next
    case False
    then have "map_of (rg_aliases r) a = Some d" using that(1) by (simp add: put_aliases_of)
    moreover from this have "d \<in> set ?xs \<and> a \<in> set (cm_Aliases d)" using ok by (simp add: reg_ok_def)
    ultimately show ?thesis using that(2,3) fresh [of a d] ok by (auto simp: reg_ok_def)
  qed
  ultimately show ?thesis unfolding e reg_ok_def by (simp only: st CmdRegistry.select_convs) blast
qed


lemma unregister_ok: "reg_ok r \<Longrightarrow> reg_ok (fst (Unregister r n))"
proof -
  assume ok: "reg_ok r"
  let ?v = "to_lower (trim_space n)"
  let ?xs = "rg_sorted r"
  let ?k = "cmd_search ?xs ?v"
  have s: "sorted_wrt (<) (names ?xs)" using ok by (simp add: reg_ok_def)
  show ?thesis
  proof (cases "?v = [] \<or> ?k \<ge> length ?xs \<or> cm_Name (?xs ! ?k) \<noteq> ?v")
    case True
    then show ?thesis using ok by (auto simp: Unregister_def Let_def)
  next
    case False
    define c where "c = ?xs ! ?k"
    have k: "?k < length ?xs" using False by simp
    have e: "fst (Unregister r n) = \<lparr>rg_sorted = take ?k ?xs @ drop (?k + 1) ?xs,
        rg_aliases = drop_aliases c (cm_Aliases c) (rg_aliases r)\<rparr>"
      using False by (simp add: Unregister_def c_def Let_def)
    have x: "?xs = take ?k ?xs @ c # drop (?k + 1) ?xs" using k by (simp add: c_def id_take_nth_drop)
    have d: "distinct ?xs" using s by (metis strict_sorted_iff distinct_map names_def)
    have st: "set (take ?k ?xs @ drop (?k + 1) ?xs) = set ?xs - {c}"
    proof -
      have "distinct (take ?k ?xs @ c # drop (?k + 1) ?xs)" using d x by simp
      then have "c \<notin> set (take ?k ?xs @ drop (?k + 1) ?xs)" by simp
      moreover have "set ?xs = insert c (set (take ?k ?xs @ drop (?k + 1) ?xs))" by (subst x) simp
      ultimately show ?thesis by blast
    qed
    have "sorted_wrt (<) (names (take ?k ?xs @ c # drop (?k + 1) ?xs))" using s x by simp
    then have "sorted_wrt (<) (names (take ?k ?xs @ drop (?k + 1) ?xs))"
      by (simp add: names_def sorted_wrt_append)
    moreover have "distinct (keys (drop_aliases c (cm_Aliases c) (rg_aliases r)))"
      using ok by (simp add: reg_ok_def drop_aliases_distinct)
    moreover have "map_of (drop_aliases c (cm_Aliases c) (rg_aliases r)) a = Some e \<longleftrightarrow>
        e \<in> set ?xs - {c} \<and> a \<in> set (cm_Aliases e)" for a e
    proof -
      have al: "\<And>e. map_of (rg_aliases r) a = Some e \<longleftrightarrow> e \<in> set ?xs \<and> a \<in> set (cm_Aliases e)"
        using ok by (simp add: reg_ok_def)
      show ?thesis using al [of e] al [of c] by (auto simp: drop_aliases_of)
    qed
    moreover have "e' = e" if "map_of (drop_aliases c (cm_Aliases c) (rg_aliases r)) a = Some e"
      "e' \<in> set ?xs - {c}" "cm_Name e' = a" for a e e'
      using that ok by (auto simp: reg_ok_def drop_aliases_of split: if_splits)
    ultimately show ?thesis unfolding e reg_ok_def by (simp only: st CmdRegistry.select_convs) blast
  qed
qed

lemma Register_ok: "reg_ok r \<Longrightarrow> reg_ok (fst (Register r cs))"
proof (induction cs arbitrary: r)
  case (Cons c cs)
  obtain r1 e where d: "registerLocked r c = (r1, e)" by (cases "registerLocked r c")
  have "reg_ok r1" using register_ok [OF Cons.prems, of c] d by simp
  with Cons.IH [of r1] d show ?case by (cases e) simp_all
qed simp

datatype reg_op = OpRegister "Command list" | OpUnregister string

fun reg_step :: "reg_op \<Rightarrow> CmdRegistry \<Rightarrow> CmdRegistry" where
  "reg_step (OpRegister cs) r = fst (Register r cs)"
| "reg_step (OpUnregister n) r = fst (Unregister r n)"

lemma reg_runs_ok: "reg_ok (fold reg_step ops NewRegistry)"
proof -
  have "reg_ok r \<Longrightarrow> reg_ok (fold reg_step ops r)" for r
  proof (induction ops arbitrary: r)
    case (Cons p ops)
    then show ?case by (cases p) (simp_all add: Register_ok unregister_ok)
  qed simp
  moreover have "reg_ok NewRegistry" by (simp add: reg_ok_def NewRegistry_def names_def)
  ultimately show ?thesis by blast
qed

section \<open>Prefix scans\<close>

lemma prefix_ge: "has_prefix x p \<Longrightarrow> p \<le> x"
  by (induction x p rule: has_prefix.induct) auto

lemma prefix_between: "has_prefix x p \<Longrightarrow> p \<le> y \<Longrightarrow> y \<le> x \<Longrightarrow> has_prefix y p"
proof (induction x p arbitrary: y rule: has_prefix.induct)
  case (3 c s q ps)
  show ?case
  proof (cases y)
    case Nil
    with 3(3) show ?thesis by simp
  next
    case (Cons d ys)
    from 3(2) have "c = q" "has_prefix s ps" by simp_all
    moreover from this 3(3,4) Cons have "d = q" by auto
    ultimately show ?thesis using 3 Cons by auto
  qed
qed auto

lemma prefix_scan:
  "sorted_wrt (<) (names xs) \<Longrightarrow> \<forall>c\<in>set xs. p \<le> cm_Name c \<Longrightarrow>
   takeWhile (\<lambda>c. has_prefix (cm_Name c) p) xs = filter (\<lambda>c. has_prefix (cm_Name c) p) xs"
proof (induction xs)
  case (Cons c xs)
  show ?case
  proof (cases "has_prefix (cm_Name c) p")
    case False
    have "\<not> has_prefix (cm_Name d) p" if "d \<in> set xs" for d
    proof
      assume "has_prefix (cm_Name d) p"
      moreover have "cm_Name c \<le> cm_Name d" using Cons.prems(1) that by (auto simp: names_def less_imp_le)
      ultimately have "has_prefix (cm_Name c) p" using prefix_between Cons.prems(2) by auto
      with False show False by simp
    qed
    with False show ?thesis by (simp add: filter_empty_conv)
  next
    case True
    with Cons show ?thesis by (simp add: names_def)
  qed
qed simp

lemma prefixLocked_filter:
  assumes "reg_ok r"
  shows "prefixLocked r p = filter (\<lambda>c. has_prefix (cm_Name c) p) (rg_sorted r)"
proof (cases "p = []")
  case True
  then show ?thesis by (simp add: prefixLocked_def)
next
  case False
  let ?xs = "rg_sorted r" let ?k = "cmd_search ?xs p"
  have s: "sorted_wrt (<) (names ?xs)" using assms by (simp add: reg_ok_def)
  note k = cmd_search_split [OF s, of p]
  have "\<not> has_prefix (cm_Name c) p" if "c \<in> set (take ?k ?xs)" for c
    using k that prefix_ge by (metis leD)
  then have "filter (\<lambda>c. has_prefix (cm_Name c) p) ?xs = filter (\<lambda>c. has_prefix (cm_Name c) p) (drop ?k ?xs)"
    by (metis (mono_tags, lifting) append_take_drop_id filter_append filter_empty_conv self_append_conv2)
  also have "\<dots> = takeWhile (\<lambda>c. has_prefix (cm_Name c) p) (drop ?k ?xs)"
    using prefix_scan [of "drop ?k ?xs" p] s k sorted_wrt_drop by (auto simp: names_def drop_map [symmetric])
  finally show ?thesis using False by (simp add: prefixLocked_def)
qed

text \<open>The registry resolves verbs exactly: after any sequence of registrations and removals (accepted or
  refused), the names are strictly sorted, a verb resolves to a command exactly when it is the name or an
  alias of that registered command, and the binary-search prefix scan returns exactly the registered commands
  with that prefix.\<close>

lemma registry_exact:
  "sorted_wrt (<) (names (rg_sorted (fold reg_step ops NewRegistry)))
   \<and> (lookupExactLocked (fold reg_step ops NewRegistry) v = Some c) =
       (c \<in> set (rg_sorted (fold reg_step ops NewRegistry)) \<and> (cm_Name c = v \<or> v \<in> set (cm_Aliases c)))
   \<and> prefixLocked (fold reg_step ops NewRegistry) p =
       filter (\<lambda>c. has_prefix (cm_Name c) p) (rg_sorted (fold reg_step ops NewRegistry))"
proof -
  note ok = reg_runs_ok [of ops]
  from ok have "sorted_wrt (<) (names (rg_sorted (fold reg_step ops NewRegistry)))" by (simp add: reg_ok_def)
  with lookupExact_spec [OF ok] prefixLocked_filter [OF ok] show ?thesis by simp
qed

end
