(* ===== verification/Creature.thy ===== *)
theory Creature
  imports GoPrelude
begin

text \<open>
  The data model of \<open>internal/creature\<close>: the enums, ability scores, \<open>Core\<close>, the equipment record with its
  slot operations (\<open>equipment.go\<close>), and the race profiles (\<open>race.go\<close>). Go integers are \<open>int\<close> values
  kept in their range by the operations; bit sets (\<open>Condition\<close>, \<open>PositionFlags\<close>) are machine words.
  The equipment record satisfies the contract of an addressable cell array (locale \<open>slots\<close>).
\<close>

unbundle bit_operations_syntax

section \<open>Enums\<close>

datatype Size = SizeFine | SizeDiminutive | SizeTiny | SizeSmall | SizeMedium | SizeLarge
  | SizeHuge | SizeGargantuan | SizeColossal

datatype Type = TypeHumanoid | TypeAnimal | TypeExotic | TypeShadowspawn

datatype Gender = GenderNone | GenderMale | GenderFemale

datatype Posture = PostureGood | PostureBad | PostureEvil

text \<open>A race is an \<open>int8\<close>; values without a named constant are \<open>RaceOther\<close>.\<close>

datatype Race = RaceHuman | RaceOgier | RaceOther int

datatype Class = ClassAlgaiDSiswai | ClassArmsman | ClassInitiate | ClassNoble | ClassWanderer
  | ClassWilder | ClassWoodsman

datatype FlyManeuver = FlyNone | FlyClumsy | FlyPoor | FlyAverage | FlyGood | FlyPerfect

datatype DamageType = DamageSlash | DamagePierce | DamageBludgeon | DamageFire | DamageCold
  | DamageLightning | DamageAir | DamageEarth | DamageSpirit | DamageSubdual | DamageTaint

section \<open>Ability scores\<close>

record AbilityScore =
  as_Current :: int
  as_Max :: int
  as_Inherent :: int

record Abilities =
  ab_Str :: AbilityScore
  ab_Dex :: AbilityScore
  ab_Con :: AbilityScore
  ab_Int :: AbilityScore
  ab_Wis :: AbilityScore
  ab_Cha :: AbilityScore

definition AbilityMod :: "int \<Rightarrow> int" where
  "AbilityMod score =
     (let diff = i16 (score - 10)
      in if diff < 0 \<and> diff smod 2 \<noteq> 0 then (diff - 1) sdiv 2 else diff sdiv 2)"

definition StrMod :: "Abilities \<Rightarrow> int" where "StrMod a = AbilityMod (as_Current (ab_Str a))"
definition DexMod :: "Abilities \<Rightarrow> int" where "DexMod a = AbilityMod (as_Current (ab_Dex a))"
definition ConMod :: "Abilities \<Rightarrow> int" where "ConMod a = AbilityMod (as_Current (ab_Con a))"
definition IntMod :: "Abilities \<Rightarrow> int" where "IntMod a = AbilityMod (as_Current (ab_Int a))"
definition WisMod :: "Abilities \<Rightarrow> int" where "WisMod a = AbilityMod (as_Current (ab_Wis a))"
definition ChaMod :: "Abilities \<Rightarrow> int" where "ChaMod a = AbilityMod (as_Current (ab_Cha a))"

record Saves =
  sv_Fort :: int
  sv_Ref :: int
  sv_Will :: int

record Speed =
  sp_BaseFt :: int
  sp_ClimbFt :: int
  sp_FlyFt :: int
  sp_FlyManeuver :: FlyManeuver
  sp_SwimFt :: int
  sp_BurrowFt :: int

section \<open>Damage, resistance, conditions\<close>

record Resist =
  rs_Type :: DamageType
  rs_Pct :: int

record DamageReduction =
  dr_Amount :: int
  dr_Bypass :: string

type_synonym Condition = "32 word"

abbreviation CondBlinded :: Condition where "CondBlinded \<equiv> push_bit 2 1"
abbreviation CondDazed :: Condition where "CondDazed \<equiv> push_bit 5 1"
abbreviation CondDying :: Condition where "CondDying \<equiv> push_bit 8 1"
abbreviation CondExhausted :: Condition where "CondExhausted \<equiv> push_bit 10 1"
abbreviation CondFatigued :: Condition where "CondFatigued \<equiv> push_bit 11 1"
abbreviation CondFlatFooted :: Condition where "CondFlatFooted \<equiv> push_bit 12 1"
abbreviation CondHelpless :: Condition where "CondHelpless \<equiv> push_bit 16 1"
abbreviation CondParalyzed :: Condition where "CondParalyzed \<equiv> push_bit 18 1"
abbreviation CondPinned :: Condition where "CondPinned \<equiv> push_bit 19 1"
abbreviation CondProne :: Condition where "CondProne \<equiv> push_bit 20 1"
abbreviation CondStunned :: Condition where "CondStunned \<equiv> push_bit 24 1"
abbreviation CondUnconscious :: Condition where "CondUnconscious \<equiv> push_bit 25 1"

type_synonym PositionFlags = "16 word"

abbreviation PosFlanked :: PositionFlags where "PosFlanked \<equiv> push_bit 0 1"
abbreviation PosCharging :: PositionFlags where "PosCharging \<equiv> push_bit 1 1"
abbreviation PosTotalDefense :: PositionFlags where "PosTotalDefense \<equiv> push_bit 2 1"
abbreviation PosFightingDefensively :: PositionFlags where "PosFightingDefensively \<equiv> push_bit 3 1"
abbreviation PosConcealed :: PositionFlags where "PosConcealed \<equiv> push_bit 4 1"
abbreviation PosCover :: PositionFlags where "PosCover \<equiv> push_bit 5 1"

record StatMod =
  sm_Field :: string
  sm_Delta :: int

record Affect =
  af_Source :: int
  af_Name :: string
  af_Modifiers :: "StatMod list"
  af_DurationTicks :: int
  af_TickEffect :: string
  af_ConditionMask :: Condition
  af_TickDamage :: int
  af_ExpireMessage :: string

section \<open>Core\<close>

record Core =
  c_ID :: int
  c_Name :: string
  c_Size :: Size
  c_Type :: Type
  c_Gender :: Gender
  c_Alignment :: Posture
  c_Abilities :: Abilities
  c_HPCurrent :: int
  c_HPMax :: int
  c_Subdual :: int
  c_StaminaCurrent :: int
  c_StaminaMax :: int
  c_StaminaRegen :: int
  c_HitDice :: string
  c_Defense :: int
  c_Saves :: Saves
  c_InitMod :: int
  c_Speed :: Speed
  c_BAB :: int
  c_ReachFt :: int
  c_FaceFt :: int
  c_ThreatFt :: int
  c_Conditions :: Condition
  c_Position :: PositionFlags
  c_Specials :: "32 word"
  c_DR :: "DamageReduction list"
  c_Resists :: "Resist list"
  c_Affects :: "Affect list"
  c_CurrentRoomID :: int

text \<open>The zero values of the Go structs.\<close>

definition zero_AbilityScore :: AbilityScore where
  "zero_AbilityScore = \<lparr>as_Current = 0, as_Max = 0, as_Inherent = 0\<rparr>"

definition zero_Abilities :: Abilities where
  "zero_Abilities = \<lparr>ab_Str = zero_AbilityScore, ab_Dex = zero_AbilityScore, ab_Con = zero_AbilityScore,
     ab_Int = zero_AbilityScore, ab_Wis = zero_AbilityScore, ab_Cha = zero_AbilityScore\<rparr>"

definition zero_Core :: Core where
  "zero_Core = \<lparr>c_ID = 0, c_Name = '''', c_Size = SizeFine, c_Type = TypeHumanoid, c_Gender = GenderNone,
     c_Alignment = PostureGood, c_Abilities = zero_Abilities, c_HPCurrent = 0, c_HPMax = 0,
     c_Subdual = 0, c_StaminaCurrent = 0, c_StaminaMax = 0, c_StaminaRegen = 0, c_HitDice = '''',
     c_Defense = 0, c_Saves = \<lparr>sv_Fort = 0, sv_Ref = 0, sv_Will = 0\<rparr>, c_InitMod = 0,
     c_Speed = \<lparr>sp_BaseFt = 0, sp_ClimbFt = 0, sp_FlyFt = 0, sp_FlyManeuver = FlyNone, sp_SwimFt = 0,
       sp_BurrowFt = 0\<rparr>,
     c_BAB = 0, c_ReachFt = 0, c_FaceFt = 0, c_ThreatFt = 0, c_Conditions = 0, c_Position = 0,
     c_Specials = 0, c_DR = [], c_Resists = [], c_Affects = [], c_CurrentRoomID = 0\<rparr>"

section \<open>Equipment\<close>

text \<open>A slot is an \<open>int8\<close>; values without a named constant are \<open>SlotOther\<close>.\<close>

datatype Slot = SlotArmor | SlotShield | SlotPrimaryWield | SlotOffHand | SlotOutfit | SlotCloak
  | SlotBackpack | SlotHeldInHand | SlotMount | SlotOther int

record Equipment =
  eq_Armor :: int
  eq_Shield :: int
  eq_PrimaryWield :: int
  eq_OffHand :: int
  eq_Outfit :: int
  eq_Cloak :: int
  eq_Backpack :: int
  eq_HeldInHand :: int
  eq_Mount :: int
  eq_BeltPouches :: "int list"
  eq_WornMisc :: "int list"

fun equip_Get :: "Equipment \<Rightarrow> Slot \<Rightarrow> int" where
  "equip_Get e SlotArmor = eq_Armor e"
| "equip_Get e SlotShield = eq_Shield e"
| "equip_Get e SlotPrimaryWield = eq_PrimaryWield e"
| "equip_Get e SlotOffHand = eq_OffHand e"
| "equip_Get e SlotOutfit = eq_Outfit e"
| "equip_Get e SlotCloak = eq_Cloak e"
| "equip_Get e SlotBackpack = eq_Backpack e"
| "equip_Get e SlotHeldInHand = eq_HeldInHand e"
| "equip_Get e SlotMount = eq_Mount e"
| "equip_Get e (SlotOther _) = 0"

text \<open>The pointer receiver: the updated record, with the displaced id \<open>Set\<close> returns.\<close>

fun equip_Set :: "Equipment \<Rightarrow> Slot \<Rightarrow> int \<Rightarrow> Equipment \<times> int" where
  "equip_Set e SlotArmor i = (e\<lparr>eq_Armor := i\<rparr>, eq_Armor e)"
| "equip_Set e SlotShield i = (e\<lparr>eq_Shield := i\<rparr>, eq_Shield e)"
| "equip_Set e SlotPrimaryWield i = (e\<lparr>eq_PrimaryWield := i\<rparr>, eq_PrimaryWield e)"
| "equip_Set e SlotOffHand i = (e\<lparr>eq_OffHand := i\<rparr>, eq_OffHand e)"
| "equip_Set e SlotOutfit i = (e\<lparr>eq_Outfit := i\<rparr>, eq_Outfit e)"
| "equip_Set e SlotCloak i = (e\<lparr>eq_Cloak := i\<rparr>, eq_Cloak e)"
| "equip_Set e SlotBackpack i = (e\<lparr>eq_Backpack := i\<rparr>, eq_Backpack e)"
| "equip_Set e SlotHeldInHand i = (e\<lparr>eq_HeldInHand := i\<rparr>, eq_HeldInHand e)"
| "equip_Set e SlotMount i = (e\<lparr>eq_Mount := i\<rparr>, eq_Mount e)"
| "equip_Set e (SlotOther _) i = (e, 0)"

definition equip_Clear :: "Equipment \<Rightarrow> Slot \<Rightarrow> Equipment \<times> int" where
  "equip_Clear e slot = equip_Set e slot 0"

definition FindByItem :: "Equipment \<Rightarrow> int \<Rightarrow> Slot option" where
  "FindByItem e i =
     (if i = 0 then None
      else if i = eq_Armor e then Some SlotArmor
      else if i = eq_Shield e then Some SlotShield
      else if i = eq_PrimaryWield e then Some SlotPrimaryWield
      else if i = eq_OffHand e then Some SlotOffHand
      else if i = eq_Outfit e then Some SlotOutfit
      else if i = eq_Cloak e then Some SlotCloak
      else if i = eq_Backpack e then Some SlotBackpack
      else if i = eq_HeldInHand e then Some SlotHeldInHand
      else if i = eq_Mount e then Some SlotMount
      else None)"

definition ClearItem :: "Equipment \<Rightarrow> int \<Rightarrow> Equipment \<times> Slot option" where
  "ClearItem e i =
     (case FindByItem e i of None \<Rightarrow> (e, None)
      | Some slot \<Rightarrow> (fst (equip_Clear e slot), Some slot))"

fun slot_Label :: "Slot \<Rightarrow> string" where
  "slot_Label SlotArmor = ''worn''"
| "slot_Label SlotShield = ''shield''"
| "slot_Label SlotPrimaryWield = ''wielded''"
| "slot_Label SlotOffHand = ''offhand''"
| "slot_Label SlotOutfit = ''worn''"
| "slot_Label SlotCloak = ''worn''"
| "slot_Label SlotBackpack = ''worn''"
| "slot_Label SlotHeldInHand = ''held''"
| "slot_Label SlotMount = ''mount''"
| "slot_Label (SlotOther _) = ''''"

fun SlotName :: "Slot \<Rightarrow> string" where
  "SlotName SlotArmor = ''armor''"
| "SlotName SlotShield = ''shield''"
| "SlotName SlotPrimaryWield = ''primary hand''"
| "SlotName SlotOffHand = ''off hand''"
| "SlotName SlotOutfit = ''outfit''"
| "SlotName SlotCloak = ''cloak''"
| "SlotName SlotBackpack = ''backpack''"
| "SlotName SlotHeldInHand = ''held''"
| "SlotName SlotMount = ''mount''"
| "SlotName (SlotOther _) = ''unknown''"

section \<open>Race profiles\<close>

text \<open>The \<open>float32\<close> speed factor is kept in tenths (the two literals of the source are 1.0 and 1.2).\<close>

record RaceProfile =
  rp_SpeedTenths :: int
  rp_StaminaMax :: int
  rp_StaminaRegen :: int

definition DefaultRaceProfile :: RaceProfile where
  "DefaultRaceProfile = \<lparr>rp_SpeedTenths = 10, rp_StaminaMax = 100, rp_StaminaRegen = 2\<rparr>"

fun ProfileFor :: "Race \<Rightarrow> RaceProfile" where
  "ProfileFor RaceHuman = \<lparr>rp_SpeedTenths = 10, rp_StaminaMax = 100, rp_StaminaRegen = 2\<rparr>"
| "ProfileFor RaceOgier = \<lparr>rp_SpeedTenths = 12, rp_StaminaMax = 150, rp_StaminaRegen = 1\<rparr>"
| "ProfileFor (RaceOther _) = DefaultRaceProfile"

section \<open>Ability modifiers\<close>

lemma AbilityMod_div:
  assumes "in_range 8 s"
  shows "AbilityMod s = (s - 10) div 2"
proof (cases "10 \<le> s")
  case True
  then show ?thesis using assms by (simp add: AbilityMod_def i16_id sdiv_nonneg smod_nonneg Let_def in_range_8)
next
  case False
  let ?d = "s - 10"
  have d: "?d < 0" using False by simp
  have sd: "?d sdiv 2 = - (- ?d div 2)" "(?d - 1) sdiv 2 = - (- (?d - 1) div 2)"
    "?d smod 2 = - (- ?d mod 2)"
    using d by (simp_all add: signed_divide_int_def signed_modulo_int_def sgn_if)
  have "AbilityMod s = (if ?d smod 2 \<noteq> 0 then (?d - 1) sdiv 2 else ?d sdiv 2)"
    using d assms by (simp add: AbilityMod_def i16_id Let_def in_range_8)
  also have "\<dots> = ?d div 2" unfolding sd using d by (cases "even s") presburger+
  finally show ?thesis .
qed

lemma AbilityMod_le: "in_range 8 s \<Longrightarrow> AbilityMod s \<le> 58"
  using AbilityMod_div [of s] by (simp add: in_range_8) linarith

text \<open>\<open>AbilityMod\<close> is the d20 modifier \<open>floor ((score - 10) / 2)\<close> for every \<open>int8\<close> score, and so
  stays between -69 and 58.\<close>

lemma AbilityMod_floor:
  assumes "in_range 8 s"
  shows "AbilityMod s = (s - 10) div 2 \<and> - 69 \<le> AbilityMod s \<and> AbilityMod s \<le> 58"
proof -
  have "- 128 \<le> s" "s < 128" using assms by (simp_all add: in_range_8)
  then have "- 69 \<le> (s - 10) div 2" "(s - 10) div 2 \<le> 58" by linarith+
  with AbilityMod_div [OF assms] show ?thesis by simp
qed

section \<open>The equipment record as an array of slots\<close>

text \<open>The contract the commands rely on: a slot reads back what was set, the other slots are untouched,
  \<open>Set\<close> returns what it displaces, and the search finds a slot exactly when one holds the item.\<close>

locale slots =
  fixes get :: "'s \<Rightarrow> 'k \<Rightarrow> int"
    and upd :: "'s \<Rightarrow> 'k \<Rightarrow> int \<Rightarrow> 's \<times> int"
    and find :: "'s \<Rightarrow> int \<Rightarrow> 'k option"
    and valid :: "'k \<Rightarrow> bool"
  assumes get_same: "valid k \<Longrightarrow> get (fst (upd s k i)) k = i"
    and get_other: "k \<noteq> k' \<Longrightarrow> get (fst (upd s k i)) k' = get s k'"
    and displaced: "snd (upd s k i) = get s k"
    and upd_get: "fst (upd s k (get s k)) = s"
    and find_Some: "find s i = Some k \<Longrightarrow> i \<noteq> 0 \<and> valid k \<and> get s k = i"
    and find_None: "find s i = None \<Longrightarrow> i = 0 \<or> (\<forall>k. get s k \<noteq> i)"
begin

definition clear :: "'s \<Rightarrow> int \<Rightarrow> 's \<times> 'k option" where
  "clear s i = (case find s i of None \<Rightarrow> (s, None) | Some k \<Rightarrow> (fst (upd s k 0), Some k))"

text \<open>No item is held by two slots.\<close>

definition single :: "'s \<Rightarrow> bool" where
  "single s \<longleftrightarrow> (\<forall>k k'. get s k \<noteq> 0 \<and> get s k = get s k' \<longrightarrow> k = k')"

lemma single_upd:
  assumes "single s" "i = 0 \<or> (\<forall>k. get s k \<noteq> i)" "valid k"
  shows "single (fst (upd s k i))"
  unfolding single_def
proof (intro allI impI)
  fix k1 k2
  assume h: "get (fst (upd s k i)) k1 \<noteq> 0 \<and> get (fst (upd s k i)) k1 = get (fst (upd s k i)) k2"
  have g: "get (fst (upd s k i)) x = (if x = k then i else get s x)" for x
    using assms(3) get_same get_other by metis
  show "k1 = k2"
    using h assms(1,2) unfolding g single_def by (metis (full_types))
qed

lemma clear_removes:
  assumes "single s" "i \<noteq> 0"
  shows "\<forall>k. get (fst (clear s i)) k \<noteq> i"
proof (cases "find s i")
  case None
  then show ?thesis using find_None assms(2) by (auto simp: clear_def)
next
  case (Some k)
  with find_Some have k: "valid k" "get s k = i" by auto
  have "get (fst (upd s k 0)) x \<noteq> i" for x
    using k assms get_same [of k s 0] get_other [of k x s 0] by (cases "x = k") (auto simp: single_def)
  with Some show ?thesis by (simp add: clear_def)
qed

lemma clear_single: "single s \<Longrightarrow> single (fst (clear s i))"
  using single_upd [of s 0] find_Some by (auto simp: clear_def split: option.splits)

lemma clear_other: "snd (clear s i) \<noteq> Some k \<Longrightarrow> get (fst (clear s i)) k = get s k"
  using get_other by (auto simp: clear_def split: option.splits)

end

definition named_slot :: "Slot \<Rightarrow> bool" where
  "named_slot k \<longleftrightarrow> (case k of SlotOther _ \<Rightarrow> False | _ \<Rightarrow> True)"

interpretation equip: slots equip_Get equip_Set FindByItem named_slot
proof
  fix s :: Equipment and k k' :: Slot and i :: int
  show "named_slot k \<Longrightarrow> equip_Get (fst (equip_Set s k i)) k = i"
    by (cases k) (simp_all add: named_slot_def)
  show "k \<noteq> k' \<Longrightarrow> equip_Get (fst (equip_Set s k i)) k' = equip_Get s k'"
    by (cases k; cases k') simp_all
  show "snd (equip_Set s k i) = equip_Get s k" by (cases k) simp_all
  show "fst (equip_Set s k (equip_Get s k)) = s" by (cases k) simp_all
  show "FindByItem s i = Some k \<Longrightarrow> i \<noteq> 0 \<and> named_slot k \<and> equip_Get s k = i"
    by (auto simp: FindByItem_def named_slot_def split: if_splits)
  assume n: "FindByItem s i = None"
  show "i = 0 \<or> (\<forall>k. equip_Get s k \<noteq> i)"
  proof (cases "i = 0")
    case False
    with n have "equip_Get s k \<noteq> i" for k by (cases k) (auto simp: FindByItem_def split: if_splits)
    then show ?thesis by blast
  qed simp
qed

lemma ClearItem_clear: "ClearItem e i = equip.clear e i"
  by (simp add: ClearItem_def equip.clear_def equip_Clear_def split: option.splits)

text \<open>\<open>ClearItem\<close> leaves no dangling reference: when no item occupies two slots, afterwards no slot
  holds the item, still no item occupies two slots, and every slot other than the one returned is as
  before.\<close>

lemma ClearItem_no_dangling:
  assumes "\<forall>k k'. equip_Get e k \<noteq> 0 \<and> equip_Get e k = equip_Get e k' \<longrightarrow> k = k'" "i \<noteq> 0"
  shows "(\<forall>k. equip_Get (fst (ClearItem e i)) k \<noteq> i)
    \<and> (\<forall>k k'. equip_Get (fst (ClearItem e i)) k \<noteq> 0 \<and>
         equip_Get (fst (ClearItem e i)) k = equip_Get (fst (ClearItem e i)) k' \<longrightarrow> k = k')
    \<and> (\<forall>k. snd (ClearItem e i) \<noteq> Some k \<longrightarrow> equip_Get (fst (ClearItem e i)) k = equip_Get e k)"
proof -
  have s: "equip.single e" using assms(1) by (simp add: equip.single_def)
  show ?thesis
    using equip.clear_removes [OF s assms(2)] equip.clear_single [OF s, of i] equip.clear_other [of e i]
    unfolding ClearItem_clear equip.single_def by blast
qed

definition sample_equip :: Equipment where
  "sample_equip = \<lparr>eq_Armor = 7, eq_Shield = 0, eq_PrimaryWield = 9, eq_OffHand = 0, eq_Outfit = 0,
     eq_Cloak = 0, eq_Backpack = 0, eq_HeldInHand = 0, eq_Mount = 0, eq_BeltPouches = [], eq_WornMisc = []\<rparr>"

end
