(* ===== verification/Affects.thy ===== *)
theory Affects
  imports Creature
begin

text \<open>
  Timed buffs and debuffs: \<open>internal/affects/affects.go\<close> and \<open>tick_effect.go\<close>. \<open>Effective\<close> folds the
  modifiers into a copy of the core, \<open>Tick\<close> counts durations down, \<open>Apply\<close> adds or refreshes an entry under
  the stacking cap, and \<open>ApplyTickEffects\<close> turns damage-over-time entries into HP changes. The properties:
  the effective block stays in the machine ranges and touches nothing but its listed fields, an affect lives
  exactly as long as its duration, the affect list keeps unique keys and the cap, and ticking effects keep HP
  between 0 and the maximum.
\<close>

definition MaxAffectsPerName :: int where "MaxAffectsPerName = 4"

definition clampInt8 :: "int \<Rightarrow> int" where
  "clampInt8 v = (if v < -128 then -128 else if v > 127 then 127 else i8 v)"

definition bump_score :: "AbilityScore \<Rightarrow> int \<Rightarrow> AbilityScore" where
  "bump_score s d = s\<lparr>as_Current := clampInt8 (i16 (as_Current s + d))\<rparr>"

definition applyMod :: "Core \<Rightarrow> StatMod \<Rightarrow> Core" where
  "applyMod c m =
     (let d = sm_Delta m; f = sm_Field m; a = c_Abilities c; s = c_Saves c
      in if f = ''Str.Current'' then c\<lparr>c_Abilities := a\<lparr>ab_Str := bump_score (ab_Str a) d\<rparr>\<rparr>
         else if f = ''Dex.Current'' then c\<lparr>c_Abilities := a\<lparr>ab_Dex := bump_score (ab_Dex a) d\<rparr>\<rparr>
         else if f = ''Con.Current'' then c\<lparr>c_Abilities := a\<lparr>ab_Con := bump_score (ab_Con a) d\<rparr>\<rparr>
         else if f = ''Int.Current'' then c\<lparr>c_Abilities := a\<lparr>ab_Int := bump_score (ab_Int a) d\<rparr>\<rparr>
         else if f = ''Wis.Current'' then c\<lparr>c_Abilities := a\<lparr>ab_Wis := bump_score (ab_Wis a) d\<rparr>\<rparr>
         else if f = ''Cha.Current'' then c\<lparr>c_Abilities := a\<lparr>ab_Cha := bump_score (ab_Cha a) d\<rparr>\<rparr>
         else if f = ''Defense'' then c\<lparr>c_Defense := i16 (c_Defense c + d)\<rparr>
         else if f = ''Saves.Fort'' then c\<lparr>c_Saves := s\<lparr>sv_Fort := i16 (sv_Fort s + d)\<rparr>\<rparr>
         else if f = ''Saves.Ref'' then c\<lparr>c_Saves := s\<lparr>sv_Ref := i16 (sv_Ref s + d)\<rparr>\<rparr>
         else if f = ''Saves.Will'' then c\<lparr>c_Saves := s\<lparr>sv_Will := i16 (sv_Will s + d)\<rparr>\<rparr>
         else if f = ''Speed.BaseFt'' then
           c\<lparr>c_Speed := (c_Speed c)\<lparr>sp_BaseFt :=
             (let v = i16 (sp_BaseFt (c_Speed c) + d) in if v < 0 then 0 else v)\<rparr>\<rparr>
         else if f = ''BAB'' then c\<lparr>c_BAB := i16 (c_BAB c + d)\<rparr>
         else c)"

definition apply_affect :: "Core \<Rightarrow> Affect \<Rightarrow> Core" where
  "apply_affect c a =
     (let out = foldl applyMod c (af_Modifiers a)
      in out\<lparr>c_Conditions := c_Conditions out OR af_ConditionMask a\<rparr>)"

definition Effective :: "Core \<Rightarrow> Core" where
  "Effective c = (if c_Affects c = [] then c else foldl apply_affect c (c_Affects c))"

fun affects_Tick :: "Affect list \<Rightarrow> Affect list \<times> Affect list" where
  "affects_Tick [] = ([], [])"
| "affects_Tick (a # as) =
     (let d = i32 (af_DurationTicks a - 1); (out, expired) = affects_Tick as
      in if d \<le> 0 then (out, a\<lparr>af_DurationTicks := 0\<rparr> # expired)
         else (a\<lparr>af_DurationTicks := d\<rparr> # out, expired))"

text \<open>The second loop of \<open>evictForName\<close>: the index of the first entry of the name with the least
  remaining duration.\<close>

fun victim_loop :: "string \<Rightarrow> nat \<Rightarrow> (nat \<times> int) option \<Rightarrow> Affect list \<Rightarrow> (nat \<times> int) option" where
  "victim_loop name i best [] = best"
| "victim_loop name i best (a # as) =
     victim_loop name (i + 1)
       (if af_Name a \<noteq> name then best
        else case best of None \<Rightarrow> Some (i, af_DurationTicks a)
             | Some (v, m) \<Rightarrow> if af_DurationTicks a < m then Some (i, af_DurationTicks a) else best) as"

definition evictForName :: "Affect list \<Rightarrow> string \<Rightarrow> Affect list" where
  "evictForName as name =
     (if int (length (filter (\<lambda>a. af_Name a = name) as)) < MaxAffectsPerName then as
      else case victim_loop name 0 None as of None \<Rightarrow> as
           | Some (v, _) \<Rightarrow> take v as @ drop (v + 1) as)"

fun refresh_loop :: "Affect list \<Rightarrow> Affect \<Rightarrow> Affect list option" where
  "refresh_loop [] a = None"
| "refresh_loop (p # ps) a =
     (if af_Source p \<noteq> af_Source a \<or> af_Name p \<noteq> af_Name a
      then map_option ((#) p) (refresh_loop ps a)
      else Some (a # ps))"

definition affects_Apply :: "Affect list \<Rightarrow> Affect \<Rightarrow> Affect list" where
  "affects_Apply as a =
     (case refresh_loop as a of Some out \<Rightarrow> out | None \<Rightarrow> evictForName as (af_Name a) @ [a])"

record TickEvent =
  te_Name :: string
  te_Delta :: int
  te_NewHP :: int
  te_Effect :: string

fun tick_effects_loop :: "int \<Rightarrow> int \<Rightarrow> Affect list \<Rightarrow> int \<times> TickEvent list" where
  "tick_effects_loop hpMax hp [] = (hp, [])"
| "tick_effects_loop hpMax hp (a # as) =
     (if af_TickEffect a = '''' \<or> af_TickDamage a = 0 then tick_effects_loop hpMax hp as
      else
        let n0 = i32 (hp + af_TickDamage a);
            n1 = (if n0 < 0 then 0 else n0);
            next = (if hpMax > 0 \<and> n1 > hpMax then hpMax else n1);
            applied = i32 (next - hp)
        in if applied = 0 then tick_effects_loop hpMax hp as
           else
             let (hp', evs) = tick_effects_loop hpMax next as
             in (hp', \<lparr>te_Name = af_Name a, te_Delta = i16 applied, te_NewHP = next,
                       te_Effect = af_TickEffect a\<rparr> # evs))"

definition ApplyTickEffects :: "Core \<Rightarrow> int \<times> TickEvent list" where
  "ApplyTickEffects c = tick_effects_loop (c_HPMax c) (c_HPCurrent c) (c_Affects c)"

section \<open>Ticking effects\<close>

lemma tick_effects_loop_sum:
  assumes "0 < m" "m \<le> 32767"
  shows "0 \<le> hp \<Longrightarrow> hp \<le> m \<Longrightarrow> \<forall>a \<in> set as. in_range 16 (af_TickDamage a) \<Longrightarrow>
    0 \<le> fst (tick_effects_loop m hp as) \<and> fst (tick_effects_loop m hp as) \<le> m \<and>
    fst (tick_effects_loop m hp as) = hp + sum_list (map te_Delta (snd (tick_effects_loop m hp as)))"
proof (induction as arbitrary: hp)
  case (Cons a as)
  define n where "n = (if m < (if hp + af_TickDamage a < 0 then 0 else hp + af_TickDamage a) then m
    else (if hp + af_TickDamage a < 0 then 0 else hp + af_TickDamage a))"
  have d: "i32 (hp + af_TickDamage a) = hp + af_TickDamage a"
    using Cons.prems assms by (auto simp: in_range_16 intro!: i32_id)
  have n: "0 \<le> n" "n \<le> m" using Cons.prems assms(1) by (auto simp: n_def)
  have e: "i32 (n - hp) = n - hp" "i16 (n - hp) = n - hp"
    using n Cons.prems(1,2) assms(2) by (auto intro!: i32_id i16_id)
  have "tick_effects_loop m hp (a # as) =
      (if af_TickEffect a = '''' \<or> af_TickDamage a = 0 \<or> n = hp then tick_effects_loop m hp as
       else (fst (tick_effects_loop m n as),
           \<lparr>te_Name = af_Name a, te_Delta = n - hp, te_NewHP = n, te_Effect = af_TickEffect a\<rparr> #
             snd (tick_effects_loop m n as)))"
    using d e assms(1) i32_id [of 0] by (simp add: Let_def split_beta flip: n_def)
  then show ?case
    using Cons.IH [of hp] Cons.IH [of n] n Cons.prems by (cases "n = hp") auto
qed simp

lemma ApplyTickEffects_hp:
  assumes "0 < c_HPMax c" "c_HPMax c \<le> 32767" "0 \<le> c_HPCurrent c" "c_HPCurrent c \<le> c_HPMax c"
    and "\<forall>a \<in> set (c_Affects c). in_range 16 (af_TickDamage a)"
  shows "0 \<le> fst (ApplyTickEffects c) \<and> fst (ApplyTickEffects c) \<le> c_HPMax c
    \<and> fst (ApplyTickEffects c) = c_HPCurrent c + sum_list (map te_Delta (snd (ApplyTickEffects c)))"
  unfolding ApplyTickEffects_def by (rule tick_effects_loop_sum [OF assms])

text \<open>Damage and healing over time keep HP between zero and the maximum, and the reported events add up:
  the final HP is the starting HP plus the reported deltas, for every list of affects.\<close>

lemma ApplyTickEffects_bounds:
  assumes "0 < c_HPMax c" "c_HPMax c \<le> 32767" "0 \<le> c_HPCurrent c" "c_HPCurrent c \<le> c_HPMax c"
    and "\<forall>a \<in> set (c_Affects c). in_range 16 (af_TickDamage a)"
  shows "0 \<le> fst (ApplyTickEffects c) \<and> fst (ApplyTickEffects c) \<le> c_HPMax c
    \<and> fst (ApplyTickEffects c) = c_HPCurrent c + sum_list (map te_Delta (snd (ApplyTickEffects c)))"
  using assms by (rule ApplyTickEffects_hp)

definition sample_affect :: "string \<Rightarrow> int \<Rightarrow> int \<Rightarrow> int \<Rightarrow> Affect" where
  "sample_affect name src dur dmg =
     \<lparr>af_Source = src, af_Name = name, af_Modifiers = [\<lparr>sm_Field = ''Str.Current'', sm_Delta = 2\<rparr>],
      af_DurationTicks = dur, af_TickEffect = ''poison'', af_ConditionMask = 0, af_TickDamage = dmg,
      af_ExpireMessage = ''''\<rparr>"

section \<open>Durations\<close>

lemma affects_Tick_filter:
  "\<forall>a \<in> set as. in_range 32 (af_DurationTicks a) \<and> - 2147483648 < af_DurationTicks a \<Longrightarrow>
     affects_Tick as =
       (map (\<lambda>a. a\<lparr>af_DurationTicks := af_DurationTicks a - 1\<rparr>) (filter (\<lambda>a. 1 < af_DurationTicks a) as),
        map (\<lambda>a. a\<lparr>af_DurationTicks := 0\<rparr>) (filter (\<lambda>a. af_DurationTicks a \<le> 1) as))"
  by (induction as) (auto simp: Let_def split_beta in_range_32 i32_id)

text \<open>An affect with duration \<open>d\<close> is live for exactly \<open>d - 1\<close> further pulses and gone after the \<open>d\<close>-th:
  after \<open>n\<close> pulses the list holds exactly the affects whose duration exceeds \<open>n\<close>, in their order, with \<open>n\<close>
  taken off the duration and every other field unchanged.\<close>

lemma affects_Tick_lifetime:
  assumes "\<forall>a \<in> set as. 0 \<le> af_DurationTicks a \<and> in_range 32 (af_DurationTicks a)" "1 \<le> n"
  shows "((\<lambda>as. fst (affects_Tick as)) ^^ n) as =
    map (\<lambda>a. a\<lparr>af_DurationTicks := af_DurationTicks a - int n\<rparr>)
      (filter (\<lambda>a. int n < af_DurationTicks a) as)"
  using assms(2)
proof (induction n rule: dec_induct)
  case base
  have "\<forall>a \<in> set as. in_range 32 (af_DurationTicks a) \<and> - 2147483648 < af_DurationTicks a"
    using assms(1) by auto
  from affects_Tick_filter [OF this] show ?case by simp
next
  case (step n)
  let ?f = "\<lambda>a. a\<lparr>af_DurationTicks := af_DurationTicks a - int n\<rparr>"
  have r: "\<forall>a \<in> set (map ?f (filter (\<lambda>a. int n < af_DurationTicks a) as)).
      in_range 32 (af_DurationTicks a) \<and> - 2147483648 < af_DurationTicks a"
    using assms(1) by (auto simp: in_range_32)
  have "((\<lambda>as. fst (affects_Tick as)) ^^ Suc n) as =
      fst (affects_Tick (map ?f (filter (\<lambda>a. int n < af_DurationTicks a) as)))"
    using step.IH by simp
  also have "\<dots> = map (\<lambda>a. a\<lparr>af_DurationTicks := af_DurationTicks a - 1\<rparr>)
      (filter (\<lambda>a. 1 < af_DurationTicks a) (map ?f (filter (\<lambda>a. int n < af_DurationTicks a) as)))"
    by (simp only: affects_Tick_filter [OF r] fst_conv)
  also have "\<dots> = map (\<lambda>a. a\<lparr>af_DurationTicks := af_DurationTicks a - int (Suc n)\<rparr>)
      (filter (\<lambda>a. int (Suc n) < af_DurationTicks a) as)"
    by (induction as) auto
  finally show ?case .
qed

section \<open>The affect list\<close>

text \<open>Entries are keyed by source and name, and at most four share a name.\<close>

definition affect_key :: "Affect \<Rightarrow> int \<times> string" where
  "affect_key a = (af_Source a, af_Name a)"

definition affects_ok :: "Affect list \<Rightarrow> bool" where
  "affects_ok as \<longleftrightarrow> distinct (map affect_key as)
     \<and> (\<forall>name. int (length (filter (\<lambda>a. af_Name a = name) as)) \<le> MaxAffectsPerName)"

lemma refresh_loop_None: "refresh_loop as a = None \<longleftrightarrow> affect_key a \<notin> set (map affect_key as)"
  by (induction as) (auto simp: affect_key_def split: if_splits)

lemma refresh_loop_Some:
  "refresh_loop as a = Some out \<Longrightarrow>
     map affect_key out = map affect_key as \<and> a \<in> set out \<and> map af_Name out = map af_Name as"
  by (induction as arbitrary: out) (auto simp: affect_key_def split: if_splits)

lemma count_name_map: "length (filter (\<lambda>a. af_Name a = n) as) = length (filter (\<lambda>x. x = n) (map af_Name as))"
  by (induction as) auto

lemma victim_loop_index:
  assumes "victim_loop name i best as = Some (v, m)"
    and "\<forall>b. best = Some b \<longrightarrow> fst b < i"
  shows "best = Some (v, m) \<or> (i \<le> v \<and> v < i + length as \<and> af_Name (as ! (v - i)) = name \<and>
    af_DurationTicks (as ! (v - i)) = m)"
  using assms
proof (induction name i best as rule: victim_loop.induct)
  case (2 name i best a as)
  let ?b = "if af_Name a \<noteq> name then best
        else case best of None \<Rightarrow> Some (i, af_DurationTicks a)
             | Some (v, m) \<Rightarrow> if af_DurationTicks a < m then Some (i, af_DurationTicks a) else best"
  have "\<forall>b. ?b = Some b \<longrightarrow> fst b < i + 1" using "2.prems"(2) by (auto split: option.splits if_splits)
  with "2.IH" "2.prems"(1)
  have "?b = Some (v, m) \<or> (i + 1 \<le> v \<and> v < i + 1 + length as \<and> af_Name (as ! (v - (i + 1))) = name \<and>
    af_DurationTicks (as ! (v - (i + 1))) = m)" by simp
  then show ?case
  proof
    assume "?b = Some (v, m)"
    then show ?thesis by (auto split: if_splits option.splits)
  next
    assume r: "i + 1 \<le> v \<and> v < i + 1 + length as \<and> af_Name (as ! (v - (i + 1))) = name \<and>
      af_DurationTicks (as ! (v - (i + 1))) = m"
    then have "v - i = Suc (v - (i + 1))" by linarith
    then have "(a # as) ! (v - i) = as ! (v - (i + 1))" by simp
    with r show ?thesis by auto
  qed
qed simp

lemma victim_loop_some: "victim_loop name i (Some b) as \<noteq> None"
  by (induction as arbitrary: i b) (auto split: option.splits)

lemma victim_loop_found: "name \<in> set (map af_Name as) \<Longrightarrow> victim_loop name i best as \<noteq> None"
proof (induction as arbitrary: i best)
  case (Cons a as)
  show ?case
  proof (cases "af_Name a = name")
    case True
    then show ?thesis using victim_loop_some by (cases best) (auto split: prod.splits)
  next
    case False
    with Cons show ?thesis by simp
  qed
qed simp

lemma evict_split:
  assumes "MaxAffectsPerName \<le> int (length (filter (\<lambda>a. af_Name a = name) as))"
  shows "\<exists>xs x ys. as = xs @ x # ys \<and> evictForName as name = xs @ ys \<and> af_Name x = name"
proof -
  have "filter (\<lambda>a. af_Name a = name) as \<noteq> []" using assms by (auto simp: MaxAffectsPerName_def)
  then have "name \<in> set (map af_Name as)" by (auto simp: filter_empty_conv)
  then obtain v m where v: "victim_loop name 0 None as = Some (v, m)"
    using victim_loop_found [of name as 0 None] by auto
  from victim_loop_index [OF this] have l: "v < length as" "af_Name (as ! v) = name" by simp_all
  have "evictForName as name = take v as @ drop (Suc v) as"
    using assms v by (simp add: evictForName_def)
  with l id_take_nth_drop [OF l(1)] show ?thesis by blast
qed

text \<open>The affect list keeps its shape: starting from a list in which no two entries share source and name
  and at most four share a name, \<open>Apply\<close> (new entry, refresh or eviction) and \<open>Tick\<close> produce such a list
  again, and after \<open>Apply\<close> the new affect is in the list.\<close>

lemma affects_list_invariant:
  assumes "affects_ok as"
  shows "affects_ok (affects_Apply as a) \<and> a \<in> set (affects_Apply as a)
    \<and> affects_ok (fst (affects_Tick as))"
proof -
  have tick: "distinct (map affect_key (fst (affects_Tick bs))) \<and>
      set (map affect_key (fst (affects_Tick bs))) \<subseteq> set (map affect_key bs) \<and>
      (\<forall>n. length (filter (\<lambda>a. af_Name a = n) (fst (affects_Tick bs))) \<le> length (filter (\<lambda>a. af_Name a = n) bs))"
    if "distinct (map affect_key bs)" for bs
    using that by (induction bs) (auto simp: Let_def split_beta affect_key_def le_SucI)
  then have t: "affects_ok (fst (affects_Tick as))"
    using assms unfolding affects_ok_def by (meson of_nat_le_iff order.trans)
  show ?thesis
  proof (cases "refresh_loop as a")
    case (Some out)
    with refresh_loop_Some [OF Some] assms t show ?thesis
      by (auto simp: affects_Apply_def affects_ok_def count_name_map)
  next
    case None
    then have new: "affect_key a \<notin> set (map affect_key as)" by (simp add: refresh_loop_None)
    let ?c = "\<lambda>n xs. int (length (filter (\<lambda>a. af_Name a = n) xs))"
    have "affects_ok (evictForName as (af_Name a) @ [a])"
    proof (cases "?c (af_Name a) as < MaxAffectsPerName")
      case True
      then have "evictForName as (af_Name a) = as" by (simp add: evictForName_def)
      with True new assms show ?thesis by (auto simp: affects_ok_def)
    next
      case False
      then obtain xs x ys where e: "as = xs @ x # ys" "evictForName as (af_Name a) = xs @ ys"
        "af_Name x = af_Name a" using evict_split [of "af_Name a" as] by auto
      have "?c n (xs @ ys @ [a]) \<le> ?c n as" for n using e by auto
      moreover have "?c n as \<le> MaxAffectsPerName" for n using assms by (simp add: affects_ok_def)
      ultimately have "?c n (xs @ ys @ [a]) \<le> MaxAffectsPerName" for n by (rule order.trans)
      moreover have "distinct (map affect_key (xs @ ys @ [a]))"
        using assms new e(1) by (auto simp: affects_ok_def)
      ultimately show ?thesis unfolding e(2) affects_ok_def append_assoc by blast
    qed
    with None t show ?thesis by (simp add: affects_Apply_def)
  qed
qed

section \<open>Effective values\<close>

text \<open>The machine ranges of the fields a modifier can change.\<close>

definition core_in_range :: "Core \<Rightarrow> bool" where
  "core_in_range c \<longleftrightarrow>
     (let a = c_Abilities c; s = c_Saves c
      in list_all (in_range 8) [as_Current (ab_Str a), as_Current (ab_Dex a), as_Current (ab_Con a),
            as_Current (ab_Int a), as_Current (ab_Wis a), as_Current (ab_Cha a)]
       \<and> list_all (in_range 16) [c_Defense c, sv_Fort s, sv_Ref s, sv_Will s, sp_BaseFt (c_Speed c), c_BAB c]
       \<and> 0 \<le> sp_BaseFt (c_Speed c))"

lemma clampInt8_range: "in_range 16 v \<Longrightarrow> in_range 8 (clampInt8 v)"
  by (auto simp: clampInt8_def in_range_8 i8_id)

lemma bump_range [simp]: "in_range 8 (as_Current (bump_score s d))"
  by (simp add: bump_score_def clampInt8_range)

lemma applyMod_range: "core_in_range c \<Longrightarrow> core_in_range (applyMod c m)"
  by (simp add: applyMod_def core_in_range_def Let_def) (auto simp: in_range_16)

lemma applyMods_range: "core_in_range c \<Longrightarrow> core_in_range (foldl applyMod c ms)"
  by (induction ms arbitrary: c) (simp_all add: applyMod_range)

lemma apply_affect_range: "core_in_range c \<Longrightarrow> core_in_range (apply_affect c a)"
  using applyMods_range [of c "af_Modifiers a"] by (simp add: apply_affect_def core_in_range_def Let_def)

text \<open>The fields no modifier names, and the condition bits.\<close>

definition core_frame :: "Core \<Rightarrow> int \<times> int \<times> int \<times> Affect list \<times> PositionFlags" where
  "core_frame c = (c_HPCurrent c, c_HPMax c, c_StaminaCurrent c, c_Affects c, c_Position c)"

lemma applyMod_frame [simp]:
  "core_frame (applyMod c m) = core_frame c" "c_Conditions (applyMod c m) = c_Conditions c"
  by (simp_all add: applyMod_def core_frame_def Let_def)

lemma applyMods_frame [simp]:
  "core_frame (foldl applyMod c ms) = core_frame c" "c_Conditions (foldl applyMod c ms) = c_Conditions c"
  by (induction ms arbitrary: c) simp_all

lemma apply_affect_frame [simp]:
  "core_frame (apply_affect c a) = core_frame c"
  "c_Conditions (apply_affect c a) = c_Conditions c OR af_ConditionMask a"
  using applyMods_frame [of c "af_Modifiers a"] by (simp_all add: apply_affect_def core_frame_def Let_def)

lemma fold_affects:
  "core_in_range c \<Longrightarrow> core_in_range (foldl apply_affect c as)"
  "core_frame (foldl apply_affect c as) = core_frame c"
  "c_Conditions (foldl apply_affect c as) = foldr (\<lambda>a w. af_ConditionMask a OR w) as 0 OR c_Conditions c"
  by (induction as arbitrary: c) (simp_all add: apply_affect_range ac_simps)

text \<open>The effective stat block combat reads is well formed: every ability score stays in \<open>int8\<close> (clamped,
  never wrapped), every other modified field in \<open>int16\<close> with speed at least zero; HP, stamina, position and
  the affect list are those of the stored core; and the conditions are the stored ones joined with the
  masks of all affects.\<close>

lemma Effective_well_formed:
  assumes "core_in_range c"
  shows "core_in_range (Effective c) \<and> core_frame (Effective c) = core_frame c
    \<and> c_Conditions (Effective c) = foldr (\<lambda>a w. af_ConditionMask a OR w) (c_Affects c) 0 OR c_Conditions c"
  using assms fold_affects [of c "c_Affects c"] by (auto simp: Effective_def)

end
