(* ===== verification/GoFloat.thy ===== *)
theory GoFloat
  imports GoPrelude
begin

text \<open>
  The \<open>float64\<close> and \<open>float32\<close> arithmetic of the cadence and damage factors. A finite float is a dyadic
  number \<open>m / 2^k\<close>; a product or sum is computed exactly and rounded to the 53 (or 24) bits of the
  format, half to even. Exponent overflow and subnormal numbers, which the modelled code never reaches,
  are not represented. Conversions to integers truncate toward zero.
\<close>

datatype flt = Flt (fmant: int) (fexp: nat)

text \<open>The number of bits of a natural number.\<close>

fun bitlen :: "nat \<Rightarrow> nat" where
  "bitlen n = (if n = 0 then 0 else Suc (bitlen (n div 2)))"

declare bitlen.simps [simp del]

text \<open>Rounding \<open>n / 2^s\<close> to an integer, half to even.\<close>

definition round_shift :: "nat \<Rightarrow> nat \<Rightarrow> nat" where
  "round_shift n s =
     (let q = n div 2 ^ s; r = n mod 2 ^ s; h = 2 ^ (s - 1)
      in if s = 0 then n else if r < h \<or> (r = h \<and> even q) then q else q + 1)"

text \<open>Rounding to \<open>p\<close> bits.\<close>

definition fround :: "nat \<Rightarrow> flt \<Rightarrow> flt" where
  "fround p x =
     (let n = nat \<bar>fmant x\<bar>; s = bitlen n - p; q = round_shift n s; sg = sgn (fmant x)
      in if s \<le> fexp x then Flt (sg * int q) (fexp x - s)
         else Flt (sg * int (q * 2 ^ (s - fexp x))) 0)"

abbreviation f64 :: "flt \<Rightarrow> flt" where "f64 \<equiv> fround 53"
abbreviation f32 :: "flt \<Rightarrow> flt" where "f32 \<equiv> fround 24"

definition fof :: "int \<Rightarrow> flt" where "fof n = f64 (Flt n 0)"

definition fmul :: "flt \<Rightarrow> flt \<Rightarrow> flt" where
  "fmul x y = Flt (fmant x * fmant y) (fexp x + fexp y)"

definition fadd :: "flt \<Rightarrow> flt \<Rightarrow> flt" where
  "fadd x y = Flt (fmant x * 2 ^ fexp y + fmant y * 2 ^ fexp x) (fexp x + fexp y)"

definition fneg :: "flt \<Rightarrow> flt" where
  "fneg x = Flt (- fmant x) (fexp x)"

definition fle :: "flt \<Rightarrow> flt \<Rightarrow> bool" where
  "fle x y \<longleftrightarrow> fmant x * 2 ^ fexp y \<le> fmant y * 2 ^ fexp x"

definition feq :: "flt \<Rightarrow> flt \<Rightarrow> bool" where
  "feq x y \<longleftrightarrow> fmant x * 2 ^ fexp y = fmant y * 2 ^ fexp x"

definition ftrunc :: "flt \<Rightarrow> int" where
  "ftrunc x = fmant x sdiv 2 ^ fexp x"

abbreviation (input) f_one :: flt where "f_one \<equiv> Flt 1 0"
abbreviation (input) f_zero :: flt where "f_zero \<equiv> Flt 0 0"

section \<open>Bit lengths\<close>

lemma bitlen_0 [simp]: "bitlen 0 = 0"
  by (simp add: bitlen.simps)

lemma bitlen_pos: "0 < n \<Longrightarrow> bitlen n = Suc (bitlen (n div 2))"
  by (simp add: bitlen.simps [of n])

lemma bitlen_bounds: "0 < n \<Longrightarrow> 2 ^ (bitlen n - 1) \<le> n \<and> n < 2 ^ bitlen n"
proof (induction n rule: less_induct)
  case (less n)
  show ?case
  proof (cases "n = 1")
    case True
    then show ?thesis by (simp add: bitlen_pos)
  next
    case False
    with less.prems have d: "0 < n div 2" "n div 2 < n" by auto
    obtain b where b: "bitlen (n div 2) = Suc b" using d(1) by (simp add: bitlen_pos)
    with less.IH [OF d(2,1)] show ?thesis by (simp add: bitlen_pos [OF less.prems]) linarith
  qed
qed

lemma bitlen_le: "n < 2 ^ k \<Longrightarrow> bitlen n \<le> k"
proof (rule ccontr)
  assume "n < 2 ^ k" "\<not> bitlen n \<le> k"
  then have "0 < n" "k \<le> bitlen n - 1" by (auto intro!: Nat.gr0I)
  then have "(2::nat) ^ k \<le> 2 ^ (bitlen n - 1)" by (intro power_increasing) auto
  with bitlen_bounds [OF \<open>0 < n\<close>] \<open>n < 2 ^ k\<close> show False by linarith
qed

lemma round_shift_0 [simp]: "round_shift n 0 = n"
  by (simp add: round_shift_def)

text \<open>A number that fits the format is not changed.\<close>

lemma fround_exact: "nat \<bar>fmant x\<bar> < 2 ^ p \<Longrightarrow> fround p x = x"
  using bitlen_le [of "nat \<bar>fmant x\<bar>" p]
  by (cases x) (simp add: fround_def Let_def sgn_mult_abs)

lemma fof_exact: "\<bar>n\<bar> < 2 ^ 53 \<Longrightarrow> fof n = Flt n 0"
  unfolding fof_def by (rule fround_exact) (simp add: nat_less_iff)

text \<open>A number that is slightly below a multiple \<open>t\<close> of the rounding unit is rounded up to it.\<close>

lemma round_shift_up:
  assumes "n + k = t * 2 ^ s" "2 * k < 2 ^ s"
  shows "round_shift n s = t"
proof (cases "k = 0")
  case True
  with assms have "n = t * 2 ^ s" by simp
  then show ?thesis by (auto simp: round_shift_def Let_def)
next
  case False
  with assms have s: "0 < s" by (cases s) auto
  have t: "0 < t" using assms False by (cases t) auto
  have kle: "k \<le> 2 ^ s" using assms(2) by linarith
  obtain u where u: "t = Suc u" using t by (cases t) auto
  have n: "n = u * 2 ^ s + (2 ^ s - k)" using assms(1) kle by (simp add: u)
  have lt: "2 ^ s - k < (2::nat) ^ s" using False by simp
  have q: "n div 2 ^ s = u" "n mod 2 ^ s = 2 ^ s - k" using lt by (simp_all add: n)
  have "(2::nat) ^ s = 2 * 2 ^ (s - 1)" using s by (cases s) auto
  then have "\<not> 2 ^ s - k \<le> (2::nat) ^ (s - 1)" using assms(2) by linarith
  then show ?thesis using s q u by (simp add: round_shift_def Let_def)
qed

text \<open>Rounding moves a number by at most half a unit.\<close>

lemma round_shift_bounds:
  "2 * n \<le> 2 * (round_shift n s * 2 ^ s) + 2 ^ s \<and> 2 * (round_shift n s * 2 ^ s) \<le> 2 * n + 2 ^ s"
proof (cases "s = 0")
  case False
  define A R H where d: "A = n div 2 ^ s * 2 ^ s" "R = n mod 2 ^ s" "H = (2::nat) ^ (s - 1)"
  have n: "n = A + R" unfolding d by (rule div_mult_mod_eq [symmetric])
  have h: "(2::nat) ^ s = 2 * H" unfolding d using False by (cases s) auto
  have r: "R < 2 * H" unfolding h [symmetric] by (simp add: d)
  have "round_shift n s * 2 ^ s = (if R < H \<or> (R = H \<and> even (n div 2 ^ s)) then A else A + 2 * H)"
    using False by (simp add: round_shift_def Let_def d flip: h) (simp add: d h)
  then show ?thesis unfolding h using n r by (auto split: if_splits)
qed simp

section \<open>The two variant factors\<close>

text \<open>The literals 1.5 (exact) and 0.6 (its nearest \<open>float64\<close>).\<close>

definition f_1_5 :: flt where "f_1_5 = Flt 3 1"
definition f_0_6 :: flt where "f_0_6 = Flt 5404319552844595 53"

lemma scale_1_5:
  assumes "0 \<le> d" "d < 2 ^ 50"
  shows "ftrunc (f64 (fmul (fof d) f_1_5)) = (3 * d) div 2"
proof -
  have "fof d = Flt d 0" using assms by (intro fof_exact) auto
  moreover have "f64 (Flt (3 * d) 1) = Flt (3 * d) 1" using assms by (intro fround_exact) auto
  ultimately show ?thesis using assms by (simp add: fmul_def f_1_5_def ftrunc_def sdiv_nonneg mult.commute)
qed

lemma ftrunc_f64:
  assumes "bitlen n - 53 \<le> e"
  shows "ftrunc (f64 (Flt (int n) e)) = int (round_shift n (bitlen n - 53) * 2 ^ (bitlen n - 53) div 2 ^ e)"
proof -
  let ?s = "bitlen n - 53"
  have "(2::nat) ^ e = 2 ^ (e - ?s) * 2 ^ ?s" using assms by (simp flip: power_add)
  then have c: "round_shift n ?s * 2 ^ ?s div 2 ^ e = round_shift n ?s div 2 ^ (e - ?s)" by simp
  have "f64 (Flt (int n) e) = Flt (int (round_shift n ?s)) (e - ?s)"
    using assms by (cases "n = 0") (simp_all add: fround_def Let_def)
  then show ?thesis unfolding c by (simp add: ftrunc_def sdiv_nonneg zdiv_int)
qed

lemma scale_0_6:
  assumes "0 \<le> d" "d < 2 ^ 50"
  shows "ftrunc (f64 (fmul (fof d) f_0_6)) = (3 * d) div 5"
proof -
  define c where "c = nat d"
  have d: "d = int c" using assms by (simp add: c_def)
  have c: "c < 2 ^ 50" using assms by (simp add: c_def nat_less_iff)
  define n where "n = c * 5404319552844595"
  let ?s = "bitlen n - 53" and ?q = "round_shift n (bitlen n - 53)"
  have n5: "5 * n + c = 3 * c * 9007199254740992" by (simp add: n_def)
  have "n < 2 ^ 103" using c by (simp add: n_def)
  then have b: "bitlen n \<le> 103" by (rule bitlen_le)
  then have s: "?s \<le> 50" by simp
  have P: "(2::nat) ^ ?s \<le> 2 ^ 50" using s by (intro power_increasing) auto
  have eq: "ftrunc (f64 (fmul (fof d) f_0_6)) = int (?q * 2 ^ ?s div 9007199254740992)"
  proof -
    have "fof d = Flt d 0" using assms by (intro fof_exact) auto
    then have "fmul (fof d) f_0_6 = Flt (int n) 53" by (simp add: fmul_def f_0_6_def d n_def)
    moreover have "?s \<le> 53" using s by simp
    ultimately show ?thesis using ftrunc_f64 [of n 53] by simp
  qed
  have "?q * 2 ^ ?s div 9007199254740992 = 3 * c div 5"
  proof (cases "c mod 5 = 0")
    case True
    then obtain k where k: "c = 5 * k" by auto
    have nk: "n + k = 3 * k * 9007199254740992" using n5 k by simp
    have up: "?q * 2 ^ ?s = 3 * k * 9007199254740992"
    proof (cases "k = 0")
      case True
      then show ?thesis using k by (simp add: n_def)
    next
      case False
      have big: "2 ^ 53 \<le> n" using False k by (simp add: n_def)
      have "n < 2 ^ bitlen n" using bitlen_bounds [of n] big by simp
      moreover have "53 \<le> bitlen n"
      proof (rule ccontr)
        assume "\<not> 53 \<le> bitlen n"
        then have "(2::nat) ^ bitlen n \<le> 2 ^ 53" by (intro power_increasing) auto
        moreover have "0 < n" using big by (cases n) auto
        ultimately show False using bitlen_bounds [of n] big by linarith
      qed
      then have "(2::nat) ^ bitlen n = 2 ^ (53 + ?s)" by simp
      then have be: "(2::nat) ^ bitlen n = 9007199254740992 * 2 ^ ?s"
        by (simp add: power_add)
      ultimately have "n < 9007199254740992 * 2 ^ ?s" by simp
      moreover have "k * 2 * 9007199254740992 \<le> n" using nk by linarith
      ultimately have "2 * k * 9007199254740992 < 2 ^ ?s * 9007199254740992" by linarith
      then have lt: "2 * k < 2 ^ ?s" by simp
      have pw: "(9007199254740992::nat) = 2 ^ (53 - ?s) * 2 ^ ?s"
        using s by (simp flip: power_add)
      have "n + k = (3 * k * 2 ^ (53 - ?s)) * 2 ^ ?s" unfolding nk by (subst pw) simp
      from round_shift_up [OF this lt] show ?thesis by (subst pw) simp
    qed
    show ?thesis unfolding up by (simp add: k)
  next
    case False
    let ?y = "3 * c div 5" and ?f = "3 * c mod 5"
    have f: "1 \<le> ?f" "?f \<le> 4" "3 * c = 5 * ?y + ?f" using False by presburger+
    have rb: "2 * n \<le> 2 * (?q * 2 ^ ?s) + 2 ^ 50" "2 * (?q * 2 ^ ?s) \<le> 2 * n + 2 ^ 50"
      using round_shift_bounds [of n ?s] P by linarith+
    have e: "5 * n + c = 5 * (?y * 9007199254740992) + ?f * 9007199254740992"
      using n5 f(3) by (metis add_mult_distrib mult.assoc)
    have lo: "?y * 9007199254740992 \<le> ?q * 2 ^ ?s"
      using rb(1) e f(1) c by simp
    have hi: "?q * 2 ^ ?s < (?y + 1) * 9007199254740992"
      using rb(2) e f(2) by simp
    show ?thesis using lo hi by (intro div_nat_eqI) (simp_all add: mult.commute)
  qed
  then have "ftrunc (f64 (fmul (fof d) f_0_6)) = int (3 * c div 5)" unfolding eq by (rule arg_cong)
  then show ?thesis by (simp add: d zdiv_int)
qed


section \<open>Rounding against integers\<close>

lemma round_shift_le: "n \<le> t * 2 ^ s \<Longrightarrow> round_shift n s \<le> t"
proof -
  assume a: "n \<le> t * 2 ^ s"
  show ?thesis
  proof (cases "n div 2 ^ s < t")
    case False
    moreover have "n div 2 ^ s \<le> t" using a by (metis div_le_mono div_mult_self_is_m zero_less_numeral zero_less_power)
    ultimately have q: "n div 2 ^ s = t" by simp
    then have "n mod 2 ^ s = 0" using a
      by (metis add_cancel_left_right div_mult_mod_eq le_add1 le_antisym)
    then show ?thesis using q by (auto simp: round_shift_def Let_def)
  qed (auto simp: round_shift_def Let_def)
qed

text \<open>Rounding keeps a non-negative number non-negative, and below any integer bound of the format.\<close>

lemma fround_bounds:
  assumes "0 \<le> fmant x" "fmant x \<le> int n * 2 ^ fexp x" "n < 2 ^ p" "0 < p"
  shows "0 \<le> fmant (fround p x) \<and> fmant (fround p x) \<le> int n * 2 ^ fexp (fround p x)"
proof -
  obtain m e where x: "x = Flt m e" by (cases x)
  define N where "N = nat m"
  have m: "m = int N" using assms(1) by (simp add: x N_def)
  have N: "N \<le> n * 2 ^ e" using assms(2) by (simp add: x m flip: of_nat_le_iff [where 'a = int])
  let ?s = "bitlen N - p" and ?q = "round_shift N (bitlen N - p)"
  show ?thesis
  proof (cases "N = 0")
    case True
    then show ?thesis by (simp add: x m fround_def Let_def)
  next
    case False
    have se: "?s \<le> e"
    proof (rule ccontr)
      assume a: "\<not> ?s \<le> e"
      then have "p + e \<le> bitlen N - 1" by simp
      then have "(2::nat) ^ (p + e) \<le> 2 ^ (bitlen N - 1)" by (intro power_increasing) auto
      also have "\<dots> \<le> N" using bitlen_bounds [of N] False by simp
      also have "\<dots> \<le> n * 2 ^ e" by (rule N)
      also have "\<dots> < 2 ^ p * 2 ^ e" using assms(3) by simp
      finally show False by (simp add: power_add)
    qed
    then have "n * 2 ^ e = n * 2 ^ (e - ?s) * 2 ^ ?s" by (simp flip: power_add)
    with N have "?q \<le> n * 2 ^ (e - ?s)" by (intro round_shift_le) simp
    then have "int ?q \<le> int (n * 2 ^ (e - ?s))" by (simp only: of_nat_le_iff)
    with se False show ?thesis by (simp add: x m fround_def Let_def)
  qed
qed

end
