(* ===== verification/Currency.thy ===== *)
theory Currency
  imports GoPrelude
begin

text \<open>
  The wealth arithmetic of \<open>internal/currency/currency.go\<close>: the coins, the guarded \<open>int64\<close>
  operations, \<open>New\<close>, \<open>Add\<close>, \<open>Sub\<close>, \<open>In\<close>, \<open>Split\<close>, and the text form (\<open>Format\<close>, \<open>Short\<close>,
  \<open>Parse\<close>). The properties: the guarded operations are exact or report overflow, \<open>Split\<close>
  conserves the amount, and \<open>Parse\<close> reads back what \<open>Format\<close> writes.
\<close>

section \<open>Coins and amounts\<close>

type_synonym Coin = int
type_synonym Amount = int

abbreviation (input) CP :: Coin where "CP \<equiv> 0"
abbreviation (input) SP :: Coin where "SP \<equiv> 1"
abbreviation (input) MK :: Coin where "MK \<equiv> 2"
abbreviation (input) GC :: Coin where "GC \<equiv> 3"

definition coinOrder :: "Coin list" where
  "coinOrder = [GC, MK, SP, CP]"

definition ratio :: "int list" where
  "ratio = [1, 10, 100, 1000]"

definition suffix_codes :: "string list" where
  "suffix_codes = [''cp'', ''sp'', ''mk'', ''gc'']"

definition coin_Code :: "Coin \<Rightarrow> string" where
  "coin_Code c = (if c < 0 \<or> c \<ge> int (length suffix_codes) then '''' else suffix_codes ! nat c)"

definition coin_Value :: "Coin \<Rightarrow> int" where
  "coin_Value c = (if c < 0 \<or> c \<ge> int (length ratio) then 0 else ratio ! nat c)"

datatype cur_error = ErrInvalidFormat | ErrEmpty | ErrOverflow | ErrInsufficientFunds

section \<open>Guarded int64 arithmetic\<close>

definition safeAdd :: "int \<Rightarrow> int \<Rightarrow> cur_error + int" where
  "safeAdd a b =
     (if (b > 0 \<and> a > i64 (MaxInt64 - b)) \<or> (b < 0 \<and> a < i64 (MinInt64 - b))
      then Inl ErrOverflow else Inr (i64 (a + b)))"

definition safeSub :: "int \<Rightarrow> int \<Rightarrow> cur_error + int" where
  "safeSub a b =
     (if (b < 0 \<and> a > i64 (MaxInt64 + b)) \<or> (b > 0 \<and> a < i64 (MinInt64 + b))
      then Inl ErrOverflow else Inr (i64 (a - b)))"

definition safeMul :: "int \<Rightarrow> int \<Rightarrow> cur_error + int" where
  "safeMul a b =
     (if a = 0 \<or> b = 0 then Inr 0
      else if (a = MinInt64 \<and> b = -1) \<or> (b = MinInt64 \<and> a = -1) then Inl ErrOverflow
      else let c = i64 (a * b)
           in if i64 (c sdiv b) \<noteq> a then Inl ErrOverflow else Inr c)"

definition amount_Add :: "Amount \<Rightarrow> Amount \<Rightarrow> cur_error + Amount" where
  "amount_Add a b = safeAdd a b"

definition amount_Sub :: "Amount \<Rightarrow> Amount \<Rightarrow> cur_error + Amount" where
  "amount_Sub a b = (if b \<ge> 0 \<and> b > a then Inl ErrInsufficientFunds else safeSub a b)"

fun new_loop :: "int \<Rightarrow> (int \<times> int) list \<Rightarrow> cur_error + int" where
  "new_loop tot [] = Inr tot"
| "new_loop tot ((cnt, mul) # ps) =
     (case safeMul cnt mul of Inl e \<Rightarrow> Inl e
      | Inr v \<Rightarrow> (case safeAdd tot v of Inl e \<Rightarrow> Inl e | Inr next \<Rightarrow> new_loop next ps))"

definition amount_New :: "int \<Rightarrow> int \<Rightarrow> int \<Rightarrow> int \<Rightarrow> cur_error + Amount" where
  "amount_New gc mk sp cp =
     new_loop 0 [(gc, ratio ! nat GC), (mk, ratio ! nat MK), (sp, ratio ! nat SP), (cp, ratio ! nat CP)]"

section \<open>Denominations\<close>

definition amount_In :: "Amount \<Rightarrow> Coin \<Rightarrow> int" where
  "amount_In a c = (let v = coin_Value c in if v = 0 then 0 else i64 (a sdiv v))"

type_synonym Part = "Coin \<times> int"

fun split_loop :: "int \<Rightarrow> Coin list \<Rightarrow> Part list" where
  "split_loop rem [] = []"
| "split_loop rem (c # cs) =
     (let v = ratio ! nat c in (c, rem sdiv v) # split_loop (rem smod v) cs)"

definition amount_Split :: "Amount \<Rightarrow> Part list" where
  "amount_Split a = split_loop (if a < 0 then i64 (- a) else a) coinOrder"

fun format_loop :: "bool \<Rightarrow> Part list \<Rightarrow> string" where
  "format_loop first [] = ''''"
| "format_loop first ((c, n) # ps) =
     (if n = 0 then format_loop first ps
      else (if first then '''' else '' '') @ show_int n @ coin_Code c @ format_loop False ps)"

definition amount_Format :: "Amount \<Rightarrow> string" where
  "amount_Format a =
     (if a = 0 then ''0cp''
      else (if a < 0 then ''-'' else '''') @ format_loop True (amount_Split a))"

fun short_loop :: "bool \<Rightarrow> int \<Rightarrow> Coin list \<Rightarrow> string" where
  "short_loop neg mag [] = ''0cp''"
| "short_loop neg mag (c # cs) =
     (let v = ratio ! nat c
      in if mag \<ge> v then (if neg then ''-'' else '''') @ show_int (mag sdiv v) @ coin_Code c
         else short_loop neg mag cs)"

definition amount_Short :: "Amount \<Rightarrow> string" where
  "amount_Short a =
     (if a = 0 then ''0cp'' else short_loop (a < 0) (if a < 0 then i64 (- a) else a) coinOrder)"

section \<open>Parsing\<close>

definition splitNumberSuffix :: "string \<Rightarrow> cur_error + (int \<times> string)" where
  "splitNumberSuffix tok =
     (let num = takeWhile (\<lambda>c. \<not> is_letter c) tok; rest = dropWhile (\<lambda>c. \<not> is_letter c) tok
      in if num = [] \<or> rest = [] then Inl ErrInvalidFormat
         else case parse_int64 num of None \<Rightarrow> Inl ErrInvalidFormat
              | Some n \<Rightarrow> Inr (n, to_lower rest))"

fun coinByCode_loop :: "Coin \<Rightarrow> string list \<Rightarrow> string \<Rightarrow> Coin option" where
  "coinByCode_loop c [] code = None"
| "coinByCode_loop c (s # ss) code = (if s = code then Some c else coinByCode_loop (c + 1) ss code)"

definition coinByCode :: "string \<Rightarrow> Coin option" where
  "coinByCode code = coinByCode_loop 0 suffix_codes code"

definition isAllDigitsOrSign :: "string \<Rightarrow> bool" where
  "isAllDigitsOrSign s \<longleftrightarrow>
     s \<noteq> [] \<and> (hd s = CHR ''-'' \<or> hd s = CHR ''+'' \<or> is_digit (hd s)) \<and> list_all is_digit (tl s)"

fun parse_loop :: "Coin list \<Rightarrow> int \<Rightarrow> string list \<Rightarrow> cur_error + Amount" where
  "parse_loop seen tot [] = Inr tot"
| "parse_loop seen tot (tok # toks) =
     (case splitNumberSuffix tok of Inl e \<Rightarrow> Inl e
      | Inr (cnt, code) \<Rightarrow>
          (case coinByCode code of None \<Rightarrow> Inl ErrInvalidFormat
           | Some coin \<Rightarrow>
               if coin \<in> set seen then Inl ErrInvalidFormat
               else case safeMul cnt (ratio ! nat coin) of Inl e \<Rightarrow> Inl e
                    | Inr v \<Rightarrow> (case safeAdd tot v of Inl e \<Rightarrow> Inl e
                               | Inr next \<Rightarrow> parse_loop (coin # seen) next toks)))"

definition amount_Parse :: "string \<Rightarrow> cur_error + Amount" where
  "amount_Parse s0 =
     (let s = trim_space s0
      in if s = [] then Inl ErrEmpty
         else if isAllDigitsOrSign s then
           (case parse_int64 s of None \<Rightarrow> Inl ErrInvalidFormat | Some n \<Rightarrow> Inr n)
         else let tokens = fields s
              in if tokens = [] then Inl ErrEmpty else parse_loop [] 0 tokens)"

section \<open>The guarded operations are exact\<close>

lemma safeAdd_exact:
  "in_range 64 a \<Longrightarrow> in_range 64 b \<Longrightarrow>
     safeAdd a b = (if in_range 64 (a + b) then Inr (a + b) else Inl ErrOverflow)"
  unfolding safeAdd_def
  by (auto simp: in_range_64 i64_id)

lemma safeSub_exact:
  "in_range 64 a \<Longrightarrow> in_range 64 b \<Longrightarrow>
     safeSub a b = (if in_range 64 (a - b) then Inr (a - b) else Inl ErrOverflow)"
  unfolding safeSub_def
  by (auto simp: in_range_64 i64_id)

lemma sdiv_remainder: "b \<noteq> 0 \<Longrightarrow> \<bar>c - (c sdiv b) * b\<bar> < \<bar>b :: int\<bar>"
  using minus_sdiv_mult_eq_smod [of c b]
  by (auto simp: signed_modulo_int_def abs_mult sgn_if)

text \<open>The check \<open>c/b != a\<close> catches every wrap: a wrapped product differs from the true one by a
  multiple of \<open>2^64\<close>, and the division's remainder is smaller than that.\<close>

lemma safeMul_check:
  assumes a: "in_range 64 a" and b: "in_range 64 b" and nz: "b \<noteq> 0" and q: "i64 (a * b) sdiv b = a"
  shows "i64 (a * b) = a * b"
proof -
  let ?c = "i64 (a * b)"
  have "2 ^ 64 dvd (?c - a * b)" by (rule wrap_cong_mod) simp
  moreover have "\<bar>?c - a * b\<bar> < \<bar>b\<bar>"
    using sdiv_remainder [OF nz, of ?c] unfolding q by simp
  moreover have "\<bar>b\<bar> < 2 ^ 64" using b by (auto simp: in_range_64)
  ultimately have "?c - a * b = 0"
    using dvd_imp_le_int [of "?c - a * b" "2 ^ 64"] by fastforce
  then show ?thesis by simp
qed


lemma sdiv_mult_cancel: "b \<noteq> 0 \<Longrightarrow> (a * b) sdiv b = (a::int)"
proof -
  assume b: "b \<noteq> 0"
  then have "sgn b * sgn b = 1" by (simp add: sgn_if)
  then have "sgn (a * b) * sgn b = sgn a" by (simp add: sgn_mult mult.assoc)
  moreover have "\<bar>a * b\<bar> div \<bar>b\<bar> = \<bar>a\<bar>" using b by (simp add: abs_mult)
  ultimately show ?thesis by (simp add: signed_divide_int_def sgn_mult_abs)
qed

lemma i64_sdiv: "b \<noteq> 0 \<Longrightarrow> b \<noteq> -1 \<Longrightarrow> in_range 64 c \<Longrightarrow> i64 (c sdiv b) = c sdiv b"
proof (cases "b = 1")
  case True
  then show "in_range 64 c \<Longrightarrow> ?thesis" by (simp add: wrap_id)
next
  case False
  assume b: "b \<noteq> 0" "b \<noteq> -1" and c: "in_range 64 c"
  with False have "2 \<le> \<bar>b\<bar>" by linarith
  then have "\<bar>c\<bar> div \<bar>b\<bar> \<le> \<bar>c\<bar> div 2" by (intro zdiv_mono2) auto
  also have "\<bar>c\<bar> div 2 < 9223372036854775808" using c by (auto simp: in_range_64)
  finally have "\<bar>c sdiv b\<bar> < 9223372036854775808"
    by (auto simp: signed_divide_int_def abs_mult sgn_if pos_imp_zdiv_nonneg_iff)
  then show ?thesis by (intro i64_id) linarith+
qed

lemma safeMul_exact:
  assumes a: "in_range 64 a" and b: "in_range 64 b"
  shows "safeMul a b = (if in_range 64 (a * b) then Inr (a * b) else Inl ErrOverflow)"
proof (cases "a = 0 \<or> b = 0")
  case True
  then show ?thesis by (auto simp: safeMul_def in_range_64)
next
  case nz: False
  show ?thesis
  proof (cases "b = -1")
    case True
    with a show ?thesis by (auto simp: safeMul_def in_range_64 i64_id)
  next
    case False
    with nz have d: "i64 (i64 (a * b) sdiv b) = i64 (a * b) sdiv b"
      by (intro i64_sdiv) auto
    show ?thesis
    proof (cases "in_range 64 (a * b)")
      case True
      have "\<not> (b = MinInt64 \<and> a = -1)" using True by (auto simp: in_range_64)
      with True nz False show ?thesis
        unfolding safeMul_def Let_def d by (simp add: wrap_id sdiv_mult_cancel)
    next
      case out: False
      then have "i64 (a * b) \<noteq> a * b" using wrap_in_range [of 64 "a * b"] by fastforce
      with safeMul_check [OF a b] nz have "i64 (a * b) sdiv b \<noteq> a" by blast
      with out nz show ?thesis unfolding safeMul_def Let_def d by simp
    qed
  qed
qed

lemmas safe_exact = safeAdd_exact safeSub_exact safeMul_exact

section \<open>Split\<close>

definition parts_value :: "Part list \<Rightarrow> int" where
  "parts_value ps = (\<Sum>(c, n) \<leftarrow> ps. n * coin_Value c)"

lemma amount_Split_parts:
  assumes "0 \<le> a"
  shows "amount_Split a =
    [(GC, a div 1000), (MK, a mod 1000 div 100), (SP, a mod 100 div 10), (CP, a mod 10)]"
proof -
  have m: "a mod 1000 mod 100 = a mod 100" "a mod 100 mod 10 = a mod 10"
    by (simp_all add: mod_mod_cancel)
  show ?thesis
    using assms
    by (simp add: amount_Split_def coinOrder_def ratio_def sdiv_nonneg smod_nonneg m Let_def)
qed

lemma parts_value_Split: "0 \<le> a \<Longrightarrow> parts_value (amount_Split a) = a"
proof -
  assume a: "0 \<le> a"
  have m: "a mod 1000 mod 100 = a mod 100" "a mod 100 mod 10 = a mod 10"
    by (simp_all add: mod_mod_cancel)
  have "a = 1000 * (a div 1000) + a mod 1000" "a mod 1000 = 100 * (a mod 1000 div 100) + a mod 100"
    "a mod 100 = 10 * (a mod 100 div 10) + a mod 10"
    using m mult_div_mod_eq [of 100 "a mod 1000"] mult_div_mod_eq [of 10 "a mod 100"] by simp_all
  moreover have "parts_value (amount_Split a) =
      a div 1000 * 1000 + (a mod 1000 div 100 * 100 + (a mod 100 div 10 * 10 + a mod 10))"
    using a by (simp add: amount_Split_parts parts_value_def coin_Value_def ratio_def)
  ultimately show ?thesis by linarith
qed

lemma amount_Split_neg: "MinInt64 < a \<Longrightarrow> a < 0 \<Longrightarrow> amount_Split a = amount_Split (- a)"
  by (simp add: amount_Split_def i64_id)

section \<open>Reading back what Format writes\<close>

definition part_word :: "Part \<Rightarrow> string" where
  "part_word p = show_int (snd p) @ coin_Code (fst p)"

definition part_words :: "Part list \<Rightarrow> string list" where
  "part_words ps = map part_word (filter (\<lambda>p. snd p \<noteq> 0) ps)"

definition good_parts :: "Part list \<Rightarrow> bool" where
  "good_parts ps \<longleftrightarrow>
     (\<forall>(c, n) \<in> set ps. c \<in> {0, 1, 2, 3} \<and> 0 \<le> n \<and> n * coin_Value c < 9223372036854775808)"

lemma good_parts_simps [simp]:
  "good_parts []"
  "good_parts ((c, n) # ps) \<longleftrightarrow>
     c \<in> {0, 1, 2, 3} \<and> 0 \<le> n \<and> n * coin_Value c < 9223372036854775808 \<and> good_parts ps"
  by (auto simp: good_parts_def)

lemma coin_codes:
  assumes "c \<in> {0, 1, 2, 3}"
  shows "coinByCode (coin_Code c) = Some c" "to_lower (coin_Code c) = coin_Code c"
    "list_all is_letter (coin_Code c)" "coin_Code c \<noteq> []" "ratio ! nat c = coin_Value c" "1 \<le> coin_Value c"
  using assms
  by (auto simp: coinByCode_def coin_Code_def suffix_codes_def to_lower_def lower_char_def is_upper_def
      is_letter_def coin_Value_def ratio_def)

lemma letter_not_space: "is_letter c \<Longrightarrow> \<not> is_space c"
  by (auto simp: is_letter_def is_upper_def is_space_def)

lemma part_word_chars:
  assumes "c \<in> {0, 1, 2, 3}" "0 \<le> n"
  shows "\<forall>x \<in> set (part_word (c, n)). \<not> is_space x" "part_word (c, n) \<noteq> []"
    "is_digit (hd (part_word (c, n)))" "is_letter (last (part_word (c, n)))"
  using coin_codes [OF assms(1)] assms(2) show_nat_digits [of "nat n"] hd_show_nat [of "nat n"]
  by (auto simp: part_word_def show_int_def list_all_iff dest: is_digit_not_space letter_not_space)

lemma splitNumberSuffix_part_word:
  assumes "c \<in> {0, 1, 2, 3}" "0 \<le> n" "n < 9223372036854775808"
  shows "splitNumberSuffix (part_word (c, n)) = Inr (n, coin_Code c)"
proof -
  have d: "\<forall>x \<in> set (show_nat (nat n)). \<not> is_letter x"
    using show_nat_digits [of "nat n"] by (auto simp: list_all_iff dest: is_digit_not_letter)
  obtain x xs where c: "coin_Code c = x # xs" "is_letter x"
    using coin_codes [OF assms(1)] by (cases "coin_Code c") auto
  show ?thesis
    using d c coin_codes [OF assms(1)] parse_int64_show_nat [of "nat n"] assms(2,3)
    by (simp add: splitNumberSuffix_def part_word_def show_int_def takeWhile_append dropWhile_append)
qed

lemma format_loop_False:
  "format_loop False ps = (if part_words ps = [] then '''' else CHR '' '' # format_loop True ps)"
  by (induction ps) (auto simp: part_words_def)

lemma format_loop_True_Cons:
  "n \<noteq> 0 \<Longrightarrow> format_loop True ((c, n) # ps) =
     part_word (c, n) @ (if part_words ps = [] then '''' else CHR '' '' # format_loop True ps)"
  by (simp add: part_word_def format_loop_False)

declare format_loop.simps [simp del]

lemma format_loop_Nil [simp]: "format_loop b [] = ''''"
  by (simp add: format_loop.simps)

lemma format_loop_zero [simp]: "format_loop b ((c, 0) # ps) = format_loop b ps"
  by (simp add: format_loop.simps)

lemma part_words_Cons:
  "part_words ((c, n) # ps) = (if n = 0 then part_words ps else part_word (c, n) # part_words ps)"
  by (simp add: part_words_def)

lemma fields_format: "good_parts ps \<Longrightarrow> fields (format_loop True ps) = part_words ps"
proof (induction ps)
  case Nil
  then show ?case by (simp add: fields_def part_words_def)
next
  case (Cons p ps)
  obtain c n where p: "p = (c, n)" by fastforce
  show ?case
  proof (cases "n = 0")
    case True
    with Cons p show ?thesis by (simp add: part_words_Cons)
  next
    case False
    have w: "\<forall>x \<in> set (part_word (c, n)). \<not> is_space x" "part_word (c, n) \<noteq> []"
      using Cons.prems p part_word_chars [of c n] by simp_all
    have s: "format_loop True (p # ps) =
        part_word (c, n) @ (if part_words ps = [] then '''' else CHR '' '' # format_loop True ps)"
      unfolding p using False by (rule format_loop_True_Cons)
    show ?thesis
      unfolding s using w Cons p False by (simp add: fields_word fields_word_space part_words_Cons)
  qed
qed

lemma format_ends:
  "good_parts ps \<Longrightarrow> part_words ps \<noteq> [] \<Longrightarrow>
     format_loop True ps \<noteq> [] \<and> is_digit (hd (format_loop True ps)) \<and> is_letter (last (format_loop True ps))"
proof (induction ps)
  case Nil
  then show ?case by (simp add: part_words_def)
next
  case (Cons p ps)
  obtain c n where p: "p = (c, n)" by fastforce
  show ?case
  proof (cases "n = 0")
    case True
    with Cons p show ?thesis by (simp add: part_words_Cons)
  next
    case False
    have s: "format_loop True (p # ps) =
        part_word (c, n) @ (if part_words ps = [] then '''' else CHR '' '' # format_loop True ps)"
      unfolding p using False by (rule format_loop_True_Cons)
    show ?thesis
      unfolding s using Cons p part_word_chars [of c n] by simp
  qed
qed

text \<open>The loop of \<open>Parse\<close> sums the parts it is given, as long as no coin repeats and no partial sum
  overflows.\<close>

lemma parse_loop_words:
  "good_parts ps \<Longrightarrow> distinct (map fst ps) \<Longrightarrow> set seen \<inter> fst ` set ps = {} \<Longrightarrow> 0 \<le> tot \<Longrightarrow>
     tot + parts_value ps < 9223372036854775808 \<Longrightarrow>
     parse_loop seen tot (part_words ps) = Inr (tot + parts_value ps)"
proof (induction ps arbitrary: seen tot)
  case Nil
  then show ?case by (simp add: part_words_def parts_value_def)
next
  case (Cons p ps)
  obtain c n where p: "p = (c, n)" by fastforce
  have c: "c \<in> {0, 1, 2, 3}" and n: "0 \<le> n" and nv: "n * coin_Value c < 9223372036854775808"
    and g: "good_parts ps"
    using Cons.prems(1) p by simp_all
  have "0 \<le> n' * coin_Value c'" if "(c', n') \<in> set ps" for c' n'
    using g that coin_codes(6) [of c'] by (auto simp: good_parts_def)
  then have pv: "0 \<le> parts_value ps" unfolding parts_value_def by (intro sum_list_nonneg) auto
  have pc: "parts_value (p # ps) = n * coin_Value c + parts_value ps"
    by (simp add: p parts_value_def)
  have v: "1 \<le> coin_Value c" "coin_Value c \<le> 1000"
    using c by (auto simp: coin_Value_def ratio_def)
  have nb: "n < 9223372036854775808" "0 \<le> n * coin_Value c"
    using nv n v mult_left_mono [of 1 "coin_Value c" n] by auto
  show ?case
  proof (cases "n = 0")
    case True
    with Cons p pc g show ?thesis by (simp add: part_words_Cons)
  next
    case False
    have "safeMul n (coin_Value c) = Inr (n * coin_Value c)"
      using n nv nb v order.trans [OF _ nb(2), of MinInt64]
      by (subst safeMul_exact) (simp_all add: in_range_64)
    moreover have "safeAdd tot (n * coin_Value c) = Inr (tot + n * coin_Value c)"
      using nb nv pv Cons.prems(4,5) pc by (subst safeAdd_exact) (auto simp: in_range_64)
    ultimately have "parse_loop seen tot (part_words (p # ps)) =
        parse_loop (c # seen) (tot + n * coin_Value c) (part_words ps)"
      using Cons.prems(3) False p coin_codes [OF c] splitNumberSuffix_part_word [OF c n nb(1)]
      by (simp add: part_words_Cons)
    also have "\<dots> = Inr (tot + n * coin_Value c + parts_value ps)"
      using Cons.prems p pc nb(2) by (intro Cons.IH) auto
    finally show ?thesis by (simp add: pc)
  qed
qed

lemma Parse_words:
  assumes "good_parts ps" "part_words ps \<noteq> []"
  shows "amount_Parse (format_loop True ps) = parse_loop [] 0 (part_words ps)"
proof -
  let ?s = "format_loop True ps"
  have e: "?s \<noteq> []" "is_digit (hd ?s)" "is_letter (last ?s)"
    using format_ends [OF assms] by simp_all
  have t: "trim_space ?s = ?s"
    using e by (intro trim_space_id) (auto dest: is_digit_not_space letter_not_space)
  have "\<not> isAllDigitsOrSign ?s"
  proof
    assume a: "isAllDigitsOrSign ?s"
    show False
    proof (cases "tl ?s = []")
      case True
      with e have "last ?s = hd ?s" by (metis last_ConsL list.collapse)
      with e show False using is_digit_not_letter by metis
    next
      case False
      with a e have "is_digit (last ?s)"
        by (metis isAllDigitsOrSign_def last_in_set last_tl list_all_iff)
      with e show False using is_digit_not_letter by metis
    qed
  qed
  then show ?thesis
    unfolding amount_Parse_def t Let_def fields_format [OF assms(1)] using e(1) assms(2) by simp
qed

text \<open>C3: \<open>Parse\<close> reads back every amount that is not negative from what \<open>Format\<close> writes
  (\<open>Format\<close> then \<open>Parse\<close> is the identity on purses), for the whole \<open>int64\<close> range.\<close>

theorem parse_format_roundtrip:
  assumes "0 \<le> a" "in_range 64 a"
  shows "amount_Parse (amount_Format a) = Inr a"
proof (cases "a = 0")
  case True
  show ?thesis unfolding True by code_simp
next
  case False
  let ?ps = "amount_Split a"
  have le: "a div 1000 * 1000 \<le> a" using mult_div_mod_eq [of 1000 a] assms by linarith
  have g: "good_parts ?ps" "distinct (map fst ?ps)"
    using assms le pos_mod_bound [of 1000 a] pos_mod_bound [of 100 a] pos_mod_bound [of 10 a]
    by (auto simp: amount_Split_parts coin_Value_def ratio_def in_range_64)
  have v: "parts_value ?ps = a" using assms(1) by (rule parts_value_Split)
  have w: "part_words ?ps \<noteq> []"
  proof
    assume "part_words ?ps = []"
    then have "\<forall>p \<in> set ?ps. snd p = 0" by (auto simp: part_words_def filter_empty_conv)
    then have "map (\<lambda>(c, n). n * coin_Value c) ?ps = map (\<lambda>_. 0) ?ps"
      by (intro map_cong) auto
    then have "parts_value ?ps = sum_list (map (\<lambda>_. 0) ?ps)"
      unfolding parts_value_def by (rule arg_cong)
    then have "parts_value ?ps = 0" by (simp only: sum_list_0)
    with v False show False by simp
  qed
  have "amount_Format a = format_loop True ?ps"
    using False assms(1) by (simp add: amount_Format_def)
  then have "amount_Parse (amount_Format a) = parse_loop [] 0 (part_words ?ps)"
    using Parse_words [OF g(1) w] by simp
  also have "\<dots> = Inr a"
    using parse_loop_words [of ?ps "[]" 0] g v assms by (simp add: in_range_64)
  finally show ?thesis .
qed


theorem parse_format_roundtrip_witness: "amount_Parse (amount_Format 1234) = Inr 1234"
  by (rule parse_format_roundtrip) (simp_all add: in_range_64)

section \<open>Building, splitting and spending\<close>

lemma new_loop_exact:
  "\<forall>(c, m) \<in> set ps. 0 \<le> c \<and> in_range 64 c \<and> 0 \<le> m \<and> in_range 64 m \<Longrightarrow> 0 \<le> tot \<Longrightarrow> in_range 64 tot \<Longrightarrow>
     new_loop tot ps =
       (if in_range 64 (tot + (\<Sum>(c, m)\<leftarrow>ps. c * m)) then Inr (tot + (\<Sum>(c, m)\<leftarrow>ps. c * m))
        else Inl ErrOverflow)"
proof (induction ps arbitrary: tot)
  case Nil
  then show ?case by simp
next
  case (Cons p ps)
  obtain c m where p: "p = (c, m)" by fastforce
  let ?S = "\<Sum>(c, m)\<leftarrow>ps. c * m"
  have cm: "0 \<le> c" "in_range 64 c" "0 \<le> m" "in_range 64 m" using Cons.prems p by auto
  have "0 \<le> x" if "x \<in> set (map (\<lambda>(c, m). c * m) ps)" for x using Cons.prems(1) that by auto
  then have S: "0 \<le> ?S" by (intro sum_list_nonneg) auto
  have nn: "0 \<le> c * m" using cm by simp
  show ?case
  proof (cases "in_range 64 (c * m) \<and> in_range 64 (tot + c * m)")
    case True
    then have "new_loop tot (p # ps) = new_loop (tot + c * m) ps"
      using p cm Cons.prems by (simp add: safeMul_exact safeAdd_exact)
    also have "\<dots> = (if in_range 64 (tot + c * m + ?S) then Inr (tot + c * m + ?S) else Inl ErrOverflow)"
      using Cons.prems True nn by (intro Cons.IH) auto
    finally show ?thesis using p by (simp add: add.assoc)
  next
    case False
    then have "\<not> in_range 64 (tot + c * m + ?S)"
      using S nn Cons.prems(2) by (auto simp: in_range_64)
    moreover have "new_loop tot (p # ps) = Inl ErrOverflow"
      using False p cm Cons.prems by (auto simp: safeMul_exact safeAdd_exact)
    ultimately show ?thesis using p by (simp add: add.assoc)
  qed
qed

text \<open>\<open>New\<close> on counts that are not negative is exact: it returns the worth of the coins when that
  worth fits an \<open>int64\<close>, and \<open>ErrOverflow\<close> when (and only when) it does not; no intermediate
  product or sum wraps around.\<close>

lemma New_exact:
  assumes "0 \<le> gc" "0 \<le> mk" "0 \<le> sp" "0 \<le> cp"
    and "in_range 64 gc" "in_range 64 mk" "in_range 64 sp" "in_range 64 cp"
  shows "amount_New gc mk sp cp =
    (let total = 1000 * gc + 100 * mk + 10 * sp + cp
     in if in_range 64 total then Inr total else Inl ErrOverflow)"
  unfolding amount_New_def using assms
  by (subst new_loop_exact) (auto simp: ratio_def Let_def in_range_64 algebra_simps)

text \<open>\<open>Split\<close> is the canonical denomination of every amount above the least \<open>int64\<close>: the four coins in
  the order gold, mark, silver, copper, every count at least zero and the last three below ten, and
  the parts are worth the magnitude of the amount.\<close>

lemma Split_canonical:
  assumes "in_range 64 a" "MinInt64 < a"
  shows "map fst (amount_Split a) = coinOrder
    \<and> list_all (\<lambda>(c, n). 0 \<le> n \<and> (c \<noteq> GC \<longrightarrow> n < 10)) (amount_Split a)
    \<and> parts_value (amount_Split a) = \<bar>a\<bar>"
proof -
  have nn: "map fst (amount_Split b) = coinOrder \<and>
      list_all (\<lambda>(c, n). 0 \<le> n \<and> (c \<noteq> GC \<longrightarrow> n < 10)) (amount_Split b) \<and>
      parts_value (amount_Split b) = b" if "0 \<le> b" for b
  proof -
    have "b mod 1000 div 100 < 10" "b mod 100 div 10 < 10"
      using pos_mod_bound [of 1000 b] pos_mod_bound [of 100 b] by linarith+
    then show ?thesis
      using that parts_value_Split [OF that]
      by (simp add: amount_Split_parts coinOrder_def pos_imp_zdiv_nonneg_iff)
  qed
  have "amount_Split a = amount_Split \<bar>a\<bar>" using assms(2) amount_Split_neg [of a] by (cases "a < 0") auto
  with nn [of "\<bar>a\<bar>"] show ?thesis by simp
qed

end
