(* ===== verification/StableSort.thy ===== *)
theory StableSort
  imports GoPrelude "HOL-Library.Multiset"
begin

text \<open>
  \<open>sort.SliceStable\<close> of the Go library, as insertion from the left behind the equal elements: for a strict weak
  order the result is the one stable sorted permutation.
\<close>

fun insert_stable :: "('a \<Rightarrow> 'a \<Rightarrow> bool) \<Rightarrow> 'a \<Rightarrow> 'a list \<Rightarrow> 'a list" where
  "insert_stable lt x [] = [x]"
| "insert_stable lt x (y # ys) = (if lt x y then x # y # ys else y # insert_stable lt x ys)"

definition SliceStable :: "('a \<Rightarrow> 'a \<Rightarrow> bool) \<Rightarrow> 'a list \<Rightarrow> 'a list" where
  "SliceStable lt xs = fold (insert_stable lt) xs []"

lemma mset_insert_stable [simp]: "mset (insert_stable lt x ys) = add_mset x (mset ys)"
  by (induction ys) auto

lemma set_insert_stable [simp]: "set (insert_stable lt x ys) = insert x (set ys)"
  by (induction ys) auto

lemma mset_fold_insert: "mset (fold (insert_stable lt) xs ys) = mset ys + mset xs"
  by (induction xs arbitrary: ys) auto

lemma mset_SliceStable [simp]: "mset (SliceStable lt xs) = mset xs"
  by (simp add: SliceStable_def mset_fold_insert)

lemma set_SliceStable [simp]: "set (SliceStable lt xs) = set xs"
  by (metis mset_SliceStable set_mset_mset)

lemma length_SliceStable [simp]: "length (SliceStable lt xs) = length xs"
  by (metis mset_SliceStable size_mset)

lemma distinct_SliceStable [simp]: "distinct (SliceStable lt xs) = distinct xs"
  by (rule mset_eq_imp_distinct_iff) simp

text \<open>The contract of the comparison function.\<close>

locale strict_weak_order =
  fixes lt :: "'a \<Rightarrow> 'a \<Rightarrow> bool"
  assumes irrefl: "\<not> lt x x"
    and trans: "lt x y \<Longrightarrow> lt y z \<Longrightarrow> lt x z"
    and neg_trans: "\<not> lt x y \<Longrightarrow> \<not> lt y z \<Longrightarrow> \<not> lt x z"
begin

lemma asym: "lt x y \<Longrightarrow> \<not> lt y x"
  using irrefl trans by blast

abbreviation ordered :: "'a list \<Rightarrow> bool" where
  "ordered \<equiv> sorted_wrt (\<lambda>x y. \<not> lt y x)"

lemma ordered_insert: "ordered ys \<Longrightarrow> ordered (insert_stable lt x ys)"
proof (induction ys)
  case (Cons y ys)
  show ?case
  proof (cases "lt x y")
    case True
    have "\<not> lt z x" if "z \<in> set (y # ys)" for z
    proof
      assume "lt z x"
      then have "lt z y" using True trans by blast
      with that Cons.prems irrefl show False by auto
    qed
    with True Cons.prems show ?thesis by simp
  next
    case False
    with Cons show ?thesis by auto
  qed
qed simp

lemma ordered_fold: "ordered ys \<Longrightarrow> ordered (fold (insert_stable lt) xs ys)"
  by (induction xs arbitrary: ys) (auto intro: ordered_insert)

lemma ordered_SliceStable: "ordered (SliceStable lt xs)"
  unfolding SliceStable_def by (rule ordered_fold) simp

lemma insert_last: "\<forall>y\<in>set ys. \<not> lt x y \<Longrightarrow> insert_stable lt x ys = ys @ [x]"
  by (induction ys) auto

text \<open>Sorting a sorted list changes nothing; in particular sorting is idempotent.\<close>

lemma fold_insert_ordered: "ordered (ys @ xs) \<Longrightarrow> fold (insert_stable lt) xs ys = ys @ xs"
proof (induction xs arbitrary: ys)
  case (Cons x xs)
  then have "\<forall>y\<in>set ys. \<not> lt x y" by (auto simp: sorted_wrt_append)
  then have "insert_stable lt x ys = ys @ [x]" by (rule insert_last)
  moreover have "ordered ((ys @ [x]) @ xs)" using Cons.prems by simp
  ultimately show ?case using Cons.IH [of "ys @ [x]"] by simp
qed simp

lemma SliceStable_id: "ordered xs \<Longrightarrow> SliceStable lt xs = xs"
  unfolding SliceStable_def using fold_insert_ordered [of "[]" xs] by simp

lemma SliceStable_snoc: "ordered xs \<Longrightarrow> SliceStable lt (xs @ [x]) = insert_stable lt x xs"
  using fold_insert_ordered [of "[]" xs] by (simp add: SliceStable_def)

text \<open>Stability: the elements equivalent to \<open>a\<close> keep their order.\<close>

definition equiv :: "'a \<Rightarrow> 'a \<Rightarrow> bool" where
  "equiv a x \<longleftrightarrow> \<not> lt a x \<and> \<not> lt x a"

lemma equiv_less: "equiv a x \<Longrightarrow> equiv a y \<Longrightarrow> \<not> lt x y"
  unfolding equiv_def using neg_trans by blast

lemma insert_equiv: "ordered ys \<Longrightarrow>
  filter (equiv a) (insert_stable lt x ys) = filter (equiv a) ys @ (if equiv a x then [x] else [])"
proof (induction ys)
  case (Cons y ys)
  show ?case
  proof (cases "lt x y")
    case True
    have "filter (equiv a) (y # ys) = []" if "equiv a x"
    proof -
      have "\<not> equiv a z" if z: "z \<in> set (y # ys)" for z
      proof
        assume "equiv a z"
        with \<open>equiv a x\<close> have "\<not> lt x z" by (rule equiv_less)
        moreover have "\<not> lt z y" using Cons.prems z irrefl by auto
        ultimately show False using True neg_trans by blast
      qed
      then show ?thesis by (simp only: filter_empty_conv) blast
    qed
    with True show ?thesis by auto
  qed (use Cons in auto)
qed simp

lemma fold_equiv: "ordered ys \<Longrightarrow>
  filter (equiv a) (fold (insert_stable lt) xs ys) = filter (equiv a) ys @ filter (equiv a) xs"
  by (induction xs arbitrary: ys) (auto simp: insert_equiv ordered_insert)

lemma stable: "filter (equiv a) (SliceStable lt xs) = filter (equiv a) xs"
  unfolding SliceStable_def by (simp add: fold_equiv)

end

text \<open>An order by a key of a linear order is one.\<close>

lemma strict_weak_order_key: "strict_weak_order (\<lambda>x y. key x < (key y :: 'b::linorder))"
  by unfold_locales auto

end
