(* ===== verification/ItemRepo.thy ===== *)
theory ItemRepo
  imports GoFloat Currency StableSort "HOL-Library.List_Lexorder" "HOL-Library.Char_ord"
begin

text \<open>
  World objects: the item row and stat blocks of \<open>internal/repo/item.go\<close> (with \<open>statsTypeMatches\<close> of
  \<open>item_stats.go\<close>) and the in-memory store \<open>item_memory.go\<close> with its guarded transfers. Capacities and weights
  are floats of \<open>GoFloat\<close>. The properties: at every moment an item is in at most one place, stat blocks
  match their type, ids and external ids are unique, and of two racing transfers from the same place exactly
  one succeeds.
\<close>

section \<open>Rows\<close>

text \<open>The string enums; \<open>ItemTypeOther\<close> and \<open>QualityOther\<close> are the strings that name no constant.\<close>

datatype ItemType = ItemTypeWeapon | ItemTypeArmor | ItemTypeShield | ItemTypeContainer | ItemTypeConsumable
  | ItemTypeLight | ItemTypeKey | ItemTypeTool | ItemTypeClothing | ItemTypeFood | ItemTypeTradeGood
  | ItemTypeTrash | ItemTypeOther string

fun itemtype_IsValid :: "ItemType \<Rightarrow> bool" where
  "itemtype_IsValid (ItemTypeOther _) = False"
| "itemtype_IsValid _ = True"

datatype ItemQuality = QualityNormal | QualityMasterwork | QualityMasterpiece | QualityPowerWrought
  | QualityOther string

fun quality_IsValid :: "ItemQuality \<Rightarrow> bool" where
  "quality_IsValid (QualityOther _) = False"
| "quality_IsValid _ = True"

record WeaponStats =
  ws_Proficiency :: string
  ws_Size :: string
  ws_Range :: string
  ws_Damage :: string
  ws_ThreatLow :: int
  ws_CritMult :: int
  ws_RangeIncFt :: int
  ws_DamageType :: "string list"
  ws_Special :: "string list"
  ws_Subdual :: bool

record ArmorStats =
  ar_WeightClass :: string
  ar_Bonus :: int
  ar_MaxDex :: int
  ar_CheckPenalty :: int
  ar_SpeedFt :: int

record ShieldStats =
  ss_Kind :: string
  ss_Bonus :: int
  ss_CheckPenalty :: int

record ContainerStats =
  ct_CapacityLbs :: flt
  ct_CapacityCuFt :: flt
  ct_LiquidPints :: flt
  ct_DepthCap :: int
  ct_WeightMult :: flt

record ConsumableStats =
  cs_Charges :: int
  cs_EffectID :: int

record LightStats =
  ls_RadiusFt :: int
  ls_FuelTicks :: int

record KeyStats =
  ks_KeyID :: string

record ToolStats =
  ts_SkillTag :: string
  ts_Charges :: int

text \<open>The interface value \<open>ItemStats\<close>; \<open>NilStats\<close> is the nil interface.\<close>

datatype ItemStats = NilStats | StWeapon WeaponStats | StArmor ArmorStats | StShield ShieldStats
  | StContainer ContainerStats | StConsumable ConsumableStats | StLight LightStats | StKey KeyStats
  | StTool ToolStats

fun statsTypeMatches :: "ItemType \<Rightarrow> ItemStats \<Rightarrow> bool" where
  "statsTypeMatches ItemTypeWeapon s = (case s of StWeapon _ \<Rightarrow> True | _ \<Rightarrow> False)"
| "statsTypeMatches ItemTypeArmor s = (case s of StArmor _ \<Rightarrow> True | _ \<Rightarrow> False)"
| "statsTypeMatches ItemTypeShield s = (case s of StShield _ \<Rightarrow> True | _ \<Rightarrow> False)"
| "statsTypeMatches ItemTypeContainer s = (case s of StContainer _ \<Rightarrow> True | _ \<Rightarrow> False)"
| "statsTypeMatches ItemTypeConsumable s = (case s of StConsumable _ \<Rightarrow> True | _ \<Rightarrow> False)"
| "statsTypeMatches ItemTypeLight s = (case s of StLight _ \<Rightarrow> True | _ \<Rightarrow> False)"
| "statsTypeMatches ItemTypeKey s = (case s of StKey _ \<Rightarrow> True | _ \<Rightarrow> False)"
| "statsTypeMatches ItemTypeTool s = (case s of StTool _ \<Rightarrow> True | _ \<Rightarrow> False)"
| "statsTypeMatches ItemTypeClothing s = (case s of NilStats \<Rightarrow> True | _ \<Rightarrow> False)"
| "statsTypeMatches ItemTypeFood s = (case s of NilStats \<Rightarrow> True | _ \<Rightarrow> False)"
| "statsTypeMatches ItemTypeTradeGood s = (case s of NilStats \<Rightarrow> True | _ \<Rightarrow> False)"
| "statsTypeMatches ItemTypeTrash s = (case s of NilStats \<Rightarrow> True | _ \<Rightarrow> False)"
| "statsTypeMatches (ItemTypeOther _) s = False"

record Item =
  it_ID :: int
  it_ExternalID :: string
  it_Name :: string
  it_NameLower :: string
  it_ShortDesc :: string
  it_RoomID :: int
  it_OwnerCharacterID :: int
  it_ParentItemID :: int
  it_Type :: ItemType
  it_Weight :: flt
  it_Value :: Amount
  it_Quality :: ItemQuality
  it_Flags :: "64 word"
  it_Stats :: ItemStats
  it_DecayExpiresAt :: "int option"

definition HasFlag :: "Item \<Rightarrow> 64 word \<Rightarrow> bool" where
  "HasFlag i f \<longleftrightarrow> and (it_Flags i) f \<noteq> 0"

datatype item_error = ErrItemNotFound | ErrItemMoved | ErrItemStatsTypeMismatch | ErrInvalidExternalID
  | ErrDuplicateExternalID | ErrInvalidItem | ErrZeroID | ErrOwnParent

section \<open>The store\<close>

record MemoryItemRepo =
  ir_items :: "Item list"
  ir_byExt :: "string set"
  ir_maxID :: int

definition NewMemoryItemRepo :: MemoryItemRepo where
  "NewMemoryItemRepo = \<lparr>ir_items = [], ir_byExt = {}, ir_maxID = 0\<rparr>"

definition insertLocked :: "MemoryItemRepo \<Rightarrow> Item \<Rightarrow> MemoryItemRepo \<times> Item" where
  "insertLocked r i0 =
     (let mx = (if it_ID i0 = 0 then i64 (ir_maxID r + 1) else if it_ID i0 > ir_maxID r then it_ID i0 else ir_maxID r);
          i = i0\<lparr>it_ID := (if it_ID i0 = 0 then mx else it_ID i0),
                 it_NameLower := (if it_NameLower i0 = '''' then to_lower (it_Name i0) else it_NameLower i0),
                 it_Type := (if it_Type i0 = ItemTypeOther '''' then ItemTypeTrash else it_Type i0),
                 it_Quality := (if it_Quality i0 = QualityOther '''' then QualityNormal else it_Quality i0)\<rparr>
      in (\<lparr>ir_items = ir_items r @ [i],
           ir_byExt = (if it_ExternalID i = '''' then ir_byExt r else insert (it_ExternalID i) (ir_byExt r)),
           ir_maxID = mx\<rparr>, i))"

definition item_Create :: "MemoryItemRepo \<Rightarrow> Item \<Rightarrow> MemoryItemRepo \<times> (item_error + Item)" where
  "item_Create r i0 =
     (if it_ExternalID i0 = '''' then (r, Inl ErrInvalidExternalID)
      else
        let i1 = i0\<lparr>it_Type := (if it_Type i0 = ItemTypeOther '''' then ItemTypeTrash else it_Type i0)\<rparr>
        in if \<not> itemtype_IsValid (it_Type i1) then (r, Inl ErrInvalidItem)
           else
             let i2 = i1\<lparr>it_Quality := (if it_Quality i1 = QualityOther '''' then QualityNormal else it_Quality i1)\<rparr>
             in if \<not> quality_IsValid (it_Quality i2) then (r, Inl ErrInvalidItem)
                else if \<not> statsTypeMatches (it_Type i2) (it_Stats i2) then (r, Inl ErrItemStatsTypeMismatch)
                else if it_ExternalID i2 \<in> ir_byExt r then (r, Inl ErrDuplicateExternalID)
                else let (r', i) = insertLocked r i2 in (r', Inr i))"

fun find_item :: "Item list \<Rightarrow> int \<Rightarrow> Item option" where
  "find_item [] k = None"
| "find_item (i # is) k = (if it_ID i = k then Some i else find_item is k)"

fun set_item :: "Item list \<Rightarrow> int \<Rightarrow> Item \<Rightarrow> Item list" where
  "set_item [] k j = []"
| "set_item (i # is) k j = (if it_ID i = k then j # is else i # set_item is k j)"

fun remove_item :: "Item list \<Rightarrow> int \<Rightarrow> Item list" where
  "remove_item [] k = []"
| "remove_item (i # is) k = (if it_ID i = k then is else i # remove_item is k)"

definition item_GetByID :: "MemoryItemRepo \<Rightarrow> int \<Rightarrow> item_error + Item" where
  "item_GetByID r k = (case find_item (ir_items r) k of None \<Rightarrow> Inl ErrItemNotFound | Some i \<Rightarrow> Inr i)"

text \<open>The loop of every update: the first row with the id is rewritten, or the update is refused.\<close>

definition item_at ::
    "MemoryItemRepo \<Rightarrow> int \<Rightarrow> (Item \<Rightarrow> item_error + Item) \<Rightarrow> MemoryItemRepo \<times> item_error option" where
  "item_at r k f =
     (case find_item (ir_items r) k of None \<Rightarrow> (r, Some ErrItemNotFound)
      | Some i \<Rightarrow> (case f i of Inl e \<Rightarrow> (r, Some e)
                  | Inr j \<Rightarrow> (r\<lparr>ir_items := set_item (ir_items r) k j\<rparr>, None)))"

type_synonym item_write = "MemoryItemRepo \<times> item_error option"

definition item_Delete :: "MemoryItemRepo \<Rightarrow> int \<Rightarrow> item_write" where
  "item_Delete r k =
     (case find_item (ir_items r) k of None \<Rightarrow> (r, Some ErrItemNotFound)
      | Some i \<Rightarrow> (r\<lparr>ir_items := remove_item (ir_items r) k, ir_byExt := ir_byExt r - {it_ExternalID i}\<rparr>, None))"

definition item_SetDecayExpiry :: "MemoryItemRepo \<Rightarrow> int \<Rightarrow> int \<Rightarrow> item_write" where
  "item_SetDecayExpiry r k t = item_at r k (\<lambda>i. Inr (i\<lparr>it_DecayExpiresAt := Some t\<rparr>))"

definition item_ClearDecayExpiry :: "MemoryItemRepo \<Rightarrow> int \<Rightarrow> item_write" where
  "item_ClearDecayExpiry r k = item_at r k (\<lambda>i. Inr (i\<lparr>it_DecayExpiresAt := None\<rparr>))"

definition item_UpdateStats :: "MemoryItemRepo \<Rightarrow> int \<Rightarrow> ItemStats \<Rightarrow> item_write" where
  "item_UpdateStats r k s =
     item_at r k (\<lambda>i. if statsTypeMatches (it_Type i) s then Inr (i\<lparr>it_Stats := s\<rparr>)
                    else Inl ErrItemStatsTypeMismatch)"

text \<open>The three places an item can be.\<close>

definition at_place :: "Item \<Rightarrow> int \<Rightarrow> int \<Rightarrow> int \<Rightarrow> Item" where
  "at_place i room owner parent = i\<lparr>it_RoomID := room, it_OwnerCharacterID := owner, it_ParentItemID := parent\<rparr>"

definition item_SetOwner :: "MemoryItemRepo \<Rightarrow> int \<Rightarrow> int \<Rightarrow> item_write" where
  "item_SetOwner r k owner =
     (if owner = 0 then (r, Some ErrZeroID) else item_at r k (\<lambda>i. Inr (at_place i 0 owner 0)))"

definition item_SetRoom :: "MemoryItemRepo \<Rightarrow> int \<Rightarrow> int \<Rightarrow> item_write" where
  "item_SetRoom r k room =
     (if room = 0 then (r, Some ErrZeroID) else item_at r k (\<lambda>i. Inr (at_place i room 0 0)))"

definition item_SetParent :: "MemoryItemRepo \<Rightarrow> int \<Rightarrow> int \<Rightarrow> item_write" where
  "item_SetParent r k parent =
     (if k = 0 then (r, Some ErrZeroID) else if parent = 0 then (r, Some ErrZeroID)
      else item_at r k (\<lambda>i. Inr (at_place i 0 0 parent)))"

text \<open>The guarded move shared by the five transfers: refused unless the item is where the caller saw it.\<close>

definition move_from :: "int \<Rightarrow> int \<Rightarrow> int \<Rightarrow> int \<Rightarrow> int \<Rightarrow> int \<Rightarrow> Item \<Rightarrow> item_error + Item" where
  "move_from room owner parent room' owner' parent' i =
     (if it_RoomID i \<noteq> room \<or> it_OwnerCharacterID i \<noteq> owner \<or> it_ParentItemID i \<noteq> parent then Inl ErrItemMoved
      else Inr (at_place i room' owner' parent'))"

definition TransferRoomToOwner :: "MemoryItemRepo \<Rightarrow> int \<Rightarrow> int \<Rightarrow> int \<Rightarrow> item_write" where
  "TransferRoomToOwner r k room owner =
     (if room = 0 \<or> owner = 0 then (r, Some ErrZeroID) else item_at r k (move_from room 0 0 0 owner 0))"

definition TransferOwnerToRoom :: "MemoryItemRepo \<Rightarrow> int \<Rightarrow> int \<Rightarrow> int \<Rightarrow> item_write" where
  "TransferOwnerToRoom r k owner room =
     (if owner = 0 \<or> room = 0 then (r, Some ErrZeroID) else item_at r k (move_from 0 owner 0 room 0 0))"

definition TransferOwnerToOwner :: "MemoryItemRepo \<Rightarrow> int \<Rightarrow> int \<Rightarrow> int \<Rightarrow> item_write" where
  "TransferOwnerToOwner r k owner owner' =
     (if owner = 0 \<or> owner' = 0 then (r, Some ErrZeroID) else item_at r k (move_from 0 owner 0 0 owner' 0))"

definition TransferOwnerToContainer :: "MemoryItemRepo \<Rightarrow> int \<Rightarrow> int \<Rightarrow> int \<Rightarrow> item_write" where
  "TransferOwnerToContainer r k owner parent =
     (if owner = 0 \<or> parent = 0 then (r, Some ErrZeroID)
      else if k = parent then (r, Some ErrOwnParent)
      else item_at r k (move_from 0 owner 0 0 0 parent))"

definition TransferContainerToOwner :: "MemoryItemRepo \<Rightarrow> int \<Rightarrow> int \<Rightarrow> int \<Rightarrow> item_write" where
  "TransferContainerToOwner r k parent owner =
     (if parent = 0 \<or> owner = 0 then (r, Some ErrZeroID) else item_at r k (move_from 0 0 parent 0 owner 0))"

section \<open>Lists\<close>

text \<open>\<open>sort.Slice\<close> is not stable; equal names keep the order of the rows here, which is the iteration order of the Go map and so arbitrary.\<close>

definition by_name :: "Item \<Rightarrow> Item \<Rightarrow> bool" where
  "by_name i j \<longleftrightarrow> it_NameLower i < it_NameLower j"

definition in_room :: "MemoryItemRepo \<Rightarrow> int \<Rightarrow> Item list" where
  "in_room r room =
     SliceStable by_name
       (filter (\<lambda>i. it_RoomID i = room \<and> it_OwnerCharacterID i = 0 \<and> it_ParentItemID i = 0) (ir_items r))"

definition in_inventory :: "MemoryItemRepo \<Rightarrow> int \<Rightarrow> Item list" where
  "in_inventory r owner =
     SliceStable by_name (filter (\<lambda>i. it_OwnerCharacterID i = owner \<and> owner \<noteq> 0 \<and> it_ParentItemID i = 0) (ir_items r))"

definition in_container :: "MemoryItemRepo \<Rightarrow> int \<Rightarrow> Item list" where
  "in_container r parent =
     (if parent = 0 then [] else SliceStable by_name (filter (\<lambda>i. it_ParentItemID i = parent) (ir_items r)))"

text \<open>One pass of the fixed-point loop of \<open>ListAllOwnedTransitive\<close> over the rows; the state is the ids
  included so far and the output.\<close>

fun owned_pass :: "Item list \<Rightarrow> int list \<times> Item list \<times> bool \<Rightarrow> int list \<times> Item list \<times> bool" where
  "owned_pass [] s = s"
| "owned_pass (i # is) (inc, out, grew) =
     owned_pass is
       (if it_ID i \<in> set inc \<or> it_ParentItemID i = 0 then (inc, out, grew)
        else if it_ParentItemID i \<in> set inc then (it_ID i # inc, out @ [i], True)
        else (inc, out, grew))"

text \<open>The loop runs until a pass adds nothing; every pass but the last includes a new row, so the number of
  rows plus one bounds the passes.\<close>

fun owned_loop :: "nat \<Rightarrow> Item list \<Rightarrow> int list \<Rightarrow> Item list \<Rightarrow> Item list option" where
  "owned_loop 0 is inc out = None"
| "owned_loop (Suc fuel) is inc out =
     (case owned_pass is (inc, out, False) of
        (inc', out', grew) \<Rightarrow> if grew then owned_loop fuel is inc' out' else Some out')"

definition by_parent :: "Item \<Rightarrow> Item \<Rightarrow> bool" where
  "by_parent i j \<longleftrightarrow>
     (if it_ParentItemID i \<noteq> it_ParentItemID j then it_ParentItemID i < it_ParentItemID j else it_NameLower i < it_NameLower j)"

definition owned_transitive :: "MemoryItemRepo \<Rightarrow> int \<Rightarrow> Item list option" where
  "owned_transitive r owner =
     (if owner = 0 then Some []
      else let top = filter (\<lambda>i. it_OwnerCharacterID i = owner \<and> it_ParentItemID i = 0) (ir_items r)
           in map_option (SliceStable by_parent) (owned_loop (length (ir_items r) + 1) (ir_items r) (map it_ID top) top))"

interpretation name_order: strict_weak_order by_name
  unfolding by_name_def by (rule strict_weak_order_key)

interpretation parent_order: strict_weak_order by_parent
  by unfold_locales (auto simp: by_parent_def split: if_splits)

section \<open>The store satisfies the row contract\<close>

definition item_stable :: "(Item \<Rightarrow> item_error + Item) \<Rightarrow> bool" where
  "item_stable f \<longleftrightarrow> (\<forall>i j. f i = Inr j \<longrightarrow> it_ID j = it_ID i \<and> it_ExternalID j = it_ExternalID i \<and> it_Type j = it_Type i)"

lemma find_item_SomeD: "find_item is k = Some i \<Longrightarrow> it_ID i = k \<and> i \<in> set is"
  by (induction "is" k rule: find_item.induct) (auto split: if_splits)

lemma find_set_same: "find_item is k = Some i \<Longrightarrow> it_ID j = k \<Longrightarrow> find_item (set_item is k j) k = Some j"
  by (induction "is" k j rule: set_item.induct) auto

lemma find_set_other: "it_ID j = k \<Longrightarrow> k \<noteq> l \<Longrightarrow> find_item (set_item is k j) l = find_item is l"
  by (induction "is" k j rule: set_item.induct) auto

lemma set_item_map: "find_item is k = Some i \<Longrightarrow> f j = f i \<Longrightarrow> map f (set_item is k j) = map f is"
  by (induction "is" k j rule: set_item.induct) (auto split: if_splits)

lemma set_item_mem: "x \<in> set (set_item is k j) \<Longrightarrow> x \<in> set is \<or> x = j"
  by (induction "is" k j rule: set_item.induct) (auto split: if_splits)

lemma item_Get_Inr: "item_GetByID r k = Inr i \<longleftrightarrow> find_item (ir_items r) k = Some i"
  by (simp add: item_GetByID_def split: option.split)

lemma item_at_accepted:
  assumes "item_GetByID r k = Inr i" "f i = Inr j" "item_stable f"
  shows "snd (item_at r k f) = None \<and> item_GetByID (fst (item_at r k f)) k = Inr j"
proof -
  have g: "find_item (ir_items r) k = Some i" using assms(1) by (simp only: item_Get_Inr)
  have "it_ID j = k" using assms(2,3) find_item_SomeD [OF g] unfolding item_stable_def by metis
  from find_set_same [OF g this] show ?thesis by (simp add: item_at_def g assms(2) item_Get_Inr)
qed

lemma item_at_others:
  assumes "item_stable f" "k \<noteq> l"
  shows "item_GetByID (fst (item_at r k f)) l = item_GetByID r l"
proof (cases "find_item (ir_items r) k")
  case (Some i)
  show ?thesis
  proof (cases "f i")
    case (Inr j)
    have "it_ID j = k" using assms(1) Inr find_item_SomeD [OF Some] unfolding item_stable_def by metis
    with Some Inr assms(2) show ?thesis by (simp add: item_at_def item_GetByID_def find_set_other)
  qed (simp add: Some item_at_def)
qed (simp add: item_at_def)

interpretation item_store: row_store item_GetByID item_at item_stable ErrItemNotFound
proof
  fix s :: MemoryItemRepo and i j :: int and c d :: Item and e :: item_error
    and f :: "Item \<Rightarrow> item_error + Item"
  show "item_GetByID s i = Inl e \<Longrightarrow> e = ErrItemNotFound \<and> item_at s i f = (s, Some ErrItemNotFound)"
    by (auto simp: item_GetByID_def item_at_def split: option.splits)
  show "item_GetByID s i = Inr c \<Longrightarrow> f c = Inr d \<Longrightarrow> item_stable f \<Longrightarrow>
      snd (item_at s i f) = None \<and> item_GetByID (fst (item_at s i f)) i = Inr d"
    by (rule item_at_accepted)
  show "item_GetByID s i = Inr c \<Longrightarrow> f c = Inl e \<Longrightarrow> item_at s i f = (s, Some e)"
    by (simp add: item_Get_Inr item_at_def)
  show "item_stable f \<Longrightarrow> i \<noteq> j \<Longrightarrow> item_GetByID (fst (item_at s i f)) j = item_GetByID s j"
    by (rule item_at_others)
qed

section \<open>Races\<close>

lemma move_stable: "item_stable (move_from a b c a' b' c')"
  by (auto simp: item_stable_def move_from_def at_place_def)

text \<open>Of two players who pick up the same item from the floor, the first gets it and the second is refused
  with \<open>ErrItemMoved\<close>; the item is then in the first one's inventory and nowhere else.\<close>

lemma pickup_race:
  assumes "item_GetByID r k = Inr i" "it_RoomID i = room" "it_OwnerCharacterID i = 0" "it_ParentItemID i = 0"
    and "room \<noteq> 0" "a \<noteq> 0" "b \<noteq> 0"
    and "r1 = fst (TransferRoomToOwner r k room a)"
  shows "snd (TransferRoomToOwner r k room a) = None
    \<and> TransferRoomToOwner r1 k room b = (r1, Some ErrItemMoved)
    \<and> (\<exists>j. item_GetByID r1 k = Inr j \<and> it_OwnerCharacterID j = a \<and> it_RoomID j = 0 \<and> it_ParentItemID j = 0)"
proof -
  let ?j = "at_place i 0 a 0"
  have m: "move_from room 0 0 0 a 0 i = Inr ?j" "move_from room 0 0 0 b 0 ?j = Inl ErrItemMoved"
    using assms by (auto simp: move_from_def at_place_def)
  have t: "TransferRoomToOwner r' k room x = item_at r' k (move_from room 0 0 0 x 0)" if "x \<noteq> 0" for x r'
    using that assms(5) by (simp add: TransferRoomToOwner_def)
  from item_store.accepted [of r k i "move_from room 0 0 0 a 0" ?j]
    item_store.compare_and_set [of r k i "move_from room 0 0 0 a 0" ?j "move_from room 0 0 0 b 0" ErrItemMoved]
    assms(1,6,7,8) m move_stable
  show ?thesis by (auto simp: t at_place_def)
qed

definition sample_item :: "int \<Rightarrow> int \<Rightarrow> int \<Rightarrow> int \<Rightarrow> Item" where
  "sample_item k room owner parent = \<lparr>it_ID = k, it_ExternalID = show_int k, it_Name = ''rock'', it_NameLower = ''rock'',
     it_ShortDesc = '''', it_RoomID = room, it_OwnerCharacterID = owner, it_ParentItemID = parent,
     it_Type = ItemTypeTrash, it_Weight = Flt 1 0, it_Value = 0, it_Quality = QualityNormal, it_Flags = 0,
     it_Stats = NilStats, it_DecayExpiresAt = None\<rparr>"

definition sample_items :: MemoryItemRepo where
  "sample_items = \<lparr>ir_items = [sample_item 1 5 0 0], ir_byExt = {''1''}, ir_maxID = 1\<rparr>"

section \<open>The store invariant\<close>

definition one_place :: "Item \<Rightarrow> bool" where
  "one_place i \<longleftrightarrow> length (filter (\<lambda>x. x \<noteq> 0) [it_RoomID i, it_OwnerCharacterID i, it_ParentItemID i]) \<le> 1"

lemma one_place_simps [simp]:
  "one_place (i\<lparr>it_ID := a\<rparr>) = one_place i" "one_place (i\<lparr>it_NameLower := s\<rparr>) = one_place i"
  "one_place (i\<lparr>it_Type := t\<rparr>) = one_place i" "one_place (i\<lparr>it_Quality := q\<rparr>) = one_place i"
  "one_place (i\<lparr>it_Stats := st\<rparr>) = one_place i" "one_place (i\<lparr>it_DecayExpiresAt := d\<rparr>) = one_place i"
  by (simp_all add: one_place_def)

definition items_ok :: "MemoryItemRepo \<Rightarrow> bool" where
  "items_ok r \<longleftrightarrow> distinct (map it_ID (ir_items r)) \<and> distinct (map it_ExternalID (ir_items r))
     \<and> ir_byExt r = set (map it_ExternalID (ir_items r)) \<and> 0 \<le> ir_maxID r
     \<and> (\<forall>i \<in> set (ir_items r). 1 \<le> it_ID i \<and> it_ID i \<le> ir_maxID r \<and> it_ExternalID i \<noteq> ''''
          \<and> one_place i \<and> statsTypeMatches (it_Type i) (it_Stats i))"

lemma item_at_ok:
  assumes "items_ok r" "item_stable f"
    and "\<And>i j. f i = Inr j \<Longrightarrow> one_place i \<Longrightarrow> statsTypeMatches (it_Type i) (it_Stats i) \<Longrightarrow>
      one_place j \<and> statsTypeMatches (it_Type j) (it_Stats j)"
  shows "items_ok (fst (item_at r k f))"
proof (cases "find_item (ir_items r) k")
  case (Some i)
  show ?thesis
  proof (cases "f i")
    case (Inr j)
    have j: "it_ID j = it_ID i" "it_ExternalID j = it_ExternalID i"
      using assms(2) Inr unfolding item_stable_def by metis+
    have mem: "i \<in> set (ir_items r)" using find_item_SomeD [OF Some] by simp
    then have i: "1 \<le> it_ID i \<and> it_ID i \<le> ir_maxID r \<and> it_ExternalID i \<noteq> ''''"
      and jj: "one_place j \<and> statsTypeMatches (it_Type j) (it_Stats j)"
      using assms(1) assms(3) [OF Inr] unfolding items_ok_def by blast+
    let ?is = "set_item (ir_items r) k j"
    have m: "map it_ID ?is = map it_ID (ir_items r)" "map it_ExternalID ?is = map it_ExternalID (ir_items r)"
      using set_item_map [OF Some, of it_ID j] set_item_map [OF Some, of it_ExternalID j] j by simp_all
    have "\<forall>x \<in> set ?is. 1 \<le> it_ID x \<and> it_ID x \<le> ir_maxID r \<and> it_ExternalID x \<noteq> ''''
        \<and> one_place x \<and> statsTypeMatches (it_Type x) (it_Stats x)"
      using set_item_mem [of _ "ir_items r" k j] assms(1) i jj unfolding j [symmetric] items_ok_def by blast
    moreover let ?r = "r\<lparr>ir_items := ?is\<rparr>"
    have s: "ir_items ?r = ?is" "ir_byExt ?r = ir_byExt r" "ir_maxID ?r = ir_maxID r" by simp_all
    ultimately have "items_ok ?r"
      using assms(1) unfolding items_ok_def s m by blast
    then show ?thesis by (simp add: item_at_def Some Inr)
  qed (use assms(1) in \<open>simp add: Some item_at_def\<close>)
qed (use assms(1) in \<open>simp add: item_at_def\<close>)

lemma at_place_ok:
  "one_place (at_place i room 0 0)" "one_place (at_place i 0 owner 0)" "one_place (at_place i 0 0 parent)"
  "it_Type (at_place i room owner parent) = it_Type i" "it_Stats (at_place i room owner parent) = it_Stats i"
  by (simp_all add: one_place_def at_place_def)

lemma insert_ok:
  assumes "items_ok r" "it_ID i = 0" "one_place i" "it_ExternalID i \<noteq> ''''" "it_ExternalID i \<notin> ir_byExt r"
    "itemtype_IsValid (it_Type i)" "statsTypeMatches (it_Type i) (it_Stats i)" "ir_maxID r < MaxInt64"
  shows "items_ok (fst (insertLocked r i))"
proof -
  have n: "i64 (ir_maxID r + 1) = ir_maxID r + 1"
    using assms(1,8) by (intro i64_id) (auto simp: items_ok_def)
  have ty: "it_Type i \<noteq> ItemTypeOther ''''" using assms(6) by auto
  have "ir_maxID r + 1 \<notin> it_ID ` set (ir_items r)" using assms(1) by (fastforce simp: items_ok_def)
  moreover have "it_ExternalID i \<notin> it_ExternalID ` set (ir_items r)" using assms(1,5) by (simp add: items_ok_def)
  moreover have "0 \<le> ir_maxID r" using assms(1) by (simp add: items_ok_def)
  ultimately show ?thesis
    using assms(1,2,3,4,7) ty by (auto simp: insertLocked_def items_ok_def Let_def n)
qed

lemma remove_item_split:
  "find_item is k = Some i \<Longrightarrow> \<exists>xs ys. is = xs @ i # ys \<and> remove_item is k = xs @ ys"
proof (induction "is")
  case (Cons x xs)
  show ?case
  proof (cases "it_ID x = k")
    case True
    with Cons.prems have "x # xs = [] @ i # xs \<and> remove_item (x # xs) k = [] @ xs" by simp
    then show ?thesis by blast
  next
    case False
    with Cons obtain us vs where "xs = us @ i # vs" "remove_item xs k = us @ vs" by auto
    then have "x # xs = (x # us) @ i # vs \<and> remove_item (x # xs) k = (x # us) @ vs" using False by simp
    then show ?thesis by blast
  qed
qed simp

lemma item_Delete_ok: "items_ok r \<Longrightarrow> items_ok (fst (item_Delete r k))"
proof (cases "find_item (ir_items r) k")
  case (Some i)
  assume ok: "items_ok r"
  obtain xs ys where s: "ir_items r = xs @ i # ys" "remove_item (ir_items r) k = xs @ ys"
    using remove_item_split [OF Some] by blast
  have "fst (item_Delete r k) = r\<lparr>ir_items := xs @ ys, ir_byExt := ir_byExt r - {it_ExternalID i}\<rparr>"
    by (simp add: item_Delete_def Some s(2))
  with ok show ?thesis by (auto simp: items_ok_def s(1))
qed (simp add: item_Delete_def)

datatype item_op =
    ICreate Item | IDelete int | ISetDecay int int | IClearDecay int | IUpdateStats int ItemStats
  | ISetOwner int int | ISetRoom int int | ISetParent int int | IRoomToOwner int int int
  | IOwnerToRoom int int int | IOwnerToOwner int int int | IOwnerToContainer int int int
  | IContainerToOwner int int int

fun item_run :: "MemoryItemRepo \<Rightarrow> item_op \<Rightarrow> MemoryItemRepo" where
  "item_run r (ICreate i) = fst (item_Create r i)"
| "item_run r (IDelete k) = fst (item_Delete r k)"
| "item_run r (ISetDecay k t) = fst (item_SetDecayExpiry r k t)"
| "item_run r (IClearDecay k) = fst (item_ClearDecayExpiry r k)"
| "item_run r (IUpdateStats k s) = fst (item_UpdateStats r k s)"
| "item_run r (ISetOwner k a) = fst (item_SetOwner r k a)"
| "item_run r (ISetRoom k a) = fst (item_SetRoom r k a)"
| "item_run r (ISetParent k a) = fst (item_SetParent r k a)"
| "item_run r (IRoomToOwner k a b) = fst (TransferRoomToOwner r k a b)"
| "item_run r (IOwnerToRoom k a b) = fst (TransferOwnerToRoom r k a b)"
| "item_run r (IOwnerToOwner k a b) = fst (TransferOwnerToOwner r k a b)"
| "item_run r (IOwnerToContainer k a b) = fst (TransferOwnerToContainer r k a b)"
| "item_run r (IContainerToOwner k a b) = fst (TransferContainerToOwner r k a b)"

text \<open>A new item comes without an id and in at most one place.\<close>

fun item_op_ok :: "item_op \<Rightarrow> bool" where
  "item_op_ok (ICreate i) \<longleftrightarrow> it_ID i = 0 \<and> one_place i"
| "item_op_ok _ \<longleftrightarrow> True"

lemma item_Create_ok:
  assumes "items_ok r" "it_ID i = 0" "one_place i" "ir_maxID r < MaxInt64"
  shows "items_ok (fst (item_Create r i))"
proof -
  let ?i = "i\<lparr>it_Type := (if it_Type i = ItemTypeOther '''' then ItemTypeTrash else it_Type i),
    it_Quality := (if it_Quality i = QualityOther '''' then QualityNormal else it_Quality i)\<rparr>"
  have q: "it_Quality (i\<lparr>it_Type := t\<rparr>) = it_Quality i" for t by simp
  have "fst (item_Create r i) = r \<or>
      it_ExternalID ?i \<noteq> '''' \<and> it_ExternalID ?i \<notin> ir_byExt r \<and> itemtype_IsValid (it_Type ?i) \<and>
      statsTypeMatches (it_Type ?i) (it_Stats ?i) \<and> fst (item_Create r i) = fst (insertLocked r ?i)"
    by (simp add: item_Create_def Let_def split_beta)
  then show ?thesis
  proof
    assume h: "it_ExternalID ?i \<noteq> '''' \<and> it_ExternalID ?i \<notin> ir_byExt r \<and> itemtype_IsValid (it_Type ?i) \<and>
      statsTypeMatches (it_Type ?i) (it_Stats ?i) \<and> fst (item_Create r i) = fst (insertLocked r ?i)"
    have p: "it_ID ?i = 0" "one_place ?i" using assms(2,3) by simp_all
    from h insert_ok [OF assms(1) p _ _ _ _ assms(4)] show ?thesis by metis
  qed (use assms(1) in simp)
qed

lemma find_item_snoc:
  "find_item (is @ [c]) k = (case find_item is k of Some i \<Rightarrow> Some i | None \<Rightarrow> if it_ID c = k then Some c else None)"
  by (induction "is" k rule: find_item.induct) auto

text \<open>A created row is found under the next id, and no other row changes.\<close>

lemma item_Create_row:
  assumes "items_ok r" "it_ID i = 0" "ir_maxID r < MaxInt64" "item_Create r i = (r', Inr c)"
  shows "it_ID c = ir_maxID r + 1 \<and> ir_maxID r' = ir_maxID r + 1
    \<and> item_GetByID r' k = (if k = ir_maxID r + 1 then Inr c else item_GetByID r k)"
proof -
  have m: "i64 (ir_maxID r + 1) = ir_maxID r + 1"
    using assms(1,3) by (intro i64_id) (simp_all add: items_ok_def)
  have n: "find_item (ir_items r) (ir_maxID r + 1) = None"
  proof (rule ccontr)
    assume "find_item (ir_items r) (ir_maxID r + 1) \<noteq> None"
    then obtain j where "find_item (ir_items r) (ir_maxID r + 1) = Some j" by auto
    from find_item_SomeD [OF this] assms(1) show False by (auto simp: items_ok_def)
  qed
  have "ir_items r' = ir_items r @ [c] \<and> it_ID c = ir_maxID r + 1 \<and> ir_maxID r' = ir_maxID r + 1"
    using assms(2,4) m by (auto simp: item_Create_def insertLocked_def Let_def split: if_splits)
  then show ?thesis using n by (auto simp: item_GetByID_def find_item_snoc split: option.split)
qed

text \<open>The updates of the store keep the identity of the row and its soundness.\<close>

definition good_update :: "(Item \<Rightarrow> item_error + Item) \<Rightarrow> bool" where
  "good_update f \<longleftrightarrow> item_stable f \<and> (\<forall>i j. f i = Inr j \<longrightarrow> one_place i \<longrightarrow>
     statsTypeMatches (it_Type i) (it_Stats i) \<longrightarrow> one_place j \<and> statsTypeMatches (it_Type j) (it_Stats j))"

lemma item_at_good: "items_ok r \<Longrightarrow> good_update f \<Longrightarrow> items_ok (fst (item_at r k f))"
  unfolding good_update_def by (rule item_at_ok) blast+

lemma good_updates:
  "good_update (\<lambda>i. Inr (i\<lparr>it_DecayExpiresAt := d\<rparr>))"
  "good_update (\<lambda>i. if statsTypeMatches (it_Type i) s then Inr (i\<lparr>it_Stats := s\<rparr>) else Inl ErrItemStatsTypeMismatch)"
  "good_update (\<lambda>i. Inr (at_place i room 0 0))" "good_update (\<lambda>i. Inr (at_place i 0 owner 0))"
  "good_update (\<lambda>i. Inr (at_place i 0 0 parent))"
  "good_update (move_from a b c room 0 0)" "good_update (move_from a b c 0 owner 0)"
  "good_update (move_from a b c 0 0 parent)"
  by (auto simp: good_update_def item_stable_def move_from_def at_place_ok, auto simp: at_place_def)

lemma item_run_ok:
  assumes "items_ok r" "item_op_ok op" "ir_maxID r < MaxInt64"
  shows "items_ok (item_run r op)"
proof (cases op)
  case (ICreate i)
  then show ?thesis using assms item_Create_ok by simp
next
  case (IDelete k)
  then show ?thesis using assms item_Delete_ok by simp
qed (use assms(1) in
  \<open>simp_all add: item_SetDecayExpiry_def item_ClearDecayExpiry_def item_UpdateStats_def item_SetOwner_def
     item_SetRoom_def item_SetParent_def TransferRoomToOwner_def TransferOwnerToRoom_def
     TransferOwnerToOwner_def TransferOwnerToContainer_def TransferContainerToOwner_def item_at_good
     good_updates\<close>)

lemma item_at_max [simp]: "ir_maxID (fst (item_at r k f)) = ir_maxID r" "ir_byExt (fst (item_at r k f)) = ir_byExt r"
  by (simp_all add: item_at_def split: option.split sum.split)

lemma item_run_max: "items_ok r \<Longrightarrow> item_op_ok op \<Longrightarrow> ir_maxID r < MaxInt64 \<Longrightarrow> ir_maxID (item_run r op) \<le> ir_maxID r + 1"
  by (cases op)
    (auto simp: item_SetDecayExpiry_def item_ClearDecayExpiry_def item_UpdateStats_def item_SetOwner_def
     item_SetRoom_def item_SetParent_def TransferRoomToOwner_def TransferOwnerToRoom_def
     TransferOwnerToOwner_def TransferOwnerToContainer_def TransferContainerToOwner_def item_Delete_def
     item_Create_def insertLocked_def items_ok_def Let_def i64_id split: option.split)

text \<open>No sequence of store operations duplicates or misplaces an item: from the empty store, through
  creations (of items without id and in at most one place), deletions, set, transfer, decay and stat
  operations, every item stays in at most one of a room, an inventory and a container, its stat block
  matches its type, and ids and external ids are unique and indexed.\<close>

lemma item_runs_ok:
  assumes "list_all item_op_ok ops" "length ops < 9223372036854775807"
  shows "items_ok (foldl item_run NewMemoryItemRepo ops)"
proof -
  have "ir_maxID (foldl item_run NewMemoryItemRepo ops) \<le> int (length ops) \<and>
      items_ok (foldl item_run NewMemoryItemRepo ops)"
    using assms
  proof (induction ops rule: rev_induct)
    case Nil
    show ?case by (simp add: NewMemoryItemRepo_def items_ok_def)
  next
    case (snoc op ops)
    then have r: "ir_maxID (foldl item_run NewMemoryItemRepo ops) \<le> int (length ops)"
      "items_ok (foldl item_run NewMemoryItemRepo ops)" "item_op_ok op" by simp_all
    then have b: "ir_maxID (foldl item_run NewMemoryItemRepo ops) < MaxInt64"
      using snoc.prems by simp
    show ?case using item_run_ok [OF r(2,3) b] item_run_max [OF r(2,3) b] r(1) by simp
  qed
  then show ?thesis by simp
qed

section \<open>What a character carries\<close>

text \<open>The items a character owns, directly or inside containers.\<close>

inductive owned :: "Item list \<Rightarrow> int \<Rightarrow> Item \<Rightarrow> bool" for "is" owner where
  top: "i \<in> set is \<Longrightarrow> it_OwnerCharacterID i = owner \<Longrightarrow> it_ParentItemID i = 0 \<Longrightarrow> owned is owner i"
| inside: "owned is owner p \<Longrightarrow> i \<in> set is \<Longrightarrow> it_ParentItemID i = it_ID p \<Longrightarrow> it_ParentItemID i \<noteq> 0 \<Longrightarrow>
    owned is owner i"

inductive_cases owned_top: "owned is owner i"

text \<open>What one pass keeps: the output is exactly the rows with an included id, all of them owned.\<close>

definition pass_inv :: "Item list \<Rightarrow> int \<Rightarrow> int list \<Rightarrow> Item list \<Rightarrow> bool" where
  "pass_inv is owner inc out \<longleftrightarrow> set inc = it_ID ` set out \<and> (\<forall>i \<in> set out. owned is owner i)
     \<and> distinct (map it_ID out) \<and> set out \<subseteq> set is
     \<and> (\<forall>i \<in> set is. it_OwnerCharacterID i = owner \<and> it_ParentItemID i = 0 \<longrightarrow> i \<in> set out)"

lemma owned_pass_inv:
  assumes "set js \<subseteq> set is" "pass_inv is owner inc out" "owned_pass js (inc, out, grew) = (inc', out', grew')"
  shows "pass_inv is owner inc' out' \<and> length out \<le> length out' \<and> set out \<subseteq> set out' \<and>
    (grew' \<longrightarrow> grew \<or> length out < length out') \<and>
    (\<not> grew' \<longrightarrow> inc' = inc \<and> out' = out \<and>
       (\<forall>j \<in> set js. it_ParentItemID j \<noteq> 0 \<longrightarrow> it_ParentItemID j \<in> set inc \<longrightarrow> it_ID j \<in> set inc))"
  using assms
proof (induction js arbitrary: inc out grew)
  case (Cons j js)
  show ?case
  proof (cases "it_ID j \<in> set inc \<or> it_ParentItemID j = 0")
    case True
    then have "owned_pass js (inc, out, grew) = (inc', out', grew')" using Cons.prems(3) by simp
    from Cons.IH [OF _ Cons.prems(2) this] Cons.prems(1) True show ?thesis by auto
  next
    case False
    show ?thesis
    proof (cases "it_ParentItemID j \<in> set inc")
      case True
      then obtain p where p: "p \<in> set out" "it_ParentItemID j = it_ID p"
        using Cons.prems(2) by (auto simp: pass_inv_def)
      have "owned is owner j"
      proof (rule owned.inside [of _ _ p])
        show "owned is owner p" using p(1) Cons.prems(2) unfolding pass_inv_def by blast
        show "j \<in> set is" using Cons.prems(1) by simp
        show "it_ParentItemID j = it_ID p" by (rule p(2))
        show "it_ParentItemID j \<noteq> 0" using False by blast
      qed
      moreover have nj: "it_ID j \<notin> it_ID ` set out" "j \<in> set is"
        using False Cons.prems(1,2) by (simp_all add: pass_inv_def)
      ultimately have "pass_inv is owner (it_ID j # inc) (out @ [j])"
        using Cons.prems(2) unfolding pass_inv_def by simp
      moreover have "owned_pass js (it_ID j # inc, out @ [j], True) = (inc', out', grew')"
        using Cons.prems(3) False True by simp
      moreover have "set js \<subseteq> set is" using Cons.prems(1) by simp
      moreover have "grew'"
      proof -
        have "owned_pass js (a, b, True) = (a', b', g') \<Longrightarrow> g'" for a b a' b' g'
          by (induction js arbitrary: a b) (auto split: if_splits)
        then show ?thesis using calculation(2) by blast
      qed
      ultimately show ?thesis using Cons.IH [of "it_ID j # inc" "out @ [j]" True] by auto
    next
      case F: False
      then have "owned_pass js (inc, out, grew) = (inc', out', grew')" using Cons.prems(3) False by simp
      from Cons.IH [OF _ Cons.prems(2) this] Cons.prems(1) F show ?thesis by simp
    qed
  qed
qed simp

lemma distinct_ids_length:
  assumes "distinct (map it_ID out)" "set out \<subseteq> set is"
  shows "length out \<le> length is"
proof -
  have "card (set out) \<le> card (set is)" using assms(2) by (intro card_mono) auto
  moreover have "distinct out" using assms(1) by (simp add: distinct_map)
  ultimately show ?thesis using card_length [of "is"] by (simp add: distinct_card)
qed

lemma owned_loop_spec:
  assumes "distinct (map it_ID is)" "pass_inv is owner inc out" "length is < length out + fuel"
  shows "\<exists>out'. owned_loop fuel is inc out = Some out' \<and> distinct out' \<and> (\<forall>i. i \<in> set out' \<longleftrightarrow> owned is owner i)"
  using assms(2,3)
proof (induction fuel arbitrary: inc out)
  case 0
  then have "length out \<le> length is" by (intro distinct_ids_length) (simp_all add: pass_inv_def)
  with 0 show ?case by simp
next
  case (Suc fuel)
  obtain inc' out' grew where p: "owned_pass is (inc, out, False) = (inc', out', grew)"
    by (metis prod_cases3)
  note s = owned_pass_inv [OF subset_refl Suc.prems(1) p]
  show ?case
  proof (cases grew)
    case True
    with s have "length out < length out'" "pass_inv is owner inc' out'" by auto
    with Suc.IH [of inc' out'] Suc.prems(2) p True show ?thesis by simp
  next
    case False
    with s have e: "inc' = inc" "out' = out"
      "\<forall>j \<in> set is. it_ParentItemID j \<noteq> 0 \<longrightarrow> it_ParentItemID j \<in> set inc \<longrightarrow> it_ID j \<in> set inc" by auto
    have inv: "set inc = it_ID ` set out" "set out \<subseteq> set is" "\<forall>i \<in> set out. owned is owner i"
      "\<forall>i \<in> set is. it_OwnerCharacterID i = owner \<and> it_ParentItemID i = 0 \<longrightarrow> i \<in> set out"
      using Suc.prems(1) by (simp_all add: pass_inv_def)
    have "i \<in> set out" if "owned is owner i" for i
      using that
    proof (induction rule: owned.induct)
      case (top i)
      then show ?case using inv(4) by blast
    next
      case (inside p i)
      then have "it_ID i \<in> set inc" using e(3) inv(1) by simp
      then obtain j where j: "j \<in> set out" "it_ID j = it_ID i" using inv(1) by auto
      then have "j = i" using inv(2) inside.hyps(2) assms(1) by (auto simp: distinct_map inj_on_def)
      with j show ?case by simp
    qed
    then have "\<forall>i. i \<in> set out \<longleftrightarrow> owned is owner i" using inv(3) by blast
    moreover have "distinct out" using Suc.prems(1) by (simp add: pass_inv_def distinct_map)
    ultimately show ?thesis using p False e by simp
  qed
qed

lemma owned_transitive_result:
  assumes "distinct (map it_ID (ir_items r))" "owner \<noteq> 0"
  shows "\<exists>out. owned_transitive r owner = Some out \<and> distinct out
    \<and> (\<forall>i. i \<in> set out \<longleftrightarrow> owned (ir_items r) owner i) \<and> sorted_wrt (\<lambda>i j. \<not> by_parent j i) out"
proof -
  let ?is = "ir_items r"
  let ?top = "filter (\<lambda>i. it_OwnerCharacterID i = owner \<and> it_ParentItemID i = 0) ?is"
  have "pass_inv ?is owner (map it_ID ?top) ?top"
    using assms(1) by (auto simp: pass_inv_def distinct_map_filter intro: owned.top)
  from owned_loop_spec [OF assms(1) this, of "length ?is + 1"] show ?thesis
    using assms(2) by (auto simp: owned_transitive_def Let_def parent_order.ordered_SliceStable)
qed

text \<open>C5: \<open>ListAllOwnedTransitive\<close> ends and is exact: it returns each item the character owns directly or inside
  nested containers once, and nothing else, the items of one container together and sorted by name.\<close>

theorem owned_transitive_exact:
  assumes "distinct (map it_ID (ir_items r))" "owner \<noteq> 0"
  shows "\<exists>out. owned_transitive r owner = Some out \<and> distinct out
    \<and> (\<forall>i. i \<in> set out \<longleftrightarrow> owned (ir_items r) owner i) \<and> sorted_wrt (\<lambda>i j. \<not> by_parent j i) out"
  by (rule owned_transitive_result [OF assms])

theorem owned_transitive_exact_witness:
  "\<exists>out. owned_transitive (sample_items\<lparr>ir_items := [sample_item 2 0 0 1, sample_item 1 0 7 0]\<rparr>) 7 = Some out
     \<and> sample_item 2 0 0 1 \<in> set out"
proof -
  let ?r = "sample_items\<lparr>ir_items := [sample_item 2 0 0 1, sample_item 1 0 7 0]\<rparr>"
  have "owned (ir_items ?r) 7 (sample_item 1 0 7 0)"
    by (rule owned.top) (simp_all add: sample_item_def)
  then have "owned (ir_items ?r) 7 (sample_item 2 0 0 1)"
    by (rule owned.inside) (simp_all add: sample_item_def)
  moreover have "distinct (map it_ID (ir_items ?r))" by (simp add: sample_item_def)
  ultimately show ?thesis using owned_transitive_exact [of ?r 7] by auto
qed

end
