(* ===== verification/CombatRoll.thy ===== *)
theory CombatRoll
  imports Affects ItemRepo
begin

text \<open>
  The dice of combat: \<open>internal/combat/resolution.go\<close> (attack, parry and damage rolls, dice expressions,
  damage application) and the action tables of \<open>action.go\<close>. Random draws are taken from a list
  (\<open>GoPrelude\<close>); the damage factors are floats (\<open>GoFloat\<close>). Go \<open>int\<close> sums of these small values are
  written without the 64-bit wrap; every narrower width of the source is written out.
\<close>

section \<open>Actions\<close>

text \<open>The two enums are \<open>uint8\<close> with a default branch for unknown values.\<close>

datatype AttackVariant = VariantNormal | VariantPower | VariantQuick | VariantOther int

datatype ActionKind = ActionNone | ActionAttack | ActionParry | ActionFlee | ActionDodge | ActionThrow
  | ActionSidestep | ActionOther int


fun variantCostFactor :: "AttackVariant \<Rightarrow> flt" where
  "variantCostFactor VariantPower = f_1_5"
| "variantCostFactor VariantQuick = f_0_6"
| "variantCostFactor _ = f_one"

fun VariantDamageFactor :: "AttackVariant \<Rightarrow> flt" where
  "VariantDamageFactor VariantPower = f_1_5"
| "VariantDamageFactor VariantQuick = f_0_6"
| "VariantDamageFactor _ = f_one"

fun VariantAttackBonus :: "AttackVariant \<Rightarrow> int" where
  "VariantAttackBonus VariantPower = - 2"
| "VariantAttackBonus VariantQuick = 1"
| "VariantAttackBonus _ = 0"

fun DefaultActionCost :: "ActionKind \<Rightarrow> AttackVariant \<Rightarrow> int" where
  "DefaultActionCost ActionAttack v = ftrunc (f64 (fmul (fof (3 * Second)) (variantCostFactor v)))"
| "DefaultActionCost ActionParry v = 2 * Second"
| "DefaultActionCost ActionFlee v = 2 * Second"
| "DefaultActionCost ActionDodge v = 1 * Second"
| "DefaultActionCost ActionThrow v = 2 * Second"
| "DefaultActionCost ActionSidestep v = 500 * Millisecond"
| "DefaultActionCost _ v = 1 * Second"

fun DefaultActionStamina :: "ActionKind \<Rightarrow> AttackVariant \<Rightarrow> int" where
  "DefaultActionStamina ActionAttack v = (case v of VariantPower \<Rightarrow> 12 | VariantQuick \<Rightarrow> 3 | _ \<Rightarrow> 5)"
| "DefaultActionStamina ActionParry v = 4"
| "DefaultActionStamina ActionFlee v = 8"
| "DefaultActionStamina ActionDodge v = 3"
| "DefaultActionStamina ActionThrow v = 6"
| "DefaultActionStamina ActionSidestep v = 2"
| "DefaultActionStamina _ v = 0"

section \<open>Weapons\<close>

definition unarmedDamage :: WeaponStats where
  "unarmedDamage = \<lparr>ws_Proficiency = '''', ws_Size = '''', ws_Range = ''melee'', ws_Damage = ''1d3'',
     ws_ThreatLow = 0, ws_CritMult = 0, ws_RangeIncFt = 0, ws_DamageType = [''B''], ws_Special = [],
     ws_Subdual = False\<rparr>"

definition weaponStatsFor :: "Item option \<Rightarrow> WeaponStats" where
  "weaponStatsFor it =
     (case it of None \<Rightarrow> unarmedDamage
      | Some i \<Rightarrow> if it_Type i \<noteq> ItemTypeWeapon then unarmedDamage
                 else (case it_Stats i of StWeapon ws \<Rightarrow> ws | _ \<Rightarrow> unarmedDamage))"

definition upper_char :: "char \<Rightarrow> char" where
  "upper_char c = (if 97 \<le> ord c \<and> ord c \<le> 122 then char_of (ord c - 32) else c)"

fun damage_type_loop :: "string list \<Rightarrow> DamageType" where
  "damage_type_loop [] = DamageBludgeon"
| "damage_type_loop (code # codes) =
     (let s = map upper_char (trim_space code)
      in if s = ''S'' then DamageSlash else if s = ''P'' then DamagePierce
         else if s = ''B'' then DamageBludgeon else damage_type_loop codes)"

definition weaponPrimaryDamageType :: "WeaponStats \<Rightarrow> DamageType" where
  "weaponPrimaryDamageType ws = (if ws_Subdual ws then DamageSubdual else damage_type_loop (ws_DamageType ws))"

definition threatLow :: "WeaponStats \<Rightarrow> int" where
  "threatLow ws = (if ws_ThreatLow ws \<le> 0 \<or> ws_ThreatLow ws > 20 then 20 else ws_ThreatLow ws)"

definition critMult :: "WeaponStats \<Rightarrow> int" where
  "critMult ws = (if ws_CritMult ws \<le> 1 then 2 else ws_CritMult ws)"

section \<open>Attack rolls\<close>

record AttackRoll =
  ar_Raw :: int
  ar_Total :: int
  ar_Hit :: bool
  ar_Threat :: bool
  ar_IsCrit :: bool
  ar_Fumble :: bool

definition effectiveDefense :: "Core \<Rightarrow> bool \<Rightarrow> int" where
  "effectiveDefense d flatFooted =
     (if \<not> flatFooted then c_Defense d
      else let dex = DexMod (c_Abilities d)
           in if dex \<le> 0 then c_Defense d else i16 (c_Defense d - dex))"

text \<open>A die against a defense: the natural 1 and the natural 20 decide alone.\<close>

definition attack_hits :: "int \<Rightarrow> int \<Rightarrow> int \<Rightarrow> bool" where
  "attack_hits raw tot defense = (if raw = 1 then False else if raw = 20 then True else tot \<ge> defense)"

definition RollAttack ::
    "rng \<Rightarrow> Core \<Rightarrow> Core \<Rightarrow> WeaponStats \<Rightarrow> bool \<Rightarrow> int \<Rightarrow> AttackRoll \<times> rng" where
  "RollAttack r attacker defender ws flatFooted bonus =
     (let (x, r1) = Intn r 20;
          raw = x + 1;
          modifier = c_BAB attacker + StrMod (c_Abilities attacker) + bonus;
          defense = effectiveDefense defender flatFooted;
          hit = attack_hits raw (raw + modifier) defense;
          threat = (hit \<and> raw \<ge> threatLow ws);
          a = \<lparr>ar_Raw = raw, ar_Total = raw + modifier, ar_Hit = hit, ar_Threat = threat, ar_IsCrit = False,
               ar_Fumble = (raw = 1)\<rparr>
      in if threat then
           (let (y, r2) = Intn r1 20; confirmRaw = y + 1
            in (a\<lparr>ar_IsCrit := attack_hits confirmRaw (confirmRaw + modifier) defense\<rparr>, r2))
         else (a, r1))"

definition RollParry :: "rng \<Rightarrow> Core \<Rightarrow> int \<times> rng" where
  "RollParry r defender =
     (let (x, r1) = Intn r 20 in (x + 1 + c_BAB defender + DexMod (c_Abilities defender), r1))"

section \<open>Dice expressions\<close>

fun index_of :: "(char \<Rightarrow> bool) \<Rightarrow> string \<Rightarrow> nat option" where
  "index_of p [] = None"
| "index_of p (c # cs) = (if p c then Some 0 else map_option Suc (index_of p cs))"

fun roll_loop :: "nat \<Rightarrow> int \<Rightarrow> rng \<Rightarrow> int \<Rightarrow> int \<times> rng" where
  "roll_loop 0 m r acc = (acc, r)"
| "roll_loop (Suc n) m r acc = (let (x, r1) = Intn r m in roll_loop n m r1 (acc + (x + 1)))"

text \<open>The parsed expression: the flat modifier, the number of dice and their size, each an \<open>Atoi\<close> with a
  range check.\<close>

definition bounded_int :: "int \<Rightarrow> int \<Rightarrow> string \<Rightarrow> int option" where
  "bounded_int lo hi s =
     (case parse_int64 s of None \<Rightarrow> None | Some n \<Rightarrow> if n < lo \<or> n > hi then None else Some n)"

definition dice_modifier :: "string \<Rightarrow> (int \<times> string) option" where
  "dice_modifier expr =
     (case index_of (\<lambda>c. c = CHR ''+'' \<or> c = CHR ''-'') expr of
        None \<Rightarrow> Some (0, expr)
      | Some i \<Rightarrow>
          if i > 0 then
            (case bounded_int (- 10000) 10000 (drop i expr) of None \<Rightarrow> None
             | Some md \<Rightarrow> Some (md, take i expr))
          else Some (0, expr))"

definition dice_sides :: "string \<Rightarrow> (int \<times> int) option" where
  "dice_sides expr =
     (case index_of (\<lambda>c. c = CHR ''d'') expr of None \<Rightarrow> None
      | Some d \<Rightarrow>
          if d = 0 \<or> d = length expr - 1 then None
          else (case bounded_int 1 100 (take d expr) of None \<Rightarrow> None
                | Some n \<Rightarrow>
                    (case bounded_int 1 1000 (drop (d + 1) expr) of None \<Rightarrow> None
                     | Some m \<Rightarrow> Some (n, m))))"

definition parse_dice :: "string \<Rightarrow> (int \<times> int \<times> int) option" where
  "parse_dice expr0 =
     (let expr1 = trim_space expr0
      in if expr1 = '''' then None
         else
           let expr2 = (case index_of (\<lambda>c. c = CHR ''/'') expr1 of None \<Rightarrow> expr1 | Some i \<Rightarrow> take i expr1)
           in case dice_modifier expr2 of None \<Rightarrow> None
              | Some (flat, expr) \<Rightarrow>
                  (case dice_sides expr of None \<Rightarrow> None | Some (n, m) \<Rightarrow> Some (flat, n, m)))"

definition rollDice :: "rng \<Rightarrow> string \<Rightarrow> int option \<times> rng" where
  "rollDice r expr =
     (case parse_dice expr of None \<Rightarrow> (None, r)
      | Some (flat, n, m) \<Rightarrow> (let (s, r1) = roll_loop (nat n) m r flat in (Some s, r1)))"

section \<open>Damage\<close>

text \<open>The base roll falls back to \<open>1d3\<close> on a bad expression or a non-positive sum.\<close>

definition base_roll :: "rng \<Rightarrow> string \<Rightarrow> int \<times> rng" where
  "base_roll r expr =
     (let (b, r1) = rollDice r expr; (y, r2) = Intn r1 3
      in case b of None \<Rightarrow> (y + 1, r2) | Some x \<Rightarrow> if x \<le> 0 then (y + 1, r2) else (x, r1))"

definition variant_damage :: "int \<Rightarrow> AttackVariant \<Rightarrow> int" where
  "variant_damage dmg variant =
     (let f = VariantDamageFactor variant
      in if \<not> feq f f_one then
           (let scaled = ftrunc (f64 (fmul (fof dmg) f)) in if scaled < 1 then 1 else scaled)
         else dmg)"

definition RollDamage :: "rng \<Rightarrow> Core \<Rightarrow> WeaponStats \<Rightarrow> bool \<Rightarrow> AttackVariant \<Rightarrow> int \<times> rng" where
  "RollDamage r attacker ws isCrit variant =
     (let (base, r1) = base_roll r (ws_Damage ws);
          d0 = base + StrMod (c_Abilities attacker);
          d1 = (if d0 < 1 then 1 else d0);
          d2 = (if isCrit then i64 (d1 * critMult ws) else d1);
          d3 = (if d2 < 1 then 1 else d2);
          d4 = variant_damage d3 variant
      in (i32 (if d4 > MaxInt32 then MaxInt32 else d4), r1))"

text \<open>Damage reduction (\<open>None\<close>: the loop returned 0 early), then resistances.\<close>

fun dr_loop :: "int \<Rightarrow> DamageReduction list \<Rightarrow> int option" where
  "dr_loop amount [] = Some amount"
| "dr_loop amount (d # ds) =
     (if dr_Amount d \<le> 0 \<or> dr_Bypass d \<noteq> '''' then dr_loop amount ds
      else let a = i32 (amount - dr_Amount d) in if a \<le> 0 then None else dr_loop a ds)"

fun resist_loop :: "int \<Rightarrow> DamageType \<Rightarrow> Resist list \<Rightarrow> int" where
  "resist_loop amount dt [] = amount"
| "resist_loop amount dt (r # rs) =
     (if rs_Type r \<noteq> dt \<or> rs_Pct r = 0 then resist_loop amount dt rs
      else let adj = i64 (amount * (100 - rs_Pct r)) sdiv 100
           in resist_loop (i32 (if adj < 0 then 0 else adj)) dt rs)"

definition applyDamage :: "Core \<Rightarrow> int \<Rightarrow> DamageType \<Rightarrow> Core \<times> int" where
  "applyDamage target amount dt =
     (if amount \<le> 0 then (target, 0)
      else case dr_loop amount (c_DR target) of None \<Rightarrow> (target, 0)
        | Some a \<Rightarrow>
            let amount = resist_loop a dt (c_Resists target)
            in if amount \<le> 0 then (target, 0)
               else if dt = DamageSubdual then (target\<lparr>c_Subdual := i32 (c_Subdual target + amount)\<rparr>, amount)
               else (target\<lparr>c_HPCurrent := i32 (c_HPCurrent target - amount)\<rparr>, amount))"

section \<open>Iterative attacks\<close>

definition IterativeBonusesFor :: "int \<Rightarrow> int list" where
  "IterativeBonusesFor bab =
     (if bab \<ge> 16 then [0, - 5, - 10, - 15] else if bab \<ge> 11 then [0, - 5, - 10]
      else if bab \<ge> 6 then [0, - 5] else [0])"

section \<open>Properties of the rolls\<close>

lemma d20: "1 \<le> fst (Intn r 20) + 1 \<and> fst (Intn r 20) + 1 \<le> 20"
  using Intn_bounds [of 20 r] by simp

text \<open>The rules of the roll, with the defense of the defender written out.\<close>

definition defense_against :: "bool \<Rightarrow> Core \<Rightarrow> int" where
  "defense_against ff d = c_Defense d - (if ff then max 0 (DexMod (c_Abilities d)) else 0)"

definition beats :: "int \<Rightarrow> int \<Rightarrow> int \<Rightarrow> bool" where
  "beats k defense x \<longleftrightarrow> x = 19 \<or> x \<noteq> 0 \<and> defense \<le> x + 1 + k"

lemma effectiveDefense_exact:
  assumes "in_range 16 (c_Defense d)" "- 32768 \<le> c_Defense d - DexMod (c_Abilities d)"
  shows "effectiveDefense d ff = defense_against ff d"
  using assms by (auto simp: effectiveDefense_def defense_against_def Let_def in_range_16 i16_id)

lemma RollAttack_draws:
  fixes attacker defender :: Core and bonus x y :: int and ws :: WeaponStats
  assumes "0 \<le> x" "x < 20" "0 \<le> y" "y < 20" "effectiveDefense defender ff = D"
  defines "k \<equiv> c_BAB attacker + StrMod (c_Abilities attacker) + bonus"
  defines "threat \<equiv> beats k D x \<and> threatLow ws \<le> x + 1"
  shows "RollAttack (x # y # r) attacker defender ws ff bonus =
    (\<lparr>ar_Raw = x + 1, ar_Total = x + 1 + k, ar_Hit = beats k D x, ar_Threat = threat, ar_IsCrit = (threat \<and> beats k D y),
      ar_Fumble = (x = 0)\<rparr>, if threat then r else y # r)"
proof -
  have d: "Intn (x # s) 20 = (x, s)" "Intn (y # s) 20 = (y, s)" for s
    using assms(1-4) by (simp_all add: Intn_def)
  have h: "attack_hits (z + 1) (z + 1 + k) D = beats k D z" for z
    by (auto simp: attack_hits_def beats_def)
  have f: "(x + 1 = 1) = (x = 0)" by simp
  show ?thesis unfolding RollAttack_def d prod.case Let_def assms(5) k_def [symmetric] h f threat_def
    by (auto simp: assms(5))
qed

text \<open>The faces that beat a defense are the topmost ones; between one and nineteen of the twenty.\<close>

definition hit_faces :: "int \<Rightarrow> int \<Rightarrow> int" where
  "hit_faces k defense = max 1 (min 19 (21 + k - defense))"

lemma beats_faces: "{x \<in> {0..<20}. beats k D x} = {20 - hit_faces k D..<20}"
  by (auto simp: beats_def hit_faces_def max_def min_def)

lemma card_pairs: "int (card {(x, y). x \<in> {a..<b} \<and> y \<in> {c..<d}}) = max 0 (b - a) * max 0 (d - c)" for a b c d :: int
proof -
  have "{(x, y). x \<in> {a..<b} \<and> y \<in> {c..<d}} = {a..<b} \<times> {c..<d}" by auto
  then show ?thesis by (simp add: card_cartesian_product max_def)
qed

text \<open>C6: The attack roll follows its rules, and they fix its odds. Of a die and a confirmation die: the raw roll
  is the die and the total adds the modifiers; a natural 1 is the only fumble; a roll hits on a natural 20, never on a
  natural 1, and otherwise when the total reaches the defense, which for a flat-footed defender is lowered by
  a positive Dexterity modifier and never raised; a hit inside the threat range of the weapon is a threat, and only
  then the second die is drawn, which makes the hit critical when it beats the same defense by the same rule. So of the 400 pairs of
  dice exactly \<open>20 * h\<close> hit and \<open>min h (21 - low) * h\<close> are critical, where \<open>h\<close>, the number of faces that hit, is
  \<open>21 + k - defense\<close> kept between 1 and 19, and a flat-footed defender is never harder to hit.\<close>

theorem attack_odds:
  fixes attacker defender :: Core and ws :: WeaponStats and bonus k :: int and r :: rng and defense :: "bool \<Rightarrow> int"
  defines "k \<equiv> c_BAB attacker + StrMod (c_Abilities attacker) + bonus"
    and "defense \<equiv> \<lambda>ff. c_Defense defender - (if ff then max 0 (DexMod (c_Abilities defender)) else 0)"
    and "low \<equiv> if 1 \<le> ws_ThreatLow ws \<and> ws_ThreatLow ws \<le> 20 then ws_ThreatLow ws else 20"
    and "h \<equiv> \<lambda>ff. max 1 (min 19 (21 + k - defense ff))"
    and "roll \<equiv> \<lambda>ff x y. RollAttack (x # y # r) attacker defender ws ff bonus"
  assumes "in_range 16 (c_Defense defender)" "- 32768 \<le> c_Defense defender - DexMod (c_Abilities defender)"
  shows "(\<forall>x\<in>{0..<20}. \<forall>y\<in>{0..<20}.
       let a = fst (roll ff x y)
       in ar_Raw a = x + 1 \<and> ar_Total a = x + 1 + k \<and> ar_Fumble a = (x = 0)
          \<and> ar_Hit a = (x = 19 \<or> x \<noteq> 0 \<and> defense ff \<le> x + 1 + k)
          \<and> ar_Threat a = (ar_Hit a \<and> low \<le> x + 1)
          \<and> ar_IsCrit a = (ar_Threat a \<and> (y = 19 \<or> y \<noteq> 0 \<and> defense ff \<le> y + 1 + k))
          \<and> snd (roll ff x y) = (if ar_Threat a then r else y # r)
          \<and> (ar_Hit (fst (roll False x y)) \<longrightarrow> ar_Hit (fst (roll True x y))))
    \<and> int (card {(x, y). x \<in> {0..<20} \<and> y \<in> {0..<20} \<and> ar_Hit (fst (roll ff x y))}) = 20 * h ff
    \<and> int (card {(x, y). x \<in> {0..<20} \<and> y \<in> {0..<20} \<and> ar_IsCrit (fst (roll ff x y))}) = min (h ff) (21 - low) * h ff"
proof -
  have D: "effectiveDefense defender ff = defense ff" for ff
    using effectiveDefense_exact [OF assms(6,7)] by (simp add: defense_def defense_against_def)
  have low: "threatLow ws = low" "1 \<le> low" "low \<le> 20" by (auto simp: low_def threatLow_def)
  have h: "h ff = hit_faces k (defense ff)" "1 \<le> h ff" "h ff \<le> 19" for ff
    by (auto simp: h_def hit_faces_def)
  have roll: "fst (roll ff x y) = \<lparr>ar_Raw = x + 1, ar_Total = x + 1 + k, ar_Hit = beats k (defense ff) x,
      ar_Threat = (beats k (defense ff) x \<and> low \<le> x + 1),
      ar_IsCrit = ((beats k (defense ff) x \<and> low \<le> x + 1) \<and> beats k (defense ff) y), ar_Fumble = (x = 0)\<rparr>"
    "snd (roll ff x y) = (if beats k (defense ff) x \<and> low \<le> x + 1 then r else y # r)"
    if "x \<in> {0..<20}" "y \<in> {0..<20}" for ff x y
    using RollAttack_draws [where x = x and y = y and r = r and attacker = attacker and ws = ws and bonus = bonus,
        OF _ _ _ _ D [of ff]] that
    by (simp_all add: roll_def low(1) k_def [symmetric])
  have le: "defense True \<le> defense False" by (simp add: defense_def)
  have faces: "x \<in> {0..<20} \<and> beats k (defense ff) x \<longleftrightarrow> x \<in> {20 - h ff..<20}" for x ff
    using beats_faces [of k "defense ff"] unfolding h(1) by blast
  have "{(x, y). x \<in> {0..<20} \<and> y \<in> {0..<20} \<and> ar_Hit (fst (roll ff x y))}
      = {(x, y). x \<in> {20 - h ff..<20} \<and> y \<in> {0..<20}}"
    unfolding faces [symmetric] by (auto simp: roll)
  then have hits: "int (card {(x, y). x \<in> {0..<20} \<and> y \<in> {0..<20} \<and> ar_Hit (fst (roll ff x y))}) = 20 * h ff"
    using h(2) [of ff] card_pairs [of "20 - h ff" 20 0 20] by simp
  have "{(x, y). x \<in> {0..<20} \<and> y \<in> {0..<20} \<and> ar_IsCrit (fst (roll ff x y))}
      = {(x, y). (x \<in> {20 - h ff..<20} \<and> low \<le> x + 1) \<and> y \<in> {20 - h ff..<20}}"
    unfolding faces [symmetric] by (auto simp: roll)
  also have "\<dots> = {(x, y). x \<in> {max (20 - h ff) (low - 1)..<20} \<and> y \<in> {20 - h ff..<20}}" by auto
  finally have crits: "int (card {(x, y). x \<in> {0..<20} \<and> y \<in> {0..<20} \<and> ar_IsCrit (fst (roll ff x y))})
      = min (h ff) (21 - low) * h ff"
    using h(2) [of ff] low(2,3) card_pairs [of "max (20 - h ff) (low - 1)" 20 "20 - h ff" 20] by (simp add: max_def min_def)
  show ?thesis using hits crits le by (auto simp: roll beats_def Let_def)
qed

text \<open>A Dexterity of 14 against a bonus of 3: of the 400 pairs 200 hit a ready defender of defense 14, and 240 when it is
  flat-footed.\<close>

definition dodger :: Core where
  "dodger = zero_Core\<lparr>c_Defense := 14, c_Abilities := (c_Abilities zero_Core)\<lparr>ab_Dex := \<lparr>as_Current = 14, as_Max = 14, as_Inherent = 14\<rparr>\<rparr>\<rparr>"

theorem attack_odds_witness:
  "int (card {(x, y). x \<in> {0..<20} \<and> y \<in> {0..<20} \<and>
     ar_Hit (fst (RollAttack [x, y] (zero_Core\<lparr>c_BAB := 8\<rparr>) dodger unarmedDamage True 0))}) = 240"
proof -
  have m: "DexMod (c_Abilities dodger) = 2" "c_Defense dodger = 14" "StrMod (c_Abilities zero_Core) = - 5"
    by code_simp+
  have "in_range 16 (c_Defense dodger)" "- 32768 \<le> c_Defense dodger - DexMod (c_Abilities dodger)"
    by (simp_all add: m in_range_16)
  from attack_odds [where ff = True and r = "[]" and attacker = "zero_Core\<lparr>c_BAB := 8\<rparr>" and ws = unarmedDamage and bonus = 0,
    OF this] show ?thesis
    by (simp add: m)
qed

lemma roll_loop_bounds:
  "0 < m \<Longrightarrow> acc + int n \<le> fst (roll_loop n m r acc) \<and> fst (roll_loop n m r acc) \<le> acc + int n * m"
proof (induction n arbitrary: r acc)
  case (Suc n)
  have b: "0 \<le> fst (Intn r m) \<and> fst (Intn r m) < m" using Suc.prems by (rule Intn_bounds)
  from Suc.IH [OF Suc.prems, of "acc + (fst (Intn r m) + 1)" "snd (Intn r m)"] b
  show ?case by (simp add: split_beta Let_def algebra_simps)
qed simp

lemma bounded_int_range: "bounded_int lo hi s = Some n \<Longrightarrow> lo \<le> n \<and> n \<le> hi"
  by (auto simp: bounded_int_def split: option.splits if_splits)

lemma dice_modifier_range: "dice_modifier e = Some (k, x) \<Longrightarrow> - 10000 \<le> k \<and> k \<le> 10000"
  by (auto simp: dice_modifier_def split: option.splits if_splits dest: bounded_int_range)

lemma dice_sides_range: "dice_sides e = Some (n, m) \<Longrightarrow> 1 \<le> n \<and> n \<le> 100 \<and> 1 \<le> m \<and> m \<le> 1000"
  unfolding dice_sides_def by (auto split: option.splits if_splits dest!: bounded_int_range)

lemma parse_dice_ranges:
  assumes "parse_dice e = Some (flat, n, m)"
  shows "- 10000 \<le> flat \<and> flat \<le> 10000 \<and> 1 \<le> n \<and> n \<le> 100 \<and> 1 \<le> m \<and> m \<le> 1000"
proof -
  let ?e = "case index_of (\<lambda>c. c = CHR ''/'') (trim_space e) of None \<Rightarrow> trim_space e
    | Some i \<Rightarrow> take i (trim_space e)"
  obtain expr where "dice_modifier ?e = Some (flat, expr)" "dice_sides expr = Some (n, m)"
    using assms unfolding parse_dice_def Let_def by (auto split: if_splits option.splits)
  from dice_modifier_range [OF this(1)] dice_sides_range [OF this(2)] show ?thesis by simp
qed

text \<open>A dice expression that parses rolls inside its range: with \<open>n\<close> dice of \<open>m\<close> sides and the modifier
  \<open>k\<close>, between \<open>n + k\<close> and \<open>n * m + k\<close>, whatever the draws; and the result always fits an \<open>int32\<close>.\<close>

lemma rollDice_range:
  assumes "parse_dice e = Some (k, n, m)"
  shows "\<exists>s. fst (rollDice r e) = Some s \<and> n + k \<le> s \<and> s \<le> n * m + k \<and> in_range 32 s"
proof -
  note p = parse_dice_ranges [OF assms]
  from roll_loop_bounds [of m k "nat n" r] p
  have b: "k + n \<le> fst (roll_loop (nat n) m r k)" "fst (roll_loop (nat n) m r k) \<le> k + n * m" by auto
  moreover have "n * m \<le> 100 * 1000" using p by (intro mult_mono) auto
  ultimately have "in_range 32 (fst (roll_loop (nat n) m r k))" using p by (simp add: in_range_32)
  with b assms show ?thesis by (auto simp: rollDice_def split_beta Let_def)
qed

lemma feq_factors: "\<not> feq f_1_5 f_one" "\<not> feq f_0_6 f_one" "feq f_one f_one"
  by (simp_all add: feq_def f_1_5_def f_0_6_def)

lemma base_roll_bounds: "1 \<le> fst (base_roll r e) \<and> fst (base_roll r e) \<le> 110000"
proof (cases "parse_dice e")
  case None
  then show ?thesis using Intn_bounds [of 3 r] by (simp add: base_roll_def rollDice_def split_beta)
next
  case (Some t)
  obtain k n m where t: "t = (k, n, m)" by (cases t)
  note q = parse_dice_ranges [OF Some [unfolded t]]
  from roll_loop_bounds [of m k "nat n" r] q
  have "fst (roll_loop (nat n) m r k) \<le> k + n * m" by simp
  moreover have "n * m \<le> 100 * 1000" using q by (intro mult_mono) auto
  ultimately have s: "fst (roll_loop (nat n) m r k) \<le> 110000" using q by simp
  have e: "rollDice r e = (Some (fst (roll_loop (nat n) m r k)), snd (roll_loop (nat n) m r k))"
    by (simp add: rollDice_def Some t split_beta)
  show ?thesis
    using s Intn_bounds [of 3 "snd (roll_loop (nat n) m r k)"]
    by (simp add: base_roll_def e split_beta)
qed

lemma variant_damage_exact:
  assumes "1 \<le> N" "N \<le> 200000000"
  shows "variant_damage N v =
    (case v of VariantPower \<Rightarrow> 3 * N div 2 | VariantQuick \<Rightarrow> max 1 (3 * N div 5) | _ \<Rightarrow> N)"
proof (cases v)
  case VariantPower
  have "ftrunc (f64 (fmul (fof N) f_1_5)) = 3 * N div 2" using assms by (intro scale_1_5) auto
  moreover have "1 \<le> 3 * N div 2" using assms by linarith
  ultimately show ?thesis using VariantPower by (simp add: variant_damage_def feq_factors Let_def)
next
  case VariantQuick
  have "ftrunc (f64 (fmul (fof N) f_0_6)) = 3 * N div 5" using assms by (intro scale_0_6) auto
  with VariantQuick show ?thesis by (simp add: variant_damage_def feq_factors Let_def max_def)
qed (simp_all add: variant_damage_def feq_factors)

lemma variant_damage_small:
  assumes "1 \<le> N" "N \<le> 200000000"
  shows "1 \<le> variant_damage N v \<and> variant_damage N v \<le> MaxInt32"
proof -
  have "1 \<le> 3 * N div 2" "3 * N div 2 \<le> 300000000" "3 * N div 5 \<le> 300000000" using assms by linarith+
  then show ?thesis unfolding variant_damage_exact [OF assms] using assms by (cases v) auto
qed

lemma RollDamage_alt:
  assumes "in_range 8 (as_Current (ab_Str (c_Abilities a)))" "critMult ws \<le> 1000"
  shows "\<exists>N. 1 \<le> N \<and> N \<le> 200000000 \<and> (\<forall>v. fst (RollDamage r a ws crit v) = variant_damage N v)"
proof -
  obtain base r1 where b: "base_roll r (ws_Damage ws) = (base, r1)" by (cases "base_roll r (ws_Damage ws)")
  have p: "1 \<le> base" "base \<le> 110000" using base_roll_bounds [of r "ws_Damage ws"] by (simp_all add: b)
  define d1 where "d1 = (if base + StrMod (c_Abilities a) < 1 then 1 else base + StrMod (c_Abilities a))"
  have st: "StrMod (c_Abilities a) \<le> 58" using AbilityMod_le [OF assms(1)] by (simp add: StrMod_def)
  have d1: "1 \<le> d1" "d1 \<le> 110058" using p st by (auto simp: d1_def)
  define N where "N = (if crit then d1 * critMult ws else d1)"
  have c: "1 \<le> critMult ws" by (simp add: critMult_def)
  have "1 * 1 \<le> d1 * critMult ws" using d1 c by (intro mult_mono) auto
  moreover have "d1 * critMult ws \<le> 110058 * 1000" using d1 c assms(2) by (intro mult_mono) auto
  ultimately have N: "1 \<le> N" "N \<le> 200000000" and w: "i64 (d1 * critMult ws) = d1 * critMult ws"
    using d1 by (auto simp: N_def intro!: i64_id)
  have e: "(if crit then i64 (d1 * critMult ws) else d1) = N" by (simp add: N_def w)
  have n: "(if N < 1 then 1 else N) = N" using N by simp
  have "fst (RollDamage r a ws crit v) = variant_damage N v" for v
  proof -
    have "fst (RollDamage r a ws crit v) =
        i32 (if variant_damage N v > MaxInt32 then MaxInt32 else variant_damage N v)"
      unfolding RollDamage_def b Let_def prod.case d1_def [symmetric] e n by simp
    then show ?thesis using variant_damage_small [OF N, of v] by (simp add: i32_id)
  qed
  with N show ?thesis by blast
qed

text \<open>Damage is always at least one and fits \<open>int32\<close>, and the variants scale the same roll exactly in spite
  of the float factors: a power attack deals \<open>floor (3 n / 2)\<close> and a quick one \<open>max 1 (floor (3 n / 5))\<close>
  of what a normal attack with the same draws deals.\<close>

lemma RollDamage_variants:
  assumes "in_range 8 (as_Current (ab_Str (c_Abilities a)))" "critMult ws \<le> 1000"
  shows "let n = fst (RollDamage r a ws crit VariantNormal)
    in 1 \<le> n \<and> n \<le> 200000000
       \<and> fst (RollDamage r a ws crit VariantPower) = 3 * n div 2
       \<and> fst (RollDamage r a ws crit VariantQuick) = max 1 (3 * n div 5)"
proof -
  obtain N where N: "1 \<le> N" "N \<le> 200000000" "\<forall>v. fst (RollDamage r a ws crit v) = variant_damage N v"
    using RollDamage_alt [OF assms, of r crit] by blast
  then show ?thesis by (simp add: variant_damage_exact [OF N(1,2)] Let_def)
qed

end
