(* ===== verification/Progression.thy ===== *)
theory Progression
  imports Creature
begin

text \<open>
  The XP curve and the level-up computation of \<open>internal/progression\<close> (\<open>curve.go\<close>, \<open>levelup.go\<close>). The class
  catalog is the list \<open>Catalog.Classes()\<close> returns (\<open>None\<close> is the nil catalog); a \<open>ClassLevels\<close> map is an
  association list with distinct keys. Go \<open>int\<close> values here are small and written without the 64-bit
  wrap; every narrowing conversion of the source is written out.
\<close>

section \<open>The curve\<close>

definition MaxLevel :: int where "MaxLevel = 20"

definition XPForLevel :: "int \<Rightarrow> int" where
  "XPForLevel n =
     (if n \<le> 1 then 0
      else let n = (if n > MaxLevel then MaxLevel else n) in (1000 * n * (n - 1)) sdiv 2)"

text \<open>The loop counts \<open>n\<close> down to 2.\<close>

fun level_walk :: "int \<Rightarrow> int \<Rightarrow> int" where
  "level_walk xp n =
     (if n \<ge> 2 then (if xp \<ge> XPForLevel n then n else level_walk xp (n - 1)) else 1)"

definition LevelForXP :: "int \<Rightarrow> int" where
  "LevelForXP xp = (if xp \<le> 0 then 1 else level_walk xp MaxLevel)"

definition XPToNext :: "int \<Rightarrow> int \<times> int" where
  "XPToNext xp =
     (let level = LevelForXP xp
      in if level \<ge> MaxLevel then (level, 0)
         else let next = XPForLevel (level + 1)
              in if xp \<ge> next then (level, 0) else (level, next - xp))"

declare level_walk.simps [simp del]

section \<open>Level-up\<close>

record chargen_Class =
  cc_ID :: string
  cc_HitDie :: int
  cc_BAB :: string
  cc_SaveFort :: string
  cc_SaveRef :: string
  cc_SaveWill :: string
  cc_SkillPoints :: int
  cc_Channeler :: bool
  cc_Enum :: Class

type_synonym Catalog = "chargen_Class list"

definition AbilityModifier :: "int \<Rightarrow> int" where
  "AbilityModifier score =
     (let diff = score - 10
      in if diff < 0 \<and> diff smod 2 \<noteq> 0 then (diff - 1) sdiv 2 else diff sdiv 2)"

definition HPDelta :: "int \<Rightarrow> int \<Rightarrow> int" where
  "HPDelta hitDie0 conMod =
     (let hitDie = (if hitDie0 < 1 then 1 else hitDie0);
          avgUp = (if hitDie smod 2 = 1 then (hitDie + 1) sdiv 2 + 1 else hitDie sdiv 2 + 1);
          delta = avgUp + conMod
      in if delta < 1 then 1 else i32 delta)"

definition babPerClass :: "string \<Rightarrow> int \<Rightarrow> int" where
  "babPerClass prog n =
     (if n \<le> 0 then 0
      else if prog = ''high'' then n
      else if prog = ''medium'' then (n * 3) sdiv 4
      else if prog = ''low'' then n sdiv 2
      else 0)"

definition savePerClass :: "string \<Rightarrow> int \<Rightarrow> int" where
  "savePerClass prog n =
     (if n \<le> 0 then 0 else if prog = ''high'' then 2 + n sdiv 2 else n sdiv 3)"

fun classByEnum :: "Catalog \<Rightarrow> Class \<Rightarrow> chargen_Class option" where
  "classByEnum [] k = None"
| "classByEnum (c # cs) k = (if cc_Enum c = k then Some c else classByEnum cs k)"

fun bab_loop :: "Catalog \<Rightarrow> int \<Rightarrow> (Class \<times> int) list \<Rightarrow> int" where
  "bab_loop cat tot [] = tot"
| "bab_loop cat tot ((k, n) # ls) =
     (case classByEnum cat k of None \<Rightarrow> bab_loop cat tot ls
      | Some cl \<Rightarrow> bab_loop cat (tot + babPerClass (cc_BAB cl) n) ls)"

definition BABTotal :: "(Class \<times> int) list \<Rightarrow> Catalog option \<Rightarrow> int" where
  "BABTotal levels cat0 = (case cat0 of None \<Rightarrow> 0 | Some cat \<Rightarrow> i16 (bab_loop cat 0 levels))"

fun save_loop :: "Catalog \<Rightarrow> (chargen_Class \<Rightarrow> string) \<Rightarrow> int \<Rightarrow> (Class \<times> int) list \<Rightarrow> int" where
  "save_loop cat pick base [] = base"
| "save_loop cat pick base ((k, n) # ls) =
     (case classByEnum cat k of None \<Rightarrow> save_loop cat pick base ls
      | Some cl \<Rightarrow> save_loop cat pick (base + savePerClass (pick cl) n) ls)"

definition SaveTotal ::
    "(Class \<times> int) list \<Rightarrow> Catalog option \<Rightarrow> (chargen_Class \<Rightarrow> string) \<Rightarrow> int \<Rightarrow> int" where
  "SaveTotal levels cat0 pick abilityMod =
     (case cat0 of None \<Rightarrow> i16 abilityMod
      | Some cat \<Rightarrow> i16 (save_loop cat pick 0 levels + abilityMod))"

record LevelGains =
  lg_NewHPCurrent :: int
  lg_NewHPMax :: int
  lg_NewBAB :: int
  lg_NewSaves :: Saves
  lg_ClassLevels :: "(Class \<times> int) list"
  lg_HPDelta :: int
  lg_NewLevel :: int
  lg_FeatDelta :: int
  lg_SkillDelta :: int
  lg_AbilityDelta :: int
  lg_WeaveDelta :: int
  lg_PracticeDelta :: int

datatype levelup_error = ErrUnknownClass

definition ComputeLevelUp ::
    "Core \<Rightarrow> (Class \<times> int) list \<Rightarrow> Catalog option \<Rightarrow> Class \<Rightarrow> levelup_error + LevelGains" where
  "ComputeLevelUp core levels cat0 classKey =
     (case cat0 of None \<Rightarrow> Inl ErrUnknownClass
      | Some cat \<Rightarrow>
          (case classByEnum cat classKey of None \<Rightarrow> Inl ErrUnknownClass
           | Some cl \<Rightarrow>
               let newLevels = map_put classKey (i8 (map_get levels classKey 0 + 1)) levels;
                   ab = c_Abilities core;
                   conMod = AbilityModifier (as_Current (ab_Con ab));
                   dexMod = AbilityModifier (as_Current (ab_Dex ab));
                   wisMod = AbilityModifier (as_Current (ab_Wis ab));
                   intMod = AbilityModifier (as_Current (ab_Int ab));
                   hpDelta = HPDelta (cc_HitDie cl) conMod;
                   newMax = i32 (c_HPMax core + hpDelta);
                   newCur0 = i32 (c_HPCurrent core + hpDelta);
                   newCur = (if newCur0 > newMax then newMax else newCur0);
                   newLevel = map_get newLevels classKey 0;
                   skill0 = i32 (i32 (cc_SkillPoints cl) + i32 intMod)
               in Inr \<lparr>lg_NewHPCurrent = newCur, lg_NewHPMax = newMax,
                    lg_NewBAB = BABTotal newLevels cat0,
                    lg_NewSaves = \<lparr>sv_Fort = SaveTotal newLevels cat0 cc_SaveFort conMod,
                      sv_Ref = SaveTotal newLevels cat0 cc_SaveRef dexMod,
                      sv_Will = SaveTotal newLevels cat0 cc_SaveWill wisMod\<rparr>,
                    lg_ClassLevels = newLevels, lg_HPDelta = hpDelta, lg_NewLevel = newLevel,
                    lg_FeatDelta = (if newLevel smod 3 = 0 then 1 else 0),
                    lg_SkillDelta = (if skill0 < 1 then 1 else skill0),
                    lg_AbilityDelta = (if newLevel smod 4 = 0 then 1 else 0),
                    lg_WeaveDelta = (if cc_Channeler cl then 1 else 0),
                    lg_PracticeDelta = 1\<rparr>))"

section \<open>Properties of the curve\<close>

lemma XPForLevel_pos: "1 \<le> n \<Longrightarrow> n \<le> 20 \<Longrightarrow> XPForLevel n = 500 * (n * (n - 1))"
  by (auto simp: XPForLevel_def MaxLevel_def sdiv_nonneg Let_def)

lemma XPForLevel_mono: "m \<le> n \<Longrightarrow> n \<le> 20 \<Longrightarrow> XPForLevel m \<le> XPForLevel n"
proof (cases "1 \<le> m")
  case True
  assume h: "m \<le> n" "n \<le> 20"
  have "m * (m - 1) \<le> n * (n - 1)" using True h by (intro mult_mono) auto
  then show ?thesis using True h by (simp add: XPForLevel_pos)
next
  case False
  assume "n \<le> 20"
  with False show ?thesis
    using XPForLevel_pos [of n] by (cases "1 \<le> n") (auto simp: XPForLevel_def)
qed

lemma level_walk_le: "1 \<le> n \<Longrightarrow> level_walk xp n \<le> n"
proof (induction xp n rule: level_walk.induct)
  case (1 xp n)
  then show ?case by (cases "2 \<le> n \<and> \<not> XPForLevel n \<le> xp") (auto simp: level_walk.simps [of xp n])
qed

lemma level_walk_ge:
  "1 \<le> n \<Longrightarrow> n \<le> m \<Longrightarrow> m \<le> 20 \<Longrightarrow> n \<le> level_walk xp m \<longleftrightarrow> n = 1 \<or> XPForLevel n \<le> xp"
proof (induction xp m rule: level_walk.induct)
  case (1 xp m)
  show ?case
  proof (cases "2 \<le> m \<and> \<not> XPForLevel m \<le> xp")
    case True
    then have w: "level_walk xp m = level_walk xp (m - 1)" by (simp add: level_walk.simps [of xp m])
    show ?thesis
    proof (cases "n = m")
      case True2: True
      have "\<not> n \<le> level_walk xp (m - 1)" using True True2 level_walk_le [of "m - 1" xp] by simp
      with True True2 w show ?thesis by auto
    next
      case False
      with 1 True w show ?thesis by auto
    qed
  next
    case False
    then have "level_walk xp m = (if 2 \<le> m then m else 1)" by (auto simp: level_walk.simps [of xp m])
    with False 1 show ?thesis
      using XPForLevel_mono [of n m] by auto
  qed
qed

text \<open>\<open>LevelForXP\<close> inverts the curve: for each level \<open>n\<close> of the table, a character is at level \<open>n\<close> or
  above exactly when the total XP reaches \<open>XPForLevel n\<close> (level 1 always).\<close>

lemma LevelForXP_inverts:
  assumes "1 \<le> n" "n \<le> MaxLevel"
  shows "n \<le> LevelForXP xp \<longleftrightarrow> n = 1 \<or> XPForLevel n \<le> xp"
proof (cases "xp \<le> 0")
  case True
  have "n = 1" if "XPForLevel n \<le> xp"
  proof (rule ccontr)
    assume "n \<noteq> 1"
    with assms have n: "2 \<le> n" by simp
    then have "1 * 1 \<le> n * (n - 1)" by (intro mult_mono) auto
    with that True assms n show False by (simp add: XPForLevel_pos MaxLevel_def)
  qed
  with True assms show ?thesis by (auto simp: LevelForXP_def)
next
  case False
  with assms show ?thesis using level_walk_ge [of n MaxLevel xp] by (simp add: LevelForXP_def MaxLevel_def)
qed

text \<open>\<open>XPToNext\<close> promises the exact gap: below the cap, earning the reported XP reaches the next level,
  and earning any smaller amount (of at least zero) does not change the level.\<close>

lemma XPToNext_exact:
  assumes "LevelForXP xp < MaxLevel" "0 \<le> xp"
  shows "LevelForXP (xp + snd (XPToNext xp)) = LevelForXP xp + 1
    \<and> (\<forall>d. 0 \<le> d \<longrightarrow> d < snd (XPToNext xp) \<longrightarrow> LevelForXP (xp + d) = LevelForXP xp)"
proof -
  let ?l = "LevelForXP xp"
  have l1: "1 \<le> ?l" using LevelForXP_inverts [of 1 xp] by (simp add: MaxLevel_def)
  have hi: "LevelForXP x \<le> MaxLevel" for x
    using level_walk_le [of MaxLevel x] by (simp add: LevelForXP_def MaxLevel_def)
  have n: "1 \<le> ?l + 1" "?l + 1 \<le> MaxLevel" "?l + 1 \<noteq> 1" using l1 assms(1) by simp_all
  have nx: "\<not> XPForLevel (?l + 1) \<le> xp" using LevelForXP_inverts [OF n(1,2), of xp] n(3) by simp
  then have s: "snd (XPToNext xp) = XPForLevel (?l + 1) - xp"
    using assms(1) by (simp add: XPToNext_def Let_def)
  have up: "LevelForXP (xp + d) \<le> ?l" if "d < snd (XPToNext xp)" for d
    using LevelForXP_inverts [OF n(1,2), of "xp + d"] n(3) that s by simp
  have lo: "?l \<le> LevelForXP (xp + d)" if "0 \<le> d" for d
  proof -
    have "?l = 1 \<or> XPForLevel ?l \<le> xp" using LevelForXP_inverts [of ?l xp] l1 hi by simp
    then show ?thesis using LevelForXP_inverts [of ?l "xp + d"] l1 hi [of xp] that by auto
  qed
  have "LevelForXP (XPForLevel (?l + 1)) = ?l + 1"
  proof (cases "?l + 1 = MaxLevel")
    case True
    then show ?thesis
      using LevelForXP_inverts [OF n(1,2), of "XPForLevel (?l + 1)"] hi [of "XPForLevel (?l + 1)"] by simp
  next
    case False
    with n have b: "1 \<le> ?l + 2" "?l + 2 \<le> MaxLevel" by simp_all
    have "XPForLevel (?l + 1) < XPForLevel (?l + 2)"
      using l1 b by (simp add: XPForLevel_pos MaxLevel_def algebra_simps)
    then have "\<not> ?l + 2 \<le> LevelForXP (XPForLevel (?l + 1))"
      using LevelForXP_inverts [OF b, of "XPForLevel (?l + 1)"] l1 by simp
    moreover have "?l + 1 \<le> LevelForXP (XPForLevel (?l + 1))"
      using LevelForXP_inverts [OF n(1,2), of "XPForLevel (?l + 1)"] by simp
    ultimately show ?thesis by simp
  qed
  then show ?thesis using s up lo by (simp add: order_antisym)
qed

section \<open>Properties of the level-up\<close>

lemma AbilityModifier_floor: "AbilityModifier s = (s - 10) div 2"
proof (cases "10 \<le> s")
  case True
  then show ?thesis by (simp add: AbilityModifier_def sdiv_nonneg smod_nonneg Let_def)
next
  case False
  let ?d = "s - 10"
  have d: "?d < 0" using False by simp
  have sd: "?d sdiv 2 = - (- ?d div 2)" "(?d - 1) sdiv 2 = - (- (?d - 1) div 2)"
    "?d smod 2 = - (- ?d mod 2)"
    using d by (simp_all add: signed_divide_int_def signed_modulo_int_def sgn_if)
  show ?thesis unfolding AbilityModifier_def Let_def sd using d by presburger
qed

text \<open>What one class contributes to the base attack bonus, and the sum the loop computes.\<close>

definition bab_of :: "Catalog \<Rightarrow> Class \<times> int \<Rightarrow> int" where
  "bab_of cat e = (case classByEnum cat (fst e) of None \<Rightarrow> 0 | Some cl \<Rightarrow> babPerClass (cc_BAB cl) (snd e))"

lemma bab_loop_sum: "bab_loop cat tot ls = tot + sum_list (map (bab_of cat) ls)"
  by (induction cat tot ls rule: bab_loop.induct) (auto simp: bab_of_def split: option.splits)

lemma babPerClass_step:
  "0 \<le> n \<Longrightarrow> babPerClass p n \<le> babPerClass p (n + 1) \<and> babPerClass p (n + 1) \<le> babPerClass p n + 1"
  by (cases "n = 0") (auto simp: babPerClass_def sdiv_nonneg)

lemma babPerClass_bounds: "0 \<le> n \<Longrightarrow> 0 \<le> babPerClass p n \<and> babPerClass p n \<le> n"
  by (auto simp: babPerClass_def sdiv_nonneg)

lemma distinct_classes_length: "distinct (ks :: Class list) \<Longrightarrow> length ks \<le> 7"
proof -
  assume d: "distinct ks"
  have "set ks \<subseteq> set [ClassAlgaiDSiswai, ClassArmsman, ClassInitiate, ClassNoble, ClassWanderer,
      ClassWilder, ClassWoodsman]"
  proof
    fix k show "k \<in> set [ClassAlgaiDSiswai, ClassArmsman, ClassInitiate, ClassNoble, ClassWanderer,
      ClassWilder, ClassWoodsman]" by (cases k) simp_all
  qed
  from card_mono [OF _ this] have "card (set ks) \<le> 7" by simp
  with d show ?thesis by (simp add: distinct_card)
qed

lemma bab_sum_bounds:
  assumes "distinct (keys ls)" "\<forall>(k, n) \<in> set ls. 0 \<le> n \<and> n \<le> 127"
  shows "0 \<le> sum_list (map (bab_of cat) ls) \<and> sum_list (map (bab_of cat) ls) \<le> 889"
proof -
  have b: "0 \<le> bab_of cat e \<and> bab_of cat e \<le> 127" if "e \<in> set ls" for e
  proof -
    have "0 \<le> snd e" "snd e \<le> 127" using assms(2) that by auto
    with babPerClass_bounds [of "snd e"] show ?thesis
      by (auto simp: bab_of_def split: option.splits intro: order.trans)
  qed
  have "0 \<le> sum_list (map (bab_of cat) ls)" using b by (intro sum_list_nonneg) auto
  moreover have "sum_list (map (bab_of cat) ls) \<le> sum_list (map (\<lambda>_. 127) ls)"
    using b by (intro sum_list_mono) auto
  ultimately show ?thesis
    using distinct_classes_length [OF assms(1)] by (simp add: sum_list_triv)
qed

lemma bab_put:
  assumes "distinct (keys ls)" "0 \<le> map_get ls k 0"
  shows "sum_list (map (bab_of cat) (map_put k (map_get ls k 0 + 1) ls))
    \<in> {sum_list (map (bab_of cat) ls) .. sum_list (map (bab_of cat) ls) + 1}"
proof (cases "map_of ls k")
  case None
  then have "map_put k 1 ls = ls @ [(k, 1)]" by (intro map_put_fresh) (simp add: map_of_eq_None_iff)
  moreover have "0 \<le> bab_of cat (k, 1) \<and> bab_of cat (k, 1) \<le> 1"
    using babPerClass_bounds [of 1] by (auto simp: bab_of_def split: option.splits)
  ultimately show ?thesis using None by (simp add: map_get_def)
next
  case (Some u)
  then have g: "map_get ls k 0 = u" by (simp add: map_get_def)
  obtain xs ys where "ls = xs @ (k, u) # ys" "map_put k (u + 1) ls = xs @ (k, u + 1) # ys"
    using map_put_split [OF Some assms(1), of "u + 1"] by blast
  moreover have "bab_of cat (k, u) \<le> bab_of cat (k, u + 1) \<and> bab_of cat (k, u + 1) \<le> bab_of cat (k, u) + 1"
    using babPerClass_step [of u] assms(2) g by (auto simp: bab_of_def split: option.splits)
  ultimately show ?thesis unfolding g by simp
qed

text \<open>A level-up of a known class never costs anything: maximum HP grows by at least one, current HP
  grows by the same amount (the wounds stay), the base attack bonus grows by zero or one, the class level
  by exactly one with every other class kept, and at least one skill point is granted.\<close>

lemma ComputeLevelUp_gains:
  assumes "ComputeLevelUp core levels (Some cat) k = Inr g"
    and "distinct (keys levels)" "\<forall>(c, n) \<in> set levels. 0 \<le> n \<and> n < 127"
    and "0 \<le> c_HPCurrent core" "c_HPCurrent core \<le> c_HPMax core" "c_HPMax core \<le> 1000000"
    and "in_range 8 (as_Current (ab_Con (c_Abilities core)))"
    and "\<forall>cl \<in> set cat. cc_HitDie cl \<le> 1000"
  shows "1 \<le> lg_HPDelta g \<and> lg_NewHPMax g = c_HPMax core + lg_HPDelta g
    \<and> lg_NewHPCurrent g = c_HPCurrent core + lg_HPDelta g
    \<and> lg_NewBAB g \<in> {BABTotal levels (Some cat) .. BABTotal levels (Some cat) + 1}
    \<and> map_of (lg_ClassLevels g) = (map_of levels)(k \<mapsto> map_get levels k 0 + 1)
    \<and> 1 \<le> lg_SkillDelta g"
proof -
  obtain cl where cl: "classByEnum cat k = Some cl"
    using assms(1) by (auto simp: ComputeLevelUp_def split: option.splits)
  have mem: "classByEnum cat k = Some c \<Longrightarrow> c \<in> set cat" for c
    by (induction cat k rule: classByEnum.induct) (auto split: if_splits)
  let ?con = "AbilityModifier (as_Current (ab_Con (c_Abilities core)))"
  have con: "- 69 \<le> ?con" "?con \<le> 58"
    using assms(7) unfolding AbilityModifier_floor in_range_8 by linarith+
  let ?lv = "map_get levels k 0"
  have lv: "0 \<le> ?lv" "?lv < 127"
    using assms(3) map_of_SomeD [of levels k] by (auto simp: map_get_def split: option.splits)
  let ?nl = "map_put k (?lv + 1) levels"
  have i8: "i8 (?lv + 1) = ?lv + 1" using lv by (simp add: i8_id)
  have hd: "cc_HitDie cl \<le> 1000" using assms(8) mem [OF cl] by blast
  have d1: "1 \<le> HPDelta (cc_HitDie cl) ?con \<and> HPDelta (cc_HitDie cl) ?con \<le> 2000"
  proof -
    let ?h = "if cc_HitDie cl < 1 then 1 else cc_HitDie cl"
    let ?a = "if ?h smod 2 = 1 then (?h + 1) sdiv 2 + 1 else ?h sdiv 2 + 1"
    have "0 \<le> ?a \<and> ?a \<le> 600" using hd by (auto simp: sdiv_nonneg)
    with con show ?thesis unfolding HPDelta_def Let_def by (auto simp: i32_id)
  qed
  have nd: "distinct (keys ?nl)" using assms(2) by simp
  have b0: "\<forall>(c, n) \<in> set levels. 0 \<le> n \<and> n \<le> 127" using assms(3) by auto
  have sub: "set (map_put k' v m) \<subseteq> insert (k', v) (set m)" for k' :: Class and v :: int and m
    by (induction m) auto
  have b1: "\<forall>(c, n) \<in> set ?nl. 0 \<le> n \<and> n \<le> 127"
    using b0 lv sub [of k "?lv + 1" levels] by auto
  have tot: "BABTotal levels (Some cat) = sum_list (map (bab_of cat) levels)"
    "BABTotal ?nl (Some cat) = sum_list (map (bab_of cat) ?nl)"
    using bab_sum_bounds [OF assms(2) b0, of cat] bab_sum_bounds [OF nd b1, of cat]
    by (simp_all add: BABTotal_def bab_loop_sum i16_id)
  have bab: "BABTotal ?nl (Some cat) \<in> {BABTotal levels (Some cat) .. BABTotal levels (Some cat) + 1}"
    unfolding tot using bab_put [OF assms(2) lv(1), of cat] .
  show ?thesis
    using assms(1) cl d1 bab assms(4-6) by (auto simp: ComputeLevelUp_def Let_def i8 i32_id)
qed

definition sample_class :: chargen_Class where
  "sample_class = \<lparr>cc_ID = ''armsman'', cc_HitDie = 10, cc_BAB = ''high'', cc_SaveFort = ''high'',
     cc_SaveRef = ''low'', cc_SaveWill = ''low'', cc_SkillPoints = 2, cc_Channeler = False,
     cc_Enum = ClassArmsman\<rparr>"

definition sample_core :: Core where
  "sample_core = zero_Core\<lparr>c_HPCurrent := 4, c_HPMax := 12,
     c_Abilities := zero_Abilities\<lparr>ab_Con := \<lparr>as_Current = 14, as_Max = 14, as_Inherent = 0\<rparr>\<rparr>\<rparr>"

end
