(* ===== verification/CharacterRepo.thy ===== *)
theory CharacterRepo
  imports Currency Progression
begin

text \<open>
  The character store: the row type of \<open>internal/repo/character.go\<close> and the in-memory implementation of the
  repository interface (\<open>internal/repo/character_memory.go\<close>). The map \<open>byLower\<close> is an association list keyed
  by the lower-case name; times are \<open>int\<close> nanoseconds with 0 for the zero time. A Go loop over the map that
  stops at the row with the id is \<open>record_at\<close>. Defensive copies are the identity on values. The theory
  shows that it satisfies the row contract (locale \<open>row_store\<close> of the prelude), the invariant every operation keeps, and the
  optimistic-concurrency guarantee of \<open>RecordCoin\<close>.
\<close>

section \<open>Rows\<close>

datatype Source = SourceSaidin | SourceSaidar

datatype ChannelerType = ChannelerInitiate | ChannelerWilder

record SlotPool =
  slp_Cur :: int
  slp_Max :: int

record Channeling =
  chn_GenderSource :: Source
  chn_ChannelerType :: ChannelerType
  chn_Affinities :: "8 word"
  chn_WeavesKnownIDs :: "string list"
  chn_Slots :: "SlotPool list"
  chn_LastSlotRefreshAt :: int
  chn_Embraced :: bool
  chn_EmbracedSince :: int
  chn_Madness :: int
  chn_Stilled :: bool

record SkillRanks =
  skr_Ranks :: int
  skr_IsClassSkill :: bool

record QuestProgress =
  qp_QuestID :: string
  qp_StepIndex :: int
  qp_StateJSON :: string
  qp_CompletedAt :: int

text \<open>The fields of the row that an operation reads or writes.\<close>

record Character =
  ch_ID :: int
  ch_AccountID :: int
  ch_Name :: string
  ch_NameLower :: string
  ch_LastPlayedAt :: "int option"
  ch_CurrentRoomID :: int
  ch_Core :: Core
  ch_Race :: Race
  ch_ClassLevels :: "(Class \<times> int) list"
  ch_XP :: int
  ch_PracticePoints :: int
  ch_Coin :: Amount
  ch_BankBalance :: Amount
  ch_CoinVersion :: int
  ch_BoundRoomID :: int
  ch_PromptTemplate :: string
  ch_LastNewsSeen :: int
  ch_Feats :: "int list"
  ch_Skills :: "(int \<times> SkillRanks) list"
  ch_QuestLog :: "QuestProgress list"
  ch_Equipment :: Equipment
  ch_Inventory :: "int list"
  ch_SkillCooldowns :: "(int \<times> int) list"
  ch_ChannelSettings :: "(string \<times> bool) list"
  ch_Channeling :: "Channeling option"
  ch_PvP :: bool
  ch_PendingFeats :: int
  ch_PendingSkillPoints :: int
  ch_PendingAbilityBumps :: int
  ch_PendingWeaves :: int
  ch_XPDebt :: int
  ch_AuthLevel :: int

definition AuthLevelAdmin :: int where "AuthLevelAdmin = 2"
definition AuthLevelMax :: int where "AuthLevelMax = AuthLevelAdmin"
definition StarterRoomID :: int where "StarterRoomID = 1"

datatype repo_error = ErrCharacterNotFound | ErrDuplicateCharacterName | ErrCoinConflict | ErrNotChanneler

section \<open>The store\<close>

record MemoryCharacterRepo =
  mr_nextID :: int
  mr_byLower :: "(string \<times> Character) list"

definition NewMemoryCharacterRepo :: MemoryCharacterRepo where
  "NewMemoryCharacterRepo = \<lparr>mr_nextID = 0, mr_byLower = []\<rparr>"

definition repo_Create ::
    "MemoryCharacterRepo \<Rightarrow> int \<Rightarrow> Character \<Rightarrow> MemoryCharacterRepo \<times> (repo_error + Character)" where
  "repo_Create r now c0 =
     (let low = to_lower (ch_Name c0)
      in if map_of (mr_byLower r) low \<noteq> None then (r, Inl ErrDuplicateCharacterName)
         else
           let nid = i64 (mr_nextID r + 1);
               c = c0\<lparr>ch_NameLower := low,
                     ch_AuthLevel := (if mr_byLower r = [] then AuthLevelAdmin else ch_AuthLevel c0),
                     ch_ID := nid,
                     ch_CurrentRoomID := (if ch_CurrentRoomID c0 = 0 then StarterRoomID else ch_CurrentRoomID c0),
                     ch_BoundRoomID := (if ch_BoundRoomID c0 = 0 then StarterRoomID else ch_BoundRoomID c0)\<rparr>
           in (\<lparr>mr_nextID = nid, mr_byLower = map_put low c (mr_byLower r)\<rparr>, Inr c))"

definition repo_FindByName :: "MemoryCharacterRepo \<Rightarrow> string \<Rightarrow> repo_error + Character" where
  "repo_FindByName r name =
     (case map_of (mr_byLower r) (to_lower name) of None \<Rightarrow> Inl ErrCharacterNotFound | Some c \<Rightarrow> Inr c)"

fun get_row :: "(string \<times> Character) list \<Rightarrow> int \<Rightarrow> Character option" where
  "get_row [] i = None"
| "get_row ((k, c) # rs) i = (if ch_ID c = i then Some c else get_row rs i)"

definition repo_GetByID :: "MemoryCharacterRepo \<Rightarrow> int \<Rightarrow> repo_error + Character" where
  "repo_GetByID r i =
     (case get_row (mr_byLower r) i of None \<Rightarrow> Inl ErrCharacterNotFound | Some c \<Rightarrow> Inr c)"

text \<open>The loop of every \<open>Record\<close> operation: the first row with the id is updated in place, or refused.\<close>

fun put_row :: "(string \<times> Character) list \<Rightarrow> int \<Rightarrow> Character \<Rightarrow> (string \<times> Character) list" where
  "put_row [] i d = []"
| "put_row ((k, c) # rs) i d = (if ch_ID c = i then (k, d) # rs else (k, c) # put_row rs i d)"

definition record_at ::
    "MemoryCharacterRepo \<Rightarrow> int \<Rightarrow> (Character \<Rightarrow> repo_error + Character) \<Rightarrow>
       MemoryCharacterRepo \<times> repo_error option" where
  "record_at r i f =
     (case get_row (mr_byLower r) i of
        None \<Rightarrow> (r, Some ErrCharacterNotFound)
      | Some c \<Rightarrow>
          (case f c of Inl e \<Rightarrow> (r, Some e)
           | Inr d \<Rightarrow> (r\<lparr>mr_byLower := put_row (mr_byLower r) i d\<rparr>, None)))"

type_synonym repo_write = "MemoryCharacterRepo \<times> repo_error option"

definition repo_RecordPlay :: "MemoryCharacterRepo \<Rightarrow> int \<Rightarrow> int \<Rightarrow> repo_write" where
  "repo_RecordPlay r i t = record_at r i (\<lambda>c. Inr (c\<lparr>ch_LastPlayedAt := Some t\<rparr>))"

definition repo_RecordRoom :: "MemoryCharacterRepo \<Rightarrow> int \<Rightarrow> int \<Rightarrow> repo_write" where
  "repo_RecordRoom r i room = record_at r i (\<lambda>c. Inr (c\<lparr>ch_CurrentRoomID := room\<rparr>))"

definition repo_RecordBoundRoom :: "MemoryCharacterRepo \<Rightarrow> int \<Rightarrow> int \<Rightarrow> repo_write" where
  "repo_RecordBoundRoom r i room = record_at r i (\<lambda>c. Inr (c\<lparr>ch_BoundRoomID := room\<rparr>))"

definition repo_RecordChannelSettings ::
    "MemoryCharacterRepo \<Rightarrow> int \<Rightarrow> (string \<times> bool) list \<Rightarrow> repo_write" where
  "repo_RecordChannelSettings r i s = record_at r i (\<lambda>c. Inr (c\<lparr>ch_ChannelSettings := s\<rparr>))"

definition repo_RecordCore ::
    "MemoryCharacterRepo \<Rightarrow> int \<Rightarrow> int \<Rightarrow> int \<Rightarrow> Condition \<Rightarrow> PositionFlags \<Rightarrow> repo_write" where
  "repo_RecordCore r i hp subdual cond pos =
     record_at r i (\<lambda>c. Inr (c\<lparr>ch_Core := (ch_Core c)\<lparr>c_HPCurrent := hp, c_Subdual := subdual,
       c_Conditions := cond, c_Position := pos\<rparr>\<rparr>))"

definition repo_RecordHP :: "MemoryCharacterRepo \<Rightarrow> int \<Rightarrow> int \<Rightarrow> int \<Rightarrow> repo_write" where
  "repo_RecordHP r i hp subdual =
     record_at r i (\<lambda>c. Inr (c\<lparr>ch_Core := (ch_Core c)\<lparr>c_HPCurrent := hp, c_Subdual := subdual\<rparr>\<rparr>))"

definition repo_RecordStamina :: "MemoryCharacterRepo \<Rightarrow> int \<Rightarrow> int \<Rightarrow> repo_write" where
  "repo_RecordStamina r i cur =
     record_at r i (\<lambda>c. Inr (c\<lparr>ch_Core := (ch_Core c)\<lparr>c_StaminaCurrent := cur\<rparr>\<rparr>))"

definition repo_RecordInventory :: "MemoryCharacterRepo \<Rightarrow> int \<Rightarrow> int list \<Rightarrow> repo_write" where
  "repo_RecordInventory r i ids = record_at r i (\<lambda>c. Inr (c\<lparr>ch_Inventory := ids\<rparr>))"

definition repo_RecordEquipment :: "MemoryCharacterRepo \<Rightarrow> int \<Rightarrow> Equipment \<Rightarrow> repo_write" where
  "repo_RecordEquipment r i eq = record_at r i (\<lambda>c. Inr (c\<lparr>ch_Equipment := eq\<rparr>))"

definition coin_write :: "Amount \<Rightarrow> Amount \<Rightarrow> int \<Rightarrow> Character \<Rightarrow> repo_error + Character" where
  "coin_write coin bank expected c =
     (if ch_CoinVersion c \<noteq> expected then Inl ErrCoinConflict
      else Inr (c\<lparr>ch_Coin := coin, ch_BankBalance := bank, ch_CoinVersion := i64 (ch_CoinVersion c + 1)\<rparr>))"

definition repo_RecordCoin ::
    "MemoryCharacterRepo \<Rightarrow> int \<Rightarrow> Amount \<Rightarrow> Amount \<Rightarrow> int \<Rightarrow> repo_write" where
  "repo_RecordCoin r i coin bank expected = record_at r i (coin_write coin bank expected)"

definition repo_RecordXP :: "MemoryCharacterRepo \<Rightarrow> int \<Rightarrow> int \<Rightarrow> repo_write" where
  "repo_RecordXP r i xp = record_at r i (\<lambda>c. Inr (c\<lparr>ch_XP := xp\<rparr>))"

definition repo_RecordXPDebt :: "MemoryCharacterRepo \<Rightarrow> int \<Rightarrow> int \<Rightarrow> repo_write" where
  "repo_RecordXPDebt r i debt = record_at r i (\<lambda>c. Inr (c\<lparr>ch_XPDebt := debt\<rparr>))"

definition repo_RecordPromptTemplate :: "MemoryCharacterRepo \<Rightarrow> int \<Rightarrow> string \<Rightarrow> repo_write" where
  "repo_RecordPromptTemplate r i t = record_at r i (\<lambda>c. Inr (c\<lparr>ch_PromptTemplate := t\<rparr>))"

record LevelUpFields =
  luf_ClassLevels :: "(Class \<times> int) list"
  luf_HPCurrent :: int
  luf_HPMax :: int
  luf_BAB :: int
  luf_Saves :: Saves
  luf_PendingFeatsDelta :: int
  luf_PendingSkillPointsDelta :: int
  luf_PendingAbilityBumpsDelta :: int
  luf_PendingWeavesDelta :: int
  luf_PracticePointsDelta :: int

definition repo_RecordLevelUp :: "MemoryCharacterRepo \<Rightarrow> int \<Rightarrow> LevelUpFields \<Rightarrow> repo_write" where
  "repo_RecordLevelUp r i f =
     record_at r i (\<lambda>c. Inr (c\<lparr>ch_ClassLevels := luf_ClassLevels f,
       ch_Core := (ch_Core c)\<lparr>c_HPCurrent := luf_HPCurrent f, c_HPMax := luf_HPMax f,
         c_BAB := luf_BAB f, c_Saves := luf_Saves f\<rparr>,
       ch_PendingFeats := i32 (ch_PendingFeats c + luf_PendingFeatsDelta f),
       ch_PendingSkillPoints := i32 (ch_PendingSkillPoints c + luf_PendingSkillPointsDelta f),
       ch_PendingAbilityBumps := i32 (ch_PendingAbilityBumps c + luf_PendingAbilityBumpsDelta f),
       ch_PendingWeaves := i32 (ch_PendingWeaves c + luf_PendingWeavesDelta f),
       ch_PracticePoints := i32 (ch_PracticePoints c + luf_PracticePointsDelta f)\<rparr>))"

definition repo_RecordSkillRank ::
    "MemoryCharacterRepo \<Rightarrow> int \<Rightarrow> int \<Rightarrow> int \<Rightarrow> bool \<Rightarrow> int \<Rightarrow> repo_write" where
  "repo_RecordSkillRank r i skill ranks cls pending =
     record_at r i (\<lambda>c. Inr (c\<lparr>
       ch_Skills := map_put skill \<lparr>skr_Ranks = ranks, skr_IsClassSkill = cls\<rparr> (ch_Skills c),
       ch_PendingSkillPoints := pending\<rparr>))"

definition repo_RecordFeatPick :: "MemoryCharacterRepo \<Rightarrow> int \<Rightarrow> int \<Rightarrow> int \<Rightarrow> repo_write" where
  "repo_RecordFeatPick r i feat pending =
     record_at r i (\<lambda>c. Inr (c\<lparr>ch_Feats := ch_Feats c @ [feat], ch_PendingFeats := pending\<rparr>))"

text \<open>An ability key is a \<open>uint8\<close>; values without a named constant are \<open>AbilityOther\<close>.\<close>

datatype AbilityKey = AbilityStr | AbilityDex | AbilityCon | AbilityInt | AbilityWis | AbilityCha
  | AbilityOther int

fun set_ability :: "Abilities \<Rightarrow> AbilityKey \<Rightarrow> int \<Rightarrow> Abilities option" where
  "set_ability a AbilityStr s = Some (a\<lparr>ab_Str := (ab_Str a)\<lparr>as_Current := s\<rparr>\<rparr>)"
| "set_ability a AbilityDex s = Some (a\<lparr>ab_Dex := (ab_Dex a)\<lparr>as_Current := s\<rparr>\<rparr>)"
| "set_ability a AbilityCon s = Some (a\<lparr>ab_Con := (ab_Con a)\<lparr>as_Current := s\<rparr>\<rparr>)"
| "set_ability a AbilityInt s = Some (a\<lparr>ab_Int := (ab_Int a)\<lparr>as_Current := s\<rparr>\<rparr>)"
| "set_ability a AbilityWis s = Some (a\<lparr>ab_Wis := (ab_Wis a)\<lparr>as_Current := s\<rparr>\<rparr>)"
| "set_ability a AbilityCha s = Some (a\<lparr>ab_Cha := (ab_Cha a)\<lparr>as_Current := s\<rparr>\<rparr>)"
| "set_ability a (AbilityOther _) s = None"

definition repo_RecordAbilityBump ::
    "MemoryCharacterRepo \<Rightarrow> int \<Rightarrow> AbilityKey \<Rightarrow> int \<Rightarrow> int \<Rightarrow> repo_write" where
  "repo_RecordAbilityBump r i ability score pending =
     record_at r i (\<lambda>c.
       case set_ability (c_Abilities (ch_Core c)) ability score of
         None \<Rightarrow> Inl ErrCharacterNotFound
       | Some a \<Rightarrow> Inr (c\<lparr>ch_Core := (ch_Core c)\<lparr>c_Abilities := a\<rparr>, ch_PendingAbilityBumps := pending\<rparr>))"

definition add_weave :: "Channeling \<Rightarrow> string \<Rightarrow> Channeling" where
  "add_weave ch w = ch\<lparr>chn_WeavesKnownIDs := chn_WeavesKnownIDs ch @ [w]\<rparr>"

definition repo_RecordWeavePick :: "MemoryCharacterRepo \<Rightarrow> int \<Rightarrow> string \<Rightarrow> int \<Rightarrow> repo_write" where
  "repo_RecordWeavePick r i w pending =
     record_at r i (\<lambda>c. case ch_Channeling c of None \<Rightarrow> Inl ErrNotChanneler
       | Some ch \<Rightarrow> Inr (c\<lparr>ch_Channeling := Some (add_weave ch w), ch_PendingWeaves := pending\<rparr>))"

definition repo_RecordWeaveStudy :: "MemoryCharacterRepo \<Rightarrow> int \<Rightarrow> string \<Rightarrow> int \<Rightarrow> repo_write" where
  "repo_RecordWeaveStudy r i w practice =
     record_at r i (\<lambda>c. case ch_Channeling c of None \<Rightarrow> Inl ErrNotChanneler
       | Some ch \<Rightarrow> Inr (c\<lparr>ch_Channeling := Some (add_weave ch w), ch_PracticePoints := practice\<rparr>))"

definition repo_RecordPvP :: "MemoryCharacterRepo \<Rightarrow> int \<Rightarrow> bool \<Rightarrow> repo_write" where
  "repo_RecordPvP r i on = record_at r i (\<lambda>c. Inr (c\<lparr>ch_PvP := on\<rparr>))"

definition pruneSkillCooldowns :: "int \<Rightarrow> (int \<times> int) list \<Rightarrow> (int \<times> int) list" where
  "pruneSkillCooldowns now m = filter (\<lambda>p. snd p > now) m"

definition repo_RecordSkillCooldown ::
    "MemoryCharacterRepo \<Rightarrow> int \<Rightarrow> int \<Rightarrow> int \<Rightarrow> int \<Rightarrow> repo_write" where
  "repo_RecordSkillCooldown r i skill deadline now =
     record_at r i (\<lambda>c.
       let m = pruneSkillCooldowns now (ch_SkillCooldowns c)
       in Inr (c\<lparr>ch_SkillCooldowns := (if deadline = 0 then map_del skill m else map_put skill deadline m)\<rparr>))"

definition repo_RecordAffects :: "MemoryCharacterRepo \<Rightarrow> int \<Rightarrow> Affect list \<Rightarrow> repo_write" where
  "repo_RecordAffects r i afs = record_at r i (\<lambda>c. Inr (c\<lparr>ch_Core := (ch_Core c)\<lparr>c_Affects := afs\<rparr>\<rparr>))"

definition repo_RecordQuestProgress :: "MemoryCharacterRepo \<Rightarrow> int \<Rightarrow> QuestProgress list \<Rightarrow> repo_write" where
  "repo_RecordQuestProgress r i log = record_at r i (\<lambda>c. Inr (c\<lparr>ch_QuestLog := log\<rparr>))"

definition repo_RecordChanneling :: "MemoryCharacterRepo \<Rightarrow> int \<Rightarrow> Channeling option \<Rightarrow> repo_write" where
  "repo_RecordChanneling r i ch = record_at r i (\<lambda>c. Inr (c\<lparr>ch_Channeling := ch\<rparr>))"

text \<open>The delete loop removes the key of the first row with the id.\<close>

fun key_of_row :: "(string \<times> Character) list \<Rightarrow> int \<Rightarrow> string option" where
  "key_of_row [] i = None"
| "key_of_row ((k, c) # rs) i = (if ch_ID c = i then Some k else key_of_row rs i)"

definition repo_Delete :: "MemoryCharacterRepo \<Rightarrow> int \<Rightarrow> repo_write" where
  "repo_Delete r i =
     (case key_of_row (mr_byLower r) i of None \<Rightarrow> (r, Some ErrCharacterNotFound)
      | Some k \<Rightarrow> (r\<lparr>mr_byLower := map_del k (mr_byLower r)\<rparr>, None))"

definition repo_ClampInvalidAuthLevels :: "MemoryCharacterRepo \<Rightarrow> MemoryCharacterRepo \<times> int" where
  "repo_ClampInvalidAuthLevels r =
     (r\<lparr>mr_byLower := map (\<lambda>(k, c). (k, if ch_AuthLevel c > AuthLevelMax
           then c\<lparr>ch_AuthLevel := AuthLevelMax\<rparr> else c)) (mr_byLower r)\<rparr>,
      int (length (filter (\<lambda>(k, c). ch_AuthLevel c > AuthLevelMax) (mr_byLower r))))"

definition repo_MarkNewsSeen :: "MemoryCharacterRepo \<Rightarrow> int \<Rightarrow> int \<Rightarrow> repo_write" where
  "repo_MarkNewsSeen r i tm =
     (if tm = 0 then (r, None)
      else record_at r i (\<lambda>c. Inr (if tm > ch_LastNewsSeen c then c\<lparr>ch_LastNewsSeen := tm\<rparr> else c)))"

section \<open>The store invariant\<close>

definition repo_ok :: "MemoryCharacterRepo \<Rightarrow> bool" where
  "repo_ok r \<longleftrightarrow> distinct (keys (mr_byLower r))
     \<and> distinct (map (\<lambda>p. ch_ID (snd p)) (mr_byLower r))
     \<and> (\<forall>(k, c) \<in> set (mr_byLower r). k = ch_NameLower c \<and> k = to_lower (ch_Name c)
          \<and> 1 \<le> ch_ID c \<and> ch_ID c \<le> mr_nextID r)
     \<and> 0 \<le> mr_nextID r"

text \<open>An update that keeps the identity of the row: its id and its names.\<close>

definition keeps_identity :: "(Character \<Rightarrow> repo_error + Character) \<Rightarrow> bool" where
  "keeps_identity f \<longleftrightarrow>
     (\<forall>c d. f c = Inr d \<longrightarrow> ch_ID d = ch_ID c \<and> ch_NameLower d = ch_NameLower c \<and> ch_Name d = ch_Name c)"

lemma get_row_SomeD: "get_row rs i = Some c \<Longrightarrow> ch_ID c = i \<and> c \<in> snd ` set rs"
  by (induction rs i rule: get_row.induct) (auto split: if_splits)

lemma get_put_same: "get_row rs i = Some c \<Longrightarrow> ch_ID d = i \<Longrightarrow> get_row (put_row rs i d) i = Some d"
  by (induction rs i d rule: put_row.induct) auto

lemma get_put_other: "ch_ID d = i \<Longrightarrow> i \<noteq> j \<Longrightarrow> get_row (put_row rs i d) j = get_row rs j"
  by (induction rs i d rule: put_row.induct) auto

lemma put_row_keys [simp]: "keys (put_row rs i d) = keys rs"
  by (induction rs i d rule: put_row.induct) auto

lemma put_row_ids: "ch_ID d = i \<Longrightarrow> map (\<lambda>p. ch_ID (snd p)) (put_row rs i d) = map (\<lambda>p. ch_ID (snd p)) rs"
  by (induction rs i d rule: put_row.induct) auto

lemma put_row_mem:
  "(k, x) \<in> set (put_row rs i d) \<Longrightarrow> (k, x) \<in> set rs \<or> x = d \<and> (\<exists>c. (k, c) \<in> set rs \<and> get_row rs i = Some c)"
  by (induction rs i d rule: put_row.induct) (auto split: if_splits)

lemma record_at_ok:
  assumes "repo_ok r" "keeps_identity f"
  shows "repo_ok (fst (record_at r i f))"
proof (cases "get_row (mr_byLower r) i")
  case None
  with assms show ?thesis by (simp add: record_at_def)
next
  case (Some c)
  show ?thesis
  proof (cases "f c")
    case (Inl e)
    with Some assms show ?thesis by (simp add: record_at_def)
  next
    case (Inr d)
    have d: "ch_ID d = ch_ID c" "ch_NameLower d = ch_NameLower c" "ch_Name d = ch_Name c"
      using assms(2) Inr by (auto simp: keeps_identity_def)
    have i: "ch_ID d = i" using get_row_SomeD [OF Some] d by simp
    have "k = ch_NameLower x \<and> k = to_lower (ch_Name x) \<and> 1 \<le> ch_ID x \<and> ch_ID x \<le> mr_nextID r"
      if "(k, x) \<in> set (put_row (mr_byLower r) i d)" for k x
      using put_row_mem [OF that] assms(1) Some d by (auto simp: repo_ok_def)
    with assms(1) Some Inr i show ?thesis
      by (auto simp: record_at_def repo_ok_def put_row_ids)
  qed
qed

lemma record_at_others:
  assumes "keeps_identity f" "i \<noteq> j"
  shows "repo_GetByID (fst (record_at s i f)) j = repo_GetByID s j"
proof (cases "get_row (mr_byLower s) i")
  case (Some c)
  show ?thesis
  proof (cases "f c")
    case (Inr d)
    have "ch_ID d = i" using assms(1) Inr get_row_SomeD [OF Some] by (auto simp: keeps_identity_def)
    with Some Inr assms(2) show ?thesis
      by (simp add: record_at_def repo_GetByID_def get_put_other)
  qed (simp add: Some record_at_def)
qed (simp add: record_at_def)

lemma GetByID_Inr: "repo_GetByID s i = Inr c \<longleftrightarrow> get_row (mr_byLower s) i = Some c"
  by (simp add: repo_GetByID_def split: option.split)

lemma record_at_accepted:
  assumes "repo_GetByID s i = Inr c" "f c = Inr d" "keeps_identity f"
  shows "snd (record_at s i f) = None \<and> repo_GetByID (fst (record_at s i f)) i = Inr d"
proof -
  have g: "get_row (mr_byLower s) i = Some c" using assms(1) by (simp only: GetByID_Inr)
  have "ch_ID d = i"
    using assms(2,3) get_row_SomeD [OF g] unfolding keeps_identity_def by blast
  from get_put_same [OF g this] show ?thesis
    by (simp add: record_at_def g assms(2) GetByID_Inr)
qed

section \<open>The store satisfies the row contract\<close>

interpretation char_store: row_store repo_GetByID record_at keeps_identity ErrCharacterNotFound
proof
  fix s :: MemoryCharacterRepo and i j :: int and c d :: Character and e :: repo_error
    and f :: "Character \<Rightarrow> repo_error + Character"
  show "repo_GetByID s i = Inl e \<Longrightarrow>
      e = ErrCharacterNotFound \<and> record_at s i f = (s, Some ErrCharacterNotFound)"
    by (auto simp: repo_GetByID_def record_at_def split: option.splits)
  show "repo_GetByID s i = Inr c \<Longrightarrow> f c = Inr d \<Longrightarrow> keeps_identity f \<Longrightarrow>
      snd (record_at s i f) = None \<and> repo_GetByID (fst (record_at s i f)) i = Inr d"
    by (rule record_at_accepted)
  show "repo_GetByID s i = Inr c \<Longrightarrow> f c = Inl e \<Longrightarrow> record_at s i f = (s, Some e)"
    by (simp add: GetByID_Inr record_at_def)
  show "keeps_identity f \<Longrightarrow> i \<noteq> j \<Longrightarrow> repo_GetByID (fst (record_at s i f)) j = repo_GetByID s j"
    by (rule record_at_others)
qed

text \<open>C4: \<open>RecordCoin\<close> has no lost update: when two writers read the purse at the same version and both
  write, the first is accepted and the second refused with \<open>ErrCoinConflict\<close>, and the purse holds what the
  first wrote.\<close>

theorem RecordCoin_no_lost_update:
  assumes "repo_GetByID r i = Inr c" "in_range 64 (ch_CoinVersion c)"
    and "r1 = fst (repo_RecordCoin r i coin1 bank1 (ch_CoinVersion c))"
  shows "snd (repo_RecordCoin r i coin1 bank1 (ch_CoinVersion c)) = None
    \<and> repo_RecordCoin r1 i coin2 bank2 (ch_CoinVersion c) = (r1, Some ErrCoinConflict)
    \<and> (\<exists>d. repo_GetByID r1 i = Inr d \<and> ch_Coin d = coin1 \<and> ch_BankBalance d = bank1)"
proof -
  let ?f = "\<lambda>coin bank. coin_write coin bank (ch_CoinVersion c)"
  let ?d = "c\<lparr>ch_Coin := coin1, ch_BankBalance := bank1, ch_CoinVersion := i64 (ch_CoinVersion c + 1)\<rparr>"
  have st: "keeps_identity (?f coin1 bank1)" by (auto simp: keeps_identity_def coin_write_def)
  have ne: "i64 (ch_CoinVersion c + 1) \<noteq> ch_CoinVersion c"
    using wrap_bounds64 [of "ch_CoinVersion c + 1"] assms(2)
    by (cases "ch_CoinVersion c = MaxInt64") (auto simp: in_range_64 i64_id wrap_def)
  have f: "?f coin1 bank1 c = Inr ?d" "?f coin2 bank2 ?d = Inl ErrCoinConflict"
    using ne by (simp_all add: coin_write_def)
  from char_store.accepted [OF assms(1) f(1) st]
    char_store.compare_and_set [of r i c "?f coin1 bank1" ?d "?f coin2 bank2" ErrCoinConflict] assms(1) f st
  show ?thesis unfolding assms(3) repo_RecordCoin_def by auto
qed

definition sample_character :: Character where
  "sample_character = \<lparr>ch_ID = 0, ch_AccountID = 1, ch_Name = ''Rand'', ch_NameLower = '''', ch_LastPlayedAt = None,
     ch_CurrentRoomID = 0, ch_Core = zero_Core, ch_Race = RaceHuman, ch_ClassLevels = [], ch_XP = 0,
     ch_PracticePoints = 0, ch_Coin = 100, ch_BankBalance = 0, ch_CoinVersion = 0, ch_BoundRoomID = 0,
     ch_PromptTemplate = '''', ch_LastNewsSeen = 0, ch_Feats = [], ch_Skills = [], ch_QuestLog = [],
     ch_Equipment = sample_equip, ch_Inventory = [], ch_SkillCooldowns = [], ch_ChannelSettings = [],
     ch_Channeling = None, ch_PvP = False, ch_PendingFeats = 0, ch_PendingSkillPoints = 0,
     ch_PendingAbilityBumps = 0, ch_PendingWeaves = 0, ch_XPDebt = 0, ch_AuthLevel = 1\<rparr>"

definition sample_repo :: MemoryCharacterRepo where
  "sample_repo = \<lparr>mr_nextID = 1, mr_byLower = [(''rand'', sample_character\<lparr>ch_ID := 1, ch_NameLower := ''rand''\<rparr>)]\<rparr>"

theorem RecordCoin_no_lost_update_witness:
  "snd (repo_RecordCoin (fst (repo_RecordCoin sample_repo 1 50 0 0)) 1 70 0 0) = Some ErrCoinConflict"
proof -
  let ?c = "sample_character\<lparr>ch_ID := 1, ch_NameLower := ''rand''\<rparr>"
  have g: "repo_GetByID sample_repo 1 = Inr ?c" by (simp add: GetByID_Inr sample_repo_def)
  have v: "ch_CoinVersion ?c = 0" by (simp add: sample_character_def)
  show ?thesis using RecordCoin_no_lost_update [OF g _ refl, of 50 0 70 0] by (simp add: v in_range_64)
qed

section \<open>Every operation keeps the invariant\<close>

datatype repo_op =
    OpCreate int Character | OpPlay int int | OpRoom int int | OpBoundRoom int int
  | OpChannelSettings int "(string \<times> bool) list" | OpCore int int int Condition PositionFlags
  | OpHP int int int | OpStamina int int | OpInventory int "int list" | OpEquipment int Equipment
  | OpCoin int Amount Amount int | OpXP int int | OpXPDebt int int | OpPrompt int string
  | OpLevelUp int LevelUpFields | OpSkillRank int int int bool int | OpFeat int int int
  | OpBump int AbilityKey int int | OpWeavePick int string int | OpWeaveStudy int string int
  | OpPvP int bool | OpCooldown int int int int | OpAffects int "Affect list"
  | OpQuest int "QuestProgress list" | OpChanneling int "Channeling option" | OpDelete int
  | OpClamp | OpNews int int

fun repo_run :: "MemoryCharacterRepo \<Rightarrow> repo_op \<Rightarrow> MemoryCharacterRepo" where
  "repo_run r (OpCreate now c) = fst (repo_Create r now c)"
| "repo_run r (OpPlay i t) = fst (repo_RecordPlay r i t)"
| "repo_run r (OpRoom i x) = fst (repo_RecordRoom r i x)"
| "repo_run r (OpBoundRoom i x) = fst (repo_RecordBoundRoom r i x)"
| "repo_run r (OpChannelSettings i s) = fst (repo_RecordChannelSettings r i s)"
| "repo_run r (OpCore i hp sub cond pos) = fst (repo_RecordCore r i hp sub cond pos)"
| "repo_run r (OpHP i hp sub) = fst (repo_RecordHP r i hp sub)"
| "repo_run r (OpStamina i x) = fst (repo_RecordStamina r i x)"
| "repo_run r (OpInventory i ids) = fst (repo_RecordInventory r i ids)"
| "repo_run r (OpEquipment i eq) = fst (repo_RecordEquipment r i eq)"
| "repo_run r (OpCoin i coin bank v) = fst (repo_RecordCoin r i coin bank v)"
| "repo_run r (OpXP i x) = fst (repo_RecordXP r i x)"
| "repo_run r (OpXPDebt i x) = fst (repo_RecordXPDebt r i x)"
| "repo_run r (OpPrompt i t) = fst (repo_RecordPromptTemplate r i t)"
| "repo_run r (OpLevelUp i f) = fst (repo_RecordLevelUp r i f)"
| "repo_run r (OpSkillRank i s n b p) = fst (repo_RecordSkillRank r i s n b p)"
| "repo_run r (OpFeat i f p) = fst (repo_RecordFeatPick r i f p)"
| "repo_run r (OpBump i a s p) = fst (repo_RecordAbilityBump r i a s p)"
| "repo_run r (OpWeavePick i w p) = fst (repo_RecordWeavePick r i w p)"
| "repo_run r (OpWeaveStudy i w p) = fst (repo_RecordWeaveStudy r i w p)"
| "repo_run r (OpPvP i b) = fst (repo_RecordPvP r i b)"
| "repo_run r (OpCooldown i s d now) = fst (repo_RecordSkillCooldown r i s d now)"
| "repo_run r (OpAffects i a) = fst (repo_RecordAffects r i a)"
| "repo_run r (OpQuest i l) = fst (repo_RecordQuestProgress r i l)"
| "repo_run r (OpChanneling i c) = fst (repo_RecordChanneling r i c)"
| "repo_run r (OpDelete i) = fst (repo_Delete r i)"
| "repo_run r OpClamp = fst (repo_ClampInvalidAuthLevels r)"
| "repo_run r (OpNews i t) = fst (repo_MarkNewsSeen r i t)"

lemmas repo_write_defs = repo_RecordPlay_def repo_RecordRoom_def repo_RecordBoundRoom_def
  repo_RecordChannelSettings_def repo_RecordCore_def repo_RecordHP_def repo_RecordStamina_def
  repo_RecordInventory_def repo_RecordEquipment_def repo_RecordCoin_def repo_RecordXP_def
  repo_RecordXPDebt_def repo_RecordPromptTemplate_def repo_RecordLevelUp_def repo_RecordSkillRank_def
  repo_RecordFeatPick_def repo_RecordAbilityBump_def repo_RecordWeavePick_def repo_RecordWeaveStudy_def
  repo_RecordPvP_def repo_RecordSkillCooldown_def repo_RecordAffects_def repo_RecordQuestProgress_def
  repo_RecordChanneling_def repo_MarkNewsSeen_def

lemma Create_ok:
  assumes "repo_ok r" "mr_nextID r < MaxInt64"
  shows "repo_ok (fst (repo_Create r now c))"
proof (cases "map_of (mr_byLower r) (to_lower (ch_Name c))")
  case (Some x)
  with assms show ?thesis by (simp add: repo_Create_def)
next
  case None
  let ?n = "mr_nextID r + 1"
  have n: "i64 ?n = ?n" using assms by (intro i64_id) (auto simp: repo_ok_def)
  have f: "to_lower (ch_Name c) \<notin> set (keys (mr_byLower r))"
    using None by (simp add: map_of_eq_None_iff)
  have i: "?n \<notin> (\<lambda>p. ch_ID (snd p)) ` set (mr_byLower r)"
    using assms(1) by (fastforce simp: repo_ok_def)
  show ?thesis
    using assms(1) f i None unfolding repo_Create_def Let_def n repo_ok_def
    by (auto simp: map_put_fresh)
qed

lemma map_del_ids:
  "distinct (map (\<lambda>p. ch_ID (snd p)) rs) \<Longrightarrow> distinct (map (\<lambda>p. ch_ID (snd p)) (map_del k rs))"
  by (simp add: map_del_def distinct_map_filter)

lemma Delete_ok: "repo_ok r \<Longrightarrow> repo_ok (fst (repo_Delete r i))"
  by (cases "key_of_row (mr_byLower r) i")
    (auto simp: repo_Delete_def repo_ok_def map_del_ids, auto simp: map_del_def)

lemma Clamp_ok: "repo_ok r \<Longrightarrow> repo_ok (fst (repo_ClampInvalidAuthLevels r))"
proof -
  assume ok: "repo_ok r"
  let ?g = "\<lambda>(k, c). (k, if ch_AuthLevel c > AuthLevelMax then c\<lparr>ch_AuthLevel := AuthLevelMax\<rparr> else c)"
  have k: "keys (map ?g rs) = keys rs"
    "map (\<lambda>p. ch_ID (snd p)) (map ?g rs) = map (\<lambda>p. ch_ID (snd p)) rs" for rs
    by (induction rs) auto
  have "k = ch_NameLower x \<and> k = to_lower (ch_Name x) \<and> 1 \<le> ch_ID x \<and> ch_ID x \<le> mr_nextID r"
    if "(k, x) \<in> set (map ?g (mr_byLower r))" for k x
    using that ok by (auto simp: repo_ok_def)
  then have all: "\<forall>(k, x) \<in> set (map ?g (mr_byLower r)).
      k = ch_NameLower x \<and> k = to_lower (ch_Name x) \<and> 1 \<le> ch_ID x \<and> ch_ID x \<le> mr_nextID r"
    by blast
  let ?r = "r\<lparr>mr_byLower := map ?g (mr_byLower r)\<rparr>"
  have m: "mr_byLower ?r = map ?g (mr_byLower r)" "mr_nextID ?r = mr_nextID r" by simp_all
  have "repo_ok ?r"
    unfolding repo_ok_def m k using ok all by (intro conjI) (simp_all only: repo_ok_def)
  then show ?thesis by (simp only: repo_ClampInvalidAuthLevels_def fst_conv)
qed

lemma keeps_identityI: "(\<And>c d. f c = Inr d \<Longrightarrow> ch_ID d = ch_ID c \<and> ch_NameLower d = ch_NameLower c \<and>
    ch_Name d = ch_Name c) \<Longrightarrow> keeps_identity f"
  by (simp add: keeps_identity_def)

lemma repo_run_ok:
  assumes "repo_ok r" "mr_nextID r < MaxInt64"
  shows "repo_ok (repo_run r op)"
  using assms
  by (cases op)
    (auto simp: repo_write_defs Create_ok Delete_ok Clamp_ok Let_def coin_write_def
      intro!: record_at_ok keeps_identityI split: if_splits option.splits)

lemma record_at_nextID [simp]: "mr_nextID (fst (record_at r i f)) = mr_nextID r"
  by (auto simp: record_at_def split: option.split sum.split)

lemma repo_run_nextID: "mr_nextID r < MaxInt64 \<Longrightarrow> 0 \<le> mr_nextID r \<Longrightarrow> mr_nextID (repo_run r op) \<le> mr_nextID r + 1"
  by (cases op) (auto simp: repo_write_defs repo_Create_def repo_Delete_def repo_ClampInvalidAuthLevels_def
      Let_def i64_id split: option.splits)

text \<open>The character store stays consistent: whatever sequence of repository operations runs from an
  empty store, names are unique under case folding, row ids are unique and between 1 and the last id handed
  out, and each row is filed under the lower-case form of its own name.\<close>

lemma repo_runs_ok:
  assumes "length ops < 9223372036854775807"
  shows "repo_ok (foldl repo_run NewMemoryCharacterRepo ops)"
proof -
  have "mr_nextID (foldl repo_run NewMemoryCharacterRepo ops) \<le> int (length ops) \<and>
      repo_ok (foldl repo_run NewMemoryCharacterRepo ops)"
    using assms
  proof (induction ops rule: rev_induct)
    case Nil
    then show ?case by (simp add: NewMemoryCharacterRepo_def repo_ok_def)
  next
    case (snoc op ops)
    then have r: "mr_nextID (foldl repo_run NewMemoryCharacterRepo ops) \<le> int (length ops)"
      "repo_ok (foldl repo_run NewMemoryCharacterRepo ops)" by simp_all
    then have b: "mr_nextID (foldl repo_run NewMemoryCharacterRepo ops) < MaxInt64"
      "0 \<le> mr_nextID (foldl repo_run NewMemoryCharacterRepo ops)"
      using snoc.prems by (auto simp: repo_ok_def)
    show ?case using repo_run_ok [OF r(2) b(1), of op] repo_run_nextID [OF b, of op] r(1) by simp
  qed
  then show ?thesis by simp
qed

end
