(* ===== verification/MobRepo.thy ===== *)
theory MobRepo
  imports CharacterRepo
begin

text \<open>
  Live mobs: \<open>MobInstance\<close> of \<open>internal/creature/creature.go\<close>, the template fields the death pipeline reads, and the
  in-memory store \<open>internal/repo/mob_instance_memory.go\<close> with the movement trails. The Go maps are
  association lists with distinct keys. The error of \<open>Create\<close> without a template is \<open>ErrTemplateRequired\<close>.
\<close>

section \<open>Rows\<close>

record MobInstance =
  mi_ID :: int
  mi_TemplateID :: int
  mi_Core :: Core
  mi_Equipment :: Equipment
  mi_Inventory :: "int list"
  mi_SpawnedAt :: "int option"
  mi_BoundResetID :: int

record MobTemplate =
  mt_ID :: int
  mt_ExternalID :: string
  mt_ChallengeCode :: char
  mt_XPValue :: int
  mt_GoldDice :: string

definition zero_MobTemplate :: MobTemplate where
  "zero_MobTemplate = \<lparr>mt_ID = 0, mt_ExternalID = [], mt_ChallengeCode = CHR 0x00, mt_XPValue = 0, mt_GoldDice = []\<rparr>"

record MobTrail =
  tr_MobID :: int
  tr_RoomID :: int
  tr_At :: int

definition MobTrailCap :: nat where "MobTrailCap = 16"

datatype mob_error = ErrInstanceNotFound | ErrTemplateRequired

section \<open>The store\<close>

record MemoryMobInstanceRepo =
  mb_byID :: "(int \<times> MobInstance) list"
  mb_trails :: "(int \<times> MobTrail list) list"
  mb_maxID :: int

definition NewMemoryMobInstanceRepo :: MemoryMobInstanceRepo where
  "NewMemoryMobInstanceRepo = \<lparr>mb_byID = [], mb_trails = [], mb_maxID = 0\<rparr>"

definition mob_Create ::
    "MemoryMobInstanceRepo \<Rightarrow> int \<Rightarrow> MobInstance \<Rightarrow> MemoryMobInstanceRepo \<times> (mob_error + MobInstance)" where
  "mob_Create r now m0 =
     (if mi_TemplateID m0 = 0 then (r, Inl ErrTemplateRequired)
      else let nid = i64 (mb_maxID r + 1);
               m = m0\<lparr>mi_ID := nid, mi_Core := (mi_Core m0)\<lparr>c_ID := nid\<rparr>,
                      mi_SpawnedAt := (if mi_SpawnedAt m0 = None then Some now else mi_SpawnedAt m0)\<rparr>
           in (r\<lparr>mb_byID := map_put nid m (mb_byID r), mb_maxID := nid\<rparr>, Inr m))"

definition mob_GetByID :: "MemoryMobInstanceRepo \<Rightarrow> int \<Rightarrow> mob_error + MobInstance" where
  "mob_GetByID r i = (case map_of (mb_byID r) i of None \<Rightarrow> Inl ErrInstanceNotFound | Some m \<Rightarrow> Inr m)"

definition mob_ListInRoom :: "MemoryMobInstanceRepo \<Rightarrow> int \<Rightarrow> MobInstance list" where
  "mob_ListInRoom r room =
     sort_key mi_ID (filter (\<lambda>m. c_CurrentRoomID (mi_Core m) = room) (map snd (mb_byID r)))"

definition mob_ListSpawned :: "MemoryMobInstanceRepo \<Rightarrow> int \<Rightarrow> MobInstance list" where
  "mob_ListSpawned r limit =
     (if limit \<le> 0 then []
      else take (nat limit)
        (sort_key mi_ID (filter (\<lambda>m. c_CurrentRoomID (mi_Core m) \<noteq> 0) (map snd (mb_byID r)))))"

text \<open>The shape of every update of one row.\<close>

definition mob_at ::
    "MemoryMobInstanceRepo \<Rightarrow> int \<Rightarrow> (MobInstance \<Rightarrow> mob_error + MobInstance) \<Rightarrow>
       MemoryMobInstanceRepo \<times> mob_error option" where
  "mob_at r i f =
     (case map_of (mb_byID r) i of None \<Rightarrow> (r, Some ErrInstanceNotFound)
      | Some m \<Rightarrow> (case f m of Inl e \<Rightarrow> (r, Some e)
                  | Inr m' \<Rightarrow> (r\<lparr>mb_byID := map_put i m' (mb_byID r)\<rparr>, None)))"

type_synonym mob_write = "MemoryMobInstanceRepo \<times> mob_error option"

definition mob_UpdateLive ::
    "MemoryMobInstanceRepo \<Rightarrow> int \<Rightarrow> int \<Rightarrow> int \<Rightarrow> Condition \<Rightarrow> PositionFlags \<Rightarrow> mob_write" where
  "mob_UpdateLive r i hp subdual cond pos =
     mob_at r i (\<lambda>m. Inr (m\<lparr>mi_Core := (mi_Core m)\<lparr>c_HPCurrent := hp, c_Subdual := subdual,
       c_Conditions := cond, c_Position := pos\<rparr>\<rparr>))"

text \<open>The new trail keeps the last \<open>keep - 1\<close> entries of the old one and appends the move.\<close>

definition push_trail :: "MobTrail list \<Rightarrow> MobTrail \<Rightarrow> MobTrail list" where
  "push_trail old t =
     (let keep = (if length old + 1 > MobTrailCap then MobTrailCap else length old + 1)
      in (if length old \<ge> keep - 1 then drop (length old - (keep - 1)) old else old) @ [t])"

definition mob_UpdateRoom :: "MemoryMobInstanceRepo \<Rightarrow> int \<Rightarrow> int \<Rightarrow> int \<Rightarrow> mob_write" where
  "mob_UpdateRoom r i room now =
     (case mob_at r i (\<lambda>m. Inr (m\<lparr>mi_Core := (mi_Core m)\<lparr>c_CurrentRoomID := room\<rparr>\<rparr>)) of
        (r1, Some e) \<Rightarrow> (r1, Some e)
      | (r1, None) \<Rightarrow>
          (if room = 0 then r1
           else r1\<lparr>mb_trails := map_put i (push_trail (map_get (mb_trails r1) i [])
                    \<lparr>tr_MobID = i, tr_RoomID = room, tr_At = now\<rparr>) (mb_trails r1)\<rparr>, None))"

definition RecentTrails :: "MemoryMobInstanceRepo \<Rightarrow> int \<Rightarrow> int \<Rightarrow> MobTrail list" where
  "RecentTrails r i limit =
     (if limit \<le> 0 then [] else take (nat limit) (rev (map_get (mb_trails r) i [])))"

definition CountByTemplate :: "MemoryMobInstanceRepo \<Rightarrow> int \<Rightarrow> int" where
  "CountByTemplate r t = int (length (filter (\<lambda>p. mi_TemplateID (snd p) = t) (mb_byID r)))"

definition mob_Delete :: "MemoryMobInstanceRepo \<Rightarrow> int \<Rightarrow> mob_write" where
  "mob_Delete r i =
     (case map_of (mb_byID r) i of None \<Rightarrow> (r, Some ErrInstanceNotFound)
      | Some m \<Rightarrow> (r\<lparr>mb_byID := map_del i (mb_byID r), mb_trails := map_del i (mb_trails r)\<rparr>, None))"

section \<open>The store satisfies the row contract\<close>

lemma mob_Get_Inr: "mob_GetByID r i = Inr m \<longleftrightarrow> map_of (mb_byID r) i = Some m"
  by (simp add: mob_GetByID_def split: option.split)

interpretation mob_store: row_store mob_GetByID mob_at "\<lambda>f. True" ErrInstanceNotFound
  by unfold_locales (auto simp: mob_GetByID_def mob_at_def split: option.splits sum.splits)

section \<open>Trails\<close>

text \<open>A sequence of moves of one mob, the clock reading of each beside it.\<close>

definition walk :: "int \<Rightarrow> (int \<times> int) list \<Rightarrow> MemoryMobInstanceRepo \<Rightarrow> MemoryMobInstanceRepo" where
  "walk i moves r = fold (\<lambda>(room, now) r. fst (mob_UpdateRoom r i room now)) moves r"

definition trail_of :: "int \<Rightarrow> (int \<times> int) list \<Rightarrow> MobTrail list" where
  "trail_of i moves =
     map (\<lambda>(room, now). \<lparr>tr_MobID = i, tr_RoomID = room, tr_At = now\<rparr>) (filter (\<lambda>(room, now). room \<noteq> 0) moves)"

definition newest :: "'a list \<Rightarrow> 'a list" where
  "newest xs = drop (length xs - MobTrailCap) xs"

lemma push_newest: "push_trail (newest xs) t = newest (xs @ [t])"
proof (cases "length xs < MobTrailCap")
  case True
  then show ?thesis by (simp add: push_trail_def newest_def Let_def MobTrailCap_def)
next
  case False
  then show ?thesis
    by (auto simp: push_trail_def newest_def Let_def MobTrailCap_def Suc_diff_le [symmetric])
qed

lemma walk_trails:
  assumes "map_of (mb_byID r) i \<noteq> None" "map_get (mb_trails r) i [] = newest old"
  shows "map_get (mb_trails (walk i moves r)) i [] = newest (old @ trail_of i moves)
    \<and> map_of (mb_byID (walk i moves r)) i \<noteq> None"
  using assms
proof (induction moves arbitrary: r old)
  case Nil
  then show ?case by (simp add: walk_def trail_of_def)
next
  case (Cons p moves)
  obtain room now where p: "p = (room, now)" by (cases p)
  obtain m where m: "map_of (mb_byID r) i = Some m" using Cons.prems(1) by auto
  let ?r = "fst (mob_UpdateRoom r i room now)"
  have row: "map_of (mb_byID ?r) i \<noteq> None" by (simp add: mob_UpdateRoom_def mob_at_def m)
  show ?case
  proof (cases "room = 0")
    case True
    have "map_get (mb_trails ?r) i [] = newest old" using Cons.prems(2) True by (simp add: mob_UpdateRoom_def mob_at_def m)
    from Cons.IH [OF row this] True show ?thesis by (simp add: p walk_def trail_of_def)
  next
    case False
    have "map_get (mb_trails ?r) i [] = newest (old @ [\<lparr>tr_MobID = i, tr_RoomID = room, tr_At = now\<rparr>])"
      using Cons.prems(2) False by (simp add: mob_UpdateRoom_def mob_at_def m push_newest [symmetric])
    from Cons.IH [OF row this] False show ?thesis by (simp add: p walk_def trail_of_def)
  qed
qed

text \<open>A spawned mob can be tracked: after any moves of a mob (and steps out of the world), \<open>RecentTrails\<close> with
  a limit gives exactly its last moves into a room, newest first, at most sixteen of them; a second mob's
  trail does not change; and deleting the mob forgets it.\<close>

lemma trails_exact:
  assumes "mi_TemplateID m \<noteq> 0" "map_get (mb_trails r) (i64 (mb_maxID r + 1)) [] = []" "0 < limit"
    and "mob_Create r now m = (r1, Inr m1)" "j \<noteq> mi_ID m1"
  shows "RecentTrails (walk (mi_ID m1) moves r1) (mi_ID m1) limit
      = take (min (nat limit) 16) (rev (trail_of (mi_ID m1) moves))
    \<and> RecentTrails (walk (mi_ID m1) moves r1) j limit = RecentTrails r j limit
    \<and> RecentTrails (fst (mob_Delete (walk (mi_ID m1) moves r1) (mi_ID m1))) (mi_ID m1) limit = []"
proof -
  let ?i = "mi_ID m1" let ?w = "walk ?i moves r1"
  from assms(1,4) have i: "?i = i64 (mb_maxID r + 1)" and row: "map_of (mb_byID r1) ?i \<noteq> None"
    and same: "mb_trails r1 = mb_trails r"
    by (auto simp: mob_Create_def Let_def)
  have "map_get (mb_trails r1) ?i [] = newest []" using assms(2) i same by (simp add: newest_def)
  note w = walk_trails [OF row this, of moves]
  have "rev (newest xs) = take 16 (rev xs)" for xs :: "MobTrail list"
    by (simp add: newest_def MobTrailCap_def take_rev)
  then have "take (nat limit) (rev (newest xs)) = take (min (nat limit) 16) (rev xs)" for xs :: "MobTrail list"
    by simp
  with w assms(3) have "RecentTrails ?w ?i limit = take (min (nat limit) 16) (rev (trail_of ?i moves))"
    by (simp add: RecentTrails_def)
  moreover have "map_get (mb_trails (walk ?i moves s)) j [] = map_get (mb_trails s) j []" for s
    using assms(5) unfolding walk_def
    by (induction moves arbitrary: s)
      (auto simp: mob_UpdateRoom_def mob_at_def split: option.splits prod.splits if_splits)
  moreover obtain m2 where "map_of (mb_byID ?w) ?i = Some m2" using w by blast
  then have "RecentTrails (fst (mob_Delete ?w ?i)) ?i limit = []"
    by (simp add: RecentTrails_def mob_Delete_def map_get_def)
  ultimately show ?thesis using same by (simp add: RecentTrails_def)
qed

definition sample_mob :: MobInstance where
  "sample_mob = \<lparr>mi_ID = 0, mi_TemplateID = 4, mi_Core = zero_Core\<lparr>c_HPCurrent := 9, c_HPMax := 9, c_CurrentRoomID := 3\<rparr>,
     mi_Equipment = sample_equip, mi_Inventory = [11], mi_SpawnedAt = None, mi_BoundResetID = 0\<rparr>"

end
