(* ===== verification/Keyword.thy ===== *)
theory Keyword
  imports Utf8 LineEditor CommandLine CombatRoll MobRepo
begin

text \<open>
  Names on the wire and names typed by players: \<open>internal/display/defang.go\<close> and \<open>internal/cmd/keyword.go\<close> with
  \<open>nameMatches\<close> of \<open>examine.go\<close>. Lower-casing is modelled on ASCII; \<open>strings.NewReplacer\<close> replaces from left to
  right without overlaps.
\<close>

section \<open>Defanging\<close>

text \<open>The range loop over the runes of a string, which writes back \<open>RuneError\<close> for a bad byte.\<close>

definition control_rune :: "rune \<Rightarrow> bool" where
  "control_rune r \<longleftrightarrow> r < 0x20 \<or> r = 0x7F"

definition strip_controls :: "string \<Rightarrow> string" where
  "strip_controls name = encs (filter (\<lambda>r. \<not> control_rune r) (decode_all (length name) name))"

definition is_mark :: "char \<Rightarrow> bool" where
  "is_mark c \<longleftrightarrow> c = CHR ''{'' \<or> c = CHR ''}'' \<or> c = CHR '':''"

fun cfmtDefanger :: "string \<Rightarrow> string" where
  "cfmtDefanger (a # b # s) =
     (if a = b \<and> is_mark a then a # CHR '' '' # b # cfmtDefanger s else a # cfmtDefanger (b # s))"
| "cfmtDefanger s = s"

definition Defang :: "string \<Rightarrow> string \<Rightarrow> string" where
  "Defang name fallback =
     (if name = [] then fallback
      else let out = strip_controls name in if out = [] then fallback else cfmtDefanger out)"

section \<open>Keywords\<close>

definition parseOrdinal :: "string \<Rightarrow> int \<times> string" where
  "parseOrdinal target =
     (case index_of (\<lambda>c. c = CHR ''.'') target of None \<Rightarrow> (1, target)
      | Some dot \<Rightarrow>
          if dot = 0 \<or> dot = length target - 1 then (1, target)
          else case parse_int64 (take dot target) of None \<Rightarrow> (1, target)
            | Some n \<Rightarrow> if n < 1 then (1, target) else (n, drop (dot + 1) target))"

definition nameMatches :: "string \<Rightarrow> string \<Rightarrow> bool" where
  "nameMatches name target = list_ex (\<lambda>tok. has_prefix tok target) (GoPrelude.fields (to_lower name))"

text \<open>The counting loop the three matchers share.\<close>

fun match_loop :: "('a \<Rightarrow> string) \<Rightarrow> int \<Rightarrow> string \<Rightarrow> int \<Rightarrow> 'a list \<Rightarrow> 'a option" where
  "match_loop name n kw hit [] = None"
| "match_loop name n kw hit (x # xs) =
     (if nameMatches (name x) kw then if hit + 1 = n then Some x else match_loop name n kw (hit + 1) xs
      else match_loop name n kw hit xs)"

definition match_nth :: "('a \<Rightarrow> string) \<Rightarrow> string \<Rightarrow> 'a list \<Rightarrow> 'a option" where
  "match_nth name target0 list =
     (let target = to_lower (trim_space target0)
      in if target = [] then None else let (n, kw) = parseOrdinal target in match_loop name n kw 0 list)"

definition MatchItem :: "string \<Rightarrow> Item list \<Rightarrow> Item option" where
  "MatchItem target list = match_nth it_Name target list"

definition MatchMob :: "string \<Rightarrow> MobInstance list \<Rightarrow> MobInstance option" where
  "MatchMob target list = match_nth (\<lambda>m. c_Name (mi_Core m)) target list"

section \<open>What the scrubber guarantees\<close>

text \<open>Two, or three, equal marker characters in a row.\<close>

fun has_marker :: "string \<Rightarrow> bool" where
  "has_marker [] \<longleftrightarrow> False"
| "has_marker (a # s) \<longleftrightarrow> is_mark a \<and> take 1 s = [a] \<or> has_marker s"

fun has_triple :: "string \<Rightarrow> bool" where
  "has_triple [] \<longleftrightarrow> False"
| "has_triple (a # s) \<longleftrightarrow> is_mark a \<and> take 2 s = [a, a] \<or> has_triple s"

lemma defang_take: "take 1 (cfmtDefanger s) = take 1 s"
  by (induction s rule: cfmtDefanger.induct) auto

lemma marker_after_defang: "has_marker (cfmtDefanger s) = has_triple s"
proof (induction s rule: cfmtDefanger.induct)
  case (1 a b s)
  show ?case
  proof (cases "a = b \<and> is_mark a")
    case True
    then have n: "CHR '' '' \<noteq> b" "\<not> is_mark (CHR '' '')" by (auto simp: is_mark_def)
    with True have "has_marker (cfmtDefanger (a # b # s)) \<longleftrightarrow> take 1 s = [b] \<or> has_triple s"
      using 1(1) [OF True] defang_take [of s] by auto
    also have "\<dots> \<longleftrightarrow> has_triple (a # b # s)" using True by (cases s) auto
    finally show ?thesis .
  next
    case False
    then have "has_marker (cfmtDefanger (a # b # s)) \<longleftrightarrow> has_marker (cfmtDefanger (b # s))"
      using defang_take [of "b # s"] by auto
    also have "\<dots> = has_triple (b # s)" using False 1(2) by blast
    also have "\<dots> = has_triple (a # b # s)" using False by auto
    finally show ?thesis .
  qed
qed simp_all

lemma defang_spaces: "filter (\<lambda>c. c \<noteq> CHR '' '') (cfmtDefanger s) = filter (\<lambda>c. c \<noteq> CHR '' '') s"
  by (induction s rule: cfmtDefanger.induct) auto

lemma defang_set: "set (cfmtDefanger s) \<subseteq> insert (CHR '' '') (set s)"
  by (induction s rule: cfmtDefanger.induct) auto

lemma stripped_bytes: "c \<in> set (strip_controls name) \<Longrightarrow> 0x20 \<le> ord c \<and> ord c \<noteq> 0x7F"
proof -
  assume "c \<in> set (strip_controls name)"
  then obtain r where r: "c \<in> set (EncodeRune r)" "\<not> control_rune r" by (auto simp: strip_controls_def encs_def)
  have b: "128 \<le> ord c" if "c \<in> set (EncodeRune r)" "r > 0x7F"
    using that by (auto simp: EncodeRune_def Let_def cont_def valid_rune_def RuneError_def split: if_splits)
  show ?thesis
  proof (cases "r \<le> 0x7F")
    case True
    then have "EncodeRune r = [char_of r]" by (simp add: EncodeRune_def valid_rune_def)
    with r True show ?thesis by (auto simp: control_rune_def)
  qed (use b r in auto)
qed

text \<open>C26: What \<open>Defang\<close> makes safe and what it does not. No control byte survives, nothing but spaces is added,
  the text is otherwise unchanged; but the replacer does not look at what it has written, so a \<open>cfmt\<close> marker
  (\<open>{{\<close>, \<open>}}\<close> or \<open>::\<close>) is in the result exactly when the name has three equal marker characters in a row.\<close>

theorem Defang_exact:
  "(strip_controls name = [] \<longrightarrow> Defang name fallback = fallback)
   \<and> (strip_controls name \<noteq> [] \<longrightarrow>
       (\<forall>c\<in>set (Defang name fallback). 0x20 \<le> ord c \<and> ord c \<noteq> 0x7F)
       \<and> filter (\<lambda>c. c \<noteq> CHR '' '') (Defang name fallback) = filter (\<lambda>c. c \<noteq> CHR '' '') (strip_controls name)
       \<and> (has_marker (Defang name fallback) \<longleftrightarrow> has_triple (strip_controls name)))"
proof -
  have "strip_controls [] = []" by (simp add: strip_controls_def encs_def)
  then have "Defang name fallback = (if strip_controls name = [] then fallback else cfmtDefanger (strip_controls name))"
    by (simp add: Defang_def Let_def)
  moreover have "0x20 \<le> ord c \<and> ord c \<noteq> 0x7F" if "c \<in> set (cfmtDefanger (strip_controls name))" for c
    using defang_set [of "strip_controls name"] stripped_bytes [of c name] that by auto
  ultimately show ?thesis
    by (cases "strip_controls name = []") (simp_all only: if_True if_False simp_thms marker_after_defang defang_spaces ball_triv, blast+)
qed

lemma Defang_exact_witness: "has_marker (Defang ''{{{x'' [])"
proof -
  have "strip_controls ''{{{x'' = ''{{{x''"
    by (simp add: strip_controls_def encs_def DecodeRune_def control_rune_def EncodeRune_def valid_rune_def char_of_def bit_0)
  then show ?thesis using Defang_exact [of "''{{{x''" "[]"] by (simp add: is_mark_def)
qed

section \<open>Keyword matching\<close>

lemma match_loop_nth:
  "hit < n \<Longrightarrow> match_loop name n kw hit xs =
     (let hits = filter (\<lambda>x. nameMatches (name x) kw) xs
      in if nat (n - hit - 1) < length hits then Some (hits ! nat (n - hit - 1)) else None)"
proof (induction xs arbitrary: hit)
  case (Cons x xs)
  show ?case
  proof (cases "nameMatches (name x) kw \<and> hit + 1 \<noteq> n")
    case True
    with Cons.prems have "1 \<le> n - hit - 1" by auto
    then have "nat (n - hit - 1) = Suc (nat (n - (hit + 1) - 1))" by linarith
    then show ?thesis using Cons.IH [of "hit + 1"] Cons.prems True by (simp add: Let_def)
  next
    case False
    then show ?thesis using Cons.IH [of hit] Cons.prems by (auto simp: Let_def)
  qed
qed (simp add: Let_def)

lemma parseOrdinal_pos: "1 \<le> fst (parseOrdinal t)"
  by (simp add: parseOrdinal_def split: option.split)

text \<open>\<open>2.sword\<close> is the second item with a word that begins with \<open>sword\<close>: the matchers return the n-th hit or nothing.\<close>

lemma match_nth_exact:
  assumes "to_lower (trim_space target) \<noteq> []" "parseOrdinal (to_lower (trim_space target)) = (n, kw)"
  shows "match_nth name target xs =
    (let hits = filter (\<lambda>x. nameMatches (name x) kw) xs in if n \<le> int (length hits) then Some (hits ! nat (n - 1)) else None)"
proof -
  have "1 \<le> n" using parseOrdinal_pos [of "to_lower (trim_space target)"] assms(2) by simp
  then show ?thesis using assms by (auto simp: match_nth_def match_loop_nth Let_def)
qed

end
