(* ===== verification/PartyGroup.thy ===== *)
theory PartyGroup
  imports GoPrelude
begin

text \<open>
  Player parties: \<open>internal/group/manager.go\<close>. The three maps of the manager are association lists with
  distinct keys. A lookup that the source dereferences without a nil check is an \<open>option\<close>: \<open>None\<close> is the
  nil-pointer panic. The reachable states are an inductive set over the manager's operations. The properties:
  no operation ever panics and no party exceeds six; as long as only ungrouped characters and leaders
  invite, parties are disjoint and \<open>SameGroup\<close> is the partition they form; without that proviso, which the
  commands do not enforce, a character ends up in two parties.
\<close>

datatype group_error = ErrAlreadyGrouped | ErrFull | ErrNotInGroup | ErrNotLeader | ErrNoInvite
  | ErrSelfInvite | ErrInviteeBusy

definition MaxGroupSize :: nat where "MaxGroupSize = 6"

record Group =
  g_Leader :: int
  g_Members :: "(int \<times> string) list"
  g_Created :: int

record invite =
  inv_leaderID :: int
  inv_leaderName :: string
  inv_at :: int

record Manager =
  m_groups :: "(int \<times> Group) list"
  m_byCharacter :: "(int \<times> int) list"
  m_invites :: "(int \<times> invite) list"

definition group_New :: Manager where
  "group_New = \<lparr>m_groups = [], m_byCharacter = [], m_invites = []\<rparr>"

definition IsMember :: "Group \<Rightarrow> int \<Rightarrow> bool" where
  "IsMember g c \<longleftrightarrow> map_of (g_Members g) c \<noteq> None"

definition group_Of :: "Manager \<Rightarrow> int \<Rightarrow> Group option" where
  "group_Of m c = (case map_of (m_byCharacter m) c of None \<Rightarrow> None | Some l \<Rightarrow> map_of (m_groups m) l)"

definition SameGroup :: "Manager \<Rightarrow> int \<Rightarrow> int \<Rightarrow> bool" where
  "SameGroup m a b \<longleftrightarrow>
     (if a = 0 \<or> b = 0 then False else if a = b then True
      else case (map_of (m_byCharacter m) a, map_of (m_byCharacter m) b) of
             (Some la, Some lb) \<Rightarrow> la = lb | _ \<Rightarrow> False)"

definition ensureGroup :: "Manager \<Rightarrow> int \<Rightarrow> string \<Rightarrow> int \<Rightarrow> Manager \<times> Group" where
  "ensureGroup m l name now =
     (case map_of (m_groups m) l of Some g \<Rightarrow> (m, g)
      | None \<Rightarrow>
          let g = \<lparr>g_Leader = l, g_Members = [(l, name)], g_Created = now\<rparr>
          in (m\<lparr>m_groups := map_put l g (m_groups m), m_byCharacter := map_put l l (m_byCharacter m)\<rparr>, g))"

definition group_Invite :: "Manager \<Rightarrow> int \<Rightarrow> string \<Rightarrow> int \<Rightarrow> int \<Rightarrow> Manager \<times> group_error option" where
  "group_Invite m l name x now =
     (if l = x then (m, Some ErrSelfInvite)
      else if map_of (m_byCharacter m) x \<noteq> None then (m, Some ErrAlreadyGrouped)
      else if map_of (m_invites m) x \<noteq> None then (m, Some ErrInviteeBusy)
      else
        let (m1, g) = ensureGroup m l name now
        in if length (g_Members g) \<ge> MaxGroupSize then (m1, Some ErrFull)
           else (m1\<lparr>m_invites := map_put x \<lparr>inv_leaderID = l, inv_leaderName = name, inv_at = now\<rparr>
                   (m_invites m1)\<rparr>, None))"

definition PendingInvite :: "Manager \<Rightarrow> int \<Rightarrow> (int \<times> string) option" where
  "PendingInvite m x = map_option (\<lambda>i. (inv_leaderID i, inv_leaderName i)) (map_of (m_invites m) x)"

definition drop_invite :: "Manager \<Rightarrow> int \<Rightarrow> Manager" where
  "drop_invite m x = m\<lparr>m_invites := map_del x (m_invites m)\<rparr>"

definition group_Accept :: "Manager \<Rightarrow> int \<Rightarrow> string \<Rightarrow> Manager \<times> (group_error + Group)" where
  "group_Accept m x name =
     (case map_of (m_invites m) x of None \<Rightarrow> (m, Inl ErrNoInvite)
      | Some iv \<Rightarrow>
          if map_of (m_byCharacter m) x \<noteq> None then (drop_invite m x, Inl ErrAlreadyGrouped)
          else case map_of (m_groups m) (inv_leaderID iv) of
                 None \<Rightarrow> (drop_invite m x, Inl ErrNoInvite)
               | Some g \<Rightarrow>
                   if length (g_Members g) \<ge> MaxGroupSize then (m, Inl ErrFull)
                   else
                     let g' = g\<lparr>g_Members := map_put x name (g_Members g)\<rparr>
                     in (drop_invite (m\<lparr>m_groups := map_put (inv_leaderID iv) g' (m_groups m),
                           m_byCharacter := map_put x (inv_leaderID iv) (m_byCharacter m)\<rparr>) x, Inr g'))"

definition group_Decline :: "Manager \<Rightarrow> int \<Rightarrow> Manager \<times> group_error option" where
  "group_Decline m x =
     (if map_of (m_invites m) x = None then (m, Some ErrNoInvite) else (drop_invite m x, None))"

definition disbandLocked :: "Manager \<Rightarrow> int \<Rightarrow> Manager \<times> int list" where
  "disbandLocked m l =
     (case map_of (m_groups m) l of None \<Rightarrow> (m, [])
      | Some g \<Rightarrow>
          (m\<lparr>m_byCharacter := filter (\<lambda>p. fst p \<notin> set (keys (g_Members g))) (m_byCharacter m),
             m_groups := map_del l (m_groups m),
             m_invites := filter (\<lambda>p. inv_leaderID (snd p) \<noteq> l) (m_invites m)\<rparr>,
           keys (g_Members g)))"

text \<open>Taking a member out of a live group, as \<open>Leave\<close>, \<open>Kick\<close> and \<open>ClearForCharacter\<close> do.\<close>

definition remove_member :: "Manager \<Rightarrow> int \<Rightarrow> Group \<Rightarrow> int \<Rightarrow> Manager" where
  "remove_member m l g x =
     m\<lparr>m_groups := map_put l (g\<lparr>g_Members := map_del x (g_Members g)\<rparr>) (m_groups m),
       m_byCharacter := map_del x (m_byCharacter m)\<rparr>"

definition group_Leave :: "Manager \<Rightarrow> int \<Rightarrow> (Manager \<times> (group_error + bool \<times> int list)) option" where
  "group_Leave m x =
     (case map_of (m_byCharacter m) x of None \<Rightarrow> Some (m, Inl ErrNotInGroup)
      | Some l \<Rightarrow>
          if x = l then (let (m', ids) = disbandLocked m l in Some (m', Inr (True, ids)))
          else case map_of (m_groups m) l of None \<Rightarrow> None
               | Some g \<Rightarrow> Some (remove_member m l g x, Inr (False, keys (map_del x (g_Members g)))))"

definition group_Kick :: "Manager \<Rightarrow> int \<Rightarrow> int \<Rightarrow> Manager \<times> group_error option" where
  "group_Kick m l x =
     (if l = x then (m, Some ErrNotInGroup)
      else case map_of (m_groups m) l of None \<Rightarrow> (m, Some ErrNotLeader)
           | Some g \<Rightarrow> if map_of (g_Members g) x = None then (m, Some ErrNotInGroup)
                      else (remove_member m l g x, None))"

definition group_Disband :: "Manager \<Rightarrow> int \<Rightarrow> Manager \<times> (group_error + int list)" where
  "group_Disband m l =
     (if map_of (m_groups m) l = None then (m, Inl ErrNotLeader)
      else (let (m', ids) = disbandLocked m l in (m', Inr ids)))"

text \<open>\<open>sessions\<close> is the registry snapshot: character id and current room of each session, \<open>None\<close> the nil
  registry.\<close>

definition MembersInRoom :: "Manager \<Rightarrow> int \<Rightarrow> int \<Rightarrow> (int \<times> int) list option \<Rightarrow> int list option" where
  "MembersInRoom m c room sessions =
     (if c = 0 then Some []
      else case map_of (m_byCharacter m) c of None \<Rightarrow> Some [c]
      | Some l \<Rightarrow>
          (case map_of (m_groups m) l of None \<Rightarrow> None
           | Some g \<Rightarrow>
               (case sessions of None \<Rightarrow> Some [c]
                | Some ss \<Rightarrow>
                    let out = map fst (filter (\<lambda>s. snd s = room \<and> fst s \<in> set (keys (g_Members g))) ss)
                    in Some (if out = [] then [c] else out))))"

definition ClearForCharacter :: "Manager \<Rightarrow> int \<Rightarrow> Manager option" where
  "ClearForCharacter m c =
     (if c = 0 then Some m
      else
        let m1 = drop_invite m c
        in case map_of (m_byCharacter m1) c of None \<Rightarrow> Some m1
           | Some l \<Rightarrow>
               if l = c then Some (fst (disbandLocked m1 l))
               else case map_of (m_groups m1) l of None \<Rightarrow> None
                    | Some g \<Rightarrow> Some (remove_member m1 l g c))"

section \<open>Reachable states\<close>

text \<open>A step of the manager; \<open>guarded\<close> restricts invitations to ungrouped characters and leaders.\<close>

inductive group_step :: "bool \<Rightarrow> Manager \<Rightarrow> Manager option \<Rightarrow> bool" for guarded where
  invite: "(guarded \<Longrightarrow> map_of (m_byCharacter m) l \<in> {None, Some l}) \<Longrightarrow>
    group_step guarded m (Some (fst (group_Invite m l name x now)))"
| accept: "group_step guarded m (Some (fst (group_Accept m x name)))"
| decline: "group_step guarded m (Some (fst (group_Decline m x)))"
| leave: "group_step guarded m (map_option fst (group_Leave m x))"
| kick: "group_step guarded m (Some (fst (group_Kick m l x)))"
| disband: "group_step guarded m (Some (fst (group_Disband m l)))"
| clear: "group_step guarded m (ClearForCharacter m x)"

inductive group_reach :: "bool \<Rightarrow> Manager \<Rightarrow> bool" for guarded where
  start: "group_reach guarded group_New"
| step: "group_reach guarded m \<Longrightarrow> group_step guarded m (Some m') \<Longrightarrow> group_reach guarded m'"

inductive_cases group_stepE: "group_step guarded m r"

section \<open>Invariants\<close>

text \<open>Every group is filed under its leader, who is a member of it, with at most six members; and a character
  the index sends to a group is a member of that group.\<close>

definition groups_ok :: "Manager \<Rightarrow> bool" where
  "groups_ok m \<longleftrightarrow>
     (\<forall>l g. map_of (m_groups m) l = Some g \<longrightarrow> g_Leader g = l \<and> IsMember g l
        \<and> length (g_Members g) \<le> MaxGroupSize)
     \<and> (\<forall>x l. map_of (m_byCharacter m) x = Some l \<longrightarrow>
          (\<exists>g. map_of (m_groups m) l = Some g \<and> IsMember g x))"

text \<open>Conversely, the index sends every member of a group to it: groups are disjoint.\<close>

definition groups_disjoint :: "Manager \<Rightarrow> bool" where
  "groups_disjoint m \<longleftrightarrow>
     (\<forall>l g x. map_of (m_groups m) l = Some g \<longrightarrow> IsMember g x \<longrightarrow> map_of (m_byCharacter m) x = Some l)"

lemma groups_okI:
  "(\<And>l g. map_of (m_groups m) l = Some g \<Longrightarrow> g_Leader g = l \<and> IsMember g l \<and> length (g_Members g) \<le> MaxGroupSize)
    \<Longrightarrow> (\<And>x l. map_of (m_byCharacter m) x = Some l \<Longrightarrow> \<exists>g. map_of (m_groups m) l = Some g \<and> IsMember g x)
    \<Longrightarrow> groups_ok m"
  by (simp add: groups_ok_def)

lemma groups_ok_group:
  "groups_ok m \<Longrightarrow> map_of (m_groups m) l = Some g \<Longrightarrow>
     g_Leader g = l \<and> IsMember g l \<and> length (g_Members g) \<le> MaxGroupSize"
  by (simp add: groups_ok_def)

lemma groups_ok_index:
  "groups_ok m \<Longrightarrow> map_of (m_byCharacter m) x = Some l \<Longrightarrow> \<exists>g. map_of (m_groups m) l = Some g \<and> IsMember g x"
  by (simp add: groups_ok_def)

lemma disjointI:
  "(\<And>l g x. map_of (m_groups m) l = Some g \<Longrightarrow> IsMember g x \<Longrightarrow> map_of (m_byCharacter m) x = Some l) \<Longrightarrow>
     groups_disjoint m"
  by (simp add: groups_disjoint_def)

lemma disjointD:
  "groups_disjoint m \<Longrightarrow> map_of (m_groups m) l = Some g \<Longrightarrow> IsMember g x \<Longrightarrow> map_of (m_byCharacter m) x = Some l"
  by (simp add: groups_disjoint_def)

lemma IsMember_keys: "x \<in> set (keys (g_Members g)) \<longleftrightarrow> IsMember g x"
  by (simp add: IsMember_def map_of_eq_None_iff)

lemma IsMember_simps [simp]:
  "IsMember (g\<lparr>g_Members := map_put x n (g_Members g)\<rparr>) y \<longleftrightarrow> y = x \<or> IsMember g y"
  "IsMember (g\<lparr>g_Members := map_del x (g_Members g)\<rparr>) y \<longleftrightarrow> y \<noteq> x \<and> IsMember g y"
  "IsMember \<lparr>g_Leader = l, g_Members = [(x, n)], g_Created = t\<rparr> y \<longleftrightarrow> y = x"
  by (simp_all add: IsMember_def)

lemma map_of_filter_key: "map_of (filter (\<lambda>p. P (fst p)) xs) k = (if P k then map_of xs k else None)"
  by (induction xs) auto

lemma length_put_le: "length (map_put k v xs) \<le> Suc (length xs)"
  by (induction xs) auto

lemma length_del_le: "length (map_del k xs) \<le> length xs"
  by (simp add: map_del_def)

lemma drop_invite_simps [simp]:
  "m_groups (drop_invite m x) = m_groups m" "m_byCharacter (drop_invite m x) = m_byCharacter m"
  by (simp_all add: drop_invite_def)

lemma ok_invites [simp]:
  "groups_ok (m\<lparr>m_invites := is\<rparr>) = groups_ok m" "groups_disjoint (m\<lparr>m_invites := is\<rparr>) = groups_disjoint m"
  by (simp_all add: groups_ok_def groups_disjoint_def)

lemma ok_drop_invite [simp]:
  "groups_ok (drop_invite m x) = groups_ok m" "groups_disjoint (drop_invite m x) = groups_disjoint m"
  by (simp_all add: drop_invite_def)

text \<open>A new member of group \<open>l\<close> that the index did not know.\<close>

lemma add_ok:
  assumes "groups_ok m" "g_Leader g = l" "IsMember g l" "IsMember g x" "length (g_Members g) \<le> MaxGroupSize"
    and "\<And>g0 y. map_of (m_groups m) l = Some g0 \<Longrightarrow> IsMember g0 y \<Longrightarrow> IsMember g y"
  shows "groups_ok (m\<lparr>m_groups := map_put l g (m_groups m), m_byCharacter := map_put x l (m_byCharacter m)\<rparr>)"
proof (rule groups_okI, goal_cases)
  case (1 k h)
  then show ?case using assms groups_ok_group [OF assms(1), of k h] by (simp split: if_splits)
next
  case (2 y k)
  show ?case
  proof (cases "y = x")
    case True
    with 2 assms(4) show ?thesis by simp
  next
    case False
    with 2 have "map_of (m_byCharacter m) y = Some k" by simp
    from groups_ok_index [OF assms(1) this] assms(6) [of _ y] show ?thesis by (cases "k = l") auto
  qed
qed

lemma add_disjoint:
  assumes "groups_disjoint m" "map_of (m_byCharacter m) x = None"
    and "\<And>y. IsMember g y \<Longrightarrow> y = x \<or> (\<exists>g0. map_of (m_groups m) l = Some g0 \<and> IsMember g0 y)"
  shows "groups_disjoint (m\<lparr>m_groups := map_put l g (m_groups m), m_byCharacter := map_put x l (m_byCharacter m)\<rparr>)"
proof (rule disjointI, goal_cases)
  case (1 k h y)
  show ?case
  proof (cases "y = x")
    case True
    have "map_of (m_groups m) k = Some h' \<Longrightarrow> \<not> IsMember h' x" for h'
      using disjointD [OF assms(1), of k h' x] assms(2) by auto
    with 1 True show ?thesis by (auto split: if_splits)
  next
    case False
    with 1 assms(3) [of y] have "\<exists>h'. map_of (m_groups m) k = Some h' \<and> IsMember h' y"
      by (auto split: if_splits)
    then have "map_of (m_byCharacter m) y = Some k" using disjointD [OF assms(1)] by blast
    with False show ?thesis by simp
  qed
qed

lemma ensureGroup_ok: "groups_ok m \<Longrightarrow> groups_ok (fst (ensureGroup m l name now))"
  using add_ok [of m "\<lparr>g_Leader = l, g_Members = [(l, name)], g_Created = now\<rparr>" l l]
  by (auto simp: ensureGroup_def Let_def MaxGroupSize_def split: option.split)

lemma ensureGroup_disjoint:
  assumes "groups_ok m" "groups_disjoint m" "map_of (m_byCharacter m) l \<in> {None, Some l}"
  shows "groups_disjoint (fst (ensureGroup m l name now))"
proof (cases "map_of (m_groups m) l")
  case None
  then have "map_of (m_byCharacter m) l = None"
    using assms(3) groups_ok_index [OF assms(1), of l l] by auto
  from add_disjoint [OF assms(2) this, of "\<lparr>g_Leader = l, g_Members = [(l, name)], g_Created = now\<rparr>" l] None
  show ?thesis by (simp add: ensureGroup_def Let_def)
qed (use assms in \<open>simp add: ensureGroup_def\<close>)

lemma disband_maps:
  assumes "map_of (m_groups m) l = Some g"
  shows "map_of (m_groups (fst (disbandLocked m l))) k = (if k = l then None else map_of (m_groups m) k)"
    and "map_of (m_byCharacter (fst (disbandLocked m l))) x = (if IsMember g x then None else map_of (m_byCharacter m) x)"
  using assms map_of_filter_key [of "\<lambda>k. k \<notin> set (keys (g_Members g))" "m_byCharacter m" x] IsMember_keys [of x g]
  by (auto simp: disbandLocked_def)

lemma disband_ok: "groups_ok m \<Longrightarrow> groups_ok (fst (disbandLocked m l))"
proof (cases "map_of (m_groups m) l")
  case (Some g)
  assume ok: "groups_ok m"
  show ?thesis
  proof (rule groups_okI, goal_cases)
    case (1 k h)
    then show ?case using groups_ok_group [OF ok] by (simp add: disband_maps [OF Some] split: if_splits)
  next
    case (2 x k)
    then have x: "\<not> IsMember g x" "map_of (m_byCharacter m) x = Some k"
      by (simp_all add: disband_maps [OF Some] split: if_splits)
    from groups_ok_index [OF ok x(2)] x(1) Some show ?case
      by (cases "k = l") (auto simp: disband_maps [OF Some])
  qed
qed (simp add: disbandLocked_def)

lemma disband_disjoint: "groups_disjoint m \<Longrightarrow> groups_disjoint (fst (disbandLocked m l))"
proof (cases "map_of (m_groups m) l")
  case (Some g)
  assume d: "groups_disjoint m"
  show ?thesis
  proof (rule disjointI, goal_cases)
    case (1 k h x)
    then have k: "k \<noteq> l" "map_of (m_groups m) k = Some h"
      by (simp_all add: disband_maps [OF Some] split: if_splits)
    then have "map_of (m_byCharacter m) x = Some k" using disjointD [OF d] 1(2) by blast
    with k(1) show ?case using disjointD [OF d Some, of x] by (auto simp: disband_maps [OF Some])
  qed
qed (simp add: disbandLocked_def)

lemma remove_maps [simp]:
  "map_of (m_groups (remove_member m l g x)) k =
     (if k = l then Some (g\<lparr>g_Members := map_del x (g_Members g)\<rparr>) else map_of (m_groups m) k)"
  "map_of (m_byCharacter (remove_member m l g x)) y = (if y = x then None else map_of (m_byCharacter m) y)"
  by (simp_all add: remove_member_def)

lemma remove_ok:
  assumes "groups_ok m" "map_of (m_groups m) l = Some g" "x \<noteq> l"
  shows "groups_ok (remove_member m l g x)"
proof (rule groups_okI, goal_cases)
  case (1 k h)
  then show ?case
    using groups_ok_group [OF assms(1), of k] assms(2,3) length_del_le [of x "g_Members g"]
    by (auto split: if_splits intro: order.trans)
next
  case (2 y k)
  then have y: "y \<noteq> x" "map_of (m_byCharacter m) y = Some k" by (simp_all split: if_splits)
  from groups_ok_index [OF assms(1) y(2)] y(1) assms(2) show ?case by (cases "k = l") auto
qed

lemma remove_disjoint:
  assumes "groups_disjoint m" "map_of (m_groups m) l = Some g" "IsMember g x"
  shows "groups_disjoint (remove_member m l g x)"
proof (rule disjointI, goal_cases)
  case (1 k h y)
  have x: "map_of (m_byCharacter m) x = Some l" using disjointD [OF assms] .
  show ?case
  proof (cases "k = l")
    case True
    with 1 disjointD [OF assms(1,2), of y] show ?thesis by auto
  next
    case False
    with 1 disjointD [OF assms(1), of k h y] x show ?thesis by auto
  qed
qed

lemma Invite_ok: "groups_ok m \<Longrightarrow> groups_ok (fst (group_Invite m l name x now))"
  using ensureGroup_ok [of m l name now]
  by (auto simp: group_Invite_def Let_def split_beta)

lemma Invite_disjoint:
  "groups_ok m \<Longrightarrow> groups_disjoint m \<Longrightarrow> map_of (m_byCharacter m) l \<in> {None, Some l} \<Longrightarrow>
     groups_disjoint (fst (group_Invite m l name x now))"
  using ensureGroup_disjoint [of m l name now]
  by (auto simp: group_Invite_def Let_def split_beta)

lemma Accept_state:
  "fst (group_Accept m x name) =
     (case map_of (m_invites m) x of None \<Rightarrow> m
      | Some iv \<Rightarrow>
          (case (map_of (m_byCharacter m) x, map_of (m_groups m) (inv_leaderID iv)) of
             (None, Some g) \<Rightarrow>
               if length (g_Members g) \<ge> MaxGroupSize then m
               else drop_invite (m\<lparr>m_groups := map_put (inv_leaderID iv)
                        (g\<lparr>g_Members := map_put x name (g_Members g)\<rparr>) (m_groups m),
                      m_byCharacter := map_put x (inv_leaderID iv) (m_byCharacter m)\<rparr>) x
           | _ \<Rightarrow> drop_invite m x))"
  by (simp add: group_Accept_def Let_def split: option.split)

lemma Accept_ok:
  assumes "groups_ok m"
  shows "groups_ok (fst (group_Accept m x name))
    \<and> (groups_disjoint m \<longrightarrow> groups_disjoint (fst (group_Accept m x name)))"
proof -
  have "groups_ok (m\<lparr>m_groups := map_put l (g\<lparr>g_Members := map_put x name (g_Members g)\<rparr>) (m_groups m),
        m_byCharacter := map_put x l (m_byCharacter m)\<rparr>)
      \<and> (groups_disjoint m \<longrightarrow> groups_disjoint
          (m\<lparr>m_groups := map_put l (g\<lparr>g_Members := map_put x name (g_Members g)\<rparr>) (m_groups m),
             m_byCharacter := map_put x l (m_byCharacter m)\<rparr>))"
    if "map_of (m_groups m) l = Some g" "\<not> MaxGroupSize \<le> length (g_Members g)"
      "map_of (m_byCharacter m) x = None" for l g
    using add_ok [OF assms, of "g\<lparr>g_Members := map_put x name (g_Members g)\<rparr>" l x]
      add_disjoint [of m x "g\<lparr>g_Members := map_put x name (g_Members g)\<rparr>" l]
      groups_ok_group [OF assms that(1)] length_put_le [of x name "g_Members g"] that
    by auto
  with assms show ?thesis by (simp add: Accept_state split: option.split)
qed

lemma Leave_ok:
  assumes "groups_ok m"
  shows "\<exists>m'. map_option fst (group_Leave m x) = Some m' \<and> groups_ok m'
    \<and> (groups_disjoint m \<longrightarrow> groups_disjoint m')"
proof (cases "map_of (m_byCharacter m) x")
  case (Some l)
  then obtain g where g: "map_of (m_groups m) l = Some g" "IsMember g x"
    using groups_ok_index [OF assms] by blast
  show ?thesis
  proof (cases "x = l")
    case True
    then show ?thesis
      using Some disband_ok [OF assms] disband_disjoint by (simp add: group_Leave_def split_beta)
  next
    case False
    then show ?thesis
      using Some g remove_ok [OF assms g(1)] remove_disjoint [OF _ g] by (simp add: group_Leave_def)
  qed
qed (use assms in \<open>simp add: group_Leave_def\<close>)

lemma Clear_ok:
  assumes "groups_ok m"
  shows "\<exists>m'. ClearForCharacter m x = Some m' \<and> groups_ok m' \<and> (groups_disjoint m \<longrightarrow> groups_disjoint m')"
proof -
  let ?m = "drop_invite m x"
  have d: "groups_ok ?m" "groups_disjoint ?m = groups_disjoint m" using assms by simp_all
  show ?thesis
  proof (cases "map_of (m_byCharacter m) x")
    case (Some l)
    then obtain g where g: "map_of (m_groups ?m) l = Some g" "IsMember g x"
      using groups_ok_index [OF assms] by auto
    show ?thesis
    proof (cases "x = l")
      case True
      then show ?thesis
        using Some assms d disband_ok [OF d(1), of l] disband_disjoint [of ?m l]
        by (simp add: ClearForCharacter_def Let_def)
    next
      case False
      then show ?thesis
        using Some assms d g(1) remove_ok [OF d(1) g(1)] remove_disjoint [OF _ g]
        by (simp add: ClearForCharacter_def Let_def)
    qed
  qed (use assms d in \<open>simp add: ClearForCharacter_def Let_def\<close>)
qed

lemma Kick_ok:
  assumes "groups_ok m"
  shows "groups_ok (fst (group_Kick m l x)) \<and> (groups_disjoint m \<longrightarrow> groups_disjoint (fst (group_Kick m l x)))"
proof (cases "\<exists>g. l \<noteq> x \<and> map_of (m_groups m) l = Some g \<and> IsMember g x")
  case True
  then obtain g where g: "map_of (m_groups m) l = Some g" "IsMember g x" "l \<noteq> x" by blast
  then have "fst (group_Kick m l x) = remove_member m l g x" by (auto simp: group_Kick_def IsMember_def)
  with remove_ok [OF assms g(1)] remove_disjoint [OF _ g(1,2)] g(3) show ?thesis by simp
next
  case False
  then have "fst (group_Kick m l x) = m" by (auto simp: group_Kick_def IsMember_def split: option.split)
  with assms show ?thesis by simp
qed

lemma Disband_ok:
  "groups_ok m \<Longrightarrow> groups_ok (fst (group_Disband m l)) \<and>
     (groups_disjoint m \<longrightarrow> groups_disjoint (fst (group_Disband m l)))"
  using disband_ok disband_disjoint by (auto simp: group_Disband_def split_beta)

lemma group_step_ok:
  assumes "group_step guarded m r" "groups_ok m"
  shows "\<exists>m'. r = Some m' \<and> groups_ok m' \<and> (guarded \<longrightarrow> groups_disjoint m \<longrightarrow> groups_disjoint m')"
  using assms
proof (cases rule: group_step.cases)
  case (leave x)
  then show ?thesis using Leave_ok [OF assms(2), of x] by auto
next
  case (clear x)
  then show ?thesis using Clear_ok [OF assms(2), of x] by auto
next
  case (invite l name x now)
  then show ?thesis using assms(2) Invite_ok Invite_disjoint by blast
qed (use assms(2) Accept_ok Kick_ok Disband_ok in
  \<open>auto simp: group_Decline_def\<close>)

lemma group_reach_ok:
  "group_reach guarded m \<Longrightarrow> groups_ok m \<and> (guarded \<longrightarrow> groups_disjoint m)"
proof (induction rule: group_reach.induct)
  case start
  show ?case by (simp add: group_New_def groups_ok_def groups_disjoint_def)
next
  case (step m m')
  then show ?case using group_step_ok [OF step.hyps(2)] by auto
qed

text \<open>The party manager never panics and never overfills: from the empty manager, through any sequence of
  invite, accept, decline, leave, kick, disband and logout, every next operation returns (no nil group is
  dereferenced), every group holds its leader and at most six members, and an indexed character is a member
  of the group the index names.\<close>

lemma group_never_panics:
  assumes "group_reach False m"
  shows "(\<forall>r. group_step False m r \<longrightarrow> r \<noteq> None) \<and> groups_ok m
    \<and> (\<forall>c room ss. MembersInRoom m c room ss \<noteq> None)"
proof -
  have ok: "groups_ok m" using group_reach_ok [OF assms] by simp
  have "MembersInRoom m c room ss \<noteq> None" for c room ss
    using groups_ok_index [OF ok, of c] by (auto simp: MembersInRoom_def Let_def split: option.splits)
  with ok show ?thesis using group_step_ok [OF _ ok] by blast
qed

text \<open>Parties are a partition as long as only ungrouped characters and leaders invite: no character is a
  member of two groups, and two distinct characters are in the same group exactly when some group has both
  as members.\<close>

lemma guarded_groups_partition:
  assumes "group_reach True m" "a \<noteq> 0" "b \<noteq> 0" "a \<noteq> b"
  shows "(\<forall>l g l' g'. map_of (m_groups m) l = Some g \<and> map_of (m_groups m) l' = Some g' \<and>
      IsMember g a \<and> IsMember g' a \<longrightarrow> l = l')
    \<and> (SameGroup m a b \<longleftrightarrow>
        (\<exists>l g. map_of (m_groups m) l = Some g \<and> IsMember g a \<and> IsMember g b))"
proof -
  have ok: "groups_ok m" "groups_disjoint m" using group_reach_ok [OF assms(1)] by simp_all
  have 1: "\<forall>l g l' g'. map_of (m_groups m) l = Some g \<and> map_of (m_groups m) l' = Some g' \<and>
      IsMember g a \<and> IsMember g' a \<longrightarrow> l = l'"
    using ok(2) unfolding groups_disjoint_def by (metis option.inject)
  have "SameGroup m a b \<longleftrightarrow> (\<exists>l. map_of (m_byCharacter m) a = Some l \<and> map_of (m_byCharacter m) b = Some l)"
    using assms(2-4) by (auto simp: SameGroup_def split: option.splits)
  also have "\<dots> \<longleftrightarrow> (\<exists>l g. map_of (m_groups m) l = Some g \<and> IsMember g a \<and> IsMember g b)"
    using groups_ok_index [OF ok(1), of a] groups_ok_index [OF ok(1), of b] disjointD [OF ok(2)]
    by (metis option.inject)
  finally show ?thesis using 1 by blast
qed

definition sample_party :: Manager where
  "sample_party = fst (group_Accept (fst (group_Invite group_New 1 ''Mat'' 2 0)) 2 ''Egwene'')"

text \<open>Without that proviso, which neither the manager nor the \<open>group invite\<close> command enforces, the
  partition breaks: when the member 2 of the party of 1 invites 3, character 2 is a member of two groups, is
  no longer in the same group as the leader 1 of the first, and is still listed as a member there.\<close>

lemma member_invite_splits_party:
  "let m = fst (group_Invite sample_party 2 ''Egwene'' 3 0)
   in group_reach False m \<and> \<not> SameGroup m 1 2
      \<and> (\<exists>g g'. map_of (m_groups m) 1 = Some g \<and> map_of (m_groups m) 2 = Some g'
           \<and> IsMember g 2 \<and> IsMember g' 2)"
proof -
  let ?m = "fst (group_Invite sample_party 2 ''Egwene'' 3 0)"
  have "group_reach False (fst (group_Invite group_New 1 ''Mat'' 2 0))"
    by (rule group_reach.step [OF group_reach.start group_step.invite]) simp
  then have "group_reach False sample_party"
    unfolding sample_party_def by (rule group_reach.step [OF _ group_step.accept])
  then have "group_reach False ?m"
    by (rule group_reach.step [OF _ group_step.invite]) simp
  moreover have "\<not> SameGroup ?m 1 2" by code_simp
  moreover have "map_of (m_groups ?m) 1 =
      Some \<lparr>g_Leader = 1, g_Members = [(1, ''Mat''), (2, ''Egwene'')], g_Created = 0\<rparr>"
    "map_of (m_groups ?m) 2 = Some \<lparr>g_Leader = 2, g_Members = [(2, ''Egwene'')], g_Created = 0\<rparr>"
    by code_simp+
  ultimately show ?thesis by (simp add: Let_def IsMember_def)
qed

end
