(* ===== verification/Sessions.thy ===== *)
theory Sessions
  imports Keyword StableSort PartyGroup
begin

text \<open>
  The live sessions: \<open>internal/session/registry.go\<close>, the in-world part of \<open>telnet.Session\<close>, \<open>internal/visibility\<close>, the
  player matcher of \<open>cmd/keyword.go\<close>, the room broadcasts of \<open>cmd/door.go\<close> and the follow verbs of \<open>cmd/follow.go\<close>. A
  session is a cell of a heap, a pointer its address; the registry maps accounts to pointers. The list of its
  bindings is the iteration order of the Go map, the same at every snapshot of one command. What is written to a session is
  appended to one log with its address; a write never fails.
\<close>

section \<open>Sessions and the registry\<close>

record GameSession =
  gs_CharacterID :: int
  gs_CharacterName :: string
  gs_CurrentRoomID :: int
  gs_Speed :: Speed
  gs_AuthLevel :: int
  gs_Hidden :: bool
  gs_Following :: int

type_synonym sid = nat

record Sessions =
  ss_heap :: "(sid \<times> GameSession) list"
  ss_bound :: "(int \<times> sid) list"
  ss_Out :: "(sid \<times> string) list"

definition SessionAdmin :: int where "SessionAdmin = 2"

definition zero_Session :: GameSession where
  "zero_Session = \<lparr>gs_CharacterID = 0, gs_CharacterName = [], gs_CurrentRoomID = 0, gs_Speed = c_Speed zero_Core,
     gs_AuthLevel = 0, gs_Hidden = False, gs_Following = 0\<rparr>"

definition sess :: "Sessions \<Rightarrow> sid \<Rightarrow> GameSession" where
  "sess w i = map_get (ss_heap w) i zero_Session"

definition on_sess :: "sid \<Rightarrow> (GameSession \<Rightarrow> GameSession) \<Rightarrow> Sessions \<Rightarrow> Sessions" where
  "on_sess i g w = w\<lparr>ss_heap := map_put i (g (sess w i)) (ss_heap w)\<rparr>"

definition write_to :: "sid \<Rightarrow> string \<Rightarrow> Sessions \<Rightarrow> Sessions" where
  "write_to i msg w = w\<lparr>ss_Out := ss_Out w @ [(i, msg)]\<rparr>"

definition SetCurrentRoom :: "sid \<Rightarrow> int \<Rightarrow> Sessions \<Rightarrow> Sessions" where
  "SetCurrentRoom i roomID = on_sess i (\<lambda>s. s\<lparr>gs_CurrentRoomID := roomID\<rparr>)"

definition SetFollowing :: "sid \<Rightarrow> int \<Rightarrow> Sessions \<Rightarrow> Sessions" where
  "SetFollowing i charID = on_sess i (\<lambda>s. s\<lparr>gs_Following := charID\<rparr>)"

definition SetInWorld :: "sid \<Rightarrow> int \<Rightarrow> string \<Rightarrow> int \<Rightarrow> Sessions \<Rightarrow> Sessions" where
  "SetInWorld i charID name roomID =
     on_sess i (\<lambda>s. s\<lparr>gs_CharacterID := charID, gs_CharacterName := name, gs_CurrentRoomID := roomID\<rparr>)"

definition Bind :: "int \<Rightarrow> sid \<Rightarrow> Sessions \<Rightarrow> Sessions \<times> sid option" where
  "Bind accountID i w = (w\<lparr>ss_bound := map_put accountID i (ss_bound w)\<rparr>, map_of (ss_bound w) accountID)"

definition Unbind :: "int \<Rightarrow> sid \<Rightarrow> Sessions \<Rightarrow> Sessions" where
  "Unbind accountID i w =
     (if map_of (ss_bound w) accountID = Some i then w\<lparr>ss_bound := map_del accountID (ss_bound w)\<rparr> else w)"

definition session_Lookup :: "int \<Rightarrow> Sessions \<Rightarrow> sid option" where
  "session_Lookup accountID w = map_of (ss_bound w) accountID"

definition FindByCharacterName :: "string \<Rightarrow> Sessions \<Rightarrow> sid option" where
  "FindByCharacterName name w =
     map_option snd (find (\<lambda>(a, i). to_lower (gs_CharacterName (sess w i)) = to_lower name) (ss_bound w))"

definition Snapshot :: "Sessions \<Rightarrow> sid list" where
  "Snapshot w = map snd (ss_bound w)"

section \<open>Visibility and broadcasts\<close>

definition CanSee :: "Sessions \<Rightarrow> sid option \<Rightarrow> sid option \<Rightarrow> bool" where
  "CanSee w viewer target =
     (case target of None \<Rightarrow> False
      | Some t \<Rightarrow>
          if target = viewer then True
          else if \<not> gs_Hidden (sess w t) then True
          else case viewer of None \<Rightarrow> False | Some v \<Rightarrow> gs_AuthLevel (sess w v) \<ge> SessionAdmin)"

definition VisiblePeers :: "Sessions \<Rightarrow> sid option \<Rightarrow> sid list \<Rightarrow> sid list" where
  "VisiblePeers w viewer peers = filter (\<lambda>p. CanSee w viewer (Some p)) peers"

definition hears :: "Sessions \<Rightarrow> int \<Rightarrow> sid option \<Rightarrow> sid option \<Rightarrow> sid \<Rightarrow> bool" where
  "hears w roomID a b peer \<longleftrightarrow> Some peer \<noteq> a \<and> Some peer \<noteq> b \<and> gs_CurrentRoomID (sess w peer) = roomID
     \<and> (a = None \<or> CanSee w (Some peer) a)"

definition broadcastRoomExcept2 :: "int \<Rightarrow> sid option \<Rightarrow> sid option \<Rightarrow> string \<Rightarrow> Sessions \<Rightarrow> Sessions" where
  "broadcastRoomExcept2 roomID a b msg w =
     (if roomID = 0 then w
      else fold (\<lambda>peer v. if hears v roomID a b peer then write_to peer msg v else v) (Snapshot w) w)"

definition broadcastRoom :: "int \<Rightarrow> sid option \<Rightarrow> string \<Rightarrow> Sessions \<Rightarrow> Sessions" where
  "broadcastRoom roomID except msg = broadcastRoomExcept2 roomID except None msg"

definition safeActor :: "Sessions \<Rightarrow> sid \<Rightarrow> string" where
  "safeActor w i = Defang (gs_CharacterName (sess w i)) ''Someone''"

definition MatchPlayer :: "string \<Rightarrow> Sessions \<Rightarrow> sid \<Rightarrow> sid option" where
  "MatchPlayer target w self =
     (if gs_CurrentRoomID (sess w self) = 0 then None
      else let peers = filter (\<lambda>p. p \<noteq> self \<and> gs_CurrentRoomID (sess w p) = gs_CurrentRoomID (sess w self)
                   \<and> CanSee w (Some self) (Some p) \<and> gs_CharacterName (sess w p) \<noteq> []) (Snapshot w)
           in match_nth (\<lambda>p. gs_CharacterName (sess w p)) target
                (SliceStable (\<lambda>p q. gs_CharacterID (sess w p) < gs_CharacterID (sess w q)) peers))"

section \<open>Following\<close>

definition maxFollowDepth :: nat where "maxFollowDepth = 16"

definition findSessionByCharacterID :: "Sessions \<Rightarrow> int \<Rightarrow> sid option" where
  "findSessionByCharacterID w charID = find (\<lambda>p. gs_CharacterID (sess w p) = charID) (Snapshot w)"

fun cycle_walk :: "nat \<Rightarrow> Sessions \<Rightarrow> int \<Rightarrow> sid \<Rightarrow> bool" where
  "cycle_walk 0 w selfID cur = True"
| "cycle_walk (Suc n) w selfID cur =
     (let nextID = gs_Following (sess w cur)
      in if nextID = 0 then False
         else if nextID = selfID then True
         else case findSessionByCharacterID w nextID of None \<Rightarrow> False | Some next \<Rightarrow> cycle_walk n w selfID next)"

definition introducesFollowCycle :: "Sessions \<Rightarrow> sid \<Rightarrow> sid \<Rightarrow> bool" where
  "introducesFollowCycle w self leader = cycle_walk maxFollowDepth w (gs_CharacterID (sess w self)) leader"

definition clearFollow :: "sid \<Rightarrow> Sessions \<Rightarrow> Sessions" where
  "clearFollow i w =
     (if gs_Following (sess w i) = 0 then write_to i (''{{You aren'' @ [CHR 0x27] @ ''t following anyone.}}::yellow'' @ CRLF) w
      else write_to i (''{{You stop following.}}::yellow'' @ CRLF) (SetFollowing i 0 w))"

text \<open>\<open>follow <player>\<close>; the arguments are already tokenized and joined with blanks.\<close>

definition follow_verb :: "Manager \<Rightarrow> sid \<Rightarrow> string list \<Rightarrow> Sessions \<Rightarrow> Sessions" where
  "follow_verb groups i args w =
     (if args = [] then clearFollow i w
      else case MatchPlayer (join '' '' args) w i of
             None \<Rightarrow> write_to i (''{{You don'' @ [CHR 0x27] @ ''t see them here.}}::yellow'' @ CRLF) w
           | Some peer \<Rightarrow>
               if gs_CharacterID (sess w peer) = gs_CharacterID (sess w i) then clearFollow i w
               else if \<not> SameGroup groups (gs_CharacterID (sess w i)) (gs_CharacterID (sess w peer)) then
                 write_to i (''{{You can only follow members of your own party.}}::yellow'' @ CRLF) w
               else if introducesFollowCycle w i peer then
                 write_to i (''{{That would tangle the line '' @ [CHR 0xE2, CHR 0x80, CHR 0x94] @ '' you can'' @ [CHR 0x27] @ ''t follow them.}}::yellow'' @ CRLF) w
               else let w1 = SetFollowing i (gs_CharacterID (sess w peer)) w
                    in write_to i (''{{You start following '' @ safeActor w1 peer @ ''.}}::cyan'' @ CRLF)
                         (write_to peer (''{{'' @ safeActor w1 i @ '' starts following you.}}::cyan'' @ CRLF) w1))"

section \<open>Frames\<close>

lemma sess_on [simp]: "sess (on_sess i g w) j = (if j = i then g (sess w i) else sess w j)"
  by (simp add: sess_def on_sess_def map_get_put)

lemma on_sess_frame [simp]: "ss_bound (on_sess i g w) = ss_bound w" "ss_Out (on_sess i g w) = ss_Out w"
  by (simp_all add: on_sess_def)

lemma write_frame [simp]: "ss_heap (write_to i msg w) = ss_heap w" "ss_bound (write_to i msg w) = ss_bound w"
  "sess (write_to i msg w) = sess w" "Snapshot (write_to i msg w) = Snapshot w"
  "ss_Out (write_to i msg w) = ss_Out w @ [(i, msg)]"
  by (auto simp: write_to_def sess_def Snapshot_def)

lemma Snapshot_on [simp]: "Snapshot (on_sess i g w) = Snapshot w"
  by (simp add: Snapshot_def)

lemmas session_writes = SetCurrentRoom_def SetFollowing_def SetInWorld_def

text \<open>A broadcast writes the message once to every session that hears it and changes nothing else.\<close>

lemma hears_write [simp]: "hears (write_to i msg w) roomID a b = hears w roomID a b"
  by (auto simp: fun_eq_iff hears_def CanSee_def split: option.split)

lemma broadcast_spec:
  "broadcastRoomExcept2 roomID a b msg w =
     w\<lparr>ss_Out := ss_Out w @ (if roomID = 0 then [] else map (\<lambda>p. (p, msg)) (filter (hears w roomID a b) (Snapshot w)))\<rparr>"
proof -
  have "fold (\<lambda>peer v. if hears v roomID a b peer then write_to peer msg v else v) ps v =
      v\<lparr>ss_Out := ss_Out v @ map (\<lambda>p. (p, msg)) (filter (hears v roomID a b) ps)\<rparr>" for ps v
    by (induction ps arbitrary: v) (auto simp: write_to_def hears_write [unfolded write_to_def])
  then show ?thesis by (simp add: broadcastRoomExcept2_def)
qed

section \<open>Nobody follows in a circle\<close>

text \<open>An edge for every bound session that follows a character.\<close>

definition follow_edges :: "Sessions \<Rightarrow> (int \<times> int) set" where
  "follow_edges w = {(gs_CharacterID (sess w p), gs_Following (sess w p)) |p. p \<in> set (Snapshot w) \<and> gs_Following (sess w p) \<noteq> 0}"

definition sessions_ok :: "Sessions \<Rightarrow> bool" where
  "sessions_ok w \<longleftrightarrow> distinct (map fst (ss_bound w)) \<and> distinct (Snapshot w)
     \<and> (\<forall>p\<in>set (Snapshot w). \<forall>q\<in>set (Snapshot w). gs_CharacterID (sess w p) = gs_CharacterID (sess w q) \<longrightarrow>
          p = q \<or> gs_CharacterID (sess w p) = 0)
     \<and> (\<forall>p\<in>set (Snapshot w). gs_CharacterID (sess w p) = 0 \<longrightarrow> gs_Following (sess w p) = 0)"

text \<open>Every bound session belongs to a different character, so the walk of the cycle check is the only path.\<close>

lemma edge_unique:
  assumes "sessions_ok w" "p \<in> set (Snapshot w)" "(gs_CharacterID (sess w p), y) \<in> follow_edges w"
  shows "y = gs_Following (sess w p) \<and> y \<noteq> 0"
proof -
  obtain q where q: "q \<in> set (Snapshot w)" "gs_CharacterID (sess w q) = gs_CharacterID (sess w p)" "y = gs_Following (sess w q)" "y \<noteq> 0"
    using assms(3) by (auto simp: follow_edges_def)
  then have "q = p \<or> gs_CharacterID (sess w q) = 0" using assms(1,2) unfolding sessions_ok_def by blast
  with q assms(1) show ?thesis unfolding sessions_ok_def by auto
qed

lemma walk_sound:
  "sessions_ok w \<Longrightarrow> cur \<in> set (Snapshot w) \<Longrightarrow> \<not> cycle_walk n w s cur \<Longrightarrow>
   (gs_CharacterID (sess w cur), s) \<notin> (follow_edges w)\<^sup>+"
proof (induction n w s cur rule: cycle_walk.induct)
  case (2 n w s cur)
  show ?case
  proof
    assume path: "(gs_CharacterID (sess w cur), s) \<in> (follow_edges w)\<^sup>+"
    then obtain y where y: "(gs_CharacterID (sess w cur), y) \<in> follow_edges w" "(y, s) \<in> (follow_edges w)\<^sup>*"
      by (meson tranclD)
    note e = edge_unique [OF 2(2,3) y(1)]
    from e 2(4) have "y \<noteq> s" by (auto simp: Let_def split: if_splits)
    with y(2) have t: "(y, s) \<in> (follow_edges w)\<^sup>+" by (simp add: rtrancl_eq_or_trancl)
    then obtain z where "(y, z) \<in> follow_edges w" by (meson tranclD)
    then obtain q where q: "q \<in> set (Snapshot w)" "gs_CharacterID (sess w q) = y" by (auto simp: follow_edges_def)
    then obtain q' where f: "findSessionByCharacterID w y = Some q'"
      by (cases "findSessionByCharacterID w y") (auto simp: findSessionByCharacterID_def find_None_iff)
    then have q': "q' \<in> set (Snapshot w)" "gs_CharacterID (sess w q') = y"
      by (auto simp: findSessionByCharacterID_def find_Some_iff)
    have "\<not> cycle_walk n w s q'" using 2(4) e f \<open>y \<noteq> s\<close> by (simp add: Let_def split: if_splits)
    with 2(1) [of "gs_Following (sess w cur)" q'] 2(2) q' e f t \<open>y \<noteq> s\<close> show False by auto
  qed
qed simp

text \<open>What happens to the sessions of a server: a fresh connection logs in, a session enters the world as a character nobody
  plays, commands follow, unfollow and move, a stuck follower is dropped, a connection ends.\<close>

inductive session_step :: "Manager \<Rightarrow> Sessions \<Rightarrow> Sessions \<Rightarrow> bool" for groups where
  SConnect: "i \<notin> set (Snapshot w) \<Longrightarrow> sess w i = zero_Session \<Longrightarrow> session_step groups w (fst (Bind a i w))"
| SEnter: "gs_CharacterID (sess w i) = 0 \<Longrightarrow> c \<noteq> 0 \<Longrightarrow> i \<in> set (Snapshot w) \<Longrightarrow>
    findSessionByCharacterID w c = None \<Longrightarrow> session_step groups w (SetInWorld i c name room w)"
| SFollow: "session_step groups w (follow_verb groups i args w)"
| SUnfollow: "session_step groups w (clearFollow i w)"
| SMove: "session_step groups w (SetCurrentRoom i room w)"
| SRefused: "session_step groups w (SetFollowing i 0 w)"
| SUnbind: "session_step groups w (Unbind a i w)"
| SOther: "ss_bound v = ss_bound w \<Longrightarrow> (\<And>p. gs_CharacterID (sess v p) = gs_CharacterID (sess w p)
      \<and> gs_Following (sess v p) = gs_Following (sess w p)) \<Longrightarrow> session_step groups w v"

inductive session_reach :: "Manager \<Rightarrow> Sessions \<Rightarrow> bool" for groups where
  SBoot: "ss_bound w = [] \<Longrightarrow> session_reach groups w"
| SNext: "session_reach groups w \<Longrightarrow> session_step groups w v \<Longrightarrow> session_reach groups v"

inductive_simps session_reach_iff: "session_reach groups w"

definition follow_inv :: "Sessions \<Rightarrow> bool" where
  "follow_inv w \<longleftrightarrow> sessions_ok w \<and> acyclic (follow_edges w)"

lemma follow_inv_same:
  assumes "follow_inv w" "ss_bound v = ss_bound w"
    "\<And>p. p \<in> set (Snapshot w) \<Longrightarrow> gs_CharacterID (sess v p) = gs_CharacterID (sess w p) \<and> gs_Following (sess v p) = gs_Following (sess w p)"
  shows "follow_inv v"
proof -
  have "follow_edges v = follow_edges w" using assms(2,3) by (force simp: follow_edges_def Snapshot_def)
  moreover have "sessions_ok v" using assms unfolding follow_inv_def sessions_ok_def Snapshot_def by simp
  ultimately show ?thesis using assms(1) by (simp add: follow_inv_def)
qed

text \<open>Fewer bindings, or one that follows nobody more: no edge is new.\<close>

lemma follow_inv_sub:
  assumes "follow_inv w" "sessions_ok v" "follow_edges v \<subseteq> follow_edges w"
  shows "follow_inv v"
  using assms acyclic_subset by (auto simp: follow_inv_def)

lemma follow_inv_clear: "follow_inv w \<Longrightarrow> follow_inv (SetFollowing i 0 w)"
  by (rule follow_inv_sub [of w]) (auto simp: follow_inv_def sessions_ok_def follow_edges_def session_writes)

lemma bound_put: "set (Snapshot (fst (Bind a i w))) \<subseteq> insert i (set (Snapshot w))"
proof -
  have "set (map snd (map_put a i m)) \<subseteq> insert i (set (map snd m))" for m :: "(int \<times> sid) list"
    by (induction m) auto
  then show ?thesis by (simp add: Snapshot_def Bind_def)
qed

lemma bound_put_distinct: "distinct (Snapshot w) \<Longrightarrow> i \<notin> set (Snapshot w) \<Longrightarrow> distinct (Snapshot (fst (Bind a i w)))"
proof -
  have "distinct (map snd m) \<Longrightarrow> i \<notin> set (map snd m) \<Longrightarrow> distinct (map snd (map_put a i m))
      \<and> set (map snd (map_put a i m)) \<subseteq> insert i (set (map snd m))" for m :: "(int \<times> sid) list"
    by (induction m) auto
  then show "distinct (Snapshot w) \<Longrightarrow> i \<notin> set (Snapshot w) \<Longrightarrow> distinct (Snapshot (fst (Bind a i w)))"
    by (simp add: Snapshot_def Bind_def)
qed

lemma follow_inv_connect:
  assumes "follow_inv w" "i \<notin> set (Snapshot w)" "sess w i = zero_Session"
  shows "follow_inv (fst (Bind a i w))"
proof (rule follow_inv_sub [OF assms(1)])
  let ?v = "fst (Bind a i w)"
  have s: "sess ?v = sess w" by (simp add: fun_eq_iff sess_def Bind_def)
  have z: "gs_CharacterID (sess w i) = 0" "gs_Following (sess w i) = 0" by (simp_all add: assms(3) zero_Session_def)
  have ok: "sessions_ok w" using assms(1) by (simp add: follow_inv_def)
  have m: "p = i \<or> p \<in> set (Snapshot w)" if "p \<in> set (Snapshot ?v)" for p using bound_put [of a i w] that by auto
  show "follow_edges ?v \<subseteq> follow_edges w" using m z by (force simp: follow_edges_def s)
  show "sessions_ok ?v" unfolding sessions_ok_def s
  proof (intro conjI ballI impI)
    show "distinct (map fst (ss_bound ?v))" using ok by (simp add: sessions_ok_def Bind_def)
    show "distinct (Snapshot ?v)" using bound_put_distinct ok assms(2) by (simp add: sessions_ok_def)
  next
    fix p q assume "p \<in> set (Snapshot ?v)" "q \<in> set (Snapshot ?v)" "gs_CharacterID (sess w p) = gs_CharacterID (sess w q)"
    with m z ok show "p = q \<or> gs_CharacterID (sess w p) = 0" unfolding sessions_ok_def by metis
  next
    fix p assume "p \<in> set (Snapshot ?v)" "gs_CharacterID (sess w p) = 0"
    with m z ok show "gs_Following (sess w p) = 0" unfolding sessions_ok_def by metis
  qed
qed

lemma follow_inv_enter:
  assumes "follow_inv w" "gs_CharacterID (sess w i) = 0" "c \<noteq> 0" "i \<in> set (Snapshot w)" "findSessionByCharacterID w c = None"
  shows "follow_inv (SetInWorld i c name room w)"
proof (rule follow_inv_sub [OF assms(1)])
  let ?v = "SetInWorld i c name room w"
  have ok: "sessions_ok w" using assms(1) by (simp add: follow_inv_def)
  then have z: "gs_Following (sess w i) = 0" using assms(2,4) by (simp add: sessions_ok_def)
  have new: "gs_CharacterID (sess w p) \<noteq> c" if "p \<in> set (Snapshot w)" for p
    using assms(5) that by (auto simp: findSessionByCharacterID_def find_None_iff)
  show "follow_edges ?v \<subseteq> follow_edges w" using z by (auto simp: follow_edges_def session_writes)
  show "sessions_ok ?v" using ok new z assms(3) unfolding sessions_ok_def session_writes by (auto split: if_splits)
qed

lemma follow_inv_unbind: "follow_inv w \<Longrightarrow> follow_inv (Unbind a i w)"
proof (rule follow_inv_sub, assumption)
  assume inv: "follow_inv w"
  have d: "distinct (map snd m) \<Longrightarrow> distinct (map snd (map_del a m)) \<and> set (map snd (map_del a m)) \<subseteq> set (map snd m)"
    for m :: "(int \<times> sid) list" by (auto simp: map_del_def distinct_map_filter)
  have s: "sess (Unbind a i w) = sess w" by (simp add: fun_eq_iff sess_def Unbind_def)
  have sub: "set (Snapshot (Unbind a i w)) \<subseteq> set (Snapshot w)" "distinct (Snapshot (Unbind a i w))"
    using d [of "ss_bound w"] inv by (auto simp: Unbind_def Snapshot_def follow_inv_def sessions_ok_def)
  then show "follow_edges (Unbind a i w) \<subseteq> follow_edges w" by (auto simp: follow_edges_def s)
  have "distinct (map fst (ss_bound (Unbind a i w)))" using inv by (simp add: Unbind_def follow_inv_def sessions_ok_def)
  with sub inv show "sessions_ok (Unbind a i w)" unfolding follow_inv_def sessions_ok_def s by blast
qed

lemma SliceStable_mem: "match_nth name t (SliceStable lt xs) = Some p \<Longrightarrow> p \<in> set xs"
proof -
  have m: "match_loop name n kw hit ys = Some p \<Longrightarrow> p \<in> set ys" for n kw hit ys
    by (induction name n kw hit ys rule: match_loop.induct) (auto split: if_splits)
  assume "match_nth name t (SliceStable lt xs) = Some p"
  then have "p \<in> set (SliceStable lt xs)"
    by (auto simp: match_nth_def Let_def simp del: set_SliceStable dest: m split: if_splits prod.splits)
  then show "p \<in> set xs" by simp
qed

lemma MatchPlayer_facts:
  assumes "MatchPlayer t w i = Some p"
  shows "p \<in> set (Snapshot w) \<and> p \<noteq> i \<and> gs_CurrentRoomID (sess w p) = gs_CurrentRoomID (sess w i) \<and> CanSee w (Some i) (Some p)"
  using assms SliceStable_mem by (fastforce simp: MatchPlayer_def Let_def split: if_splits)

lemma follow_inv_set:
  assumes "follow_inv w" "p \<in> set (Snapshot w)" "gs_CharacterID (sess w p) \<noteq> gs_CharacterID (sess w i)"
    and "\<not> introducesFollowCycle w i p" "gs_CharacterID (sess w i) \<noteq> 0"
  shows "follow_inv (SetFollowing i (gs_CharacterID (sess w p)) w)"
proof -
  let ?c = "gs_CharacterID (sess w i)" and ?l = "gs_CharacterID (sess w p)"
  let ?v = "SetFollowing i ?l w"
  have ok: "sessions_ok w" "acyclic (follow_edges w)" using assms(1) by (simp_all add: follow_inv_def)
  have "(?l, ?c) \<notin> (follow_edges w)\<^sup>+" using walk_sound [OF ok(1) assms(2)] assms(4) by (simp add: introducesFollowCycle_def)
  then have "acyclic (insert (?c, ?l) (follow_edges w))" using ok(2) assms(3) by (simp add: rtrancl_eq_or_trancl)
  moreover have "follow_edges ?v \<subseteq> insert (?c, ?l) (follow_edges w)" by (auto simp: follow_edges_def session_writes)
  moreover have "sessions_ok ?v" using ok(1) assms(5) by (auto simp: sessions_ok_def session_writes)
  ultimately show ?thesis using acyclic_subset by (auto simp: follow_inv_def)
qed

lemma follow_inv_clear_verb: "follow_inv w \<Longrightarrow> follow_inv (clearFollow i w)"
  using follow_inv_same [of "SetFollowing i 0 w" "clearFollow i w"] follow_inv_same [of w "clearFollow i w"] follow_inv_clear [of w i]
  by (cases "gs_Following (sess w i) = 0") (simp_all add: clearFollow_def session_writes)

lemma follow_inv_verb:
  assumes "follow_inv w"
  shows "follow_inv (follow_verb groups i args w)"
proof (cases "args = [] \<or> MatchPlayer (join '' '' args) w i = None")
  case True
  then show ?thesis using follow_inv_clear_verb [OF assms] follow_inv_same [OF assms]
    by (auto simp: follow_verb_def)
next
  case False
  then obtain p where p: "args \<noteq> []" "MatchPlayer (join '' '' args) w i = Some p" by auto
  let ?c = "gs_CharacterID (sess w i)" and ?l = "gs_CharacterID (sess w p)"
  consider "?l = ?c" | "?l \<noteq> ?c" "\<not> SameGroup groups ?c ?l \<or> introducesFollowCycle w i p"
    | "?l \<noteq> ?c" "SameGroup groups ?c ?l" "\<not> introducesFollowCycle w i p" by blast
  then show ?thesis
  proof cases
    case 1
    then show ?thesis using follow_inv_clear_verb [OF assms] p by (simp add: follow_verb_def)
  next
    case 2
    then show ?thesis using follow_inv_same [OF assms] p by (simp add: follow_verb_def)
  next
    case 3
    then have "?c \<noteq> 0" by (auto simp: SameGroup_def)
    then have inv: "follow_inv (SetFollowing i ?l w)"
      using follow_inv_set [OF assms _ 3(1,3)] MatchPlayer_facts [OF p(2)] by blast
    show ?thesis using follow_inv_same [OF inv, of "follow_verb groups i args w"] p 3
      by (simp add: follow_verb_def Let_def session_writes)
  qed
qed

lemma session_step_inv: "session_step groups w v \<Longrightarrow> follow_inv w \<Longrightarrow> follow_inv v"
proof (induction rule: session_step.induct)
  case (SMove w i room)
  then show ?case by (intro follow_inv_same [OF SMove]) (simp_all add: session_writes)
next
  case (SOther v w)
  then show ?case using follow_inv_same by metis
next
  case (SConnect i w a)
  from follow_inv_connect [OF SConnect(3,1,2)] show ?case .
next
  case (SEnter w i c name room)
  from follow_inv_enter [OF SEnter(5,1-4)] show ?case .
qed (simp_all only: follow_inv_verb follow_inv_clear_verb follow_inv_clear follow_inv_unbind)

text \<open>C21: Nobody ever follows in a circle. Through every sequence of logins, take-overs, entries into the world, follows,
  unfollows, moves and disconnections the follow relation between the characters of the live sessions is acyclic,
  so the chain of an auto-follow ends by itself. The check of \<open>follow\<close> gives up after sixteen hops by refusing.\<close>

theorem follow_stays_acyclic:
  assumes "session_reach groups w"
  shows "acyclic {(gs_CharacterID (sess w p), gs_Following (sess w p)) |p. p \<in> set (Snapshot w) \<and> gs_Following (sess w p) \<noteq> 0}"
proof -
  from assms have "follow_inv w"
  proof (induction rule: session_reach.induct)
    case (SBoot w)
    then show ?case by (simp add: follow_inv_def sessions_ok_def follow_edges_def Snapshot_def acyclic_def)
  next
    case (SNext w v)
    then show ?case using session_step_inv by blast
  qed
  then show ?thesis unfolding follow_inv_def follow_edges_def by blast
qed

definition empty_Sessions :: Sessions where
  "empty_Sessions = \<lparr>ss_heap = [], ss_bound = [], ss_Out = []\<rparr>"

lemma follow_stays_acyclic_witness:
  "\<exists>w. session_reach group_New w \<and> Snapshot w = [4] \<and> (7, 7) \<notin> {(gs_CharacterID (sess w p), gs_Following (sess w p)) |p.
     p \<in> set (Snapshot w) \<and> gs_Following (sess w p) \<noteq> 0}\<^sup>+"
proof -
  let ?w = "fst (Bind 1 4 empty_Sessions)"
  have "session_step group_New empty_Sessions ?w"
    by (rule SConnect) (simp_all add: Snapshot_def empty_Sessions_def sess_def map_get_def)
  then have r: "session_reach group_New ?w" using SBoot SNext by (metis empty_Sessions_def Sessions.select_convs(2))
  moreover have "Snapshot ?w = [4]" by (simp add: Snapshot_def Bind_def empty_Sessions_def)
  ultimately show ?thesis using follow_stays_acyclic [OF r] unfolding acyclic_def by blast
qed

end
