(* ===== verification/ExitRepo.thy ===== *)
theory ExitRepo
  imports GoPrelude "HOL-Library.List_Lexorder" "HOL-Library.Char_ord"
begin

text \<open>
  Exits between rooms: \<open>internal/repo/exit.go\<close> and the in-memory store \<open>exit_memory.go\<close>. Go compares strings by
  bytes, the lexicographic order of the library. The slice of exits is the list of rows.
\<close>

section \<open>Rows\<close>

abbreviation DirNorth :: string where "DirNorth \<equiv> ''n''"
abbreviation DirSouth :: string where "DirSouth \<equiv> ''s''"
abbreviation DirEast :: string where "DirEast \<equiv> ''e''"
abbreviation DirWest :: string where "DirWest \<equiv> ''w''"
abbreviation DirUp :: string where "DirUp \<equiv> ''u''"
abbreviation DirDown :: string where "DirDown \<equiv> ''d''"
abbreviation DirNortheast :: string where "DirNortheast \<equiv> ''ne''"
abbreviation DirNorthwest :: string where "DirNorthwest \<equiv> ''nw''"
abbreviation DirSoutheast :: string where "DirSoutheast \<equiv> ''se''"
abbreviation DirSouthwest :: string where "DirSouthwest \<equiv> ''sw''"

definition DirLong :: "string \<Rightarrow> string" where
  "DirLong code =
     (if code = DirNorth then ''north'' else if code = DirSouth then ''south'' else if code = DirEast then ''east''
      else if code = DirWest then ''west'' else if code = DirUp then ''up'' else if code = DirDown then ''down''
      else if code = DirNortheast then ''northeast'' else if code = DirNorthwest then ''northwest''
      else if code = DirSoutheast then ''southeast'' else if code = DirSouthwest then ''southwest'' else code)"

record ExitFlags =
  xf_Closed :: bool
  xf_Locked :: bool
  xf_Pickable :: bool
  xf_Hidden :: bool
  xf_NoPass :: bool
  xf_AuthoredClosed :: bool
  xf_AuthoredLocked :: bool

record Exit =
  ex_ID :: int
  ex_FromRoomID :: int
  ex_ToRoomID :: int
  ex_Direction :: string
  ex_Flags :: ExitFlags
  ex_KeyExternalID :: string
  ex_LockDifficulty :: int
  ex_Description :: string

datatype exit_error = ErrExitNotFound | ErrDuplicateExit

section \<open>The store\<close>

record MemoryExitRepo =
  er_exits :: "Exit list"
  er_maxID :: int

definition NewMemoryExitRepo :: MemoryExitRepo where
  "NewMemoryExitRepo = \<lparr>er_exits = [], er_maxID = 0\<rparr>"

definition exit_insertLocked :: "MemoryExitRepo \<Rightarrow> Exit \<Rightarrow> MemoryExitRepo \<times> Exit" where
  "exit_insertLocked r e0 =
     (let mx = (if ex_ID e0 = 0 then i64 (er_maxID r + 1) else if ex_ID e0 > er_maxID r then ex_ID e0 else er_maxID r);
          e = e0\<lparr>ex_ID := (if ex_ID e0 = 0 then mx else ex_ID e0)\<rparr>
      in (\<lparr>er_exits = er_exits r @ [e], er_maxID = mx\<rparr>, e))"

definition exit_Insert :: "MemoryExitRepo \<Rightarrow> Exit \<Rightarrow> MemoryExitRepo \<times> Exit" where
  "exit_Insert r e = exit_insertLocked r e"

definition exit_Create :: "MemoryExitRepo \<Rightarrow> Exit \<Rightarrow> MemoryExitRepo \<times> (exit_error + Exit)" where
  "exit_Create r e =
     (if list_ex (\<lambda>x. ex_FromRoomID x = ex_FromRoomID e \<and> ex_Direction x = ex_Direction e) (er_exits r)
      then (r, Inl ErrDuplicateExit)
      else let (r1, x) = exit_insertLocked r e in (r1, Inr x))"

definition ListFrom :: "MemoryExitRepo \<Rightarrow> int \<Rightarrow> Exit list" where
  "ListFrom r fromRoomID = sort_key ex_Direction (filter (\<lambda>e. ex_FromRoomID e = fromRoomID) (er_exits r))"

text \<open>The lookup by id of the update loops, and their common shape: the first row with the id is rewritten.\<close>

definition exit_GetByID :: "MemoryExitRepo \<Rightarrow> int \<Rightarrow> exit_error + Exit" where
  "exit_GetByID r i = (case find (\<lambda>e. ex_ID e = i) (er_exits r) of None \<Rightarrow> Inl ErrExitNotFound | Some e \<Rightarrow> Inr e)"

fun put_exit :: "int \<Rightarrow> Exit \<Rightarrow> Exit list \<Rightarrow> Exit list" where
  "put_exit i d [] = []"
| "put_exit i d (e # es) = (if ex_ID e = i then d # es else e # put_exit i d es)"

type_synonym exit_write = "MemoryExitRepo \<times> exit_error option"

definition exit_at :: "MemoryExitRepo \<Rightarrow> int \<Rightarrow> (Exit \<Rightarrow> exit_error + Exit) \<Rightarrow> exit_write" where
  "exit_at r i f =
     (case find (\<lambda>e. ex_ID e = i) (er_exits r) of None \<Rightarrow> (r, Some ErrExitNotFound)
      | Some e \<Rightarrow> (case f e of Inl err \<Rightarrow> (r, Some err) | Inr d \<Rightarrow> (r\<lparr>er_exits := put_exit i d (er_exits r)\<rparr>, None)))"

definition UpdateFlags :: "MemoryExitRepo \<Rightarrow> int \<Rightarrow> bool \<Rightarrow> bool \<Rightarrow> exit_write" where
  "UpdateFlags r exitID closed locked =
     exit_at r exitID (\<lambda>e. Inr (e\<lparr>ex_Flags := (ex_Flags e)\<lparr>xf_Closed := closed, xf_Locked := locked\<rparr>\<rparr>))"

definition exit_Update :: "MemoryExitRepo \<Rightarrow> Exit \<Rightarrow> exit_write" where
  "exit_Update r x =
     exit_at r (ex_ID x) (\<lambda>e. Inr (e\<lparr>ex_ToRoomID := ex_ToRoomID x, ex_Description := ex_Description x,
       ex_KeyExternalID := ex_KeyExternalID x, ex_LockDifficulty := ex_LockDifficulty x,
       ex_Flags := (ex_Flags e)\<lparr>xf_Pickable := xf_Pickable (ex_Flags x), xf_Hidden := xf_Hidden (ex_Flags x),
         xf_NoPass := xf_NoPass (ex_Flags x)\<rparr>\<rparr>))"

definition FindByDirection :: "MemoryExitRepo \<Rightarrow> int \<Rightarrow> string \<Rightarrow> exit_error + Exit" where
  "FindByDirection r fromRoomID direction =
     (case find (\<lambda>e. ex_FromRoomID e = fromRoomID \<and> ex_Direction e = direction) (er_exits r) of
        None \<Rightarrow> Inl ErrExitNotFound | Some e \<Rightarrow> Inr e)"

definition restored :: "Exit \<Rightarrow> Exit" where
  "restored e = e\<lparr>ex_Flags := (ex_Flags e)\<lparr>xf_Closed := xf_AuthoredClosed (ex_Flags e),
     xf_Locked := xf_AuthoredLocked (ex_Flags e)\<rparr>\<rparr>"

definition diverged :: "int list \<Rightarrow> Exit \<Rightarrow> bool" where
  "diverged wanted e \<longleftrightarrow> ex_FromRoomID e \<in> set wanted
     \<and> \<not> (xf_Closed (ex_Flags e) = xf_AuthoredClosed (ex_Flags e) \<and> xf_Locked (ex_Flags e) = xf_AuthoredLocked (ex_Flags e))"

definition RestoreAuthored :: "MemoryExitRepo \<Rightarrow> int list \<Rightarrow> MemoryExitRepo \<times> int" where
  "RestoreAuthored r wanted =
     (if wanted = [] then (r, 0)
      else (r\<lparr>er_exits := map (\<lambda>e. if diverged wanted e then restored e else e) (er_exits r)\<rparr>,
            int (length (filter (diverged wanted) (er_exits r)))))"

section \<open>The store satisfies the row contract\<close>

definition exit_stable :: "(Exit \<Rightarrow> exit_error + Exit) \<Rightarrow> bool" where
  "exit_stable f \<longleftrightarrow> (\<forall>e d. f e = Inr d \<longrightarrow> ex_ID d = ex_ID e)"

lemma find_exit_id: "find (\<lambda>e. ex_ID e = i) es = Some e \<Longrightarrow> ex_ID e = i"
  by (induction es) (auto split: if_splits)

lemma find_put_exit:
  "find (\<lambda>e. ex_ID e = i) es = Some e \<Longrightarrow> ex_ID d = i \<Longrightarrow> find (\<lambda>e. ex_ID e = j) (put_exit i d es) =
     (if j = i then Some d else find (\<lambda>e. ex_ID e = j) es)"
proof (induction es)
  case (Cons x es)
  then show ?case by (cases "ex_ID x = i"; cases "j = i") simp_all
qed simp

interpretation exit_store: row_store exit_GetByID exit_at exit_stable ErrExitNotFound
proof
  fix s :: MemoryExitRepo and i j :: int and c d :: Exit and e :: exit_error and f :: "Exit \<Rightarrow> exit_error + Exit"
  show "exit_GetByID s i = Inl e \<Longrightarrow> e = ErrExitNotFound \<and> exit_at s i f = (s, Some ErrExitNotFound)"
    by (auto simp: exit_GetByID_def exit_at_def split: option.splits)
  show "exit_GetByID s i = Inr c \<Longrightarrow> f c = Inl e \<Longrightarrow> exit_at s i f = (s, Some e)"
    by (auto simp: exit_GetByID_def exit_at_def split: option.splits)
  have put: "exit_GetByID (fst (exit_at s i f)) k = (if k = i then Inr d else exit_GetByID s k)"
    "snd (exit_at s i f) = None"
    if "exit_GetByID s i = Inr c" "f c = Inr d" "exit_stable f" for c d k
  proof -
    have f: "find (\<lambda>e. ex_ID e = i) (er_exits s) = Some c"
      using that(1) by (simp add: exit_GetByID_def split: option.splits)
    have "ex_ID d = i" using that(2,3) find_exit_id [OF f] unfolding exit_stable_def by metis
    from find_put_exit [OF f this, of k] show "exit_GetByID (fst (exit_at s i f)) k = (if k = i then Inr d else exit_GetByID s k)"
      "snd (exit_at s i f) = None"
      by (simp_all add: exit_at_def f that(2) exit_GetByID_def)
  qed
  show "exit_GetByID s i = Inr c \<Longrightarrow> f c = Inr d \<Longrightarrow> exit_stable f \<Longrightarrow>
      snd (exit_at s i f) = None \<and> exit_GetByID (fst (exit_at s i f)) i = Inr d"
    by (simp add: put)
  show "exit_stable f \<Longrightarrow> i \<noteq> j \<Longrightarrow> exit_GetByID (fst (exit_at s i f)) j = exit_GetByID s j"
  proof (cases "exit_GetByID s i")
    case (Inr c)
    assume st: "exit_stable f" and "i \<noteq> j"
    show ?thesis
    proof (cases "f c")
      case (Inl e)
      with Inr show ?thesis by (auto simp: exit_at_def exit_GetByID_def split: option.splits)
    next
      case (Inr d)
      with put(1) [OF \<open>exit_GetByID s i = Inr c\<close> Inr st, of j] \<open>i \<noteq> j\<close> show ?thesis by simp
    qed
  qed (auto simp: exit_at_def exit_GetByID_def split: option.splits)
qed

text \<open>No two exits leave a room the same way: what \<open>Create\<close> guards and every update keeps.\<close>

definition exits_ok :: "MemoryExitRepo \<Rightarrow> bool" where
  "exits_ok r \<longleftrightarrow> distinct (map ex_ID (er_exits r))
     \<and> distinct (map (\<lambda>e. (ex_FromRoomID e, ex_Direction e)) (er_exits r))"

end
