(* ===== verification/Doors.thy ===== *)
theory Doors
  imports Sessions ExitRepo ItemRepo
begin

text \<open>
  The door verbs \<open>open\<close>, \<open>close\<close>, \<open>lock\<close>, \<open>unlock\<close> and \<open>pick\<close>: \<open>internal/cmd/door.go\<close>. A verb reads the exit, checks its
  guards on that snapshot, writes the two flags and announces. One command runs at a time here, so the snapshot
  is the row. The text is what the verb hands to \<open>WriteString\<close>; the completer is not modelled.
\<close>

section \<open>Directions and keys\<close>

definition directionAliases :: "(string \<times> string) list" where
  "directionAliases =
     [(''n'', DirNorth), (''north'', DirNorth), (''s'', DirSouth), (''south'', DirSouth), (''e'', DirEast), (''east'', DirEast),
      (''w'', DirWest), (''west'', DirWest), (''u'', DirUp), (''up'', DirUp), (''d'', DirDown), (''down'', DirDown),
      (''ne'', DirNortheast), (''northeast'', DirNortheast), (''nw'', DirNorthwest), (''northwest'', DirNorthwest),
      (''se'', DirSoutheast), (''southeast'', DirSoutheast), (''sw'', DirSouthwest), (''southwest'', DirSouthwest)]"

definition resolveDir :: "string \<Rightarrow> string option" where
  "resolveDir s = map_of directionAliases (to_lower (trim_space s))"

definition reverseDir :: "string \<Rightarrow> string" where
  "reverseDir d =
     (if d = DirNorth then DirSouth else if d = DirSouth then DirNorth else if d = DirEast then DirWest
      else if d = DirWest then DirEast else if d = DirUp then DirDown else if d = DirDown then DirUp
      else if d = DirNortheast then DirSouthwest else if d = DirSouthwest then DirNortheast
      else if d = DirNorthwest then DirSoutheast else if d = DirSoutheast then DirNorthwest else [])"

definition fits :: "string \<Rightarrow> Item \<Rightarrow> bool" where
  "fits keyExt it \<longleftrightarrow>
     it_Type it = ItemTypeKey \<and> (case it_Stats it of StKey ks \<Rightarrow> ks_KeyID ks = keyExt | _ \<Rightarrow> False) \<or> it_ExternalID it = keyExt"

definition playerHasKey :: "GameSession \<Rightarrow> Exit \<Rightarrow> MemoryItemRepo option \<Rightarrow> bool" where
  "playerHasKey s exit items =
     (if gs_AuthLevel s \<ge> SessionAdmin then True
      else if ex_KeyExternalID exit = [] then False
      else case items of None \<Rightarrow> False
        | Some r \<Rightarrow> if gs_CharacterID s = 0 then False
                   else list_ex (fits (ex_KeyExternalID exit)) (in_inventory r (gs_CharacterID s)))"

section \<open>The world of the verbs\<close>

record DoorWorld =
  dw_Sess :: Sessions
  dw_Exits :: MemoryExitRepo

definition tell :: "sid \<Rightarrow> string \<Rightarrow> DoorWorld \<Rightarrow> DoorWorld" where
  "tell i msg w = w\<lparr>dw_Sess := write_to i msg (dw_Sess w)\<rparr>"

definition yellow :: "string \<Rightarrow> string" where
  "yellow msg = ''{{'' @ msg @ ''}}::yellow'' @ CRLF"

definition cyan :: "string \<Rightarrow> string" where
  "cyan msg = ''{{'' @ msg @ ''}}::cyan'' @ CRLF"

text \<open>The exit the first argument names, or the refusal.\<close>

definition resolveDoor :: "string \<Rightarrow> string list \<Rightarrow> sid \<Rightarrow> DoorWorld \<Rightarrow> string + Exit \<times> string" where
  "resolveDoor verb args i w =
     (let room = gs_CurrentRoomID (sess (dw_Sess w) i)
      in if room = 0 then Inl (yellow (''You are nowhere '' @ [CHR 0xE2, CHR 0x80, CHR 0x94] @ '' there is no door here.''))
         else case args of [] \<Rightarrow> Inl (yellow (''Usage: '' @ verb @ '' <direction>''))
           | a # as \<Rightarrow>
               (case resolveDir a of None \<Rightarrow> Inl (yellow (''That isn'' @ [CHR 0x27] @ ''t a direction.''))
                | Some dir \<Rightarrow>
                    (case FindByDirection (dw_Exits w) room dir of
                       Inl e \<Rightarrow> Inl (yellow ''There is no door that way.'')
                     | Inr exit \<Rightarrow> if xf_Hidden (ex_Flags exit) then Inl (yellow ''There is no door that way.'')
                                  else Inr (exit, dir))))"

definition announce :: "sid \<Rightarrow> Exit \<Rightarrow> string \<Rightarrow> string \<Rightarrow> string \<Rightarrow> DoorWorld \<Rightarrow> DoorWorld" where
  "announce i exit dir nearMsg farMsg w =
     (let s1 = broadcastRoom (gs_CurrentRoomID (sess (dw_Sess w) i)) (Some i) nearMsg (dw_Sess w);
          w1 = w\<lparr>dw_Sess := s1\<rparr>; rev = reverseDir dir
      in if rev = [] \<or> ex_ToRoomID exit = 0 then w1
         else case FindByDirection (dw_Exits w) (ex_ToRoomID exit) rev of
                Inl e \<Rightarrow> w1
              | Inr farExit \<Rightarrow> if xf_Hidden (ex_Flags farExit) then w1
                              else w1\<lparr>dw_Sess := broadcastRoom (ex_ToRoomID exit) None farMsg s1\<rparr>)"

text \<open>The write of the flags, the announcement in both rooms and the confirmation, which every verb ends with.\<close>

definition commit ::
    "sid \<Rightarrow> Exit \<Rightarrow> string \<Rightarrow> bool \<Rightarrow> bool \<Rightarrow> string \<Rightarrow> (string \<Rightarrow> string \<Rightarrow> string) \<Rightarrow> (string \<Rightarrow> string) \<Rightarrow> (string \<Rightarrow> string)
       \<Rightarrow> DoorWorld \<Rightarrow> DoorWorld" where
  "commit i exit dir closed locked failed near far you w =
     (case UpdateFlags (dw_Exits w) (ex_ID exit) closed locked of
        (r, Some e) \<Rightarrow> tell i (''{{'' @ failed @ ''}}::red'' @ CRLF) (w\<lparr>dw_Exits := r\<rparr>)
      | (r, None) \<Rightarrow>
          let w1 = w\<lparr>dw_Exits := r\<rparr>; actor = safeActor (dw_Sess w1) i; long = DirLong dir; rev = DirLong (reverseDir dir)
          in tell i (cyan (you long)) (announce i exit dir (cyan (near actor long)) (cyan (far rev)) w1))"

section \<open>The verbs\<close>

definition door_open :: "string list \<Rightarrow> sid \<Rightarrow> DoorWorld \<Rightarrow> DoorWorld" where
  "door_open args i w =
     (case resolveDoor ''open'' args i w of Inl msg \<Rightarrow> tell i msg w
      | Inr (exit, dir) \<Rightarrow>
          if \<not> xf_Closed (ex_Flags exit) then tell i (yellow ''It is already open.'') w
          else if xf_Locked (ex_Flags exit) then tell i (yellow ''It is locked.'') w
          else commit i exit dir False False ''It refuses to budge right now.''
                 (\<lambda>actor long. actor @ '' opens the '' @ long @ '' door.'') (\<lambda>rev. ''The '' @ rev @ '' door swings open.'')
                 (\<lambda>long. ''You open the '' @ long @ '' door.'') w)"

definition door_close :: "string list \<Rightarrow> sid \<Rightarrow> DoorWorld \<Rightarrow> DoorWorld" where
  "door_close args i w =
     (case resolveDoor ''close'' args i w of Inl msg \<Rightarrow> tell i msg w
      | Inr (exit, dir) \<Rightarrow>
          if xf_Closed (ex_Flags exit) then tell i (yellow ''It is already closed.'') w
          else if xf_NoPass (ex_Flags exit) then tell i (yellow ''There is no door there to close.'') w
          else commit i exit dir True False ''It refuses to budge right now.''
                 (\<lambda>actor long. actor @ '' closes the '' @ long @ '' door.'') (\<lambda>rev. ''The '' @ rev @ '' door swings shut.'')
                 (\<lambda>long. ''You close the '' @ long @ '' door.'') w)"

definition no_key :: string where "no_key = yellow (''You don'' @ [CHR 0x27] @ ''t have the key.'')"

definition wont_turn :: string where "wont_turn = ''The lock won'' @ [CHR 0x27] @ ''t turn right now.''"

definition door_lock :: "MemoryItemRepo option \<Rightarrow> string list \<Rightarrow> sid \<Rightarrow> DoorWorld \<Rightarrow> DoorWorld" where
  "door_lock items args i w =
     (case resolveDoor ''lock'' args i w of Inl msg \<Rightarrow> tell i msg w
      | Inr (exit, dir) \<Rightarrow>
          if xf_Locked (ex_Flags exit) then tell i (yellow ''It is already locked.'') w
          else if \<not> xf_Closed (ex_Flags exit) then tell i (yellow ''You must close it first.'') w
          else if \<not> playerHasKey (sess (dw_Sess w) i) exit items then tell i no_key w
          else commit i exit dir True True wont_turn
                 (\<lambda>actor long. actor @ '' locks the '' @ long @ '' door.'') (\<lambda>rev. ''You hear the '' @ rev @ '' door lock.'')
                 (\<lambda>long. ''You lock the '' @ long @ '' door.'') w)"

definition door_unlock :: "MemoryItemRepo option \<Rightarrow> string list \<Rightarrow> sid \<Rightarrow> DoorWorld \<Rightarrow> DoorWorld" where
  "door_unlock items args i w =
     (case resolveDoor ''unlock'' args i w of Inl msg \<Rightarrow> tell i msg w
      | Inr (exit, dir) \<Rightarrow>
          if \<not> xf_Locked (ex_Flags exit) then tell i (yellow ''It is not locked.'') w
          else if \<not> playerHasKey (sess (dw_Sess w) i) exit items then tell i no_key w
          else commit i exit dir True False wont_turn
                 (\<lambda>actor long. actor @ '' unlocks the '' @ long @ '' door.'') (\<lambda>rev. ''You hear the '' @ rev @ '' door unlock.'')
                 (\<lambda>long. ''You unlock the '' @ long @ '' door.'') w)"

definition door_pick :: "string list \<Rightarrow> sid \<Rightarrow> DoorWorld \<Rightarrow> DoorWorld" where
  "door_pick args i w =
     (case resolveDoor ''pick'' args i w of Inl msg \<Rightarrow> tell i msg w
      | Inr (exit, dir) \<Rightarrow>
          if \<not> xf_Locked (ex_Flags exit) then tell i (yellow ''It is not locked.'') w
          else if \<not> xf_Pickable (ex_Flags exit) then tell i (yellow ''This lock cannot be picked.'') w
          else if gs_AuthLevel (sess (dw_Sess w) i) < SessionAdmin then
            tell i (yellow ''You fumble with the lock but lack the skill.'') w
          else commit i exit dir True False (''The lock won'' @ [CHR 0x27] @ ''t yield right now.'')
                 (\<lambda>actor long. actor @ '' picks the '' @ long @ '' lock.'') (\<lambda>rev. ''You hear the '' @ rev @ '' lock click open.'')
                 (\<lambda>long. ''The '' @ long @ '' lock yields to your tools.'') w)"

datatype door_verb = DOpen | DClose | DLock | DUnlock | DPick

fun run_door :: "door_verb \<Rightarrow> MemoryItemRepo option \<Rightarrow> string list \<Rightarrow> sid \<Rightarrow> DoorWorld \<Rightarrow> DoorWorld" where
  "run_door DOpen items = door_open"
| "run_door DClose items = door_close"
| "run_door DLock items = door_lock items"
| "run_door DUnlock items = door_unlock items"
| "run_door DPick items = door_pick"

section \<open>What a verb changes\<close>

lemma door_frames [simp]: "dw_Exits (tell i msg w) = dw_Exits w" "dw_Exits (announce i exit dir a b w) = dw_Exits w"
  by (auto simp: tell_def announce_def Let_def split: sum.split)

lemma commit_exits [simp]: "dw_Exits (commit i exit dir c l failed near far you w) = fst (UpdateFlags (dw_Exits w) (ex_ID exit) c l)"
  by (simp add: commit_def Let_def split: prod.split option.split)

definition set_flags :: "bool \<Rightarrow> bool \<Rightarrow> Exit \<Rightarrow> Exit" where
  "set_flags c l e = e\<lparr>ex_Flags := (ex_Flags e)\<lparr>xf_Closed := c, xf_Locked := l\<rparr>\<rparr>"

lemma set_flags_stable: "exit_stable (\<lambda>e. Inr (set_flags c l e))"
  by (simp add: exit_stable_def set_flags_def)

lemma UpdateFlags_rows:
  "exit_GetByID (fst (UpdateFlags r i c l)) j =
     (if j = i then case exit_GetByID r i of Inl e \<Rightarrow> Inl e | Inr e \<Rightarrow> Inr (set_flags c l e) else exit_GetByID r j)"
proof -
  have "UpdateFlags r i c l = exit_at r i (\<lambda>e. Inr (set_flags c l e))" by (simp add: UpdateFlags_def set_flags_def)
  then show ?thesis by (simp only: exit_store.get_upd [OF set_flags_stable] sum.case)
qed

text \<open>When a verb acts on an exit, and the flags it leaves.\<close>

definition door_allowed :: "door_verb \<Rightarrow> bool \<Rightarrow> bool \<Rightarrow> ExitFlags \<Rightarrow> bool" where
  "door_allowed v key admin f =
     (case v of DOpen \<Rightarrow> xf_Closed f \<and> \<not> xf_Locked f | DClose \<Rightarrow> \<not> xf_Closed f \<and> \<not> xf_NoPass f
      | DLock \<Rightarrow> xf_Closed f \<and> \<not> xf_Locked f \<and> key | DUnlock \<Rightarrow> xf_Locked f \<and> key
      | DPick \<Rightarrow> xf_Locked f \<and> xf_Pickable f \<and> admin)"

definition verb_name :: "door_verb \<Rightarrow> string" where
  "verb_name v = (case v of DOpen \<Rightarrow> ''open'' | DClose \<Rightarrow> ''close'' | DLock \<Rightarrow> ''lock'' | DUnlock \<Rightarrow> ''unlock'' | DPick \<Rightarrow> ''pick'')"

lemma run_door_refused: "resolveDoor (verb_name v) args i w = Inl msg \<Longrightarrow> dw_Exits (run_door v items args i w) = dw_Exits w"
  by (cases v) (simp_all add: verb_name_def door_open_def door_close_def door_lock_def door_unlock_def door_pick_def)

lemma run_door_found:
  assumes "resolveDoor (verb_name v) args i w = Inr (exit, dir)"
  shows "dw_Exits (run_door v items args i w) =
    (if door_allowed v (playerHasKey (sess (dw_Sess w) i) exit items) (gs_AuthLevel (sess (dw_Sess w) i) \<ge> SessionAdmin) (ex_Flags exit)
     then fst (UpdateFlags (dw_Exits w) (ex_ID exit) (v \<noteq> DOpen) (v = DLock)) else dw_Exits w)"
  using assms
  by (cases v) (auto simp: verb_name_def door_allowed_def door_open_def door_close_def door_lock_def door_unlock_def door_pick_def)

lemma resolveDoor_row:
  assumes "resolveDoor verb args i w = Inr (exit, dir)"
  shows "exit \<in> set (er_exits (dw_Exits w)) \<and> \<not> xf_Hidden (ex_Flags exit)
     \<and> FindByDirection (dw_Exits w) (gs_CurrentRoomID (sess (dw_Sess w) i)) dir = Inr exit"
proof -
  have f: "FindByDirection (dw_Exits w) (gs_CurrentRoomID (sess (dw_Sess w) i)) dir = Inr exit" "\<not> xf_Hidden (ex_Flags exit)"
    using assms by (auto simp: resolveDoor_def Let_def split: if_splits list.splits option.splits sum.splits)
  then obtain "find (\<lambda>e. ex_FromRoomID e = gs_CurrentRoomID (sess (dw_Sess w) i) \<and> ex_Direction e = dir) (er_exits (dw_Exits w)) = Some exit"
    by (auto simp: FindByDirection_def split: option.splits)
  then have "exit \<in> set (er_exits (dw_Exits w))" unfolding find_Some_iff by force
  with f show ?thesis by simp
qed

lemma row_by_id: "distinct (map ex_ID (er_exits r)) \<Longrightarrow> e \<in> set (er_exits r) \<Longrightarrow> exit_GetByID r (ex_ID e) = Inr e"
proof -
  assume d: "distinct (map ex_ID (er_exits r))" and e: "e \<in> set (er_exits r)"
  have "find (\<lambda>x. ex_ID x = ex_ID e) es = Some e" if "distinct (map ex_ID es)" "e \<in> set es" for es
    using that by (induction es) (auto simp: image_iff)
  with d e show ?thesis by (simp add: exit_GetByID_def)
qed

lemma run_door_rows:
  assumes "distinct (map ex_ID (er_exits (dw_Exits w)))" "resolveDoor (verb_name v) args i w = Inr (exit, dir)"
  shows "exit_GetByID (dw_Exits w) (ex_ID exit) = Inr exit \<and>
    exit_GetByID (dw_Exits (run_door v items args i w)) j =
      (if j = ex_ID exit \<and> door_allowed v (playerHasKey (sess (dw_Sess w) i) exit items)
            (gs_AuthLevel (sess (dw_Sess w) i) \<ge> SessionAdmin) (ex_Flags exit)
       then Inr (set_flags (v \<noteq> DOpen) (v = DLock) exit) else exit_GetByID (dw_Exits w) j)"
proof -
  have r: "exit_GetByID (dw_Exits w) (ex_ID exit) = Inr exit"
    using row_by_id [OF assms(1)] resolveDoor_row [OF assms(2)] by blast
  then show ?thesis unfolding run_door_found [OF assms(2)] by (simp add: UpdateFlags_rows)
qed

section \<open>A small world for the examples\<close>

definition plain_exit :: Exit where
  "plain_exit = \<lparr>ex_ID = 0, ex_FromRoomID = 1, ex_ToRoomID = 2, ex_Direction = DirNorth,
     ex_Flags = \<lparr>xf_Closed = True, xf_Locked = False, xf_Pickable = False, xf_Hidden = False, xf_NoPass = False,
       xf_AuthoredClosed = True, xf_AuthoredLocked = False\<rparr>,
     ex_KeyExternalID = [], ex_LockDifficulty = 0, ex_Description = []\<rparr>"

definition door_near :: Exit where "door_near = plain_exit\<lparr>ex_ID := 1\<rparr>"

definition door_far :: Exit where
  "door_far = plain_exit\<lparr>ex_ID := 2, ex_FromRoomID := 2, ex_ToRoomID := 1, ex_Direction := DirSouth\<rparr>"

definition door_east :: Exit where
  "door_east = plain_exit\<lparr>ex_ID := 3, ex_Direction := DirEast, ex_Flags := (ex_Flags plain_exit)\<lparr>xf_Locked := True\<rparr>\<rparr>"

definition door_world :: DoorWorld where
  "door_world = \<lparr>dw_Sess = \<lparr>ss_heap = [(0, zero_Session\<lparr>gs_CurrentRoomID := 1, gs_AuthLevel := SessionAdmin\<rparr>),
       (1, zero_Session\<lparr>gs_CurrentRoomID := 2\<rparr>)], ss_bound = [(1, 0), (2, 1)], ss_Out = []\<rparr>,
     dw_Exits = \<lparr>er_exits = [door_near, door_far, door_east], er_maxID = 3\<rparr>\<rparr>"

lemmas door_examples = plain_exit_def door_near_def door_far_def door_east_def

lemma door_world_ids: "distinct (map ex_ID (er_exits (dw_Exits door_world)))"
  by (simp add: door_world_def door_examples)

lemma door_world_resolve:
  "resolveDoor verb [DirNorth] 0 door_world = Inr (door_near, DirNorth)" "resolveDoor verb [DirEast] 0 door_world = Inr (door_east, DirEast)"
proof -
  have "resolveDir DirNorth = Some DirNorth" "resolveDir DirEast = Some DirEast" by code_simp+
  then show "resolveDoor verb [DirNorth] 0 door_world = Inr (door_near, DirNorth)"
    "resolveDoor verb [DirEast] 0 door_world = Inr (door_east, DirEast)"
    by (simp_all add: resolveDoor_def door_world_def sess_def map_get_def FindByDirection_def door_examples)
qed

lemma door_world_facts:
  "sess (dw_Sess door_world) 0 = zero_Session\<lparr>gs_CurrentRoomID := 1, gs_AuthLevel := SessionAdmin\<rparr>"
  "gs_CurrentRoomID (sess (dw_Sess door_world) 1) = 2" "Snapshot (dw_Sess door_world) = [0, 1]"
  "exit_GetByID (dw_Exits door_world) 3 = Inr door_east" "FindByDirection (dw_Exits door_world) 2 DirSouth = Inr door_far"
  by (simp_all add: door_world_def sess_def map_get_def Snapshot_def exit_GetByID_def FindByDirection_def door_examples)

text \<open>C24: What a door verb does. It changes at most the row of the exit the player named in the room, only when its guard allows
  it (open: closed and not locked; close: open and passable; lock: closed, not locked, with the key; unlock:
  locked, with the key; pick: locked, pickable, by an administrator), it sets exactly the two flags, and every
  other row, the far side of the same door included, stays as it was.\<close>

theorem door_verbs_exact:
  assumes "distinct (map ex_ID (er_exits (dw_Exits w)))"
  shows "exit_GetByID (dw_Exits (run_door v items args i w)) j =
    (case resolveDoor (verb_name v) args i w of Inl msg \<Rightarrow> exit_GetByID (dw_Exits w) j
     | Inr (exit, dir) \<Rightarrow>
         if j = ex_ID exit \<and> door_allowed v (playerHasKey (sess (dw_Sess w) i) exit items)
              (gs_AuthLevel (sess (dw_Sess w) i) \<ge> SessionAdmin) (ex_Flags exit)
         then Inr (exit\<lparr>ex_Flags := (ex_Flags exit)\<lparr>xf_Closed := (v \<noteq> DOpen), xf_Locked := (v = DLock)\<rparr>\<rparr>)
         else exit_GetByID (dw_Exits w) j)"
proof (cases "resolveDoor (verb_name v) args i w")
  case (Inl msg)
  then show ?thesis by (simp add: run_door_refused)
next
  case (Inr x)
  obtain exit dir where x: "x = (exit, dir)" by fastforce
  from run_door_rows [OF assms Inr [unfolded x], of items j] show ?thesis by (simp add: Inr x set_flags_def)
qed

lemma door_verbs_exact_witness:
  "exit_GetByID (dw_Exits (run_door DOpen None [DirNorth] 0 door_world)) 1
     = Inr (door_near\<lparr>ex_Flags := (ex_Flags door_near)\<lparr>xf_Closed := False, xf_Locked := False\<rparr>\<rparr>)"
  using door_verbs_exact [OF door_world_ids, of DOpen None "[DirNorth]" 0 1]
  by (simp add: door_world_resolve door_allowed_def) (simp add: door_examples)

section \<open>Locks hold\<close>

text \<open>The convention the move command relies on.\<close>

definition locks_closed :: "MemoryExitRepo \<Rightarrow> bool" where
  "locks_closed r \<longleftrightarrow> (\<forall>e\<in>set (er_exits r). (xf_Locked (ex_Flags e) \<longrightarrow> xf_Closed (ex_Flags e))
     \<and> (xf_AuthoredLocked (ex_Flags e) \<longrightarrow> xf_AuthoredClosed (ex_Flags e)))"

lemma put_exit_set: "set (put_exit i d es) \<subseteq> insert d (set es)"
  by (induction es) auto

lemma exit_at_locks:
  assumes "locks_closed r" "\<And>e d. e \<in> set (er_exits r) \<Longrightarrow> f e = Inr d \<Longrightarrow> (xf_Locked (ex_Flags d) \<longrightarrow> xf_Closed (ex_Flags d))
      \<and> (xf_AuthoredLocked (ex_Flags d) \<longrightarrow> xf_AuthoredClosed (ex_Flags d))"
  shows "locks_closed (fst (exit_at r i f))"
proof (cases "find (\<lambda>e. ex_ID e = i) (er_exits r)")
  case (Some e)
  then have "e \<in> set (er_exits r)" unfolding find_Some_iff by force
  with assms Some show ?thesis
    by (auto simp: exit_at_def locks_closed_def dest: put_exit_set [THEN subsetD] split: sum.split)
qed (simp add: exit_at_def assms(1))

lemma UpdateFlags_locks: "locks_closed r \<Longrightarrow> (l \<longrightarrow> c) \<Longrightarrow> locks_closed (fst (UpdateFlags r i c l))"
  unfolding UpdateFlags_def by (rule exit_at_locks) (auto simp: locks_closed_def)

lemma run_door_locks: "locks_closed (dw_Exits w) \<Longrightarrow> locks_closed (dw_Exits (run_door v items args i w))"
  by (cases "resolveDoor (verb_name v) args i w") (auto simp: run_door_refused run_door_found intro: UpdateFlags_locks)

lemma restore_locks: "locks_closed r \<Longrightarrow> locks_closed (fst (RestoreAuthored r rooms))"
  by (auto simp: locks_closed_def RestoreAuthored_def restored_def)

lemma exit_Update_locks: "locks_closed r \<Longrightarrow> locks_closed (fst (exit_Update r x))"
  unfolding exit_Update_def by (rule exit_at_locks) (auto simp: locks_closed_def)

text \<open>C25: A lock is undone only by the key, an administrator, or a gap. If a verb takes the lock off an exit, it was \<open>unlock\<close>
  by a player who holds the key (or an administrator), or \<open>pick\<close> on a pickable lock by an administrator, or \<open>close\<close> on an exit
  that was locked while it stood open, for which nobody is asked for a key; the last cannot happen while every locked
  exit is closed.\<close>

theorem lock_needs_key:
  assumes "distinct (map ex_ID (er_exits (dw_Exits w)))" "exit_GetByID (dw_Exits w) j = Inr c" "xf_Locked (ex_Flags c)"
    and "exit_GetByID (dw_Exits (run_door v items args i w)) j = Inr d" "\<not> xf_Locked (ex_Flags d)"
  shows "v = DUnlock \<and> playerHasKey (sess (dw_Sess w) i) c items
     \<or> v = DPick \<and> xf_Pickable (ex_Flags c) \<and> gs_AuthLevel (sess (dw_Sess w) i) \<ge> SessionAdmin
     \<or> v = DClose \<and> \<not> xf_Closed (ex_Flags c) \<and> \<not> locks_closed (dw_Exits w)"
proof (cases "resolveDoor (verb_name v) args i w")
  case (Inl msg)
  then show ?thesis using assms by (simp add: run_door_refused)
next
  case (Inr x)
  obtain exit dir where x: "x = (exit, dir)" by fastforce
  note found = Inr [unfolded x]
  note rows = run_door_rows [OF assms(1) found, of items j]
  have row: "exit \<in> set (er_exits (dw_Exits w))" using resolveDoor_row [OF found] by blast
  have j: "j = ex_ID exit" "door_allowed v (playerHasKey (sess (dw_Sess w) i) exit items)
      (gs_AuthLevel (sess (dw_Sess w) i) \<ge> SessionAdmin) (ex_Flags exit)" and lk: "v \<noteq> DLock"
    using rows assms(2-5) by (auto simp: set_flags_def split: if_splits)
  have "c = exit" using rows j(1) assms(2) by simp
  with j(2) lk assms(3) row show ?thesis by (cases v) (auto simp: door_allowed_def locks_closed_def)
qed

lemma lock_needs_key_witness:
  "playerHasKey (sess (dw_Sess door_world) 0) door_east None \<and>
   exit_GetByID (dw_Exits (run_door DUnlock None [DirEast] 0 door_world)) 3
     = Inr (set_flags True False door_east)"
proof -
  have key: "playerHasKey (sess (dw_Sess door_world) 0) door_east None" by (simp add: playerHasKey_def door_world_facts)
  have d: "exit_GetByID (dw_Exits (run_door DUnlock None [DirEast] 0 door_world)) 3 = Inr (set_flags True False door_east)"
    using run_door_rows [OF door_world_ids door_world_resolve(2), of DUnlock None 3] key
    by (simp add: door_allowed_def) (simp add: door_examples)
  have "xf_Locked (ex_Flags door_east)" "\<not> xf_Locked (ex_Flags (set_flags True False door_east))"
    by (simp_all add: door_examples set_flags_def)
  from lock_needs_key [OF door_world_ids door_world_facts(4) this(1) d this(2)] d show ?thesis by simp
qed

datatype exit_op = XVerb door_verb "MemoryItemRepo option" "string list" sid | XRestore "int list" | XEdit Exit
  | XSessions Sessions

fun run_exit_op :: "exit_op \<Rightarrow> DoorWorld \<Rightarrow> DoorWorld" where
  "run_exit_op (XVerb v items args i) w = run_door v items args i w"
| "run_exit_op (XRestore rooms) w = w\<lparr>dw_Exits := fst (RestoreAuthored (dw_Exits w) rooms)\<rparr>"
| "run_exit_op (XEdit e) w = w\<lparr>dw_Exits := fst (exit_Update (dw_Exits w) e)\<rparr>"
| "run_exit_op (XSessions s) w = w\<lparr>dw_Sess := s\<rparr>"

text \<open>Exits that are closed whenever they are locked, as the move command takes for granted, keep that under every verb,
  reset and edit.\<close>

lemma locks_stay_closed: "locks_closed (dw_Exits w) \<Longrightarrow> locks_closed (dw_Exits (fold run_exit_op ops w))"
proof (induction ops arbitrary: w)
  case (Cons op ops)
  have "locks_closed (dw_Exits (run_exit_op op w))"
    using Cons.prems by (cases op) (simp_all add: run_door_locks restore_locks exit_Update_locks)
  from Cons.IH [OF this] show ?case by simp
qed simp

section \<open>The far side of a door\<close>

lemma find_put:
  assumes "distinct (map ex_ID es)" "e \<in> set es" "P (g e) = P e" "ex_ID e = i"
  shows "find P (put_exit i (g e) es) = map_option (\<lambda>x. if ex_ID x = i then g x else x) (find P es)"
  using assms
proof (induction es)
  case (Cons x es)
  show ?case
  proof (cases "ex_ID x = i")
    case True
    then have "x = e" using Cons.prems by (auto simp: image_iff)
    moreover have "map_option (\<lambda>x. if ex_ID x = i then g x else x) (find P es) = find P es"
    proof (cases "find P es")
      case (Some y)
      then have "y \<in> set es" unfolding find_Some_iff by force
      then have "ex_ID y \<noteq> i" using Cons.prems True by (auto simp: image_iff)
      then show ?thesis using Some by simp
    qed simp
    ultimately show ?thesis using Cons.prems by simp
  next
    case False
    with Cons show ?thesis by auto
  qed
qed simp

lemma UpdateFlags_direction:
  assumes "distinct (map ex_ID (er_exits r))" "e \<in> set (er_exits r)"
  shows "FindByDirection (fst (UpdateFlags r (ex_ID e) c l)) room dir =
    (case FindByDirection r room dir of Inl x \<Rightarrow> Inl x | Inr x \<Rightarrow> Inr (if ex_ID x = ex_ID e then set_flags c l x else x))"
proof -
  let ?P = "\<lambda>e. ex_FromRoomID e = room \<and> ex_Direction e = dir"
  have "exit_GetByID r (ex_ID e) = Inr e" using row_by_id [OF assms] .
  then have "fst (UpdateFlags r (ex_ID e) c l) = r\<lparr>er_exits := put_exit (ex_ID e) (set_flags c l e) (er_exits r)\<rparr>"
    by (simp add: UpdateFlags_def exit_at_def exit_GetByID_def set_flags_def split: option.splits)
  moreover have "find ?P (put_exit (ex_ID e) (set_flags c l e) (er_exits r)) =
      map_option (\<lambda>x. if ex_ID x = ex_ID e then set_flags c l x else x) (find ?P (er_exits r))"
    by (rule find_put [OF assms]) (simp_all add: set_flags_def)
  ultimately show ?thesis by (cases "find ?P (er_exits r)") (simp_all add: FindByDirection_def)
qed

text \<open>The far side of a door is told and left behind. Opening a door announces in the room behind it that the
  door swings open there; but that room's exit is another row, which stays closed, so whoever stands there still
  finds the way closed.\<close>

lemma far_side_stays_closed:
  assumes "distinct (map ex_ID (er_exits (dw_Exits w)))"
    and "resolveDoor ''open'' args i w = Inr (exit, dir)" "xf_Closed (ex_Flags exit)" "\<not> xf_Locked (ex_Flags exit)"
    and "ex_ToRoomID exit = room" "room \<noteq> 0" "reverseDir dir \<noteq> []"
    and "FindByDirection (dw_Exits w) room (reverseDir dir) = Inr far"
    and "\<not> xf_Hidden (ex_Flags far)" "xf_Closed (ex_Flags far)" "ex_ID far \<noteq> ex_ID exit"
  shows "FindByDirection (dw_Exits (door_open args i w)) room (reverseDir dir) = Inr far
    \<and> (\<forall>p\<in>set (Snapshot (dw_Sess w)). gs_CurrentRoomID (sess (dw_Sess w) p) = room \<longrightarrow>
        (p, cyan (''The '' @ DirLong (reverseDir dir) @ '' door swings open.'')) \<in> set (ss_Out (dw_Sess (door_open args i w))))"
proof -
  note row = resolveDoor_row [OF assms(2)]
  have e: "exit_GetByID (dw_Exits w) (ex_ID exit) = Inr exit" using row_by_id [OF assms(1)] row by blast
  define r where "r = fst (UpdateFlags (dw_Exits w) (ex_ID exit) False False)"
  have ok: "UpdateFlags (dw_Exits w) (ex_ID exit) False False = (r, None)"
    using e by (simp add: r_def UpdateFlags_def exit_at_def exit_GetByID_def prod_eq_iff split: option.splits)
  have far: "FindByDirection r room (reverseDir dir) = Inr far"
    using UpdateFlags_direction [OF assms(1), of exit False False room "reverseDir dir"] row assms(8,11) by (simp add: r_def)
  obtain near you where o: "door_open args i w = tell i you (announce i exit dir near
      (cyan (''The '' @ DirLong (reverseDir dir) @ '' door swings open.'')) (w\<lparr>dw_Exits := r\<rparr>))"
    using assms(2-4) by (simp add: door_open_def commit_def ok Let_def)
  obtain m where m: "m = cyan (''The '' @ DirLong (reverseDir dir) @ '' door swings open.'')" by simp
  let ?s = "broadcastRoom (gs_CurrentRoomID (sess (dw_Sess w) i)) (Some i) near (dw_Sess w)"
  have s: "Snapshot ?s = Snapshot (dw_Sess w)" "sess ?s = sess (dw_Sess w)"
    by (simp_all add: broadcastRoom_def broadcast_spec Snapshot_def sess_def fun_eq_iff)
  have a: "dw_Sess (announce i exit dir near m (w\<lparr>dw_Exits := r\<rparr>)) = broadcastRoom room None m ?s"
    using assms(5-7,9) far by (simp add: announce_def Let_def)
  have "(p, m) \<in> set (ss_Out (broadcastRoom room None m ?s))"
    if "p \<in> set (Snapshot (dw_Sess w))" "gs_CurrentRoomID (sess (dw_Sess w) p) = room" for p
    using that assms(6) s by (auto simp: broadcastRoom_def broadcast_spec [of room None] hears_def)
  then show ?thesis using far a unfolding o m [symmetric] by (simp add: tell_def)
qed

end
