(* ===== verification/RoomRepo.thy ===== *)
theory RoomRepo
  imports GoPrelude
begin

text \<open>
  Rooms: \<open>internal/repo/room.go\<close> and the in-memory store \<open>room_memory.go\<close>. The two indices of the store share pointers
  to rows, so a row is a cell of a heap and an index maps to its address; times are nanoseconds and the clock
  reading of an insertion is an argument. A Go map of extra descriptions is the list of its pairs in the order it is visited.
\<close>

section \<open>Rows\<close>

type_synonym Sector = string

abbreviation SectorCity :: Sector where "SectorCity \<equiv> ''city''"
abbreviation SectorUnderwater :: Sector where "SectorUnderwater \<equiv> ''underwater''"
abbreviation SectorAir :: Sector where "SectorAir \<equiv> ''air''"

record RoomFlags =
  rf_Indoors :: bool
  rf_NoPVP :: bool
  rf_NoTeleport :: bool
  rf_Dark :: bool
  rf_Silent :: bool
  rf_Peaceful :: bool
  rf_NoMap :: bool
  rf_Bindable :: bool

record Room =
  rm_ID :: int
  rm_ExternalID :: string
  rm_ZoneID :: int
  rm_Name :: string
  rm_ShortDesc :: string
  rm_LongDesc :: string
  rm_Flags :: RoomFlags
  rm_Sector :: Sector
  rm_LightLevel :: int
  rm_CoordX :: int
  rm_CoordY :: int
  rm_CoordZ :: int
  rm_CoordsAnchor :: bool
  rm_ExtraDescs :: "(string \<times> string) list"
  rm_CreatedAt :: "int option"

datatype room_error = ErrRoomNotFound | ErrInvalidExternalID | ErrDuplicateExternalID

section \<open>The store\<close>

record MemoryRoomRepo =
  rr_heap :: "Room list"
  rr_byID :: "(int \<times> nat) list"
  rr_byExt :: "(string \<times> nat) list"
  rr_maxID :: int

definition NewMemoryRoomRepo :: MemoryRoomRepo where
  "NewMemoryRoomRepo = \<lparr>rr_heap = [], rr_byID = [], rr_byExt = [], rr_maxID = 0\<rparr>"

definition normalizeExtraDescs :: "(string \<times> string) list \<Rightarrow> (string \<times> string) list" where
  "normalizeExtraDescs m = fold (\<lambda>(k, v). map_put (to_lower (trim_space k)) v) m []"

definition room_insertLocked :: "MemoryRoomRepo \<Rightarrow> Room \<Rightarrow> int \<Rightarrow> MemoryRoomRepo \<times> Room" where
  "room_insertLocked r room now =
     (let mx = (if rm_ID room = 0 then i64 (rr_maxID r + 1) else if rm_ID room > rr_maxID r then rm_ID room else rr_maxID r);
          stored = room\<lparr>rm_ID := (if rm_ID room = 0 then mx else rm_ID room),
            rm_CreatedAt := (if rm_CreatedAt room = None then Some now else rm_CreatedAt room)\<rparr>;
          p = length (rr_heap r)
      in (\<lparr>rr_heap = rr_heap r @ [stored], rr_byID = map_put (rm_ID stored) p (rr_byID r),
            rr_byExt = (if rm_ExternalID stored \<noteq> [] then map_put (rm_ExternalID stored) p (rr_byExt r) else rr_byExt r),
            rr_maxID = mx\<rparr>, stored))"

definition DefaultLightLevel :: int where "DefaultLightLevel = 100"

definition room_Insert :: "MemoryRoomRepo \<Rightarrow> Room \<Rightarrow> int \<Rightarrow> MemoryRoomRepo \<times> Room" where
  "room_Insert r room now =
     room_insertLocked r (room\<lparr>rm_ExtraDescs := normalizeExtraDescs (rm_ExtraDescs room),
       rm_LightLevel := (if rm_LightLevel room = 0 \<and> \<not> rf_Dark (rm_Flags room) then DefaultLightLevel
                         else rm_LightLevel room)\<rparr>) now"

definition room_Create :: "MemoryRoomRepo \<Rightarrow> Room \<Rightarrow> int \<Rightarrow> MemoryRoomRepo \<times> (room_error + Room)" where
  "room_Create r room now =
     (if rm_ExternalID room = [] then (r, Inl ErrInvalidExternalID)
      else if map_of (rr_byExt r) (rm_ExternalID room) \<noteq> None then (r, Inl ErrDuplicateExternalID)
      else let (r1, stored) = room_insertLocked r (room\<lparr>rm_Sector := (if rm_Sector room = [] then SectorCity else rm_Sector room),
                 rm_ExtraDescs := normalizeExtraDescs (rm_ExtraDescs room)\<rparr>) now
           in (r1, Inr stored))"

definition room_FindByID :: "MemoryRoomRepo \<Rightarrow> int \<Rightarrow> room_error + Room" where
  "room_FindByID r i = (case map_of (rr_byID r) i of None \<Rightarrow> Inl ErrRoomNotFound | Some p \<Rightarrow> Inr (rr_heap r ! p))"

definition room_FindByExternalID :: "MemoryRoomRepo \<Rightarrow> string \<Rightarrow> room_error + Room" where
  "room_FindByExternalID r ext =
     (case map_of (rr_byExt r) ext of None \<Rightarrow> Inl ErrRoomNotFound | Some p \<Rightarrow> Inr (rr_heap r ! p))"

definition CountByZone :: "MemoryRoomRepo \<Rightarrow> int \<Rightarrow> int" where
  "CountByZone r zoneID = int (length (filter (\<lambda>(i, p). rm_ZoneID (rr_heap r ! p) = zoneID) (rr_byID r)))"

definition ListIDsByZone :: "MemoryRoomRepo \<Rightarrow> int \<Rightarrow> int list" where
  "ListIDsByZone r zoneID = map fst (filter (\<lambda>(i, p). rm_ZoneID (rr_heap r ! p) = zoneID) (rr_byID r))"

definition room_ListAll :: "MemoryRoomRepo \<Rightarrow> Room list" where
  "room_ListAll r = sort_key rm_ID (map (\<lambda>(i, p). rr_heap r ! p) (rr_byID r))"

text \<open>An update writes through the pointer of the id index.\<close>

definition room_at :: "MemoryRoomRepo \<Rightarrow> int \<Rightarrow> (Room \<Rightarrow> Room) \<Rightarrow> MemoryRoomRepo \<times> room_error option" where
  "room_at r i g =
     (case map_of (rr_byID r) i of None \<Rightarrow> (r, Some ErrRoomNotFound)
      | Some p \<Rightarrow> (r\<lparr>rr_heap := (rr_heap r)[p := g (rr_heap r ! p)]\<rparr>, None))"

definition room_Update :: "MemoryRoomRepo \<Rightarrow> Room \<Rightarrow> MemoryRoomRepo \<times> room_error option" where
  "room_Update r x =
     room_at r (rm_ID x) (\<lambda>e. e\<lparr>rm_Name := rm_Name x, rm_ShortDesc := rm_ShortDesc x, rm_LongDesc := rm_LongDesc x,
       rm_Flags := rm_Flags x, rm_Sector := (if rm_Sector x \<noteq> [] then rm_Sector x else rm_Sector e),
       rm_LightLevel := rm_LightLevel x, rm_ExtraDescs := normalizeExtraDescs (rm_ExtraDescs x)\<rparr>)"

definition UpdateCoords :: "MemoryRoomRepo \<Rightarrow> int \<Rightarrow> int \<Rightarrow> int \<Rightarrow> int \<Rightarrow> MemoryRoomRepo \<times> room_error option" where
  "UpdateCoords r i x y z = room_at r i (\<lambda>e. e\<lparr>rm_CoordX := x, rm_CoordY := y, rm_CoordZ := z\<rparr>)"

section \<open>The indices agree\<close>

text \<open>Every address is a cell; the cell of an id has that id, the cell of an external id has that external id and is
  the cell of its id, and no id lies above the counter.\<close>

definition room_index :: "Room list \<Rightarrow> (int \<Rightarrow> nat option) \<Rightarrow> (string \<Rightarrow> nat option) \<Rightarrow> int \<Rightarrow> bool" where
  "room_index h byID byExt m \<longleftrightarrow> (\<forall>i p. byID i = Some p \<longrightarrow> p < length h \<and> rm_ID (h ! p) = i \<and> i \<le> m)
     \<and> (\<forall>x p. byExt x = Some p \<longrightarrow> p < length h \<and> rm_ExternalID (h ! p) = x \<and> byID (rm_ID (h ! p)) = Some p)"

definition rooms_ok :: "MemoryRoomRepo \<Rightarrow> bool" where
  "rooms_ok r \<longleftrightarrow> room_index (rr_heap r) (map_of (rr_byID r)) (map_of (rr_byExt r)) (rr_maxID r)"

text \<open>Both lookups see the same row, and the row of an id carries the id.\<close>

lemma rooms_ok_lookup:
  "rooms_ok r \<Longrightarrow> room_FindByExternalID r x = Inr room \<Longrightarrow> rm_ExternalID room = x \<and> room_FindByID r (rm_ID room) = Inr room"
  by (auto simp: rooms_ok_def room_index_def room_FindByExternalID_def room_FindByID_def split: option.splits)

lemma room_index_set:
  "room_index h byID byExt m \<Longrightarrow> rm_ID e = rm_ID (h ! p) \<Longrightarrow> rm_ExternalID e = rm_ExternalID (h ! p) \<Longrightarrow>
   room_index (h[p := e]) byID byExt m"
proof -
  assume a: "room_index h byID byExt m" "rm_ID e = rm_ID (h ! p)" "rm_ExternalID e = rm_ExternalID (h ! p)"
  have "rm_ID (h[p := e] ! q) = rm_ID (h ! q) \<and> rm_ExternalID (h[p := e] ! q) = rm_ExternalID (h ! q)"
    if "q < length h" for q using a(2,3) that by (cases "q = p") auto
  with a(1) show ?thesis unfolding room_index_def by simp
qed

lemma room_at_ok:
  assumes "rooms_ok r" "\<And>e. rm_ID (g e) = rm_ID e \<and> rm_ExternalID (g e) = rm_ExternalID e"
  shows "rooms_ok (fst (room_at r i g))"
  using assms room_index_set by (simp add: rooms_ok_def room_at_def split: option.split)

lemma room_index_add:
  assumes "room_index h byID byExt m" "byID (rm_ID s) = None" "m \<le> m'" "rm_ID s \<le> m'"
  shows "room_index (h @ [s]) (byID(rm_ID s \<mapsto> length h)) (if b then byExt(rm_ExternalID s \<mapsto> length h) else byExt) m'"
proof -
  have id: "p < length h" "(h @ [s]) ! p = h ! p" "rm_ID (h ! p) = i" "i \<le> m'" if "byID i = Some p" for i p
  proof -
    have "p < length h \<and> rm_ID (h ! p) = i \<and> i \<le> m" using assms(1) that by (simp add: room_index_def)
    then show "p < length h" "(h @ [s]) ! p = h ! p" "rm_ID (h ! p) = i" "i \<le> m'"
      using assms(3) by (auto simp: nth_append)
  qed
  have ext: "p < length h" "(h @ [s]) ! p = h ! p" "rm_ExternalID (h ! p) = x" "byID (rm_ID (h ! p)) = Some p"
    "rm_ID (h ! p) \<noteq> rm_ID s" if "byExt x = Some p" for x p
  proof -
    show p: "p < length h" "rm_ExternalID (h ! p) = x" "byID (rm_ID (h ! p)) = Some p"
      using assms(1) that by (auto simp: room_index_def)
    show "(h @ [s]) ! p = h ! p" using p by (simp add: nth_append)
    show "rm_ID (h ! p) \<noteq> rm_ID s" using p(3) assms(2) by auto
  qed
  show ?thesis unfolding room_index_def
  proof (intro conjI allI impI)
    fix i p assume "(byID(rm_ID s \<mapsto> length h)) i = Some p"
    then have c: "i = rm_ID s \<and> p = length h \<or> byID i = Some p" by (auto split: if_splits)
    show "p < length (h @ [s])" using c id(1) by fastforce
    show "rm_ID ((h @ [s]) ! p) = i" using c id(2,3) by auto
    show "i \<le> m'" using c id(4) assms(4) by auto
  next
    fix x p assume "(if b then byExt(rm_ExternalID s \<mapsto> length h) else byExt) x = Some p"
    then have c: "x = rm_ExternalID s \<and> p = length h \<or> byExt x = Some p" by (auto split: if_splits)
    show "p < length (h @ [s])" using c ext(1) by fastforce
    show "rm_ExternalID ((h @ [s]) ! p) = x" using c ext(2,3) by auto
    show "(byID(rm_ID s \<mapsto> length h)) (rm_ID ((h @ [s]) ! p)) = Some p" using c ext(2,4,5) by auto
  qed
qed

lemma room_insert_ok:
  assumes "rooms_ok r" "0 \<le> rr_maxID r" "rr_maxID r < MaxInt64" "map_of (rr_byID r) (rm_ID room) = None \<or> rm_ID room = 0"
  shows "rooms_ok (fst (room_insertLocked r room now))"
proof -
  have i64: "i64 (rr_maxID r + 1) = rr_maxID r + 1" using assms(2,3) by (intro i64_id) auto
  have fresh: "map_of (rr_byID r) (rr_maxID r + 1) = None"
    using assms(1) unfolding rooms_ok_def room_index_def by (meson add_le_same_cancel1 not_None_eq not_one_le_zero)
  define mx where "mx = rr_maxID (fst (room_insertLocked r room now))"
  define stored where "stored = snd (room_insertLocked r room now)"
  have e: "fst (room_insertLocked r room now) = \<lparr>rr_heap = rr_heap r @ [stored],
      rr_byID = map_put (rm_ID stored) (length (rr_heap r)) (rr_byID r),
      rr_byExt = (if rm_ExternalID stored \<noteq> [] then map_put (rm_ExternalID stored) (length (rr_heap r)) (rr_byExt r)
                  else rr_byExt r), rr_maxID = mx\<rparr>"
    by (simp add: stored_def mx_def room_insertLocked_def Let_def)
  have b: "rr_maxID r \<le> mx" "rm_ID stored \<le> mx" "map_of (rr_byID r) (rm_ID stored) = None"
    using assms(4) fresh by (auto simp: stored_def mx_def room_insertLocked_def Let_def i64)
  from room_index_add [OF assms(1) [unfolded rooms_ok_def] b(3,1,2), of "rm_ExternalID stored \<noteq> []"] show ?thesis
    unfolding e rooms_ok_def by (cases "rm_ExternalID stored = []") simp_all
qed

end
