(* ===== verification/Moves.thy ===== *)
theory Moves
  imports Doors RoomRepo CharacterRepo
begin

text \<open>
  The move commands and the auto-follow chain: \<open>internal/cmd/move.go\<close>. The bus is wired and is a log; the registry is wired;
  rendering the room to the movers is output only and left out, refusals and notices are kept. The in-memory stores
  fail only with a missing row, so the branches for other store errors do not occur.
\<close>

section \<open>State\<close>

datatype move_event = EvLeft int int int | EvEntered int int int

record MoveWorld =
  mw_Sess :: Sessions
  mw_Exits :: MemoryExitRepo
  mw_Rooms :: MemoryRoomRepo
  mw_Chars :: MemoryCharacterRepo
  mw_Events :: "move_event list"

definition sectorGate :: "Sector \<Rightarrow> Speed \<Rightarrow> string option" where
  "sectorGate sector speed =
     (if sector = SectorAir then
        if sp_FlyFt speed > 0 then None
        else Some (''The air offers no purchase '' @ [CHR 0xE2, CHR 0x80, CHR 0x94] @ '' you cannot fly.'')
      else if sector = SectorUnderwater then
        if sp_SwimFt speed > 0 then None
        else Some (''The water closes over your head '' @ [CHR 0xE2, CHR 0x80, CHR 0x94] @ '' you cannot swim that deep.'')
      else None)"

definition gate_of :: "MoveWorld \<Rightarrow> int \<Rightarrow> Speed \<Rightarrow> string option" where
  "gate_of w toRoom speed =
     (case room_FindByID (mw_Rooms w) toRoom of Inl e \<Rightarrow> None | Inr dest \<Rightarrow> sectorGate (rm_Sector dest) speed)"

definition say :: "sid \<Rightarrow> string \<Rightarrow> MoveWorld \<Rightarrow> MoveWorld" where
  "say i msg w = w\<lparr>mw_Sess := write_to i msg (mw_Sess w)\<rparr>"

section \<open>Moving one session\<close>

text \<open>The two events, the session and the row, which \<open>moveDir\<close> and \<open>followAlong\<close> write in the same order.\<close>

definition step_into :: "sid \<Rightarrow> int \<Rightarrow> int \<Rightarrow> MoveWorld \<Rightarrow> MoveWorld" where
  "step_into i fromRoom toRoom w =
     (let c = gs_CharacterID (sess (mw_Sess w) i)
      in w\<lparr>mw_Sess := SetCurrentRoom i toRoom (mw_Sess w),
           mw_Chars := (if c \<noteq> 0 then fst (repo_RecordRoom (mw_Chars w) c toRoom) else mw_Chars w),
           mw_Events := mw_Events w @ (if c \<noteq> 0 then [EvLeft c fromRoom toRoom, EvEntered c fromRoom toRoom] else [])\<rparr>)"

text \<open>Why an exit cannot be used, for the mover and for a follower.\<close>

definition exit_refusal :: "(exit_error + Exit) \<Rightarrow> string option" where
  "exit_refusal x =
     (case x of Inl e \<Rightarrow> Some (''You can'' @ [CHR 0x27] @ ''t go that way.'')
      | Inr exit \<Rightarrow>
          if xf_Hidden (ex_Flags exit) then Some (''You can'' @ [CHR 0x27] @ ''t go that way.'')
          else if xf_NoPass (ex_Flags exit) then Some ''An unseen force bars your way.''
          else if xf_Locked (ex_Flags exit) then Some ''The door is locked.''
          else if xf_Closed (ex_Flags exit) then Some ''The door is closed.'' else None)"

definition follow_refusal :: "(exit_error + Exit) \<Rightarrow> string option" where
  "follow_refusal x =
     (case x of Inl e \<Rightarrow> Some (''you can'' @ [CHR 0x27] @ ''t go that way'')
      | Inr exit \<Rightarrow>
          if xf_Hidden (ex_Flags exit) then Some (''you can'' @ [CHR 0x27] @ ''t go that way'')
          else if xf_NoPass (ex_Flags exit) then Some ''an unseen force bars the way''
          else if xf_Locked (ex_Flags exit) then Some ''the door is locked''
          else if xf_Closed (ex_Flags exit) then Some ''the door is closed'' else None)"

definition refuse_follow :: "sid \<Rightarrow> sid \<Rightarrow> string \<Rightarrow> MoveWorld \<Rightarrow> MoveWorld" where
  "refuse_follow peer leader reason w =
     say peer (yellow (''You couldn'' @ [CHR 0x27] @ ''t keep up with '' @ safeActor (mw_Sess w) leader @ '': '' @ reason))
       (w\<lparr>mw_Sess := SetFollowing peer 0 (mw_Sess w)\<rparr>)"

definition followAlong :: "sid \<Rightarrow> sid \<Rightarrow> string \<Rightarrow> int \<Rightarrow> int \<Rightarrow> MoveWorld \<Rightarrow> MoveWorld \<times> bool" where
  "followAlong peer leader dir fromRoom toRoom w =
     (let x = FindByDirection (mw_Exits w) fromRoom dir
      in case follow_refusal x of Some reason \<Rightarrow> (refuse_follow peer leader reason w, False)
         | None \<Rightarrow>
             (case x of Inl e \<Rightarrow> (w, False)
              | Inr exit \<Rightarrow>
                  (case gate_of w (ex_ToRoomID exit) (gs_Speed (sess (mw_Sess w) peer)) of
                     Some msg \<Rightarrow> (refuse_follow peer leader msg w, False)
                   | None \<Rightarrow>
                       if ex_ToRoomID exit \<noteq> toRoom then (refuse_follow peer leader ''you lose them in the press'' w, False)
                       else (step_into peer fromRoom (ex_ToRoomID exit) w, True))))"

section \<open>The chain\<close>

text \<open>The loop over a snapshot; \<open>d\<close> is how many levels of followers of followers may still be opened.\<close>

fun chain_loop :: "nat \<Rightarrow> string \<Rightarrow> int \<Rightarrow> int \<Rightarrow> sid \<Rightarrow> sid list \<Rightarrow> MoveWorld \<Rightarrow> MoveWorld" where
  "chain_loop d dir fromRoom toRoom leader [] w = w"
| "chain_loop d dir fromRoom toRoom leader (peer # peers) w =
     (if peer = leader \<or> gs_Following (sess (mw_Sess w) peer) \<noteq> gs_CharacterID (sess (mw_Sess w) leader)
         \<or> gs_CurrentRoomID (sess (mw_Sess w) peer) \<noteq> fromRoom
      then chain_loop d dir fromRoom toRoom leader peers w
      else case followAlong peer leader dir fromRoom toRoom w of
             (w1, False) \<Rightarrow> chain_loop d dir fromRoom toRoom leader peers w1
           | (w1, True) \<Rightarrow>
               chain_loop d dir fromRoom toRoom leader peers
                 (if d = 0 \<or> gs_CharacterID (sess (mw_Sess w1) peer) = 0 then w1
                  else chain_loop (d - 1) dir fromRoom toRoom peer (Snapshot (mw_Sess w1)) w1))"

definition chainFollowers :: "nat \<Rightarrow> string \<Rightarrow> int \<Rightarrow> int \<Rightarrow> sid \<Rightarrow> MoveWorld \<Rightarrow> MoveWorld" where
  "chainFollowers d dir fromRoom toRoom leader w =
     (if gs_CharacterID (sess (mw_Sess w) leader) = 0 then w
      else chain_loop d dir fromRoom toRoom leader (Snapshot (mw_Sess w)) w)"

definition moveDir :: "string \<Rightarrow> sid \<Rightarrow> MoveWorld \<Rightarrow> MoveWorld" where
  "moveDir dir i w =
     (let fromRoom = gs_CurrentRoomID (sess (mw_Sess w) i); x = FindByDirection (mw_Exits w) fromRoom dir
      in if fromRoom = 0 then say i (''You are nowhere '' @ [CHR 0xE2, CHR 0x80, CHR 0x94] @ '' cannot move.'' @ CRLF) w
         else case exit_refusal x of Some msg \<Rightarrow> say i (msg @ CRLF) w
           | None \<Rightarrow>
               (case x of Inl e \<Rightarrow> w
                | Inr exit \<Rightarrow>
                    (case gate_of w (ex_ToRoomID exit) (gs_Speed (sess (mw_Sess w) i)) of
                       Some msg \<Rightarrow> say i (msg @ CRLF) w
                     | None \<Rightarrow> chainFollowers (maxFollowDepth - 1) dir fromRoom (ex_ToRoomID exit) i
                                (step_into i fromRoom (ex_ToRoomID exit) w))))"

section \<open>What the chain does to the sessions\<close>

text \<open>The exit the leader took, as it stands for the followers.\<close>

definition way_open :: "MoveWorld \<Rightarrow> string \<Rightarrow> int \<Rightarrow> int \<Rightarrow> bool" where
  "way_open w dir fromRoom toRoom \<longleftrightarrow> (\<exists>exit. FindByDirection (mw_Exits w) fromRoom dir = Inr exit \<and> ex_ToRoomID exit = toRoom
     \<and> \<not> xf_Hidden (ex_Flags exit) \<and> \<not> xf_NoPass (ex_Flags exit) \<and> \<not> xf_Locked (ex_Flags exit) \<and> \<not> xf_Closed (ex_Flags exit))"

abbreviation player :: "MoveWorld \<Rightarrow> sid \<Rightarrow> GameSession" where "player w p \<equiv> sess (mw_Sess w) p"

definition trails_to :: "MoveWorld \<Rightarrow> int \<Rightarrow> sid \<Rightarrow> bool" where
  "trails_to w c p \<longleftrightarrow> p \<in> set (Snapshot (mw_Sess w)) \<and> (gs_CharacterID (player w p), c) \<in> (follow_edges (mw_Sess w))\<^sup>+"

text \<open>From \<open>w\<close> to \<open>v\<close> sessions that trail the character \<open>c\<close> went from one room to the other, or were refused and dropped; the rows
  of the store went with them.\<close>

definition carried :: "int \<Rightarrow> int \<Rightarrow> int \<Rightarrow> MoveWorld \<Rightarrow> MoveWorld \<Rightarrow> bool" where
  "carried c fromRoom toRoom w v \<longleftrightarrow>
     ss_bound (mw_Sess v) = ss_bound (mw_Sess w) \<and> mw_Exits v = mw_Exits w \<and> mw_Rooms v = mw_Rooms w
     \<and> (\<forall>p. player v p = player w p \<or> trails_to w c p \<and> gs_CurrentRoomID (player w p) = fromRoom \<and>
          (player v p = (player w p)\<lparr>gs_CurrentRoomID := toRoom\<rparr>
           \<or> player v p = (player w p)\<lparr>gs_Following := 0\<rparr> \<and> gate_of w toRoom (gs_Speed (player w p)) \<noteq> None))
     \<and> (\<forall>j. repo_GetByID (mw_Chars v) j = (case repo_GetByID (mw_Chars w) j of Inl e \<Rightarrow> Inl e
          | Inr ch \<Rightarrow> Inr (if j \<noteq> 0 \<and> (\<exists>p. gs_CharacterID (player w p) = j \<and> gs_CurrentRoomID (player w p) = fromRoom
                                       \<and> gs_CurrentRoomID (player v p) = toRoom)
                          then ch\<lparr>ch_CurrentRoomID := toRoom\<rparr> else ch)))"

lemma room_write: "repo_GetByID (fst (repo_RecordRoom r i room)) j =
    (if j = i then case repo_GetByID r i of Inl e \<Rightarrow> Inl e | Inr c \<Rightarrow> Inr (c\<lparr>ch_CurrentRoomID := room\<rparr>)
     else repo_GetByID r j)"
proof -
  have "keeps_identity (\<lambda>c. Inr (c\<lparr>ch_CurrentRoomID := room\<rparr>))" by (simp add: keeps_identity_def)
  from char_store.get_upd [OF this, of r i j] show ?thesis by (simp only: repo_RecordRoom_def sum.case)
qed

lemma follow_open:
  assumes "way_open w dir fromRoom toRoom"
  shows "followAlong peer leader dir fromRoom toRoom w =
    (case gate_of w toRoom (gs_Speed (player w peer)) of
       Some msg \<Rightarrow> (refuse_follow peer leader msg w, False) | None \<Rightarrow> (step_into peer fromRoom toRoom w, True))"
  using assms by (auto simp: way_open_def followAlong_def follow_refusal_def split: option.split)

lemma refuse_facts [simp]:
  "player (refuse_follow peer leader msg w) p = (if p = peer then (player w p)\<lparr>gs_Following := 0\<rparr> else player w p)"
  "ss_bound (mw_Sess (refuse_follow peer leader msg w)) = ss_bound (mw_Sess w)" "mw_Exits (refuse_follow peer leader msg w) = mw_Exits w"
  "mw_Rooms (refuse_follow peer leader msg w) = mw_Rooms w" "mw_Chars (refuse_follow peer leader msg w) = mw_Chars w"
  by (simp_all add: refuse_follow_def say_def session_writes)

lemma step_facts [simp]:
  "player (step_into i fromRoom toRoom w) p = (if p = i then (player w p)\<lparr>gs_CurrentRoomID := toRoom\<rparr> else player w p)"
  "ss_bound (mw_Sess (step_into i fromRoom toRoom w)) = ss_bound (mw_Sess w)" "mw_Exits (step_into i fromRoom toRoom w) = mw_Exits w"
  "mw_Rooms (step_into i fromRoom toRoom w) = mw_Rooms w"
  "mw_Chars (step_into i fromRoom toRoom w) = (if gs_CharacterID (player w i) \<noteq> 0
     then fst (repo_RecordRoom (mw_Chars w) (gs_CharacterID (player w i)) toRoom) else mw_Chars w)"
  by (simp_all add: step_into_def Let_def session_writes)

lemma gate_frame: "mw_Rooms v = mw_Rooms w \<Longrightarrow> gate_of v room speed = gate_of w room speed"
  by (simp add: gate_of_def)

lemma carried_refl: "carried c fromRoom toRoom w w" if "fromRoom \<noteq> toRoom"
  using that by (auto simp: carried_def split: sum.split)

lemma carried_player:
  assumes "carried c fromRoom toRoom w v"
  shows "gs_CharacterID (player v p) = gs_CharacterID (player w p) \<and> gs_Speed (player v p) = gs_Speed (player w p)"
proof -
  from assms consider "player v p = player w p" | "player v p = (player w p)\<lparr>gs_CurrentRoomID := toRoom\<rparr>"
    | "player v p = (player w p)\<lparr>gs_Following := 0\<rparr>" unfolding carried_def by blast
  then show ?thesis by cases simp_all
qed

text \<open>A session that still follows the leader from the old room has not been touched yet.\<close>

lemma carried_untouched:
  assumes "carried c fromRoom toRoom w v" "fromRoom \<noteq> toRoom" "gs_CurrentRoomID (player v p) = fromRoom" "gs_Following (player v p) \<noteq> 0"
  shows "player v p = player w p"
proof -
  from assms(1) consider "player v p = player w p" | "player v p = (player w p)\<lparr>gs_CurrentRoomID := toRoom\<rparr>"
    | "player v p = (player w p)\<lparr>gs_Following := 0\<rparr>" unfolding carried_def by blast
  then show ?thesis using assms(2-4) by cases simp_all
qed

text \<open>One follower more: refused, or moved with its row.\<close>

lemma carried_refuse:
  assumes "carried c fromRoom toRoom w v" "trails_to w c p" "player v p = player w p" "gs_CurrentRoomID (player w p) = fromRoom"
    and "gate_of w toRoom (gs_Speed (player w p)) \<noteq> None"
  shows "carried c fromRoom toRoom w (refuse_follow p leader msg v)"
proof -
  let ?v = "refuse_follow p leader msg v"
  have room: "gs_CurrentRoomID (player ?v q) = gs_CurrentRoomID (player v q)" for q by simp
  have pl: "player ?v q = player w q \<or> trails_to w c q \<and> gs_CurrentRoomID (player w q) = fromRoom \<and>
      (player ?v q = (player w q)\<lparr>gs_CurrentRoomID := toRoom\<rparr>
       \<or> player ?v q = (player w q)\<lparr>gs_Following := 0\<rparr> \<and> gate_of w toRoom (gs_Speed (player w q)) \<noteq> None)" for q
    using assms unfolding carried_def by (cases "q = p") auto
  show ?thesis using assms(1) pl unfolding carried_def room refuse_facts(2-5) by blast
qed

lemma carried_step:
  assumes "carried c fromRoom toRoom w v" "trails_to w c p" "player v p = player w p" "gs_CurrentRoomID (player w p) = fromRoom"
    and "fromRoom \<noteq> toRoom"
  shows "carried c fromRoom toRoom w (step_into p fromRoom toRoom v)"
proof -
  let ?v = "step_into p fromRoom toRoom v"
  have pl: "player ?v q = player w q \<or> trails_to w c q \<and> gs_CurrentRoomID (player w q) = fromRoom \<and>
      (player ?v q = (player w q)\<lparr>gs_CurrentRoomID := toRoom\<rparr>
       \<or> player ?v q = (player w q)\<lparr>gs_Following := 0\<rparr> \<and> gate_of w toRoom (gs_Speed (player w q)) \<noteq> None)" for q
    using assms unfolding carried_def by (cases "q = p") auto
  have mv: "(\<exists>q. gs_CharacterID (player w q) = j \<and> gs_CurrentRoomID (player w q) = fromRoom \<and> gs_CurrentRoomID (player ?v q) = toRoom)
      \<longleftrightarrow> j = gs_CharacterID (player w p)
        \<or> (\<exists>q. gs_CharacterID (player w q) = j \<and> gs_CurrentRoomID (player w q) = fromRoom \<and> gs_CurrentRoomID (player v q) = toRoom)" for j
    using assms(3-5) by auto
  have row: "repo_GetByID (mw_Chars v) j = (case repo_GetByID (mw_Chars w) j of Inl e \<Rightarrow> Inl e
          | Inr ch \<Rightarrow> Inr (if j \<noteq> 0 \<and> (\<exists>p. gs_CharacterID (player w p) = j \<and> gs_CurrentRoomID (player w p) = fromRoom
                                       \<and> gs_CurrentRoomID (player v p) = toRoom)
                          then ch\<lparr>ch_CurrentRoomID := toRoom\<rparr> else ch))" for j
    using assms(1) unfolding carried_def by blast
  have rows: "repo_GetByID (mw_Chars ?v) j = (case repo_GetByID (mw_Chars w) j of Inl e \<Rightarrow> Inl e
          | Inr ch \<Rightarrow> Inr (if j \<noteq> 0 \<and> (\<exists>p. gs_CharacterID (player w p) = j \<and> gs_CurrentRoomID (player w p) = fromRoom
                                       \<and> gs_CurrentRoomID (player ?v p) = toRoom)
                          then ch\<lparr>ch_CurrentRoomID := toRoom\<rparr> else ch))" for j
    unfolding mv using row [of j] assms(3) by (auto simp: room_write split: sum.split)
  show ?thesis using assms(1) pl rows unfolding carried_def step_facts(2-4) by blast
qed

lemma way_open_frame: "mw_Exits v = mw_Exits w \<Longrightarrow> way_open v dir a b = way_open w dir a b"
  by (simp add: way_open_def)

lemma carried_bound: "carried c a b w v \<Longrightarrow> ss_bound (mw_Sess v) = ss_bound (mw_Sess w) \<and> mw_Exits v = mw_Exits w \<and> mw_Rooms v = mw_Rooms w"
  unfolding carried_def by blast

text \<open>The head of the loop, when it is a follower: it is refused or moved, and the world is still \<open>carried\<close>.\<close>

lemma chain_head:
  assumes "carried c fromRoom toRoom w v" "way_open w dir fromRoom toRoom" "fromRoom \<noteq> toRoom" "peer \<in> set (Snapshot (mw_Sess w))"
    and "gs_CharacterID (player w leader) \<noteq> 0"
    and "gs_CharacterID (player w leader) = c \<or> (gs_CharacterID (player w leader), c) \<in> (follow_edges (mw_Sess w))\<^sup>+"
    and "gs_Following (player v peer) = gs_CharacterID (player v leader)" "gs_CurrentRoomID (player v peer) = fromRoom"
  shows "(gs_CharacterID (player w peer), c) \<in> (follow_edges (mw_Sess w))\<^sup>+
    \<and> followAlong peer leader dir fromRoom toRoom v =
        (case gate_of w toRoom (gs_Speed (player w peer)) of
           Some msg \<Rightarrow> (refuse_follow peer leader msg v, False) | None \<Rightarrow> (step_into peer fromRoom toRoom v, True))
    \<and> carried c fromRoom toRoom w (fst (followAlong peer leader dir fromRoom toRoom v))"
proof -
  note id = carried_player [OF assms(1)]
  have f: "gs_Following (player v peer) \<noteq> 0" using assms(5,7) id by simp
  have same: "player v peer = player w peer" using carried_untouched [OF assms(1,3,8) f] .
  have e: "(gs_CharacterID (player w peer), gs_CharacterID (player w leader)) \<in> follow_edges (mw_Sess w)"
    using assms(4,7) f same id unfolding follow_edges_def by auto
  then have t: "(gs_CharacterID (player w peer), c) \<in> (follow_edges (mw_Sess w))\<^sup>+"
    using assms(6) by (auto intro: trancl_into_trancl2)
  then have tr: "trails_to w c peer" using assms(4) by (simp add: trails_to_def)
  have room: "gs_CurrentRoomID (player w peer) = fromRoom" using assms(8) same by simp
  have along: "followAlong peer leader dir fromRoom toRoom v =
        (case gate_of w toRoom (gs_Speed (player w peer)) of
           Some msg \<Rightarrow> (refuse_follow peer leader msg v, False) | None \<Rightarrow> (step_into peer fromRoom toRoom v, True))"
    using follow_open [of v dir fromRoom toRoom peer leader] way_open_frame [of v w] gate_frame [of v w] assms(1,2) carried_bound
    by (simp add: same)
  have "carried c fromRoom toRoom w (fst (followAlong peer leader dir fromRoom toRoom v))"
    unfolding along using carried_refuse [OF assms(1) tr same room] carried_step [OF assms(1) tr same room assms(3)]
    by (cases "gate_of w toRoom (gs_Speed (player w peer))") simp_all
  with t along show ?thesis by simp
qed

lemma chain_carried:
  "carried c fromRoom toRoom w v \<Longrightarrow> way_open w dir fromRoom toRoom \<Longrightarrow> fromRoom \<noteq> toRoom \<Longrightarrow>
   set peers \<subseteq> set (Snapshot (mw_Sess w)) \<Longrightarrow> gs_CharacterID (player w leader) \<noteq> 0 \<Longrightarrow>
   gs_CharacterID (player w leader) = c \<or> (gs_CharacterID (player w leader), c) \<in> (follow_edges (mw_Sess w))\<^sup>+ \<Longrightarrow>
   carried c fromRoom toRoom w (chain_loop d dir fromRoom toRoom leader peers v)"
proof (induction d dir fromRoom toRoom leader peers v rule: chain_loop.induct)
  case (2 d dir fromRoom toRoom leader peer peers v)
  let ?skip = "peer = leader \<or> gs_Following (player v peer) \<noteq> gs_CharacterID (player v leader) \<or> gs_CurrentRoomID (player v peer) \<noteq> fromRoom"
  show ?case
  proof (cases ?skip)
    case True
    with 2(1) [OF True] 2(5-) show ?thesis by simp
  next
    case False
    note h = chain_head [OF 2(5-7), of peer leader]
    have t: "(gs_CharacterID (player w peer), c) \<in> (follow_edges (mw_Sess w))\<^sup>+"
      and k: "carried c fromRoom toRoom w (fst (followAlong peer leader dir fromRoom toRoom v))"
      using h 2(8-) False by auto
    obtain v1 b where a: "followAlong peer leader dir fromRoom toRoom v = (v1, b)" by fastforce
    then have k1: "carried c fromRoom toRoom w v1" using k by simp
    note id = carried_player [OF k1]
    have snap: "Snapshot (mw_Sess v1) = Snapshot (mw_Sess w)" using carried_bound [OF k1] by (simp add: Snapshot_def)
    show ?thesis
    proof (cases b)
      case bF: False
      then have bF': "b = False" by simp
      with 2(4) [OF False a [symmetric] bF'] a k1 2(6-) False show ?thesis by simp
    next
      case bT: True
      then have bT': "b = True" by simp
      let ?v2 = "if d = 0 \<or> gs_CharacterID (player v1 peer) = 0 then v1
                  else chain_loop (d - 1) dir fromRoom toRoom peer (Snapshot (mw_Sess v1)) v1"
      have "carried c fromRoom toRoom w ?v2"
        using 2(2) [OF False a [symmetric] bT'] k1 2(6-) t id by (simp add: snap)
      with 2(3) [OF False a [symmetric] bT'] a bT False 2(6-) show ?thesis by simp
    qed
  qed
qed simp

text \<open>A direct follower of the first leader is reached: nothing that happens before its turn touches it.\<close>

lemma chain_leaves:
  assumes "carried c fromRoom toRoom w v" "way_open w dir fromRoom toRoom" "fromRoom \<noteq> toRoom"
    and "set peers \<subseteq> set (Snapshot (mw_Sess w))" "gs_CharacterID (player w leader) \<noteq> 0"
    and "gs_CharacterID (player w leader) = c \<or> (gs_CharacterID (player w leader), c) \<in> (follow_edges (mw_Sess w))\<^sup>+"
    and "acyclic (follow_edges (mw_Sess w))" "gs_Following (player w p) = c" "gs_CharacterID (player w leader) \<noteq> c"
    and "player v p = player w p"
  shows "player (chain_loop d dir fromRoom toRoom leader peers v) p = player w p"
  using assms
proof (induction d dir fromRoom toRoom leader peers v rule: chain_loop.induct)
  case (2 d dir fromRoom toRoom leader peer peers v)
  let ?skip = "peer = leader \<or> gs_Following (player v peer) \<noteq> gs_CharacterID (player v leader) \<or> gs_CurrentRoomID (player v peer) \<noteq> fromRoom"
  show ?case
  proof (cases ?skip)
    case True
    with 2(1) [OF True] 2(5-) show ?thesis by simp
  next
    case False
    note h = chain_head [OF 2(5-7), of peer leader]
    have t: "(gs_CharacterID (player w peer), c) \<in> (follow_edges (mw_Sess w))\<^sup>+"
      and k: "carried c fromRoom toRoom w (fst (followAlong peer leader dir fromRoom toRoom v))"
      and along: "followAlong peer leader dir fromRoom toRoom v =
        (case gate_of w toRoom (gs_Speed (player w peer)) of
           Some msg \<Rightarrow> (refuse_follow peer leader msg v, False) | None \<Rightarrow> (step_into peer fromRoom toRoom v, True))"
      using h 2(8-10) False by auto
    obtain v1 b where a: "followAlong peer leader dir fromRoom toRoom v = (v1, b)" by fastforce
    then have k1: "carried c fromRoom toRoom w v1" using k by simp
    note id0 = carried_player [OF 2(5)] and id = carried_player [OF k1]
    have np: "peer \<noteq> p" using False 2(12-14) id0 by auto
    have v1: "player v1 p = player w p" using along a np 2(14) by (auto split: option.splits)
    have nc: "gs_CharacterID (player w peer) \<noteq> c" using t 2(11) by (auto simp: acyclic_def)
    have snap: "Snapshot (mw_Sess v1) = Snapshot (mw_Sess w)" using carried_bound [OF k1] by (simp add: Snapshot_def)
    show ?thesis
    proof (cases b)
      case bF: False
      then have bF': "b = False" by simp
      with 2(4) [OF False a [symmetric] bF'] a k1 v1 2(6-) False show ?thesis by simp
    next
      case bT: True
      then have bT': "b = True" by simp
      let ?v2 = "if d = 0 \<or> gs_CharacterID (player v1 peer) = 0 then v1
                  else chain_loop (d - 1) dir fromRoom toRoom peer (Snapshot (mw_Sess v1)) v1"
      have "carried c fromRoom toRoom w ?v2"
        using chain_carried [OF k1 2(6,7), of "Snapshot (mw_Sess v1)" peer "d - 1"] k1 t id by (simp add: snap)
      moreover have "player ?v2 p = player w p"
        using 2(2) [OF False a [symmetric] bT'] k1 v1 nc 2(6-) t id by (simp add: snap)
      ultimately show ?thesis using 2(3) [OF False a [symmetric] bT'] a bT False 2(6-) by simp
    qed
  qed
qed simp

text \<open>A session that is not in the old room is not touched.\<close>

lemma follow_others:
  "p \<noteq> peer \<Longrightarrow> player (fst (followAlong peer leader dir fromRoom toRoom v)) p = player v p"
  by (simp add: followAlong_def Let_def split: option.split sum.split)

lemma chain_stays:
  "gs_CurrentRoomID (player v p) \<noteq> fromRoom \<Longrightarrow> player (chain_loop d dir fromRoom toRoom leader peers v) p = player v p"
proof (induction d dir fromRoom toRoom leader peers v rule: chain_loop.induct)
  case (2 d dir fromRoom toRoom leader peer peers v)
  let ?skip = "peer = leader \<or> gs_Following (player v peer) \<noteq> gs_CharacterID (player v leader) \<or> gs_CurrentRoomID (player v peer) \<noteq> fromRoom"
  show ?case
  proof (cases ?skip)
    case True
    with 2(1) [OF True] 2(5) show ?thesis by simp
  next
    case False
    obtain v1 b where a: "followAlong peer leader dir fromRoom toRoom v = (v1, b)" by fastforce
    have "p \<noteq> peer" using False 2(5) by auto
    then have v1: "player v1 p = player v p" using follow_others [of p peer leader dir fromRoom toRoom v] a by simp
    show ?thesis
    proof (cases b)
      case bF: False
      then have bF': "b = False" by simp
      with 2(4) [OF False a [symmetric] bF'] a v1 2(5) False show ?thesis by simp
    next
      case bT: True
      then have bT': "b = True" by simp
      let ?v2 = "if d = 0 \<or> gs_CharacterID (player v1 peer) = 0 then v1
                  else chain_loop (d - 1) dir fromRoom toRoom peer (Snapshot (mw_Sess v1)) v1"
      have "player ?v2 p = player v p" using 2(2) [OF False a [symmetric] bT'] v1 2(5) by simp
      with 2(3) [OF False a [symmetric] bT'] a bT False 2(5) show ?thesis by simp
    qed
  qed
qed simp

lemma chain_reaches:
  assumes "carried c fromRoom toRoom w v" "way_open w dir fromRoom toRoom" "fromRoom \<noteq> toRoom"
    and "set peers \<subseteq> set (Snapshot (mw_Sess w))" "gs_CharacterID (player w leader) = c" "c \<noteq> 0"
    and "acyclic (follow_edges (mw_Sess w))" "gs_Following (player w p) = c" "p \<noteq> leader"
    and "gs_CurrentRoomID (player w p) = fromRoom" "gate_of w toRoom (gs_Speed (player w p)) = None"
    and "player v p = player w p" "p \<in> set peers"
  shows "player (chain_loop d dir fromRoom toRoom leader peers v) p = (player w p)\<lparr>gs_CurrentRoomID := toRoom\<rparr>"
  using assms
proof (induction peers arbitrary: v)
  case (Cons peer peers)
  note cv = Cons.prems(1)
  let ?skip = "peer = leader \<or> gs_Following (player v peer) \<noteq> gs_CharacterID (player v leader) \<or> gs_CurrentRoomID (player v peer) \<noteq> fromRoom"
  have id: "gs_CharacterID (player v leader) = c" using carried_player [OF cv] Cons.prems(5) by simp
  show ?case
  proof (cases ?skip)
    case True
    then have "p \<noteq> peer" using Cons.prems(8-12) id by auto
    with True Cons.IH [OF cv Cons.prems(2,3) _ Cons.prems(5-12)] Cons.prems(4,13) show ?thesis by simp
  next
    case False
    note h = chain_head [OF cv Cons.prems(2,3), of peer leader]
    have t: "(gs_CharacterID (player w peer), c) \<in> (follow_edges (mw_Sess w))\<^sup>+"
      and k: "carried c fromRoom toRoom w (fst (followAlong peer leader dir fromRoom toRoom v))"
      and along: "followAlong peer leader dir fromRoom toRoom v =
        (case gate_of w toRoom (gs_Speed (player w peer)) of
           Some msg \<Rightarrow> (refuse_follow peer leader msg v, False) | None \<Rightarrow> (step_into peer fromRoom toRoom v, True))"
      using h Cons.prems(4-6) False by auto
    obtain v1 b where a: "followAlong peer leader dir fromRoom toRoom v = (v1, b)" by fastforce
    then have k1: "carried c fromRoom toRoom w v1" using k by simp
    have snap: "Snapshot (mw_Sess v1) = Snapshot (mw_Sess w)" using carried_bound [OF k1] by (simp add: Snapshot_def)
    have nc: "gs_CharacterID (player w peer) \<noteq> c" using t Cons.prems(7) by (auto simp: acyclic_def)
    let ?v2 = "if \<not> b \<or> d = 0 \<or> gs_CharacterID (player v1 peer) = 0 then v1
                else chain_loop (d - 1) dir fromRoom toRoom peer (Snapshot (mw_Sess v1)) v1"
    have next_v: "chain_loop d dir fromRoom toRoom leader (peer # peers) v = chain_loop d dir fromRoom toRoom leader peers ?v2"
      using False a by (cases b) auto
    show ?thesis
    proof (cases "p = peer")
      case True
      then have "player v1 p = (player w p)\<lparr>gs_CurrentRoomID := toRoom\<rparr>" using along a Cons.prems(11,12) by auto
      moreover from this have "player ?v2 p = player v1 p" using chain_stays [of v1 p] Cons.prems(3) by simp
      ultimately show ?thesis unfolding next_v using chain_stays [of ?v2 p] Cons.prems(3) by simp
    next
      case np: False
      have v1: "player v1 p = player w p" using follow_others [OF np, of leader dir fromRoom toRoom v] a Cons.prems(12) by simp
      have "carried c fromRoom toRoom w ?v2"
        using chain_carried [OF k1 Cons.prems(2,3), of "Snapshot (mw_Sess v1)" peer "d - 1"] k1 t carried_player [OF k1]
        by (simp add: snap)
      moreover have "player ?v2 p = player w p"
        using chain_leaves [OF k1 Cons.prems(2,3), of "Snapshot (mw_Sess v1)" peer p "d - 1"] v1 nc t carried_player [OF k1] Cons.prems(7,8)
        by (simp add: snap)
      ultimately show ?thesis unfolding next_v
        using Cons.IH [OF _ Cons.prems(2,3) _ Cons.prems(5-11)] Cons.prems(4,13) np by simp
    qed
  qed
qed simp

section \<open>The move command\<close>

text \<open>Whether the mover itself can go: the exit it asked for leads somewhere, nothing bars it and the terrain lets it in.\<close>

definition may_go :: "MoveWorld \<Rightarrow> string \<Rightarrow> sid \<Rightarrow> Exit \<Rightarrow> bool" where
  "may_go w dir i exit \<longleftrightarrow>
     gs_CurrentRoomID (player w i) \<noteq> 0 \<and> FindByDirection (mw_Exits w) (gs_CurrentRoomID (player w i)) dir = Inr exit
     \<and> \<not> xf_Hidden (ex_Flags exit) \<and> \<not> xf_NoPass (ex_Flags exit) \<and> \<not> xf_Locked (ex_Flags exit) \<and> \<not> xf_Closed (ex_Flags exit)
     \<and> gate_of w (ex_ToRoomID exit) (gs_Speed (player w i)) = None"

lemma say_facts [simp]:
  "player (say i msg w) p = player w p" "ss_bound (mw_Sess (say i msg w)) = ss_bound (mw_Sess w)" "mw_Exits (say i msg w) = mw_Exits w"
  "mw_Rooms (say i msg w) = mw_Rooms w" "mw_Chars (say i msg w) = mw_Chars w" "mw_Events (say i msg w) = mw_Events w"
  by (simp_all add: say_def)

lemma moveDir_goes:
  "may_go w dir i exit \<Longrightarrow> moveDir dir i w = chainFollowers (maxFollowDepth - 1) dir (gs_CurrentRoomID (player w i)) (ex_ToRoomID exit) i
     (step_into i (gs_CurrentRoomID (player w i)) (ex_ToRoomID exit) w)"
  by (simp add: may_go_def moveDir_def exit_refusal_def Let_def)

lemma moveDir_stays:
  "\<forall>exit. \<not> may_go w dir i exit \<Longrightarrow> \<exists>msg. moveDir dir i w = say i msg w"
proof -
  assume n: "\<forall>exit. \<not> may_go w dir i exit"
  show ?thesis
  proof (cases "exit_refusal (FindByDirection (mw_Exits w) (gs_CurrentRoomID (player w i)) dir)")
    case None
    then obtain exit where x: "FindByDirection (mw_Exits w) (gs_CurrentRoomID (player w i)) dir = Inr exit" "\<not> xf_Hidden (ex_Flags exit)"
      "\<not> xf_NoPass (ex_Flags exit)" "\<not> xf_Locked (ex_Flags exit)" "\<not> xf_Closed (ex_Flags exit)"
      by (auto simp: exit_refusal_def split: sum.splits if_splits)
    then show ?thesis using n None
      by (cases "gate_of w (ex_ToRoomID exit) (gs_Speed (player w i))") (auto simp: moveDir_def may_go_def Let_def)
  qed (auto simp: moveDir_def Let_def)
qed

lemma step_edges: "follow_edges (mw_Sess (step_into i a b w)) = follow_edges (mw_Sess w)"
proof -
  have "(gs_CharacterID (player (step_into i a b w) p), gs_Following (player (step_into i a b w) p))
      = (gs_CharacterID (player w p), gs_Following (player w p))" "gs_Following (player (step_into i a b w) p) = gs_Following (player w p)" for p
    by simp_all
  then show ?thesis unfolding follow_edges_def Snapshot_def step_facts(2) by simp
qed

text \<open>The bus is a log.\<close>

lemma chain_events: "\<exists>evs. mw_Events (chain_loop d dir fromRoom toRoom leader peers w) = mw_Events w @ evs"
proof (induction d dir fromRoom toRoom leader peers w rule: chain_loop.induct)
  case (2 d dir fromRoom toRoom leader peer peers w)
  let ?skip = "peer = leader \<or> gs_Following (player w peer) \<noteq> gs_CharacterID (player w leader) \<or> gs_CurrentRoomID (player w peer) \<noteq> fromRoom"
  obtain v b where a: "followAlong peer leader dir fromRoom toRoom w = (v, b)" by fastforce
  have "\<exists>evs. mw_Events (fst (followAlong peer leader dir fromRoom toRoom w)) = mw_Events w @ evs"
    by (simp add: followAlong_def Let_def refuse_follow_def say_def step_into_def split: option.split sum.split)
  then obtain e1 where e1: "mw_Events v = mw_Events w @ e1" unfolding a by auto
  show ?case
  proof (cases ?skip)
    case True
    with 2(1) [OF True] show ?thesis by simp
  next
    case False
    show ?thesis
    proof (cases b)
      case bF: False
      then have bF': "b = False" by simp
      from 2(4) [OF False a [symmetric] bF'] e1 show ?thesis using a bF False by auto
    next
      case bT: True
      then have bT': "b = True" by simp
      let ?v2 = "if d = 0 \<or> gs_CharacterID (player v peer) = 0 then v
                  else chain_loop (d - 1) dir fromRoom toRoom peer (Snapshot (mw_Sess v)) v"
      have "\<exists>evs. mw_Events ?v2 = mw_Events v @ evs" using 2(2) [OF False a [symmetric] bT'] by simp
      then obtain e2 where e2: "mw_Events ?v2 = mw_Events v @ e2" by blast
      from 2(3) [OF False a [symmetric] bT'] obtain e3 where
        "mw_Events (chain_loop d dir fromRoom toRoom leader peers ?v2) = mw_Events ?v2 @ e3" by blast
      then show ?thesis using a bT False e1 e2 by auto
    qed
  qed
qed simp

lemma chain_start:
  assumes "may_go w dir i exit" "ex_ToRoomID exit = room" "room \<noteq> gs_CurrentRoomID (player w i)"
  shows "way_open (step_into i (gs_CurrentRoomID (player w i)) room w) dir (gs_CurrentRoomID (player w i)) room"
  using assms by (auto simp: way_open_def may_go_def)

lemma moveDir_carried:
  assumes "may_go w dir i exit" "ex_ToRoomID exit = room" "room \<noteq> gs_CurrentRoomID (player w i)"
  defines "start \<equiv> step_into i (gs_CurrentRoomID (player w i)) room w"
  shows "carried (gs_CharacterID (player w i)) (gs_CurrentRoomID (player w i)) room start (moveDir dir i w)
    \<and> player (moveDir dir i w) i = (player w i)\<lparr>gs_CurrentRoomID := room\<rparr>"
proof -
  let ?from = "gs_CurrentRoomID (player w i)" let ?c = "gs_CharacterID (player w i)"
  note way = chain_start [OF assms(1-3)]
  have f: "carried ?c ?from room start start" using assms(3) by (simp add: carried_refl)
  have "carried ?c ?from room start (chain_loop d dir ?from room i (Snapshot (mw_Sess start)) start)" if "?c \<noteq> 0" for d
    using chain_carried [OF f way [folded start_def]] that assms(3) by (simp add: start_def)
  moreover have "player (chain_loop d dir ?from room i peers start) i = player start i" for d peers
    by (rule chain_stays) (simp add: start_def assms(3))
  ultimately show ?thesis using moveDir_goes [OF assms(1)] assms(2) f
    by (cases "?c = 0") (simp_all add: chainFollowers_def start_def)
qed

section \<open>A small world for the examples\<close>

text \<open>The leader (session 0, character 7) and its follower (session 1, character 8) stand in room 1; the way north leads to room 2.\<close>

definition lead :: GameSession where "lead = zero_Session\<lparr>gs_CharacterID := 7, gs_CurrentRoomID := 1\<rparr>"

definition tail :: GameSession where "tail = zero_Session\<lparr>gs_CharacterID := 8, gs_CurrentRoomID := 1, gs_Following := 7\<rparr>"

definition way :: Exit where "way = plain_exit\<lparr>ex_ID := 1, ex_Flags := (ex_Flags plain_exit)\<lparr>xf_Closed := False\<rparr>\<rparr>"

definition move_world :: MoveWorld where
  "move_world = \<lparr>mw_Sess = \<lparr>ss_heap = [(0, lead), (1, tail)], ss_bound = [(1, 0), (2, 1)], ss_Out = []\<rparr>,
     mw_Exits = \<lparr>er_exits = [way], er_maxID = 1\<rparr>, mw_Rooms = NewMemoryRoomRepo,
     mw_Chars = NewMemoryCharacterRepo, mw_Events = []\<rparr>"

lemma move_world_facts:
  "player move_world 0 = lead" "player move_world (Suc 0) = tail" "Snapshot (mw_Sess move_world) = [0, Suc 0]"
  "gate_of move_world x y = None" "may_go move_world DirNorth 0 way" "ex_ToRoomID way = 2"
  by (simp_all add: move_world_def sess_def map_get_def Snapshot_def gate_of_def room_FindByID_def NewMemoryRoomRepo_def
      may_go_def FindByDirection_def way_def plain_exit_def lead_def)

lemma move_world_edges: "follow_edges (mw_Sess move_world) = {(8, 7)}"
proof -
  have "follow_edges (mw_Sess move_world) =
      (\<lambda>p. (gs_CharacterID (player move_world p), gs_Following (player move_world p))) ` {p \<in> {0, Suc 0}. gs_Following (player move_world p) \<noteq> 0}"
    unfolding follow_edges_def move_world_facts(3) by auto
  also have "{p \<in> {0, Suc 0}. gs_Following (player move_world p) \<noteq> 0} = {Suc 0}"
    by (auto simp: move_world_facts lead_def tail_def zero_Session_def)
  finally show ?thesis by (simp add: move_world_facts tail_def)
qed

text \<open>C23: When a move succeeds. If the exit that way is visible, passable, unlocked and open, and the terrain behind it can
  be entered with the mover's speeds, the mover stands in the room behind it and nothing else of its session changes, its row
  says so too (when it has a character), the bus hears it leave and enter before anything else, and exits and rooms
  are as they were; when there is no such exit one line is printed and no session, row, exit or event changes.\<close>

theorem moveDir_exact:
  "(may_go w dir i exit \<and> ex_ToRoomID exit \<noteq> gs_CurrentRoomID (player w i) \<longrightarrow>
      player (moveDir dir i w) i = (player w i)\<lparr>gs_CurrentRoomID := ex_ToRoomID exit\<rparr>
      \<and> repo_GetByID (mw_Chars (moveDir dir i w)) (gs_CharacterID (player w i)) =
         (case repo_GetByID (mw_Chars w) (gs_CharacterID (player w i)) of Inl e \<Rightarrow> Inl e
          | Inr ch \<Rightarrow> Inr (if gs_CharacterID (player w i) = 0 then ch else ch\<lparr>ch_CurrentRoomID := ex_ToRoomID exit\<rparr>))
      \<and> (\<exists>evs. mw_Events (moveDir dir i w) = mw_Events w @
           (if gs_CharacterID (player w i) = 0 then [] else
              [EvLeft (gs_CharacterID (player w i)) (gs_CurrentRoomID (player w i)) (ex_ToRoomID exit),
               EvEntered (gs_CharacterID (player w i)) (gs_CurrentRoomID (player w i)) (ex_ToRoomID exit)]) @ evs)
      \<and> mw_Exits (moveDir dir i w) = mw_Exits w \<and> mw_Rooms (moveDir dir i w) = mw_Rooms w)
   \<and> ((\<forall>x. \<not> may_go w dir i x) \<longrightarrow> (\<exists>msg. moveDir dir i w = w\<lparr>mw_Sess := write_to i msg (mw_Sess w)\<rparr>))"
proof (intro conjI impI)
  assume a: "may_go w dir i exit \<and> ex_ToRoomID exit \<noteq> gs_CurrentRoomID (player w i)"
  let ?c = "gs_CharacterID (player w i)" let ?from = "gs_CurrentRoomID (player w i)"
  let ?start = "step_into i ?from (ex_ToRoomID exit) w"
  note go = a [THEN conjunct1] and cv = moveDir_carried [OF a [THEN conjunct1] refl a [THEN conjunct2]]
  show "player (moveDir dir i w) i = (player w i)\<lparr>gs_CurrentRoomID := ex_ToRoomID exit\<rparr>" using cv by blast
  show "mw_Exits (moveDir dir i w) = mw_Exits w" "mw_Rooms (moveDir dir i w) = mw_Rooms w"
    using carried_bound [OF cv [THEN conjunct1]] by simp_all
  have row: "repo_GetByID (mw_Chars (moveDir dir i w)) ?c =
      (case repo_GetByID (mw_Chars ?start) ?c of Inl e \<Rightarrow> Inl e
          | Inr ch \<Rightarrow> Inr (if ?c \<noteq> 0 \<and> (\<exists>p. gs_CharacterID (player ?start p) = ?c \<and> gs_CurrentRoomID (player ?start p) = ?from
                                       \<and> gs_CurrentRoomID (player (moveDir dir i w) p) = ex_ToRoomID exit)
                          then ch\<lparr>ch_CurrentRoomID := ex_ToRoomID exit\<rparr> else ch))"
    using cv unfolding carried_def by blast
  have ch: "repo_GetByID (mw_Chars ?start) ?c =
      (case repo_GetByID (mw_Chars w) ?c of Inl e \<Rightarrow> Inl e
       | Inr ch \<Rightarrow> Inr (if ?c = 0 then ch else ch\<lparr>ch_CurrentRoomID := ex_ToRoomID exit\<rparr>))"
    by (simp add: room_write split: sum.split)
  show "repo_GetByID (mw_Chars (moveDir dir i w)) ?c = (case repo_GetByID (mw_Chars w) ?c of Inl e \<Rightarrow> Inl e
      | Inr ch \<Rightarrow> Inr (if ?c = 0 then ch else ch\<lparr>ch_CurrentRoomID := ex_ToRoomID exit\<rparr>))"
    unfolding row ch by (cases "repo_GetByID (mw_Chars w) ?c") simp_all
  show "\<exists>evs. mw_Events (moveDir dir i w) = mw_Events w @
      (if ?c = 0 then [] else [EvLeft ?c ?from (ex_ToRoomID exit), EvEntered ?c ?from (ex_ToRoomID exit)]) @ evs"
    using chain_events [of "maxFollowDepth - 1" dir ?from "ex_ToRoomID exit" i "Snapshot (mw_Sess ?start)" ?start]
    by (cases "?c = 0") (simp_all add: moveDir_goes [OF go] chainFollowers_def step_into_def [of i] Let_def session_writes)
next
  assume "\<forall>x. \<not> may_go w dir i x"
  then show "\<exists>msg. moveDir dir i w = w\<lparr>mw_Sess := write_to i msg (mw_Sess w)\<rparr>" using moveDir_stays unfolding say_def by blast
qed

lemma moveDir_exact_witness:
  "player (moveDir DirNorth 0 move_world) 0 = lead\<lparr>gs_CurrentRoomID := 2\<rparr>
    \<and> (\<exists>evs. mw_Events (moveDir DirNorth 0 move_world) = [EvLeft 7 1 2, EvEntered 7 1 2] @ evs)"
proof -
  have "gs_CurrentRoomID lead = 1" "gs_CharacterID lead = 7" "mw_Events move_world = []"
    by (simp_all add: lead_def move_world_def)
  then show ?thesis
    using moveDir_exact [of move_world DirNorth 0 way] by (simp add: move_world_facts)
qed

text \<open>C22: Followers come along. When a mover goes from one room to another and the follow relation has no cycle, every
  session that follows the mover directly, stands in the room it left and can enter the terrain ends in the new room with
  nothing else of its session changed, whatever the snapshot order; nobody changes who does not trail the mover (directly or
  through others) from the room it left, and who changes either moved to the new room or, barred by the terrain, stopped
  following.\<close>

theorem followers_come_along:
  assumes "may_go w dir i exit" "ex_ToRoomID exit = room" "room \<noteq> gs_CurrentRoomID (player w i)"
    and "gs_CharacterID (player w i) = c" "c \<noteq> 0" "acyclic (follow_edges (mw_Sess w))" "p \<noteq> i"
  shows "(p \<in> set (Snapshot (mw_Sess w)) \<and> gs_Following (player w p) = c \<and> gs_CurrentRoomID (player w p) = gs_CurrentRoomID (player w i)
            \<and> gate_of w room (gs_Speed (player w p)) = None \<longrightarrow>
          player (moveDir dir i w) p = (player w p)\<lparr>gs_CurrentRoomID := room\<rparr>)
    \<and> (player (moveDir dir i w) p = player w p
       \<or> trails_to w c p \<and> gs_CurrentRoomID (player w p) = gs_CurrentRoomID (player w i)
          \<and> (player (moveDir dir i w) p = (player w p)\<lparr>gs_CurrentRoomID := room\<rparr>
             \<or> player (moveDir dir i w) p = (player w p)\<lparr>gs_Following := 0\<rparr> \<and> gate_of w room (gs_Speed (player w p)) \<noteq> None))"
proof -
  let ?from = "gs_CurrentRoomID (player w i)"
  let ?start = "step_into i ?from room w"
  note cv = moveDir_carried [OF assms(1-3), THEN conjunct1]
  have snap: "Snapshot (mw_Sess ?start) = Snapshot (mw_Sess w)" by (simp add: Snapshot_def)
  have gate: "gate_of ?start x y = gate_of w x y" for x y by (simp add: gate_of_def)
  have tr: "trails_to ?start c p = trails_to w c p" using assms(7) by (simp add: trails_to_def snap step_edges)
  have same: "player ?start p = player w p" using assms(7) by simp
  have "player (moveDir dir i w) p = player ?start p \<or> trails_to ?start c p \<and> gs_CurrentRoomID (player ?start p) = ?from \<and>
          (player (moveDir dir i w) p = (player ?start p)\<lparr>gs_CurrentRoomID := room\<rparr>
           \<or> player (moveDir dir i w) p = (player ?start p)\<lparr>gs_Following := 0\<rparr> \<and> gate_of ?start room (gs_Speed (player ?start p)) \<noteq> None)"
    using cv unfolding carried_def assms(4) by blast
  then have rest: "player (moveDir dir i w) p = player w p \<or> trails_to w c p \<and> gs_CurrentRoomID (player w p) = ?from \<and>
          (player (moveDir dir i w) p = (player w p)\<lparr>gs_CurrentRoomID := room\<rparr>
           \<or> player (moveDir dir i w) p = (player w p)\<lparr>gs_Following := 0\<rparr> \<and> gate_of w room (gs_Speed (player w p)) \<noteq> None)"
    unfolding same tr gate .
  have "player (moveDir dir i w) p = (player w p)\<lparr>gs_CurrentRoomID := room\<rparr>"
    if "p \<in> set (Snapshot (mw_Sess w))" "gs_Following (player w p) = c" "gs_CurrentRoomID (player w p) = ?from"
      "gate_of w room (gs_Speed (player w p)) = None"
  proof -
    have f: "carried c ?from room ?start ?start" using assms(3) by (simp add: carried_refl)
    have "player (chain_loop (maxFollowDepth - 1) dir ?from room i (Snapshot (mw_Sess ?start)) ?start) p = (player ?start p)\<lparr>gs_CurrentRoomID := room\<rparr>"
      by (rule chain_reaches [OF f chain_start [OF assms(1-3)]]) (use assms that in \<open>simp_all add: snap step_edges gate\<close>)
    then show ?thesis using moveDir_goes [OF assms(1)] assms(2,4,5) same by (simp add: chainFollowers_def)
  qed
  then show ?thesis by (intro conjI [OF _ rest] impI) (elim conjE, assumption | simp)+
qed

lemma followers_come_along_witness:
  "player (moveDir DirNorth 0 move_world) 1 = tail\<lparr>gs_CurrentRoomID := 2\<rparr>"
proof -
  have "acyclic {(8 :: int, 7)}" by (auto simp: acyclic_def trancl_insert)
  then show ?thesis
    using followers_come_along [of move_world DirNorth 0 way 2 7 1]
    by (simp add: move_world_facts move_world_edges) (simp add: lead_def tail_def)
qed

end
