(* ===== verification/SessionTickers.thy ===== *)
theory SessionTickers
  imports Affects CharacterRepo
begin

text \<open>
  The two out-of-combat pulses over in-world characters: \<open>internal/affects/session_ticker.go\<close> and
  \<open>internal/channeling\<close> (\<open>channeling.go\<close>, \<open>session_ticker.go\<close>), run against the character store. The bus and
  the death callback are logs of what was sent. The properties: a pulse touches only its candidates, keeps
  HP in range, refills One Power slots at most once per eight hours, and accrues madness only for
  embraced Saidin channelers, without wrapping.
\<close>

section \<open>The affects pulse\<close>

record Candidate =
  cand_CharacterID :: int
  cand_RoomID :: int

record ExpiredEntry =
  ee_Name :: string
  ee_Message :: string

datatype bus_event =
    TickDamaged int int "TickEvent list" int int
  | Expired int int "ExpiredEntry list"

record tick_world =
  tw_repo :: MemoryCharacterRepo
  tw_bus :: "bus_event list"
  tw_deaths :: "(int \<times> string) list"

text \<open>The cause of a death: the name of the last damaging event.\<close>

fun last_damaging :: "TickEvent list \<Rightarrow> string" where
  "last_damaging [] = ''''"
| "last_damaging (e # es) =
     (if \<exists>x \<in> set es. te_Delta x < 0 then last_damaging es
      else if te_Delta e < 0 then te_Name e else '''')"

definition affects_tickOne :: "(int \<Rightarrow> bool) \<Rightarrow> tick_world \<Rightarrow> Candidate \<Rightarrow> tick_world" where
  "affects_tickOne fights w c =
     (if fights (cand_RoomID c) then w
      else case repo_GetByID (tw_repo w) (cand_CharacterID c) of Inl _ \<Rightarrow> w
      | Inr ch \<Rightarrow>
          let core = ch_Core ch; i = cand_CharacterID c; room = cand_RoomID c
          in if c_Affects core = [] then w
             else
               let (newHP, evs) = ApplyTickEffects core;
                   w1 = (if evs = [] then w
                         else case repo_RecordHP (tw_repo w) i newHP (c_Subdual core) of
                                (r, Some _) \<Rightarrow> w\<lparr>tw_repo := r\<rparr>
                              | (r, None) \<Rightarrow>
                                  w\<lparr>tw_repo := r,
                                    tw_bus := tw_bus w @ [TickDamaged i room evs newHP (c_HPMax core)]\<rparr>);
                   (next, expired) = affects_Tick (c_Affects core)
               in case repo_RecordAffects (tw_repo w1) i next of
                    (r, Some _) \<Rightarrow> w1\<lparr>tw_repo := r\<rparr>
                  | (r, None) \<Rightarrow>
                      let w2 = w1\<lparr>tw_repo := r\<rparr>;
                          w3 = (if expired = [] then w2
                                else w2\<lparr>tw_bus := tw_bus w2 @ [Expired i room
                                  (map (\<lambda>a. \<lparr>ee_Name = af_Name a, ee_Message = af_ExpireMessage a\<rparr>) expired)]\<rparr>)
                      in if newHP \<le> 0 \<and> evs \<noteq> []
                         then w3\<lparr>tw_deaths := tw_deaths w3 @ [(i, last_damaging evs)]\<rparr> else w3)"

definition affects_pulse :: "(int \<Rightarrow> bool) \<Rightarrow> Candidate list \<Rightarrow> tick_world \<Rightarrow> tick_world" where
  "affects_pulse fights cs w = foldl (affects_tickOne fights) w cs"

section \<open>The channeling pulse\<close>

definition RefreshInterval :: int where "RefreshInterval = 8 * 3600000000000"
definition MadnessPerPulse :: int where "MadnessPerPulse = 1"
definition MadnessMax :: int where "MadnessMax = 32767"

definition RefreshIfDue :: "Channeling \<Rightarrow> int \<Rightarrow> Channeling \<times> bool" where
  "RefreshIfDue c now =
     (if chn_Stilled c then (c, False)
      else if chn_LastSlotRefreshAt c \<noteq> 0 \<and> now - chn_LastSlotRefreshAt c < RefreshInterval then (c, False)
      else (c\<lparr>chn_Slots := map (\<lambda>s. s\<lparr>slp_Cur := slp_Max s\<rparr>) (chn_Slots c),
              chn_LastSlotRefreshAt := now\<rparr>, True))"

definition AccrueMadness :: "Channeling \<Rightarrow> Channeling \<times> bool" where
  "AccrueMadness c =
     (if chn_Stilled c \<or> \<not> chn_Embraced c then (c, False)
      else if chn_GenderSource c \<noteq> SourceSaidin then (c, False)
      else if chn_Madness c \<ge> MadnessMax then (c, False)
      else
        let n = i32 (chn_Madness c + MadnessPerPulse);
            next = (if n > MadnessMax then MadnessMax else n)
        in (c\<lparr>chn_Madness := i16 next\<rparr>, True))"

definition channeling_tickOne :: "int \<Rightarrow> MemoryCharacterRepo \<Rightarrow> Candidate \<Rightarrow> MemoryCharacterRepo" where
  "channeling_tickOne now r c =
     (case repo_GetByID r (cand_CharacterID c) of Inl _ \<Rightarrow> r
      | Inr ch \<Rightarrow>
          (case ch_Channeling ch of None \<Rightarrow> r
           | Some rec \<Rightarrow>
               let (c1, refreshed) = RefreshIfDue rec now; (c2, maddened) = AccrueMadness c1
               in if \<not> refreshed \<and> \<not> maddened then r
                  else fst (repo_RecordChanneling r (cand_CharacterID c) (Some c2))))"

definition channeling_pulse :: "int \<Rightarrow> Candidate list \<Rightarrow> MemoryCharacterRepo \<Rightarrow> MemoryCharacterRepo" where
  "channeling_pulse now cs r = foldl (channeling_tickOne now) r cs"

section \<open>Channeling properties\<close>

definition channel_step :: "int \<Rightarrow> Channeling \<Rightarrow> Channeling" where
  "channel_step now c = fst (AccrueMadness (fst (RefreshIfDue c now)))"

lemma AccrueMadness_frame [simp]:
  "chn_LastSlotRefreshAt (fst (AccrueMadness c)) = chn_LastSlotRefreshAt c"
  "chn_Slots (fst (AccrueMadness c)) = chn_Slots c"
  "chn_Stilled (fst (AccrueMadness c)) = chn_Stilled c"
  "chn_Embraced (fst (AccrueMadness c)) = chn_Embraced c"
  "chn_GenderSource (fst (AccrueMadness c)) = chn_GenderSource c"
  by (simp_all add: AccrueMadness_def Let_def)

lemma RefreshIfDue_frame [simp]:
  "chn_Madness (fst (RefreshIfDue c t)) = chn_Madness c"
  "chn_Stilled (fst (RefreshIfDue c t)) = chn_Stilled c"
  "chn_Embraced (fst (RefreshIfDue c t)) = chn_Embraced c"
  "chn_GenderSource (fst (RefreshIfDue c t)) = chn_GenderSource c"
  by (simp_all add: RefreshIfDue_def)

lemma AccrueMadness_value:
  "0 \<le> chn_Madness c \<Longrightarrow> chn_Madness c \<le> MadnessMax \<Longrightarrow>
     chn_Madness (fst (AccrueMadness c)) =
       (if \<not> chn_Stilled c \<and> chn_Embraced c \<and> chn_GenderSource c = SourceSaidin \<and> chn_Madness c < MadnessMax
        then chn_Madness c + 1 else chn_Madness c)"
  by (auto simp: AccrueMadness_def MadnessMax_def MadnessPerPulse_def Let_def i32_id i16_id)

text \<open>Whatever pulses run (at non-decreasing times after the last refresh), madness only grows, by at most
  one per pulse and never past the \<open>int16\<close> maximum, and not at all for a stilled, unembraced or Saidar
  channeler; and a stilled channeler's slots never refill.\<close>

lemma channeling_pulses_bounds:
  assumes "0 \<le> chn_Madness c" "chn_Madness c \<le> MadnessMax"
  shows "(let d = foldl (\<lambda>c t. channel_step t c) c ts
    in chn_Madness c \<le> chn_Madness d \<and> chn_Madness d \<le> MadnessMax
       \<and> chn_Madness d \<le> chn_Madness c + int (length ts)
       \<and> (chn_Stilled c \<or> \<not> chn_Embraced c \<or> chn_GenderSource c = SourceSaidar \<longrightarrow> chn_Madness d = chn_Madness c)
       \<and> (chn_Stilled c \<longrightarrow> chn_Slots d = chn_Slots c))"
proof -
  have "chn_Madness c \<le> chn_Madness d \<and> chn_Madness d \<le> MadnessMax
       \<and> chn_Madness d \<le> chn_Madness c + int (length ts)
       \<and> (chn_Stilled c \<or> \<not> chn_Embraced c \<or> chn_GenderSource c = SourceSaidar \<longrightarrow> chn_Madness d = chn_Madness c)
       \<and> (chn_Stilled c \<longrightarrow> chn_Slots d = chn_Slots c)"
    if "d = foldl (\<lambda>c t. channel_step t c) c ts" for d
    using assms that
  proof (induction ts arbitrary: c)
    case (Cons t ts)
    let ?c = "channel_step t c"
    have s: "chn_Stilled ?c = chn_Stilled c" "chn_Embraced ?c = chn_Embraced c"
      "chn_GenderSource ?c = chn_GenderSource c"
      "chn_Madness ?c = (if \<not> chn_Stilled c \<and> chn_Embraced c \<and> chn_GenderSource c = SourceSaidin \<and>
         chn_Madness c < MadnessMax then chn_Madness c + 1 else chn_Madness c)"
      "chn_Stilled c \<longrightarrow> chn_Slots ?c = chn_Slots c"
      using Cons.prems(1,2) by (simp_all add: channel_step_def AccrueMadness_value RefreshIfDue_def)
    have "0 \<le> chn_Madness ?c" "chn_Madness ?c \<le> MadnessMax" using Cons.prems(1,2) s(4) by auto
    from Cons.IH [OF this] Cons.prems(3) s show ?case by (auto split: if_splits)
  qed simp
  then show ?thesis by (simp add: Let_def)
qed

definition sample_channeling :: Channeling where
  "sample_channeling = \<lparr>chn_GenderSource = SourceSaidin, chn_ChannelerType = ChannelerWilder, chn_Affinities = 3,
     chn_WeavesKnownIDs = [], chn_Slots = [\<lparr>slp_Cur = 0, slp_Max = 3\<rparr>], chn_LastSlotRefreshAt = 7,
     chn_Embraced = True, chn_EmbracedSince = 1, chn_Madness = 32766, chn_Stilled = False\<rparr>"

section \<open>Affects pulse properties\<close>

lemma no_events_same_hp: "snd (tick_effects_loop m hp as) = [] \<Longrightarrow> fst (tick_effects_loop m hp as) = hp"
  by (induction m hp as rule: tick_effects_loop.induct) (auto simp: Let_def split_beta split: if_splits)

definition hp_write :: "int \<Rightarrow> int \<Rightarrow> Character \<Rightarrow> repo_error + Character" where
  "hp_write hp sub c = Inr (c\<lparr>ch_Core := (ch_Core c)\<lparr>c_HPCurrent := hp, c_Subdual := sub\<rparr>\<rparr>)"

definition affects_write :: "Affect list \<Rightarrow> Character \<Rightarrow> repo_error + Character" where
  "affects_write as c = Inr (c\<lparr>ch_Core := (ch_Core c)\<lparr>c_Affects := as\<rparr>\<rparr>)"

lemma keeps_hp_write [simp]: "keeps_identity (hp_write hp sub)"
  and keeps_affects_write [simp]: "keeps_identity (affects_write as)"
  by (auto simp: keeps_identity_def hp_write_def affects_write_def)

lemma RecordHP_alt: "repo_RecordHP r i hp sub = record_at r i (hp_write hp sub)"
  by (simp add: repo_RecordHP_def hp_write_def [abs_def])

lemma RecordAffects_alt: "repo_RecordAffects r i as = record_at r i (affects_write as)"
  by (simp add: repo_RecordAffects_def affects_write_def [abs_def])

text \<open>The core after a pulse on a character outside a fight.\<close>

definition pulsed_core :: "Core \<Rightarrow> Core" where
  "pulsed_core c = c\<lparr>c_HPCurrent := fst (ApplyTickEffects c), c_Affects := fst (affects_Tick (c_Affects c))\<rparr>"

lemma tickOne_skipped:
  "fights (cand_RoomID c) \<or> (\<forall>ch. repo_GetByID (tw_repo w) (cand_CharacterID c) = Inr ch \<longrightarrow> c_Affects (ch_Core ch) = [])
    \<Longrightarrow> affects_tickOne fights w c = w"
  by (auto simp: affects_tickOne_def Let_def split: sum.split)

lemma tickOne_step:
  assumes g: "repo_GetByID (tw_repo w) i = Inr ch" and f: "\<not> fights room" and a: "c_Affects (ch_Core ch) \<noteq> []"
  defines "w' \<equiv> affects_tickOne fights w \<lparr>cand_CharacterID = i, cand_RoomID = room\<rparr>"
  shows "repo_GetByID (tw_repo w') i = Inr (ch\<lparr>ch_Core := pulsed_core (ch_Core ch)\<rparr>)"
    and "j \<noteq> i \<Longrightarrow> repo_GetByID (tw_repo w') j = repo_GetByID (tw_repo w) j"
    and "tw_deaths w' = tw_deaths w @ (if fst (ApplyTickEffects (ch_Core ch)) \<le> 0 \<and> snd (ApplyTickEffects (ch_Core ch)) \<noteq> []
           then [(i, last_damaging (snd (ApplyTickEffects (ch_Core ch))))] else [])"
proof -
  let ?core = "ch_Core ch"
  obtain hp evs where e: "ApplyTickEffects ?core = (hp, evs)" by fastforce
  obtain nx ex where t: "affects_Tick (c_Affects ?core) = (nx, ex)" by fastforce
  define r1 where "r1 = (if evs = [] then tw_repo w else fst (record_at (tw_repo w) i (hp_write hp (c_Subdual ?core))))"
  let ?ch1 = "ch\<lparr>ch_Core := ?core\<lparr>c_HPCurrent := hp\<rparr>\<rparr>"
  have hp0: "evs = [] \<Longrightarrow> hp = c_HPCurrent ?core"
    using e no_events_same_hp [of "c_HPMax ?core" "c_HPCurrent ?core" "c_Affects ?core"]
    by (simp add: ApplyTickEffects_def)
  have w: "hp_write hp (c_Subdual ?core) ch = Inr ?ch1" by (simp add: hp_write_def)
  have acc: "snd (record_at (tw_repo w) i (hp_write hp (c_Subdual ?core))) = None"
    "repo_GetByID (fst (record_at (tw_repo w) i (hp_write hp (c_Subdual ?core)))) i = Inr ?ch1"
    using char_store.accepted [of _ _ _ "hp_write hp (c_Subdual ?core)", OF g w] by simp_all
  have g1: "repo_GetByID r1 i = Inr ?ch1" using g acc hp0 by (simp add: r1_def)
  let ?r2 = "fst (record_at r1 i (affects_write nx))"
  have acc2: "snd (record_at r1 i (affects_write nx)) = None"
    "repo_GetByID ?r2 i = Inr (ch\<lparr>ch_Core := pulsed_core ?core\<rparr>)"
    using char_store.accepted [OF g1, of "affects_write nx" "ch\<lparr>ch_Core := pulsed_core ?core\<rparr>"] e t
    by (simp_all add: affects_write_def pulsed_core_def)
  have oth: "j \<noteq> i \<Longrightarrow> repo_GetByID ?r2 j = repo_GetByID (tw_repo w) j" for j
    by (simp add: char_store.others r1_def)
  have out: "tw_repo w' = ?r2 \<and> tw_deaths w' = tw_deaths w @ (if hp \<le> 0 \<and> evs \<noteq> [] then [(i, last_damaging evs)] else [])"
  proof (cases "evs = []")
    case True
    then have "r1 = tw_repo w" by (simp add: r1_def)
    with True show ?thesis
      using g f a e t acc2(1)
      by (cases "record_at r1 i (affects_write nx)")
        (simp add: w'_def affects_tickOne_def RecordAffects_alt Let_def)
  next
    case False
    then have r: "record_at (tw_repo w) i (hp_write hp (c_Subdual ?core)) = (r1, None)"
      using acc(1) by (simp add: r1_def prod_eq_iff)
    show ?thesis
      using g f a e t acc2(1) False r
      by (cases "record_at r1 i (affects_write nx)")
        (simp add: w'_def affects_tickOne_def RecordAffects_alt RecordHP_alt Let_def)
  qed
  show "repo_GetByID (tw_repo w') i = Inr (ch\<lparr>ch_Core := pulsed_core (ch_Core ch)\<rparr>)" using out acc2(2) by simp
  show "j \<noteq> i \<Longrightarrow> repo_GetByID (tw_repo w') j = repo_GetByID (tw_repo w) j" using out oth by simp
  show "tw_deaths w' = tw_deaths w @ (if fst (ApplyTickEffects ?core) \<le> 0 \<and> snd (ApplyTickEffects ?core) \<noteq> []
      then [(i, last_damaging (snd (ApplyTickEffects ?core)))] else [])" using out e by simp
qed

text \<open>The cores the pulse is meant for: HP in range, per-tick damage in \<open>int16\<close>, durations not negative.\<close>

definition tick_core_ok :: "Core \<Rightarrow> bool" where
  "tick_core_ok c \<longleftrightarrow> 0 < c_HPMax c \<and> c_HPMax c \<le> 32767 \<and> 0 \<le> c_HPCurrent c \<and> c_HPCurrent c \<le> c_HPMax c
     \<and> (\<forall>a \<in> set (c_Affects c). in_range 16 (af_TickDamage a) \<and> in_range 32 (af_DurationTicks a)
          \<and> - 2147483648 < af_DurationTicks a)"

definition repo_ticks_ok :: "MemoryCharacterRepo \<Rightarrow> bool" where
  "repo_ticks_ok r \<longleftrightarrow> (\<forall>i ch. repo_GetByID r i = Inr ch \<longrightarrow> tick_core_ok (ch_Core ch))"

lemma pulsed_core_ok: "tick_core_ok c \<Longrightarrow> tick_core_ok (pulsed_core c)"
  using ApplyTickEffects_hp [of c] affects_Tick_filter [of "c_Affects c"]
  by (auto simp: tick_core_ok_def pulsed_core_def in_range_32)

lemma pulse_induct_step:
  assumes "repo_ticks_ok (tw_repo w)"
  shows "repo_ticks_ok (tw_repo (affects_tickOne fights w c))
    \<and> (\<forall>j. j \<noteq> cand_CharacterID c \<or> fights (cand_RoomID c) \<longrightarrow>
         repo_GetByID (tw_repo (affects_tickOne fights w c)) j = repo_GetByID (tw_repo w) j)
    \<and> (\<forall>d \<in> set (tw_deaths (affects_tickOne fights w c)). d \<in> set (tw_deaths w) \<or> fst d = cand_CharacterID c)"
proof (cases "fights (cand_RoomID c) \<or>
    (\<forall>ch. repo_GetByID (tw_repo w) (cand_CharacterID c) = Inr ch \<longrightarrow> c_Affects (ch_Core ch) = [])")
  case True
  then have "affects_tickOne fights w c = w" by (rule tickOne_skipped)
  with assms show ?thesis by simp
next
  case False
  then obtain ch where f: "\<not> fights (cand_RoomID c)"
    "repo_GetByID (tw_repo w) (cand_CharacterID c) = Inr ch" "c_Affects (ch_Core ch) \<noteq> []" by blast
  have c: "c = \<lparr>cand_CharacterID = cand_CharacterID c, cand_RoomID = cand_RoomID c\<rparr>" by simp
  note s = tickOne_step [of w "cand_CharacterID c" ch fights "cand_RoomID c", OF f(2,1,3), folded c]
  have "repo_ticks_ok (tw_repo (affects_tickOne fights w c))"
    unfolding repo_ticks_ok_def
  proof (intro allI impI)
    fix j ch'
    assume g: "repo_GetByID (tw_repo (affects_tickOne fights w c)) j = Inr ch'"
    show "tick_core_ok (ch_Core ch')"
    proof (cases "j = cand_CharacterID c")
      case True
      with g s(1) have "ch' = ch\<lparr>ch_Core := pulsed_core (ch_Core ch)\<rparr>" by simp
      moreover have "tick_core_ok (ch_Core ch)" using assms f(2) by (auto simp: repo_ticks_ok_def)
      ultimately show ?thesis by (simp add: pulsed_core_ok)
    next
      case False
      with g s(2) [of j] assms show ?thesis by (auto simp: repo_ticks_ok_def)
    qed
  qed
  with s f show ?thesis by auto
qed

text \<open>A whole affects pulse is safe: HP of every stored character stays between 0 and its maximum, the row
  of a character that is not a candidate, or only a candidate in rooms with a running fight, is not touched,
  and only candidates are reported dead.\<close>

lemma affects_pulse_safe:
  assumes "repo_ticks_ok (tw_repo w)"
  shows "repo_ticks_ok (tw_repo (affects_pulse fights cs w))
    \<and> (\<forall>j. (\<forall>c \<in> set cs. cand_CharacterID c = j \<longrightarrow> fights (cand_RoomID c)) \<longrightarrow>
         repo_GetByID (tw_repo (affects_pulse fights cs w)) j = repo_GetByID (tw_repo w) j)
    \<and> (\<forall>d \<in> set (tw_deaths (affects_pulse fights cs w)).
         d \<in> set (tw_deaths w) \<or> fst d \<in> cand_CharacterID ` set cs)"
  using assms
proof (induction cs arbitrary: w)
  case Nil
  then show ?case by (simp add: affects_pulse_def)
next
  case (Cons c cs)
  let ?w = "affects_tickOne fights w c"
  have p: "affects_pulse fights (c # cs) w = affects_pulse fights cs ?w" by (simp add: affects_pulse_def)
  note st = pulse_induct_step [OF Cons.prems, of fights c]
  from Cons.IH [of ?w] st show ?case unfolding p by (auto 4 3)
qed

definition sample_world :: tick_world where
  "sample_world = \<lparr>tw_repo = \<lparr>mr_nextID = 1, mr_byLower = [(''rand'',
     sample_character\<lparr>ch_ID := 1, ch_NameLower := ''rand'',
       ch_Core := zero_Core\<lparr>c_HPCurrent := 3, c_HPMax := 9, c_Affects := [sample_affect ''bleed'' 1 2 (- 5)]\<rparr>\<rparr>)]\<rparr>,
     tw_bus = [], tw_deaths = []\<rparr>"

end
