(* ===== verification/CombatXP.thy ===== *)
theory CombatXP
  imports SessionTickers
begin

text \<open>
  The experience economy of a kill: \<open>internal/combat/death.go\<close> (\<open>creditXPShares\<close>,
  \<open>expandTallyByGroup\<close>, \<open>allocateXP\<close>), \<open>xp_debt.go\<close>, \<open>pvp_xp.go\<close> and the \<open>ActorRef\<close> of \<open>actor.go\<close>.
  A damage tally is a Go map that is only iterated; its model is an association list with distinct keys
  whose order is the iteration order, so a theorem about every list covers every order Go may choose.
\<close>

section \<open>Actors, debts and base values\<close>

datatype ActorKind = ActorKindUnknown | ActorKindCharacter | ActorKindMob

record ActorRef =
  rf_Kind :: ActorKind
  rf_ID :: int

definition zero_Ref :: ActorRef where "zero_Ref = \<lparr>rf_Kind = ActorKindUnknown, rf_ID = 0\<rparr>"

definition char_ref :: "int \<Rightarrow> ActorRef" where
  "char_ref i = \<lparr>rf_Kind = ActorKindCharacter, rf_ID = i\<rparr>"

definition DeathPenaltyFraction :: int where "DeathPenaltyFraction = 10"

definition DeathDebt :: "int \<Rightarrow> int \<Rightarrow> int" where
  "DeathDebt curXP curLevel =
     (let flr = XPForLevel curLevel
      in if curXP \<le> flr then 0 else i64 (curXP - flr) sdiv DeathPenaltyFraction)"

definition ApplyXPAward :: "int \<Rightarrow> int \<Rightarrow> int \<times> int" where
  "ApplyXPAward award currentDebt =
     (if award \<le> 0 then (0, currentDebt)
      else if currentDebt \<le> 0 then (award, 0)
      else if currentDebt \<ge> award then (0, currentDebt - award)
      else (award - currentDebt, 0))"

definition PvPXPPerVictimLevel :: int where "PvPXPPerVictimLevel = 50"
definition PvPLevelDiffCap :: int where "PvPLevelDiffCap = 5"

definition pvpXPForKill :: "int \<Rightarrow> int \<Rightarrow> int" where
  "pvpXPForKill attackerLevel victimLevel =
     (if victimLevel \<le> 0 then 0
      else if i64 (attackerLevel - victimLevel) > PvPLevelDiffCap then 0
      else i64 (PvPXPPerVictimLevel * victimLevel))"

text \<open>A \<open>ChallengeCode\<close> is a byte; the template carries it with the explicit override.\<close>

definition xpValueForChallenge :: "char \<Rightarrow> int" where
  "xpValueForChallenge code =
     (if code = CHR ''A'' then 100 else if code = CHR ''B'' then 250 else if code = CHR ''C'' then 600
      else if code = CHR ''D'' then 1200 else if code = CHR ''E'' then 2400 else if code = CHR ''F'' then 4800
      else if code = CHR ''G'' then 9600 else if code = CHR ''H'' then 19200
      else if code = CHR ''I'' then 38400 else 100)"

definition xpValueForTemplate :: "int \<Rightarrow> char \<Rightarrow> int" where
  "xpValueForTemplate xpValue code = (if xpValue > 0 then xpValue else xpValueForChallenge code)"

section \<open>The group expansion\<close>

type_synonym tally = "(ActorRef \<times> int) list"

text \<open>The inner loop over the members, then the loop over the tally (\<open>mutated\<close> is its flag).\<close>

fun member_loop :: "int list \<Rightarrow> int \<Rightarrow> int \<Rightarrow> int \<Rightarrow> tally \<Rightarrow> tally" where
  "member_loop [] dealer share remainder out = out"
| "member_loop (m # ms) dealer share remainder out =
     (let contrib = (if m = dealer then i32 (share + remainder) else share)
      in member_loop ms dealer share remainder
           (map_put (char_ref m) (i32 (map_get out (char_ref m) 0 + contrib)) out))"

fun expand_loop :: "tally \<Rightarrow> int \<Rightarrow> (int \<Rightarrow> int \<Rightarrow> int list) \<Rightarrow> tally \<Rightarrow> bool \<Rightarrow> tally \<times> bool" where
  "expand_loop [] roomID resolver out mutated = (out, mutated)"
| "expand_loop ((ref, dmg) # rest) roomID resolver out mutated =
     (if rf_Kind ref \<noteq> ActorKindCharacter \<or> dmg \<le> 0 then
        expand_loop rest roomID resolver (map_put ref dmg out) mutated
      else
        let members = resolver (rf_ID ref) roomID; n = int (length members)
        in if n \<le> 1 then expand_loop rest roomID resolver (map_put ref dmg out) mutated
           else let share = dmg sdiv i32 n; remainder = i32 (dmg - i32 (share * i32 n))
                in expand_loop rest roomID resolver (member_loop members (rf_ID ref) share remainder out) True)"

definition expandTallyByGroup :: "tally \<Rightarrow> int \<Rightarrow> (int \<Rightarrow> int \<Rightarrow> int list) option \<Rightarrow> tally" where
  "expandTallyByGroup t roomID resolver =
     (case resolver of None \<Rightarrow> t
      | Some f \<Rightarrow>
          if t = [] then t
          else let (out, mutated) = expand_loop t roomID f [] False in if \<not> mutated then t else out)"

section \<open>The allocation\<close>

fun tally_sum :: "tally \<Rightarrow> int \<Rightarrow> int" where
  "tally_sum [] s = s"
| "tally_sum ((ref, dmg) # rest) s = tally_sum rest (if dmg > 0 then i64 (s + dmg) else s)"

fun alloc_loop :: "tally \<Rightarrow> int \<Rightarrow> int \<Rightarrow> tally \<Rightarrow> int \<Rightarrow> tally \<times> int" where
  "alloc_loop [] totalXP s out allocated = (out, allocated)"
| "alloc_loop ((ref, dmg) # rest) totalXP s out allocated =
     (if dmg \<le> 0 then alloc_loop rest totalXP s out allocated
      else let share = i64 (totalXP * dmg) sdiv s
           in if share > 0 then alloc_loop rest totalXP s (map_put ref share out) (i64 (allocated + share))
              else alloc_loop rest totalXP s out allocated)"

text \<open>A nil result is the empty map: reading and ranging over both is the same.\<close>

definition allocateXP :: "tally \<Rightarrow> int \<Rightarrow> ActorRef \<Rightarrow> tally" where
  "allocateXP t totalXP killer =
     (if totalXP \<le> 0 then []
      else let s = tally_sum t 0
           in if s = 0 then (if rf_Kind killer \<noteq> ActorKindUnknown then map_put killer totalXP [] else [])
              else let (out, allocated) = alloc_loop t totalXP s [] 0; remainder = i64 (totalXP - allocated)
                   in if remainder > 0 \<and> rf_Kind killer \<noteq> ActorKindUnknown
                      then map_put killer (i64 (map_get out killer 0 + remainder)) out
                      else out)"

section \<open>Crediting the shares\<close>

record CombatXPAwarded =
  xa_RoomID :: int
  xa_Awardee :: ActorRef
  xa_Amount :: int
  xa_DebtTaken :: int
  xa_Killed :: ActorRef

definition credit_one ::
    "int \<Rightarrow> ActorRef \<Rightarrow> ActorRef \<times> int \<Rightarrow> MemoryCharacterRepo \<Rightarrow> MemoryCharacterRepo \<times> CombatXPAwarded list"
where
  "credit_one roomID victim award chars =
     (case award of (ref, amount) \<Rightarrow>
        if rf_Kind ref \<noteq> ActorKindCharacter \<or> amount \<le> 0 then (chars, [])
        else case repo_GetByID chars (rf_ID ref) of
          Inl e \<Rightarrow> (chars, [])
        | Inr ch \<Rightarrow>
            let (gain, newDebt) = ApplyXPAward amount (ch_XPDebt ch);
                paid = i64 (ch_XPDebt ch - newDebt);
                (chars1, err) = (if gain > 0 then repo_RecordXP chars (rf_ID ref) (i64 (ch_XP ch + gain))
                                 else (chars, None))
            in case err of
                 Some e \<Rightarrow> (chars1, [])
               | None \<Rightarrow>
                   (if paid > 0 then fst (repo_RecordXPDebt chars1 (rf_ID ref) newDebt) else chars1,
                    [\<lparr>xa_RoomID = roomID, xa_Awardee = ref, xa_Amount = gain, xa_DebtTaken = paid,
                      xa_Killed = victim\<rparr>]))"

fun credit_loop ::
    "int \<Rightarrow> ActorRef \<Rightarrow> tally \<Rightarrow> MemoryCharacterRepo \<Rightarrow> MemoryCharacterRepo \<times> CombatXPAwarded list" where
  "credit_loop roomID victim [] chars = (chars, [])"
| "credit_loop roomID victim (a # as) chars =
     (let (chars1, ev) = credit_one roomID victim a chars;
          (chars2, evs) = credit_loop roomID victim as chars1
      in (chars2, ev @ evs))"

definition creditXPShares ::
    "(int \<Rightarrow> int \<Rightarrow> int list) option \<Rightarrow> int \<Rightarrow> ActorRef \<Rightarrow> ActorRef \<Rightarrow> tally \<Rightarrow> int \<Rightarrow>
       MemoryCharacterRepo \<Rightarrow> MemoryCharacterRepo \<times> CombatXPAwarded list" where
  "creditXPShares resolver roomID killer victim t totalXP chars =
     (if totalXP \<le> 0 then (chars, [])
      else credit_loop roomID victim (allocateXP (expandTallyByGroup t roomID resolver) totalXP killer) chars)"

section \<open>Debt\<close>

text \<open>A death never costs more than the experience above the current level's threshold (so it can never
  cost the level), costs nothing at the threshold, and otherwise is exactly a tenth, rounded down.\<close>

lemma DeathDebt_bounds:
  assumes "1 \<le> level" "level \<le> 20" "0 \<le> xp" "xp \<le> MaxInt64"
  shows "0 \<le> DeathDebt xp level \<and> (XPForLevel level \<le> xp \<longrightarrow> XPForLevel level \<le> xp - DeathDebt xp level)
     \<and> DeathDebt xp level = max 0 ((xp - XPForLevel level) div 10)"
proof -
  have f: "0 \<le> XPForLevel level" using XPForLevel_pos [OF assms(1,2)] assms(1) by simp
  have e: "DeathDebt xp level = max 0 ((xp - XPForLevel level) div 10)"
  proof (cases "xp \<le> XPForLevel level")
    case True
    then have "(xp - XPForLevel level) div 10 \<le> 0" by linarith
    then show ?thesis using True by (simp add: DeathDebt_def)
  next
    case False
    then have "i64 (xp - XPForLevel level) = xp - XPForLevel level"
      using f assms(4) by (intro i64_id) auto
    moreover have "0 \<le> (xp - XPForLevel level) div 10" using False by linarith
    ultimately show ?thesis using False
      by (simp add: DeathDebt_def DeathPenaltyFraction_def sdiv_nonneg Let_def)
  qed
  have "max 0 (x div 10) \<le> x" if "0 \<le> x" for x :: int using that by (simp add: max_def) linarith
  from this [of "xp - XPForLevel level"] show ?thesis unfolding e by (intro conjI impI refl) (simp, linarith)
qed

lemma ApplyXPAward_conserves:
  "0 < award \<Longrightarrow> 0 \<le> debt \<Longrightarrow> fst (ApplyXPAward award debt) + (debt - snd (ApplyXPAward award debt)) = award
     \<and> 0 \<le> fst (ApplyXPAward award debt) \<and> fst (ApplyXPAward award debt) \<le> award
     \<and> 0 \<le> snd (ApplyXPAward award debt) \<and> snd (ApplyXPAward award debt) \<le> debt
     \<and> (fst (ApplyXPAward award debt) = 0 \<or> snd (ApplyXPAward award debt) = 0)"
  by (auto simp: ApplyXPAward_def)

section \<open>The allocation pays out exactly the total\<close>

definition dealt :: "tally \<Rightarrow> int" where
  "dealt t = sum_list (map (\<lambda>p. max 0 (snd p)) t)"

lemma dealt_nonneg [simp]: "0 \<le> dealt t"
  by (induction t) (simp_all add: dealt_def)

lemma dealt_Cons: "dealt ((r, d) # t) = max 0 d + dealt t"
  by (simp add: dealt_def)

lemma tally_sum_eq: "0 \<le> s \<Longrightarrow> s + dealt t \<le> MaxInt64 \<Longrightarrow> tally_sum t s = s + dealt t"
proof (induction t arbitrary: s)
  case (Cons p t)
  obtain r d where p: "p = (r, d)" by (cases p)
  have n: "0 \<le> dealt t" by simp
  show ?case
  proof (cases "d > 0")
    case True
    moreover have "s + d + dealt t \<le> MaxInt64" using True Cons.prems by (simp add: p dealt_Cons)
    ultimately have "i64 (s + d) = s + d" using Cons.prems(1) n by (intro i64_id) linarith+
    with True Cons.IH [of "s + d"] Cons.prems show ?thesis by (simp add: p dealt_Cons)
  qed (use Cons in \<open>simp add: p dealt_Cons\<close>)
qed (simp add: dealt_def)

text \<open>The floors of the shares: their sum is at most the total and misses it by less than one each.\<close>

fun floors :: "tally \<Rightarrow> int \<Rightarrow> int \<Rightarrow> int" where
  "floors [] T S = 0"
| "floors ((r, d) # t) T S = (if d \<le> 0 then 0 else T * d div S) + floors t T S"

lemma floors_bounds:
  assumes "0 < S" "0 \<le> T"
  shows "0 \<le> floors t T S \<and> S * floors t T S \<le> T * dealt t"
proof (induction t)
  case (Cons p t)
  obtain r d where p: "p = (r, d)" by (cases p)
  show ?case
  proof (cases "d \<le> 0")
    case False
    have "S * (T * d div S) \<le> T * d"
      using mult_div_mod_eq [of S "T * d"] pos_mod_sign [OF assms(1), of "T * d"] by linarith
    moreover have "0 \<le> T * d div S" using assms False by (simp add: pos_imp_zdiv_nonneg_iff)
    ultimately show ?thesis using Cons False by (simp add: p dealt_Cons algebra_simps)
  qed (use Cons in \<open>simp add: p dealt_Cons\<close>)
qed (simp add: dealt_def)

lemma floors_miss:
  assumes "0 < S" "0 \<le> T"
  shows "T * dealt t \<le> S * floors t T S + (S - 1) * int (length (filter (\<lambda>p. snd p > 0) t))"
proof (induction t)
  case (Cons p t)
  obtain r d where p: "p = (r, d)" by (cases p)
  show ?case
  proof (cases "d \<le> 0")
    case False
    have "T * d mod S \<le> S - 1" using assms(1) pos_mod_bound [of S "T * d"] by linarith
    then have "T * d \<le> S * (T * d div S) + (S - 1)" using mult_div_mod_eq [of S "T * d"] by linarith
    then show ?thesis using Cons False by (simp add: p dealt_Cons algebra_simps)
  qed (use Cons in \<open>simp add: p dealt_Cons\<close>)
qed (simp add: dealt_def)


lemma dealt_mem: "(r, d) \<in> set t \<Longrightarrow> d \<le> dealt t"
proof (induction t)
  case (Cons p t)
  obtain r' d' where p: "p = (r', d')" by (cases p)
  have "0 \<le> dealt t" by simp
  with Cons show ?case unfolding p dealt_Cons by (auto simp del: dealt_nonneg)
qed simp

definition share_of :: "int \<Rightarrow> int \<Rightarrow> int \<Rightarrow> int" where
  "share_of T S d = (if d \<le> 0 then 0 else T * d div S)"

lemma alloc_loop_spec:
  assumes "0 < S" "0 < T" "T * dealt t \<le> MaxInt64" "distinct (keys t)" "distinct (keys out)"
    "set (keys t) \<inter> set (keys out) = {}" "0 \<le> al" "al + floors t T S \<le> MaxInt64"
    "\<forall>p\<in>set out. 0 < snd p"
  shows "snd (alloc_loop t T S out al) = al + floors t T S
    \<and> vals_sum (fst (alloc_loop t T S out al)) = vals_sum out + floors t T S
    \<and> distinct (keys (fst (alloc_loop t T S out al)))
    \<and> (\<forall>p\<in>set (fst (alloc_loop t T S out al)). 0 < snd p)
    \<and> (\<forall>(r, d)\<in>set t. map_get (fst (alloc_loop t T S out al)) r 0 = share_of T S d)
    \<and> (\<forall>r. r \<notin> set (keys t) \<longrightarrow> map_get (fst (alloc_loop t T S out al)) r 0 = map_get out r 0)"
  using assms
proof (induction t arbitrary: out al)
  case (Cons p t)
  obtain r d where p: "p = (r, d)" by (cases p)
  have r: "r \<notin> set (keys t)" "r \<notin> set (keys out)" "distinct (keys t)" using Cons.prems(4,6) by (auto simp: p)
  have n: "0 \<le> floors t T S" using floors_bounds [of S T t] Cons.prems(1,2) by simp
  have "dealt t \<le> dealt (p # t)" "d \<le> dealt (p # t)"
    using dealt_nonneg [of t] by (simp_all add: p dealt_Cons del: dealt_nonneg)
  then have dt: "T * dealt t \<le> MaxInt64" "0 < d \<longrightarrow> T * d \<le> MaxInt64"
    using Cons.prems(2,3) mult_left_mono [of "dealt t" "dealt (p # t)" T]
      mult_left_mono [of d "dealt (p # t)" T] by linarith+
  show ?case
  proof (cases "0 < d \<and> 0 < T * d div S")
    case False
    then have z: "share_of T S d = 0" and f: "floors (p # t) T S = floors t T S"
      using Cons.prems(1,2) pos_imp_zdiv_nonneg_iff [of S "T * d"] by (auto simp: share_of_def p not_less)
    have e: "alloc_loop (p # t) T S out al = alloc_loop t T S out al"
    proof (cases "d \<le> 0")
      case False': False
      have "0 \<le> T * d" using False' Cons.prems(2) by simp
      moreover from this have "i64 (T * d) = T * d" using False' dt(2) by (intro i64_id) linarith+
      ultimately show ?thesis using False False' Cons.prems(1) by (simp add: p sdiv_nonneg)
    qed (simp add: p)
    note ih = Cons.IH [OF Cons.prems(1,2) dt(1) r(3) Cons.prems(5) _ Cons.prems(7) _ Cons.prems(9)]
    have s: "set (keys t) \<inter> set (keys out) = {}" using Cons.prems(6) by auto
    have l: "al + floors t T S \<le> MaxInt64" using Cons.prems(8) f by simp
    show ?thesis unfolding e f using ih [OF s l] r z map_get_absent [OF r(2)] by (auto simp: p)
  next
    case True
    have "0 \<le> T * d" using True Cons.prems(2) by simp
    then have w: "i64 (T * d) = T * d" using True dt(2) by (intro i64_id) linarith+
    have f: "floors (p # t) T S = T * d div S + floors t T S" using True by (simp add: p)
    have w2: "i64 (al + T * d div S) = al + T * d div S"
      using Cons.prems(7,8) True n unfolding f by (intro i64_id) linarith+
    have sd: "T * d sdiv S = T * d div S" using True Cons.prems(1,2) by (intro sdiv_nonneg) auto
    have e: "alloc_loop (p # t) T S out al =
        alloc_loop t T S (map_put r (T * d div S) out) (al + T * d div S)"
      using True by (simp add: p w sd w2 Let_def)
    have o: "distinct (keys (map_put r (T * d div S) out))" using Cons.prems(5) by simp
    have s: "set (keys t) \<inter> set (keys (map_put r (T * d div S) out)) = {}"
      using Cons.prems(6) r(1) by (auto simp: keys_put p simp del: set_map)
    have l: "al + T * d div S + floors t T S \<le> MaxInt64" using Cons.prems(8) f by simp
    have a: "0 \<le> al + T * d div S" using Cons.prems(7) True by simp
    have q: "\<forall>p\<in>set (map_put r (T * d div S) out). 0 < snd p"
      using Cons.prems(9) True map_put_in [of _ _ r "T * d div S" out] by force
    note ih = Cons.IH [OF Cons.prems(1,2) dt(1) r(3) o s a l q]
    have sh: "share_of T S d = T * d div S" using True by (simp add: share_of_def)
    show ?thesis unfolding e f using ih r sh by (auto simp: p vals_sum_put map_get_absent [OF r(2)])
  qed
qed simp


lemma dealt_zero: "dealt t = 0 \<Longrightarrow> (r, d) \<in> set t \<Longrightarrow> d \<le> 0"
  using dealt_mem [of r d t] by simp

text \<open>A kill's experience is paid out exactly, whatever the iteration order of the tally: with a known
  killer the awards sum to the total, each is positive, every other contributor gets the floor of its
  proportional share, and the killer gets its floor plus a remainder smaller than the number of
  contributors.\<close>

lemma allocateXP_exact:
  assumes "distinct (keys t)" "0 < T" "T * dealt t \<le> MaxInt64" "T \<le> MaxInt64" "dealt t \<le> MaxInt64"
    "rf_Kind killer \<noteq> ActorKindUnknown"
  shows "vals_sum (allocateXP t T killer) = T \<and> distinct (keys (allocateXP t T killer))
    \<and> (\<forall>p\<in>set (allocateXP t T killer). 0 < snd p)
    \<and> (\<forall>(r, d)\<in>set t. r \<noteq> killer \<longrightarrow> map_get (allocateXP t T killer) r 0 = share_of T (dealt t) d)
    \<and> (dealt t > 0 \<longrightarrow> map_get (allocateXP t T killer) killer 0 <
         share_of T (dealt t) (map_get t killer 0) + max 1 (int (length (filter (\<lambda>p. snd p > 0) t))))"
proof -
  have ts: "tally_sum t 0 = dealt t" using tally_sum_eq [of 0 t] assms(5) by simp
  show ?thesis
  proof (cases "dealt t = 0")
    case True
    then have "allocateXP t T killer = [(killer, T)]" using assms(2,6) ts by (simp add: allocateXP_def Let_def)
    moreover have "share_of T (dealt t) d = 0" if "(r, d) \<in> set t" for r d
      using dealt_zero [OF True that] by (simp add: share_of_def)
    ultimately show ?thesis using assms(2) True by (auto simp: map_get_def)
  next
    case False
    define S where "S = dealt t"
    have S: "0 < S" using False dealt_nonneg [of t] unfolding S_def by linarith
    define F where "F = floors t T S"
    have F0: "0 \<le> F" "S * F \<le> T * S" using floors_bounds [OF S, of T t] assms(2) by (simp_all add: F_def S_def)
    then have F1: "F \<le> T" using S by (simp add: mult.commute)
    define out where "out = fst (alloc_loop t T S [] 0)"
    have al: "alloc_loop t T S [] 0 = (out, F)" and o: "vals_sum out = F" "distinct (keys out)"
      "\<forall>p\<in>set out. 0 < snd p" "\<forall>(r, d)\<in>set t. map_get out r 0 = share_of T S d"
      "\<forall>r. r \<notin> set (keys t) \<longrightarrow> map_get out r 0 = 0"
      using alloc_loop_spec [OF S assms(2,3,1), of "[]" 0] F1 assms(4)
      by (auto simp: out_def F_def prod_eq_iff map_get_def)
    have k: "map_get out killer 0 = share_of T S (map_get t killer 0)"
    proof (cases "killer \<in> set (keys t)")
      case True
      then obtain d where d: "(killer, d) \<in> set t" by auto
      with map_get_in [OF assms(1) d, of 0] o(4) show ?thesis by auto
    next
      case f: False
      then show ?thesis using o(5) map_get_absent [OF f, of 0] by (simp add: share_of_def)
    qed
    have kb: "0 \<le> map_get out killer 0" "map_get out killer 0 \<le> F"
      using o(1,3) map_get_le_sum [of out killer] by (simp_all add: less_imp_le)
    have rem: "i64 (T - F) = T - F" using F0 F1 assms(4) by (intro i64_id) auto
    have res: "allocateXP t T killer =
        (if F < T then map_put killer (map_get out killer 0 + (T - F)) out else out)"
    proof -
      have "i64 (map_get out killer 0 + (T - F)) = map_get out killer 0 + (T - F)"
        using kb F0 F1 assms(4) by (intro i64_id) linarith+
      then show ?thesis using assms(2,6) False al rem by (simp add: allocateXP_def ts S_def [symmetric] Let_def)
    qed
    have "T * S \<le> S * F + (S - 1) * int (length (filter (\<lambda>p. snd p > 0) t))"
      using floors_miss [OF S, of T t] assms(2) by (simp add: F_def S_def)
    moreover define n where "n = int (length (filter (\<lambda>p. snd p > 0) t))"
    ultimately have "S * (T - F) \<le> (S - 1) * n" by (simp add: algebra_simps)
    also have "\<dots> < S * max 1 n"
    proof -
      have n0: "0 \<le> n" by (simp add: n_def)
      show ?thesis
      proof (cases "n = 0")
        case True then show ?thesis using S by simp
      next
        case False
        then have "S * max 1 n = (S - 1) * n + n" "0 < n" using n0 by (simp_all add: algebra_simps max_def)
        then show ?thesis by simp
      qed
    qed
    finally have miss: "T - F < max 1 n" using S by simp
    have sum_k: "vals_sum (map_put killer (map_get out killer 0 + (T - F)) out) = T"
      using o(1) by (simp add: vals_sum_put)
    have pos: "\<forall>p\<in>set (map_put killer (map_get out killer 0 + (T - F)) out). 0 < snd p" if "F < T"
      using o(3) kb that map_put_in [of _ _ killer _ out] by force
    show ?thesis
    proof (cases "F < T")
      case True
      then show ?thesis using res sum_k pos o k miss by (auto simp: S_def [symmetric] n_def)
    next
      case f: False
      then have "F = T" using F1 by simp
      with f show ?thesis using res o k miss by (auto simp: S_def [symmetric] n_def)
    qed
  qed
qed

section \<open>Crediting: what each character gains\<close>

text \<open>The row after an award: the debt is paid first, the rest is gained.\<close>

definition credited :: "int \<Rightarrow> Character \<Rightarrow> Character" where
  "credited a ch = ch\<lparr>ch_XP := ch_XP ch + fst (ApplyXPAward a (ch_XPDebt ch)),
                      ch_XPDebt := snd (ApplyXPAward a (ch_XPDebt ch))\<rparr>"

text \<open>What crediting needs of the row for the sums to stay inside \<open>int64\<close>.\<close>

definition xp_room :: "int \<Rightarrow> Character \<Rightarrow> bool" where
  "xp_room a ch = (0 \<le> ch_XPDebt ch \<and> ch_XPDebt ch \<le> MaxInt64 \<and> 0 \<le> ch_XP ch \<and>
     ch_XP ch + max 0 a \<le> MaxInt64)"

lemma xp_write: "keeps_identity (\<lambda>c. Inr (c\<lparr>ch_XP := x\<rparr>))" "keeps_identity (\<lambda>c. Inr (c\<lparr>ch_XPDebt := y\<rparr>))"
  by (auto simp: keeps_identity_def)

lemma credited_id: "gain = 0 \<Longrightarrow> ch\<lparr>ch_XP := ch_XP ch + gain\<rparr> = ch" "ch\<lparr>ch_XPDebt := ch_XPDebt ch\<rparr> = ch"
  by simp_all

lemma credit_one_others:
  assumes "rf_Kind r \<noteq> ActorKindCharacter \<or> rf_ID r \<noteq> j \<or> a \<le> 0"
  shows "repo_GetByID (fst (credit_one room v (r, a) chars)) j = repo_GetByID chars j"
proof (cases "rf_Kind r \<noteq> ActorKindCharacter \<or> a \<le> 0")
  case False
  with assms have j: "rf_ID r \<noteq> j" by simp
  note o = char_store.others [OF xp_write(1) j] char_store.others [OF xp_write(2) j]
  show ?thesis using False o
    by (auto simp: credit_one_def repo_RecordXP_def repo_RecordXPDebt_def split_beta Let_def
        split: sum.split option.split)
qed (simp add: credit_one_def)

lemma credit_one_same:
  assumes g: "repo_GetByID chars i = Inr ch" and a: "0 < a" and x: "xp_room a ch"
  shows "repo_GetByID (fst (credit_one room v (char_ref i, a) chars)) i = Inr (credited a ch)"
proof -
  obtain gain debt where w: "ApplyXPAward a (ch_XPDebt ch) = (gain, debt)"
    by (cases "ApplyXPAward a (ch_XPDebt ch)")
  have c: "gain + (ch_XPDebt ch - debt) = a" "0 \<le> gain" "gain \<le> a" "0 \<le> debt" "debt \<le> ch_XPDebt ch"
    using ApplyXPAward_conserves [OF a, of "ch_XPDebt ch"] x by (simp_all add: w xp_room_def)
  have i: "i64 (ch_XP ch + gain) = ch_XP ch + gain" "i64 (ch_XPDebt ch - debt) = ch_XPDebt ch - debt"
    using c x by (intro i64_id; simp add: xp_room_def)+
  let ?c1 = "ch\<lparr>ch_XP := ch_XP ch + gain\<rparr>"
  define chars1 where "chars1 = (if gain > 0 then fst (repo_RecordXP chars i (ch_XP ch + gain)) else chars)"
  have g1: "repo_GetByID chars1 i = Inr ?c1"
    and e1: "gain > 0 \<Longrightarrow> snd (repo_RecordXP chars i (ch_XP ch + gain)) = None"
    using char_store.accepted [OF g refl xp_write(1), of "ch_XP ch + gain"] g c(2)
    by (auto simp: chars1_def repo_RecordXP_def)
  have g2: "repo_GetByID (fst (repo_RecordXPDebt chars1 i debt)) i = Inr (?c1\<lparr>ch_XPDebt := debt\<rparr>)"
    using char_store.accepted [OF g1 refl xp_write(2), of debt] by (simp add: repo_RecordXPDebt_def)
  have rx: "gain > 0 \<Longrightarrow> repo_RecordXP chars i (ch_XP ch + gain) = (chars1, None)"
    "\<not> gain > 0 \<Longrightarrow> chars1 = chars"
    using e1 by (simp_all add: chars1_def prod_eq_iff)
  have "fst (credit_one room v (char_ref i, a) chars) =
      (if ch_XPDebt ch - debt > 0 then fst (repo_RecordXPDebt chars1 i debt) else chars1)"
    using a rx by (cases "gain > 0") (simp_all add: credit_one_def char_ref_def g w i Let_def)
  then show ?thesis using g1 g2 c(5) by (cases "debt = ch_XPDebt ch") (auto simp: credited_def w)
qed

lemma credit_loop_spec:
  assumes "distinct (keys aw)" "repo_GetByID chars i = Inr ch" "xp_room (map_get aw (char_ref i) 0) ch"
  shows "repo_GetByID (fst (credit_loop room v aw chars)) i =
    Inr (if 0 < map_get aw (char_ref i) 0 then credited (map_get aw (char_ref i) 0) ch else ch)"
  using assms
proof (induction aw arbitrary: chars ch)
  case (Cons p aw)
  obtain r a where p: "p = (r, a)" by (cases p)
  show ?case
  proof (cases "r = char_ref i")
    case True
    have n: "map_get aw (char_ref i) 0 = 0" using Cons.prems(1) True by (intro map_get_absent) (auto simp: p)
    have a: "map_get (p # aw) (char_ref i) 0 = a" by (simp add: p True map_get_def)
    show ?thesis
    proof (cases "0 < a")
      case pos: True
      have g: "repo_GetByID (fst (credit_one room v (r, a) chars)) i = Inr (credited a ch)"
        using credit_one_same [OF Cons.prems(2) pos] Cons.prems(3) True by (simp add: a)
      have "xp_room 0 (credited a ch)"
        using ApplyXPAward_conserves [OF pos, of "ch_XPDebt ch"] Cons.prems(3)
        by (simp add: a xp_room_def credited_def)
      with Cons.IH [OF _ g] Cons.prems(1) n pos show ?thesis by (simp add: p a [unfolded p] split_beta Let_def)
    next
      case False
      have g: "repo_GetByID (fst (credit_one room v (r, a) chars)) i = Inr ch"
        using credit_one_others [of r i a room v chars] False Cons.prems(2) by simp
      have "xp_room 0 ch" using Cons.prems(3) unfolding xp_room_def by linarith
      with Cons.IH [OF _ g] Cons.prems(1) n False show ?thesis by (simp add: p a [unfolded p] split_beta Let_def)
    qed
  next
    case False
    have g: "repo_GetByID (fst (credit_one room v (r, a) chars)) i = Inr ch"
      using credit_one_others [of r i a room v chars] False Cons.prems(2)
      by (cases r) (auto simp: char_ref_def)
    have m: "map_get (p # aw) (char_ref i) 0 = map_get aw (char_ref i) 0" using False by (simp add: p map_get_def)
    show ?thesis using Cons.IH [OF _ g] Cons.prems(1,3) by (simp add: m [unfolded p] p split_beta Let_def)
  qed
qed (simp add: map_get_def)


lemma alloc_loop_distinct: "distinct (keys out) \<Longrightarrow> distinct (keys (fst (alloc_loop t T S out al)))"
  by (induction t T S out al rule: alloc_loop.induct) (simp_all add: Let_def)

lemma allocateXP_distinct: "distinct (keys (allocateXP t T k))"
  using alloc_loop_distinct [of "[]" t T "tally_sum t 0" 0]
  by (auto simp: allocateXP_def split_beta Let_def)

text \<open>What an award does to a row: debt first, the rest is experience, nothing else moves.\<close>

definition paid_out :: "int \<Rightarrow> Character \<Rightarrow> Character \<Rightarrow> bool" where
  "paid_out a c c' \<longleftrightarrow> (if a \<le> 0 then c' = c
     else (ch_XP c' - ch_XP c) + (ch_XPDebt c - ch_XPDebt c') = a \<and> ch_XP c \<le> ch_XP c'
        \<and> 0 \<le> ch_XPDebt c' \<and> ch_XPDebt c' \<le> ch_XPDebt c \<and> (ch_XP c < ch_XP c' \<longrightarrow> ch_XPDebt c' = 0)
        \<and> c' = c\<lparr>ch_XP := ch_XP c', ch_XPDebt := ch_XPDebt c'\<rparr>)"

lemma paid_credited: "0 < a \<longrightarrow> xp_room a c \<Longrightarrow> paid_out a c (if 0 < a then credited a c else c)"
  using ApplyXPAward_conserves [of a "ch_XPDebt c"] by (auto simp: paid_out_def credited_def xp_room_def)

lemma credit_loop_missing:
  "repo_GetByID chars j = Inl e \<Longrightarrow> repo_GetByID (fst (credit_loop room v aw chars)) j = Inl e"
proof (induction aw arbitrary: chars)
  case (Cons p aw)
  obtain r a where p: "p = (r, a)" by (cases p)
  have "repo_GetByID (fst (credit_one room v p chars)) j = Inl e"
  proof (cases "rf_Kind r \<noteq> ActorKindCharacter \<or> rf_ID r \<noteq> j \<or> a \<le> 0")
    case True
    then show ?thesis using credit_one_others [OF True, of room v chars] Cons.prems by (simp add: p)
  next
    case False
    then show ?thesis using Cons.prems by (simp add: p credit_one_def)
  qed
  from Cons.IH [OF this] show ?case by (simp add: split_beta Let_def)
qed simp

lemma credit_loop_zero:
  "distinct (keys aw) \<Longrightarrow> repo_GetByID chars j = Inr c \<Longrightarrow> map_get aw (char_ref j) 0 \<le> 0 \<Longrightarrow>
   repo_GetByID (fst (credit_loop room v aw chars)) j = Inr c"
proof (induction aw arbitrary: chars)
  case (Cons p aw)
  obtain r a where p: "p = (r, a)" by (cases p)
  have n: "map_get aw (char_ref j) 0 \<le> 0 \<and> (rf_Kind r \<noteq> ActorKindCharacter \<or> rf_ID r \<noteq> j \<or> a \<le> 0)"
  proof (cases "r = char_ref j")
    case True
    have "map_get aw (char_ref j) 0 = 0" using Cons.prems(1) True by (intro map_get_absent) (auto simp: p)
    then show ?thesis using Cons.prems(3) True by (simp add: p map_get_def)
  next
    case False
    then have "rf_Kind r \<noteq> ActorKindCharacter \<or> rf_ID r \<noteq> j" by (cases r) (auto simp: char_ref_def)
    then show ?thesis using Cons.prems(3) False by (auto simp: p map_get_def)
  qed
  then have "repo_GetByID (fst (credit_one room v p chars)) j = Inr c"
    using credit_one_others [of r j a room v chars] Cons.prems(2) by (simp add: p)
  from Cons.IH [OF _ this] n Cons.prems(1) show ?case by (simp add: p split_beta Let_def)
qed simp

lemma credit_loop_pays:
  assumes "distinct (keys aw)" "\<forall>c. repo_GetByID chars j = Inr c \<and> 0 < map_get aw (char_ref j) 0 \<longrightarrow> xp_room (map_get aw (char_ref j) 0) c"
  shows "case repo_GetByID chars j of
      Inl e \<Rightarrow> repo_GetByID (fst (credit_loop room v aw chars)) j = Inl e
    | Inr c \<Rightarrow> \<exists>c'. repo_GetByID (fst (credit_loop room v aw chars)) j = Inr c' \<and> paid_out (map_get aw (char_ref j) 0) c c'"
proof (cases "repo_GetByID chars j")
  case (Inl e)
  then show ?thesis using credit_loop_missing by auto
next
  case (Inr c)
  let ?a = "map_get aw (char_ref j) 0"
  show ?thesis
  proof (cases "0 < ?a")
    case True
    with Inr assms(2) have x: "xp_room ?a c" by blast
    have "repo_GetByID (fst (credit_loop room v aw chars)) j = Inr (if 0 < ?a then credited ?a c else c)"
      by (rule credit_loop_spec [OF assms(1) Inr x])
    then show ?thesis using Inr paid_credited [of ?a c] x by auto
  next
    case False
    have "repo_GetByID (fst (credit_loop room v aw chars)) j = Inr c"
      by (rule credit_loop_zero [OF assms(1) Inr]) (use False in simp)
    then show ?thesis using Inr False by (simp add: paid_out_def)
  qed
qed

text \<open>C7: Crediting a kill gives every stored character exactly its award, and nothing to anyone else: the award
  is split into paid-off debt and gained experience, debt comes first, stays non-negative and never grows,
  experience never shrinks, and no other field of the row changes.\<close>

theorem creditXPShares_exact:
  assumes "repo_GetByID chars i = Inr ch"
    and "a = map_get (allocateXP (expandTallyByGroup t room resolver) T killer) (char_ref i) 0"
    and "xp_room a ch" "0 \<le> a" "0 < T"
  shows "\<exists>ch'. repo_GetByID (fst (creditXPShares resolver room killer victim t T chars)) i = Inr ch'
    \<and> (ch_XP ch' - ch_XP ch) + (ch_XPDebt ch - ch_XPDebt ch') = a
    \<and> ch_XP ch \<le> ch_XP ch' \<and> 0 \<le> ch_XPDebt ch' \<and> ch_XPDebt ch' \<le> ch_XPDebt ch
    \<and> (ch_XP ch < ch_XP ch' \<longrightarrow> ch_XPDebt ch' = 0)
    \<and> ch' = ch\<lparr>ch_XP := ch_XP ch', ch_XPDebt := ch_XPDebt ch'\<rparr>"
proof -
  let ?c = "if 0 < a then credited a ch else ch"
  have g: "repo_GetByID (fst (creditXPShares resolver room killer victim t T chars)) i = Inr ?c"
    using credit_loop_spec [OF allocateXP_distinct assms(1), of "expandTallyByGroup t room resolver" T killer room victim]
      assms(3,5) unfolding assms(2) by (simp add: creditXPShares_def)
  have "0 \<le> ch_XPDebt ch" using assms(3) by (simp add: xp_room_def)
  with ApplyXPAward_conserves [of a "ch_XPDebt ch"] assms(4)
  have "(ch_XP ?c - ch_XP ch) + (ch_XPDebt ch - ch_XPDebt ?c) = a" "ch_XP ch \<le> ch_XP ?c" "0 \<le> ch_XPDebt ?c"
    "ch_XPDebt ?c \<le> ch_XPDebt ch" "ch_XP ch < ch_XP ?c \<longrightarrow> ch_XPDebt ?c = 0"
    "?c = ch\<lparr>ch_XP := ch_XP ?c, ch_XPDebt := ch_XPDebt ?c\<rparr>"
    by (cases "0 < a"; auto simp: credited_def)+
  with g show ?thesis by blast
qed

definition indebted :: Character where
  "indebted = sample_character\<lparr>ch_ID := 1, ch_NameLower := ''rand'', ch_XP := 50, ch_XPDebt := 30\<rparr>"

definition indebted_repo :: MemoryCharacterRepo where
  "indebted_repo = sample_repo\<lparr>mr_byLower := [(ch_NameLower indebted, indebted)]\<rparr>"

theorem creditXPShares_exact_witness:
  "\<exists>ch'. repo_GetByID (fst (creditXPShares None 1 (char_ref 1) (char_ref 9) [(char_ref 1, 7)] 100 indebted_repo))
      (ch_ID indebted) = Inr ch' \<and> (ch_XP ch' - 50) + (30 - ch_XPDebt ch') = 100"
proof -
  have g: "repo_GetByID indebted_repo (ch_ID indebted) = Inr indebted"
    by (simp add: repo_GetByID_def indebted_repo_def sample_repo_def)
  have i: "ch_ID indebted = 1" "ch_XP indebted = 50" "ch_XPDebt indebted = 30"
    by (simp_all add: indebted_def sample_character_def)
  have a: "map_get (allocateXP (expandTallyByGroup [(char_ref 1, 7)] 1 None) 100 (char_ref 1)) (char_ref 1) 0 = 100"
    by (simp add: expandTallyByGroup_def allocateXP_def char_ref_def i64_id signed_divide_int_def map_get_def)
  have "xp_room 100 indebted" by (simp add: xp_room_def i)
  from creditXPShares_exact [OF g _ this, of "[(char_ref 1, 7)]" 1 None 100 "char_ref 1" "char_ref 9"] a i
  show ?thesis by auto
qed


section \<open>The group expansion keeps the total\<close>

lemma member_loop_absent: "dealer \<notin> set ms \<Longrightarrow> member_loop ms dealer s r out = member_loop ms dealer s r' out"
  by (induction ms arbitrary: out) (simp_all add: Let_def)

lemma member_loop_spec:
  assumes "distinct ms" "0 \<le> share" "0 \<le> rm" "\<forall>p\<in>set out. 0 \<le> snd p"
    "vals_sum out + int (length ms) * share + rm \<le> MaxInt32"
  shows "vals_sum (member_loop ms dealer share rm out) =
           vals_sum out + int (length ms) * share + (if dealer \<in> set ms then rm else 0)
    \<and> set (keys (member_loop ms dealer share rm out)) = set (keys out) \<union> char_ref ` set ms
    \<and> (\<forall>p\<in>set (member_loop ms dealer share rm out). 0 \<le> snd p)"
  using assms
proof (induction ms arbitrary: out rm)
  case (Cons m ms)
  define c where "c = (if m = dealer then share + rm else share)"
  define out' where "out' = map_put (char_ref m) (map_get out (char_ref m) 0 + c) out"
  note b = map_get_le_sum [OF Cons.prems(4), of "char_ref m"]
  have l: "int (length (m # ms)) * share = share + int (length ms) * share" by (simp add: algebra_simps)
  have n: "0 \<le> int (length ms) * share" using Cons.prems(2) by simp
  have c: "0 \<le> c" "c \<le> share + rm" using Cons.prems(2,3) by (simp_all add: c_def)
  have w: "i32 (share + rm) = share + rm" "i32 (map_get out (char_ref m) 0 + c) = map_get out (char_ref m) 0 + c"
    using b n l c Cons.prems(2,3,5) by (intro i32_id; linarith)+
  have e: "member_loop (m # ms) dealer share rm out = member_loop ms dealer share rm out'"
    using w by (simp add: out'_def c_def Let_def split: if_splits)
  have s: "vals_sum out' = vals_sum out + c" by (simp add: out'_def vals_sum_put)
  have q: "\<forall>p\<in>set out'. 0 \<le> snd p"
    using Cons.prems(4) b c map_put_in [of _ _ "char_ref m" _ out] unfolding out'_def by force
  define rm' where "rm' = (if m = dealer then 0 else rm)"
  have m: "m \<notin> set ms" "distinct ms" using Cons.prems(1) by simp_all
  have e2: "member_loop ms dealer share rm out' = member_loop ms dealer share rm' out'"
    using member_loop_absent [of dealer ms share rm out' 0] m by (cases "m = dealer") (simp_all add: rm'_def)
  have r: "0 \<le> rm'" "vals_sum out' + int (length ms) * share + rm' \<le> MaxInt32"
    using Cons.prems(3,5) l by (auto simp: rm'_def s c_def)
  have ks: "set (keys out') = insert (char_ref m) (set (keys out))" unfolding out'_def by (rule keys_put)
  show ?case unfolding e e2 using Cons.IH [OF m(2) Cons.prems(2) r(1) q r(2)] m l
    by (auto simp: s ks c_def rm'_def simp del: set_map)
qed simp


definition solo :: "(int \<Rightarrow> int \<Rightarrow> int list) \<Rightarrow> int \<Rightarrow> ActorRef \<times> int \<Rightarrow> bool" where
  "solo f room p = (rf_Kind (fst p) \<noteq> ActorKindCharacter \<or> snd p \<le> 0 \<or> length (f (rf_ID (fst p)) room) \<le> 1)"

text \<open>What the group resolver returns for the contributors of a tally: the dealer is among the members, once,
  and no member's own entry is one that passes through unsplit.\<close>

definition resolver_ok :: "(int \<Rightarrow> int \<Rightarrow> int list) \<Rightarrow> int \<Rightarrow> tally \<Rightarrow> bool" where
  "resolver_ok f room t =
     (\<forall>p\<in>set t. \<not> solo f room p \<longrightarrow>
        distinct (f (rf_ID (fst p)) room) \<and> rf_ID (fst p) \<in> set (f (rf_ID (fst p)) room)
        \<and> int (length (f (rf_ID (fst p)) room)) \<le> MaxInt32
        \<and> (\<forall>q\<in>set t. solo f room q \<longrightarrow> fst q \<notin> char_ref ` set (f (rf_ID (fst p)) room)))"

lemma resolver_ok_Cons: "resolver_ok f room (p # t) \<Longrightarrow> resolver_ok f room t"
  by (simp add: resolver_ok_def)

lemma expand_loop_spec:
  assumes "distinct (keys t)" "\<forall>p\<in>set t. 0 \<le> snd p" "\<forall>p\<in>set out. 0 \<le> snd p"
    "resolver_ok f room t" "\<forall>q\<in>set t. solo f room q \<longrightarrow> fst q \<notin> set (keys out)"
    "vals_sum out + vals_sum t \<le> MaxInt32"
  shows "vals_sum (fst (expand_loop t room f out mu)) = vals_sum out + vals_sum t"
  using assms
proof (induction t arbitrary: out mu)
  case (Cons p t)
  obtain r d where p: "p = (r, d)" by (cases p)
  have d: "0 \<le> d" "distinct (keys t)" "\<forall>p\<in>set t. 0 \<le> snd p" "r \<notin> set (keys t)"
    using Cons.prems(1,2) by (auto simp: p)
  have vt: "0 \<le> vals_sum t" using d(3) by (intro sum_list_nonneg) auto
  note ih = Cons.IH [OF d(2,3) _ resolver_ok_Cons [OF Cons.prems(4)]]
  show ?case
  proof (cases "solo f room p")
    case True
    have e: "expand_loop (p # t) room f out mu = expand_loop t room f (map_put r d out) mu"
      using True by (auto simp: p solo_def Let_def)
    have r: "r \<notin> set (keys out)" using Cons.prems(5) True by (auto simp: p)
    have s: "vals_sum (map_put r d out) = vals_sum out + d" by (simp add: vals_sum_put map_get_absent [OF r])
    have "\<forall>p\<in>set (map_put r d out). 0 \<le> snd p"
      using Cons.prems(3) d(1) map_put_in [of _ _ r d out] by force
    moreover have "\<forall>q\<in>set t. solo f room q \<longrightarrow> fst q \<notin> set (keys (map_put r d out))"
    proof (intro ballI impI)
      fix q assume q: "q \<in> set t" "solo f room q"
      then have "fst q \<in> set (keys t)" by simp
      with d(4) have "fst q \<noteq> r" by blast
      with Cons.prems(5) q show "fst q \<notin> set (keys (map_put r d out))" unfolding keys_put by simp
    qed
    ultimately show ?thesis unfolding e using ih [of "map_put r d out" mu] Cons.prems(6) s by (simp add: p)
  next
    case False
    define ms where "ms = f (rf_ID r) room"
    define n where "n = int (length ms)"
    have k: "rf_Kind r = ActorKindCharacter" "0 < d" "2 \<le> n"
      using False by (auto simp: solo_def p ms_def n_def)
    have m: "distinct ms" "rf_ID r \<in> set ms" "n \<le> MaxInt32"
      "\<forall>q\<in>set (p # t). solo f room q \<longrightarrow> fst q \<notin> char_ref ` set ms"
      using Cons.prems(4) False by (auto simp: resolver_ok_def p ms_def n_def)
    have vo: "0 \<le> vals_sum out" using Cons.prems(3) by (intro sum_list_nonneg) auto
    have n: "i32 n = n" using k m by (intro i32_id) auto
    have dv: "d sdiv n = d div n" using k by (simp add: sdiv_nonneg)
    have dn: "n * (d div n) + d mod n = d" "0 \<le> d div n" "0 \<le> d mod n"
      using k pos_mod_sign [of n d] pos_imp_zdiv_nonneg_iff [of n d] by simp_all
    have db: "d \<le> MaxInt32" using Cons.prems(6) vo vt by (simp add: p)
    have nn: "0 \<le> n * (d div n)" using k dn by simp
    have mm: "n * (d div n) \<le> d" "d - n * (d div n) = d mod n" "d mod n \<le> d" using dn nn by linarith+
    have "i32 (n * (d div n)) = n * (d div n)" "i32 (d mod n) = d mod n"
      using db nn dn mm by (intro i32_id; linarith)+
    then have w: "i32 ((d div n) * n) = n * (d div n)" "i32 (d - n * (d div n)) = d mod n"
      by (simp_all only: mult.commute [of "d div n"] mm(2))
    define out' where "out' = member_loop ms (rf_ID r) (d div n) (d mod n) out"
    have e: "expand_loop (p # t) room f out mu = expand_loop t room f out' True"
    proof -
      have "\<not> n \<le> 1" using k(3) by simp
      then show ?thesis using k(1,2) n dv w
        unfolding p expand_loop.simps Let_def ms_def [symmetric] n_def [symmetric] out'_def by simp
    qed
    have b: "vals_sum out + int (length ms) * (d div n) + d mod n \<le> MaxInt32"
      using Cons.prems(6) vt dn by (simp add: p n_def [symmetric])
    note ml = member_loop_spec [OF m(1) dn(2,3) Cons.prems(3) b, of "rf_ID r"]
    have s: "vals_sum out' = vals_sum out + d" using ml m(2) dn(1) by (simp add: out'_def n_def [symmetric])
    have "\<forall>q\<in>set t. solo f room q \<longrightarrow> fst q \<notin> set (keys out')"
      using ml Cons.prems(5) m(4) by (auto simp: out'_def simp del: set_map)
    then show ?thesis unfolding e using ih [of out' True] ml Cons.prems(6) s by (simp add: p out'_def)
  qed
qed simp

text \<open>The group expansion redistributes the damage and loses none of it: the expanded tally sums to the
  dealt damage, provided each split party contains its dealer and no member of a split party has a tally
  entry of his own that is not split.\<close>

lemma expand_conserves:
  assumes "distinct (keys t)" "\<forall>p\<in>set t. 0 \<le> snd p" "vals_sum t \<le> MaxInt32" "resolver_ok f room t"
  shows "vals_sum (expandTallyByGroup t room (Some f)) = vals_sum t"
  using expand_loop_spec [OF assms(1,2) _ assms(4), of "[]" False] assms(3)
  by (cases "expand_loop t room f [] False") (auto simp: expandTallyByGroup_def)

definition pair_party :: "int \<Rightarrow> int \<Rightarrow> int \<Rightarrow> int \<Rightarrow> int list" where
  "pair_party a b c room = (if c = a \<or> c = b then [a, b] else [c])"

text \<open>The second condition is needed, and the fight can break it: a hit wholly absorbed by damage reduction
  leaves a zero entry in the tally, and for two party members \<open>a\<close> (who dealt \<open>d\<close>) and \<open>b\<close> (whose hits were
  absorbed) the result then depends on Go's map order: visited first, \<open>b\<close> shares half of the damage, visited
  second its share is overwritten with zero and half of the damage is lost.\<close>

lemma expand_depends_on_order:
  assumes "a \<noteq> b" "2 \<le> d" "d \<le> MaxInt32"
  shows "map_get (expandTallyByGroup [(char_ref b, 0), (char_ref a, d)] room (Some (pair_party a b))) (char_ref b) 0
           = d div 2
    \<and> map_get (expandTallyByGroup [(char_ref a, d), (char_ref b, 0)] room (Some (pair_party a b))) (char_ref b) 0
           = 0"
proof -
  have c: "char_ref a \<noteq> char_ref b" "char_ref b \<noteq> char_ref a" using assms(1) by (simp_all add: char_ref_def)
  have s: "d sdiv i32 2 = d div 2" "i32 (d div 2) = d div 2"
    using assms(2,3) by (simp_all add: i32_id sdiv_nonneg)
  show ?thesis using assms(1,2) c s
    by (simp add: expandTallyByGroup_def pair_party_def map_get_def Let_def char_ref_def split_beta)
qed

end
