(* ===== verification/TelnetWire.thy ===== *)
theory TelnetWire
  imports TelnetColor
begin

text \<open>
  The telnet wire protocol: \<open>telnet/iac.go\<close> (IAC commands, subnegotiation, option negotiation, CHARSET,
  GMCP), \<open>mssp.go\<close> and the frame encoder of \<open>session.go\<close>, and \<open>csi.go\<close> (cursor-key sequences). The
  \<open>bufio.Reader\<close> is the list of bytes still to come: a read from the empty list is the reader's error
  (end of file or a broken connection). Only the fields of the session that this code touches are kept.
  Writes go to the list of payloads \<open>WriteRaw\<close> was called with: their errors are only logged here.
\<close>

section \<open>Constants and state\<close>

definition TELNET_IAC :: char where "TELNET_IAC = CHR 0xFF"
definition TELNET_DONT :: char where "TELNET_DONT = CHR 0xFE"
definition TELNET_DO :: char where "TELNET_DO = CHR 0xFD"
definition TELNET_WONT :: char where "TELNET_WONT = CHR 0xFC"
definition TELNET_WILL :: char where "TELNET_WILL = CHR 0xFB"
definition TELNET_SB :: char where "TELNET_SB = CHR 0xFA"
definition TELNET_SE :: char where "TELNET_SE = CHR 0xF0"
definition TELNET_OPT_TERM_TYPE :: char where "TELNET_OPT_TERM_TYPE = CHR 0x18"
definition TELNET_OPT_NAWS :: char where "TELNET_OPT_NAWS = CHR 0x1F"
definition TELNET_OPT_CHARSET :: char where "TELNET_OPT_CHARSET = CHR 0x2A"
definition TELNET_OPT_MSSP :: char where "TELNET_OPT_MSSP = CHR 0x46"
definition TELNET_OPT_GMCP :: char where "TELNET_OPT_GMCP = CHR 0xC9"
definition CHARSET_REQUEST :: char where "CHARSET_REQUEST = CHR 0x01"
definition CHARSET_ACCEPTED :: char where "CHARSET_ACCEPTED = CHR 0x02"
definition CHARSET_REJECTED :: char where "CHARSET_REJECTED = CHR 0x03"
definition MSSP_VAR :: char where "MSSP_VAR = CHR 0x01"
definition MSSP_VAL :: char where "MSSP_VAL = CHR 0x02"
definition charsetSeparator :: char where "charsetSeparator = CHR '';''"
definition maxSubnegotiationLen :: nat where "maxSubnegotiationLen = 4096"

lemmas telnet_bytes = TELNET_IAC_def TELNET_DONT_def TELNET_DO_def TELNET_WONT_def TELNET_WILL_def
  TELNET_SB_def TELNET_SE_def
lemmas telnet_opts = TELNET_OPT_TERM_TYPE_def TELNET_OPT_NAWS_def TELNET_OPT_CHARSET_def TELNET_OPT_MSSP_def
  TELNET_OPT_GMCP_def

record MSSPVar =
  mv_Name :: string
  mv_Value :: string

record Wire =
  ses_TerminalType :: string
  ses_ColorLevel :: int
  ses_Width :: int
  ses_Height :: int
  ses_Charset :: string
  ses_gmcpEnabled :: bool
  ses_msspSent :: bool
  ses_MSSPProvider :: "MSSPVar list option"
  ses_GMCPHandler :: bool
  ses_gmcpCalls :: "(string \<times> string) list"
  ses_out :: "string list"

datatype wire_error = ErrRead | ErrSubnegotiationTooLong | ErrCSITooLong

text \<open>\<open>ses_out\<close> is the list of the payloads a session hands to its writer, in order; that the connection accepts
  them, and that no flood gate (which drops payloads silently) is installed, is outside the model.\<close>

definition WriteRaw :: "Wire \<Rightarrow> string \<Rightarrow> Wire" where
  "WriteRaw s b = s\<lparr>ses_out := ses_out s @ [b]\<rparr>"

section \<open>Encoders\<close>

text \<open>\<open>appendMSSPField\<close> and \<open>appendGMCPField\<close> are the same loop.\<close>

fun escape_iac :: "string \<Rightarrow> string" where
  "escape_iac [] = []"
| "escape_iac (b # bs) =
     (if b = TELNET_IAC then TELNET_IAC # TELNET_IAC # escape_iac bs else b # escape_iac bs)"

definition appendMSSPField :: "string \<Rightarrow> string \<Rightarrow> string" where
  "appendMSSPField out s = out @ escape_iac s"

fun mssp_vars :: "string \<Rightarrow> MSSPVar list \<Rightarrow> string" where
  "mssp_vars out [] = out"
| "mssp_vars out (v # vs) =
     mssp_vars (appendMSSPField (appendMSSPField (out @ [MSSP_VAR]) (mv_Name v) @ [MSSP_VAL]) (mv_Value v)) vs"

definition EncodeMSSP :: "MSSPVar list \<Rightarrow> string" where
  "EncodeMSSP vars = mssp_vars [TELNET_IAC, TELNET_SB, TELNET_OPT_MSSP] vars @ [TELNET_IAC, TELNET_SE]"

definition encodeGMCPFrame :: "string \<Rightarrow> string \<Rightarrow> string" where
  "encodeGMCPFrame pkg payload =
     [TELNET_IAC, TELNET_SB, TELNET_OPT_GMCP] @ escape_iac pkg @ '' '' @ escape_iac payload
     @ [TELNET_IAC, TELNET_SE]"

definition buildCharsetRequest :: "string \<Rightarrow> string" where
  "buildCharsetRequest charset =
     [TELNET_IAC, TELNET_SB, TELNET_OPT_CHARSET, CHARSET_REQUEST, charsetSeparator] @ charset
     @ [TELNET_IAC, TELNET_SE]"

section \<open>Handlers\<close>

fun indexSpace :: "string \<Rightarrow> nat option" where
  "indexSpace [] = None"
| "indexSpace (c # cs) = (if c = CHR '' '' then Some 0 else map_option Suc (indexSpace cs))"

definition handleGMCPSubnegotiation :: "Wire \<Rightarrow> string \<Rightarrow> Wire" where
  "handleGMCPSubnegotiation s data =
     (if data = [] then s
      else if \<not> ses_GMCPHandler s then s
      else let call = (case indexSpace data of
                 Some sp \<Rightarrow> (take sp data, drop (sp + 1) data)
               | None \<Rightarrow> (data, ''null''))
           in s\<lparr>ses_gmcpCalls := ses_gmcpCalls s @ [call]\<rparr>)"

definition handleCharsetSubnegotiation :: "Wire \<Rightarrow> string \<Rightarrow> Wire" where
  "handleCharsetSubnegotiation s data =
     (case data of [] \<Rightarrow> s
      | c # name \<Rightarrow>
          if c = CHARSET_ACCEPTED then
            (if to_lower name = to_lower ''UTF-8'' then s\<lparr>ses_Charset := ''UTF-8''\<rparr> else s)
          else s)"

definition be16 :: "char \<Rightarrow> char \<Rightarrow> int" where
  "be16 h l = 256 * int (ord h) + int (ord l)"

definition HandleSubnegotiation :: "Wire \<Rightarrow> char \<Rightarrow> string \<Rightarrow> Wire" where
  "HandleSubnegotiation s opt data =
     (if opt = TELNET_OPT_TERM_TYPE then
        (if length data > 1 \<and> ord (data ! 0) = 0
         then s\<lparr>ses_TerminalType := drop 1 data, ses_ColorLevel := DetectColorLevel (drop 1 data)\<rparr> else s)
      else if opt = TELNET_OPT_NAWS then
        (if length data \<ge> 4
         then s\<lparr>ses_Width := be16 (data ! 0) (data ! 1), ses_Height := be16 (data ! 2) (data ! 3)\<rparr> else s)
      else if opt = TELNET_OPT_CHARSET then handleCharsetSubnegotiation s data
      else if opt = TELNET_OPT_GMCP then handleGMCPSubnegotiation s data
      else s)"

definition handleOptionNegotiation :: "Wire \<Rightarrow> char \<Rightarrow> char \<Rightarrow> Wire" where
  "handleOptionNegotiation s cmd opt =
     (if cmd \<noteq> TELNET_DO then s
      else if opt = TELNET_OPT_CHARSET then WriteRaw s (buildCharsetRequest ''UTF-8'')
      else if opt = TELNET_OPT_MSSP then
        (case ses_MSSPProvider s of None \<Rightarrow> s
         | Some vars \<Rightarrow>
             if ses_msspSent s then s
             else let s1 = s\<lparr>ses_msspSent := True\<rparr>
                  in if vars = [] then s1 else WriteRaw s1 (EncodeMSSP vars))
      else if opt = TELNET_OPT_GMCP then s\<lparr>ses_gmcpEnabled := True\<rparr>
      else s)"

section \<open>The reader\<close>

fun sub_loop :: "string \<Rightarrow> string \<Rightarrow> wire_error + string \<times> string" where
  "sub_loop data r =
     (if length data > maxSubnegotiationLen then Inl ErrSubnegotiationTooLong
      else case r of [] \<Rightarrow> Inl ErrRead
        | d # r1 \<Rightarrow>
            if d \<noteq> TELNET_IAC then sub_loop (data @ [d]) r1
            else (case r1 of [] \<Rightarrow> Inl ErrRead
                  | n # r2 \<Rightarrow> if n = TELNET_SE then Inr (data, r2)
                             else if n = TELNET_IAC then sub_loop (data @ [TELNET_IAC]) r2
                             else Inr (data, r2)))"

declare sub_loop.simps [simp del]

definition readSubnegotiation :: "Wire \<Rightarrow> string \<Rightarrow> wire_error + Wire \<times> string" where
  "readSubnegotiation s r =
     (case r of [] \<Rightarrow> Inl ErrRead
      | opt # r1 \<Rightarrow> (case sub_loop [] r1 of Inl e \<Rightarrow> Inl e
                    | Inr (data, r2) \<Rightarrow> Inr (HandleSubnegotiation s opt data, r2)))"

definition ReadIAC :: "Wire \<Rightarrow> string \<Rightarrow> wire_error + char option \<times> Wire \<times> string" where
  "ReadIAC s r =
     (case r of [] \<Rightarrow> Inl ErrRead
      | cmd # r1 \<Rightarrow>
          if cmd = TELNET_IAC then Inr (Some TELNET_IAC, s, r1)
          else if cmd = TELNET_SB then
            (case readSubnegotiation s r1 of Inl e \<Rightarrow> Inl e | Inr (s', r2) \<Rightarrow> Inr (None, s', r2))
          else if cmd = TELNET_WILL \<or> cmd = TELNET_WONT \<or> cmd = TELNET_DO \<or> cmd = TELNET_DONT then
            (case r1 of [] \<Rightarrow> Inl ErrRead
             | opt # r2 \<Rightarrow> Inr (None, handleOptionNegotiation s cmd opt, r2))
          else Inr (None, s, r1))"

section \<open>Cursor-key sequences\<close>

datatype CSIOp = CSIUnknown | CSIUp | CSIDown | CSIRight | CSILeft | CSIHome | CSIEnd | CSIDelete

definition csiMaxLen :: nat where "csiMaxLen = 32"

definition classifyCSI :: "string \<Rightarrow> char \<Rightarrow> CSIOp" where
  "classifyCSI params f =
     (if f = CHR ''A'' then CSIUp else if f = CHR ''B'' then CSIDown else if f = CHR ''C'' then CSIRight
      else if f = CHR ''D'' then CSILeft else if f = CHR ''H'' then CSIHome else if f = CHR ''F'' then CSIEnd
      else if f = CHR 0x7E then
        (if params \<in> {''1'', ''7''} then CSIHome else if params \<in> {''4'', ''8''} then CSIEnd
         else if params = ''3'' then CSIDelete else CSIUnknown)
      else CSIUnknown)"

definition ss3Op :: "char \<Rightarrow> CSIOp" where
  "ss3Op f =
     (if f = CHR ''A'' then CSIUp else if f = CHR ''B'' then CSIDown else if f = CHR ''C'' then CSIRight
      else if f = CHR ''D'' then CSILeft else if f = CHR ''H'' then CSIHome else if f = CHR ''F'' then CSIEnd
      else CSIUnknown)"

fun csi_loop :: "nat \<Rightarrow> string \<Rightarrow> string \<Rightarrow> wire_error + CSIOp \<times> string" where
  "csi_loop 0 params r = Inl ErrCSITooLong"
| "csi_loop (Suc left) params r =
     (case r of [] \<Rightarrow> Inl ErrRead
      | b # r1 \<Rightarrow> if csi_final b then Inr (classifyCSI params b, r1) else csi_loop left (params @ [b]) r1)"

definition ReadCSI :: "string \<Rightarrow> wire_error + CSIOp \<times> string" where
  "ReadCSI r =
     (case r of [] \<Rightarrow> Inl ErrRead
      | c # r1 \<Rightarrow>
          if c = CHR ''['' then csi_loop csiMaxLen [] r1
          else if c = CHR ''O'' then (case r1 of [] \<Rightarrow> Inl ErrRead | f # r2 \<Rightarrow> Inr (ss3Op f, r2))
          else Inr (CSIUnknown, r1))"

section \<open>Properties\<close>

lemma sub_loop_too_long: "length data > maxSubnegotiationLen \<Longrightarrow> sub_loop data r = Inl ErrSubnegotiationTooLong"
  by (subst sub_loop.simps) simp

lemma sub_loop_data:
  "length data \<le> maxSubnegotiationLen \<Longrightarrow> d \<noteq> TELNET_IAC \<Longrightarrow> sub_loop data (d # r) = sub_loop (data @ [d]) r"
  by (subst sub_loop.simps) simp

lemma sub_loop_escaped:
  "length data \<le> maxSubnegotiationLen \<Longrightarrow>
     sub_loop data (TELNET_IAC # TELNET_IAC # r) = sub_loop (data @ [TELNET_IAC]) r"
  by (subst sub_loop.simps) (simp add: telnet_bytes)

lemma sub_loop_end:
  "length data \<le> maxSubnegotiationLen \<Longrightarrow> sub_loop data (TELNET_IAC # TELNET_SE # r) = Inr (data, r)"
  by (subst sub_loop.simps) simp

lemma sub_loop_frame:
  "length data \<le> maxSubnegotiationLen \<Longrightarrow>
   sub_loop data (escape_iac p @ TELNET_IAC # TELNET_SE # rest) =
     (if length data + length p \<le> maxSubnegotiationLen then Inr (data @ p, rest)
      else Inl ErrSubnegotiationTooLong)"
proof (induction p arbitrary: data)
  case (Cons b p)
  have e: "sub_loop data (escape_iac (b # p) @ TELNET_IAC # TELNET_SE # rest) =
      sub_loop (data @ [b]) (escape_iac p @ TELNET_IAC # TELNET_SE # rest)"
    using Cons.prems by (cases "b = TELNET_IAC") (simp_all add: sub_loop_escaped sub_loop_data)
  show ?case
  proof (cases "length (data @ [b]) \<le> maxSubnegotiationLen")
    case True
    from Cons.IH [OF this] show ?thesis unfolding e by simp
  next
    case False
    then show ?thesis unfolding e by (simp add: sub_loop_too_long)
  qed
qed (simp add: sub_loop_end)

lemma escape_iac_append: "escape_iac (a @ b) = escape_iac a @ escape_iac b"
  by (induction a) auto

lemma escape_iac_id: "TELNET_IAC \<notin> set a \<Longrightarrow> escape_iac a = a"
  by (induction a) auto

text \<open>The payload an MSSP block carries.\<close>

definition mssp_payload :: "MSSPVar list \<Rightarrow> string" where
  "mssp_payload vs = concat (map (\<lambda>v. MSSP_VAR # mv_Name v @ MSSP_VAL # mv_Value v) vs)"

lemma mssp_vars_payload: "mssp_vars out vs = out @ escape_iac (mssp_payload vs)"
  by (induction vs arbitrary: out)
    (simp_all add: mssp_payload_def appendMSSPField_def escape_iac_append MSSP_VAR_def MSSP_VAL_def TELNET_IAC_def)

lemma EncodeMSSP_frame:
  "EncodeMSSP vs = TELNET_IAC # TELNET_SB # TELNET_OPT_MSSP # escape_iac (mssp_payload vs) @ [TELNET_IAC, TELNET_SE]"
  by (simp add: EncodeMSSP_def mssp_vars_payload)

lemma encodeGMCPFrame_frame:
  "encodeGMCPFrame pkg body =
     TELNET_IAC # TELNET_SB # TELNET_OPT_GMCP # escape_iac (pkg @ '' '' @ body) @ [TELNET_IAC, TELNET_SE]"
  by (simp add: encodeGMCPFrame_def escape_iac_append TELNET_IAC_def)

lemma indexSpace_first: "CHR '' '' \<notin> set a \<Longrightarrow> indexSpace (a @ CHR '' '' # b) = Some (length a)"
  by (induction a) auto

text \<open>C12: Telnet frames round-trip through the reader, for every payload byte, 255 included: the reader returns
  exactly the payload and stops exactly behind the frame, up to the bound of 4096 payload bytes, and refuses
  every longer payload with \<open>ErrSubnegotiationTooLong\<close>. The MSSP block is one such frame; a GMCP frame reaches
  the handler with the package name and body it was built from.\<close>

theorem frames_roundtrip:
  "sub_loop [] (escape_iac p @ [TELNET_IAC, TELNET_SE] @ rest) =
     (if length p \<le> 4096 then Inr (p, rest) else Inl ErrSubnegotiationTooLong)
   \<and> (length (mssp_payload vs) \<le> 4096 \<longrightarrow>
        ReadIAC s (tl (EncodeMSSP vs @ rest)) = Inr (None, HandleSubnegotiation s TELNET_OPT_MSSP (mssp_payload vs), rest))
   \<and> (CHR '' '' \<notin> set pkg \<longrightarrow> length pkg + length body < 4096 \<longrightarrow> ses_GMCPHandler s \<longrightarrow>
        ReadIAC s (tl (encodeGMCPFrame pkg body @ rest)) =
          Inr (None, s\<lparr>ses_gmcpCalls := ses_gmcpCalls s @ [(pkg, body)]\<rparr>, rest))"
proof -
  have f: "sub_loop [] (escape_iac q @ TELNET_IAC # TELNET_SE # rest) =
      (if length q \<le> 4096 then Inr (q, rest) else Inl ErrSubnegotiationTooLong)" for q
    using sub_loop_frame [of "[]" q rest] by (simp add: maxSubnegotiationLen_def)
  have r: "ReadIAC s (TELNET_SB # opt # escape_iac q @ TELNET_IAC # TELNET_SE # rest) =
      Inr (None, HandleSubnegotiation s opt q, rest)" if "length q \<le> 4096" for opt q
  proof -
    have "TELNET_SB \<noteq> TELNET_IAC" by (simp add: telnet_bytes)
    then show ?thesis using that by (simp add: ReadIAC_def readSubnegotiation_def f)
  qed
  have g: "HandleSubnegotiation s TELNET_OPT_GMCP (pkg @ CHR '' '' # body) =
      s\<lparr>ses_gmcpCalls := ses_gmcpCalls s @ [(pkg, body)]\<rparr>" if "CHR '' '' \<notin> set pkg" "ses_GMCPHandler s"
    using that by (simp add: HandleSubnegotiation_def telnet_opts handleGMCPSubnegotiation_def indexSpace_first)
  show ?thesis using f r g by (simp add: EncodeMSSP_frame encodeGMCPFrame_frame)
qed


definition sample_wire :: Wire where
  "sample_wire = \<lparr>ses_TerminalType = [], ses_ColorLevel = 16, ses_Width = 80, ses_Height = 24, ses_Charset = [],
     ses_gmcpEnabled = True, ses_msspSent = False, ses_MSSPProvider = None, ses_GMCPHandler = True,
     ses_gmcpCalls = [], ses_out = []\<rparr>"

theorem frames_roundtrip_witness:
  "ReadIAC sample_wire (tl (encodeGMCPFrame ''Char.Vitals'' ''1'' @ ''look'')) =
     Inr (None, sample_wire\<lparr>ses_gmcpCalls := [(''Char.Vitals'', ''1'')]\<rparr>, ''look'')"
  using frames_roundtrip [of "[]" "''look''" "[]" sample_wire "''Char.Vitals''" "''1''"]
  by (simp add: sample_wire_def)

lemma sub_loop_suffix: "sub_loop data r = Inr (p, rest) \<Longrightarrow> \<exists>u. r = u @ rest \<and> u \<noteq> []"
proof (induction data r rule: sub_loop.induct)
  case (1 data r)
  have l: "\<not> length data > maxSubnegotiationLen" using 1(3) sub_loop_too_long [of data r] by auto
  show ?case
  proof (cases r)
    case Nil
    with 1(3) l show ?thesis by (simp add: sub_loop.simps [of data])
  next
    case d: (Cons d r1)
    show ?thesis
    proof (cases "d = TELNET_IAC")
      case False
      with 1(3) l d have "sub_loop (data @ [d]) r1 = Inr (p, rest)" by (simp add: sub_loop.simps [of data])
      with 1(1) [OF l d] False obtain u where "r1 = u @ rest" by auto
      with d show ?thesis by (intro exI [of _ "d # u"]) simp
    next
      case iac: True
      show ?thesis
      proof (cases r1)
        case Nil
        with 1(3) l d iac show ?thesis by (simp add: sub_loop.simps [of data])
      next
        case n: (Cons n r2)
        show ?thesis
        proof (cases "n \<noteq> TELNET_SE \<and> n = TELNET_IAC")
          case True
          with 1(3) l d n iac have "sub_loop (data @ [TELNET_IAC]) r2 = Inr (p, rest)"
            by (simp add: sub_loop.simps [of data] split: if_splits)
          with 1(2) [OF l d _ n] True iac obtain u where "r2 = u @ rest" by auto
          with d n show ?thesis by (intro exI [of _ "d # n # u"]) simp
        next
          case False
          with 1(3) l d n iac have "r2 = rest" by (simp add: sub_loop.simps [of data] split: if_splits)
          with d n show ?thesis by (intro exI [of _ "[d, n]"]) simp
        qed
      qed
    qed
  qed
qed

lemma readSubnegotiation_suffix: "readSubnegotiation s r = Inr (s', rest) \<Longrightarrow> \<exists>u. r = u @ rest \<and> u \<noteq> []"
  by (auto simp: readSubnegotiation_def split: list.splits sum.splits dest!: sub_loop_suffix)

lemma ReadIAC_suffix: "ReadIAC s r = Inr (b, s', rest) \<Longrightarrow> \<exists>u. r = u @ rest \<and> u \<noteq> []"
  by (auto simp: ReadIAC_def split: list.splits sum.splits if_splits dest!: readSubnegotiation_suffix)

lemma csi_loop_bound:
  "csi_loop n ps r = Inr (op, rest) \<Longrightarrow> \<exists>u. r = u @ rest \<and> u \<noteq> [] \<and> length u \<le> n"
proof (induction n ps r rule: csi_loop.induct)
  case (2 n ps r)
  then show ?case
  proof (cases r)
    case (Cons b r1)
    show ?thesis
    proof (cases "csi_final b")
      case True
      with 2(2) Cons show ?thesis by (intro exI [of _ "[b]"]) simp
    next
      case False
      with 2 Cons obtain u where "r1 = u @ rest" "length u \<le> n" by auto
      with Cons show ?thesis by (intro exI [of _ "b # u"]) simp
    qed
  qed simp
qed simp

lemma csi_loop_run:
  "\<forall>c\<in>set ps. \<not> csi_final c \<Longrightarrow> csi_final f \<Longrightarrow>
   csi_loop n acc (ps @ f # rest) = (if length ps < n then Inr (classifyCSI (acc @ ps) f, rest) else Inl ErrCSITooLong)"
proof (induction n arbitrary: acc ps)
  case (Suc n)
  show ?case
  proof (cases ps)
    case Nil
    then show ?thesis using Suc.prems by simp
  next
    case (Cons p qs)
    with Suc.prems have "\<not> csi_final p" "\<forall>c\<in>set qs. \<not> csi_final c" by simp_all
    with Suc.IH [of qs "acc @ [p]"] Suc.prems(2) Cons show ?thesis by simp
  qed
qed simp

lemma ReadCSI_suffix:
  assumes "ReadCSI r = Inr (op, rest)"
  shows "\<exists>u. r = u @ rest \<and> 1 \<le> length u \<and> length u \<le> 34"
proof -
  obtain c r1 where r: "r = c # r1" using assms by (cases r) (auto simp: ReadCSI_def)
  have "\<exists>u. r1 = u @ rest \<and> length u \<le> 32"
    using assms csi_loop_bound [of csiMaxLen "[]" r1 op rest]
    by (auto simp: ReadCSI_def r csiMaxLen_def split: if_splits list.splits intro: exI [of _ "[_]"])
  then obtain u where "r1 = u @ rest" "length u \<le> 32" by blast
  with r show ?thesis by (intro exI [of _ "c # u"]) simp
qed

text \<open>Reading a cursor-key sequence always returns within 34 bytes, stays in sync with the stream, and reads a
  well-formed sequence exactly: its operation is that of its parameters and final byte, and more than 31
  parameter bytes are an error.\<close>

lemma ReadCSI_exact:
  "(\<forall>op rest. ReadCSI r = Inr (op, rest) \<longrightarrow> (\<exists>u. r = u @ rest \<and> 1 \<le> length u \<and> length u \<le> 34))
   \<and> ((\<forall>c\<in>set ps. \<not> csi_final c) \<longrightarrow> csi_final f \<longrightarrow>
        ReadCSI (CHR ''['' # ps @ f # rest) =
          (if length ps \<le> 31 then Inr (classifyCSI ps f, rest) else Inl ErrCSITooLong))"
proof
  show "\<forall>op rest. ReadCSI r = Inr (op, rest) \<longrightarrow> (\<exists>u. r = u @ rest \<and> 1 \<le> length u \<and> length u \<le> 34)"
    using ReadCSI_suffix by blast
  show "(\<forall>c\<in>set ps. \<not> csi_final c) \<longrightarrow> csi_final f \<longrightarrow>
        ReadCSI (CHR ''['' # ps @ f # rest) =
          (if length ps \<le> 31 then Inr (classifyCSI ps f, rest) else Inl ErrCSITooLong)"
    using csi_loop_run [of ps f csiMaxLen "[]" rest] by (auto simp: ReadCSI_def csiMaxLen_def)
qed

end
