(* ===== verification/TelnetInput.thy ===== *)
theory TelnetInput
  imports TelnetWire LineEditor
begin

text \<open>
  The read side of a session: \<open>telnet/server.go\<close> (the read loop, the byte dispatcher, the UTF-8 collector,
  the key handlers and tab completion) and \<open>telnet/completion.go\<close>. The stream of a connection is the list of
  bytes still to come. The current mode is a parameter: its prompt (\<open>None\<close> for no mode; the empty prompt
  counts as none) and its completer. The inbox is the list of lines sent to the dispatcher and not yet taken.
  Every write succeeds and is logged in \<open>ses_out\<close>.
\<close>

section \<open>State\<close>

definition inboxCap :: nat where "inboxCap = 16"

record TabCandidate =
  cd_Text :: string
  cd_Help :: string

record Input =
  in_Line :: LineEdit
  in_History :: History
  in_Wire :: Wire
  in_Password :: bool
  in_Pending :: string
  in_Inbox :: "string list"

record CurrentMode =
  md_Widths :: widths
  md_Prompt :: "string option"
  md_Complete :: "(string \<Rightarrow> TabCandidate list) option"

datatype input_error = ErrEOF | ErrProtocol wire_error | ErrInputFlooded

definition BEL :: char where "BEL = CHR 0x07"

definition send :: "string \<Rightarrow> Input \<Rightarrow> Input" where
  "send b s = s\<lparr>in_Wire := WriteRaw (in_Wire s) b\<rparr>"

text \<open>\<open>EditAndWrite\<close>: the mutated line and its echo, written when not empty.\<close>

definition EditAndWrite :: "LineEdit \<times> string \<Rightarrow> Input \<Rightarrow> Input" where
  "EditAndWrite le s =
     (let s1 = s\<lparr>in_Line := fst le\<rparr> in if snd le = [] then s1 else send (snd le) s1)"

section \<open>Completion\<close>

definition maxCandidatesShown :: nat where "maxCandidatesShown = 30"
definition helpColumnThreshold :: nat where "helpColumnThreshold = 10"
definition columnGutter :: nat where "columnGutter = 2"

fun common2 :: "string \<Rightarrow> string \<Rightarrow> string" where
  "common2 (x # xs) (y # ys) = (if x = y then x # common2 xs ys else [])"
| "common2 _ _ = []"

fun common_loop :: "string \<Rightarrow> string list \<Rightarrow> string" where
  "common_loop cp [] = cp"
| "common_loop cp (s # ss) = (let cp' = common2 cp s in if cp' = [] then [] else common_loop cp' ss)"

definition commonPrefix :: "string list \<Rightarrow> string" where
  "commonPrefix items = (case items of [] \<Rightarrow> [] | x # xs \<Rightarrow> common_loop x xs)"

fun writeFlat :: "TabCandidate list \<Rightarrow> string" where
  "writeFlat [] = []"
| "writeFlat (c # cs) = cd_Text c @ (if cd_Help c \<noteq> [] then ''  -  '' @ cd_Help c else []) @ CRLF @ writeFlat cs"

definition column_cell :: "TabCandidate list \<Rightarrow> nat \<Rightarrow> nat \<Rightarrow> nat \<Rightarrow> nat \<Rightarrow> nat \<Rightarrow> string" where
  "column_cell cands rows cols colWidth r c =
     (let idx = c * rows + r
      in if idx \<ge> length cands then []
         else let name = cd_Text (cands ! idx); nextIdx = (c + 1) * rows + r;
                  isLastInRow = (c = cols - 1 \<or> nextIdx \<ge> length cands)
              in name @ (if isLastInRow then [] else blanks (colWidth - RuneCountInString name)))"

definition writeColumns :: "TabCandidate list \<Rightarrow> nat \<Rightarrow> string" where
  "writeColumns cands width =
     (let longest = fold max (map (\<lambda>c. RuneCountInString (cd_Text c)) cands) 0;
          colWidth = longest + columnGutter;
          cols = (if width div colWidth < 1 then 1 else width div colWidth);
          rows = (length cands + cols - 1) div cols
      in concat (map (\<lambda>r. concat (map (column_cell cands rows cols colWidth r) [0..<cols]) @ CRLF) [0..<rows]))"

definition formatCandidates :: "TabCandidate list \<Rightarrow> int \<Rightarrow> string" where
  "formatCandidates cands width0 =
     (let width = (if width0 \<le> 0 then 80 else nat width0);
          total = length cands;
          visible = (if total > maxCandidatesShown then take maxCandidatesShown cands else cands);
          body = (if length visible \<le> helpColumnThreshold then writeFlat visible else writeColumns visible width)
      in body @ (if total > maxCandidatesShown
                 then ''... and '' @ show_nat (total - maxCandidatesShown) @ '' more'' @ CRLF else []))"

text \<open>\<open>completionPartial\<close>: the bytes behind the last space or tab.\<close>

definition completionPartial :: "string \<Rightarrow> string" where
  "completionPartial buffer = rev (takeWhile (\<lambda>c. c \<noteq> CHR '' '' \<and> c \<noteq> CHR 0x09) (rev buffer))"

definition extendBuffer :: "CurrentMode \<Rightarrow> string \<Rightarrow> string \<Rightarrow> Input \<Rightarrow> Input" where
  "extendBuffer m partial replacement s =
     (let buf = le_Buf (in_Line s)
      in if length partial > length buf then s
         else let buf' = take (length buf - length partial) buf @ replacement
              in EditAndWrite (\<lparr>le_Buf = buf', le_Cursor = length buf'\<rparr>,
                   concat (replicate (cellWidth (md_Widths m) partial) [ASCII_BS, CHR '' '', ASCII_BS])
                     @ replacement) s)"

definition listAndRedraw :: "CurrentMode \<Rightarrow> TabCandidate list \<Rightarrow> Input \<Rightarrow> Input" where
  "listAndRedraw m cands s =
     (let prompt = (case md_Prompt m of None \<Rightarrow> [] | Some p \<Rightarrow> p)
      in EditAndWrite (in_Line s,
           CRLF @ formatCandidates cands (ses_Width (in_Wire s)) @ prompt @ le_Buf (in_Line s)) s)"

definition applyCompletion :: "CurrentMode \<Rightarrow> string \<Rightarrow> TabCandidate list \<Rightarrow> Input \<Rightarrow> Input" where
  "applyCompletion m partial cands s =
     (case cands of [] \<Rightarrow> send [BEL] s
      | [c] \<Rightarrow> extendBuffer m partial (cd_Text c @ '' '') s
      | _ \<Rightarrow> let cp = commonPrefix (map cd_Text cands)
            in if length cp > length partial then extendBuffer m partial cp s else listAndRedraw m cands s)"

definition handleTab :: "CurrentMode \<Rightarrow> Input \<Rightarrow> Input" where
  "handleTab m s =
     (if in_Password s then send [BEL] s
      else case md_Complete m of None \<Rightarrow> send [BEL] s
        | Some complete \<Rightarrow>
            if le_Cursor (in_Line s) \<noteq> length (le_Buf (in_Line s)) then send [BEL] s
            else let buffer = le_Buf (in_Line s)
                 in applyCompletion m (completionPartial buffer) (complete buffer) s)"

section \<open>Key handlers\<close>

datatype motionKind = motionHome | motionEnd | motionLeft | motionRight | motionDelete
datatype killKind = killToStart | killToEnd | killPrevWord

definition bell_if_silent :: "LineEdit \<times> string \<Rightarrow> LineEdit \<times> string" where
  "bell_if_silent le = (if snd le = [] then (fst le, [BEL]) else le)"

definition handleMotion :: "CurrentMode \<Rightarrow> motionKind \<Rightarrow> Input \<Rightarrow> Input" where
  "handleMotion m kind s =
     (if in_Password s then EditAndWrite (in_Line s, [BEL]) s
      else let l = in_Line s; w = md_Widths m
           in EditAndWrite (bell_if_silent (case kind of motionLeft \<Rightarrow> MoveLeft w l | motionRight \<Rightarrow> MoveRight l
                | motionHome \<Rightarrow> MoveHome w l | motionEnd \<Rightarrow> MoveEnd l | motionDelete \<Rightarrow> Delete w l)) s)"

definition handleKill :: "CurrentMode \<Rightarrow> killKind \<Rightarrow> Input \<Rightarrow> Input" where
  "handleKill m kind s =
     (if in_Password s then EditAndWrite (in_Line s, [BEL]) s
      else let l = in_Line s; w = md_Widths m
           in EditAndWrite (bell_if_silent (case kind of killToStart \<Rightarrow> KillToStart w l | killToEnd \<Rightarrow> KillToEnd w l
                | killPrevWord \<Rightarrow> KillPrevWord w l)) s)"

definition handleHistoryStep :: "CurrentMode \<Rightarrow> bool \<Rightarrow> Input \<Rightarrow> Input" where
  "handleHistoryStep m prev s =
     (let (h, r) = (if prev then HistoryPrev (le_Buf (in_Line s)) (in_History s) else HistoryNext (in_History s));
          s1 = s\<lparr>in_History := h\<rparr>
      in case r of None \<Rightarrow> EditAndWrite (in_Line s, [BEL]) s1
         | Some line \<Rightarrow> EditAndWrite (Replace (md_Widths m) line (in_Line s)) s1)"

definition handleEscape :: "CurrentMode \<Rightarrow> Input \<Rightarrow> string \<Rightarrow> Input \<times> string \<times> input_error option" where
  "handleEscape m s r =
     (case ReadCSI r of Inl e \<Rightarrow> (s, r, Some (if e = ErrRead then ErrEOF else ErrProtocol e))
      | Inr (op, r1) \<Rightarrow>
          ((if in_Password s then send [BEL] s
            else case op of CSIUp \<Rightarrow> handleHistoryStep m True s | CSIDown \<Rightarrow> handleHistoryStep m False s
              | CSILeft \<Rightarrow> handleMotion m motionLeft s | CSIRight \<Rightarrow> handleMotion m motionRight s
              | CSIHome \<Rightarrow> handleMotion m motionHome s | CSIEnd \<Rightarrow> handleMotion m motionEnd s
              | CSIDelete \<Rightarrow> handleMotion m motionDelete s | CSIUnknown \<Rightarrow> send [BEL] s), r1, None))"

definition handleLineBreak :: "CurrentMode \<Rightarrow> Input \<Rightarrow> Input \<times> input_error option" where
  "handleLineBreak m s =
     (if le_Buf (in_Line s) = [] then
        (case md_Prompt m of Some p \<Rightarrow> (send (CRLF @ p) s, None) | None \<Rightarrow> (send CRLF s, None))
      else let input = le_Buf (in_Line s);
               s1 = s\<lparr>in_Line := LineReset (in_Line s)\<rparr>;
               s2 = (if in_Password s then s1 else s1\<lparr>in_History := HistoryAdd input (in_History s)\<rparr>);
               s3 = send CRLF s2
           in if length (in_Inbox s) < inboxCap then (s3\<lparr>in_Inbox := in_Inbox s @ [input]\<rparr>, None)
              else (s3, Some ErrInputFlooded))"

definition handleBackspace :: "CurrentMode \<Rightarrow> Input \<Rightarrow> Input" where
  "handleBackspace m s =
     (let l = in_Line s
      in if in_Password s then
           (if le_Buf l = [] then s
            else let size = snd (DecodeLastRune (le_Buf l)); size' = (if size = 0 then 1 else size);
                     buf = take (length (le_Buf l) - size') (le_Buf l)
                 in EditAndWrite (\<lparr>le_Buf = buf, le_Cursor = length buf\<rparr>, [ASCII_BS, CHR '' '', ASCII_BS]) s)
         else EditAndWrite (Backspace (md_Widths m) l) s)"

definition append_masked :: "string \<Rightarrow> Input \<Rightarrow> Input" where
  "append_masked b s =
     (let buf = le_Buf (in_Line s) @ b in EditAndWrite (\<lparr>le_Buf = buf, le_Cursor = length buf\<rparr>, ''*'') s)"

definition bufferInput :: "CurrentMode \<Rightarrow> char \<Rightarrow> Input \<Rightarrow> Input" where
  "bufferInput m b s =
     (if in_Password s then append_masked [b] s else EditAndWrite (Insert (md_Widths m) b (in_Line s)) s)"

definition bufferInputRune :: "CurrentMode \<Rightarrow> rune \<Rightarrow> Input \<Rightarrow> Input" where
  "bufferInputRune m r s =
     (if in_Password s then append_masked (EncodeRune r) s
      else EditAndWrite (InsertRune (md_Widths m) r (in_Line s)) s)"

section \<open>The UTF-8 collector\<close>

definition utf8ExpectedLen :: "char \<Rightarrow> nat" where
  "utf8ExpectedLen lead =
     (if ord lead < 0x80 then 1 else if ord lead < 0xC2 then 0 else if ord lead < 0xE0 then 2
      else if ord lead < 0xF0 then 3 else if ord lead \<le> 0xF4 then 4 else 0)"

definition collectUTF8Continuation :: "CurrentMode \<Rightarrow> char \<Rightarrow> Input \<Rightarrow> Input" where
  "collectUTF8Continuation m b s =
     (if in_Pending s = [] then s
      else if length (in_Pending s) \<ge> 4 then s\<lparr>in_Pending := []\<rparr>
      else let pend = in_Pending s @ [b]; expected = utf8ExpectedLen (hd pend)
           in if expected = 0 then s\<lparr>in_Pending := []\<rparr>
              else if length pend < expected then s\<lparr>in_Pending := pend\<rparr>
              else let (r, n) = DecodeRune (take expected pend); s1 = s\<lparr>in_Pending := []\<rparr>
                   in if r = RuneError \<and> n < expected then s1 else bufferInputRune m r s1)"

section \<open>The dispatcher\<close>

text \<open>\<open>unicode.IsPrint\<close> on a single byte taken as a rune (Latin-1).\<close>

definition latin1_print :: "char \<Rightarrow> bool" where
  "latin1_print b \<longleftrightarrow> (0x20 \<le> ord b \<and> ord b \<le> 0x7E) \<or> (0xA1 \<le> ord b \<and> ord b \<noteq> 0xAD)"

text \<open>The branches of the switch that read nothing more from the connection.\<close>

definition keyByte :: "CurrentMode \<Rightarrow> char \<Rightarrow> Input \<Rightarrow> Input" where
  "keyByte m b s =
     (if b = ASCII_BS \<or> b = CHR 0x7F then handleBackspace m s
      else if b = CHR 0x09 then handleTab m s
      else if b = CHR 0x01 then handleMotion m motionHome s
      else if b = CHR 0x05 then handleMotion m motionEnd s
      else if b = CHR 0x15 then handleKill m killToStart s
      else if b = CHR 0x0B then handleKill m killToEnd s
      else if b = CHR 0x17 then handleKill m killPrevWord s
      else if is_cont b then collectUTF8Continuation m b s
      else if 0xC2 \<le> ord b \<and> ord b \<le> 0xF4 then s\<lparr>in_Pending := [b]\<rparr>
      else if latin1_print b then bufferInput m b s
      else s)"

definition handleIAC :: "CurrentMode \<Rightarrow> Input \<Rightarrow> string \<Rightarrow> Input \<times> string \<times> input_error option" where
  "handleIAC m s r =
     (case ReadIAC (in_Wire s) r of
        Inl e \<Rightarrow> (s, r, Some (if e = ErrRead then ErrEOF else ErrProtocol e))
      | Inr (d, w, r1) \<Rightarrow>
          (let s1 = s\<lparr>in_Wire := w\<rparr>
           in (case d of Some c \<Rightarrow> bufferInput m c s1 | None \<Rightarrow> s1, r1, None)))"

definition dispatchByte ::
    "CurrentMode \<Rightarrow> Input \<Rightarrow> char \<Rightarrow> string \<Rightarrow> Input \<times> string \<times> input_error option" where
  "dispatchByte m s0 b r =
     (let s = (if \<not> is_cont b then s0\<lparr>in_Pending := []\<rparr> else s0)
      in if b = TELNET_IAC then handleIAC m s r
         else if b = ESC then handleEscape m s r
         else if b = CHR 0x0D \<or> b = CHR 0x0A then
           (let r1 = (if b = CHR 0x0D then (case r of c # r' \<Rightarrow> if c = CHR 0x0A then r' else r | [] \<Rightarrow> r) else r);
                (s1, e) = handleLineBreak m s
            in (s1, r1, e))
         else (keyByte m b s, r, None))"

lemma handleIAC_shorter: "length (fst (snd (handleIAC m s r))) \<le> length r"
proof (cases "ReadIAC (in_Wire s) r")
  case (Inr p)
  obtain d w r1 where p: "p = (d, w, r1)" by (cases p)
  with Inr ReadIAC_suffix [of "in_Wire s" r d w r1] show ?thesis by (auto simp: handleIAC_def Let_def)
qed (simp add: handleIAC_def)

lemma handleEscape_shorter: "length (fst (snd (handleEscape m s r))) \<le> length r"
proof (cases "ReadCSI r")
  case (Inr p)
  obtain q r1 where p: "p = (q, r1)" by (cases p)
  then show ?thesis using ReadCSI_suffix [of r q r1] Inr by (auto simp: handleEscape_def)
qed (simp add: handleEscape_def)

lemma dispatchByte_shorter: "length (fst (snd (dispatchByte m s b r))) \<le> length r"
proof -
  define s' where "s' = (if \<not> is_cont b then s\<lparr>in_Pending := []\<rparr> else s)"
  have "length (if b = CHR 0x0D then (case r of c # r' \<Rightarrow> if c = CHR 0x0A then r' else r | [] \<Rightarrow> r) else r) \<le> length r"
    by (cases r) simp_all
  then show ?thesis
    unfolding dispatchByte_def s'_def [symmetric] Let_def split_beta
    using handleIAC_shorter [of m s' r] handleEscape_shorter [of m s' r] by simp
qed

function read_loop :: "CurrentMode \<Rightarrow> Input \<Rightarrow> string \<Rightarrow> Input \<times> input_error option" where
  "read_loop m s [] = (s, None)"
| "read_loop m s (b # r) =
     (let d = dispatchByte m s b r
      in case snd (snd d) of None \<Rightarrow> read_loop m (fst d) (fst (snd d))
         | Some e \<Rightarrow> (fst d, if e = ErrEOF then None else Some e))"
  by pat_completeness auto
termination
  by (relation "measure (\<lambda>(m, s, r). length r)") (auto simp: le_imp_less_Suc dispatchByte_shorter)

section \<open>What is typed arrives\<close>

text \<open>The runes a player can type into a line: printable ASCII and every scalar value from 0x80 on.\<close>

definition typeable :: "rune \<Rightarrow> bool" where
  "typeable r \<longleftrightarrow> (0x20 \<le> r \<and> r < 0x7F) \<or> (0x80 \<le> r \<and> valid_rune r)"

lemma typeable_valid: "typeable r \<Longrightarrow> valid_rune r"
  by (auto simp: typeable_def valid_rune_def)

text \<open>The line and the collector after some typing; what was logged does not matter here.\<close>

definition typed :: "Input \<Rightarrow> rune list \<Rightarrow> Input \<Rightarrow> bool" where
  "typed s0 rs s \<longleftrightarrow> in_Line s = \<lparr>le_Buf = encs rs, le_Cursor = length (encs rs)\<rparr>
     \<and> in_Password s = in_Password s0 \<and> in_History s = in_History s0 \<and> in_Inbox s = in_Inbox s0"

lemma typed_insert:
  assumes "typed s0 rs s" "valid_rune r"
  shows "typed s0 (rs @ [r]) (bufferInputRune m r s)"
  using assms by (auto simp: typed_def bufferInputRune_def append_masked_def InsertRune_def EditAndWrite_def send_def Let_def)

lemma typed_insert_ascii:
  assumes "typed s0 rs s" "ord b < 0x80"
  shows "typed s0 (rs @ [ord b]) (bufferInput m b s)"
  using assms by (auto simp: typed_def bufferInput_def append_masked_def Insert_def EditAndWrite_def send_def Let_def ascii_enc)

lemma not_special:
  assumes "0x20 \<le> ord b" "ord b \<noteq> 0x7F" "ord b \<noteq> 0xFF"
  shows "b \<noteq> TELNET_IAC" "b \<noteq> ESC" "b \<noteq> CHR 0x0D" "b \<noteq> CHR 0x0A" "b \<noteq> ASCII_BS" "b \<noteq> CHR 0x7F"
    "b \<noteq> CHR 0x09" "b \<noteq> CHR 0x01" "b \<noteq> CHR 0x05" "b \<noteq> CHR 0x15" "b \<noteq> CHR 0x0B" "b \<noteq> CHR 0x17"
  using assms by (auto simp: TELNET_IAC_def ESC_def ASCII_BS_def)

lemma lead_dispatch:
  assumes "0xC2 \<le> ord b" "ord b \<le> 0xF4"
  shows "dispatchByte m s b r = (s\<lparr>in_Pending := [b]\<rparr>, r, None)"
proof -
  have "\<not> is_cont b" "0x20 \<le> ord b" "ord b \<noteq> 0x7F" "ord b \<noteq> 0xFF" using assms by (simp_all add: is_cont_def)
  then show ?thesis using assms not_special [of b] by (simp add: dispatchByte_def keyByte_def)
qed

lemma cont_dispatch:
  assumes "is_cont b"
  shows "dispatchByte m s b r = (collectUTF8Continuation m b s, r, None)"
proof -
  have "0x20 \<le> ord b" "ord b \<noteq> 0x7F" "ord b \<noteq> 0xFF" using assms by (auto simp: is_cont_def)
  then show ?thesis using assms not_special [of b] by (simp add: dispatchByte_def keyByte_def)
qed

lemma print_dispatch:
  assumes "0x20 \<le> ord b" "ord b < 0x7F"
  shows "dispatchByte m s b r = (bufferInput m b (s\<lparr>in_Pending := []\<rparr>), r, None)"
proof -
  have "\<not> is_cont b" "ord b \<noteq> 0x7F" "ord b \<noteq> 0xFF" "\<not> 0xC2 \<le> ord b" "latin1_print b"
    using assms by (auto simp: is_cont_def latin1_print_def)
  then show ?thesis using assms not_special [of b] by (simp add: dispatchByte_def keyByte_def)
qed


lemma read_loop_step: "snd (snd (dispatchByte m s b r)) = None \<Longrightarrow>
    read_loop m s (b # r) = read_loop m (fst (dispatchByte m s b r)) (fst (snd (dispatchByte m s b r)))"
  by (simp add: Let_def)

lemma collect_more:
  assumes "in_Pending s = l # cs" "length cs < 3" "length cs + 2 < utf8ExpectedLen l"
  shows "collectUTF8Continuation m b s = s\<lparr>in_Pending := l # cs @ [b]\<rparr>"
  using assms by (simp add: collectUTF8Continuation_def Let_def)

lemma collect_done:
  assumes "in_Pending s = l # cs" "EncodeRune r = l # cs @ [b]" "valid_rune r" "length cs < 3"
    "utf8ExpectedLen l = length (EncodeRune r)"
  shows "collectUTF8Continuation m b s = bufferInputRune m r (s\<lparr>in_Pending := []\<rparr>)"
proof -
  have "DecodeRune (l # cs @ [b]) = (r, length (l # cs @ [b]))"
    using DecodeRune_enc [OF assms(3), of "[]"] by (simp add: assms(2))
  then show ?thesis using assms by (simp add: collectUTF8Continuation_def Let_def)
qed

lemma read_rune:
  assumes "valid_rune r" "0x80 \<le> r"
  shows "read_loop m s (EncodeRune r @ t) = read_loop m (bufferInputRune m r (s\<lparr>in_Pending := []\<rparr>)) t"
  using assms(1)
proof (cases rule: rune_cases)
  case one
  with assms(2) show ?thesis by simp
next
  case two
  define l where "l = (char_of (0xC0 + r div 64) :: char)"
  have l: "ord l = 0xC0 + r div 64" "0xC2 \<le> ord l" "ord l \<le> 0xDF" using two by (simp_all add: l_def)
  then have x: "utf8ExpectedLen l = 2" by (simp add: utf8ExpectedLen_def)
  have "collectUTF8Continuation m (cont r) (s\<lparr>in_Pending := [l]\<rparr>) = bufferInputRune m r (s\<lparr>in_Pending := []\<rparr>)"
    using collect_done [of "s\<lparr>in_Pending := [l]\<rparr>" l "[]" r "cont r" m] two assms(1) x by (simp add: l_def)
  then show ?thesis using l
    by (simp add: two(3) l_def [symmetric] read_loop_step lead_dispatch cont_dispatch del: read_loop.simps)
next
  case three
  define l where "l = (char_of (0xE0 + r div 4096) :: char)"
  have l: "ord l = 0xE0 + r div 4096" "0xC2 \<le> ord l" "0xE0 \<le> ord l" "ord l \<le> 0xEF" using three by (simp_all add: l_def)
  then have x: "utf8ExpectedLen l = 3" by (simp add: utf8ExpectedLen_def)
  have 1: "collectUTF8Continuation m (cont (r div 64)) (s\<lparr>in_Pending := [l]\<rparr>) = s\<lparr>in_Pending := [l, cont (r div 64)]\<rparr>"
    using collect_more [of "s\<lparr>in_Pending := [l]\<rparr>" l "[]"] x by simp
  have 2: "collectUTF8Continuation m (cont r) (s\<lparr>in_Pending := [l, cont (r div 64)]\<rparr>) =
      bufferInputRune m r (s\<lparr>in_Pending := []\<rparr>)"
    using collect_done [of "s\<lparr>in_Pending := [l, cont (r div 64)]\<rparr>" l "[cont (r div 64)]" r "cont r" m] three assms(1) x
    by (simp add: l_def)
  show ?thesis using l 1 2
    by (simp add: three(4) l_def [symmetric] read_loop_step lead_dispatch cont_dispatch del: read_loop.simps)
next
  case four
  define l where "l = (char_of (0xF0 + r div 262144) :: char)"
  have l: "ord l = 0xF0 + r div 262144" "0xC2 \<le> ord l" "0xF0 \<le> ord l" "ord l \<le> 0xF4" using four by (simp_all add: l_def)
  then have x: "utf8ExpectedLen l = 4" by (simp add: utf8ExpectedLen_def)
  let ?a = "cont (r div 4096)" let ?b = "cont (r div 64)"
  have 1: "collectUTF8Continuation m ?a (s\<lparr>in_Pending := [l]\<rparr>) = s\<lparr>in_Pending := [l, ?a]\<rparr>"
    using collect_more [of "s\<lparr>in_Pending := [l]\<rparr>" l "[]"] x by simp
  have 2: "collectUTF8Continuation m ?b (s\<lparr>in_Pending := [l, ?a]\<rparr>) = s\<lparr>in_Pending := [l, ?a, ?b]\<rparr>"
    using collect_more [of "s\<lparr>in_Pending := [l, ?a]\<rparr>" l "[?a]"] x by simp
  have 3: "collectUTF8Continuation m (cont r) (s\<lparr>in_Pending := [l, ?a, ?b]\<rparr>) = bufferInputRune m r (s\<lparr>in_Pending := []\<rparr>)"
    using collect_done [of "s\<lparr>in_Pending := [l, ?a, ?b]\<rparr>" l "[?a, ?b]" r "cont r" m] four assms(1) x
    by (simp add: l_def)
  show ?thesis using l 1 2 3
    by (simp add: four(3) l_def [symmetric] read_loop_step lead_dispatch cont_dispatch del: read_loop.simps)
qed

lemma typed_pending: "typed s0 rs s \<Longrightarrow> typed s0 rs (s\<lparr>in_Pending := []\<rparr>)"
  by (simp add: typed_def)

lemma read_typeable:
  assumes "typed s0 rs s" "typeable r"
  shows "\<exists>s'. read_loop m s (EncodeRune r @ t) = read_loop m s' t \<and> typed s0 (rs @ [r]) s'"
proof (cases "0x80 \<le> r")
  case True
  with assms(2) have v: "valid_rune r" by (simp add: typeable_valid)
  show ?thesis using read_rune [OF v True] typed_insert [OF typed_pending [OF assms(1)] v] by blast
next
  case False
  with assms(2) have r: "0x20 \<le> r" "r < 0x7F" by (auto simp: typeable_def)
  define b where "b = (char_of r :: char)"
  have b: "ord b = r" "EncodeRune r = [b]" using r by (simp_all add: b_def EncodeRune_def valid_rune_def Let_def)
  have "read_loop m s (b # t) = read_loop m (bufferInput m b (s\<lparr>in_Pending := []\<rparr>)) t"
    using r b by (simp add: read_loop_step print_dispatch del: read_loop.simps)
  moreover have "typed s0 (rs @ [ord b]) (bufferInput m b (s\<lparr>in_Pending := []\<rparr>))"
    using typed_insert_ascii [OF typed_pending [OF assms(1)], of b m] r(2) by (simp add: b(1))
  ultimately show ?thesis using b by auto
qed

lemma read_typed:
  "typed s0 rs s \<Longrightarrow> list_all typeable us \<Longrightarrow>
   \<exists>s'. read_loop m s (encs us @ t) = read_loop m s' t \<and> typed s0 (rs @ us) s'"
proof (induction us arbitrary: rs s)
  case (Cons u us)
  then obtain s1 where 1: "read_loop m s (EncodeRune u @ (encs us @ t)) = read_loop m s1 (encs us @ t)"
    "typed s0 (rs @ [u]) s1" using read_typeable [of s0 rs s u m "encs us @ t"] by auto
  from Cons.IH [OF 1(2)] Cons.prems(2) 1(1) show ?case by auto
qed auto

lemma read_newline:
  assumes "typed s0 rs s" "rs \<noteq> []" "in_Inbox s0 = box"
  shows "if length box < inboxCap
    then \<exists>s'. read_loop m s (CRLF @ t) = read_loop m s' t \<and> in_Inbox s' = box @ [encs rs]
      \<and> in_Line s' = \<lparr>le_Buf = [], le_Cursor = 0\<rparr> \<and> in_Password s' = in_Password s0
      \<and> in_History s' = (if in_Password s0 then in_History s0 else HistoryAdd (encs rs) (in_History s0))
    else snd (read_loop m s (CRLF @ t)) = Some ErrInputFlooded"
proof -
  define s1 where "s1 = s\<lparr>in_Pending := []\<rparr>"
  define d where "d = handleLineBreak m s1"
  have t1: "typed s0 rs s1" using typed_pending [OF assms(1)] by (simp add: s1_def)
  have nc: "\<not> is_cont (CHR 0x0D)" "CHR 0x0D \<noteq> TELNET_IAC" "CHR 0x0D \<noteq> ESC"
    by (simp_all add: is_cont_def TELNET_IAC_def ESC_def)
  have e: "dispatchByte m s (CHR 0x0D) (CHR 0x0A # t) = (fst d, t, snd d)"
    using nc by (simp add: dispatchByte_def s1_def d_def split_beta Let_def)
  have ne: "le_Buf (in_Line s1) \<noteq> []" using t1 assms(2) by (simp add: typed_def)
  show ?thesis
  proof (cases "length box < inboxCap")
    case True
    then have n: "snd d = None" "in_Inbox (fst d) = box @ [encs rs]" "in_Line (fst d) = \<lparr>le_Buf = [], le_Cursor = 0\<rparr>"
      "in_Password (fst d) = in_Password s0"
      "in_History (fst d) = (if in_Password s0 then in_History s0 else HistoryAdd (encs rs) (in_History s0))"
      using t1 ne assms(3) by (auto simp: d_def handleLineBreak_def typed_def LineReset_def send_def Let_def)
    then have "read_loop m s (CRLF @ t) = read_loop m (fst d) t"
      by (simp add: CRLF_def read_loop_step e del: read_loop.simps)
    with n True show ?thesis by auto
  next
    case False
    then have "snd d = Some ErrInputFlooded"
      using t1 ne assms(3) by (auto simp: d_def handleLineBreak_def typed_def LineReset_def send_def Let_def)
    with False e show ?thesis by (simp add: CRLF_def)
  qed
qed

text \<open>C8: A typed line arrives: from an empty line, the bytes of any non-empty UTF-8 text without control
  characters followed by CR LF put exactly that text into the inbox, empty the line, and enter the text into
  the history unless the session is in password mode; the bytes behind are read next. When 16 lines are
  already waiting the session is closed with \<open>ErrInputFlooded\<close> instead.\<close>

theorem typed_line_arrives:
  assumes "in_Line s = \<lparr>le_Buf = [], le_Cursor = 0\<rparr>" "list_all typeable rs" "rs \<noteq> []"
  shows "if length (in_Inbox s) < 16
    then \<exists>s'. read_loop m s (encs rs @ CRLF @ t) = read_loop m s' t \<and> in_Inbox s' = in_Inbox s @ [encs rs]
      \<and> in_Line s' = \<lparr>le_Buf = [], le_Cursor = 0\<rparr> \<and> in_Password s' = in_Password s
      \<and> in_History s' = (if in_Password s then in_History s else HistoryAdd (encs rs) (in_History s))
    else snd (read_loop m s (encs rs @ CRLF @ t)) = Some ErrInputFlooded"
proof -
  have "typed s [] s" using assms(1) by (simp add: typed_def)
  from read_typed [OF this assms(2), of m "CRLF @ t"] obtain s1 where
    1: "read_loop m s (encs rs @ CRLF @ t) = read_loop m s1 (CRLF @ t)" "typed s rs s1" by auto
  from read_newline [OF 1(2) assms(3) refl, of m t] show ?thesis unfolding 1(1) inboxCap_def .
qed

definition sample_input :: Input where
  "sample_input = \<lparr>in_Line = \<lparr>le_Buf = [], le_Cursor = 0\<rparr>, in_History = \<lparr>hi_entries = [], hi_idx = 0, hi_draft = []\<rparr>,
     in_Wire = sample_wire, in_Password = False, in_Pending = [], in_Inbox = []\<rparr>"

definition sample_mode :: CurrentMode where
  "sample_mode = \<lparr>md_Widths = (\<lambda>r. 1, length), md_Prompt = None, md_Complete = None\<rparr>"

theorem typed_line_arrives_witness:
  "\<exists>s'. read_loop sample_mode sample_input (encs [0x68, 0xE9] @ CRLF @ []) = read_loop sample_mode s' []
     \<and> in_Inbox s' = [encs [0x68, 0xE9]]"
  using typed_line_arrives [of sample_input "[0x68, 0xE9]" sample_mode "[]"]
  by (auto simp: sample_input_def typeable_def valid_rune_def simp del: read_loop.simps encs_simps)


section \<open>Passwords stay masked\<close>

text \<open>Everything the read side may write while the session is in password mode: the asterisk, the bell, the
  erased asterisk, the line break, the mode's prompt, and the two fixed negotiation answers.\<close>

definition masked_output :: "CurrentMode \<Rightarrow> Wire \<Rightarrow> string \<Rightarrow> bool" where
  "masked_output m w b \<longleftrightarrow> b \<in> {''*'', [BEL], [ASCII_BS, CHR '' '', ASCII_BS], CRLF, buildCharsetRequest ''UTF-8''}
     \<or> (\<exists>p. md_Prompt m = Some p \<and> b = CRLF @ p) \<or> (\<exists>vars. ses_MSSPProvider w = Some vars \<and> b = EncodeMSSP vars)"

definition quiet_wire :: "CurrentMode \<Rightarrow> Wire \<Rightarrow> Wire \<Rightarrow> bool" where
  "quiet_wire m w w' \<longleftrightarrow> ses_MSSPProvider w' = ses_MSSPProvider w
     \<and> (\<exists>outs. ses_out w' = ses_out w @ outs \<and> (\<forall>b\<in>set outs. masked_output m w b))"

definition quiet :: "CurrentMode \<Rightarrow> Input \<Rightarrow> Input \<Rightarrow> bool" where
  "quiet m s s' \<longleftrightarrow> in_Password s' = in_Password s \<and> in_History s' = in_History s
     \<and> quiet_wire m (in_Wire s) (in_Wire s')"

lemma quiet_wire_same: "ses_MSSPProvider w' = ses_MSSPProvider w \<Longrightarrow> ses_out w' = ses_out w \<Longrightarrow> quiet_wire m w w'"
  by (simp add: quiet_wire_def)

lemma quiet_wire_write: "masked_output m w b \<Longrightarrow> quiet_wire m w (WriteRaw w b)"
  by (simp add: quiet_wire_def WriteRaw_def)

lemma quiet_wire_trans: "quiet_wire m w w1 \<Longrightarrow> quiet_wire m w1 w2 \<Longrightarrow> quiet_wire m w w2"
  unfolding quiet_wire_def masked_output_def by (elim conjE exE) (simp, blast)

lemma quiet_refl [simp]: "quiet m s s"
  by (simp add: quiet_def quiet_wire_def)

lemma quiet_trans: "quiet m s s1 \<Longrightarrow> quiet m s1 s2 \<Longrightarrow> quiet m s s2"
  unfolding quiet_def using quiet_wire_trans [of m "in_Wire s" "in_Wire s1" "in_Wire s2"] by simp

lemma quiet_send: "masked_output m (in_Wire s) b \<Longrightarrow> quiet m s (send b s)"
  by (simp add: quiet_def send_def quiet_wire_write)

lemma quiet_fields [simp]:
  "quiet m s (s\<lparr>in_Line := l\<rparr>)" "quiet m s (s\<lparr>in_Pending := p\<rparr>)" "quiet m s (s\<lparr>in_Inbox := x\<rparr>)"
  by (simp_all add: quiet_def quiet_wire_def)

lemma masked_consts [simp]:
  "masked_output m w ''*''" "masked_output m w [BEL]" "masked_output m w [ASCII_BS, CHR '' '', ASCII_BS]"
  "masked_output m w CRLF"
  by (simp_all add: masked_output_def)

lemma quiet_edit: "snd le = [] \<or> masked_output m (in_Wire s) (snd le) \<Longrightarrow> quiet m s (EditAndWrite le s)"
  using quiet_trans [OF quiet_fields(1) [of m s "fst le"], of "send (snd le) (s\<lparr>in_Line := fst le\<rparr>)"]
  by (auto simp: EditAndWrite_def Let_def quiet_send)

lemma quiet_bufferInput: "in_Password s \<Longrightarrow> quiet m s (bufferInput m b s)" "in_Password s \<Longrightarrow> quiet m s (bufferInputRune m r s)"
  by (simp_all add: bufferInput_def bufferInputRune_def append_masked_def Let_def quiet_edit)

lemma quiet_cont: "in_Password s \<Longrightarrow> quiet m s (collectUTF8Continuation m b s)"
  using quiet_trans [OF quiet_fields(2) quiet_bufferInput(2)]
  by (auto simp: collectUTF8Continuation_def Let_def split_beta)

lemma quiet_keyByte:
  assumes "in_Password s"
  shows "quiet m s (keyByte m b s)"
proof -
  have "quiet m s (handleBackspace m s)" using assms by (simp add: handleBackspace_def Let_def quiet_edit)
  moreover have "quiet m s (handleTab m s)" using assms by (simp add: handleTab_def quiet_send)
  moreover have "quiet m s (handleMotion m k s)" for k using assms by (simp add: handleMotion_def quiet_edit)
  moreover have "quiet m s (handleKill m k s)" for k using assms by (simp add: handleKill_def quiet_edit)
  ultimately show ?thesis using quiet_cont [OF assms] quiet_bufferInput(1) [OF assms] unfolding keyByte_def by simp
qed

lemma quiet_sub: "quiet_wire m w (HandleSubnegotiation w opt data)"
  by (rule quiet_wire_same)
    (auto simp: HandleSubnegotiation_def handleCharsetSubnegotiation_def handleGMCPSubnegotiation_def Let_def split: list.split)

lemma quiet_option: "quiet_wire m w (handleOptionNegotiation w cmd opt)"
proof -
  have r: "quiet_wire m w w" by (simp add: quiet_wire_same)
  have c: "quiet_wire m w (WriteRaw w (buildCharsetRequest ''UTF-8''))"
    by (rule quiet_wire_write) (simp add: masked_output_def)
  have "quiet_wire m w (w\<lparr>ses_msspSent := True\<rparr>)" "quiet_wire m w (w\<lparr>ses_gmcpEnabled := True\<rparr>)"
    by (simp_all add: quiet_wire_same)
  moreover have "quiet_wire m w (WriteRaw (w\<lparr>ses_msspSent := True\<rparr>) (EncodeMSSP vars))" if "ses_MSSPProvider w = Some vars" for vars
    using that by (auto simp: quiet_wire_def WriteRaw_def masked_output_def)
  ultimately show ?thesis using r c by (auto simp: handleOptionNegotiation_def Let_def split: option.split)
qed

lemma quiet_ReadIAC: "ReadIAC w r = Inr (d, w', r') \<Longrightarrow> quiet_wire m w w'"
  using quiet_sub [of m w] quiet_option [of m w] quiet_wire_same [of w w m]
  by (auto simp: ReadIAC_def readSubnegotiation_def split: list.splits sum.splits if_splits)

lemma quiet_dispatch:
  assumes "in_Password s"
  shows "quiet m s (fst (dispatchByte m s b r))"
proof -
  define s' where "s' = (if \<not> is_cont b then s\<lparr>in_Pending := []\<rparr> else s)"
  have s': "quiet m s s'" "in_Password s'" using assms by (simp_all add: s'_def)
  have i: "quiet m s' (fst (handleIAC m s' r))"
  proof (cases "ReadIAC (in_Wire s') r")
    case (Inr p)
    obtain d w r1 where p: "p = (d, w, r1)" by (cases p)
    have "quiet m s' (s'\<lparr>in_Wire := w\<rparr>)" using quiet_ReadIAC [of "in_Wire s'" r d w r1 m] Inr p by (simp add: quiet_def)
    moreover have "quiet m (s'\<lparr>in_Wire := w\<rparr>) (bufferInput m c (s'\<lparr>in_Wire := w\<rparr>))" for c
      by (rule quiet_bufferInput) (simp add: s'(2))
    ultimately show ?thesis using quiet_trans Inr p by (auto simp: handleIAC_def Let_def split: option.split)
  qed (simp add: handleIAC_def)
  have e: "quiet m s' (fst (handleEscape m s' r))"
    using s'(2) by (auto simp: handleEscape_def quiet_send split: sum.split)
  have l: "quiet m s' (fst (handleLineBreak m s'))"
  proof (cases "le_Buf (in_Line s') = []")
    case True
    then show ?thesis
      by (auto simp: handleLineBreak_def masked_output_def intro!: quiet_send split: option.split)
  next
    case False
    have "quiet m s' (send CRLF (s'\<lparr>in_Line := LineReset (in_Line s')\<rparr>))"
      by (rule quiet_trans [OF quiet_fields(1) [of m s' "LineReset (in_Line s')"]]) (simp add: quiet_send)
    with False s'(2) show ?thesis using quiet_trans [OF _ quiet_fields(3)] by (simp add: handleLineBreak_def Let_def)
  qed
  have "quiet m s' (fst (dispatchByte m s b r))"
    unfolding dispatchByte_def s'_def [symmetric] Let_def split_beta using i e l quiet_keyByte [OF s'(2)] by simp
  with s'(1) show ?thesis by (rule quiet_trans)
qed

text \<open>C9: Passwords stay masked: while the session is in password mode, whatever bytes the client sends (keys,
  escape sequences, telnet commands, malformed UTF-8), nothing of the typed line is written back - every
  payload is an asterisk, a bell, an erased asterisk, a line break, the prompt or a fixed negotiation answer -
  and the history does not change.\<close>

theorem password_stays_masked:
  assumes "in_Password s"
  shows "in_History (fst (read_loop m s r)) = in_History s \<and> in_Password (fst (read_loop m s r))
    \<and> (\<exists>outs. ses_out (in_Wire (fst (read_loop m s r))) = ses_out (in_Wire s) @ outs
         \<and> (\<forall>b\<in>set outs. masked_output m (in_Wire s) b))"
proof -
  have "quiet m s (fst (read_loop m s r))" using assms
  proof (induction m s r rule: read_loop.induct)
    case (2 m s b r)
    have d: "quiet m s (fst (dispatchByte m s b r))" by (rule quiet_dispatch [OF 2(2)])
    then have p: "in_Password (fst (dispatchByte m s b r))" using 2(2) by (simp add: quiet_def)
    show ?case
    proof (cases "snd (snd (dispatchByte m s b r))")
      case None
      from quiet_trans [OF d 2(1) [OF refl None p]] show ?thesis using None by (simp add: Let_def)
    qed (use d in \<open>simp add: Let_def\<close>)
  qed simp
  with assms show ?thesis by (simp add: quiet_def quiet_wire_def)
qed

theorem password_stays_masked_witness:
  "in_History (fst (read_loop sample_mode (sample_input\<lparr>in_Password := True\<rparr>) ''hunter2'')) = in_History sample_input"
  using password_stays_masked [of "sample_input\<lparr>in_Password := True\<rparr>" sample_mode "''hunter2''"] by simp

text \<open>A byte that can never occur in UTF-8 (0xC0, 0xC1, 0xF5 to 0xFE, or an escaped 0xFF) is inserted into the
  line as it is, because the printable test of the dispatcher takes the byte for a Latin-1 rune: the line is
  then no encoding of any text.\<close>

lemma stray_byte_enters_line:
  assumes "in_Line s = \<lparr>le_Buf = [], le_Cursor = 0\<rparr>" "ord b \<in> {0xC0, 0xC1} \<union> {0xF5..0xFE}"
  shows "le_Buf (in_Line (fst (read_loop m s [b]))) = [b]
    \<and> le_Buf (in_Line (fst (read_loop m s [TELNET_IAC, TELNET_IAC]))) = [TELNET_IAC]
    \<and> \<not> (\<exists>rs. list_all valid_rune rs \<and> encs rs = [b])"
proof -
  have b: "\<not> is_cont b" "0x20 \<le> ord b" "ord b \<noteq> 0x7F" "ord b \<noteq> 0xFF" "\<not> (0xC2 \<le> ord b \<and> ord b \<le> 0xF4)"
    "latin1_print b" "0x80 \<le> ord b"
    using assms(2) by (auto simp: is_cont_def latin1_print_def)
  have ins: "le_Buf (in_Line (bufferInput m c s')) = [c]" if "in_Line s' = \<lparr>le_Buf = [], le_Cursor = 0\<rparr>" for c s'
    using that by (simp add: bufferInput_def append_masked_def Insert_def EditAndWrite_def send_def Let_def)
  have 1: "dispatchByte m s b [] = (bufferInput m b (s\<lparr>in_Pending := []\<rparr>), [], None)"
    using b not_special [of b] by (auto simp: dispatchByte_def keyByte_def Let_def)
  have "\<not> is_cont TELNET_IAC" by (simp add: is_cont_def TELNET_IAC_def)
  then have 2: "dispatchByte m s TELNET_IAC [TELNET_IAC] = (bufferInput m TELNET_IAC (s\<lparr>in_Pending := []\<rparr>), [], None)"
    by (simp add: dispatchByte_def handleIAC_def ReadIAC_def)
  have "\<not> (\<exists>rs. list_all valid_rune rs \<and> encs rs = [b])"
  proof
    assume "\<exists>rs. list_all valid_rune rs \<and> encs rs = [b]"
    then obtain us where us: "list_all valid_rune us" "encs us = [b]" by blast
    then obtain r rs where r: "valid_rune r" "EncodeRune r @ encs rs = [b]" by (cases us) auto
    have "DecodeRune [b] = (r, length (EncodeRune r))" using DecodeRune_enc [OF r(1), of "encs rs"] r(2) by simp
    moreover have "length (EncodeRune r) = 1" using r(2) by (cases "EncodeRune r") auto
    ultimately have "DecodeRune [b] = (r, 1)" "EncodeRune r = [b]" using r(2) by (cases "EncodeRune r"; simp)+
    then have "r = RuneError" using b(5,7) assms(2) by (auto simp: DecodeRune_def rune_size_def Let_def split: if_splits)
    with \<open>EncodeRune r = [b]\<close> show False by (simp add: EncodeRune_def RuneError_def valid_rune_def)
  qed
  then show ?thesis using ins [of "s\<lparr>in_Pending := []\<rparr>"] assms(1) by (simp add: 1 2)
qed

end
