(* ===== verification/Dispatch.thy ===== *)
theory Dispatch
  imports CommandLine
begin

text \<open>
  The dispatcher of an input line: \<open>Dispatch\<close>, \<open>dispatchOne\<close> and \<open>writeLookupError\<close> of
  \<open>telnet/command.go\<close>, and the lag stamps of \<open>telnet/session.go\<close>. The state is what the dispatcher reads and writes
  of a session, with the registry, because a command may change all of it (\<open>reload\<close> unregisters commands,
  \<open>alias\<close> edits the table). The body of a command is the parameter \<open>run\<close>: it maps the state to a new state and an
  error or none. The clock is a list of readings in nanoseconds, one consumed per \<open>time.Now\<close>. What the
  dispatcher does itself is returned as a list of actions: a payload written, or a command run, with the
  time of the lag check and the state \<open>Run\<close> got. Writes succeed.
\<close>

section \<open>State and actions\<close>

record 'w DispatchState =
  ds_World :: 'w
  ds_Registry :: CmdRegistry
  ds_AuthLevel :: int
  ds_Aliases :: AliasTable
  ds_nextReady :: "int option"
  ds_lastInputAt :: int
  ds_bad :: "(int \<times> int) option"
  ds_clock :: "int list"

datatype 'w action =
    ActWrite string
  | ActWriteString string
  | ActRun int "'w DispatchState" Command "string list" string

type_synonym run_error = string

type_synonym 'w result = "'w DispatchState \<times> run_error option \<times> 'w action list"

type_synonym 'w runner =
  "Command \<Rightarrow> string list \<Rightarrow> string \<Rightarrow> 'w DispatchState \<Rightarrow> 'w DispatchState \<times> run_error option"

definition time_Now :: "'w DispatchState \<Rightarrow> int \<times> 'w DispatchState" where
  "time_Now s = (case ds_clock s of [] \<Rightarrow> (0, s) | [t] \<Rightarrow> (t, s) | t # ts \<Rightarrow> (t, s\<lparr>ds_clock := ts\<rparr>))"

definition AuthGuest :: int where "AuthGuest = 0"
definition AuthPlayer :: int where "AuthPlayer = 1"
definition AuthAdmin :: int where "AuthAdmin = 2"
definition maxSegmentsPerLine :: nat where "maxSegmentsPerLine = 16"
definition maxAliasDepth :: nat where "maxAliasDepth = 3"

section \<open>Lag\<close>


definition IsLagged :: "'w DispatchState \<Rightarrow> int \<Rightarrow> bool \<times> int" where
  "IsLagged s now =
     (case ds_nextReady s of None \<Rightarrow> (False, 0)
      | Some t \<Rightarrow> if \<not> now < t then (False, 0) else (True, t - now))"

definition StampLag :: "int \<Rightarrow> 'w DispatchState \<Rightarrow> 'w DispatchState" where
  "StampLag d s =
     (if d \<le> 0 then s
      else let (now, s1) = time_Now s; deadline = now + d
           in case ds_nextReady s1 of None \<Rightarrow> s1\<lparr>ds_nextReady := Some deadline\<rparr>
              | Some t \<Rightarrow> if deadline > t then s1\<lparr>ds_nextReady := Some deadline\<rparr> else s1)"

text \<open>The seconds of the refusal: \<open>remaining.Round(time.Second) / time.Second\<close>, halves up, at least one.\<close>

definition lag_secs :: "int \<Rightarrow> int" where
  "lag_secs remaining =
     (let r = remaining mod Second;
          secs = (if r + r < Second then remaining - r else remaining + Second - r) div Second
      in if secs < 1 then 1 else secs)"

section \<open>Answers\<close>


definition reply :: "string \<Rightarrow> 'w DispatchState \<Rightarrow> 'w result" where
  "reply b s = (s, None, [ActWrite b])"

definition writeLookupError :: "cmd_error \<Rightarrow> 'w DispatchState \<Rightarrow> 'w result" where
  "writeLookupError e s =
     (case e of ErrUnknownCommand \<Rightarrow> reply (''Unknown command'' @ CRLF) s
      | ErrAmbiguousPrefix ns \<Rightarrow> reply (''telnet: ambiguous command prefix: '' @ ns @ CRLF) s
      | _ \<Rightarrow> reply (''Command error'' @ CRLF) s)"

definition write_token_error :: "token_error \<Rightarrow> 'w DispatchState \<Rightarrow> 'w result" where
  "write_token_error e s = (case e of ErrUnbalancedQuote \<Rightarrow> reply (''Unbalanced quote'' @ CRLF) s)"

text \<open>\<open>tracker.Record\<close>: a nil tracker reads no clock.\<close>

definition record_bad :: "BadInputTracker option \<Rightarrow> 'w DispatchState \<Rightarrow> bool \<times> 'w DispatchState" where
  "record_bad tracker s =
     (if tracker = None then (True, s)
      else let (now, s1) = time_Now s; (entry, allow) = bad_Record tracker now (ds_bad s1)
           in (allow, s1\<lparr>ds_bad := entry\<rparr>))"

text \<open>\<open>strings.ReplaceAll\<close> of CR LF by LF, and of LF by CR LF.\<close>

fun crlf_to_lf :: "string \<Rightarrow> string" where
  "crlf_to_lf (a # b # s) = (if a = CHR 0x0D \<and> b = CHR 0x0A then b # crlf_to_lf s else a # crlf_to_lf (b # s))"
| "crlf_to_lf s = s"

fun lf_to_crlf :: "string \<Rightarrow> string" where
  "lf_to_crlf [] = []"
| "lf_to_crlf (c # s) = (if c = CHR 0x0A then CRLF @ lf_to_crlf s else c # lf_to_crlf s)"

definition usage_text :: "Command \<Rightarrow> string" where
  "usage_text cmd =
     (if cm_Long cmd \<noteq> [] then
        let body = lf_to_crlf (crlf_to_lf (cm_Long cmd))
        in if length body \<ge> 2 \<and> drop (length body - 2) body = CRLF then body else body @ CRLF
      else let usage = (if cm_Help cmd = [] then cm_Name cmd else cm_Help cmd)
           in ''Usage: '' @ usage @ CRLF)"

section \<open>The dispatcher\<close>

text \<open>The end of \<open>dispatchOne\<close>: the lag gate, the run, and the stamp on success.\<close>

definition gate_and_run ::
    "'w runner \<Rightarrow> Command \<Rightarrow> string list \<Rightarrow> string \<Rightarrow> 'w DispatchState \<Rightarrow> 'w result" where
  "gate_and_run run cmd args rest s0 =
     (let (now, s) = time_Now s0; (locked, remaining) = IsLagged s now
      in if locked then
           (s, None, [ActWriteString (''{{You'' @ [CHR 0x27] @ ''re too busy. (~'' @ show_int (lag_secs remaining)
                        @ ''s)}}::yellow'' @ CRLF)])
         else case run cmd args rest s of
             (s1, Some e) \<Rightarrow> (s1, Some e, [ActRun now s cmd args rest])
           | (s1, None) \<Rightarrow> (if cm_Lag cmd > 0 then StampLag (cm_Lag cmd) s1 else s1, None,
                           [ActRun now s cmd args rest]))"

text \<open>\<open>dispatchOne\<close> from \<open>splitVerb\<close> on.\<close>

definition run_segment :: "'w runner \<Rightarrow> BadInputTracker option \<Rightarrow> string \<Rightarrow> 'w DispatchState \<Rightarrow> 'w result" where
  "run_segment run tracker line s =
     (let (verb, rest) = splitVerb line
      in case Lookup (ds_Registry s) verb of
           Inl e \<Rightarrow> (case record_bad tracker s of
               (False, s1) \<Rightarrow> (s1, None, [])
             | (True, s1) \<Rightarrow> writeLookupError e s1)
         | Inr cmd \<Rightarrow>
             if ds_AuthLevel s < cm_Auth cmd then
               (case record_bad tracker s of
                  (False, s1) \<Rightarrow> (s1, None, [])
                | (True, s1) \<Rightarrow> reply (''Unknown command'' @ CRLF) s1)
             else case Tokenize rest of
                 Inl e \<Rightarrow> write_token_error e s
               | Inr args \<Rightarrow>
                   if int (length args) < cm_MinArgs cmd then reply (usage_text cmd) s
                   else gate_and_run run cmd args rest s)"

text \<open>The loop over segments: every one runs, the first error is kept.\<close>

fun run_all :: "(string \<Rightarrow> 'w DispatchState \<Rightarrow> 'w result) \<Rightarrow> string list \<Rightarrow> 'w DispatchState \<Rightarrow> 'w result" where
  "run_all f [] s = (s, None, [])"
| "run_all f (seg # segs) s =
     (let (s1, e, as) = f seg s; (s2, e2, as2) = run_all f segs s1
      in (s2, if e \<noteq> None then e else e2, as @ as2))"

text \<open>\<open>dispatchOne\<close>; the number is \<open>maxAliasDepth - depth\<close>, the re-splits still allowed.\<close>

fun dispatchOne ::
    "'w runner \<Rightarrow> BadInputTracker option \<Rightarrow> nat \<Rightarrow> string \<Rightarrow> 'w DispatchState \<Rightarrow> 'w result" where
  "dispatchOne run tracker left line0 s =
     (let line = trim_space line0
      in if line = [] then (s, None, [])
         else let expanded = expandAlias (ds_Aliases s) line
              in case left of
                   0 \<Rightarrow> run_segment run tracker expanded s
                 | Suc d \<Rightarrow>
                     if expanded \<noteq> line then
                       (case SplitOnSemicolon expanded of
                          Inl e \<Rightarrow> write_token_error e s
                        | Inr segs \<Rightarrow>
                            if length segs > 1 then run_all (dispatchOne run tracker d) segs s
                            else run_segment run tracker expanded s)
                     else run_segment run tracker expanded s)"

declare dispatchOne.simps [simp del]

definition Dispatch ::
    "'w runner \<Rightarrow> BadInputTracker option \<Rightarrow> string \<Rightarrow> 'w DispatchState \<Rightarrow> 'w result" where
  "Dispatch run tracker line0 s0 =
     (let line = trim_space line0
      in if line = [] then (s0, None, [])
         else let (now, s1) = time_Now s0; s = s1\<lparr>ds_lastInputAt := now\<rparr>
              in case SplitOnSemicolon line of
                   Inl e \<Rightarrow> write_token_error e s
                 | Inr segments \<Rightarrow>
                     let (s2, e, as) = run_all (dispatchOne run tracker maxAliasDepth)
                                         (take maxSegmentsPerLine segments) s
                     in (s2, e, as @ (if length segments > maxSegmentsPerLine
                                      then [ActWrite (''(too many commands; truncated)'' @ CRLF)] else [])))"

section \<open>What may run\<close>

lemma time_Now_keeps:
  "time_Now s = (now, s') \<Longrightarrow> ds_Registry s' = ds_Registry s"
  "time_Now s = (now, s') \<Longrightarrow> ds_AuthLevel s' = ds_AuthLevel s"
  "time_Now s = (now, s') \<Longrightarrow> ds_nextReady s' = ds_nextReady s"
  by (auto simp: time_Now_def split: list.splits)

lemma StampLag_keeps [simp]: "ds_Registry (StampLag d s) = ds_Registry s"
  by (auto simp: StampLag_def Let_def time_Now_keeps split: prod.splits option.splits)

lemma record_bad_keeps: "record_bad t s = (allow, s') \<Longrightarrow> ds_Registry s' = ds_Registry s"
  by (auto simp: record_bad_def Let_def time_Now_def split: prod.splits if_splits list.splits)

lemma Lookup_registered:
  assumes "reg_ok r" "Lookup r v = Inr c"
  shows "c \<in> set (rg_sorted r)"
proof (cases "lookupExactLocked r (to_lower v)")
  case None
  with assms(2) have "prefixLocked r (to_lower v) = [c]"
    by (auto simp: Lookup_def Let_def split: if_splits list.splits)
  with prefixLocked_filter [OF assms(1)] show ?thesis by (metis (mono_tags, lifting) list.set_intros(1) mem_Collect_eq set_filter)
next
  case (Some d)
  with assms(2) have "d = c" by (auto simp: Lookup_def Let_def split: if_splits)
  with Some lookupExact_spec [OF assms(1)] show ?thesis by blast
qed

text \<open>A command runs only if it is registered, within the session's level, with enough well-quoted arguments,
  and after the lag.\<close>

fun run_ok :: "'w action \<Rightarrow> bool" where
  "run_ok (ActRun now s c args raw) \<longleftrightarrow>
     c \<in> set (rg_sorted (ds_Registry s)) \<and> cm_Auth c \<le> ds_AuthLevel s
     \<and> Tokenize raw = Inr args \<and> cm_MinArgs c \<le> int (length args)
     \<and> (case ds_nextReady s of None \<Rightarrow> True | Some t \<Rightarrow> t \<le> now)"
| "run_ok a \<longleftrightarrow> True"

definition safe :: "('w DispatchState \<Rightarrow> 'w result) \<Rightarrow> bool" where
  "safe f \<longleftrightarrow> (\<forall>s. reg_ok (ds_Registry s) \<longrightarrow>
     reg_ok (ds_Registry (fst (f s))) \<and> list_all run_ok (snd (snd (f s))))"

definition keeps_registry :: "'w runner \<Rightarrow> bool" where
  "keeps_registry run \<longleftrightarrow>
     (\<forall>c args raw s. reg_ok (ds_Registry s) \<longrightarrow> reg_ok (ds_Registry (fst (run c args raw s))))"

lemma answers_run_nothing [simp]:
  "fst (reply b s) = s" "list_all run_ok (snd (snd (reply b s)))"
  "fst (writeLookupError e s) = s" "list_all run_ok (snd (snd (writeLookupError e s)))"
  "fst (write_token_error t s) = s" "list_all run_ok (snd (snd (write_token_error t s)))"
  by (auto simp: reply_def writeLookupError_def write_token_error_def split: cmd_error.splits token_error.splits)

lemma gate_and_run_ok:
  assumes "keeps_registry run" "reg_ok (ds_Registry s)" "c \<in> set (rg_sorted (ds_Registry s))"
    "cm_Auth c \<le> ds_AuthLevel s" "Tokenize raw = Inr args" "cm_MinArgs c \<le> int (length args)"
  shows "reg_ok (ds_Registry (fst (gate_and_run run c args raw s)))
    \<and> list_all run_ok (snd (snd (gate_and_run run c args raw s)))"
proof -
  obtain now s1 where t: "time_Now s = (now, s1)" by fastforce
  obtain s2 e where r: "run c args raw s1 = (s2, e)" by fastforce
  from assms(1,2) t r have k: "reg_ok (ds_Registry s2)" unfolding keeps_registry_def
    by (metis fst_conv time_Now_keeps(1))
  show ?thesis using t r k assms time_Now_keeps [OF t]
    by (auto simp: gate_and_run_def IsLagged_def split: option.splits)
qed

lemma safe_run_segment:
  assumes "keeps_registry run"
  shows "safe (run_segment run tracker line)"
  unfolding safe_def
proof (intro allI impI)
  fix s :: "'a DispatchState"
  assume ok: "reg_ok (ds_Registry s)"
  obtain verb rest where v: "splitVerb line = (verb, rest)" by fastforce
  obtain allow s1 where b: "record_bad tracker s = (allow, s1)" by fastforce
  note [simp] = run_segment_def v b record_bad_keeps [OF b]
  let ?r = "run_segment run tracker line s"
  show "reg_ok (ds_Registry (fst ?r)) \<and> list_all run_ok (snd (snd ?r))"
  proof (cases "Lookup (ds_Registry s) verb")
    case (Inl e)
    then show ?thesis using ok b by (cases allow) auto
  next
    case (Inr c)
    show ?thesis
    proof (cases "ds_AuthLevel s < cm_Auth c")
      case True
      then show ?thesis using ok b Inr by (cases allow) auto
    next
      case False
      then show ?thesis
        using Inr ok Lookup_registered [OF ok Inr] gate_and_run_ok [OF assms ok]
        by (auto simp: not_less split: sum.splits)
    qed
  qed
qed

lemma safe_run_all: "\<forall>g. safe (f g) \<Longrightarrow> safe (run_all f segs)"
proof (induction segs)
  case (Cons g segs)
  then have "safe (f g)" "safe (run_all f segs)" by simp_all
  then show ?case unfolding safe_def run_all.simps Let_def
    by (auto split: prod.splits)
qed (simp add: safe_def)

lemma safe_dispatchOne:
  assumes "keeps_registry run"
  shows "safe (dispatchOne run tracker left line)"
proof (induction left arbitrary: line)
  case 0
  show ?case using safe_run_segment [OF assms] by (auto simp: safe_def dispatchOne.simps Let_def)
next
  case (Suc d)
  note all = safe_run_all [OF allI, of "dispatchOne run tracker d", OF Suc]
  show ?case using safe_run_segment [OF assms] all
    by (auto simp: safe_def dispatchOne.simps Let_def split: sum.splits)
qed

text \<open>C1: No line runs a command it should not: whatever the aliases, the chaining, the tracker and the clock, and
  however the commands themselves change the session, every command the dispatcher runs is, at that moment,
  registered, within the session's privilege, given at least its minimum of well-quoted arguments, and not
  held back by lag.\<close>

theorem dispatch_authorised:
  assumes "keeps_registry run" "reg_ok (ds_Registry s)"
  shows "list_all run_ok (snd (snd (Dispatch run tracker line s)))
    \<and> reg_ok (ds_Registry (fst (Dispatch run tracker line s)))"
proof (cases "trim_space line = []")
  case True
  with assms show ?thesis by (simp add: Dispatch_def)
next
  case False
  obtain now s1 where t: "time_Now s = (now, s1)" by fastforce
  let ?s = "s1\<lparr>ds_lastInputAt := now\<rparr>"
  from assms time_Now_keeps [OF t] have ok: "reg_ok (ds_Registry ?s)" by simp
  have "safe (run_all (dispatchOne run tracker maxAliasDepth) segs)" for segs
    using safe_run_all safe_dispatchOne [OF assms(1)] by blast
  then have all: "reg_ok (ds_Registry s2) \<and> list_all run_ok as"
    if "run_all (dispatchOne run tracker maxAliasDepth) segs ?s = (s2, e, as)" for segs s2 e as
    using that ok unfolding safe_def by (metis fst_conv snd_conv)
  show ?thesis using False t ok
    by (auto simp: Dispatch_def Let_def dest: all split: sum.splits prod.splits)
qed

definition sample_command :: "string \<Rightarrow> int \<Rightarrow> Command" where
  "sample_command nm auth = \<lparr>cm_Name = nm, cm_Aliases = [], cm_MinArgs = 0, cm_Help = [], cm_Long = [],
     cm_Auth = auth, cm_Lag = 0, cm_HasRun = True\<rparr>"

definition sample_dispatch :: "AliasTable \<Rightarrow> Command list \<Rightarrow> unit DispatchState" where
  "sample_dispatch aliases cmds = \<lparr>ds_World = (), ds_Registry = fst (Register NewRegistry cmds),
     ds_AuthLevel = AuthPlayer, ds_Aliases = aliases, ds_nextReady = None, ds_lastInputAt = 0, ds_bad = None,
     ds_clock = [5]\<rparr>"

definition idle_run :: "'w runner" where "idle_run c args raw s = (s, None)"

lemma sample_registry: "reg_ok (ds_Registry (sample_dispatch t cmds))"
  using reg_runs_ok [of "[OpRegister cmds]"] by (simp add: sample_dispatch_def)

theorem dispatch_authorised_witness:
  "list_all run_ok (snd (snd (Dispatch idle_run None ''look'' (sample_dispatch [] [sample_command ''look'' 1]))))
   \<and> snd (snd (Dispatch idle_run None ''look'' (sample_dispatch [] [sample_command ''look'' 1]))) \<noteq> []"
proof -
  have "keeps_registry idle_run" by (simp add: keeps_registry_def idle_run_def)
  note d = dispatch_authorised [OF this sample_registry, of None "''look''" "[]" "[sample_command ''look'' 1]"]
  have "snd (snd (Dispatch idle_run None ''look'' (sample_dispatch [] [sample_command ''look'' 1]))) \<noteq> []"
    by code_simp
  with d show ?thesis by simp
qed

section \<open>What a refusal discloses\<close>

text \<open>A line that is one segment and no alias reaches \<open>run_segment\<close> as it is.\<close>

definition plain :: "AliasTable \<Rightarrow> string \<Rightarrow> bool" where
  "plain t line \<longleftrightarrow> line \<noteq> [] \<and> trim_space line = line \<and> alias_Lookup t (fst (splitVerb line)) = None
     \<and> (\<forall>c\<in>set line. c \<noteq> CHR '';'' \<and> c \<noteq> DQ \<and> c \<noteq> SQ \<and> c \<noteq> BSL)"

lemma split_plain:
  "\<forall>c\<in>set s. c \<noteq> CHR '';'' \<and> c \<noteq> DQ \<and> c \<noteq> SQ \<and> c \<noteq> BSL \<Longrightarrow> semi_loop out cur None s = Inr (flush_seg out (cur @ s))"
  by (induction s arbitrary: cur) auto

lemma dispatchOne_plain:
  assumes "trim_space line = line" "line \<noteq> []" "expandAlias (ds_Aliases s) line = line"
  shows "dispatchOne run tracker left line s = run_segment run tracker line s"
  by (subst dispatchOne.simps) (simp add: assms split: nat.split)

lemma run_all_one: "run_all f [seg] s = f seg s"
  by (cases "f seg s") simp

lemma Dispatch_plain:
  assumes "plain (ds_Aliases s) line" "time_Now s = (now, s1)"
  shows "Dispatch run tracker line s = run_segment run tracker line (s1\<lparr>ds_lastInputAt := now\<rparr>)"
proof -
  from assms(2) have "ds_Aliases s1 = ds_Aliases s" by (auto simp: time_Now_def split: list.splits)
  moreover from assms(1) have "expandAlias (ds_Aliases s) line = line"
    by (cases "splitVerb line") (simp add: plain_def expandAlias_def)
  ultimately have "expandAlias (ds_Aliases s1) line = line" by simp
  moreover from assms(1) have "SplitOnSemicolon line = Inr [line]"
    by (simp add: plain_def SplitOnSemicolon_def split_plain flush_seg_def)
  moreover from assms(1) have line: "trim_space line = line" "line \<noteq> []" by (simp_all add: plain_def)
  ultimately have one: "dispatchOne run tracker left line (s1\<lparr>ds_lastInputAt := now\<rparr>)
      = run_segment run tracker line (s1\<lparr>ds_lastInputAt := now\<rparr>)" for left
    by (intro dispatchOne_plain) simp_all
  obtain s2 e as where r: "run_segment run tracker line (s1\<lparr>ds_lastInputAt := now\<rparr>) = (s2, e, as)"
    using prod_cases3 by blast
  show ?thesis unfolding Dispatch_def Let_def line(1) assms(2) prod.case
    using line(2) \<open>SplitOnSemicolon line = Inr [line]\<close>
    by (simp add: maxSegmentsPerLine_def run_all_one one r del: run_all.simps)
qed

text \<open>C2: The prompt does not disclose a privileged command by its full name or alias: typing a verb the
  session lacks the level for gives, for every tracker, exactly the state, the error and the output of typing
  an unknown verb.\<close>

theorem denied_looks_unknown:
  assumes "plain (ds_Aliases s) a" "Lookup (ds_Registry s) (fst (splitVerb a)) = Inr c" "ds_AuthLevel s < cm_Auth c"
    and "plain (ds_Aliases s) b" "Lookup (ds_Registry s) (fst (splitVerb b)) = Inl ErrUnknownCommand"
  shows "Dispatch run tracker a s = Dispatch run tracker b s"
proof -
  obtain now s1 where t: "time_Now s = (now, s1)" by fastforce
  show ?thesis using assms time_Now_keeps [OF t]
    by (auto simp: Dispatch_plain [OF _ t] run_segment_def writeLookupError_def split: prod.splits bool.split)
qed

theorem denied_looks_unknown_witness:
  "Dispatch idle_run None ''shutdown now'' (sample_dispatch [] [sample_command ''shutdown'' 2])
   = Dispatch idle_run None ''xyzzy'' (sample_dispatch [] [sample_command ''shutdown'' 2])"
  by (rule denied_looks_unknown [where c = "sample_command ''shutdown'' 2"]) code_simp+

text \<open>An ambiguous prefix does disclose privileged commands: typing a prefix of two or more command names
  writes every one of those names, those above the session's level included.\<close>

lemma ambiguous_prefix_discloses:
  assumes "reg_ok (ds_Registry s)" "plain (ds_Aliases s) p" "to_lower p = p" "CHR '' '' \<notin> set p" "TAB \<notin> set p"
    and "lookupExactLocked (ds_Registry s) p = None"
    and "c \<in> set (rg_sorted (ds_Registry s))" "d \<in> set (rg_sorted (ds_Registry s))" "c \<noteq> d"
    and "has_prefix (cm_Name c) p" "has_prefix (cm_Name d) p"
  shows "\<exists>ns. snd (snd (Dispatch run None p s)) =
      [ActWrite (''telnet: ambiguous command prefix: '' @ join '', '' ns @ CRLF)] \<and> cm_Name c \<in> set ns"
proof -
  obtain now s1 where t: "time_Now s = (now, s1)" by fastforce
  let ?m = "filter (\<lambda>c. has_prefix (cm_Name c) p) (rg_sorted (ds_Registry s))"
  have "takeWhile (\<lambda>c. \<not> is_blank c) p = p" using assms(4,5) by (metis is_blank_def takeWhile_eq_all_conv)
  then have v: "splitVerb p = (p, [])" unfolding splitVerb_def by (simp only: Let_def if_True simp_thms)
  have "{c, d} \<subseteq> set ?m" using assms by simp
  with \<open>c \<noteq> d\<close> obtain x y zs where m: "?m = x # y # zs"
    by (cases ?m; cases "tl ?m") auto
  have "p \<noteq> []" using assms(2) by (simp add: plain_def)
  then have "Lookup (ds_Registry s) p = Inl (ErrAmbiguousPrefix (joinNames ?m))"
    using assms(3,6) by (simp add: Lookup_def prefixLocked_filter [OF assms(1)] m)
  then have "snd (snd (Dispatch run None p s)) =
      [ActWrite (''telnet: ambiguous command prefix: '' @ join '', '' (map cm_Name ?m) @ CRLF)]"
    using time_Now_keeps [OF t] v
    by (simp add: Dispatch_plain [OF assms(2) t] run_segment_def record_bad_def writeLookupError_def reply_def joinNames_def)
  moreover have "cm_Name c \<in> set (map cm_Name ?m)" using \<open>{c, d} \<subseteq> set ?m\<close> by auto
  ultimately show ?thesis by blast
qed

section \<open>The cap on segments\<close>

fun is_run :: "'w action \<Rightarrow> bool" where
  "is_run (ActRun now s c args raw) \<longleftrightarrow> True"
| "is_run a \<longleftrightarrow> False"

definition macro :: "nat \<Rightarrow> string" where "macro n = concat (replicate n ''l;'')"

lemma split_macro: "semi_loop out [] None (macro n) = Inr (out @ replicate n ''l'')"
proof (induction n arbitrary: out)
  case 0
  show ?case by (simp add: macro_def flush_seg_def trim_space_def)
next
  case (Suc n)
  have "trim_space ''l'' = ''l''" by code_simp
  then have "flush_seg out ''l'' = out @ [''l'']" by (simp add: flush_seg_def)
  with Suc [of "out @ [''l'']"] show ?case
    by (simp add: macro_def quote_bytes)
qed

text \<open>The state does what the macro needs: the verb \<open>l\<close> may run, and the macro \<open>m\<close> repeats it.\<close>

definition macro_ready :: "nat \<Rightarrow> Command \<Rightarrow> 'w DispatchState \<Rightarrow> bool" where
  "macro_ready n c s \<longleftrightarrow> ds_Aliases s = [(''m'', macro n)] \<and> Lookup (ds_Registry s) ''l'' = Inr c
     \<and> cm_Auth c \<le> ds_AuthLevel s \<and> cm_MinArgs c \<le> 0 \<and> cm_Lag c = 0 \<and> ds_nextReady s = None"

lemma macro_segment:
  assumes "macro_ready n c s"
  shows "\<exists>now s1. dispatchOne idle_run tracker d ''l'' s = (s1, None, [ActRun now s1 c [] []]) \<and> macro_ready n c s1"
proof -
  obtain now s1 where t: "time_Now s = (now, s1)" by fastforce
  then have same: "ds_Aliases s1 = ds_Aliases s" by (auto simp: time_Now_def split: list.splits)
  have l: "trim_space ''l'' = ''l''" "splitVerb ''l'' = (''l'', [])" "to_lower ''l'' = ''l''" by code_simp+
  have "expandAlias (ds_Aliases s) ''l'' = ''l''"
    using assms by (simp add: macro_ready_def expandAlias_def l alias_Lookup_def)
  then have "dispatchOne idle_run tracker d ''l'' s = run_segment idle_run tracker ''l'' s"
    by (intro dispatchOne_plain) (simp_all add: l)
  also have "\<dots> = (s1, None, [ActRun now s1 c [] []])"
    using assms time_Now_keeps [OF t] t
    by (simp add: run_segment_def l macro_ready_def Tokenize_def gate_and_run_def IsLagged_def idle_run_def)
  finally show ?thesis using assms same time_Now_keeps [OF t] by (auto simp: macro_ready_def)
qed

lemma macro_runs:
  assumes "macro_ready n c s"
  shows "length (filter is_run (snd (snd (run_all (dispatchOne idle_run tracker d) (replicate k ''l'') s)))) = k"
  using assms
proof (induction k arbitrary: s)
  case (Suc k)
  obtain now s1 where "dispatchOne idle_run tracker d ''l'' s = (s1, None, [ActRun now s1 c [] []])" "macro_ready n c s1"
    using macro_segment [OF Suc.prems] by blast
  with Suc.IH [of s1] show ?case by (auto split: prod.splits)
qed simp

text \<open>The cap of sixteen commands per line does not bound what a line runs: the segments of an alias
  expansion are not counted, so a line of one letter runs as many commands as the alias repeats.\<close>

lemma alias_escapes_cap:
  assumes "macro_ready n c s" "1 < n"
  shows "length (filter is_run (snd (snd (Dispatch idle_run tracker ''m'' s)))) = n"
proof -
  obtain now s1 where t: "time_Now s = (now, s1)" by fastforce
  then have same: "ds_Aliases s1 = ds_Aliases s" by (auto simp: time_Now_def split: list.splits)
  let ?s = "s1\<lparr>ds_lastInputAt := now\<rparr>"
  have ready: "macro_ready n c ?s"
    using assms(1) same time_Now_keeps [OF t] by (simp add: macro_ready_def)
  have m: "trim_space ''m'' = ''m''" "splitVerb ''m'' = (''m'', [])" "to_lower ''m'' = ''m''"
    "SplitOnSemicolon ''m'' = Inr [''m'']" by code_simp+
  have "macro n \<noteq> []" "macro n \<noteq> ''m''" using assms(2) by (cases n; simp add: macro_def)+
  moreover from ready have "expandAlias (ds_Aliases ?s) ''m'' = macro n"
    by (simp add: macro_ready_def expandAlias_def m alias_Lookup_def)
  moreover have "SplitOnSemicolon (macro n) = Inr (replicate n ''l'')"
    using \<open>macro n \<noteq> []\<close> split_macro [of "[]"] by (simp add: SplitOnSemicolon_def)
  ultimately have "dispatchOne idle_run tracker maxAliasDepth ''m'' ?s
      = run_all (dispatchOne idle_run tracker 2) (replicate n ''l'') ?s"
    using assms(2) by (subst dispatchOne.simps) (simp add: m maxAliasDepth_def numeral_3_eq_3 numeral_2_eq_2)
  with macro_runs [OF ready, of tracker 2 n] show ?thesis
    unfolding Dispatch_def Let_def m(1) t prod.case
    by (simp add: m maxSegmentsPerLine_def run_all_one del: run_all.simps split: prod.splits)
qed

end
