(* ===== verification/CombatCost.thy ===== *)
theory CombatCost
  imports CombatXP CombatRoll MobRepo
begin

text \<open>
  What an action costs: the gear-driven cadence of \<open>internal/combat/cost.go\<close>, the feat modifiers of
  \<open>featmod.go\<close>, the stamina gate of \<open>action.go\<close> and the regeneration of \<open>stamina_ticker.go\<close>. The float factors
  are those of \<open>GoFloat\<close> (no fused multiply-add). The character and mob stores are wired, as \<open>combat.New\<close>
  requires; the item store and the catalogue are optional (\<open>None\<close>); the catalogue is its lookup by hash.
  A failed load only logs.
\<close>

section \<open>Queued actions\<close>

record Action =
  a_Kind :: ActionKind
  a_Variant :: AttackVariant
  a_Target :: ActorRef
  a_WeaponID :: int

definition zero_Action :: Action where
  "zero_Action = \<lparr>a_Kind = ActionNone, a_Variant = VariantNormal, a_Target = zero_Ref, a_WeaponID = 0\<rparr>"

section \<open>Gear factors\<close>

text \<open>The literals that are no dyadic number: their nearest \<open>float64\<close>, and the nearest \<open>float32\<close> of 1.2.\<close>

definition f_0_80 :: flt where "f_0_80 = Flt 3602879701896397 52"
definition f_0_90 :: flt where "f_0_90 = Flt 8106479329266893 53"
definition f_1_05 :: flt where "f_1_05 = Flt 4728779608739021 52"
definition f_1_15 :: flt where "f_1_15 = Flt 2589569785738035 51"
definition f_1_30 :: flt where "f_1_30 = Flt 5854679515581645 52"
definition f32_1_2 :: flt where "f32_1_2 = Flt 5033165 22"

text \<open>\<open>time.Duration(float64(d) * f)\<close>.\<close>

definition scale :: "int \<Rightarrow> flt \<Rightarrow> int" where
  "scale d f = ftrunc (f64 (fmul (fof d) f))"

definition weaponSpeedFactor :: "flt \<Rightarrow> flt" where
  "weaponSpeedFactor w =
     (if fle w f_zero then f_0_90 else if fle w (Flt 2 0) then f_0_80 else if fle w (Flt 10 0) then f_one
      else if fle w (Flt 15 0) then f_1_30 else f_1_5)"

definition armorSpeedFactor :: "string \<Rightarrow> flt" where
  "armorSpeedFactor cls =
     (if cls = [] \<or> cls = ''none'' then f_one else if cls = ''light'' then f_1_05
      else if cls = ''medium'' then f_1_15 else if cls = ''heavy'' then f_1_30 else f_one)"

definition ActionCost :: "int \<Rightarrow> flt \<Rightarrow> string \<Rightarrow> int" where
  "ActionCost base weaponWeight armorWeightClass =
     scale base (f64 (fmul (weaponSpeedFactor weaponWeight) (armorSpeedFactor armorWeightClass)))"

definition ApplySpeedFactor :: "int \<Rightarrow> flt \<Rightarrow> int" where
  "ApplySpeedFactor d f = (if fle f f_zero then d else scale d f)"

definition EffectiveStaminaRegen :: "int \<Rightarrow> string \<Rightarrow> int" where
  "EffectiveStaminaRegen base armorWeightClass =
     (if base \<le> 0 then base else if armorWeightClass \<noteq> ''heavy'' then base
      else let half = base sdiv 2 in if half < 1 then 1 else half)"

record GearFactors =
  gf_WeaponFactor :: flt
  gf_ArmorFactor :: flt
  gf_ArmorWeightClass :: string

definition Multiplier :: "GearFactors \<Rightarrow> flt" where
  "Multiplier g = f64 (fmul (gf_WeaponFactor g) (gf_ArmorFactor g))"

definition ResolveGearFactors :: "MemoryItemRepo option \<Rightarrow> Equipment \<Rightarrow> Slot \<Rightarrow> GearFactors" where
  "ResolveGearFactors items0 eq weaponSlot =
     (let g0 = \<lparr>gf_WeaponFactor = f_0_90, gf_ArmorFactor = f_one, gf_ArmorWeightClass = []\<rparr>
      in case items0 of None \<Rightarrow> g0
         | Some items \<Rightarrow>
             let wid = equip_Get eq weaponSlot;
                 g1 = (if wid = 0 then g0
                       else case item_GetByID items wid of Inl e \<Rightarrow> g0
                         | Inr it \<Rightarrow> g0\<lparr>gf_WeaponFactor := weaponSpeedFactor (it_Weight it)\<rparr>);
                 aid = equip_Get eq SlotArmor
             in if aid = 0 then g1
                else case item_GetByID items aid of Inl e \<Rightarrow> g1
                  | Inr it \<Rightarrow> (case it_Stats it of
                        StArmor st \<Rightarrow> g1\<lparr>gf_ArmorFactor := armorSpeedFactor (ar_WeightClass st),
                                         gf_ArmorWeightClass := ar_WeightClass st\<rparr>
                      | _ \<Rightarrow> g1))"

section \<open>Feats\<close>

record Feat =
  ft_Name :: string
  ft_WeaponWeightPenaltyMul :: flt
  ft_ArmorWeightPenaltyMul :: flt
  ft_StaminaCostMul :: flt
  ft_StaminaRegenAdd :: int
  ft_OffHandCostMul :: flt

type_synonym FeatCatalog = "int \<Rightarrow> Feat option"

record FeatModifiers =
  fm_WeaponWeightPenaltyMul :: flt
  fm_ArmorWeightPenaltyMul :: flt
  fm_StaminaCostMul :: flt
  fm_StaminaRegenAdd :: int
  fm_OffHandCostMul :: flt
  fm_Active :: "string list"

definition IdentityFeatModifiers :: FeatModifiers where
  "IdentityFeatModifiers = \<lparr>fm_WeaponWeightPenaltyMul = f_one, fm_ArmorWeightPenaltyMul = f_one,
     fm_StaminaCostMul = f_one, fm_StaminaRegenAdd = 0, fm_OffHandCostMul = f_one, fm_Active = []\<rparr>"

definition mul_unless_zero :: "flt \<Rightarrow> flt \<Rightarrow> flt" where
  "mul_unless_zero acc m = (if feq m f_zero then acc else f32 (fmul acc m))"

definition add_feat :: "FeatModifiers \<Rightarrow> Feat \<Rightarrow> FeatModifiers" where
  "add_feat fm f =
     \<lparr>fm_WeaponWeightPenaltyMul = mul_unless_zero (fm_WeaponWeightPenaltyMul fm) (ft_WeaponWeightPenaltyMul f),
      fm_ArmorWeightPenaltyMul = mul_unless_zero (fm_ArmorWeightPenaltyMul fm) (ft_ArmorWeightPenaltyMul f),
      fm_StaminaCostMul = mul_unless_zero (fm_StaminaCostMul fm) (ft_StaminaCostMul f),
      fm_StaminaRegenAdd = (if ft_StaminaRegenAdd f \<noteq> 0 then i16 (fm_StaminaRegenAdd fm + ft_StaminaRegenAdd f)
                            else fm_StaminaRegenAdd fm),
      fm_OffHandCostMul = mul_unless_zero (fm_OffHandCostMul fm) (ft_OffHandCostMul f),
      fm_Active =
        (if \<not> feq (ft_WeaponWeightPenaltyMul f) f_zero \<or> \<not> feq (ft_ArmorWeightPenaltyMul f) f_zero
            \<or> \<not> feq (ft_StaminaCostMul f) f_zero \<or> ft_StaminaRegenAdd f \<noteq> 0 \<or> \<not> feq (ft_OffHandCostMul f) f_zero
         then fm_Active fm @ [ft_Name f] else fm_Active fm)\<rparr>"

fun feat_loop :: "FeatCatalog \<Rightarrow> FeatModifiers \<Rightarrow> int list \<Rightarrow> FeatModifiers" where
  "feat_loop cat fm [] = fm"
| "feat_loop cat fm (key # feats) =
     feat_loop cat (case cat key of None \<Rightarrow> fm | Some f \<Rightarrow> add_feat fm f) feats"

definition ResolveFeatModifiers :: "int list \<Rightarrow> FeatCatalog option \<Rightarrow> FeatModifiers" where
  "ResolveFeatModifiers feats cat0 =
     (case cat0 of None \<Rightarrow> IdentityFeatModifiers | Some cat \<Rightarrow> feat_loop cat IdentityFeatModifiers feats)"

definition attenuatePenalty :: "flt \<Rightarrow> flt \<Rightarrow> flt" where
  "attenuatePenalty f mul =
     (if fle f f_one then f else if fle mul f_zero then f
      else f64 (fadd f_one (f64 (fmul (f64 (fadd f (fneg f_one))) mul))))"

definition ApplyFeatGearAttenuation :: "GearFactors \<Rightarrow> FeatModifiers \<Rightarrow> GearFactors" where
  "ApplyFeatGearAttenuation g fm =
     g\<lparr>gf_WeaponFactor := attenuatePenalty (gf_WeaponFactor g) (fm_WeaponWeightPenaltyMul fm),
       gf_ArmorFactor := attenuatePenalty (gf_ArmorFactor g) (fm_ArmorWeightPenaltyMul fm)\<rparr>"

section \<open>The cost of one swing\<close>

definition resolveEquipment ::
    "MemoryCharacterRepo \<Rightarrow> MemoryMobInstanceRepo \<Rightarrow> ActorRef \<Rightarrow> Equipment option" where
  "resolveEquipment chars mobs ref =
     (case rf_Kind ref of
        ActorKindCharacter \<Rightarrow> (case repo_GetByID chars (rf_ID ref) of Inl e \<Rightarrow> None | Inr ch \<Rightarrow> Some (ch_Equipment ch))
      | ActorKindMob \<Rightarrow> (case mob_GetByID mobs (rf_ID ref) of Inl e \<Rightarrow> None | Inr m \<Rightarrow> Some (mi_Equipment m))
      | ActorKindUnknown \<Rightarrow> None)"

definition resolveFeatModifiers :: "MemoryCharacterRepo \<Rightarrow> FeatCatalog option \<Rightarrow> ActorRef \<Rightarrow> FeatModifiers" where
  "resolveFeatModifiers chars cat ref =
     (if rf_Kind ref \<noteq> ActorKindCharacter \<or> cat = None then IdentityFeatModifiers
      else case repo_GetByID chars (rf_ID ref) of Inl e \<Rightarrow> IdentityFeatModifiers
        | Inr ch \<Rightarrow> ResolveFeatModifiers (ch_Feats ch) cat)"

definition speed_float :: "RaceProfile \<Rightarrow> flt" where
  "speed_float p = (if rp_SpeedTenths p = 12 then f32_1_2 else f_one)"

definition actorSpeedFactor :: "MemoryCharacterRepo \<Rightarrow> ActorRef \<Rightarrow> flt" where
  "actorSpeedFactor chars ref =
     (if rf_Kind ref \<noteq> ActorKindCharacter then f_one
      else case repo_GetByID chars (rf_ID ref) of Inl e \<Rightarrow> f_one
        | Inr ch \<Rightarrow> speed_float (ProfileFor (ch_Race ch)))"

definition actorActionCost ::
    "MemoryCharacterRepo \<Rightarrow> MemoryMobInstanceRepo \<Rightarrow> MemoryItemRepo option \<Rightarrow> FeatCatalog option \<Rightarrow>
       ActorRef \<Rightarrow> Action \<Rightarrow> Slot \<Rightarrow> int" where
  "actorActionCost chars mobs items cat ref action slot =
     (let base = DefaultActionCost (a_Kind action) (a_Variant action);
          fm = resolveFeatModifiers chars cat ref;
          c1 = (case resolveEquipment chars mobs ref of None \<Rightarrow> base
                | Some eq \<Rightarrow> scale base (Multiplier (ApplyFeatGearAttenuation (ResolveGearFactors items eq slot) fm)));
          c2 = (if slot = SlotOffHand \<and> \<not> fle (fm_OffHandCostMul fm) f_zero \<and> \<not> feq (fm_OffHandCostMul fm) f_one
                then scale c1 (fm_OffHandCostMul fm) else c1)
      in ApplySpeedFactor c2 (actorSpeedFactor chars ref))"

section \<open>Stamina\<close>

text \<open>\<open>int32(scaled + 0.5)\<close> in \<open>float32\<close>.\<close>

definition scale_stamina :: "int \<Rightarrow> flt \<Rightarrow> int" where
  "scale_stamina cost m =
     (let s0 = f32 (fmul (f32 (Flt cost 0)) m); s = (if \<not> fle f_zero s0 then f_zero else s0)
      in i32 (ftrunc (f32 (fadd s (Flt 1 1)))))"

text \<open>The cost and the current pool, when the machinery applies to the actor.\<close>

definition staminaCostFor ::
    "MemoryCharacterRepo \<Rightarrow> FeatCatalog option \<Rightarrow> ActorRef \<Rightarrow> Action \<Rightarrow> (int \<times> int) option" where
  "staminaCostFor chars cat ref action =
     (let cost = DefaultActionStamina (a_Kind action) (a_Variant action)
      in if rf_Kind ref \<noteq> ActorKindCharacter \<or> cost \<le> 0 then None
         else case repo_GetByID chars (rf_ID ref) of Inl e \<Rightarrow> None
           | Inr ch \<Rightarrow>
               if c_StaminaMax (ch_Core ch) \<le> 0 then None
               else let m = fm_StaminaCostMul (ResolveFeatModifiers (ch_Feats ch) cat)
                    in Some (if cat \<noteq> None \<and> \<not> fle m f_zero \<and> \<not> feq m f_one then scale_stamina cost m else cost,
                             c_StaminaCurrent (ch_Core ch)))"

definition drainStamina ::
    "FeatCatalog option \<Rightarrow> ActorRef \<Rightarrow> Action \<Rightarrow> MemoryCharacterRepo \<Rightarrow> MemoryCharacterRepo" where
  "drainStamina cat ref action chars =
     (case staminaCostFor chars cat ref action of None \<Rightarrow> chars
      | Some (cost, current) \<Rightarrow>
          let next = i32 (current - cost)
          in fst (repo_RecordStamina chars (rf_ID ref) (if next < 0 then 0 else next)))"

definition hasStaminaFor :: "MemoryCharacterRepo \<Rightarrow> FeatCatalog option \<Rightarrow> ActorRef \<Rightarrow> Action \<Rightarrow> bool" where
  "hasStaminaFor chars cat ref action =
     (case staminaCostFor chars cat ref action of None \<Rightarrow> True | Some (cost, current) \<Rightarrow> current \<ge> cost)"

text \<open>\<open>staminaGate\<close>: true is \<open>ErrInsufficientStamina\<close>.\<close>

definition staminaGate :: "MemoryCharacterRepo \<Rightarrow> ActorRef \<Rightarrow> Action \<Rightarrow> bool" where
  "staminaGate chars actor a =
     (let cost = DefaultActionStamina (a_Kind a) (a_Variant a)
      in if rf_Kind actor \<noteq> ActorKindCharacter \<or> cost \<le> 0 then False
         else case repo_GetByID chars (rf_ID actor) of Inl e \<Rightarrow> False
           | Inr ch \<Rightarrow> c_StaminaMax (ch_Core ch) > 0 \<and> c_StaminaCurrent (ch_Core ch) < cost)"

section \<open>The regeneration ticker\<close>

definition armorWeightClass :: "MemoryItemRepo option \<Rightarrow> Equipment \<Rightarrow> string" where
  "armorWeightClass items0 eq =
     (case items0 of None \<Rightarrow> []
      | Some items \<Rightarrow>
          let aid = equip_Get eq SlotArmor
          in if aid = 0 then []
             else case item_GetByID items aid of Inl e \<Rightarrow> []
               | Inr it \<Rightarrow> (case it_Stats it of StArmor st \<Rightarrow> ar_WeightClass st | _ \<Rightarrow> []))"

definition regen_of :: "MemoryItemRepo option \<Rightarrow> FeatCatalog option \<Rightarrow> Character \<Rightarrow> int" where
  "regen_of items cat ch =
     (let base = (if cat = None then c_StaminaRegen (ch_Core ch)
                  else i32 (c_StaminaRegen (ch_Core ch) + fm_StaminaRegenAdd (ResolveFeatModifiers (ch_Feats ch) cat)))
      in EffectiveStaminaRegen base (armorWeightClass items (ch_Equipment ch)))"

definition stamina_tickOne ::
    "MemoryItemRepo option \<Rightarrow> FeatCatalog option \<Rightarrow> int \<Rightarrow> MemoryCharacterRepo \<Rightarrow> MemoryCharacterRepo" where
  "stamina_tickOne items cat charID chars =
     (case repo_GetByID chars charID of Inl e \<Rightarrow> chars
      | Inr ch \<Rightarrow>
          let core = ch_Core ch
          in if c_HPCurrent core \<le> 0 \<or> c_StaminaMax core \<le> 0 \<or> c_StaminaCurrent core \<ge> c_StaminaMax core then chars
             else let regen = regen_of items cat ch
                  in if regen \<le> 0 then chars
                     else let n0 = i32 (c_StaminaCurrent core + regen);
                              next = (if n0 > c_StaminaMax core then c_StaminaMax core else n0)
                          in if next = c_StaminaCurrent core then chars
                             else fst (repo_RecordStamina chars charID next))"

definition stamina_Tick ::
    "MemoryItemRepo option \<Rightarrow> FeatCatalog option \<Rightarrow> int list \<Rightarrow> MemoryCharacterRepo \<Rightarrow> MemoryCharacterRepo" where
  "stamina_Tick items cat ids chars = fold (stamina_tickOne items cat) ids chars"


section \<open>The stamina pool\<close>

definition pool_ok :: "Core \<Rightarrow> bool" where
  "pool_ok c \<longleftrightarrow> 0 \<le> c_StaminaCurrent c \<and> c_StaminaCurrent c \<le> c_StaminaMax c \<and> c_StaminaMax c \<le> 2 ^ 30
     \<and> \<bar>c_StaminaRegen c\<bar> \<le> 2 ^ 20"

definition discount_catalog :: "FeatCatalog option \<Rightarrow> bool" where
  "discount_catalog cat \<longleftrightarrow> (case cat of None \<Rightarrow> True
     | Some f \<Rightarrow> \<forall>k ft. f k = Some ft \<longrightarrow> 0 \<le> fmant (ft_StaminaCostMul ft) \<and> fmant (ft_StaminaCostMul ft) \<le> 2 ^ fexp (ft_StaminaCostMul ft))"

abbreviation unit_float :: "flt \<Rightarrow> bool" where
  "unit_float m \<equiv> 0 \<le> fmant m \<and> fmant m \<le> 2 ^ fexp m"

lemma f32_unit: "unit_float m \<Longrightarrow> unit_float (f32 m)"
  using fround_bounds [of m 1 24] by simp

lemma mul_unit: "unit_float a \<Longrightarrow> unit_float m \<Longrightarrow> unit_float (mul_unless_zero a m)"
proof -
  assume a: "unit_float a" "unit_float m"
  then have "fmant a * fmant m \<le> 2 ^ fexp a * 2 ^ fexp m" by (intro mult_mono) auto
  with a have "unit_float (fmul a m)" by (simp add: fmul_def power_add)
  with a(1) f32_unit show ?thesis by (simp add: mul_unless_zero_def)
qed

lemma feat_loop_unit:
  "\<forall>k ft. cat k = Some ft \<longrightarrow> unit_float (ft_StaminaCostMul ft) \<Longrightarrow> unit_float (fm_StaminaCostMul fm) \<Longrightarrow>
     unit_float (fm_StaminaCostMul (feat_loop cat fm feats))"
proof (induction feats arbitrary: fm)
  case (Cons k feats)
  then show ?case by (cases "cat k") (auto simp: add_feat_def mul_unit)
qed simp

lemma feat_loop_regen: "in_range 16 (fm_StaminaRegenAdd fm) \<Longrightarrow> in_range 16 (fm_StaminaRegenAdd (feat_loop cat fm feats))"
proof (induction feats arbitrary: fm)
  case (Cons k feats)
  then show ?case by (cases "cat k") (auto simp: add_feat_def)
qed simp

lemma resolved_feats:
  "discount_catalog cat \<Longrightarrow> unit_float (fm_StaminaCostMul (ResolveFeatModifiers feats cat))"
  "in_range 16 (fm_StaminaRegenAdd (ResolveFeatModifiers feats cat))"
  by (auto simp: ResolveFeatModifiers_def discount_catalog_def IdentityFeatModifiers_def in_range_def
      intro: feat_loop_unit [THEN conjunct1] feat_loop_unit [THEN conjunct2] feat_loop_regen [unfolded in_range_def, THEN conjunct1, simplified]
        feat_loop_regen [unfolded in_range_def, THEN conjunct2, simplified] split: option.splits)

lemma ftrunc_bounds: "0 \<le> fmant x \<Longrightarrow> fmant x \<le> n * 2 ^ fexp x \<Longrightarrow> 0 \<le> ftrunc x \<and> ftrunc x \<le> n"
  by (auto simp: ftrunc_def sdiv_nonneg pos_imp_zdiv_nonneg_iff intro: order_trans [OF zdiv_mono1])

lemma scale_stamina_bounds:
  assumes "0 < cost" "cost < 100" "unit_float m"
  shows "0 \<le> scale_stamina cost m \<and> scale_stamina cost m \<le> cost + 1"
proof -
  obtain c where c: "cost = int c" using assms(1) by (metis nonneg_int_cases less_imp_le)
  have "f32 (Flt cost 0) = Flt cost 0" using assms(1,2) by (intro fround_exact) simp
  then have x: "fmul (f32 (Flt cost 0)) m = Flt (cost * fmant m) (fexp m)" by (simp add: fmul_def)
  define s where "s = f32 (Flt (cost * fmant m) (fexp m))"
  have "cost * fmant m \<le> cost * 2 ^ fexp m" using assms(1,3) by (intro mult_left_mono) auto
  with assms c fround_bounds [of "Flt (cost * fmant m) (fexp m)" c 24]
  have s: "0 \<le> fmant s" "fmant s \<le> cost * 2 ^ fexp s" by (simp_all add: s_def)
  have "1 \<le> (2::int) ^ fexp s" by simp
  with s have "0 \<le> fmant (fadd s (Flt 1 1))" by (simp add: fadd_def)
  moreover have "fmant s * 2 + 2 ^ fexp s \<le> 2 * (cost * 2 ^ fexp s) + 2 * 2 ^ fexp s"
    using s \<open>1 \<le> (2::int) ^ fexp s\<close> by linarith
  then have "fmant (fadd s (Flt 1 1)) \<le> int (c + 1) * 2 ^ fexp (fadd s (Flt 1 1))"
    by (simp add: fadd_def c algebra_simps)
  ultimately have "0 \<le> fmant (fadd s (Flt 1 1))"
    "fmant (fadd s (Flt 1 1)) \<le> int (c + 1) * 2 ^ fexp (fadd s (Flt 1 1))" by simp_all
  then have "0 \<le> ftrunc (f32 (fadd s (Flt 1 1))) \<and> ftrunc (f32 (fadd s (Flt 1 1))) \<le> cost + 1"
    using fround_bounds [of "fadd s (Flt 1 1)" "c + 1" 24] assms(1,2) c ftrunc_bounds [of "f32 (fadd s (Flt 1 1))" "cost + 1"]
    by (simp add: add.commute)
  moreover have "i32 (ftrunc (f32 (fadd s (Flt 1 1)))) = ftrunc (f32 (fadd s (Flt 1 1)))"
    using calculation assms(2) by (intro i32_id) auto
  ultimately show ?thesis using s(1) by (simp add: scale_stamina_def x Let_def fle_def flip: s_def)
qed


lemma DefaultActionStamina_bounds: "0 \<le> DefaultActionStamina k v \<and> DefaultActionStamina k v \<le> 12"
  by (cases k; cases v) simp_all

lemma staminaCost_bounds:
  assumes "discount_catalog cat" "staminaCostFor chars cat ref action = Some (cost, cur)"
  shows "0 \<le> cost \<and> cost \<le> 13
    \<and> (\<exists>ch. repo_GetByID chars (rf_ID ref) = Inr ch \<and> cur = c_StaminaCurrent (ch_Core ch))"
proof -
  let ?c = "DefaultActionStamina (a_Kind action) (a_Variant action)"
  from assms(2) have c: "0 < ?c" by (auto simp: staminaCostFor_def Let_def split: if_splits)
  have "0 \<le> scale_stamina ?c m \<and> scale_stamina ?c m \<le> 13" if "unit_float m" for m
    using scale_stamina_bounds [OF c _ that] DefaultActionStamina_bounds [of "a_Kind action" "a_Variant action"] by auto
  with assms(2) resolved_feats(1) [OF assms(1)] c
    DefaultActionStamina_bounds [of "a_Kind action" "a_Variant action"] show ?thesis
    by (auto simp: staminaCostFor_def Let_def split: if_splits sum.splits)
qed

text \<open>A row that differs in the stamina only, which stays in the pool.\<close>

definition with_stamina :: "Character \<Rightarrow> int \<Rightarrow> Character" where
  "with_stamina ch s = ch\<lparr>ch_Core := (ch_Core ch)\<lparr>c_StaminaCurrent := s\<rparr>\<rparr>"

lemma with_stamina_simps [simp]:
  "with_stamina (with_stamina ch s) t = with_stamina ch t"
  "with_stamina ch (c_StaminaCurrent (ch_Core ch)) = ch"
  "c_StaminaMax (ch_Core (with_stamina ch s)) = c_StaminaMax (ch_Core ch)"
  "c_StaminaCurrent (ch_Core (with_stamina ch s)) = s"
  "c_StaminaRegen (ch_Core (with_stamina ch s)) = c_StaminaRegen (ch_Core ch)"
  by (simp_all add: with_stamina_def)

definition stamina_step :: "Character \<Rightarrow> Character \<Rightarrow> bool" where
  "stamina_step c d \<longleftrightarrow> (\<exists>s. d = with_stamina c s \<and> 0 \<le> s \<and> s \<le> c_StaminaMax (ch_Core c))"

definition pools_ok :: "MemoryCharacterRepo \<Rightarrow> bool" where
  "pools_ok r \<longleftrightarrow> (\<forall>i ch. repo_GetByID r i = Inr ch \<longrightarrow> pool_ok (ch_Core ch))"

abbreviation stamina_only :: "MemoryCharacterRepo \<Rightarrow> MemoryCharacterRepo \<Rightarrow> bool" where
  "stamina_only \<equiv> char_store.evolves stamina_step"

lemma stamina_step_refl: "pool_ok (ch_Core c) \<Longrightarrow> stamina_step c c"
  unfolding stamina_step_def pool_ok_def by (intro exI [of _ "c_StaminaCurrent (ch_Core c)"]) simp

lemma stamina_only_refl: "pools_ok r \<Longrightarrow> stamina_only r r"
  by (rule char_store.evolves_refl) (simp add: pools_ok_def stamina_step_refl)

lemma stamina_only_trans: "stamina_only a b \<Longrightarrow> stamina_only b c \<Longrightarrow> stamina_only a c"
  by (rule char_store.evolves_trans [where R = stamina_step and S = stamina_step]) (auto simp: stamina_step_def)

lemma stamina_only_pools:
  assumes "pools_ok r" "stamina_only r r'"
  shows "pools_ok r'"
  unfolding pools_ok_def
proof (intro allI impI)
  fix i d assume "repo_GetByID r' i = Inr d"
  with char_store.evolves_back [OF assms(2)] obtain c where "repo_GetByID r i = Inr c" "stamina_step c d" by blast
  with assms(1) show "pool_ok (ch_Core d)" unfolding pools_ok_def stamina_step_def by (auto simp: pool_ok_def)
qed

lemma RecordStamina_alt: "repo_RecordStamina r i v = record_at r i (\<lambda>c. Inr (with_stamina c v))"
  by (simp add: repo_RecordStamina_def with_stamina_def)

lemma keeps_stamina [simp]: "keeps_identity (\<lambda>c. Inr (with_stamina c v))"
  by (simp add: keeps_identity_def with_stamina_def)

lemma RecordStamina_row:
  "repo_GetByID r i = Inr ch \<Longrightarrow> repo_GetByID (fst (repo_RecordStamina r i v)) i = Inr (with_stamina ch v)"
  using char_store.accepted [of r i ch "\<lambda>c. Inr (with_stamina c v)"] by (simp add: RecordStamina_alt)

lemma RecordStamina_only:
  assumes "pools_ok r" "repo_GetByID r i = Inr ch" "0 \<le> v" "v \<le> c_StaminaMax (ch_Core ch)"
  shows "stamina_only r (fst (repo_RecordStamina r i v))"
  unfolding RecordStamina_alt
proof (rule char_store.evolves_upd)
  fix j c assume "repo_GetByID r j = Inr c"
  then show "stamina_step c c" using assms(1) by (auto simp: pools_ok_def intro: stamina_step_refl)
next
  fix c d assume "repo_GetByID r i = Inr c" "Inr (with_stamina c v) = Inr d"
  then show "stamina_step c d" using assms(2-4) by (auto simp: stamina_step_def)
qed simp

lemma drain_only:
  assumes "discount_catalog cat" "pools_ok r"
  shows "stamina_only r (drainStamina cat ref action r)"
proof (cases "staminaCostFor r cat ref action")
  case (Some p)
  obtain cost cur where p: "p = (cost, cur)" by (cases p)
  note b = staminaCost_bounds [OF assms(1) Some [unfolded p]]
  then obtain ch where ch: "repo_GetByID r (rf_ID ref) = Inr ch" "cur = c_StaminaCurrent (ch_Core ch)" by blast
  with assms(2) have ok: "pool_ok (ch_Core ch)" by (simp add: pools_ok_def)
  then have "i32 (cur - cost) = cur - cost" using b ch(2) by (intro i32_id) (auto simp: pool_ok_def)
  with ok b ch show ?thesis
    by (auto simp: drainStamina_def Some p Let_def pool_ok_def intro!: RecordStamina_only [OF assms(2) ch(1)])
qed (simp add: drainStamina_def stamina_only_refl [OF assms(2)])

lemma regen_bounds:
  assumes "pool_ok (ch_Core ch)"
  shows "regen_of items cat ch \<le> 2 ^ 21"
proof -
  let ?f = "fm_StaminaRegenAdd (ResolveFeatModifiers (ch_Feats ch) cat)"
  have f: "- 32768 \<le> ?f" "?f < 32768" using resolved_feats(2) [of "ch_Feats ch" cat] by (simp_all add: in_range_16)
  have r: "\<bar>c_StaminaRegen (ch_Core ch)\<bar> \<le> 1048576" using assms by (simp add: pool_ok_def)
  have "i32 (c_StaminaRegen (ch_Core ch) + ?f) = c_StaminaRegen (ch_Core ch) + ?f" using f r by (intro i32_id) linarith+
  moreover have e: "EffectiveStaminaRegen b w \<le> k" if "b \<le> k" "1 \<le> k" for b k w
    using that by (auto simp: EffectiveStaminaRegen_def Let_def sdiv_nonneg)
  ultimately show ?thesis using f r by (auto simp: regen_of_def intro!: e)
qed

lemma tickOne_only:
  assumes "pools_ok r"
  shows "stamina_only r (stamina_tickOne items cat i r)"
proof (cases "repo_GetByID r i")
  case (Inl e)
  then show ?thesis by (simp add: stamina_tickOne_def stamina_only_refl [OF assms])
next
  case (Inr ch)
  let ?c = "ch_Core ch" and ?g = "regen_of items cat ch"
  have ok: "pool_ok ?c" using assms Inr by (simp add: pools_ok_def)
  show ?thesis
  proof (cases "c_HPCurrent ?c \<le> 0 \<or> c_StaminaMax ?c \<le> 0 \<or> c_StaminaCurrent ?c \<ge> c_StaminaMax ?c \<or> ?g \<le> 0")
    case True
    then show ?thesis using Inr stamina_only_refl [OF assms] by (auto simp: stamina_tickOne_def Let_def)
  next
    case False
    then have "i32 (c_StaminaCurrent ?c + ?g) = c_StaminaCurrent ?c + ?g"
      using ok regen_bounds [OF ok, of items cat] by (intro i32_id) (auto simp: pool_ok_def)
    with False Inr ok show ?thesis
      by (auto simp: stamina_tickOne_def Let_def pool_ok_def stamina_only_refl [OF assms]
          intro!: RecordStamina_only [OF assms Inr])
  qed
qed

datatype stamina_op = OpDrain ActorRef Action | OpRegen "int list"

fun stamina_run :: "MemoryItemRepo option \<Rightarrow> FeatCatalog option \<Rightarrow> stamina_op \<Rightarrow> MemoryCharacterRepo \<Rightarrow> MemoryCharacterRepo" where
  "stamina_run items cat (OpDrain ref action) r = drainStamina cat ref action r"
| "stamina_run items cat (OpRegen ids) r = stamina_Tick items cat ids r"

lemma Tick_only: "pools_ok r \<Longrightarrow> stamina_only r (stamina_Tick items cat ids r)"
proof (induction ids arbitrary: r)
  case (Cons i ids)
  note t = tickOne_only [OF Cons.prems, of items cat i]
  from stamina_only_trans [OF t Cons.IH [OF stamina_only_pools [OF Cons.prems t]]] show ?case
    by (simp add: stamina_Tick_def)
qed (simp add: stamina_Tick_def stamina_only_refl)

text \<open>C13: Stamina stays in its pool: through every sequence of swings (each draining its cost, feats included)
  and regeneration pulses over any characters, every character keeps a stamina between zero and the maximum,
  and no other field of any row changes, when the catalogue's cost multipliers are discounts.\<close>

theorem stamina_stays_in_pool:
  assumes "discount_catalog cat" "pools_ok r"
  shows "stamina_only r (fold (stamina_run items cat) ops r) \<and> pools_ok (fold (stamina_run items cat) ops r)"
  using assms(2)
proof (induction ops arbitrary: r)
  case Nil
  then show ?case by (simp add: stamina_only_refl)
next
  case (Cons op ops)
  have s: "stamina_only r (stamina_run items cat op r)"
    using Cons.prems by (cases op) (simp_all add: drain_only [OF assms(1)] Tick_only)
  with Cons.IH [OF stamina_only_pools [OF Cons.prems s]] show ?case
    by (auto intro: stamina_only_trans)
qed

text \<open>The gate of a chained swing and the charge agree, the gate at enqueue does not: a swing that
  \<open>hasStaminaFor\<close> allows is paid in full, its cost and nothing more; but \<open>EnqueueAction\<close> compares with the cost
  before the feat discount, so an actor who can pay the discounted cost is refused.\<close>

lemma swing_paid_gate_not:
  assumes "discount_catalog cat" "pools_ok r" "staminaCostFor r cat ref action = Some (cost, cur)"
  shows "(hasStaminaFor r cat ref action \<longrightarrow>
      (\<exists>ch. repo_GetByID r (rf_ID ref) = Inr ch \<and> c_StaminaCurrent (ch_Core ch) = cur
        \<and> repo_GetByID (drainStamina cat ref action r) (rf_ID ref) = Inr (with_stamina ch (cur - cost)) \<and> 0 \<le> cur - cost))
    \<and> (cost \<le> cur \<and> cur < DefaultActionStamina (a_Kind action) (a_Variant action) \<longrightarrow>
      hasStaminaFor r cat ref action \<and> staminaGate r ref action)"
proof -
  note b = staminaCost_bounds [OF assms(1,3)]
  then obtain ch where ch: "repo_GetByID r (rf_ID ref) = Inr ch" "cur = c_StaminaCurrent (ch_Core ch)" by blast
  with assms(2) have ok: "pool_ok (ch_Core ch)" by (simp add: pools_ok_def)
  then have "i32 (cur - cost) = cur - cost" using b ch(2) by (intro i32_id) (auto simp: pool_ok_def)
  then have "cost \<le> cur \<longrightarrow> repo_GetByID (drainStamina cat ref action r) (rf_ID ref) = Inr (with_stamina ch (cur - cost))"
    by (auto simp: drainStamina_def assms(3) Let_def RecordStamina_row [OF ch(1)])
  with ch assms(3) show ?thesis
    by (auto simp: hasStaminaFor_def staminaGate_def staminaCostFor_def Let_def split: if_splits)
qed

text \<open>Endurance of the default catalogue: the cost times 0.8 in \<open>float32\<close>.\<close>

definition sample_feats :: FeatCatalog where
  "sample_feats k = (if k = 7 then Some \<lparr>ft_Name = ''Endurance'', ft_WeaponWeightPenaltyMul = f_zero,
     ft_ArmorWeightPenaltyMul = f_zero, ft_StaminaCostMul = Flt 13421773 24, ft_StaminaRegenAdd = 0,
     ft_OffHandCostMul = f_zero\<rparr> else None)"

definition fighter_repo :: "int \<Rightarrow> MemoryCharacterRepo" where
  "fighter_repo stamina = \<lparr>mr_nextID = 1, mr_byLower = [(''rand'', sample_character\<lparr>ch_ID := 1, ch_NameLower := ''rand'',
     ch_Feats := [7], ch_Core := zero_Core\<lparr>c_HPCurrent := 9, c_HPMax := 9, c_StaminaCurrent := stamina,
       c_StaminaMax := 10, c_StaminaRegen := 2\<rparr>\<rparr>)]\<rparr>"

definition sample_swing :: Action where
  "sample_swing = \<lparr>a_Kind = ActionAttack, a_Variant = VariantNormal, a_Target = zero_Ref, a_WeaponID = 0\<rparr>"

lemma sample_discount: "discount_catalog (Some sample_feats)"
  by (simp add: discount_catalog_def sample_feats_def)

lemma fighter_pools: "0 \<le> s \<Longrightarrow> s \<le> 10 \<Longrightarrow> pools_ok (fighter_repo s)"
  by (auto simp: pools_ok_def fighter_repo_def repo_GetByID_def pool_ok_def split: if_splits)

theorem stamina_stays_in_pool_witness:
  "pools_ok (fold (stamina_run None (Some sample_feats)) [OpDrain (char_ref 1) sample_swing, OpRegen [1, 2]] (fighter_repo 4))"
  by (rule stamina_stays_in_pool [OF sample_discount fighter_pools, THEN conjunct2]) simp_all

end
