(* ===== verification/CombatFight.thy ===== *)
theory CombatFight
  imports CombatCost StableSort
begin

text \<open>
  The state of one fight: \<open>internal/combat/fight.go\<close>, the action queue of \<open>action.go\<close> and \<open>iterativeTargetGone\<close> of
  \<open>iterative.go\<close>. Go maps that are read by key are association lists; a threat row is also iterated, and its
  list is the iteration order, so a theorem for every list covers every order Go may choose. Times are
  nanoseconds.
\<close>

section \<open>State\<close>

record SwingPlan =
  sw_Slot :: Slot
  sw_Bonus :: int

record ActorEntry =
  e_Ref :: ActorRef
  e_Initiative :: int
  e_Tiebreak :: int
  e_NextActAt :: int
  e_LastActedAt :: "int option"
  e_PendingSwings :: int
  e_Swings :: "SwingPlan list"

type_synonym stances = "(ActorRef \<times> int) list"

record Fight =
  ft_RoomID :: int
  ft_Round :: int
  ft_Order :: "ActorEntry list"
  ft_StartedAt :: int
  ft_Actions :: "(ActorRef \<times> Action) list"
  ft_DamageTally :: tally
  ft_Dead :: "ActorRef set"
  ft_Fled :: "ActorRef set"
  ft_ParryingUntil :: stances
  ft_FlatFootedUntil :: stances
  ft_DodgeUntil :: stances
  ft_Threat :: "(ActorRef \<times> tally) list"

section \<open>Threat\<close>

fun threat_loop :: "tally \<Rightarrow> ActorRef \<Rightarrow> int \<Rightarrow> ActorRef" where
  "threat_loop [] best bestScore = best"
| "threat_loop ((ref, score) # row) best bestScore =
     (if score > bestScore then threat_loop row ref score
      else if score = bestScore \<and> rf_ID ref < rf_ID best then threat_loop row ref bestScore
      else threat_loop row best bestScore)"

definition HighestThreat :: "Fight \<Rightarrow> ActorRef \<Rightarrow> ActorRef" where
  "HighestThreat f defender =
     (case map_of (ft_Threat f) defender of None \<Rightarrow> zero_Ref
      | Some row \<Rightarrow> if row = [] then zero_Ref else threat_loop row zero_Ref (- 1))"

section \<open>Pruning\<close>

definition forget :: "ActorRef \<Rightarrow> Fight \<Rightarrow> Fight" where
  "forget ref f = f\<lparr>ft_ParryingUntil := map_del ref (ft_ParryingUntil f),
     ft_FlatFootedUntil := map_del ref (ft_FlatFootedUntil f), ft_DodgeUntil := map_del ref (ft_DodgeUntil f),
     ft_Threat := map (\<lambda>(d, row). (d, map_del ref row)) (map_del ref (ft_Threat f))\<rparr>"

fun prune_loop :: "ActorRef set \<Rightarrow> ActorEntry list \<Rightarrow> ActorEntry list \<Rightarrow> Fight \<Rightarrow> ActorEntry list \<times> Fight" where
  "prune_loop gone [] out f = (out, f)"
| "prune_loop gone (e # es) out f =
     (if e_Ref e \<in> gone then prune_loop gone es out (forget (e_Ref e) f)
      else prune_loop gone es (out @ [e]) f)"

definition pruneDead :: "Fight \<Rightarrow> Fight \<times> bool" where
  "pruneDead f =
     (if ft_Dead f = {} \<and> ft_Fled f = {} then (f, False)
      else let (out, f1) = prune_loop (ft_Dead f \<union> ft_Fled f) (ft_Order f) [] f
           in (f1\<lparr>ft_Order := out, ft_Dead := {}, ft_Fled := {}\<rparr>, True))"

section \<open>Initiative\<close>

definition initiative_less :: "ActorEntry \<Rightarrow> ActorEntry \<Rightarrow> bool" where
  "initiative_less a b =
     (if e_Initiative a \<noteq> e_Initiative b then e_Initiative a > e_Initiative b
      else if e_Tiebreak a \<noteq> e_Tiebreak b then e_Tiebreak a > e_Tiebreak b
      else rf_ID (e_Ref a) < rf_ID (e_Ref b))"

definition sortInitiative :: "ActorEntry list \<Rightarrow> ActorEntry list" where
  "sortInitiative entries = SliceStable initiative_less entries"

interpretation initiative: strict_weak_order initiative_less
  by unfold_locales (auto simp: initiative_less_def split: if_splits)

section \<open>The action queue and the swing chain\<close>

definition popAction :: "ActorRef \<Rightarrow> Fight \<Rightarrow> Fight \<times> Action option" where
  "popAction actor f =
     (case map_of (ft_Actions f) actor of None \<Rightarrow> (f, None)
      | Some a \<Rightarrow> (f\<lparr>ft_Actions := map_del actor (ft_Actions f)\<rparr>, Some a))"

definition iterativeTargetGone :: "Fight option \<Rightarrow> ActorRef \<Rightarrow> bool" where
  "iterativeTargetGone f0 target =
     (if target = zero_Ref then True
      else case f0 of None \<Rightarrow> True
        | Some f \<Rightarrow> target \<in> ft_Dead f \<or> target \<in> ft_Fled f \<or> \<not> list_ex (\<lambda>e. e_Ref e = target) (ft_Order f))"

definition primary_swing :: SwingPlan where "primary_swing = \<lparr>sw_Slot = SlotPrimaryWield, sw_Bonus = 0\<rparr>"

definition swing_plan :: "int \<Rightarrow> bool \<Rightarrow> SwingPlan list" where
  "swing_plan bab offHand =
     map (\<lambda>b. \<lparr>sw_Slot = SlotPrimaryWield, sw_Bonus = b\<rparr>) (IterativeBonusesFor bab)
     @ (if offHand then map (\<lambda>b. \<lparr>sw_Slot = SlotOffHand, sw_Bonus = i16 (b - 4)\<rparr>) (IterativeBonusesFor bab) else [])"

section \<open>Threat is the maximum, and how far it is deterministic\<close>

lemma threat_loop_cons:
  "threat_loop row best s \<in> insert best (fst ` set row)"
  by (induction row best s rule: threat_loop.induct) auto

lemma threat_loop_max:
  "(best, s) \<in> set seen \<Longrightarrow> \<forall>p\<in>set seen. snd p \<le> s \<and> (snd p = s \<longrightarrow> rf_ID best \<le> rf_ID (fst p)) \<Longrightarrow>
   \<exists>m. (threat_loop row best s, m) \<in> set (seen @ row)
     \<and> (\<forall>p\<in>set (seen @ row). snd p \<le> m \<and> (snd p = m \<longrightarrow> rf_ID (threat_loop row best s) \<le> rf_ID (fst p)))"
proof (induction row best s arbitrary: seen rule: threat_loop.induct)
  case (1 best s)
  then show ?case by auto
next
  case (2 ref score row best s)
  consider (up) "score > s" | (tie) "score = s" "rf_ID ref < rf_ID best"
    | (skip) "\<not> score > s" "\<not> (score = s \<and> rf_ID ref < rf_ID best)" by blast
  then show ?case
  proof cases
    case up
    have "\<forall>p\<in>set (seen @ [(ref, score)]). snd p \<le> score \<and> (snd p = score \<longrightarrow> rf_ID ref \<le> rf_ID (fst p))"
      using 2(5) up by force
    from 2(1) [OF up _ this] up show ?thesis by simp
  next
    case tie
    have "\<forall>p\<in>set (seen @ [(ref, score)]). snd p \<le> s \<and> (snd p = s \<longrightarrow> rf_ID ref \<le> rf_ID (fst p))"
      using 2(5) tie by force
    moreover have "(ref, s) \<in> set (seen @ [(ref, score)])" using tie by simp
    ultimately show ?thesis using 2(2) [of "seen @ [(ref, score)]"] tie by simp
  next
    case skip
    have "\<forall>p\<in>set (seen @ [(ref, score)]). snd p \<le> s \<and> (snd p = s \<longrightarrow> rf_ID best \<le> rf_ID (fst p))"
      using 2(5) skip by force
    moreover have "(best, s) \<in> set (seen @ [(ref, score)])" using 2(4) by simp
    ultimately show ?thesis using 2(3) [of "seen @ [(ref, score)]"] skip by auto
  qed
qed

lemma threat_loop_top:
  assumes "row \<noteq> []" "\<forall>p\<in>set row. 0 \<le> snd p"
  shows "\<exists>m. (threat_loop row zero_Ref (- 1), m) \<in> set row
    \<and> (\<forall>p\<in>set row. snd p \<le> m \<and> (snd p = m \<longrightarrow> rf_ID (threat_loop row zero_Ref (- 1)) \<le> rf_ID (fst p)))"
proof -
  obtain ref score rest where r: "row = (ref, score) # rest" using assms(1) by (cases row) auto
  then have "threat_loop row zero_Ref (- 1) = threat_loop rest ref score" using assms(2) by simp
  with threat_loop_max [of ref score "[(ref, score)]" rest] show ?thesis by (simp add: r)
qed

definition mob_ref :: "int \<Rightarrow> ActorRef" where "mob_ref i = \<lparr>rf_Kind = ActorKindMob, rf_ID = i\<rparr>"

text \<open>The retarget choice: \<open>HighestThreat\<close> names an attacker of the row with the greatest score and, among
  those, the least id. When the ids in the row differ it is the same attacker for every iteration order of
  the map; but a character and a mob of the same id with the same score tie, and then the map order
  decides.\<close>

lemma HighestThreat_exact:
  assumes "map_of (ft_Threat f) d = Some row" "row \<noteq> []" "\<forall>p\<in>set row. 0 \<le> snd p" "distinct (keys row)"
  shows "(\<exists>m. (HighestThreat f d, m) \<in> set row
      \<and> (\<forall>p\<in>set row. snd p \<le> m \<and> (snd p = m \<longrightarrow> rf_ID (HighestThreat f d) \<le> rf_ID (fst p))))
    \<and> (inj_on rf_ID (set (keys row)) \<longrightarrow> mset row' = mset row \<longrightarrow>
        HighestThreat (f\<lparr>ft_Threat := map_put d row' (ft_Threat f)\<rparr>) d = HighestThreat f d)
    \<and> HighestThreat (f\<lparr>ft_Threat := [(d, [(char_ref i, 3), (mob_ref i, 3)])]\<rparr>) d = char_ref i
    \<and> HighestThreat (f\<lparr>ft_Threat := [(d, [(mob_ref i, 3), (char_ref i, 3)])]\<rparr>) d = mob_ref i"
proof (intro conjI impI)
  have h: "HighestThreat f d = threat_loop row zero_Ref (- 1)" using assms(1,2) by (simp add: HighestThreat_def)
  note top = threat_loop_top [OF assms(2,3)]
  then show "\<exists>m. (HighestThreat f d, m) \<in> set row
      \<and> (\<forall>p\<in>set row. snd p \<le> m \<and> (snd p = m \<longrightarrow> rf_ID (HighestThreat f d) \<le> rf_ID (fst p)))"
    by (simp only: h)
  show "HighestThreat (f\<lparr>ft_Threat := [(d, [(char_ref i, 3), (mob_ref i, 3)])]\<rparr>) d = char_ref i"
    "HighestThreat (f\<lparr>ft_Threat := [(d, [(mob_ref i, 3), (char_ref i, 3)])]\<rparr>) d = mob_ref i"
    by (simp_all add: HighestThreat_def char_ref_def mob_ref_def)
  assume inj: "inj_on rf_ID (set (keys row))" and perm: "mset row' = mset row"
  from perm have s: "set row' = set row" and n: "row' \<noteq> []" using assms(2) by (metis set_mset_mset, auto)
  from threat_loop_top [OF n] s assms(3) obtain m' where
    m': "(threat_loop row' zero_Ref (- 1), m') \<in> set row"
      "\<forall>p\<in>set row. snd p \<le> m' \<and> (snd p = m' \<longrightarrow> rf_ID (threat_loop row' zero_Ref (- 1)) \<le> rf_ID (fst p))" by auto
  from top obtain m where
    m: "(threat_loop row zero_Ref (- 1), m) \<in> set row"
      "\<forall>p\<in>set row. snd p \<le> m \<and> (snd p = m \<longrightarrow> rf_ID (threat_loop row zero_Ref (- 1)) \<le> rf_ID (fst p))" by blast
  have "m = m'" using m m' by (metis antisym snd_conv)
  with m m' have "rf_ID (threat_loop row zero_Ref (- 1)) = rf_ID (threat_loop row' zero_Ref (- 1))"
    by (metis antisym fst_conv snd_conv)
  moreover have "threat_loop row zero_Ref (- 1) \<in> set (keys row)" "threat_loop row' zero_Ref (- 1) \<in> set (keys row)"
    using m(1) m'(1) by (force simp: image_iff)+
  ultimately have "threat_loop row zero_Ref (- 1) = threat_loop row' zero_Ref (- 1)" using inj by (simp add: inj_onD)
  then show "HighestThreat (f\<lparr>ft_Threat := map_put d row' (ft_Threat f)\<rparr>) d = HighestThreat f d"
    using n by (simp add: h) (simp add: HighestThreat_def)
qed

definition sample_fight :: Fight where
  "sample_fight = \<lparr>ft_RoomID = 3, ft_Round = 0, ft_Order = [], ft_StartedAt = 0, ft_Actions = [], ft_DamageTally = [],
     ft_Dead = {}, ft_Fled = {}, ft_ParryingUntil = [], ft_FlatFootedUntil = [], ft_DodgeUntil = [],
     ft_Threat = [(mob_ref 9, [(char_ref 1, 4), (char_ref 2, 7)])]\<rparr>"

section \<open>Pruning forgets exactly the fallen\<close>

lemma prune_loop_spec:
  "prune_loop gone es out f = (out @ filter (\<lambda>e. e_Ref e \<notin> gone) es,
     fold forget (filter (\<lambda>r. r \<in> gone) (map e_Ref es)) f)"
  by (induction gone es out f rule: prune_loop.induct) auto

lemma map_of_rows: "map_of (map (\<lambda>(d, row). (d, g row)) m) k = map_option g (map_of m k)"
  by (induction m) auto

lemma forget_fields:
  "ft_Order (forget r f) = ft_Order f" "ft_Dead (forget r f) = ft_Dead f" "ft_Fled (forget r f) = ft_Fled f"
  "ft_DamageTally (forget r f) = ft_DamageTally f" "ft_Actions (forget r f) = ft_Actions f"
  "ft_Round (forget r f) = ft_Round f" "ft_RoomID (forget r f) = ft_RoomID f" "ft_StartedAt (forget r f) = ft_StartedAt f"
  by (simp_all add: forget_def)

lemma fold_forget_fields [simp]:
  "ft_Order (fold forget rs f) = ft_Order f" "ft_Dead (fold forget rs f) = ft_Dead f"
  "ft_Fled (fold forget rs f) = ft_Fled f" "ft_DamageTally (fold forget rs f) = ft_DamageTally f"
  "ft_Actions (fold forget rs f) = ft_Actions f" "ft_Round (fold forget rs f) = ft_Round f"
  "ft_RoomID (fold forget rs f) = ft_RoomID f" "ft_StartedAt (fold forget rs f) = ft_StartedAt f"
  by (induction rs arbitrary: f) (simp_all add: forget_fields)

text \<open>The score of an attacker against a defender; an absent entry counts as none.\<close>

definition threat_of :: "Fight \<Rightarrow> ActorRef \<Rightarrow> ActorRef \<Rightarrow> int option" where
  "threat_of f d a = (case map_of (ft_Threat f) d of None \<Rightarrow> None | Some row \<Rightarrow> map_of row a)"

lemma forget_stances:
  "map_of (ft_ParryingUntil (fold forget rs f)) r = (if r \<in> set rs then None else map_of (ft_ParryingUntil f) r)"
  "map_of (ft_FlatFootedUntil (fold forget rs f)) r = (if r \<in> set rs then None else map_of (ft_FlatFootedUntil f) r)"
  "map_of (ft_DodgeUntil (fold forget rs f)) r = (if r \<in> set rs then None else map_of (ft_DodgeUntil f) r)"
  by (induction rs arbitrary: f) (auto simp: forget_def)

lemma forget_threat:
  "threat_of (fold forget rs f) d a = (if d \<in> set rs \<or> a \<in> set rs then None else threat_of f d a)"
proof (induction rs arbitrary: f)
  case (Cons r rs)
  have "threat_of (forget r f) d a = (if d = r \<or> a = r then None else threat_of f d a)"
    by (auto simp: threat_of_def forget_def map_of_rows split: option.split)
  with Cons show ?case by auto
qed simp

text \<open>Pruning removes exactly the fallen: the initiative order keeps its survivors in order with their
  clocks, both sets are emptied, and every stance and threat entry of a removed combatant, as defender or as
  attacker, is gone while all others stay; so the dead never draw a retarget. The damage tally, which pays
  the experience, keeps them.\<close>

lemma pruneDead_exact:
  assumes "ft_Dead f \<union> ft_Fled f \<noteq> {}"
  defines "gone \<equiv> (ft_Dead f \<union> ft_Fled f) \<inter> e_Ref ` set (ft_Order f)"
  shows "ft_Order (fst (pruneDead f)) = filter (\<lambda>e. e_Ref e \<notin> gone) (ft_Order f)
    \<and> ft_Dead (fst (pruneDead f)) = {} \<and> ft_Fled (fst (pruneDead f)) = {}
    \<and> map_of (ft_ParryingUntil (fst (pruneDead f))) r = (if r \<in> gone then None else map_of (ft_ParryingUntil f) r)
    \<and> map_of (ft_FlatFootedUntil (fst (pruneDead f))) r = (if r \<in> gone then None else map_of (ft_FlatFootedUntil f) r)
    \<and> map_of (ft_DodgeUntil (fst (pruneDead f))) r = (if r \<in> gone then None else map_of (ft_DodgeUntil f) r)
    \<and> threat_of (fst (pruneDead f)) d r = (if d \<in> gone \<or> r \<in> gone then None else threat_of f d r)
    \<and> ft_DamageTally (fst (pruneDead f)) = ft_DamageTally f \<and> ft_Actions (fst (pruneDead f)) = ft_Actions f"
proof -
  let ?rs = "filter (\<lambda>r. r \<in> ft_Dead f \<union> ft_Fled f) (map e_Ref (ft_Order f))"
  have g: "set ?rs = gone" unfolding gone_def by auto
  have o: "filter (\<lambda>e. e_Ref e \<notin> ft_Dead f \<union> ft_Fled f) (ft_Order f) = filter (\<lambda>e. e_Ref e \<notin> gone) (ft_Order f)"
    unfolding gone_def by (rule filter_cong) auto
  have p: "fst (pruneDead f) = (fold forget ?rs f)\<lparr>ft_Order := filter (\<lambda>e. e_Ref e \<notin> gone) (ft_Order f),
      ft_Dead := {}, ft_Fled := {}\<rparr>"
    unfolding pruneDead_def prune_loop_spec Let_def prod.case append_Nil o fst_conv using assms(1) by auto
  have t: "threat_of (fst (pruneDead f)) d r = threat_of (fold forget ?rs f) d r" by (simp add: p threat_of_def)
  define F where "F = fold forget ?rs f"
  have st: "map_of (ft_ParryingUntil F) r = (if r \<in> gone then None else map_of (ft_ParryingUntil f) r)"
    "map_of (ft_FlatFootedUntil F) r = (if r \<in> gone then None else map_of (ft_FlatFootedUntil f) r)"
    "map_of (ft_DodgeUntil F) r = (if r \<in> gone then None else map_of (ft_DodgeUntil f) r)"
    "ft_DamageTally F = ft_DamageTally f" "ft_Actions F = ft_Actions f"
    unfolding F_def by (simp_all only: forget_stances g fold_forget_fields)
  have th: "threat_of (fst (pruneDead f)) d r = (if d \<in> gone \<or> r \<in> gone then None else threat_of f d r)"
    by (simp only: t forget_threat g)
  show ?thesis unfolding th unfolding p F_def [symmetric] by (simp add: st)
qed

end
