(* ===== verification/CombatDecay.thy ===== *)
theory CombatDecay
  imports ItemRepo StableSort
begin

text \<open>
  Corpse decay: \<open>internal/combat/decay.go\<close> and \<open>ListWithDecay\<close> of \<open>internal/repo/item_memory.go\<close>. The queue is kept sorted by
  deadline; a pulse pops what is due, deletes the rows and announces each. Times are nanoseconds; the item
  store is optional; the broadcast and the bus are wired and are a log. \<open>ListWithDecay\<close> sorts with an
  unstable sort, of which the stable one is an instance; only the order of equal deadlines depends on it.
\<close>

record decayEntry =
  de_ItemID :: int
  de_RoomID :: int
  de_At :: int

datatype decay_event = CorpseCrumbles int | CorpseDecayed int int

record Decayer =
  dc_items :: "MemoryItemRepo option"
  dc_queue :: "decayEntry list"
  dc_log :: "decay_event list"

definition due_before :: "decayEntry \<Rightarrow> decayEntry \<Rightarrow> bool" where
  "due_before a b \<longleftrightarrow> de_At a < de_At b"

interpretation deadline: strict_weak_order due_before
  by unfold_locales (auto simp: due_before_def)

definition Schedule :: "int \<Rightarrow> int \<Rightarrow> int \<Rightarrow> decayEntry list \<Rightarrow> decayEntry list" where
  "Schedule itemID roomID at queue =
     (if itemID = 0 then queue
      else SliceStable due_before (queue @ [\<lparr>de_ItemID = itemID, de_RoomID = roomID, de_At = at\<rparr>]))"

fun cut_loop :: "int \<Rightarrow> decayEntry list \<Rightarrow> nat" where
  "cut_loop now [] = 0"
| "cut_loop now (e # queue) = (if \<not> de_At e > now then Suc (cut_loop now queue) else 0)"

definition popDue :: "int \<Rightarrow> decayEntry list \<Rightarrow> decayEntry list \<times> decayEntry list" where
  "popDue now queue = (let cut = cut_loop now queue in (take cut queue, drop cut queue))"

definition sweep_one :: "decayEntry \<Rightarrow> Decayer \<Rightarrow> Decayer" where
  "sweep_one e d =
     d\<lparr>dc_items := map_option (\<lambda>items. fst (item_Delete items (de_ItemID e))) (dc_items d),
       dc_log := dc_log d @ (if de_RoomID e \<noteq> 0 then [CorpseCrumbles (de_RoomID e)] else [])
                         @ [CorpseDecayed (de_RoomID e) (de_ItemID e)]\<rparr>"

definition decay_Tick :: "int \<Rightarrow> Decayer \<Rightarrow> Decayer" where
  "decay_Tick now d =
     (let (due, rest) = popDue now (dc_queue d) in fold sweep_one due (d\<lparr>dc_queue := rest\<rparr>))"

definition ListWithDecay :: "MemoryItemRepo \<Rightarrow> Item list" where
  "ListWithDecay r =
     SliceStable (\<lambda>a b. (case (it_DecayExpiresAt a, it_DecayExpiresAt b) of (Some s, Some t) \<Rightarrow> s < t | _ \<Rightarrow> False))
       (filter (\<lambda>i. it_DecayExpiresAt i \<noteq> None) (ir_items r))"

text \<open>The replay at boot over the store: the counts are the rescheduled and the swept rows.\<close>

fun rearm_loop ::
    "int \<Rightarrow> Item list \<Rightarrow> MemoryItemRepo \<times> decayEntry list \<times> int \<times> int \<Rightarrow>
       MemoryItemRepo \<times> decayEntry list \<times> int \<times> int" where
  "rearm_loop now [] s = s"
| "rearm_loop now (row # rows) (items, queue, rescheduled, swept) =
     rearm_loop now rows
       (case it_DecayExpiresAt row of None \<Rightarrow> (items, queue, rescheduled, swept)
        | Some deadline \<Rightarrow>
            if \<not> deadline > now then
              (case item_Delete items (it_ID row) of
                 (items', Some e) \<Rightarrow> (items', queue, rescheduled, swept)
               | (items', None) \<Rightarrow> (items', queue, rescheduled, swept + 1))
            else (items, Schedule (it_ID row) (it_RoomID row) deadline queue, rescheduled + 1, swept))"

definition RearmFromRepo ::
    "int \<Rightarrow> MemoryItemRepo \<Rightarrow> decayEntry list \<Rightarrow> MemoryItemRepo \<times> decayEntry list \<times> int \<times> int" where
  "RearmFromRepo now items queue = rearm_loop now (ListWithDecay items) (items, queue, 0, 0)"

section \<open>The queue against a multiset of deadlines\<close>

lemma take_cut: "deadline.ordered queue \<Longrightarrow> take (cut_loop now queue) queue = filter (\<lambda>e. de_At e \<le> now) queue
    \<and> drop (cut_loop now queue) queue = filter (\<lambda>e. \<not> de_At e \<le> now) queue"
proof (induction queue)
  case (Cons e queue)
  have "filter (\<lambda>e. de_At e \<le> now) queue = [] \<and> filter (\<lambda>e. \<not> de_At e \<le> now) queue = queue" if "de_At e > now"
    using that Cons.prems by (auto simp: filter_empty_conv filter_id_conv due_before_def)
  with Cons show ?case by auto
qed simp

lemma Schedule_ordered: "deadline.ordered queue \<Longrightarrow> deadline.ordered (Schedule i r t queue)"
  by (simp add: Schedule_def deadline.ordered_SliceStable)

datatype decay_op = OpSchedule int int int | OpTick int

fun decay_run :: "decay_op \<Rightarrow> Decayer \<Rightarrow> Decayer" where
  "decay_run (OpSchedule i r t) d = d\<lparr>dc_queue := Schedule i r t (dc_queue d)\<rparr>"
| "decay_run (OpTick now) d = decay_Tick now d"

text \<open>The abstract queue: a bag of pending entries; a pulse takes out those due.\<close>

fun bag_run :: "decay_op \<Rightarrow> decayEntry multiset \<Rightarrow> decayEntry multiset" where
  "bag_run (OpSchedule i r t) M = (if i = 0 then M else add_mset \<lparr>de_ItemID = i, de_RoomID = r, de_At = t\<rparr> M)"
| "bag_run (OpTick now) M = filter_mset (\<lambda>e. \<not> de_At e \<le> now) M"

fun swept_by :: "decay_op \<Rightarrow> decayEntry multiset \<Rightarrow> decayEntry multiset" where
  "swept_by (OpSchedule i r t) M = {#}"
| "swept_by (OpTick now) M = filter_mset (\<lambda>e. de_At e \<le> now) M"

definition sweep_log :: "decayEntry list \<Rightarrow> decay_event list" where
  "sweep_log due = concat (map (\<lambda>e. (if de_RoomID e \<noteq> 0 then [CorpseCrumbles (de_RoomID e)] else [])
                              @ [CorpseDecayed (de_RoomID e) (de_ItemID e)]) due)"

lemma map_option_same: "map_option (\<lambda>x. x) d = d" "map_option id d = d"
  by (cases d; simp)+

lemma fold_sweep:
  "dc_queue (fold sweep_one due d) = dc_queue d"
  "dc_log (fold sweep_one due d) = dc_log d @ sweep_log due"
  "dc_items (fold sweep_one due d) =
     map_option (\<lambda>items. fold (\<lambda>e items. fst (item_Delete items (de_ItemID e))) due items) (dc_items d)"
  by (induction due arbitrary: d) (simp_all add: sweep_one_def sweep_log_def option.map_comp comp_def map_option_same)

lemma decay_step:
  assumes "deadline.ordered (dc_queue d)"
  shows "deadline.ordered (dc_queue (decay_run op d)) \<and> mset (dc_queue (decay_run op d)) = bag_run op (mset (dc_queue d))
    \<and> (\<exists>due. mset due = swept_by op (mset (dc_queue d)) \<and> deadline.ordered due
         \<and> dc_log (decay_run op d) = dc_log d @ sweep_log due
         \<and> dc_items (decay_run op d) =
             map_option (\<lambda>items. fold (\<lambda>e items. fst (item_Delete items (de_ItemID e))) due items) (dc_items d))"
proof (cases op)
  case (OpSchedule i r t)
  with assms show ?thesis
    by (auto simp: Schedule_ordered sweep_log_def map_option_same) (auto simp: Schedule_def)
next
  case (OpTick now)
  note t = take_cut [OF assms, of now]
  let ?due = "filter (\<lambda>e. de_At e \<le> now) (dc_queue d)"
  have r: "decay_run op d = fold sweep_one ?due (d\<lparr>dc_queue := filter (\<lambda>e. \<not> de_At e \<le> now) (dc_queue d)\<rparr>)"
    unfolding OpTick by (simp only: decay_run.simps decay_Tick_def popDue_def Let_def prod.case t)
  show ?thesis unfolding r fold_sweep
    using OpTick assms by (auto simp: sorted_wrt_filter intro!: exI [of _ ?due])
qed

text \<open>C14: the corpse queue is a bag of deadlines. Whatever corpses are scheduled and whenever the pulse
  fires, the queue stays sorted and holds exactly the pending entries; a pulse sweeps exactly the
  entries whose deadline is not after the reading, each once, in deadline order, announcing each and deleting
  each row.\<close>

theorem decay_refines:
  assumes "dc_queue d = []"
  shows "sorted_wrt (\<lambda>a b. de_At a \<le> de_At b) (dc_queue (fold decay_run ops d))
    \<and> mset (dc_queue (fold decay_run ops d)) = fold bag_run ops {#}
    \<and> (\<exists>due. mset due = filter_mset (\<lambda>e. de_At e \<le> now) (fold bag_run ops {#})
         \<and> sorted_wrt (\<lambda>a b. de_At a \<le> de_At b) due
         \<and> mset (dc_queue (decay_Tick now (fold decay_run ops d))) + mset due = fold bag_run ops {#}
         \<and> dc_log (decay_Tick now (fold decay_run ops d)) = dc_log (fold decay_run ops d) @ sweep_log due
         \<and> dc_items (decay_Tick now (fold decay_run ops d)) =
             map_option (fold (\<lambda>e items. fst (item_Delete items (de_ItemID e))) due) (dc_items (fold decay_run ops d)))"
proof -
  have o: "deadline.ordered q \<longleftrightarrow> sorted_wrt (\<lambda>a b. de_At a \<le> de_At b) q" for q
    by (rule arg_cong [of _ _ "\<lambda>R. sorted_wrt R q"]) (auto simp: due_before_def fun_eq_iff)
  have run: "deadline.ordered (dc_queue (fold decay_run ops d)) \<and> mset (dc_queue (fold decay_run ops d)) = fold bag_run ops {#}"
  proof (induction ops rule: rev_induct)
    case (snoc op ops)
    then show ?case using decay_step [of "fold decay_run ops d" op] by simp
  qed (simp add: assms)
  let ?d = "fold decay_run ops d"
  obtain due where due: "mset due = swept_by (OpTick now) (mset (dc_queue ?d))" "deadline.ordered due"
      "dc_log (decay_Tick now ?d) = dc_log ?d @ sweep_log due"
      "dc_items (decay_Tick now ?d) =
         map_option (fold (\<lambda>e items. fst (item_Delete items (de_ItemID e))) due) (dc_items ?d)"
      and rest: "mset (dc_queue (decay_Tick now ?d)) = filter_mset (\<lambda>e. \<not> de_At e \<le> now) (fold bag_run ops {#})"
    using decay_step [OF conjunct1 [OF run], of "OpTick now"] run by auto
  have "mset due = filter_mset (\<lambda>e. de_At e \<le> now) (fold bag_run ops {#})"
    using due(1) run by simp
  moreover have "mset (dc_queue (decay_Tick now ?d)) + mset due = fold bag_run ops {#}"
    unfolding rest calculation by (subst add.commute) (rule multiset_partition [symmetric])
  ultimately show ?thesis
    using run due(2-4) unfolding o by blast
qed

lemma decay_refines_witness:
  "mset (dc_queue (fold decay_run [OpSchedule 7 1 50, OpSchedule 8 2 20, OpTick 30] \<lparr>dc_items = None, dc_queue = [], dc_log = []\<rparr>))
   = {#\<lparr>de_ItemID = 7, de_RoomID = 1, de_At = 50\<rparr>#}"
  using decay_refines [of "\<lparr>dc_items = None, dc_queue = [], dc_log = []\<rparr>"
      "[OpSchedule 7 1 50, OpSchedule 8 2 20, OpTick 30]" 30] by simp

end
