(* ===== verification/CombatDeath.thy ===== *)
theory CombatDeath
  imports CombatFight CombatDecay ExitRepo
begin

text \<open>
  Death and what follows it: \<open>internal/combat/mob_death.go\<close>, \<open>character_death.go\<close> and \<open>external_damage.go\<close>, over the
  world a \<open>Manager\<close> writes to. The character and mob stores and the bus are wired, as \<open>combat.New\<close>
  requires; the item store, the template store, the decay queue and the flee mover (the exits it reads) are optional. The bus is a log of the published events. The clock
  is a list of readings, one consumed per \<open>m.now()\<close> and per trail stamp; the random source is the list of its draws. Every
  handler is sequential: what another goroutine does between two locks is not modelled. Failed writes only log.
\<close>

section \<open>Events\<close>

datatype combat_event =
    EvStarted int "ActorEntry list"
  | EvRound int int ActorRef
  | EvEnded int string
  | EvHit int ActorRef ActorRef int int bool bool AttackVariant bool
  | EvMiss int ActorRef ActorRef int int AttackVariant bool int bool
  | EvResolved int int ActorRef ActionKind
  | EvDeath int ActorRef ActorRef int int string string
  | EvXP CombatXPAwarded
  | EvDied int ActorRef ActorRef int int int
  | EvRespawned int int ActorRef
  | EvParry int ActorRef ActorRef int int
  | EvStance int ActorRef string ActorRef
  | EvDodged int ActorRef ActorRef int int
  | EvThrow int ActorRef ActorRef int string bool
  | EvFlee int ActorRef bool string int string
  | EvScriptDamage int ActorRef int string bool
  | EvScriptHealing int ActorRef int
  | EvAffectsExpired int int "(string \<times> string) list"
  | EvPlayerLeft int int int
  | EvPlayerEntered int int int

section \<open>The world and the wiring\<close>

record CombatWorld =
  cw_Chars :: MemoryCharacterRepo
  cw_Mobs :: MemoryMobInstanceRepo
  cw_Items :: "MemoryItemRepo option"
  cw_Decay :: "decayEntry list option"
  cw_Fights :: "(int \<times> Fight) list"
  cw_rng :: rng
  cw_fleeRng :: rng
  cw_clock :: "int list"
  cw_Events :: "combat_event list"

record CombatEnv =
  ce_Templates :: "(int \<Rightarrow> MobTemplate option) option"
  ce_Catalog :: "FeatCatalog option"
  ce_Group :: "(int \<Rightarrow> int \<Rightarrow> int list) option"
  ce_DropOnDeath :: bool
  ce_FleeExits :: "MemoryExitRepo option"

definition Publish :: "combat_event \<Rightarrow> CombatWorld \<Rightarrow> CombatWorld" where
  "Publish e w = w\<lparr>cw_Events := cw_Events w @ [e]\<rparr>"

definition combat_now :: "CombatWorld \<Rightarrow> int \<times> CombatWorld" where
  "combat_now w = (case cw_clock w of [] \<Rightarrow> (0, w) | [t] \<Rightarrow> (t, w) | t # ts \<Rightarrow> (t, w\<lparr>cw_clock := ts\<rparr>))"

text \<open>The critical section \<open>if f, ok := m.fights[roomID]; ok\<close>.\<close>

definition on_fight :: "int \<Rightarrow> (Fight \<Rightarrow> Fight) \<Rightarrow> CombatWorld \<Rightarrow> CombatWorld" where
  "on_fight roomID g w =
     (case map_of (cw_Fights w) roomID of None \<Rightarrow> w
      | Some f \<Rightarrow> w\<lparr>cw_Fights := map_put roomID (g f) (cw_Fights w)\<rparr>)"

abbreviation on_chars :: "(MemoryCharacterRepo \<Rightarrow> repo_write) \<Rightarrow> CombatWorld \<Rightarrow> CombatWorld" where
  "on_chars g w \<equiv> w\<lparr>cw_Chars := fst (g (cw_Chars w))\<rparr>"

abbreviation on_mobs :: "(MemoryMobInstanceRepo \<Rightarrow> mob_write) \<Rightarrow> CombatWorld \<Rightarrow> CombatWorld" where
  "on_mobs g w \<equiv> w\<lparr>cw_Mobs := fst (g (cw_Mobs w))\<rparr>"

abbreviation on_items :: "(MemoryItemRepo \<Rightarrow> item_write) \<Rightarrow> CombatWorld \<Rightarrow> CombatWorld" where
  "on_items g w \<equiv> w\<lparr>cw_Items := map_option (\<lambda>r. fst (g r)) (cw_Items w)\<rparr>"

definition mark_dead :: "ActorRef \<Rightarrow> Fight \<Rightarrow> Fight" where
  "mark_dead victim f = f\<lparr>ft_Dead := insert victim (ft_Dead f)\<rparr>"

definition markDeadAllRooms :: "ActorRef \<Rightarrow> CombatWorld \<Rightarrow> CombatWorld" where
  "markDeadAllRooms victim w = w\<lparr>cw_Fights := map (\<lambda>(r, f). (r, mark_dead victim f)) (cw_Fights w)\<rparr>"

text \<open>The tally snapshot of a room; a nil one is empty.\<close>

definition tally_snap :: "int \<Rightarrow> CombatWorld \<Rightarrow> tally" where
  "tally_snap roomID w = (case map_of (cw_Fights w) roomID of None \<Rightarrow> [] | Some f \<Rightarrow> ft_DamageTally f)"

section \<open>Corpses and coin piles\<close>

definition corpseDecayDuration :: int where "corpseDecayDuration = 300 * Second"

definition zero_Item :: Item where
  "zero_Item = \<lparr>it_ID = 0, it_ExternalID = [], it_Name = [], it_NameLower = [], it_ShortDesc = [], it_RoomID = 0,
     it_OwnerCharacterID = 0, it_ParentItemID = 0, it_Type = ItemTypeOther [], it_Weight = f_zero, it_Value = 0,
     it_Quality = QualityOther [], it_Flags = 0, it_Stats = NilStats, it_DecayExpiresAt = None\<rparr>"

definition zero_Equipment :: Equipment where
  "zero_Equipment = \<lparr>eq_Armor = 0, eq_Shield = 0, eq_PrimaryWield = 0, eq_OffHand = 0, eq_Outfit = 0, eq_Cloak = 0,
     eq_Backpack = 0, eq_HeldInHand = 0, eq_Mount = 0, eq_BeltPouches = [], eq_WornMisc = []\<rparr>"

definition FlagTradeGood :: "64 word" where "FlagTradeGood = push_bit 7 1"

text \<open>The container both kinds of corpse are created as, with its entry in the decay queue; id 0 is a failure.\<close>

definition corpse_item :: "string \<Rightarrow> string \<Rightarrow> int \<Rightarrow> int \<Rightarrow> Item" where
  "corpse_item ext name roomID deadline = zero_Item\<lparr>it_ExternalID := ext, it_Name := ''corpse of '' @ name,
     it_ShortDesc := ''The corpse of '' @ name @ '' lies here.'', it_RoomID := roomID, it_Type := ItemTypeContainer,
     it_Stats := StContainer \<lparr>ct_CapacityLbs = Flt 500 0, ct_CapacityCuFt = Flt 50 0, ct_LiquidPints = f_zero,
       ct_DepthCap = 0, ct_WeightMult = f_zero\<rparr>,
     it_DecayExpiresAt := Some deadline\<rparr>"

definition create_corpse :: "string \<Rightarrow> string \<Rightarrow> int \<Rightarrow> int \<Rightarrow> CombatWorld \<Rightarrow> CombatWorld \<times> int" where
  "create_corpse ext name roomID deadline w =
     (case cw_Items w of None \<Rightarrow> (w, 0)
      | Some items \<Rightarrow>
          (case item_Create items (corpse_item ext name roomID deadline) of
             (items1, Inl e) \<Rightarrow> (w\<lparr>cw_Items := Some items1\<rparr>, 0)
           | (items1, Inr created) \<Rightarrow>
               (w\<lparr>cw_Items := Some items1,
                  cw_Decay := map_option (Schedule (it_ID created) (it_RoomID created) deadline) (cw_Decay w)\<rparr>,
                it_ID created)))"

definition corpseExternalID :: "MobInstance \<Rightarrow> CombatWorld \<Rightarrow> string \<times> CombatWorld" where
  "corpseExternalID mob w =
     (let (now, w1) = combat_now w in (''corpse-'' @ show_int (mi_ID mob) @ ''-'' @ show_int now, w1))"

definition spawnCorpse :: "MobInstance \<Rightarrow> CombatWorld \<Rightarrow> CombatWorld \<times> int" where
  "spawnCorpse mob w =
     (if cw_Items w = None \<or> c_CurrentRoomID (mi_Core mob) = 0 then (w, 0)
      else let name = (if c_Name (mi_Core mob) = [] then ''creature'' else c_Name (mi_Core mob));
               (now, w1) = combat_now w;
               (ext, w2) = corpseExternalID mob w1
           in create_corpse ext name (c_CurrentRoomID (mi_Core mob)) (now + corpseDecayDuration) w2)"

definition spawnPlayerCorpse :: "Character \<Rightarrow> CombatWorld \<Rightarrow> CombatWorld \<times> int" where
  "spawnPlayerCorpse ch w =
     (let name = (if ch_Name ch = [] then ''an unknown soul'' else ch_Name ch);
          (now, w1) = combat_now w
      in create_corpse (''pcorpse-'' @ show_int (ch_ID ch) @ ''-'' @ show_int now) name (ch_CurrentRoomID ch)
           (now + corpseDecayDuration) w1)"

definition spawnCoinPile :: "int \<Rightarrow> Amount \<Rightarrow> CombatWorld \<Rightarrow> CombatWorld \<times> int" where
  "spawnCoinPile corpseID amount w =
     (case cw_Items w of None \<Rightarrow> (w, 0)
      | Some items \<Rightarrow>
          if corpseID = 0 \<or> amount \<le> 0 then (w, 0)
          else let (now, w1) = combat_now w;
                   pile = zero_Item\<lparr>it_ExternalID := ''coin-pile-'' @ show_int corpseID @ ''-'' @ show_int now,
                     it_Name := ''a small pile of coins'', it_ShortDesc := ''A small pile of coins lies here.'',
                     it_ParentItemID := corpseID, it_Type := ItemTypeTradeGood, it_Value := amount,
                     it_Flags := FlagTradeGood\<rparr>
               in case item_Create items pile of
                    (items1, Inl e) \<Rightarrow> (w1\<lparr>cw_Items := Some items1\<rparr>, 0)
                  | (items1, Inr created) \<Rightarrow> (w1\<lparr>cw_Items := Some items1\<rparr>, it_ID created))"

definition transferLootIntoCorpse :: "MobInstance \<Rightarrow> int \<Rightarrow> CombatWorld \<Rightarrow> CombatWorld" where
  "transferLootIntoCorpse mob corpseID w =
     (if corpseID = 0 \<or> cw_Items w = None then w
      else fold (\<lambda>itemID w. if itemID = 0 then w else on_items (\<lambda>r. item_SetParent r itemID corpseID) w)
             (mi_Inventory mob) w)"

definition dropGoldPile :: "int \<Rightarrow> MobTemplate \<Rightarrow> CombatWorld \<Rightarrow> CombatWorld" where
  "dropGoldPile corpseID tmpl w =
     (if corpseID = 0 \<or> mt_GoldDice tmpl = [] then w
      else case rollDice (cw_rng w) (mt_GoldDice tmpl) of
             (None, r1) \<Rightarrow> w\<lparr>cw_rng := r1\<rparr>
           | (Some amt, r1) \<Rightarrow>
               if amt \<le> 0 then w\<lparr>cw_rng := r1\<rparr> else fst (spawnCoinPile corpseID amt (w\<lparr>cw_rng := r1\<rparr>)))"

section \<open>The death of a mob\<close>

text \<open>\<open>creditXPShares\<close> on the world: the writes and the published awards.\<close>

definition award_shares ::
    "CombatEnv \<Rightarrow> int \<Rightarrow> ActorRef \<Rightarrow> ActorRef \<Rightarrow> tally \<Rightarrow> int \<Rightarrow> CombatWorld \<Rightarrow> CombatWorld" where
  "award_shares env roomID killer victim t totalXP w =
     (let (chars, awards) = creditXPShares (ce_Group env) roomID killer victim t totalXP (cw_Chars w)
      in w\<lparr>cw_Chars := chars, cw_Events := cw_Events w @ map EvXP awards\<rparr>)"

definition awardKillXP ::
    "CombatEnv \<Rightarrow> int \<Rightarrow> ActorRef \<Rightarrow> ActorRef \<Rightarrow> tally \<Rightarrow> MobTemplate \<Rightarrow> CombatWorld \<Rightarrow> CombatWorld" where
  "awardKillXP env roomID killer victim t tmpl =
     award_shares env roomID killer victim t (xpValueForTemplate (mt_XPValue tmpl) (mt_ChallengeCode tmpl))"

definition template_of :: "CombatEnv \<Rightarrow> MobInstance \<Rightarrow> MobTemplate" where
  "template_of env mob =
     (case ce_Templates env of None \<Rightarrow> zero_MobTemplate
      | Some lookup \<Rightarrow> if mi_TemplateID mob = 0 then zero_MobTemplate
                      else case lookup (mi_TemplateID mob) of None \<Rightarrow> zero_MobTemplate | Some t \<Rightarrow> t)"

definition despawn :: "int \<Rightarrow> CombatWorld \<Rightarrow> CombatWorld" where
  "despawn i w = on_mobs (\<lambda>r. mob_Delete r i) (on_mobs (\<lambda>r. mob_UpdateRoom r i 0 0) w)"

definition handleMobDeath :: "CombatEnv \<Rightarrow> ActorRef \<Rightarrow> ActorRef \<Rightarrow> CombatWorld \<Rightarrow> CombatWorld" where
  "handleMobDeath env killer victim w =
     (case mob_GetByID (cw_Mobs w) (rf_ID victim) of
        Inl e \<Rightarrow> markDeadAllRooms victim w
      | Inr mob \<Rightarrow>
          let tmpl = template_of env mob;
              (w1, corpseID) = spawnCorpse mob w;
              w2 = dropGoldPile corpseID tmpl (transferLootIntoCorpse mob corpseID w1);
              roomID = c_CurrentRoomID (mi_Core mob);
              w3 = on_fight roomID (mark_dead victim) (despawn (rf_ID victim) w2);
              w4 = Publish (EvDeath roomID victim killer corpseID (mt_ID tmpl) (mt_ExternalID tmpl)
                     (c_Name (mi_Core mob))) w3
          in awardKillXP env roomID killer victim (tally_snap roomID w3) tmpl w4)"

section \<open>Drop on death\<close>

definition transferCharacterInventory :: "int \<Rightarrow> int \<Rightarrow> CombatWorld \<Rightarrow> CombatWorld" where
  "transferCharacterInventory charID corpseID w =
     (case cw_Items w of None \<Rightarrow> w
      | Some items \<Rightarrow>
          (case owned_transitive items charID of None \<Rightarrow> w
           | Some rows \<Rightarrow>
               fold (\<lambda>it w. if it_ParentItemID it \<noteq> 0 then w
                            else on_items (\<lambda>r. TransferOwnerToContainer r (it_ID it) charID corpseID) w) rows w))"

definition equippedItemIDs :: "Equipment \<Rightarrow> int list" where
  "equippedItemIDs eq = [eq_Armor eq, eq_Shield eq, eq_PrimaryWield eq, eq_OffHand eq, eq_Outfit eq, eq_Cloak eq,
     eq_Backpack eq, eq_HeldInHand eq, eq_Mount eq] @ eq_BeltPouches eq @ eq_WornMisc eq"

definition transferCharacterEquipment :: "int \<Rightarrow> Equipment \<Rightarrow> int \<Rightarrow> CombatWorld \<Rightarrow> CombatWorld" where
  "transferCharacterEquipment charID eq corpseID w =
     on_chars (\<lambda>r. repo_RecordEquipment r charID zero_Equipment)
       (fold (\<lambda>slotID w. if slotID = 0 then w
                         else on_items (\<lambda>r. TransferOwnerToContainer r slotID charID corpseID) w)
          (equippedItemIDs eq) w)"

text \<open>The second write runs on the row read again, when the version of the first was stale.\<close>

definition dropCarriedCoin :: "Character \<Rightarrow> int \<Rightarrow> CombatWorld \<Rightarrow> CombatWorld" where
  "dropCarriedCoin ch corpseID w =
     (if ch_Coin ch \<le> 0 then w
      else let (chars1, err) = repo_RecordCoin (cw_Chars w) (ch_ID ch) 0 (ch_BankBalance ch) (ch_CoinVersion ch);
               w1 = w\<lparr>cw_Chars := chars1\<rparr>
           in if err = Some ErrCoinConflict then
                (case repo_GetByID chars1 (ch_ID ch) of Inl e \<Rightarrow> w1
                 | Inr fresh \<Rightarrow>
                     if ch_Coin fresh \<le> 0 then w1
                     else let (chars2, err2) =
                                repo_RecordCoin chars1 (ch_ID ch) 0 (ch_BankBalance fresh) (ch_CoinVersion fresh);
                              w2 = w1\<lparr>cw_Chars := chars2\<rparr>
                          in if err2 \<noteq> None then w2 else fst (spawnCoinPile corpseID (ch_Coin fresh) w2))
              else if err \<noteq> None then w1
              else fst (spawnCoinPile corpseID (ch_Coin ch) w1))"

definition dropCharacterLoot :: "Character \<Rightarrow> CombatWorld \<Rightarrow> CombatWorld \<times> int \<times> bool" where
  "dropCharacterLoot ch w =
     (if cw_Items w = None \<or> ch_CurrentRoomID ch = 0 then (w, 0, False)
      else let (w1, corpseID) = spawnPlayerCorpse ch w
           in if corpseID = 0 then (w1, 0, False)
              else (dropCarriedCoin ch corpseID
                      (transferCharacterEquipment (ch_ID ch) (ch_Equipment ch) corpseID
                        (transferCharacterInventory (ch_ID ch) corpseID w1)), corpseID, True))"

section \<open>The death of a character\<close>

definition respawnConditionMask :: Condition where
  "respawnConditionMask = or CondDying CondUnconscious"

text \<open>The writes of the respawn: the debt, the vitals and the room.\<close>

definition respawn :: "Character \<Rightarrow> int \<Rightarrow> int \<Rightarrow> CombatWorld \<Rightarrow> CombatWorld" where
  "respawn ch boundRoomID debtDelta w =
     (let w1 = (if debtDelta > 0
                then on_chars (\<lambda>r. repo_RecordXPDebt r (ch_ID ch) (i64 (ch_XPDebt ch + debtDelta))) w else w);
          w2 = on_chars (\<lambda>r. repo_RecordCore r (ch_ID ch) (c_HPMax (ch_Core ch)) 0
                 (and (c_Conditions (ch_Core ch)) (not respawnConditionMask)) 0) w1
      in if ch_CurrentRoomID ch \<noteq> boundRoomID then on_chars (\<lambda>r. repo_RecordRoom r (ch_ID ch) boundRoomID) w2
         else w2)"

text \<open>The experience for a kill by another character.\<close>

definition award_pvp ::
    "CombatEnv \<Rightarrow> int \<Rightarrow> ActorRef \<Rightarrow> ActorRef \<Rightarrow> Character \<Rightarrow> tally \<Rightarrow> CombatWorld \<Rightarrow> CombatWorld" where
  "award_pvp env roomID killer victim ch t w =
     (if rf_Kind killer \<noteq> ActorKindCharacter \<or> t = [] then w
      else case repo_GetByID (cw_Chars w) (rf_ID killer) of Inl e \<Rightarrow> w
        | Inr attacker \<Rightarrow>
            let totalXP = pvpXPForKill (LevelForXP (ch_XP attacker)) (LevelForXP (ch_XP ch))
            in if totalXP \<le> 0 then w else award_shares env roomID killer victim (map_del victim t) totalXP w)"

definition bound_room :: "Character \<Rightarrow> int" where
  "bound_room ch = (if ch_BoundRoomID ch = 0 then ch_CurrentRoomID ch else ch_BoundRoomID ch)"

definition handleCharacterDeath :: "CombatEnv \<Rightarrow> ActorRef \<Rightarrow> ActorRef \<Rightarrow> CombatWorld \<Rightarrow> CombatWorld" where
  "handleCharacterDeath env killer victim w =
     (case repo_GetByID (cw_Chars w) (rf_ID victim) of
        Inl e \<Rightarrow> markDeadAllRooms victim w
      | Inr ch \<Rightarrow>
          let deathRoomID = ch_CurrentRoomID ch;
              boundRoomID = bound_room ch;
              (w1, corpseID, dropped) = (if ce_DropOnDeath env \<and> cw_Items w \<noteq> None then dropCharacterLoot ch w
                                         else (w, 0, False));
              debtDelta = (if dropped then 0 else DeathDebt (ch_XP ch) (LevelForXP (ch_XP ch)));
              w2 = on_fight deathRoomID (mark_dead victim) (respawn ch boundRoomID debtDelta w1);
              w3 = Publish (EvRespawned deathRoomID boundRoomID victim)
                     (Publish (EvDied deathRoomID victim killer boundRoomID debtDelta corpseID) w2)
          in award_pvp env deathRoomID killer victim ch (tally_snap deathRoomID w2) w3)"

definition HandleAffectDeath :: "CombatEnv \<Rightarrow> int \<Rightarrow> CombatWorld \<Rightarrow> CombatWorld" where
  "HandleAffectDeath env characterID w = handleCharacterDeath env zero_Ref (char_ref characterID) w"

section \<open>Damage and healing from scripts\<close>

datatype external_error = BadAmount | BadTarget | CharLookup repo_error | MobLookup mob_error
  | CharWrite repo_error | MobWrite mob_error

type_synonym external = "CombatWorld \<times> external_error option"

definition ApplyDamageExternal ::
    "CombatEnv \<Rightarrow> ActorRef \<Rightarrow> ActorRef \<Rightarrow> int \<Rightarrow> string \<Rightarrow> CombatWorld \<Rightarrow> external" where
  "ApplyDamageExternal env killer target amount source w =
     (if amount \<le> 0 then (w, Some BadAmount)
      else if rf_ID target = 0 then (w, Some BadTarget)
      else case rf_Kind target of
        ActorKindUnknown \<Rightarrow> (w, Some BadTarget)
      | ActorKindCharacter \<Rightarrow>
          (case repo_GetByID (cw_Chars w) (rf_ID target) of Inl e \<Rightarrow> (w, Some (CharLookup e))
           | Inr ch \<Rightarrow>
               let core = ch_Core ch; hp = i32 (c_HPCurrent core - amount); newHP = (if hp < 0 then 0 else hp)
               in if c_HPCurrent core \<le> 0 then (w, None)
                  else case repo_RecordCore (cw_Chars w) (rf_ID target) newHP (c_Subdual core) (c_Conditions core)
                              (c_Position core) of
                    (chars, Some e) \<Rightarrow> (w\<lparr>cw_Chars := chars\<rparr>, Some (CharWrite e))
                  | (chars, None) \<Rightarrow>
                      let w1 = Publish (EvScriptDamage (ch_CurrentRoomID ch) target amount source (newHP = 0))
                                 (w\<lparr>cw_Chars := chars\<rparr>)
                      in (if newHP = 0 then handleCharacterDeath env killer target w1 else w1, None))
      | ActorKindMob \<Rightarrow>
          (case mob_GetByID (cw_Mobs w) (rf_ID target) of Inl e \<Rightarrow> (w, Some (MobLookup e))
           | Inr mob \<Rightarrow>
               let core = mi_Core mob; hp = i32 (c_HPCurrent core - amount); newHP = (if hp < 0 then 0 else hp)
               in if c_HPCurrent core \<le> 0 then (w, None)
                  else case mob_UpdateLive (cw_Mobs w) (rf_ID target) newHP (c_Subdual core) (c_Conditions core)
                              (c_Position core) of
                    (mobs, Some e) \<Rightarrow> (w\<lparr>cw_Mobs := mobs\<rparr>, Some (MobWrite e))
                  | (mobs, None) \<Rightarrow>
                      let w1 = Publish (EvScriptDamage (c_CurrentRoomID core) target amount source (newHP = 0))
                                 (w\<lparr>cw_Mobs := mobs\<rparr>)
                      in (if newHP = 0 then handleMobDeath env killer target w1 else w1, None)))"

text \<open>The new hit points and the reported amount.\<close>

definition healed :: "Core \<Rightarrow> int \<Rightarrow> int \<times> int" where
  "healed core amount =
     (let newHP = i32 (c_HPCurrent core + amount)
      in if newHP > c_HPMax core then (c_HPMax core, i32 (c_HPMax core - c_HPCurrent core)) else (newHP, amount))"

definition ApplyHealing :: "ActorRef \<Rightarrow> int \<Rightarrow> CombatWorld \<Rightarrow> external" where
  "ApplyHealing target amount w =
     (if amount \<le> 0 then (w, Some BadAmount)
      else if rf_ID target = 0 then (w, Some BadTarget)
      else case rf_Kind target of
        ActorKindUnknown \<Rightarrow> (w, Some BadTarget)
      | ActorKindCharacter \<Rightarrow>
          (case repo_GetByID (cw_Chars w) (rf_ID target) of Inl e \<Rightarrow> (w, Some (CharLookup e))
           | Inr ch \<Rightarrow>
               let core = ch_Core ch; (newHP, delta) = healed core amount;
                   (chars, err) = (if delta > 0 then repo_RecordCore (cw_Chars w) (rf_ID target) newHP (c_Subdual core)
                                     (c_Conditions core) (c_Position core) else (cw_Chars w, None))
               in if c_HPCurrent core \<le> 0 then (w, None)
                  else case err of Some e \<Rightarrow> (w\<lparr>cw_Chars := chars\<rparr>, Some (CharWrite e))
                    | None \<Rightarrow> (Publish (EvScriptHealing (ch_CurrentRoomID ch) target delta) (w\<lparr>cw_Chars := chars\<rparr>), None))
      | ActorKindMob \<Rightarrow>
          (case mob_GetByID (cw_Mobs w) (rf_ID target) of Inl e \<Rightarrow> (w, Some (MobLookup e))
           | Inr mob \<Rightarrow>
               let core = mi_Core mob; (newHP, delta) = healed core amount;
                   (mobs, err) = (if delta > 0 then mob_UpdateLive (cw_Mobs w) (rf_ID target) newHP (c_Subdual core)
                                    (c_Conditions core) (c_Position core) else (cw_Mobs w, None))
               in if c_HPCurrent core \<le> 0 then (w, None)
                  else case err of Some e \<Rightarrow> (w\<lparr>cw_Mobs := mobs\<rparr>, Some (MobWrite e))
                    | None \<Rightarrow> (Publish (EvScriptHealing (c_CurrentRoomID core) target delta) (w\<lparr>cw_Mobs := mobs\<rparr>), None)))"

section \<open>What the writes change\<close>

lemma fold_on_items:
  "fold (\<lambda>x w. if P x then w else on_items (g x) w) xs w =
     w\<lparr>cw_Items := map_option (fold (\<lambda>x r. if P x then r else fst (g x r)) xs) (cw_Items w)\<rparr>"
  by (induction xs arbitrary: w) (auto simp: option.map_comp comp_def map_option_same)

lemma combat_now_frame [simp]:
  "cw_Chars (snd (combat_now w)) = cw_Chars w" "cw_Mobs (snd (combat_now w)) = cw_Mobs w"
  "cw_Items (snd (combat_now w)) = cw_Items w" "cw_Fights (snd (combat_now w)) = cw_Fights w"
  "cw_Events (snd (combat_now w)) = cw_Events w" "cw_Decay (snd (combat_now w)) = cw_Decay w"
  by (auto simp: combat_now_def split: list.split)

text \<open>The parts of the world a step leaves alone.\<close>

definition item_step :: "CombatWorld \<Rightarrow> CombatWorld \<Rightarrow> bool" where
  "item_step w w' \<longleftrightarrow> cw_Chars w' = cw_Chars w \<and> cw_Mobs w' = cw_Mobs w \<and> cw_Fights w' = cw_Fights w
     \<and> cw_Events w' = cw_Events w \<and> (cw_Items w' = None \<longleftrightarrow> cw_Items w = None)"

lemma item_step_trans: "item_step w w1 \<Longrightarrow> item_step w1 w2 \<Longrightarrow> item_step w w2"
  by (simp add: item_step_def)

lemma item_step_corpse: "item_step w (fst (create_corpse ext name roomID deadline w))"
  by (simp add: item_step_def create_corpse_def Let_def split: option.split prod.split sum.split)

lemma item_step_spawn: "item_step w (fst (spawnCorpse mob w))" "item_step w (fst (spawnPlayerCorpse ch w))"
  using item_step_corpse [of "snd (combat_now (snd (combat_now w)))"] item_step_corpse [of "snd (combat_now w)"]
  by (simp_all add: item_step_def spawnCorpse_def spawnPlayerCorpse_def corpseExternalID_def Let_def split_beta)

lemma item_step_pile: "item_step w (fst (spawnCoinPile corpseID amount w))"
  by (simp add: item_step_def spawnCoinPile_def Let_def split_beta split: option.split sum.split)

lemma item_step_gold: "item_step w (dropGoldPile corpseID tmpl w)"
proof -
  have "item_step w (fst (spawnCoinPile corpseID amt (w\<lparr>cw_rng := r\<rparr>)))" for amt r
    using item_step_pile [of "w\<lparr>cw_rng := r\<rparr>" corpseID amt] by (simp add: item_step_def)
  then show ?thesis by (simp add: dropGoldPile_def split: prod.split option.split) (simp add: item_step_def)
qed

lemma item_step_loot: "item_step w (transferLootIntoCorpse mob corpseID w)"
  by (simp add: transferLootIntoCorpse_def fold_on_items item_step_def)

lemma item_step_inventory: "item_step w (transferCharacterInventory charID corpseID w)"
  by (simp add: transferCharacterInventory_def fold_on_items item_step_def split: option.split)

lemma keeps_row [simp]:
  "keeps_identity (\<lambda>c. Inr (c\<lparr>ch_Equipment := eq\<rparr>))" "keeps_identity (\<lambda>c. Inr (c\<lparr>ch_XPDebt := d\<rparr>))"
  "keeps_identity (\<lambda>c. Inr (c\<lparr>ch_CurrentRoomID := room\<rparr>))" "keeps_identity (coin_write coin bank v)"
  "keeps_identity (\<lambda>c. Inr (c\<lparr>ch_Core := (ch_Core c)\<lparr>c_HPCurrent := hp, c_Subdual := sd, c_Conditions := cd, c_Position := ps\<rparr>\<rparr>))"
  by (auto simp: keeps_identity_def coin_write_def)

lemmas char_writes = repo_RecordEquipment_def repo_RecordXPDebt_def repo_RecordRoom_def repo_RecordCore_def
  repo_RecordCoin_def

lemma get_id: "repo_GetByID r i = Inr c \<Longrightarrow> ch_ID c = i"
  using get_row_SomeD by (simp add: GetByID_Inr)

section \<open>Dropping everything\<close>

definition stripped :: "Character \<Rightarrow> Character" where
  "stripped ch = (if 0 < ch_Coin ch then ch\<lparr>ch_Coin := 0, ch_CoinVersion := i64 (ch_CoinVersion ch + 1)\<rparr> else ch)
     \<lparr>ch_Equipment := zero_Equipment\<rparr>"

text \<open>Everything but the two stores a drop writes.\<close>

definition drop_step :: "CombatWorld \<Rightarrow> CombatWorld \<Rightarrow> bool" where
  "drop_step w w' \<longleftrightarrow> cw_Mobs w' = cw_Mobs w \<and> cw_Fights w' = cw_Fights w \<and> cw_Events w' = cw_Events w"

lemma pile_chars: "cw_Chars (fst (spawnCoinPile i a w)) = cw_Chars w"
  using item_step_pile [of w i a] by (simp add: item_step_def)

lemma drop_coin_current:
  assumes "repo_GetByID (cw_Chars w) (ch_ID ch) = Inr c" "ch_CoinVersion c = ch_CoinVersion ch"
  shows "cw_Chars (dropCarriedCoin ch corpseID w) =
    (if 0 < ch_Coin ch
     then fst (record_at (cw_Chars w) (ch_ID ch) (coin_write 0 (ch_BankBalance ch) (ch_CoinVersion ch)))
     else cw_Chars w)"
proof -
  have f: "coin_write 0 (ch_BankBalance ch) (ch_CoinVersion ch) c =
      Inr (c\<lparr>ch_Coin := 0, ch_BankBalance := ch_BankBalance ch, ch_CoinVersion := i64 (ch_CoinVersion ch + 1)\<rparr>)"
    using assms(2) by (simp add: coin_write_def)
  have "snd (record_at (cw_Chars w) (ch_ID ch) (coin_write 0 (ch_BankBalance ch) (ch_CoinVersion ch))) = None"
    using char_store.accepted [of _ _ _ "coin_write 0 (ch_BankBalance ch) (ch_CoinVersion ch)", OF assms(1) f] by simp
  then show ?thesis
    by (simp add: dropCarriedCoin_def repo_RecordCoin_def Let_def split_beta pile_chars)
qed

lemma drop_step_coin: "drop_step w (dropCarriedCoin ch corpseID w)"
proof -
  have "drop_step w (fst (spawnCoinPile corpseID a (w\<lparr>cw_Chars := chars\<rparr>)))" for a chars
    using item_step_pile [of "w\<lparr>cw_Chars := chars\<rparr>" corpseID a] by (simp add: item_step_def drop_step_def)
  then show ?thesis
    by (simp add: dropCarriedCoin_def Let_def split_beta split: sum.split) (simp add: drop_step_def)
qed

lemma drop_loot_spec:
  assumes "repo_GetByID (cw_Chars w) i = Inr ch" "dropCharacterLoot ch w = (w', corpseID, dropped)"
  shows "drop_step w w' \<and> repo_GetByID (cw_Chars w') j =
    (if dropped \<and> j = i then Inr (stripped ch) else repo_GetByID (cw_Chars w) j)"
proof (cases "cw_Items w = None \<or> ch_CurrentRoomID ch = 0")
  case True
  with assms(2) show ?thesis by (auto simp: dropCharacterLoot_def drop_step_def)
next
  case False
  obtain w1 k where p: "spawnPlayerCorpse ch w = (w1, k)" by (cases "spawnPlayerCorpse ch w")
  have s1: "item_step w w1" using item_step_spawn(2) [of w ch] by (simp add: p)
  have i: "ch_ID ch = i" using get_id [OF assms(1)] .
  show ?thesis
  proof (cases "k = 0")
    case True
    then show ?thesis using assms(2) False p s1 by (auto simp: dropCharacterLoot_def drop_step_def item_step_def)
  next
    case k: False
    define w2 where "w2 = transferCharacterInventory (ch_ID ch) k w1"
    define w3 where "w3 = transferCharacterEquipment (ch_ID ch) (ch_Equipment ch) k w2"
    have s2: "item_step w w2" unfolding w2_def by (rule item_step_trans [OF s1 item_step_inventory])
    have w': "w' = dropCarriedCoin ch k w3" "dropped"
      using assms(2) False p k by (auto simp: dropCharacterLoot_def w2_def w3_def)
    have c3: "cw_Chars w3 = fst (record_at (cw_Chars w) i (\<lambda>c. Inr (c\<lparr>ch_Equipment := zero_Equipment\<rparr>)))"
      using s2 by (simp add: w3_def transferCharacterEquipment_def fold_on_items item_step_def char_writes i)
    have m3: "drop_step w w3"
      using s2 by (simp add: w3_def transferCharacterEquipment_def fold_on_items item_step_def drop_step_def)
    have g3: "repo_GetByID (cw_Chars w3) j = (if j = i then Inr (ch\<lparr>ch_Equipment := zero_Equipment\<rparr>)
        else repo_GetByID (cw_Chars w) j)" for j
      unfolding c3 by (subst char_store.get_upd) (simp_all add: assms(1))
    have c': "cw_Chars w' = (if 0 < ch_Coin ch
        then fst (record_at (cw_Chars w3) i (coin_write 0 (ch_BankBalance ch) (ch_CoinVersion ch)))
        else cw_Chars w3)"
      unfolding w'(1) using drop_coin_current [of w3 ch "ch\<lparr>ch_Equipment := zero_Equipment\<rparr>" k] g3 [of i] by (simp add: i)
    have "repo_GetByID (cw_Chars w') j = (if j = i then Inr (stripped ch) else repo_GetByID (cw_Chars w) j)"
      unfolding c' by (simp add: char_store.get_upd g3 coin_write_def stripped_def)
    moreover have "drop_step w w'"
      using m3 drop_step_coin [of w3 ch k] unfolding w'(1) drop_step_def by simp
    ultimately show ?thesis using w'(2) by simp
  qed
qed

section \<open>Respawning\<close>

definition respawned :: "int \<Rightarrow> int \<Rightarrow> Character \<Rightarrow> Character \<Rightarrow> Character" where
  "respawned boundRoomID debtDelta ch c =
     c\<lparr>ch_XPDebt := (if debtDelta > 0 then i64 (ch_XPDebt ch + debtDelta) else ch_XPDebt c),
       ch_Core := (ch_Core c)\<lparr>c_HPCurrent := c_HPMax (ch_Core ch), c_Subdual := 0,
         c_Conditions := and (c_Conditions (ch_Core ch)) (not respawnConditionMask), c_Position := 0\<rparr>,
       ch_CurrentRoomID := (if ch_CurrentRoomID ch \<noteq> boundRoomID then boundRoomID else ch_CurrentRoomID c)\<rparr>"

lemma respawn_row:
  assumes "repo_GetByID (cw_Chars w) (ch_ID ch) = Inr c"
  shows "repo_GetByID (cw_Chars (respawn ch boundRoomID debtDelta w)) j =
    (if j = ch_ID ch then Inr (respawned boundRoomID debtDelta ch c) else repo_GetByID (cw_Chars w) j)"
  by (simp add: respawn_def Let_def char_writes char_store.get_upd assms respawned_def)

lemma respawn_frame: "drop_step w (respawn ch boundRoomID debtDelta w)"
  by (simp add: respawn_def Let_def drop_step_def)

lemma on_fight_frame [simp]:
  "cw_Chars (on_fight roomID g w) = cw_Chars w" "cw_Mobs (on_fight roomID g w) = cw_Mobs w"
  "cw_Items (on_fight roomID g w) = cw_Items w" "cw_Events (on_fight roomID g w) = cw_Events w"
  by (simp_all add: on_fight_def split: option.split)

lemma Publish_frame [simp]:
  "cw_Chars (Publish e w) = cw_Chars w" "cw_Mobs (Publish e w) = cw_Mobs w" "cw_Items (Publish e w) = cw_Items w"
  "cw_Fights (Publish e w) = cw_Fights w" "cw_Events (Publish e w) = cw_Events w @ [e]" "cw_Decay (Publish e w) = cw_Decay w"
  by (simp_all add: Publish_def)

lemma on_fight_map: "map_of (cw_Fights (on_fight roomID g w)) r =
    (if r = roomID then map_option g (map_of (cw_Fights w) r) else map_of (cw_Fights w) r)"
  by (simp add: on_fight_def map_of_put split: option.split)

lemma bit_mask: "bit (and c (not respawnConditionMask)) n \<longleftrightarrow> bit c n \<and> n \<noteq> 8 \<and> n \<noteq> 25" for c :: Condition
proof -
  have "bit respawnConditionMask n \<longleftrightarrow> n = 8 \<or> n = 25"
    unfolding respawnConditionMask_def bit_or_iff bit_push_bit_iff bit_1_iff by auto
  then show ?thesis unfolding bit_and_iff bit_not_iff using bit_imp_le_length [of c n] by auto
qed

lemma LevelForXP_range: "1 \<le> LevelForXP xp \<and> LevelForXP xp \<le> 20"
  using level_walk_le [of MaxLevel xp] level_walk_ge [of 1 MaxLevel xp] by (simp add: LevelForXP_def MaxLevel_def)

lemma DeathDebt_range:
  assumes "0 \<le> xp" "1 \<le> level \<and> level \<le> 20" "xp \<le> MaxInt64"
  shows "0 \<le> DeathDebt xp level \<and> DeathDebt xp level \<le> xp"
proof -
  have d: "DeathDebt xp level = max 0 ((xp - XPForLevel level) div 10)" "0 \<le> DeathDebt xp level"
    using DeathDebt_bounds [of level xp] assms by simp_all
  have "0 \<le> level * (level - 1)" using assms(2) by simp
  then have "(xp - XPForLevel level) div 10 \<le> xp"
    using XPForLevel_pos [of level] assms(1,2) by linarith
  then show ?thesis using d assms(1) by simp
qed

lemma award_pvp_fights [simp]: "cw_Fights (award_pvp env roomID killer victim ch t w) = cw_Fights w"
  by (simp add: award_pvp_def award_shares_def Let_def split_beta split: sum.split)

text \<open>Whether the drop fires.\<close>

definition drops :: "CombatEnv \<Rightarrow> Character \<Rightarrow> CombatWorld \<Rightarrow> bool" where
  "drops env ch w \<longleftrightarrow> ce_DropOnDeath env \<and> cw_Items w \<noteq> None \<and> snd (snd (dropCharacterLoot ch w))"

lemma char_ref_ID [simp]: "rf_ID (char_ref i) = i" "rf_Kind (char_ref i) = ActorKindCharacter"
  by (simp_all add: char_ref_def)

text \<open>The death up to the award: the rows, the fights and the events.\<close>

lemma death_until_award:
  fixes env :: CombatEnv and killer :: ActorRef
  assumes "repo_GetByID (cw_Chars w) i = Inr ch"
  defines "debt \<equiv> (if drops env ch w then 0 else DeathDebt (ch_XP ch) (LevelForXP (ch_XP ch)))"
  shows "\<exists>u. handleCharacterDeath env killer (char_ref i) w =
        award_pvp env (ch_CurrentRoomID ch) killer (char_ref i) ch (tally_snap (ch_CurrentRoomID ch) w) u
    \<and> (\<forall>j. repo_GetByID (cw_Chars u) j =
          (if j = i then Inr (respawned (bound_room ch) debt ch (if drops env ch w then stripped ch else ch))
           else repo_GetByID (cw_Chars w) j))
    \<and> (\<forall>r. map_of (cw_Fights u) r = (if r = ch_CurrentRoomID ch then map_option (mark_dead (char_ref i)) (map_of (cw_Fights w) r)
          else map_of (cw_Fights w) r))
    \<and> cw_Mobs u = cw_Mobs w
    \<and> (\<exists>corpseID. cw_Events u = cw_Events w @
         [EvDied (ch_CurrentRoomID ch) (char_ref i) killer (bound_room ch) debt corpseID,
          EvRespawned (ch_CurrentRoomID ch) (bound_room ch) (char_ref i)])"
proof -
  obtain w1 k dropped where p: "(if ce_DropOnDeath env \<and> cw_Items w \<noteq> None then dropCharacterLoot ch w else (w, 0, False))
      = (w1, k, dropped)" by (metis prod_cases3)
  have d: "dropped = drops env ch w" using p by (auto simp: drops_def split: if_splits)
  have i: "ch_ID ch = i" using get_id [OF assms(1)] .
  have g1: "repo_GetByID (cw_Chars w1) j = (if drops env ch w \<and> j = i then Inr (stripped ch)
      else repo_GetByID (cw_Chars w) j)" for j
    using p drop_loot_spec [OF assms(1), of w1 k dropped] by (auto simp: d split: if_splits)
  have s1: "drop_step w w1"
    using p drop_loot_spec [OF assms(1), of w1 k dropped] by (auto simp: drop_step_def split: if_splits)
  have g2: "repo_GetByID (cw_Chars w1) (ch_ID ch) = Inr (if drops env ch w then stripped ch else ch)"
    using g1 [of i] assms(1) i by simp
  define u1 where "u1 = on_fight (ch_CurrentRoomID ch) (mark_dead (char_ref i)) (respawn ch (bound_room ch) debt w1)"
  define u where "u = Publish (EvRespawned (ch_CurrentRoomID ch) (bound_room ch) (char_ref i))
      (Publish (EvDied (ch_CurrentRoomID ch) (char_ref i) killer (bound_room ch) debt k) u1)"
  have s2: "drop_step w (respawn ch (bound_room ch) debt w1)"
    using s1 respawn_frame [of w1 ch "bound_room ch" debt] by (simp add: drop_step_def)
  have f: "map_of (cw_Fights u1) r = (if r = ch_CurrentRoomID ch then map_option (mark_dead (char_ref i)) (map_of (cw_Fights w) r)
      else map_of (cw_Fights w) r)" for r
    using s2 by (simp add: u1_def on_fight_map drop_step_def)
  have t: "tally_snap (ch_CurrentRoomID ch) u1 = tally_snap (ch_CurrentRoomID ch) w"
    by (simp add: tally_snap_def f mark_dead_def split: option.split)
  have "handleCharacterDeath env killer (char_ref i) w =
      award_pvp env (ch_CurrentRoomID ch) killer (char_ref i) ch (tally_snap (ch_CurrentRoomID ch) u1) u"
    unfolding u_def u1_def handleCharacterDeath_def char_ref_ID assms(1) sum.case Let_def p prod.case debt_def d [symmetric] by simp
  moreover have "\<forall>j. repo_GetByID (cw_Chars u) j =
      (if j = i then Inr (respawned (bound_room ch) debt ch (if drops env ch w then stripped ch else ch))
       else repo_GetByID (cw_Chars w) j)"
    by (simp add: u_def u1_def respawn_row [OF g2] g1 i)
  moreover have "cw_Mobs u = cw_Mobs w" "cw_Events u = cw_Events w @
      [EvDied (ch_CurrentRoomID ch) (char_ref i) killer (bound_room ch) debt k,
       EvRespawned (ch_CurrentRoomID ch) (bound_room ch) (char_ref i)]"
    using s2 by (simp_all add: u_def u1_def drop_step_def)
  moreover have "\<forall>r. map_of (cw_Fights u) r = (if r = ch_CurrentRoomID ch
      then map_option (mark_dead (char_ref i)) (map_of (cw_Fights w) r) else map_of (cw_Fights w) r)"
    using f by (simp add: u_def)
  ultimately show ?thesis unfolding t by blast
qed

text \<open>What the death of \<open>ch\<close> earns a character: nothing unless another character killed, who is at most five levels above;
  then fifty points for each level of the victim are shared out by the damage dealt in the room, the victim's
  own left out, and the parties of the contributors.\<close>

definition kill_award :: "CombatEnv \<Rightarrow> ActorRef \<Rightarrow> int \<Rightarrow> Character \<Rightarrow> CombatWorld \<Rightarrow> int \<Rightarrow> int" where
  "kill_award env killer i ch w j =
     (case repo_GetByID (cw_Chars w) (rf_ID killer) of
        Inl e \<Rightarrow> 0
      | Inr slayer \<Rightarrow>
          if rf_Kind killer \<noteq> ActorKindCharacter \<or> tally_snap (ch_CurrentRoomID ch) w = []
             \<or> LevelForXP (ch_XP slayer) - LevelForXP (ch_XP ch) > 5 then 0
          else map_get (allocateXP (expandTallyByGroup (map_del (char_ref i) (tally_snap (ch_CurrentRoomID ch) w))
                                      (ch_CurrentRoomID ch) (ce_Group env))
                          (50 * LevelForXP (ch_XP ch)) killer) (char_ref j) 0)"

lemma pvp_value:
  "pvpXPForKill (LevelForXP a) (LevelForXP b) = (if LevelForXP a - LevelForXP b > 5 then 0 else 50 * LevelForXP b)"
proof -
  have "i64 (LevelForXP a - LevelForXP b) = LevelForXP a - LevelForXP b" "i64 (50 * LevelForXP b) = 50 * LevelForXP b"
    using LevelForXP_range [of a] LevelForXP_range [of b] by (intro i64_id; linarith)+
  then show ?thesis using LevelForXP_range [of b]
    by (simp add: pvpXPForKill_def PvPLevelDiffCap_def PvPXPPerVictimLevel_def)
qed

lemma award_pays:
  assumes "\<And>j c. repo_GetByID (cw_Chars u) j = Inr c \<Longrightarrow> 0 < kill_award env killer i ch w j \<Longrightarrow> xp_room (kill_award env killer i ch w j) c"
    and "\<And>j. map_sum (\<lambda>e. ()) ch_XP (repo_GetByID (cw_Chars u) j) = map_sum (\<lambda>e. ()) ch_XP (repo_GetByID (cw_Chars w) j)"
  defines "v \<equiv> award_pvp env (ch_CurrentRoomID ch) killer (char_ref i) ch (tally_snap (ch_CurrentRoomID ch) w) u"
  shows "case repo_GetByID (cw_Chars u) j of
      Inl e \<Rightarrow> repo_GetByID (cw_Chars v) j = Inl e
    | Inr c \<Rightarrow> \<exists>c'. repo_GetByID (cw_Chars v) j = Inr c' \<and> paid_out (kill_award env killer i ch w j) c c'"
proof -
  let ?t = "tally_snap (ch_CurrentRoomID ch) w"
  have idle: ?thesis if "cw_Chars v = cw_Chars u" "kill_award env killer i ch w j = 0"
    using that by (simp add: paid_out_def split: sum.split)
  show ?thesis
  proof (cases "repo_GetByID (cw_Chars w) (rf_ID killer)")
    case (Inl e)
    then obtain e' where "repo_GetByID (cw_Chars u) (rf_ID killer) = Inl e'"
      using assms(2) [of "rf_ID killer"] by (cases "repo_GetByID (cw_Chars u) (rf_ID killer)") auto
    then show ?thesis by (intro idle) (simp_all add: v_def award_pvp_def kill_award_def Inl)
  next
    case (Inr slayer)
    then obtain s where s: "repo_GetByID (cw_Chars u) (rf_ID killer) = Inr s" "ch_XP s = ch_XP slayer"
      using assms(2) [of "rf_ID killer"] by (cases "repo_GetByID (cw_Chars u) (rf_ID killer)") auto
    show ?thesis
    proof (cases "rf_Kind killer \<noteq> ActorKindCharacter \<or> ?t = [] \<or> LevelForXP (ch_XP slayer) - LevelForXP (ch_XP ch) > 5")
      case True
      then show ?thesis by (intro idle) (auto simp: v_def award_pvp_def kill_award_def Inr s pvp_value Let_def)
    next
      case False
      let ?T = "50 * LevelForXP (ch_XP ch)"
      let ?aw = "allocateXP (expandTallyByGroup (map_del (char_ref i) ?t) (ch_CurrentRoomID ch) (ce_Group env)) ?T killer"
      have T: "\<not> ?T \<le> 0" using LevelForXP_range [of "ch_XP ch"] by simp
      have v: "cw_Chars v = fst (credit_loop (ch_CurrentRoomID ch) (char_ref i) ?aw (cw_Chars u))"
        using False T unfolding v_def award_pvp_def
        by (simp add: s pvp_value award_shares_def creditXPShares_def split_beta Let_def)
      have a: "kill_award env killer i ch w j = map_get ?aw (char_ref j) 0" for j
        using False by (simp add: kill_award_def Inr)
      show ?thesis unfolding v a
        by (rule credit_loop_pays [OF allocateXP_distinct]) (use assms(1) [of j] in \<open>auto simp: a\<close>)
    qed
  qed
qed

text \<open>The row of the victim before anything is paid.\<close>

lemma respawned_whole:
  fixes env :: CombatEnv and w :: CombatWorld
  assumes "0 \<le> ch_XPDebt ch" "0 \<le> ch_XP ch" "ch_XPDebt ch + ch_XP ch \<le> MaxInt64"
  defines "d \<equiv> respawned (bound_room ch) (if drops env ch w then 0 else DeathDebt (ch_XP ch) (LevelForXP (ch_XP ch))) ch
      (if drops env ch w then stripped ch else ch)"
  shows "0 \<le> ch_XPDebt d" "ch_XPDebt d \<le> MaxInt64"
    "c_HPCurrent (ch_Core d) = c_HPMax (ch_Core ch) \<and> c_Subdual (ch_Core d) = 0 \<and> c_Position (ch_Core d) = 0
      \<and> (\<forall>n. bit (c_Conditions (ch_Core d)) n \<longleftrightarrow> bit (c_Conditions (ch_Core ch)) n \<and> n \<noteq> 8 \<and> n \<noteq> 25)
      \<and> ch_CurrentRoomID d = (if ch_BoundRoomID ch = 0 then ch_CurrentRoomID ch else ch_BoundRoomID ch)
      \<and> ch_XP d = ch_XP ch \<and> ch_BankBalance d = ch_BankBalance ch
      \<and> (if drops env ch w then ch_XPDebt d = ch_XPDebt ch \<and> ch_Equipment d = zero_Equipment \<and> ch_Coin d = min 0 (ch_Coin ch)
         else ch_XPDebt d = ch_XPDebt ch + DeathDebt (ch_XP ch) (LevelForXP (ch_XP ch))
           \<and> ch_Equipment d = ch_Equipment ch \<and> ch_Coin d = ch_Coin ch)"
proof -
  have x: "ch_XP ch \<le> MaxInt64" using assms(1,3) by linarith
  note dd = DeathDebt_range [OF assms(2) LevelForXP_range [of "ch_XP ch"] x]
  have w: "i64 (ch_XPDebt ch + DeathDebt (ch_XP ch) (LevelForXP (ch_XP ch)))
      = ch_XPDebt ch + DeathDebt (ch_XP ch) (LevelForXP (ch_XP ch))"
    using dd assms(1,3) by (intro i64_id) linarith+
  show "0 \<le> ch_XPDebt d" "ch_XPDebt d \<le> MaxInt64"
    using w dd assms(1-3) by (auto simp: d_def respawned_def stripped_def)
  show "c_HPCurrent (ch_Core d) = c_HPMax (ch_Core ch) \<and> c_Subdual (ch_Core d) = 0 \<and> c_Position (ch_Core d) = 0
      \<and> (\<forall>n. bit (c_Conditions (ch_Core d)) n \<longleftrightarrow> bit (c_Conditions (ch_Core ch)) n \<and> n \<noteq> 8 \<and> n \<noteq> 25)
      \<and> ch_CurrentRoomID d = (if ch_BoundRoomID ch = 0 then ch_CurrentRoomID ch else ch_BoundRoomID ch)
      \<and> ch_XP d = ch_XP ch \<and> ch_BankBalance d = ch_BankBalance ch
      \<and> (if drops env ch w then ch_XPDebt d = ch_XPDebt ch \<and> ch_Equipment d = zero_Equipment \<and> ch_Coin d = min 0 (ch_Coin ch)
         else ch_XPDebt d = ch_XPDebt ch + DeathDebt (ch_XP ch) (LevelForXP (ch_XP ch))
           \<and> ch_Equipment d = ch_Equipment ch \<and> ch_Coin d = ch_Coin ch)"
    using dd by (auto simp: d_def respawned_def bound_room_def bit_mask stripped_def w min_def)
qed

text \<open>C15: A character who dies, whoever killed, comes back whole: it stands in the bound room (in the room of death when none
  is bound) with full hit points, no subdual damage, the dying and unconscious conditions cleared and every other
  condition kept; the debt grows by the death debt, or, when the gear and coin were dropped, by nothing, and then
  the slots and the purse are empty and the bank is kept. Experience is never lost. Beyond that every character, the victim
  included, is paid exactly its award for the kill, debt first, and nothing else changes in any row: the awards are
  all zero unless a character killed who is at most five levels above the victim. Every fight in the room of death
  will prune the victim.\<close>

theorem death_respawns:
  assumes "repo_GetByID (cw_Chars w) i = Inr ch"
    and "0 \<le> ch_XPDebt ch" "0 \<le> ch_XP ch" "ch_XPDebt ch + ch_XP ch \<le> MaxInt64"
    and "\<forall>j c. repo_GetByID (cw_Chars w) j = Inr c \<and> 0 < kill_award env killer i ch w j \<longrightarrow> xp_room (kill_award env killer i ch w j) c"
  shows "(\<exists>d e. repo_GetByID (cw_Chars (handleCharacterDeath env killer (char_ref i) w)) i = Inr e
      \<and> paid_out (kill_award env killer i ch w i) d e
      \<and> c_HPCurrent (ch_Core d) = c_HPMax (ch_Core ch) \<and> c_Subdual (ch_Core d) = 0 \<and> c_Position (ch_Core d) = 0
      \<and> (\<forall>n. bit (c_Conditions (ch_Core d)) n \<longleftrightarrow> bit (c_Conditions (ch_Core ch)) n \<and> n \<noteq> 8 \<and> n \<noteq> 25)
      \<and> ch_CurrentRoomID d = (if ch_BoundRoomID ch = 0 then ch_CurrentRoomID ch else ch_BoundRoomID ch)
      \<and> ch_XP d = ch_XP ch \<and> ch_BankBalance d = ch_BankBalance ch
      \<and> (if drops env ch w then ch_XPDebt d = ch_XPDebt ch \<and> ch_Equipment d = zero_Equipment \<and> ch_Coin d = min 0 (ch_Coin ch)
         else ch_XPDebt d = ch_XPDebt ch + DeathDebt (ch_XP ch) (LevelForXP (ch_XP ch))
           \<and> ch_Equipment d = ch_Equipment ch \<and> ch_Coin d = ch_Coin ch))
    \<and> (\<forall>j. j \<noteq> i \<longrightarrow> (case repo_GetByID (cw_Chars w) j of
          Inl err \<Rightarrow> repo_GetByID (cw_Chars (handleCharacterDeath env killer (char_ref i) w)) j = Inl err
        | Inr c \<Rightarrow> \<exists>c'. repo_GetByID (cw_Chars (handleCharacterDeath env killer (char_ref i) w)) j = Inr c'
            \<and> paid_out (kill_award env killer i ch w j) c c'))
    \<and> (\<forall>f. map_of (cw_Fights (handleCharacterDeath env killer (char_ref i) w)) (ch_CurrentRoomID ch) = Some f \<longrightarrow>
         char_ref i \<in> ft_Dead f)"
proof -
  define d where "d = respawned (bound_room ch) (if drops env ch w then 0 else DeathDebt (ch_XP ch) (LevelForXP (ch_XP ch))) ch
      (if drops env ch w then stripped ch else ch)"
  define v where "v = handleCharacterDeath env killer (char_ref i) w"
  note whole = respawned_whole [OF assms(2-4), of env w, folded d_def]
  obtain u where u: "v = award_pvp env (ch_CurrentRoomID ch) killer (char_ref i) ch (tally_snap (ch_CurrentRoomID ch) w) u"
    and row: "\<And>j. repo_GetByID (cw_Chars u) j = (if j = i then Inr d else repo_GetByID (cw_Chars w) j)"
    and fights: "\<And>r. map_of (cw_Fights u) r = (if r = ch_CurrentRoomID ch
          then map_option (mark_dead (char_ref i)) (map_of (cw_Fights w) r) else map_of (cw_Fights w) r)"
    using death_until_award [OF assms(1), of env killer] unfolding d_def v_def by blast
  have xp: "ch_XP d = ch_XP ch" using whole(3) by blast
  have "xp_room (kill_award env killer i ch w j) c"
    if "repo_GetByID (cw_Chars u) j = Inr c" "0 < kill_award env killer i ch w j" for j c
  proof (cases "j = i")
    case True
    then have "xp_room (kill_award env killer i ch w i) ch" using that assms(1,5) by blast
    then show ?thesis using that True xp whole(1,2) by (auto simp: row xp_room_def)
  qed (use that assms(5) in \<open>simp add: row\<close>)
  moreover have "map_sum (\<lambda>e. ()) ch_XP (repo_GetByID (cw_Chars u) j) = map_sum (\<lambda>e. ()) ch_XP (repo_GetByID (cw_Chars w) j)" for j
    using assms(1) xp by (simp add: row)
  ultimately have pays: "case repo_GetByID (cw_Chars u) j of Inl e \<Rightarrow> repo_GetByID (cw_Chars v) j = Inl e
    | Inr c \<Rightarrow> \<exists>c'. repo_GetByID (cw_Chars v) j = Inr c' \<and> paid_out (kill_award env killer i ch w j) c c'" for j
    unfolding u by (rule award_pays)
  obtain e where "repo_GetByID (cw_Chars v) i = Inr e" "paid_out (kill_award env killer i ch w i) d e"
    using pays [of i] by (auto simp: row)
  moreover have "map_of (cw_Fights v) (ch_CurrentRoomID ch) = Some f \<longrightarrow> char_ref i \<in> ft_Dead f" for f
    unfolding u by (auto simp: award_pvp_fights fights mark_dead_def)
  moreover have "case repo_GetByID (cw_Chars w) j of Inl err \<Rightarrow> repo_GetByID (cw_Chars v) j = Inl err
      | Inr c \<Rightarrow> \<exists>c'. repo_GetByID (cw_Chars v) j = Inr c' \<and> paid_out (kill_award env killer i ch w j) c c'" if "j \<noteq> i" for j
    using pays [of j] that by (simp add: row)
  ultimately show ?thesis using whole(3) unfolding v_def by blast
qed

section \<open>Where the loot goes\<close>

text \<open>A fresh corpse: its row, its place and its entry in the decay queue.\<close>

lemma create_corpse_row:
  assumes "cw_Items w = Some items" "items_ok items" "ir_maxID items < MaxInt64" "roomID \<noteq> 0"
    and "ext \<noteq> []" "ext \<notin> ir_byExt items"
  defines "k \<equiv> ir_maxID items + 1"
  shows "\<exists>items1 c. create_corpse ext name roomID deadline w =
      (w\<lparr>cw_Items := Some items1, cw_Decay := map_option (Schedule k roomID deadline) (cw_Decay w)\<rparr>, k)
    \<and> items_ok items1 \<and> ir_maxID items1 = k \<and> ir_byExt items1 = insert ext (ir_byExt items)
    \<and> it_Type c = ItemTypeContainer \<and> it_RoomID c = roomID \<and> it_OwnerCharacterID c = 0 \<and> it_ParentItemID c = 0
    \<and> it_DecayExpiresAt c = Some deadline
    \<and> (\<forall>j. item_GetByID items1 j = (if j = k then Inr c else item_GetByID items j))"
proof -
  let ?c = "corpse_item ext name roomID deadline"
  obtain nm sd st where e: "?c = zero_Item\<lparr>it_ExternalID := ext, it_Name := nm, it_ShortDesc := sd, it_RoomID := roomID,
      it_Type := ItemTypeContainer, it_Stats := StContainer st, it_DecayExpiresAt := Some deadline\<rparr>"
    unfolding corpse_item_def by blast
  obtain items1 c where c: "item_Create items ?c = (items1, Inr c)"
    and p: "ir_byExt items1 = insert ext (ir_byExt items)" "it_Type c = ItemTypeContainer" "it_RoomID c = roomID"
      "it_OwnerCharacterID c = 0" "it_ParentItemID c = 0" "it_DecayExpiresAt c = Some deadline"
    using assms(5,6) unfolding e by (auto simp: item_Create_def insertLocked_def zero_Item_def Let_def)
  have z: "it_ID ?c = 0" "one_place ?c" unfolding e by (simp_all add: zero_Item_def one_place_def)
  have ok: "items_ok items1" using item_Create_ok [OF assms(2) z assms(3)] unfolding c by simp
  note row = item_Create_row [OF assms(2) z(1) assms(3) c, folded k_def]
  then show ?thesis
    using c ok p by (auto simp: create_corpse_def assms(1) Let_def intro!: exI [of _ items1] exI [of _ c])
qed

text \<open>Moving into the corpse, on the rows.\<close>

definition looted :: "int \<Rightarrow> int \<Rightarrow> Item \<Rightarrow> Item" where
  "looted charID corpseID i = (if it_OwnerCharacterID i = charID \<and> it_ParentItemID i = 0 then at_place i 0 0 corpseID else i)"

lemma fold_transfer:
  assumes "charID \<noteq> 0" "corpseID \<noteq> 0"
  shows "item_GetByID (fold (\<lambda>k r. fst (TransferOwnerToContainer r k charID corpseID)) ks r) j =
    (case item_GetByID r j of Inl e \<Rightarrow> Inl e
     | Inr i \<Rightarrow> if j \<in> set ks \<and> j \<noteq> corpseID \<and> it_RoomID i = 0 \<and> it_OwnerCharacterID i = charID \<and> it_ParentItemID i = 0
                then Inr (at_place i 0 0 corpseID) else Inr i)"
proof -
  have e: "fold (\<lambda>k r. fst (TransferOwnerToContainer r k charID corpseID)) ks r =
      fold (\<lambda>k r. fst (item_at r k (move_from 0 charID 0 0 0 corpseID))) (filter (\<lambda>k. k \<noteq> corpseID) ks) r"
    by (induction ks arbitrary: r) (use assms in \<open>simp_all add: TransferOwnerToContainer_def\<close>)
  have "item_GetByID (fold (\<lambda>k r. fst (item_at r k (move_from 0 charID 0 0 0 corpseID))) ks' r) j =
      (case item_GetByID r j of Inl e \<Rightarrow> Inl e
       | Inr c \<Rightarrow> if j \<in> set ks' then case move_from 0 charID 0 0 0 corpseID c of Inl e \<Rightarrow> Inr c | Inr d \<Rightarrow> Inr d
                  else Inr c)" for ks'
    by (rule item_store.get_fold_upd [OF move_stable])
      (use assms(2) in \<open>auto simp: move_from_def at_place_def split: if_splits\<close>)
  then show ?thesis unfolding e by (auto simp: move_from_def split: sum.split)
qed

lemma fold_skip: "fold (\<lambda>x r. if P x then r else h (g x) r) xs r = fold h (map g (filter (\<lambda>x. \<not> P x) xs)) r"
  by (induction xs arbitrary: r) simp_all

lemma transfers_keep:
  "items_ok r \<Longrightarrow> items_ok (fold (\<lambda>k r. fst (TransferOwnerToContainer r k charID corpseID)) ks r)
    \<and> ir_maxID (fold (\<lambda>k r. fst (TransferOwnerToContainer r k charID corpseID)) ks r) = ir_maxID r
    \<and> ir_byExt (fold (\<lambda>k r. fst (TransferOwnerToContainer r k charID corpseID)) ks r) = ir_byExt r"
proof (induction ks arbitrary: r)
  case (Cons k ks)
  have "items_ok (fst (TransferOwnerToContainer r k charID corpseID))"
    "ir_maxID (fst (TransferOwnerToContainer r k charID corpseID)) = ir_maxID r"
    "ir_byExt (fst (TransferOwnerToContainer r k charID corpseID)) = ir_byExt r"
    using Cons.prems by (simp_all add: TransferOwnerToContainer_def item_at_good good_updates)
  with Cons.IH [of "fst (TransferOwnerToContainer r k charID corpseID)"] show ?case by simp
qed simp

lemma transfers_row:
  assumes "cw_Items w = Some items" "items_ok items" "charID \<noteq> 0" "corpseID \<noteq> 0"
    "item_GetByID items corpseID = Inr corpse" "it_OwnerCharacterID corpse = 0"
  shows "\<exists>items1. cw_Items (transferCharacterEquipment charID eq corpseID (transferCharacterInventory charID corpseID w)) = Some items1
    \<and> items_ok items1 \<and> ir_maxID items1 = ir_maxID items \<and> ir_byExt items1 = ir_byExt items
    \<and> (\<forall>j. item_GetByID items1 j = map_sum id (looted charID corpseID) (item_GetByID items j))"
proof -
  have dis: "distinct (map it_ID (ir_items items))" using assms(2) by (simp add: items_ok_def)
  obtain rows where o: "owned_transitive items charID = Some rows" "\<And>i. i \<in> set rows \<longleftrightarrow> owned (ir_items items) charID i"
    using owned_transitive_result [OF dis assms(3)] by blast
  define ks where "ks = map it_ID (filter (\<lambda>i. it_ParentItemID i = 0) rows)"
  define es where "es = filter (\<lambda>k. k \<noteq> 0) (equippedItemIDs eq)"
  let ?tr = "\<lambda>k r. fst (TransferOwnerToContainer r k charID corpseID)"
  have "cw_Items (transferCharacterEquipment charID eq corpseID (transferCharacterInventory charID corpseID w)) =
      Some (fold ?tr (ks @ es) items)"
    using fold_skip [of "\<lambda>it. it_ParentItemID it \<noteq> 0" ?tr it_ID rows items]
      fold_skip [of "\<lambda>k. k = 0" ?tr "\<lambda>k. k" "equippedItemIDs eq"]
    by (simp add: transferCharacterEquipment_def transferCharacterInventory_def assms(1) o(1) fold_on_items ks_def es_def)
  moreover have "item_GetByID (fold ?tr (ks @ es) items) j = map_sum id (looted charID corpseID) (item_GetByID items j)" for j
  proof (cases "item_GetByID items j")
    case (Inr i)
    then have i: "it_ID i = j" "i \<in> set (ir_items items)" using find_item_SomeD by (auto simp: item_Get_Inr)
    have "it_RoomID i = 0 \<and> j \<in> set ks \<and> j \<noteq> corpseID" if "it_OwnerCharacterID i = charID" "it_ParentItemID i = 0"
    proof -
      have "one_place i" using i(2) assms(2) by (auto simp: items_ok_def)
      then have "it_RoomID i = 0" using that assms(3) by (auto simp: one_place_def split: if_splits)
      moreover have "i \<in> set rows" using o(2) owned.top [OF i(2) that] by blast
      moreover have "j \<noteq> corpseID" using that assms(3,5,6) Inr by auto
      ultimately show ?thesis using i(1) that(2) by (auto simp: ks_def)
    qed
    then show ?thesis by (auto simp: fold_transfer [OF assms(3,4)] Inr looted_def) (simp_all add: at_place_def)
  qed (simp add: fold_transfer [OF assms(3,4)])
  moreover note transfers_keep [OF assms(2), of charID corpseID "ks @ es"]
  ultimately show ?thesis by blast
qed

abbreviation pile_ext :: "int \<Rightarrow> int \<Rightarrow> string" where
  "pile_ext corpseID now \<equiv> ''coin-pile-'' @ show_int corpseID @ ''-'' @ show_int now"

abbreviation pcorpse_ext :: "int \<Rightarrow> int \<Rightarrow> string" where
  "pcorpse_ext charID now \<equiv> ''pcorpse-'' @ show_int charID @ ''-'' @ show_int now"

lemma coin_pile_row:
  assumes "cw_Items w = Some items" "items_ok items" "ir_maxID items < MaxInt64" "corpseID \<noteq> 0" "0 < amount"
    and "pile_ext corpseID (fst (combat_now w)) \<notin> ir_byExt items"
  shows "\<exists>items1 c. fst (spawnCoinPile corpseID amount w) = (snd (combat_now w))\<lparr>cw_Items := Some items1\<rparr>
    \<and> it_Value c = amount \<and> it_ParentItemID c = corpseID \<and> it_RoomID c = 0 \<and> it_OwnerCharacterID c = 0
    \<and> (\<forall>j. item_GetByID items1 j = (if j = ir_maxID items + 1 then Inr c else item_GetByID items j))"
proof -
  obtain now w1 where t: "combat_now w = (now, w1)" by (cases "combat_now w")
  define ext where "ext = pile_ext corpseID now"
  have x: "ext \<noteq> []" "ext \<notin> ir_byExt items" using assms(6) by (simp_all add: ext_def t)
  obtain nm sd where e: "zero_Item\<lparr>it_ExternalID := ext,
      it_Name := ''a small pile of coins'', it_ShortDesc := ''A small pile of coins lies here.'',
      it_ParentItemID := corpseID, it_Type := ItemTypeTradeGood, it_Value := amount, it_Flags := FlagTradeGood\<rparr> =
      zero_Item\<lparr>it_ExternalID := ext, it_Name := nm, it_ShortDesc := sd,
      it_ParentItemID := corpseID, it_Type := ItemTypeTradeGood, it_Value := amount, it_Flags := FlagTradeGood\<rparr>" (is "_ = ?c")
    by blast
  obtain items1 c where c: "item_Create items ?c = (items1, Inr c)"
    and p: "it_Value c = amount" "it_ParentItemID c = corpseID" "it_RoomID c = 0" "it_OwnerCharacterID c = 0"
    using x by (auto simp: item_Create_def insertLocked_def zero_Item_def Let_def)
  have z: "it_ID ?c = 0" by (simp add: zero_Item_def)
  have "fst (spawnCoinPile corpseID amount w) = w1\<lparr>cw_Items := Some items1\<rparr>"
    unfolding spawnCoinPile_def assms(1) option.case t Let_def prod.case ext_def [symmetric] e c
    using assms(4,5) by simp
  with item_Create_row [OF assms(2) z assms(3) c] p show ?thesis by (auto simp: t)
qed

text \<open>C16: The purse survives a stale snapshot. \<open>dropCarriedCoin\<close> runs on a snapshot of the row that another writer
  may have overtaken; with versions that identify the purse, either nothing changes, or the stored purse is
  emptied, the bank kept, and a pile worth exactly the stored coin lies in the corpse. No coin is lost and
  none is made.\<close>

theorem drop_conserves_coin:
  assumes "repo_GetByID (cw_Chars w) (ch_ID ch) = Inr c"
    and "ch_CoinVersion ch = ch_CoinVersion c \<Longrightarrow> ch_Coin ch = ch_Coin c \<and> ch_BankBalance ch = ch_BankBalance c"
    and "cw_Items w = Some items" "items_ok items" "ir_maxID items < MaxInt64" "corpseID \<noteq> 0"
    and "pile_ext corpseID (fst (combat_now w)) \<notin> ir_byExt items"
  defines "w' \<equiv> dropCarriedCoin ch corpseID w"
  shows "w' = w \<or>
    (\<exists>d items1 pile. repo_GetByID (cw_Chars w') (ch_ID ch) = Inr d \<and> ch_Coin d = 0 \<and> ch_BankBalance d = ch_BankBalance c
      \<and> cw_Items w' = Some items1 \<and> it_Value pile = ch_Coin c \<and> it_ParentItemID pile = corpseID
      \<and> (\<forall>j. item_GetByID items1 j = (if j = ir_maxID items + 1 then Inr pile else item_GetByID items j)))"
proof -
  let ?i = "ch_ID ch"
  let ?emptying = "\<lambda>b v. record_at (cw_Chars w) ?i (coin_write 0 b v)"
  define emptied where "emptied = (\<lambda>b v. w\<lparr>cw_Chars := fst (?emptying b v)\<rparr>)"
  have acc: "snd (?emptying b (ch_CoinVersion c)) = None"
    "repo_GetByID (fst (?emptying b (ch_CoinVersion c))) ?i =
       Inr (c\<lparr>ch_Coin := 0, ch_BankBalance := b, ch_CoinVersion := i64 (ch_CoinVersion c + 1)\<rparr>)" for b
    using char_store.accepted [OF assms(1), of "coin_write 0 b (ch_CoinVersion c)"] by (auto simp: coin_write_def)
  have pile: "\<exists>d items1 pile. repo_GetByID (cw_Chars x) ?i = Inr d \<and> ch_Coin d = 0 \<and> ch_BankBalance d = ch_BankBalance c
      \<and> cw_Items x = Some items1 \<and> it_Value pile = ch_Coin c \<and> it_ParentItemID pile = corpseID
      \<and> (\<forall>j. item_GetByID items1 j = (if j = ir_maxID items + 1 then Inr pile else item_GetByID items j))"
    if "x = fst (spawnCoinPile corpseID (ch_Coin c) (emptied (ch_BankBalance c) (ch_CoinVersion c)))" "0 < ch_Coin c" for x
  proof -
    have n: "fst (combat_now (emptied b v)) = fst (combat_now w)" "cw_Items (emptied b v) = Some items" for b v
      using assms(3) by (simp_all add: emptied_def combat_now_def split: list.split)
    let ?e = "emptied (ch_BankBalance c) (ch_CoinVersion c)"
    note x0 = that(1) and pos = that(2)
    obtain items1 pile where x: "x = (snd (combat_now ?e))\<lparr>cw_Items := Some items1\<rparr>"
      and p: "it_Value pile = ch_Coin c" "it_ParentItemID pile = corpseID"
        "\<forall>j. item_GetByID items1 j = (if j = ir_maxID items + 1 then Inr pile else item_GetByID items j)"
      using coin_pile_row [OF n(2) assms(4-6) pos, of "ch_BankBalance c" "ch_CoinVersion c"] assms(7)
      unfolding x0 n(1) by blast
    have "repo_GetByID (cw_Chars x) ?i = Inr (c\<lparr>ch_Coin := 0, ch_BankBalance := ch_BankBalance c,
        ch_CoinVersion := i64 (ch_CoinVersion c + 1)\<rparr>)" "cw_Items x = Some items1"
      using acc(2) [of "ch_BankBalance c"] by (simp_all add: x emptied_def)
    with p show ?thesis by (intro exI conjI) (assumption | simp)+
  qed
  show ?thesis
  proof (cases "ch_Coin ch \<le> 0")
    case True
    then show ?thesis by (simp add: w'_def dropCarriedCoin_def)
  next
    case False
    show ?thesis
    proof (cases "ch_CoinVersion ch = ch_CoinVersion c")
      case True
      then have "w' = fst (spawnCoinPile corpseID (ch_Coin c) (emptied (ch_BankBalance c) (ch_CoinVersion c)))"
        using False acc(1) assms(2) by (simp add: w'_def dropCarriedCoin_def repo_RecordCoin_def Let_def split_beta emptied_def)
      with pile [OF this] False assms(2) True show ?thesis by simp
    next
      case stale: False
      then have r: "?emptying (ch_BankBalance ch) (ch_CoinVersion ch) = (cw_Chars w, Some ErrCoinConflict)"
        using char_store.refused [OF assms(1)] by (simp add: coin_write_def)
      have "w' = (if ch_Coin c \<le> 0 then w
          else fst (spawnCoinPile corpseID (ch_Coin c) (emptied (ch_BankBalance c) (ch_CoinVersion c))))"
        using False r acc(1) assms(1)
        by (simp add: w'_def dropCarriedCoin_def repo_RecordCoin_def Let_def split_beta emptied_def)
      with pile show ?thesis by (cases "ch_Coin c \<le> 0") auto
    qed
  qed
qed

lemma drop_coin_decay: "cw_Decay (dropCarriedCoin ch corpseID w) = cw_Decay w"
proof -
  have "cw_Decay (fst (spawnCoinPile corpseID a w)) = cw_Decay w" for a w
    by (simp add: spawnCoinPile_def Let_def split_beta split: option.split sum.split)
  then show ?thesis by (simp add: dropCarriedCoin_def Let_def split_beta split: sum.split)
qed

lemma drop_coin_items:
  assumes "cw_Items w = Some items" "items_ok items" "ir_maxID items < MaxInt64" "corpseID \<noteq> 0"
    and "pile_ext corpseID (fst (combat_now w)) \<notin> ir_byExt items"
    and "repo_GetByID (cw_Chars w) (ch_ID ch) = Inr c" "ch_CoinVersion c = ch_CoinVersion ch"
  shows "\<exists>items1. cw_Items (dropCarriedCoin ch corpseID w) = Some items1
    \<and> (\<forall>j. j \<noteq> ir_maxID items + 1 \<longrightarrow> item_GetByID items1 j = item_GetByID items j)
    \<and> (0 < ch_Coin ch \<longrightarrow> (\<exists>pile. item_GetByID items1 (ir_maxID items + 1) = Inr pile \<and> it_Value pile = ch_Coin ch
         \<and> it_ParentItemID pile = corpseID))"
proof (cases "0 < ch_Coin ch")
  case True
  let ?w = "w\<lparr>cw_Chars := fst (repo_RecordCoin (cw_Chars w) (ch_ID ch) 0 (ch_BankBalance ch) (ch_CoinVersion ch))\<rparr>"
  have "snd (repo_RecordCoin (cw_Chars w) (ch_ID ch) 0 (ch_BankBalance ch) (ch_CoinVersion ch)) = None"
    using char_store.accepted [OF assms(6), of "coin_write 0 (ch_BankBalance ch) (ch_CoinVersion ch)"] assms(7)
    by (simp add: repo_RecordCoin_def coin_write_def)
  then have e: "dropCarriedCoin ch corpseID w = fst (spawnCoinPile corpseID (ch_Coin ch) ?w)"
    using True by (simp add: dropCarriedCoin_def Let_def split_beta)
  have n: "fst (combat_now ?w) = fst (combat_now w)" "cw_Items ?w = Some items"
    using assms(1) by (simp_all add: combat_now_def split: list.split)
  obtain items1 pile where p: "fst (spawnCoinPile corpseID (ch_Coin ch) ?w) = (snd (combat_now ?w))\<lparr>cw_Items := Some items1\<rparr>"
      "it_Value pile = ch_Coin ch" "it_ParentItemID pile = corpseID"
      "\<And>j. item_GetByID items1 j = (if j = ir_maxID items + 1 then Inr pile else item_GetByID items j)"
    using coin_pile_row [OF n(2) assms(2-4) True] assms(5) unfolding n(1) by blast
  show ?thesis unfolding e p(1)
    by (rule exI [of _ items1]) (simp add: p)
next
  case False
  then show ?thesis using assms(1) by (simp add: dropCarriedCoin_def)
qed

text \<open>Nothing a character carried is lost or copied when it drops on death: each item held directly (worn
  or not) lies in the new corpse, containers keep what is inside them, no other item moves, the corpse is in
  the room of death with its decay deadline written and queued, and the purse is a pile of the same worth in the corpse
  while the bank is kept.\<close>

lemma drop_moves_everything:
  assumes "repo_GetByID (cw_Chars w) i = Inr ch" "i \<noteq> 0" "ch_CurrentRoomID ch \<noteq> 0"
    and "cw_Items w = Some items" "items_ok items" "ir_maxID items + 1 < MaxInt64"
    and "pcorpse_ext i now \<notin> ir_byExt items" "pile_ext (ir_maxID items + 1) now \<notin> ir_byExt items"
    and "cw_clock w = [now]"
  defines "corpseID \<equiv> ir_maxID items + 1" and "deadline \<equiv> now + corpseDecayDuration"
  shows "\<exists>w' items' corpse. dropCharacterLoot ch w = (w', corpseID, True)
    \<and> repo_GetByID (cw_Chars w') i = Inr (stripped ch) \<and> cw_Items w' = Some items'
    \<and> (\<forall>j it. item_GetByID items j = Inr it \<longrightarrow> item_GetByID items' j = Inr (looted i corpseID it))
    \<and> item_GetByID items' corpseID = Inr corpse \<and> it_RoomID corpse = ch_CurrentRoomID ch
    \<and> it_DecayExpiresAt corpse = Some deadline
    \<and> cw_Decay w' = map_option (Schedule corpseID (ch_CurrentRoomID ch) deadline) (cw_Decay w)
    \<and> (0 < ch_Coin ch \<longrightarrow> (\<exists>pile. item_GetByID items' (corpseID + 1) = Inr pile \<and> it_Value pile = ch_Coin ch
         \<and> it_ParentItemID pile = corpseID))"
proof -
  have i: "ch_ID ch = i" using get_id [OF assms(1)] .
  have t: "combat_now w = (now, w)" using assms(9) by (simp add: combat_now_def)
  have m: "ir_maxID items < MaxInt64" "corpseID \<noteq> 0" using assms(5,6) by (simp_all add: items_ok_def corpseID_def)
  have x: "pcorpse_ext i now \<noteq> []" by simp
  define nm where "nm = (if ch_Name ch = [] then ''an unknown soul'' else ch_Name ch)"
  obtain items1 corpse where c: "create_corpse (pcorpse_ext i now) nm (ch_CurrentRoomID ch) deadline w =
        (w\<lparr>cw_Items := Some items1, cw_Decay := map_option (Schedule corpseID (ch_CurrentRoomID ch) deadline) (cw_Decay w)\<rparr>,
         corpseID)"
      "items_ok items1" "ir_maxID items1 = corpseID" "ir_byExt items1 = insert (pcorpse_ext i now) (ir_byExt items)"
      "it_RoomID corpse = ch_CurrentRoomID ch" "it_OwnerCharacterID corpse = 0" "it_DecayExpiresAt corpse = Some deadline"
      "\<And>j. item_GetByID items1 j = (if j = corpseID then Inr corpse else item_GetByID items j)"
    using create_corpse_row [OF assms(4,5) m(1) assms(3) x assms(7), of nm deadline] unfolding corpseID_def by blast
  define w1 where "w1 = w\<lparr>cw_Items := Some items1,
      cw_Decay := map_option (Schedule corpseID (ch_CurrentRoomID ch) deadline) (cw_Decay w)\<rparr>"
  define w3 where "w3 = transferCharacterEquipment i (ch_Equipment ch) corpseID (transferCharacterInventory i corpseID w1)"
  have i1: "cw_Items w1 = Some items1" and g1: "item_GetByID items1 corpseID = Inr corpse"
    using c(8) by (simp_all add: w1_def)
  obtain items3 where i3: "cw_Items w3 = Some items3" "items_ok items3" "ir_maxID items3 = corpseID"
      "ir_byExt items3 = ir_byExt items1"
      "\<And>j. item_GetByID items3 j = map_sum id (looted i corpseID) (item_GetByID items1 j)"
    using transfers_row [OF i1 c(2) assms(2) m(2) g1 c(6), of "ch_Equipment ch"] c(3) unfolding w3_def by blast
  have f3: "cw_clock w3 = [now]" "cw_Decay w3 = cw_Decay w1"
    "cw_Chars w3 = fst (record_at (cw_Chars w) i (\<lambda>c. Inr (c\<lparr>ch_Equipment := zero_Equipment\<rparr>)))"
    using assms(9) by (simp_all add: w3_def w1_def transferCharacterEquipment_def transferCharacterInventory_def
        fold_on_items char_writes split: option.split)
  have r3: "repo_GetByID (cw_Chars w3) (ch_ID ch) = Inr (ch\<lparr>ch_Equipment := zero_Equipment\<rparr>)"
    unfolding f3(3) i by (subst char_store.get_upd) (simp_all add: assms(1))
  have e: "dropCharacterLoot ch w = (dropCarriedCoin ch corpseID w3, corpseID, True)"
    unfolding dropCharacterLoot_def spawnPlayerCorpse_def t Let_def prod.case i nm_def [symmetric] deadline_def [symmetric]
      c(1) w1_def [symmetric] w3_def
    using assms(3,4) m(2) by simp
  have p: "pile_ext corpseID (fst (combat_now w3)) \<notin> ir_byExt items3"
    using assms(8) unfolding i3(4) c(4) by (simp add: combat_now_def f3(1) corpseID_def)
  have m3: "ir_maxID items3 < MaxInt64" using assms(6) by (simp add: i3(3) corpseID_def)
  obtain items4 where i4: "cw_Items (dropCarriedCoin ch corpseID w3) = Some items4"
      "\<And>j. j \<noteq> corpseID + 1 \<Longrightarrow> item_GetByID items4 j = item_GetByID items3 j"
      "0 < ch_Coin ch \<Longrightarrow> \<exists>pile. item_GetByID items4 (corpseID + 1) = Inr pile \<and> it_Value pile = ch_Coin ch
         \<and> it_ParentItemID pile = corpseID"
    using drop_coin_items [OF i3(1,2) m3 m(2) p r3] unfolding i3(3) by auto
  have row: "item_GetByID items4 j = Inr (looted i corpseID it)" if "item_GetByID items j = Inr it" for j it
  proof -
    have "j \<le> ir_maxID items" using that assms(5) find_item_SomeD by (fastforce simp: item_Get_Inr items_ok_def)
    then show ?thesis using that i4(2) [of j] i3(5) [of j] c(8) [of j] by (simp add: corpseID_def)
  qed
  have crow: "item_GetByID items4 corpseID = Inr corpse"
    using i4(2) [of corpseID] i3(5) g1 c(6) assms(2) by (simp add: looted_def)
  have dec: "cw_Decay (dropCarriedCoin ch corpseID w3) = map_option (Schedule corpseID (ch_CurrentRoomID ch) deadline) (cw_Decay w)"
    by (simp add: drop_coin_decay f3(2) w1_def)
  have own: "repo_GetByID (cw_Chars (dropCarriedCoin ch corpseID w3)) i = Inr (stripped ch)"
    using drop_loot_spec [OF assms(1) e, of i] by simp
  show ?thesis using e own i4(1,3) row crow c(5,7) dec by blast
qed

section \<open>A kill\<close>

lemma find_after_create:
  assumes "item_GetByID items j = Inr it"
  shows "item_GetByID (fst (item_Create items i)) j = Inr it"
proof -
  have "fst (item_Create items i) = items \<or> (\<exists>x. fst (item_Create items i) = fst (insertLocked items x))"
    by (auto simp: item_Create_def Let_def split_beta)
  moreover have "item_GetByID (fst (insertLocked items x)) j = Inr it" for x
    using assms by (simp add: insertLocked_def Let_def item_GetByID_def find_item_snoc split: option.splits)
  ultimately show ?thesis using assms by auto
qed

lemma gold_keeps_rows:
  assumes "cw_Items w = Some items" "item_GetByID items j = Inr it"
  shows "\<exists>items1. cw_Items (dropGoldPile corpseID tmpl w) = Some items1 \<and> item_GetByID items1 j = Inr it"
proof -
  have "\<exists>items1. cw_Items (fst (spawnCoinPile k a w)) = Some items1 \<and> item_GetByID items1 j = Inr it"
    if "cw_Items w = Some items" for k a w
  proof -
    have c: "\<exists>i. x = fst (item_Create items i) \<Longrightarrow> item_GetByID x j = Inr it" for x
      using find_after_create [OF assms(2)] by blast
    show ?thesis
      unfolding spawnCoinPile_def that option.case Let_def split_beta
      using assms(2) by (auto simp: split_beta that split: sum.split intro!: c)
  qed
  from this [of "w\<lparr>cw_rng := r\<rparr>" for r] show ?thesis
    using assms by (simp add: dropGoldPile_def split: prod.split option.split)
qed

lemma loot_rows:
  assumes "cw_Items w = Some items" "corpseID \<noteq> 0"
  shows "\<exists>items1. cw_Items (transferLootIntoCorpse mob corpseID w) = Some items1
    \<and> (\<forall>j it. item_GetByID items j = Inr it \<longrightarrow>
         item_GetByID items1 j = Inr (if j \<in> set (mi_Inventory mob) \<and> j \<noteq> 0 then at_place it 0 0 corpseID else it))"
proof -
  let ?f = "\<lambda>i. Inr (at_place i 0 0 corpseID) :: item_error + Item"
  let ?ks = "filter (\<lambda>k. k \<noteq> 0) (mi_Inventory mob)"
  have "fold (\<lambda>k r. if k = 0 then r else fst (item_SetParent r k corpseID)) ks r =
      fold (\<lambda>k r. fst (item_at r k ?f)) (filter (\<lambda>k. k \<noteq> 0) ks) r" for ks r
    by (induction ks arbitrary: r) (use assms(2) in \<open>simp_all add: item_SetParent_def\<close>)
  then have e: "cw_Items (transferLootIntoCorpse mob corpseID w) = Some (fold (\<lambda>k r. fst (item_at r k ?f)) ?ks items)"
    by (simp add: transferLootIntoCorpse_def fold_on_items assms)
  have st: "item_stable ?f" by (simp add: item_stable_def at_place_def)
  have "item_GetByID (fold (\<lambda>k r. fst (item_at r k ?f)) ?ks items) j =
      (case item_GetByID items j of Inl e \<Rightarrow> Inl e
       | Inr c \<Rightarrow> if j \<in> set ?ks then case ?f c of Inl e \<Rightarrow> Inr c | Inr d \<Rightarrow> Inr d else Inr c)" for j
    by (rule item_store.get_fold_upd [OF st]) (auto simp: at_place_def)
  with e show ?thesis by auto
qed

lemma gold_decay [simp]: "cw_Decay (dropGoldPile corpseID tmpl w) = cw_Decay w"
proof -
  have "cw_Decay (fst (spawnCoinPile corpseID a w)) = cw_Decay w" for a w
    by (simp add: spawnCoinPile_def Let_def split_beta split: option.split sum.split)
  then show ?thesis by (simp add: dropGoldPile_def split: prod.split option.split)
qed

lemma award_frame [simp]:
  "cw_Mobs (awardKillXP env roomID killer victim t tmpl w) = cw_Mobs w"
  "cw_Items (awardKillXP env roomID killer victim t tmpl w) = cw_Items w"
  "cw_Fights (awardKillXP env roomID killer victim t tmpl w) = cw_Fights w"
  "cw_Decay (awardKillXP env roomID killer victim t tmpl w) = cw_Decay w"
  by (simp_all add: awardKillXP_def award_shares_def split_beta)

lemma despawn_mobs: "mob_GetByID (cw_Mobs (despawn i w)) j = (if j = i then Inl ErrInstanceNotFound else mob_GetByID (cw_Mobs w) j)"
proof -
  have del: "mob_GetByID (fst (mob_Delete r i)) j = (if j = i then Inl ErrInstanceNotFound else mob_GetByID r j)" for r
    by (auto simp: mob_Delete_def mob_GetByID_def split: option.split)
  have at: "mob_GetByID (fst (mob_at r i f)) j = mob_GetByID r j" if "j \<noteq> i" for r f
    using that by (subst mob_store.get_upd) simp_all
  have "mob_GetByID (fst (mob_UpdateRoom r i 0 0)) j = mob_GetByID r j" if "j \<noteq> i" for r
    unfolding mob_UpdateRoom_def
    using at [OF that, of r "\<lambda>m. Inr (m\<lparr>mi_Core := (mi_Core m)\<lparr>c_CurrentRoomID := 0\<rparr>\<rparr>)"]
    by (cases "mob_at r i (\<lambda>m. Inr (m\<lparr>mi_Core := (mi_Core m)\<lparr>c_CurrentRoomID := 0\<rparr>\<rparr>))") (auto split: option.split)
  then show ?thesis by (simp add: despawn_def del)
qed

lemma despawn_frame [simp]:
  "cw_Chars (despawn i w) = cw_Chars w" "cw_Items (despawn i w) = cw_Items w" "cw_Fights (despawn i w) = cw_Fights w"
  "cw_Events (despawn i w) = cw_Events w" "cw_Decay (despawn i w) = cw_Decay w"
  by (simp_all add: despawn_def)

lemma mob_ref_ID [simp]: "rf_ID (mob_ref i) = i" "rf_Kind (mob_ref i) = ActorKindMob"
  by (simp_all add: mob_ref_def)

lemma on_fight_decay [simp]: "cw_Decay (on_fight roomID g w) = cw_Decay w"
  by (simp add: on_fight_def split: option.split)

text \<open>C17: A killed mob is gone and its belongings are not. Its row disappears from the store and no other mob's
  does; the corpse stands in the mob's room under a fresh id with the deadline of its decay written on the
  row and queued alike; each item of the mob's inventory lies in the corpse and no other item moves; the mob is marked
  for pruning in the fight of its room; and the experience of its template is credited by that fight's damage
  tally.\<close>

theorem mob_death_exact:
  fixes env :: CombatEnv and killer :: ActorRef
  assumes "mob_GetByID (cw_Mobs w) i = Inr mob" "c_CurrentRoomID (mi_Core mob) = roomID" "roomID \<noteq> 0"
    and "cw_Items w = Some items" "items_ok items" "ir_maxID items < MaxInt64"
    and "\<forall>k\<in>set (mi_Inventory mob). k \<le> ir_maxID items"
    and "cw_clock w = [now]" "''corpse-'' @ show_int (mi_ID mob) @ ''-'' @ show_int now \<notin> ir_byExt items"
  defines "corpseID \<equiv> ir_maxID items + 1" and "deadline \<equiv> now + corpseDecayDuration"
    and "tmpl \<equiv> template_of env mob"
    and "w' \<equiv> handleMobDeath env killer (mob_ref i) w"
  shows "mob_GetByID (cw_Mobs w') i = Inl ErrInstanceNotFound
    \<and> (\<forall>j. j \<noteq> i \<longrightarrow> mob_GetByID (cw_Mobs w') j = mob_GetByID (cw_Mobs w) j)
    \<and> (\<exists>items' corpse. cw_Items w' = Some items' \<and> item_GetByID items' corpseID = Inr corpse
         \<and> it_RoomID corpse = roomID \<and> it_DecayExpiresAt corpse = Some deadline
         \<and> (\<forall>j it. item_GetByID items j = Inr it \<longrightarrow>
              item_GetByID items' j = Inr (if j \<in> set (mi_Inventory mob) \<and> j \<noteq> 0 then at_place it 0 0 corpseID else it)))
    \<and> cw_Decay w' = map_option (Schedule corpseID roomID deadline) (cw_Decay w)
    \<and> map_of (cw_Fights w') r = (if r = roomID then map_option (mark_dead (mob_ref i)) (map_of (cw_Fights w) r)
         else map_of (cw_Fights w) r)
    \<and> (cw_Chars w', drop (length (cw_Events w) + 1) (cw_Events w')) =
        (let (chars, awards) = creditXPShares (ce_Group env) roomID killer (mob_ref i) (tally_snap roomID w)
               (xpValueForTemplate (mt_XPValue tmpl) (mt_ChallengeCode tmpl)) (cw_Chars w)
         in (chars, map EvXP awards))"
proof -
  have clock: "combat_now w = (now, w)" using assms(8) by (simp add: combat_now_def)
  define nm where "nm = (if c_Name (mi_Core mob) = [] then ''creature'' else c_Name (mi_Core mob))"
  define ext where "ext = ''corpse-'' @ show_int (mi_ID mob) @ ''-'' @ show_int now"
  have x: "ext \<noteq> []" "ext \<notin> ir_byExt items" using assms(9) by (simp_all add: ext_def)
  have k: "corpseID \<noteq> 0" using assms(5) by (simp add: corpseID_def items_ok_def)
  obtain items1 corpse where c: "create_corpse ext nm roomID deadline w =
        (w\<lparr>cw_Items := Some items1, cw_Decay := map_option (Schedule corpseID roomID deadline) (cw_Decay w)\<rparr>, corpseID)"
      "it_RoomID corpse = roomID" "it_DecayExpiresAt corpse = Some deadline"
      "\<And>j. item_GetByID items1 j = (if j = corpseID then Inr corpse else item_GetByID items j)"
    using create_corpse_row [OF assms(4-6,3) x, of nm deadline] unfolding corpseID_def by blast
  define w1 where "w1 = w\<lparr>cw_Items := Some items1, cw_Decay := map_option (Schedule corpseID roomID deadline) (cw_Decay w)\<rparr>"
  have s: "spawnCorpse mob w = (w1, corpseID)"
    unfolding spawnCorpse_def corpseExternalID_def clock Let_def prod.case nm_def [symmetric] ext_def [symmetric]
      deadline_def [symmetric] assms(2) c(1) w1_def
    using assms(3,4) by simp
  define w2 where "w2 = dropGoldPile corpseID tmpl (transferLootIntoCorpse mob corpseID w1)"
  have f2: "item_step w1 w2" unfolding w2_def by (rule item_step_trans [OF item_step_loot item_step_gold])
  have d2: "cw_Decay w2 = cw_Decay w1" by (simp add: w2_def gold_decay transferLootIntoCorpse_def fold_on_items)
  define w3 where "w3 = on_fight roomID (mark_dead (mob_ref i)) (despawn i w2)"
  have w': "w' = awardKillXP env roomID killer (mob_ref i) (tally_snap roomID w3) tmpl
      (Publish (EvDeath roomID (mob_ref i) killer corpseID (mt_ID tmpl) (mt_ExternalID tmpl) (c_Name (mi_Core mob))) w3)"
    unfolding w'_def handleMobDeath_def mob_ref_ID assms(1) sum.case Let_def assms(2) tmpl_def [symmetric] s prod.case
      w2_def [symmetric] w3_def by (rule refl)
  have t: "tally_snap roomID w3 = tally_snap roomID w"
    using f2 by (simp add: tally_snap_def w3_def on_fight_map item_step_def w1_def despawn_def mark_dead_def split: option.split)
  have fights: "map_of (cw_Fights w') r = (if r = roomID then map_option (mark_dead (mob_ref i)) (map_of (cw_Fights w) r)
      else map_of (cw_Fights w) r)"
    using f2 by (simp add: w' award_frame w3_def on_fight_map item_step_def w1_def despawn_def)
  have mobs: "mob_GetByID (cw_Mobs w') j = (if j = i then Inl ErrInstanceNotFound else mob_GetByID (cw_Mobs w) j)" for j
    using f2 by (simp add: w' award_frame w3_def despawn_mobs item_step_def w1_def)
  have c3: "cw_Chars w3 = cw_Chars w" "cw_Events w3 = cw_Events w"
    using f2 by (simp_all add: w3_def item_step_def w1_def)
  have xp: "(cw_Chars w', drop (length (cw_Events w) + 1) (cw_Events w')) =
      (let (chars, awards) = creditXPShares (ce_Group env) roomID killer (mob_ref i) (tally_snap roomID w)
             (xpValueForTemplate (mt_XPValue tmpl) (mt_ChallengeCode tmpl)) (cw_Chars w)
       in (chars, map EvXP awards))"
    by (simp add: w' t awardKillXP_def award_shares_def Let_def split_beta c3)
  obtain items2 where i2: "cw_Items (transferLootIntoCorpse mob corpseID w1) = Some items2"
      "\<And>j it. item_GetByID items1 j = Inr it \<Longrightarrow>
         item_GetByID items2 j = Inr (if j \<in> set (mi_Inventory mob) \<and> j \<noteq> 0 then at_place it 0 0 corpseID else it)"
    using loot_rows [of w1 items1 corpseID mob] k by (auto simp: w1_def)
  obtain items3 where i3: "cw_Items w2 = Some items3" using f2 by (auto simp: item_step_def w1_def)
  have keep: "item_GetByID items3 j = Inr it" if "item_GetByID items2 j = Inr it" for j it
    using gold_keeps_rows [OF i2(1) that, of corpseID tmpl] i3 by (simp add: w2_def)
  have row: "item_GetByID items3 j = Inr (if j \<in> set (mi_Inventory mob) \<and> j \<noteq> 0 then at_place it 0 0 corpseID else it)"
    if "item_GetByID items j = Inr it" for j it
  proof (rule keep, rule i2(2))
    have "j \<le> ir_maxID items" using that assms(5) find_item_SomeD by (fastforce simp: item_Get_Inr items_ok_def)
    then show "item_GetByID items1 j = Inr it" using that c(4) [of j] by (simp add: corpseID_def)
  qed
  have crow: "item_GetByID items3 corpseID = Inr corpse"
    using keep [OF i2(2) [of corpseID corpse]] c(4) assms(7) by (auto simp: corpseID_def)
  have items: "cw_Items w' = Some items3" "cw_Decay w' = map_option (Schedule corpseID roomID deadline) (cw_Decay w)"
    using i3 d2 by (simp_all add: w' award_frame w3_def despawn_def w1_def)
  show ?thesis using mobs items row crow c(2,3) fights xp by auto
qed

section \<open>Script healing\<close>

lemma i32_over: "2147483648 \<le> x \<Longrightarrow> x < 6442450944 \<Longrightarrow> i32 x = x - 4294967296"
proof -
  assume x: "2147483648 \<le> x" "x < 6442450944"
  have "(x + 2147483648) mod 4294967296 = (x - 2147483648) mod 4294967296"
    using mod_add_self2 [of "x - 2147483648" "4294967296"] by (simp add: algebra_simps)
  also have "\<dots> = x - 2147483648" using x by (intro mod_pos_pos_trivial) auto
  finally show ?thesis by (simp add: wrap_def)
qed

text \<open>\<open>ApplyHealing\<close> raises a living character's hit points by the amount up to the maximum and changes nothing
  else, as long as the sum fits an \<open>int32\<close>. Beyond that the sum wraps below zero, the test against the
  maximum passes, and the heal leaves the character at negative hit points without any death.\<close>

lemma ApplyHealing_exact:
  assumes "repo_GetByID (cw_Chars w) i = Inr ch" "i \<noteq> 0" "0 < c_HPCurrent (ch_Core ch)"
    and "c_HPCurrent (ch_Core ch) \<le> c_HPMax (ch_Core ch)" "c_HPMax (ch_Core ch) \<le> MaxInt32"
    and "0 < amount" "amount \<le> MaxInt32"
  defines "s \<equiv> c_HPCurrent (ch_Core ch) + amount"
  shows "snd (ApplyHealing (char_ref i) amount w) = None
    \<and> (\<forall>j. repo_GetByID (cw_Chars (fst (ApplyHealing (char_ref i) amount w))) j =
        (if j = i then Inr (ch\<lparr>ch_Core := (ch_Core ch)\<lparr>c_HPCurrent :=
             (if s \<le> MaxInt32 then min s (c_HPMax (ch_Core ch)) else s - 4294967296)\<rparr>\<rparr>)
         else repo_GetByID (cw_Chars w) j))
    \<and> (MaxInt32 < s \<longrightarrow> s - 4294967296 < 0)"
proof -
  let ?c = "ch_Core ch"
  have h: "healed ?c amount = (if s \<le> MaxInt32 then if s > c_HPMax ?c then (c_HPMax ?c, c_HPMax ?c - c_HPCurrent ?c)
      else (s, amount) else (s - 4294967296, amount))"
    using assms(3-7) i32_over [of s] i32_id [of s] i32_id [of "c_HPMax ?c - c_HPCurrent ?c"]
    by (auto simp: healed_def s_def Let_def)
  obtain hp delta where hd: "healed ?c amount = (hp, delta)" by (cases "healed ?c amount")
  then have hp: "hp = (if s \<le> MaxInt32 then min s (c_HPMax ?c) else s - 4294967296)" "delta \<le> 0 \<Longrightarrow> hp = c_HPCurrent ?c"
    using assms(3-7) unfolding h by (auto simp: s_def min_def split: if_splits)
  let ?f = "\<lambda>c. Inr (c\<lparr>ch_Core := (ch_Core c)\<lparr>c_HPCurrent := hp, c_Subdual := c_Subdual ?c,
      c_Conditions := c_Conditions ?c, c_Position := c_Position ?c\<rparr>\<rparr>) :: repo_error + Character"
  have rec: "repo_RecordCore (cw_Chars w) i hp (c_Subdual ?c) (c_Conditions ?c) (c_Position ?c) = record_at (cw_Chars w) i ?f"
    by (simp add: repo_RecordCore_def)
  have ok: "snd (record_at (cw_Chars w) i ?f) = None"
    using char_store.accepted [of "cw_Chars w" i ch ?f "ch\<lparr>ch_Core := ?c\<lparr>c_HPCurrent := hp\<rparr>\<rparr>"] assms(1) by simp
  have same: "ch\<lparr>ch_Core := ?c\<lparr>c_HPCurrent := c_HPCurrent ?c\<rparr>\<rparr> = ch" by simp
  have row: "repo_GetByID (fst (record_at (cw_Chars w) i ?f)) j =
      (if j = i then Inr (ch\<lparr>ch_Core := ?c\<lparr>c_HPCurrent := hp\<rparr>\<rparr>) else repo_GetByID (cw_Chars w) j)" for j
    by (subst char_store.get_upd) (simp_all add: assms(1))
  define chars where "chars = (if delta > 0 then fst (record_at (cw_Chars w) i ?f) else cw_Chars w)"
  have wr: "(if delta > 0 then record_at (cw_Chars w) i ?f else (cw_Chars w, None)) = (chars, None)"
    using ok by (simp add: chars_def prod_eq_iff)
  have e: "ApplyHealing (char_ref i) amount w =
      (Publish (EvScriptHealing (ch_CurrentRoomID ch) (char_ref i) delta) (w\<lparr>cw_Chars := chars\<rparr>), None)"
    unfolding ApplyHealing_def char_ref_ID ActorKind.case assms(1) sum.case Let_def hd prod.case rec wr option.case
    using assms(2,3,6) by simp
  have g: "repo_GetByID chars j = (if j = i then Inr (ch\<lparr>ch_Core := ?c\<lparr>c_HPCurrent := hp\<rparr>\<rparr>)
      else repo_GetByID (cw_Chars w) j)" for j
    using row hp(2) assms(1) same by (simp add: chars_def)
  show ?thesis unfolding e using g hp(1) assms(4,5,7) by (simp add: s_def)
qed

section \<open>A small world\<close>

definition sample_victim :: Character where
  "sample_victim = sample_character\<lparr>ch_ID := 1, ch_NameLower := ''rand'', ch_CurrentRoomID := 5, ch_BoundRoomID := 2,
     ch_XP := 1500, ch_Core := zero_Core\<lparr>c_HPCurrent := 4, c_HPMax := 20, c_Conditions := CondDying\<rparr>\<rparr>"

definition sample_combat :: CombatWorld where
  "sample_combat = \<lparr>cw_Chars = \<lparr>mr_nextID = 1, mr_byLower = [(''rand'', sample_victim)]\<rparr>,
     cw_Mobs = \<lparr>mb_byID = [(3, sample_mob\<lparr>mi_ID := 3, mi_Core := zero_Core\<lparr>c_ID := 3, c_CurrentRoomID := 5\<rparr>, mi_Inventory := [1]\<rparr>)],
                mb_trails = [], mb_maxID = 3\<rparr>,
     cw_Items = Some sample_items, cw_Decay = Some [], cw_Fights = [(5, sample_fight)], cw_rng = [], cw_fleeRng = [], cw_clock = [77],
     cw_Events = []\<rparr>"

definition sample_env :: CombatEnv where
  "sample_env = \<lparr>ce_Templates = None, ce_Catalog = None, ce_Group = None, ce_DropOnDeath = False, ce_FleeExits = None\<rparr>"

lemma sample_victim_row: "repo_GetByID (cw_Chars sample_combat) 1 = Inr sample_victim"
  by (simp add: sample_combat_def repo_GetByID_def) (simp add: sample_victim_def)

lemma sample_items_good: "cw_Items sample_combat = Some sample_items" "items_ok sample_items" "ir_maxID sample_items = 1"
  "ir_byExt sample_items = {''1''}"
  by (simp_all add: sample_combat_def sample_items_def items_ok_def sample_item_def one_place_def show_int_def show_nat.simps char_of_def bit_0)

text \<open>A duel: the killer is another character of the same level.\<close>

definition sample_slayer :: Character where
  "sample_slayer = sample_victim\<lparr>ch_ID := 2, ch_NameLower := ''mat'', ch_XPDebt := 30\<rparr>"

definition sample_duel :: CombatWorld where
  "sample_duel = sample_combat\<lparr>cw_Chars := \<lparr>mr_nextID = 2, mr_byLower = [(''rand'', sample_victim), (''mat'', sample_slayer)]\<rparr>,
     cw_Fights := [(5, sample_fight\<lparr>ft_DamageTally := [(char_ref 2, 7)]\<rparr>)]\<rparr>"

lemma sample_duel_rows: "repo_GetByID (cw_Chars sample_duel) 1 = Inr sample_victim" "repo_GetByID (cw_Chars sample_duel) 2 = Inr sample_slayer"
  "ch_XP sample_slayer = 1500" "ch_XPDebt sample_slayer = 30" "ch_XP sample_victim = 1500" "ch_XPDebt sample_victim = 0"
  "c_HPMax (ch_Core sample_victim) = 20" "ch_BoundRoomID sample_victim = 2" "ch_CurrentRoomID sample_victim = 5"
  by (simp_all add: sample_duel_def repo_GetByID_def sample_slayer_def) (simp_all add: sample_victim_def sample_character_def)

lemma death_respawns_witness:
  "\<exists>d e. repo_GetByID (cw_Chars (handleCharacterDeath sample_env (char_ref 2) (char_ref 1) sample_duel)) 1 = Inr d
     \<and> c_HPCurrent (ch_Core d) = 20 \<and> ch_CurrentRoomID d = 2 \<and> ch_XP d = 1500
     \<and> repo_GetByID (cw_Chars (handleCharacterDeath sample_env (char_ref 2) (char_ref 1) sample_duel)) 2 = Inr e
     \<and> (ch_XP e - 1500) + (30 - ch_XPDebt e) = 100"
proof -
  note rows = sample_duel_rows
  have l: "LevelForXP 1500 = 2" by code_simp
  have t: "tally_snap 5 sample_duel = [(char_ref 2, 7)]" by (simp add: tally_snap_def sample_duel_def)
  have a: "kill_award sample_env (char_ref 2) 1 sample_victim sample_duel j = (if j = 2 then 100 else 0)" for j
    by (simp add: kill_award_def rows t l map_del_def sample_env_def expandTallyByGroup_def allocateXP_def i64_id
        signed_divide_int_def map_get_def char_ref_def map_put_def)
  have x: "\<forall>j c. repo_GetByID (cw_Chars sample_duel) j = Inr c \<and> 0 < kill_award sample_env (char_ref 2) 1 sample_victim sample_duel j
      \<longrightarrow> xp_room (kill_award sample_env (char_ref 2) 1 sample_victim sample_duel j) c"
    by (auto simp: a rows xp_room_def split: if_splits)
  have "0 \<le> ch_XPDebt sample_victim" "0 \<le> ch_XP sample_victim" "ch_XPDebt sample_victim + ch_XP sample_victim \<le> MaxInt64"
    by (simp_all add: rows)
  note r = death_respawns [OF rows(1) this x]
  have "\<exists>d. repo_GetByID (cw_Chars (handleCharacterDeath sample_env (char_ref 2) (char_ref 1) sample_duel)) 1 = Inr d
     \<and> c_HPCurrent (ch_Core d) = 20 \<and> ch_CurrentRoomID d = 2 \<and> ch_XP d = 1500"
    using r [THEN conjunct1] by (auto simp: a rows paid_out_def)
  moreover have "\<exists>e. repo_GetByID (cw_Chars (handleCharacterDeath sample_env (char_ref 2) (char_ref 1) sample_duel)) 2 = Inr e
     \<and> (ch_XP e - 1500) + (30 - ch_XPDebt e) = 100"
    using r [THEN conjunct2, THEN conjunct1, rule_format, of 2] by (auto simp: a rows paid_out_def)
  ultimately show ?thesis by blast
qed

lemma drop_conserves_coin_witness:
  "\<exists>d. repo_GetByID (cw_Chars (dropCarriedCoin (sample_victim\<lparr>ch_Coin := 9, ch_CoinVersion := 7\<rparr>) 2 sample_combat)) 1 = Inr d
     \<and> ch_Coin d \<in> {0, 100}"
proof -
  have c: "repo_GetByID (cw_Chars sample_combat) (ch_ID (sample_victim\<lparr>ch_Coin := 9, ch_CoinVersion := 7\<rparr>)) = Inr sample_victim"
    using sample_victim_row by (simp add: sample_victim_def)
  have "ir_maxID sample_items < MaxInt64" "pile_ext 2 (fst (combat_now sample_combat)) \<notin> ir_byExt sample_items"
    by (simp_all add: sample_items_good)
  from drop_conserves_coin [OF c _ sample_items_good(1,2) this(1) _ this(2)] show ?thesis
    using sample_victim_row by (auto simp: sample_victim_def sample_character_def)
qed

lemma mob_death_exact_witness:
  "mob_GetByID (cw_Mobs (handleMobDeath sample_env (char_ref 1) (mob_ref 3) sample_combat)) 3 = Inl ErrInstanceNotFound"
proof -
  let ?m = "sample_mob\<lparr>mi_ID := 3, mi_Core := zero_Core\<lparr>c_ID := 3, c_CurrentRoomID := 5\<rparr>, mi_Inventory := [1]\<rparr>"
  have "mob_GetByID (cw_Mobs sample_combat) 3 = Inr ?m" "c_CurrentRoomID (mi_Core ?m) = 5" "(5::int) \<noteq> 0"
    by (simp_all add: sample_combat_def mob_GetByID_def)
  moreover have "ir_maxID sample_items < MaxInt64" "\<forall>k\<in>set (mi_Inventory ?m). k \<le> ir_maxID sample_items"
    "cw_clock sample_combat = [77]"
    "''corpse-'' @ show_int (mi_ID ?m) @ ''-'' @ show_int 77 \<notin> ir_byExt sample_items"
    by (simp_all add: sample_items_good) (simp add: sample_combat_def)
  ultimately show ?thesis
    using mob_death_exact [of sample_combat 3 ?m 5 sample_items 77 sample_env "char_ref 1"] sample_items_good(1,2) by blast
qed

end
