(* ===== verification/CombatManager.thy ===== *)
theory CombatManager
  imports CombatDeath
begin

text \<open>
  The combat manager: \<open>internal/combat/manager.go\<close>, the action queue of \<open>action.go\<close> and the flee mover
  \<open>internal/cmd/flee_mover.go\<close>, over the world of \<open>CombatDeath\<close>. One pulse of one room is a function of the world; the
  rooms of a pulse are visited in the order of the list of fights, which stands for the iteration order of the
  Go map. Session output (broadcasts, renders) is not modelled. Nil maps and empty maps are the same.
\<close>

datatype combat_error = ErrFightExists | ErrNoParticipants | ErrFightNotFound | ErrInsufficientStamina
  | ErrNoCharacter repo_error | ErrNoMob mob_error | ErrUnknownActorKind

section \<open>Participants\<close>

definition resolveCore :: "CombatWorld \<Rightarrow> ActorRef \<Rightarrow> combat_error + Core" where
  "resolveCore w ref =
     (case rf_Kind ref of
        ActorKindCharacter \<Rightarrow> (case repo_GetByID (cw_Chars w) (rf_ID ref) of Inl e \<Rightarrow> Inl (ErrNoCharacter e)
                                 | Inr ch \<Rightarrow> Inr (ch_Core ch))
      | ActorKindMob \<Rightarrow> (case mob_GetByID (cw_Mobs w) (rf_ID ref) of Inl e \<Rightarrow> Inl (ErrNoMob e)
                           | Inr mob \<Rightarrow> Inr (mi_Core mob))
      | ActorKindUnknown \<Rightarrow> Inl ErrUnknownActorKind)"

definition rollInitiative :: "ActorRef \<Rightarrow> Core \<Rightarrow> CombatWorld \<Rightarrow> ActorEntry \<times> CombatWorld" where
  "rollInitiative ref core w =
     (let (x, r1) = Intn (cw_rng w) 20; roll = x + 1;
          offHand = (case resolveEquipment (cw_Chars w) (cw_Mobs w) ref of None \<Rightarrow> False
                     | Some eq \<Rightarrow> equip_Get eq SlotOffHand \<noteq> 0);
          swings = swing_plan (c_BAB core) offHand
      in (\<lparr>e_Ref = ref, e_Initiative = roll + DexMod (c_Abilities core) + c_InitMod core, e_Tiebreak = roll,
           e_NextActAt = 0, e_LastActedAt = None, e_PendingSwings = int (length swings), e_Swings = swings\<rparr>,
          w\<lparr>cw_rng := r1\<rparr>))"

fun roll_entries :: "ActorRef list \<Rightarrow> CombatWorld \<Rightarrow> CombatWorld \<times> (combat_error + ActorEntry list)" where
  "roll_entries [] w = (w, Inr [])"
| "roll_entries (ref # refs) w =
     (case resolveCore w ref of Inl e \<Rightarrow> (w, Inl e)
      | Inr core \<Rightarrow>
          let (entry, w1) = rollInitiative ref core w
          in case roll_entries refs w1 of (w2, Inl e) \<Rightarrow> (w2, Inl e)
             | (w2, Inr entries) \<Rightarrow> (w2, Inr (entry # entries)))"

section \<open>Opening and closing a fight\<close>

definition Get :: "int \<Rightarrow> CombatWorld \<Rightarrow> Fight option" where
  "Get roomID w = map_of (cw_Fights w) roomID"

definition Active :: "int \<Rightarrow> CombatWorld \<Rightarrow> bool" where
  "Active roomID w \<longleftrightarrow> Get roomID w \<noteq> None"

definition new_fight :: "int \<Rightarrow> ActorEntry list \<Rightarrow> int \<Rightarrow> Fight" where
  "new_fight roomID entries now =
     \<lparr>ft_RoomID = roomID, ft_Round = 0, ft_Order = map (\<lambda>e. e\<lparr>e_NextActAt := now\<rparr>) entries, ft_StartedAt = now,
      ft_Actions = [], ft_DamageTally = [], ft_Dead = {}, ft_Fled = {}, ft_ParryingUntil = [],
      ft_FlatFootedUntil = [], ft_DodgeUntil = [], ft_Threat = []\<rparr>"

definition Start :: "int \<Rightarrow> ActorRef list \<Rightarrow> CombatWorld \<Rightarrow> CombatWorld \<times> (combat_error + Fight)" where
  "Start roomID participants w =
     (if participants = [] then (w, Inl ErrNoParticipants)
      else case roll_entries participants w of (w1, Inl e) \<Rightarrow> (w1, Inl e)
        | (w1, Inr entries0) \<Rightarrow>
            let entries = sortInitiative entries0
            in if map_of (cw_Fights w1) roomID \<noteq> None then (w1, Inl ErrFightExists)
               else let (now, w2) = combat_now w1; f = new_fight roomID entries now
                    in (Publish (EvStarted roomID (ft_Order f)) (w2\<lparr>cw_Fights := map_put roomID f (cw_Fights w2)\<rparr>), Inr f))"

definition close_fight :: "int \<Rightarrow> string \<Rightarrow> CombatWorld \<Rightarrow> CombatWorld" where
  "close_fight roomID reason w = Publish (EvEnded roomID reason) (w\<lparr>cw_Fights := map_del roomID (cw_Fights w)\<rparr>)"

definition End :: "int \<Rightarrow> string \<Rightarrow> CombatWorld \<Rightarrow> CombatWorld \<times> combat_error option" where
  "End roomID reason w =
     (if map_of (cw_Fights w) roomID = None then (w, Some ErrFightNotFound)
      else (close_fight roomID reason w, None))"

definition Stop :: "CombatWorld \<Rightarrow> CombatWorld" where
  "Stop w = fold (\<lambda>i. Publish (EvEnded i ''manager_stop'')) (map fst (cw_Fights w)) (w\<lparr>cw_Fights := []\<rparr>)"

definition EnqueueAction :: "int \<Rightarrow> ActorRef \<Rightarrow> Action \<Rightarrow> CombatWorld \<Rightarrow> CombatWorld \<times> combat_error option" where
  "EnqueueAction roomID actor a w =
     (if staminaGate (cw_Chars w) actor a then (w, Some ErrInsufficientStamina)
      else if map_of (cw_Fights w) roomID = None then (w, Some ErrFightNotFound)
      else (on_fight roomID (\<lambda>f. f\<lparr>ft_Actions := map_put actor a (ft_Actions f)\<rparr>) w, None))"

definition PendingAction :: "int \<Rightarrow> ActorRef \<Rightarrow> CombatWorld \<Rightarrow> Action option" where
  "PendingAction roomID actor w =
     (case map_of (cw_Fights w) roomID of None \<Rightarrow> None | Some f \<Rightarrow> map_of (ft_Actions f) actor)"

definition fightHasLiveParticipants :: "int \<Rightarrow> ActorEntry list \<Rightarrow> CombatWorld \<Rightarrow> bool" where
  "fightHasLiveParticipants roomID order w =
     (if \<not> list_ex (\<lambda>e. rf_Kind (e_Ref e) = ActorKindMob) order then True
      else let present = map mi_ID (mob_ListInRoom (cw_Mobs w) roomID)
           in list_ex (\<lambda>e. rf_Kind (e_Ref e) = ActorKindMob \<and> rf_ID (e_Ref e) \<in> set present) order)"

section \<open>Fleeing\<close>

record FleeResult =
  fr_Success :: bool
  fr_Direction :: string
  fr_ToRoomID :: int
  fr_Reason :: string

definition flee_failed :: "string \<Rightarrow> FleeResult" where
  "flee_failed reason = \<lparr>fr_Success = False, fr_Direction = [], fr_ToRoomID = 0, fr_Reason = reason\<rparr>"

definition fleeDC :: int where "fleeDC = 10"

definition eligibleFleeExits :: "Exit list \<Rightarrow> Exit list" where
  "eligibleFleeExits exits = filter (\<lambda>e. \<not> (xf_Hidden (ex_Flags e) \<or> xf_NoPass (ex_Flags e) \<or> xf_Closed (ex_Flags e)
     \<or> xf_Locked (ex_Flags e))) exits"

definition actorDexMod :: "ActorRef \<Rightarrow> CombatWorld \<Rightarrow> int option" where
  "actorDexMod actor w =
     (case resolveCore w actor of Inl e \<Rightarrow> None | Inr core \<Rightarrow> Some (DexMod (c_Abilities core)))"

definition AttemptFlee :: "MemoryExitRepo \<Rightarrow> int \<Rightarrow> ActorRef \<Rightarrow> CombatWorld \<Rightarrow> CombatWorld \<times> FleeResult" where
  "AttemptFlee exits roomID actor w =
     (let eligible = eligibleFleeExits (ListFrom exits roomID)
      in if eligible = [] then (w, flee_failed ''no_exits'')
         else case actorDexMod actor w of None \<Rightarrow> (w, flee_failed ''rolled_failure'')
           | Some dexMod \<Rightarrow>
               let (x, r1) = Intn (cw_fleeRng w) 20; (idx, r2) = Intn r1 (int (length eligible));
                   w1 = w\<lparr>cw_fleeRng := r2\<rparr>
               in if x + 1 + dexMod < fleeDC then (w1, flee_failed ''rolled_failure'')
                  else let choice = eligible ! nat idx;
                           won = \<lparr>fr_Success = True, fr_Direction = ex_Direction choice,
                                  fr_ToRoomID = ex_ToRoomID choice, fr_Reason = ''moved''\<rparr>
                       in case rf_Kind actor of
                            ActorKindCharacter \<Rightarrow>
                              (Publish (EvPlayerEntered (rf_ID actor) roomID (ex_ToRoomID choice))
                                 (on_chars (\<lambda>r. repo_RecordRoom r (rf_ID actor) (ex_ToRoomID choice))
                                   (Publish (EvPlayerLeft (rf_ID actor) roomID (ex_ToRoomID choice)) w1)), won)
                          | ActorKindMob \<Rightarrow>
                              let (now, w2) = combat_now w1;
                                  (mobs, err) = mob_UpdateRoom (cw_Mobs w2) (rf_ID actor) (ex_ToRoomID choice) now
                              in (w2\<lparr>cw_Mobs := mobs\<rparr>, if err = None then won else flee_failed ''rolled_failure'')
                          | ActorKindUnknown \<Rightarrow> (w1, won))"

definition resolveFlee :: "CombatEnv \<Rightarrow> int \<Rightarrow> ActorRef \<Rightarrow> CombatWorld \<Rightarrow> CombatWorld" where
  "resolveFlee env roomID actor w =
     (let (w1, res) = (case ce_FleeExits env of None \<Rightarrow> (w, flee_failed ''no_mover'')
                       | Some exits \<Rightarrow> AttemptFlee exits roomID actor w);
          w2 = (if fr_Success res then on_fight roomID (\<lambda>f. f\<lparr>ft_Fled := insert actor (ft_Fled f)\<rparr>) w1 else w1)
      in Publish (EvFlee roomID actor (fr_Success res) (fr_Direction res) (fr_ToRoomID res) (fr_Reason res)) w2)"

section \<open>Stances\<close>

definition resolveParry :: "int \<Rightarrow> int \<Rightarrow> ActorRef \<Rightarrow> CombatWorld \<Rightarrow> CombatWorld" where
  "resolveParry roomID round actor w =
     Publish (EvStance roomID actor ''parry'' zero_Ref)
       (on_fight roomID (\<lambda>f. f\<lparr>ft_ParryingUntil := map_put actor (round + 1) (ft_ParryingUntil f)\<rparr>) w)"

definition resolveDodge :: "int \<Rightarrow> int \<Rightarrow> ActorRef \<Rightarrow> CombatWorld \<Rightarrow> CombatWorld" where
  "resolveDodge roomID round actor w =
     Publish (EvStance roomID actor ''dodge'' zero_Ref)
       (on_fight roomID (\<lambda>f. f\<lparr>ft_DodgeUntil := map_put actor (round + 1) (ft_DodgeUntil f)\<rparr>) w)"

definition resolveSidestep :: "int \<Rightarrow> int \<Rightarrow> ActorRef \<Rightarrow> ActorRef \<Rightarrow> CombatWorld \<Rightarrow> CombatWorld" where
  "resolveSidestep roomID round actor target w =
     Publish (EvStance roomID actor ''sidestep'' target)
       (on_fight roomID (\<lambda>f. if list_ex (\<lambda>e. e_Ref e = target) (ft_Order f)
          then f\<lparr>ft_FlatFootedUntil := map_put target (round + 1) (ft_FlatFootedUntil f)\<rparr> else f) w)"

text \<open>A stance holds while its stamp is not below the round.\<close>

definition stance_holds :: "stances \<Rightarrow> ActorRef \<Rightarrow> int \<Rightarrow> bool" where
  "stance_holds s ref round = (case map_of s ref of None \<Rightarrow> False | Some v \<Rightarrow> v \<ge> round)"

section \<open>Landing a hit\<close>

definition write_back :: "ActorRef \<Rightarrow> Core \<Rightarrow> CombatWorld \<Rightarrow> CombatWorld" where
  "write_back target c w =
     (case rf_Kind target of
        ActorKindMob \<Rightarrow> on_mobs (\<lambda>r. mob_UpdateLive r (rf_ID target) (c_HPCurrent c) (c_Subdual c) (c_Conditions c) (c_Position c)) w
      | ActorKindCharacter \<Rightarrow>
          on_chars (\<lambda>r. repo_RecordCore r (rf_ID target) (c_HPCurrent c) (c_Subdual c) (c_Conditions c) (c_Position c)) w
      | ActorKindUnknown \<Rightarrow> w)"

definition bump_tally :: "ActorRef \<Rightarrow> ActorRef \<Rightarrow> int \<Rightarrow> Fight \<Rightarrow> Fight" where
  "bump_tally actor target amount f =
     (let f1 = f\<lparr>ft_DamageTally := map_put actor (i32 (map_get (ft_DamageTally f) actor 0 + amount)) (ft_DamageTally f)\<rparr>
      in if amount > 0
         then let row = map_get (ft_Threat f1) target []
              in f1\<lparr>ft_Threat := map_put target (map_put actor (i32 (map_get row actor 0 + amount)) row) (ft_Threat f1)\<rparr>
         else f1)"

definition dispatch_death :: "CombatEnv \<Rightarrow> ActorRef \<Rightarrow> ActorRef \<Rightarrow> CombatWorld \<Rightarrow> CombatWorld" where
  "dispatch_death env actor target w =
     (case rf_Kind target of ActorKindMob \<Rightarrow> handleMobDeath env actor target w
      | ActorKindCharacter \<Rightarrow> handleCharacterDeath env actor target w | ActorKindUnknown \<Rightarrow> w)"

definition stats_of :: "CombatWorld \<Rightarrow> int \<Rightarrow> WeaponStats" where
  "stats_of w weaponID =
     (if weaponID = 0 then unarmedDamage
      else case cw_Items w of None \<Rightarrow> unarmedDamage
        | Some items \<Rightarrow> (case item_GetByID items weaponID of Inl e \<Rightarrow> unarmedDamage | Inr it \<Rightarrow> weaponStatsFor (Some it)))"

section \<open>Fumbles and thrown weapons\<close>

definition handleFumble :: "int \<Rightarrow> ActorRef \<Rightarrow> Slot \<Rightarrow> CombatWorld \<Rightarrow> CombatWorld \<times> int" where
  "handleFumble roomID actor slot w =
     (case cw_Items w of None \<Rightarrow> (w, 0)
      | Some items \<Rightarrow>
          if rf_Kind actor \<noteq> ActorKindCharacter then (w, 0)
          else case repo_GetByID (cw_Chars w) (rf_ID actor) of Inl e \<Rightarrow> (w, 0)
            | Inr ch \<Rightarrow>
                let weaponID = equip_Get (ch_Equipment ch) slot
                in if weaponID = 0 then (w, 0)
                   else case repo_RecordEquipment (cw_Chars w) (rf_ID actor) (fst (equip_Set (ch_Equipment ch) slot 0)) of
                     (chars, Some e) \<Rightarrow> (w\<lparr>cw_Chars := chars\<rparr>, 0)
                   | (chars, None) \<Rightarrow>
                       (case item_SetRoom items weaponID roomID of
                          (items1, err) \<Rightarrow> (w\<lparr>cw_Chars := chars, cw_Items := Some items1\<rparr>,
                                            if err = None then weaponID else 0)))"

definition clearThrownWeapon :: "ActorRef \<Rightarrow> int \<Rightarrow> CombatWorld \<Rightarrow> CombatWorld" where
  "clearThrownWeapon actor weaponID w =
     (if rf_Kind actor \<noteq> ActorKindCharacter \<or> weaponID = 0 then w
      else case repo_GetByID (cw_Chars w) (rf_ID actor) of Inl e \<Rightarrow> w
        | Inr ch \<Rightarrow>
            if equip_Get (ch_Equipment ch) SlotPrimaryWield \<noteq> weaponID then w
            else on_chars (\<lambda>r. repo_RecordEquipment r (rf_ID actor) (fst (equip_Set (ch_Equipment ch) SlotPrimaryWield 0))) w)"

definition dropThrownItem :: "int \<Rightarrow> int \<Rightarrow> int \<Rightarrow> CombatWorld \<Rightarrow> CombatWorld" where
  "dropThrownItem itemID roomID corpseID w =
     (if itemID = 0 then w
      else if corpseID \<noteq> 0 then on_items (\<lambda>r. item_SetParent r itemID corpseID) w
      else on_items (\<lambda>r. item_SetRoom r itemID roomID) w)"

definition latestCorpseInRoom :: "int \<Rightarrow> CombatWorld \<Rightarrow> int" where
  "latestCorpseInRoom roomID w =
     (case cw_Items w of None \<Rightarrow> 0
      | Some items \<Rightarrow>
          fold (\<lambda>it latest. if it_Type it = ItemTypeContainer \<and> take 7 (it_ExternalID it) = ''corpse-'' \<and> it_ID it > latest
                            then it_ID it else latest) (in_room items roomID) 0)"

section \<open>One swing\<close>

text \<open>The weapon of the swing; \<open>None\<close> is the off-hand slot found empty.\<close>

definition swing_weapon :: "ActorRef \<Rightarrow> Action \<Rightarrow> Slot \<Rightarrow> CombatWorld \<Rightarrow> int option" where
  "swing_weapon actor action slot w =
     (if slot \<noteq> SlotOffHand then Some (a_WeaponID action)
      else let weaponID = (if rf_Kind actor \<noteq> ActorKindCharacter then 0
                           else case repo_GetByID (cw_Chars w) (rf_ID actor) of Inl e \<Rightarrow> 0
                             | Inr ch \<Rightarrow> equip_Get (ch_Equipment ch) SlotOffHand)
           in if weaponID = 0 then None else Some weaponID)"

text \<open>The three flags of the defender: flat-footed, parrying, dodging.\<close>

definition defender_flags :: "int \<Rightarrow> int \<Rightarrow> ActorRef \<Rightarrow> CombatWorld \<Rightarrow> bool \<times> bool \<times> bool" where
  "defender_flags roomID round target w =
     (case map_of (cw_Fights w) roomID of None \<Rightarrow> (False, False, False)
      | Some f \<Rightarrow>
          let dodging = stance_holds (ft_DodgeUntil f) target round
          in (\<not> dodging \<and> stance_holds (ft_FlatFootedUntil f) target round,
              stance_holds (ft_ParryingUntil f) target round, dodging))"

text \<open>The dice of a swing: the attack, the parry when the attack hits a parrying defender (\<open>None\<close>: not parried),
  the damage when it lands.\<close>

record SwingRoll =
  sr_Roll :: AttackRoll
  sr_Parried :: bool
  sr_ParryTotal :: int
  sr_Core :: Core
  sr_Dealt :: int

definition roll_swing ::
    "rng \<Rightarrow> Core \<Rightarrow> Core \<Rightarrow> WeaponStats \<Rightarrow> bool \<times> bool \<times> bool \<Rightarrow> AttackVariant \<Rightarrow> int \<Rightarrow> SwingRoll \<times> rng" where
  "roll_swing r atkCore defCore stats flags variant bonus =
     (case flags of (flatFooted, parrying, dodging) \<Rightarrow>
        let atkEff = Effective atkCore; defEff = Effective defCore;
            defForRoll = (if dodging then defEff\<lparr>c_Defense := i16 (c_Defense defEff + 4)\<rparr> else defEff);
            (roll, r1) = RollAttack r atkEff defForRoll stats flatFooted (VariantAttackBonus variant + bonus);
            (parryTotal, r2) = (if ar_Hit roll \<and> parrying then RollParry r1 defEff else (0, r1));
            parried = (ar_Hit roll \<and> parrying \<and> parryTotal > ar_Total roll);
            (raw, r3) = (if ar_Hit roll \<and> \<not> parried then RollDamage r2 atkEff stats (ar_IsCrit roll) variant else (0, r2));
            (core, amount) = (if ar_Hit roll \<and> \<not> parried then applyDamage defCore raw (weaponPrimaryDamageType stats)
                              else (defCore, 0))
        in (\<lparr>sr_Roll = roll, sr_Parried = parried, sr_ParryTotal = parryTotal, sr_Core = core, sr_Dealt = amount\<rparr>, r3))"

definition land_hit :: "CombatEnv \<Rightarrow> int \<Rightarrow> ActorRef \<Rightarrow> ActorRef \<Rightarrow> SwingRoll \<Rightarrow> combat_event \<Rightarrow> CombatWorld \<Rightarrow> CombatWorld" where
  "land_hit env roomID actor target sr ev w =
     (let w1 = Publish ev (on_fight roomID (bump_tally actor target (sr_Dealt sr)) (write_back target (sr_Core sr) w))
      in if c_HPCurrent (sr_Core sr) \<le> 0 then dispatch_death env actor target w1 else w1)"

definition miss_swing ::
    "int \<Rightarrow> ActorRef \<Rightarrow> Action \<Rightarrow> Slot \<Rightarrow> Core \<Rightarrow> bool \<Rightarrow> AttackRoll \<Rightarrow> CombatWorld \<Rightarrow> CombatWorld" where
  "miss_swing roomID actor action slot defEff dodging roll w =
     (if dodging \<and> ar_Total roll \<ge> c_Defense defEff
      then Publish (EvDodged roomID (a_Target action) actor (ar_Total roll) (i16 (c_Defense defEff + 4))) w
      else let (w1, droppedID) = (if ar_Fumble roll then handleFumble roomID actor slot w else (w, 0))
           in Publish (EvMiss roomID actor (a_Target action) (ar_Total roll) (c_Defense defEff) (a_Variant action)
                (ar_Fumble roll) droppedID (slot = SlotOffHand)) w1)"

definition resolveAttack ::
    "CombatEnv \<Rightarrow> int \<Rightarrow> int \<Rightarrow> ActorRef \<Rightarrow> Action \<Rightarrow> int \<Rightarrow> Slot \<Rightarrow> CombatWorld \<Rightarrow> CombatWorld" where
  "resolveAttack env roomID round actor action bonus slot w =
     (case resolveCore w actor of Inl e \<Rightarrow> w
      | Inr atkCore \<Rightarrow>
          (case resolveCore w (a_Target action) of
             Inl e \<Rightarrow> Publish (EvMiss roomID actor (a_Target action) 0 0 VariantNormal False 0 False) w
           | Inr defCore \<Rightarrow>
               (case swing_weapon actor action slot w of None \<Rightarrow> w
                | Some weaponID \<Rightarrow>
                    let flags = defender_flags roomID round (a_Target action) w;
                        (sr, r1) = roll_swing (cw_rng w) atkCore defCore (stats_of w weaponID) flags (a_Variant action) bonus;
                        w1 = w\<lparr>cw_rng := r1\<rparr>;
                        dodging = snd (snd flags)
                    in if sr_Parried sr then
                         Publish (EvParry roomID (a_Target action) actor (sr_ParryTotal sr) (ar_Total (sr_Roll sr)))
                           (on_fight roomID (\<lambda>f. f\<lparr>ft_ParryingUntil := map_del (a_Target action) (ft_ParryingUntil f),
                              ft_FlatFootedUntil := map_put actor (round + 1) (ft_FlatFootedUntil f)\<rparr>) w1)
                       else
                         let w2 = (if dodging
                                   then on_fight roomID (\<lambda>f. f\<lparr>ft_DodgeUntil := map_del (a_Target action) (ft_DodgeUntil f)\<rparr>) w1
                                   else w1)
                         in if \<not> ar_Hit (sr_Roll sr)
                            then miss_swing roomID actor action slot (Effective defCore) dodging (sr_Roll sr) w2
                            else land_hit env roomID actor (a_Target action) sr
                                   (EvHit roomID actor (a_Target action) (sr_Dealt sr) weaponID (ar_Threat (sr_Roll sr))
                                     (ar_IsCrit (sr_Roll sr)) (a_Variant action) (slot = SlotOffHand)) w2)))"

text \<open>A throw: the flat-footed flag alone counts, and the thrown weapon leaves the hand before any event.\<close>

definition resolveThrow :: "CombatEnv \<Rightarrow> int \<Rightarrow> int \<Rightarrow> ActorRef \<Rightarrow> Action \<Rightarrow> CombatWorld \<Rightarrow> CombatWorld" where
  "resolveThrow env roomID round actor action w =
     (let target = a_Target action; itemID = a_WeaponID action
      in if rf_Kind target = ActorKindUnknown \<or> itemID = 0 then w
         else case resolveCore w actor of Inl e \<Rightarrow> w
           | Inr atkCore \<Rightarrow>
               (case resolveCore w target of
                  Inl e \<Rightarrow> Publish (EvMiss roomID actor target 0 0 VariantNormal False 0 False) w
                | Inr defCore \<Rightarrow>
                    let flatFooted = (case map_of (cw_Fights w) roomID of None \<Rightarrow> False
                                      | Some f \<Rightarrow> stance_holds (ft_FlatFootedUntil f) target round);
                        itemName = (case cw_Items w of None \<Rightarrow> ''the weapon''
                          | Some items \<Rightarrow> (case item_GetByID items itemID of Inl e \<Rightarrow> ''the weapon''
                                          | Inr it \<Rightarrow> if it_Name it = [] then ''the weapon'' else it_Name it));
                        (sr, r1) = roll_swing (cw_rng w) atkCore defCore (stats_of w itemID) (flatFooted, False, False)
                                     VariantNormal 0;
                        w1 = clearThrownWeapon actor itemID (w\<lparr>cw_rng := r1\<rparr>);
                        thrown = (\<lambda>hit. EvThrow roomID actor target itemID itemName hit)
                    in if \<not> ar_Hit (sr_Roll sr) then
                         dropThrownItem itemID roomID 0
                           (Publish (thrown False)
                             (Publish (EvMiss roomID actor target (ar_Total (sr_Roll sr)) (c_Defense (Effective defCore))
                                VariantNormal False 0 False) w1))
                       else
                         let w2 = Publish (thrown True)
                                    (Publish (EvHit roomID actor target (sr_Dealt sr) itemID (ar_Threat (sr_Roll sr))
                                       (ar_IsCrit (sr_Roll sr)) VariantNormal False)
                                      (on_fight roomID (bump_tally actor target (sr_Dealt sr)) (write_back target (sr_Core sr) w1)))
                         in if c_HPCurrent (sr_Core sr) \<le> 0 then
                              let w3 = dispatch_death env actor target w2
                              in dropThrownItem itemID roomID
                                   (if rf_Kind target = ActorKindMob then latestCorpseInRoom roomID w3 else 0) w3
                            else dropThrownItem itemID roomID 0 w2))"

definition resolveAction ::
    "CombatEnv \<Rightarrow> int \<Rightarrow> int \<Rightarrow> ActorRef \<Rightarrow> Action \<Rightarrow> int \<Rightarrow> Slot \<Rightarrow> CombatWorld \<Rightarrow> CombatWorld" where
  "resolveAction env roomID round actor action bonus slot w0 =
     (let w = w0\<lparr>cw_Chars := drainStamina (ce_Catalog env) actor action (cw_Chars w0)\<rparr>
      in Publish (EvResolved roomID round actor (a_Kind action))
           (case a_Kind action of
              ActionParry \<Rightarrow> resolveParry roomID round actor w
            | ActionFlee \<Rightarrow> resolveFlee env roomID actor w
            | ActionDodge \<Rightarrow> resolveDodge roomID round actor w
            | ActionSidestep \<Rightarrow> resolveSidestep roomID round actor (a_Target action) w
            | ActionThrow \<Rightarrow> resolveThrow env roomID round actor action w
            | ActionAttack \<Rightarrow> resolveAttack env roomID round actor action bonus slot w
            | _ \<Rightarrow> w))"

section \<open>A pulse\<close>

text \<open>The affects of the characters in the order, read and written one by one.\<close>

definition tick_affects_of :: "int \<Rightarrow> ActorRef \<Rightarrow> CombatWorld \<Rightarrow> CombatWorld" where
  "tick_affects_of roomID ref w =
     (if rf_Kind ref \<noteq> ActorKindCharacter then w
      else case resolveCore w ref of Inl e \<Rightarrow> w
        | Inr core \<Rightarrow>
            if c_Affects core = [] then w
            else let (next, expired) = affects_Tick (c_Affects core)
                 in case repo_RecordAffects (cw_Chars w) (rf_ID ref) next of
                      (chars, Some e) \<Rightarrow> w\<lparr>cw_Chars := chars\<rparr>
                    | (chars, None) \<Rightarrow>
                        (let w1 = w\<lparr>cw_Chars := chars\<rparr>
                         in if expired = [] then w1
                            else Publish (EvAffectsExpired (rf_ID ref) roomID
                                   (map (\<lambda>a. (af_Name a, af_ExpireMessage a)) expired)) w1))"

definition tickParticipantAffects :: "int \<Rightarrow> CombatWorld \<Rightarrow> CombatWorld" where
  "tickParticipantAffects roomID w =
     (case map_of (cw_Fights w) roomID of None \<Rightarrow> w
      | Some f \<Rightarrow> fold (\<lambda>e. tick_affects_of roomID (e_Ref e)) (ft_Order f) w)"

text \<open>The ready actors with their rounds and swing plans; the round counter grows with each.\<close>

type_synonym ready = "ActorRef \<times> int \<times> SwingPlan list"

fun ready_loop :: "int \<Rightarrow> int \<Rightarrow> ActorEntry list \<Rightarrow> int \<times> ready list" where
  "ready_loop now round [] = (round, [])"
| "ready_loop now round (e # order) =
     (if e_NextActAt e > now then ready_loop now round order
      else let plan = (if e_Swings e = [] then [primary_swing] else e_Swings e);
               (round', rs) = ready_loop now (round + 1) order
           in (round', (e_Ref e, round + 1, plan) # rs))"

text \<open>Popping the queued actions; an actor with none gets the zero action and counts as idle.\<close>

fun pop_loop :: "ready list \<Rightarrow> Fight \<Rightarrow> (ActorRef \<times> Action option) list \<Rightarrow> Fight \<times> (ActorRef \<times> Action option) list" where
  "pop_loop [] f pendings = (f, pendings)"
| "pop_loop ((ref, round, plan) # rs) f pendings =
     (let (f1, a) = popAction ref f in pop_loop rs f1 (map_put ref a pendings))"

text \<open>The chain of swings of one actor; later swings are gated by stamina and by the target.\<close>

fun swing_loop ::
    "CombatEnv \<Rightarrow> int \<Rightarrow> int \<Rightarrow> ActorRef \<Rightarrow> Action \<Rightarrow> bool \<Rightarrow> SwingPlan list \<Rightarrow> CombatWorld \<Rightarrow> int \<Rightarrow> CombatWorld \<times> int" where
  "swing_loop env roomID round actor action first [] w cost = (w, cost)"
| "swing_loop env roomID round actor action first (s # ss) w cost =
     (if \<not> first \<and> \<not> hasStaminaFor (cw_Chars w) (ce_Catalog env) actor action then (w, cost)
      else if \<not> first \<and> iterativeTargetGone (map_of (cw_Fights w) roomID) (a_Target action) then (w, cost)
      else let w1 = resolveAction env roomID round actor action (sw_Bonus s) (sw_Slot s) w
           in swing_loop env roomID round actor action False ss w1
                (i64 (cost + actorActionCost (cw_Chars w1) (cw_Mobs w1) (cw_Items w1) (ce_Catalog env) actor action (sw_Slot s))))"

definition act :: "CombatEnv \<Rightarrow> int \<Rightarrow> ready \<Rightarrow> Action option \<Rightarrow> CombatWorld \<Rightarrow> CombatWorld \<times> int" where
  "act env roomID r pending w =
     (case r of (ref, round, plan) \<Rightarrow>
        case pending of
          None \<Rightarrow> (w, actorActionCost (cw_Chars w) (cw_Mobs w) (cw_Items w) (ce_Catalog env) ref zero_Action SlotPrimaryWield)
        | Some action \<Rightarrow>
            swing_loop env roomID round ref action True (if a_Kind action = ActionAttack then plan else [primary_swing]) w 0)"

text \<open>The stamp on the first entry of the actor.\<close>

fun stamp_entry :: "ActorRef \<Rightarrow> int \<Rightarrow> int \<Rightarrow> ActorEntry list \<Rightarrow> ActorEntry list" where
  "stamp_entry ref now cost [] = []"
| "stamp_entry ref now cost (e # order) =
     (if e_Ref e = ref then e\<lparr>e_LastActedAt := Some now, e_NextActAt := now + cost\<rparr> # order
      else e # stamp_entry ref now cost order)"

fun act_loop :: "CombatEnv \<Rightarrow> int \<Rightarrow> int \<Rightarrow> (ActorRef \<times> Action option) list \<Rightarrow> ready list \<Rightarrow> CombatWorld \<Rightarrow> CombatWorld" where
  "act_loop env roomID now pendings [] w = w"
| "act_loop env roomID now pendings ((ref, round, plan) # rs) w =
     (let (w1, cost) = act env roomID (ref, round, plan) (map_get pendings ref None) (Publish (EvRound roomID round ref) w);
          w2 = on_fight roomID (\<lambda>f. f\<lparr>ft_Order := stamp_entry ref now cost (ft_Order f)\<rparr>) w1
      in act_loop env roomID now pendings rs w2)"

definition tickRoom :: "CombatEnv \<Rightarrow> int \<Rightarrow> CombatWorld \<Rightarrow> CombatWorld" where
  "tickRoom env roomID w =
     (case map_of (cw_Fights w) roomID of None \<Rightarrow> w
      | Some f0 \<Rightarrow>
          if \<not> fightHasLiveParticipants (ft_RoomID f0) (ft_Order f0) w then close_fight roomID ''no_participants'' w
          else let f = fst (pruneDead f0)
               in if ft_Order f = [] then close_fight roomID ''no_participants'' w
                  else let (now, w1) = combat_now w;
                           (round, rs) = ready_loop now (ft_Round f) (ft_Order f);
                           (f1, pendings) = pop_loop rs (f\<lparr>ft_Round := round\<rparr>) [];
                           w2 = w1\<lparr>cw_Fights := map_put roomID f1 (cw_Fights w1)\<rparr>
                       in tickParticipantAffects roomID (act_loop env roomID now pendings rs w2))"

definition Tick :: "CombatEnv \<Rightarrow> CombatWorld \<Rightarrow> CombatWorld" where
  "Tick env w = fold (tickRoom env) (map fst (cw_Fights w)) w"

section \<open>What the steps of a pulse keep of the fights\<close>

text \<open>An entry without its clock; two fights with the same participants.\<close>

definition frozen :: "ActorEntry \<Rightarrow> ActorEntry" where
  "frozen e = e\<lparr>e_NextActAt := 0, e_LastActedAt := None\<rparr>"

definition same_fight :: "Fight \<Rightarrow> Fight \<Rightarrow> bool" where
  "same_fight f g \<longleftrightarrow> ft_RoomID g = ft_RoomID f \<and> ft_Order g = ft_Order f \<and> ft_Round g = ft_Round f
     \<and> ft_Actions g = ft_Actions f"

definition alike :: "Fight \<Rightarrow> Fight \<Rightarrow> bool" where
  "alike f g \<longleftrightarrow> ft_RoomID g = ft_RoomID f \<and> map frozen (ft_Order g) = map frozen (ft_Order f)"

definition fights_rel :: "(Fight \<Rightarrow> Fight \<Rightarrow> bool) \<Rightarrow> CombatWorld \<Rightarrow> CombatWorld \<Rightarrow> bool" where
  "fights_rel R w v \<longleftrightarrow> map fst (cw_Fights v) = map fst (cw_Fights w)
     \<and> (\<forall>r. rel_option R (map_of (cw_Fights w) r) (map_of (cw_Fights v) r))"

abbreviation fights_same :: "CombatWorld \<Rightarrow> CombatWorld \<Rightarrow> bool" where "fights_same \<equiv> fights_rel same_fight"
abbreviation fights_alike :: "CombatWorld \<Rightarrow> CombatWorld \<Rightarrow> bool" where "fights_alike \<equiv> fights_rel alike"

named_theorems fights_intro "what keeps the participants of every fight"

lemma same_fight_refl: "same_fight f f"
  by (simp add: same_fight_def)

lemma fights_rel_eq: "(\<And>f. R f f) \<Longrightarrow> cw_Fights v = cw_Fights w \<Longrightarrow> fights_rel R w v"
  by (simp add: fights_rel_def option.rel_refl)

lemma fights_same_eq: "cw_Fights v = cw_Fights w \<Longrightarrow> fights_same w v"
  by (rule fights_rel_eq) (rule same_fight_refl)

lemma fights_rel_trans:
  assumes "fights_rel R u v" "fights_rel R v w" "\<And>f g h. R f g \<Longrightarrow> R g h \<Longrightarrow> R f h"
  shows "fights_rel R u w"
proof -
  have "rel_option R (map_of (cw_Fights u) r) (map_of (cw_Fights w) r)" for r
  proof -
    have "rel_option R (map_of (cw_Fights u) r) (map_of (cw_Fights v) r)"
      "rel_option R (map_of (cw_Fights v) r) (map_of (cw_Fights w) r)"
      using assms(1,2) by (simp_all add: fights_rel_def)
    then show ?thesis
      by (cases "map_of (cw_Fights u) r"; cases "map_of (cw_Fights v) r"; cases "map_of (cw_Fights w) r")
        (auto dest: assms(3))
  qed
  then show ?thesis using assms(1,2) by (simp add: fights_rel_def)
qed

lemma fights_same_trans: "fights_same u v \<Longrightarrow> fights_same v w \<Longrightarrow> fights_same u w"
  by (erule (1) fights_rel_trans) (simp add: same_fight_def)

lemma fights_alike_trans: "fights_alike u v \<Longrightarrow> fights_alike v w \<Longrightarrow> fights_alike u w"
  by (erule (1) fights_rel_trans) (simp add: alike_def)

lemma fights_same_alike: "fights_same u v \<Longrightarrow> fights_alike u v"
proof -
  assume h: "fights_same u v"
  have "rel_option alike (map_of (cw_Fights u) r) (map_of (cw_Fights v) r)" for r
  proof -
    have "rel_option same_fight (map_of (cw_Fights u) r) (map_of (cw_Fights v) r)"
      using h by (simp add: fights_rel_def)
    then show ?thesis
      by (cases "map_of (cw_Fights u) r"; cases "map_of (cw_Fights v) r") (auto simp: same_fight_def alike_def)
  qed
  then show ?thesis using h by (simp add: fights_rel_def)
qed

lemma fights_same_via: "fights_same w v \<Longrightarrow> cw_Fights v' = cw_Fights v \<Longrightarrow> fights_same w v'"
  using fights_same_trans fights_same_eq by blast

lemma fights_same_Publish [fights_intro]: "fights_same w v \<Longrightarrow> fights_same w (Publish e v)"
  by (erule fights_same_via) simp

lemma put_same_keys: "k \<in> set (keys m) \<Longrightarrow> keys (map_put k v m) = keys m"
  by (induction m) auto

lemma fights_rel_on_fight:
  assumes "\<And>f. R f f" "\<And>f. R f (g f)"
  shows "fights_rel R v (on_fight r g v)"
proof (cases "map_of (cw_Fights v) r")
  case (Some f)
  then have "r \<in> set (keys (cw_Fights v))" by (metis image_set map_of_SomeD fst_conv imageI)
  from put_same_keys [OF this] assms show ?thesis
    by (simp add: fights_rel_def on_fight_def Some map_of_put option.rel_refl)
qed (simp add: on_fight_def fights_rel_eq assms(1))

lemma fights_same_on_fight [fights_intro]:
  "fights_same w v \<Longrightarrow> (\<And>f. same_fight f (g f)) \<Longrightarrow> fights_same w (on_fight r g v)"
  by (rule fights_same_trans) (auto intro: fights_rel_on_fight same_fight_refl)

lemma same_fight_mark: "same_fight f (mark_dead ref f)"
  by (simp add: same_fight_def mark_dead_def)

lemma same_fight_bump: "same_fight f (bump_tally actor target n f)"
  by (simp add: same_fight_def bump_tally_def Let_def)

lemma fights_same_markAll [fights_intro]: "fights_same w v \<Longrightarrow> fights_same w (markDeadAllRooms ref v)"
proof (rule fights_same_trans, assumption)
  have m: "map_of (map (\<lambda>(r, f). (r, mark_dead ref f)) fs) r = map_option (mark_dead ref) (map_of fs r)" for fs r
    by (induction fs) auto
  have "rel_option same_fight x (map_option (mark_dead ref) x)" for x
    by (cases x) (simp_all add: same_fight_mark)
  then show "fights_same v (markDeadAllRooms ref v)"
    by (simp add: fights_rel_def markDeadAllRooms_def m comp_def split_beta)
qed

lemma item_step_fights: "item_step w v \<Longrightarrow> cw_Fights v = cw_Fights w"
  by (simp add: item_step_def)

lemma mob_death_fights [fights_intro]: "fights_same u w \<Longrightarrow> fights_same u (handleMobDeath env killer victim w)"
proof (rule fights_same_trans, assumption)
  show "fights_same w (handleMobDeath env killer victim w)"
  proof (cases "mob_GetByID (cw_Mobs w) (rf_ID victim)")
    case (Inr mob)
    obtain w1 k where s: "spawnCorpse mob w = (w1, k)" by (cases "spawnCorpse mob w")
    have f: "cw_Fights (despawn (rf_ID victim) (dropGoldPile k tmpl (transferLootIntoCorpse mob k w1))) = cw_Fights w" for tmpl
      using item_step_fights [OF item_step_gold, of k tmpl "transferLootIntoCorpse mob k w1"]
        item_step_fights [OF item_step_loot, of mob k w1] item_step_fights [OF item_step_spawn(1), of mob w] s by simp
    have "fights_same w (on_fight r (mark_dead victim) (despawn (rf_ID victim) (dropGoldPile k tmpl (transferLootIntoCorpse mob k w1))))"
      for r tmpl
      by (rule fights_same_on_fight [OF fights_same_eq [OF f] same_fight_mark])
    from fights_same_via [OF fights_same_Publish [OF this]] show ?thesis
      by (simp add: handleMobDeath_def Inr s Let_def)
  qed (simp add: handleMobDeath_def fights_same_markAll fights_same_eq)
qed

lemma drop_loot_fights: "cw_Fights (fst (dropCharacterLoot ch w)) = cw_Fights w"
proof -
  obtain w1 k where s: "spawnPlayerCorpse ch w = (w1, k)" by (cases "spawnPlayerCorpse ch w")
  have "cw_Fights w1 = cw_Fights w" using item_step_fights [OF item_step_spawn(2), of ch w] s by simp
  moreover have "cw_Fights (transferCharacterInventory c k v) = cw_Fights v" for c v
    using item_step_fights [OF item_step_inventory] .
  moreover have "cw_Fights (transferCharacterEquipment c eq k v) = cw_Fights v" for c eq v
    by (simp add: transferCharacterEquipment_def fold_on_items)
  moreover have "cw_Fights (dropCarriedCoin ch k v) = cw_Fights v" for v
    using drop_step_coin by (simp add: drop_step_def)
  ultimately show ?thesis by (simp add: dropCharacterLoot_def s Let_def)
qed

lemma char_death_fights [fights_intro]: "fights_same u w \<Longrightarrow> fights_same u (handleCharacterDeath env killer victim w)"
proof (rule fights_same_trans, assumption)
  show "fights_same w (handleCharacterDeath env killer victim w)"
  proof (cases "repo_GetByID (cw_Chars w) (rf_ID victim)")
    case (Inr ch)
    obtain w1 k dropped where p: "(if ce_DropOnDeath env \<and> cw_Items w \<noteq> None then dropCharacterLoot ch w else (w, 0, False))
        = (w1, k, dropped)" by (metis prod_cases3)
    then have f: "cw_Fights w1 = cw_Fights w" using drop_loot_fights [of ch w] by (auto split: if_splits)
    have "cw_Fights (respawn ch b d w1) = cw_Fights w" for b d
      using respawn_frame [of w1 ch b d] f by (simp add: drop_step_def)
    then have "fights_same w (on_fight r (mark_dead victim) (respawn ch b d w1))" for r b d
      by (intro fights_same_on_fight fights_same_eq same_fight_mark)
    from fights_same_via [OF fights_same_Publish [OF fights_same_Publish [OF this]]] show ?thesis
      unfolding handleCharacterDeath_def Inr sum.case Let_def p prod.case by simp
  qed (simp add: handleCharacterDeath_def fights_same_markAll fights_same_eq)
qed

lemma dispatch_death_fights [fights_intro]: "fights_same u w \<Longrightarrow> fights_same u (dispatch_death env actor target w)"
  by (simp add: dispatch_death_def fights_intro split: ActorKind.split)

lemma fights_same_write [fights_intro]: "fights_same u w \<Longrightarrow> fights_same u (write_back target c w)"
  by (erule fights_same_via) (simp add: write_back_def split: ActorKind.split)

lemma fights_same_land [fights_intro]: "fights_same u w \<Longrightarrow> fights_same u (land_hit env roomID actor target sr ev w)"
  by (simp add: land_hit_def Let_def fights_intro same_fight_bump)

lemma fumble_fights [simp]: "cw_Fights (fst (handleFumble roomID actor slot w)) = cw_Fights w"
  by (simp add: handleFumble_def Let_def split: option.split sum.split prod.split)

lemma thrown_fights [simp]: "cw_Fights (clearThrownWeapon actor weaponID w) = cw_Fights w"
  by (simp add: clearThrownWeapon_def split: sum.split)

lemma fights_same_fields [fights_intro]:
  "fights_same u w \<Longrightarrow> fights_same u (w\<lparr>cw_rng := r\<rparr>)"
  "fights_same u w \<Longrightarrow> fights_same u (w\<lparr>cw_Chars := chars\<rparr>)"
  "fights_same u w \<Longrightarrow> fights_same u (clearThrownWeapon actor weaponID w)"
  "fights_same u w \<Longrightarrow> fights_same u (dropThrownItem itemID roomID corpseID w)"
  by (erule fights_same_via, simp)+ (erule fights_same_via, simp add: dropThrownItem_def)

lemma fights_same_miss [fights_intro]:
  "fights_same u w \<Longrightarrow> fights_same u (miss_swing roomID actor action slot defEff dodging roll w)"
  by (erule fights_same_via) (simp add: miss_swing_def Let_def split_beta)

lemma same_fight_stances:
  "same_fight f (f\<lparr>ft_ParryingUntil := a\<rparr>)" "same_fight f (f\<lparr>ft_DodgeUntil := a\<rparr>)"
  "same_fight f (f\<lparr>ft_FlatFootedUntil := a\<rparr>)" "same_fight f (f\<lparr>ft_ParryingUntil := a, ft_FlatFootedUntil := b\<rparr>)"
  "same_fight f (f\<lparr>ft_Fled := s\<rparr>)"
  "same_fight f (if c then f\<lparr>ft_FlatFootedUntil := a\<rparr> else f)"
  by (simp_all add: same_fight_def)

lemma fights_same_refl: "fights_same w w"
  by (simp add: fights_same_eq)

lemmas fights_rules = fights_intro same_fight_stances same_fight_bump fights_same_refl

lemma fights_same_attack: "fights_same w (resolveAttack env roomID round actor action bonus slot w)"
proof (cases "resolveCore w actor")
  case atk: (Inr atkCore)
  show ?thesis
  proof (cases "resolveCore w (a_Target action)")
    case def: (Inr defCore)
    show ?thesis
    proof (cases "swing_weapon actor action slot w")
      case (Some weaponID)
      obtain sr r1 where r: "roll_swing (cw_rng w) atkCore defCore (stats_of w weaponID)
          (defender_flags roomID round (a_Target action) w) (a_Variant action) bonus = (sr, r1)" by fastforce
      show ?thesis
        unfolding resolveAttack_def atk def Some sum.case option.case Let_def r prod.case
        by (auto intro!: fights_rules)
    qed (simp add: resolveAttack_def atk def fights_same_eq)
  qed (simp add: resolveAttack_def atk fights_rules)
qed (simp add: resolveAttack_def fights_same_eq)

lemma fights_same_throw: "fights_same w (resolveThrow env roomID round actor action w)"
proof (cases "rf_Kind (a_Target action) = ActorKindUnknown \<or> a_WeaponID action = 0")
  case False
  show ?thesis
  proof (cases "resolveCore w actor")
    case atk: (Inr atkCore)
    show ?thesis
    proof (cases "resolveCore w (a_Target action)")
      case def: (Inr defCore)
      obtain sr r1 where r: "roll_swing (cw_rng w) atkCore defCore (stats_of w (a_WeaponID action))
          (case map_of (cw_Fights w) roomID of None \<Rightarrow> False
           | Some f \<Rightarrow> stance_holds (ft_FlatFootedUntil f) (a_Target action) round, False, False) VariantNormal 0 = (sr, r1)"
        by fastforce
      show ?thesis
        unfolding resolveThrow_def atk def sum.case Let_def r prod.case using False
        by (auto intro!: fights_rules)
    qed (use False in \<open>simp add: resolveThrow_def atk fights_rules\<close>)
  qed (use False in \<open>simp add: resolveThrow_def fights_same_eq\<close>)
qed (simp add: resolveThrow_def fights_same_eq)

lemma now_fights [simp]: "combat_now w = (now, v) \<Longrightarrow> cw_Fights v = cw_Fights w"
  using combat_now_frame(4) [of w] by simp

lemma flee_fights: "cw_Fights (fst (AttemptFlee exits roomID actor w)) = cw_Fights w"
  by (simp add: AttemptFlee_def Let_def split_beta split: option.split ActorKind.split)

lemma fights_same_flee: "fights_same w (resolveFlee env roomID actor w)"
proof -
  obtain w1 res where p: "(case ce_FleeExits env of None \<Rightarrow> (w, flee_failed ''no_mover'')
      | Some exits \<Rightarrow> AttemptFlee exits roomID actor w) = (w1, res)" by fastforce
  then have "cw_Fights w1 = cw_Fights w" using flee_fights [of _ roomID actor w] by (auto split: option.splits) (metis fst_conv)
  then have "fights_same w w1" by (rule fights_same_eq)
  then show ?thesis
    unfolding resolveFlee_def p Let_def prod.case by (auto intro!: fights_intro same_fight_stances)
qed

lemma fights_same_action: "fights_same w (resolveAction env roomID round actor action bonus slot w)"
proof -
  let ?v = "w\<lparr>cw_Chars := drainStamina (ce_Catalog env) actor action (cw_Chars w)\<rparr>"
  have v: "fights_same w ?v" by (simp add: fights_same_eq)
  have s: "fights_same ?v (resolveParry roomID round actor ?v)" "fights_same ?v (resolveDodge roomID round actor ?v)"
    "fights_same ?v (resolveSidestep roomID round actor target ?v)" for target
    by (auto simp: resolveParry_def resolveDodge_def resolveSidestep_def intro!: fights_rules)
  show ?thesis
    unfolding resolveAction_def Let_def
    using s fights_same_attack [of ?v] fights_same_throw [of ?v] fights_same_flee [of ?v] v
    by (intro fights_same_Publish) (auto split: ActionKind.split intro: fights_same_trans [OF v])
qed

lemma fights_same_swings: "fights_same w (fst (swing_loop env roomID round actor action first ss w cost))"
proof (induction ss arbitrary: first w cost)
  case (Cons s ss)
  show ?case using fights_same_trans [OF fights_same_action Cons.IH] fights_same_eq [of w w] by (simp add: Let_def)
qed (simp add: fights_same_eq)

lemma fights_same_act: "fights_same w (fst (act env roomID r pending w))"
  by (simp add: act_def fights_same_swings fights_same_eq split: prod.split option.split)

lemma stamp_frozen: "map frozen (stamp_entry ref now cost order) = map frozen order"
  by (induction order) (simp_all add: frozen_def)

lemma fights_alike_acts: "fights_alike w (act_loop env roomID now pendings rs w)"
proof (induction rs arbitrary: w)
  case (Cons r rs)
  obtain ref round plan where r: "r = (ref, round, plan)" by (cases r)
  let ?w = "Publish (EvRound roomID round ref) w"
  obtain w1 cost where a: "act env roomID r (map_get pendings ref None) ?w = (w1, cost)" by fastforce
  have "fights_same ?w w1" using fights_same_act [of ?w env roomID r "map_get pendings ref None"] by (simp add: a)
  then have "fights_same w w1" using fights_same_trans [of w ?w w1] by (simp add: fights_same_eq)
  moreover have "fights_alike w1 (on_fight roomID (\<lambda>f. f\<lparr>ft_Order := stamp_entry ref now cost (ft_Order f)\<rparr>) w1)"
    by (rule fights_rel_on_fight) (simp_all add: alike_def stamp_frozen)
  ultimately have "fights_alike w (on_fight roomID (\<lambda>f. f\<lparr>ft_Order := stamp_entry ref now cost (ft_Order f)\<rparr>) w1)"
    using fights_alike_trans fights_same_alike by blast
  from fights_alike_trans [OF this Cons.IH] a show ?case by (simp add: r)
qed (simp add: fights_same_alike fights_same_eq)

lemma fights_same_affects: "fights_same w (tickParticipantAffects roomID w)"
proof -
  have one: "cw_Fights (tick_affects_of roomID ref v) = cw_Fights v" for ref v
    by (simp add: tick_affects_of_def Let_def split: sum.split prod.split option.split)
  have "cw_Fights (fold (\<lambda>e. tick_affects_of roomID (e_Ref e)) es v) = cw_Fights v" for es v
    by (induction es arbitrary: v) (simp_all add: one)
  then show ?thesis by (auto simp: tickParticipantAffects_def intro: fights_same_eq split: option.split)
qed

section \<open>The invariant of every fight\<close>

definition fight_ok :: "int \<Rightarrow> Fight \<Rightarrow> bool" where
  "fight_ok r f \<longleftrightarrow> ft_RoomID f = r \<and> ft_Order f \<noteq> [] \<and> initiative.ordered (ft_Order f)
     \<and> (\<forall>e\<in>set (ft_Order f). e_Swings e \<noteq> [] \<and> hd (e_Swings e) = primary_swing)"

definition fights_ok :: "CombatWorld \<Rightarrow> bool" where
  "fights_ok w \<longleftrightarrow> distinct (keys (cw_Fights w)) \<and> (\<forall>r f. map_of (cw_Fights w) r = Some f \<longrightarrow> fight_ok r f)"

lemma frozen_facts [simp]: "e_Ref (frozen e) = e_Ref e" "e_Swings (frozen e) = e_Swings e"
  "initiative_less (frozen e) (frozen d) = initiative_less e d"
  by (simp_all add: frozen_def initiative_less_def)

lemma ordered_frozen: "initiative.ordered (map frozen es) \<longleftrightarrow> initiative.ordered es"
  by (simp add: sorted_wrt_map)

lemma alike_ok: "alike f g \<Longrightarrow> fight_ok r f \<Longrightarrow> fight_ok r g"
proof -
  assume s: "alike f g" and ok: "fight_ok r f"
  have m: "map frozen (ft_Order g) = map frozen (ft_Order f)" using s by (simp add: alike_def)
  have "frozen ` set (ft_Order g) = frozen ` set (ft_Order f)" using m by (metis set_map)
  then have sw: "\<exists>d\<in>set (ft_Order f). e_Swings e = e_Swings d" if "e \<in> set (ft_Order g)" for e
    using that by (metis frozen_facts(2) image_iff)
  have "initiative.ordered (ft_Order g)" using m ok by (metis fight_ok_def ordered_frozen)
  moreover have "ft_Order g \<noteq> []" using m ok by (auto simp: fight_ok_def)
  ultimately show ?thesis using s ok sw by (force simp: fight_ok_def alike_def)
qed

lemma fights_alike_ok: "fights_alike w v \<Longrightarrow> fights_ok w \<Longrightarrow> fights_ok v"
proof -
  assume s: "fights_alike w v" and ok: "fights_ok w"
  have "fight_ok r g" if "map_of (cw_Fights v) r = Some g" for r g
  proof -
    have "rel_option alike (map_of (cw_Fights w) r) (Some g)" using s that by (metis fights_rel_def)
    then obtain f where "map_of (cw_Fights w) r = Some f" "alike f g" by (cases "map_of (cw_Fights w) r") auto
    with ok alike_ok show ?thesis unfolding fights_ok_def by blast
  qed
  then show ?thesis using s ok by (simp add: fights_ok_def fights_rel_def)
qed

lemmas fights_same_ok = fights_alike_ok [OF fights_same_alike]

lemma fights_ok_eq: "cw_Fights v = cw_Fights w \<Longrightarrow> fights_ok w \<Longrightarrow> fights_ok v"
  by (simp add: fights_ok_def)

lemma fights_ok_close: "fights_ok w \<Longrightarrow> fights_ok (close_fight r reason w)"
  by (simp add: fights_ok_def close_fight_def)

lemma fights_ok_put: "fights_ok w \<Longrightarrow> fight_ok r f \<Longrightarrow> fights_ok (w\<lparr>cw_Fights := map_put r f (cw_Fights w)\<rparr>)"
  by (simp add: fights_ok_def map_of_put)

lemma roll_entries_spec:
  "roll_entries refs w = (v, Inr es) \<Longrightarrow> map e_Ref es = refs \<and> cw_Fights v = cw_Fights w
     \<and> cw_Chars v = cw_Chars w \<and> cw_Mobs v = cw_Mobs w \<and> cw_Items v = cw_Items w \<and> cw_clock v = cw_clock w
     \<and> (\<forall>e\<in>set es. e_Swings e \<noteq> [] \<and> hd (e_Swings e) = primary_swing
          \<and> (\<exists>core. resolveCore w (e_Ref e) = Inr core \<and> 1 \<le> e_Tiebreak e \<and> e_Tiebreak e \<le> 20
               \<and> e_Initiative e = e_Tiebreak e + DexMod (c_Abilities core) + c_InitMod core))"
proof (induction refs arbitrary: w v es)
  case (Cons ref refs)
  obtain core where core: "resolveCore w ref = Inr core" using Cons.prems by (cases "resolveCore w ref") auto
  obtain e w1 where e: "rollInitiative ref core w = (e, w1)" by fastforce
  obtain es' where es: "roll_entries refs w1 = (v, Inr es')" "es = e # es'"
    using Cons.prems by (auto simp: core e split: prod.splits sum.splits)
  have b: "IterativeBonusesFor bab = 0 # tl (IterativeBonusesFor bab)" for bab by (simp add: IterativeBonusesFor_def)
  have sw: "swing_plan bab off \<noteq> []" "hd (swing_plan bab off) = primary_swing" for bab off
    by (subst swing_plan_def, subst b, simp add: primary_swing_def)+
  have same: "resolveCore w1 r = resolveCore w r" for r
    using e by (cases "rf_Kind r") (auto simp: rollInitiative_def Let_def split_beta resolveCore_def)
  from e have f: "e_Ref e = ref" "cw_Fights w1 = cw_Fights w" "cw_Chars w1 = cw_Chars w" "cw_Mobs w1 = cw_Mobs w"
      "cw_Items w1 = cw_Items w" "cw_clock w1 = cw_clock w" "e_Swings e \<noteq> []" "hd (e_Swings e) = primary_swing"
      "1 \<le> e_Tiebreak e" "e_Tiebreak e \<le> 20"
      "e_Initiative e = e_Tiebreak e + DexMod (c_Abilities core) + c_InitMod core"
    using sw Intn_bounds [of 20 "cw_rng w"] by (auto simp: rollInitiative_def Let_def split_beta)
  show ?case using Cons.IH [OF es(1)] f core by (auto simp: es(2) same)
qed simp

lemma new_fight_ok:
  assumes "es \<noteq> []" "\<forall>e\<in>set es. e_Swings e \<noteq> [] \<and> hd (e_Swings e) = primary_swing"
  shows "fight_ok r (new_fight r (sortInitiative es) now)"
proof -
  have "initiative.ordered (sortInitiative es)" unfolding sortInitiative_def by (rule initiative.ordered_SliceStable)
  moreover have "initiative_less (e\<lparr>e_NextActAt := now\<rparr>) (d\<lparr>e_NextActAt := now\<rparr>) = initiative_less e d" for e d
    by (simp add: initiative_less_def)
  ultimately have "initiative.ordered (map (\<lambda>e. e\<lparr>e_NextActAt := now\<rparr>) (sortInitiative es))"
    by (simp add: sorted_wrt_map)
  moreover have "set (sortInitiative es) = set es" "sortInitiative es \<noteq> []"
    using assms(1) length_SliceStable [of initiative_less es] by (auto simp: sortInitiative_def simp del: length_SliceStable)
  ultimately show ?thesis using assms(2) by (auto simp: fight_ok_def new_fight_def)
qed

lemma pruned_order: "(\<exists>P. ft_Order (fst (pruneDead f)) = filter P (ft_Order f)) \<and> ft_RoomID (fst (pruneDead f)) = ft_RoomID f"
proof (cases "ft_Dead f = {} \<and> ft_Fled f = {}")
  case True
  then show ?thesis by (simp add: pruneDead_def) (rule exI [of _ "\<lambda>e. True"], simp)
next
  case False
  then show ?thesis by (auto simp: pruneDead_def prune_loop_spec Let_def)
qed

lemma prune_ok: "fight_ok r f \<Longrightarrow> ft_Order (fst (pruneDead f)) \<noteq> [] \<Longrightarrow> fight_ok r (fst (pruneDead f))"
proof -
  assume ok: "fight_ok r f" and ne: "ft_Order (fst (pruneDead f)) \<noteq> []"
  have "\<exists>P. ft_Order (fst (pruneDead f)) = filter P (ft_Order f)" "ft_RoomID (fst (pruneDead f)) = ft_RoomID f"
    using pruned_order [of f] by blast+
  with ok ne show ?thesis by (auto simp: fight_ok_def sorted_wrt_filter)
qed

lemma pop_loop_order: "ft_Order (fst (pop_loop rs f ps)) = ft_Order f \<and> ft_RoomID (fst (pop_loop rs f ps)) = ft_RoomID f"
  by (induction rs f ps rule: pop_loop.induct) (auto simp: popAction_def Let_def split_beta split: option.split)

lemma tickRoom_ok: "fights_ok w \<Longrightarrow> fights_ok (tickRoom env roomID w)"
proof (cases "map_of (cw_Fights w) roomID")
  case (Some f0)
  assume ok: "fights_ok w"
  define f where "f = fst (pruneDead f0)"
  show ?thesis
  proof (cases "\<not> fightHasLiveParticipants (ft_RoomID f0) (ft_Order f0) w \<or> ft_Order f = []")
    case True
    then show ?thesis using fights_ok_close [OF ok] by (auto simp: tickRoom_def Some f_def Let_def)
  next
    case False
    obtain now w1 where t: "combat_now w = (now, w1)" by fastforce
    obtain round rs where r: "ready_loop now (ft_Round f) (ft_Order f) = (round, rs)" by fastforce
    obtain f1 ps where p: "pop_loop rs (f\<lparr>ft_Round := round\<rparr>) [] = (f1, ps)" by fastforce
    have fo: "fight_ok roomID f"
      using prune_ok [of roomID f0] ok Some False by (auto simp: fights_ok_def f_def)
    then have "fight_ok roomID f1"
      using pop_loop_order [of rs "f\<lparr>ft_Round := round\<rparr>" "[]"] by (simp add: p fight_ok_def)
    then have "fights_ok (w1\<lparr>cw_Fights := map_put roomID f1 (cw_Fights w1)\<rparr>)"
      using fights_ok_put [of w1] fights_ok_eq [OF now_fights [OF t] ok] by blast
    then have "fights_ok (tickParticipantAffects roomID (act_loop env roomID now ps rs
        (w1\<lparr>cw_Fights := map_put roomID f1 (cw_Fights w1)\<rparr>)))"
      using fights_alike_ok [OF fights_alike_acts] fights_same_ok [OF fights_same_affects] by blast
    with False show ?thesis
      unfolding tickRoom_def Some option.case Let_def f_def [symmetric] t prod.case r p by simp
  qed
qed (simp add: tickRoom_def)

lemma Start_ok: "fights_ok w \<Longrightarrow> fights_ok (fst (Start roomID ps w))"
proof -
  assume ok: "fights_ok w"
  have same: "cw_Fights (fst (roll_entries refs w)) = cw_Fights w" for refs w
    by (induction refs arbitrary: w) (auto simp: rollInitiative_def Let_def split_beta split: sum.split prod.split)
  show ?thesis
  proof (cases "roll_entries ps w")
    case (Pair w1 r)
    have w1: "cw_Fights w1 = cw_Fights w" using same [of ps w] Pair by simp
    show ?thesis
    proof (cases r)
      case (Inr es)
      show ?thesis
      proof (cases "ps = [] \<or> map_of (cw_Fights w1) roomID \<noteq> None")
        case True
        then show ?thesis using fights_ok_eq [OF w1 ok] ok by (auto simp: Start_def Pair Inr Let_def)
      next
        case False
        obtain now w2 where t: "combat_now w1 = (now, w2)" by fastforce
        note sp = roll_entries_spec [OF Pair [unfolded Inr]]
        from False sp have "es \<noteq> []" by auto
        with sp have "fight_ok roomID (new_fight roomID (sortInitiative es) now)" by (intro new_fight_ok) auto
        from fights_ok_put [OF fights_ok_eq [OF _ ok] this, of w2] now_fights [OF t] w1 False show ?thesis
          by (simp add: Start_def Pair Inr Let_def t fights_ok_eq [OF Publish_frame(4)])
      qed
    qed (use fights_ok_eq [OF w1 ok] ok in \<open>simp add: Start_def Pair\<close>)
  qed
qed

text \<open>What the server can do to the world of combat. Between two steps anything else may write the stores.\<close>

inductive combat_step :: "CombatEnv \<Rightarrow> CombatWorld \<Rightarrow> CombatWorld \<Rightarrow> bool" for env where
  StepStart: "combat_step env w (fst (Start roomID ps w))"
| StepEnd: "combat_step env w (fst (End roomID reason w))"
| StepStop: "combat_step env w (Stop w)"
| StepEnqueue: "combat_step env w (fst (EnqueueAction roomID actor a w))"
| StepTick: "combat_step env w (Tick env w)"
| StepDamage: "combat_step env w (fst (ApplyDamageExternal env killer target amount source w))"
| StepHeal: "combat_step env w (fst (ApplyHealing target amount w))"
| StepAffectDeath: "combat_step env w (HandleAffectDeath env i w)"
| StepElse: "cw_Fights v = cw_Fights w \<Longrightarrow> combat_step env w v"

inductive combat_reach :: "CombatEnv \<Rightarrow> CombatWorld \<Rightarrow> bool" for env where
  Boot: "cw_Fights w = [] \<Longrightarrow> combat_reach env w"
| Next: "combat_reach env w \<Longrightarrow> combat_step env w v \<Longrightarrow> combat_reach env v"

inductive_cases combat_stepE: "combat_step env w v"

lemma external_fights:
  "fights_same w (fst (ApplyDamageExternal env killer target amount source w))"
  "fights_same w (fst (ApplyHealing target amount w))"
proof -
  show "fights_same w (fst (ApplyDamageExternal env killer target amount source w))"
    by (cases "rf_Kind target")
      (auto simp: ApplyDamageExternal_def Let_def intro!: fights_rules split: sum.split prod.split option.split intro: fights_same_eq)
  show "fights_same w (fst (ApplyHealing target amount w))"
    by (cases "rf_Kind target")
      (auto simp: ApplyHealing_def Let_def split_beta intro!: fights_same_eq split: sum.split prod.split option.split)
qed

lemma step_ok: "combat_step env w v \<Longrightarrow> fights_ok w \<Longrightarrow> fights_ok v"
proof (induction rule: combat_step.induct)
  case (StepTick w)
  have "fights_ok (fold (tickRoom env) rs w)" if "fights_ok w" for rs w
    using that by (induction rs arbitrary: w) (auto intro: tickRoom_ok)
  with StepTick show ?case by (simp add: Tick_def)
next
  case (StepStop w)
  have "cw_Fights (fold (\<lambda>i. Publish (EvEnded i s)) is w) = cw_Fights w" for "is" s w
    by (induction "is" arbitrary: w) simp_all
  then show ?case by (simp add: Stop_def fights_ok_def)
next
  case (StepEnd w roomID reason)
  then show ?case by (simp add: End_def fights_ok_close)
next
  case (StepEnqueue w roomID actor a)
  have "fights_alike w (on_fight roomID (\<lambda>f. f\<lparr>ft_Actions := map_put actor a (ft_Actions f)\<rparr>) w)"
    by (rule fights_rel_on_fight) (simp_all add: alike_def)
  with StepEnqueue fights_alike_ok show ?case by (auto simp: EnqueueAction_def)
next
  case (StepAffectDeath w i)
  then show ?case using fights_same_ok char_death_fights [OF fights_same_refl] unfolding HandleAffectDeath_def by blast
qed (use Start_ok fights_same_ok external_fights fights_ok_eq in blast)+

text \<open>C18: Every fight stays well formed. In every world the server can reach from an empty one, by starting, ending and ticking
  fights, queueing actions, damage, healing and deaths from outside and any other writes to the stores, there is
  one fight per room at most, it names its room, it has a participant, its order is sorted by initiative (ties by the
  roll, then by id), and every participant opens its chain with the primary weapon at no penalty.\<close>

theorem fights_stay_ordered:
  assumes "combat_reach env w"
  shows "distinct (map fst (cw_Fights w)) \<and> (\<forall>(r, f)\<in>set (cw_Fights w). ft_RoomID f = r \<and> ft_Order f \<noteq> []
     \<and> sorted_wrt (\<lambda>d e. e_Initiative d > e_Initiative e \<or> e_Initiative d = e_Initiative e \<and>
         (e_Tiebreak d > e_Tiebreak e \<or> e_Tiebreak d = e_Tiebreak e \<and> rf_ID (e_Ref d) \<le> rf_ID (e_Ref e))) (ft_Order f)
     \<and> (\<forall>e\<in>set (ft_Order f). hd (e_Swings e) = primary_swing \<and> e_Swings e \<noteq> []))"
proof -
  have ok: "fights_ok w" using assms
  proof (induction rule: combat_reach.induct)
    case (Next w v)
    from step_ok [OF Next(2,3)] show ?case .
  qed (simp add: fights_ok_def)
  have less: "\<not> initiative_less e d \<Longrightarrow> e_Initiative d > e_Initiative e \<or> e_Initiative d = e_Initiative e \<and>
      (e_Tiebreak d > e_Tiebreak e \<or> e_Tiebreak d = e_Tiebreak e \<and> rf_ID (e_Ref d) \<le> rf_ID (e_Ref e))" for d e
    by (auto simp: initiative_less_def split: if_splits)
  show ?thesis
  proof (intro conjI ballI)
    show "distinct (map fst (cw_Fights w))" using ok by (simp add: fights_ok_def)
    fix x assume x: "x \<in> set (cw_Fights w)"
    obtain r f where rf: "x = (r, f)" by (cases x)
    then have "map_of (cw_Fights w) r = Some f" using ok x by (auto simp: fights_ok_def)
    then have fo: "fight_ok r f" using ok by (simp add: fights_ok_def)
    then have "sorted_wrt (\<lambda>d e. \<not> initiative_less e d) (ft_Order f)" by (simp add: fight_ok_def)
    note s = sorted_wrt_mono_rel [OF less this]
    show "case x of (r, f) \<Rightarrow> ft_RoomID f = r \<and> ft_Order f \<noteq> []
     \<and> sorted_wrt (\<lambda>d e. e_Initiative d > e_Initiative e \<or> e_Initiative d = e_Initiative e \<and>
         (e_Tiebreak d > e_Tiebreak e \<or> e_Tiebreak d = e_Tiebreak e \<and> rf_ID (e_Ref d) \<le> rf_ID (e_Ref e))) (ft_Order f)
     \<and> (\<forall>e\<in>set (ft_Order f). hd (e_Swings e) = primary_swing \<and> e_Swings e \<noteq> [])"
      using fo s by (auto simp: rf fight_ok_def)
  qed
qed

lemma fights_stay_ordered_witness:
  "distinct (map fst (cw_Fights (fst (Start 9 [mob_ref 3] (sample_combat\<lparr>cw_Fights := []\<rparr>)))))"
proof -
  have "combat_reach sample_env (fst (Start 9 [mob_ref 3] (sample_combat\<lparr>cw_Fights := []\<rparr>)))"
    by (rule combat_reach.Next [OF Boot StepStart]) simp
  from fights_stay_ordered [OF this] show ?thesis by simp
qed

end
