(* ===== verification/CombatPulse.thy ===== *)
theory CombatPulse
  imports CombatManager
begin

text \<open>
  What one pulse of a fight guarantees: who enters a fight and in which order, whom a pulse of \<open>tickRoom\<close> stamps
  and what becomes of the queued actions, and what a swing of \<open>resolveAttack\<close> does to a target that has already fled.
\<close>

section \<open>Opening a fight\<close>

lemma roll_entries_fights:
  "roll_entries refs w = (v, r) \<Longrightarrow> cw_Fights v = cw_Fights w \<and> cw_Chars v = cw_Chars w \<and> cw_Mobs v = cw_Mobs w
     \<and> cw_Items v = cw_Items w"
proof (induction refs arbitrary: w r)
  case (Cons ref refs)
  show ?case
  proof (cases "resolveCore w ref")
    case (Inr core)
    obtain e w1 where e: "rollInitiative ref core w = (e, w1)" by fastforce
    then have "cw_Fights w1 = cw_Fights w" "cw_Chars w1 = cw_Chars w" "cw_Mobs w1 = cw_Mobs w" "cw_Items w1 = cw_Items w"
      by (auto simp: rollInitiative_def Let_def split_beta)
    with Cons show ?thesis by (auto simp: Inr e split: prod.splits sum.splits)
  qed (use Cons.prems in simp)
qed simp

text \<open>\<open>Start\<close> either refuses and leaves every fight as it was, or opens exactly one fight in a room that had
  none: its order is a permutation of the participants sorted by initiative, everybody is ready at the start
  time, and each initiative is a die of 1 to 20 plus the Dexterity and initiative modifiers of that participant. No other
  fight and no row of a store changes.\<close>

lemma Start_exact:
  assumes "Start roomID ps w = (v, r)"
  shows "cw_Chars v = cw_Chars w \<and> cw_Mobs v = cw_Mobs w \<and> cw_Items v = cw_Items w \<and>
    (case r of Inl e \<Rightarrow> cw_Fights v = cw_Fights w
     | Inr f \<Rightarrow> ps \<noteq> [] \<and> Get roomID w = None \<and> (\<forall>q. Get q v = (if q = roomID then Some f else Get q w))
         \<and> mset (map e_Ref (ft_Order f)) = mset ps \<and> initiative.ordered (ft_Order f)
         \<and> ft_Round f = 0 \<and> ft_Actions f = []
         \<and> (\<forall>e\<in>set (ft_Order f). e_NextActAt e = ft_StartedAt f
              \<and> (\<exists>core die. resolveCore w (e_Ref e) = Inr core \<and> 1 \<le> die \<and> die \<le> 20
                    \<and> e_Initiative e = die + DexMod (c_Abilities core) + c_InitMod core)))"
proof (cases "roll_entries ps w")
  case (Pair w1 res)
  note frame = roll_entries_fights [OF Pair]
  show ?thesis
  proof (cases res)
    case (Inl e)
    then show ?thesis using assms frame by (auto simp: Start_def Pair split: if_splits)
  next
    case (Inr es)
    obtain now w2 where t: "combat_now w1 = (now, w2)" by fastforce
    have w2: "cw_Chars w2 = cw_Chars w1" "cw_Mobs w2 = cw_Mobs w1" "cw_Items w2 = cw_Items w1" "cw_Fights w2 = cw_Fights w1"
      using combat_now_frame [of w1] by (simp_all add: t)
    show ?thesis
    proof (cases "ps = [] \<or> map_of (cw_Fights w1) roomID \<noteq> None")
      case True
      then consider "ps = []" | "ps \<noteq> []" "map_of (cw_Fights w1) roomID \<noteq> None" by blast
      then show ?thesis
      proof cases
        case 2
        then have "v = w1 \<and> r = Inl ErrFightExists" using assms by (simp add: Start_def Pair Inr Let_def split: if_splits)
        then show ?thesis using frame by simp
      qed (use assms in \<open>simp add: Start_def\<close>, auto)
    next
      case False
      let ?f = "new_fight roomID (sortInitiative es) now"
      have res: "v = Publish (EvStarted roomID (ft_Order ?f)) (w2\<lparr>cw_Fights := map_put roomID ?f (cw_Fights w2)\<rparr>)" "r = Inr ?f"
        using assms False by (auto simp: Start_def Pair Inr Let_def t)
      note sp = roll_entries_spec [OF Pair [unfolded Inr]]
      have m: "mset (sortInitiative es) = mset es" and s: "set (sortInitiative es) = set es"
        by (simp_all add: sortInitiative_def)
      have refs: "map e_Ref (ft_Order ?f) = map e_Ref (sortInitiative es)" by (simp add: new_fight_def)
      have "mset (map e_Ref (sortInitiative es)) = mset ps" using sp by (metis m mset_map)
      with refs have perm: "mset (map e_Ref (ft_Order ?f)) = mset ps" by simp
      have ne: "es \<noteq> []" using sp False by auto
      with sp have ord: "initiative.ordered (ft_Order ?f)"
        using new_fight_ok [of es roomID now] by (auto simp: fight_ok_def)
      have "\<forall>e\<in>set (ft_Order ?f). e_NextActAt e = ft_StartedAt ?f
          \<and> (\<exists>core die. resolveCore w (e_Ref e) = Inr core \<and> 1 \<le> die \<and> die \<le> 20
                \<and> e_Initiative e = die + DexMod (c_Abilities core) + c_InitMod core)"
        using sp by (auto simp: new_fight_def s)
      with perm ord False frame w2 show ?thesis
        by (simp add: res Get_def map_of_put) (simp add: new_fight_def)
    qed
  qed
qed

section \<open>One pulse of one room\<close>

text \<open>The ready loop takes the ready entries in order and counts a round for each.\<close>

definition is_ready :: "int \<Rightarrow> ActorEntry \<Rightarrow> bool" where
  "is_ready now e \<longleftrightarrow> e_NextActAt e \<le> now"

lemma ready_loop_spec:
  "ready_loop now round order = (round', rs) \<Longrightarrow>
   map fst rs = map e_Ref (filter (is_ready now) order) \<and> round' = round + int (length (filter (is_ready now) order))"
proof (induction order arbitrary: round round' rs)
  case (Cons e order)
  obtain r qs where q: "ready_loop now (round + 1) order = (r, qs)" by fastforce
  from Cons.IH [OF q] Cons.IH [of round] Cons.prems q show ?case by (auto simp: Let_def is_ready_def split: if_splits)
qed simp

text \<open>Popping removes the queued actions of the ready actors and of nobody else.\<close>

lemma pop_loop_spec:
  "pop_loop rs f ps = (g, qs) \<Longrightarrow> ft_Round g = ft_Round f \<and> ft_Order g = ft_Order f \<and> ft_RoomID g = ft_RoomID f
     \<and> (\<forall>a. map_of (ft_Actions g) a = (if a \<in> set (map fst rs) then None else map_of (ft_Actions f) a))"
proof (induction rs f ps rule: pop_loop.induct)
  case (2 ref round plan rs f ps)
  obtain f1 a where p: "popAction ref f = (f1, a)" by fastforce
  then have "ft_Round f1 = ft_Round f" "ft_Order f1 = ft_Order f" "ft_RoomID f1 = ft_RoomID f"
    "\<forall>b. map_of (ft_Actions f1) b = (if b = ref then None else map_of (ft_Actions f) b)"
    by (auto simp: popAction_def map_of_del split: option.splits)
  with 2(1) [OF refl, of f1 a] 2(2) p show ?case by (auto simp: Let_def)
qed simp

lemma stamp_entry_map:
  "distinct (map e_Ref order) \<Longrightarrow> stamp_entry ref now cost order =
     map (\<lambda>e. if e_Ref e = ref then e\<lparr>e_LastActedAt := Some now, e_NextActAt := now + cost\<rparr> else e) order"
proof (induction order)
  case (Cons e order)
  have "map (\<lambda>e. if e_Ref e = ref then e\<lparr>e_LastActedAt := Some now, e_NextActAt := now + cost\<rparr> else e) order = order"
    if "e_Ref e = ref" using Cons.prems that by (intro map_idI) (auto simp: rev_image_eqI)
  with Cons show ?case by auto
qed simp

text \<open>The effect of the acting loop on the fight of the room: each actor of the list is stamped.\<close>

definition stamped :: "int \<Rightarrow> (ActorRef \<Rightarrow> int) \<Rightarrow> ActorRef set \<Rightarrow> ActorEntry list \<Rightarrow> ActorEntry list" where
  "stamped now cost refs order =
     map (\<lambda>e. if e_Ref e \<in> refs then e\<lparr>e_LastActedAt := Some now, e_NextActAt := now + cost (e_Ref e)\<rparr> else e) order"

lemma stamped_refs [simp]: "map e_Ref (stamped now cost refs order) = map e_Ref order"
  by (simp add: stamped_def comp_def)

lemma stamped_stamp:
  assumes "distinct (map e_Ref order)" "ref \<notin> refs"
  shows "stamped now cost refs (stamp_entry ref now c order) = stamped now (cost(ref := c)) (insert ref refs) order"
  unfolding stamp_entry_map [OF assms(1)] stamped_def using assms(2) by (auto simp: comp_def)

lemma same_fight_at: "fights_same w v \<Longrightarrow> map_of (cw_Fights w) r = Some f \<Longrightarrow>
  \<exists>g. map_of (cw_Fights v) r = Some g \<and> same_fight f g"
  by (metis fights_rel_def option_rel_Some1)

lemma act_loop_stamps:
  assumes "map_of (cw_Fights w) roomID = Some f" "distinct (map e_Ref (ft_Order f))" "distinct (map fst rs)"
  shows "\<exists>g cost. map_of (cw_Fights (act_loop env roomID now pendings rs w)) roomID = Some g
     \<and> ft_Order g = stamped now cost (set (map fst rs)) (ft_Order f) \<and> ft_Round g = ft_Round f
     \<and> ft_Actions g = ft_Actions f"
  using assms
proof (induction rs arbitrary: w f)
  case Nil
  then show ?case by (auto simp: stamped_def intro!: exI [of _ f])
next
  case (Cons r rs)
  obtain ref round plan where r: "r = (ref, round, plan)" by (cases r)
  let ?w = "Publish (EvRound roomID round ref) w"
  obtain w1 c where a: "act env roomID r (map_get pendings ref None) ?w = (w1, c)" by fastforce
  have "fights_same ?w w1" using fights_same_act [of ?w env roomID r "map_get pendings ref None"] by (simp add: a)
  then obtain f1 where f1: "map_of (cw_Fights w1) roomID = Some f1" "same_fight f f1"
    using same_fight_at [of ?w w1 roomID f] Cons.prems(1) by auto
  let ?g = "f1\<lparr>ft_Order := stamp_entry ref now c (ft_Order f1)\<rparr>"
  let ?v = "on_fight roomID (\<lambda>f. f\<lparr>ft_Order := stamp_entry ref now c (ft_Order f)\<rparr>) w1"
  have v: "map_of (cw_Fights ?v) roomID = Some ?g" by (simp add: on_fight_def f1(1) map_of_put)
  have o: "ft_Order f1 = ft_Order f" "ft_Round f1 = ft_Round f" "ft_Actions f1 = ft_Actions f"
    using f1(2) by (simp_all add: same_fight_def)
  have d: "distinct (map e_Ref (ft_Order ?g))" using Cons.prems(2) by (simp add: o stamp_entry_map comp_def if_distrib cong: if_cong)
  from Cons.IH [OF v d] Cons.prems(3) obtain g cost where g:
    "map_of (cw_Fights (act_loop env roomID now pendings rs ?v)) roomID = Some g"
    "ft_Order g = stamped now cost (set (map fst rs)) (stamp_entry ref now c (ft_Order f))"
    "ft_Round g = ft_Round f" "ft_Actions g = ft_Actions f" by (auto simp: o)
  have "ref \<notin> set (map fst rs)" using Cons.prems(3) by (simp add: r)
  with g stamped_stamp [OF Cons.prems(2), of ref "set (map fst rs)" now cost c] a show ?case by (auto simp: r)
qed

lemma pulse_spec:
  assumes "map_of (cw_Fights w) roomID = Some f0" "fightHasLiveParticipants (ft_RoomID f0) (ft_Order f0) w"
    and "f = fst (pruneDead f0)" "ft_Order f \<noteq> []" "distinct (map e_Ref (ft_Order f))" "now = fst (combat_now w)"
  shows "\<exists>g cost. Get roomID (tickRoom env roomID w) = Some g
     \<and> ft_Order g = map (\<lambda>e. if e_NextActAt e \<le> now
         then e\<lparr>e_LastActedAt := Some now, e_NextActAt := now + cost (e_Ref e)\<rparr> else e) (ft_Order f)
     \<and> ft_Round g = ft_Round f + int (length (filter (\<lambda>e. e_NextActAt e \<le> now) (ft_Order f)))
     \<and> (\<forall>a. map_of (ft_Actions g) a =
          (if \<exists>e\<in>set (ft_Order f). e_Ref e = a \<and> e_NextActAt e \<le> now then None else map_of (ft_Actions f) a))"
proof -
  obtain w1 where t: "combat_now w = (now, w1)" using assms(6) by (cases "combat_now w") simp
  obtain round rs where r: "ready_loop now (ft_Round f) (ft_Order f) = (round, rs)" by fastforce
  obtain f1 qs where p: "pop_loop rs (f\<lparr>ft_Round := round\<rparr>) [] = (f1, qs)" by fastforce
  note rl = ready_loop_spec [OF r] and pl = pop_loop_spec [OF p]
  let ?w2 = "w1\<lparr>cw_Fights := map_put roomID f1 (cw_Fights w1)\<rparr>"
  have rdy: "set (map fst rs) = {e_Ref e |e. e \<in> set (ft_Order f) \<and> is_ready now e}" using rl by auto
  have "distinct (map fst rs)" using rl assms(5) by (simp add: distinct_map_filter)
  with act_loop_stamps [of ?w2 roomID f1 rs env now qs] pl assms(5) obtain g0 cost where g0:
    "map_of (cw_Fights (act_loop env roomID now qs rs ?w2)) roomID = Some g0"
    "ft_Order g0 = stamped now cost (set (map fst rs)) (ft_Order f)" "ft_Round g0 = round" "ft_Actions g0 = ft_Actions f1"
    by (auto simp: map_of_put)
  have tick: "tickRoom env roomID w = tickParticipantAffects roomID (act_loop env roomID now qs rs ?w2)"
    unfolding tickRoom_def assms(1) option.case Let_def assms(3) [symmetric] t prod.case r p using assms(2,4) by simp
  obtain g where g: "map_of (cw_Fights (tickRoom env roomID w)) roomID = Some g" "same_fight g0 g"
    using same_fight_at [OF fights_same_affects g0(1)] by (auto simp: tick)
  have "e_Ref e \<in> set (map fst rs) \<longleftrightarrow> is_ready now e" if "e \<in> set (ft_Order f)" for e
    using that assms(5) unfolding rdy by (auto dest: inj_onD simp: distinct_map)
  then have o: "ft_Order g = map (\<lambda>e. if e_NextActAt e \<le> now
      then e\<lparr>e_LastActedAt := Some now, e_NextActAt := now + cost (e_Ref e)\<rparr> else e) (ft_Order f)"
    using g(2) g0(2) by (simp add: same_fight_def stamped_def is_ready_def)
  have "is_ready now = (\<lambda>e. e_NextActAt e \<le> now)" by (rule ext) (simp add: is_ready_def)
  then have "ft_Round g = ft_Round f + int (length (filter (\<lambda>e. e_NextActAt e \<le> now) (ft_Order f)))"
    using g(2) g0(3) rl by (simp add: same_fight_def)
  moreover have "map_of (ft_Actions g) a =
      (if \<exists>e\<in>set (ft_Order f). e_Ref e = a \<and> e_NextActAt e \<le> now then None else map_of (ft_Actions f) a)" for a
    using g(2) g0(4) pl unfolding rdy by (auto simp: same_fight_def is_ready_def)
  ultimately show ?thesis using g(1) o by (auto simp: Get_def)
qed

text \<open>C19: A pulse of a room acts for exactly the participants whose time has come. Of a fight that goes on,
  after the dead and the fled are pruned, each ready participant is stamped once with the time of the pulse and its own
  cost, the others keep their entries to the last field, the order of initiative is unchanged, the round counter
  grows by one per ready participant, and the queue loses the actions of the ready ones and no other.\<close>

theorem pulse_schedules:
  assumes "map_of (cw_Fights w) roomID = Some f0" "fightHasLiveParticipants (ft_RoomID f0) (ft_Order f0) w"
    and "f = fst (pruneDead f0)" "ft_Order f \<noteq> []" "distinct (map e_Ref (ft_Order f))" "now = fst (combat_now w)"
  shows "\<exists>g cost. Get roomID (tickRoom env roomID w) = Some g
     \<and> ft_Order g = map (\<lambda>e. if e_NextActAt e \<le> now
         then e\<lparr>e_LastActedAt := Some now, e_NextActAt := now + cost (e_Ref e)\<rparr> else e) (ft_Order f)
     \<and> ft_Round g = ft_Round f + int (length (filter (\<lambda>e. e_NextActAt e \<le> now) (ft_Order f)))
     \<and> (\<forall>a. map_of (ft_Actions g) a =
          (if \<exists>e\<in>set (ft_Order f). e_Ref e = a \<and> e_NextActAt e \<le> now then None else map_of (ft_Actions f) a))"
  using assms by (rule pulse_spec)

section \<open>A swing at a target that has left\<close>

text \<open>C20: The first swing of a queued attack lands on a target that is no longer in the fight. When the roll hits a
  character whose row exists, the character loses the rolled hit points and the attacker is credited, whatever room
  the character is in and even though the fight lists it as fled or dead; only the later swings of the chain check
  that, and they stop. The comment at that place says a fled target is a miss.\<close>

theorem fled_target_still_hit:
  assumes "a_Kind action = ActionAttack" "a_Target action = char_ref t" "t \<noteq> 0"
    and "wd = w\<lparr>cw_Chars := drainStamina (ce_Catalog env) actor action (cw_Chars w)\<rparr>"
    and "resolveCore wd actor = Inr atk" "repo_GetByID (cw_Chars wd) t = Inr ch"
    and "map_of (cw_Fights w) roomID = Some f" "char_ref t \<in> ft_Fled f \<union> ft_Dead f"
    and "roll_swing (cw_rng w) atk (ch_Core ch) (stats_of wd (a_WeaponID action))
           (defender_flags roomID round (char_ref t) wd) (a_Variant action) 0 = (sr, r1)"
    and "ar_Hit (sr_Roll sr)" "\<not> sr_Parried sr" "0 < c_HPCurrent (sr_Core sr)"
  shows "\<exists>v cost g. swing_loop env roomID round actor action True (primary_swing # later) w 0 = (v, cost)
    \<and> (\<exists>d. repo_GetByID (cw_Chars v) t = Inr d \<and> c_HPCurrent (ch_Core d) = c_HPCurrent (sr_Core sr)
         \<and> ch_CurrentRoomID d = ch_CurrentRoomID ch)
    \<and> map_of (cw_Fights v) roomID = Some g
    \<and> map_get (ft_DamageTally g) actor 0 = i32 (map_get (ft_DamageTally f) actor 0 + sr_Dealt sr)"
proof -
  let ?v = "resolveAction env roomID round actor action 0 SlotPrimaryWield w"
  define wr where "wr = wd\<lparr>cw_rng := r1\<rparr>"
  define dodging where "dodging = snd (snd (defender_flags roomID round (char_ref t) wd))"
  define w2 where "w2 = (if dodging then on_fight roomID (\<lambda>f. f\<lparr>ft_DodgeUntil := map_del (char_ref t) (ft_DodgeUntil f)\<rparr>) wr else wr)"
  define c where "c = sr_Core sr"
  let ?g = "\<lambda>ch. ch\<lparr>ch_Core := (ch_Core ch)\<lparr>c_HPCurrent := c_HPCurrent c, c_Subdual := c_Subdual c,
      c_Conditions := c_Conditions c, c_Position := c_Position c\<rparr>\<rparr>"
  have core: "resolveCore wd (char_ref t) = Inr (ch_Core ch)" using assms(6) by (simp add: resolveCore_def)
  have sw: "swing_weapon actor action SlotPrimaryWield wd = Some (a_WeaponID action)" by (simp add: swing_weapon_def)
  have rng: "cw_rng wd = cw_rng w" by (simp add: assms(4))
  have "resolveAttack env roomID round actor action 0 SlotPrimaryWield wd = land_hit env roomID actor (char_ref t) sr
      (EvHit roomID actor (char_ref t) (sr_Dealt sr) (a_WeaponID action) (ar_Threat (sr_Roll sr)) (ar_IsCrit (sr_Roll sr))
        (a_Variant action) False) w2"
    unfolding resolveAttack_def assms(2,5) sum.case core sw option.case Let_def rng assms(9) prod.case
    using assms(10,11) by (simp add: w2_def wr_def dodging_def)
  then have at: "\<exists>ev. resolveAttack env roomID round actor action 0 SlotPrimaryWield wd = land_hit env roomID actor (char_ref t) sr ev w2"
    by blast
  then obtain ev where v: "?v = Publish (EvResolved roomID round actor ActionAttack)
      (Publish ev (on_fight roomID (bump_tally actor (char_ref t) (sr_Dealt sr)) (write_back (char_ref t) c w2)))"
    using assms(1,12) by (auto simp: resolveAction_def Let_def assms(4) land_hit_def c_def)
  have w2: "cw_Chars w2 = cw_Chars wd"
    by (simp add: w2_def wr_def)
  have fw: "map_of (cw_Fights wd) roomID = Some f" using assms(4,7) by simp
  have "\<exists>f2. map_of (cw_Fights w2) roomID = Some f2 \<and> ft_Fled f2 = ft_Fled f \<and> ft_Dead f2 = ft_Dead f
      \<and> ft_DamageTally f2 = ft_DamageTally f"
    by (simp add: w2_def wr_def on_fight_def fw)
  then obtain f2 where f2: "map_of (cw_Fights w2) roomID = Some f2" "ft_Fled f2 = ft_Fled f" "ft_Dead f2 = ft_Dead f"
    "ft_DamageTally f2 = ft_DamageTally f" by blast
  let ?h = "bump_tally actor (char_ref t) (sr_Dealt sr) f2"
  have h: "map_of (cw_Fights ?v) roomID = Some ?h"
    unfolding v by (simp add: on_fight_def write_back_def f2(1))
  have hh: "ft_Fled ?h = ft_Fled f" "ft_Dead ?h = ft_Dead f"
    "map_get (ft_DamageTally ?h) actor 0 = i32 (map_get (ft_DamageTally f) actor 0 + sr_Dealt sr)"
    using f2 by (simp_all add: bump_tally_def Let_def map_get_def)
  have chars: "cw_Chars ?v = fst (record_at (cw_Chars wd) t (\<lambda>c. Inr (?g c)))"
    unfolding v by (simp add: write_back_def repo_RecordCore_def w2)
  have row: "repo_GetByID (cw_Chars ?v) t = Inr (?g ch)"
    unfolding chars by (subst char_store.get_upd) (simp_all add: assms(6))
  have "iterativeTargetGone (map_of (cw_Fights ?v) roomID) (a_Target action)"
    using assms(8) hh(1,2) by (auto simp: h iterativeTargetGone_def assms(2))
  then have later: "fst (swing_loop env roomID round actor action False later ?v cost) = ?v" for cost
    by (cases later) simp_all
  have ps: "sw_Bonus primary_swing = 0" "sw_Slot primary_swing = SlotPrimaryWield" by (simp_all add: primary_swing_def)
  have "fst (swing_loop env roomID round actor action True (primary_swing # later) w 0) = ?v"
    unfolding swing_loop.simps Let_def ps by (simp only: simp_thms if_False later)
  then obtain cost where "swing_loop env roomID round actor action True (primary_swing # later) w 0 = (?v, cost)"
    by (metis prod.collapse)
  moreover have "c_HPCurrent (ch_Core (?g ch)) = c_HPCurrent (sr_Core sr)" "ch_CurrentRoomID (?g ch) = ch_CurrentRoomID ch"
    by (simp_all add: c_def)
  ultimately show ?thesis using row h hh(3) by blast
qed

section \<open>Witnesses\<close>

definition sample_entry :: ActorEntry where
  "sample_entry = \<lparr>e_Ref = mob_ref 3, e_Initiative = 7, e_Tiebreak = 7, e_NextActAt = 50, e_LastActedAt = None,
     e_PendingSwings = 1, e_Swings = [primary_swing]\<rparr>"

text \<open>The mob of the room against a character that has fled from it; the next attack roll is a natural 20.\<close>

definition sample_pulse :: CombatWorld where
  "sample_pulse = sample_combat\<lparr>cw_Fights := [(5, (new_fight 5 [sample_entry] 50)\<lparr>ft_Fled := {char_ref 1}\<rparr>)], cw_rng := [19]\<rparr>"

definition sample_attack :: Action where
  "sample_attack = \<lparr>a_Kind = ActionAttack, a_Variant = VariantNormal, a_Target = char_ref 1, a_WeaponID = 0\<rparr>"

lemma pulse_schedules_witness:
  "\<exists>g. Get 5 (tickRoom sample_env 5 sample_pulse) = Some g \<and> ft_Round g = 1 \<and> map e_LastActedAt (ft_Order g) = [Some 77]"
proof -
  let ?f0 = "(new_fight 5 [sample_entry] 50)\<lparr>ft_Fled := {char_ref 1}\<rparr>"
  have m: "map_of (cw_Fights sample_pulse) 5 = Some ?f0" by (simp add: sample_pulse_def)
  have live: "fightHasLiveParticipants (ft_RoomID ?f0) (ft_Order ?f0) sample_pulse"
    by (simp add: fightHasLiveParticipants_def new_fight_def sample_entry_def mob_ListInRoom_def sample_pulse_def
        sample_combat_def)
  have o: "ft_Order (fst (pruneDead ?f0)) = [sample_entry]" "ft_Round (fst (pruneDead ?f0)) = 0"
    by (simp_all add: pruneDead_def new_fight_def sample_entry_def Let_def mob_ref_def char_ref_def)
  have now: "fst (combat_now sample_pulse) = 77" by (simp add: sample_pulse_def sample_combat_def combat_now_def)
  from pulse_schedules [OF m live refl _ _ now [symmetric], of sample_env] o show ?thesis
    by (auto simp: sample_entry_def)
qed

lemma fled_target_still_hit_witness:
  "\<exists>v cost d. swing_loop sample_env 5 1 (mob_ref 3) sample_attack True [primary_swing] sample_pulse 0 = (v, cost)
     \<and> repo_GetByID (cw_Chars v) 1 = Inr d \<and> c_HPCurrent (ch_Core d) = 3"
proof -
  let ?wd = "sample_pulse\<lparr>cw_Chars := drainStamina (ce_Catalog sample_env) (mob_ref 3) sample_attack (cw_Chars sample_pulse)\<rparr>"
  have wd: "cw_Chars ?wd = cw_Chars sample_combat" by (simp add: sample_pulse_def drainStamina_def staminaCostFor_def)
  let ?atk = "zero_Core\<lparr>c_ID := 3, c_CurrentRoomID := 5\<rparr>"
  have atk: "resolveCore ?wd (mob_ref 3) = Inr ?atk"
    by (simp add: resolveCore_def sample_pulse_def sample_combat_def mob_GetByID_def)
  have row: "repo_GetByID (cw_Chars ?wd) 1 = Inr sample_victim" by (simp only: wd sample_victim_row)
  have f: "map_of (cw_Fights sample_pulse) 5 = Some ((new_fight 5 [sample_entry] 50)\<lparr>ft_Fled := {char_ref 1}\<rparr>)"
    by (simp add: sample_pulse_def)
  have flags: "defender_flags 5 1 (char_ref 1) ?wd = (False, False, False)"
    by (simp add: defender_flags_def sample_pulse_def new_fight_def stance_holds_def)
  have hit: "(let sr = fst (roll_swing [19] ?atk (ch_Core sample_victim) unarmedDamage (False, False, False) VariantNormal 0)
      in ar_Hit (sr_Roll sr) \<and> \<not> sr_Parried sr \<and> c_HPCurrent (sr_Core sr) = 3)" by code_simp
  obtain sr r1 where sr: "roll_swing (cw_rng sample_pulse) ?atk (ch_Core sample_victim) (stats_of ?wd (a_WeaponID sample_attack))
      (defender_flags 5 1 (char_ref 1) ?wd) (a_Variant sample_attack) 0 = (sr, r1)" by fastforce
  have "ar_Hit (sr_Roll sr) \<and> \<not> sr_Parried sr \<and> c_HPCurrent (sr_Core sr) = 3"
    using sr hit unfolding flags by (simp add: sample_pulse_def sample_attack_def stats_of_def)
  with fled_target_still_hit [OF _ _ _ refl atk row f _ sr, of "[]"] show ?thesis
    by (auto simp: sample_attack_def)
qed

end
