(* ===== verification/Bfs.thy ===== *)
theory Bfs
  imports ExitRepo
begin

text \<open>
  The breadth-first searches of wandering mobs: \<open>internal/mob/bfs.go\<close>. A Go map of visited rooms is the list of its
  keys, the map of predecessors an association list; the zone lookup is a function of the room. The context is not cancelled and the
  in-memory store does not fail, so the error branches do not occur.
\<close>

section \<open>The searches\<close>

record bfsConfig =
  bc_exits :: MemoryExitRepo
  bc_zoneOf :: "int \<Rightarrow> int option"
  bc_fromRoom :: int
  bc_zoneID :: int
  bc_maxHops :: int

definition bfsHopHardCap :: int where "bfsHopHardCap = 64"

definition exitWalkable :: "Exit \<Rightarrow> bool" where
  "exitWalkable e \<longleftrightarrow> ex_ToRoomID e \<noteq> 0
     \<and> \<not> (xf_Hidden (ex_Flags e) \<or> xf_Closed (ex_Flags e) \<or> xf_Locked (ex_Flags e) \<or> xf_NoPass (ex_Flags e))"

definition hops_of :: "bfsConfig \<Rightarrow> nat" where
  "hops_of cfg = nat (if bc_maxHops cfg > bfsHopHardCap then bfsHopHardCap else bc_maxHops cfg)"

text \<open>The loops of \<open>bfsReachable\<close>: over the exits of a room, over the rooms of a level, over the hops.\<close>

fun reach_exits :: "bfsConfig \<Rightarrow> Exit list \<Rightarrow> int list \<times> int list \<times> int list \<Rightarrow> int list \<times> int list \<times> int list" where
  "reach_exits cfg [] st = st"
| "reach_exits cfg (e # es) (visited, out, next) =
     (if \<not> exitWalkable e \<or> ex_ToRoomID e \<in> set visited then reach_exits cfg es (visited, out, next)
      else if bc_zoneOf cfg (ex_ToRoomID e) \<noteq> Some (bc_zoneID cfg) then reach_exits cfg es (visited, out, next)
      else reach_exits cfg es (visited @ [ex_ToRoomID e], out @ [ex_ToRoomID e], next @ [ex_ToRoomID e]))"

fun reach_rooms :: "bfsConfig \<Rightarrow> int list \<Rightarrow> int list \<times> int list \<times> int list \<Rightarrow> int list \<times> int list \<times> int list" where
  "reach_rooms cfg [] st = st"
| "reach_rooms cfg (room # rooms) st = reach_rooms cfg rooms (reach_exits cfg (ListFrom (bc_exits cfg) room) st)"

fun reach_hops :: "bfsConfig \<Rightarrow> nat \<Rightarrow> int list \<Rightarrow> int list \<times> int list \<Rightarrow> int list" where
  "reach_hops cfg 0 queue (visited, out) = out"
| "reach_hops cfg (Suc n) queue (visited, out) =
     (if queue = [] then out
      else case reach_rooms cfg queue (visited, out, []) of (visited', out', next) \<Rightarrow> reach_hops cfg n next (visited', out'))"

definition bfsReachable :: "bfsConfig \<Rightarrow> int list" where
  "bfsReachable cfg =
     (if bc_maxHops cfg \<le> 0 \<or> bc_fromRoom cfg = 0 then []
      else reach_hops cfg (hops_of cfg) [bc_fromRoom cfg] ([bc_fromRoom cfg], []))"

record crumb =
  cr_parent :: int
  cr_edge :: Exit

definition zero_Exit :: Exit where
  "zero_Exit = \<lparr>ex_ID = 0, ex_FromRoomID = 0, ex_ToRoomID = 0, ex_Direction = [],
     ex_Flags = \<lparr>xf_Closed = False, xf_Locked = False, xf_Pickable = False, xf_Hidden = False, xf_NoPass = False,
       xf_AuthoredClosed = False, xf_AuthoredLocked = False\<rparr>,
     ex_KeyExternalID = [], ex_LockDifficulty = 0, ex_Description = []\<rparr>"

definition zero_crumb :: crumb where "zero_crumb = \<lparr>cr_parent = 0, cr_edge = zero_Exit\<rparr>"

type_synonym parents = "(int \<times> crumb) list"

text \<open>A loop with no bound of its own: the result is \<open>None\<close> when it does not end.\<close>

partial_function (option) reconstructFirstEdge :: "parents \<Rightarrow> int \<Rightarrow> int \<Rightarrow> Exit option" where
  "reconstructFirstEdge parents source cur =
     (let c = map_get parents cur zero_crumb
      in if cr_parent c = source then Some (cr_edge c) else reconstructFirstEdge parents source (cr_parent c))"

text \<open>The loops of \<open>bfsNextStep\<close>; \<open>Inr\<close> holds the map of predecessors when the target was found.\<close>

fun step_exits :: "bfsConfig \<Rightarrow> int \<Rightarrow> int \<Rightarrow> Exit list \<Rightarrow> parents \<times> int list \<Rightarrow> (parents \<times> int list) + parents" where
  "step_exits cfg target room [] st = Inl st"
| "step_exits cfg target room (e # es) (parents, next) =
     (if \<not> exitWalkable e then step_exits cfg target room es (parents, next)
      else if ex_ToRoomID e \<in> set (keys parents) then step_exits cfg target room es (parents, next)
      else if bc_zoneOf cfg (ex_ToRoomID e) \<noteq> Some (bc_zoneID cfg) then step_exits cfg target room es (parents, next)
      else let parents' = map_put (ex_ToRoomID e) \<lparr>cr_parent = room, cr_edge = e\<rparr> parents
           in if ex_ToRoomID e = target then Inr parents'
              else step_exits cfg target room es (parents', next @ [ex_ToRoomID e]))"

fun step_rooms :: "bfsConfig \<Rightarrow> int \<Rightarrow> int list \<Rightarrow> parents \<times> int list \<Rightarrow> (parents \<times> int list) + parents" where
  "step_rooms cfg target [] st = Inl st"
| "step_rooms cfg target (room # rooms) st =
     (case step_exits cfg target room (ListFrom (bc_exits cfg) room) st of
        Inl st' \<Rightarrow> step_rooms cfg target rooms st' | Inr parents \<Rightarrow> Inr parents)"

fun step_hops :: "bfsConfig \<Rightarrow> int \<Rightarrow> nat \<Rightarrow> int list \<Rightarrow> parents \<Rightarrow> parents option" where
  "step_hops cfg target 0 queue parents = None"
| "step_hops cfg target (Suc n) queue parents =
     (if queue = [] then None
      else case step_rooms cfg target queue (parents, []) of
             Inl (parents', next) \<Rightarrow> step_hops cfg target n next parents' | Inr parents' \<Rightarrow> Some parents')"

text \<open>The outer option is whether the call returns, the inner one whether a step was found.\<close>

definition bfsNextStep :: "bfsConfig \<Rightarrow> int \<Rightarrow> Exit option option" where
  "bfsNextStep cfg target =
     (if target = 0 \<or> bc_fromRoom cfg = 0 \<or> target = bc_fromRoom cfg then Some None
      else if bc_maxHops cfg \<le> 0 then Some None
      else case step_hops cfg target (hops_of cfg) [bc_fromRoom cfg] [(bc_fromRoom cfg, zero_crumb)] of
             None \<Rightarrow> Some None
           | Some parents \<Rightarrow> map_option Some (reconstructFirstEdge parents (bc_fromRoom cfg) target))"

section \<open>The graph of the rooms\<close>

definition leads :: "bfsConfig \<Rightarrow> int \<Rightarrow> Exit \<Rightarrow> int \<Rightarrow> bool" where
  "leads cfg u e v \<longleftrightarrow> e \<in> set (ListFrom (bc_exits cfg) u) \<and> exitWalkable e \<and> ex_ToRoomID e = v \<and> bc_zoneOf cfg v = Some (bc_zoneID cfg)"

definition room_graph :: "bfsConfig \<Rightarrow> (int \<times> int) set" where
  "room_graph cfg = {(u, v). \<exists>e. leads cfg u e v}"

text \<open>The rooms at most \<open>n\<close> hops away.\<close>

definition within :: "bfsConfig \<Rightarrow> int \<Rightarrow> nat \<Rightarrow> int set" where
  "within cfg u n = {v. \<exists>m\<le>n. (u, v) \<in> room_graph cfg ^^ m}"

lemma within_0 [simp]: "within cfg u 0 = {u}"
  by (auto simp: within_def)

lemma within_mono: "n \<le> m \<Longrightarrow> within cfg u n \<subseteq> within cfg u m"
  by (auto simp: within_def intro: order_trans)

lemma within_Suc: "within cfg u (Suc n) = within cfg u n \<union> room_graph cfg `` within cfg u n"
proof -
  have "v \<in> within cfg u (Suc n)" if "w \<in> within cfg u n" "(w, v) \<in> room_graph cfg" for w v
    using that unfolding within_def by (fastforce intro: relpow_Suc_I)
  moreover have "v \<in> within cfg u n \<union> room_graph cfg `` within cfg u n" if v: "v \<in> within cfg u (Suc n)" for v
  proof -
    from v obtain m where m: "m \<le> Suc n" "(u, v) \<in> room_graph cfg ^^ m" by (auto simp: within_def)
    show ?thesis
    proof (cases "m \<le> n")
      case False
      with m have "(u, v) \<in> room_graph cfg ^^ Suc n" by (simp add: le_Suc_eq)
      then obtain w where "(u, w) \<in> room_graph cfg ^^ n" "(w, v) \<in> room_graph cfg" by (auto elim: relpow_Suc_E)
      then show ?thesis by (auto simp: within_def)
    qed (use m in \<open>auto simp: within_def\<close>)
  qed
  ultimately show ?thesis using within_mono [of n "Suc n" cfg u] by auto
qed

lemma within_stop: "room_graph cfg `` within cfg u n \<subseteq> within cfg u n \<Longrightarrow> within cfg u (n + k) = within cfg u n"
  by (induction k) (auto simp: within_Suc)

lemma within_graph: "v \<in> within cfg u n \<Longrightarrow> (v, w) \<in> room_graph cfg \<Longrightarrow> w \<in> within cfg u (Suc n)"
  by (auto simp: within_Suc)

section \<open>The rooms in reach\<close>

definition entrances :: "bfsConfig \<Rightarrow> Exit list \<Rightarrow> int set" where
  "entrances cfg es = {v. \<exists>e\<in>set es. exitWalkable e \<and> ex_ToRoomID e = v \<and> bc_zoneOf cfg v = Some (bc_zoneID cfg)}"

lemma entrances_Cons: "entrances cfg (e # es) =
    (if exitWalkable e \<and> bc_zoneOf cfg (ex_ToRoomID e) = Some (bc_zoneID cfg) then insert (ex_ToRoomID e) (entrances cfg es)
     else entrances cfg es)"
  by (auto simp: entrances_def)

lemma entrances_graph: "entrances cfg (ListFrom (bc_exits cfg) u) = room_graph cfg `` {u}"
  by (auto simp: entrances_def room_graph_def leads_def)

text \<open>Each loop appends the same fresh rooms to the three lists.\<close>

definition grows :: "int list \<times> int list \<times> int list \<Rightarrow> int set \<Rightarrow> int list \<times> int list \<times> int list \<Rightarrow> bool" where
  "grows st N st' \<longleftrightarrow> (\<exists>new. st' = (fst st @ new, fst (snd st) @ new, snd (snd st) @ new) \<and> distinct new \<and> set new = N - set (fst st))"

lemma reach_exits_grows: "grows st (entrances cfg es) (reach_exits cfg es st)"
proof (induction cfg es st rule: reach_exits.induct)
  case (1 cfg st)
  then show ?case by (cases st) (auto simp: grows_def entrances_def)
next
  case (2 cfg e es visited out nxt)
  show ?case
  proof (cases "exitWalkable e \<and> ex_ToRoomID e \<notin> set visited \<and> bc_zoneOf cfg (ex_ToRoomID e) = Some (bc_zoneID cfg)")
    case True
    from 2(3) True obtain new where
      "reach_exits cfg es (visited @ [ex_ToRoomID e], out @ [ex_ToRoomID e], nxt @ [ex_ToRoomID e])
         = (visited @ [ex_ToRoomID e] @ new, out @ [ex_ToRoomID e] @ new, nxt @ [ex_ToRoomID e] @ new)"
      "distinct new" "set new = entrances cfg es - set (visited @ [ex_ToRoomID e])" by (auto simp: grows_def)
    with True show ?thesis unfolding grows_def
      by (intro exI [of _ "ex_ToRoomID e # new"]) (auto simp: entrances_Cons)
  next
    case False
    then have r: "reach_exits cfg (e # es) (visited, out, nxt) = reach_exits cfg es (visited, out, nxt)" by auto
    have "entrances cfg (e # es) - set visited = entrances cfg es - set visited" using False by (auto simp: entrances_Cons)
    with 2(1,2) False r show ?thesis unfolding grows_def fst_conv snd_conv by (metis (no_types, lifting))
  qed
qed

lemma grows_trans: "grows st M st' \<Longrightarrow> grows st' N st'' \<Longrightarrow> grows st (M \<union> N) st''"
  unfolding grows_def by (elim exE conjE, rename_tac xs ys, rule_tac x = "xs @ ys" in exI) auto

lemma reach_rooms_grows: "grows st (room_graph cfg `` set rooms) (reach_rooms cfg rooms st)"
proof (induction cfg rooms st rule: reach_rooms.induct)
  case (1 cfg st)
  then show ?case by (cases st) (auto simp: grows_def)
next
  case (2 cfg room rooms st)
  have "room_graph cfg `` set (room # rooms) = entrances cfg (ListFrom (bc_exits cfg) room) \<union> room_graph cfg `` set rooms"
    by (auto simp: entrances_graph)
  with grows_trans [OF reach_exits_grows 2] show ?case by simp
qed

text \<open>The state between two hops: the visited rooms are those at most \<open>h\<close> hops away, and only a queued room may have an exit that leads further.\<close>

definition frontier :: "bfsConfig \<Rightarrow> nat \<Rightarrow> int list \<Rightarrow> int set \<Rightarrow> bool" where
  "frontier cfg h queue visited \<longleftrightarrow> visited = within cfg (bc_fromRoom cfg) h \<and> set queue \<subseteq> visited
     \<and> room_graph cfg `` (visited - set queue) \<subseteq> visited"

lemma frontier_next:
  assumes "frontier cfg h queue visited" "set nxt = room_graph cfg `` set queue - visited"
  shows "frontier cfg (Suc h) nxt (visited \<union> set nxt)"
  using assms unfolding frontier_def within_Suc by blast

lemma frontier_stop: "frontier cfg h [] visited \<Longrightarrow> visited = within cfg (bc_fromRoom cfg) (h + n)"
  unfolding frontier_def by (metis Diff_empty empty_set within_stop)

text \<open>Nearer rooms come first.\<close>

definition by_distance :: "bfsConfig \<Rightarrow> nat \<Rightarrow> int list \<Rightarrow> bool" where
  "by_distance cfg n out \<longleftrightarrow> (\<forall>k\<le>n. \<exists>j. insert (bc_fromRoom cfg) (set (take j out)) = within cfg (bc_fromRoom cfg) k)"

lemma by_distance_more:
  assumes "by_distance cfg h out" "insert (bc_fromRoom cfg) (set (out @ new)) = within cfg (bc_fromRoom cfg) (Suc h)"
  shows "by_distance cfg (Suc h) (out @ new)"
  unfolding by_distance_def
proof (intro allI impI)
  fix k assume "k \<le> Suc h"
  then consider "k \<le> h" | "k = Suc h" by linarith
  then show "\<exists>j. insert (bc_fromRoom cfg) (set (take j (out @ new))) = within cfg (bc_fromRoom cfg) k"
  proof cases
    case 1
    then obtain j where "insert (bc_fromRoom cfg) (set (take j out)) = within cfg (bc_fromRoom cfg) k" using assms(1) by (auto simp: by_distance_def)
    then show ?thesis by (intro exI [of _ "min j (length out)"]) (cases "j \<le> length out", simp_all)
  next
    case 2
    then show ?thesis using assms(2) by (intro exI [of _ "length (out @ new)"]) simp
  qed
qed

lemma by_distance_stop:
  assumes "frontier cfg h [] (insert (bc_fromRoom cfg) (set out))" "by_distance cfg h out"
  shows "by_distance cfg (h + n) out"
  unfolding by_distance_def
proof (intro allI impI)
  fix k assume "k \<le> h + n"
  show "\<exists>j. insert (bc_fromRoom cfg) (set (take j out)) = within cfg (bc_fromRoom cfg) k"
  proof (cases "k \<le> h")
    case True
    then show ?thesis using assms(2) by (simp add: by_distance_def)
  next
    case False
    then have "within cfg (bc_fromRoom cfg) k = insert (bc_fromRoom cfg) (set out)"
      using frontier_stop [OF assms(1), of "k - h"] by simp
    then show ?thesis by (intro exI [of _ "length out"]) simp
  qed
qed

definition found_rooms :: "bfsConfig \<Rightarrow> nat \<Rightarrow> int list \<Rightarrow> bool" where
  "found_rooms cfg n out \<longleftrightarrow> insert (bc_fromRoom cfg) (set out) = within cfg (bc_fromRoom cfg) n
     \<and> distinct (bc_fromRoom cfg # out) \<and> by_distance cfg n out"

lemma reach_hops_correct:
  assumes "frontier cfg h queue (insert (bc_fromRoom cfg) (set out))" "distinct (bc_fromRoom cfg # out)" "by_distance cfg h out"
    and "set visited = insert (bc_fromRoom cfg) (set out)"
  shows "found_rooms cfg (h + n) (reach_hops cfg n queue (visited, out))"
  using assms
proof (induction n arbitrary: h queue visited out)
  case 0
  then show ?case by (simp add: frontier_def found_rooms_def)
next
  case (Suc n)
  show ?case
  proof (cases "queue = []")
    case True
    with Suc.prems frontier_stop [of cfg h _ "Suc n"] by_distance_stop [of cfg h out "Suc n"] show ?thesis by (simp add: found_rooms_def)
  next
    case False
    obtain new where new: "reach_rooms cfg queue (visited, out, []) = (visited @ new, out @ new, new)" "distinct new"
      "set new = room_graph cfg `` set queue - set visited"
      using reach_rooms_grows [of "(visited, out, [])" cfg queue] by (auto simp: grows_def)
    have f: "frontier cfg (Suc h) new (insert (bc_fromRoom cfg) (set (out @ new)))"
    proof -
      have "set new = room_graph cfg `` set queue - insert (bc_fromRoom cfg) (set out)" using new(3) Suc.prems(4) by simp
      from frontier_next [OF Suc.prems(1) this] show ?thesis by simp
    qed
    moreover have "distinct (bc_fromRoom cfg # (out @ new))" using Suc.prems(2,4) new by auto
    moreover have "by_distance cfg (Suc h) (out @ new)"
      by (rule by_distance_more [OF Suc.prems(3)]) (use f in \<open>simp add: frontier_def\<close>)
    ultimately show ?thesis using Suc.IH [of "Suc h" new "out @ new" "visited @ new"] new(1) Suc.prems(4) False by simp
  qed
qed

text \<open>The rooms a wandering mob may pick from. \<open>bfsReachable\<close> returns, each once and nearer ones first, exactly the other
  rooms that can be reached from the origin through walkable exits inside the zone in at most \<open>maxHops\<close> hops (64 when the
  template asks for more), and nothing when the radius is not positive.\<close>

lemma bfsReachable_exact:
  assumes "bc_fromRoom cfg \<noteq> 0"
  shows "distinct (bfsReachable cfg) \<and> bc_fromRoom cfg \<notin> set (bfsReachable cfg)
    \<and> set (bfsReachable cfg) = {v. v \<noteq> bc_fromRoom cfg \<and> (\<exists>n. int n \<le> min (bc_maxHops cfg) 64 \<and> (bc_fromRoom cfg, v) \<in> room_graph cfg ^^ n)}
    \<and> (\<forall>k. int k \<le> min (bc_maxHops cfg) 64 \<longrightarrow>
         (\<exists>j. insert (bc_fromRoom cfg) (set (take j (bfsReachable cfg))) = {v. \<exists>n\<le>k. (bc_fromRoom cfg, v) \<in> room_graph cfg ^^ n}))"
proof (cases "bc_maxHops cfg \<le> 0")
  case True
  then have e: "bfsReachable cfg = []" by (simp add: bfsReachable_def)
  have z: "k = 0" if "int k \<le> min (bc_maxHops cfg) 64" for k using that True by simp
  have "{v. v \<noteq> bc_fromRoom cfg \<and> (\<exists>n. int n \<le> min (bc_maxHops cfg) 64 \<and> (bc_fromRoom cfg, v) \<in> room_graph cfg ^^ n)} = {}"
    using z by force
  moreover have "{v. \<exists>n\<le>k. (bc_fromRoom cfg, v) \<in> room_graph cfg ^^ n} = {bc_fromRoom cfg}" if "int k \<le> min (bc_maxHops cfg) 64" for k
    using z [OF that] by simp
  ultimately show ?thesis unfolding e by simp
next
  case False
  let ?u = "bc_fromRoom cfg"
  have hops: "n \<le> hops_of cfg \<longleftrightarrow> int n \<le> min (bc_maxHops cfg) 64" for n
    using False by (auto simp: hops_of_def bfsHopHardCap_def)
  have r: "bfsReachable cfg = reach_hops cfg (hops_of cfg) [?u] ([?u], [])" using False assms by (simp add: bfsReachable_def)
  have "found_rooms cfg (hops_of cfg) (bfsReachable cfg)"
    using reach_hops_correct [of cfg 0 "[?u]" "[]" "[?u]" "hops_of cfg"] unfolding r by (simp add: frontier_def by_distance_def)
  then show ?thesis unfolding found_rooms_def by_distance_def hops within_def by auto
qed

section \<open>The first step of a shortest path\<close>

text \<open>Every visited room but the origin hangs, by an exit that can be walked, on a visited room that is one hop nearer.\<close>

lemma keys_map_of: "v \<in> set (keys m) \<longleftrightarrow> (\<exists>c. map_of m v = Some c)"
  using map_of_eq_None_iff [of m v] by (cases "map_of m v") simp_all

definition tree_ok :: "bfsConfig \<Rightarrow> parents \<Rightarrow> bool" where
  "tree_ok cfg p \<longleftrightarrow> (\<forall>v c. map_of p v = Some c \<longrightarrow> v \<noteq> bc_fromRoom cfg \<longrightarrow>
     cr_parent c \<in> set (keys p) \<and> leads cfg (cr_parent c) (cr_edge c) v
     \<and> (\<forall>n. v \<in> within cfg (bc_fromRoom cfg) (Suc n) \<longrightarrow> cr_parent c \<in> within cfg (bc_fromRoom cfg) n))"

lemma tree_put:
  assumes "tree_ok cfg p" "within cfg (bc_fromRoom cfg) h \<subseteq> set (keys p)" "room \<in> within cfg (bc_fromRoom cfg) h"
    and "leads cfg room e v" "v \<notin> set (keys p)"
  shows "tree_ok cfg (map_put v \<lparr>cr_parent = room, cr_edge = e\<rparr> p)"
proof -
  note set_map [simp del]
  have "room \<in> within cfg (bc_fromRoom cfg) n" if "v \<in> within cfg (bc_fromRoom cfg) (Suc n)" for n
  proof -
    have "\<not> Suc n \<le> h" using that assms(2,5) within_mono by blast
    then show ?thesis using assms(3) within_mono [of h n cfg "bc_fromRoom cfg"] by auto
  qed
  then show ?thesis using assms unfolding tree_ok_def by (auto simp: keys_put)
qed

lemma tree_path:
  "tree_ok cfg p \<Longrightarrow> v \<in> set (keys p) \<Longrightarrow> v \<noteq> bc_fromRoom cfg \<Longrightarrow>
   v \<in> within cfg (bc_fromRoom cfg) (Suc n) \<Longrightarrow> v \<notin> within cfg (bc_fromRoom cfg) n \<Longrightarrow>
   \<exists>e. reconstructFirstEdge p (bc_fromRoom cfg) v = Some e \<and> leads cfg (bc_fromRoom cfg) e (ex_ToRoomID e)
     \<and> v \<in> within cfg (ex_ToRoomID e) n"
proof (induction n arbitrary: v)
  case (0 v)
  then obtain c where c: "map_of p v = Some c" using keys_map_of by metis
  then have "cr_parent c = bc_fromRoom cfg" "leads cfg (bc_fromRoom cfg) (cr_edge c) v"
    using 0 unfolding tree_ok_def by (auto dest!: spec)
  then show ?case using c by (subst reconstructFirstEdge.simps) (auto simp: map_get_def leads_def)
next
  case (Suc n v)
  let ?u = "bc_fromRoom cfg"
  obtain c where c: "map_of p v = Some c" using Suc.prems(2) keys_map_of by metis
  then have par: "cr_parent c \<in> set (keys p)" "leads cfg (cr_parent c) (cr_edge c) v" "cr_parent c \<in> within cfg ?u (Suc n)"
    using Suc.prems(1,3,4) unfolding tree_ok_def by auto
  show ?case
  proof (cases "cr_parent c = ?u")
    case True
    have "v = ex_ToRoomID (cr_edge c)" using par(2) by (simp add: leads_def)
    moreover have "w \<in> within cfg w (Suc n)" for w using within_mono [of 0 "Suc n" cfg w] by simp
    ultimately show ?thesis using c True par by (subst reconstructFirstEdge.simps) (auto simp: map_get_def)
  next
    case False
    have e: "(cr_parent c, v) \<in> room_graph cfg" using par(2) by (auto simp: room_graph_def)
    then have "cr_parent c \<notin> within cfg ?u n" using Suc.prems(5) within_graph by blast
    from Suc.IH [OF Suc.prems(1) par(1) False par(3) this] obtain d where
      d: "reconstructFirstEdge p ?u (cr_parent c) = Some d" "leads cfg ?u d (ex_ToRoomID d)"
      "cr_parent c \<in> within cfg (ex_ToRoomID d) n" by blast
    then have "reconstructFirstEdge p ?u v = Some d" using c False by (subst reconstructFirstEdge.simps) (simp add: map_get_def)
    with d e within_graph show ?thesis by blast
  qed
qed

lemma step_exits_ok:
  assumes "tree_ok cfg p" "within cfg (bc_fromRoom cfg) h \<subseteq> set (keys p)" "room \<in> within cfg (bc_fromRoom cfg) h"
    and "target \<notin> set (keys p)" "set es \<subseteq> set (ListFrom (bc_exits cfg) room)"
  shows "case step_exits cfg target room es (p, nxt) of
      Inl (q, nxt') \<Rightarrow> tree_ok cfg q \<and> target \<notin> set (keys q) \<and> grows (keys p, nxt, nxt) (entrances cfg es) (keys q, nxt', nxt')
    | Inr q \<Rightarrow> tree_ok cfg q \<and> target \<in> set (keys q) \<and> target \<in> entrances cfg es"
  using assms
proof (induction es arbitrary: p nxt)
  case Nil
  then show ?case by (auto simp: grows_def entrances_def)
next
  case (Cons e es)
  note set_map [simp del]
  let ?v = "ex_ToRoomID e" let ?p = "map_put ?v \<lparr>cr_parent = room, cr_edge = e\<rparr> p"
  show ?case
  proof (cases "exitWalkable e \<and> ?v \<notin> set (keys p) \<and> bc_zoneOf cfg ?v = Some (bc_zoneID cfg)")
    case True
    then have "leads cfg room e ?v" using Cons.prems(5) by (auto simp: leads_def)
    with tree_put [OF Cons.prems(1-3)] True have t: "tree_ok cfg ?p" by blast
    have k: "keys ?p = keys p @ [?v]" using True by (simp add: map_put_fresh)
    show ?thesis
    proof (cases "?v = target")
      case True': True
      have "target \<in> set (keys ?p)" unfolding keys_put using True' by simp
      with True True' t show ?thesis by (simp add: entrances_Cons del: set_map)
    next
      case False
      then have eq: "step_exits cfg target room (e # es) (p, nxt) = step_exits cfg target room es (?p, nxt @ [?v])" using True by simp
      have g: "grows (keys p, nxt, nxt) (entrances cfg (e # es)) (keys q, nxt', nxt')"
        if "grows (keys ?p, nxt @ [?v], nxt @ [?v]) (entrances cfg es) (keys q, nxt', nxt')" for q nxt'
      proof -
        have "grows (keys p, nxt, nxt) {?v} (keys ?p, nxt @ [?v], nxt @ [?v])"
          unfolding grows_def k using True by (intro exI [of _ "[?v]"]) auto
        from grows_trans [OF this that] True show ?thesis by (simp add: entrances_Cons)
      qed
      have "target \<notin> set (keys ?p)" "within cfg (bc_fromRoom cfg) h \<subseteq> set (keys ?p)"
        using False Cons.prems(2,4) by (auto simp: keys_put)
      from Cons.IH [OF t this(2) Cons.prems(3) this(1), of "nxt @ [?v]"] Cons.prems(5) g True show ?thesis unfolding eq
        by (auto simp: entrances_Cons split: sum.splits)
    qed
  next
    case False
    then have eq: "step_exits cfg target room (e # es) (p, nxt) = step_exits cfg target room es (p, nxt)" by auto
    have "entrances cfg (e # es) - set (keys p) = entrances cfg es - set (keys p)" using False by (auto simp: entrances_Cons)
    then have "grows (keys p, nxt, nxt) (entrances cfg es) st \<Longrightarrow> grows (keys p, nxt, nxt) (entrances cfg (e # es)) st" for st
      unfolding grows_def fst_conv snd_conv by metis
    moreover have "x \<in> entrances cfg es \<Longrightarrow> x \<in> entrances cfg (e # es)" for x by (auto simp: entrances_def)
    ultimately show ?thesis using Cons.IH [OF Cons.prems(1-4), of nxt] Cons.prems(5) unfolding eq by (auto split: sum.splits)
  qed
qed

lemma step_rooms_ok:
  assumes "tree_ok cfg p" "within cfg (bc_fromRoom cfg) h \<subseteq> set (keys p)" "set rooms \<subseteq> within cfg (bc_fromRoom cfg) h"
    and "target \<notin> set (keys p)"
  shows "case step_rooms cfg target rooms (p, nxt) of
      Inl (q, nxt') \<Rightarrow> tree_ok cfg q \<and> target \<notin> set (keys q) \<and> grows (keys p, nxt, nxt) (room_graph cfg `` set rooms) (keys q, nxt', nxt')
    | Inr q \<Rightarrow> tree_ok cfg q \<and> target \<in> set (keys q) \<and> target \<in> room_graph cfg `` set rooms"
  using assms
proof (induction rooms arbitrary: p nxt)
  case Nil
  then show ?case by (auto simp: grows_def)
next
  case (Cons room rooms)
  have img: "room_graph cfg `` set (room # rooms) = entrances cfg (ListFrom (bc_exits cfg) room) \<union> room_graph cfg `` set rooms"
    by (auto simp: entrances_graph)
  have room: "room \<in> within cfg (bc_fromRoom cfg) h" using Cons.prems(3) by simp
  note one = step_exits_ok [OF Cons.prems(1,2) room Cons.prems(4) order_refl, of nxt]
  show ?case
  proof (cases "step_exits cfg target room (ListFrom (bc_exits cfg) room) (p, nxt)")
    case (Inl st)
    obtain q n' where st: "st = (q, n')" by fastforce
    from one Inl st have q: "tree_ok cfg q" "target \<notin> set (keys q)"
      and g: "grows (keys p, nxt, nxt) (entrances cfg (ListFrom (bc_exits cfg) room)) (keys q, n', n')" by auto
    obtain new where "keys q = keys p @ new" using g by (auto simp: grows_def)
    then have "within cfg (bc_fromRoom cfg) h \<subseteq> set (keys q)" using Cons.prems(2) unfolding \<open>keys q = keys p @ new\<close> by auto
    from Cons.IH [OF q(1) this _ q(2), of n'] Cons.prems(3) grows_trans [OF g] show ?thesis
      using Inl st unfolding img by (auto split: sum.splits)
  next
    case (Inr q)
    with one show ?thesis unfolding img by simp
  qed
qed

lemma step_hops_ok:
  assumes "frontier cfg h queue (set (keys p))" "tree_ok cfg p" "target \<notin> set (keys p)"
  shows "case step_hops cfg target n queue p of
      None \<Rightarrow> target \<notin> within cfg (bc_fromRoom cfg) (h + n)
    | Some q \<Rightarrow> tree_ok cfg q \<and> target \<in> set (keys q)
        \<and> (\<exists>k<h + n. target \<in> within cfg (bc_fromRoom cfg) (Suc k) \<and> target \<notin> within cfg (bc_fromRoom cfg) k)"
  using assms
proof (induction n arbitrary: h queue p)
  case 0
  then show ?case by (simp add: frontier_def)
next
  case (Suc n)
  note set_map [simp del]
  have keys: "set (keys p) = within cfg (bc_fromRoom cfg) h" and queue: "set queue \<subseteq> within cfg (bc_fromRoom cfg) h"
    using Suc.prems(1) by (auto simp: frontier_def)
  show ?case
  proof (cases "queue = []")
    case True
    with Suc.prems frontier_stop [of cfg h _ "Suc n"] show ?thesis by simp
  next
    case False
    note rooms = step_rooms_ok [OF Suc.prems(2) _ queue Suc.prems(3), of "[]"]
    show ?thesis
    proof (cases "step_rooms cfg target queue (p, [])")
      case (Inl st)
      obtain q nxt where st: "st = (q, nxt)" by fastforce
      from rooms keys Inl st have q: "tree_ok cfg q" "target \<notin> set (keys q)" "set nxt = room_graph cfg `` set queue - set (keys p)"
        "set (keys q) = set (keys p) \<union> set nxt" by (auto simp: grows_def)
      have "frontier cfg (Suc h) nxt (set (keys q))" using frontier_next [OF Suc.prems(1) q(3)] q(4) by simp
      from Suc.IH [OF this q(1,2)] False Inl st show ?thesis unfolding add_Suc add_Suc_right by simp
    next
      case (Inr q)
      with rooms keys queue have "tree_ok cfg q" "target \<in> set (keys q)" "target \<in> within cfg (bc_fromRoom cfg) (Suc h)"
        by (auto simp: within_Suc)
      with Inr False Suc.prems(3) keys show ?thesis by (auto intro!: exI [of _ h])
    qed
  qed
qed

lemma next_step_correct:
  assumes "bc_fromRoom cfg \<noteq> 0" "target \<noteq> 0" "target \<noteq> bc_fromRoom cfg" "0 < bc_maxHops cfg"
  shows "if \<exists>n. int n \<le> min (bc_maxHops cfg) 64 \<and> (bc_fromRoom cfg, target) \<in> room_graph cfg ^^ n
    then \<exists>e k. bfsNextStep cfg target = Some (Some e) \<and> leads cfg (bc_fromRoom cfg) e (ex_ToRoomID e)
      \<and> (ex_ToRoomID e, target) \<in> room_graph cfg ^^ k \<and> int (Suc k) \<le> min (bc_maxHops cfg) 64
      \<and> (\<forall>m. (bc_fromRoom cfg, target) \<in> room_graph cfg ^^ m \<longrightarrow> Suc k \<le> m)
    else bfsNextStep cfg target = Some None"
proof -
  let ?u = "bc_fromRoom cfg" let ?p = "[(?u, zero_crumb)]"
  have hops: "n \<le> hops_of cfg \<longleftrightarrow> int n \<le> min (bc_maxHops cfg) 64" for n
    using assms(4) by (auto simp: hops_of_def bfsHopHardCap_def)
  have b: "bfsNextStep cfg target = (case step_hops cfg target (hops_of cfg) [?u] ?p of None \<Rightarrow> Some None
      | Some parents \<Rightarrow> map_option Some (reconstructFirstEdge parents ?u target))"
    using assms by (simp add: bfsNextStep_def)
  have iff: "(\<exists>n. int n \<le> min (bc_maxHops cfg) 64 \<and> (?u, target) \<in> room_graph cfg ^^ n) \<longleftrightarrow> target \<in> within cfg ?u (hops_of cfg)"
    unfolding within_def mem_Collect_eq hops ..
  have ok: "case step_hops cfg target (hops_of cfg) [?u] ?p of None \<Rightarrow> target \<notin> within cfg ?u (hops_of cfg)
    | Some q \<Rightarrow> tree_ok cfg q \<and> target \<in> set (keys q) \<and> (\<exists>k<hops_of cfg. target \<in> within cfg ?u (Suc k) \<and> target \<notin> within cfg ?u k)"
    using step_hops_ok [of cfg 0 "[?u]" ?p target "hops_of cfg"] assms(3) unfolding add_0 by (simp add: frontier_def tree_ok_def)
  show ?thesis
  proof (cases "step_hops cfg target (hops_of cfg) [?u] ?p")
    case None
    with ok b show ?thesis unfolding iff by simp
  next
    case (Some q)
    with ok obtain n where q: "tree_ok cfg q" "target \<in> set (keys q)" "n < hops_of cfg" "target \<in> within cfg ?u (Suc n)" "target \<notin> within cfg ?u n"
      by auto
    from tree_path [OF q(1,2) assms(3) q(4,5)] obtain e where e: "reconstructFirstEdge q ?u target = Some e"
      "leads cfg ?u e (ex_ToRoomID e)" "target \<in> within cfg (ex_ToRoomID e) n" by blast
    then obtain k where k: "k \<le> n" "(ex_ToRoomID e, target) \<in> room_graph cfg ^^ k" by (auto simp: within_def)
    have "target \<in> within cfg ?u (hops_of cfg)" using q(3,4) within_mono [of "Suc n" "hops_of cfg" cfg ?u] by auto
    moreover have "Suc k \<le> m" if "(?u, target) \<in> room_graph cfg ^^ m" for m
      using that q(5) k(1) unfolding within_def by (metis (mono_tags, lifting) mem_Collect_eq not_less_eq_eq order_trans)
    ultimately show ?thesis unfolding iff using b Some e(1,2) k q(3) hops [of "Suc k"] by auto
  qed
qed

lemma next_step_trivial:
  "bc_fromRoom cfg = 0 \<or> target = 0 \<or> target = bc_fromRoom cfg \<or> bc_maxHops cfg \<le> 0 \<Longrightarrow> bfsNextStep cfg target = Some None"
  by (auto simp: bfsNextStep_def)

lemma next_step_returns: "bfsNextStep cfg target \<noteq> None"
proof (cases "bc_fromRoom cfg = 0 \<or> target = 0 \<or> target = bc_fromRoom cfg \<or> bc_maxHops cfg \<le> 0")
  case False
  then have "bc_fromRoom cfg \<noteq> 0" "target \<noteq> 0" "target \<noteq> bc_fromRoom cfg" "0 < bc_maxHops cfg" by auto
  from next_step_correct [OF this] show ?thesis by (auto split: if_splits)
qed (simp add: next_step_trivial)

lemma next_step_leads:
  assumes "bfsNextStep cfg target = Some (Some e)"
  shows "leads cfg (bc_fromRoom cfg) e (ex_ToRoomID e)"
proof -
  have "bc_fromRoom cfg \<noteq> 0" "target \<noteq> 0" "target \<noteq> bc_fromRoom cfg" "0 < bc_maxHops cfg"
    using assms next_step_trivial [of cfg target] by force+
  from next_step_correct [OF this] assms show ?thesis by (auto split: if_splits)
qed

text \<open>C27: The step of a wandering mob. \<open>bfsNextStep\<close> always returns; it finds a step exactly when the target is another room that can be
  reached through walkable exits inside the zone in at most \<open>maxHops\<close> hops (capped at 64), and the step is then a walkable exit
  of the mob's room that begins a shortest such path.\<close>

theorem bfsNextStep_shortest:
  assumes "bc_fromRoom cfg \<noteq> 0" "target \<noteq> 0" "target \<noteq> bc_fromRoom cfg" "0 < bc_maxHops cfg"
  shows "if \<exists>n. int n \<le> min (bc_maxHops cfg) 64 \<and> (bc_fromRoom cfg, target) \<in> room_graph cfg ^^ n
    then \<exists>e k. bfsNextStep cfg target = Some (Some e) \<and> leads cfg (bc_fromRoom cfg) e (ex_ToRoomID e)
      \<and> (ex_ToRoomID e, target) \<in> room_graph cfg ^^ k \<and> int (Suc k) \<le> min (bc_maxHops cfg) 64
      \<and> (\<forall>m. (bc_fromRoom cfg, target) \<in> room_graph cfg ^^ m \<longrightarrow> Suc k \<le> m)
    else bfsNextStep cfg target = Some None"
  using next_step_correct [OF assms] .

text \<open>Two rooms of one zone joined by an open exit, for the examples.\<close>

definition two_rooms :: bfsConfig where
  "two_rooms = \<lparr>bc_exits = \<lparr>er_exits = [zero_Exit\<lparr>ex_FromRoomID := 1, ex_ToRoomID := 2, ex_Direction := DirEast\<rparr>], er_maxID = 0\<rparr>,
     bc_zoneOf = (\<lambda>room. Some 5), bc_fromRoom = 1, bc_zoneID = 5, bc_maxHops = 3\<rparr>"

lemma two_rooms_leads: "leads two_rooms 1 (zero_Exit\<lparr>ex_FromRoomID := 1, ex_ToRoomID := 2, ex_Direction := DirEast\<rparr>) 2"
  by (simp add: leads_def two_rooms_def ListFrom_def exitWalkable_def zero_Exit_def)

lemma two_rooms_facts: "bc_fromRoom two_rooms = 1" "bc_maxHops two_rooms = 3"
  by (simp_all add: two_rooms_def)

lemma bfsNextStep_shortest_witness: "\<exists>e. bfsNextStep two_rooms 2 = Some (Some e) \<and> leads two_rooms 1 e (ex_ToRoomID e)"
proof -
  have "(1, 2) \<in> room_graph two_rooms ^^ 1" using two_rooms_leads by (auto simp: room_graph_def)
  moreover have "int 1 \<le> min (bc_maxHops two_rooms) 64" by (simp add: two_rooms_facts)
  ultimately have "\<exists>n. int n \<le> min (bc_maxHops two_rooms) 64 \<and> (1, 2) \<in> room_graph two_rooms ^^ n" by blast
  note far = this
  have "(2 :: int) \<noteq> 0" "(2 :: int) \<noteq> 1" "0 < bc_maxHops two_rooms" by (simp_all add: two_rooms_facts)
  from bfsNextStep_shortest [of two_rooms 2, unfolded two_rooms_facts(1), OF one_neq_zero this] show ?thesis unfolding if_P [OF far] by blast
qed

end
