(* ===== verification/Wander.thy ===== *)
theory Wander
  imports Bfs MobRepo RoomRepo Sessions GoFloat
begin

text \<open>
  The wander pulse of mobs: \<open>internal/mob/wander.go\<close>. Templates are looked up in a function; the caches of one pulse (profiles by
  template, zones by room) are transparent, for neither templates nor rooms change within it, and are not kept. The generator is
  a list of floats and a list of integers still to come, the clock readings of the trails a list. The session registry is wired.
\<close>

unbundle bit_operations_syntax

section \<open>State\<close>

record WanderTemplate = MobTemplate +
  wt_BehaviorFlags :: "16 word"
  wt_WanderChance :: flt
  wt_WanderRadius :: int
  wt_Path :: "string list"

definition BehavSentinel :: "16 word" where "BehavSentinel = push_bit 2 1"

record WanderHandler =
  wh_Rooms :: MemoryRoomRepo
  wh_Exits :: MemoryExitRepo
  wh_Templates :: "int \<Rightarrow> WanderTemplate option"
  wh_Chance :: flt
  wh_Cap :: int

record WanderWorld =
  ww_Mobs :: MemoryMobInstanceRepo
  ww_Sess :: Sessions
  ww_Goals :: "(int \<times> int) list"
  ww_Floats :: "flt list"
  ww_Rng :: rng
  ww_Clock :: "int list"

record wanderProfile =
  wp_flags :: "16 word"
  wp_chance :: flt
  wp_pathRoomIDs :: "int list"
  wp_wanderRadius :: int

section \<open>Profiles, zones, notices\<close>

text \<open>A path with a room that no longer exists is dropped as a whole.\<close>

fun resolve_path :: "MemoryRoomRepo \<Rightarrow> string list \<Rightarrow> int list \<Rightarrow> int list" where
  "resolve_path rooms [] ids = ids"
| "resolve_path rooms (ext # exts) ids =
     (case room_FindByExternalID rooms ext of Inl e \<Rightarrow> [] | Inr room \<Rightarrow> resolve_path rooms exts (ids @ [rm_ID room]))"

definition profile_of :: "WanderHandler \<Rightarrow> int \<Rightarrow> wanderProfile option" where
  "profile_of h t =
     (case wh_Templates h t of None \<Rightarrow> None
      | Some tpl \<Rightarrow> Some \<lparr>wp_flags = wt_BehaviorFlags tpl, wp_chance = wt_WanderChance tpl,
          wp_pathRoomIDs = resolve_path (wh_Rooms h) (wt_Path tpl) [], wp_wanderRadius = wt_WanderRadius tpl\<rparr>)"

definition wander_zoneOf :: "WanderHandler \<Rightarrow> int \<Rightarrow> int option" where
  "wander_zoneOf h roomID =
     (if roomID = 0 then None
      else case room_FindByID (wh_Rooms h) roomID of Inl e \<Rightarrow> None | Inr room \<Rightarrow> Some (rm_ZoneID room))"

definition mob_reverseDir :: "string \<Rightarrow> string" where
  "mob_reverseDir d =
     (if d = DirNorth then DirSouth else if d = DirSouth then DirNorth else if d = DirEast then DirWest
      else if d = DirWest then DirEast else if d = DirUp then DirDown else if d = DirDown then DirUp
      else if d = DirNortheast then DirSouthwest else if d = DirSouthwest then DirNortheast
      else if d = DirNorthwest then DirSoutheast else if d = DirSoutheast then DirNorthwest else [])"

definition safeMobName :: "string \<Rightarrow> string" where "safeMobName name = Defang name ''Something''"

definition wander_broadcast :: "MobInstance \<Rightarrow> int \<Rightarrow> Exit \<Rightarrow> Sessions \<Rightarrow> Sessions" where
  "wander_broadcast m fromRoomID exit s =
     (let name = safeMobName (c_Name (mi_Core m));
          leave = ''{{'' @ name @ '' leaves '' @ DirLong (ex_Direction exit) @ ''.}}::white'';
          rev = DirLong (mob_reverseDir (ex_Direction exit));
          arrive = (if rev \<noteq> [] then ''{{'' @ name @ '' arrives from the '' @ rev @ ''.}}::white'' else ''{{'' @ name @ '' arrives.}}::white'')
      in fold (\<lambda>peer s. if gs_CurrentRoomID (sess s peer) = fromRoomID then write_to peer leave s
                         else if gs_CurrentRoomID (sess s peer) = ex_ToRoomID exit then write_to peer arrive s else s)
           (Snapshot s) s)"

section \<open>One mob\<close>

text \<open>The move every branch ends with: the row, then the notices.\<close>

definition relocate :: "MobInstance \<Rightarrow> Exit \<Rightarrow> WanderWorld \<Rightarrow> WanderWorld" where
  "relocate m exit w =
     (case mob_UpdateRoom (ww_Mobs w) (mi_ID m) (ex_ToRoomID exit) (case ww_Clock w of [] \<Rightarrow> 0 | t # ts \<Rightarrow> t) of
        (mobs, Some e) \<Rightarrow> w\<lparr>ww_Mobs := mobs, ww_Clock := tl (ww_Clock w)\<rparr>
      | (mobs, None) \<Rightarrow> w\<lparr>ww_Mobs := mobs, ww_Clock := tl (ww_Clock w),
                         ww_Sess := wander_broadcast m (c_CurrentRoomID (mi_Core m)) exit (ww_Sess w)\<rparr>)"

definition considerStrictPath :: "WanderHandler \<Rightarrow> MobInstance \<Rightarrow> wanderProfile \<Rightarrow> WanderWorld \<Rightarrow> WanderWorld" where
  "considerStrictPath h m prof w =
     (let room = c_CurrentRoomID (mi_Core m); path = wp_pathRoomIDs prof
      in if room \<notin> set path then w
         else let idx = length (takeWhile (\<lambda>rid. rid \<noteq> room) path); target = path ! ((idx + 1) mod length path)
              in case find (\<lambda>e. exitWalkable e \<and> ex_ToRoomID e = target) (ListFrom (wh_Exits h) room) of
                   None \<Rightarrow> w
                 | Some chosen \<Rightarrow>
                     (case wander_zoneOf h room of None \<Rightarrow> w
                      | Some z \<Rightarrow> if wander_zoneOf h target \<noteq> Some z then w else relocate m chosen w))"

definition bfs_of :: "WanderHandler \<Rightarrow> int \<Rightarrow> int \<Rightarrow> int \<Rightarrow> bfsConfig" where
  "bfs_of h room z radius = \<lparr>bc_exits = wh_Exits h, bc_zoneOf = wander_zoneOf h, bc_fromRoom = room, bc_zoneID = z, bc_maxHops = radius\<rparr>"

text \<open>The step towards the goal; \<open>bfsNextStep\<close> always returns (below), so the branch for \<open>None\<close> is never taken.\<close>

definition step_to_goal :: "MobInstance \<Rightarrow> bfsConfig \<Rightarrow> int \<Rightarrow> WanderWorld \<Rightarrow> WanderWorld" where
  "step_to_goal m cfg goal w =
     (case bfsNextStep cfg goal of None \<Rightarrow> w
      | Some None \<Rightarrow> w\<lparr>ww_Goals := map_del (mi_ID m) (ww_Goals w)\<rparr>
      | Some (Some step) \<Rightarrow>
          (case mob_UpdateRoom (ww_Mobs w) (mi_ID m) (ex_ToRoomID step) (case ww_Clock w of [] \<Rightarrow> 0 | t # ts \<Rightarrow> t) of
             (mobs, Some e) \<Rightarrow> w\<lparr>ww_Mobs := mobs, ww_Clock := tl (ww_Clock w)\<rparr>
           | (mobs, None) \<Rightarrow>
               let w1 = w\<lparr>ww_Mobs := mobs, ww_Clock := tl (ww_Clock w)\<rparr>;
                   w2 = (if ex_ToRoomID step = goal then w1\<lparr>ww_Goals := map_del (mi_ID m) (ww_Goals w1)\<rparr> else w1)
               in w2\<lparr>ww_Sess := wander_broadcast m (c_CurrentRoomID (mi_Core m)) step (ww_Sess w2)\<rparr>))"

definition considerBFSWander :: "WanderHandler \<Rightarrow> MobInstance \<Rightarrow> wanderProfile \<Rightarrow> WanderWorld \<Rightarrow> WanderWorld" where
  "considerBFSWander h m prof w =
     (let room = c_CurrentRoomID (mi_Core m)
      in case wander_zoneOf h room of None \<Rightarrow> w
         | Some z \<Rightarrow>
             let cfg = bfs_of h room z (wp_wanderRadius prof); goal = map_get (ww_Goals w) (mi_ID m) 0
             in if goal = 0 \<or> goal = room
                then let reachable = bfsReachable cfg
                     in if reachable = [] then w
                        else case Intn (ww_Rng w) (int (length reachable)) of
                               (k, rng) \<Rightarrow> step_to_goal m cfg (reachable ! nat k)
                                 (w\<lparr>ww_Rng := rng, ww_Goals := map_put (mi_ID m) (reachable ! nat k) (ww_Goals w)\<rparr>)
                else step_to_goal m cfg goal w)"

definition considerRandom :: "WanderHandler \<Rightarrow> MobInstance \<Rightarrow> wanderProfile \<Rightarrow> WanderWorld \<Rightarrow> WanderWorld" where
  "considerRandom h m prof w =
     (let final = f64 (fmul (wp_chance prof) (wh_Chance h))
      in if fle final f_zero then w
         else let final = (if \<not> fle final f_one then f_one else final);
                  roll = (case ww_Floats w of [] \<Rightarrow> f_zero | x # xs \<Rightarrow> x); w1 = w\<lparr>ww_Floats := tl (ww_Floats w)\<rparr>;
                  room = c_CurrentRoomID (mi_Core m)
              in if fle final roll then w1
                 else case wander_zoneOf h room of None \<Rightarrow> w1
                      | Some z \<Rightarrow>
                          let candidates = filter (\<lambda>e. exitWalkable e \<and> wander_zoneOf h (ex_ToRoomID e) = Some z) (ListFrom (wh_Exits h) room)
                          in if candidates = [] then w1
                             else case Intn (ww_Rng w1) (int (length candidates)) of
                                    (k, rng) \<Rightarrow> relocate m (candidates ! nat k) (w1\<lparr>ww_Rng := rng\<rparr>))"

definition considerMob :: "WanderHandler \<Rightarrow> MobInstance \<Rightarrow> WanderWorld \<Rightarrow> WanderWorld" where
  "considerMob h m w =
     (if c_CurrentRoomID (mi_Core m) = 0 then w
      else case profile_of h (mi_TemplateID m) of None \<Rightarrow> w
           | Some prof \<Rightarrow>
               if wp_flags prof AND BehavSentinel \<noteq> 0 then w
               else if wp_pathRoomIDs prof \<noteq> [] then considerStrictPath h m prof w
               else if wp_wanderRadius prof > 0 then considerBFSWander h m prof w
               else considerRandom h m prof w)"

definition pruneGoals :: "int list \<Rightarrow> WanderWorld \<Rightarrow> WanderWorld" where
  "pruneGoals alive w = w\<lparr>ww_Goals := filter (\<lambda>(i, g). i \<in> set alive) (ww_Goals w)\<rparr>"

definition wander_Tick :: "WanderHandler \<Rightarrow> WanderWorld \<Rightarrow> WanderWorld" where
  "wander_Tick h w =
     (if wh_Cap h \<le> 0 then w
      else let mobs = mob_ListSpawned (ww_Mobs w) (wh_Cap h); w1 = fold (considerMob h) mobs w
           in if int (length mobs) < wh_Cap h then pruneGoals (map mi_ID mobs) w1 else w1)"

section \<open>Where a mob may go\<close>

text \<open>One step from the room the mob stands in, by an exit that can be walked, inside the zone; along the path when there is one.\<close>

definition legal_step :: "WanderHandler \<Rightarrow> MobInstance \<Rightarrow> int \<Rightarrow> bool" where
  "legal_step h m room' \<longleftrightarrow>
     (\<exists>prof z. profile_of h (mi_TemplateID m) = Some prof \<and> wp_flags prof AND BehavSentinel = 0
       \<and> (\<exists>e\<in>set (ListFrom (wh_Exits h) (c_CurrentRoomID (mi_Core m))). exitWalkable e \<and> ex_ToRoomID e = room')
       \<and> wander_zoneOf h (c_CurrentRoomID (mi_Core m)) = Some z \<and> wander_zoneOf h room' = Some z
       \<and> (wp_pathRoomIDs prof \<noteq> [] \<longrightarrow>
           (\<exists>i<length (wp_pathRoomIDs prof). wp_pathRoomIDs prof ! i = c_CurrentRoomID (mi_Core m)
              \<and> room' = wp_pathRoomIDs prof ! ((i + 1) mod length (wp_pathRoomIDs prof)))))"

lemma UpdateRoom_rows: "mob_GetByID (fst (mob_UpdateRoom r i room now)) j =
    (if j = i then case mob_GetByID r i of Inl e \<Rightarrow> Inl e | Inr m \<Rightarrow> Inr (m\<lparr>mi_Core := (mi_Core m)\<lparr>c_CurrentRoomID := room\<rparr>\<rparr>)
     else mob_GetByID r j)"
proof -
  have "mob_GetByID (fst (mob_UpdateRoom r i room now)) j =
      mob_GetByID (fst (mob_at r i (\<lambda>m. Inr (m\<lparr>mi_Core := (mi_Core m)\<lparr>c_CurrentRoomID := room\<rparr>\<rparr>)))) j"
    by (simp add: mob_UpdateRoom_def mob_GetByID_def split: prod.split option.split)
  then show ?thesis by (simp only: mob_store.get_upd [OF TrueI] sum.case)
qed

definition moves_mob :: "WanderHandler \<Rightarrow> MobInstance \<Rightarrow> WanderWorld \<Rightarrow> WanderWorld \<Rightarrow> bool" where
  "moves_mob h m w v \<longleftrightarrow> ww_Mobs v = ww_Mobs w
     \<or> (\<exists>room' now. legal_step h m room' \<and> ww_Mobs v = fst (mob_UpdateRoom (ww_Mobs w) (mi_ID m) room' now))"

lemma relocate_moves: "legal_step h m (ex_ToRoomID e) \<Longrightarrow> moves_mob h m w (relocate m e w)"
  unfolding moves_mob_def relocate_def by (auto split: prod.split option.split) (metis fst_conv)+

lemma step_to_goal_moves:
  assumes "profile_of h (mi_TemplateID m) = Some prof" "wp_flags prof AND BehavSentinel = 0" "wp_pathRoomIDs prof = []"
    and "wander_zoneOf h (c_CurrentRoomID (mi_Core m)) = Some z" "ww_Mobs v = ww_Mobs w"
  shows "moves_mob h m w (step_to_goal m (bfs_of h (c_CurrentRoomID (mi_Core m)) z radius) goal v)"
proof -
  have "legal_step h m (ex_ToRoomID e)" if "bfsNextStep (bfs_of h (c_CurrentRoomID (mi_Core m)) z radius) goal = Some (Some e)" for e
    using next_step_leads [OF that] assms(1-4) unfolding legal_step_def leads_def by (auto simp: bfs_of_def)
  then show ?thesis unfolding moves_mob_def step_to_goal_def using assms(5)
    by (auto simp: Let_def split: option.split prod.split) (metis fst_conv)+
qed

lemma considerMob_moves: "moves_mob h m w (considerMob h m w)"
proof (cases "profile_of h (mi_TemplateID m)")
  case (Some prof)
  let ?room = "c_CurrentRoomID (mi_Core m)"
  have stay: "ww_Mobs v = ww_Mobs w \<Longrightarrow> moves_mob h m w v" for v by (simp add: moves_mob_def)
  have strict: "moves_mob h m w (considerStrictPath h m prof w)" if "wp_flags prof AND BehavSentinel = 0"
  proof -
    let ?idx = "length (takeWhile (\<lambda>rid. rid \<noteq> ?room) (wp_pathRoomIDs prof))"
    have "?idx < length (wp_pathRoomIDs prof) \<and> wp_pathRoomIDs prof ! ?idx = ?room" if "?room \<in> set (wp_pathRoomIDs prof)"
      using that nth_length_takeWhile [of "\<lambda>rid. rid \<noteq> ?room" "wp_pathRoomIDs prof"]
      by (metis (mono_tags, lifting) length_takeWhile_le le_neq_implies_less set_takeWhileD takeWhile_eq_all_conv takeWhile_eq_take take_all_iff)
    then have "legal_step h m (ex_ToRoomID e)"
      if "?room \<in> set (wp_pathRoomIDs prof)" "wander_zoneOf h ?room = Some z"
        "find (\<lambda>e. exitWalkable e \<and> ex_ToRoomID e = wp_pathRoomIDs prof ! ((?idx + 1) mod length (wp_pathRoomIDs prof)))
           (ListFrom (wh_Exits h) ?room) = Some e" "wander_zoneOf h (wp_pathRoomIDs prof ! ((?idx + 1) mod length (wp_pathRoomIDs prof))) = Some z"
      for e z
      using that Some \<open>wp_flags prof AND BehavSentinel = 0\<close> unfolding legal_step_def find_Some_iff by (metis nth_mem)
    then show ?thesis unfolding considerStrictPath_def Let_def
      by (auto intro: stay relocate_moves split: option.split)
  qed
  have bfs: "moves_mob h m w (considerBFSWander h m prof w)" if "wp_flags prof AND BehavSentinel = 0" "wp_pathRoomIDs prof = []"
    unfolding considerBFSWander_def Let_def
    by (auto intro: stay step_to_goal_moves [OF Some that] split: option.split prod.split)
  have random: "moves_mob h m w (considerRandom h m prof w)" if "wp_flags prof AND BehavSentinel = 0" "wp_pathRoomIDs prof = []"
  proof -
    have "moves_mob h m w (relocate m (cs ! nat k) v)"
      if "Intn r (int (length cs)) = (k, r')" "cs \<noteq> []" "ww_Mobs v = ww_Mobs w" "wander_zoneOf h ?room = Some z"
        "cs = filter (\<lambda>e. exitWalkable e \<and> wander_zoneOf h (ex_ToRoomID e) = Some z) (ListFrom (wh_Exits h) ?room)" for cs k r r' v z
    proof -
      have "0 \<le> k \<and> k < int (length cs)" using that(1,2) Intn_bounds [of "int (length cs)" r] by simp
      then have "cs ! nat k \<in> set cs" by (simp add: nat_less_iff)
      then have "legal_step h m (ex_ToRoomID (cs ! nat k))"
        using that(4,5) Some \<open>wp_flags prof AND BehavSentinel = 0\<close> \<open>wp_pathRoomIDs prof = []\<close> unfolding legal_step_def by auto
      from relocate_moves [OF this, of v] that(3) show ?thesis by (simp add: moves_mob_def)
    qed
    then show ?thesis unfolding considerRandom_def Let_def by (auto intro: stay split: option.split prod.split)
  qed
  show ?thesis unfolding considerMob_def using Some strict bfs random stay by simp
qed (simp add: considerMob_def moves_mob_def)

lemma fold_moves:
  assumes "distinct (map mi_ID ms)" "\<And>m. m \<in> set ms \<Longrightarrow> mob_GetByID (ww_Mobs w) (mi_ID m) = Inr m"
    and "mob_GetByID (ww_Mobs w) j = r"
  shows "mob_GetByID (ww_Mobs (fold (considerMob h) ms w)) j = r
    \<or> (\<exists>m room'. r = Inr m \<and> m \<in> set ms \<and> legal_step h m room'
         \<and> mob_GetByID (ww_Mobs (fold (considerMob h) ms w)) j = Inr (m\<lparr>mi_Core := (mi_Core m)\<lparr>c_CurrentRoomID := room'\<rparr>\<rparr>))"
  using assms
proof (induction ms rule: rev_induct)
  case (snoc m ms)
  let ?v = "fold (considerMob h) ms w"
  note IH = snoc.IH [OF _ _ snoc.prems(3)]
  have ih: "mob_GetByID (ww_Mobs ?v) j = r
    \<or> (\<exists>m room'. r = Inr m \<and> m \<in> set ms \<and> legal_step h m room'
         \<and> mob_GetByID (ww_Mobs ?v) j = Inr (m\<lparr>mi_Core := (mi_Core m)\<lparr>c_CurrentRoomID := room'\<rparr>\<rparr>))"
    using IH snoc.prems(1,2) by simp
  have own: "r = Inr m" if "j = mi_ID m" using that snoc.prems(2,3) by simp
  show ?case
  proof (cases "j = mi_ID m")
    case True
    have "m' \<notin> set ms" if "r = Inr m'" for m' using that own [OF True] snoc.prems(1) by force
    then have same: "mob_GetByID (ww_Mobs ?v) j = Inr m" using ih own [OF True] by blast
    from considerMob_moves [of h m ?v] consider "ww_Mobs (considerMob h m ?v) = ww_Mobs ?v"
      | room' now where "legal_step h m room'" "ww_Mobs (considerMob h m ?v) = fst (mob_UpdateRoom (ww_Mobs ?v) (mi_ID m) room' now)"
      unfolding moves_mob_def by blast
    then show ?thesis
    proof cases
      case 1
      then show ?thesis using same own [OF True] by simp
    next
      case 2
      then show ?thesis using same own [OF True] True by (auto simp: UpdateRoom_rows)
    qed
  next
    case False
    then have "mob_GetByID (ww_Mobs (considerMob h m ?v)) j = mob_GetByID (ww_Mobs ?v) j"
      using considerMob_moves [of h m ?v] by (auto simp: moves_mob_def UpdateRoom_rows)
    then show ?thesis using ih by auto
  qed
qed simp

definition mobs_ok :: "MemoryMobInstanceRepo \<Rightarrow> bool" where
  "mobs_ok r \<longleftrightarrow> distinct (keys (mb_byID r)) \<and> (\<forall>(i, m)\<in>set (mb_byID r). mi_ID m = i)"

lemma spawned_rows:
  assumes "mobs_ok r"
  shows "distinct (map mi_ID (mob_ListSpawned r limit))
    \<and> (\<forall>m\<in>set (mob_ListSpawned r limit). mob_GetByID r (mi_ID m) = Inr m)"
proof -
  have "map mi_ID (map snd (mb_byID r)) = keys (mb_byID r)" using assms by (auto simp: mobs_ok_def)
  then have d: "distinct (map mi_ID (map snd (mb_byID r)))" using assms unfolding mobs_ok_def by metis
  have "distinct (map mi_ID (mob_ListSpawned r limit))"
  proof -
    have "distinct (map mi_ID (sort_key mi_ID (filter (\<lambda>m. c_CurrentRoomID (mi_Core m) \<noteq> 0) (map snd (mb_byID r)))))"
      using distinct_map_filter [OF d] by (simp add: distinct_map)
    then show ?thesis unfolding mob_ListSpawned_def by (simp add: take_map [symmetric] del: distinct_map)
  qed
  moreover have "mob_GetByID r (mi_ID m) = Inr m" if "m \<in> set (mob_ListSpawned r limit)" for m
  proof -
    have "m \<in> snd ` set (mb_byID r)" using that unfolding mob_ListSpawned_def by (auto dest: in_set_takeD split: if_splits)
    then show ?thesis using assms by (auto simp: mobs_ok_def mob_GetByID_def)
  qed
  ultimately show ?thesis by blast
qed

text \<open>C28: What a wander pulse may do to the mobs. Every mob is after the pulse as it was, or has taken a single step: its template
  is not a sentinel, it went through an exit of the room it stood in that a player could take, it stayed in
  its zone, and if its template has a path it went to the room after its own on the path. No mob appears or disappears, and after
  a pulse that saw every spawned mob only those have goals.\<close>

theorem wander_stays_home:
  assumes "mobs_ok (ww_Mobs w)"
  shows "(mob_GetByID (ww_Mobs (wander_Tick h w)) j = mob_GetByID (ww_Mobs w) j
      \<or> (\<exists>m room'. mob_GetByID (ww_Mobs w) j = Inr m \<and> legal_step h m room'
           \<and> mob_GetByID (ww_Mobs (wander_Tick h w)) j = Inr (m\<lparr>mi_Core := (mi_Core m)\<lparr>c_CurrentRoomID := room'\<rparr>\<rparr>)))
    \<and> (int (length (mob_ListSpawned (ww_Mobs w) (wh_Cap h))) < wh_Cap h \<longrightarrow>
         set (keys (ww_Goals (wander_Tick h w))) \<subseteq> mi_ID ` set (mob_ListSpawned (ww_Mobs w) (wh_Cap h)))"
proof (cases "wh_Cap h \<le> 0")
  case True
  then show ?thesis by (simp add: wander_Tick_def)
next
  case False
  let ?ms = "mob_ListSpawned (ww_Mobs w) (wh_Cap h)"
  note rows = spawned_rows [OF assms, of "wh_Cap h"]
  have "ww_Mobs (wander_Tick h w) = ww_Mobs (fold (considerMob h) ?ms w)"
    using False by (simp add: wander_Tick_def pruneGoals_def Let_def)
  moreover have "set (keys (ww_Goals (wander_Tick h w))) \<subseteq> mi_ID ` set ?ms" if "int (length ?ms) < wh_Cap h"
    using False that by (auto simp: wander_Tick_def pruneGoals_def Let_def)
  ultimately show ?thesis using fold_moves [of ?ms w j _ h] rows by (metis (no_types, lifting))
qed

text \<open>A mob of template 9 in room 1, on a path from room 1 to room 2 and back, joined by an open exit to the east.\<close>

definition path_room :: "int \<Rightarrow> string \<Rightarrow> Room" where
  "path_room i ext = \<lparr>rm_ID = i, rm_ExternalID = ext, rm_ZoneID = 5, rm_Name = [], rm_ShortDesc = [], rm_LongDesc = [],
     rm_Flags = \<lparr>rf_Indoors = False, rf_NoPVP = False, rf_NoTeleport = False, rf_Dark = False, rf_Silent = False,
       rf_Peaceful = False, rf_NoMap = False, rf_Bindable = False\<rparr>,
     rm_Sector = SectorCity, rm_LightLevel = 0, rm_CoordX = 0, rm_CoordY = 0, rm_CoordZ = 0, rm_CoordsAnchor = False,
     rm_ExtraDescs = [], rm_CreatedAt = None\<rparr>"

definition patrol :: WanderHandler where
  "patrol = \<lparr>wh_Rooms = \<lparr>rr_heap = [path_room 1 ''a'', path_room 2 ''b''], rr_byID = [(1, 0), (2, 1)],
       rr_byExt = [(''a'', 0), (''b'', 1)], rr_maxID = 2\<rparr>,
     wh_Exits = \<lparr>er_exits = [zero_Exit\<lparr>ex_FromRoomID := 1, ex_ToRoomID := 2, ex_Direction := DirEast\<rparr>], er_maxID = 0\<rparr>,
     wh_Templates = (\<lambda>t. Some \<lparr>mt_ID = t, mt_ExternalID = [], mt_ChallengeCode = CHR 0x00, mt_XPValue = 0, mt_GoldDice = [],
       wt_BehaviorFlags = 0, wt_WanderChance = f_zero, wt_WanderRadius = 0, wt_Path = [''a'', ''b'']\<rparr>),
     wh_Chance = f_one, wh_Cap = 10\<rparr>"

definition patrol_mob :: MobInstance where
  "patrol_mob = sample_mob\<lparr>mi_ID := 1, mi_TemplateID := 9, mi_Core := zero_Core\<lparr>c_CurrentRoomID := 1\<rparr>\<rparr>"

definition patrol_world :: WanderWorld where
  "patrol_world = \<lparr>ww_Mobs = \<lparr>mb_byID = [(1, patrol_mob)], mb_trails = [], mb_maxID = 1\<rparr>, ww_Sess = empty_Sessions,
     ww_Goals = [(7, 3)], ww_Floats = [], ww_Rng = [], ww_Clock = []\<rparr>"

lemma wander_stays_home_witness:
  "mob_ListSpawned (ww_Mobs patrol_world) (wh_Cap patrol) = [patrol_mob]
    \<and> set (keys (ww_Goals (wander_Tick patrol patrol_world))) \<subseteq> {1}"
proof -
  have "mobs_ok (ww_Mobs patrol_world)" by (simp add: mobs_ok_def patrol_world_def patrol_mob_def)
  moreover have "mob_ListSpawned (ww_Mobs patrol_world) (wh_Cap patrol) = [patrol_mob]" "wh_Cap patrol = 10" "mi_ID patrol_mob = 1"
    by (simp_all add: mob_ListSpawned_def patrol_world_def patrol_mob_def patrol_def)
  ultimately show ?thesis using wander_stays_home [of patrol_world patrol 1] by simp
qed

end
