(* ===== verification/Gear.thy ===== *)
theory Gear
  imports Doors CharacterRepo
begin

text \<open>
  Wearing and wielding: \<open>internal/cmd/equipment.go\<close>. The equipment record of a character is an overlay over what it carries: an
  equipped item stays in the inventory, and a slot holds its id. A verb writes to sessions, items and characters, the world of
  the carrying verbs as well. The listing \<open>equipment\<close>, which only prints, is not modelled.
\<close>

section \<open>The verbs\<close>

record CarryWorld =
  iw_Sess :: Sessions
  iw_Items :: MemoryItemRepo
  iw_Chars :: MemoryCharacterRepo

definition carry_tell :: "sid \<Rightarrow> string \<Rightarrow> CarryWorld \<Rightarrow> CarryWorld" where
  "carry_tell i msg w = w\<lparr>iw_Sess := write_to i msg (iw_Sess w)\<rparr>"

definition carry_shout :: "sid \<Rightarrow> string \<Rightarrow> CarryWorld \<Rightarrow> CarryWorld" where
  "carry_shout i msg w = w\<lparr>iw_Sess := broadcastRoom (gs_CurrentRoomID (sess (iw_Sess w) i)) (Some i) msg (iw_Sess w)\<rparr>"

definition set_chars :: "MemoryCharacterRepo \<Rightarrow> CarryWorld \<Rightarrow> CarryWorld" where
  "set_chars r w = w\<lparr>iw_Chars := r\<rparr>"

definition red :: "string \<Rightarrow> string" where "red msg = ''{{'' @ msg @ ''}}::red'' @ CRLF"

definition not' :: string where "not' = CHR 0x27 # ''t''"

definition arent_carrying :: string where "arent_carrying = yellow (''You aren'' @ not' @ '' carrying that.'')"

definition disoriented :: string where "disoriented = red ''You feel disoriented.''"

definition slotForWear :: "ItemType \<Rightarrow> Slot option" where
  "slotForWear t =
     (case t of ItemTypeArmor \<Rightarrow> Some SlotArmor | ItemTypeShield \<Rightarrow> Some SlotShield | ItemTypeClothing \<Rightarrow> Some SlotOutfit | _ \<Rightarrow> None)"

definition splitWieldArgs :: "string list \<Rightarrow> string \<times> Slot" where
  "splitWieldArgs args =
     (if args = [] then ([], SlotPrimaryWield)
      else let qual = to_lower (List.last args)
           in if qual = ''off'' \<or> qual = ''offhand'' \<or> qual = ''second'' then
                (if length args = 1 then ([], SlotOffHand) else (join '' '' (butlast args), SlotOffHand))
              else (join '' '' args, SlotPrimaryWield))"

text \<open>What \<open>wear\<close> and \<open>wield\<close> share: the slot is taken and the record written, or the write fails.\<close>

definition put_on :: "Character \<Rightarrow> Slot \<Rightarrow> int \<Rightarrow> string \<Rightarrow> string \<Rightarrow> string \<Rightarrow> sid \<Rightarrow> CarryWorld \<Rightarrow> CarryWorld" where
  "put_on char slot k failed seen said i w =
     (case repo_RecordEquipment (iw_Chars w) (ch_ID char) (fst (equip_Set (ch_Equipment char) slot k)) of
        (chars, Some e) \<Rightarrow> carry_tell i failed (set_chars chars w)
      | (chars, None) \<Rightarrow> carry_tell i said (carry_shout i seen (set_chars chars w)))"

definition wear_verb :: "string list \<Rightarrow> sid \<Rightarrow> CarryWorld \<Rightarrow> CarryWorld" where
  "wear_verb args i w =
     (let s = sess (iw_Sess w) i
      in case MatchItem (to_lower (trim_space (join '' '' args))) (in_inventory (iw_Items w) (gs_CharacterID s)) of
           None \<Rightarrow> carry_tell i arent_carrying w
         | Some it \<Rightarrow>
             if it_Type it = ItemTypeWeapon then carry_tell i (yellow ''Try {{wield}}::cyan for weapons.'') w
             else case slotForWear (it_Type it) of
                    None \<Rightarrow> carry_tell i (yellow (''You can'' @ not' @ '' wear that.'')) w
                  | Some slot \<Rightarrow>
                      (case repo_FindByName (iw_Chars w) (gs_CharacterName s) of
                         Inl e \<Rightarrow> carry_tell i disoriented w
                       | Inr char \<Rightarrow>
                           if FindByItem (ch_Equipment char) (it_ID it) \<noteq> None then
                             carry_tell i (yellow ''You are already wearing that.'') w
                           else if equip_Get (ch_Equipment char) slot \<noteq> 0 then
                             carry_tell i (yellow (''You must remove what you have on your '' @ SlotName slot @ '' first.'')) w
                           else put_on char slot (it_ID it) (red ''The garment slips through your fingers.'')
                                  (cyan (safeActor (iw_Sess w) i @ '' puts on '' @ it_Name it @ ''.''))
                                  (cyan (''You put on '' @ it_Name it @ ''.'')) i w))"

definition wield_verb :: "string list \<Rightarrow> sid \<Rightarrow> CarryWorld \<Rightarrow> CarryWorld" where
  "wield_verb args i w =
     (case splitWieldArgs args of (itemArg, slot) \<Rightarrow>
        let s = sess (iw_Sess w) i; target = to_lower (trim_space itemArg)
        in if target = [] then carry_tell i (yellow ''Usage: wield <weapon> [off]'') w
           else case MatchItem target (in_inventory (iw_Items w) (gs_CharacterID s)) of
                  None \<Rightarrow> carry_tell i arent_carrying w
                | Some it \<Rightarrow>
                    if it_Type it \<noteq> ItemTypeWeapon then carry_tell i (yellow (''That isn'' @ not' @ '' a weapon.'')) w
                    else case repo_FindByName (iw_Chars w) (gs_CharacterName s) of
                           Inl e \<Rightarrow> carry_tell i disoriented w
                         | Inr char \<Rightarrow>
                             (case FindByItem (ch_Equipment char) (it_ID it) of
                                Some existing \<Rightarrow>
                                  carry_tell i (yellow (if existing = slot then ''You are already wielding that.''
                                    else ''You are already wielding that in your '' @ SlotName existing @ ''.'')) w
                              | None \<Rightarrow>
                                  if equip_Get (ch_Equipment char) slot \<noteq> 0 then
                                    carry_tell i (yellow (''Your '' @ SlotName slot @ '' is full '' @ [CHR 0xE2, CHR 0x80, CHR 0x94]
                                      @ '' remove what'' @ [CHR 0x27] @ ''s there first.'')) w
                                  else let hand = (if slot = SlotOffHand then ''off hand'' else ''primary hand'')
                                       in put_on char slot (it_ID it) (red ''The weapon slips from your grip.'')
                                            (cyan (safeActor (iw_Sess w) i @ '' wields '' @ it_Name it @ '' in their '' @ hand @ ''.''))
                                            (cyan (''You wield '' @ it_Name it @ '' in your '' @ hand @ ''.'')) i w))"

definition equippedItems :: "Item list \<Rightarrow> Equipment \<Rightarrow> Item list" where
  "equippedItems held eq = filter (\<lambda>it. FindByItem eq (it_ID it) \<noteq> None) held"

definition remove_verb :: "string list \<Rightarrow> sid \<Rightarrow> CarryWorld \<Rightarrow> CarryWorld" where
  "remove_verb args i w =
     (let s = sess (iw_Sess w) i
      in case repo_FindByName (iw_Chars w) (gs_CharacterName s) of
           Inl e \<Rightarrow> carry_tell i disoriented w
         | Inr char \<Rightarrow>
             (case MatchItem (to_lower (trim_space (join '' '' args)))
                     (equippedItems (in_inventory (iw_Items w) (gs_CharacterID s)) (ch_Equipment char)) of
                None \<Rightarrow> carry_tell i (yellow (''You aren'' @ not' @ '' wearing or wielding that.'')) w
              | Some it \<Rightarrow>
                  (case ClearItem (ch_Equipment char) (it_ID it) of
                     (eq, None) \<Rightarrow> carry_tell i (yellow (''You aren'' @ not' @ '' wearing or wielding that.'')) w
                   | (eq, Some slot) \<Rightarrow>
                       (case repo_RecordEquipment (iw_Chars w) (ch_ID char) eq of
                          (chars, Some e) \<Rightarrow> carry_tell i (red ''It clings to you stubbornly.'') (set_chars chars w)
                        | (chars, None) \<Rightarrow>
                            let wielded = (slot = SlotPrimaryWield \<or> slot = SlotOffHand)
                            in carry_tell i (cyan (''You '' @ (if wielded then ''stop wielding'' else ''remove'') @ '' '' @ it_Name it @ ''.''))
                                 (carry_shout i (cyan (safeActor (iw_Sess w) i @ '' '' @ (if wielded then ''stops wielding'' else ''removes'')
                                   @ '' '' @ it_Name it @ ''.'')) (set_chars chars w))))))"

text \<open>Called when an item leaves the inventory.\<close>

definition autoUnequipIfHeld :: "MemoryCharacterRepo \<Rightarrow> string \<Rightarrow> int \<Rightarrow> MemoryCharacterRepo" where
  "autoUnequipIfHeld chars charName itemID =
     (case repo_FindByName chars charName of Inl e \<Rightarrow> chars
      | Inr char \<Rightarrow> (case ClearItem (ch_Equipment char) itemID of
                      (eq, None) \<Rightarrow> chars
                    | (eq, Some slot) \<Rightarrow> fst (repo_RecordEquipment chars (ch_ID char) eq)))"

definition removeID :: "int list \<Rightarrow> int \<Rightarrow> int list" where
  "removeID ids i = filter (\<lambda>x. x \<noteq> i) ids"

section \<open>Rows\<close>

lemma named_row: "repo_ok r \<Longrightarrow> repo_FindByName r n = Inr c \<Longrightarrow> repo_GetByID r (ch_ID c) = Inr c"
proof -
  assume ok: "repo_ok r" and f: "repo_FindByName r n = Inr c"
  have "get_row rs (ch_ID d) = Some d" if "distinct (map (\<lambda>p. ch_ID (snd p)) rs)" "(k, d) \<in> set rs" for rs k d
    using that by (induction rs) (auto simp: image_iff)
  moreover have "(to_lower n, c) \<in> set (mr_byLower r)" using f by (auto simp: repo_FindByName_def dest: map_of_SomeD split: option.splits)
  ultimately show ?thesis using ok by (auto simp: repo_ok_def GetByID_Inr)
qed

definition paid :: "Amount \<Rightarrow> Amount \<Rightarrow> Character \<Rightarrow> Character" where
  "paid coin bank c = c\<lparr>ch_Coin := coin, ch_BankBalance := bank, ch_CoinVersion := i64 (ch_CoinVersion c + 1)\<rparr>"

lemma coin_keeps: "keeps_identity (coin_write coin bank v)"
  by (simp add: keeps_identity_def coin_write_def)

lemma coin_rows:
  assumes "repo_GetByID r (ch_ID c) = Inr c"
  shows "snd (repo_RecordCoin r (ch_ID c) coin bank (ch_CoinVersion c)) = None
    \<and> repo_GetByID (fst (repo_RecordCoin r (ch_ID c) coin bank (ch_CoinVersion c))) j =
        (if j = ch_ID c then Inr (paid coin bank c) else repo_GetByID r j)"
proof -
  have w: "coin_write coin bank (ch_CoinVersion c) c = Inr (paid coin bank c)" by (simp add: coin_write_def paid_def)
  show ?thesis unfolding repo_RecordCoin_def
    using char_store.accepted [OF assms w coin_keeps] char_store.get_upd [OF coin_keeps, of r "ch_ID c" coin bank "ch_CoinVersion c" j]
    by (simp add: assms w)
qed

end
