(* ===== verification/ShopRepo.thy ===== *)
theory ShopRepo
  imports ItemRepo GoFloat "HOL-Library.List_Lexorder" "HOL-Library.Char_ord"
begin

text \<open>
  Shops and bankers: \<open>internal/repo/shop.go\<close>, \<open>shop_memory.go\<close>, \<open>banker.go\<close> and \<open>banker_memory.go\<close>. A Go map is an association list;
  the sort of \<open>ListStock\<close> and \<open>ListShops\<close> compares keys that are distinct, so it is the stable sort of the library.
\<close>

section \<open>Shops\<close>

record Shop =
  sh_ID :: int
  sh_MobTemplateID :: int
  sh_BuyTypes :: "ItemType list"
  sh_SellMarkup :: flt
  sh_BuyMarkdown :: flt
  sh_OpenHour :: int
  sh_CloseHour :: int
  sh_RestockIntervalS :: int

definition AcceptsType :: "Shop \<Rightarrow> ItemType \<Rightarrow> bool" where
  "AcceptsType s t \<longleftrightarrow> t \<in> set (sh_BuyTypes s)"

text \<open>Both kinds of keeper have the same opening rule, written out in the code for each.\<close>

definition open_between :: "int \<Rightarrow> int \<Rightarrow> int \<Rightarrow> bool" where
  "open_between opens closes hour \<longleftrightarrow>
     (if opens = closes then True else if opens < closes then hour \<ge> opens \<and> hour < closes
      else hour \<ge> opens \<or> hour < closes)"

definition shop_IsOpenAt :: "Shop \<Rightarrow> int \<Rightarrow> bool" where
  "shop_IsOpenAt s = open_between (sh_OpenHour s) (sh_CloseHour s)"

record ShopStockRow =
  sr_ID :: int
  sr_ShopID :: int
  sr_ItemExternalID :: string
  sr_Qty :: int
  sr_QtyMax :: int
  sr_LastRestockTs :: int

definition IsInfinite :: "ShopStockRow \<Rightarrow> bool" where "IsInfinite r \<longleftrightarrow> sr_QtyMax r < 0"

datatype shop_error = ErrShopNotFound | ErrOutOfStock | ErrShopTemplate | ErrShopDuplicate

record MemoryShopRepo =
  sp_nextID :: int
  sp_shops :: "(int \<times> Shop) list"
  sp_byMobTpl :: "(int \<times> int) list"
  sp_stockNext :: int
  sp_stock :: "(int \<times> ShopStockRow list) list"

definition NewMemoryShopRepo :: MemoryShopRepo where
  "NewMemoryShopRepo = \<lparr>sp_nextID = 0, sp_shops = [], sp_byMobTpl = [], sp_stockNext = 0, sp_stock = []\<rparr>"

definition zero_Shop :: Shop where
  "zero_Shop = \<lparr>sh_ID = 0, sh_MobTemplateID = 0, sh_BuyTypes = [], sh_SellMarkup = f_zero, sh_BuyMarkdown = f_zero,
     sh_OpenHour = 0, sh_CloseHour = 0, sh_RestockIntervalS = 0\<rparr>"

definition shop_Create :: "MemoryShopRepo \<Rightarrow> Shop \<Rightarrow> MemoryShopRepo \<times> (shop_error + Shop)" where
  "shop_Create r s0 =
     (if sh_MobTemplateID s0 = 0 then (r, Inl ErrShopTemplate)
      else if sh_MobTemplateID s0 \<in> set (keys (sp_byMobTpl r)) then (r, Inl ErrShopDuplicate)
      else let s = s0\<lparr>sh_ID := i64 (sp_nextID r + 1)\<rparr>
           in (r\<lparr>sp_nextID := sh_ID s, sp_shops := map_put (sh_ID s) s (sp_shops r),
                 sp_byMobTpl := map_put (sh_MobTemplateID s) (sh_ID s) (sp_byMobTpl r)\<rparr>, Inr s))"

definition shop_GetByMobTemplateID :: "MemoryShopRepo \<Rightarrow> int \<Rightarrow> Shop option" where
  "shop_GetByMobTemplateID r t =
     (case map_of (sp_byMobTpl r) t of None \<Rightarrow> None | Some i \<Rightarrow> Some (map_get (sp_shops r) i zero_Shop))"

definition ListShops :: "MemoryShopRepo \<Rightarrow> Shop list" where
  "ListShops r = sort_key sh_ID (map snd (sp_shops r))"

definition ListStock :: "MemoryShopRepo \<Rightarrow> int \<Rightarrow> ShopStockRow list" where
  "ListStock r shopID = sort_key sr_ItemExternalID (map_get (sp_stock r) shopID [])"

text \<open>The loops over the rows of a shop: the first row of the item is rewritten.\<close>

fun put_stock :: "string \<Rightarrow> (ShopStockRow \<Rightarrow> ShopStockRow) \<Rightarrow> ShopStockRow list \<Rightarrow> ShopStockRow list" where
  "put_stock ext g [] = []"
| "put_stock ext g (row # rows) = (if sr_ItemExternalID row = ext then g row # rows else row # put_stock ext g rows)"

definition UpsertStock :: "MemoryShopRepo \<Rightarrow> ShopStockRow \<Rightarrow> MemoryShopRepo" where
  "UpsertStock r row =
     (let rows = map_get (sp_stock r) (sr_ShopID row) []
      in if \<exists>x\<in>set rows. sr_ItemExternalID x = sr_ItemExternalID row
         then r\<lparr>sp_stock := map_put (sr_ShopID row) (put_stock (sr_ItemExternalID row) (\<lambda>old. row\<lparr>sr_ID := sr_ID old\<rparr>) rows) (sp_stock r)\<rparr>
         else let n = i64 (sp_stockNext r + 1)
              in r\<lparr>sp_stockNext := n, sp_stock := map_put (sr_ShopID row) (rows @ [row\<lparr>sr_ID := n\<rparr>]) (sp_stock r)\<rparr>)"

definition AdjustStock :: "MemoryShopRepo \<Rightarrow> int \<Rightarrow> string \<Rightarrow> int \<Rightarrow> MemoryShopRepo \<times> shop_error option" where
  "AdjustStock r shopID ext delta =
     (case map_of (sp_stock r) shopID of None \<Rightarrow> (r, Some ErrShopNotFound)
      | Some rows \<Rightarrow>
          (case find (\<lambda>row. sr_ItemExternalID row = ext) rows of None \<Rightarrow> (r, Some ErrShopNotFound)
           | Some row \<Rightarrow>
               if sr_QtyMax row < 0 then (r, None)
               else let nxt = i64 (sr_Qty row + delta)
                    in if nxt < 0 then (r, Some ErrOutOfStock)
                       else let nxt = (if sr_QtyMax row > 0 \<and> nxt > sr_QtyMax row then sr_QtyMax row else nxt)
                            in (r\<lparr>sp_stock := map_put shopID (put_stock ext (\<lambda>row. row\<lparr>sr_Qty := nxt\<rparr>) rows) (sp_stock r)\<rparr>, None)))"

definition StampRestock :: "MemoryShopRepo \<Rightarrow> int \<Rightarrow> string \<Rightarrow> int \<Rightarrow> MemoryShopRepo \<times> shop_error option" where
  "StampRestock r shopID ext ts =
     (let rows = map_get (sp_stock r) shopID []
      in if \<exists>x\<in>set rows. sr_ItemExternalID x = ext
         then (r\<lparr>sp_stock := map_put shopID (put_stock ext (\<lambda>row. row\<lparr>sr_LastRestockTs := ts\<rparr>) rows) (sp_stock r)\<rparr>, None)
         else (r, Some ErrShopNotFound))"

section \<open>Bankers\<close>

record Banker =
  bk_ID :: int
  bk_MobTemplateID :: int
  bk_OpenHour :: int
  bk_CloseHour :: int

definition banker_IsOpenAt :: "Banker \<Rightarrow> int \<Rightarrow> bool" where
  "banker_IsOpenAt b = open_between (bk_OpenHour b) (bk_CloseHour b)"

datatype banker_error = ErrBankerTemplate | ErrBankerDuplicate

record MemoryBankerRepo =
  br_nextID :: int
  br_bankers :: "(int \<times> Banker) list"
  br_byMobTpl :: "(int \<times> int) list"

definition NewMemoryBankerRepo :: MemoryBankerRepo where
  "NewMemoryBankerRepo = \<lparr>br_nextID = 0, br_bankers = [], br_byMobTpl = []\<rparr>"

definition zero_Banker :: Banker where
  "zero_Banker = \<lparr>bk_ID = 0, bk_MobTemplateID = 0, bk_OpenHour = 0, bk_CloseHour = 0\<rparr>"

definition banker_Create :: "MemoryBankerRepo \<Rightarrow> Banker \<Rightarrow> MemoryBankerRepo \<times> (banker_error + Banker)" where
  "banker_Create r b0 =
     (if bk_MobTemplateID b0 = 0 then (r, Inl ErrBankerTemplate)
      else if bk_MobTemplateID b0 \<in> set (keys (br_byMobTpl r)) then (r, Inl ErrBankerDuplicate)
      else let b = b0\<lparr>bk_ID := i64 (br_nextID r + 1)\<rparr>
           in (\<lparr>br_nextID = bk_ID b, br_bankers = map_put (bk_ID b) b (br_bankers r),
                br_byMobTpl = map_put (bk_MobTemplateID b) (bk_ID b) (br_byMobTpl r)\<rparr>, Inr b))"

definition banker_GetByMobTemplateID :: "MemoryBankerRepo \<Rightarrow> int \<Rightarrow> Banker option" where
  "banker_GetByMobTemplateID r t =
     (case map_of (br_byMobTpl r) t of None \<Rightarrow> None | Some i \<Rightarrow> Some (map_get (br_bankers r) i zero_Banker))"

definition ListBankers :: "MemoryBankerRepo \<Rightarrow> Banker list" where
  "ListBankers r = sort_key bk_ID (map snd (br_bankers r))"

section \<open>Stock\<close>

text \<open>How many of an item a shop has; a shop has at most one line for each item, which \<open>UpsertStock\<close> keeps.\<close>

definition stock_line :: "MemoryShopRepo \<Rightarrow> int \<Rightarrow> string \<Rightarrow> ShopStockRow option" where
  "stock_line r shopID ext = find (\<lambda>row. sr_ItemExternalID row = ext) (map_get (sp_stock r) shopID [])"

lemma find_put_stock:
  assumes "\<And>row. sr_ItemExternalID (g row) = sr_ItemExternalID row"
  shows "find (\<lambda>row. sr_ItemExternalID row = x) (put_stock ext g rows) =
    (if x = ext then map_option g (find (\<lambda>row. sr_ItemExternalID row = x) rows) else find (\<lambda>row. sr_ItemExternalID row = x) rows)"
  by (induction rows) (auto simp: assms)

definition sold_line :: "int \<Rightarrow> ShopStockRow \<Rightarrow> ShopStockRow" where
  "sold_line delta row = row\<lparr>sr_Qty := (if sr_QtyMax row > 0 \<and> i64 (sr_Qty row + delta) > sr_QtyMax row
     then sr_QtyMax row else i64 (sr_Qty row + delta))\<rparr>"

lemma AdjustStock_line:
  assumes "AdjustStock r shopID ext delta = (r', None)"
  shows "\<exists>row. stock_line r shopID ext = Some row \<and> (IsInfinite row \<or> 0 \<le> i64 (sr_Qty row + delta)) \<and>
    (\<forall>s x. stock_line r' s x = (if s = shopID \<and> x = ext \<and> \<not> IsInfinite row then Some (sold_line delta row) else stock_line r s x))"
proof -
  obtain rows where rows: "map_of (sp_stock r) shopID = Some rows" using assms by (simp add: AdjustStock_def split: option.splits)
  obtain row where row: "find (\<lambda>row. sr_ItemExternalID row = ext) rows = Some row"
    using assms rows by (simp add: AdjustStock_def split: option.splits)
  have l: "stock_line r shopID ext = Some row" using rows row by (simp add: stock_line_def map_get_def)
  show ?thesis
  proof (cases "sr_QtyMax row < 0")
    case True
    then have "r' = r" using assms rows row by (simp add: AdjustStock_def)
    with l True show ?thesis by (auto simp: IsInfinite_def)
  next
    case False
    let ?q = "sr_Qty (sold_line delta row)"
    have ok: "0 \<le> i64 (sr_Qty row + delta)" and r': "r' = r\<lparr>sp_stock := map_put shopID (put_stock ext (\<lambda>row. row\<lparr>sr_Qty := ?q\<rparr>) rows) (sp_stock r)\<rparr>"
      using assms rows row False by (auto simp: AdjustStock_def sold_line_def Let_def split: if_splits)
    have "stock_line r' s x = (if s = shopID \<and> x = ext then Some (row\<lparr>sr_Qty := ?q\<rparr>) else stock_line r s x)" for s x
      unfolding r' using rows row by (cases "s = shopID"; cases "x = ext") (simp_all add: stock_line_def map_get_def find_put_stock)
    moreover have "row\<lparr>sr_Qty := ?q\<rparr> = sold_line delta row" by (simp add: sold_line_def)
    ultimately show ?thesis using l ok False by (auto simp: IsInfinite_def)
  qed
qed

lemma AdjustStock_failed: "AdjustStock r shopID ext delta = (r', Some e) \<Longrightarrow> r' = r"
  by (auto simp: AdjustStock_def Let_def split: option.splits if_splits)

lemma AdjustStock_frame:
  "sp_shops (fst (AdjustStock r s x d)) = sp_shops r" "sp_byMobTpl (fst (AdjustStock r s x d)) = sp_byMobTpl r"
  by (simp_all add: AdjustStock_def Let_def split: option.split)

end
