(* ===== verification/Shops.thy ===== *)
theory Shops
  imports Gear ShopRepo MobRepo Currency
begin

text \<open>
  Trade and banking: \<open>internal/cmd/shop.go\<close> and \<open>internal/cmd/banker.go\<close>. A template is looked up by id and gives its display
  name; the clock is an hour, absent when no clock is wired. One command runs at a time, and the in-memory stores fail only for the
  reasons they state. \<open>list\<close>, which only prints, is not modelled; the audit trail is a log of verb, target and arguments.
\<close>

section \<open>The world of the verbs\<close>

record ShopEnv =
  se_TemplateName :: "int \<Rightarrow> string option"
  se_Hour :: "int option"

record ShopWorld =
  sw_Sess :: Sessions
  sw_Items :: MemoryItemRepo
  sw_Chars :: MemoryCharacterRepo
  sw_Mobs :: MemoryMobInstanceRepo
  sw_Shops :: MemoryShopRepo
  sw_Bankers :: MemoryBankerRepo
  sw_Audit :: "(sid \<times> string \<times> string \<times> string) list"

definition shop_tell :: "sid \<Rightarrow> string \<Rightarrow> ShopWorld \<Rightarrow> ShopWorld" where
  "shop_tell i msg w = w\<lparr>sw_Sess := write_to i msg (sw_Sess w)\<rparr>"

text \<open>The first mob of the room whose template keeps a shop (or a bank), with the name it goes by.\<close>

datatype 'k keeper = NobodyHere | LookupFailed | Keeper 'k string

fun keeper_loop :: "(int \<Rightarrow> 'k option) \<Rightarrow> (int \<Rightarrow> string option) \<Rightarrow> string \<Rightarrow> MobInstance list \<Rightarrow> 'k keeper" where
  "keeper_loop get name_of anon [] = NobodyHere"
| "keeper_loop get name_of anon (m # ms) =
     (case get (mi_TemplateID m) of None \<Rightarrow> keeper_loop get name_of anon ms
      | Some k \<Rightarrow> (case name_of (mi_TemplateID m) of None \<Rightarrow> LookupFailed | Some n \<Rightarrow> Keeper k (if n \<noteq> [] then n else anon)))"

definition findShopkeeper :: "ShopEnv \<Rightarrow> int \<Rightarrow> ShopWorld \<Rightarrow> Shop keeper" where
  "findShopkeeper env roomID w =
     (if roomID = 0 then NobodyHere
      else keeper_loop (shop_GetByMobTemplateID (sw_Shops w)) (se_TemplateName env) ''the shopkeeper'' (mob_ListInRoom (sw_Mobs w) roomID))"

definition findBanker :: "ShopEnv \<Rightarrow> int \<Rightarrow> ShopWorld \<Rightarrow> Banker keeper" where
  "findBanker env roomID w =
     (if roomID = 0 then NobodyHere
      else keeper_loop (banker_GetByMobTemplateID (sw_Bankers w)) (se_TemplateName env) ''the banker'' (mob_ListInRoom (sw_Mobs w) roomID))"

definition shopOpen :: "ShopEnv \<Rightarrow> Shop \<Rightarrow> bool" where
  "shopOpen env shop = (case se_Hour env of None \<Rightarrow> True | Some h \<Rightarrow> shop_IsOpenAt shop h)"

definition bankerOpen :: "ShopEnv \<Rightarrow> Banker \<Rightarrow> bool" where
  "bankerOpen env b = (case se_Hour env of None \<Rightarrow> True | Some h \<Rightarrow> banker_IsOpenAt b h)"

section \<open>Prices\<close>

text \<open>\<open>math.Round\<close>, half away from zero. The conversion back to \<open>int64\<close> is exact for the prices of the model.\<close>

definition fround_away :: "flt \<Rightarrow> int" where
  "fround_away x = sgn (fmant x) * ((2 * \<bar>fmant x\<bar> + 2 ^ fexp x) div (2 * 2 ^ fexp x))"

definition priceToBuy :: "Amount \<Rightarrow> Shop \<Rightarrow> Amount" where
  "priceToBuy value shop =
     (let cents = fround_away (f64 (fmul (fof value) (sh_SellMarkup shop))) in if cents < 1 then 1 else cents)"

definition FlagNoSell :: "64 word" where "FlagNoSell = push_bit 2 1"

definition FlagTradeGoods :: "64 word" where "FlagTradeGoods = push_bit 7 1"

definition priceToSell :: "Item \<Rightarrow> Shop \<Rightarrow> Amount" where
  "priceToSell it shop =
     (if HasFlag it FlagTradeGoods then it_Value it
      else let cents = fround_away (f64 (fmul (fof (it_Value it)) (sh_BuyMarkdown shop))) in if cents < 0 then 0 else cents)"

section \<open>Buying\<close>

definition item_FindByExternalID :: "MemoryItemRepo \<Rightarrow> string \<Rightarrow> item_error + Item" where
  "item_FindByExternalID r ext =
     (if ext = [] then Inl ErrItemNotFound
      else case find (\<lambda>i. it_ExternalID i = ext) (ir_items r) of None \<Rightarrow> Inl ErrItemNotFound | Some i \<Rightarrow> Inr i)"

fun stock_loop ::
    "MemoryItemRepo \<Rightarrow> ShopStockRow list \<Rightarrow> Item list \<times> (int \<times> ShopStockRow) list \<Rightarrow> Item list \<times> (int \<times> ShopStockRow) list" where
  "stock_loop items [] st = st"
| "stock_loop items (row # rows) (tpls, byID) =
     (case item_FindByExternalID items (sr_ItemExternalID row) of
        Inl e \<Rightarrow> stock_loop items rows (tpls, byID)
      | Inr tpl \<Rightarrow> stock_loop items rows (tpls @ [tpl], map_put (it_ID tpl) row byID))"

definition zero_Row :: ShopStockRow where
  "zero_Row = \<lparr>sr_ID = 0, sr_ShopID = 0, sr_ItemExternalID = [], sr_Qty = 0, sr_QtyMax = 0, sr_LastRestockTs = 0\<rparr>"

definition matchStockKeyword :: "string \<Rightarrow> ShopStockRow list \<Rightarrow> MemoryItemRepo \<Rightarrow> (ShopStockRow \<times> Item) option" where
  "matchStockKeyword keyword0 stock items =
     (let keyword = to_lower (trim_space keyword0)
      in if keyword = [] then None
         else case stock_loop items stock ([], []) of
                (tpls, byID) \<Rightarrow> (case MatchItem keyword tpls of None \<Rightarrow> None
                                | Some it \<Rightarrow> Some (map_get byID (it_ID it) zero_Row, it)))"

definition StatsForType :: "ItemType \<Rightarrow> ItemStats" where
  "StatsForType t =
     (case t of
        ItemTypeWeapon \<Rightarrow> StWeapon \<lparr>ws_Proficiency = [], ws_Size = [], ws_Range = [], ws_Damage = [], ws_ThreatLow = 0, ws_CritMult = 0,
          ws_RangeIncFt = 0, ws_DamageType = [], ws_Special = [], ws_Subdual = False\<rparr>
      | ItemTypeArmor \<Rightarrow> StArmor \<lparr>ar_WeightClass = [], ar_Bonus = 0, ar_MaxDex = 0, ar_CheckPenalty = 0, ar_SpeedFt = 0\<rparr>
      | ItemTypeShield \<Rightarrow> StShield \<lparr>ss_Kind = [], ss_Bonus = 0, ss_CheckPenalty = 0\<rparr>
      | ItemTypeContainer \<Rightarrow> StContainer \<lparr>ct_CapacityLbs = f_zero, ct_CapacityCuFt = f_zero, ct_LiquidPints = f_zero, ct_DepthCap = 0,
          ct_WeightMult = f_zero\<rparr>
      | ItemTypeConsumable \<Rightarrow> StConsumable \<lparr>cs_Charges = 0, cs_EffectID = 0\<rparr>
      | ItemTypeLight \<Rightarrow> StLight \<lparr>ls_RadiusFt = 0, ls_FuelTicks = 0\<rparr>
      | ItemTypeKey \<Rightarrow> StKey \<lparr>ks_KeyID = []\<rparr>
      | ItemTypeTool \<Rightarrow> StTool \<lparr>ts_SkillTag = [], ts_Charges = 0\<rparr>
      | _ \<Rightarrow> NilStats)"

text \<open>The item the buyer gets: a copy of the template with an external id of its own; a missing stat block is replaced by a zero one.\<close>

definition bought_item :: "Item \<Rightarrow> int \<Rightarrow> int \<Rightarrow> Item" where
  "bought_item tpl owner now =
     \<lparr>it_ID = 0, it_ExternalID = it_ExternalID tpl @ ''#shop-'' @ show_int now, it_Name = it_Name tpl, it_NameLower = it_NameLower tpl,
      it_ShortDesc = it_ShortDesc tpl, it_RoomID = 0, it_OwnerCharacterID = owner, it_ParentItemID = 0, it_Type = it_Type tpl,
      it_Weight = it_Weight tpl, it_Value = it_Value tpl, it_Quality = it_Quality tpl, it_Flags = it_Flags tpl,
      it_Stats = (if it_Stats tpl = NilStats then StatsForType (it_Type tpl) else it_Stats tpl), it_DecayExpiresAt = None\<rparr>"

definition no_shopkeeper :: string where "no_shopkeeper = yellow (''There'' @ [CHR 0x27] @ ''s no shopkeeper here.'')"

definition shop_closed :: string where "shop_closed = red (''The shop isn'' @ not' @ '' open right now.'')"

definition buy_deal :: "Shop \<Rightarrow> string \<Rightarrow> ShopStockRow \<Rightarrow> Item \<Rightarrow> int \<Rightarrow> sid \<Rightarrow> ShopWorld \<Rightarrow> ShopWorld" where
  "buy_deal shop keeper row tpl now i w =
     (let s = sess (sw_Sess w) i; price = priceToBuy (it_Value tpl) shop
      in case repo_FindByName (sw_Chars w) (gs_CharacterName s) of
           Inl e \<Rightarrow> shop_tell i (red (''You can'' @ not' @ '' seem to find your purse.'')) w
         | Inr char \<Rightarrow>
             (case amount_Sub (ch_Coin char) price of
                Inl e \<Rightarrow> shop_tell i (if e = ErrInsufficientFunds then yellow (''You don'' @ not' @ '' have '' @ amount_Format price @ ''.'')
                                   else red ''Something went wrong with the coin.'') w
              | Inr newCoin \<Rightarrow>
                  (case AdjustStock (sw_Shops w) (sh_ID shop) (sr_ItemExternalID row) (- 1) of
                     (shops, Some e) \<Rightarrow>
                       shop_tell i (case e of ErrOutOfStock \<Rightarrow> yellow (keeper @ '' is out of those.'')
                                    | ErrShopNotFound \<Rightarrow> yellow (keeper @ '' no longer carries that.'')
                                    | _ \<Rightarrow> red ''The deal falls through.'') w
                   | (shops, None) \<Rightarrow>
                       (case item_Create (sw_Items w) (bought_item tpl (gs_CharacterID s) now) of
                          (items, Inl e) \<Rightarrow>
                            shop_tell i (red ''The shopkeeper fumbles and the deal falls apart.'')
                              (w\<lparr>sw_Shops := fst (AdjustStock shops (sh_ID shop) (sr_ItemExternalID row) 1)\<rparr>)
                        | (items, Inr it) \<Rightarrow>
                            let w1 = w\<lparr>sw_Shops := shops, sw_Items := items,
                                      sw_Chars := fst (repo_RecordCoin (sw_Chars w) (ch_ID char) newCoin (ch_BankBalance char) (ch_CoinVersion char))\<rparr>;
                                w2 = w1\<lparr>sw_Sess := broadcastRoom (gs_CurrentRoomID s) (Some i)
                                       (cyan (safeActor (sw_Sess w) i @ '' buys '' @ it_Name tpl @ '' from '' @ keeper @ ''.'')) (sw_Sess w1)\<rparr>
                            in shop_tell i (cyan (''You buy '' @ it_Name tpl @ '' for '' @ amount_Format price @ ''.'')) w2))))"

definition shop_buy :: "ShopEnv \<Rightarrow> int \<Rightarrow> string \<Rightarrow> sid \<Rightarrow> ShopWorld \<Rightarrow> ShopWorld" where
  "shop_buy env now arg i w =
     (case findShopkeeper env (gs_CurrentRoomID (sess (sw_Sess w) i)) w of
        NobodyHere \<Rightarrow> shop_tell i no_shopkeeper w
      | LookupFailed \<Rightarrow> shop_tell i shop_closed w
      | Keeper shop keeper \<Rightarrow>
          if \<not> shopOpen env shop then shop_tell i (yellow (keeper @ '' isn'' @ not' @ '' trading right now.'')) w
          else case matchStockKeyword arg (ListStock (sw_Shops w) (sh_ID shop)) (sw_Items w) of
                 None \<Rightarrow> shop_tell i (yellow (keeper @ '' doesn'' @ not' @ '' carry that.'')) w
               | Some (row, tpl) \<Rightarrow> buy_deal shop keeper row tpl now i w)"

section \<open>Selling\<close>

definition sell_deal :: "Shop \<Rightarrow> string \<Rightarrow> Item \<Rightarrow> sid \<Rightarrow> ShopWorld \<Rightarrow> ShopWorld" where
  "sell_deal shop keeper it i w =
     (let s = sess (sw_Sess w) i; price = priceToSell it shop
      in case repo_FindByName (sw_Chars w) (gs_CharacterName s) of
           Inl e \<Rightarrow> shop_tell i (red (''You can'' @ not' @ '' find your purse.'')) w
         | Inr char \<Rightarrow>
             (case amount_Add (ch_Coin char) price of
                Inl e \<Rightarrow> shop_tell i (yellow (''You can'' @ not' @ '' carry any more coin.'')) w
              | Inr newCoin \<Rightarrow>
                  let chars1 = autoUnequipIfHeld (sw_Chars w) (gs_CharacterName s) (it_ID it); w1 = w\<lparr>sw_Chars := chars1\<rparr>
                  in case repo_RecordCoin chars1 (ch_ID char) newCoin (ch_BankBalance char) (ch_CoinVersion char) of
                       (chars2, Some e) \<Rightarrow>
                         shop_tell i (if e = ErrCoinConflict then yellow (''Your purse just changed '' @ [CHR 0xE2, CHR 0x80, CHR 0x94] @ '' try again.'')
                                      else red ''The shopkeeper fumbles the change.'') w1
                     | (chars2, None) \<Rightarrow>
                         (case item_Delete (sw_Items w) (it_ID it) of
                            (items, Some e) \<Rightarrow>
                              (case repo_RecordCoin chars2 (ch_ID char) (ch_Coin char) (ch_BankBalance char) (i64 (ch_CoinVersion char + 1)) of
                                 (chars3, Some e) \<Rightarrow> shop_tell i (red ''Something went badly wrong. Find an admin.'') (w1\<lparr>sw_Chars := chars3\<rparr>)
                               | (chars3, None) \<Rightarrow>
                                   shop_tell i (yellow ''The shopkeeper hands the item back and pockets the coin.'') (w1\<lparr>sw_Chars := chars3\<rparr>))
                          | (items, None) \<Rightarrow>
                              let w2 = w1\<lparr>sw_Items := items,
                                      sw_Chars := fst (repo_RecordInventory chars2 (ch_ID char) (removeID (ch_Inventory char) (it_ID it)))\<rparr>;
                                  w3 = w2\<lparr>sw_Sess := broadcastRoom (gs_CurrentRoomID s) (Some i)
                                         (cyan (safeActor (sw_Sess w) i @ '' sells '' @ it_Name it @ '' to '' @ keeper @ ''.'')) (sw_Sess w2)\<rparr>
                              in shop_tell i (cyan (''You sell '' @ it_Name it @ '' for '' @ amount_Format price @ ''.'')) w3)))"

definition shop_sell :: "ShopEnv \<Rightarrow> string \<Rightarrow> sid \<Rightarrow> ShopWorld \<Rightarrow> ShopWorld" where
  "shop_sell env arg i w =
     (case findShopkeeper env (gs_CurrentRoomID (sess (sw_Sess w) i)) w of
        NobodyHere \<Rightarrow> shop_tell i no_shopkeeper w
      | LookupFailed \<Rightarrow> shop_tell i shop_closed w
      | Keeper shop keeper \<Rightarrow>
          if \<not> shopOpen env shop then shop_tell i (yellow (keeper @ '' isn'' @ not' @ '' trading right now.'')) w
          else case MatchItem (to_lower arg) (in_inventory (sw_Items w) (gs_CharacterID (sess (sw_Sess w) i))) of
                 None \<Rightarrow> shop_tell i (yellow (''You aren'' @ not' @ '' carrying that.'')) w
               | Some it \<Rightarrow>
                   if HasFlag it FlagNoSell then shop_tell i (yellow (keeper @ '' won'' @ not' @ '' take that.'')) w
                   else if \<not> AcceptsType shop (it_Type it) then shop_tell i (yellow (keeper @ '' has no use for '' @ it_Name it @ ''.'')) w
                   else sell_deal shop keeper it i w)"

definition shop_value :: "ShopEnv \<Rightarrow> string \<Rightarrow> sid \<Rightarrow> ShopWorld \<Rightarrow> ShopWorld" where
  "shop_value env arg i w =
     (case findShopkeeper env (gs_CurrentRoomID (sess (sw_Sess w) i)) w of
        NobodyHere \<Rightarrow> shop_tell i no_shopkeeper w
      | LookupFailed \<Rightarrow> shop_tell i shop_closed w
      | Keeper shop keeper \<Rightarrow>
          (case MatchItem (to_lower arg) (in_inventory (sw_Items w) (gs_CharacterID (sess (sw_Sess w) i))) of
             Some it \<Rightarrow>
               if HasFlag it FlagNoSell \<or> \<not> AcceptsType shop (it_Type it) then shop_tell i (yellow (keeper @ '' has no use for '' @ it_Name it @ ''.'')) w
               else shop_tell i (cyan (keeper @ '' would pay you '' @ amount_Format (priceToSell it shop) @ '' for '' @ it_Name it @ ''.'')) w
           | None \<Rightarrow>
               (case matchStockKeyword arg (ListStock (sw_Shops w) (sh_ID shop)) (sw_Items w) of
                  Some (row, tpl) \<Rightarrow>
                    shop_tell i (cyan (keeper @ '' sells '' @ it_Name tpl @ '' for '' @ amount_Format (priceToBuy (it_Value tpl) shop) @ ''.'')) w
                | None \<Rightarrow> shop_tell i (yellow (''Neither you nor '' @ keeper @ '' has that.'')) w)))"

section \<open>Banking\<close>

definition parseBankAmount :: "string \<Rightarrow> Amount option" where
  "parseBankAmount raw = (case amount_Parse raw of Inl e \<Rightarrow> None | Inr amt \<Rightarrow> if amt \<le> 0 then None else Some amt)"

definition no_banker :: string where "no_banker = yellow (''There'' @ [CHR 0x27] @ ''s no banker here.'')"

definition bank_closed :: string where "bank_closed = red ''The bank is closed right now.''"

definition bank_balance :: "ShopEnv \<Rightarrow> sid \<Rightarrow> ShopWorld \<Rightarrow> ShopWorld" where
  "bank_balance env i w =
     (case findBanker env (gs_CurrentRoomID (sess (sw_Sess w) i)) w of
        NobodyHere \<Rightarrow> shop_tell i no_banker w
      | LookupFailed \<Rightarrow> shop_tell i bank_closed w
      | Keeper b keeper \<Rightarrow>
          if \<not> bankerOpen env b then shop_tell i (yellow (keeper @ '' isn'' @ not' @ '' taking customers right now.'')) w
          else case repo_FindByName (sw_Chars w) (gs_CharacterName (sess (sw_Sess w) i)) of
                 Inl e \<Rightarrow> shop_tell i (red (''You can'' @ not' @ '' find your records.'')) w
               | Inr char \<Rightarrow> shop_tell i (cyan (''You carry '' @ amount_Format (ch_Coin char) @ ''. On deposit: ''
                     @ amount_Format (ch_BankBalance char) @ ''.'')) w)"

text \<open>The tail both verbs share: the new purse and balance are recorded against the version that was read.\<close>

definition bank_record :: "Character \<Rightarrow> Amount \<Rightarrow> Amount \<Rightarrow> string \<Rightarrow> string \<Rightarrow> string \<Rightarrow> string \<Rightarrow> Amount \<Rightarrow> sid \<Rightarrow> ShopWorld \<Rightarrow> ShopWorld" where
  "bank_record char newCoin newBank fumble msg verb keeper amt i w =
     (case repo_RecordCoin (sw_Chars w) (ch_ID char) newCoin newBank (ch_CoinVersion char) of
        (chars, Some e) \<Rightarrow>
          shop_tell i (if e = ErrCoinConflict then yellow (''Your balance just changed '' @ [CHR 0xE2, CHR 0x80, CHR 0x94] @ '' try again.'')
                       else red fumble) w
      | (chars, None) \<Rightarrow>
          shop_tell i msg (w\<lparr>sw_Chars := chars, sw_Audit := sw_Audit w @ [(i, verb, keeper, ''amount='' @ show_int amt @ ''cp'')]\<rparr>))"

definition bank_deposit :: "ShopEnv \<Rightarrow> string \<Rightarrow> sid \<Rightarrow> ShopWorld \<Rightarrow> ShopWorld" where
  "bank_deposit env arg i w =
     (case findBanker env (gs_CurrentRoomID (sess (sw_Sess w) i)) w of
        NobodyHere \<Rightarrow> shop_tell i no_banker w
      | LookupFailed \<Rightarrow> shop_tell i bank_closed w
      | Keeper b keeper \<Rightarrow>
          if \<not> bankerOpen env b then shop_tell i (yellow (keeper @ '' isn'' @ not' @ '' taking deposits right now.'')) w
          else case parseBankAmount arg of None \<Rightarrow> shop_tell i (yellow (''That isn'' @ not' @ '' a valid amount.'')) w
               | Some amt \<Rightarrow>
                   (case repo_FindByName (sw_Chars w) (gs_CharacterName (sess (sw_Sess w) i)) of
                      Inl e \<Rightarrow> shop_tell i (red (''You can'' @ not' @ '' find your purse.'')) w
                    | Inr char \<Rightarrow>
                        (case amount_Sub (ch_Coin char) amt of
                           Inl e \<Rightarrow> shop_tell i (if e = ErrInsufficientFunds
                               then yellow (''You don'' @ not' @ '' have '' @ amount_Format amt @ '' on you.'')
                               else red ''Something went wrong with the coin.'') w
                         | Inr newCoin \<Rightarrow>
                             (case amount_Add (ch_BankBalance char) amt of
                                Inl e \<Rightarrow> shop_tell i (yellow (''Your account can'' @ not' @ '' hold any more.'')) w
                              | Inr newBank \<Rightarrow>
                                  bank_record char newCoin newBank ''The banker fumbles the deposit.''
                                    (cyan (''You deposit '' @ amount_Format amt @ ''. On deposit: '' @ amount_Format newBank @ ''.''))
                                    ''deposit'' keeper amt i w))))"

definition bank_withdraw :: "ShopEnv \<Rightarrow> string \<Rightarrow> sid \<Rightarrow> ShopWorld \<Rightarrow> ShopWorld" where
  "bank_withdraw env arg i w =
     (case findBanker env (gs_CurrentRoomID (sess (sw_Sess w) i)) w of
        NobodyHere \<Rightarrow> shop_tell i no_banker w
      | LookupFailed \<Rightarrow> shop_tell i bank_closed w
      | Keeper b keeper \<Rightarrow>
          if \<not> bankerOpen env b then shop_tell i (yellow (keeper @ '' isn'' @ not' @ '' paying out right now.'')) w
          else case parseBankAmount arg of None \<Rightarrow> shop_tell i (yellow (''That isn'' @ not' @ '' a valid amount.'')) w
               | Some amt \<Rightarrow>
                   (case repo_FindByName (sw_Chars w) (gs_CharacterName (sess (sw_Sess w) i)) of
                      Inl e \<Rightarrow> shop_tell i (red (''You can'' @ not' @ '' find your records.'')) w
                    | Inr char \<Rightarrow>
                        (case amount_Sub (ch_BankBalance char) amt of
                           Inl e \<Rightarrow> shop_tell i (if e = ErrInsufficientFunds
                               then yellow (''You don'' @ not' @ '' have '' @ amount_Format amt @ '' on deposit.'')
                               else red ''Something went wrong with the coin.'') w
                         | Inr newBank \<Rightarrow>
                             (case amount_Add (ch_Coin char) amt of
                                Inl e \<Rightarrow> shop_tell i (yellow (''You can'' @ not' @ '' carry any more coin.'')) w
                              | Inr newCoin \<Rightarrow>
                                  bank_record char newCoin newBank ''The banker fumbles the withdrawal.''
                                    (cyan (''You withdraw '' @ amount_Format amt @ ''. You carry '' @ amount_Format newCoin @ ''.''))
                                    ''withdraw'' keeper amt i w))))"

section \<open>What trade does to purses, items and stock\<close>

definition purses_ok :: "MemoryCharacterRepo \<Rightarrow> bool" where
  "purses_ok r \<longleftrightarrow> (\<forall>i c. repo_GetByID r i = Inr c \<longrightarrow> 0 \<le> ch_Coin c \<and> ch_Coin c \<le> MaxInt64 \<and> 0 \<le> ch_BankBalance c \<and> ch_BankBalance c \<le> MaxInt64)"

lemma Sub_purse: "0 \<le> a \<Longrightarrow> a \<le> MaxInt64 \<Longrightarrow> 0 < b \<Longrightarrow> amount_Sub a b = (if b \<le> a then Inr (a - b) else Inl ErrInsufficientFunds)"
  by (auto simp: amount_Sub_def safeSub_exact in_range_64)

lemma Add_purse: "0 \<le> a \<Longrightarrow> a \<le> MaxInt64 \<Longrightarrow> 0 \<le> b \<Longrightarrow> b \<le> MaxInt64 \<Longrightarrow>
    amount_Add a b = (if a + b \<le> MaxInt64 then Inr (a + b) else Inl ErrOverflow)"
  by (auto simp: amount_Add_def safeAdd_exact in_range_64)

lemma shop_tell_frame [simp]: "sw_Items (shop_tell i m w) = sw_Items w" "sw_Chars (shop_tell i m w) = sw_Chars w"
  "sw_Shops (shop_tell i m w) = sw_Shops w"
  by (simp_all add: shop_tell_def)

text \<open>The customer and the amount, when a teller is open and understands the order.\<close>

definition bank_order :: "ShopEnv \<Rightarrow> string \<Rightarrow> sid \<Rightarrow> ShopWorld \<Rightarrow> (Character \<times> Amount) option" where
  "bank_order env arg i w =
     (case findBanker env (gs_CurrentRoomID (sess (sw_Sess w) i)) w of
        Keeper b keeper \<Rightarrow>
          (if bankerOpen env b then
             case (parseBankAmount arg, repo_FindByName (sw_Chars w) (gs_CharacterName (sess (sw_Sess w) i))) of
               (Some amt, Inr char) \<Rightarrow> Some (char, amt) | _ \<Rightarrow> None
           else None)
      | _ \<Rightarrow> None)"

lemma bank_record_rows:
  "repo_GetByID (sw_Chars w) (ch_ID char) = Inr char \<Longrightarrow>
   repo_GetByID (sw_Chars (bank_record char coin bank f m v k amt i w)) j =
     (if j = ch_ID char then Inr (paid coin bank char) else repo_GetByID (sw_Chars w) j)"
  using coin_rows [of "sw_Chars w" char coin bank j] by (simp add: bank_record_def prod.case_eq_if)

lemma bank_None:
  assumes "bank_order env arg i w = None"
  shows "sw_Chars (bank_deposit env arg i w) = sw_Chars w" "sw_Chars (bank_withdraw env arg i w) = sw_Chars w"
  using assms
  by (auto simp: bank_order_def bank_deposit_def bank_withdraw_def split: keeper.splits option.splits sum.splits if_splits)

lemma bank_Some:
  assumes "bank_order env arg i w = Some (char, amt)" "repo_ok (sw_Chars w)" "purses_ok (sw_Chars w)"
  shows "repo_GetByID (sw_Chars w) (ch_ID char) = Inr char"
    "repo_GetByID (sw_Chars (bank_deposit env arg i w)) j =
      (if j = ch_ID char \<and> amt \<le> ch_Coin char \<and> ch_BankBalance char + amt \<le> MaxInt64
       then Inr (paid (ch_Coin char - amt) (ch_BankBalance char + amt) char) else repo_GetByID (sw_Chars w) j)"
    "repo_GetByID (sw_Chars (bank_withdraw env arg i w)) j =
      (if j = ch_ID char \<and> amt \<le> ch_BankBalance char \<and> ch_Coin char + amt \<le> MaxInt64
       then Inr (paid (ch_Coin char + amt) (ch_BankBalance char - amt) char) else repo_GetByID (sw_Chars w) j)"
proof -
  obtain b keeper where o: "findBanker env (gs_CurrentRoomID (sess (sw_Sess w) i)) w = Keeper b keeper" "bankerOpen env b"
    "parseBankAmount arg = Some amt" "repo_FindByName (sw_Chars w) (gs_CharacterName (sess (sw_Sess w) i)) = Inr char"
    using assms(1) by (auto simp: bank_order_def split: keeper.splits option.splits sum.splits if_splits)
  show row: "repo_GetByID (sw_Chars w) (ch_ID char) = Inr char" using named_row [OF assms(2) o(4)] .
  then have p: "0 \<le> ch_Coin char" "ch_Coin char \<le> MaxInt64" "0 \<le> ch_BankBalance char" "ch_BankBalance char \<le> MaxInt64"
    using assms(3) unfolding purses_ok_def by blast+
  have a: "0 < amt" using o(3) by (auto simp: parseBankAmount_def split: sum.splits if_splits)
  have sub: "amount_Sub x amt = (if amt \<le> x then Inr (x - amt) else Inl ErrInsufficientFunds)" if "0 \<le> x" "x \<le> MaxInt64" for x
    using Sub_purse [OF that a] .
  have add: "amount_Add x amt = (if x + amt \<le> MaxInt64 then Inr (x + amt) else Inl ErrOverflow)" if "0 \<le> x" "x \<le> MaxInt64" "amt \<le> MaxInt64" for x
    using Add_purse [OF that(1,2) less_imp_le [OF a] that(3)] .
  show "repo_GetByID (sw_Chars (bank_deposit env arg i w)) j =
      (if j = ch_ID char \<and> amt \<le> ch_Coin char \<and> ch_BankBalance char + amt \<le> MaxInt64
       then Inr (paid (ch_Coin char - amt) (ch_BankBalance char + amt) char) else repo_GetByID (sw_Chars w) j)"
    by (cases "amt \<le> ch_Coin char"; cases "ch_BankBalance char + amt \<le> MaxInt64")
      (use p row in \<open>simp_all add: bank_deposit_def o sub add bank_record_rows\<close>)
  show "repo_GetByID (sw_Chars (bank_withdraw env arg i w)) j =
      (if j = ch_ID char \<and> amt \<le> ch_BankBalance char \<and> ch_Coin char + amt \<le> MaxInt64
       then Inr (paid (ch_Coin char + amt) (ch_BankBalance char - amt) char) else repo_GetByID (sw_Chars w) j)"
    by (cases "amt \<le> ch_BankBalance char"; cases "ch_Coin char + amt \<le> MaxInt64")
      (use p row in \<open>simp_all add: bank_withdraw_def o sub add bank_record_rows\<close>)
qed

definition stock_ok :: "MemoryShopRepo \<Rightarrow> bool" where
  "stock_ok r \<longleftrightarrow> (\<forall>s x l. stock_line r s x = Some l \<longrightarrow> IsInfinite l \<or> 0 \<le> sr_Qty l \<and> sr_Qty l \<le> sr_QtyMax l \<and> sr_QtyMax l \<le> MaxInt64)"

section \<open>A small world for the examples\<close>

text \<open>Rand (session 0, character 1) stands in room 1 with 100 coppers and a bag that holds a stone; the mob there keeps a bank and a shop.\<close>

definition rand_row :: Character where
  "rand_row = sample_character\<lparr>ch_ID := 1, ch_NameLower := ''rand'', ch_Coin := 100, ch_BankBalance := 20\<rparr>"

definition bag_item :: Item where "bag_item = (sample_item 1 0 1 0)\<lparr>it_Value := 10\<rparr>"

definition stone_item :: Item where "stone_item = sample_item 2 0 0 1"

definition stall :: Shop where "stall = zero_Shop\<lparr>sh_ID := 1, sh_MobTemplateID := 4, sh_BuyTypes := [ItemTypeTrash], sh_BuyMarkdown := f_one, sh_SellMarkup := f_one\<rparr>"

definition shop_world :: ShopWorld where
  "shop_world = \<lparr>sw_Sess = \<lparr>ss_heap = [(0, zero_Session\<lparr>gs_CharacterID := 1, gs_CharacterName := ''Rand'', gs_CurrentRoomID := 3\<rparr>)],
       ss_bound = [(1, 0)], ss_Out = []\<rparr>,
     sw_Items = \<lparr>ir_items = [bag_item, stone_item], ir_byExt = {}, ir_maxID = 2\<rparr>,
     sw_Chars = \<lparr>mr_nextID = 1, mr_byLower = [(''rand'', rand_row)]\<rparr>,
     sw_Mobs = \<lparr>mb_byID = [(1, sample_mob\<lparr>mi_ID := 1\<rparr>)], mb_trails = [], mb_maxID = 1\<rparr>,
     sw_Shops = \<lparr>sp_nextID = 1, sp_shops = [(1, stall)], sp_byMobTpl = [(4, 1)], sp_stockNext = 1,
       sp_stock = [(1, [zero_Row\<lparr>sr_ID := 1, sr_ShopID := 1, sr_ItemExternalID := it_ExternalID stone_item, sr_Qty := 2, sr_QtyMax := 2\<rparr>])]\<rparr>,
     sw_Bankers = \<lparr>br_nextID = 1, br_bankers = [(1, zero_Banker)], br_byMobTpl = [(4, 1)]\<rparr>, sw_Audit = []\<rparr>"

definition shop_env :: ShopEnv where "shop_env = \<lparr>se_TemplateName = (\<lambda>t. Some []), se_Hour = None\<rparr>"

lemma rand_facts: "ch_ID rand_row = 1" "ch_Coin rand_row = 100" "ch_BankBalance rand_row = 20" "ch_NameLower rand_row = ''rand''" "ch_Name rand_row = ''Rand''"
  by (simp_all add: rand_row_def sample_character_def)

lemma lower_rand: "to_lower ''Rand'' = ''rand''" by code_simp

lemma shop_world_rows: "repo_GetByID (sw_Chars shop_world) i = (if i = 1 then Inr rand_row else Inl ErrCharacterNotFound)"
  "repo_FindByName (sw_Chars shop_world) (gs_CharacterName (sess (sw_Sess shop_world) 0)) = Inr rand_row"
  by (simp_all add: shop_world_def repo_GetByID_def rand_facts repo_FindByName_def sess_def map_get_def lower_rand)

lemma shop_world_ok: "repo_ok (sw_Chars shop_world)" "purses_ok (sw_Chars shop_world)"
proof -
  show "repo_ok (sw_Chars shop_world)" by (simp add: shop_world_def repo_ok_def rand_facts lower_rand)
  show "purses_ok (sw_Chars shop_world)" unfolding purses_ok_def shop_world_rows by (auto simp: rand_facts)
qed

lemma shop_world_stock: "stock_ok (sw_Shops shop_world)"
  by (auto simp: stock_ok_def stock_line_def shop_world_def map_get_def zero_Row_def split: if_splits option.splits)

lemma shop_world_teller: "bank_order shop_env ''30cp'' 0 shop_world = Some (rand_row, 30)"
proof -
  have p: "parseBankAmount ''30cp'' = Some 30" by code_simp
  have "mob_ListInRoom (sw_Mobs shop_world) 3 = [sample_mob\<lparr>mi_ID := 1\<rparr>]"
    by (simp add: mob_ListInRoom_def shop_world_def sample_mob_def)
  moreover have "gs_CurrentRoomID (sess (sw_Sess shop_world) 0) = 3" by (simp add: shop_world_def sess_def map_get_def)
  moreover have "banker_GetByMobTemplateID (sw_Bankers shop_world) 4 = Some zero_Banker"
    by (simp add: banker_GetByMobTemplateID_def shop_world_def map_get_def)
  ultimately have "findBanker shop_env (gs_CurrentRoomID (sess (sw_Sess shop_world) 0)) shop_world = Keeper zero_Banker ''the banker''"
    by (simp add: findBanker_def shop_env_def sample_mob_def)
  then show ?thesis using p by (simp add: bank_order_def bankerOpen_def shop_env_def shop_world_rows)
qed

text \<open>C30: The bank keeps money. A deposit or withdrawal moves a positive amount between the purse and the account of the customer's own
  row, exactly when the side that gives has it and the side that takes can hold it; in every other case, and for every other
  character, the row is as it was. So no coin is made or lost and neither side goes negative.\<close>

theorem bank_moves_exactly:
  assumes "repo_ok (sw_Chars w)" "purses_ok (sw_Chars w)" "repo_GetByID (sw_Chars w) j = Inr c"
  shows "repo_GetByID (sw_Chars (bank_deposit env arg i w)) j =
      Inr (case bank_order env arg i w of None \<Rightarrow> c
           | Some (char, amt) \<Rightarrow>
               if j = ch_ID char \<and> amt \<le> ch_Coin c \<and> ch_BankBalance c + amt \<le> MaxInt64
               then c\<lparr>ch_Coin := ch_Coin c - amt, ch_BankBalance := ch_BankBalance c + amt, ch_CoinVersion := i64 (ch_CoinVersion c + 1)\<rparr>
               else c)
    \<and> repo_GetByID (sw_Chars (bank_withdraw env arg i w)) j =
      Inr (case bank_order env arg i w of None \<Rightarrow> c
           | Some (char, amt) \<Rightarrow>
               if j = ch_ID char \<and> amt \<le> ch_BankBalance c \<and> ch_Coin c + amt \<le> MaxInt64
               then c\<lparr>ch_Coin := ch_Coin c + amt, ch_BankBalance := ch_BankBalance c - amt, ch_CoinVersion := i64 (ch_CoinVersion c + 1)\<rparr>
               else c)
    \<and> (case bank_order env arg i w of None \<Rightarrow> True | Some (char, amt) \<Rightarrow> 0 < amt)"
proof (cases "bank_order env arg i w")
  case None
  then show ?thesis using bank_None [OF None] assms(3) by simp
next
  case (Some x)
  obtain char amt where x: "x = (char, amt)" by fastforce
  have "0 < amt" using Some x
    by (auto simp: bank_order_def parseBankAmount_def split: keeper.splits option.splits sum.splits if_splits)
  moreover have "c = char" if "j = ch_ID char" using bank_Some(1) [OF Some [unfolded x] assms(1,2)] assms(3) that by simp
  ultimately show ?thesis using bank_Some(2,3) [OF Some [unfolded x] assms(1,2), of j] assms(3) unfolding Some x paid_def by auto
qed

lemma bank_moves_exactly_witness:
  "repo_GetByID (sw_Chars (bank_deposit shop_env ''30cp'' 0 shop_world)) 1
    = Inr (rand_row\<lparr>ch_Coin := 70, ch_BankBalance := 50, ch_CoinVersion := i64 (ch_CoinVersion rand_row + 1)\<rparr>)"
  using bank_moves_exactly [OF shop_world_ok, of 1 rand_row shop_env "''30cp''" 0] by (simp add: shop_world_teller shop_world_rows rand_facts)

text \<open>The order of a customer at an open shop: the line and the template the keyword names, and the customer's row.\<close>

definition shop_order :: "ShopEnv \<Rightarrow> string \<Rightarrow> sid \<Rightarrow> ShopWorld \<Rightarrow> (Shop \<times> ShopStockRow \<times> Item \<times> Character) option" where
  "shop_order env arg i w =
     (case findShopkeeper env (gs_CurrentRoomID (sess (sw_Sess w) i)) w of
        Keeper shop keeper \<Rightarrow>
          (if shopOpen env shop then
             case (matchStockKeyword arg (ListStock (sw_Shops w) (sh_ID shop)) (sw_Items w),
                   repo_FindByName (sw_Chars w) (gs_CharacterName (sess (sw_Sess w) i))) of
               (Some (row, tpl), Inr char) \<Rightarrow> Some (shop, row, tpl, char) | _ \<Rightarrow> None
           else None)
      | _ \<Rightarrow> None)"

text \<open>Whether the sale can be made, given the purse, the stock and the store of items.\<close>

definition can_buy :: "Shop \<Rightarrow> ShopStockRow \<Rightarrow> Item \<Rightarrow> Character \<Rightarrow> int \<Rightarrow> sid \<Rightarrow> ShopWorld \<Rightarrow> bool" where
  "can_buy shop row tpl char now i w \<longleftrightarrow>
     priceToBuy (it_Value tpl) shop \<le> ch_Coin char
     \<and> (\<exists>l. stock_line (sw_Shops w) (sh_ID shop) (sr_ItemExternalID row) = Some l \<and> (IsInfinite l \<or> 1 \<le> sr_Qty l))
     \<and> (\<exists>items it. item_Create (sw_Items w) (bought_item tpl (gs_CharacterID (sess (sw_Sess w) i)) now) = (items, Inr it))"

lemma price_pos: "0 < priceToBuy v shop"
  by (simp add: priceToBuy_def Let_def)

lemma adjust_back:
  assumes "AdjustStock r s x (- 1) = (r1, None)" "stock_ok r"
  shows "stock_line (fst (AdjustStock r1 s x 1)) s' x' = stock_line r s' x'"
proof -
  obtain l where l: "stock_line r s x = Some l" "IsInfinite l \<or> 0 \<le> i64 (sr_Qty l + - 1)"
    and r1: "stock_line r1 s' x' = (if s' = s \<and> x' = x \<and> \<not> IsInfinite l then Some (sold_line (- 1) l) else stock_line r s' x')" for s' x'
    using AdjustStock_line [OF assms(1)] by blast
  obtain r2 e where r2: "AdjustStock r1 s x 1 = (r2, e)" by fastforce
  show ?thesis
  proof (cases e)
    case (Some err)
    then have same: "r2 = r1" using AdjustStock_failed r2 by blast
    show ?thesis
    proof (cases "IsInfinite l")
      case True
      then show ?thesis using r1 r2 same by simp
    next
      case False
      then have q: "0 \<le> sr_Qty l" "sr_Qty l \<le> sr_QtyMax l" "sr_QtyMax l \<le> MaxInt64" using assms(2) l(1) unfolding stock_ok_def by blast+
      have m: "stock_line r1 s x = Some (sold_line (- 1) l)" using r1 [of s x] False by simp
      then obtain rows where "map_of (sp_stock r1) s = Some rows" "find (\<lambda>row. sr_ItemExternalID row = x) rows = Some (sold_line (- 1) l)"
        by (auto simp: stock_line_def map_get_def split: option.splits)
      moreover have "sr_Qty l - 1 \<ge> 0" using l(2) False q by (simp add: i64_id)
      ultimately have "snd (AdjustStock r1 s x 1) = None" using q False by (auto simp: AdjustStock_def sold_line_def i64_id Let_def)
      then show ?thesis using r2 Some by simp
    qed
  next
    case None
    obtain l1 where l1: "stock_line r1 s x = Some l1"
      and r2': "stock_line r2 s' x' = (if s' = s \<and> x' = x \<and> \<not> IsInfinite l1 then Some (sold_line 1 l1) else stock_line r1 s' x')" for s' x'
      using AdjustStock_line [of r1 s x 1 r2] r2 None by blast
    show ?thesis
    proof (cases "IsInfinite l")
      case True
      then have "l1 = l" using r1 [of s x] l l1 by simp
      then show ?thesis using r1 r2 r2' True by simp
    next
      case False
      then have q: "0 \<le> sr_Qty l" "sr_Qty l \<le> sr_QtyMax l" "sr_QtyMax l \<le> MaxInt64" using assms(2) l(1) unfolding stock_ok_def by blast+
      have l1': "l1 = sold_line (- 1) l" using r1 [of s x] l1 False by simp
      have "0 \<le> sr_Qty l - 1" using l(2) False q by (simp add: i64_id)
      then have "sold_line 1 l1 = l" using q by (simp add: l1' sold_line_def i64_id)
      moreover have "IsInfinite l1 = IsInfinite l" by (simp add: l1' IsInfinite_def sold_line_def)
      ultimately show ?thesis using r1 r2 r2' False l by auto
    qed
  qed
qed

lemma buy_None: "shop_order env arg i w = None \<Longrightarrow>
    sw_Chars (shop_buy env now arg i w) = sw_Chars w \<and> sw_Items (shop_buy env now arg i w) = sw_Items w
    \<and> sw_Shops (shop_buy env now arg i w) = sw_Shops w"
  by (auto simp: shop_order_def shop_buy_def buy_deal_def Let_def split: keeper.splits option.splits prod.splits sum.splits if_splits)

lemma buy_Some:
  assumes "shop_order env arg i w = Some (shop, row, tpl, char)"
  shows "\<exists>keeper. shop_buy env now arg i w = buy_deal shop keeper row tpl now i w"
    "repo_FindByName (sw_Chars w) (gs_CharacterName (sess (sw_Sess w) i)) = Inr char"
  using assms by (auto simp: shop_order_def shop_buy_def split: keeper.splits option.splits prod.splits sum.splits if_splits)

lemma deal_goes:
  assumes "repo_ok (sw_Chars w)" "purses_ok (sw_Chars w)" "repo_FindByName (sw_Chars w) (gs_CharacterName (sess (sw_Sess w) i)) = Inr char"
    and "can_buy shop row tpl char now i w" "stock_ok (sw_Shops w)"
  shows "repo_GetByID (sw_Chars (buy_deal shop keeper row tpl now i w)) j =
      (if j = ch_ID char then Inr (paid (ch_Coin char - priceToBuy (it_Value tpl) shop) (ch_BankBalance char) char) else repo_GetByID (sw_Chars w) j)
    \<and> sw_Items (buy_deal shop keeper row tpl now i w) = fst (item_Create (sw_Items w) (bought_item tpl (gs_CharacterID (sess (sw_Sess w) i)) now))
    \<and> sw_Shops (buy_deal shop keeper row tpl now i w) = fst (AdjustStock (sw_Shops w) (sh_ID shop) (sr_ItemExternalID row) (- 1))"
proof -
  obtain items it where c: "item_Create (sw_Items w) (bought_item tpl (gs_CharacterID (sess (sw_Sess w) i)) now) = (items, Inr it)"
    using assms(4) by (auto simp: can_buy_def)
  have r: "repo_GetByID (sw_Chars w) (ch_ID char) = Inr char" using named_row [OF assms(1,3)] .
  then have p: "0 \<le> ch_Coin char" "ch_Coin char \<le> MaxInt64" using assms(2) unfolding purses_ok_def by blast+
  have sub: "amount_Sub (ch_Coin char) (priceToBuy (it_Value tpl) shop) = Inr (ch_Coin char - priceToBuy (it_Value tpl) shop)"
    using Sub_purse [OF p price_pos] assms(4) by (simp add: can_buy_def)
  obtain l where l: "stock_line (sw_Shops w) (sh_ID shop) (sr_ItemExternalID row) = Some l" "IsInfinite l \<or> 1 \<le> sr_Qty l"
    using assms(4) by (auto simp: can_buy_def)
  have q: "IsInfinite l \<or> sr_Qty l \<le> MaxInt64" using assms(5) l(1) unfolding stock_ok_def by (meson order_trans)
  obtain rows where "map_of (sp_stock (sw_Shops w)) (sh_ID shop) = Some rows"
    "find (\<lambda>x. sr_ItemExternalID x = sr_ItemExternalID row) rows = Some l"
    using l(1) by (auto simp: stock_line_def map_get_def split: option.splits)
  then have "snd (AdjustStock (sw_Shops w) (sh_ID shop) (sr_ItemExternalID row) (- 1)) = None"
    using l(2) q by (auto simp: AdjustStock_def IsInfinite_def i64_id Let_def)
  then obtain shops where a: "AdjustStock (sw_Shops w) (sh_ID shop) (sr_ItemExternalID row) (- 1) = (shops, None)" by (metis prod.collapse)
  show ?thesis using coin_rows [OF r, of "ch_Coin char - priceToBuy (it_Value tpl) shop" "ch_BankBalance char" j]
    by (simp add: buy_deal_def Let_def assms(3) sub a c)
qed

lemma deal_fails:
  assumes "\<not> can_buy shop row tpl char now i w" "repo_ok (sw_Chars w)" "purses_ok (sw_Chars w)" "stock_ok (sw_Shops w)"
    and "repo_FindByName (sw_Chars w) (gs_CharacterName (sess (sw_Sess w) i)) = Inr char"
  shows "sw_Chars (buy_deal shop keeper row tpl now i w) = sw_Chars w \<and> sw_Items (buy_deal shop keeper row tpl now i w) = sw_Items w
    \<and> stock_line (sw_Shops (buy_deal shop keeper row tpl now i w)) s x = stock_line (sw_Shops w) s x"
proof -
  have r: "repo_GetByID (sw_Chars w) (ch_ID char) = Inr char" using named_row [OF assms(2,5)] .
  then have p: "0 \<le> ch_Coin char" "ch_Coin char \<le> MaxInt64" using assms(3) unfolding purses_ok_def by blast+
  note sub = Sub_purse [OF p price_pos, of "it_Value tpl" shop]
  obtain shops e where a: "AdjustStock (sw_Shops w) (sh_ID shop) (sr_ItemExternalID row) (- 1) = (shops, e)" by fastforce
  obtain items c where c: "item_Create (sw_Items w) (bought_item tpl (gs_CharacterID (sess (sw_Sess w) i)) now) = (items, c)" by fastforce
  show ?thesis
  proof (cases "priceToBuy (it_Value tpl) shop \<le> ch_Coin char \<and> e = None")
    case True
    have "\<exists>l. stock_line (sw_Shops w) (sh_ID shop) (sr_ItemExternalID row) = Some l \<and> (IsInfinite l \<or> 1 \<le> sr_Qty l)"
    proof -
      obtain l where l: "stock_line (sw_Shops w) (sh_ID shop) (sr_ItemExternalID row) = Some l" "IsInfinite l \<or> 0 \<le> i64 (sr_Qty l + - 1)"
        using AdjustStock_line [of "sw_Shops w"] a True by blast
      have "IsInfinite l \<or> 0 \<le> sr_Qty l \<and> sr_Qty l \<le> MaxInt64" using assms(4) l(1) unfolding stock_ok_def by (meson order_trans)
      then have "IsInfinite l \<or> 1 \<le> sr_Qty l" using l(2) by (auto simp: i64_id)
      with l(1) show ?thesis by blast
    qed
    then obtain err where "c = Inl err" using assms(1) True c by (cases c) (auto simp: can_buy_def)
    then show ?thesis using True a c sub adjust_back [OF _ assms(4)] by (simp add: buy_deal_def Let_def assms(5))
  next
    case False
    show ?thesis
    proof (cases "priceToBuy (it_Value tpl) shop \<le> ch_Coin char")
      case True
      then obtain err where "e = Some err" using False by auto
      then show ?thesis using True a sub by (simp add: buy_deal_def Let_def assms(5))
    next
      case False': False
      then show ?thesis using sub by (simp add: buy_deal_def Let_def assms(5))
    qed
  qed
qed

text \<open>C29: What buying does. When a shop is open and sells what the keyword names, the purse holds the price, the line is in stock and the
  item can be made, then and only then the buyer's row loses exactly the price (at least one copper), the item store gains one
  item of the buyer's, and the line loses one unless it is infinite; otherwise purses, items and stock are as they were,
  the reserved unit having been put back.\<close>

theorem buy_exact:
  assumes "repo_ok (sw_Chars w)" "purses_ok (sw_Chars w)" "stock_ok (sw_Shops w)"
  shows "case shop_order env arg i w of
      Some (shop, row, tpl, char) \<Rightarrow>
        if can_buy shop row tpl char now i w
        then 1 \<le> priceToBuy (it_Value tpl) shop
          \<and> (\<forall>j. repo_GetByID (sw_Chars (shop_buy env now arg i w)) j =
               (if j = ch_ID char
                then Inr (char\<lparr>ch_Coin := ch_Coin char - priceToBuy (it_Value tpl) shop, ch_CoinVersion := i64 (ch_CoinVersion char + 1)\<rparr>)
                else repo_GetByID (sw_Chars w) j))
          \<and> sw_Items (shop_buy env now arg i w) = fst (item_Create (sw_Items w) (bought_item tpl (gs_CharacterID (sess (sw_Sess w) i)) now))
          \<and> sw_Shops (shop_buy env now arg i w) = fst (AdjustStock (sw_Shops w) (sh_ID shop) (sr_ItemExternalID row) (- 1))
        else sw_Chars (shop_buy env now arg i w) = sw_Chars w \<and> sw_Items (shop_buy env now arg i w) = sw_Items w
          \<and> (\<forall>s x. stock_line (sw_Shops (shop_buy env now arg i w)) s x = stock_line (sw_Shops w) s x)
    | None \<Rightarrow> sw_Chars (shop_buy env now arg i w) = sw_Chars w \<and> sw_Items (shop_buy env now arg i w) = sw_Items w
          \<and> sw_Shops (shop_buy env now arg i w) = sw_Shops w"
proof (cases "shop_order env arg i w")
  case None
  then show ?thesis using buy_None [OF None] by simp
next
  case (Some o')
  obtain shop row tpl char where o': "o' = (shop, row, tpl, char)" using prod_cases4 by blast
  note o = Some [unfolded o']
  obtain keeper where k: "shop_buy env now arg i w = buy_deal shop keeper row tpl now i w" using buy_Some(1) [OF o] by blast
  have char: "ch_ID char = ch_ID char \<and> char\<lparr>ch_BankBalance := ch_BankBalance char\<rparr> = char" by simp
  have "1 \<le> priceToBuy (it_Value tpl) shop" using price_pos [of "it_Value tpl" shop] by simp
  moreover have "paid p (ch_BankBalance char) char = char\<lparr>ch_Coin := p, ch_CoinVersion := i64 (ch_CoinVersion char + 1)\<rparr>" for p
    by (simp add: paid_def)
  ultimately show ?thesis
    using deal_goes [OF assms(1,2) buy_Some(2) [OF o], of shop row tpl now] deal_fails [OF _ assms buy_Some(2) [OF o], of shop row tpl now]
      assms(3) unfolding o k
    by (cases "can_buy shop row tpl char now i w") simp_all
qed

lemma shop_world_order:
  "shop_order shop_env ''rock'' 0 shop_world
    = Some (stall, zero_Row\<lparr>sr_ID := 1, sr_ShopID := 1, sr_ItemExternalID := ''2'', sr_Qty := 2, sr_QtyMax := 2\<rparr>, stone_item, rand_row)"
proof -
  have m: "MatchItem ''rock'' [stone_item] = Some stone_item" "to_lower (trim_space ''rock'') = ''rock''" "it_ExternalID stone_item = ''2''"
    "it_ExternalID bag_item = ''1''"
    by code_simp+
  have "mob_ListInRoom (sw_Mobs shop_world) 3 = [sample_mob\<lparr>mi_ID := 1\<rparr>]"
    by (simp add: mob_ListInRoom_def shop_world_def sample_mob_def)
  moreover have "gs_CurrentRoomID (sess (sw_Sess shop_world) 0) = 3" by (simp add: shop_world_def sess_def map_get_def)
  moreover have "shop_GetByMobTemplateID (sw_Shops shop_world) 4 = Some stall"
    by (simp add: shop_GetByMobTemplateID_def shop_world_def map_get_def)
  ultimately have f: "findShopkeeper shop_env (gs_CurrentRoomID (sess (sw_Sess shop_world) 0)) shop_world = Keeper stall ''the shopkeeper''"
    by (simp add: findShopkeeper_def shop_env_def sample_mob_def)
  let ?row = "zero_Row\<lparr>sr_ID := 1, sr_ShopID := 1, sr_ItemExternalID := ''2'', sr_Qty := 2, sr_QtyMax := 2\<rparr>"
  have l: "ListStock (sw_Shops shop_world) (sh_ID stall) = [?row]"
    by (simp add: ListStock_def shop_world_def stall_def map_get_def m(3))
  have "item_FindByExternalID (sw_Items shop_world) ''2'' = Inr stone_item"
    by (simp add: item_FindByExternalID_def shop_world_def m(3,4))
  then have "matchStockKeyword ''rock'' [?row] (sw_Items shop_world) = Some (?row, stone_item)"
    by (simp add: matchStockKeyword_def m(1,2) map_get_def)
  moreover have "shopOpen shop_env stall" by (simp add: shopOpen_def shop_env_def)
  ultimately show ?thesis by (simp add: shop_order_def f l shop_world_rows)
qed

lemma buy_exact_witness:
  "\<exists>c. repo_GetByID (sw_Chars (shop_buy shop_env 5 ''rock'' 0 shop_world)) 1 = Inr c \<and> ch_Coin c = 99"
proof -
  let ?row = "zero_Row\<lparr>sr_ID := 1, sr_ShopID := 1, sr_ItemExternalID := ''2'', sr_Qty := 2, sr_QtyMax := 2\<rparr>"
  have p: "priceToBuy (it_Value stone_item) stall = 1" by code_simp
  have e: "it_ExternalID stone_item = ''2''" by code_simp
  have "it_Type stone_item = ItemTypeTrash" "it_Quality stone_item = QualityNormal" "it_Stats stone_item = NilStats"
    by (simp_all add: stone_item_def sample_item_def)
  then have "\<exists>items it. item_Create (sw_Items shop_world) (bought_item stone_item 1 5) = (items, Inr it)"
    by (simp add: item_Create_def bought_item_def StatsForType_def shop_world_def e Let_def split: prod.split)
  moreover have "gs_CharacterID (sess (sw_Sess shop_world) 0) = 1" by (simp add: shop_world_def sess_def map_get_def)
  moreover have "\<exists>l. stock_line (sw_Shops shop_world) (sh_ID stall) ''2'' = Some l \<and> (IsInfinite l \<or> 1 \<le> sr_Qty l)"
    by (simp add: stock_line_def shop_world_def stall_def map_get_def e)
  ultimately have "can_buy stall ?row stone_item rand_row 5 0 shop_world" by (simp add: can_buy_def p rand_facts)
  then show ?thesis using buy_exact [OF shop_world_ok shop_world_stock, of shop_env 5 "''rock''" 0]
    by (simp add: shop_world_order p rand_facts)
qed

text \<open>Selling a full container loses what is in it. The keeper takes a held item without looking inside: the item leaves the store and
  is paid for, but the items in it keep naming it as their container, so afterwards they are in no room, in nobody's inventory and in no
  item that exists.\<close>

lemma sell_orphans_contents:
  assumes "repo_ok (sw_Chars w)" "purses_ok (sw_Chars w)" "distinct (map it_ID (ir_items (sw_Items w)))"
    and "repo_FindByName (sw_Chars w) (gs_CharacterName (sess (sw_Sess w) i)) = Inr char"
    and "bag \<in> set (ir_items (sw_Items w))" "c \<in> set (ir_items (sw_Items w))" "it_ParentItemID c = it_ID bag" "it_ID bag \<noteq> 0" "c \<noteq> bag"
    and "it_RoomID c = 0" "it_OwnerCharacterID c = 0"
    and "0 \<le> priceToSell bag shop" "ch_Coin char + priceToSell bag shop \<le> MaxInt64"
  shows "c \<in> set (ir_items (sw_Items (sell_deal shop keeper bag i w)))
    \<and> item_GetByID (sw_Items (sell_deal shop keeper bag i w)) (it_ParentItemID c) = Inl ErrItemNotFound
    \<and> (\<forall>room. room \<noteq> 0 \<longrightarrow> c \<notin> set (in_room (sw_Items (sell_deal shop keeper bag i w)) room))
    \<and> (\<forall>owner. c \<notin> set (in_inventory (sw_Items (sell_deal shop keeper bag i w)) owner))
    \<and> (\<exists>d. repo_GetByID (sw_Chars (sell_deal shop keeper bag i w)) (ch_ID char) = Inr d \<and> ch_Coin d = ch_Coin char + priceToSell bag shop)"
proof -
  let ?r = "sw_Chars w" let ?n = "gs_CharacterName (sess (sw_Sess w) i)"
  have row: "repo_GetByID ?r (ch_ID char) = Inr char" using named_row [OF assms(1,4)] .
  then have p: "0 \<le> ch_Coin char" "ch_Coin char \<le> MaxInt64" using assms(2) unfolding purses_ok_def by blast+
  have add: "amount_Add (ch_Coin char) (priceToSell bag shop) = Inr (ch_Coin char + priceToSell bag shop)"
    using Add_purse [OF p assms(12)] assms(13) p by simp
  define r1 where "r1 = autoUnequipIfHeld ?r ?n (it_ID bag)"
  obtain eq where r1: "repo_GetByID r1 (ch_ID char) = Inr (char\<lparr>ch_Equipment := eq\<rparr>)"
  proof -
    have "keeps_identity (\<lambda>c. Inr (c\<lparr>ch_Equipment := e\<rparr>))" for e by (simp add: keeps_identity_def)
    then have e: "repo_GetByID (fst (repo_RecordEquipment ?r (ch_ID char) e)) (ch_ID char) = Inr (char\<lparr>ch_Equipment := e\<rparr>)" for e
      using char_store.get_upd [of "\<lambda>c. Inr (c\<lparr>ch_Equipment := e\<rparr>)" ?r "ch_ID char" "ch_ID char"] row by (simp add: repo_RecordEquipment_def)
    obtain eq slot where "ClearItem (ch_Equipment char) (it_ID bag) = (eq, slot)" by fastforce
    then have r: "r1 = (if slot = None then ?r else fst (repo_RecordEquipment ?r (ch_ID char) eq))"
      by (simp add: r1_def autoUnequipIfHeld_def assms(4) split: option.split)
    show thesis
    proof (cases "slot = None")
      case True
      have "repo_GetByID r1 (ch_ID char) = Inr (char\<lparr>ch_Equipment := ch_Equipment char\<rparr>)" using r row True by simp
      then show thesis by (rule that)
    next
      case False
      have "repo_GetByID r1 (ch_ID char) = Inr (char\<lparr>ch_Equipment := eq\<rparr>)" using r e [of eq] False by simp
      then show thesis by (rule that)
    qed
  qed
  define coin where "coin = ch_Coin char + priceToSell bag shop"
  have r2: "snd (repo_RecordCoin r1 (ch_ID char) coin (ch_BankBalance char) (ch_CoinVersion char)) = None"
    "repo_GetByID (fst (repo_RecordCoin r1 (ch_ID char) coin (ch_BankBalance char) (ch_CoinVersion char))) (ch_ID char)
       = Inr (paid coin (ch_BankBalance char) (char\<lparr>ch_Equipment := eq\<rparr>))"
    using coin_rows [of r1 "char\<lparr>ch_Equipment := eq\<rparr>" coin "ch_BankBalance char" "ch_ID char"] r1 by simp_all
  obtain chars2 where chars2: "repo_RecordCoin r1 (ch_ID char) coin (ch_BankBalance char) (ch_CoinVersion char) = (chars2, None)"
    using r2(1) by (metis prod.collapse)
  have find: "find_item is k = Some x \<Longrightarrow> x \<in> set is" and found: "x \<in> set is \<Longrightarrow> find_item is (it_ID x) \<noteq> None" for "is" k x
    by (induction "is") (auto split: if_splits)
  have gone: "distinct (map it_ID is) \<Longrightarrow> find_item (remove_item is k) k = None" and rest: "x \<in> set is \<Longrightarrow> it_ID x \<noteq> k \<Longrightarrow> x \<in> set (remove_item is k)"
    for "is" k x
  proof (induction "is")
    case (Cons y ys)
    { case 1
      have "find_item zs k = None" if "k \<notin> it_ID ` set zs" for zs using that by (induction zs) auto
      with 1 Cons show ?case by auto }
    { case 2 with Cons show ?case by auto }
  qed simp_all
  define items where "items = fst (item_Delete (sw_Items w) (it_ID bag))"
  obtain k where "find_item (ir_items (sw_Items w)) (it_ID bag) = Some k" using found [OF assms(5)] by blast
  then have del: "item_Delete (sw_Items w) (it_ID bag) = (items, None)" and items: "ir_items items = remove_item (ir_items (sw_Items w)) (it_ID bag)"
    by (simp_all add: items_def item_Delete_def)
  have keeps: "keeps_identity (\<lambda>c. Inr (c\<lparr>ch_Inventory := ids\<rparr>))" for ids by (simp add: keeps_identity_def)
  have d: "sw_Items (sell_deal shop keeper bag i w) = items"
    "sw_Chars (sell_deal shop keeper bag i w) = fst (repo_RecordInventory chars2 (ch_ID char) (removeID (ch_Inventory char) (it_ID bag)))"
    by (simp_all add: sell_deal_def Let_def assms(4) add r1_def [symmetric] coin_def [symmetric] chars2 del)
  have ne: "it_ID c \<noteq> it_ID bag" using assms(3,5,6,9) by (auto simp: distinct_map dest: inj_onD)
  have "c \<in> set (ir_items items)" using rest [OF assms(6) ne] items by simp
  moreover have "item_GetByID items (it_ParentItemID c) = Inl ErrItemNotFound"
    using gone [OF assms(3)] items by (simp add: item_GetByID_def assms(7))
  moreover have "c \<notin> set (in_room items room)" if "room \<noteq> 0" for room using that assms(10) by (simp add: in_room_def)
  moreover have "c \<notin> set (in_inventory items owner)" for owner using assms(7,8) by (simp add: in_inventory_def)
  moreover have "\<exists>d. repo_GetByID (sw_Chars (sell_deal shop keeper bag i w)) (ch_ID char) = Inr d \<and> ch_Coin d = coin"
    using char_store.get_upd [OF keeps, of chars2 "ch_ID char" "removeID (ch_Inventory char) (it_ID bag)" "ch_ID char"] r2(2)
    by (simp add: d(2) repo_RecordInventory_def chars2 paid_def)
  ultimately show ?thesis unfolding d(1) coin_def by blast
qed

end
