(* ===== verification/Container.thy ===== *)
theory Container
  imports ItemRepo
begin

text \<open>
  The rules of nesting containers: \<open>internal/cmd/container.go\<close>. Items refer to their container by id, so
  the parent links form a graph; the recursive helpers of the source run forever on a cycle, which here is
  running out of fuel (\<open>None\<close>). The main property: the check \<open>canPut\<close> of the \<open>put\<close> command preserves that
  no chain of containers is deeper than three, so no cycle is ever closed and the helpers always return.
\<close>

definition defaultContainerDepth :: int where "defaultContainerDepth = 3"

definition childrenOf :: "Item list \<Rightarrow> int \<Rightarrow> Item list" where
  "childrenOf items k = (if k = 0 then [] else filter (\<lambda>i. it_ParentItemID i = k) items)"

definition byID_of :: "Item list \<Rightarrow> int \<Rightarrow> Item option" where
  "byID_of items k = map_of (rev (map (\<lambda>i. (it_ID i, i)) items)) k"

text \<open>A recursion over the children of an item: \<open>g\<close> combines what the children return, in order.\<close>

fun sum_children :: "(flt \<Rightarrow> flt \<Rightarrow> flt) \<Rightarrow> (Item \<Rightarrow> flt option) \<Rightarrow> flt \<Rightarrow> Item list \<Rightarrow> flt option" where
  "sum_children g rec w [] = Some w"
| "sum_children g rec w (c # cs) =
     (case rec c of None \<Rightarrow> None | Some x \<Rightarrow> sum_children g rec (g w x) cs)"

fun recursiveWeight :: "nat \<Rightarrow> (int \<Rightarrow> Item list) \<Rightarrow> Item \<Rightarrow> flt option" where
  "recursiveWeight 0 idx it = None"
| "recursiveWeight (Suc fuel) idx it =
     (let mult = (case it_Stats it of
          StContainer cs \<Rightarrow> if \<not> fle (ct_WeightMult cs) f_zero then ct_WeightMult cs else f_one
        | _ \<Rightarrow> f_one)
      in sum_children (\<lambda>w x. f64 (fadd w (f64 (fmul mult x)))) (recursiveWeight fuel idx) (it_Weight it)
           (idx (it_ID it)))"

fun rawWeight :: "nat \<Rightarrow> (int \<Rightarrow> Item list) \<Rightarrow> Item \<Rightarrow> flt option" where
  "rawWeight 0 idx it = None"
| "rawWeight (Suc fuel) idx it =
     sum_children (\<lambda>w x. f64 (fadd w x)) (rawWeight fuel idx) (it_Weight it) (idx (it_ID it))"

definition rawContentsWeight :: "nat \<Rightarrow> (int \<Rightarrow> Item list) \<Rightarrow> Item \<Rightarrow> flt option" where
  "rawContentsWeight fuel idx container =
     sum_children (\<lambda>w x. f64 (fadd w x)) (rawWeight fuel idx) f_zero (idx (it_ID container))"

text \<open>The loop of \<open>depthBelow\<close> over the children, with the running maximum.\<close>

fun max_children :: "(Item \<Rightarrow> int option) \<Rightarrow> int \<Rightarrow> Item list \<Rightarrow> int option" where
  "max_children rec m [] = Some m"
| "max_children rec m (c # cs) =
     (case rec c of None \<Rightarrow> None
      | Some x \<Rightarrow> max_children rec (if 1 + x > m then 1 + x else m) cs)"

fun depthBelow :: "nat \<Rightarrow> (int \<Rightarrow> Item list) \<Rightarrow> int \<Rightarrow> int option" where
  "depthBelow 0 idx k = None"
| "depthBelow (Suc fuel) idx k = max_children (\<lambda>c. depthBelow fuel idx (it_ID c)) 0 (idx k)"

text \<open>The two bounded walks up the parent chain.\<close>

fun depth_walk :: "nat \<Rightarrow> (int \<Rightarrow> Item option) \<Rightarrow> int \<Rightarrow> int \<Rightarrow> int" where
  "depth_walk 0 byID depth cur = depth"
| "depth_walk (Suc n) byID depth cur =
     (case byID cur of None \<Rightarrow> depth
      | Some it \<Rightarrow> if it_ParentItemID it = 0 then depth else depth_walk n byID (depth + 1) (it_ParentItemID it))"

definition depthOf :: "int \<Rightarrow> (int \<Rightarrow> Item option) \<Rightarrow> int" where
  "depthOf k byID = depth_walk (nat (defaultContainerDepth * 4)) byID 0 k"

fun ancestor_walk :: "nat \<Rightarrow> (int \<Rightarrow> Item option) \<Rightarrow> int \<Rightarrow> int \<Rightarrow> bool" where
  "ancestor_walk 0 byID anc cur = False"
| "ancestor_walk (Suc n) byID anc cur =
     (case byID cur of None \<Rightarrow> False
      | Some it \<Rightarrow>
          if it_ParentItemID it = 0 then False
          else if it_ParentItemID it = anc then True
          else ancestor_walk n byID anc (it_ParentItemID it))"

definition isAncestor :: "int \<Rightarrow> int \<Rightarrow> (int \<Rightarrow> Item option) \<Rightarrow> bool" where
  "isAncestor anc start byID = ancestor_walk (nat (defaultContainerDepth * 4)) byID anc start"

datatype putRefusal = putOK | putNotAContainer | putLiquidContainer | putSelf | putCycle | putTooDeep
  | putTooHeavy | putNoStats

definition canPut ::
    "nat \<Rightarrow> Item \<Rightarrow> Item \<Rightarrow> Item list \<Rightarrow> (int \<Rightarrow> Item option) \<Rightarrow> putRefusal option" where
  "canPut fuel container child allKnown byID =
     (if it_Type container \<noteq> ItemTypeContainer then Some putNotAContainer
      else case it_Stats container of
        StContainer cs \<Rightarrow>
          if \<not> fle (ct_LiquidPints cs) f_zero then Some putLiquidContainer
          else if it_ID container = it_ID child then Some putSelf
          else if isAncestor (it_ID child) (it_ID container) byID then Some putCycle
          else
            let idx = childrenOf allKnown;
                maxDepth = (if ct_DepthCap cs > 0 \<and> ct_DepthCap cs < defaultContainerDepth then ct_DepthCap cs
                            else defaultContainerDepth)
            in (case depthBelow fuel idx (it_ID child) of None \<Rightarrow> None
                | Some below \<Rightarrow>
                    if depthOf (it_ID container) byID + 1 + below > maxDepth then Some putTooDeep
                    else if \<not> fle (ct_CapacityLbs cs) f_zero then
                      (case (rawContentsWeight fuel idx container, rawWeight fuel idx child) of
                         (Some a, Some b) \<Rightarrow>
                           if \<not> fle (f64 (fadd a b)) (ct_CapacityLbs cs) then Some putTooHeavy else Some putOK
                       | _ \<Rightarrow> None)
                    else Some putOK)
      | _ \<Rightarrow> Some putNoStats)"

section \<open>Parent chains\<close>

definition up :: "(int \<Rightarrow> Item option) \<Rightarrow> int \<Rightarrow> int option" where
  "up byID k = (case byID k of None \<Rightarrow> None
     | Some it \<Rightarrow> if it_ParentItemID it = 0 then None else Some (it_ParentItemID it))"

fun ups :: "(int \<Rightarrow> int option) \<Rightarrow> nat \<Rightarrow> int \<Rightarrow> int option" where
  "ups u 0 k = Some k"
| "ups u (Suc n) k = (case u k of None \<Rightarrow> None | Some p \<Rightarrow> ups u n p)"

lemma ups_add: "ups u (m + n) k = (case ups u m k of None \<Rightarrow> None | Some x \<Rightarrow> ups u n x)"
  by (induction m arbitrary: k) (auto split: option.split)

lemma ups_Suc_right: "ups u (Suc n) k = (case ups u n k of None \<Rightarrow> None | Some x \<Rightarrow> u x)"
  using ups_add [of u n 1 k] by (auto split: option.splits)

lemma up_Some: "up byID k = Some p \<longleftrightarrow> (\<exists>it. byID k = Some it \<and> it_ParentItemID it \<noteq> 0 \<and> p = it_ParentItemID it)"
  by (auto simp: up_def split: option.splits if_splits)

lemma depth_walk_start: "d \<le> depth_walk n byID d k"
  by (induction n byID d k rule: depth_walk.induct) (fastforce split: option.splits)+

lemma depth_walk_ge: "ups (up byID) m k \<noteq> None \<Longrightarrow> m \<le> n \<Longrightarrow> d + int m \<le> depth_walk n byID d k"
proof (induction n arbitrary: m d k)
  case (Suc n)
  show ?case
  proof (cases m)
    case 0
    then show ?thesis using depth_walk_start [of d "Suc n" byID k] by simp
  next
    case (Suc m')
    then obtain it where it: "byID k = Some it" "it_ParentItemID it \<noteq> 0"
      "ups (up byID) m' (it_ParentItemID it) \<noteq> None"
      using Suc.prems(1) by (cases "up byID k") (auto simp: up_Some)
    with Suc.IH [OF it(3), of "d + 1"] Suc.prems(2) Suc show ?thesis by simp
  qed
qed simp

lemma ancestor_walk_found: "ups (up byID) m k = Some a \<Longrightarrow> 1 \<le> m \<Longrightarrow> m \<le> n \<Longrightarrow> ancestor_walk n byID a k"
proof (induction n arbitrary: m k)
  case (Suc n)
  obtain m' where m: "m = Suc m'" using Suc.prems(2) by (cases m) auto
  then obtain it where it: "byID k = Some it" "it_ParentItemID it \<noteq> 0"
    "ups (up byID) m' (it_ParentItemID it) = Some a"
    using Suc.prems(1) by (cases "up byID k") (auto simp: up_Some)
  show ?case
  proof (cases m')
    case 0
    with it show ?thesis by simp
  next
    case (Suc m'')
    with Suc.IH [OF it(3)] Suc.prems(3) m it show ?thesis by simp
  qed
qed simp

lemma max_children_ge:
  "max_children rec m cs = Some d \<Longrightarrow> m \<le> d \<and> (\<forall>c \<in> set cs. \<exists>x. rec c = Some x \<and> 1 + x \<le> d)"
  by (induction rec m cs rule: max_children.induct) (fastforce split: option.splits if_splits)+

lemma max_children_total: "\<forall>c \<in> set cs. rec c \<noteq> None \<Longrightarrow> max_children rec m cs \<noteq> None"
  by (induction rec m cs rule: max_children.induct) (auto split: option.split)

lemma sum_children_total: "\<forall>c \<in> set cs. rec c \<noteq> None \<Longrightarrow> sum_children g rec w cs \<noteq> None"
  by (induction g rec w cs rule: sum_children.induct) (auto split: option.split)

text \<open>The rows the helpers see: \<open>byID\<close> indexes them.\<close>

lemma byID_of_row: "distinct (map it_ID items) \<Longrightarrow> byID_of items k = Some i \<longleftrightarrow> i \<in> set items \<and> it_ID i = k"
proof -
  assume d: "distinct (map it_ID items)"
  then have "distinct (map fst (rev (map (\<lambda>i. (it_ID i, i)) items)))" by (simp add: rev_map [symmetric] comp_def)
  from map_of_eq_Some_iff [OF this, of k i] show ?thesis by (auto simp: byID_of_def)
qed

lemma child_up:
  assumes "distinct (map it_ID items)" "c \<in> set (childrenOf items k)"
  shows "up (byID_of items) (it_ID c) = Some k"
proof -
  have "c \<in> set items" "it_ParentItemID c = k" "k \<noteq> 0"
    using assms(2) by (auto simp: childrenOf_def split: if_splits)
  with byID_of_row [OF assms(1), of "it_ID c" c] show ?thesis by (simp add: up_def)
qed

lemma up_child:
  assumes "distinct (map it_ID items)" "up (byID_of items) y = Some k"
  shows "\<exists>c \<in> set (childrenOf items k). it_ID c = y"
proof -
  obtain c where "byID_of items y = Some c" "it_ParentItemID c = k" "k \<noteq> 0"
    using assms(2) by (auto simp: up_def split: option.splits if_splits)
  then show ?thesis using byID_of_row [OF assms(1), of y c] by (auto simp: childrenOf_def)
qed

lemma depthBelow_ge:
  assumes "distinct (map it_ID items)"
  shows "depthBelow fuel (childrenOf items) k = Some d \<Longrightarrow> ups (up (byID_of items)) n y = Some k \<Longrightarrow> int n \<le> d"
proof (induction fuel arbitrary: k d n)
  case (Suc fuel)
  show ?case
  proof (cases n)
    case 0
    then show ?thesis using Suc.prems(1) max_children_ge by fastforce
  next
    case (Suc m)
    then obtain x where x: "ups (up (byID_of items)) m y = Some x" "up (byID_of items) x = Some k"
      using Suc.prems(2) by (auto simp: ups_Suc_right simp del: ups.simps split: option.splits)
    obtain c where c: "c \<in> set (childrenOf items k)" "it_ID c = x" using up_child [OF assms x(2)] by blast
    obtain e where e: "depthBelow fuel (childrenOf items) x = Some e" "1 + e \<le> d"
      using max_children_ge Suc.prems(1) c by fastforce
    from Suc.IH [OF e(1) x(1)] e(2) Suc show ?thesis by simp
  qed
qed simp

lemma depthBelow_total:
  assumes "distinct (map it_ID items)"
  shows "(\<And>y. ups (up (byID_of items)) fuel y \<noteq> Some k) \<Longrightarrow> depthBelow fuel (childrenOf items) k \<noteq> None"
proof (induction fuel arbitrary: k)
  case 0
  then show ?case using 0 [of "k"] by simp
next
  case (Suc fuel)
  have "depthBelow fuel (childrenOf items) (it_ID c) \<noteq> None" if "c \<in> set (childrenOf items k)" for c
  proof (rule Suc.IH)
    fix y
    show "ups (up (byID_of items)) fuel y \<noteq> Some (it_ID c)"
      using Suc.prems [of y] child_up [OF assms that] by (auto simp: ups_Suc_right simp del: ups.simps)
  qed
  then show ?case unfolding depthBelow.simps by (intro max_children_total) blast
qed

lemma rawWeight_total:
  assumes "distinct (map it_ID items)"
  shows "(\<And>y. ups (up (byID_of items)) fuel y \<noteq> Some (it_ID i)) \<Longrightarrow> rawWeight fuel (childrenOf items) i \<noteq> None"
proof (induction fuel arbitrary: i)
  case 0
  then show ?case using 0 [of "it_ID i"] by simp
next
  case (Suc fuel)
  have "rawWeight fuel (childrenOf items) c \<noteq> None" if "c \<in> set (childrenOf items (it_ID i))" for c
  proof (rule Suc.IH)
    fix y
    show "ups (up (byID_of items)) fuel y \<noteq> Some (it_ID c)"
      using Suc.prems [of y] child_up [OF assms that] by (auto simp: ups_Suc_right simp del: ups.simps)
  qed
  then show ?case unfolding rawWeight.simps by (intro sum_children_total) blast
qed

section \<open>The nesting check is enough\<close>

text \<open>No chain of containers longer than three: from every id, four steps up lead nowhere.\<close>

definition depth_ok :: "Item list \<Rightarrow> bool" where
  "depth_ok items \<longleftrightarrow> (\<forall>k. ups (up (byID_of items)) 4 k = None)"

text \<open>The rows after the child has been moved into the container.\<close>

definition put_in :: "Item list \<Rightarrow> int \<Rightarrow> int \<Rightarrow> Item list" where
  "put_in items child container = map (\<lambda>i. if it_ID i = child then at_place i 0 0 container else i) items"

lemma put_in_up:
  assumes "distinct (map it_ID items)" "container \<noteq> 0" "child \<in> it_ID ` set items"
  shows "up (byID_of (put_in items child container)) =
    (\<lambda>k. if k = child then Some container else up (byID_of items) k)"
proof
  fix k
  have ids: "map it_ID (put_in items child container) = map it_ID items"
    by (simp add: put_in_def at_place_def)
  have d: "distinct (map it_ID (put_in items child container))" unfolding ids by (rule assms(1))
  have b: "byID_of (put_in items child container) k =
      map_option (\<lambda>i. if it_ID i = child then at_place i 0 0 container else i) (byID_of items k)"
  proof (cases "byID_of items k")
    case None
    have "\<not> (\<exists>i \<in> set (put_in items child container). it_ID i = k)"
    proof
      assume "\<exists>i \<in> set (put_in items child container). it_ID i = k"
      then have "k \<in> set (map it_ID items)" unfolding ids [symmetric] by auto
      then obtain j where "j \<in> set items" "it_ID j = k" by auto
      then have "byID_of items k = Some j" using byID_of_row [OF assms(1)] by blast
      with None show False by simp
    qed
    then have "byID_of (put_in items child container) k = None"
      using byID_of_row [OF d, of k] by (meson not_Some_eq)
    with None show ?thesis by simp
  next
    case (Some i)
    then have i: "i \<in> set items" "it_ID i = k" using byID_of_row [OF assms(1)] by blast+
    let ?j = "if it_ID i = child then at_place i 0 0 container else i"
    have "?j \<in> set (put_in items child container)" using i by (auto simp: put_in_def)
    moreover have "it_ID ?j = k" using i by (simp add: at_place_def)
    ultimately have "byID_of (put_in items child container) k = Some ?j"
      using byID_of_row [OF d, of k ?j] by blast
    with Some show ?thesis by simp
  qed
  show "up (byID_of (put_in items child container)) k = (if k = child then Some container else up (byID_of items) k)"
  proof (cases "byID_of items k")
    case None
    with assms(3) byID_of_row [OF assms(1), of k] have "k \<noteq> child" by fastforce
    with None b show ?thesis by (simp add: up_def)
  next
    case (Some i)
    then have "it_ID i = k" using byID_of_row [OF assms(1)] by blast
    with Some b assms(2) show ?thesis by (simp add: up_def at_place_def)
  qed
qed

text \<open>A path in the changed graph uses the new edge or is an old path.\<close>

lemma ups_fun_upd:
  assumes "ups (\<lambda>k. if k = c then Some t else u k) n y = Some z"
  shows "ups u n y = Some z \<or> (\<exists>k < n. ups u k y = Some c \<and> ups (\<lambda>k. if k = c then Some t else u k) (n - Suc k) t = Some z)"
  using assms
proof (induction n arbitrary: y)
  case (Suc n)
  show ?case
  proof (cases "y = c")
    case True
    with Suc.prems show ?thesis by (intro disjI2 exI [of _ 0]) simp
  next
    case False
    then obtain p where p: "u y = Some p" "ups (\<lambda>k. if k = c then Some t else u k) n p = Some z"
      using Suc.prems by (auto split: option.splits)
    from Suc.IH [OF p(2)] show ?thesis
    proof (elim disjE exE conjE)
      fix k assume "k < n" "ups u k p = Some c"
        "ups (\<lambda>k. if k = c then Some t else u k) (n - Suc k) t = Some z"
      then show ?thesis using p(1) by (intro disjI2 exI [of _ "Suc k"]) simp
    qed (simp add: p(1))
  qed
qed simp

text \<open>Moving a tree of items below a container that is not too deep keeps the chains short.\<close>

lemma put_in_depth:
  assumes "distinct (map it_ID items)" "depth_ok items" "it_ID child \<in> it_ID ` set items" "it_ID container \<noteq> 0"
    and "depthBelow fuel (childrenOf items) (it_ID child) = Some below"
    and "depthOf (it_ID container) (byID_of items) + 1 + below \<le> 3" "it_ID container \<noteq> it_ID child"
    and "\<not> isAncestor (it_ID child) (it_ID container) (byID_of items)"
  shows "depth_ok (put_in items (it_ID child) (it_ID container))"
proof -
  let ?u = "up (byID_of items)" and ?c = "it_ID child" and ?t = "it_ID container"
  let ?w = "\<lambda>k. if k = ?c then Some ?t else ?u k"
  have no: "ups ?u 4 y = None" for y using assms(2) by (simp add: depth_ok_def)
  have old: "ups ?w n ?t = Some z \<Longrightarrow> ups ?u n ?t = Some z" if "n \<le> 12" for n z
  proof -
    assume w: "ups ?w n ?t = Some z"
    have "\<not> ups ?u k ?t = Some ?c" if "k < n" for k
    proof
      assume a: "ups ?u k ?t = Some ?c"
      have "1 \<le> k" using a assms(7) by (cases k) auto
      then have "isAncestor ?c ?t (byID_of items)"
        using ancestor_walk_found [OF a, of 12] \<open>k < n\<close> \<open>n \<le> 12\<close>
        by (simp add: isAncestor_def defaultContainerDepth_def)
      with assms(8) show False by simp
    qed
    with ups_fun_upd [OF w] show ?thesis by blast
  qed
  have "ups ?w 4 y = None" for y
  proof (rule ccontr)
    assume "ups ?w 4 y \<noteq> None"
    then obtain z where z: "ups ?w 4 y = Some z" by auto
    from ups_fun_upd [OF z] no [of y] obtain k where
      k: "k < 4" "ups ?u k y = Some ?c" "ups ?w (4 - Suc k) ?t = Some z" by auto
    have "int k \<le> below" by (rule depthBelow_ge [OF assms(1,5) k(2)])
    moreover have "int (4 - Suc k) \<le> depthOf ?t (byID_of items)"
      using old [OF _ k(3)] depth_walk_ge [of "byID_of items" "4 - Suc k" ?t 12 0]
      by (simp add: depthOf_def defaultContainerDepth_def)
    ultimately show False using assms(6) k(1) by simp
  qed
  then show ?thesis using put_in_up [OF assms(1,4), of ?c] assms(3) by (simp add: depth_ok_def)
qed

text \<open>The check of the \<open>put\<close> command is sound: on rows with unique ids and no chain deeper than three, it
  always returns (the recursive helpers end), and when it answers \<open>putOK\<close> the rows after the move have again
  no chain deeper than three; so no container ever ends up inside itself.\<close>

lemma canPut_keeps_depth:
  assumes "distinct (map it_ID items)" "depth_ok items" "4 \<le> fuel"
    and "container \<in> set items" "child \<in> set items" "it_ID container \<noteq> 0"
  shows "canPut fuel container child items (byID_of items) \<noteq> None
    \<and> (canPut fuel container child items (byID_of items) = Some putOK \<longrightarrow>
         depth_ok (put_in items (it_ID child) (it_ID container)))"
proof -
  let ?u = "up (byID_of items)" and ?c = "it_ID child" and ?t = "it_ID container"
  have no: "ups ?u n y = None" if "4 \<le> n" for n y
    using assms(2) that ups_add [of ?u 4 "n - 4" y] by (simp add: depth_ok_def)
  have tot: "depthBelow fuel (childrenOf items) ?c \<noteq> None"
    "rawWeight fuel (childrenOf items) child \<noteq> None" "rawContentsWeight fuel (childrenOf items) container \<noteq> None"
  proof -
    have nf: "ups ?u fuel y \<noteq> Some x" for x y using no [OF assms(3)] by simp
    show "depthBelow fuel (childrenOf items) ?c \<noteq> None" by (rule depthBelow_total [OF assms(1) nf])
    show "rawWeight fuel (childrenOf items) child \<noteq> None" by (rule rawWeight_total [OF assms(1) nf])
    show "rawContentsWeight fuel (childrenOf items) container \<noteq> None"
      unfolding rawContentsWeight_def by (intro sum_children_total ballI rawWeight_total [OF assms(1) nf])
  qed
  have 1: "canPut fuel container child items (byID_of items) \<noteq> None"
    using tot by (auto simp: canPut_def Let_def split: ItemStats.split option.split)
  have "depth_ok (put_in items ?c ?t)" if ok: "canPut fuel container child items (byID_of items) = Some putOK"
  proof -
    obtain below where b: "depthBelow fuel (childrenOf items) ?c = Some below"
      "depthOf ?t (byID_of items) + 1 + below \<le> 3" "?t \<noteq> ?c" "\<not> isAncestor ?c ?t (byID_of items)"
      using ok tot(1)
      by (auto simp: canPut_def Let_def defaultContainerDepth_def split: ItemStats.splits option.splits if_splits)
    show ?thesis by (rule put_in_depth [OF assms(1,2) _ assms(6) b(1,2,3,4)]) (use assms(5) in simp)
  qed
  with 1 show ?thesis by blast
qed

end
