(* ===== verification/Inventory.thy ===== *)
theory Inventory
  imports Gear Container
begin

text \<open>
  Carrying things: \<open>get\<close>, \<open>drop\<close>, \<open>give\<close> and \<open>put\<close> of \<open>internal/cmd/inventory.go\<close> and the load of \<open>encumbrance.go\<close>. A walk
  over nested containers that would never end is the result \<open>None\<close> of the verb; on the rows the verbs build it does not occur. The clock
  reading in the external id of a coin pile is an argument. The listing and the completers, which only print, are left out, except for
  the order of the listing.
\<close>

section \<open>Load\<close>

datatype Load = LoadLight | LoadMedium | LoadHeavy | LoadOverloaded

text \<open>The quotient by a positive integer, rounded: enough bits of it and one that says whether there is a remainder.\<close>

definition fdiv_int :: "flt \<Rightarrow> nat \<Rightarrow> flt" where
  "fdiv_int x n =
     (let s = 64 + bitlen n; num = fmant x * 2 ^ s
      in f64 (Flt (2 * (num div int n) + (if int n dvd num then 0 else 1)) (fexp x + s + 1)))"

definition baseHeavy :: "int \<Rightarrow> flt" where
  "baseHeavy s = (if 1 \<le> s \<and> s \<le> 10 then fof (10 * s) else f_zero)"

text \<open>The literal 1.1487.\<close>

definition multStep :: flt where "multStep = Flt 5173284891960489 52"

definition carryCapHeavy :: "int \<Rightarrow> flt" where
  "carryCapHeavy s =
     (if s < 1 then baseHeavy 1 else if s \<le> 10 then baseHeavy s
      else ((\<lambda>c. f64 (fmul c multStep)) ^^ nat (s - 10)) (baseHeavy 10))"

definition LoadFor :: "int \<Rightarrow> flt \<Rightarrow> Load \<times> flt" where
  "LoadFor s carried =
     (let heavy = carryCapHeavy s
      in (if fle carried (fdiv_int heavy 3) then LoadLight
          else if fle carried (fdiv_int (f64 (fmul (Flt 2 0) heavy)) 3) then LoadMedium
          else if fle carried heavy then LoadHeavy
          else LoadOverloaded, heavy))"

definition strength :: "Character \<Rightarrow> int" where
  "strength c = (let s = as_Current (ab_Str (c_Abilities (ch_Core c))) in if s \<le> 0 then 10 else s)"

text \<open>The burden of the top-level items, each with what it holds. A walk deeper than there are rows is a circle.\<close>

definition totalCarriedWeight :: "nat \<Rightarrow> Item list \<Rightarrow> (int \<Rightarrow> Item list) \<Rightarrow> flt option" where
  "totalCarriedWeight fuel topLevel idx = sum_children (\<lambda>w x. f64 (fadd w x)) (recursiveWeight fuel idx) f_zero topLevel"

definition carriedWeight :: "MemoryItemRepo \<Rightarrow> int \<Rightarrow> flt option" where
  "carriedWeight r ownerID =
     (case owned_transitive r ownerID of None \<Rightarrow> None
      | Some rows \<Rightarrow>
          totalCarriedWeight (length (ir_items r) + 4) (filter (\<lambda>it. it_ParentItemID it = 0) rows) (childrenOf rows))"

definition totalWeight :: "Item list \<Rightarrow> flt" where
  "totalWeight items = fold (\<lambda>it w. f64 (fadd w (it_Weight it))) items f_zero"

section \<open>The order of the listing\<close>

fun order_loop :: "(int \<Rightarrow> Item option) \<Rightarrow> int list \<Rightarrow> Item list \<times> int list \<Rightarrow> Item list \<times> int list" where
  "order_loop byID [] st = st"
| "order_loop byID (k # ks) (out, seen) =
     (case byID k of
        Some it \<Rightarrow> order_loop byID ks (if k \<in> set seen then (out, seen) else (out @ [it], k # seen))
      | None \<Rightarrow> order_loop byID ks (out, seen))"

definition orderInventory :: "int list \<Rightarrow> Item list \<Rightarrow> (int \<Rightarrow> Item option) \<Rightarrow> Item list" where
  "orderInventory jsonIDs rows byID =
     (case order_loop byID jsonIDs ([], []) of (out, seen) \<Rightarrow> out @ filter (\<lambda>it. it_ID it \<notin> set seen) rows)"

definition appendOnce :: "int list \<Rightarrow> int \<Rightarrow> int list" where
  "appendOnce ids k = (if k \<in> set ids then ids else ids @ [k])"

section \<open>Coin piles\<close>

definition FlagNoTake :: "64 word" where "FlagNoTake = push_bit 0 1"

definition FlagNoDrop :: "64 word" where "FlagNoDrop = push_bit 1 1"

definition FlagTradeGoodPile :: "64 word" where "FlagTradeGoodPile = push_bit 7 1"

definition coinPilePrefix :: string where "coinPilePrefix = ''coin-pile-''"

definition isCoinPile :: "Item \<Rightarrow> bool" where
  "isCoinPile it = has_prefix (it_ExternalID it) coinPilePrefix"

definition dash :: string where "dash = [CHR 0xE2, CHR 0x80, CHR 0x94]"

definition purse_changed :: string where "purse_changed = yellow (''Your purse just changed '' @ dash @ '' try again.'')"

datatype pickup = Absorbed Amount | PickupRefused string | PickupFailed

definition set_items :: "MemoryItemRepo \<Rightarrow> CarryWorld \<Rightarrow> CarryWorld" where
  "set_items r w = w\<lparr>iw_Items := r\<rparr>"

definition absorbCoinPile :: "Character \<Rightarrow> Item \<Rightarrow> CarryWorld \<Rightarrow> CarryWorld \<times> pickup" where
  "absorbCoinPile char it w =
     (case amount_Add (ch_Coin char) (it_Value it) of
        Inl e \<Rightarrow> (w, PickupRefused (yellow (''You can'' @ not' @ '' carry any more coin.'')))
      | Inr newCoin \<Rightarrow>
          (case repo_RecordCoin (iw_Chars w) (ch_ID char) newCoin (ch_BankBalance char) (ch_CoinVersion char) of
             (chars1, Some e) \<Rightarrow> (w, if e = ErrCoinConflict then PickupRefused purse_changed else PickupFailed)
           | (chars1, None) \<Rightarrow>
               (case item_Delete (iw_Items w) (it_ID it) of
                  (items, Some e) \<Rightarrow>
                    (case repo_RecordCoin chars1 (ch_ID char) (ch_Coin char) (ch_BankBalance char) (i64 (ch_CoinVersion char + 1)) of
                       (chars2, Some e) \<Rightarrow> (set_chars chars1 w, PickupFailed)
                     | (chars2, None) \<Rightarrow>
                         (set_chars chars2 w, PickupRefused (yellow ''The coins slip from your fingers and stay where they were.'')))
                | (items, None) \<Rightarrow> (set_items items (set_chars chars1 w), Absorbed (it_Value it)))))"

section \<open>Get\<close>

fun split_word :: "(string \<Rightarrow> bool) \<Rightarrow> string list \<Rightarrow> string list \<Rightarrow> (string list \<times> string list) option" where
  "split_word P pre [] = None"
| "split_word P pre (t # ts) = (if P t \<and> pre \<noteq> [] \<and> ts \<noteq> [] then Some (pre, ts) else split_word P (pre @ [t]) ts)"

definition splitFromArgs :: "string list \<Rightarrow> string \<times> string \<times> bool" where
  "splitFromArgs args =
     (case split_word (\<lambda>t. to_lower t = ''from'') [] args of
        Some (a, b) \<Rightarrow> (join '' '' a, join '' '' b, True) | None \<Rightarrow> (join '' '' args, [], False))"

definition splitInArgs :: "string list \<Rightarrow> string \<times> string \<times> bool" where
  "splitInArgs args =
     (case split_word (\<lambda>t. to_lower t = ''in'' \<or> to_lower t = ''into'') [] args of
        Some (a, b) \<Rightarrow> (join '' '' a, join '' '' b, True) | None \<Rightarrow> ([], [], False))"

definition too_heavy :: string where
  "too_heavy = yellow (''It'' @ [CHR 0x27] @ ''s too heavy '' @ dash @ '' you can'' @ not' @ '' carry that much.'')"

definition cant_take :: string where "cant_take = yellow (''You can'' @ not' @ '' take that.'')"

text \<open>From the floor.\<close>

definition getFromFloor :: "string \<Rightarrow> sid \<Rightarrow> CarryWorld \<Rightarrow> CarryWorld option" where
  "getFromFloor itemArg i w =
     (let s = sess (iw_Sess w) i
      in case MatchItem (to_lower (trim_space itemArg)) (in_room (iw_Items w) (gs_CurrentRoomID s)) of
           None \<Rightarrow> Some (carry_tell i (yellow (''You don'' @ not' @ '' see that here.'')) w)
         | Some it \<Rightarrow>
             if HasFlag it FlagNoTake then Some (carry_tell i cant_take w)
             else case repo_FindByName (iw_Chars w) (gs_CharacterName s) of
                    Inl e \<Rightarrow> Some (carry_tell i disoriented w)
                  | Inr char \<Rightarrow>
                      let seen = cyan (safeActor (iw_Sess w) i @ '' picks up '' @ it_Name it @ ''.'')
                      in if isCoinPile it then
                           Some (case absorbCoinPile char it w of
                                   (w1, PickupRefused msg) \<Rightarrow> carry_tell i msg w1
                                 | (w1, PickupFailed) \<Rightarrow> carry_tell i (red ''The coins slip from your fingers.'') w1
                                 | (w1, Absorbed amt) \<Rightarrow>
                                     carry_tell i (cyan (''You pick up '' @ it_Name it @ '' ('' @ amount_Format amt @ '') and add it to your purse.''))
                                       (carry_shout i seen w1))
                         else
                           (case carriedWeight (iw_Items w) (gs_CharacterID s) of None \<Rightarrow> None
                            | Some carried \<Rightarrow>
                                Some (if fst (LoadFor (strength char) (f64 (fadd carried (it_Weight it)))) = LoadOverloaded then
                                        carry_tell i too_heavy w
                                      else case TransferRoomToOwner (iw_Items w) (it_ID it) (gs_CurrentRoomID s) (gs_CharacterID s) of
                                             (items, Some e) \<Rightarrow>
                                               carry_tell i (if e = ErrItemMoved \<or> e = ErrItemNotFound then yellow ''Someone else got there first.''
                                                             else red ''It slips from your grasp.'') w
                                           | (items, None) \<Rightarrow>
                                               carry_tell i (cyan (''You pick up '' @ it_Name it @ ''.''))
                                                 (carry_shout i seen
                                                   (set_chars (fst (repo_RecordInventory (iw_Chars w) (gs_CharacterID s)
                                                       (appendOnce (ch_Inventory char) (it_ID it)))) (set_items items w))))))"

text \<open>From a container in the inventory or on the floor.\<close>

definition find_container :: "string \<Rightarrow> sid \<Rightarrow> CarryWorld \<Rightarrow> (Item \<times> bool) option" where
  "find_container target i w =
     (let s = sess (iw_Sess w) i
      in case MatchItem target (in_inventory (iw_Items w) (gs_CharacterID s)) of
           Some it \<Rightarrow> Some (it, False)
         | None \<Rightarrow> if gs_CurrentRoomID s = 0 then None
                   else map_option (\<lambda>it. (it, True)) (MatchItem target (in_room (iw_Items w) (gs_CurrentRoomID s))))"

definition no_container :: string where "no_container = yellow (''You don'' @ not' @ '' see that container here.'')"

definition getFromContainer :: "string \<Rightarrow> string \<Rightarrow> sid \<Rightarrow> CarryWorld \<Rightarrow> CarryWorld option" where
  "getFromContainer itemArg containerArg i w =
     (let s = sess (iw_Sess w) i
      in case find_container (to_lower (trim_space containerArg)) i w of
           None \<Rightarrow> Some (carry_tell i no_container w)
         | Some (container, onFloor) \<Rightarrow>
             if it_Type container \<noteq> ItemTypeContainer then Some (carry_tell i (yellow (''That isn'' @ not' @ '' a container.'')) w)
             else case MatchItem (to_lower (trim_space itemArg)) (in_container (iw_Items w) (it_ID container)) of
                    None \<Rightarrow> Some (carry_tell i (yellow ''There is nothing like that inside.'') w)
                  | Some it \<Rightarrow>
                      if HasFlag it FlagNoTake then Some (carry_tell i cant_take w)
                      else case repo_FindByName (iw_Chars w) (gs_CharacterName s) of
                             Inl e \<Rightarrow> Some (carry_tell i disoriented w)
                           | Inr char \<Rightarrow>
                               let seen = cyan (safeActor (iw_Sess w) i @ '' takes '' @ it_Name it @ '' from '' @ it_Name container @ ''.'')
                               in if isCoinPile it then
                                    Some (case absorbCoinPile char it w of
                                            (w1, PickupRefused msg) \<Rightarrow> carry_tell i msg w1
                                          | (w1, PickupFailed) \<Rightarrow> carry_tell i (red ''The coins slip from your fingers.'') w1
                                          | (w1, Absorbed amt) \<Rightarrow>
                                              carry_tell i (cyan (''You take '' @ it_Name it @ '' ('' @ amount_Format amt @ '') from ''
                                                @ it_Name container @ '' and add it to your purse.'')) (carry_shout i seen w1))
                                  else
                                    (case carriedWeight (iw_Items w) (gs_CharacterID s) of None \<Rightarrow> None
                                     | Some carried \<Rightarrow>
                                         Some (if fst (LoadFor (strength char) (f64 (fadd carried (it_Weight it)))) = LoadOverloaded then
                                                 carry_tell i too_heavy w
                                               else case TransferContainerToOwner (iw_Items w) (it_ID it) (it_ID container) (gs_CharacterID s) of
                                                      (items, Some e) \<Rightarrow>
                                                        carry_tell i (if e = ErrItemMoved \<or> e = ErrItemNotFound then
                                                                        yellow (''It isn'' @ not' @ '' there anymore.'')
                                                                      else red ''It slips from your grasp.'') w
                                                    | (items, None) \<Rightarrow>
                                                        carry_tell i (cyan (''You take '' @ it_Name it @ '' from '' @ it_Name container @ ''.''))
                                                          (carry_shout i seen
                                                            (set_chars (fst (repo_RecordInventory (iw_Chars w) (gs_CharacterID s)
                                                                (appendOnce (ch_Inventory char) (it_ID it)))) (set_items items w))))))"

definition get_verb :: "string list \<Rightarrow> sid \<Rightarrow> CarryWorld \<Rightarrow> CarryWorld option" where
  "get_verb args i w =
     (if gs_CurrentRoomID (sess (iw_Sess w) i) = 0 then Some (carry_tell i (yellow ''There is nothing here to take.'') w)
      else case splitFromArgs args of
             (itemArg, containerArg, True) \<Rightarrow> getFromContainer itemArg containerArg i w
           | (itemArg, containerArg, False) \<Rightarrow> getFromFloor itemArg i w)"

section \<open>Drop\<close>

definition dropped_pile :: "int \<Rightarrow> GameSession \<Rightarrow> Amount \<Rightarrow> Item" where
  "dropped_pile now s amount =
     \<lparr>it_ID = 0, it_ExternalID = coinPilePrefix @ show_int (gs_CharacterID s) @ ''-'' @ show_int now, it_Name = ''a small pile of coins'',
      it_NameLower = [], it_ShortDesc = ''A small pile of coins lies here.'', it_RoomID = gs_CurrentRoomID s, it_OwnerCharacterID = 0,
      it_ParentItemID = 0, it_Type = ItemTypeTradeGood, it_Weight = f_zero, it_Value = amount, it_Quality = QualityOther [],
      it_Flags = FlagTradeGoodPile, it_Stats = NilStats, it_DecayExpiresAt = None\<rparr>"

definition slips :: string where "slips = red ''The coin slips from your fingers.''"

text \<open>The purse the amount leaves, or the refusal.\<close>

definition debit :: "Character \<Rightarrow> Amount \<Rightarrow> string + Amount" where
  "debit actor amount =
     (case amount_Sub (ch_Coin actor) amount of
        Inl e \<Rightarrow> Inl (if e = ErrInsufficientFunds then yellow (''You don'' @ not' @ '' have that much.'')
                      else red ''Something went wrong with the coin.'')
      | Inr c \<Rightarrow> Inr c)"

definition dropCoin :: "int \<Rightarrow> Amount \<Rightarrow> sid \<Rightarrow> CarryWorld \<Rightarrow> CarryWorld" where
  "dropCoin now amount i w =
     (let s = sess (iw_Sess w) i
      in if amount \<le> 0 then carry_tell i (yellow ''You can only drop positive amounts.'') w
         else case repo_FindByName (iw_Chars w) (gs_CharacterName s) of
                Inl e \<Rightarrow> carry_tell i (red (''You can'' @ not' @ '' seem to find your purse.'')) w
              | Inr actor \<Rightarrow>
                  (case debit actor amount of Inl msg \<Rightarrow> carry_tell i msg w
                   | Inr newActor \<Rightarrow>
                       (case repo_RecordCoin (iw_Chars w) (ch_ID actor) newActor (ch_BankBalance actor) (ch_CoinVersion actor) of
                          (chars1, Some e) \<Rightarrow> carry_tell i (if e = ErrCoinConflict then purse_changed else slips) w
                        | (chars1, None) \<Rightarrow>
                            (case item_Create (iw_Items w) (dropped_pile now s amount) of
                               (items, Inl e) \<Rightarrow>
                                 carry_tell i slips (set_chars (fst (repo_RecordCoin chars1 (ch_ID actor) (ch_Coin actor)
                                   (ch_BankBalance actor) (i64 (ch_CoinVersion actor + 1)))) w)
                             | (items, Inr pile) \<Rightarrow>
                                 carry_tell i (cyan (''You drop '' @ amount_Format amount @ ''.''))
                                   (carry_shout i (cyan (safeActor (iw_Sess w) i @ '' drops '' @ amount_Format amount @ ''.''))
                                     (set_items items (set_chars chars1 w)))))))"

text \<open>What follows a transfer out of the inventory: the item is taken off and struck from the order of the listing.\<close>

definition left_hands :: "string \<Rightarrow> (Character \<Rightarrow> int) \<Rightarrow> int \<Rightarrow> MemoryCharacterRepo \<Rightarrow> MemoryCharacterRepo" where
  "left_hands name id_of k chars0 =
     (let chars = autoUnequipIfHeld chars0 name k
      in case repo_FindByName chars name of Inl e \<Rightarrow> chars
         | Inr char \<Rightarrow> fst (repo_RecordInventory chars (id_of char) (removeID (ch_Inventory char) k)))"

definition stuck :: string where "stuck = yellow (''It is stuck to your hand and won'' @ not' @ '' budge.'')"

definition dropItem :: "string \<Rightarrow> sid \<Rightarrow> CarryWorld \<Rightarrow> CarryWorld" where
  "dropItem subject i w =
     (let s = sess (iw_Sess w) i
      in case MatchItem (to_lower subject) (in_inventory (iw_Items w) (gs_CharacterID s)) of
           None \<Rightarrow> carry_tell i arent_carrying w
         | Some it \<Rightarrow>
             if HasFlag it FlagNoDrop then carry_tell i stuck w
             else case TransferOwnerToRoom (iw_Items w) (it_ID it) (gs_CharacterID s) (gs_CurrentRoomID s) of
                    (items, Some e) \<Rightarrow>
                      carry_tell i (if e = ErrItemMoved \<or> e = ErrItemNotFound then arent_carrying
                                    else red (''You can'' @ not' @ '' drop it right now.'')) w
                  | (items, None) \<Rightarrow>
                      carry_tell i (cyan (''You drop '' @ it_Name it @ ''.''))
                        (carry_shout i (cyan (safeActor (iw_Sess w) i @ '' drops '' @ it_Name it @ ''.''))
                          (set_items items (set_chars (left_hands (gs_CharacterName s) (\<lambda>c. gs_CharacterID s) (it_ID it) (iw_Chars w)) w))))"

definition drop_verb :: "int \<Rightarrow> string list \<Rightarrow> sid \<Rightarrow> CarryWorld \<Rightarrow> CarryWorld" where
  "drop_verb now args i w =
     (if gs_CurrentRoomID (sess (iw_Sess w) i) = 0 then carry_tell i (yellow ''There is nowhere to drop it.'') w
      else let subject = trim_space (join '' '' args)
           in case amount_Parse subject of Inr amount \<Rightarrow> dropCoin now amount i w | Inl e \<Rightarrow> dropItem subject i w)"

section \<open>Give\<close>

definition giveCoin :: "Amount \<Rightarrow> sid \<Rightarrow> sid \<Rightarrow> CarryWorld \<Rightarrow> CarryWorld" where
  "giveCoin amount i peer w =
     (if amount \<le> 0 then carry_tell i (yellow ''You can only give positive amounts.'') w
      else case repo_FindByName (iw_Chars w) (gs_CharacterName (sess (iw_Sess w) i)) of
             Inl e \<Rightarrow> carry_tell i (red (''You can'' @ not' @ '' seem to find your purse.'')) w
           | Inr actor \<Rightarrow>
               (case repo_FindByName (iw_Chars w) (gs_CharacterName (sess (iw_Sess w) peer)) of
                  Inl e \<Rightarrow> carry_tell i (red ''They refuse the gift.'') w
                | Inr target \<Rightarrow>
                    (case debit actor amount of Inl msg \<Rightarrow> carry_tell i msg w
                     | Inr newActor \<Rightarrow>
                         (case amount_Add (ch_Coin target) amount of
                            Inl e \<Rightarrow> carry_tell i (yellow (''They can'' @ not' @ '' carry that much coin.'')) w
                          | Inr newTarget \<Rightarrow>
                              (case repo_RecordCoin (iw_Chars w) (ch_ID actor) newActor (ch_BankBalance actor) (ch_CoinVersion actor) of
                                 (chars1, Some e) \<Rightarrow> carry_tell i (if e = ErrCoinConflict then purse_changed else slips) w
                               | (chars1, None) \<Rightarrow>
                                   (case repo_RecordCoin chars1 (ch_ID target) newTarget (ch_BankBalance target) (ch_CoinVersion target) of
                                      (chars2, Some e) \<Rightarrow>
                                        carry_tell i (red ''They drop the coin and you scoop it back up.'')
                                          (set_chars (fst (repo_RecordCoin chars1 (ch_ID actor) (ch_Coin actor) (ch_BankBalance actor)
                                             (i64 (ch_CoinVersion actor + 1)))) w)
                                    | (chars2, None) \<Rightarrow>
                                        carry_tell i (cyan (''You hand '' @ gs_CharacterName (sess (iw_Sess w) peer) @ '' '' @ amount_Format amount @ ''.''))
                                          (carry_tell peer (''{{'' @ safeActor (iw_Sess w) i @ '' hands you '' @ amount_Format amount @ ''.}}::cyan'')
                                            (set_chars chars2 w))))))))"

text \<open>The other sessions of the room hear of the gift; unlike the broadcasts this loop does not ask whether they see the giver.\<close>

definition announce_gift :: "string \<Rightarrow> sid \<Rightarrow> sid \<Rightarrow> CarryWorld \<Rightarrow> CarryWorld" where
  "announce_gift msg i peer w =
     fold (\<lambda>p v. if p = i \<or> p = peer \<or> gs_CurrentRoomID (sess (iw_Sess v) p) \<noteq> gs_CurrentRoomID (sess (iw_Sess v) i) then v
                 else carry_tell p msg v) (Snapshot (iw_Sess w)) w"

definition giveItem :: "string \<Rightarrow> sid \<Rightarrow> sid \<Rightarrow> CarryWorld \<Rightarrow> CarryWorld" where
  "giveItem subject i peer w =
     (let s = sess (iw_Sess w) i; p = sess (iw_Sess w) peer
      in case MatchItem (to_lower (trim_space subject)) (in_inventory (iw_Items w) (gs_CharacterID s)) of
           None \<Rightarrow> carry_tell i arent_carrying w
         | Some it \<Rightarrow>
             if HasFlag it FlagNoDrop then carry_tell i stuck w
             else case repo_FindByName (iw_Chars w) (gs_CharacterName p) of
                    Inl e \<Rightarrow> carry_tell i (red ''They refuse the gift.'') w
                  | Inr peerChar \<Rightarrow>
                      if fst (LoadFor (strength peerChar) (f64 (fadd (totalWeight (in_inventory (iw_Items w) (gs_CharacterID p)))
                           (it_Weight it)))) = LoadOverloaded
                      then carry_tell i (yellow (''They couldn'' @ not' @ '' carry that.'')) w
                      else case TransferOwnerToOwner (iw_Items w) (it_ID it) (gs_CharacterID s) (gs_CharacterID p) of
                             (items, Some e) \<Rightarrow>
                               carry_tell i (if e = ErrItemMoved \<or> e = ErrItemNotFound then arent_carrying
                                             else red ''It slips between you.'') w
                           | (items, None) \<Rightarrow>
                               let w1 = set_items items (set_chars
                                     (fst (repo_RecordInventory (left_hands (gs_CharacterName s) ch_ID (it_ID it) (iw_Chars w)) (ch_ID peerChar)
                                        (appendOnce (ch_Inventory peerChar) (it_ID it)))) w);
                                   actor = safeActor (iw_Sess w) i
                               in carry_tell i (cyan (''You give '' @ it_Name it @ '' to '' @ gs_CharacterName p @ ''.''))
                                    (announce_gift (''{{'' @ actor @ '' gives '' @ it_Name it @ '' to '' @ gs_CharacterName p @ ''.}}::cyan'') i peer
                                      (carry_tell peer (''{{'' @ actor @ '' gives you '' @ it_Name it @ ''.}}::cyan'') w1)))"

definition give_verb :: "string list \<Rightarrow> sid \<Rightarrow> CarryWorld \<Rightarrow> CarryWorld" where
  "give_verb args i w =
     (case FindByCharacterName (List.last args) (iw_Sess w) of
        None \<Rightarrow> carry_tell i (yellow ''There is no one by that name here.'') w
      | Some peer \<Rightarrow>
          let room = gs_CurrentRoomID (sess (iw_Sess w) i); subject = join '' '' (butlast args)
          in if peer = i then carry_tell i (yellow ''You hand it to yourself. Nothing happens.'') w
             else if gs_CurrentRoomID (sess (iw_Sess w) peer) \<noteq> room \<or> room = 0 then
               carry_tell i (yellow (''They aren'' @ not' @ '' here.'')) w
             else case amount_Parse subject of
                    Inr amount \<Rightarrow> giveCoin amount i peer w | Inl e \<Rightarrow> giveItem subject i peer w)"

section \<open>Put\<close>

text \<open>Everything below a container, level by level. Each level that is not empty adds a row, so there are at most as many as rows.\<close>

fun view_kids :: "Item list \<Rightarrow> int list \<times> Item list \<times> int list \<Rightarrow> int list \<times> Item list \<times> int list" where
  "view_kids [] st = st"
| "view_kids (k # ks) (seen, found, deeper) =
     view_kids ks (if it_ID k \<in> set seen then (seen, found, deeper) else (it_ID k # seen, found @ [k], deeper @ [it_ID k]))"

fun view_level :: "MemoryItemRepo \<Rightarrow> int list \<Rightarrow> int list \<times> Item list \<times> int list \<Rightarrow> int list \<times> Item list \<times> int list" where
  "view_level r [] st = st"
| "view_level r (k # ks) st = view_level r ks (view_kids (in_container r k) st)"

fun view_loop :: "nat \<Rightarrow> MemoryItemRepo \<Rightarrow> int list \<Rightarrow> int list \<Rightarrow> Item list \<Rightarrow> Item list option" where
  "view_loop 0 r front seen found = None"
| "view_loop (Suc n) r front seen found =
     (if front = [] then Some found
      else case view_level r front (seen, found, []) of (seen', found', deeper) \<Rightarrow> view_loop n r deeper seen' found')"

definition transitiveContainerView :: "MemoryItemRepo \<Rightarrow> int \<Rightarrow> Item list option" where
  "transitiveContainerView r parentID = view_loop (length (ir_items r) + 2) r [parentID] [parentID] []"

definition put_refusal :: "putRefusal \<Rightarrow> string" where
  "put_refusal p =
     (case p of
        putOK \<Rightarrow> []
      | putNotAContainer \<Rightarrow> yellow (''You can'' @ not' @ '' put things in that.'')
      | putNoStats \<Rightarrow> yellow (''It isn'' @ not' @ '' shaped to hold anything.'')
      | putLiquidContainer \<Rightarrow> yellow (''It'' @ [CHR 0x27] @ ''s not the right shape for that.'')
      | putSelf \<Rightarrow> yellow (''You can'' @ not' @ '' put it in itself.'')
      | putCycle \<Rightarrow> yellow ''That would loop back on itself.''
      | putTooDeep \<Rightarrow> yellow (''It'' @ [CHR 0x27] @ ''s already nested too deeply.'')
      | putTooHeavy \<Rightarrow> yellow (''It can'' @ not' @ '' hold any more.''))"

text \<open>The rows the check sees: what the character owns, and what is in and below a container on the floor.\<close>

definition known_rows :: "MemoryItemRepo \<Rightarrow> int \<Rightarrow> Item \<Rightarrow> bool \<Rightarrow> Item list option" where
  "known_rows r charID container onFloor =
     (case owned_transitive r charID of None \<Rightarrow> None
      | Some rows \<Rightarrow>
          if onFloor then map_option (\<lambda>view. rows @ view @ [container]) (transitiveContainerView r (it_ID container))
          else Some rows)"

definition put_commit :: "Item \<Rightarrow> Item \<Rightarrow> sid \<Rightarrow> CarryWorld \<Rightarrow> CarryWorld" where
  "put_commit it container i w =
     (let s = sess (iw_Sess w) i
      in case TransferOwnerToContainer (iw_Items w) (it_ID it) (gs_CharacterID s) (it_ID container) of
           (items, Some e) \<Rightarrow>
             carry_tell i (if e = ErrItemMoved \<or> e = ErrItemNotFound then yellow (''It'' @ [CHR 0x27] @ ''s not where you thought it was.'')
                           else red ''It slips from your grasp.'') w
         | (items, None) \<Rightarrow>
             carry_tell i (cyan (''You put '' @ it_Name it @ '' in '' @ it_Name container @ ''.''))
               (carry_shout i (cyan (safeActor (iw_Sess w) i @ '' puts '' @ it_Name it @ '' in '' @ it_Name container @ ''.''))
                 (set_items items (set_chars (left_hands (gs_CharacterName s) (\<lambda>c. gs_CharacterID s) (it_ID it) (iw_Chars w)) w))))"

definition put_verb :: "string list \<Rightarrow> sid \<Rightarrow> CarryWorld \<Rightarrow> CarryWorld option" where
  "put_verb args i w =
     (let s = sess (iw_Sess w) i
      in case splitInArgs args of
           (itemArg, containerArg, False) \<Rightarrow> Some (carry_tell i (yellow ''Usage: put <item> in <container>'') w)
         | (itemArg, containerArg, True) \<Rightarrow>
             (case MatchItem (to_lower (trim_space itemArg)) (in_inventory (iw_Items w) (gs_CharacterID s)) of
                None \<Rightarrow> Some (carry_tell i arent_carrying w)
              | Some it \<Rightarrow>
                  (case find_container (to_lower (trim_space containerArg)) i w of
                     None \<Rightarrow> Some (carry_tell i no_container w)
                   | Some (container, onFloor) \<Rightarrow>
                       if it_ID it = it_ID container then Some (carry_tell i (put_refusal putSelf) w)
                       else if onFloor \<and> HasFlag it FlagNoDrop then Some (carry_tell i stuck w)
                       else case known_rows (iw_Items w) (gs_CharacterID s) container onFloor of None \<Rightarrow> None
                            | Some known \<Rightarrow>
                                (case canPut (length (ir_items (iw_Items w)) + 4) container it known (byID_of known) of
                                   None \<Rightarrow> None
                                 | Some putOK \<Rightarrow> Some (put_commit it container i w)
                                 | Some refusal \<Rightarrow> Some (carry_tell i (put_refusal refusal) w)))))"

end
