(* ===== verification/Carrying.thy ===== *)
theory Carrying
  imports Inventory
begin

text \<open>
  What the carrying verbs of \<open>Inventory\<close> and \<open>Gear\<close> guarantee together. Each verb is shown to be one step of an abstract relation
  on items and characters; the steps keep coin, nesting, and the rule that nothing is worn or wielded that is not carried.
\<close>

section \<open>The relation\<close>

definition worth :: "Character \<Rightarrow> int" where "worth c = ch_Coin c + ch_BankBalance c"

definition purses :: "MemoryCharacterRepo \<Rightarrow> int" where
  "purses r = sum_list (map (\<lambda>p. worth (snd p)) (mr_byLower r))"

definition piles :: "MemoryItemRepo \<Rightarrow> int" where
  "piles r = sum_list (map it_Value (filter isCoinPile (ir_items r)))"

text \<open>All coin of the world: purses, accounts and piles.\<close>

definition wealth :: "CarryWorld \<Rightarrow> int" where "wealth w = purses (iw_Chars w) + piles (iw_Items w)"

definition in_pack :: "MemoryItemRepo \<Rightarrow> int \<Rightarrow> int \<Rightarrow> bool" where
  "in_pack r owner k \<longleftrightarrow> owner \<noteq> 0 \<and> (\<exists>it. item_GetByID r k = Inr it \<and> it_OwnerCharacterID it = owner \<and> it_ParentItemID it = 0)"

text \<open>What a slot holds is carried at top level, and no item is in two slots.\<close>

definition geared :: "MemoryItemRepo \<Rightarrow> Character \<Rightarrow> bool" where
  "geared r c \<longleftrightarrow> equip.single (ch_Equipment c)
     \<and> (\<forall>slot. equip_Get (ch_Equipment c) slot \<noteq> 0 \<longrightarrow> in_pack r (ch_ID c) (equip_Get (ch_Equipment c) slot))"

definition gear_ok :: "MemoryItemRepo \<Rightarrow> MemoryCharacterRepo \<Rightarrow> bool" where
  "gear_ok r chars \<longleftrightarrow> (\<forall>i c. repo_GetByID chars i = Inr c \<longrightarrow> geared r c)"

text \<open>The id behind a name.\<close>

definition who :: "MemoryCharacterRepo \<Rightarrow> string \<Rightarrow> int option" where
  "who r n = map_option ch_ID (map_of (mr_byLower r) (to_lower n))"

text \<open>The amounts are \<open>int64\<close> values.\<close>

definition coin_range :: "MemoryCharacterRepo \<Rightarrow> bool" where
  "coin_range r \<longleftrightarrow> (\<forall>i c. repo_GetByID r i = Inr c \<longrightarrow> in_range 64 (ch_Coin c))"

definition value_range :: "MemoryItemRepo \<Rightarrow> bool" where
  "value_range r \<longleftrightarrow> (\<forall>k i. item_GetByID r k = Inr i \<longrightarrow> in_range 64 (it_Value i))"

text \<open>Two states of the character store that differ in nothing the gear depends on.\<close>

definition same_gear :: "MemoryCharacterRepo \<Rightarrow> MemoryCharacterRepo \<Rightarrow> bool" where
  "same_gear r r' \<longleftrightarrow> who r' = who r \<and> (repo_ok r \<longrightarrow> repo_ok r') \<and> (coin_range r \<longrightarrow> coin_range r')
     \<and> (\<forall>i. case repo_GetByID r i of Inl e \<Rightarrow> repo_GetByID r' i = Inl e
          | Inr c \<Rightarrow> (\<exists>c'. repo_GetByID r' i = Inr c' \<and> ch_Equipment c' = ch_Equipment c \<and> ch_ID c' = ch_ID c))"

text \<open>Everything below an item of the pack is short enough for the container.\<close>

definition fits_below :: "Item list \<Rightarrow> int \<Rightarrow> int \<Rightarrow> bool" where
  "fits_below items k parent \<longleftrightarrow> depth_ok (put_in items k parent)"

inductive carry_move ::
    "MemoryItemRepo \<times> MemoryCharacterRepo \<Rightarrow> MemoryItemRepo \<times> MemoryCharacterRepo \<Rightarrow> bool" where
  books: "same_gear C C' \<Longrightarrow> purses C' = purses C \<Longrightarrow> carry_move (I, C) (I, C')"
| don: "repo_GetByID C j = Inr c \<Longrightarrow> in_pack I j k \<Longrightarrow> k \<noteq> 0 \<Longrightarrow> named_slot slot \<Longrightarrow> FindByItem (ch_Equipment c) k = None \<Longrightarrow>
    carry_move (I, C) (I, fst (repo_RecordEquipment C j (fst (equip_Set (ch_Equipment c) slot k))))"
| doff: "repo_GetByID C j = Inr c \<Longrightarrow>
    carry_move (I, C) (I, fst (repo_RecordEquipment C j (fst (ClearItem (ch_Equipment c) k))))"
| absorb: "item_GetByID I k = Inr it \<Longrightarrow> isCoinPile it \<Longrightarrow> it_OwnerCharacterID it = 0 \<Longrightarrow> same_gear C C' \<Longrightarrow>
    purses C' = purses C + it_Value it \<Longrightarrow> carry_move (I, C) (fst (item_Delete I k), C')"
| spill: "item_Create I pile = (I', Inr p) \<Longrightarrow> isCoinPile pile \<Longrightarrow> it_ID pile = 0 \<Longrightarrow> it_OwnerCharacterID pile = 0 \<Longrightarrow>
    it_ParentItemID pile = 0 \<Longrightarrow> in_range 64 (it_Value pile) \<Longrightarrow> same_gear C C' \<Longrightarrow> purses C' = purses C - it_Value pile \<Longrightarrow> carry_move (I, C) (I', C')"
| take_up: "owner \<noteq> 0 \<Longrightarrow> same_gear C C' \<Longrightarrow> purses C' = purses C \<Longrightarrow>
    carry_move (I, C) (fst (item_at I k (move_from room 0 parent 0 owner 0)), C')"
| leave: "item_at I k (move_from 0 owner 0 room owner' parent) = (I', None) \<Longrightarrow> owner \<noteq> 0 \<Longrightarrow>
    repo_FindByName C name = Inr c \<Longrightarrow> ch_ID c = owner \<Longrightarrow> room = 0 \<and> parent = 0 \<or> owner' = 0 \<and> (room = 0 \<or> parent = 0) \<Longrightarrow>
    parent = 0 \<or> fits_below (ir_items I) k parent \<Longrightarrow> same_gear (autoUnequipIfHeld C name k) C' \<Longrightarrow> purses C' = purses C \<Longrightarrow>
    carry_move (I, C) (I', C')"

definition carry_inv :: "MemoryItemRepo \<times> MemoryCharacterRepo \<Rightarrow> bool" where
  "carry_inv s \<longleftrightarrow> (case s of (I, C) \<Rightarrow> repo_ok C \<and> items_ok I \<and> depth_ok (ir_items I) \<and> gear_ok I C \<and> coin_range C \<and> value_range I)"

section \<open>Purses and piles\<close>

lemma purse_put:
  "get_row rs i = Some c \<Longrightarrow>
   sum_list (map (\<lambda>p. worth (snd p)) (put_row rs i d)) = sum_list (map (\<lambda>p. worth (snd p)) rs) - worth c + worth d"
  by (induction rs i d rule: put_row.induct) (auto split: if_splits)

lemma purses_at:
  "repo_GetByID r i = Inr c \<Longrightarrow> f c = Inr d \<Longrightarrow> purses (fst (record_at r i f)) = purses r - worth c + worth d"
  by (simp add: GetByID_Inr record_at_def purses_def purse_put)

lemma purses_same:
  assumes "\<And>c d. f c = Inr d \<Longrightarrow> worth d = worth c"
  shows "purses (fst (record_at r i f)) = purses r"
proof (cases "repo_GetByID r i")
  case (Inr c)
  show ?thesis
  proof (cases "f c")
    case (Inr d)
    then show ?thesis using purses_at [of r i c f d] assms \<open>repo_GetByID r i = Inr c\<close> by simp
  next
    case (Inl e)
    then show ?thesis using char_store.refused [OF Inr, of f e] by simp
  qed
next
  case (Inl e)
  then show ?thesis using char_store.missing [OF Inl, of f] by simp
qed

lemma piles_remove:
  "find_item is k = Some i \<Longrightarrow>
   sum_list (map it_Value (filter isCoinPile (remove_item is k))) =
     sum_list (map it_Value (filter isCoinPile is)) - (if isCoinPile i then it_Value i else 0)"
  by (induction "is" k rule: remove_item.induct) (auto split: if_splits)

lemma piles_set:
  "find_item is k = Some i \<Longrightarrow> it_Value j = it_Value i \<Longrightarrow> it_ExternalID j = it_ExternalID i \<Longrightarrow>
   sum_list (map it_Value (filter isCoinPile (set_item is k j))) = sum_list (map it_Value (filter isCoinPile is))"
  by (induction "is" k j rule: set_item.induct) (auto simp: isCoinPile_def split: if_splits)

lemma piles_move: "piles (fst (item_at r k (move_from a b c d e f))) = piles r"
  by (auto simp: piles_def item_at_def move_from_def at_place_def piles_set split: option.splits)

section \<open>Moves keep the invariant\<close>

lemma equip_keeps: "keeps_identity (\<lambda>c. Inr (c\<lparr>ch_Equipment := eq\<rparr>))"
  by (simp add: keeps_identity_def)

lemma equip_rows:
  "repo_GetByID (fst (repo_RecordEquipment r i eq)) j =
     (case repo_GetByID r j of Inl e \<Rightarrow> Inl e | Inr c \<Rightarrow> Inr (if j = i then c\<lparr>ch_Equipment := eq\<rparr> else c))"
  unfolding repo_RecordEquipment_def by (simp add: char_store.get_upd [OF equip_keeps] split: sum.split)

lemma equip_books:
  "purses (fst (repo_RecordEquipment r i eq)) = purses r" "repo_ok r \<Longrightarrow> repo_ok (fst (repo_RecordEquipment r i eq))"
  unfolding repo_RecordEquipment_def by (rule purses_same) (auto simp: worth_def intro: record_at_ok [OF _ equip_keeps])

lemma equip_range: "coin_range r \<Longrightarrow> coin_range (fst (repo_RecordEquipment r i eq))"
  by (auto simp: coin_range_def equip_rows split: sum.splits if_splits)

lemma row_id: "repo_GetByID r i = Inr c \<Longrightarrow> ch_ID c = i"
  using get_row_SomeD by (auto simp: GetByID_Inr)

lemma geared_same: "geared r c \<Longrightarrow> ch_Equipment d = ch_Equipment c \<Longrightarrow> ch_ID d = ch_ID c \<Longrightarrow> geared r d"
  by (simp add: geared_def)

lemma same_gear_row:
  assumes "same_gear C C'" "repo_GetByID C' i = Inr d"
  shows "\<exists>c. repo_GetByID C i = Inr c \<and> ch_Equipment d = ch_Equipment c \<and> ch_ID d = ch_ID c"
proof (cases "repo_GetByID C i")
  case (Inl e)
  with assms show ?thesis unfolding same_gear_def by (elim conjE) (drule_tac spec [of _ i], simp)
next
  case (Inr c)
  with assms show ?thesis unfolding same_gear_def by (elim conjE) (drule_tac spec [of _ i], auto)
qed

lemma same_gear_refl [simp]: "same_gear C C"
  by (simp add: same_gear_def split: sum.split)

lemma same_gear_trans: "same_gear C D \<Longrightarrow> same_gear D E \<Longrightarrow> same_gear C E"
proof -
  assume a: "same_gear C D" and b: "same_gear D E"
  have "case repo_GetByID C i of Inl e \<Rightarrow> repo_GetByID E i = Inl e
      | Inr c \<Rightarrow> \<exists>c'. repo_GetByID E i = Inr c' \<and> ch_Equipment c' = ch_Equipment c \<and> ch_ID c' = ch_ID c" for i
  proof (cases "repo_GetByID C i")
    case (Inl e)
    with a have "repo_GetByID D i = Inl e" by (simp add: same_gear_def split: sum.splits)
    with b Inl show ?thesis by (simp add: same_gear_def split: sum.splits)
  next
    case (Inr c)
    with a obtain d where d: "repo_GetByID D i = Inr d" "ch_Equipment d = ch_Equipment c" "ch_ID d = ch_ID c"
      by (fastforce simp: same_gear_def split: sum.splits)
    with b obtain e where "repo_GetByID E i = Inr e" "ch_Equipment e = ch_Equipment d" "ch_ID e = ch_ID d"
      by (fastforce simp: same_gear_def split: sum.splits)
    with d Inr show ?thesis by simp
  qed
  with a b show ?thesis by (simp add: same_gear_def)
qed

lemma who_put: "ch_ID d = i \<Longrightarrow> map_option ch_ID (map_of (put_row rs i d) k) = map_option ch_ID (map_of rs k)"
  by (induction rs i d rule: put_row.induct) auto

lemma who_at: "keeps_identity f \<Longrightarrow> who (fst (record_at r i f)) = who r"
proof
  fix n
  assume k: "keeps_identity f"
  show "who (fst (record_at r i f)) n = who r n"
  proof (cases "get_row (mr_byLower r) i")
    case (Some c)
    show ?thesis
    proof (cases "f c")
      case (Inr d)
      then have "ch_ID d = i" using k get_row_SomeD [OF Some] by (auto simp: keeps_identity_def)
      from who_put [OF this] show ?thesis by (simp add: who_def record_at_def Some Inr)
    qed (simp add: record_at_def Some)
  qed (simp add: record_at_def)
qed

lemma same_gear_at:
  assumes "keeps_identity f" "\<And>c d. f c = Inr d \<Longrightarrow> ch_Equipment d = ch_Equipment c"
    and "\<And>c d. f c = Inr d \<Longrightarrow> in_range 64 (ch_Coin c) \<Longrightarrow> in_range 64 (ch_Coin d)"
  shows "same_gear r (fst (record_at r i f))"
proof -
  have "coin_range r \<Longrightarrow> coin_range (fst (record_at r i f))"
    using assms(3) by (fastforce simp: coin_range_def char_store.get_upd [OF assms(1)] split: sum.splits if_splits)
  moreover have "ch_ID d = ch_ID c" if "f c = Inr d" for c d using assms(1) that by (simp add: keeps_identity_def)
  ultimately show ?thesis
    using assms(2) who_at [OF assms(1)] record_at_ok [OF _ assms(1)]
    by (auto simp: same_gear_def char_store.get_upd [OF assms(1)] split: sum.split)
qed

lemma same_gear_coin: "in_range 64 coin \<Longrightarrow> same_gear r (fst (repo_RecordCoin r i coin bank v))"
  unfolding repo_RecordCoin_def by (rule same_gear_at [OF coin_keeps]) (auto simp: coin_write_def split: if_splits)

lemma same_gear_inventory: "same_gear r (fst (repo_RecordInventory r i ids))" "purses (fst (repo_RecordInventory r i ids)) = purses r"
  unfolding repo_RecordInventory_def
  by (rule same_gear_at) (auto simp: keeps_identity_def worth_def intro: purses_same)

lemma gear_same: "gear_ok r C \<Longrightarrow> same_gear C C' \<Longrightarrow> gear_ok r C'"
  unfolding gear_ok_def using same_gear_row geared_same by metis

text \<open>Only what an item in a pack is matters for the gear.\<close>

lemma gear_mono: "gear_ok r C \<Longrightarrow> (\<And>i k. in_pack r i k \<Longrightarrow> in_pack r' i k) \<Longrightarrow> gear_ok r' C"
  by (simp add: gear_ok_def geared_def)

lemma move_row:
  "item_GetByID (fst (item_at r k (move_from a b c d e f))) j =
     (if j = k then case item_GetByID r k of Inl x \<Rightarrow> Inl x
        | Inr i \<Rightarrow> Inr (if it_RoomID i = a \<and> it_OwnerCharacterID i = b \<and> it_ParentItemID i = c then at_place i d e f else i)
      else item_GetByID r j)"
  by (cases "item_GetByID r k") (simp_all add: item_store.get_upd [OF move_stable] move_from_def)

lemma move_ok:
  "items_ok r \<Longrightarrow> d = 0 \<and> e = 0 \<or> d = 0 \<and> f = 0 \<or> e = 0 \<and> f = 0 \<Longrightarrow> items_ok (fst (item_at r k (move_from a b c d e f)))"
  by (rule item_at_ok [OF _ move_stable]) (auto simp: move_from_def at_place_ok split: if_splits)

lemma don_gear:
  assumes "gear_ok r C" "repo_GetByID C j = Inr c" "in_pack r j k" "k \<noteq> 0" "named_slot slot" "FindByItem (ch_Equipment c) k = None"
  shows "gear_ok r (fst (repo_RecordEquipment C j (fst (equip_Set (ch_Equipment c) slot k))))"
proof -
  let ?e = "fst (equip_Set (ch_Equipment c) slot k)"
  have g: "geared r c" using assms(1,2) by (simp add: gear_ok_def)
  have fresh: "\<forall>x. equip_Get (ch_Equipment c) x \<noteq> k" using equip.find_None [OF assms(6)] assms(4) by blast
  have "equip.single ?e" using equip.single_upd [of "ch_Equipment c" k slot] g fresh assms(5) by (simp add: geared_def)
  moreover have "in_pack r j (equip_Get ?e x)" if "equip_Get ?e x \<noteq> 0" for x
  proof (cases "x = slot")
    case True
    then show ?thesis using equip.get_same [OF assms(5)] assms(3) by simp
  next
    case False
    then have "equip_Get ?e x = equip_Get (ch_Equipment c) x" using equip.get_other by metis
    then show ?thesis using that g row_id [OF assms(2)] by (simp add: geared_def)
  qed
  ultimately have "geared r (c\<lparr>ch_Equipment := ?e\<rparr>)" using row_id [OF assms(2)] by (simp add: geared_def)
  with assms(1,2) show ?thesis by (auto simp: gear_ok_def equip_rows split: sum.splits)
qed

lemma cleared:
  assumes "geared r c"
  shows "geared r (c\<lparr>ch_Equipment := fst (ClearItem (ch_Equipment c) k)\<rparr>)"
proof -
  let ?e = "fst (ClearItem (ch_Equipment c) k)"
  have same: "equip_Get ?e x = equip_Get (ch_Equipment c) x" if "equip_Get ?e x \<noteq> 0" for x
    using that equip.get_other equip.get_same equip.find_Some
    by (auto simp: ClearItem_clear equip.clear_def split: option.splits) metis
  have "in_pack r (ch_ID c) (equip_Get ?e x)" if "equip_Get ?e x \<noteq> 0" for x
    using that assms unfolding same [OF that] by (simp add: geared_def)
  moreover have "equip.single ?e" using assms equip.clear_single by (simp add: geared_def ClearItem_clear)
  ultimately show ?thesis by (simp add: geared_def)
qed

lemma doff_gear:
  "gear_ok r C \<Longrightarrow> repo_GetByID C j = Inr c \<Longrightarrow> gear_ok r (fst (repo_RecordEquipment C j (fst (ClearItem (ch_Equipment c) k))))"
  using cleared by (auto simp: gear_ok_def equip_rows split: sum.splits)

text \<open>Leaving the pack: what was worn is taken off, so the row that moved is in no slot.\<close>

lemma unequip_named:
  assumes "repo_ok C" "repo_FindByName C name = Inr c"
  shows "autoUnequipIfHeld C name k =
      (if snd (ClearItem (ch_Equipment c) k) = None then C
       else fst (repo_RecordEquipment C (ch_ID c) (fst (ClearItem (ch_Equipment c) k))))"
    "repo_GetByID C (ch_ID c) = Inr c"
  using assms named_row by (auto simp: autoUnequipIfHeld_def split: prod.split option.split)

lemma leave_gear:
  assumes "repo_ok C" "gear_ok r C" "repo_FindByName C name = Inr c" "ch_ID c = owner" "k \<noteq> 0"
    and "\<And>i j. in_pack r i j \<Longrightarrow> j \<noteq> k \<Longrightarrow> in_pack r' i j" "\<And>i. in_pack r i k \<Longrightarrow> i = owner"
  shows "gear_ok r' (autoUnequipIfHeld C name k)"
  unfolding gear_ok_def
proof (intro allI impI)
  fix i d
  assume d: "repo_GetByID (autoUnequipIfHeld C name k) i = Inr d"
  note u = unequip_named(1) [OF assms(1,3), of k] unequip_named(2) [OF assms(1,3)]
  have g: "geared r x" if "repo_GetByID C j = Inr x" for j x using assms(2) that by (simp add: gear_ok_def)
  have c: "equip.single (ch_Equipment c)" using g [OF u(2)] by (simp add: geared_def)
  have off: "equip_Get (fst (ClearItem (ch_Equipment c) k)) x \<noteq> k" for x
    using equip.clear_removes [OF c assms(5)] by (simp add: ClearItem_clear)
  have none: "fst (ClearItem (ch_Equipment c) k) = ch_Equipment c" if "snd (ClearItem (ch_Equipment c) k) = None"
    using that by (auto simp: ClearItem_def split: option.splits)
  have key: "geared r d \<and> (\<forall>x. equip_Get (ch_Equipment d) x \<noteq> k)"
  proof (cases "i = owner")
    case True
    then have "ch_Equipment d = fst (ClearItem (ch_Equipment c) k)" "ch_ID d = ch_ID c"
      using d u assms(4) none by (auto simp: equip_rows split: if_splits)
    moreover have "geared r (c\<lparr>ch_Equipment := fst (ClearItem (ch_Equipment c) k)\<rparr>)" by (rule cleared [OF g [OF u(2)]])
    ultimately show ?thesis using off by (simp add: geared_def)
  next
    case False
    then have "repo_GetByID C i = Inr d" using d u(1) assms(4) by (auto simp: equip_rows split: if_splits sum.splits)
    then have gd: "geared r d" and id: "ch_ID d = i" using g row_id by simp_all
    then have "equip_Get (ch_Equipment d) x \<noteq> k" for x
      using assms(5,7) False by (auto simp: geared_def)
    with gd show ?thesis by blast
  qed
  then show "geared r' d" using assms(6) by (simp add: geared_def)
qed

section \<open>Chains of containers\<close>

definition parent_in :: "MemoryItemRepo \<Rightarrow> int \<Rightarrow> int option" where
  "parent_in r k = (case item_GetByID r k of Inl e \<Rightarrow> None | Inr i \<Rightarrow> if it_ParentItemID i = 0 then None else Some (it_ParentItemID i))"

lemma find_of_row: "distinct (map it_ID is) \<Longrightarrow> i \<in> set is \<Longrightarrow> find_item is (it_ID i) = Some i"
  by (induction "is") (auto simp: image_iff)

lemma up_parent:
  assumes "items_ok r"
  shows "up (byID_of (ir_items r)) = parent_in r"
proof
  fix k
  have d: "distinct (map it_ID (ir_items r))" using assms by (simp add: items_ok_def)
  show "up (byID_of (ir_items r)) k = parent_in r k"
  proof (cases "find_item (ir_items r) k")
    case (Some i)
    then have "byID_of (ir_items r) k = Some i" using find_item_SomeD byID_of_row [OF d] by blast
    with Some show ?thesis by (simp add: up_def parent_in_def item_GetByID_def)
  next
    case None
    have "byID_of (ir_items r) k = None"
    proof (rule ccontr)
      assume "byID_of (ir_items r) k \<noteq> None"
      then obtain i where "byID_of (ir_items r) k = Some i" by blast
      then show False using byID_of_row [OF d] find_of_row [OF d] None by fastforce
    qed
    with None show ?thesis by (simp add: up_def parent_in_def item_GetByID_def)
  qed
qed

lemma ups_sub: "(\<And>k p. u' k = Some p \<Longrightarrow> u k = Some p) \<Longrightarrow> ups u' n k = Some z \<Longrightarrow> ups u n k = Some z"
  by (induction n arbitrary: k) (auto split: option.splits)

lemma depth_sub:
  assumes "items_ok r" "items_ok r'" "depth_ok (ir_items r)" "\<And>k p. parent_in r' k = Some p \<Longrightarrow> parent_in r k = Some p"
  shows "depth_ok (ir_items r')"
  using assms(3) ups_sub [of "parent_in r'" "parent_in r" 4] assms(4)
  by (auto simp: depth_ok_def up_parent [OF assms(1)] up_parent [OF assms(2)]) (metis option.exhaust)

lemma set_item_put_in:
  "distinct (map it_ID is) \<Longrightarrow> find_item is k = Some i \<Longrightarrow> set_item is k (at_place i 0 0 p) = put_in is k p"
proof (induction "is")
  case (Cons x xs)
  have other: "put_in xs k p = xs" if "k \<notin> it_ID ` set xs"
    using that by (induction xs) (auto simp: put_in_def)
  from Cons other show ?case by (auto simp: put_in_def split: if_splits)
qed simp

section \<open>Every move keeps the invariant\<close>

lemma delete_row: "items_ok r \<Longrightarrow> item_GetByID (fst (item_Delete r k)) j = (if j = k then Inl ErrItemNotFound else item_GetByID r j)"
proof (cases "find_item (ir_items r) k")
  case (Some i)
  assume ok: "items_ok r"
  have "find_item (remove_item is k) j = (if j = k then None else find_item is j)" if "distinct (map it_ID is)" for "is"
  proof -
    have "k \<notin> it_ID ` set xs \<Longrightarrow> find_item xs k = None" for xs by (induction xs) auto
    with that show ?thesis by (induction "is" k rule: remove_item.induct) (auto simp: image_iff)
  qed
  with ok Some show ?thesis by (simp add: item_Delete_def item_GetByID_def items_ok_def)
qed (simp add: item_Delete_def item_GetByID_def)

lemma books_inv: "carry_inv (I, C) \<Longrightarrow> same_gear C C' \<Longrightarrow> carry_inv (I, C')"
  using gear_same by (auto simp: carry_inv_def same_gear_def)

lemma take_inv:
  assumes "carry_inv (I, C)" "owner \<noteq> 0"
  shows "carry_inv (fst (item_at I k (move_from room 0 parent 0 owner 0)), C)"
proof -
  let ?I = "fst (item_at I k (move_from room 0 parent 0 owner 0))"
  have i: "items_ok I" "depth_ok (ir_items I)" "gear_ok I C" using assms(1) by (simp_all add: carry_inv_def)
  have ok: "items_ok ?I" by (rule move_ok [OF i(1)]) simp
  have z: "it_OwnerCharacterID (at_place x a b c) = b" "it_ParentItemID (at_place x a b c) = c" for x a b c
    by (simp_all add: at_place_def)
  have "depth_ok (ir_items ?I)"
    by (rule depth_sub [OF i(1) ok i(2)]) (auto simp: parent_in_def move_row z split: sum.splits if_splits)
  moreover have "gear_ok ?I C"
  proof (rule gear_mono [OF i(3)])
    fix a j
    assume p: "in_pack I a j"
    show "in_pack ?I a j"
    proof (cases "j = k")
      case True
      then show ?thesis using p assms(2) by (auto simp: in_pack_def move_row z split: sum.splits)
    qed (use p in \<open>simp add: in_pack_def move_row\<close>)
  qed
  moreover have "value_range ?I"
    using assms(1) by (fastforce simp: carry_inv_def value_range_def move_row at_place_def split: sum.splits if_splits)
  ultimately show ?thesis using assms(1) ok by (simp add: carry_inv_def)
qed

lemma leave_inv:
  assumes "carry_inv (I, C)" "item_at I k (move_from 0 owner 0 room owner' parent) = (I', None)" "owner \<noteq> 0"
    and "repo_FindByName C name = Inr c" "ch_ID c = owner" "room = 0 \<and> parent = 0 \<or> owner' = 0 \<and> (room = 0 \<or> parent = 0)"
    and "parent = 0 \<or> fits_below (ir_items I) k parent"
  shows "carry_inv (I', autoUnequipIfHeld C name k)"
proof -
  have i: "repo_ok C" "items_ok I" "depth_ok (ir_items I)" "gear_ok I C" using assms(1) by (simp_all add: carry_inv_def)
  have I': "I' = fst (item_at I k (move_from 0 owner 0 room owner' parent))" using assms(2) by simp
  have ok: "items_ok I'" unfolding I' by (rule move_ok [OF i(2)]) (use assms(6) in auto)
  have z: "it_OwnerCharacterID (at_place x a b c) = b" "it_ParentItemID (at_place x a b c) = c" for x a b c
    by (simp_all add: at_place_def)
  obtain it where it: "item_GetByID I k = Inr it" "it_OwnerCharacterID it = owner"
    and f: "find_item (ir_items I) k = Some it" and acc: "I' = I\<lparr>ir_items := set_item (ir_items I) k (at_place it room owner' parent)\<rparr>"
    using assms(2) by (auto simp: item_at_def move_from_def item_GetByID_def split: option.splits if_splits)
  have k: "k \<noteq> 0" using find_item_SomeD [OF f] i(2) by (auto simp: items_ok_def)
  have deep: "depth_ok (ir_items I')"
  proof (cases "parent = 0")
    case True
    show ?thesis unfolding I'
      by (rule depth_sub [OF i(2) ok [unfolded I'] i(3)])
        (use True in \<open>auto simp: parent_in_def move_row z split: sum.splits if_splits\<close>)
  next
    case False
    then have "room = 0" "owner' = 0" using assms(6) by auto
    then have "ir_items I' = put_in (ir_items I) k parent"
      using set_item_put_in [OF _ f] i(2) by (simp add: acc items_ok_def)
    with False assms(7) show ?thesis by (simp add: fits_below_def)
  qed
  have "gear_ok I' (autoUnequipIfHeld C name k)"
  proof (rule leave_gear [OF i(1,4) assms(4,5) k])
    show "in_pack I' a j" if "in_pack I a j" "j \<noteq> k" for a j using that by (simp add: I' in_pack_def move_row)
    show "a = owner" if "in_pack I a k" for a using that it by (auto simp: in_pack_def)
  qed
  moreover have "repo_ok (autoUnequipIfHeld C name k)"
    using i(1) equip_books by (simp add: unequip_named(1) [OF i(1) assms(4)])
  moreover have "value_range I'"
    using assms(1) by (fastforce simp: I' carry_inv_def value_range_def move_row at_place_def split: sum.splits if_splits)
  moreover have "coin_range (autoUnequipIfHeld C name k)"
    using assms(1) equip_range by (simp add: carry_inv_def unequip_named(1) [OF i(1) assms(4)])
  ultimately show ?thesis using ok deep by (simp add: carry_inv_def)
qed

lemma absorb_inv:
  assumes "carry_inv (I, C)" "item_GetByID I k = Inr it" "it_OwnerCharacterID it = 0"
  shows "carry_inv (fst (item_Delete I k), C)"
proof -
  have i: "items_ok I" "depth_ok (ir_items I)" "gear_ok I C" using assms(1) by (simp_all add: carry_inv_def)
  have "depth_ok (ir_items (fst (item_Delete I k)))"
    by (rule depth_sub [OF i(1) item_Delete_ok [OF i(1)] i(2)]) (auto simp: parent_in_def delete_row [OF i(1)] split: sum.splits if_splits)
  moreover have "gear_ok (fst (item_Delete I k)) C"
    by (rule gear_mono [OF i(3)]) (use assms(2,3) in \<open>auto simp: in_pack_def delete_row [OF i(1)]\<close>)
  moreover have "value_range (fst (item_Delete I k))"
    using assms(1) by (auto simp: carry_inv_def value_range_def delete_row [OF i(1)] split: if_splits)
  ultimately show ?thesis using assms(1) item_Delete_ok by (simp add: carry_inv_def)
qed

lemma spill_inv:
  assumes "carry_inv (I, C)" "item_Create I pile = (I', Inr p)" "it_ID pile = 0" "it_OwnerCharacterID pile = 0" "it_ParentItemID pile = 0"
    and "in_range 64 (it_Value pile)" "ir_maxID I < MaxInt64"
  shows "carry_inv (I', C) \<and> ir_maxID I' = ir_maxID I + 1"
proof -
  have i: "items_ok I" "depth_ok (ir_items I)" "gear_ok I C" using assms(1) by (simp_all add: carry_inv_def)
  have "one_place pile" using assms(4,5) by (simp add: one_place_def)
  then have ok: "items_ok I'" using item_Create_ok [OF i(1) assms(3) _ assms(7)] assms(2) by (metis fst_conv)
  note row = item_Create_row [OF i(1) assms(3,7,2)]
  have new: "it_ParentItemID p = 0" "it_Value p = it_Value pile" using assms(2,5) by (auto simp: item_Create_def insertLocked_def Let_def split: if_splits)
  have fresh: "item_GetByID I (ir_maxID I + 1) = Inr j \<Longrightarrow> False" for j
    using find_item_SomeD [of "ir_items I" "ir_maxID I + 1" j] i(1) by (auto simp: item_Get_Inr items_ok_def)
  have "depth_ok (ir_items I')"
    by (rule depth_sub [OF i(1) ok i(2)]) (auto simp: parent_in_def row new split: sum.splits if_splits)
  moreover have "gear_ok I' C"
    by (rule gear_mono [OF i(3)]) (auto simp: in_pack_def row dest: fresh)
  moreover have "value_range I'"
    using assms(1,6) new(2) by (auto simp: carry_inv_def value_range_def row split: if_splits)
  ultimately show ?thesis using assms(1) ok row by (simp add: carry_inv_def)
qed

definition total_coin :: "MemoryItemRepo \<times> MemoryCharacterRepo \<Rightarrow> int" where
  "total_coin s = purses (snd s) + piles (fst s)"

lemma equip_who [simp]: "who (fst (repo_RecordEquipment r i eq)) = who r"
  unfolding repo_RecordEquipment_def by (rule who_at [OF equip_keeps])

lemma unequip_who: "who (autoUnequipIfHeld C name k) = who C"
  by (simp add: autoUnequipIfHeld_def split: sum.split prod.split option.split)

lemma maxID_at [simp]: "ir_maxID (fst (item_at r k f)) = ir_maxID r"
  by (simp add: item_at_def split: option.split sum.split)

lemma carry_move_keeps:
  assumes "carry_move s s'" "carry_inv s" "ir_maxID (fst s) < MaxInt64"
  shows "carry_inv s' \<and> total_coin s' = total_coin s \<and> who (snd s') = who (snd s) \<and> ir_maxID (fst s') \<le> ir_maxID (fst s) + 1"
  using assms
proof (induction rule: carry_move.induct)
  case (books C C' I)
  then show ?case using books_inv by (simp add: total_coin_def same_gear_def)
next
  case (don C j c I k slot)
  have "gear_ok I (fst (repo_RecordEquipment C j (fst (equip_Set (ch_Equipment c) slot k))))"
    by (rule don_gear [OF _ don(1-5)]) (use don.prems in \<open>simp add: carry_inv_def\<close>)
  then show ?case using don.prems equip_books equip_range by (simp add: carry_inv_def total_coin_def)
next
  case (doff C j c I k)
  have "gear_ok I (fst (repo_RecordEquipment C j (fst (ClearItem (ch_Equipment c) k))))"
    by (rule doff_gear [OF _ doff(1)]) (use doff.prems in \<open>simp add: carry_inv_def\<close>)
  then show ?case using doff.prems equip_books equip_range by (simp add: carry_inv_def total_coin_def)
next
  case (absorb I k it C C')
  have f: "find_item (ir_items I) k = Some it" using absorb(1) by (simp add: item_Get_Inr)
  have "piles (fst (item_Delete I k)) = piles I - it_Value it" "ir_maxID (fst (item_Delete I k)) = ir_maxID I"
    using piles_remove [OF f] absorb(2) by (simp_all add: piles_def item_Delete_def f)
  moreover have "carry_inv (fst (item_Delete I k), C')"
    by (rule books_inv [OF absorb_inv [OF absorb.prems(1) absorb(1,3)] absorb(4)])
  ultimately show ?case using absorb(4,5) by (simp add: total_coin_def same_gear_def)
next
  case (spill I pile I' p C C')
  have "ir_maxID I < MaxInt64" using spill.prems(2) by simp
  from spill_inv [OF spill.prems(1) spill(1,3-6) this]
  have v: "carry_inv (I', C)" and m: "ir_maxID I' = ir_maxID I + 1" by blast+
  have "piles I' = piles I + it_Value pile"
    using spill(1,2) by (auto simp: piles_def item_Create_def insertLocked_def isCoinPile_def Let_def split: if_splits)
  with books_inv [OF v spill(7)] m show ?case using spill(7,8) by (simp add: total_coin_def same_gear_def)
next
  case (take_up owner C C' I k room parent)
  then show ?case using books_inv [OF take_inv take_up(2)] by (simp add: total_coin_def piles_move same_gear_def)
next
  case (leave I k owner room owner' parent I' C name c C')
  have v: "carry_inv (I', autoUnequipIfHeld C name k)"
    by (rule leave_inv [OF leave.prems(1) leave(1-6)])
  have I': "I' = fst (item_at I k (move_from 0 owner 0 room owner' parent))" using leave(1) by simp
  show ?case
    using books_inv [OF v leave(7)] leave(7,8) unequip_who [of C name k]
    by (simp add: total_coin_def I' piles_move same_gear_def)
qed

section \<open>Walks end\<close>

lemma sum_children_None: "sum_children g rec w cs \<noteq> None \<longleftrightarrow> (\<forall>c\<in>set cs. rec c \<noteq> None)"
  by (induction cs arbitrary: w) (auto split: option.split)

lemma max_children_None: "max_children rec m cs \<noteq> None \<longleftrightarrow> (\<forall>c\<in>set cs. rec c \<noteq> None)"
  by (induction cs arbitrary: m) (auto split: option.split)

lemma max_children_le:
  "max_children rec m cs = Some v \<Longrightarrow> m \<le> b \<Longrightarrow> (\<And>c x. c \<in> set cs \<Longrightarrow> rec c = Some x \<Longrightarrow> 1 + x \<le> b) \<Longrightarrow> v \<le> b"
proof (induction cs arbitrary: m)
  case (Cons c cs)
  then obtain x where x: "rec c = Some x" by (auto split: option.splits)
  then have "1 + x \<le> b" using Cons.prems(3) [of c x] by simp
  then show ?case using Cons.prems x
    by (intro Cons.IH [of "if 1 + x > m then 1 + x else m"]) (auto intro: Cons.prems(3))
qed simp

lemma rawWeight_sub:
  "(\<And>k. set (idx' k) \<subseteq> set (idx k)) \<Longrightarrow> rawWeight n idx i \<noteq> None \<Longrightarrow> rawWeight n idx' i \<noteq> None"
  by (induction n arbitrary: i) (auto simp: sum_children_None iff del: not_None_eq)

lemma depthBelow_sub:
  "(\<And>k. set (idx' k) \<subseteq> set (idx k)) \<Longrightarrow> depthBelow n idx i \<noteq> None \<Longrightarrow> depthBelow n idx' i \<noteq> None"
  by (induction n arbitrary: i) (auto simp: max_children_None iff del: not_None_eq)

lemma recursiveWeight_raw: "recursiveWeight n idx i \<noteq> None \<longleftrightarrow> rawWeight n idx i \<noteq> None"
  by (induction n arbitrary: i) (auto simp: sum_children_None Let_def iff del: not_None_eq)

text \<open>On short chains every walk over a part of the rows returns.\<close>

lemma walks_end:
  assumes "items_ok r" "depth_ok (ir_items r)" "set rows \<subseteq> set (ir_items r)" "4 \<le> n"
  shows "rawWeight n (childrenOf rows) i \<noteq> None" "depthBelow n (childrenOf rows) k \<noteq> None" "depthBelow n (childrenOf (ir_items r)) k \<noteq> None"
proof -
  have d: "distinct (map it_ID (ir_items r))" using assms(1) by (simp add: items_ok_def)
  have no: "ups (up (byID_of (ir_items r))) n y \<noteq> Some x" for x y
    using assms(2,4) ups_add [of "up (byID_of (ir_items r))" 4 "n - 4" y] by (simp add: depth_ok_def)
  have sub: "set (childrenOf rows j) \<subseteq> set (childrenOf (ir_items r) j)" for j using assms(3) by (auto simp: childrenOf_def)
  show "depthBelow n (childrenOf (ir_items r)) k \<noteq> None" by (rule depthBelow_total [OF d no])
  then show "depthBelow n (childrenOf rows) k \<noteq> None" by (rule depthBelow_sub [OF sub])
  show "rawWeight n (childrenOf rows) i \<noteq> None" by (rule rawWeight_sub [OF sub rawWeight_total [OF d no]])
qed

lemma carried_returns:
  assumes "items_ok r" "depth_ok (ir_items r)"
  shows "carriedWeight r owner \<noteq> None"
proof (cases "owner = 0")
  case True
  then show ?thesis by (simp add: carriedWeight_def owned_transitive_def totalCarriedWeight_def)
next
  case False
  have "distinct (map it_ID (ir_items r))" using assms(1) by (simp add: items_ok_def)
  from owned_transitive_result [OF this False] obtain rows where
    o: "owned_transitive r owner = Some rows" "\<And>i. i \<in> set rows \<longleftrightarrow> owned (ir_items r) owner i" by blast
  have "owned (ir_items r) owner i \<Longrightarrow> i \<in> set (ir_items r)" for i by (induction rule: owned.induct)
  then have "set rows \<subseteq> set (ir_items r)" using o(2) by blast
  from walks_end(1) [OF assms this] have "recursiveWeight (length (ir_items r) + 4) (childrenOf rows) i \<noteq> None" for i
    unfolding recursiveWeight_raw by simp
  then show ?thesis by (simp add: carriedWeight_def o(1) totalCarriedWeight_def sum_children_None del: not_None_eq)
qed

section \<open>The view of a container\<close>

definition unseen :: "Item list \<Rightarrow> int list \<Rightarrow> nat" where
  "unseen items seen = card (it_ID ` set items - set seen)"

lemma view_kids_spec:
  "set ks \<subseteq> set items \<Longrightarrow> set found \<subseteq> set items \<Longrightarrow> view_kids ks (seen, found, deeper) = (seen', found', deeper') \<Longrightarrow>
   set found' \<subseteq> set items \<and> set seen \<subseteq> set seen' \<and> unseen items seen' + length deeper' \<le> unseen items seen + length deeper"
proof (induction ks arbitrary: seen found deeper)
  case (Cons k ks)
  show ?case
  proof (cases "it_ID k \<in> set seen")
    case True
    with Cons show ?thesis by auto
  next
    case False
    have "it_ID ` set items - set (it_ID k # seen) = (it_ID ` set items - set seen) - {it_ID k}" by auto
    moreover have "it_ID k \<in> it_ID ` set items - set seen" using False Cons.prems(1) by auto
    ultimately have u: "unseen items (it_ID k # seen) + 1 = unseen items seen"
      unfolding unseen_def by (metis One_nat_def Suc_eq_plus1 card_Suc_Diff1 finite_Diff finite_imageI finite_set)
    have "view_kids ks (it_ID k # seen, found @ [k], deeper @ [it_ID k]) = (seen', found', deeper')" using Cons.prems(3) False by simp
    from Cons.IH [OF _ _ this] Cons.prems(1,2) u show ?thesis by auto
  qed
qed simp

lemma view_level_spec:
  "set found \<subseteq> set (ir_items r) \<Longrightarrow> view_level r ks (seen, found, deeper) = (seen', found', deeper') \<Longrightarrow>
   set found' \<subseteq> set (ir_items r)
     \<and> unseen (ir_items r) seen' + length deeper' \<le> unseen (ir_items r) seen + length deeper"
proof (induction ks arbitrary: seen found deeper)
  case (Cons k ks)
  obtain s f d where v: "view_kids (in_container r k) (seen, found, deeper) = (s, f, d)" by (metis prod_cases3)
  have "set (in_container r k) \<subseteq> set (ir_items r)" by (auto simp: in_container_def)
  from view_kids_spec [OF this Cons.prems(1) v] Cons.IH [of f s d] Cons.prems(2) v show ?case by auto
qed simp

lemma view_loop_returns:
  "set found \<subseteq> set (ir_items r) \<Longrightarrow> unseen (ir_items r) seen + 2 \<le> n \<or> (front = [] \<and> 1 \<le> n) \<Longrightarrow>
   \<exists>out. view_loop n r front seen found = Some out \<and> set out \<subseteq> set (ir_items r)"
proof (induction n arbitrary: front seen found)
  case (Suc n)
  show ?case
  proof (cases "front = []")
    case False
    obtain s f d where v: "view_level r front (seen, found, []) = (s, f, d)" by (metis prod_cases3)
    have "unseen (ir_items r) s + 2 \<le> n \<or> (d = [] \<and> 1 \<le> n)"
      using view_level_spec [OF Suc.prems(1) v] Suc.prems(2) False by (cases d) auto
    from Suc.IH [OF _ this, of f] view_level_spec [OF Suc.prems(1) v] False v show ?thesis by auto
  qed (use Suc.prems in simp)
qed simp

lemma view_returns: "\<exists>out. transitiveContainerView r k = Some out \<and> set out \<subseteq> set (ir_items r)"
proof -
  have "unseen (ir_items r) [k] \<le> card (it_ID ` set (ir_items r))" unfolding unseen_def by (intro card_mono) auto
  also have "\<dots> \<le> length (ir_items r)" using card_image_le [of "set (ir_items r)" it_ID] card_length [of "ir_items r"] by simp
  finally show ?thesis unfolding transitiveContainerView_def by (intro view_loop_returns) simp_all
qed

section \<open>The put check over the rows it sees\<close>

text \<open>Below an item of the pack the rows the check sees are all rows.\<close>

lemma depthBelow_region:
  assumes "\<And>k. k \<in> R \<Longrightarrow> set (idx k) \<subseteq> set (idx' k)" "\<And>k c. k \<in> R \<Longrightarrow> c \<in> set (idx k) \<Longrightarrow> it_ID c \<in> R"
  shows "k \<in> R \<Longrightarrow> depthBelow n idx k = Some a \<Longrightarrow> depthBelow n idx' k = Some b \<Longrightarrow> a \<le> b"
proof (induction n arbitrary: k a b)
  case (Suc n)
  have ge: "0 \<le> b \<and> (\<forall>c\<in>set (idx' k). \<exists>x. depthBelow n idx' (it_ID c) = Some x \<and> 1 + x \<le> b)"
    using max_children_ge [of "\<lambda>c. depthBelow n idx' (it_ID c)" 0 "idx' k" b] Suc.prems(3) by auto
  show ?case
  proof (rule max_children_le [of "\<lambda>c. depthBelow n idx (it_ID c)" 0 "idx k" a b])
    show "max_children (\<lambda>c. depthBelow n idx (it_ID c)) 0 (idx k) = Some a" using Suc.prems(2) by simp
    fix c x
    assume c: "c \<in> set (idx k)" "depthBelow n idx (it_ID c) = Some x"
    then obtain y where y: "depthBelow n idx' (it_ID c) = Some y" "1 + y \<le> b" using ge assms(1) Suc.prems(1) by blast
    have "x \<le> y" by (rule Suc.IH [OF _ c(2) y(1)]) (use assms(2) Suc.prems(1) c(1) in blast)
    then show "1 + x \<le> b" using y(2) by simp
  qed (use ge in simp)
qed simp

lemma put_known:
  assumes "items_ok r" "depth_ok (ir_items r)" "it \<in> set (in_inventory r owner)" "it_ID it \<noteq> it_ID container"
    and "container \<in> set (ir_items r)" "it_ParentItemID container = 0"
  shows "\<exists>known. known_rows r owner container onFloor = Some known
    \<and> canPut (length (ir_items r) + 4) container it known (byID_of known) \<noteq> None
    \<and> (canPut (length (ir_items r) + 4) container it known (byID_of known) = Some putOK \<longrightarrow>
         fits_below (ir_items r) (it_ID it) (it_ID container))"
proof -
  let ?n = "length (ir_items r) + 4"
  have d: "distinct (map it_ID (ir_items r))" using assms(1) by (simp add: items_ok_def)
  have it: "it \<in> set (ir_items r)" "it_OwnerCharacterID it = owner" "owner \<noteq> 0" "it_ParentItemID it = 0"
    using assms(3) by (auto simp: in_inventory_def)
  from owned_transitive_result [OF d it(3)] obtain rows where
    o: "owned_transitive r owner = Some rows" "\<And>i. i \<in> set rows \<longleftrightarrow> owned (ir_items r) owner i" by blast
  have "owned (ir_items r) owner i \<Longrightarrow> i \<in> set (ir_items r)" for i by (induction rule: owned.induct)
  then have rows: "set rows \<subseteq> set (ir_items r)" using o(2) by blast
  obtain view where v: "transitiveContainerView r (it_ID container) = Some view" "set view \<subseteq> set (ir_items r)"
    using view_returns by blast
  define known where "known = (if onFloor then rows @ view @ [container] else rows)"
  have k: "known_rows r owner container onFloor = Some known" "set known \<subseteq> set (ir_items r)" "set rows \<subseteq> set known"
    using o(1) v rows assms(5) by (auto simp: known_rows_def known_def)
  have tot: "rawWeight ?n (childrenOf known) i \<noteq> None" "depthBelow ?n (childrenOf known) j \<noteq> None" for i j
    using walks_end [OF assms(1,2) k(2), of ?n] by simp_all
  then have "rawContentsWeight ?n (childrenOf known) container \<noteq> None"
    unfolding rawContentsWeight_def sum_children_None by blast
  with tot obtain x y z where "rawWeight ?n (childrenOf known) it = Some x" "depthBelow ?n (childrenOf known) (it_ID it) = Some y"
    "rawContentsWeight ?n (childrenOf known) container = Some z" by (metis not_None_eq)
  then have 1: "canPut ?n container it known (byID_of known) \<noteq> None"
    by (auto simp: canPut_def Let_def split: ItemStats.split)
  have "fits_below (ir_items r) (it_ID it) (it_ID container)" if ok: "canPut ?n container it known (byID_of known) = Some putOK"
  proof -
    obtain b where b: "depthBelow ?n (childrenOf known) (it_ID it) = Some b" "depthOf (it_ID container) (byID_of known) + 1 + b \<le> 3"
      using ok tot(2)
      by (auto simp: canPut_def Let_def defaultContainerDepth_def split: ItemStats.splits option.splits if_splits)
    have b2: "1 + b \<le> 3" using b(2) depth_walk_start [of 0 12 "byID_of known" "it_ID container"]
      by (simp add: depthOf_def defaultContainerDepth_def)
    obtain a where a: "depthBelow ?n (childrenOf (ir_items r)) (it_ID it) = Some a"
      using walks_end(3) [OF assms(1,2) k(2), of ?n] by auto
    have "a \<le> b"
    proof (rule depthBelow_region [OF _ _ _ a b(1), of "it_ID ` set rows"])
      show "it_ID it \<in> it_ID ` set rows" using o(2) it owned.top by blast
      fix k
      assume "k \<in> it_ID ` set rows"
      then obtain j where j: "k = it_ID j" "owned (ir_items r) owner j" using o(2) by blast
      have c: "c \<in> set rows" if "c \<in> set (childrenOf (ir_items r) k)" for c
      proof -
        have "c \<in> set (ir_items r)" "it_ParentItemID c = it_ID j" "it_ParentItemID c \<noteq> 0" using that j(1) by (auto simp: childrenOf_def split: if_splits)
        then show ?thesis using o(2) owned.inside [OF j(2)] by blast
      qed
      then show "set (childrenOf (ir_items r) k) \<subseteq> set (childrenOf known k)" using k(3) by (auto simp: childrenOf_def split: if_splits)
      show "c \<in> set (childrenOf (ir_items r) k) \<Longrightarrow> it_ID c \<in> it_ID ` set rows" for c using c by blast
    qed
    moreover have top: "byID_of (ir_items r) (it_ID container) = Some container" using byID_of_row [OF d] assms(5) by blast
    then have "depthOf (it_ID container) (byID_of (ir_items r)) = 0" "\<not> isAncestor (it_ID it) (it_ID container) (byID_of (ir_items r))"
      using assms(6) by (simp_all add: depthOf_def isAncestor_def defaultContainerDepth_def eval_nat_numeral)
    moreover have "it_ID container \<noteq> 0" using assms(1,5) by (auto simp: items_ok_def)
    ultimately show ?thesis unfolding fits_below_def
      by (intro put_in_depth [OF d assms(2) _ _ a]) (use it(1) b2 assms(4) in auto)
  qed
  with 1 k(1) show ?thesis by blast
qed

section \<open>Every verb is a move\<close>

definition core :: "CarryWorld \<Rightarrow> MemoryItemRepo \<times> MemoryCharacterRepo" where
  "core w = (iw_Items w, iw_Chars w)"

text \<open>The character behind the session is the one of its name.\<close>

definition logged :: "CarryWorld \<Rightarrow> sid \<Rightarrow> bool" where
  "logged w i \<longleftrightarrow> who (iw_Chars w) (gs_CharacterName (sess (iw_Sess w) i)) = Some (gs_CharacterID (sess (iw_Sess w) i))"

text \<open>A verb leaves the sessions as they are, up to what is written to them, and makes one move.\<close>

definition one_move :: "CarryWorld \<Rightarrow> CarryWorld \<Rightarrow> bool" where
  "one_move w v \<longleftrightarrow> sess (iw_Sess v) = sess (iw_Sess w) \<and> carry_move (core w) (core v)"

lemma broadcast_sess [simp]: "sess (broadcastRoom room x msg w) = sess w"
  by (simp add: broadcastRoom_def broadcast_spec sess_def fun_eq_iff)

lemma world_frames [simp]:
  "core (carry_tell i m w) = core w" "sess (iw_Sess (carry_tell i m w)) = sess (iw_Sess w)"
  "core (carry_shout i m w) = core w" "sess (iw_Sess (carry_shout i m w)) = sess (iw_Sess w)"
  "core (set_chars C w) = (iw_Items w, C)" "iw_Sess (set_chars C w) = iw_Sess w"
  "core (set_items I w) = (I, iw_Chars w)" "iw_Sess (set_items I w) = iw_Sess w"
  "iw_Items (set_chars C w) = iw_Items w" "iw_Chars (set_items I w) = iw_Chars w" "iw_Chars (set_chars C w) = C"
  by (simp_all add: core_def carry_tell_def carry_shout_def set_chars_def set_items_def)

lemma gift_frames [simp]:
  "core (announce_gift m i p w) = core w" "sess (iw_Sess (announce_gift m i p w)) = sess (iw_Sess w)"
proof -
  have "core (fold (\<lambda>q v. if q = i \<or> q = p \<or> gs_CurrentRoomID (sess (iw_Sess v) q) \<noteq> gs_CurrentRoomID (sess (iw_Sess v) i) then v
          else carry_tell q m v) ps v) = core v
      \<and> sess (iw_Sess (fold (\<lambda>q v. if q = i \<or> q = p \<or> gs_CurrentRoomID (sess (iw_Sess v) q) \<noteq> gs_CurrentRoomID (sess (iw_Sess v) i) then v
          else carry_tell q m v) ps v)) = sess (iw_Sess v)" for ps v
    by (induction ps arbitrary: v) simp_all
  then show "core (announce_gift m i p w) = core w" "sess (iw_Sess (announce_gift m i p w)) = sess (iw_Sess w)"
    by (simp_all add: announce_gift_def)
qed

lemma move_tell [simp]: "one_move w (carry_tell i m v) = one_move w v" "one_move w (carry_shout i m v) = one_move w v"
  "one_move w (announce_gift m i p v) = one_move w v"
  by (simp_all add: one_move_def)

lemma move_none [simp]: "one_move w w"
  by (simp add: one_move_def core_def carry_move.books)

lemma logged_row:
  assumes "repo_ok (iw_Chars w)" "logged w i" "repo_FindByName (iw_Chars w) (gs_CharacterName (sess (iw_Sess w) i)) = Inr c"
  shows "ch_ID c = gs_CharacterID (sess (iw_Sess w) i)" "gs_CharacterID (sess (iw_Sess w) i) \<noteq> 0"
    "repo_GetByID (iw_Chars w) (ch_ID c) = Inr c"
proof -
  have "map_of (mr_byLower (iw_Chars w)) (to_lower (gs_CharacterName (sess (iw_Sess w) i))) = Some c"
    using assms(3) by (simp add: repo_FindByName_def split: option.splits)
  then show id: "ch_ID c = gs_CharacterID (sess (iw_Sess w) i)"
    using assms(2) by (simp add: logged_def who_def)
  show g: "repo_GetByID (iw_Chars w) (ch_ID c) = Inr c" by (rule named_row [OF assms(1,3)])
  have "c \<in> snd ` set (mr_byLower (iw_Chars w))" using get_row_SomeD [OF g [unfolded GetByID_Inr]] by blast
  then show "gs_CharacterID (sess (iw_Sess w) i) \<noteq> 0" using assms(1) id by (auto simp: repo_ok_def)
qed

lemma logged_found: "logged w i \<Longrightarrow> \<exists>c. repo_FindByName (iw_Chars w) (gs_CharacterName (sess (iw_Sess w) i)) = Inr c"
  by (cases "map_of (mr_byLower (iw_Chars w)) (to_lower (gs_CharacterName (sess (iw_Sess w) i)))")
    (simp_all add: logged_def who_def repo_FindByName_def)

lemma match_loop_member: "match_loop name n kw h xs = Some x \<Longrightarrow> x \<in> set xs"
  by (induction name n kw h xs rule: match_loop.induct) (auto split: if_splits)

lemma match_member: "MatchItem t xs = Some x \<Longrightarrow> x \<in> set xs"
  by (auto simp: MatchItem_def match_nth_def Let_def split: if_splits prod.splits dest: match_loop_member)

lemma pack_item:
  assumes "items_ok r" "it \<in> set (in_inventory r owner)"
  shows "in_pack r owner (it_ID it)" "it_ID it \<noteq> 0" "item_GetByID r (it_ID it) = Inr it"
proof -
  have it: "it \<in> set (ir_items r)" "it_OwnerCharacterID it = owner" "owner \<noteq> 0" "it_ParentItemID it = 0"
    using assms(2) by (auto simp: in_inventory_def)
  show "it_ID it \<noteq> 0" using it(1) assms(1) by (auto simp: items_ok_def)
  show g: "item_GetByID r (it_ID it) = Inr it"
    using find_of_row [OF _ it(1)] assms(1) by (simp add: item_Get_Inr items_ok_def)
  with it show "in_pack r owner (it_ID it)" by (simp add: in_pack_def)
qed

lemma put_on_move:
  assumes "repo_GetByID (iw_Chars w) (ch_ID char) = Inr char" "in_pack (iw_Items w) (ch_ID char) k" "k \<noteq> 0" "named_slot slot"
    "FindByItem (ch_Equipment char) k = None"
  shows "one_move w (put_on char slot k a b c i w)"
proof -
  have m: "carry_move (core w) (iw_Items w, fst (repo_RecordEquipment (iw_Chars w) (ch_ID char) (fst (equip_Set (ch_Equipment char) slot k))))"
    unfolding core_def by (rule carry_move.don [OF assms])
  obtain C e where r: "repo_RecordEquipment (iw_Chars w) (ch_ID char) (fst (equip_Set (ch_Equipment char) slot k)) = (C, e)" by fastforce
  then show ?thesis using m by (cases e) (simp_all add: put_on_def one_move_def)
qed

lemma wear_move:
  assumes "carry_inv (core w)" "logged w i"
  shows "one_move w (wear_verb args i w)"
proof (cases "MatchItem (to_lower (trim_space (join '' '' args))) (in_inventory (iw_Items w) (gs_CharacterID (sess (iw_Sess w) i)))")
  case it: (Some it)
  have ok: "repo_ok (iw_Chars w)" "items_ok (iw_Items w)" using assms(1) by (simp_all add: carry_inv_def core_def)
  note pack = pack_item [OF ok(2) match_member [OF it]]
  obtain c where c: "repo_FindByName (iw_Chars w) (gs_CharacterName (sess (iw_Sess w) i)) = Inr c" using logged_found [OF assms(2)] by blast
  note row = logged_row [OF ok(1) assms(2) c]
  show ?thesis
  proof (cases "it_Type it = ItemTypeWeapon \<or> FindByItem (ch_Equipment c) (it_ID it) \<noteq> None")
    case False
    have "one_move w (put_on c slot (it_ID it) x y z i w)" if "slotForWear (it_Type it) = Some slot" for slot x y z
      by (rule put_on_move) (use that False row pack in \<open>auto simp: slotForWear_def named_slot_def split: ItemType.splits\<close>)
    then show ?thesis using False by (simp add: wear_verb_def Let_def it c split: option.split)
  qed (auto simp: wear_verb_def Let_def it c split: option.split)
qed (simp add: wear_verb_def Let_def)

lemma wield_move:
  assumes "carry_inv (core w)" "logged w i"
  shows "one_move w (wield_verb args i w)"
proof -
  obtain arg slot where s: "splitWieldArgs args = (arg, slot)" by fastforce
  have slot: "named_slot slot" using s by (auto simp: splitWieldArgs_def named_slot_def Let_def split: if_splits)
  show ?thesis
  proof (cases "MatchItem (to_lower (trim_space arg)) (in_inventory (iw_Items w) (gs_CharacterID (sess (iw_Sess w) i)))")
    case it: (Some it)
    have ok: "repo_ok (iw_Chars w)" "items_ok (iw_Items w)" using assms(1) by (simp_all add: carry_inv_def core_def)
    note pack = pack_item [OF ok(2) match_member [OF it]]
    obtain c where c: "repo_FindByName (iw_Chars w) (gs_CharacterName (sess (iw_Sess w) i)) = Inr c" using logged_found [OF assms(2)] by blast
    note row = logged_row [OF ok(1) assms(2) c]
    show ?thesis
    proof (cases "FindByItem (ch_Equipment c) (it_ID it)")
      case None
      have "one_move w (put_on c slot (it_ID it) x y z i w)" for x y z
        by (rule put_on_move) (use None row pack slot in auto)
      then show ?thesis by (simp add: wield_verb_def Let_def s it c None)
    qed (simp add: wield_verb_def Let_def s it c)
  qed (simp add: wield_verb_def Let_def s)
qed

lemma remove_move:
  assumes "carry_inv (core w)" "logged w i"
  shows "one_move w (remove_verb args i w)"
proof -
  have ok: "repo_ok (iw_Chars w)" using assms(1) by (simp add: carry_inv_def core_def)
  obtain c where c: "repo_FindByName (iw_Chars w) (gs_CharacterName (sess (iw_Sess w) i)) = Inr c" using logged_found [OF assms(2)] by blast
  have m: "carry_move (core w) (iw_Items w, fst (repo_RecordEquipment (iw_Chars w) (ch_ID c) (fst (ClearItem (ch_Equipment c) k))))" for k
    unfolding core_def by (rule carry_move.doff [OF logged_row(3) [OF ok assms(2) c]])
  have "one_move w (set_chars C w)"
    if "ClearItem (ch_Equipment c) k = (eq, sl)" "repo_RecordEquipment (iw_Chars w) (ch_ID c) eq = (C, e)" for C e k eq sl
    using m [of k] that by (simp add: one_move_def)
  then show ?thesis
    by (auto simp: remove_verb_def Let_def c split: option.split prod.split)
qed

text \<open>Coin written against the row that was read is accepted, and the write that takes it back as well.\<close>

lemma Add_Inr: "amount_Add a b = Inr c \<Longrightarrow> in_range 64 a \<Longrightarrow> in_range 64 b \<Longrightarrow> c = a + b \<and> in_range 64 c"
  by (auto simp: amount_Add_def safeAdd_exact split: if_splits)

lemma Sub_Inr: "amount_Sub a b = Inr c \<Longrightarrow> in_range 64 a \<Longrightarrow> 0 < b \<Longrightarrow> c = a - b \<and> in_range 64 b \<and> in_range 64 c"
proof -
  assume a: "amount_Sub a b = Inr c" "in_range 64 a" "0 < b"
  then have "b \<le> a" by (auto simp: amount_Sub_def split: if_splits)
  with a(2,3) have "in_range 64 b" "in_range 64 (a - b)" by (auto simp: in_range_64)
  with a show ?thesis by (auto simp: amount_Sub_def safeSub_exact split: if_splits)
qed

lemma coin_purse:
  assumes "repo_GetByID r (ch_ID c) = Inr c"
  shows "purses (fst (repo_RecordCoin r (ch_ID c) coin bank (ch_CoinVersion c))) = purses r - worth c + coin + bank"
proof -
  have "coin_write coin bank (ch_CoinVersion c) c = Inr (paid coin bank c)" by (simp add: coin_write_def paid_def)
  from purses_at [of r "ch_ID c" c "coin_write coin bank (ch_CoinVersion c)", OF assms this]
  show ?thesis by (simp add: repo_RecordCoin_def worth_def paid_def)
qed

lemma rollback_purse:
  assumes "repo_GetByID r (ch_ID c) = Inr c"
  shows "purses (fst (repo_RecordCoin (fst (repo_RecordCoin r (ch_ID c) coin bank (ch_CoinVersion c))) (ch_ID c)
    (ch_Coin c) (ch_BankBalance c) (i64 (ch_CoinVersion c + 1)))) = purses r"
proof -
  let ?r = "fst (repo_RecordCoin r (ch_ID c) coin bank (ch_CoinVersion c))" and ?p = "paid coin bank c"
  have g: "repo_GetByID ?r (ch_ID ?p) = Inr ?p" using coin_rows [OF assms, of coin bank "ch_ID c"] by (simp add: paid_def)
  have "ch_CoinVersion ?p = i64 (ch_CoinVersion c + 1)" "ch_ID ?p = ch_ID c" by (simp_all add: paid_def)
  with coin_purse [OF g, of "ch_Coin c" "ch_BankBalance c"] coin_purse [OF assms, of coin bank]
  show ?thesis by (simp add: worth_def paid_def)
qed

lemma rollback_gear: "in_range 64 c \<Longrightarrow> in_range 64 f \<Longrightarrow> same_gear r (fst (repo_RecordCoin (fst (repo_RecordCoin r a c b d)) e f g h))"
  using same_gear_coin same_gear_trans by blast

lemma debit_Inr: "debit c amount = Inr x \<Longrightarrow> in_range 64 (ch_Coin c) \<Longrightarrow> 0 < amount \<Longrightarrow>
  x = ch_Coin c - amount \<and> in_range 64 amount \<and> in_range 64 x"
  by (auto simp: debit_def dest: Sub_Inr split: sum.splits)

lemma dropCoin_move:
  assumes "carry_inv (core w)" "logged w i"
  shows "one_move w (dropCoin now amount i w)"
proof -
  have ok: "repo_ok (iw_Chars w)" using assms(1) by (simp add: carry_inv_def core_def)
  obtain c where c: "repo_FindByName (iw_Chars w) (gs_CharacterName (sess (iw_Sess w) i)) = Inr c" using logged_found [OF assms(2)] by blast
  note row = logged_row(3) [OF ok assms(2) c]
  show ?thesis
  proof (cases "amount \<le> 0")
    case pos: False
    show ?thesis
    proof (cases "debit c amount")
      case (Inr x)
      have coin: "in_range 64 (ch_Coin c)" using assms(1) row by (simp add: carry_inv_def core_def coin_range_def)
      have x: "x = ch_Coin c - amount" "in_range 64 amount" "in_range 64 x" using debit_Inr [OF Inr coin] pos not_le by blast+
      obtain C where C: "repo_RecordCoin (iw_Chars w) (ch_ID c) x (ch_BankBalance c) (ch_CoinVersion c) = (C, None)"
        using coin_rows [OF row, of x "ch_BankBalance c"] by (metis prod.collapse)
      have C': "C = fst (repo_RecordCoin (iw_Chars w) (ch_ID c) x (ch_BankBalance c) (ch_CoinVersion c))" using C by simp
      obtain I res where I: "item_Create (iw_Items w) (dropped_pile now (sess (iw_Sess w) i) amount) = (I, res)" by fastforce
      show ?thesis
      proof (cases res)
        case (Inl e)
        have "one_move w (set_chars (fst (repo_RecordCoin C (ch_ID c) (ch_Coin c) (ch_BankBalance c) (i64 (ch_CoinVersion c + 1)))) w)"
          unfolding one_move_def using carry_move.books [OF rollback_gear [OF x(3) coin] rollback_purse [OF row]] by (simp add: core_def C')
        then show ?thesis by (simp add: dropCoin_def Let_def c pos Inr C I Inl)
      next
        case pile: (Inr p)
        have "purses C = purses (iw_Chars w) - amount"
          using coin_purse [OF row, of x "ch_BankBalance c"] x(1) by (simp add: C' worth_def)
        then have "carry_move (iw_Items w, iw_Chars w) (I, C)"
          by (intro carry_move.spill [OF I [unfolded pile]]) (simp_all add: dropped_pile_def isCoinPile_def coinPilePrefix_def C' same_gear_coin [OF x(3)] x(2))
        then have "one_move w (set_items I (set_chars C w))" by (simp add: one_move_def core_def set_items_def set_chars_def)
        then show ?thesis by (simp add: dropCoin_def Let_def c pos Inr C I pile)
      qed
    qed (simp add: dropCoin_def Let_def c pos)
  qed (simp add: dropCoin_def)
qed

lemma absorb_move:
  assumes "carry_inv (core w)" "logged w i" "repo_FindByName (iw_Chars w) (gs_CharacterName (sess (iw_Sess w) i)) = Inr c"
    and "item_GetByID (iw_Items w) (it_ID it) = Inr it" "isCoinPile it" "it_OwnerCharacterID it = 0"
  shows "one_move w (fst (absorbCoinPile c it w))"
proof (cases "amount_Add (ch_Coin c) (it_Value it)")
  case (Inr x)
  have ok: "repo_ok (iw_Chars w)" using assms(1) by (simp add: carry_inv_def core_def)
  note row = logged_row(3) [OF ok assms(2,3)]
  have x: "x = ch_Coin c + it_Value it" "in_range 64 x"
    using Add_Inr [OF Inr] assms(1,4) row by (auto simp: carry_inv_def core_def coin_range_def value_range_def)
  obtain C where C: "repo_RecordCoin (iw_Chars w) (ch_ID c) x (ch_BankBalance c) (ch_CoinVersion c) = (C, None)"
    using coin_rows [OF row, of x "ch_BankBalance c"] by (metis prod.collapse)
  have C': "C = fst (repo_RecordCoin (iw_Chars w) (ch_ID c) x (ch_BankBalance c) (ch_CoinVersion c))" using C by simp
  obtain J where D: "item_Delete (iw_Items w) (it_ID it) = (J, None)"
    using assms(4) by (simp add: item_Delete_def item_Get_Inr)
  have "purses C = purses (iw_Chars w) + it_Value it"
    using coin_purse [OF row, of x "ch_BankBalance c"] x(1) by (simp add: C' worth_def)
  then have "carry_move (iw_Items w, iw_Chars w) (fst (item_Delete (iw_Items w) (it_ID it)), C)"
    by (intro carry_move.absorb [OF assms(4-6)]) (simp_all add: C' same_gear_coin [OF x(2)])
  then have "one_move w (set_items J (set_chars C w))"
    by (simp add: one_move_def core_def set_items_def set_chars_def D)
  then show ?thesis by (simp add: absorbCoinPile_def Inr C D)
qed (simp add: absorbCoinPile_def)

lemma absorbed_move:
  "one_move w (fst (absorbCoinPile c it w)) \<Longrightarrow>
   one_move w (case absorbCoinPile c it w of (w1, PickupRefused m) \<Rightarrow> carry_tell i m w1 | (w1, PickupFailed) \<Rightarrow> carry_tell i m1 w1
     | (w1, Absorbed amt) \<Rightarrow> carry_tell i (m2 amt) (carry_shout i m3 w1))"
  by (auto split: prod.split pickup.split)

text \<open>What a pick-up does once the checks are passed.\<close>

lemma taken_move:
  assumes "logged w i" "repo_ok (iw_Chars w)" "t = item_at (iw_Items w) k (move_from room 0 parent 0 (gs_CharacterID (sess (iw_Sess w) i)) 0)"
  shows "one_move w (set_chars (fst (repo_RecordInventory (iw_Chars w) j ids)) (set_items (fst t) w))"
proof -
  obtain c where c: "repo_FindByName (iw_Chars w) (gs_CharacterName (sess (iw_Sess w) i)) = Inr c" using logged_found [OF assms(1)] by blast
  have "carry_move (iw_Items w, iw_Chars w) (fst t, fst (repo_RecordInventory (iw_Chars w) j ids))"
    unfolding assms(3) by (rule carry_move.take_up [OF logged_row(2) [OF assms(2,1) c] same_gear_inventory])
  then show ?thesis by (simp add: one_move_def core_def set_items_def set_chars_def)
qed

lemma room_item:
  "items_ok r \<Longrightarrow> it \<in> set (in_room r room) \<Longrightarrow> item_GetByID r (it_ID it) = Inr it \<and> it_OwnerCharacterID it = 0 \<and> it_ParentItemID it = 0 \<and> it \<in> set (ir_items r)"
  using find_of_row [of "ir_items r" it] by (auto simp: in_room_def item_Get_Inr items_ok_def)

lemma contained_item:
  assumes "items_ok r" "it \<in> set (in_container r k)"
  shows "item_GetByID r (it_ID it) = Inr it" "it_OwnerCharacterID it = 0"
proof -
  have it: "it \<in> set (ir_items r)" "it_ParentItemID it = k" "k \<noteq> 0" using assms(2) by (auto simp: in_container_def split: if_splits)
  then show "item_GetByID r (it_ID it) = Inr it" using assms(1) find_of_row [of "ir_items r" it] by (simp add: item_Get_Inr items_ok_def)
  have "one_place it" using assms(1) it(1) by (simp add: items_ok_def)
  with it(2,3) show "it_OwnerCharacterID it = 0" by (auto simp: one_place_def split: if_splits)
qed

lemma floor_move:
  assumes "carry_inv (core w)" "logged w i" "gs_CurrentRoomID (sess (iw_Sess w) i) \<noteq> 0"
  shows "\<exists>v. getFromFloor arg i w = Some v \<and> one_move w v"
proof (cases "MatchItem (to_lower (trim_space arg)) (in_room (iw_Items w) (gs_CurrentRoomID (sess (iw_Sess w) i)))")
  case it: (Some it)
  have ok: "repo_ok (iw_Chars w)" "items_ok (iw_Items w)" "depth_ok (ir_items (iw_Items w))"
    using assms(1) by (simp_all add: carry_inv_def core_def)
  have row: "item_GetByID (iw_Items w) (it_ID it) = Inr it" "it_OwnerCharacterID it = 0"
    using room_item [OF ok(2) match_member [OF it]] by blast+
  obtain c where c: "repo_FindByName (iw_Chars w) (gs_CharacterName (sess (iw_Sess w) i)) = Inr c" using logged_found [OF assms(2)] by blast
  show ?thesis
  proof (cases "isCoinPile it")
    case True
    show ?thesis
      using absorbed_move [OF absorb_move [OF assms(1,2) c row(1) True row(2)]] by (simp add: getFromFloor_def Let_def it c True)
  next
    case False
    obtain x where x: "carriedWeight (iw_Items w) (gs_CharacterID (sess (iw_Sess w) i)) = Some x" using carried_returns [OF ok(2,3)] by blast
    obtain I e where t: "TransferRoomToOwner (iw_Items w) (it_ID it) (gs_CurrentRoomID (sess (iw_Sess w) i)) (gs_CharacterID (sess (iw_Sess w) i)) = (I, e)"
      by fastforce
    have "TransferRoomToOwner (iw_Items w) (it_ID it) (gs_CurrentRoomID (sess (iw_Sess w) i)) (gs_CharacterID (sess (iw_Sess w) i)) =
        item_at (iw_Items w) (it_ID it) (move_from (gs_CurrentRoomID (sess (iw_Sess w) i)) 0 0 0 (gs_CharacterID (sess (iw_Sess w) i)) 0)"
      using assms(3) logged_row(2) [OF ok(1) assms(2) c] by (simp add: TransferRoomToOwner_def)
    from taken_move [OF assms(2) ok(1) this] have
      "one_move w (set_chars (fst (repo_RecordInventory (iw_Chars w) j ids)) (set_items I w))" for j ids by (simp add: t)
    then show ?thesis by (cases e) (simp_all add: getFromFloor_def Let_def it c False x t split: if_split)
  qed
qed (simp add: getFromFloor_def Let_def)

lemma container_move:
  assumes "carry_inv (core w)" "logged w i"
  shows "\<exists>v. getFromContainer arg carg i w = Some v \<and> one_move w v"
proof (cases "find_container (to_lower (trim_space carg)) i w")
  case box: (Some b)
  obtain container onFloor where b: "b = (container, onFloor)" by fastforce
  have ok: "repo_ok (iw_Chars w)" "items_ok (iw_Items w)" "depth_ok (ir_items (iw_Items w))"
    using assms(1) by (simp_all add: carry_inv_def core_def)
  show ?thesis
  proof (cases "MatchItem (to_lower (trim_space arg)) (in_container (iw_Items w) (it_ID container))")
    case it: (Some it)
    note row = contained_item [OF ok(2) match_member [OF it]]
    have box0: "it_ID container \<noteq> 0" using match_member [OF it] by (auto simp: in_container_def split: if_splits)
    obtain c where c: "repo_FindByName (iw_Chars w) (gs_CharacterName (sess (iw_Sess w) i)) = Inr c" using logged_found [OF assms(2)] by blast
    show ?thesis
    proof (cases "isCoinPile it")
      case True
      show ?thesis
        using absorbed_move [OF absorb_move [OF assms(1,2) c row(1) True row(2)]] by (simp add: getFromContainer_def Let_def box b it c True)
    next
      case False
      obtain x where x: "carriedWeight (iw_Items w) (gs_CharacterID (sess (iw_Sess w) i)) = Some x" using carried_returns [OF ok(2,3)] by blast
      obtain I e where t: "TransferContainerToOwner (iw_Items w) (it_ID it) (it_ID container) (gs_CharacterID (sess (iw_Sess w) i)) = (I, e)"
        by fastforce
      have "TransferContainerToOwner (iw_Items w) (it_ID it) (it_ID container) (gs_CharacterID (sess (iw_Sess w) i)) =
          item_at (iw_Items w) (it_ID it) (move_from 0 0 (it_ID container) 0 (gs_CharacterID (sess (iw_Sess w) i)) 0)"
        using box0 logged_row(2) [OF ok(1) assms(2) c] by (simp add: TransferContainerToOwner_def)
      from taken_move [OF assms(2) ok(1) this] have
        "one_move w (set_chars (fst (repo_RecordInventory (iw_Chars w) j ids)) (set_items I w))" for j ids by (simp add: t)
      then show ?thesis by (cases e) (simp_all add: getFromContainer_def Let_def box b it c False x t split: if_split)
    qed
  qed (simp add: getFromContainer_def Let_def box b)
qed (simp add: getFromContainer_def Let_def)

lemma get_move:
  assumes "carry_inv (core w)" "logged w i"
  shows "\<exists>v. get_verb args i w = Some v \<and> one_move w v"
proof (cases "gs_CurrentRoomID (sess (iw_Sess w) i) = 0")
  case False
  obtain a b f where s: "splitFromArgs args = (a, b, f)" by (metis prod_cases3)
  show ?thesis using floor_move [OF assms False] container_move [OF assms] False by (cases f) (simp_all add: get_verb_def s)
qed (simp add: get_verb_def)

text \<open>What follows a transfer out of the pack.\<close>

lemma left_hands_books:
  "same_gear (autoUnequipIfHeld C name k) (left_hands name f k C)" "purses (left_hands name f k C) = purses C"
proof -
  have p: "purses (autoUnequipIfHeld C name k) = purses C"
    using equip_books(1) by (simp add: autoUnequipIfHeld_def split: sum.split prod.split option.split)
  show "same_gear (autoUnequipIfHeld C name k) (left_hands name f k C)" "purses (left_hands name f k C) = purses C"
    using same_gear_inventory p by (simp_all add: left_hands_def Let_def split: sum.split)
qed

lemma left_move:
  assumes "carry_inv (core w)" "logged w i" "same_gear (left_hands (gs_CharacterName (sess (iw_Sess w) i)) f k (iw_Chars w)) C"
    and "purses C = purses (left_hands (gs_CharacterName (sess (iw_Sess w) i)) f k (iw_Chars w))"
    and "item_at (iw_Items w) k (move_from 0 (gs_CharacterID (sess (iw_Sess w) i)) 0 room owner parent) = (I, None)"
    and "room = 0 \<and> parent = 0 \<or> owner = 0 \<and> (room = 0 \<or> parent = 0)" "parent = 0 \<or> fits_below (ir_items (iw_Items w)) k parent"
  shows "one_move w (set_items I (set_chars C w))"
proof -
  have ok: "repo_ok (iw_Chars w)" using assms(1) by (simp add: carry_inv_def core_def)
  obtain c where c: "repo_FindByName (iw_Chars w) (gs_CharacterName (sess (iw_Sess w) i)) = Inr c" using logged_found [OF assms(2)] by blast
  note row = logged_row [OF ok assms(2) c]
  have "carry_move (iw_Items w, iw_Chars w) (I, C)"
    by (rule carry_move.leave [OF assms(5) row(2) c row(1) assms(6,7) same_gear_trans [OF left_hands_books(1) assms(3)]])
      (simp add: assms(4) left_hands_books(2))
  then show ?thesis by (simp add: one_move_def core_def set_items_def set_chars_def)
qed

lemma dropItem_move:
  assumes "carry_inv (core w)" "logged w i" "gs_CurrentRoomID (sess (iw_Sess w) i) \<noteq> 0"
  shows "one_move w (dropItem arg i w)"
proof (cases "MatchItem (to_lower arg) (in_inventory (iw_Items w) (gs_CharacterID (sess (iw_Sess w) i)))")
  case it: (Some it)
  let ?s = "sess (iw_Sess w) i"
  have own: "gs_CharacterID ?s \<noteq> 0" using match_member [OF it] by (auto simp: in_inventory_def)
  obtain I e where t: "TransferOwnerToRoom (iw_Items w) (it_ID it) (gs_CharacterID ?s) (gs_CurrentRoomID ?s) = (I, e)" by fastforce
  show ?thesis
  proof (cases e)
    case None
    have "item_at (iw_Items w) (it_ID it) (move_from 0 (gs_CharacterID ?s) 0 (gs_CurrentRoomID ?s) 0 0) = (I, None)"
      using t None own assms(3) by (simp add: TransferOwnerToRoom_def)
    from left_move [OF assms(1,2) same_gear_refl refl this] show ?thesis by (simp add: dropItem_def Let_def it t None)
  qed (simp add: dropItem_def Let_def it t)
qed (simp add: dropItem_def Let_def)

lemma drop_move:
  assumes "carry_inv (core w)" "logged w i"
  shows "one_move w (drop_verb now args i w)"
  using dropItem_move [OF assms] dropCoin_move [OF assms] by (simp add: drop_verb_def Let_def split: sum.split)

lemma version_moves: "i64 (v + 1) \<noteq> v"
  using wrap_cong_mod [of 64 "v + 1"] by auto

lemma giveCoin_move:
  assumes "carry_inv (core w)" "logged w i"
  shows "one_move w (giveCoin amount i peer w)"
proof -
  have ok: "repo_ok (iw_Chars w)" using assms(1) by (simp add: carry_inv_def core_def)
  obtain a where a: "repo_FindByName (iw_Chars w) (gs_CharacterName (sess (iw_Sess w) i)) = Inr a" using logged_found [OF assms(2)] by blast
  note row = logged_row(3) [OF ok assms(2) a]
  show ?thesis
  proof (cases "repo_FindByName (iw_Chars w) (gs_CharacterName (sess (iw_Sess w) peer))")
    case t: (Inr t)
    have trow: "repo_GetByID (iw_Chars w) (ch_ID t) = Inr t" by (rule named_row [OF ok t])
    have range: "in_range 64 (ch_Coin a)" "in_range 64 (ch_Coin t)"
      using assms(1) row trow by (simp_all add: carry_inv_def core_def coin_range_def)
    show ?thesis
    proof (cases "amount \<le> 0")
      case pos: False
      show ?thesis
      proof (cases "debit a amount")
        case (Inr x)
        have x: "x = ch_Coin a - amount" "in_range 64 amount" "in_range 64 x" using debit_Inr [OF Inr range(1)] pos not_le by blast+
        show ?thesis
        proof (cases "amount_Add (ch_Coin t) amount")
          case y: (Inr y)
          have y': "y = ch_Coin t + amount" "in_range 64 y" using Add_Inr [OF y range(2) x(2)] by blast+
          obtain C where C: "repo_RecordCoin (iw_Chars w) (ch_ID a) x (ch_BankBalance a) (ch_CoinVersion a) = (C, None)"
            using coin_rows [OF row, of x "ch_BankBalance a"] by (metis prod.collapse)
          have C': "C = fst (repo_RecordCoin (iw_Chars w) (ch_ID a) x (ch_BankBalance a) (ch_CoinVersion a))" using C by simp
          have undone: "one_move w (set_chars (fst (repo_RecordCoin C (ch_ID a) (ch_Coin a) (ch_BankBalance a) (i64 (ch_CoinVersion a + 1)))) w)"
            unfolding one_move_def using carry_move.books [OF rollback_gear [OF x(3) range(1)] rollback_purse [OF row]]
            by (simp add: core_def C')
          obtain D e where D: "repo_RecordCoin C (ch_ID t) y (ch_BankBalance t) (ch_CoinVersion t) = (D, e)" by fastforce
          show ?thesis
          proof (cases e)
            case (Some err)
            then show ?thesis using undone by (simp add: giveCoin_def Let_def a t pos Inr y C D)
          next
            case None
            have ne: "ch_ID t \<noteq> ch_ID a"
            proof
              assume same: "ch_ID t = ch_ID a"
              then have ta: "t = a" using row trow by simp
              have "repo_GetByID C (ch_ID t) = Inr (paid x (ch_BankBalance a) a)" using coin_rows [OF row] same by (simp add: C')
              moreover have "coin_write y (ch_BankBalance t) (ch_CoinVersion t) (paid x (ch_BankBalance a) a) = Inl ErrCoinConflict"
                using version_moves by (simp add: coin_write_def paid_def ta)
              ultimately show False using D None char_store.refused by (metis Pair_inject option.distinct(1) repo_RecordCoin_def)
            qed
            have g: "repo_GetByID C (ch_ID t) = Inr t" using coin_rows [OF row] trow ne by (simp add: C')
            have D': "D = fst (repo_RecordCoin C (ch_ID t) y (ch_BankBalance t) (ch_CoinVersion t))" using D by simp
            have "purses D = purses (iw_Chars w)"
              using coin_purse [OF g, of y "ch_BankBalance t"] coin_purse [OF row, of x "ch_BankBalance a"] x(1) y'(1)
              by (simp add: D' C' worth_def)
            moreover have "same_gear (iw_Chars w) D"
              unfolding D' C' by (rule rollback_gear [OF x(3) y'(2)])
            ultimately have "one_move w (set_chars D w)" unfolding one_move_def using carry_move.books by (simp add: core_def)
            then show ?thesis by (simp add: giveCoin_def Let_def a t pos Inr y C D None)
          qed
        qed (simp add: giveCoin_def Let_def a t pos Inr)
      qed (simp add: giveCoin_def Let_def a t pos)
    qed (simp add: giveCoin_def)
  qed (simp add: giveCoin_def Let_def a)
qed

lemma giveItem_move:
  assumes "carry_inv (core w)" "logged w i"
  shows "one_move w (giveItem arg i peer w)"
proof (cases "MatchItem (to_lower (trim_space arg)) (in_inventory (iw_Items w) (gs_CharacterID (sess (iw_Sess w) i)))")
  case it: (Some it)
  let ?s = "sess (iw_Sess w) i" and ?p = "sess (iw_Sess w) peer"
  have own: "gs_CharacterID ?s \<noteq> 0" using match_member [OF it] by (auto simp: in_inventory_def)
  show ?thesis
  proof (cases "repo_FindByName (iw_Chars w) (gs_CharacterName ?p)")
    case c: (Inr c)
    obtain I e where t: "TransferOwnerToOwner (iw_Items w) (it_ID it) (gs_CharacterID ?s) (gs_CharacterID ?p) = (I, e)" by fastforce
    show ?thesis
    proof (cases e)
      case None
      have "item_at (iw_Items w) (it_ID it) (move_from 0 (gs_CharacterID ?s) 0 0 (gs_CharacterID ?p) 0) = (I, None)"
        using t None own by (simp add: TransferOwnerToOwner_def split: if_splits)
      from left_move [OF assms same_gear_inventory this, where f = ch_ID]
      have "one_move w (set_items I (set_chars (fst (repo_RecordInventory (left_hands (gs_CharacterName ?s) ch_ID (it_ID it) (iw_Chars w)) j ids)) w))"
        for j ids by simp
      then show ?thesis by (simp add: giveItem_def Let_def it c t None)
    qed (simp add: giveItem_def Let_def it c t)
  qed (simp add: giveItem_def Let_def it)
qed (simp add: giveItem_def Let_def)

lemma give_move:
  assumes "carry_inv (core w)" "logged w i"
  shows "one_move w (give_verb args i w)"
  using giveItem_move [OF assms] giveCoin_move [OF assms] by (simp add: give_verb_def Let_def split: sum.split option.split)

lemma commit_move:
  assumes "carry_inv (core w)" "logged w i" "it \<in> set (in_inventory (iw_Items w) (gs_CharacterID (sess (iw_Sess w) i)))"
    and "fits_below (ir_items (iw_Items w)) (it_ID it) (it_ID container)"
  shows "one_move w (put_commit it container i w)"
proof -
  let ?s = "sess (iw_Sess w) i"
  have own: "gs_CharacterID ?s \<noteq> 0" using assms(3) by (auto simp: in_inventory_def)
  obtain I e where t: "TransferOwnerToContainer (iw_Items w) (it_ID it) (gs_CharacterID ?s) (it_ID container) = (I, e)" by fastforce
  show ?thesis
  proof (cases e)
    case None
    have "item_at (iw_Items w) (it_ID it) (move_from 0 (gs_CharacterID ?s) 0 0 0 (it_ID container)) = (I, None)"
      using t None own by (simp add: TransferOwnerToContainer_def split: if_splits)
    from left_move [OF assms(1,2) same_gear_refl refl this] assms(4) show ?thesis by (simp add: put_commit_def Let_def t None)
  qed (simp add: put_commit_def Let_def t)
qed

lemma found_container:
  assumes "items_ok (iw_Items w)" "find_container t i w = Some (container, onFloor)"
  shows "container \<in> set (ir_items (iw_Items w))" "it_ParentItemID container = 0"
  using assms(2) match_member room_item [OF assms(1)]
  by (fastforce simp: find_container_def Let_def in_inventory_def split: option.splits if_splits)+

lemma put_move:
  assumes "carry_inv (core w)" "logged w i"
  shows "\<exists>v. put_verb args i w = Some v \<and> one_move w v"
proof -
  let ?s = "sess (iw_Sess w) i"
  have ok: "items_ok (iw_Items w)" "depth_ok (ir_items (iw_Items w))" using assms(1) by (simp_all add: carry_inv_def core_def)
  obtain a b f where s: "splitInArgs args = (a, b, f)" by (metis prod_cases3)
  show ?thesis
  proof (cases f)
    case True
    show ?thesis
    proof (cases "MatchItem (to_lower (trim_space a)) (in_inventory (iw_Items w) (gs_CharacterID ?s))")
      case it: (Some it)
      note mem = match_member [OF it]
      show ?thesis
      proof (cases "find_container (to_lower (trim_space b)) i w")
        case box: (Some p)
        obtain container onFloor where p: "p = (container, onFloor)" by fastforce
        note found = found_container [OF ok(1) box [unfolded p]]
        show ?thesis
        proof (cases "it_ID it = it_ID container")
          case ne: False
          from put_known [OF ok mem ne found] obtain known where
            k: "known_rows (iw_Items w) (gs_CharacterID ?s) container onFloor = Some known"
            "canPut (length (ir_items (iw_Items w)) + 4) container it known (byID_of known) \<noteq> None"
            "canPut (length (ir_items (iw_Items w)) + 4) container it known (byID_of known) = Some putOK \<Longrightarrow>
               fits_below (ir_items (iw_Items w)) (it_ID it) (it_ID container)" by blast
          obtain res where r: "canPut (length (ir_items (iw_Items w)) + 4) container it known (byID_of known) = Some res" using k(2) by blast
          have c: "res = putOK \<Longrightarrow> one_move w (put_commit it container i w)"
            by (rule commit_move [OF assms mem k(3)]) (simp add: r)
          show ?thesis
            using c by (cases res) (simp_all add: put_verb_def Let_def s True it box p ne k(1) r)
        qed (simp add: put_verb_def Let_def s True it box p)
      qed (simp add: put_verb_def Let_def s True it)
    qed (simp add: put_verb_def Let_def s True)
  qed (simp add: put_verb_def Let_def s)
qed

section \<open>Listing and gifts\<close>

text \<open>The listing shows every row once, whatever the stored order says, if the index holds no other rows.\<close>

lemma order_loop_spec:
  assumes "\<And>k it. byID k = Some it \<Longrightarrow> it_ID it = k"
  shows "order_loop byID ks (out, seen) = (out', seen') \<Longrightarrow> set seen = it_ID ` set out \<Longrightarrow> distinct (map it_ID out) \<Longrightarrow>
    set seen' = it_ID ` set out' \<and> distinct (map it_ID out') \<and> (\<forall>it\<in>set out'. it \<in> set out \<or> byID (it_ID it) = Some it)"
proof (induction ks arbitrary: out seen)
  case (Cons k ks)
  show ?case
  proof (cases "byID k")
    case (Some it)
    then have id: "it_ID it = k" by (rule assms)
    show ?thesis
    proof (cases "k \<in> set seen")
      case False
      then have "order_loop byID ks (out @ [it], k # seen) = (out', seen')" using Cons.prems(1) Some by simp
      from Cons.IH [OF this] Cons.prems(2,3) False id Some show ?thesis by auto
    qed (use Cons Some in auto)
  qed (use Cons in auto)
qed simp

lemma order_exact:
  assumes "distinct (map it_ID rows)" "\<And>k it. byID k = Some it \<Longrightarrow> it_ID it = k \<and> it \<in> set rows"
  shows "set (orderInventory ks rows byID) = set rows \<and> distinct (map it_ID (orderInventory ks rows byID))"
proof -
  obtain out seen where o: "order_loop byID ks ([], []) = (out, seen)" by fastforce
  have "set seen = it_ID ` set out" "distinct (map it_ID out)" "\<forall>it\<in>set out. byID (it_ID it) = Some it"
    using order_loop_spec [OF _ o] assms(2) by auto
  note spec = this
  have sub: "set out \<subseteq> set rows" using spec(3) assms(2) by blast
  have inj: "x = y" if "x \<in> set rows" "y \<in> set rows" "it_ID x = it_ID y" for x y
    using assms(1) that unfolding distinct_map inj_on_def by blast
  have all: "x \<in> set out" if x: "x \<in> set rows" "it_ID x \<in> set seen" for x
  proof -
    obtain y where "y \<in> set out" "it_ID y = it_ID x" using x(2) spec(1) by auto
    with inj sub x(1) show ?thesis by blast
  qed
  have "set (orderInventory ks rows byID) = set rows" using sub all by (auto simp: orderInventory_def o)
  moreover have "distinct (map it_ID (orderInventory ks rows byID))"
    using spec(1,2) distinct_map_filter [OF assms(1)] by (auto simp: orderInventory_def o) (metis imageI)
  ultimately show ?thesis by blast
qed

text \<open>A gift is announced to everybody in the room, also to those who do not see the giver.\<close>

lemma gift_reveals:
  assumes "p \<in> set (Snapshot (iw_Sess w))" "p \<noteq> i" "p \<noteq> peer"
    and "gs_CurrentRoomID (sess (iw_Sess w) p) = gs_CurrentRoomID (sess (iw_Sess w) i)"
  shows "(p, msg) \<in> set (ss_Out (iw_Sess (announce_gift msg i peer w)))"
proof -
  let ?step = "\<lambda>q v. if q = i \<or> q = peer \<or> gs_CurrentRoomID (sess (iw_Sess v) q) \<noteq> gs_CurrentRoomID (sess (iw_Sess v) i) then v
      else carry_tell q msg v"
  have grows: "x \<in> set (ss_Out (iw_Sess v)) \<Longrightarrow> x \<in> set (ss_Out (iw_Sess (fold ?step ps v)))" for x ps v
    by (induction ps arbitrary: v) (auto simp: carry_tell_def)
  have "p \<in> set ps \<Longrightarrow> sess (iw_Sess v) = sess (iw_Sess w) \<Longrightarrow> (p, msg) \<in> set (ss_Out (iw_Sess (fold ?step ps v)))" for ps v
  proof (induction ps arbitrary: v)
    case (Cons q ps)
    show ?case
    proof (cases "q = p")
      case True
      then have "?step q v = carry_tell p msg v" using assms(2-4) Cons.prems(2) by simp
      moreover have "(p, msg) \<in> set (ss_Out (iw_Sess (carry_tell p msg v)))" by (simp add: carry_tell_def)
      ultimately show ?thesis using grows by simp
    next
      case False
      have "sess (iw_Sess (?step q v)) = sess (iw_Sess w)" using Cons.prems(2) by simp
      from Cons.IH [OF _ this] Cons.prems(1) False show ?thesis by simp
    qed
  qed simp
  from this [OF assms(1) refl] show ?thesis by (simp add: announce_gift_def)
qed

section \<open>Any sequence of carrying verbs\<close>

datatype carry_op = CGet "string list" | CDrop int "string list" | CGive "string list" | CPut "string list"
  | CWear "string list" | CWield "string list" | CRemove "string list"

fun carry_verb :: "carry_op \<Rightarrow> sid \<Rightarrow> CarryWorld \<Rightarrow> CarryWorld option" where
  "carry_verb (CGet args) i w = get_verb args i w"
| "carry_verb (CDrop now args) i w = Some (drop_verb now args i w)"
| "carry_verb (CGive args) i w = Some (give_verb args i w)"
| "carry_verb (CPut args) i w = put_verb args i w"
| "carry_verb (CWear args) i w = Some (wear_verb args i w)"
| "carry_verb (CWield args) i w = Some (wield_verb args i w)"
| "carry_verb (CRemove args) i w = Some (remove_verb args i w)"

fun carry_run :: "(sid \<times> carry_op) list \<Rightarrow> CarryWorld \<Rightarrow> CarryWorld option" where
  "carry_run [] w = Some w"
| "carry_run ((i, op) # ops) w = (case carry_verb op i w of None \<Rightarrow> None | Some v \<Rightarrow> carry_run ops v)"

lemma carry_verb_move:
  "carry_inv (core w) \<Longrightarrow> logged w i \<Longrightarrow> \<exists>v. carry_verb op i w = Some v \<and> one_move w v"
  by (cases op) (simp_all add: get_move drop_move give_move put_move wear_move wield_move remove_move)

lemma carry_run_keeps:
  "carry_inv (core w) \<Longrightarrow> \<forall>p\<in>set ops. logged w (fst p) \<Longrightarrow> ir_maxID (iw_Items w) + int (length ops) \<le> MaxInt64 \<Longrightarrow>
   \<exists>v. carry_run ops w = Some v \<and> carry_inv (core v) \<and> total_coin (core v) = total_coin (core w)"
proof (induction ops arbitrary: w)
  case (Cons p ops)
  obtain i op where p: "p = (i, op)" by fastforce
  obtain v where v: "carry_verb op i w = Some v" "one_move w v" using carry_verb_move [OF Cons.prems(1)] Cons.prems(2) p by fastforce
  have keep: "carry_inv (core v)" "total_coin (core v) = total_coin (core w)" "who (iw_Chars v) = who (iw_Chars w)"
    "ir_maxID (iw_Items v) \<le> ir_maxID (iw_Items w) + 1"
    using carry_move_keeps [of "core w" "core v"] v(2) Cons.prems(1,3) by (simp_all add: one_move_def core_def)
  have "\<forall>q\<in>set ops. logged v (fst q)" using Cons.prems(2) v(2) keep(3) by (simp add: logged_def one_move_def)
  from Cons.IH [OF keep(1) this] keep(2,4) Cons.prems(3) v(1) show ?case by (simp add: p)
qed simp

definition carry_world :: CarryWorld where
  "carry_world = \<lparr>iw_Sess = \<lparr>ss_heap = [(0, zero_Session\<lparr>gs_CharacterID := 1, gs_CharacterName := ''Rand'', gs_CurrentRoomID := 5\<rparr>)],
       ss_bound = [(1, 0)], ss_Out = []\<rparr>,
     iw_Items = \<lparr>ir_items = [sample_item 1 0 1 0], ir_byExt = {''1''}, ir_maxID = 1\<rparr>,
     iw_Chars = \<lparr>mr_nextID = 1, mr_byLower = [(''rand'', sample_character\<lparr>ch_ID := 1, ch_NameLower := ''rand'',
       ch_Equipment := sample_equip\<lparr>eq_Armor := 0, eq_PrimaryWield := 0, eq_Outfit := 1\<rparr>\<rparr>)]\<rparr>\<rparr>"

lemma carry_world_ok: "carry_inv (core carry_world)" "logged carry_world 0" "wealth carry_world = 100"
proof -
  let ?I = "iw_Items carry_world" and ?C = "iw_Chars carry_world"
  have one: "show_int 1 = ''1''" by code_simp
  have low: "to_lower ''Rand'' = ''rand''" by code_simp
  have row: "repo_GetByID ?C i = Inr c \<Longrightarrow> i = 1 \<and> ch_ID c = 1 \<and> ch_Coin c = 100 \<and>
      ch_Equipment c = sample_equip\<lparr>eq_Armor := 0, eq_PrimaryWield := 0, eq_Outfit := 1\<rparr>" for i c
    by (auto simp: GetByID_Inr carry_world_def sample_character_def split: if_splits)
  have item: "item_GetByID ?I k = (if k = 1 then Inr (sample_item 1 0 1 0) else Inl ErrItemNotFound)" for k
    by (simp add: item_GetByID_def carry_world_def sample_item_def)
  have r: "repo_ok ?C" by (simp add: repo_ok_def carry_world_def sample_character_def low)
  have i: "items_ok ?I" by (simp add: items_ok_def carry_world_def sample_item_def one_place_def one)
  have "depth_ok (ir_items ?I)"
    using i by (simp add: depth_ok_def up_parent parent_in_def item sample_item_def eval_nat_numeral)
  moreover have "gear_ok ?I ?C"
    unfolding gear_ok_def
  proof (intro allI impI)
    fix i c
    assume "repo_GetByID ?C i = Inr c"
    note c = row [OF this]
    have "equip_Get (ch_Equipment c) s = (if s = SlotOutfit then 1 else 0)" for s
      using c by (cases s) (simp_all add: sample_equip_def)
    then show "geared ?I c" using c by (auto simp: geared_def equip.single_def in_pack_def item sample_item_def)
  qed
  moreover have "coin_range ?C" "value_range ?I" using row by (auto simp: coin_range_def value_range_def item sample_item_def in_range_64)
  ultimately show "carry_inv (core carry_world)" using r i by (simp add: carry_inv_def core_def)
  show "logged carry_world 0"
    by (simp add: logged_def who_def carry_world_def sess_def map_get_def low)
  show "wealth carry_world = 100"
    by (simp add: wealth_def purses_def piles_def worth_def carry_world_def sample_character_def sample_item_def isCoinPile_def coinPilePrefix_def one)
qed

text \<open>C39: No coin is made or lost by carrying: whatever the players of a consistent world get, drop, give, put, wear, wield and remove, the
  verbs return, and the coin in purses, accounts and piles together is what it was.\<close>

theorem coin_is_conserved:
  assumes "carry_inv (core w)" "\<forall>p\<in>set ops. logged w (fst p)" "ir_maxID (iw_Items w) + int (length ops) \<le> MaxInt64"
  shows "\<exists>v. carry_run ops w = Some v \<and> wealth v = wealth w"
  using carry_run_keeps [OF assms] by (auto simp: wealth_def total_coin_def core_def)

theorem coin_is_conserved_witness:
  "\<exists>v. carry_run [(0, CDrop 5 [''3'']), (0, CGet [''coins''])] carry_world = Some v \<and> wealth v = 100"
proof -
  have "ir_maxID (iw_Items carry_world) = 1" by (simp add: carry_world_def)
  then show ?thesis
    using coin_is_conserved [OF carry_world_ok(1), of "[(0, CDrop 5 [''3'']), (0, CGet [''coins''])]"] carry_world_ok(2,3) by simp
qed

text \<open>C40: The carrying verbs keep order: after any of them every worn or wielded item is carried by its wearer at top level and fills one
  slot, and no chain of containers is deeper than three.\<close>

theorem carrying_keeps_order:
  assumes "carry_inv (core w)" "\<forall>p\<in>set ops. logged w (fst p)" "ir_maxID (iw_Items w) + int (length ops) \<le> MaxInt64"
    and "carry_run ops w = Some v"
  shows "depth_ok (ir_items (iw_Items v))
    \<and> (\<forall>i c slot k. repo_GetByID (iw_Chars v) i = Inr c \<and> equip_Get (ch_Equipment c) slot = k \<and> k \<noteq> 0 \<longrightarrow>
         (\<exists>it. item_GetByID (iw_Items v) k = Inr it \<and> it_OwnerCharacterID it = i \<and> it_ParentItemID it = 0)
         \<and> (\<forall>slot'. equip_Get (ch_Equipment c) slot' = k \<longrightarrow> slot' = slot))"
proof -
  have v: "carry_inv (core v)" using carry_run_keeps [OF assms(1-3)] assms(4) by auto
  have "(\<exists>it. item_GetByID (iw_Items v) k = Inr it \<and> it_OwnerCharacterID it = i \<and> it_ParentItemID it = 0)
      \<and> (\<forall>slot'. equip_Get (ch_Equipment c) slot' = k \<longrightarrow> slot' = slot)"
    if c: "repo_GetByID (iw_Chars v) i = Inr c" "equip_Get (ch_Equipment c) slot = k" "k \<noteq> 0" for i c slot k
  proof -
    have "geared (iw_Items v) c" using v c(1) by (simp add: carry_inv_def core_def gear_ok_def)
    with c(2,3) row_id [OF c(1)] show ?thesis by (auto simp: geared_def in_pack_def equip.single_def)
  qed
  with v show ?thesis by (auto simp: carry_inv_def core_def)
qed

theorem carrying_keeps_order_witness:
  "\<exists>v. carry_run [(0, CWear [''rock''])] carry_world = Some v \<and> depth_ok (ir_items (iw_Items v))"
proof -
  let ?ops = "[(0, CWear [''rock''])]"
  have m: "ir_maxID (iw_Items carry_world) + int (length ?ops) \<le> MaxInt64" by (simp add: carry_world_def)
  have l: "\<forall>p\<in>set ?ops. logged carry_world (fst p)" using carry_world_ok(2) by simp
  obtain v where v: "carry_run ?ops carry_world = Some v" by simp
  from carrying_keeps_order [OF carry_world_ok(1) l m v] v show ?thesis by blast
qed

end
