(* ===== verification/FightVerbs.thy ===== *)
theory FightVerbs
  imports CombatPulse Gear RoomRepo
begin

text \<open>
  The verbs of a fight: \<open>attack\<close>, \<open>power\<close> and \<open>jab\<close> (\<open>internal/cmd/attack.go\<close>), \<open>throw\<close>, \<open>parry\<close>, \<open>dodge\<close>, \<open>flee\<close>, \<open>sidestep\<close>, \<open>pvp\<close> and the
  level they ask for (\<open>level.go\<close>), over the combat manager. The party manager is wired and an argument. In-memory lookups fail only for
  a missing row. The lemmas say whom a fight may be started with, and what becomes of the action of a latecomer.
\<close>

section \<open>Guards\<close>

record FightWorld =
  fw_Sess :: Sessions
  fw_Rooms :: MemoryRoomRepo
  fw_Combat :: CombatWorld

definition fight_tell :: "sid \<Rightarrow> string \<Rightarrow> FightWorld \<Rightarrow> FightWorld" where
  "fight_tell i msg w = w\<lparr>fw_Sess := write_to i msg (fw_Sess w)\<rparr>"

definition fight_shout :: "sid \<Rightarrow> sid option \<Rightarrow> string \<Rightarrow> FightWorld \<Rightarrow> FightWorld" where
  "fight_shout i peer msg w =
     w\<lparr>fw_Sess := broadcastRoomExcept2 (gs_CurrentRoomID (sess (fw_Sess w) i)) (Some i) peer msg (fw_Sess w)\<rparr>"

definition set_combat :: "CombatWorld \<Rightarrow> FightWorld \<Rightarrow> FightWorld" where
  "set_combat c w = w\<lparr>fw_Combat := c\<rparr>"

definition NewbiePvPLevelCap :: int where "NewbiePvPLevelCap = 10"

definition characterLevel :: "Character \<Rightarrow> int" where
  "characterLevel ch = sum_list (map snd (ch_ClassLevels ch))"

definition long_dash :: string where "long_dash = [CHR 0xE2, CHR 0x80, CHR 0x94]"

definition youre :: "string \<Rightarrow> string" where "youre s = ''You'' @ [CHR 0x27] @ ''re '' @ s"

definition cant :: "string \<Rightarrow> string" where "cant s = ''You can'' @ not' @ '' '' @ s"

text \<open>The refusal, if any; \<open>None\<close> for the room is one that could not be read.\<close>

definition pvpRefusalReason :: "Room option \<Rightarrow> Character \<Rightarrow> Character \<Rightarrow> bool \<Rightarrow> string option" where
  "pvpRefusalReason room attacker defender sameGroup =
     (if (case room of None \<Rightarrow> True | Some r \<Rightarrow> rf_NoPVP (rm_Flags r)) then
        Some (yellow (''These grounds are sanctified '' @ long_dash @ '' no violence between travelers here.''))
      else if sameGroup then
        Some (yellow (ch_Name defender @ '' is a comrade '' @ long_dash @ '' you won'' @ not' @ '' strike them.''))
      else if characterLevel attacker < NewbiePvPLevelCap then Some (yellow ''You are still too green for the killing fields.'')
      else if characterLevel defender < NewbiePvPLevelCap then Some (yellow (ch_Name defender @ '' is too green to be a fair target.''))
      else if \<not> ch_PvP attacker then
        Some (yellow (''You haven'' @ not' @ '' enabled PvP '' @ long_dash @ '' see `help pvp`.''))
      else if \<not> ch_PvP defender then Some (yellow (ch_Name defender @ '' hasn'' @ not' @ '' enabled PvP.''))
      else None)"

definition room_of :: "sid \<Rightarrow> FightWorld \<Rightarrow> Room option" where
  "room_of i w = (case room_FindByID (fw_Rooms w) (gs_CurrentRoomID (sess (fw_Sess w) i)) of Inl e \<Rightarrow> None | Inr r \<Rightarrow> Some r)"

definition peaceful :: "sid \<Rightarrow> FightWorld \<Rightarrow> bool" where
  "peaceful i w = (case room_of i w of None \<Rightarrow> False | Some r \<Rightarrow> rf_Peaceful (rm_Flags r))"

text \<open>Whom the argument names: a mob of the room, or a player the rules allow to fight.\<close>

definition pick_target :: "Manager \<Rightarrow> string \<Rightarrow> Character \<Rightarrow> sid \<Rightarrow> FightWorld \<Rightarrow> string + ActorRef \<times> string \<times> sid option" where
  "pick_target groups target char i w =
     (case MatchMob target (mob_ListInRoom (cw_Mobs (fw_Combat w)) (gs_CurrentRoomID (sess (fw_Sess w) i))) of
        Some mob \<Rightarrow> Inr (mob_ref (mi_ID mob), c_Name (mi_Core mob), None)
      | None \<Rightarrow>
          (case MatchPlayer target (fw_Sess w) i of
             None \<Rightarrow> Inl (yellow (''You don'' @ not' @ '' see them here.''))
           | Some peer \<Rightarrow>
               (case repo_GetByID (cw_Chars (fw_Combat w)) (gs_CharacterID (sess (fw_Sess w) peer)) of
                  Inl e \<Rightarrow> Inl (red ''They slip from your focus.'')
                | Inr tc \<Rightarrow>
                    (case pvpRefusalReason (room_of i w) char tc (SameGroup groups (gs_CharacterID (sess (fw_Sess w) i)) (ch_ID tc)) of
                       Some msg \<Rightarrow> Inl msg | None \<Rightarrow> Inr (char_ref (ch_ID tc), ch_Name tc, Some peer)))))"

section \<open>Engaging\<close>

text \<open>A fight that is already going on counts as started; then the action is queued. The result is the refusal, if any.\<close>

definition engage :: "string \<Rightarrow> int \<Rightarrow> ActorRef \<Rightarrow> Action \<Rightarrow> CombatWorld \<Rightarrow> CombatWorld \<times> string option" where
  "engage winded roomID actor a w =
     (let refused = red (cant ''engage right now.'');
          enqueue = (\<lambda>w1. case EnqueueAction roomID actor a w1 of
            (w2, None) \<Rightarrow> (w2, None)
          | (w2, Some e) \<Rightarrow> (w2, Some (if e = ErrInsufficientStamina then yellow (youre winded) else refused)))
      in case Start roomID [actor, a_Target a] w of
           (w1, Inl e) \<Rightarrow> if e \<noteq> ErrFightExists then (w1, Some refused) else enqueue w1
         | (w1, Inr f) \<Rightarrow> enqueue w1)"

fun attackPrepLines :: "AttackVariant \<Rightarrow> string \<Rightarrow> string \<times> string \<times> string" where
  "attackPrepLines VariantPower target = (''winds up a power strike against you!'', ''winds up a power strike at'',
     red (''You wind up a power strike against '' @ target @ ''.''))"
| "attackPrepLines VariantQuick target = (''snaps off a quick jab at you!'', ''snaps off a quick jab at'',
     red (''You snap off a quick jab at '' @ target @ ''.''))"
| "attackPrepLines _ target = (''readies an attack against you!'', ''moves to attack'',
     red (''You ready an attack against '' @ target @ ''.''))"

definition tell_peer :: "sid option \<Rightarrow> string \<Rightarrow> FightWorld \<Rightarrow> FightWorld" where
  "tell_peer peer msg w = (case peer of None \<Rightarrow> w | Some p \<Rightarrow> fight_tell p msg w)"

definition runAttack :: "Manager \<Rightarrow> string \<Rightarrow> AttackVariant \<Rightarrow> sid \<Rightarrow> FightWorld \<Rightarrow> FightWorld" where
  "runAttack groups target variant i w =
     (let s = sess (fw_Sess w) i
      in if gs_CurrentRoomID s = 0 then fight_tell i (yellow (cant ''fight here.'')) w
         else if peaceful i w then
           fight_tell i (yellow (''A profound peace settles here. '' @ cant ''bring yourself to attack.'')) w
         else case repo_FindByName (cw_Chars (fw_Combat w)) (gs_CharacterName s) of
                Inl e \<Rightarrow> fight_tell i (red ''You feel disoriented.'') w
              | Inr char \<Rightarrow>
                  (case pick_target groups target char i w of
                     Inl msg \<Rightarrow> fight_tell i msg w
                   | Inr (defender, name, peer) \<Rightarrow>
                       (case engage ''too winded.'' (gs_CurrentRoomID s) (char_ref (gs_CharacterID s))
                              \<lparr>a_Kind = ActionAttack, a_Variant = variant, a_Target = defender,
                               a_WeaponID = equip_Get (ch_Equipment char) SlotPrimaryWield\<rparr> (fw_Combat w) of
                          (c, Some msg) \<Rightarrow> fight_tell i msg (set_combat c w)
                        | (c, None) \<Rightarrow>
                            (case attackPrepLines variant name of (tail, verb, self) \<Rightarrow>
                               let actor = safeActor (fw_Sess w) i
                               in fight_tell i self (fight_shout i peer (red (actor @ '' '' @ verb @ '' '' @ name @ ''.''))
                                    (tell_peer peer (red (actor @ '' '' @ tail)) (set_combat c w)))))))"

definition parseAttackArgs :: "string list \<Rightarrow> (string \<times> AttackVariant) option" where
  "parseAttackArgs args0 =
     (if args0 = [] then None
      else let qual = to_lower (trim_space (List.last args0));
               variant = (if qual = ''power'' then VariantPower else if qual = ''quick'' then VariantQuick else VariantNormal);
               args = (if qual \<in> {''power'', ''quick'', ''normal''} then butlast args0 else args0);
               target = to_lower (trim_space (join '' '' args))
           in if args = [] \<or> target = [] then None else Some (target, variant))"

definition attack_verb :: "Manager \<Rightarrow> string list \<Rightarrow> sid \<Rightarrow> FightWorld \<Rightarrow> FightWorld" where
  "attack_verb groups args i w =
     (case parseAttackArgs args of
        None \<Rightarrow> fight_tell i (yellow (if args = [] then ''Attack what?'' else ''Usage: attack <target> [power|quick]'')) w
      | Some (target, variant) \<Rightarrow> runAttack groups target variant i w)"

definition power_verb :: "Manager \<Rightarrow> string list \<Rightarrow> sid \<Rightarrow> FightWorld \<Rightarrow> FightWorld" where
  "power_verb groups args i w =
     (let target = to_lower (trim_space (join '' '' args))
      in if target = [] then fight_tell i (yellow ''Power-strike what?'') w else runAttack groups target VariantPower i w)"

definition jab_verb :: "Manager \<Rightarrow> string list \<Rightarrow> sid \<Rightarrow> FightWorld \<Rightarrow> FightWorld" where
  "jab_verb groups args i w =
     (let target = to_lower (trim_space (join '' '' args))
      in if target = [] then fight_tell i (yellow ''Jab what?'') w else runAttack groups target VariantQuick i w)"

definition itemMatchesKeyword :: "Item \<Rightarrow> string \<Rightarrow> bool" where
  "itemMatchesKeyword it keyword0 =
     (let keyword = to_lower (trim_space keyword0)
      in if keyword = [] then False else case parseOrdinal keyword of (n, kw) \<Rightarrow> kw \<noteq> [] \<and> nameMatches (it_Name it) kw)"

definition throws :: "Item \<Rightarrow> bool" where
  "throws it = (case it_Stats it of StWeapon ws \<Rightarrow> to_lower (ws_Range ws) = ''thrown'' | _ \<Rightarrow> False)"

text \<open>What is thrown: the wielded weapon, when the keyword names it and it is made for throwing.\<close>

definition thrown_weapon :: "MemoryItemRepo \<Rightarrow> Character \<Rightarrow> string \<Rightarrow> string + Item" where
  "thrown_weapon items char weaponArg =
     (let wieldedID = equip_Get (ch_Equipment char) SlotPrimaryWield
      in if wieldedID = 0 then Inl (yellow (youre ''not wielding anything.''))
         else case item_GetByID items wieldedID of
                Inl e \<Rightarrow> Inl (red (cant ''seem to find your weapon.''))
              | Inr weapon \<Rightarrow>
                  if \<not> itemMatchesKeyword weapon weaponArg then Inl (yellow (youre ''not wielding that.''))
                  else if \<not> throws weapon then
                    Inl (yellow (''That won'' @ not' @ '' fly true '' @ long_dash @ '' it isn'' @ not' @ '' a throwing weapon.''))
                  else Inr weapon)"

text \<open>The dispatcher passes at least two words.\<close>

definition throw_verb :: "Manager \<Rightarrow> MemoryItemRepo \<Rightarrow> string list \<Rightarrow> sid \<Rightarrow> FightWorld \<Rightarrow> FightWorld" where
  "throw_verb groups items args i w =
     (let s = sess (fw_Sess w) i;
          weaponArg = to_lower (trim_space (hd args)); targetArg = to_lower (trim_space (join '' '' (tl args)))
      in if gs_CurrentRoomID s = 0 then fight_tell i (yellow (cant ''fight here.'')) w
         else if weaponArg = [] \<or> targetArg = [] then fight_tell i (yellow ''Usage: throw <weapon> <target>'') w
         else if peaceful i w then
           fight_tell i (yellow (''A profound peace settles here. '' @ cant ''bring yourself to throw.'')) w
         else case repo_FindByName (cw_Chars (fw_Combat w)) (gs_CharacterName s) of
                Inl e \<Rightarrow> fight_tell i (red ''You feel disoriented.'') w
              | Inr char \<Rightarrow>
                  (case thrown_weapon items char weaponArg of
                     Inl msg \<Rightarrow> fight_tell i msg w
                   | Inr weapon \<Rightarrow>
                       (case pick_target groups targetArg char i w of
                          Inl msg \<Rightarrow> fight_tell i msg w
                        | Inr (defender, name, peer) \<Rightarrow>
                            (case engage ''too winded to throw.'' (gs_CurrentRoomID s) (char_ref (gs_CharacterID s))
                                   \<lparr>a_Kind = ActionThrow, a_Variant = VariantNormal, a_Target = defender,
                                    a_WeaponID = equip_Get (ch_Equipment char) SlotPrimaryWield\<rparr> (fw_Combat w) of
                               (c, Some msg) \<Rightarrow> fight_tell i msg (set_combat c w)
                             | (c, None) \<Rightarrow>
                                 let actor = safeActor (fw_Sess w) i; item = (if it_Name weapon = [] then ''a weapon'' else it_Name weapon)
                                 in fight_tell i (red (''You take aim and throw '' @ item @ '' at '' @ name @ ''.''))
                                      (fight_shout i peer (red (actor @ '' hurls '' @ item @ '' at '' @ name @ ''.''))
                                        (tell_peer peer (red (actor @ '' takes aim and hurls '' @ item @ '' at you!'')) (set_combat c w)))))))"

section \<open>Stances\<close>

text \<open>\<open>parry\<close>, \<open>dodge\<close>, \<open>flee\<close> and \<open>sidestep\<close> need a fight in the room and queue their action.\<close>

definition queue_stance :: "Action \<Rightarrow> string \<Rightarrow> string \<Rightarrow> string option \<Rightarrow> string \<Rightarrow> sid \<Rightarrow> FightWorld \<Rightarrow> FightWorld" where
  "queue_stance a winded failed seen said i w =
     (let s = sess (fw_Sess w) i
      in case EnqueueAction (gs_CurrentRoomID s) (char_ref (gs_CharacterID s)) a (fw_Combat w) of
           (c, Some e) \<Rightarrow> fight_tell i (if e = ErrInsufficientStamina then yellow (youre winded) else red (cant failed)) (set_combat c w)
         | (c, None) \<Rightarrow>
             fight_tell i (yellow said)
               (case seen of None \<Rightarrow> set_combat c w | Some m \<Rightarrow> fight_shout i None (yellow m) (set_combat c w)))"

definition in_fight :: "sid \<Rightarrow> FightWorld \<Rightarrow> bool" where
  "in_fight i w \<longleftrightarrow> gs_CurrentRoomID (sess (fw_Sess w) i) \<noteq> 0 \<and> Active (gs_CurrentRoomID (sess (fw_Sess w) i)) (fw_Combat w)"

definition no_fight :: string where "no_fight = yellow (''You aren'' @ not' @ '' fighting anyone.'')"

definition parry_verb :: "sid \<Rightarrow> FightWorld \<Rightarrow> FightWorld" where
  "parry_verb i w =
     (if \<not> in_fight i w then fight_tell i no_fight w
      else case repo_FindByName (cw_Chars (fw_Combat w)) (gs_CharacterName (sess (fw_Sess w) i)) of
             Inl e \<Rightarrow> fight_tell i (red ''Your stance falters.'') w
           | Inr char \<Rightarrow>
               if equip_Get (ch_Equipment char) SlotPrimaryWield = 0 then fight_tell i (yellow ''You need a weapon to parry.'') w
               else queue_stance (zero_Action\<lparr>a_Kind := ActionParry, a_WeaponID := equip_Get (ch_Equipment char) SlotPrimaryWield\<rparr>)
                      ''too winded to parry.'' ''parry right now.''
                      (Some (safeActor (fw_Sess w) i @ '' raises a weapon to parry.'')) ''You raise your weapon to parry the next blow.'' i w)"

definition dodge_verb :: "sid \<Rightarrow> FightWorld \<Rightarrow> FightWorld" where
  "dodge_verb i w =
     (if \<not> in_fight i w then fight_tell i no_fight w
      else queue_stance (zero_Action\<lparr>a_Kind := ActionDodge\<rparr>) ''too winded to dodge.'' ''dodge right now.''
             (Some (safeActor (fw_Sess w) i @ '' drops into a wary crouch.'')) ''You brace and watch for an opening.'' i w)"

definition flee_verb :: "sid \<Rightarrow> FightWorld \<Rightarrow> FightWorld" where
  "flee_verb i w =
     (if \<not> in_fight i w then fight_tell i no_fight w
      else queue_stance (zero_Action\<lparr>a_Kind := ActionFlee\<rparr>) ''too winded to flee.'' ''flee right now.''
             None ''You look for an opening to flee.'' i w)"

definition sidestep_verb :: "string list \<Rightarrow> sid \<Rightarrow> FightWorld \<Rightarrow> FightWorld" where
  "sidestep_verb args i w =
     (let target = to_lower (trim_space (join '' '' args))
      in if \<not> in_fight i w then fight_tell i no_fight w
         else if target = [] then fight_tell i (yellow ''Sidestep whom?'') w
         else case (case MatchMob target (mob_ListInRoom (cw_Mobs (fw_Combat w)) (gs_CurrentRoomID (sess (fw_Sess w) i))) of
                      Some mob \<Rightarrow> Some (mob_ref (mi_ID mob), c_Name (mi_Core mob))
                    | None \<Rightarrow> map_option (\<lambda>p. (char_ref (gs_CharacterID (sess (fw_Sess w) p)), gs_CharacterName (sess (fw_Sess w) p)))
                                (MatchPlayer target (fw_Sess w) i)) of
                None \<Rightarrow> fight_tell i (yellow (''You don'' @ not' @ '' see them here.'')) w
              | Some (ref, name) \<Rightarrow>
                  queue_stance (zero_Action\<lparr>a_Kind := ActionSidestep, a_Target := ref\<rparr>) ''too winded to sidestep.'' ''sidestep right now.''
                    (Some (safeActor (fw_Sess w) i @ '' eyes '' @ name @ [CHR 0x27] @ ''s footing.''))
                    (''You slip aside, watching '' @ name @ [CHR 0x27] @ ''s next swing.'') i w)"

section \<open>Opting in\<close>

definition parsePvPArg :: "string \<Rightarrow> bool option" where
  "parsePvPArg s =
     (let t = to_lower (trim_space s)
      in if t \<in> {''on'', ''1'', ''true'', ''yes'', ''y''} then Some True
         else if t \<in> {''off'', ''0'', ''false'', ''no'', ''n''} then Some False else None)"

definition pvpStateLine :: "bool \<Rightarrow> string" where
  "pvpStateLine on = (if on then red ''PvP: on'' else ''{{PvP: off}}::green'' @ CRLF)"

definition pvp_verb :: "string list \<Rightarrow> sid \<Rightarrow> FightWorld \<Rightarrow> FightWorld" where
  "pvp_verb args i w =
     (let s = sess (fw_Sess w) i
      in if gs_CharacterID s = 0 then fight_tell i (yellow ''PvP unavailable on this session.'') w
         else case repo_FindByName (cw_Chars (fw_Combat w)) (gs_CharacterName s) of
                Inl e \<Rightarrow> fight_tell i (red ''Could not load your character.'') w
              | Inr ch \<Rightarrow>
                  if args = [] then fight_tell i (pvpStateLine (ch_PvP ch)) w
                  else case parsePvPArg (hd args) of
                         None \<Rightarrow> fight_tell i (yellow ''Usage: pvp [on|off]'') w
                       | Some on \<Rightarrow>
                           if on = ch_PvP ch then fight_tell i (pvpStateLine (ch_PvP ch)) w
                           else case repo_RecordPvP (cw_Chars (fw_Combat w)) (ch_ID ch) on of
                                  (chars, Some e) \<Rightarrow>
                                    fight_tell i (red ''Could not save your PvP setting.'') (set_combat ((fw_Combat w)\<lparr>cw_Chars := chars\<rparr>) w)
                                | (chars, None) \<Rightarrow> fight_tell i (pvpStateLine on) (set_combat ((fw_Combat w)\<lparr>cw_Chars := chars\<rparr>) w))"

section \<open>Whom a fight may be started with\<close>

text \<open>The refusals, read as what they leave.\<close>

lemma pvp_allowed:
  "pvpRefusalReason room a d same = None \<longleftrightarrow> (\<exists>r. room = Some r \<and> \<not> rf_NoPVP (rm_Flags r)) \<and> \<not> same
     \<and> 10 \<le> characterLevel a \<and> 10 \<le> characterLevel d \<and> ch_PvP a \<and> ch_PvP d"
  by (auto simp: pvpRefusalReason_def NewbiePvPLevelCap_def split: option.splits)

text \<open>A mob of the room, or another player in it whom the rules of the room, the party, the levels and both players' own choice leave
  open.\<close>

definition fair_target :: "Manager \<Rightarrow> Character \<Rightarrow> sid \<Rightarrow> FightWorld \<Rightarrow> ActorRef \<Rightarrow> bool" where
  "fair_target groups char i w d \<longleftrightarrow>
     (\<exists>mob\<in>set (mob_ListInRoom (cw_Mobs (fw_Combat w)) (gs_CurrentRoomID (sess (fw_Sess w) i))). d = mob_ref (mi_ID mob))
   \<or> (\<exists>peer tc r. peer \<noteq> i \<and> gs_CurrentRoomID (sess (fw_Sess w) peer) = gs_CurrentRoomID (sess (fw_Sess w) i)
        \<and> CanSee (fw_Sess w) (Some i) (Some peer)
        \<and> repo_GetByID (cw_Chars (fw_Combat w)) (gs_CharacterID (sess (fw_Sess w) peer)) = Inr tc \<and> d = char_ref (ch_ID tc)
        \<and> room_of i w = Some r \<and> \<not> rf_NoPVP (rm_Flags r)
        \<and> \<not> SameGroup groups (gs_CharacterID (sess (fw_Sess w) i)) (ch_ID tc)
        \<and> 10 \<le> characterLevel char \<and> 10 \<le> characterLevel tc \<and> ch_PvP char \<and> ch_PvP tc)"

lemma nth_match_in: "match_loop name n kw c xs = Some x \<Longrightarrow> x \<in> set xs"
  by (induction xs arbitrary: c) (auto split: if_splits)

lemma MatchMob_in: "MatchMob target xs = Some x \<Longrightarrow> x \<in> set xs"
  by (auto simp: MatchMob_def match_nth_def Let_def split: if_splits prod.splits dest: nth_match_in)

lemma pick_fair: "pick_target groups target char i w = Inr (d, name, peer) \<Longrightarrow> fair_target groups char i w d"
proof (cases "MatchMob target (mob_ListInRoom (cw_Mobs (fw_Combat w)) (gs_CurrentRoomID (sess (fw_Sess w) i)))")
  case (Some mob)
  moreover assume "pick_target groups target char i w = Inr (d, name, peer)"
  ultimately have "d = mob_ref (mi_ID mob)" by (simp add: pick_target_def)
  with MatchMob_in [OF Some] show ?thesis unfolding fair_target_def by blast
next
  case None
  assume p: "pick_target groups target char i w = Inr (d, name, peer)"
  with None obtain q where q: "MatchPlayer target (fw_Sess w) i = Some q" by (auto simp: pick_target_def split: option.splits)
  with p None obtain tc where tc: "repo_GetByID (cw_Chars (fw_Combat w)) (gs_CharacterID (sess (fw_Sess w) q)) = Inr tc"
    by (auto simp: pick_target_def split: sum.splits)
  from p None q tc have "pvpRefusalReason (room_of i w) char tc (SameGroup groups (gs_CharacterID (sess (fw_Sess w) i)) (ch_ID tc)) = None"
    "d = char_ref (ch_ID tc)" by (auto simp: pick_target_def split: option.splits)
  then show ?thesis using MatchPlayer_facts [OF q] tc unfolding pvp_allowed fair_target_def by blast
qed

text \<open>What a verb may do to the fight of a room: nothing, open it for the two, or queue the action in it.\<close>

definition fight_begun :: "ActorRef \<Rightarrow> Action \<Rightarrow> Fight option \<Rightarrow> Fight option \<Rightarrow> bool" where
  "fight_begun a ac old new \<longleftrightarrow> new = old \<or> (\<exists>f. new = Some f \<and>
     (case old of
        Some f0 \<Rightarrow> f = f0\<lparr>ft_Actions := map_put a ac (ft_Actions f0)\<rparr>
      | None \<Rightarrow> mset (map e_Ref (ft_Order f)) = mset [a, a_Target ac] \<and> ft_Actions f \<in> {[], [(a, ac)]}))"

lemma enqueue_spec:
  "Get q (fst (EnqueueAction r a ac c)) =
     (if q = r \<and> snd (EnqueueAction r a ac c) = None
      then map_option (\<lambda>f. f\<lparr>ft_Actions := map_put a ac (ft_Actions f)\<rparr>) (Get r c) else Get q c)"
  by (auto simp: EnqueueAction_def Get_def on_fight_def map_of_put)

text \<open>The store and the answer of the last step of \<open>engage\<close>.\<close>

lemma engage_cases:
  "\<exists>w1 res. Start r [a, a_Target ac] c = (w1, res) \<and>
     (engage winded r a ac c = (w1, Some (red (cant ''engage right now.''))) \<or>
      ((\<exists>f. res = Inr f) \<or> res = Inl ErrFightExists) \<and> fst (engage winded r a ac c) = fst (EnqueueAction r a ac w1)
        \<and> (snd (engage winded r a ac c) = None \<longleftrightarrow> snd (EnqueueAction r a ac w1) = None))"
  by (cases "Start r [a, a_Target ac] c"; cases "snd (Start r [a, a_Target ac] c)")
    (auto simp: engage_def Let_def split: prod.split option.split)

lemma engage_spec:
  "fight_begun a ac (Get r c) (Get r (fst (engage winded r a ac c)))
   \<and> (\<forall>q. q \<noteq> r \<longrightarrow> Get q (fst (engage winded r a ac c)) = Get q c)"
proof -
  obtain w1 res where st: "Start r [a, a_Target ac] c = (w1, res)"
    and en: "fst (engage winded r a ac c) = w1 \<or> fst (engage winded r a ac c) = fst (EnqueueAction r a ac w1)"
    using engage_cases [of r a ac c winded] by auto
  note ex = Start_exact [OF st]
  show ?thesis
  proof (cases res)
    case (Inl e)
    with ex have "Get q w1 = Get q c" for q by (simp add: Get_def)
    then show ?thesis using en enqueue_spec [of _ r a ac w1]
      by (cases "Get r c") (auto simp: fight_begun_def)
  next
    case (Inr f)
    with ex have f: "Get r c = None" "\<And>q. Get q w1 = (if q = r then Some f else Get q c)" "ft_Actions f = []"
      "mset (map e_Ref (ft_Order f)) = mset [a, a_Target ac]" by simp_all
    have w1: "Get r w1 = Some f" using f(2) by simp
    have new: "fight_begun a ac (Get r c) (Get r w1)" using f(1,3,4) by (simp add: w1 fight_begun_def)
    have "fight_begun a ac (Get r c) (Get r (fst (EnqueueAction r a ac w1)))"
    proof (cases "snd (EnqueueAction r a ac w1) = None")
      case True
      then have "Get r (fst (EnqueueAction r a ac w1)) = Some (f\<lparr>ft_Actions := map_put a ac (ft_Actions f)\<rparr>)"
        by (simp add: enqueue_spec w1)
      then show ?thesis using f(1,3,4) by (simp add: fight_begun_def map_put_def)
    next
      case False
      then have "Get r (fst (EnqueueAction r a ac w1)) = Get r w1"
        unfolding enqueue_spec by (simp only: simp_thms if_False)
      then show ?thesis using new by simp
    qed
    with new have "fight_begun a ac (Get r c) (Get r (fst (engage winded r a ac c)))" using en by metis
    moreover have "Get q (fst (engage winded r a ac c)) = Get q c" if "q \<noteq> r" for q
      using en f(2) [of q] that enqueue_spec [of q r a ac w1] by auto
    ultimately show ?thesis by blast
  qed
qed

text \<open>The fights after a verb that aims: as before, or changed for one fair target in the actor's own room.\<close>

definition struck_fairly :: "Manager \<Rightarrow> sid \<Rightarrow> FightWorld \<Rightarrow> FightWorld \<Rightarrow> bool" where
  "struck_fairly groups i w v \<longleftrightarrow> cw_Fights (fw_Combat v) = cw_Fights (fw_Combat w)
   \<or> (let r = gs_CurrentRoomID (sess (fw_Sess w) i); a = char_ref (gs_CharacterID (sess (fw_Sess w) i))
      in r \<noteq> 0 \<and> \<not> peaceful i w \<and> (\<forall>q. q \<noteq> r \<longrightarrow> Get q (fw_Combat v) = Get q (fw_Combat w))
         \<and> (\<exists>char ac. repo_FindByName (cw_Chars (fw_Combat w)) (gs_CharacterName (sess (fw_Sess w) i)) = Inr char
              \<and> a_Kind ac \<in> {ActionAttack, ActionThrow} \<and> fair_target groups char i w (a_Target ac)
              \<and> fight_begun a ac (Get r (fw_Combat w)) (Get r (fw_Combat v))))"

lemma fight_tell_combat [simp]:
  "fw_Combat (fight_tell i msg w) = fw_Combat w" "fw_Combat (fight_shout i peer msg w) = fw_Combat w"
  "fw_Combat (tell_peer peer msg w) = fw_Combat w" "fw_Combat (set_combat c w) = c"
  by (simp_all add: fight_tell_def fight_shout_def set_combat_def tell_peer_def split: option.split)

lemma struck_quietly: "fw_Combat v = fw_Combat w \<Longrightarrow> struck_fairly groups i w v"
  by (simp add: struck_fairly_def)

lemma struck_engage:
  assumes "gs_CurrentRoomID (sess (fw_Sess w) i) = r" "r \<noteq> 0" "\<not> peaceful i w"
    "repo_FindByName (cw_Chars (fw_Combat w)) (gs_CharacterName (sess (fw_Sess w) i)) = Inr char"
    "pick_target groups target char i w = Inr (d, name, peer)" "a_Target ac = d" "a_Kind ac \<in> {ActionAttack, ActionThrow}"
    "fw_Combat v = fst (engage winded r (char_ref (gs_CharacterID (sess (fw_Sess w) i))) ac (fw_Combat w))"
  shows "struck_fairly groups i w v"
proof -
  let ?a = "char_ref (gs_CharacterID (sess (fw_Sess w) i))"
  have "fight_begun ?a ac (Get r (fw_Combat w)) (Get r (fw_Combat v))" "\<forall>q. q \<noteq> r \<longrightarrow> Get q (fw_Combat v) = Get q (fw_Combat w)"
    using engage_spec [of ?a ac r "fw_Combat w" winded] unfolding assms(8) by blast+
  moreover have "fair_target groups char i w (a_Target ac)" using pick_fair [OF assms(5)] by (simp only: assms(6))
  ultimately show ?thesis using assms(2,3,4,7) unfolding struck_fairly_def Let_def assms(1) by blast
qed

lemma run_fair: "struck_fairly groups i w (runAttack groups target variant i w)"
proof (cases "gs_CurrentRoomID (sess (fw_Sess w) i) = 0 \<or> peaceful i w
    \<or> (\<exists>e. repo_FindByName (cw_Chars (fw_Combat w)) (gs_CharacterName (sess (fw_Sess w) i)) = Inl e)")
  case True
  then show ?thesis by (intro struck_quietly) (auto simp: runAttack_def Let_def)
next
  case False
  let ?s = "sess (fw_Sess w) i"
  from False obtain char where c: "repo_FindByName (cw_Chars (fw_Combat w)) (gs_CharacterName ?s) = Inr char"
    by (cases "repo_FindByName (cw_Chars (fw_Combat w)) (gs_CharacterName ?s)") auto
  show ?thesis
  proof (cases "pick_target groups target char i w")
    case (Inl msg)
    with False c show ?thesis by (intro struck_quietly) (simp add: runAttack_def Let_def)
  next
    case (Inr t)
    obtain d name peer where t: "t = (d, name, peer)" by (cases t) auto
    let ?a = "\<lparr>a_Kind = ActionAttack, a_Variant = variant, a_Target = d, a_WeaponID = equip_Get (ch_Equipment char) SlotPrimaryWield\<rparr>"
    obtain c2 e where e: "engage ''too winded.'' (gs_CurrentRoomID ?s) (char_ref (gs_CharacterID ?s)) ?a (fw_Combat w) = (c2, e)" by fastforce
    have v: "fw_Combat (runAttack groups target variant i w) = fst (engage ''too winded.'' (gs_CurrentRoomID ?s) (char_ref (gs_CharacterID ?s)) ?a (fw_Combat w))"
      using False c Inr by (cases e) (simp_all add: runAttack_def Let_def t e split: prod.split del: equip_Get.simps)
    show ?thesis by (rule struck_engage [OF refl _ _ c Inr [unfolded t] _ _ v]) (use False in simp_all)
  qed
qed

lemma throw_fair: "struck_fairly groups i w (throw_verb groups items args i w)"
proof (cases "gs_CurrentRoomID (sess (fw_Sess w) i) = 0 \<or> to_lower (trim_space (hd args)) = []
    \<or> to_lower (trim_space (join '' '' (tl args))) = [] \<or> peaceful i w
    \<or> (\<exists>e. repo_FindByName (cw_Chars (fw_Combat w)) (gs_CharacterName (sess (fw_Sess w) i)) = Inl e)")
  case True
  then show ?thesis by (intro struck_quietly) (auto simp: throw_verb_def Let_def)
next
  case g: False
  let ?s = "sess (fw_Sess w) i" and ?v = "throw_verb groups items args i w"
  from g obtain char where c: "repo_FindByName (cw_Chars (fw_Combat w)) (gs_CharacterName ?s) = Inr char"
    by (cases "repo_FindByName (cw_Chars (fw_Combat w)) (gs_CharacterName ?s)") auto
  consider msg where "?v = fight_tell i msg w"
    | weapon t where "thrown_weapon items char (to_lower (trim_space (hd args))) = Inr weapon"
        "pick_target groups (to_lower (trim_space (join '' '' (tl args)))) char i w = Inr t"
  proof (cases "thrown_weapon items char (to_lower (trim_space (hd args)))")
    case (Inl msg)
    then show ?thesis using g c by (intro that(1) [of msg]) (simp add: throw_verb_def Let_def)
  next
    case wp: (Inr weapon)
    show ?thesis
    proof (cases "pick_target groups (to_lower (trim_space (join '' '' (tl args)))) char i w")
      case (Inl msg)
      then show ?thesis using g c wp by (intro that(1) [of msg]) (simp add: throw_verb_def Let_def)
    qed (use that(2) wp in blast)
  qed
  then show ?thesis
  proof cases
    case 1
    then show ?thesis by (intro struck_quietly) simp
  next
    case (2 weapon t)
    note wp = 2(1) and Inr = 2(2)
    obtain d name peer where t: "t = (d, name, peer)" by (cases t) auto
    let ?a = "\<lparr>a_Kind = ActionThrow, a_Variant = VariantNormal, a_Target = d, a_WeaponID = equip_Get (ch_Equipment char) SlotPrimaryWield\<rparr>"
    obtain c2 e where e: "engage ''too winded to throw.'' (gs_CurrentRoomID ?s) (char_ref (gs_CharacterID ?s)) ?a (fw_Combat w) = (c2, e)" by fastforce
    have v: "fw_Combat ?v = fst (engage ''too winded to throw.'' (gs_CurrentRoomID ?s) (char_ref (gs_CharacterID ?s)) ?a (fw_Combat w))"
      using g c wp Inr by (cases e) (simp_all add: throw_verb_def Let_def t e del: equip_Get.simps)
    show ?thesis by (rule struck_engage [OF refl _ _ c Inr [unfolded t] _ _ v]) (use g in simp_all)
  qed
qed

text \<open>Whatever the words, an attacking verb changes the fights only for a fair target in the actor's own room that is not
  peaceful: it opens a fight of exactly the two, or queues one action against the target.\<close>

lemma attacks_respect_peace:
  assumes "v \<in> {attack_verb groups args i w, power_verb groups args i w, jab_verb groups args i w, throw_verb groups items args i w}"
  shows "struck_fairly groups i w v"
proof -
  have "struck_fairly groups i w (attack_verb groups args i w)"
    using run_fair by (auto simp: attack_verb_def intro!: struck_quietly split: option.split)
  moreover have "struck_fairly groups i w (power_verb groups args i w)" "struck_fairly groups i w (jab_verb groups args i w)"
    using run_fair by (auto simp: power_verb_def jab_verb_def Let_def intro!: struck_quietly)
  ultimately show ?thesis using assms throw_fair by blast
qed

section \<open>The latecomer\<close>

text \<open>An action of somebody who is not in the order of the fight is never popped: a pulse leaves it in the queue.\<close>

definition waits :: "ActorRef \<Rightarrow> Action \<Rightarrow> Fight option \<Rightarrow> bool" where
  "waits a ac fo = (case fo of None \<Rightarrow> True
     | Some f \<Rightarrow> distinct (map e_Ref (ft_Order f)) \<and> a \<notin> set (map e_Ref (ft_Order f)) \<and> map_of (ft_Actions f) a = Some ac)"

lemma pruned_actions: "ft_Actions (fst (pruneDead f)) = ft_Actions f"
  by (auto simp: pruneDead_def prune_loop_spec Let_def)

lemma waiting_stays: "waits a ac (Get r w) \<Longrightarrow> waits a ac (Get r (tickRoom env r w))"
proof (cases "Get r w")
  case None
  then show ?thesis by (simp add: tickRoom_def Get_def waits_def)
next
  case (Some f0)
  assume "waits a ac (Get r w)"
  then have w0: "distinct (map e_Ref (ft_Order f0))" "a \<notin> set (map e_Ref (ft_Order f0))" "map_of (ft_Actions f0) a = Some ac"
    by (simp_all add: waits_def Some)
  define f where "f = fst (pruneDead f0)"
  obtain P where P: "ft_Order f = filter P (ft_Order f0)" using pruned_order [of f0] unfolding f_def by blast
  have wf: "distinct (map e_Ref (ft_Order f))" "a \<notin> set (map e_Ref (ft_Order f))" "map_of (ft_Actions f) a = Some ac"
    using w0 by (auto simp: P distinct_map_filter) (simp add: pruned_actions f_def)
  show ?thesis
  proof (cases "fightHasLiveParticipants (ft_RoomID f0) (ft_Order f0) w \<and> ft_Order f \<noteq> []")
    case True
    then obtain g cost where g: "Get r (tickRoom env r w) = Some g"
      "ft_Order g = map (\<lambda>e. if e_NextActAt e \<le> fst (combat_now w)
         then e\<lparr>e_LastActedAt := Some (fst (combat_now w)), e_NextActAt := fst (combat_now w) + cost (e_Ref e)\<rparr> else e) (ft_Order f)"
      "\<And>b. map_of (ft_Actions g) b =
          (if \<exists>e\<in>set (ft_Order f). e_Ref e = b \<and> e_NextActAt e \<le> fst (combat_now w) then None else map_of (ft_Actions f) b)"
      using pulse_spec [OF Some [unfolded Get_def] _ f_def _ wf(1) refl, of env] by blast
    have "map e_Ref (ft_Order g) = map e_Ref (ft_Order f)" by (simp add: g(2) comp_def if_distrib cong: if_cong)
    moreover have "map_of (ft_Actions g) a = Some ac" using wf(2,3) by (auto simp: g(3))
    ultimately show ?thesis using wf(1,2) by (simp add: waits_def g(1))
  next
    case False
    then have "tickRoom env r w = close_fight r ''no_participants'' w"
      using Some by (auto simp: tickRoom_def Get_def f_def Let_def)
    then show ?thesis by (simp add: close_fight_def Get_def map_of_del waits_def)
  qed
qed

text \<open>Whoever attacks in a room where a fight is going on without it is told that it readies an attack, but \<open>Start\<close> refused it and nobody else puts
  it into the order: through any number of pulses the action stays queued, and the attacker never swings as long as the fight goes on.\<close>

lemma late_attack_waits:
  assumes "gs_CurrentRoomID (sess (fw_Sess w) i) = r" "char_ref (gs_CharacterID (sess (fw_Sess w) i)) = a"
    and "Get r (fw_Combat w) = Some f" "distinct (map e_Ref (ft_Order f))" "a \<notin> set (map e_Ref (ft_Order f))"
    and "map_of (ft_Actions f) a = None" "v = runAttack groups target variant i w" "PendingAction r a (fw_Combat v) = Some ac"
  shows "waits a ac (Get r ((tickRoom env r ^^ n) (fw_Combat v)))"
proof (induction n)
  case 0
  obtain g where g: "Get r (fw_Combat v) = Some g" "map_of (ft_Actions g) a = Some ac"
    using assms(8) by (auto simp: PendingAction_def Get_def split: option.splits)
  have "Get r (fw_Combat v) = Get r (fw_Combat w) \<or> (\<exists>b. fight_begun a b (Some f) (Get r (fw_Combat v)))"
    using run_fair [of groups i w target variant] assms(1,2,3,7) by (auto simp: struck_fairly_def Let_def Get_def)
  then have "ft_Order g = ft_Order f" using g assms(3,6) by (auto simp: fight_begun_def)
  then show ?case using g assms(4,5) by (simp add: waits_def)
next
  case (Suc n)
  then show ?case using waiting_stays by simp
qed

text \<open>A last word of \<open>attack\<close> that is no variant is part of the target, and the attack is a normal one; nothing is refused.\<close>

lemma trailing_word_joins_target:
  assumes "args \<noteq> []" "to_lower (trim_space (List.last args)) \<notin> {''power'', ''quick'', ''normal''}"
    and "to_lower (trim_space (join '' '' args)) \<noteq> []"
  shows "parseAttackArgs args = Some (to_lower (trim_space (join '' '' args)), VariantNormal)"
  using assms by (auto simp: parseAttackArgs_def Let_def)

end
