(* ===== verification/DayClock.thy ===== *)
theory DayClock
  imports RoomRepo Sessions
begin

text \<open>
  The day and night clock, the light of rooms, and the ambient lines at the turns of the day: \<open>internal/world/dayclock.go\<close> and
  \<open>phase_ambient.go\<close>. The time source is an argument, in nanoseconds; a division by zero is \<open>None\<close>. The authored ambient lines
  are a table that is an argument.
\<close>

section \<open>The clock\<close>

datatype Phase = PhaseDawn | PhaseDay | PhaseDusk | PhaseNight

record Clock =
  ck_baseTicks :: int
  ck_start :: int
  ck_tickInterval :: int
  ck_dayDuration :: int

definition NewClock :: "int \<Rightarrow> int \<Rightarrow> Clock" where
  "NewClock baseTicks now = \<lparr>ck_baseTicks = baseTicks, ck_start = now, ck_tickInterval = Second, ck_dayDuration = 30 * 60 * Second\<rparr>"

definition Ticks :: "Clock \<Rightarrow> int \<Rightarrow> int" where
  "Ticks c now = i64 (ck_baseTicks c + (now - ck_start c) sdiv ck_tickInterval c)"

definition ticksPerDay :: "Clock \<Rightarrow> int" where
  "ticksPerDay c = ck_dayDuration c sdiv ck_tickInterval c"

definition HourOfDay :: "Clock \<Rightarrow> int \<Rightarrow> int" where
  "HourOfDay c now =
     (let tpd = ticksPerDay c
      in if tpd \<le> 0 then 12
         else let p = Ticks c now smod tpd; p = (if p < 0 then p + tpd else p) in i64 (p * 24) sdiv tpd)"

definition Day :: "Clock \<Rightarrow> int \<Rightarrow> int" where
  "Day c now = (let tpd = ticksPerDay c in if tpd \<le> 0 then 0 else Ticks c now sdiv tpd)"

definition phase_at :: "int \<Rightarrow> int \<Rightarrow> Phase" where
  "phase_at tpd ticks =
     (if tpd \<le> 0 then PhaseDay
      else let q = tpd sdiv 4; p = ticks smod tpd
           in if p < q then PhaseDawn else if p < 2 * q then PhaseDay else if p < 3 * q then PhaseDusk else PhaseNight)"

definition clock_Phase :: "Clock \<Rightarrow> int \<Rightarrow> Phase" where
  "clock_Phase c now = phase_at (ticksPerDay c) (Ticks c now)"

definition applyCurve :: "int \<Rightarrow> int \<Rightarrow> int \<Rightarrow> int option" where
  "applyCurve baseline ticks tpd =
     (if tpd \<le> 0 \<or> baseline \<le> 0 then Some baseline
      else let q = tpd sdiv 4; p = ticks smod tpd
           in if p < q then if q = 0 then None else Some (i64 (baseline * p) sdiv q)
              else if p < 2 * q then Some baseline
              else if p < 3 * q then if q = 0 then None else Some (i64 (baseline * (3 * q - p)) sdiv q)
              else Some 0)"

abbreviation SectorUnderground :: Sector where "SectorUnderground \<equiv> ''underground''"

definition EffectiveLight :: "Clock \<Rightarrow> int \<Rightarrow> Room \<Rightarrow> int option" where
  "EffectiveLight c now room =
     (if rf_Dark (rm_Flags room) then Some 0
      else if rf_Indoors (rm_Flags room) \<or> rm_Sector room = SectorUnderground \<or> rm_Sector room = SectorUnderwater then Some (rm_LightLevel room)
      else applyCurve (rm_LightLevel room) (Ticks c now) (ticksPerDay c))"

section \<open>The turns of the day\<close>

datatype Transition = TransitionDawn | TransitionSunrise | TransitionDusk | TransitionNightfall

definition transitionFor :: "Phase \<Rightarrow> Phase \<Rightarrow> Transition option" where
  "transitionFor prev cur =
     (if prev = PhaseNight \<and> cur = PhaseDawn then Some TransitionDawn
      else if prev = PhaseDawn \<and> cur = PhaseDay then Some TransitionSunrise
      else if prev = PhaseDay \<and> cur = PhaseDusk then Some TransitionDusk
      else if prev = PhaseDusk \<and> cur = PhaseNight then Some TransitionNightfall
      else None)"

definition transitionStyles :: "Transition \<Rightarrow> string" where
  "transitionStyles t = (case t of TransitionDawn \<Rightarrow> ''cyan'' | TransitionSunrise \<Rightarrow> ''yellow'' | TransitionDusk \<Rightarrow> ''lightRed''
     | TransitionNightfall \<Rightarrow> ''blue'')"

type_synonym ambients = "Sector \<Rightarrow> (Transition \<Rightarrow> string) option"

definition ambientLine :: "ambients \<Rightarrow> Sector \<Rightarrow> Transition \<Rightarrow> string" where
  "ambientLine tab sector t = (case tab (if sector = [] then SectorCity else sector) of None \<Rightarrow> [] | Some lines \<Rightarrow> lines t)"

definition roomReceivesAmbient :: "ambients \<Rightarrow> Room \<Rightarrow> bool" where
  "roomReceivesAmbient tab room =
     (if rf_Silent (rm_Flags room) \<or> rf_Dark (rm_Flags room) \<or> rf_Indoors (rm_Flags room) then False
      else if rm_Sector room = SectorUnderground \<or> rm_Sector room = SectorUnderwater then False
      else if rm_Sector room = [] then True else tab (rm_Sector room) \<noteq> None)"

definition ambient_broadcast :: "ambients \<Rightarrow> MemoryRoomRepo \<Rightarrow> Transition \<Rightarrow> Sessions \<Rightarrow> Sessions" where
  "ambient_broadcast tab rooms t w =
     fold (\<lambda>i w. if gs_CharacterID (sess w i) = 0 \<or> gs_CurrentRoomID (sess w i) = 0 then w
                 else case room_FindByID rooms (gs_CurrentRoomID (sess w i)) of Inl e \<Rightarrow> w
                      | Inr room \<Rightarrow>
                          if \<not> roomReceivesAmbient tab room then w
                          else let line = ambientLine tab (rm_Sector room) t
                               in if line = [] then w else write_to i (''{{'' @ line @ ''}}::'' @ transitionStyles t) w)
       (Snapshot w) w"

record PhaseAmbientWatcher =
  pw_clock :: Clock
  pw_lastPhase :: Phase

definition NewPhaseAmbientWatcher :: "Clock \<Rightarrow> int \<Rightarrow> PhaseAmbientWatcher" where
  "NewPhaseAmbientWatcher c now = \<lparr>pw_clock = c, pw_lastPhase = clock_Phase c now\<rparr>"

definition ambient_Tick ::
    "ambients \<Rightarrow> MemoryRoomRepo \<Rightarrow> int \<Rightarrow> PhaseAmbientWatcher \<times> Sessions \<Rightarrow> PhaseAmbientWatcher \<times> Sessions" where
  "ambient_Tick tab rooms now = (\<lambda>(pw, s).
     let prev = pw_lastPhase pw; cur = clock_Phase (pw_clock pw) now
     in if prev = cur then (pw, s)
        else (pw\<lparr>pw_lastPhase := cur\<rparr>,
              case transitionFor prev cur of None \<Rightarrow> s | Some t \<Rightarrow> ambient_broadcast tab rooms t s))"

section \<open>The curve of the light\<close>

lemma curve_cases:
  assumes "4 \<le> tpd" "0 \<le> ticks" "0 < b" "b * tpd \<le> MaxInt64"
  shows "applyCurve b ticks tpd = Some (
      let q = tpd div 4; p = ticks mod tpd
      in if p < q then b * p div q else if p < 2 * q then b else if p < 3 * q then b * (3 * q - p) div q else 0)"
proof -
  let ?q = "tpd div 4" let ?p = "ticks mod tpd"
  have q: "tpd sdiv 4 = ?q" "ticks smod tpd = ?p" using assms by (simp_all add: sdiv_nonneg smod_nonneg)
  have r: "0 \<le> ?p" "?p < tpd" "0 < ?q" "?q \<le> tpd" using assms by auto
  have m: "0 \<le> b * x \<and> b * x \<le> MaxInt64" if "0 \<le> x" "x \<le> tpd" for x
    using order_trans [OF mult_left_mono [of x tpd b] assms(4)] that assms(3) by simp
  have i: "i64 (b * x) sdiv ?q = b * x div ?q" if "0 \<le> x" "x \<le> tpd" for x
    using m [OF that] r(3) by (simp add: i64_id sdiv_nonneg)
  show ?thesis using assms r i [of ?p] i [of "3 * ?q - ?p"] by (simp add: applyCurve_def q Let_def)
qed

lemma div_step:
  fixes x b q :: int
  assumes "0 < q" "0 \<le> b"
  shows "x div q \<le> (x + b) div q" "(x + b) div q \<le> x div q + b div q + 1"
proof -
  have "(x + b) div q = x div q + b div q + (x mod q + b mod q) div q" by (rule div_add1_eq)
  moreover have y: "0 \<le> x mod q + b mod q" "x mod q + b mod q < 2 * q"
    using pos_mod_sign [OF assms(1), of x] pos_mod_sign [OF assms(1), of b] pos_mod_bound [OF assms(1), of x]
      pos_mod_bound [OF assms(1), of b] by linarith+
  moreover have "0 \<le> (x mod q + b mod q) div q" using y(1) assms(1) by (simp add: pos_imp_zdiv_nonneg_iff)
  moreover have "(x mod q + b mod q) div q \<le> 1"
  proof (rule ccontr)
    let ?y = "x mod q + b mod q"
    assume "\<not> ?y div q \<le> 1"
    then have "q * 2 \<le> q * (?y div q)" using assms(1) by (intro mult_left_mono) simp_all
    moreover have "?y = q * (?y div q) + ?y mod q" by simp
    ultimately show False using y(2) pos_mod_sign [OF assms(1), of ?y] by linarith
  qed
  moreover have "0 \<le> b div q" using assms by (simp add: pos_imp_zdiv_nonneg_iff)
  ultimately show "x div q \<le> (x + b) div q" "(x + b) div q \<le> x div q + b div q + 1" by linarith+
qed

lemma next_tick: "0 < (tpd :: int) \<Longrightarrow> (t + 1) mod tpd = (if t mod tpd = tpd - 1 then 0 else t mod tpd + 1)"
proof -
  assume t: "0 < tpd"
  have "(t + 1) mod tpd = (t mod tpd + 1) mod tpd" by (simp add: mod_add_left_eq)
  moreover have "0 \<le> t mod tpd" "t mod tpd < tpd" using t by simp_all
  ultimately show ?thesis by auto
qed

text \<open>C31: Daylight. With at least four ticks to the day, the light of an outdoor room stays between nothing and its authored level, is
  the full level all day and nothing all night, never falls at dawn and never rises at dusk, and from one tick to the next, midnight
  and the turns of the day included, it never jumps by more than one step of the slope.\<close>

theorem daylight_curve:
  assumes "4 \<le> tpd" "0 \<le> t" "0 < b" "b * tpd \<le> MaxInt64"
  shows "\<exists>l l'. applyCurve b t tpd = Some l \<and> applyCurve b (t + 1) tpd = Some l' \<and> 0 \<le> l \<and> l \<le> b
    \<and> (phase_at tpd t = PhaseDay \<longrightarrow> l = b) \<and> (phase_at tpd t = PhaseNight \<longrightarrow> l = 0)
    \<and> (phase_at tpd t = PhaseDawn \<longrightarrow> l \<le> l') \<and> (phase_at tpd t = PhaseDusk \<longrightarrow> l' \<le> l)
    \<and> \<bar>l' - l\<bar> \<le> b div (tpd div 4) + 1"
proof -
  define q p where "q = tpd div 4" and "p = t mod tpd"
  define f where "f p = (if p < q then b * p div q else if p < 2 * q then b else if p < 3 * q then b * (3 * q - p) div q else 0)" for p
  have q: "0 < q" "4 * q \<le> tpd" and p: "0 \<le> p" "p < tpd" using assms by (auto simp: q_def p_def)
  have full: "b * q div q = b" and none: "b * 0 div q = 0" using q by simp_all
  define p' where "p' = (if p = tpd - 1 then 0 else p + 1)"
  have now: "applyCurve b t tpd = Some (f p)" using curve_cases [OF assms] by (simp add: f_def q_def p_def Let_def)
  have e: "(t + 1) mod tpd = p'" using next_tick [of tpd t] assms(1) by (simp add: p'_def p_def)
  have nxt: "applyCurve b (t + 1) tpd = Some (f p')"
    using curve_cases [of tpd "t + 1" b] assms unfolding e by (simp add: f_def q_def Let_def)
  have phase: "phase_at tpd t = (if p < q then PhaseDawn else if p < 2 * q then PhaseDay else if p < 3 * q then PhaseDusk else PhaseNight)"
    using assms by (simp add: phase_at_def q_def p_def Let_def sdiv_nonneg smod_nonneg)
  have slope: "0 \<le> b div q" "b * x div q \<le> b * (x + 1) div q" "b * (x + 1) div q \<le> b * x div q + b div q + 1" for x
    using div_step [OF q(1), of b "b * x"] assms(3) q(1) by (simp_all add: algebra_simps pos_imp_zdiv_nonneg_iff)
  have range: "0 \<le> b * x div q" "b * x div q \<le> b" if "0 \<le> x" "x \<le> q" for x
    using that q(1) assms(3) zdiv_mono1 [of "b * x" "b * q" q] by (simp_all add: pos_imp_zdiv_nonneg_iff)
  consider (dawn) "p < q" | (day) "q \<le> p" "p < 2 * q" | (dusk) "2 * q \<le> p" "p < 3 * q" | (night) "3 * q \<le> p" by linarith
  then show ?thesis
  proof cases
    case dawn
    then have "f p = b * p div q" "f p' = b * (p + 1) div q"
      using p q full by (simp add: f_def, cases "p + 1 = q") (simp_all add: f_def p'_def)
    then show ?thesis unfolding q_def [symmetric] using now nxt phase dawn slope(1) slope(2,3) [of p] range(1,2) [of p] p by auto
  next
    case day
    then have "f p = b" "f p' = b"
      using p q full by (simp add: f_def, cases "p + 1 = 2 * q") (simp_all add: f_def p'_def)
    then show ?thesis unfolding q_def [symmetric] using now nxt phase day slope(1) assms(3) by auto
  next
    case dusk
    then have "f p = b * (3 * q - p - 1 + 1) div q" "f p' = b * (3 * q - p - 1) div q" using p q none
      by (simp add: f_def, cases "p + 1 = 3 * q") (simp_all add: f_def p'_def algebra_simps)
    then show ?thesis unfolding q_def [symmetric] using now nxt phase dusk slope(1) slope(2,3) [of "3 * q - p - 1"] range(1,2) [of "3 * q - p - 1 + 1"] by auto
  next
    case night
    then have "f p = 0" "f p' = 0" using p q none by (auto simp: f_def p'_def)
    then show ?thesis unfolding q_def [symmetric] using now nxt phase night slope(1) assms(3) by auto
  qed
qed

lemma daylight_curve_witness: "\<exists>l. applyCurve 100 450 1800 = Some l \<and> l = 100"
proof -
  have "phase_at 1800 450 = PhaseDay" by code_simp
  then show ?thesis using daylight_curve [of 1800 450 100] by auto
qed

section \<open>No turn of the day is missed\<close>

definition next_phase :: "Phase \<Rightarrow> Phase" where
  "next_phase p = (case p of PhaseDawn \<Rightarrow> PhaseDay | PhaseDay \<Rightarrow> PhaseDusk | PhaseDusk \<Rightarrow> PhaseNight | PhaseNight \<Rightarrow> PhaseDawn)"

lemma phase_moves_on:
  assumes "4 \<le> tpd" "0 \<le> t"
  shows "phase_at tpd (t + 1) = phase_at tpd t \<or> phase_at tpd (t + 1) = next_phase (phase_at tpd t)"
proof -
  define q p where "q = tpd div 4" and "p = t mod tpd"
  have q: "0 < q" "4 * q \<le> tpd" and p: "0 \<le> p" "p < tpd" using assms by (auto simp: q_def p_def)
  have ph: "phase_at tpd s = (if s mod tpd < q then PhaseDawn else if s mod tpd < 2 * q then PhaseDay
      else if s mod tpd < 3 * q then PhaseDusk else PhaseNight)" if "0 \<le> s" for s
    using assms that by (simp add: phase_at_def q_def Let_def sdiv_nonneg smod_nonneg)
  show ?thesis using ph [of t] ph [of "t + 1"] next_tick [of tpd t] assms p q by (auto simp: next_phase_def p_def)
qed

lemma turn: "p' = next_phase p \<Longrightarrow> \<exists>t. transitionFor p p' = Some t"
  by (cases p) (simp_all add: next_phase_def transitionFor_def)

text \<open>Some tick has the same phase as its predecessor or the next one, so a watcher that looks at every tick announces every change.\<close>

lemma watcher_announces:
  assumes "4 \<le> tpd" "0 \<le> t" "phase_at tpd (t + 1) \<noteq> phase_at tpd t"
  shows "\<exists>tr. transitionFor (phase_at tpd t) (phase_at tpd (t + 1)) = Some tr"
  using phase_moves_on [OF assms(1,2)] assms(3) turn by blast

end
