(* ===== verification/Coords.thy ===== *)
theory Coords
  imports RoomRepo ExitRepo
begin

text \<open>
  The derivation of room coordinates from the exits: \<open>internal/world/coords_derive.go\<close>. The maps of rooms and of visited positions are
  association lists. A room listed at the start is in the store when it is written, so the error branches do not occur.
\<close>

section \<open>The walk\<close>

type_synonym pos = "int \<times> int \<times> int"

definition dirDeltas :: "(string \<times> pos) list" where
  "dirDeltas = [(DirNorth, 0, 1, 0), (DirSouth, 0, - 1, 0), (DirEast, 1, 0, 0), (DirWest, - 1, 0, 0), (DirUp, 0, 0, 1), (DirDown, 0, 0, - 1),
     (DirNortheast, 1, 1, 0), (DirNorthwest, - 1, 1, 0), (DirSoutheast, 1, - 1, 0), (DirSouthwest, - 1, - 1, 0)]"

definition shift :: "pos \<Rightarrow> pos \<Rightarrow> pos" where
  "shift p d = (case (p, d) of ((x, y, z), dx, dy, dz) \<Rightarrow> (i64 (x + dx), i64 (y + dy), i64 (z + dz)))"

definition coords_of :: "Room \<Rightarrow> pos" where "coords_of r = (rm_CoordX r, rm_CoordY r, rm_CoordZ r)"

record CoordSummary =
  cm_Anchors :: int
  cm_SyntheticAnchor :: bool
  cm_Assigned :: int
  cm_Conflicts :: "int list"
  cm_Orphans :: "int list"

record CoordState =
  cs_visited :: "(int \<times> pos) list"
  cs_queue :: "int list"
  cs_conflicts :: "int list"
  cs_rooms :: MemoryRoomRepo
  cs_assigned :: int

definition visit_new :: "(int \<times> Room) list \<Rightarrow> int \<Rightarrow> pos \<Rightarrow> CoordState \<Rightarrow> CoordState" where
  "visit_new byID toID nxt st =
     (let st1 = st\<lparr>cs_visited := map_put toID nxt (cs_visited st)\<rparr>;
          st2 = (case map_of byID toID of None \<Rightarrow> st1
                 | Some dest \<Rightarrow>
                     if \<not> rm_CoordsAnchor dest \<and> coords_of dest \<noteq> nxt
                     then case nxt of (x, y, z) \<Rightarrow>
                       st1\<lparr>cs_rooms := fst (UpdateCoords (cs_rooms st1) toID x y z), cs_assigned := cs_assigned st1 + 1\<rparr>
                     else st1)
      in st2\<lparr>cs_queue := cs_queue st2 @ [toID]\<rparr>)"

definition visit_exit :: "(int \<times> Room) list \<Rightarrow> pos \<Rightarrow> Exit \<Rightarrow> CoordState \<Rightarrow> CoordState" where
  "visit_exit byID fromPos e st =
     (case map_of dirDeltas (ex_Direction e) of None \<Rightarrow> st
      | Some delta \<Rightarrow>
          let nxt = shift fromPos delta; toID = ex_ToRoomID e
          in case map_of (cs_visited st) toID of
               Some existing \<Rightarrow> if existing \<noteq> nxt then st\<lparr>cs_conflicts := cs_conflicts st @ [toID]\<rparr> else st
             | None \<Rightarrow> visit_new byID toID nxt st)"

text \<open>What is left to do: rooms that are not visited but that some exit leads to, and rooms in the queue.\<close>

definition coords_left :: "MemoryExitRepo \<Rightarrow> CoordState \<Rightarrow> nat" where
  "coords_left exits st = card (ex_ToRoomID ` set (er_exits exits) - set (keys (cs_visited st))) + length (cs_queue st)"

lemma visit_new_simps [simp]:
  "cs_visited (visit_new byID t nxt st) = map_put t nxt (cs_visited st)" "cs_queue (visit_new byID t nxt st) = cs_queue st @ [t]"
  "cs_conflicts (visit_new byID t nxt st) = cs_conflicts st"
  by (simp_all add: visit_new_def Let_def split: option.split prod.split)

text \<open>What one exit does: nothing, a conflict, or a new position; and the exit is settled by it.\<close>

lemma visit_exit_cases:
  obtains "visit_exit byID p e st = st" "\<And>d. map_of dirDeltas (ex_Direction e) = Some d \<Longrightarrow> map_of (cs_visited st) (ex_ToRoomID e) = Some (shift p d)"
  | "visit_exit byID p e st = st\<lparr>cs_conflicts := cs_conflicts st @ [ex_ToRoomID e]\<rparr>"
  | nxt where "visit_exit byID p e st = visit_new byID (ex_ToRoomID e) nxt st" "map_of (cs_visited st) (ex_ToRoomID e) = None"
      "\<And>d. map_of dirDeltas (ex_Direction e) = Some d \<Longrightarrow> nxt = shift p d"
proof (cases "map_of dirDeltas (ex_Direction e)")
  case None
  then show ?thesis by (intro that(1)) (simp_all add: visit_exit_def)
next
  case (Some d)
  show ?thesis
  proof (cases "map_of (cs_visited st) (ex_ToRoomID e)")
    case None
    then show ?thesis using Some by (intro that(3) [of "shift p d"]) (simp_all add: visit_exit_def Let_def)
  next
    case (Some q)
    then show ?thesis using \<open>map_of dirDeltas (ex_Direction e) = Some d\<close>
      by (cases "q = shift p d") (auto simp: visit_exit_def Let_def intro: that(1) that(2))
  qed
qed

lemma visit_exit_left: "e \<in> set (er_exits exits) \<Longrightarrow> coords_left exits (visit_exit byID p e st) \<le> coords_left exits st"
proof -
  assume e: "e \<in> set (er_exits exits)"
  let ?T = "ex_ToRoomID ` set (er_exits exits)"
  have "Suc (card (?T - insert (ex_ToRoomID e) V)) = card (?T - V)" if "ex_ToRoomID e \<notin> V" for V
  proof -
    have "?T - V = insert (ex_ToRoomID e) (?T - insert (ex_ToRoomID e) V)" using e that by auto
    moreover have "ex_ToRoomID e \<notin> ?T - insert (ex_ToRoomID e) V" by simp
    ultimately show ?thesis by (metis List.finite_set card_insert_disjoint finite_Diff finite_imageI)
  qed
  then have new: "coords_left exits (visit_new byID (ex_ToRoomID e) nxt st) = coords_left exits st"
    if "ex_ToRoomID e \<notin> set (keys (cs_visited st))" for nxt
    using that unfolding coords_left_def visit_new_simps keys_put length_append by fastforce
  show ?thesis
  proof (rule visit_exit_cases [of byID p e st])
    fix nxt assume "visit_exit byID p e st = visit_new byID (ex_ToRoomID e) nxt st" "map_of (cs_visited st) (ex_ToRoomID e) = None"
    then show ?thesis using new by (simp add: map_of_eq_None_iff)
  qed (simp_all add: coords_left_def)
qed

lemma visit_exits_left:
  "set es \<subseteq> set (er_exits exits) \<Longrightarrow> coords_left exits (fold (visit_exit byID p) es st) \<le> coords_left exits st"
proof (induction es arbitrary: st)
  case (Cons e es)
  then have "coords_left exits (fold (visit_exit byID p) es (visit_exit byID p e st)) \<le> coords_left exits (visit_exit byID p e st)" by simp
  also have "\<dots> \<le> coords_left exits st" using Cons.prems by (intro visit_exit_left) simp
  finally show ?case by simp
qed simp

lemma ListFrom_sub: "set (ListFrom exits u) \<subseteq> set (er_exits exits)"
  by (auto simp: ListFrom_def)

function coords_loop :: "(int \<times> Room) list \<Rightarrow> MemoryExitRepo \<Rightarrow> CoordState \<Rightarrow> CoordState" where
  "coords_loop byID exits st =
     (case cs_queue st of [] \<Rightarrow> st
      | fromID # rest \<Rightarrow>
          coords_loop byID exits (fold (visit_exit byID (map_get (cs_visited st) fromID (0, 0, 0))) (ListFrom exits fromID) (st\<lparr>cs_queue := rest\<rparr>)))"
  by pat_completeness auto
termination
proof (relation "measure (\<lambda>(byID, exits, st). coords_left exits st)", goal_cases)
  case 1
  show ?case by simp
next
  case (2 byID exits st fromID rest)
  have "coords_left exits (st\<lparr>cs_queue := rest\<rparr>) < coords_left exits st" using 2 by (simp add: coords_left_def)
  from le_less_trans [OF visit_exits_left [OF ListFrom_sub] this] show ?case by simp
qed

declare coords_loop.simps [simp del]

fun dedup_loop :: "int list \<Rightarrow> int list \<Rightarrow> int list" where
  "dedup_loop out [] = out"
| "dedup_loop out (v # vs) = (if v \<noteq> last out then dedup_loop (out @ [v]) vs else dedup_loop out vs)"

definition dedupSortedInt64 :: "int list \<Rightarrow> int list" where
  "dedupSortedInt64 xs = (case xs of [] \<Rightarrow> [] | x # rest \<Rightarrow> dedup_loop [x] rest)"

definition coords_StarterRoomID :: int where "coords_StarterRoomID = 1"

definition anchors_of :: "Room list \<Rightarrow> (int \<times> pos) list" where
  "anchors_of all = map (\<lambda>r. (rm_ID r, coords_of r)) (filter rm_CoordsAnchor all)"

definition start_of :: "(int \<times> Room) list \<Rightarrow> Room list \<Rightarrow> (int \<times> pos) list" where
  "start_of byID all =
     sort_key fst (if anchors_of all = []
       then (case map_of byID coords_StarterRoomID of None \<Rightarrow> [] | Some starter \<Rightarrow> [(rm_ID starter, 0, 0, 0)]) else anchors_of all)"

text \<open>The anchors enter the queue, the lower of two equal ids only once.\<close>

fun seed :: "(int \<times> pos) list \<Rightarrow> CoordState \<Rightarrow> CoordState" where
  "seed [] st = st"
| "seed ((i, p) # as) st =
     (if i \<in> set (keys (cs_visited st)) then seed as st
      else seed as (st\<lparr>cs_visited := map_put i p (cs_visited st), cs_queue := cs_queue st @ [i]\<rparr>))"

definition DeriveCoords :: "MemoryRoomRepo \<Rightarrow> MemoryExitRepo \<Rightarrow> MemoryRoomRepo \<times> CoordSummary" where
  "DeriveCoords rooms exits =
     (let all = room_ListAll rooms
      in if all = [] then (rooms, \<lparr>cm_Anchors = 0, cm_SyntheticAnchor = False, cm_Assigned = 0, cm_Conflicts = [], cm_Orphans = []\<rparr>)
         else
           let byID = fold (\<lambda>r m. map_put (rm_ID r) r m) all [];
               st = coords_loop byID exits (seed (start_of byID all)
                      \<lparr>cs_visited = [], cs_queue = [], cs_conflicts = [], cs_rooms = rooms, cs_assigned = 0\<rparr>)
           in (cs_rooms st,
               \<lparr>cm_Anchors = int (length (anchors_of all)),
                cm_SyntheticAnchor = (anchors_of all = [] \<and> start_of byID all \<noteq> []),
                cm_Assigned = cs_assigned st,
                cm_Conflicts = dedupSortedInt64 (sort (cs_conflicts st)),
                cm_Orphans = sort (filter (\<lambda>i. i \<notin> set (keys (cs_visited st))) (keys byID))\<rparr>))"


section \<open>The rows of the store during the walk\<close>

declare split_paired_All [simp del] split_paired_Ex [simp del]

definition set_coords :: "pos \<Rightarrow> Room \<Rightarrow> Room" where
  "set_coords p r = (case p of (x, y, z) \<Rightarrow> r\<lparr>rm_CoordX := x, rm_CoordY := y, rm_CoordZ := z\<rparr>)"

lemma set_coords_simps [simp]:
  "coords_of (set_coords p r) = p" "rm_ID (set_coords p r) = rm_ID r" "rm_ExternalID (set_coords p r) = rm_ExternalID r"
  "rm_CoordsAnchor (set_coords p r) = rm_CoordsAnchor r" "set_coords p (set_coords q r) = set_coords p r"
  by (simp_all add: set_coords_def coords_of_def split: prod.split)

lemma set_coords_same: "coords_of r = p \<Longrightarrow> set_coords p r = r"
  by (auto simp: set_coords_def coords_of_def)

lemma UpdateCoords_rows:
  assumes "rooms_ok r"
  shows "rooms_ok (fst (UpdateCoords r i x y z))"
    and "room_FindByID (fst (UpdateCoords r i x y z)) j =
      (case room_FindByID r j of Inl e \<Rightarrow> Inl e | Inr c \<Rightarrow> Inr (if j = i then set_coords (x, y, z) c else c))"
proof -
  show "rooms_ok (fst (UpdateCoords r i x y z))" unfolding UpdateCoords_def by (rule room_at_ok [OF assms]) simp
  have idx: "p < length (rr_heap r) \<and> rm_ID (rr_heap r ! p) = k" if "map_of (rr_byID r) k = Some p" for k p
    using assms that by (simp add: rooms_ok_def room_index_def)
  show "room_FindByID (fst (UpdateCoords r i x y z)) j =
      (case room_FindByID r j of Inl e \<Rightarrow> Inl e | Inr c \<Rightarrow> Inr (if j = i then set_coords (x, y, z) c else c))"
  proof (cases "map_of (rr_byID r) i")
    case None
    then show ?thesis by (auto simp: UpdateCoords_def room_at_def room_FindByID_def split: option.split)
  next
    case (Some p)
    note p = Some idx [OF Some]
    show ?thesis
    proof (cases "map_of (rr_byID r) j")
      case (Some q)
      with idx [OF Some] p show ?thesis
        by (cases "p = q") (auto simp: UpdateCoords_def room_at_def room_FindByID_def set_coords_def)
    qed (simp add: UpdateCoords_def room_at_def room_FindByID_def p)
  qed
qed

text \<open>A visited room carries its position, another one is as it was.\<close>

definition walked :: "Room \<Rightarrow> pos option \<Rightarrow> Room" where
  "walked r v = (case v of None \<Rightarrow> r | Some p \<Rightarrow> set_coords p r)"

definition rows_ok :: "(int \<times> Room) list \<Rightarrow> CoordState \<Rightarrow> bool" where
  "rows_ok byID st \<longleftrightarrow> rooms_ok (cs_rooms st)
     \<and> (\<forall>v r. map_of byID v = Some r \<longrightarrow> room_FindByID (cs_rooms st) v = Inr (walked r (map_of (cs_visited st) v))
          \<and> (rm_CoordsAnchor r \<longrightarrow> map_of (cs_visited st) v = Some (coords_of r)))"

lemma visit_new_rows:
  assumes "rows_ok byID st" "map_of (cs_visited st) t = None"
  shows "rows_ok byID (visit_new byID t nxt st)"
proof -
  obtain x y z where nxt: "nxt = (x, y, z)" by (cases nxt)
  note rows = UpdateCoords_rows [of "cs_rooms st" t x y z]
  have ok: "rooms_ok (cs_rooms st)" using assms(1) by (simp add: rows_ok_def)
  show ?thesis
  proof (cases "map_of byID t")
    case None
    then have "cs_rooms (visit_new byID t nxt st) = cs_rooms st" by (simp add: visit_new_def Let_def)
    with assms None show ?thesis unfolding rows_ok_def visit_new_simps map_of_put fun_upd_apply by auto
  next
    case (Some dest)
    have na: "\<not> rm_CoordsAnchor dest" using assms Some unfolding rows_ok_def by (metis option.distinct(1))
    have at: "room_FindByID (cs_rooms st) t = Inr dest" using assms Some by (auto simp: rows_ok_def walked_def)
    show ?thesis
    proof (cases "coords_of dest = nxt")
      case True
      then have "cs_rooms (visit_new byID t nxt st) = cs_rooms st" using Some na by (simp add: visit_new_def Let_def)
      with assms Some True na show ?thesis unfolding rows_ok_def visit_new_simps map_of_put fun_upd_apply
        by (auto simp: walked_def set_coords_same)
    next
      case False
      then have "cs_rooms (visit_new byID t nxt st) = fst (UpdateCoords (cs_rooms st) t x y z)"
        using Some na by (simp add: visit_new_def Let_def nxt)
      with assms Some at na rows [OF ok] show ?thesis unfolding rows_ok_def visit_new_simps map_of_put fun_upd_apply
        by (auto simp: walked_def nxt)
    qed
  qed
qed

lemma visit_exit_rows: "rows_ok byID st \<Longrightarrow> rows_ok byID (visit_exit byID p e st)"
  by (rule visit_exit_cases [of byID p e st]) (auto intro: visit_new_rows, simp add: rows_ok_def)

section \<open>Every exit is settled\<close>

definition settled :: "CoordState \<Rightarrow> pos \<Rightarrow> Exit \<Rightarrow> bool" where
  "settled st p e \<longleftrightarrow> (\<forall>d. map_of dirDeltas (ex_Direction e) = Some d \<longrightarrow>
     ex_ToRoomID e \<in> set (cs_conflicts st) \<or> map_of (cs_visited st) (ex_ToRoomID e) = Some (shift p d))"

abbreviation finished :: "CoordState \<Rightarrow> int set" where
  "finished st \<equiv> dom (map_of (cs_visited st)) - set (cs_queue st)"

text \<open>Positions and conflicts are only added, and a room that is added waits in the queue.\<close>

definition walk_grows :: "CoordState \<Rightarrow> CoordState \<Rightarrow> bool" where
  "walk_grows st st' \<longleftrightarrow> map_of (cs_visited st) \<subseteq>\<^sub>m map_of (cs_visited st') \<and> set (cs_conflicts st) \<subseteq> set (cs_conflicts st')
     \<and> finished st' \<subseteq> finished st \<and> set (cs_queue st') \<subseteq> set (cs_queue st) \<union> dom (map_of (cs_visited st'))"

lemma walk_grows_refl: "walk_grows st st"
  by (simp add: walk_grows_def)

lemma walk_grows_trans: "walk_grows a b \<Longrightarrow> walk_grows b c \<Longrightarrow> walk_grows a c"
proof -
  assume g: "walk_grows a b" "walk_grows b c"
  then have "dom (map_of (cs_visited b)) \<subseteq> dom (map_of (cs_visited c))" by (simp add: walk_grows_def map_le_implies_dom_le)
  moreover have "map_of (cs_visited a) \<subseteq>\<^sub>m map_of (cs_visited c)" using g unfolding walk_grows_def by (blast intro: map_le_trans)
  ultimately show ?thesis using g unfolding walk_grows_def by blast
qed

lemma settled_mono: "settled st p e \<Longrightarrow> walk_grows st st' \<Longrightarrow> settled st' p e"
  unfolding settled_def walk_grows_def map_le_def by (metis domI subsetD)

lemma visit_exit_grows: "walk_grows st (visit_exit byID p e st) \<and> settled (visit_exit byID p e st) p e"
proof (rule visit_exit_cases [of byID p e st])
  fix nxt assume a: "visit_exit byID p e st = visit_new byID (ex_ToRoomID e) nxt st" "map_of (cs_visited st) (ex_ToRoomID e) = None"
    "\<And>d. map_of dirDeltas (ex_Direction e) = Some d \<Longrightarrow> nxt = shift p d"
  then show ?thesis unfolding walk_grows_def settled_def a(1) visit_new_simps map_of_put by (auto simp: map_le_def)
qed (auto simp: walk_grows_def settled_def)

lemma visit_exits:
  "rows_ok byID st \<Longrightarrow> rows_ok byID (fold (visit_exit byID p) es st) \<and> walk_grows st (fold (visit_exit byID p) es st)
     \<and> (\<forall>e\<in>set es. settled (fold (visit_exit byID p) es st) p e)"
proof (induction es arbitrary: st)
  case (Cons e es)
  note v = visit_exit_grows [of st byID p e] and ih = Cons.IH [OF visit_exit_rows [OF Cons.prems], of p e]
  from v ih show ?case by (auto intro: walk_grows_trans settled_mono)
qed (simp add: walk_grows_refl)

definition coords_inv :: "(int \<times> Room) list \<Rightarrow> MemoryExitRepo \<Rightarrow> CoordState \<Rightarrow> bool" where
  "coords_inv byID exits st \<longleftrightarrow> rows_ok byID st \<and> set (cs_queue st) \<subseteq> dom (map_of (cs_visited st))
     \<and> (\<forall>u\<in>finished st. \<forall>e\<in>set (ListFrom exits u). settled st (the (map_of (cs_visited st) u)) e)"

lemma coords_step:
  assumes inv: "coords_inv byID exits st" and q: "cs_queue st = u # rest" and u: "map_of (cs_visited st) u = Some p"
    and st': "st' = fold (visit_exit byID p) (ListFrom exits u) (st\<lparr>cs_queue := rest\<rparr>)"
  shows "coords_inv byID exits st'"
proof -
  have r: "rows_ok byID (st\<lparr>cs_queue := rest\<rparr>)" using inv by (simp add: coords_inv_def rows_ok_def)
  note v = visit_exits [OF r, of p "ListFrom exits u", folded st']
  have gr: "walk_grows (st\<lparr>cs_queue := rest\<rparr>) st'" using v by blast
  have g: "settled st' a e" if "settled st a e" for a e
    using that by (intro settled_mono [OF _ gr]) (simp add: settled_def)
  have le: "map_of (cs_visited st) \<subseteq>\<^sub>m map_of (cs_visited st')" and f: "finished st' \<subseteq> dom (map_of (cs_visited st)) - set rest"
    using gr by (simp_all add: walk_grows_def)
  have "settled st' (the (map_of (cs_visited st') w)) e" if "w \<in> finished st'" "e \<in> set (ListFrom exits w)" for w e
  proof (cases "w = u")
    case True
    have "map_of (cs_visited st') u = Some p" using le u by (auto simp: map_le_def dom_def)
    with v that True show ?thesis by auto
  next
    case False
    with f that q have w: "w \<in> finished st" by auto
    then have "map_of (cs_visited st') w = map_of (cs_visited st) w" using le by (auto simp: map_le_def)
    with inv w that g show ?thesis by (auto simp: coords_inv_def)
  qed
  moreover have "set (cs_queue st') \<subseteq> dom (map_of (cs_visited st'))"
    using gr inv q map_le_implies_dom_le [OF le] unfolding coords_inv_def walk_grows_def by simp blast
  ultimately show ?thesis using v by (auto simp: coords_inv_def)
qed

lemma coords_loop_inv:
  "coords_inv byID exits st \<Longrightarrow> coords_inv byID exits (coords_loop byID exits st) \<and> cs_queue (coords_loop byID exits st) = []
     \<and> map_of (cs_visited st) \<subseteq>\<^sub>m map_of (cs_visited (coords_loop byID exits st))"
proof (induction byID exits st rule: coords_loop.induct)
  case (1 byID exits st)
  show ?case
  proof (cases "cs_queue st")
    case Nil
    then show ?thesis using 1(2) by (subst (1 2 3) coords_loop.simps) simp
  next
    case (Cons u rest)
    let ?st = "fold (visit_exit byID (map_get (cs_visited st) u (0, 0, 0))) (ListFrom exits u) (st\<lparr>cs_queue := rest\<rparr>)"
    obtain p where p: "map_of (cs_visited st) u = Some p" using 1(2) Cons by (auto simp: coords_inv_def)
    have "coords_inv byID exits ?st" by (rule coords_step [OF 1(2) Cons p]) (simp add: map_get_def p)
    from 1(1) [OF Cons this] have *: "coords_inv byID exits (coords_loop byID exits ?st) \<and> cs_queue (coords_loop byID exits ?st) = []
       \<and> map_of (cs_visited ?st) \<subseteq>\<^sub>m map_of (cs_visited (coords_loop byID exits ?st))" .
    have r: "rows_ok byID (st\<lparr>cs_queue := rest\<rparr>)" using 1(2) by (simp add: coords_inv_def rows_ok_def)
    have "map_of (cs_visited st) \<subseteq>\<^sub>m map_of (cs_visited ?st)"
      using visit_exits [OF r, of "map_get (cs_visited st) u (0, 0, 0)" "ListFrom exits u"] by (simp add: walk_grows_def)
    moreover have "coords_loop byID exits st = coords_loop byID exits ?st" by (subst coords_loop.simps) (simp add: Cons)
    ultimately show ?thesis using * by (auto intro: map_le_trans)
  qed
qed

section \<open>The start\<close>

lemma seed_rooms: "cs_rooms (seed as st) = cs_rooms st"
  by (induction as st rule: seed.induct) simp_all

lemma seed_queue:
  "set (cs_queue st) = dom (map_of (cs_visited st)) \<Longrightarrow> set (cs_queue (seed as st)) = dom (map_of (cs_visited (seed as st)))"
  by (induction as st rule: seed.induct) (simp_all add: insert_commute)

lemma seed_visited:
  "map_of (cs_visited (seed as st)) i = (case map_of (cs_visited st) i of None \<Rightarrow> map_of as i | Some p \<Rightarrow> Some p)"
proof (induction as st rule: seed.induct)
  case (2 j p as st)
  then show ?case using map_of_eq_None_iff [of "cs_visited st" j] by (cases "i = j") (auto split: option.split)
qed (simp split: option.split)

lemma index_of:
  assumes "\<And>r r'. r \<in> set all \<Longrightarrow> r' \<in> set all \<Longrightarrow> rm_ID r = rm_ID r' \<Longrightarrow> r = r'"
  shows "map_of (fold (\<lambda>r m. map_put (rm_ID r) r m) all []) v = Some r \<longleftrightarrow> r \<in> set all \<and> rm_ID r = v"
proof -
  have "map_of (fold (\<lambda>r m. map_put (rm_ID r) r m) xs []) v = Some r \<longleftrightarrow> r \<in> set xs \<and> rm_ID r = v"
    if "set xs \<subseteq> set all" for xs using that
  proof (induction xs rule: rev_induct)
    case (snoc x xs)
    have "r = x" if "r \<in> set xs" "rm_ID r = v" "rm_ID x = v"
      by (rule assms) (use that snoc.prems in \<open>simp_all add: subset_iff\<close>)
    with snoc show ?case by (cases "rm_ID x = v") auto
  qed simp
  then show ?thesis by simp
qed

lemma dedup_set: "out \<noteq> [] \<Longrightarrow> set (dedup_loop out xs) = set out \<union> set xs"
proof (induction out xs rule: dedup_loop.induct)
  case (2 out v vs)
  have "last out \<in> set out" using 2(3) by (rule last_in_set)
  then have l: "set out \<union> insert (last out) (set vs) = set out \<union> set vs" by blast
  show ?case
  proof (cases "v = last out")
    case True
    then show ?thesis using 2 l by simp
  next
    case False
    then show ?thesis using 2(1) by simp
  qed
qed simp

lemma dedupSortedInt64_set: "set (dedupSortedInt64 xs) = set xs"
  by (cases xs) (simp_all add: dedupSortedInt64_def dedup_set)

lemma ListAll_rows:
  assumes "rooms_ok rooms" "distinct (keys (rr_byID rooms))"
  shows "r \<in> set (room_ListAll rooms) \<longleftrightarrow> room_FindByID rooms (rm_ID r) = Inr r"
    and "room_FindByID rooms v = Inr r \<Longrightarrow> rm_ID r = v"
proof -
  have idx: "rm_ID (rr_heap rooms ! p) = k" if "map_of (rr_byID rooms) k = Some p" for k p
    using assms that by (simp add: rooms_ok_def room_index_def)
  then show "room_FindByID rooms v = Inr r \<Longrightarrow> rm_ID r = v" by (auto simp: room_FindByID_def split: option.splits)
  have "r \<in> set (room_ListAll rooms) \<longleftrightarrow> (\<exists>k p. map_of (rr_byID rooms) k = Some p \<and> r = rr_heap rooms ! p)"
    using assms(2) by (force simp: room_ListAll_def)
  with idx show "r \<in> set (room_ListAll rooms) \<longleftrightarrow> room_FindByID rooms (rm_ID r) = Inr r"
    by (auto simp: room_FindByID_def split: option.splits)
qed

section \<open>The derived coordinates\<close>

definition coords_walk :: "MemoryRoomRepo \<Rightarrow> MemoryExitRepo \<Rightarrow> CoordState" where
  "coords_walk rooms exits =
     (let all = room_ListAll rooms; byID = fold (\<lambda>r m. map_put (rm_ID r) r m) all []
      in coords_loop byID exits (seed (start_of byID all)
           \<lparr>cs_visited = [], cs_queue = [], cs_conflicts = [], cs_rooms = rooms, cs_assigned = 0\<rparr>))"

lemma coords_walk_inv:
  assumes ok: "rooms_ok rooms" "distinct (keys (rr_byID rooms))" and a: "room_FindByID rooms a = Inr ra" "rm_CoordsAnchor ra"
    and byID: "byID = fold (\<lambda>r m. map_put (rm_ID r) r m) (room_ListAll rooms) []"
  shows "coords_inv byID exits (coords_walk rooms exits)" "cs_queue (coords_walk rooms exits) = []"
    "map_of byID v = Some r \<longleftrightarrow> room_FindByID rooms v = Inr r"
proof -
  let ?all = "room_ListAll rooms"
  define st0 where "st0 = seed (start_of byID ?all) \<lparr>cs_visited = [], cs_queue = [], cs_conflicts = [], cs_rooms = rooms, cs_assigned = 0\<rparr>"
  note rows = ListAll_rows [OF ok]
  have at: "map_of byID v = Some r \<longleftrightarrow> room_FindByID rooms v = Inr r" for v r
    unfolding byID using rows by (subst index_of) (metis Inr_inject)+
  then show "map_of byID v = Some r \<longleftrightarrow> room_FindByID rooms v = Inr r" .
  have "(a, coords_of ra) \<in> set (anchors_of ?all)" using a rows by (force simp: anchors_of_def)
  then have start: "start_of byID ?all = sort_key fst (anchors_of ?all)" by (auto simp: start_of_def)
  have anch: "(v, p) \<in> set (start_of byID ?all) \<longleftrightarrow> (\<exists>r. room_FindByID rooms v = Inr r \<and> rm_CoordsAnchor r \<and> p = coords_of r)" for v p
    unfolding start using rows by (auto simp: anchors_of_def)
  have vis: "map_of (cs_visited st0) v = map_of (start_of byID ?all) v" for v by (simp add: st0_def seed_visited)
  have "rows_ok byID st0" unfolding rows_ok_def vis
  proof (intro conjI allI impI)
    show "rooms_ok (cs_rooms st0)" using ok by (simp add: st0_def seed_rooms)
    fix v r assume "map_of byID v = Some r"
    then have r: "room_FindByID rooms v = Inr r" using at by simp
    have pos: "p = coords_of r" if "map_of (start_of byID ?all) v = Some p" for p
      using anch [of v p] r map_of_SomeD [OF that] by auto
    show "room_FindByID (cs_rooms st0) v = Inr (walked r (map_of (start_of byID ?all) v))"
    proof (cases "map_of (start_of byID ?all) v")
      case (Some p)
      from pos [OF this] r Some show ?thesis by (simp add: st0_def seed_rooms walked_def set_coords_same)
    qed (simp add: r st0_def seed_rooms walked_def)
    assume "rm_CoordsAnchor r"
    then have "(v, coords_of r) \<in> set (start_of byID ?all)" using anch [of v "coords_of r"] r by simp
    then obtain p where "map_of (start_of byID ?all) v = Some p" using weak_map_of_SomeI by metis
    then show "map_of (start_of byID ?all) v = Some (coords_of r)" using pos by simp
  qed
  moreover have "set (cs_queue st0) = dom (map_of (cs_visited st0))" unfolding st0_def by (rule seed_queue) simp
  ultimately have "coords_inv byID exits st0" by (simp add: coords_inv_def)
  from coords_loop_inv [OF this] show "coords_inv byID exits (coords_walk rooms exits)" "cs_queue (coords_walk rooms exits) = []"
    by (simp_all add: coords_walk_def st0_def byID Let_def)
qed

lemma DeriveCoords_walk:
  assumes "room_FindByID rooms a = Inr ra" "rooms_ok rooms" "distinct (keys (rr_byID rooms))" "DeriveCoords rooms exits = (rooms', s)"
    and byID: "byID = fold (\<lambda>r m. map_put (rm_ID r) r m) (room_ListAll rooms) []"
  shows "rooms' = cs_rooms (coords_walk rooms exits)" "set (cm_Conflicts s) = set (cs_conflicts (coords_walk rooms exits))"
    "v \<in> set (cm_Orphans s) \<longleftrightarrow> map_of byID v \<noteq> None \<and> map_of (cs_visited (coords_walk rooms exits)) v = None"
proof -
  have "ra \<in> set (room_ListAll rooms)" using ListAll_rows [OF assms(2,3)] assms(1) by metis
  then have ne: "room_ListAll rooms \<noteq> []" by auto
  have e: "DeriveCoords rooms exits = (cs_rooms (coords_walk rooms exits),
      \<lparr>cm_Anchors = cm_Anchors s, cm_SyntheticAnchor = cm_SyntheticAnchor s, cm_Assigned = cm_Assigned s,
       cm_Conflicts = dedupSortedInt64 (sort (cs_conflicts (coords_walk rooms exits))),
       cm_Orphans = sort (filter (\<lambda>i. i \<notin> set (keys (cs_visited (coords_walk rooms exits)))) (keys byID))\<rparr>)"
    using assms(4) ne unfolding DeriveCoords_def coords_walk_def Let_def byID by force
  then show "rooms' = cs_rooms (coords_walk rooms exits)" using assms(4) by simp
  from e assms(4) have s: "cm_Conflicts s = dedupSortedInt64 (sort (cs_conflicts (coords_walk rooms exits)))"
    "cm_Orphans s = sort (filter (\<lambda>i. i \<notin> set (keys (cs_visited (coords_walk rooms exits)))) (keys byID))"
    by (metis CoordSummary.select_convs(4,5) prod.inject)+
  show "set (cm_Conflicts s) = set (cs_conflicts (coords_walk rooms exits))" unfolding s(1) by (simp add: dedupSortedInt64_set)
  show "v \<in> set (cm_Orphans s) \<longleftrightarrow> map_of byID v \<noteq> None \<and> map_of (cs_visited (coords_walk rooms exits)) v = None"
    unfolding s(2) map_of_eq_None_iff by auto
qed

lemma coords_rows:
  assumes ok: "rooms_ok rooms" "distinct (keys (rr_byID rooms))" and a: "room_FindByID rooms a = Inr ra" "rm_CoordsAnchor ra"
    and d: "DeriveCoords rooms exits = (rooms', s)" and u: "room_FindByID rooms u = Inr ru"
  shows "room_FindByID rooms' u = Inr (walked ru (map_of (cs_visited (coords_walk rooms exits)) u))"
    and "u \<in> set (cm_Orphans s) \<longleftrightarrow> map_of (cs_visited (coords_walk rooms exits)) u = None"
    and "rm_CoordsAnchor ru \<Longrightarrow> room_FindByID rooms' u = Inr ru \<and> u \<notin> set (cm_Orphans s)"
proof -
  define byID where "byID = fold (\<lambda>r m. map_put (rm_ID r) r m) (room_ListAll rooms) []"
  note w = coords_walk_inv [OF ok a byID_def] and dw = DeriveCoords_walk [OF a(1) ok d byID_def]
  have b: "map_of byID u = Some ru" using w(3) u by simp
  show r: "room_FindByID rooms' u = Inr (walked ru (map_of (cs_visited (coords_walk rooms exits)) u))"
    using w(1) [of exits] b unfolding dw(1) coords_inv_def rows_ok_def by blast
  show o: "u \<in> set (cm_Orphans s) \<longleftrightarrow> map_of (cs_visited (coords_walk rooms exits)) u = None" using dw(3) b by simp
  assume "rm_CoordsAnchor ru"
  then have "map_of (cs_visited (coords_walk rooms exits)) u = Some (coords_of ru)"
    using w(1) [of exits] b unfolding coords_inv_def rows_ok_def by blast
  with r o show "room_FindByID rooms' u = Inr ru \<and> u \<notin> set (cm_Orphans s)" by (simp add: walked_def set_coords_same)
qed

lemma coords_agree:
  assumes ok: "rooms_ok rooms" "distinct (keys (rr_byID rooms))" and a: "room_FindByID rooms a = Inr ra" "rm_CoordsAnchor ra"
    and d: "DeriveCoords rooms exits = (rooms', s)"
    and u: "room_FindByID rooms u = Inr ru" "u \<notin> set (cm_Orphans s)"
    and e: "e \<in> set (ListFrom exits u)" "map_of dirDeltas (ex_Direction e) = Some delta" "ex_ToRoomID e \<notin> set (cm_Conflicts s)"
    and v: "room_FindByID rooms (ex_ToRoomID e) = Inr rv"
  shows "\<exists>p. room_FindByID rooms' u = Inr (set_coords p ru) \<and> room_FindByID rooms' (ex_ToRoomID e) = Inr (set_coords (shift p delta) rv)"
proof -
  define byID where "byID = fold (\<lambda>r m. map_put (rm_ID r) r m) (room_ListAll rooms) []"
  note w = coords_walk_inv [OF ok a byID_def] and dw = DeriveCoords_walk [OF a(1) ok d byID_def]
  note ru = coords_rows [OF ok a d u(1)] and rv = coords_rows [OF ok a d v]
  obtain p where p: "map_of (cs_visited (coords_walk rooms exits)) u = Some p" using ru(2) u(2) by auto
  then have "settled (coords_walk rooms exits) p e"
    using w(1) [of exits] w(2) e(1) unfolding coords_inv_def by force
  then have "map_of (cs_visited (coords_walk rooms exits)) (ex_ToRoomID e) = Some (shift p delta)"
    using e(2,3) dw(2) by (simp add: settled_def)
  with ru(1) rv(1) p show ?thesis by (auto simp: walked_def)
qed

text \<open>C32: After coordinates are derived in a world that has an anchor, take a room that is not reported as an orphan and an exit of
  it in one of the ten directions, whose destination is not reported as a conflict: the destination lies exactly one step in that
  direction from the room, and nothing but the coordinates of the two rooms was written.\<close>
theorem coords_consistent:
  assumes "rooms_ok rooms" "distinct (keys (rr_byID rooms))" "room_FindByID rooms a = Inr ra" "rm_CoordsAnchor ra"
    and "DeriveCoords rooms exits = (rooms', s)" "room_FindByID rooms u = Inr ru" "u \<notin> set (cm_Orphans s)"
    and "e \<in> set (ListFrom exits u)" "map_of dirDeltas (ex_Direction e) = Some delta" "ex_ToRoomID e \<notin> set (cm_Conflicts s)"
    and "room_FindByID rooms (ex_ToRoomID e) = Inr rv"
  shows "\<exists>p. room_FindByID rooms' u = Inr (set_coords p ru) \<and> room_FindByID rooms' (ex_ToRoomID e) = Inr (set_coords (shift p delta) rv)"
  using assms by (rule coords_agree)

lemma coords_consistent_witness:
  fixes fl :: RoomFlags and xf :: ExitFlags
  defines "fl \<equiv> \<lparr>rf_Indoors = False, rf_NoPVP = False, rf_NoTeleport = False, rf_Dark = False, rf_Silent = False, rf_Peaceful = False,
      rf_NoMap = False, rf_Bindable = False\<rparr>"
    and "xf \<equiv> \<lparr>xf_Closed = False, xf_Locked = False, xf_Pickable = False, xf_Hidden = False, xf_NoPass = False, xf_AuthoredClosed = False, xf_AuthoredLocked = False\<rparr>"
  defines "room \<equiv> \<lambda>i a. \<lparr>rm_ID = i, rm_ExternalID = [], rm_ZoneID = 1, rm_Name = [], rm_ShortDesc = [], rm_LongDesc = [], rm_Flags = fl,
      rm_Sector = SectorCity, rm_LightLevel = 100, rm_CoordX = 5, rm_CoordY = 5, rm_CoordZ = 0, rm_CoordsAnchor = a, rm_ExtraDescs = [],
      rm_CreatedAt = Some 0\<rparr>"
    and "ex \<equiv> \<lambda>i f t dir. \<lparr>ex_ID = i, ex_FromRoomID = f, ex_ToRoomID = t, ex_Direction = dir, ex_Flags = xf, ex_KeyExternalID = [],
      ex_LockDifficulty = 0, ex_Description = []\<rparr>"
  defines "rooms \<equiv> \<lparr>rr_heap = [room 1 True, room 2 False], rr_byID = [(1, 0), (2, 1)], rr_byExt = [], rr_maxID = 2\<rparr>"
    and "exits \<equiv> \<lparr>er_exits = [ex 1 1 2 DirNorth, ex 2 2 1 DirSouth], er_maxID = 2\<rparr>"
  shows "\<exists>p. room_FindByID (fst (DeriveCoords rooms exits)) 1 = Inr (set_coords p (room 1 True))
     \<and> room_FindByID (fst (DeriveCoords rooms exits)) 2 = Inr (set_coords (shift p (0, 1, 0)) (room 2 False))"
proof -
  note d = fl_def xf_def room_def ex_def rooms_def exits_def
  have ok: "rooms_ok rooms" by (simp add: d rooms_ok_def room_index_def)
  have r: "DeriveCoords rooms exits = (rooms\<lparr>rr_heap := [room 1 True, set_coords (5, 6, 0) (room 2 False)]\<rparr>,
      \<lparr>cm_Anchors = 1, cm_SyntheticAnchor = False, cm_Assigned = 1, cm_Conflicts = [], cm_Orphans = []\<rparr>)"
    unfolding d by code_simp
  from coords_consistent [OF ok _ _ _ r, of 1 "room 1 True" 1 "room 1 True" "ex 1 1 2 DirNorth" "(0, 1, 0)" "room 2 False"] r
  show ?thesis by (simp add: d room_FindByID_def ListFrom_def dirDeltas_def)
qed

end
