(* ===== verification/Json.thy ===== *)
theory Json
  imports Utf8
begin

text \<open>
  What the sources use of \<open>encoding/json\<close>: a decoder of JSON texts, and the decoding of an object into a struct with integer
  fields. As in Go a text is first checked as a whole and refused when it is not one value between blanks; a number
  stays its literal until a field asks for an integer; names match without regard to case; later members win. Bytes of
  a string are kept as they stand (Go replaces ill-formed UTF-8, which no comparison of the sources can tell), and the
  nesting limit of the library (10000) is not reached by any text the sources build.
\<close>

section \<open>Values and their text\<close>

datatype json = JNull | JBool bool | JNum string | JStr string | JArr "json list" | JObj "(string \<times> json) list"

definition json_blank :: "char \<Rightarrow> bool" where
  "json_blank c \<longleftrightarrow> c = CHR '' '' \<or> ord c = 9 \<or> ord c = 10 \<or> ord c = 13"

abbreviation skip_blanks :: "string \<Rightarrow> string" where "skip_blanks s \<equiv> dropWhile json_blank s"

definition hex_digit :: "char \<Rightarrow> nat option" where
  "hex_digit c =
     (if is_digit c then Some (ord c - 48)
      else if 97 \<le> ord c \<and> ord c \<le> 102 then Some (ord c - 87)
      else if 65 \<le> ord c \<and> ord c \<le> 70 then Some (ord c - 55) else None)"

definition hex4 :: "string \<Rightarrow> nat option" where
  "hex4 s =
     (case s of a # b # c # d # rest \<Rightarrow>
        (case (hex_digit a, hex_digit b, hex_digit c, hex_digit d) of
           (Some w, Some x, Some y, Some z) \<Rightarrow> Some (w * 4096 + x * 256 + y * 16 + z)
         | _ \<Rightarrow> None)
      | _ \<Rightarrow> None)"

definition escaped :: "char \<Rightarrow> char option" where
  "escaped c =
     (if c = CHR 0x22 \<or> c = CHR 0x5C \<or> c = CHR ''/'' then Some c
      else if c = CHR ''b'' then Some (CHR 8) else if c = CHR ''f'' then Some (CHR 12) else if c = CHR ''n'' then Some (CHR 10)
      else if c = CHR ''r'' then Some (CHR 13) else if c = CHR ''t'' then Some (CHR 9) else None)"

text \<open>The text after the opening quote, and what follows the closing one.\<close>

definition put_front :: "string \<Rightarrow> (string \<times> string) option \<Rightarrow> (string \<times> string) option" where
  "put_front a r = map_option (\<lambda>(s, rest). (a @ s, rest)) r"

lemma put_front_cong [fundef_cong]: "a = b \<Longrightarrow> r = q \<Longrightarrow> put_front a r = put_front b q"
  by simp

function json_str :: "string \<Rightarrow> (string \<times> string) option" where
  "json_str s =
     (case s of [] \<Rightarrow> None
      | c # cs \<Rightarrow>
          if c = CHR 0x22 then Some ([], cs)
          else if ord c < 32 then None
          else if c \<noteq> CHR 0x5C then put_front [c] (json_str cs)
          else (case cs of [] \<Rightarrow> None
                | e # cs1 \<Rightarrow>
                    if e \<noteq> CHR ''u''
                    then (case escaped e of None \<Rightarrow> None | Some b \<Rightarrow> put_front [b] (json_str cs1))
                    else (case hex4 cs1 of None \<Rightarrow> None
                          | Some hi \<Rightarrow>
                              let rest = drop 4 cs1;
                                  lo = (if take 2 rest = [CHR 0x5C, CHR ''u''] then hex4 (drop 2 rest) else None)
                              in if 0xD800 \<le> hi \<and> hi < 0xDC00 \<and> lo \<noteq> None \<and> 0xDC00 \<le> the lo \<and> the lo < 0xE000
                                 then put_front (EncodeRune ((hi - 0xD800) * 1024 + (the lo - 0xDC00) + 0x10000)) (json_str (drop 6 rest))
                                 else put_front (EncodeRune hi) (json_str rest))))"
  by pat_completeness auto
termination by (relation "measure length") auto

declare json_str.simps [simp del]

text \<open>A number: its literal and the rest.\<close>

definition digits_of :: "string \<Rightarrow> string" where "digits_of s = takeWhile is_digit s"

definition json_num :: "string \<Rightarrow> (string \<times> string) option" where
  "json_num s =
     (let neg = (if s \<noteq> [] \<and> hd s = CHR ''-'' then [CHR ''-''] else []);
          s1 = drop (length neg) s; ds = digits_of s1; s2 = drop (length ds) s1
      in if ds = [] \<or> (hd ds = CHR ''0'' \<and> length ds > 1) then None
         else let fr = (if s2 \<noteq> [] \<and> hd s2 = CHR ''.'' then CHR ''.'' # digits_of (tl s2) else []);
                  s3 = drop (length fr) s2;
                  sg = (if s3 \<noteq> [] \<and> (hd s3 = CHR ''e'' \<or> hd s3 = CHR ''E'')
                        then hd s3 # takeWhile (\<lambda>c. c = CHR ''+'' \<or> c = CHR ''-'') (take 1 (tl s3)) else []);
                  ex = (if sg = [] then [] else digits_of (drop (length sg) s3))
              in if length fr = 1 \<or> (sg \<noteq> [] \<and> ex = []) then None
                 else Some (neg @ ds @ fr @ sg @ ex, drop (length sg + length ex) s3))"

definition json_word :: "string \<Rightarrow> json \<Rightarrow> string \<Rightarrow> (json \<times> string) option" where
  "json_word w v s = (if take (length w) s = w then Some (v, drop (length w) s) else None)"

text \<open>The elements of an array and the members of an object, over the parser of a value; every turn consumes a character.\<close>

type_synonym 'a json_reader = "string \<Rightarrow> ('a \<times> string) option"

primrec json_elems :: "json json_reader \<Rightarrow> nat \<Rightarrow> json list json_reader" where
  "json_elems val 0 s = None"
| "json_elems val (Suc n) s =
     (case val s of None \<Rightarrow> None
      | Some (v, rest) \<Rightarrow>
          (case skip_blanks rest of [] \<Rightarrow> None
           | c # cs \<Rightarrow> if c = CHR '']'' then Some ([v], cs)
                       else if c = CHR '','' then map_option (\<lambda>(vs, rest). (v # vs, rest)) (json_elems val n cs)
                       else None))"

definition json_member :: "json json_reader \<Rightarrow> (string \<times> json) json_reader" where
  "json_member val s =
     (case skip_blanks s of [] \<Rightarrow> None
      | q # s1 \<Rightarrow>
          if q \<noteq> CHR 0x22 then None
          else (case json_str s1 of None \<Rightarrow> None
                | Some (k, s2) \<Rightarrow>
                    (case skip_blanks s2 of [] \<Rightarrow> None
                     | col # s3 \<Rightarrow> if col \<noteq> CHR '':'' then None else map_option (\<lambda>(v, rest). ((k, v), rest)) (val s3))))"

primrec json_members :: "json json_reader \<Rightarrow> nat \<Rightarrow> (string \<times> json) list json_reader" where
  "json_members val 0 s = None"
| "json_members val (Suc n) s =
     (case json_member val s of None \<Rightarrow> None
      | Some (kv, rest) \<Rightarrow>
          (case skip_blanks rest of [] \<Rightarrow> None
           | c # cs \<Rightarrow> if c = CHR ''}'' then Some ([kv], cs)
                       else if c = CHR '','' then map_option (\<lambda>(ms, rest). (kv # ms, rest)) (json_members val n cs)
                       else None))"

text \<open>A value; the depth of a text is at most its length.\<close>

primrec json_val :: "nat \<Rightarrow> json json_reader" where
  "json_val 0 s = None"
| "json_val (Suc n) s =
     (case skip_blanks s of [] \<Rightarrow> None
      | c # cs \<Rightarrow>
          if c = CHR ''{'' then
            (case skip_blanks cs of [] \<Rightarrow> None
             | e # rest \<Rightarrow> if e = CHR ''}'' then Some (JObj [], rest)
                           else map_option (\<lambda>(ms, rest). (JObj ms, rest)) (json_members (json_val n) (length cs) cs))
          else if c = CHR ''['' then
            (case skip_blanks cs of [] \<Rightarrow> None
             | e # rest \<Rightarrow> if e = CHR '']'' then Some (JArr [], rest)
                           else map_option (\<lambda>(vs, rest). (JArr vs, rest)) (json_elems (json_val n) (length cs) cs))
          else if c = CHR 0x22 then map_option (\<lambda>(v, rest). (JStr v, rest)) (json_str cs)
          else if c = CHR ''t'' then json_word ''true'' (JBool True) (c # cs)
          else if c = CHR ''f'' then json_word ''false'' (JBool False) (c # cs)
          else if c = CHR ''n'' then json_word ''null'' JNull (c # cs)
          else map_option (\<lambda>(v, rest). (JNum v, rest)) (json_num (c # cs)))"

definition json_parse :: "string \<Rightarrow> json option" where
  "json_parse s =
     (case json_val (Suc (length s)) s of None \<Rightarrow> None | Some (v, rest) \<Rightarrow> if skip_blanks rest = [] then Some v else None)"

section \<open>One integer field\<close>

text \<open>Unmarshal into a struct with one \<open>int\<close> field, starting from \<open>d\<close>: what the field holds afterwards, whether or not an error is
  reported. A member of another type, or a number that is no \<open>int\<close>, leaves the field alone.\<close>

definition set_field :: "string \<Rightarrow> int \<Rightarrow> string \<times> json \<Rightarrow> int" where
  "set_field name d kv =
     (if to_lower (fst kv) \<noteq> name then d
      else case snd kv of JNum lit \<Rightarrow> (case parse_int64 lit of None \<Rightarrow> d | Some i \<Rightarrow> i) | _ \<Rightarrow> d)"

definition unmarshal_field :: "string \<Rightarrow> string \<Rightarrow> int" where
  "unmarshal_field name s = (case json_parse s of Some (JObj ms) \<Rightarrow> foldl (set_field name) 0 ms | _ \<Rightarrow> 0)"

definition marshal_field :: "string \<Rightarrow> int \<Rightarrow> string" where
  "marshal_field name i = ''{'' @ [CHR 0x22] @ name @ [CHR 0x22] @ '':'' @ show_int i @ ''}''"

text \<open>What is written is read back.\<close>

lemma json_str_plain:
  "\<forall>c\<in>set s. c \<noteq> CHR 0x22 \<and> c \<noteq> CHR 0x5C \<and> 32 \<le> ord c \<Longrightarrow> json_str (s @ CHR 0x22 # rest) = Some (s, rest)"
proof (induction s)
  case Nil
  show ?case by (subst json_str.simps) simp
next
  case (Cons c s)
  then show ?case by (subst json_str.simps) (simp add: put_front_def)
qed

lemma show_nat_zero: "hd (show_nat n) = CHR ''0'' \<Longrightarrow> length (show_nat n) = 1"
proof (induction n rule: show_nat.induct)
  case (1 n)
  show ?case
  proof (cases "n < 10")
    case True
    then show ?thesis by (subst show_nat.simps) simp
  next
    case False
    then have "hd (show_nat n) = hd (show_nat (n div 10))" by (subst show_nat.simps) simp
    with 1 False have "length (show_nat (n div 10)) = 1" "hd (show_nat (n div 10)) = CHR ''0''" by simp_all
    then have "show_nat (n div 10) = [CHR ''0'']" by (cases "show_nat (n div 10)") auto
    then have "n div 10 = 0" using digits_val_show_nat [of "n div 10"] by (simp add: digits_val_def)
    with False show ?thesis by simp
  qed
qed

lemma json_num_show: "json_num (show_int i @ CHR ''}'' # rest) = Some (show_int i, CHR ''}'' # rest)"
proof -
  have d: "digits_of (show_nat n @ CHR ''}'' # rest) = show_nat n" for n
    using show_nat_digits [of n] by (simp add: digits_of_def list_all_iff is_digit_def)
  have h: "hd (show_nat n @ CHR ''}'' # rest) \<noteq> CHR ''-''" for n
    using is_digit_not_sign [OF hd_show_nat [of n]] by simp
  have z: "\<not> (hd (show_nat n) = CHR ''0'' \<and> 1 < length (show_nat n))" for n using show_nat_zero [of n] by auto
  show ?thesis
  proof (cases "i < 0")
    case True
    then show ?thesis using z [of "nat (- i)"] by (simp add: json_num_def show_int_def d Let_def)
  next
    case False
    then show ?thesis using z [of "nat i"] h [of "nat i"] by (simp add: json_num_def show_int_def d Let_def)
  qed
qed

lemma show_int_start: "show_int i = [] \<Longrightarrow> False" "c = hd (show_int i) \<Longrightarrow> is_digit c \<or> c = CHR ''-''"
  using hd_show_nat [of "nat i"] by (auto simp: show_int_def split: if_splits)

lemma json_val_num: "json_val (Suc n) (show_int i @ CHR ''}'' # rest) = Some (JNum (show_int i), CHR ''}'' # rest)"
proof -
  obtain c cs where s: "show_int i = c # cs" using show_int_start(1) by (cases "show_int i") auto
  then have c: "is_digit c \<or> c = CHR ''-''" using show_int_start(2) [of c i] by simp
  then have "\<not> json_blank c" "c \<noteq> CHR ''{''" "c \<noteq> CHR ''[''" "c \<noteq> CHR 0x22" "c \<noteq> CHR ''t''" "c \<noteq> CHR ''f''" "c \<noteq> CHR ''n''"
    by (auto simp: json_blank_def is_digit_def)
  then show ?thesis using json_num_show [of i rest] by (simp add: s)
qed

lemma field_roundtrip:
  assumes name: "\<forall>c\<in>set name. c \<noteq> CHR 0x22 \<and> c \<noteq> CHR 0x5C \<and> 32 \<le> ord c" "to_lower name = name" and i: "in_range 64 i"
  shows "unmarshal_field name (marshal_field name i) = i"
proof -
  let ?body = "name @ CHR 0x22 # CHR '':'' # show_int i @ ''}''"
  have nb: "\<not> json_blank (CHR 0x22)" "\<not> json_blank (CHR '':'')" "\<not> json_blank (CHR ''}'')" "\<not> json_blank (CHR ''{'')"
    by (simp_all add: json_blank_def)
  have m: "json_member (json_val (Suc n)) (CHR 0x22 # ?body) = Some ((name, JNum (show_int i)), ''}'')" for n
    using json_val_num [of n i "[]"] by (simp add: json_member_def nb json_str_plain [OF name(1)] del: json_val.simps)
  have "json_members (json_val (Suc n)) (Suc k) (CHR 0x22 # ?body) = Some ([(name, JNum (show_int i))], [])" for n k
    by (simp add: m nb del: json_val.simps)
  moreover have "\<exists>k. length (CHR 0x22 # ?body) = Suc k" by simp
  ultimately have "json_members (json_val (Suc n)) (length (CHR 0x22 # ?body)) (CHR 0x22 # ?body) = Some ([(name, JNum (show_int i))], [])" for n
    by metis
  then have "json_val (Suc (Suc n)) (CHR ''{'' # CHR 0x22 # ?body) = Some (JObj [(name, JNum (show_int i))], [])" for n
    by (subst json_val.simps) (simp add: nb del: json_members.simps json_val.simps)
  then have "json_parse (marshal_field name i) = Some (JObj [(name, JNum (show_int i))])"
    by (simp add: json_parse_def marshal_field_def del: json_val.simps)
  then show ?thesis using parse_show_int [OF i] name(2) by (simp add: unmarshal_field_def set_field_def)
qed

lemma empty_object: "unmarshal_field name ''{}'' = 0"
  by (simp add: unmarshal_field_def json_parse_def json_blank_def)

end
