(* ===== verification/Quest.thy ===== *)
theory Quest
  imports Json CharacterRepo RoomRepo Sessions CombatXP
begin

text \<open>
  The quest engine: \<open>internal/quest/types.go\<close>, \<open>validator.go\<close> and \<open>engine.go\<close>. A handler is a function of the world it shares
  with the rest of the server (rows, rooms, sessions, audit rows); an error it returns is part of the result and a
  Go panic (a nil quest, a step outside its list) is the result \<open>None\<close>. The clock reading of a completion is an argument. A
  character that is read is a copy; the entries of its log that a handler changes in place are the ones it then records.
\<close>

section \<open>The catalog\<close>

type_synonym StepKind = string

definition StepTalkTo :: StepKind where "StepTalkTo = ''talk_to''"
definition StepKillN :: StepKind where "StepKillN = ''kill_n''"
definition StepReachRoom :: StepKind where "StepReachRoom = ''reach_room''"
definition StepScript :: StepKind where "StepScript = ''script''"

record Step =
  st_Kind :: StepKind
  st_Prompt :: string
  st_Mob :: string
  st_Room :: string
  st_Count :: int
  st_Script :: string

record Reward =
  re_XP :: int
  re_Copper :: int

record Quest =
  qu_ID :: string
  qu_Name :: string
  qu_Summary :: string
  qu_GiverMob :: string
  qu_Steps :: "Step list"
  qu_Rewards :: Reward

text \<open>The map of the catalog; a nil pointer is \<open>None\<close>.\<close>

type_synonym QuestCatalog = "(string \<times> Quest option) list"

definition quest_Get :: "QuestCatalog option \<Rightarrow> string \<Rightarrow> Quest option option" where
  "quest_Get c i = (case c of None \<Rightarrow> None | Some m \<Rightarrow> map_of m i)"

record RefSets =
  rs_Mobs :: "string set"
  rs_Rooms :: "string set"
  rs_Scripts :: "string set option"

datatype step_fault = PromptEmpty | RequiresMob | UnknownMob string | CountNotPositive int | RequiresRoom | UnknownRoom string
  | RequiresScript | UnknownScript string | UnknownKind string

datatype catalog_fault = NilCatalog | NilQuest string | EmptyID string | KeyMismatch string string | EmptyName string | NoSteps string
  | UnknownGiver string string | BadStep string nat step_fault

definition validateStep :: "Step \<Rightarrow> RefSets option \<Rightarrow> step_fault option" where
  "validateStep s refs =
     (if st_Prompt s = [] then Some PromptEmpty
      else if st_Kind s = StepTalkTo then
        (if st_Mob s = [] then Some RequiresMob
         else if refs \<noteq> None \<and> st_Mob s \<notin> rs_Mobs (the refs) then Some (UnknownMob (st_Mob s)) else None)
      else if st_Kind s = StepKillN then
        (if st_Mob s = [] then Some RequiresMob
         else if st_Count s \<le> 0 then Some (CountNotPositive (st_Count s))
         else if refs \<noteq> None \<and> st_Mob s \<notin> rs_Mobs (the refs) then Some (UnknownMob (st_Mob s)) else None)
      else if st_Kind s = StepReachRoom then
        (if st_Room s = [] then Some RequiresRoom
         else if refs \<noteq> None \<and> st_Room s \<notin> rs_Rooms (the refs) then Some (UnknownRoom (st_Room s)) else None)
      else if st_Kind s = StepScript then
        (if st_Script s = [] then Some RequiresScript
         else if refs \<noteq> None \<and> rs_Scripts (the refs) \<noteq> None \<and> st_Script s \<notin> the (rs_Scripts (the refs)) then Some (UnknownScript (st_Script s))
         else None)
      else Some (UnknownKind (st_Kind s)))"

fun steps_fault :: "string \<Rightarrow> RefSets option \<Rightarrow> nat \<Rightarrow> Step list \<Rightarrow> catalog_fault option" where
  "steps_fault i refs n [] = None"
| "steps_fault i refs n (s # ss) =
     (case validateStep s refs of Some f \<Rightarrow> Some (BadStep i n f) | None \<Rightarrow> steps_fault i refs (Suc n) ss)"

definition quest_fault :: "RefSets option \<Rightarrow> string \<Rightarrow> Quest option \<Rightarrow> catalog_fault option" where
  "quest_fault refs i qp =
     (case qp of None \<Rightarrow> Some (NilQuest i)
      | Some q \<Rightarrow>
          if qu_ID q = [] then Some (EmptyID i)
          else if qu_ID q \<noteq> i then Some (KeyMismatch i (qu_ID q))
          else if qu_Name q = [] then Some (EmptyName i)
          else if qu_Steps q = [] then Some (NoSteps i)
          else if refs \<noteq> None \<and> qu_GiverMob q \<noteq> [] \<and> qu_GiverMob q \<notin> rs_Mobs (the refs) then Some (UnknownGiver i (qu_GiverMob q))
          else steps_fault i refs 0 (qu_Steps q))"

fun catalog_loop :: "RefSets option \<Rightarrow> QuestCatalog \<Rightarrow> catalog_fault option" where
  "catalog_loop refs [] = None"
| "catalog_loop refs ((i, qp) # rest) = (case quest_fault refs i qp of Some f \<Rightarrow> Some f | None \<Rightarrow> catalog_loop refs rest)"

definition quest_Validate :: "QuestCatalog option \<Rightarrow> RefSets option \<Rightarrow> catalog_fault option" where
  "quest_Validate cat refs = (case cat of None \<Rightarrow> Some NilCatalog | Some m \<Rightarrow> catalog_loop refs m)"

section \<open>The world of the engine and its notices\<close>

record QuestWorld =
  qw_Chars :: MemoryCharacterRepo
  qw_Rooms :: MemoryRoomRepo
  qw_Sess :: Sessions
  qw_Audit :: "(sid option \<times> string \<times> string \<times> string) list"

datatype quest_error = GetCharacter repo_error | RecordQuest repo_error | RecordXPFailed repo_error | GrantCoin repo_error

type_synonym quest_run = "(QuestWorld \<times> quest_error option) option"

definition quest_remaining :: string where "quest_remaining = ''remaining''"

definition stepInitState :: "Step \<Rightarrow> string" where
  "stepInitState s = (if st_Kind s = StepKillN then marshal_field quest_remaining (st_Count s) else ''{}'')"

definition lookupSession :: "Sessions \<Rightarrow> int \<Rightarrow> sid option" where
  "lookupSession ss charID = find (\<lambda>i. gs_CharacterID (sess ss i) = charID) (Snapshot ss)"

text \<open>\<open>strings.ReplaceAll\<close> of a doubled marker.\<close>

fun space_pair :: "char \<Rightarrow> string \<Rightarrow> string" where
  "space_pair x (c # d # cs) = (if c = x \<and> d = x then [x, CHR '' '', x] @ space_pair x cs else c # space_pair x (d # cs))"
| "space_pair x cs = cs"

definition space_open :: "string \<Rightarrow> string" where "space_open s = space_pair (CHR ''{'') s"

definition arrow :: string where "arrow = [CHR 0xE2, CHR 0x86, CHR 0x92, CHR '' '']"

definition quest_notice :: "int \<Rightarrow> string \<Rightarrow> QuestWorld \<Rightarrow> QuestWorld" where
  "quest_notice charID msg w =
     (case lookupSession (qw_Sess w) charID of None \<Rightarrow> w | Some i \<Rightarrow> w\<lparr>qw_Sess := write_to i msg (qw_Sess w)\<rparr>)"

definition notifyAccepted :: "int \<Rightarrow> Quest \<Rightarrow> QuestWorld \<Rightarrow> QuestWorld" where
  "notifyAccepted charID q =
     quest_notice charID ([CHR 13, CHR 10] @ ''[Quest accepted] '' @ space_open (qu_Name q) @ [CHR 13, CHR 10] @ ''  '' @ arrow
       @ space_open (if qu_Steps q \<noteq> [] then st_Prompt (hd (qu_Steps q)) else []) @ [CHR 13, CHR 10])"

definition notifyStepAdvanced :: "int \<Rightarrow> Quest \<Rightarrow> Step \<Rightarrow> QuestWorld \<Rightarrow> QuestWorld" where
  "notifyStepAdvanced charID q s =
     quest_notice charID ([CHR 13, CHR 10] @ ''[Quest step] '' @ space_open (qu_Name q) @ [CHR 13, CHR 10] @ ''  '' @ arrow
       @ space_open (st_Prompt s) @ [CHR 13, CHR 10])"

definition notifyKillProgress :: "int \<Rightarrow> Quest \<Rightarrow> int \<Rightarrow> QuestWorld \<Rightarrow> QuestWorld" where
  "notifyKillProgress charID q remaining =
     quest_notice charID ([CHR 13, CHR 10] @ ''[Quest progress] '' @ space_open (qu_Name q) @ [CHR '' '', CHR 0xE2, CHR 0x80, CHR 0x94, CHR '' '']
       @ show_int remaining @ '' remaining.'' @ [CHR 13, CHR 10])"

definition notifyCompleted :: "int \<Rightarrow> Quest \<Rightarrow> QuestWorld \<Rightarrow> QuestWorld" where
  "notifyCompleted charID q =
     quest_notice charID ([CHR 13, CHR 10] @ ''[Quest complete] '' @ space_open (qu_Name q) @ [CHR 13, CHR 10]
       @ (if re_XP (qu_Rewards q) > 0 then ''  '' @ arrow @ show_int (re_XP (qu_Rewards q)) @ '' XP'' @ [CHR 13, CHR 10] else [])
       @ (if re_Copper (qu_Rewards q) > 0 then ''  '' @ arrow @ amount_Short (re_Copper (qu_Rewards q)) @ [CHR 13, CHR 10] else []))"

section \<open>Steps and rewards\<close>

definition step_at :: "Quest \<Rightarrow> int \<Rightarrow> Step option" where
  "step_at q i = (if 0 \<le> i \<and> i < int (length (qu_Steps q)) then Some (qu_Steps q ! nat i) else None)"

fun findActive :: "QuestProgress list \<Rightarrow> string \<Rightarrow> nat option" where
  "findActive [] i = None"
| "findActive (p # ps) i = (if qp_QuestID p = i \<and> qp_CompletedAt p = 0 then Some 0 else map_option Suc (findActive ps i))"

text \<open>Every handler ends by recording a log; what follows happens only when that succeeded.\<close>

definition record_log :: "int \<Rightarrow> QuestProgress list \<Rightarrow> (QuestWorld \<Rightarrow> QuestWorld) \<Rightarrow> QuestWorld \<Rightarrow> quest_run" where
  "record_log charID log fin w =
     (case repo_RecordQuestProgress (qw_Chars w) charID log of
        (chars, Some e) \<Rightarrow> Some (w\<lparr>qw_Chars := chars\<rparr>, Some (RecordQuest e))
      | (chars, None) \<Rightarrow> Some (fin (w\<lparr>qw_Chars := chars\<rparr>), None))"

definition grantCoin :: "Character \<Rightarrow> int \<Rightarrow> QuestWorld \<Rightarrow> QuestWorld \<times> quest_error option" where
  "grantCoin char copper w =
     (case repo_RecordCoin (qw_Chars w) (ch_ID char) (i64 (ch_Coin char + copper)) (ch_BankBalance char) (ch_CoinVersion char) of
        (chars, None) \<Rightarrow> (w\<lparr>qw_Chars := chars\<rparr>, None)
      | (chars, Some e) \<Rightarrow>
          if e \<noteq> ErrCoinConflict then (w\<lparr>qw_Chars := chars\<rparr>, Some (GrantCoin e))
          else (case repo_GetByID chars (ch_ID char) of
                  Inl e \<Rightarrow> (w\<lparr>qw_Chars := chars\<rparr>, Some (GetCharacter e))
                | Inr fresh \<Rightarrow>
                    (case repo_RecordCoin chars (ch_ID char) (i64 (ch_Coin fresh + copper)) (ch_BankBalance fresh) (ch_CoinVersion fresh) of
                       (chars, e) \<Rightarrow> (w\<lparr>qw_Chars := chars\<rparr>, map_option GrantCoin e))))"

definition grantRewards :: "Character \<Rightarrow> Quest \<Rightarrow> QuestWorld \<Rightarrow> QuestWorld \<times> quest_error option" where
  "grantRewards char q w =
     (case (if re_XP (qu_Rewards q) > 0 then repo_RecordXP (qw_Chars w) (ch_ID char) (i64 (ch_XP char + re_XP (qu_Rewards q))) else (qw_Chars w, None)) of
        (chars, Some e) \<Rightarrow> (w\<lparr>qw_Chars := chars\<rparr>, Some (RecordXPFailed e))
      | (chars, None) \<Rightarrow>
          if re_Copper (qu_Rewards q) > 0 then grantCoin char (re_Copper (qu_Rewards q)) (w\<lparr>qw_Chars := chars\<rparr>) else (w\<lparr>qw_Chars := chars\<rparr>, None))"

text \<open>A failed grant is only logged.\<close>

definition completeQuest :: "int \<Rightarrow> Character \<Rightarrow> Quest \<Rightarrow> nat \<Rightarrow> QuestWorld \<Rightarrow> quest_run" where
  "completeQuest now char q idx w =
     record_log (ch_ID char) ((ch_QuestLog char)[idx := (ch_QuestLog char ! idx)\<lparr>qp_CompletedAt := now, qp_StateJSON := ''{}''\<rparr>])
       (\<lambda>w. let w1 = fst (grantRewards char q w);
                w2 = w1\<lparr>qw_Audit := qw_Audit w1 @ [(lookupSession (qw_Sess w1) (ch_ID char), ''quest_complete'', qu_ID q, [])]\<rparr>
            in notifyCompleted (ch_ID char) q w2) w"

definition advanceStep :: "int \<Rightarrow> Character \<Rightarrow> Quest \<Rightarrow> nat \<Rightarrow> QuestWorld \<Rightarrow> quest_run" where
  "advanceStep now char q idx w =
     (let p = ch_QuestLog char ! idx; curStep = qp_StepIndex p
      in if curStep + 1 \<ge> int (length (qu_Steps q)) then completeQuest now char q idx w
         else case step_at q (curStep + 1) of None \<Rightarrow> None
              | Some next \<Rightarrow>
                  record_log (ch_ID char) ((ch_QuestLog char)[idx := p\<lparr>qp_StepIndex := i16 (curStep + 1), qp_StateJSON := stepInitState next\<rparr>])
                    (notifyStepAdvanced (ch_ID char) q next) w)"

section \<open>The entry points\<close>

definition AcceptQuest :: "QuestCatalog option \<Rightarrow> int \<Rightarrow> string \<Rightarrow> QuestWorld \<Rightarrow> quest_run" where
  "AcceptQuest cat charID questID w =
     (case quest_Get cat questID of None \<Rightarrow> Some (w, None)
      | Some qp \<Rightarrow>
          (case repo_GetByID (qw_Chars w) charID of Inl e \<Rightarrow> Some (w, Some (GetCharacter e))
           | Inr char \<Rightarrow>
               if \<exists>p\<in>set (ch_QuestLog char). qp_QuestID p = questID then Some (w, None)
               else (case qp of None \<Rightarrow> None
                     | Some q \<Rightarrow>
                         (case step_at q 0 of None \<Rightarrow> None
                          | Some s \<Rightarrow>
                              record_log charID (ch_QuestLog char @ [\<lparr>qp_QuestID = questID, qp_StepIndex = 0, qp_StateJSON = stepInitState s, qp_CompletedAt = 0\<rparr>])
                                (notifyAccepted charID q) w))))"

text \<open>The common start of the two calls that advance one quest, with the guard on its step.\<close>

definition advance_if :: "(Step \<Rightarrow> bool) \<Rightarrow> QuestCatalog option \<Rightarrow> int \<Rightarrow> int \<Rightarrow> string \<Rightarrow> QuestWorld \<Rightarrow> quest_run" where
  "advance_if guard cat now charID questID w =
     (case quest_Get cat questID of None \<Rightarrow> Some (w, None)
      | Some qp \<Rightarrow>
          (case repo_GetByID (qw_Chars w) charID of Inl e \<Rightarrow> Some (w, Some (GetCharacter e))
           | Inr char \<Rightarrow>
               (case findActive (ch_QuestLog char) questID of None \<Rightarrow> Some (w, None)
                | Some idx \<Rightarrow>
                    (case qp of None \<Rightarrow> None
                     | Some q \<Rightarrow>
                         (case step_at q (qp_StepIndex (ch_QuestLog char ! idx)) of None \<Rightarrow> None
                          | Some s \<Rightarrow> if \<not> guard s then Some (w, None) else advanceStep now char q idx w)))))"

definition AdvanceTalkTo :: "QuestCatalog option \<Rightarrow> int \<Rightarrow> int \<Rightarrow> string \<Rightarrow> string \<Rightarrow> QuestWorld \<Rightarrow> quest_run" where
  "AdvanceTalkTo cat now charID questID npc = advance_if (\<lambda>s. st_Kind s = StepTalkTo \<and> st_Mob s = npc) cat now charID questID"

definition quest_Advance :: "QuestCatalog option \<Rightarrow> int \<Rightarrow> int \<Rightarrow> string \<Rightarrow> QuestWorld \<Rightarrow> quest_run" where
  "quest_Advance cat now charID questID = advance_if (\<lambda>s. st_Kind s = StepScript) cat now charID questID"

definition AbandonQuest :: "int \<Rightarrow> string \<Rightarrow> QuestWorld \<Rightarrow> quest_run" where
  "AbandonQuest charID questID w =
     (case repo_GetByID (qw_Chars w) charID of Inl e \<Rightarrow> Some (w, Some (GetCharacter e))
      | Inr char \<Rightarrow>
          (case findActive (ch_QuestLog char) questID of None \<Rightarrow> Some (w, None)
           | Some idx \<Rightarrow> record_log charID (take idx (ch_QuestLog char) @ drop (Suc idx) (ch_QuestLog char)) (\<lambda>w. w) w))"

text \<open>The handlers of the two events walk the log and act on the first entry that matches.\<close>

fun kill_loop :: "QuestCatalog option \<Rightarrow> int \<Rightarrow> Character \<Rightarrow> string \<Rightarrow> nat \<Rightarrow> QuestProgress list \<Rightarrow> QuestWorld \<Rightarrow> quest_run" where
  "kill_loop cat now char victim i [] w = Some (w, None)"
| "kill_loop cat now char victim i (p # ps) w =
     (if qp_CompletedAt p \<noteq> 0 then kill_loop cat now char victim (Suc i) ps w
      else case quest_Get cat (qp_QuestID p) of None \<Rightarrow> kill_loop cat now char victim (Suc i) ps w
           | Some None \<Rightarrow> None
           | Some (Some q) \<Rightarrow>
               if qp_StepIndex p \<ge> int (length (qu_Steps q)) then kill_loop cat now char victim (Suc i) ps w
               else case step_at q (qp_StepIndex p) of None \<Rightarrow> None
                    | Some s \<Rightarrow>
                        if st_Kind s \<noteq> StepKillN \<or> st_Mob s \<noteq> victim then kill_loop cat now char victim (Suc i) ps w
                        else let remaining = unmarshal_field quest_remaining (qp_StateJSON p)
                             in if remaining \<le> 0 then advanceStep now char q i w
                                else if remaining - 1 > 0
                                then record_log (ch_ID char) ((ch_QuestLog char)[i := p\<lparr>qp_StateJSON := marshal_field quest_remaining (remaining - 1)\<rparr>])
                                       (notifyKillProgress (ch_ID char) q (remaining - 1)) w
                                else advanceStep now char q i w)"

definition quest_handleKill :: "QuestCatalog option \<Rightarrow> int \<Rightarrow> int \<Rightarrow> string \<Rightarrow> QuestWorld \<Rightarrow> quest_run" where
  "quest_handleKill cat now charID victim w =
     (case repo_GetByID (qw_Chars w) charID of Inl e \<Rightarrow> Some (w, Some (GetCharacter e))
      | Inr char \<Rightarrow> kill_loop cat now char victim 0 (ch_QuestLog char) w)"

text \<open>The room is looked up once, when the first candidate is met; an external id that is empty is looked up again.\<close>

fun enter_loop :: "QuestCatalog option \<Rightarrow> int \<Rightarrow> Character \<Rightarrow> int \<Rightarrow> string \<Rightarrow> nat \<Rightarrow> QuestProgress list \<Rightarrow> QuestWorld \<Rightarrow> quest_run" where
  "enter_loop cat now char toRoomID roomExt i [] w = Some (w, None)"
| "enter_loop cat now char toRoomID roomExt i (p # ps) w =
     (if qp_CompletedAt p \<noteq> 0 then enter_loop cat now char toRoomID roomExt (Suc i) ps w
      else case quest_Get cat (qp_QuestID p) of None \<Rightarrow> enter_loop cat now char toRoomID roomExt (Suc i) ps w
           | Some None \<Rightarrow> None
           | Some (Some q) \<Rightarrow>
               if qp_StepIndex p \<ge> int (length (qu_Steps q)) then enter_loop cat now char toRoomID roomExt (Suc i) ps w
               else case step_at q (qp_StepIndex p) of None \<Rightarrow> None
                    | Some s \<Rightarrow>
                        if st_Kind s \<noteq> StepReachRoom then enter_loop cat now char toRoomID roomExt (Suc i) ps w
                        else case (if roomExt = [] then map_sum id rm_ExternalID (room_FindByID (qw_Rooms w) toRoomID) else Inr roomExt) of
                               Inl e \<Rightarrow> Some (w, None)
                             | Inr ext \<Rightarrow>
                                 if st_Room s \<noteq> ext then enter_loop cat now char toRoomID ext (Suc i) ps w
                                 else advanceStep now char q i w)"

definition quest_handleEnter :: "QuestCatalog option \<Rightarrow> int \<Rightarrow> int \<Rightarrow> int \<Rightarrow> QuestWorld \<Rightarrow> quest_run" where
  "quest_handleEnter cat now charID toRoomID w =
     (case repo_GetByID (qw_Chars w) charID of Inl e \<Rightarrow> Some (w, Some (GetCharacter e))
      | Inr char \<Rightarrow> enter_loop cat now char toRoomID [] 0 (ch_QuestLog char) w)"

definition quest_onCombatDeath :: "QuestCatalog option \<Rightarrow> int \<Rightarrow> ActorRef \<Rightarrow> ActorRef \<Rightarrow> string \<Rightarrow> QuestWorld \<Rightarrow> QuestWorld option" where
  "quest_onCombatDeath cat now killer victim tplExt w =
     (if rf_Kind killer \<noteq> ActorKindCharacter \<or> rf_ID killer = 0 \<or> rf_Kind victim \<noteq> ActorKindMob \<or> tplExt = [] then Some w
      else map_option fst (quest_handleKill cat now (rf_ID killer) tplExt w))"

definition quest_onPlayerEntered :: "QuestCatalog option \<Rightarrow> int \<Rightarrow> int \<Rightarrow> int \<Rightarrow> QuestWorld \<Rightarrow> QuestWorld option" where
  "quest_onPlayerEntered cat now charID toRoomID w =
     (if charID = 0 \<or> toRoomID = 0 then Some w else map_option fst (quest_handleEnter cat now charID toRoomID w))"

text \<open>The \<open>abandon\<close> branch of the quest verb (\<open>cmd/quest.go\<close>) and the counter it shows.\<close>

definition killRemaining :: "string \<Rightarrow> int" where
  "killRemaining stateJSON = (if stateJSON = [] then 0 else unmarshal_field quest_remaining stateJSON)"

definition defangCfmt :: "string \<Rightarrow> string" where "defangCfmt s = space_pair (CHR ''}'') (space_open s)"

definition abandonQuest :: "sid \<Rightarrow> Character \<Rightarrow> string \<Rightarrow> QuestWorld \<Rightarrow> QuestWorld option" where
  "abandonQuest i char questID w =
     (if findActive (ch_QuestLog char) questID = None
      then Some (w\<lparr>qw_Sess := write_to i (''{{You aren'' @ [CHR 0x27] @ ''t on '' @ defangCfmt questID @ ''.}}::yellow'' @ CRLF) (qw_Sess w)\<rparr>)
      else case AbandonQuest (ch_ID char) questID w of None \<Rightarrow> None
           | Some (w1, Some e) \<Rightarrow>
               Some (w1\<lparr>qw_Sess := write_to i (''{{Couldn'' @ [CHR 0x27] @ ''t abandon that quest.}}::red'' @ CRLF) (qw_Sess w1)\<rparr>)
           | Some (w1, None) \<Rightarrow>
               Some (w1\<lparr>qw_Audit := qw_Audit w1 @ [(Some i, ''quest_abandon'', questID, [])],
                        qw_Sess := write_to i (''{{You abandon '' @ defangCfmt questID @ ''.}}::gray'' @ CRLF) (qw_Sess w1)\<rparr>))"

section \<open>The log as a state machine\<close>

text \<open>What a character's log may do: a quest is taken up once, given up while it is active, a kill is counted, the current step is left
  for the next, or the last step is left, which closes the quest for good and pays for it.\<close>

definition pay :: "Quest \<Rightarrow> Character \<Rightarrow> Character" where
  "pay q c =
     (let c1 = (if re_XP (qu_Rewards q) > 0 then c\<lparr>ch_XP := i64 (ch_XP c + re_XP (qu_Rewards q))\<rparr> else c)
      in if re_Copper (qu_Rewards q) > 0
         then c1\<lparr>ch_Coin := i64 (ch_Coin c + re_Copper (qu_Rewards q)), ch_CoinVersion := i64 (ch_CoinVersion c + 1)\<rparr> else c1)"

definition on_step :: "QuestCatalog \<Rightarrow> QuestProgress \<Rightarrow> Quest \<Rightarrow> Step \<Rightarrow> bool" where
  "on_step cat p q s \<longleftrightarrow> qp_CompletedAt p = 0 \<and> map_of cat (qp_QuestID p) = Some (Some q) \<and> step_at q (qp_StepIndex p) = Some s"

definition quota_met :: "Step \<Rightarrow> QuestProgress \<Rightarrow> bool" where
  "quota_met s p \<longleftrightarrow> (st_Kind s = StepKillN \<longrightarrow> unmarshal_field quest_remaining (qp_StateJSON p) \<le> 1)"

inductive quest_move :: "QuestCatalog \<Rightarrow> Character \<Rightarrow> Character \<Rightarrow> bool" for cat where
  accept: "map_of cat i = Some (Some q) \<Longrightarrow> i \<notin> qp_QuestID ` set (ch_QuestLog c) \<Longrightarrow> step_at q 0 = Some s \<Longrightarrow>
    quest_move cat c (c\<lparr>ch_QuestLog := ch_QuestLog c @ [\<lparr>qp_QuestID = i, qp_StepIndex = 0, qp_StateJSON = stepInitState s, qp_CompletedAt = 0\<rparr>]\<rparr>)"
| abandon: "ch_QuestLog c = xs @ p # ys \<Longrightarrow> qp_CompletedAt p = 0 \<Longrightarrow> quest_move cat c (c\<lparr>ch_QuestLog := xs @ ys\<rparr>)"
| tally: "ch_QuestLog c = xs @ p # ys \<Longrightarrow> on_step cat p q s \<Longrightarrow> st_Kind s = StepKillN \<Longrightarrow>
    unmarshal_field quest_remaining (qp_StateJSON p) = n \<Longrightarrow> 1 < n \<Longrightarrow>
    quest_move cat c (c\<lparr>ch_QuestLog := xs @ p\<lparr>qp_StateJSON := marshal_field quest_remaining (n - 1)\<rparr> # ys\<rparr>)"
| advance: "ch_QuestLog c = xs @ p # ys \<Longrightarrow> on_step cat p q s \<Longrightarrow> quota_met s p \<Longrightarrow> step_at q (qp_StepIndex p + 1) = Some s' \<Longrightarrow>
    quest_move cat c (c\<lparr>ch_QuestLog := xs @ p\<lparr>qp_StepIndex := qp_StepIndex p + 1, qp_StateJSON := stepInitState s'\<rparr> # ys\<rparr>)"
| complete: "ch_QuestLog c = xs @ p # ys \<Longrightarrow> on_step cat p q s \<Longrightarrow> quota_met s p \<Longrightarrow> step_at q (qp_StepIndex p + 1) = None \<Longrightarrow> 0 < now \<Longrightarrow>
    quest_move cat c (pay q (c\<lparr>ch_QuestLog := xs @ p\<lparr>qp_CompletedAt := now, qp_StateJSON := ''{}''\<rparr> # ys\<rparr>))"

inductive_cases quest_moveE: "quest_move cat c d"

definition progress_ok :: "QuestCatalog \<Rightarrow> QuestProgress \<Rightarrow> bool" where
  "progress_ok cat p \<longleftrightarrow> (\<exists>q s. map_of cat (qp_QuestID p) = Some (Some q) \<and> step_at q (qp_StepIndex p) = Some s
     \<and> (if qp_CompletedAt p = 0 \<and> st_Kind s = StepKillN
        then \<exists>n. 1 \<le> n \<and> n \<le> st_Count s \<and> qp_StateJSON p = marshal_field quest_remaining n
        else qp_StateJSON p = ''{}'')
     \<and> (qp_CompletedAt p \<noteq> 0 \<longrightarrow> step_at q (qp_StepIndex p + 1) = None))"

definition log_ok :: "QuestCatalog \<Rightarrow> QuestProgress list \<Rightarrow> bool" where
  "log_ok cat log \<longleftrightarrow> distinct (map qp_QuestID log) \<and> list_all (progress_ok cat) log"

definition catalog_ok :: "QuestCatalog \<Rightarrow> bool" where
  "catalog_ok cat \<longleftrightarrow> (\<forall>i qp. map_of cat i = Some qp \<longrightarrow>
     (\<exists>q. qp = Some q \<and> qu_Steps q \<noteq> [] \<and> length (qu_Steps q) \<le> 32768
        \<and> (\<forall>s\<in>set (qu_Steps q). st_Kind s = StepKillN \<longrightarrow> 0 < st_Count s \<and> st_Count s \<le> MaxInt64)))"

lemma remaining_name: "\<forall>c\<in>set quest_remaining. c \<noteq> CHR 0x22 \<and> c \<noteq> CHR 0x5C \<and> 32 \<le> ord c" "to_lower quest_remaining = quest_remaining"
  by (simp_all add: quest_remaining_def to_lower_def lower_char_def is_upper_def)

lemmas remaining_roundtrip [simp] = field_roundtrip [OF remaining_name]

lemma step_at_in: "step_at q i = Some s \<Longrightarrow> s \<in> set (qu_Steps q)"
  by (auto simp: step_at_def split: if_splits)

lemma init_ok:
  "catalog_ok cat \<Longrightarrow> map_of cat i = Some (Some q) \<Longrightarrow> step_at q k = Some s \<Longrightarrow>
   progress_ok cat \<lparr>qp_QuestID = i, qp_StepIndex = k, qp_StateJSON = stepInitState s, qp_CompletedAt = 0\<rparr>"
proof -
  assume a: "catalog_ok cat" "map_of cat i = Some (Some q)" "step_at q k = Some s"
  then have "st_Kind s = StepKillN \<Longrightarrow> 1 \<le> st_Count s" using step_at_in [of q k s] unfolding catalog_ok_def by fastforce
  then have "st_Kind s = StepKillN \<Longrightarrow> \<exists>n. 1 \<le> n \<and> n \<le> st_Count s \<and> marshal_field quest_remaining (st_Count s) = marshal_field quest_remaining n"
    by blast
  with a show "progress_ok cat \<lparr>qp_QuestID = i, qp_StepIndex = k, qp_StateJSON = stepInitState s, qp_CompletedAt = 0\<rparr>"
    unfolding progress_ok_def by (intro exI [of _ q] exI [of _ s]) (simp add: stepInitState_def)
qed

lemma quest_move_ok:
  assumes "quest_move cat c d" "catalog_ok cat" "log_ok cat (ch_QuestLog c)"
  shows "log_ok cat (ch_QuestLog d)"
  using assms(1,3)
proof cases
  case (accept i q s)
  with assms(3) init_ok [OF assms(2)] show ?thesis by (auto simp: log_ok_def)
next
  case (abandon xs p ys)
  with assms(3) show ?thesis by (auto simp: log_ok_def)
next
  case (tally xs p ys q s n)
  then have "progress_ok cat p" using assms(3) by (simp add: log_ok_def)
  then obtain m where m: "1 \<le> m" "m \<le> st_Count s" "qp_StateJSON p = marshal_field quest_remaining m"
    using tally by (auto simp: progress_ok_def on_step_def split: if_splits)
  have "st_Count s \<le> MaxInt64" using assms(2) tally step_at_in unfolding on_step_def catalog_ok_def by fastforce
  then have "m = n" using tally m by (simp add: in_range_64)
  with tally m have "progress_ok cat (p\<lparr>qp_StateJSON := marshal_field quest_remaining (n - 1)\<rparr>)"
    by (auto simp: progress_ok_def on_step_def intro!: exI [of _ "n - 1"])
  with tally assms(3) show ?thesis by (auto simp: log_ok_def)
next
  case (advance xs p ys q s s')
  have "progress_ok cat \<lparr>qp_QuestID = qp_QuestID p, qp_StepIndex = qp_StepIndex p + 1, qp_StateJSON = stepInitState s', qp_CompletedAt = 0\<rparr>"
    using advance init_ok [OF assms(2)] by (simp add: on_step_def)
  then have "progress_ok cat (p\<lparr>qp_StepIndex := qp_StepIndex p + 1, qp_StateJSON := stepInitState s'\<rparr>)"
    using advance by (cases p) (simp add: on_step_def)
  with advance assms(3) show ?thesis by (auto simp: log_ok_def)
next
  case (complete xs p ys q s now)
  then have "progress_ok cat (p\<lparr>qp_CompletedAt := now, qp_StateJSON := ''{}''\<rparr>)"
    by (auto simp: progress_ok_def on_step_def)
  with complete assms(3) show ?thesis by (auto simp: log_ok_def pay_def Let_def)
qed

section \<open>The engine implements the machine\<close>

text \<open>One row changes, or none.\<close>

definition only_row :: "int \<Rightarrow> Character \<Rightarrow> MemoryCharacterRepo \<Rightarrow> MemoryCharacterRepo \<Rightarrow> bool" where
  "only_row i d r r' \<longleftrightarrow> (\<forall>j. repo_GetByID r' j = (if j = i then Inr d else repo_GetByID r j))"

lemma only_row_record:
  assumes "repo_GetByID r i = Inr c" "keeps_identity f" "f c = Inr d"
  shows "only_row i d r (fst (record_at r i f))" "snd (record_at r i f) = None"
  using assms char_store.get_upd [OF assms(2), of r i] char_store.accepted [OF assms(1,3,2)] by (simp_all add: only_row_def)

lemma only_row_trans: "only_row i d r r' \<Longrightarrow> only_row i e r' r'' \<Longrightarrow> only_row i e r r''"
  by (simp add: only_row_def)

lemma only_row_at: "only_row i d r r' \<Longrightarrow> repo_GetByID r' i = Inr d"
  by (simp add: only_row_def)

lemma quest_notice_chars [simp]: "qw_Chars (quest_notice i m w) = qw_Chars w" "qw_Rooms (quest_notice i m w) = qw_Rooms w"
  by (simp_all add: quest_notice_def split: option.split)

lemma notify_chars [simp]:
  "qw_Chars (notifyAccepted i q w) = qw_Chars w" "qw_Chars (notifyStepAdvanced i q s w) = qw_Chars w"
  "qw_Chars (notifyKillProgress i q n w) = qw_Chars w" "qw_Chars (notifyCompleted i q w) = qw_Chars w"
  by (simp_all add: notifyAccepted_def notifyStepAdvanced_def notifyKillProgress_def notifyCompleted_def)

lemma record_log_row:
  assumes "repo_GetByID (qw_Chars w) i = Inr c"
  obtains chars where "\<And>fin. record_log i log fin w = Some (fin (w\<lparr>qw_Chars := chars\<rparr>), None)"
    "only_row i (c\<lparr>ch_QuestLog := log\<rparr>) (qw_Chars w) chars"
proof -
  let ?f = "\<lambda>c. Inr (c\<lparr>ch_QuestLog := log\<rparr>)"
  have k: "keeps_identity ?f" by (simp add: keeps_identity_def)
  note o = only_row_record [OF assms k refl]
  have "record_log i log fin w = Some (fin (w\<lparr>qw_Chars := fst (record_at (qw_Chars w) i ?f)\<rparr>), None)" for fin
    using o(2) by (auto simp: record_log_def repo_RecordQuestProgress_def split: prod.split option.split)
  from that [OF this o(1)] show ?thesis .
qed

lemma grantRewards_row:
  assumes "repo_GetByID (qw_Chars w) (ch_ID char) = Inr c" "ch_XP c = ch_XP char" "ch_Coin c = ch_Coin char" "ch_BankBalance c = ch_BankBalance char"
    "ch_CoinVersion c = ch_CoinVersion char"
  shows "only_row (ch_ID char) (pay q c) (qw_Chars w) (qw_Chars (fst (grantRewards char q w)))"
proof -
  let ?i = "ch_ID char" and ?xp = "re_XP (qu_Rewards q)" and ?cu = "re_Copper (qu_Rewards q)"
  let ?f = "\<lambda>c. Inr (c\<lparr>ch_XP := i64 (ch_XP char + ?xp)\<rparr>)"
  let ?g = "coin_write (i64 (ch_Coin char + ?cu)) (ch_BankBalance char) (ch_CoinVersion char)"
  define c1 where "c1 = (if ?xp > 0 then c\<lparr>ch_XP := i64 (ch_XP char + ?xp)\<rparr> else c)"
  define r1 where "r1 = (if ?xp > 0 then fst (record_at (qw_Chars w) ?i ?f) else qw_Chars w)"
  have kf: "keeps_identity ?f" by (simp add: keeps_identity_def)
  have kg: "keeps_identity ?g" by (auto simp: keeps_identity_def coin_write_def)
  note xp = only_row_record [OF assms(1) kf refl]
  have o1: "only_row ?i c1 (qw_Chars w) r1" using xp(1) assms(1) by (simp add: c1_def r1_def only_row_def)
  let ?d = "c1\<lparr>ch_Coin := i64 (ch_Coin char + ?cu), ch_CoinVersion := i64 (ch_CoinVersion char + 1)\<rparr>"
  have g: "?g c1 = Inr ?d" using assms by (simp add: coin_write_def c1_def)
  note coin = only_row_record [OF only_row_at [OF o1] kg g]
  have e: "qw_Chars (fst (grantRewards char q w)) = (if ?cu > 0 then fst (record_at r1 ?i ?g) else r1)"
    using xp(2) coin(2)
    by (auto simp: grantRewards_def grantCoin_def repo_RecordXP_def repo_RecordCoin_def r1_def split: prod.split option.split)
  show ?thesis
  proof (cases "?cu > 0")
    case True
    then have "pay q c = ?d" using assms by (simp add: pay_def c1_def Let_def)
    with True e only_row_trans [OF o1 coin(1)] show ?thesis by simp
  next
    case False
    then have "pay q c = c1" using assms by (simp add: pay_def c1_def Let_def)
    with False e o1 show ?thesis by simp
  qed
qed

lemma log_split: "i < length xs \<Longrightarrow> xs = take i xs @ xs ! i # drop (Suc i) xs" "i < length xs \<Longrightarrow> xs[i := y] = take i xs @ y # drop (Suc i) xs"
  by (simp_all add: id_take_nth_drop [symmetric] upd_conv_take_nth_drop)

text \<open>The result of a handler: the row of the character makes a move of the machine, or nothing changes.\<close>

definition moved :: "QuestCatalog \<Rightarrow> int \<Rightarrow> Character \<Rightarrow> QuestWorld \<Rightarrow> quest_run \<Rightarrow> bool" where
  "moved cat i c w r \<longleftrightarrow> (\<exists>w' e. r = Some (w', e) \<and> (qw_Chars w' = qw_Chars w
     \<or> e = None \<and> (\<exists>d. quest_move cat c d \<and> only_row i d (qw_Chars w) (qw_Chars w'))))"

lemma moved_id: "moved cat i c w (Some (w, e))"
  by (auto simp: moved_def)

text \<open>The entry after its step is left.\<close>

definition left_step :: "int \<Rightarrow> Quest \<Rightarrow> QuestProgress \<Rightarrow> QuestProgress" where
  "left_step now q p =
     (case step_at q (qp_StepIndex p + 1) of None \<Rightarrow> p\<lparr>qp_CompletedAt := now, qp_StateJSON := ''{}''\<rparr>
      | Some s \<Rightarrow> p\<lparr>qp_StepIndex := qp_StepIndex p + 1, qp_StateJSON := stepInitState s\<rparr>)"

lemma advanceStep_exact:
  assumes cat: "catalog_ok cat" and now: "0 < now" and c: "repo_GetByID (qw_Chars w) (ch_ID c) = Inr c"
    and i: "i < length (ch_QuestLog c)" and p: "on_step cat (ch_QuestLog c ! i) q s" "quota_met s (ch_QuestLog c ! i)"
  shows "\<exists>w' d. advanceStep now c q i w = Some (w', None) \<and> quest_move cat c d \<and> only_row (ch_ID c) d (qw_Chars w) (qw_Chars w')
    \<and> ch_QuestLog d = (ch_QuestLog c)[i := left_step now q (ch_QuestLog c ! i)]"
proof -
  let ?p = "ch_QuestLog c ! i" and ?log = "ch_QuestLog c"
  note sp = log_split(1) [OF i]
  have k: "0 \<le> qp_StepIndex ?p" "qp_StepIndex ?p < int (length (qu_Steps q))" "length (qu_Steps q) \<le> 32768"
    using p cat by (auto simp: on_step_def step_at_def catalog_ok_def split: if_splits)
  show ?thesis
  proof (cases "qp_StepIndex ?p + 1 \<ge> int (length (qu_Steps q))")
    case True
    let ?log' = "?log[i := ?p\<lparr>qp_CompletedAt := now, qp_StateJSON := ''{}''\<rparr>]"
    let ?c = "c\<lparr>ch_QuestLog := ?log'\<rparr>"
    have m: "quest_move cat c (pay q ?c)"
      unfolding log_split(2) [OF i] using True by (intro quest_move.complete [OF sp p _ now]) (simp add: step_at_def)
    obtain chars where o: "only_row (ch_ID c) ?c (qw_Chars w) chars"
      and r: "\<exists>v. completeQuest now c q i w = Some (v, None) \<and> qw_Chars v = qw_Chars (fst (grantRewards c q (w\<lparr>qw_Chars := chars\<rparr>)))"
      unfolding completeQuest_def by (rule record_log_row [OF c, of ?log']) (auto simp: Let_def)
    have t: "only_row (ch_ID c) (pay q ?c) chars (qw_Chars (fst (grantRewards c q (w\<lparr>qw_Chars := chars\<rparr>))))"
      using grantRewards_row [of "w\<lparr>qw_Chars := chars\<rparr>" c ?c q] only_row_at [OF o] by simp
    moreover have "ch_QuestLog (pay q ?c) = ?log[i := left_step now q ?p]" using True by (simp add: pay_def left_step_def step_at_def Let_def)
    moreover note only_row_trans [OF o t]
    ultimately show ?thesis using r m True unfolding advanceStep_def by (auto simp: Let_def)
  next
    case False
    then obtain s' where s': "step_at q (qp_StepIndex ?p + 1) = Some s'" using k by (simp add: step_at_def)
    have w16: "i16 (qp_StepIndex ?p + 1) = qp_StepIndex ?p + 1" using k False by (intro i16_id) auto
    have m: "quest_move cat c (c\<lparr>ch_QuestLog := ?log[i := ?p\<lparr>qp_StepIndex := qp_StepIndex ?p + 1, qp_StateJSON := stepInitState s'\<rparr>]\<rparr>)"
      unfolding log_split(2) [OF i] by (rule quest_move.advance [OF sp p s'])
    show ?thesis
      by (rule record_log_row [OF c, of "?log[i := ?p\<lparr>qp_StepIndex := qp_StepIndex ?p + 1, qp_StateJSON := stepInitState s'\<rparr>]"])
        (use m False s' w16 in \<open>auto simp: advanceStep_def left_step_def Let_def\<close>)
  qed
qed

lemma advanceStep_moves:
  assumes "catalog_ok cat" "0 < now" "repo_GetByID (qw_Chars w) (ch_ID c) = Inr c"
    "i < length (ch_QuestLog c)" "on_step cat (ch_QuestLog c ! i) q s" "quota_met s (ch_QuestLog c ! i)"
  shows "moved cat (ch_ID c) c w (advanceStep now c q i w)"
  using advanceStep_exact [OF assms] by (auto simp: moved_def)

lemma quota_iff: "quota_met s p \<longleftrightarrow> st_Kind s \<noteq> StepKillN \<or> unmarshal_field quest_remaining (qp_StateJSON p) \<le> 1"
  by (auto simp: quota_met_def)

text \<open>Every active entry of a good log has its quest and its step.\<close>

lemma active_step:
  assumes "log_ok cat log" "p \<in> set log" "qp_CompletedAt p = 0"
  obtains q s where "on_step cat p q s" "qp_StepIndex p < int (length (qu_Steps q))"
  using assms unfolding log_ok_def list_all_iff progress_ok_def on_step_def step_at_def by (metis option.distinct(1))

lemma findActive_Some: "findActive log i = Some k \<Longrightarrow> k < length log \<and> qp_QuestID (log ! k) = i \<and> qp_CompletedAt (log ! k) = 0"
proof (induction log arbitrary: k)
  case (Cons p ps)
  then show ?case by (cases "qp_QuestID p = i \<and> qp_CompletedAt p = 0") (auto simp: nth_Cons')
qed simp

lemma kill_loop_moves:
  assumes cat: "catalog_ok cat" "log_ok cat (ch_QuestLog c)" and now: "0 < now" and c: "repo_GetByID (qw_Chars w) (ch_ID c) = Inr c"
  shows "drop i (ch_QuestLog c) = ps \<Longrightarrow> moved cat (ch_ID c) c w (kill_loop (Some cat) now c victim i ps w)"
proof (induction ps arbitrary: i)
  case (Cons p ps)
  have i: "i < length (ch_QuestLog c)" "ch_QuestLog c ! i = p" "drop (Suc i) (ch_QuestLog c) = ps"
    using Cons.prems by (metis drop_eq_Nil list.distinct(1) not_le, metis nth_via_drop, metis drop_Suc list.sel(3) tl_drop)
  note ih = Cons.IH [OF i(3)]
  show ?case
  proof (cases "qp_CompletedAt p = 0")
    case True
    then obtain q s where q: "on_step cat p q s" "qp_StepIndex p < int (length (qu_Steps q))"
      using active_step [OF cat(2)] i nth_mem by metis
    show ?thesis
    proof (cases "st_Kind s = StepKillN \<and> st_Mob s = victim")
      case False
      with q ih True show ?thesis by (simp add: quest_Get_def on_step_def)
    next
      case kill: True
      let ?n = "unmarshal_field quest_remaining (qp_StateJSON p)"
      have l: "kill_loop (Some cat) now c victim i (p # ps) w =
          (if 1 < ?n then record_log (ch_ID c) ((ch_QuestLog c)[i := p\<lparr>qp_StateJSON := marshal_field quest_remaining (?n - 1)\<rparr>])
                 (notifyKillProgress (ch_ID c) q (?n - 1)) w else advanceStep now c q i w)"
        using q True kill by (auto simp: quest_Get_def on_step_def Let_def)
      show ?thesis
      proof (cases "1 < ?n")
        case True
        have m: "quest_move cat c (c\<lparr>ch_QuestLog := (ch_QuestLog c)[i := p\<lparr>qp_StateJSON := marshal_field quest_remaining (?n - 1)\<rparr>]\<rparr>)"
          unfolding log_split(2) [OF i(1)]
          by (rule quest_move.tally [OF log_split(1) [OF i(1), unfolded i(2)] q(1) _ refl True]) (use kill in simp)
        show ?thesis
          by (rule record_log_row [OF c, of "(ch_QuestLog c)[i := p\<lparr>qp_StateJSON := marshal_field quest_remaining (?n - 1)\<rparr>]"])
            (use m True l in \<open>auto simp: moved_def\<close>)
      next
        case False
        then have "quota_met s (ch_QuestLog c ! i)" by (simp add: quota_iff i(2))
        with advanceStep_moves [OF cat(1) now c i(1), unfolded i(2), OF q(1)] False l i(2) show ?thesis by simp
      qed
    qed
  qed (use ih in simp)
qed (simp add: moved_id)

lemma enter_loop_moves:
  assumes cat: "catalog_ok cat" "log_ok cat (ch_QuestLog c)" and now: "0 < now" and c: "repo_GetByID (qw_Chars w) (ch_ID c) = Inr c"
  shows "drop i (ch_QuestLog c) = ps \<Longrightarrow> moved cat (ch_ID c) c w (enter_loop (Some cat) now c room ext i ps w)"
proof (induction ps arbitrary: i ext)
  case (Cons p ps)
  have i: "i < length (ch_QuestLog c)" "ch_QuestLog c ! i = p" "drop (Suc i) (ch_QuestLog c) = ps"
    using Cons.prems by (metis drop_eq_Nil list.distinct(1) not_le, metis nth_via_drop, metis drop_Suc list.sel(3) tl_drop)
  note ih = Cons.IH [OF i(3)]
  show ?case
  proof (cases "qp_CompletedAt p = 0")
    case True
    then obtain q s where q: "on_step cat p q s" "qp_StepIndex p < int (length (qu_Steps q))"
      using active_step [OF cat(2)] i nth_mem by metis
    show ?thesis
    proof (cases "st_Kind s = StepReachRoom")
      case False
      with q ih True show ?thesis by (simp add: quest_Get_def on_step_def)
    next
      case room: True
      then have "quota_met s (ch_QuestLog c ! i)" by (simp add: quota_iff StepReachRoom_def StepKillN_def)
      from advanceStep_moves [OF cat(1) now c i(1) _ this] q(1) i(2)
      have a: "moved cat (ch_ID c) c w (advanceStep now c q i w)" by simp
      show ?thesis using q True room ih a by (auto simp: quest_Get_def on_step_def moved_id split: sum.split)
    qed
  qed (use ih in simp)
qed (simp add: moved_id)

lemma advance_if_moves:
  assumes cat: "catalog_ok cat" "log_ok cat (ch_QuestLog c)" and now: "0 < now" and c: "repo_GetByID (qw_Chars w) i = Inr c"
    and g: "\<And>s. guard s \<Longrightarrow> st_Kind s \<noteq> StepKillN"
  shows "moved cat i c w (advance_if guard (Some cat) now i questID w)"
proof (cases "findActive (ch_QuestLog c) questID")
  case (Some k)
  have i: "ch_ID c = i" using c by (auto simp: GetByID_Inr dest: get_row_SomeD)
  note k = findActive_Some [OF Some]
  then obtain q s where q: "on_step cat (ch_QuestLog c ! k) q s" using active_step [OF cat(2)] nth_mem by metis
  then have "guard s \<Longrightarrow> quota_met s (ch_QuestLog c ! k)" using g by (simp add: quota_iff)
  then have "guard s \<Longrightarrow> moved cat i c w (advanceStep now c q k w)"
    using advanceStep_moves [OF cat(1) now _ _ q, of w] c k i by simp
  then show ?thesis using Some q k c by (simp add: advance_if_def quest_Get_def on_step_def moved_id)
qed (use c in \<open>simp add: advance_if_def quest_Get_def moved_id split: option.split\<close>)

lemma AcceptQuest_moves:
  assumes cat: "catalog_ok cat" and c: "repo_GetByID (qw_Chars w) i = Inr c"
  shows "moved cat i c w (AcceptQuest (Some cat) i questID w)"
proof (cases "map_of cat questID = None \<or> questID \<in> qp_QuestID ` set (ch_QuestLog c)")
  case True
  then show ?thesis using c by (auto simp: AcceptQuest_def quest_Get_def moved_id split: option.split)
next
  case False
  then obtain q where q: "map_of cat questID = Some (Some q)" "qu_Steps q \<noteq> []" using cat by (auto simp: catalog_ok_def) metis
  then obtain s where s: "step_at q 0 = Some s" by (simp add: step_at_def)
  let ?log = "ch_QuestLog c @ [\<lparr>qp_QuestID = questID, qp_StepIndex = 0, qp_StateJSON = stepInitState s, qp_CompletedAt = 0\<rparr>]"
  have m: "quest_move cat c (c\<lparr>ch_QuestLog := ?log\<rparr>)" using False by (intro quest_move.accept [OF q(1) _ s]) simp
  show ?thesis
    by (rule record_log_row [OF c, of ?log]) (use m c q s False in \<open>auto simp: AcceptQuest_def quest_Get_def moved_def\<close>)
qed

lemma AbandonQuest_moves:
  assumes c: "repo_GetByID (qw_Chars w) i = Inr c"
  shows "moved cat i c w (AbandonQuest i questID w)"
proof (cases "findActive (ch_QuestLog c) questID")
  case (Some k)
  note k = findActive_Some [OF Some]
  let ?log = "take k (ch_QuestLog c) @ drop (Suc k) (ch_QuestLog c)"
  have m: "quest_move cat c (c\<lparr>ch_QuestLog := ?log\<rparr>)"
    by (rule quest_move.abandon [OF log_split(1)]) (use k in simp_all)
  show ?thesis by (rule record_log_row [OF c, of ?log]) (use m c Some in \<open>auto simp: AbandonQuest_def moved_def\<close>)
qed (use c in \<open>simp add: AbandonQuest_def moved_id\<close>)

section \<open>Runs of the engine\<close>

text \<open>What reaches the engine: calls of the dialogue and script layers, the abandon verb, and the two events.\<close>

datatype quest_op = QAccept int string | QTalk int int string string | QScript int int string | QAbandon int string
  | QKill int ActorRef ActorRef string | QEnter int int int

fun quest_step :: "QuestCatalog \<Rightarrow> quest_op \<Rightarrow> QuestWorld \<Rightarrow> QuestWorld option" where
  "quest_step cat (QAccept i q) w = map_option fst (AcceptQuest (Some cat) i q w)"
| "quest_step cat (QTalk now i q npc) w = map_option fst (AdvanceTalkTo (Some cat) now i q npc w)"
| "quest_step cat (QScript now i q) w = map_option fst (quest_Advance (Some cat) now i q w)"
| "quest_step cat (QAbandon i q) w = map_option fst (AbandonQuest i q w)"
| "quest_step cat (QKill now killer victim tpl) w = quest_onCombatDeath (Some cat) now killer victim tpl w"
| "quest_step cat (QEnter now i room) w = quest_onPlayerEntered (Some cat) now i room w"

fun quest_steps :: "QuestCatalog \<Rightarrow> quest_op list \<Rightarrow> QuestWorld \<Rightarrow> QuestWorld option" where
  "quest_steps cat [] w = Some w"
| "quest_steps cat (q # ops) w = (case quest_step cat q w of None \<Rightarrow> None | Some w1 \<Rightarrow> quest_steps cat ops w1)"

fun op_time :: "quest_op \<Rightarrow> int" where
  "op_time (QTalk now i q npc) = now"
| "op_time (QScript now i q) = now"
| "op_time (QKill now k v t) = now"
| "op_time (QEnter now i r) = now"
| "op_time x = 1"

fun op_char :: "quest_op \<Rightarrow> int" where
  "op_char (QAccept i q) = i" | "op_char (QTalk now i q npc) = i" | "op_char (QScript now i q) = i" | "op_char (QAbandon i q) = i"
| "op_char (QKill now k v t) = rf_ID k" | "op_char (QEnter now i r) = i"

definition logs_ok :: "QuestCatalog \<Rightarrow> MemoryCharacterRepo \<Rightarrow> bool" where
  "logs_ok cat r \<longleftrightarrow> (\<forall>i c. repo_GetByID r i = Inr c \<longrightarrow> log_ok cat (ch_QuestLog c))"

abbreviation quest_moves :: "QuestCatalog \<Rightarrow> Character \<Rightarrow> Character \<Rightarrow> bool" where
  "quest_moves cat c d \<equiv> d = c \<or> quest_move cat c d"

lemma quest_step_moves:
  assumes cat: "catalog_ok cat" and ok: "logs_ok cat (qw_Chars w)" and now: "0 < op_time q"
  shows "\<exists>w'. quest_step cat q w = Some w' \<and> char_store.evolves (quest_moves cat) (qw_Chars w) (qw_Chars w')"
proof (cases "repo_GetByID (qw_Chars w) (op_char q)")
  case (Inl e)
  then have "\<exists>w'. quest_step cat q w = Some w' \<and> qw_Chars w' = qw_Chars w"
    by (cases q) (simp_all add: AcceptQuest_def AdvanceTalkTo_def quest_Advance_def advance_if_def AbandonQuest_def quest_onCombatDeath_def
        quest_onPlayerEntered_def quest_handleKill_def quest_handleEnter_def quest_Get_def split: option.split)
  then show ?thesis using char_store.evolves_refl by auto
next
  case (Inr c)
  have i: "ch_ID c = op_char q" using Inr by (auto simp: GetByID_Inr dest: get_row_SomeD)
  have log: "log_ok cat (ch_QuestLog c)" using ok Inr by (auto simp: logs_ok_def)
  have m: "\<exists>w'. map_option fst r = Some w' \<and> char_store.evolves (quest_moves cat) (qw_Chars w) (qw_Chars w')" if r: "moved cat (op_char q) c w r" for r
  proof -
    obtain w' e where w': "r = Some (w', e)" "qw_Chars w' = qw_Chars w \<or> (\<exists>d. quest_move cat c d \<and> only_row (op_char q) d (qw_Chars w) (qw_Chars w'))"
      using r unfolding moved_def by blast
    from w'(2) have "char_store.evolves (quest_moves cat) (qw_Chars w) (qw_Chars w')"
    proof (elim disjE exE conjE)
      fix d assume d: "quest_move cat c d" "only_row (op_char q) d (qw_Chars w) (qw_Chars w')"
      have "repo_GetByID (qw_Chars w') j = (if j = op_char q then Inr d else repo_GetByID (qw_Chars w) j)" for j
        using d(2) by (simp add: only_row_def)
      then show ?thesis using d(1) Inr by (simp add: char_store.evolves_def)
    qed (simp add: char_store.evolves_refl)
    with w'(1) show ?thesis by simp
  qed
  have id: "\<exists>w'. Some w = Some w' \<and> char_store.evolves (quest_moves cat) (qw_Chars w) (qw_Chars w')"
    by (simp add: char_store.evolves_def)
  have script: "StepTalkTo \<noteq> StepKillN" "StepScript \<noteq> StepKillN" by (simp_all add: StepTalkTo_def StepScript_def StepKillN_def)
  show ?thesis
  proof (cases q)
    case (QAccept j x)
    then show ?thesis using m AcceptQuest_moves [OF cat] Inr by simp
  next
    case (QTalk t j x npc)
    then show ?thesis using m [OF advance_if_moves [OF cat log _ Inr,
        where now = t and guard = "\<lambda>s. st_Kind s = StepTalkTo \<and> st_Mob s = npc" and questID = x]] now script by (simp add: AdvanceTalkTo_def)
  next
    case (QScript t j x)
    then show ?thesis using m [OF advance_if_moves [OF cat log _ Inr,
        where now = t and guard = "\<lambda>s. st_Kind s = StepScript" and questID = x]] now script by (simp add: quest_Advance_def)
  next
    case (QAbandon j x)
    then show ?thesis using m AbandonQuest_moves Inr by simp
  next
    case (QKill t k v x)
    then show ?thesis using m [OF kill_loop_moves [OF cat log _ _, unfolded i, of t w 0 "ch_QuestLog c" x]] now Inr id
      by (simp add: quest_onCombatDeath_def quest_handleKill_def i)
  next
    case (QEnter t j room)
    then show ?thesis using m [OF enter_loop_moves [OF cat log _ _, unfolded i, of t w 0 "ch_QuestLog c" room "[]"]] now Inr id
      by (simp add: quest_onPlayerEntered_def quest_handleEnter_def i)
  qed
qed

lemma logs_ok_moves:
  assumes "catalog_ok cat" "logs_ok cat r" "char_store.evolves (quest_moves cat) r r'"
  shows "logs_ok cat r'"
  unfolding logs_ok_def
proof (intro allI impI)
  fix i d assume "repo_GetByID r' i = Inr d"
  with char_store.evolves_back [OF assms(3)] obtain c where "repo_GetByID r i = Inr c" "quest_moves cat c d" by blast
  with assms(1,2) quest_move_ok show "log_ok cat (ch_QuestLog d)" unfolding logs_ok_def by blast
qed

lemma quest_steps_moves:
  assumes "catalog_ok cat" "logs_ok cat (qw_Chars w)" "\<forall>q\<in>set ops. 0 < op_time q"
  shows "\<exists>w'. quest_steps cat ops w = Some w' \<and> logs_ok cat (qw_Chars w') \<and> char_store.evolves ((quest_move cat)\<^sup>*\<^sup>*) (qw_Chars w) (qw_Chars w')"
  using assms(2,3)
proof (induction ops arbitrary: w)
  case Nil
  then show ?case by (simp add: char_store.evolves_refl)
next
  case (Cons q ops)
  obtain w1 where w1: "quest_step cat q w = Some w1" "char_store.evolves (quest_moves cat) (qw_Chars w) (qw_Chars w1)"
    using quest_step_moves [OF assms(1) Cons.prems(1), of q] Cons.prems(2) by auto
  obtain w2 where w2: "quest_steps cat ops w1 = Some w2" "logs_ok cat (qw_Chars w2)"
    "char_store.evolves ((quest_move cat)\<^sup>*\<^sup>*) (qw_Chars w1) (qw_Chars w2)"
    using Cons.IH [OF logs_ok_moves [OF assms(1) Cons.prems(1) w1(2)]] Cons.prems(2) by auto
  have "char_store.evolves ((quest_move cat)\<^sup>*\<^sup>*) (qw_Chars w) (qw_Chars w2)"
    by (rule char_store.evolves_trans [OF w1(2) w2(3)]) (auto intro: converse_rtranclp_into_rtranclp)
  with w1(1) w2(1,2) show ?case by simp
qed

text \<open>A catalog that passes the validation is one the engine can run.\<close>

lemma steps_fault_None: "steps_fault i refs n ss = None \<Longrightarrow> s \<in> set ss \<Longrightarrow> validateStep s refs = None"
  by (induction ss arbitrary: n) (auto split: option.splits)

lemma quest_fault_None:
  "quest_fault refs i qp = None \<Longrightarrow> \<exists>q. qp = Some q \<and> qu_ID q = i \<and> qu_Steps q \<noteq> []
     \<and> (\<forall>s\<in>set (qu_Steps q). st_Kind s = StepKillN \<longrightarrow> 0 < st_Count s)"
proof -
  assume a: "quest_fault refs i qp = None"
  have k: "0 < st_Count s" if "validateStep s refs = None" "st_Kind s = StepKillN" for s
    using that by (auto simp: validateStep_def StepTalkTo_def StepKillN_def split: if_splits)
  from a obtain q where q: "qp = Some q" "qu_ID q = i" "qu_Steps q \<noteq> []" "steps_fault i refs 0 (qu_Steps q) = None"
    by (auto simp: quest_fault_def split: option.splits if_splits)
  with k steps_fault_None show ?thesis by blast
qed

lemma catalog_loop_None: "catalog_loop refs m = None \<Longrightarrow> (i, qp) \<in> set m \<Longrightarrow> quest_fault refs i qp = None"
  by (induction m) (auto split: option.splits)

definition catalog_sizes :: "QuestCatalog \<Rightarrow> bool" where
  "catalog_sizes cat \<longleftrightarrow> (\<forall>(i, qp)\<in>set cat. \<forall>q. qp = Some q \<longrightarrow> length (qu_Steps q) \<le> 32768 \<and> (\<forall>s\<in>set (qu_Steps q). st_Count s \<le> MaxInt64))"

lemma validated_catalog:
  assumes "quest_Validate (Some cat) refs = None" "catalog_sizes cat"
  shows "catalog_ok cat"
  unfolding catalog_ok_def
proof (intro allI impI)
  fix i qp assume "map_of cat i = Some qp"
  then have m: "(i, qp) \<in> set cat" by (rule map_of_SomeD)
  from quest_fault_None [OF catalog_loop_None [OF _ m]] assms(1) obtain q where q: "qp = Some q" "qu_ID q = i" "qu_Steps q \<noteq> []"
    "\<forall>s\<in>set (qu_Steps q). st_Kind s = StepKillN \<longrightarrow> 0 < st_Count s" by (auto simp: quest_Validate_def)
  with m assms(2) show "\<exists>q. qp = Some q \<and> qu_Steps q \<noteq> [] \<and> length (qu_Steps q) \<le> 32768
      \<and> (\<forall>s\<in>set (qu_Steps q). st_Kind s = StepKillN \<longrightarrow> 0 < st_Count s \<and> st_Count s \<le> MaxInt64)"
    by (fastforce simp: catalog_sizes_def)
qed

section \<open>Every reward is paid once\<close>

definition done_quests :: "Character \<Rightarrow> string set" where
  "done_quests c = qp_QuestID ` {p \<in> set (ch_QuestLog c). qp_CompletedAt p \<noteq> 0}"

definition quest_xp :: "QuestCatalog \<Rightarrow> string \<Rightarrow> int" where
  "quest_xp cat i = (case map_of cat i of Some (Some q) \<Rightarrow> max 0 (re_XP (qu_Rewards q)) | _ \<Rightarrow> 0)"

definition quest_coin :: "QuestCatalog \<Rightarrow> string \<Rightarrow> int" where
  "quest_coin cat i = (case map_of cat i of Some (Some q) \<Rightarrow> max 0 (re_Copper (qu_Rewards q)) | _ \<Rightarrow> 0)"

definition rewarded :: "QuestCatalog \<Rightarrow> Character \<Rightarrow> Character \<Rightarrow> bool" where
  "rewarded cat c d \<longleftrightarrow> done_quests c \<subseteq> done_quests d
     \<and> ch_XP d = i64 (ch_XP c + sum (quest_xp cat) (done_quests d - done_quests c))
     \<and> ch_Coin d = i64 (ch_Coin c + sum (quest_coin cat) (done_quests d - done_quests c))
     \<and> ch_BankBalance d = ch_BankBalance c \<and> ch_XPDebt d = ch_XPDebt c \<and> ch_Inventory d = ch_Inventory c \<and> ch_Core d = ch_Core c"

lemma i64_add: "i64 (i64 x + y) = i64 (x + y)"
proof -
  have "(y + (x + 9223372036854775808) mod 18446744073709551616) mod 18446744073709551616 = (y + (x + 9223372036854775808)) mod (18446744073709551616::int)"
    by (rule mod_add_right_eq)
  then show ?thesis by (simp add: wrap_def algebra_simps)
qed

lemma done_finite [simp]: "finite (done_quests c)"
  by (simp add: done_quests_def)

lemma rewarded_same:
  assumes "done_quests d = done_quests c" "ch_XP d = ch_XP c" "ch_Coin d = ch_Coin c" "ch_BankBalance d = ch_BankBalance c"
    "ch_XPDebt d = ch_XPDebt c" "ch_Inventory d = ch_Inventory c" "ch_Core d = ch_Core c" "in_range 64 (ch_XP c)" "in_range 64 (ch_Coin c)"
  shows "rewarded cat c d"
  using assms by (simp add: rewarded_def wrap_id)

lemma quest_move_rewarded:
  assumes "quest_move cat c d" "log_ok cat (ch_QuestLog c)" "in_range 64 (ch_XP c)" "in_range 64 (ch_Coin c)"
  shows "rewarded cat c d"
  using assms(1)
proof cases
  case (accept i q s)
  then show ?thesis using assms(3,4) by (intro rewarded_same) (auto simp: done_quests_def)
next
  case (abandon xs p ys)
  then show ?thesis using assms(3,4) by (intro rewarded_same) (auto simp: done_quests_def)
next
  case (tally xs p ys q s n)
  then show ?thesis using assms(3,4) by (intro rewarded_same) (auto simp: done_quests_def on_step_def)
next
  case (advance xs p ys q s s')
  then show ?thesis using assms(3,4) by (intro rewarded_same) (auto simp: done_quests_def on_step_def)
next
  case (complete xs p ys q s now)
  have p: "qp_CompletedAt p = 0" "map_of cat (qp_QuestID p) = Some (Some q)" using complete by (auto simp: on_step_def)
  have log: "ch_QuestLog d = xs @ p\<lparr>qp_CompletedAt := now, qp_StateJSON := ''{}''\<rparr> # ys" using complete by (simp add: pay_def Let_def)
  have new: "qp_QuestID p \<notin> done_quests c"
    using assms(2) p(1) unfolding log_ok_def done_quests_def complete by auto
  let ?p = "p\<lparr>qp_CompletedAt := now, qp_StateJSON := ''{}''\<rparr>"
  have "{x \<in> set (ch_QuestLog d). qp_CompletedAt x \<noteq> 0} = insert ?p {x \<in> set (ch_QuestLog c). qp_CompletedAt x \<noteq> 0}"
    using p(1) \<open>0 < now\<close> unfolding log complete(2) by auto
  then have "done_quests d = insert (qp_QuestID p) (done_quests c)" by (simp add: done_quests_def)
  with new have diff: "done_quests c \<subseteq> done_quests d" "done_quests d - done_quests c = {qp_QuestID p}" by auto
  show ?thesis unfolding rewarded_def diff(2)
    using diff(1) complete(1) p(2) assms(3,4) by (simp add: pay_def quest_xp_def quest_coin_def wrap_id Let_def)
qed

lemma rewarded_trans:
  assumes "rewarded cat c d" "rewarded cat d e"
  shows "rewarded cat c e"
proof -
  let ?A = "done_quests d - done_quests c" and ?B = "done_quests e - done_quests d"
  have s: "done_quests e - done_quests c = ?A \<union> ?B" "?A \<inter> ?B = {}" using assms by (auto simp: rewarded_def)
  have "sum f (done_quests e - done_quests c) = sum f ?A + sum f ?B" for f :: "string \<Rightarrow> int"
    unfolding s(1) by (rule sum.union_disjoint) (use s(2) in auto)
  moreover have "done_quests c \<subseteq> done_quests e" using assms unfolding rewarded_def by blast
  ultimately show ?thesis using assms unfolding rewarded_def by (simp add: i64_add add.assoc)
qed

lemma quest_moves_rewarded:
  assumes "(quest_move cat)\<^sup>*\<^sup>* c d" "catalog_ok cat" "log_ok cat (ch_QuestLog c)" "in_range 64 (ch_XP c)" "in_range 64 (ch_Coin c)"
  shows "rewarded cat c d \<and> log_ok cat (ch_QuestLog d)"
  using assms(1)
proof (induction rule: rtranclp_induct)
  case base
  then show ?case using assms(3-5) by (simp add: rewarded_same)
next
  case (step d e)
  then have "in_range 64 (ch_XP d)" "in_range 64 (ch_Coin d)" unfolding rewarded_def by simp_all
  with step show ?case using quest_move_rewarded quest_move_ok [OF _ assms(2)] rewarded_trans by blast
qed

text \<open>C33: Well-typed quest logs. Over a catalog that passes the boot validation, any sequence of calls and events keeps
  every character's log typed against the catalog: each quest at most once, each entry on a step that exists, a
  kill counter between one and the quota, a closed quest on its last step. And the engine never panics.\<close>

theorem quest_logs_stay_typed:
  assumes "quest_Validate (Some cat) refs = None" "catalog_sizes cat" "logs_ok cat (qw_Chars w)" "\<forall>q\<in>set ops. 0 < op_time q"
  shows "\<exists>w'. quest_steps cat ops w = Some w' \<and> logs_ok cat (qw_Chars w')"
  using quest_steps_moves [OF validated_catalog [OF assms(1,2)] assms(3,4)] by blast

text \<open>C34: Quests pay exactly once. Over any sequence of calls and events a quest that is completed stays completed, and what a character
  gains is the sum of the rewards of the quests it completed meanwhile, each counted once: experience and purse (both wrapping
  as Go's integers do), while its bank account, its experience debt, its inventory and its core are untouched.\<close>

theorem quests_pay_once:
  assumes "quest_Validate (Some cat) refs = None" "catalog_sizes cat" "logs_ok cat (qw_Chars w)" "\<forall>q\<in>set ops. 0 < op_time q"
    and "quest_steps cat ops w = Some w'" "repo_GetByID (qw_Chars w) i = Inr c" "in_range 64 (ch_XP c)" "in_range 64 (ch_Coin c)"
  shows "\<exists>d. repo_GetByID (qw_Chars w') i = Inr d \<and> rewarded cat c d"
proof -
  note ok = validated_catalog [OF assms(1,2)]
  from quest_steps_moves [OF ok assms(3,4)] assms(5)
  have "char_store.evolves ((quest_move cat)\<^sup>*\<^sup>*) (qw_Chars w) (qw_Chars w')" by simp
  from char_store.evolvesD [OF this assms(6)] obtain d where d: "repo_GetByID (qw_Chars w') i = Inr d" "(quest_move cat)\<^sup>*\<^sup>* c d" by blast
  have "log_ok cat (ch_QuestLog c)" using assms(3,6) by (auto simp: logs_ok_def)
  from quest_moves_rewarded [OF d(2) ok this assms(7,8)] d(1) show ?thesis by blast
qed

section \<open>One kill, one quest\<close>

definition hunts :: "QuestCatalog \<Rightarrow> string \<Rightarrow> QuestProgress \<Rightarrow> bool" where
  "hunts cat tpl p \<longleftrightarrow> (\<exists>q s. on_step cat p q s \<and> st_Kind s = StepKillN \<and> st_Mob s = tpl)"

definition credited_kill :: "int \<Rightarrow> Quest \<Rightarrow> QuestProgress \<Rightarrow> QuestProgress" where
  "credited_kill now q p =
     (let n = unmarshal_field quest_remaining (qp_StateJSON p)
      in if 1 < n then p\<lparr>qp_StateJSON := marshal_field quest_remaining (n - 1)\<rparr> else left_step now q p)"

lemma kill_loop_skips:
  assumes "log_ok cat log" "set xs \<subseteq> set log" "\<forall>x\<in>set xs. \<not> hunts cat tpl x"
  shows "kill_loop (Some cat) now c tpl i (xs @ ps) w = kill_loop (Some cat) now c tpl (i + length xs) ps w"
  using assms(2,3)
proof (induction xs arbitrary: i)
  case (Cons x xs)
  have ih: "kill_loop (Some cat) now c tpl (Suc i) (xs @ ps) w = kill_loop (Some cat) now c tpl (i + length (x # xs)) ps w"
    using Cons by simp
  show ?case
  proof (cases "qp_CompletedAt x = 0")
    case True
    then obtain q s where "on_step cat x q s" "qp_StepIndex x < int (length (qu_Steps q))"
      using active_step [OF assms(1)] Cons.prems(1) by auto
    with Cons.prems(2) True ih show ?thesis by (auto simp: hunts_def quest_Get_def on_step_def)
  qed (use ih in simp)
qed simp

lemma kill_credits:
  assumes cat: "catalog_ok cat" "log_ok cat (ch_QuestLog c)" and now: "0 < now" and c: "repo_GetByID (qw_Chars w) (ch_ID c) = Inr c"
    and log: "ch_QuestLog c = xs @ p # ys" "\<forall>x\<in>set xs. \<not> hunts cat tpl x" and p: "on_step cat p q s" "st_Kind s = StepKillN" "st_Mob s = tpl"
  shows "\<exists>w' d. quest_handleKill (Some cat) now (ch_ID c) tpl w = Some (w', None) \<and> only_row (ch_ID c) d (qw_Chars w) (qw_Chars w')
    \<and> ch_QuestLog d = xs @ credited_kill now q p # ys"
proof -
  let ?n = "unmarshal_field quest_remaining (qp_StateJSON p)" and ?i = "length xs"
  have i: "?i < length (ch_QuestLog c)" "ch_QuestLog c ! ?i = p" "(ch_QuestLog c)[?i := y] = xs @ y # ys" for y by (simp_all add: log(1))
  have q: "qp_CompletedAt p = 0" "map_of cat (qp_QuestID p) = Some (Some q)" "step_at q (qp_StepIndex p) = Some s"
    "qp_StepIndex p < int (length (qu_Steps q))" using p(1) by (auto simp: on_step_def step_at_def split: if_splits)
  have "quest_handleKill (Some cat) now (ch_ID c) tpl w = kill_loop (Some cat) now c tpl 0 (xs @ p # ys) w"
    by (simp add: quest_handleKill_def c log(1))
  also have "\<dots> = kill_loop (Some cat) now c tpl ?i (p # ys) w"
    by (rule kill_loop_skips [OF cat(2) _ log(2), of now c 0 "p # ys" w, unfolded add_0]) (auto simp: log(1))
  also have "\<dots> = (if 1 < ?n then record_log (ch_ID c) (xs @ p\<lparr>qp_StateJSON := marshal_field quest_remaining (?n - 1)\<rparr> # ys)
                 (notifyKillProgress (ch_ID c) q (?n - 1)) w else advanceStep now c q ?i w)"
    using q p(2,3) by (auto simp: quest_Get_def i(3) Let_def)
  finally have h: "quest_handleKill (Some cat) now (ch_ID c) tpl w = \<dots>" .
  show ?thesis
  proof (cases "1 < ?n")
    case True
    show ?thesis
      by (rule record_log_row [OF c, of "xs @ p\<lparr>qp_StateJSON := marshal_field quest_remaining (?n - 1)\<rparr> # ys"])
        (use True h in \<open>auto simp: credited_kill_def Let_def\<close>)
  next
    case False
    then have "quota_met s p" by (simp add: quota_iff)
    from advanceStep_exact [OF cat(1) now c i(1), unfolded i(2,3), OF p(1) this] False h show ?thesis
      by (auto simp: credited_kill_def Let_def)
  qed
qed

text \<open>C35: A kill is credited to one quest. When a mob dies by a character's hand, the first active quest of the log whose step hunts
  that kind of mob is credited, by one kill or, at the end of the quota, with the step; every other entry of the log
  stays as it is, those after it that hunt the same mob included.\<close>

theorem kill_credits_first:
  assumes "quest_Validate (Some cat) refs = None" "catalog_sizes cat" "logs_ok cat (qw_Chars w)" "0 < now"
    and "repo_GetByID (qw_Chars w) (rf_ID killer) = Inr c" "rf_Kind killer = ActorKindCharacter" "rf_ID killer \<noteq> 0"
    and "rf_Kind victim = ActorKindMob" "tpl \<noteq> []"
    and "ch_QuestLog c = xs @ p # ys" "\<forall>x\<in>set xs. \<not> hunts cat tpl x" "on_step cat p q s" "st_Kind s = StepKillN" "st_Mob s = tpl"
  shows "\<exists>w' d. quest_onCombatDeath (Some cat) now killer victim tpl w = Some w' \<and> only_row (rf_ID killer) d (qw_Chars w) (qw_Chars w')
    \<and> ch_QuestLog d = xs @ credited_kill now q p # ys"
proof -
  have i: "ch_ID c = rf_ID killer" using assms(5) by (auto simp: GetByID_Inr dest: get_row_SomeD)
  have "log_ok cat (ch_QuestLog c)" using assms(3,5) by (auto simp: logs_ok_def)
  from kill_credits [OF validated_catalog [OF assms(1,2)] this assms(4) _ assms(10-14), of w] assms(5-9) i
  show ?thesis by (auto simp: quest_onCombatDeath_def)
qed

section \<open>A world with two hunts\<close>

definition hunt :: "string \<Rightarrow> int \<Rightarrow> Quest" where
  "hunt i n = \<lparr>qu_ID = i, qu_Name = ''Wolves'', qu_Summary = [], qu_GiverMob = [],
     qu_Steps = [\<lparr>st_Kind = StepKillN, st_Prompt = ''Go'', st_Mob = ''wolf'', st_Room = [], st_Count = n, st_Script = []\<rparr>],
     qu_Rewards = \<lparr>re_XP = 100, re_Copper = 7\<rparr>\<rparr>"

definition hunt_catalog :: QuestCatalog where "hunt_catalog = [(''a'', Some (hunt ''a'' 1)), (''b'', Some (hunt ''b'' 3))]"

definition hunt_entry :: "string \<Rightarrow> int \<Rightarrow> QuestProgress" where
  "hunt_entry i n = \<lparr>qp_QuestID = i, qp_StepIndex = 0, qp_StateJSON = marshal_field quest_remaining n, qp_CompletedAt = 0\<rparr>"

definition hunter :: Character where
  "hunter = sample_character\<lparr>ch_ID := 1, ch_NameLower := ''rand'', ch_QuestLog := [hunt_entry ''a'' 1, hunt_entry ''b'' 3]\<rparr>"

definition hunt_world :: QuestWorld where
  "hunt_world = \<lparr>qw_Chars = \<lparr>mr_nextID = 1, mr_byLower = [(''rand'', hunter)]\<rparr>, qw_Rooms = NewMemoryRoomRepo,
     qw_Sess = \<lparr>ss_heap = [], ss_bound = [], ss_Out = []\<rparr>, qw_Audit = []\<rparr>"

lemma hunt_validated: "quest_Validate (Some hunt_catalog) None = None" "catalog_sizes hunt_catalog"
  by (simp_all add: hunt_catalog_def hunt_def quest_Validate_def quest_fault_def validateStep_def StepTalkTo_def StepKillN_def catalog_sizes_def)

lemma hunter_row: "repo_GetByID (qw_Chars hunt_world) i = (if i = 1 then Inr hunter else Inl ErrCharacterNotFound)"
  by (simp add: hunt_world_def repo_GetByID_def hunter_def)

lemma hunts_on: "on_step hunt_catalog (hunt_entry ''a'' n) (hunt ''a'' 1) (hd (qu_Steps (hunt ''a'' 1)))"
  "on_step hunt_catalog (hunt_entry ''b'' n) (hunt ''b'' 3) (hd (qu_Steps (hunt ''b'' 3)))"
  by (simp_all add: on_step_def hunt_entry_def hunt_catalog_def hunt_def step_at_def)

lemma hunt_logs_ok: "logs_ok hunt_catalog (qw_Chars hunt_world)"
  unfolding logs_ok_def hunter_row
proof (intro allI impI)
  fix i c assume "(if i = 1 then Inr hunter else Inl ErrCharacterNotFound) = (Inr c :: repo_error + Character)"
  then have c: "ch_QuestLog c = [hunt_entry ''a'' 1, hunt_entry ''b'' 3]" by (auto simp: hunter_def split: if_splits)
  have "progress_ok hunt_catalog (hunt_entry ''a'' 1)" "progress_ok hunt_catalog (hunt_entry ''b'' 3)"
    by (auto simp: progress_ok_def hunt_entry_def hunt_catalog_def hunt_def step_at_def intro: exI [of _ 1] exI [of _ 3])
  then show "log_ok hunt_catalog (ch_QuestLog c)" by (simp add: log_ok_def c) (simp add: hunt_entry_def)
qed

lemma quest_logs_stay_typed_witness:
  "\<exists>w'. quest_steps hunt_catalog [QKill 5 (char_ref 1) \<lparr>rf_Kind = ActorKindMob, rf_ID = 9\<rparr> ''wolf'', QAbandon 1 ''b''] hunt_world = Some w'
     \<and> logs_ok hunt_catalog (qw_Chars w')"
  by (rule quest_logs_stay_typed [OF hunt_validated hunt_logs_ok]) simp

lemma kill_credits_first_witness:
  "\<exists>w' d. quest_onCombatDeath (Some hunt_catalog) 5 (char_ref 1) \<lparr>rf_Kind = ActorKindMob, rf_ID = 9\<rparr> ''wolf'' hunt_world = Some w'
     \<and> only_row 1 d (qw_Chars hunt_world) (qw_Chars w')
     \<and> ch_QuestLog d = [credited_kill 5 (hunt ''a'' 1) (hunt_entry ''a'' 1), hunt_entry ''b'' 3]"
  using kill_credits_first [OF hunt_validated hunt_logs_ok, of 5 "char_ref 1" hunter "\<lparr>rf_Kind = ActorKindMob, rf_ID = 9\<rparr>" "''wolf''" "[]"
      "hunt_entry ''a'' 1" "[hunt_entry ''b'' 3]", OF _ _ _ _ _ _ _ _ hunts_on(1)]
  by (simp add: hunter_row char_ref_def) (simp add: hunter_def hunt_def)

lemma quests_pay_once_witness:
  "\<exists>w' d. quest_steps hunt_catalog [QKill 5 (char_ref 1) \<lparr>rf_Kind = ActorKindMob, rf_ID = 9\<rparr> ''wolf''] hunt_world = Some w'
     \<and> repo_GetByID (qw_Chars w') 1 = Inr d \<and> rewarded hunt_catalog hunter d"
proof -
  let ?ops = "[QKill 5 (char_ref 1) \<lparr>rf_Kind = ActorKindMob, rf_ID = 9\<rparr> ''wolf'']"
  from quest_steps_moves [OF validated_catalog [OF hunt_validated] hunt_logs_ok, of ?ops] obtain w' where w': "quest_steps hunt_catalog ?ops hunt_world = Some w'" by auto
  from quests_pay_once [OF hunt_validated hunt_logs_ok _ w', of 1 hunter] show ?thesis
    using w' by (auto simp: hunter_row) (simp add: hunter_def sample_character_def in_range_64)
qed

end
