(* ===== verification/Tick.thy ===== *)
theory Tick
  imports GoPrelude
begin

text \<open>
  The heartbeat: \<open>internal/tick/scheduler.go\<close> and the pulse buckets of \<open>pulse.go\<close>. Instants and durations are nanoseconds, the
  reading of the clock an argument. A handler is a value of any type; what a tick dispatches is the list of
  the due handlers in the order the map of subscriptions is visited. That a dispatched handler runs on a goroutine of
  its own, and may overlap the next tick, is not modelled, nor is the goroutine that waits for the ticker.
\<close>

section \<open>The scheduler\<close>

record 'h subscription =
  su_every :: int
  su_next :: int
  su_once :: bool
  su_handler :: 'h

record 'h Scheduler =
  sc_subs :: "(nat \<times> 'h subscription) list"
  sc_nextID :: nat

definition sched_New :: "'h Scheduler" where "sched_New = \<lparr>sc_subs = [], sc_nextID = 0\<rparr>"

definition sched_add :: "int \<Rightarrow> int \<Rightarrow> 'h \<Rightarrow> bool \<Rightarrow> 'h Scheduler \<Rightarrow> 'h Scheduler \<times> nat" where
  "sched_add now every h once s =
     (let i = (sc_nextID s + 1) mod 2 ^ 64
      in (s\<lparr>sc_nextID := i,
            sc_subs := map_put i \<lparr>su_every = every, su_next = now + every, su_once = once, su_handler = h\<rparr> (sc_subs s)\<rparr>, i))"

text \<open>A subscription that is refused has no id and nothing to cancel.\<close>

definition sched_Subscribe :: "int \<Rightarrow> int \<Rightarrow> 'h option \<Rightarrow> 'h Scheduler \<Rightarrow> 'h Scheduler \<times> nat option" where
  "sched_Subscribe now every fn s =
     (case fn of None \<Rightarrow> (s, None)
      | Some h \<Rightarrow> if every \<le> 0 then (s, None) else map_prod id Some (sched_add now every h False s))"

definition sched_After :: "int \<Rightarrow> int \<Rightarrow> 'h option \<Rightarrow> 'h Scheduler \<Rightarrow> 'h Scheduler \<times> nat option" where
  "sched_After now d fn s =
     (case fn of None \<Rightarrow> (s, None) | Some h \<Rightarrow> if d < 0 then (s, None) else map_prod id Some (sched_add now d h True s))"

definition sched_Cancel :: "nat option \<Rightarrow> 'h Scheduler \<Rightarrow> 'h Scheduler" where
  "sched_Cancel sub s = (case sub of None \<Rightarrow> s | Some i \<Rightarrow> s\<lparr>sc_subs := map_del i (sc_subs s)\<rparr>)"

fun tick_subs :: "int \<Rightarrow> (nat \<times> 'h subscription) list \<Rightarrow> (nat \<times> 'h) list \<times> (nat \<times> 'h subscription) list" where
  "tick_subs now [] = ([], [])"
| "tick_subs now ((i, u) # us) =
     (case tick_subs now us of
        (due, rest) \<Rightarrow>
          if now < su_next u then (due, (i, u) # rest)
          else ((i, su_handler u) # due, if su_once u then rest else (i, u\<lparr>su_next := now + su_every u\<rparr>) # rest))"

definition sched_tick :: "int \<Rightarrow> 'h Scheduler \<Rightarrow> (nat \<times> 'h) list \<times> 'h Scheduler" where
  "sched_tick now s = (case tick_subs now (sc_subs s) of (due, subs) \<Rightarrow> (due, s\<lparr>sc_subs := subs\<rparr>))"

section \<open>Pulse buckets\<close>

text \<open>A bucket is one subscription that hands its pulse to a list of its own.\<close>

record 'f Bucket =
  bk_name :: string
  bk_every :: int
  bk_sub :: "nat option"
  bk_handlers :: "(nat \<times> 'f) list"
  bk_nextID :: nat

definition NewBucket :: "int \<Rightarrow> string \<Rightarrow> int \<Rightarrow> string Scheduler \<Rightarrow> string Scheduler \<times> 'f Bucket" where
  "NewBucket now name every s =
     (case sched_Subscribe now every (Some name) s of
        (s1, sub) \<Rightarrow> (s1, \<lparr>bk_name = name, bk_every = every, bk_sub = sub, bk_handlers = [], bk_nextID = 0\<rparr>))"

definition bucket_Subscribe :: "'f option \<Rightarrow> 'f Bucket \<Rightarrow> 'f Bucket \<times> nat option" where
  "bucket_Subscribe fn b =
     (case fn of None \<Rightarrow> (b, None)
      | Some f \<Rightarrow> let i = (bk_nextID b + 1) mod 2 ^ 64
                 in (b\<lparr>bk_nextID := i, bk_handlers := map_put i f (bk_handlers b)\<rparr>, Some i))"

definition bucket_cancel :: "nat option \<Rightarrow> 'f Bucket \<Rightarrow> 'f Bucket" where
  "bucket_cancel h b = (case h of None \<Rightarrow> b | Some i \<Rightarrow> b\<lparr>bk_handlers := map_del i (bk_handlers b)\<rparr>)"

definition bucket_Stop :: "'f Bucket \<Rightarrow> string Scheduler \<Rightarrow> string Scheduler" where
  "bucket_Stop b s = sched_Cancel (bk_sub b) s"

definition bucket_fire :: "'f Bucket \<Rightarrow> 'f list" where "bucket_fire b = map snd (bk_handlers b)"

definition bucket_intervals :: "(string \<times> int) list" where
  "bucket_intervals = [(''combat'', 1 * Second), (''regen'', 30 * Second), (''areaReset'', 300 * Second), (''wander'', 20 * Second),
     (''save'', 30 * Second), (''phase'', 1 * Second), (''decay'', 30 * Second), (''affects'', 6 * Second)]"

fun make_buckets :: "int \<Rightarrow> (string \<times> int) list \<Rightarrow> string Scheduler \<Rightarrow> string Scheduler \<times> 'f Bucket list" where
  "make_buckets now [] s = (s, [])"
| "make_buckets now ((name, every) # ns) s =
     (case NewBucket now name every s of (s1, b) \<Rightarrow> map_prod id (\<lambda>bs. b # bs) (make_buckets now ns s1))"

definition NewBuckets :: "int \<Rightarrow> string Scheduler \<Rightarrow> string Scheduler \<times> 'f Bucket list" where
  "NewBuckets now s = make_buckets now bucket_intervals s"

definition buckets_Stop :: "'f Bucket list \<Rightarrow> string Scheduler \<Rightarrow> string Scheduler" where
  "buckets_Stop bs s = fold bucket_Stop bs s"

section \<open>The cadence, read off a history\<close>

text \<open>What has happened, the latest first. A subscription is live from its registration until it is cancelled or, if it is for one
  shot, has fired; its interval runs from its last firing, or from its registration before the first.\<close>

datatype tick_event = Registered nat int bool int | Fired nat int | Cancelled nat

primrec live :: "tick_event list \<Rightarrow> nat \<Rightarrow> (int \<times> bool \<times> int) option" where
  "live [] i = None"
| "live (e # tr) i =
     (case e of
        Registered j every once t \<Rightarrow> if j = i then Some (every, once, t) else live tr i
      | Fired j t \<Rightarrow> if j = i then (case live tr i of None \<Rightarrow> None | Some (every, once, prev) \<Rightarrow> if once then None else Some (every, once, t)) else live tr i
      | Cancelled j \<Rightarrow> if j = i then None else live tr i)"

definition fired :: "int \<Rightarrow> (nat \<times> 'h) list \<Rightarrow> tick_event list" where
  "fired now due = rev (map (\<lambda>(i, h). Fired i now) due)"

text \<open>The runs of a scheduler, with their history.\<close>

inductive sched_run :: "'h Scheduler \<Rightarrow> tick_event list \<Rightarrow> bool" where
  start: "sched_run sched_New []"
| subscribe: "sched_run s tr \<Longrightarrow> sched_Subscribe now every fn s = (s', Some i) \<Longrightarrow> sched_run s' (Registered i every False now # tr)"
| subscribe_refused: "sched_run s tr \<Longrightarrow> sched_Subscribe now every fn s = (s', None) \<Longrightarrow> sched_run s' tr"
| later: "sched_run s tr \<Longrightarrow> sched_After now d fn s = (s', Some i) \<Longrightarrow> sched_run s' (Registered i d True now # tr)"
| later_refused: "sched_run s tr \<Longrightarrow> sched_After now d fn s = (s', None) \<Longrightarrow> sched_run s' tr"
| cancel: "sched_run s tr \<Longrightarrow> sched_run (sched_Cancel (Some i) s) (Cancelled i # tr)"
| tick: "sched_run s tr \<Longrightarrow> sched_tick now s = (due, s') \<Longrightarrow> sched_run s' (fired now due @ tr)"

text \<open>The table of subscriptions against the history.\<close>

definition entry_of :: "'h subscription option \<Rightarrow> (int \<times> bool \<times> int) option" where
  "entry_of u = map_option (\<lambda>u. (su_every u, su_once u, su_next u - su_every u)) u"

definition in_step :: "'h Scheduler \<Rightarrow> tick_event list \<Rightarrow> bool" where
  "in_step s tr \<longleftrightarrow> distinct (keys (sc_subs s)) \<and> (\<forall>i. entry_of (map_of (sc_subs s) i) = live tr i)"

lemma entry_simps [simp]: "entry_of None = None" "entry_of (Some u) = Some (su_every u, su_once u, su_next u - su_every u)"
  by (simp_all add: entry_of_def)

lemma add_in_step:
  "in_step s tr \<Longrightarrow> in_step (fst (sched_add now every h once s)) (Registered (snd (sched_add now every h once s)) every once now # tr)"
  by (auto simp: in_step_def sched_add_def Let_def)

lemma tick_keys: "set (keys (snd (tick_subs now us))) \<subseteq> set (keys us)"
proof (induction now us rule: tick_subs.induct)
  case (2 now i u us)
  then show ?case by (cases "tick_subs now us"; cases "now < su_next u"; cases "su_once u") (simp_all, (blast+)?)
qed simp

lemma tick_due:
  "distinct (keys us) \<Longrightarrow> i \<in> set (keys (fst (tick_subs now us))) \<longleftrightarrow> (\<exists>u. map_of us i = Some u \<and> su_next u \<le> now)"
proof (induction now us rule: tick_subs.induct)
  case (2 now j u us)
  show ?case
  proof (cases "i = j")
    case True
    have "i \<notin> set (keys us)" using 2(2) True by simp
    then have "map_of us i = None" by (simp add: map_of_eq_None_iff)
    with 2 have "i \<notin> set (keys (fst (tick_subs now us)))" by simp
    with True show ?thesis by (auto split: prod.splits)
  next
    case False
    with 2 show ?thesis by (auto split: prod.splits)
  qed
qed simp

lemma tick_distinct: "distinct (keys us) \<Longrightarrow> distinct (keys (fst (tick_subs now us))) \<and> distinct (keys (snd (tick_subs now us)))"
proof (induction now us rule: tick_subs.induct)
  case (2 now j u us)
  have n: "j \<notin> set (keys us)" using 2(2) by simp
  then have "j \<notin> set (keys (snd (tick_subs now us)))" using tick_keys [of now us] by blast
  moreover have "j \<notin> set (keys (fst (tick_subs now us)))" using tick_due [of us j now] 2(2) n map_of_eq_None_iff [of us j] by auto
  ultimately show ?case using 2 by (auto split: prod.splits)
qed simp

lemma tick_rest:
  "distinct (keys us) \<Longrightarrow> map_of (snd (tick_subs now us)) i =
     (case map_of us i of None \<Rightarrow> None
      | Some u \<Rightarrow> if now < su_next u then Some u else if su_once u then None else Some (u\<lparr>su_next := now + su_every u\<rparr>))"
proof (induction now us rule: tick_subs.induct)
  case (2 now j u us)
  show ?case
  proof (cases "i = j")
    case True
    have n: "j \<notin> set (keys us)" using 2(2) by simp
    then have "j \<notin> set (keys (snd (tick_subs now us)))" using tick_keys [of now us] by blast
    then have "map_of (snd (tick_subs now us)) j = None" by (simp add: map_of_eq_None_iff)
    with True show ?thesis by (auto split: prod.splits)
  next
    case False
    with 2 show ?thesis by (auto split: prod.splits)
  qed
qed simp

lemma live_fired:
  "distinct is \<Longrightarrow> live (rev (map (\<lambda>i. Fired i now) is) @ tr) i =
     (if i \<in> set is then (case live tr i of None \<Rightarrow> None | Some (every, once, prev) \<Rightarrow> if once then None else Some (every, once, now)) else live tr i)"
  by (induction "is" arbitrary: tr) (auto split: option.split)

lemma tick_in_step:
  assumes "in_step s tr" "sched_tick now s = (due, s')"
  shows "in_step s' (fired now due @ tr)"
proof -
  have d: "distinct (keys (sc_subs s))" and e: "entry_of (map_of (sc_subs s) i) = live tr i" for i using assms(1) by (simp_all add: in_step_def)
  have s': "due = fst (tick_subs now (sc_subs s))" "sc_subs s' = snd (tick_subs now (sc_subs s))"
    using assms(2) by (auto simp: sched_tick_def split: prod.splits)
  have f: "fired now due = rev (map (\<lambda>i. Fired i now) (keys due))" by (simp add: fired_def case_prod_unfold)
  note dd = tick_distinct [OF d, of now, folded s']
  have "entry_of (map_of (sc_subs s') i) = live (fired now due @ tr) i" for i
    unfolding f live_fired [OF dd [THEN conjunct1]] s'(2) tick_rest [OF d] e [symmetric]
    using tick_due [OF d, of i now, folded s'(1)] by (cases "map_of (sc_subs s) i") auto
  with dd show ?thesis by (simp add: in_step_def)
qed

lemma run_in_step: "sched_run s tr \<Longrightarrow> in_step s tr"
proof (induction rule: sched_run.induct)
  case (subscribe s tr now every fn s' i)
  then show ?case using add_in_step [of s tr now every _ False]
    by (auto simp: sched_Subscribe_def map_prod_def split: option.splits if_splits prod.splits) (metis fst_conv snd_conv)
next
  case (later s tr now d fn s' i)
  then show ?case using add_in_step [of s tr now d _ True]
    by (auto simp: sched_After_def map_prod_def split: option.splits if_splits prod.splits) (metis fst_conv snd_conv)
next
  case (tick s tr now due s')
  then show ?case by (simp add: tick_in_step)
qed (auto simp: in_step_def sched_New_def sched_Subscribe_def sched_After_def sched_Cancel_def map_prod_def split: option.splits if_splits prod.splits)

text \<open>C36: The heartbeat keeps its promises. After any history of subscriptions, cancellations and ticks, a tick dispatches exactly the
  subscriptions that are live and whose interval has passed since they last fired (or were registered), each of them once: so a
  repeating one never fires twice within its interval and always at the first tick after it, a one-shot fires at most
  once, and nothing fires once it is cancelled.\<close>

theorem ticks_fire_when_due:
  assumes "sched_run s tr" "sched_tick now s = (due, s')"
  shows "distinct (keys due) \<and> (i \<in> set (keys due) \<longleftrightarrow> (\<exists>every once prev. live tr i = Some (every, once, prev) \<and> prev + every \<le> now))"
proof -
  have ok: "distinct (keys (sc_subs s))" "entry_of (map_of (sc_subs s) i) = live tr i" using run_in_step [OF assms(1)] by (simp_all add: in_step_def)
  have due: "due = fst (tick_subs now (sc_subs s))" using assms(2) by (auto simp: sched_tick_def split: prod.splits)
  show ?thesis unfolding due ok(2) [symmetric] using tick_distinct [OF ok(1), of now] tick_due [OF ok(1), of i now]
    by (cases "map_of (sc_subs s) i") auto
qed

lemma ticks_fire_when_due_witness:
  "map fst (fst (sched_tick 5 (fst (sched_Subscribe 0 5 (Some ''combat'') sched_New)))) = [1 :: nat]
     \<and> (\<exists>every once prev. live [Registered 1 5 False 0] 1 = Some (every, once, prev) \<and> prev + every \<le> 5)"
proof -
  let ?s = "\<lparr>sc_subs = [(1, \<lparr>su_every = 5, su_next = 5, su_once = False, su_handler = ''combat''\<rparr>)], sc_nextID = 1\<rparr>"
  have s: "sched_Subscribe 0 5 (Some ''combat'') sched_New = (?s, Some 1)"
    by (simp add: sched_Subscribe_def sched_add_def sched_New_def Let_def)
  have t: "sched_tick 5 ?s = ([(1, ''combat'')], ?s\<lparr>sc_subs := [(1, \<lparr>su_every = 5, su_next = 10, su_once = False, su_handler = ''combat''\<rparr>)]\<rparr>)"
    by (simp add: sched_tick_def)
  from ticks_fire_when_due [OF sched_run.subscribe [OF sched_run.start s] t, of 1] show ?thesis unfolding s fst_conv t by simp
qed

end
