(* ===== verification/ZoneReset.thy ===== *)
theory ZoneReset
  imports Shops Wander CombatDeath
begin

text \<open>
  Zones and what brings them back: \<open>internal/repo/zone.go\<close> with its in-memory store, the in-memory template store
  (\<open>mob_template_memory.go\<close>), \<open>internal/world/respawn.go\<close>, \<open>restock.go\<close> and the occupancy check wired in \<open>cmd/server/main.go\<close>. The
  clock is read once at the start of a tick, and again for the rows of the mobs that spawn; both readings are arguments.
\<close>

section \<open>Zones\<close>

type_synonym ZoneResetMode = string

definition ZoneResetAlways :: ZoneResetMode where "ZoneResetAlways = ''always''"
definition ZoneResetEmpty :: ZoneResetMode where "ZoneResetEmpty = ''empty''"
definition ZoneResetNever :: ZoneResetMode where "ZoneResetNever = ''never''"

definition resetmode_IsValid :: "ZoneResetMode \<Rightarrow> bool" where
  "resetmode_IsValid m \<longleftrightarrow> m = ZoneResetAlways \<or> m = ZoneResetEmpty \<or> m = ZoneResetNever"

record Zone =
  zn_ID :: int
  zn_ExternalID :: string
  zn_Name :: string
  zn_Builder :: string
  zn_MinLevel :: int
  zn_MaxLevel :: int
  zn_ResetIntervalS :: int
  zn_ResetMode :: ZoneResetMode
  zn_Climate :: string
  zn_Ambient :: "string list"

datatype zone_error = ErrZoneNotFound | ErrDuplicateZone | ErrInvalidResetMode

record MemoryZoneRepo =
  zr_zones :: "Zone list"
  zr_lastReset :: "(int \<times> int) list"
  zr_maxID :: int

definition NewMemoryZoneRepo :: MemoryZoneRepo where
  "NewMemoryZoneRepo = \<lparr>zr_zones = [], zr_lastReset = [], zr_maxID = 0\<rparr>"

definition zone_insertLocked :: "MemoryZoneRepo \<Rightarrow> Zone \<Rightarrow> MemoryZoneRepo \<times> Zone" where
  "zone_insertLocked r z0 =
     (let mx = (if zn_ID z0 = 0 then i64 (zr_maxID r + 1) else if zn_ID z0 > zr_maxID r then zn_ID z0 else zr_maxID r);
          z = (if zn_ID z0 = 0 then z0\<lparr>zn_ID := mx\<rparr> else z0)
      in (r\<lparr>zr_zones := zr_zones r @ [z], zr_maxID := mx\<rparr>, z))"

definition zone_Create :: "MemoryZoneRepo \<Rightarrow> Zone \<Rightarrow> MemoryZoneRepo \<times> (zone_error + Zone)" where
  "zone_Create r z0 =
     (let z = (if zn_ResetMode z0 = [] then z0\<lparr>zn_ResetMode := ZoneResetEmpty\<rparr> else z0)
      in if \<not> resetmode_IsValid (zn_ResetMode z) then (r, Inl ErrInvalidResetMode)
         else if \<exists>x\<in>set (zr_zones r). zn_ExternalID x = zn_ExternalID z then (r, Inl ErrDuplicateZone)
         else let (r1, y) = zone_insertLocked r z in (r1, Inr y))"

definition zone_GetByID :: "MemoryZoneRepo \<Rightarrow> int \<Rightarrow> zone_error + Zone" where
  "zone_GetByID r i = (case find (\<lambda>z. zn_ID z = i) (zr_zones r) of None \<Rightarrow> Inl ErrZoneNotFound | Some z \<Rightarrow> Inr z)"

definition zone_GetByExternalID :: "MemoryZoneRepo \<Rightarrow> string \<Rightarrow> zone_error + Zone" where
  "zone_GetByExternalID r x = (case find (\<lambda>z. zn_ExternalID z = x) (zr_zones r) of None \<Rightarrow> Inl ErrZoneNotFound | Some z \<Rightarrow> Inr z)"

definition zone_List :: "MemoryZoneRepo \<Rightarrow> Zone list" where "zone_List r = sort_key zn_ExternalID (zr_zones r)"

definition LastResetTs :: "MemoryZoneRepo \<Rightarrow> int \<Rightarrow> zone_error + int" where
  "LastResetTs r i = (if \<exists>z\<in>set (zr_zones r). zn_ID z = i then Inr (map_get (zr_lastReset r) i 0) else Inl ErrZoneNotFound)"

definition RecordLastResetTs :: "MemoryZoneRepo \<Rightarrow> int \<Rightarrow> int \<Rightarrow> MemoryZoneRepo \<times> zone_error option" where
  "RecordLastResetTs r i ts =
     (if \<exists>z\<in>set (zr_zones r). zn_ID z = i then (r\<lparr>zr_lastReset := map_put i ts (zr_lastReset r)\<rparr>, None) else (r, Some ErrZoneNotFound))"

section \<open>Mob templates and their anchors\<close>

record RespawnTemplate = MobTemplate +
  rt_HPMax :: int
  rt_RespawnZoneResetID :: int
  rt_HomeRoomID :: int

datatype template_error = ErrTemplateNotFound | ErrTemplateExternalID | ErrTemplateDuplicate

record MemoryMobTemplateRepo =
  tp_byID :: "(int \<times> RespawnTemplate) list"
  tp_byExt :: "(string \<times> int) list"
  tp_maxID :: int

definition tpl_Create :: "MemoryMobTemplateRepo \<Rightarrow> RespawnTemplate \<Rightarrow> MemoryMobTemplateRepo \<times> (template_error + RespawnTemplate)" where
  "tpl_Create r t0 =
     (if mt_ExternalID t0 = [] then (r, Inl ErrTemplateExternalID)
      else if map_of (tp_byExt r) (mt_ExternalID t0) \<noteq> None then (r, Inl ErrTemplateDuplicate)
      else let n = i64 (tp_maxID r + 1); t = t0\<lparr>mt_ID := n\<rparr>
           in (\<lparr>tp_byID = map_put n t (tp_byID r), tp_byExt = map_put (mt_ExternalID t) n (tp_byExt r), tp_maxID = n\<rparr>, Inr t))"

definition tpl_GetByID :: "MemoryMobTemplateRepo \<Rightarrow> int \<Rightarrow> template_error + RespawnTemplate" where
  "tpl_GetByID r i = (case map_of (tp_byID r) i of None \<Rightarrow> Inl ErrTemplateNotFound | Some t \<Rightarrow> Inr t)"

definition tpl_ListExternalIDs :: "MemoryMobTemplateRepo \<Rightarrow> string list" where "tpl_ListExternalIDs r = sort (keys (tp_byExt r))"

definition ListByRespawnZone :: "MemoryMobTemplateRepo \<Rightarrow> int \<Rightarrow> RespawnTemplate list" where
  "ListByRespawnZone r zoneID = sort_key mt_ID (filter (\<lambda>t. rt_RespawnZoneResetID t = zoneID) (map snd (tp_byID r)))"

definition SetSpawnAnchor :: "MemoryMobTemplateRepo \<Rightarrow> int \<Rightarrow> int \<Rightarrow> int \<Rightarrow> MemoryMobTemplateRepo \<times> template_error option" where
  "SetSpawnAnchor r i zoneID homeRoomID =
     (case map_of (tp_byID r) i of None \<Rightarrow> (r, Some ErrTemplateNotFound)
      | Some t \<Rightarrow> (r\<lparr>tp_byID := map_put i (t\<lparr>rt_RespawnZoneResetID := zoneID, rt_HomeRoomID := homeRoomID\<rparr>) (tp_byID r)\<rparr>, None))"

definition NewInstanceFromTemplate :: "RespawnTemplate \<Rightarrow> int \<Rightarrow> int \<Rightarrow> MobInstance" where
  "NewInstanceFromTemplate tpl roomID boundResetID =
     \<lparr>mi_ID = 0, mi_TemplateID = mt_ID tpl, mi_Core = zero_Core\<lparr>c_HPCurrent := rt_HPMax tpl, c_CurrentRoomID := roomID\<rparr>,
      mi_Equipment = zero_Equipment, mi_Inventory = [], mi_SpawnedAt = None, mi_BoundResetID = boundResetID\<rparr>"

section \<open>The reset of a zone\<close>

record ItemSpec =
  is_ZoneExternalID :: string
  is_RoomExternalID :: string
  is_Item :: Item

record ZoneWorld =
  zw_Zones :: MemoryZoneRepo
  zw_Templates :: MemoryMobTemplateRepo
  zw_Mobs :: MemoryMobInstanceRepo
  zw_Rooms :: MemoryRoomRepo
  zw_Exits :: MemoryExitRepo
  zw_Items :: MemoryItemRepo
  zw_Sess :: Sessions

type_synonym ZoneSpecs = "(string \<times> ItemSpec list) list"

definition zoneOccupied :: "ZoneWorld \<Rightarrow> int \<Rightarrow> bool" where
  "zoneOccupied w zoneID \<longleftrightarrow>
     (\<exists>i\<in>set (Snapshot (zw_Sess w)). gs_CurrentRoomID (sess (zw_Sess w) i) \<noteq> 0
        \<and> (case room_FindByID (zw_Rooms w) (gs_CurrentRoomID (sess (zw_Sess w) i)) of Inl e \<Rightarrow> False | Inr room \<Rightarrow> rm_ZoneID room = zoneID))"

definition respawn_one :: "int \<Rightarrow> int \<Rightarrow> RespawnTemplate \<Rightarrow> MemoryMobInstanceRepo \<Rightarrow> MemoryMobInstanceRepo" where
  "respawn_one now zoneID tpl mobs =
     (if rt_HomeRoomID tpl = 0 then mobs
      else if CountByTemplate mobs (mt_ID tpl) > 0 then mobs
      else fst (mob_Create mobs now (NewInstanceFromTemplate tpl (rt_HomeRoomID tpl) zoneID)))"

definition respawnMobs :: "int \<Rightarrow> Zone \<Rightarrow> ZoneWorld \<Rightarrow> ZoneWorld" where
  "respawnMobs now z w = w\<lparr>zw_Mobs := fold (respawn_one now (zn_ID z)) (ListByRespawnZone (zw_Templates w) (zn_ID z)) (zw_Mobs w)\<rparr>"

definition restoreDoors :: "Zone \<Rightarrow> ZoneWorld \<Rightarrow> ZoneWorld" where
  "restoreDoors z w =
     (let ids = ListIDsByZone (zw_Rooms w) (zn_ID z)
      in if ids = [] then w else w\<lparr>zw_Exits := fst (RestoreAuthored (zw_Exits w) ids)\<rparr>)"

text \<open>The cache of room ids only saves lookups: rooms do not change during the loop.\<close>

definition respawn_item :: "MemoryRoomRepo \<Rightarrow> ItemSpec \<Rightarrow> MemoryItemRepo \<Rightarrow> MemoryItemRepo" where
  "respawn_item rooms spec items =
     (case item_FindByExternalID items (it_ExternalID (is_Item spec)) of Inr x \<Rightarrow> items
      | Inl e \<Rightarrow>
          (case room_FindByExternalID rooms (is_RoomExternalID spec) of Inl e \<Rightarrow> items
           | Inr room \<Rightarrow> fst (item_Create items ((is_Item spec)\<lparr>it_RoomID := rm_ID room\<rparr>))))"

definition respawnItems :: "ZoneSpecs \<Rightarrow> Zone \<Rightarrow> ZoneWorld \<Rightarrow> ZoneWorld" where
  "respawnItems specs z w = w\<lparr>zw_Items := fold (respawn_item (zw_Rooms w)) (map_get specs (zn_ExternalID z) []) (zw_Items w)\<rparr>"

definition reset_due :: "int \<Rightarrow> ZoneWorld \<Rightarrow> Zone \<Rightarrow> bool" where
  "reset_due nowSec w z \<longleftrightarrow> \<not> (zn_ResetMode z = ZoneResetNever \<or> zn_ResetIntervalS z \<le> 0)
     \<and> (case LastResetTs (zw_Zones w) (zn_ID z) of Inl e \<Rightarrow> False | Inr prev \<Rightarrow> \<not> i64 (nowSec - prev) < zn_ResetIntervalS z)
     \<and> \<not> (zn_ResetMode z = ZoneResetEmpty \<and> zoneOccupied w (zn_ID z))"

definition reset_zone :: "ZoneSpecs \<Rightarrow> int \<Rightarrow> int \<Rightarrow> Zone \<Rightarrow> ZoneWorld \<Rightarrow> ZoneWorld" where
  "reset_zone specs nowSec now z w =
     (if \<not> reset_due nowSec w z then w
      else let w1 = respawnItems specs z (restoreDoors z (respawnMobs now z w))
           in w1\<lparr>zw_Zones := fst (RecordLastResetTs (zw_Zones w1) (zn_ID z) nowSec)\<rparr>)"

definition zone_Tick :: "ZoneSpecs \<Rightarrow> int \<Rightarrow> int \<Rightarrow> ZoneWorld \<Rightarrow> ZoneWorld" where
  "zone_Tick specs nowSec now w = fold (reset_zone specs nowSec now) (zone_List (zw_Zones w)) w"

section \<open>The restocker\<close>

definition restock_row :: "int \<Rightarrow> int \<Rightarrow> ShopStockRow \<Rightarrow> MemoryShopRepo \<Rightarrow> MemoryShopRepo" where
  "restock_row nowSec interval row r =
     (if sr_QtyMax row < 0 \<or> sr_Qty row \<ge> sr_QtyMax row then r
      else if i64 (nowSec - sr_LastRestockTs row) < interval then r
      else UpsertStock r (row\<lparr>sr_Qty := sr_QtyMax row, sr_LastRestockTs := nowSec\<rparr>))"

definition restock_shop :: "int \<Rightarrow> Shop \<Rightarrow> MemoryShopRepo \<Rightarrow> MemoryShopRepo" where
  "restock_shop nowSec shop r =
     (if sh_RestockIntervalS shop \<le> 0 then r else fold (restock_row nowSec (sh_RestockIntervalS shop)) (ListStock r (sh_ID shop)) r)"

definition restock_Tick :: "int \<Rightarrow> MemoryShopRepo \<Rightarrow> MemoryShopRepo" where
  "restock_Tick nowSec r = fold (restock_shop nowSec) (ListShops r) r"

section \<open>What a restock does\<close>

definition shops_ok :: "MemoryShopRepo \<Rightarrow> bool" where
  "shops_ok r \<longleftrightarrow> distinct (keys (sp_shops r)) \<and> (\<forall>(k, s)\<in>set (sp_shops r). sh_ID s = k)
     \<and> (\<forall>k rows. map_of (sp_stock r) k = Some rows \<longrightarrow> distinct (map sr_ItemExternalID rows) \<and> (\<forall>row\<in>set rows. sr_ShopID row = k))"

definition restocked :: "int \<Rightarrow> int \<Rightarrow> ShopStockRow \<Rightarrow> ShopStockRow" where
  "restocked nowSec interval row =
     (if 0 < interval \<and> 0 \<le> sr_QtyMax row \<and> sr_Qty row < sr_QtyMax row \<and> interval \<le> i64 (nowSec - sr_LastRestockTs row)
      then row\<lparr>sr_Qty := sr_QtyMax row, sr_LastRestockTs := nowSec\<rparr> else row)"

lemma distinct_map_sort: "distinct (map f (sort_key g xs)) = distinct (map f xs)"
  by (simp add: distinct_map)

lemma put_stock_shop: "\<forall>row\<in>set rows. sr_ShopID row = k \<Longrightarrow> (\<And>row. sr_ShopID row = k \<Longrightarrow> sr_ShopID (g row) = k) \<Longrightarrow> \<forall>row\<in>set (put_stock ext g rows). sr_ShopID row = k"
  by (induction rows) auto

text \<open>Writing back a line that exists, with its id kept.\<close>

lemma UpsertStock_line:
  assumes ok: "shops_ok r" and old: "stock_line r k ext = Some old" and row: "sr_ShopID row = k" "sr_ItemExternalID row = ext" "sr_ID row = sr_ID old"
  shows "shops_ok (UpsertStock r row)" "sp_shops (UpsertStock r row) = sp_shops r"
    "stock_line (UpsertStock r row) s x = (if s = k \<and> x = ext then Some row else stock_line r s x)"
proof -
  have o: "map_get (sp_stock r) k [] \<noteq> []" using old by (auto simp: stock_line_def)
  then obtain rows where rows: "map_of (sp_stock r) k = Some rows" by (auto simp: map_get_def split: option.splits)
  have f: "find (\<lambda>row. sr_ItemExternalID row = ext) rows = Some old" using old rows by (simp add: stock_line_def map_get_def)
  then have ex: "\<exists>x\<in>set rows. sr_ItemExternalID x = ext" by (auto simp: find_Some_iff)
  let ?rows = "put_stock ext (\<lambda>old. row\<lparr>sr_ID := sr_ID old\<rparr>) rows"
  have u: "UpsertStock r row = r\<lparr>sp_stock := map_put k ?rows (sp_stock r)\<rparr>"
    using row rows ex by (simp add: UpsertStock_def map_get_def Let_def)
  have k: "map sr_ItemExternalID ?rows = map sr_ItemExternalID rows" using row(2) by (induction rows) auto
  have sh: "\<forall>x\<in>set ?rows. sr_ShopID x = k" if "\<forall>x\<in>set rows. sr_ShopID x = k" using that row(1) by (intro put_stock_shop) auto
  show "shops_ok (UpsertStock r row)" using ok rows k sh unfolding shops_ok_def u by auto
  show "sp_shops (UpsertStock r row) = sp_shops r" by (simp add: u)
  have fp: "find (\<lambda>row. sr_ItemExternalID row = x) ?rows = (if x = ext then Some row else find (\<lambda>row. sr_ItemExternalID row = x) rows)"
    using f row(2,3) by (induction rows) (auto split: if_splits)
  show "stock_line (UpsertStock r row) s x = (if s = k \<and> x = ext then Some row else stock_line r s x)"
    unfolding u using fp by (cases "x = ext") (simp_all add: stock_line_def map_get_def rows)
qed

lemma restock_row_line:
  assumes "shops_ok r" "stock_line r (sr_ShopID row) (sr_ItemExternalID row) = Some row" "0 < interval"
  shows "shops_ok (restock_row nowSec interval row r)" "sp_shops (restock_row nowSec interval row r) = sp_shops r"
    "stock_line (restock_row nowSec interval row r) s x
       = (if s = sr_ShopID row \<and> x = sr_ItemExternalID row then Some (restocked nowSec interval row) else stock_line r s x)"
proof -
  note u = UpsertStock_line [OF assms(1,2), of "row\<lparr>sr_Qty := sr_QtyMax row, sr_LastRestockTs := nowSec\<rparr>"]
  show "shops_ok (restock_row nowSec interval row r)" "sp_shops (restock_row nowSec interval row r) = sp_shops r"
    using u(1,2) assms(1) by (simp_all add: restock_row_def)
  show "stock_line (restock_row nowSec interval row r) s x
       = (if s = sr_ShopID row \<and> x = sr_ItemExternalID row then Some (restocked nowSec interval row) else stock_line r s x)"
    using u(3) assms(2,3) by (auto simp: restock_row_def restocked_def)
qed

lemma restock_rows:
  assumes "shops_ok r" "0 < interval" "distinct (map sr_ItemExternalID rows)"
    "\<forall>row\<in>set rows. sr_ShopID row = k \<and> stock_line r k (sr_ItemExternalID row) = Some row"
  shows "shops_ok (fold (restock_row nowSec interval) rows r) \<and> sp_shops (fold (restock_row nowSec interval) rows r) = sp_shops r
    \<and> (\<forall>s x. stock_line (fold (restock_row nowSec interval) rows r) s x =
        (if s = k \<and> x \<in> sr_ItemExternalID ` set rows then map_option (restocked nowSec interval) (stock_line r s x) else stock_line r s x))"
  using assms
proof (induction rows arbitrary: r)
  case (Cons row rows)
  have row: "sr_ShopID row = k" "stock_line r (sr_ShopID row) (sr_ItemExternalID row) = Some row" using Cons.prems(4) by auto
  note l = restock_row_line [OF Cons.prems(1) row(2) Cons.prems(2), of nowSec]
  have "\<forall>x\<in>set rows. sr_ShopID x = k \<and> stock_line (restock_row nowSec interval row r) k (sr_ItemExternalID x) = Some x"
  proof
    fix x assume x: "x \<in> set rows"
    then have "sr_ItemExternalID x \<noteq> sr_ItemExternalID row" using Cons.prems(3) by (auto simp: image_iff)
    then show "sr_ShopID x = k \<and> stock_line (restock_row nowSec interval row r) k (sr_ItemExternalID x) = Some x"
      using x Cons.prems(4) l(3) [of k "sr_ItemExternalID x"] by simp
  qed
  note ih = Cons.IH [OF l(1) Cons.prems(2) _ this]
  have "stock_line (fold (restock_row nowSec interval) (row # rows) r) s x =
      (if s = k \<and> x \<in> sr_ItemExternalID ` set (row # rows) then map_option (restocked nowSec interval) (stock_line r s x) else stock_line r s x)" for s x
  proof (cases "s = k \<and> x = sr_ItemExternalID row")
    case True
    then have "x \<notin> sr_ItemExternalID ` set rows" using Cons.prems(3) by simp
    with True ih Cons.prems(3) l(3) row show ?thesis by simp
  next
    case False
    then have "stock_line (restock_row nowSec interval row r) s x = stock_line r s x" using l(3) row(1) by auto
    with False ih Cons.prems(3) show ?thesis by auto
  qed
  with ih Cons.prems(3) l(2) show ?case by simp
qed simp

lemma shop_lines:
  assumes "shops_ok r"
  shows "distinct (map sr_ItemExternalID (ListStock r k))" "row \<in> set (ListStock r k) \<longleftrightarrow> stock_line r k (sr_ItemExternalID row) = Some row"
    "row \<in> set (ListStock r k) \<Longrightarrow> sr_ShopID row = k" "stock_line r k x = Some row \<Longrightarrow> row \<in> set (ListStock r k) \<and> sr_ItemExternalID row = x"
proof -
  let ?rows = "map_get (sp_stock r) k []"
  have ok: "distinct (map sr_ItemExternalID ?rows)" "\<forall>row\<in>set ?rows. sr_ShopID row = k"
    using assms by (cases "map_of (sp_stock r) k"; auto simp: shops_ok_def map_get_def)+
  have "distinct (map sr_ItemExternalID (sort_key sr_ItemExternalID ?rows))" using ok(1) unfolding distinct_map_sort .
  then show "distinct (map sr_ItemExternalID (ListStock r k))" unfolding ListStock_def .
  show "row \<in> set (ListStock r k) \<Longrightarrow> sr_ShopID row = k" using ok(2) by (simp add: ListStock_def)
  have "find (\<lambda>x. sr_ItemExternalID x = sr_ItemExternalID row) rows = Some row" if "row \<in> set rows" "distinct (map sr_ItemExternalID rows)" for rows
    using that by (induction rows) (auto simp: image_iff)
  then show "row \<in> set (ListStock r k) \<longleftrightarrow> stock_line r k (sr_ItemExternalID row) = Some row"
    using ok(1) by (auto simp: ListStock_def stock_line_def find_Some_iff)
  show "stock_line r k x = Some row \<Longrightarrow> row \<in> set (ListStock r k) \<and> sr_ItemExternalID row = x"
    by (auto simp: ListStock_def stock_line_def find_Some_iff)
qed

lemma restock_shop_line:
  assumes "shops_ok r"
  shows "shops_ok (restock_shop nowSec shop r) \<and> sp_shops (restock_shop nowSec shop r) = sp_shops r
    \<and> stock_line (restock_shop nowSec shop r) s x =
        (if s = sh_ID shop then map_option (restocked nowSec (sh_RestockIntervalS shop)) (stock_line r s x) else stock_line r s x)"
proof (cases "sh_RestockIntervalS shop \<le> 0")
  case True
  have "restocked nowSec (sh_RestockIntervalS shop) = id" using True by (auto simp: restocked_def)
  with True assms show ?thesis by (simp add: restock_shop_def option.map_id)
next
  case False
  have "\<forall>row\<in>set (ListStock r (sh_ID shop)). sr_ShopID row = sh_ID shop \<and> stock_line r (sh_ID shop) (sr_ItemExternalID row) = Some row"
    using shop_lines(2,3) [OF assms] by blast
  note f = restock_rows [OF assms _ shop_lines(1) [OF assms] this, of "sh_RestockIntervalS shop" nowSec]
  have "stock_line r (sh_ID shop) x = None" if "x \<notin> sr_ItemExternalID ` set (ListStock r (sh_ID shop))"
    using that shop_lines(4) [OF assms, of "sh_ID shop" x] by (cases "stock_line r (sh_ID shop) x") auto
  with f False show ?thesis by (auto simp: restock_shop_def)
qed

lemma restock_all:
  assumes "shops_ok r" "distinct (map sh_ID shops)"
  shows "shops_ok (fold (restock_shop nowSec) shops r) \<and> sp_shops (fold (restock_shop nowSec) shops r) = sp_shops r
    \<and> stock_line (fold (restock_shop nowSec) shops r) s x =
        (case find (\<lambda>shop. sh_ID shop = s) shops of None \<Rightarrow> stock_line r s x
         | Some shop \<Rightarrow> map_option (restocked nowSec (sh_RestockIntervalS shop)) (stock_line r s x))"
  using assms
proof (induction shops arbitrary: r)
  case (Cons shop shops)
  note l = restock_shop_line [OF Cons.prems(1), of nowSec shop]
  have "find (\<lambda>shop. sh_ID shop = s) shops = None" if "sh_ID shop = s"
    using that Cons.prems(2) unfolding find_None_iff by (metis distinct.simps(2) image_eqI list.set_map list.simps(9))
  moreover have "sh_ID shop \<noteq> s \<Longrightarrow> stock_line (restock_shop nowSec shop r) s x = stock_line r s x"
    "sh_ID shop = s \<Longrightarrow> stock_line (restock_shop nowSec shop r) s x = map_option (restocked nowSec (sh_RestockIntervalS shop)) (stock_line r s x)"
    using l by simp_all
  ultimately show ?case using Cons.IH [of "restock_shop nowSec shop r"] l Cons.prems(2)
    by (cases "sh_ID shop = s"; cases "find (\<lambda>shop. sh_ID shop = s) shops") simp_all
qed simp

text \<open>C38: What a restock does. After a tick every line of every shop is as it was, except that a finite line below its maximum whose last
  refill lies at least the shop's interval back is full and carries the time of the tick; a shop with no
  interval is never refilled. So no line shrinks or overflows, and a second tick at the same instant changes no line.\<close>

theorem restock_exact:
  assumes "shops_ok r"
  shows "stock_line (restock_Tick nowSec r) s x =
      (case map_of (sp_shops r) s of None \<Rightarrow> stock_line r s x
       | Some shop \<Rightarrow> map_option (restocked nowSec (sh_RestockIntervalS shop)) (stock_line r s x))
    \<and> stock_line (restock_Tick nowSec (restock_Tick nowSec r)) s x = stock_line (restock_Tick nowSec r) s x"
proof -
  have ids: "map sh_ID (map snd (sp_shops q)) = keys (sp_shops q)" if "shops_ok q" for q using that by (auto simp: shops_ok_def)
  then have d0: "distinct (map sh_ID (map snd (sp_shops q)))" if "shops_ok q" for q using that unfolding shops_ok_def by metis
  have d: "distinct (map sh_ID (ListShops q))" if "shops_ok q" for q
    unfolding ListShops_def distinct_map_sort by (rule d0 [OF that])
  have find: "find (\<lambda>shop. sh_ID shop = s) (ListShops q) = map_of (sp_shops q) s" if q: "shops_ok q" for q s
  proof -
    have "find (\<lambda>shop. sh_ID shop = s) xs = Some a" if "a \<in> set xs" "sh_ID a = s" "distinct (map sh_ID xs)" for xs a
      using that by (induction xs) (auto simp: image_iff)
    note f = this [OF _ _ d [OF q]]
    show ?thesis
    proof (cases "map_of (sp_shops q) s")
      case None
      then have "s \<notin> set (keys (sp_shops q))" by (simp add: map_of_eq_None_iff)
      then have "s \<notin> sh_ID ` set (ListShops q)" using q by (force simp: shops_ok_def ListShops_def)
      then show ?thesis using None by (auto simp: find_None_iff)
    next
      case (Some a)
      then have "(s, a) \<in> set (sp_shops q)" by (rule map_of_SomeD)
      then have "a \<in> set (ListShops q)" "sh_ID a = s" using q by (force simp: shops_ok_def ListShops_def)+
      with f Some show ?thesis by simp
    qed
  qed
  have one: "shops_ok (restock_Tick nowSec q) \<and> sp_shops (restock_Tick nowSec q) = sp_shops q \<and> stock_line (restock_Tick nowSec q) s x =
      (case map_of (sp_shops q) s of None \<Rightarrow> stock_line q s x
       | Some shop \<Rightarrow> map_option (restocked nowSec (sh_RestockIntervalS shop)) (stock_line q s x))" if "shops_ok q" for q
    unfolding restock_Tick_def using restock_all [OF that d [OF that], of nowSec s x] find [OF that] by simp
  have "restocked nowSec i (restocked nowSec i row) = restocked nowSec i row" for i row by (simp add: restocked_def)
  then show ?thesis using one [OF assms] one [of "restock_Tick nowSec r"]
    by (auto split: option.splits simp: option.map_comp comp_def)
qed

section \<open>What a zone reset does\<close>

definition mobs_fresh :: "MemoryMobInstanceRepo \<Rightarrow> nat \<Rightarrow> bool" where
  "mobs_fresh r k \<longleftrightarrow> (\<forall>i\<in>set (keys (mb_byID r)). i \<le> mb_maxID r) \<and> 0 \<le> mb_maxID r \<and> mb_maxID r + int k \<le> MaxInt64"

lemma respawn_one_rows:
  assumes "mobs_fresh r (Suc k)"
  shows "mobs_fresh (respawn_one now z t r) k"
    "mob_GetByID r i = Inr m \<Longrightarrow> mob_GetByID (respawn_one now z t r) i = Inr m"
    "CountByTemplate (respawn_one now z t r) x =
       (if x = mt_ID t \<and> rt_HomeRoomID t \<noteq> 0 \<and> mt_ID t \<noteq> 0 then max 1 (CountByTemplate r x) else CountByTemplate r x)"
proof -
  have n: "i64 (mb_maxID r + 1) = mb_maxID r + 1" using assms by (intro i64_id) (auto simp: mobs_fresh_def)
  have f: "mb_maxID r + 1 \<notin> set (keys (mb_byID r))" using assms by (auto simp: mobs_fresh_def)
  have c: "0 \<le> CountByTemplate r x" for x by (simp add: CountByTemplate_def)
  let ?new = "\<lambda>m. r\<lparr>mb_byID := mb_byID r @ [(mb_maxID r + 1, m)], mb_maxID := mb_maxID r + 1\<rparr>"
  have e: "respawn_one now z t r = r \<or> (\<exists>m. respawn_one now z t r = ?new m \<and> mi_TemplateID m = mt_ID t)"
    unfolding respawn_one_def mob_Create_def by (auto simp: n Let_def map_put_fresh [OF f] NewInstanceFromTemplate_def)
  then show "mobs_fresh (respawn_one now z t r) k" using assms by (force simp: mobs_fresh_def)
  show "mob_GetByID r i = Inr m \<Longrightarrow> mob_GetByID (respawn_one now z t r) i = Inr m"
    using e by (auto simp: mob_Get_Inr map_add_Some_iff)
  show "CountByTemplate (respawn_one now z t r) x =
       (if x = mt_ID t \<and> rt_HomeRoomID t \<noteq> 0 \<and> mt_ID t \<noteq> 0 then max 1 (CountByTemplate r x) else CountByTemplate r x)"
  proof (cases "rt_HomeRoomID t = 0 \<or> CountByTemplate r (mt_ID t) > 0 \<or> mt_ID t = 0")
    case True
    then have "respawn_one now z t r = r" by (auto simp: respawn_one_def mob_Create_def NewInstanceFromTemplate_def)
    with True show ?thesis using c [of x] by auto
  next
    case False
    then have "CountByTemplate r (mt_ID t) = 0" using c [of "mt_ID t"] by simp
    moreover have "\<exists>m. respawn_one now z t r = ?new m \<and> mi_TemplateID m = mt_ID t"
      using False unfolding respawn_one_def mob_Create_def by (auto simp: n Let_def map_put_fresh [OF f] NewInstanceFromTemplate_def)
    ultimately show ?thesis using False by (auto simp: CountByTemplate_def)
  qed
qed

lemma respawn_rows:
  assumes "mobs_fresh r (length ts)" "distinct (map mt_ID ts)"
  shows "(mob_GetByID r i = Inr m \<longrightarrow> mob_GetByID (fold (respawn_one now z) ts r) i = Inr m)
    \<and> CountByTemplate (fold (respawn_one now z) ts r) x =
       (if \<exists>t\<in>set ts. x = mt_ID t \<and> rt_HomeRoomID t \<noteq> 0 \<and> mt_ID t \<noteq> 0 then max 1 (CountByTemplate r x) else CountByTemplate r x)"
  using assms
proof (induction ts arbitrary: r)
  case (Cons t ts)
  have r: "mobs_fresh r (Suc (length ts))" using Cons.prems(1) by simp
  note o = respawn_one_rows [OF r, where now = now and z = z and t = t]
  have n: "mt_ID t \<notin> mt_ID ` set ts" using Cons.prems(2) by simp
  from Cons.IH [OF o(1)] o(2,3) Cons.prems(2) n show ?case by (auto simp: image_iff)
qed simp

definition ext_index_ok :: "MemoryItemRepo \<Rightarrow> bool" where
  "ext_index_ok r \<longleftrightarrow> ir_byExt r \<subseteq> it_ExternalID ` set (ir_items r)"

definition item_valid :: "Item \<Rightarrow> bool" where
  "item_valid i \<longleftrightarrow> \<not> isl (snd (item_Create NewMemoryItemRepo i))"

lemma create_keeps: "ext_index_ok r \<Longrightarrow> ext_index_ok (fst (item_Create r i)) \<and> set (ir_items r) \<subseteq> set (ir_items (fst (item_Create r i)))"
  by (auto simp: item_Create_def insertLocked_def ext_index_ok_def Let_def split: if_splits)

lemma create_present:
  assumes "ext_index_ok r" "item_FindByExternalID r (it_ExternalID i) = Inl e" "item_valid i"
  shows "it_ExternalID i \<in> it_ExternalID ` set (ir_items (fst (item_Create r i)))"
proof -
  have x: "it_ExternalID i \<noteq> []" using assms(3) by (auto simp: item_valid_def item_Create_def)
  then have "find (\<lambda>x. it_ExternalID x = it_ExternalID i) (ir_items r) = None" using assms(2) by (simp add: item_FindByExternalID_def split: option.splits)
  then have "it_ExternalID i \<notin> ir_byExt r" using assms(1) unfolding ext_index_ok_def find_None_iff by (metis image_iff subsetD)
  with assms(3) show ?thesis
    by (auto simp: item_valid_def item_Create_def insertLocked_def NewMemoryItemRepo_def Let_def split: if_splits)
qed

lemma respawn_items:
  assumes "ext_index_ok items"
  shows "ext_index_ok (fold (respawn_item rooms) specs items) \<and> set (ir_items items) \<subseteq> set (ir_items (fold (respawn_item rooms) specs items))
    \<and> (\<forall>spec\<in>set specs. item_valid ((is_Item spec)\<lparr>it_RoomID := 0\<rparr>) \<longrightarrow> (\<exists>room. room_FindByExternalID rooms (is_RoomExternalID spec) = Inr room)
         \<longrightarrow> it_ExternalID (is_Item spec) \<in> it_ExternalID ` set (ir_items (fold (respawn_item rooms) specs items)))"
  using assms
proof (induction specs arbitrary: items)
  case (Cons spec specs)
  let ?i = "is_Item spec" and ?r = "respawn_item rooms spec items"
  have r: "ext_index_ok ?r \<and> set (ir_items items) \<subseteq> set (ir_items ?r)"
    using Cons.prems create_keeps [OF Cons.prems] by (simp add: respawn_item_def split: sum.split)
  have valid: "item_valid (?i\<lparr>it_RoomID := k\<rparr>) \<longleftrightarrow> item_valid (?i\<lparr>it_RoomID := 0\<rparr>)" for k
    by (simp add: item_valid_def item_Create_def insertLocked_def NewMemoryItemRepo_def Let_def)
  have p: "it_ExternalID ?i \<in> it_ExternalID ` set (ir_items ?r)"
    if v: "item_valid (?i\<lparr>it_RoomID := 0\<rparr>)" and room: "room_FindByExternalID rooms (is_RoomExternalID spec) = Inr room" for room
  proof (cases "item_FindByExternalID items (it_ExternalID ?i)")
    case (Inl e)
    with create_present [OF Cons.prems, of "?i\<lparr>it_RoomID := rm_ID room\<rparr>" e] v valid room show ?thesis by (simp add: respawn_item_def)
  next
    case (Inr x)
    then have "x \<in> set (ir_items items) \<and> it_ExternalID x = it_ExternalID ?i"
      by (auto simp: item_FindByExternalID_def find_Some_iff split: option.splits if_splits)
    then show ?thesis using r by (metis image_eqI subsetD)
  qed
  note ih = Cons.IH [OF r [THEN conjunct1]]
  show ?case using ih r p by (simp, blast)
qed simp

text \<open>C37: What the reset of a zone does. When a zone is due, every mob that lives stays as it is and each anchored template of the zone
  that had no live mob has one; every exit out of a room of the zone is closed and locked as authored and every
  other exit is untouched; no item is lost and every authored item whose room exists is somewhere in the world; and the time of the
  reset is recorded. When the zone is not due, nothing at all changes.\<close>

theorem zone_reset_exact:
  assumes "mobs_fresh (zw_Mobs w) (length (ListByRespawnZone (zw_Templates w) (zn_ID z)))"
    and "distinct (map mt_ID (map snd (tp_byID (zw_Templates w))))" "ext_index_ok (zw_Items w)"
    and "w' = reset_zone specs nowSec now z w"
  shows "if reset_due nowSec w z
    then (\<forall>i m. mob_GetByID (zw_Mobs w) i = Inr m \<longrightarrow> mob_GetByID (zw_Mobs w') i = Inr m)
       \<and> (\<forall>t\<in>set (ListByRespawnZone (zw_Templates w) (zn_ID z)). rt_HomeRoomID t \<noteq> 0 \<and> mt_ID t \<noteq> 0 \<longrightarrow>
            CountByTemplate (zw_Mobs w') (mt_ID t) = max 1 (CountByTemplate (zw_Mobs w) (mt_ID t)))
       \<and> er_exits (zw_Exits w') = map (\<lambda>e. if ex_FromRoomID e \<in> set (ListIDsByZone (zw_Rooms w) (zn_ID z)) then restored e else e) (er_exits (zw_Exits w))
       \<and> set (ir_items (zw_Items w)) \<subseteq> set (ir_items (zw_Items w'))
       \<and> (\<forall>spec\<in>set (map_get specs (zn_ExternalID z) []). item_valid ((is_Item spec)\<lparr>it_RoomID := 0\<rparr>) \<longrightarrow>
            (\<exists>room. room_FindByExternalID (zw_Rooms w) (is_RoomExternalID spec) = Inr room) \<longrightarrow>
            it_ExternalID (is_Item spec) \<in> it_ExternalID ` set (ir_items (zw_Items w')))
       \<and> LastResetTs (zw_Zones w') (zn_ID z) = Inr nowSec
    else w' = w"
proof (cases "reset_due nowSec w z")
  case True
  let ?ts = "ListByRespawnZone (zw_Templates w) (zn_ID z)" and ?ids = "ListIDsByZone (zw_Rooms w) (zn_ID z)"
  define w1 where "w1 = respawnItems specs z (restoreDoors z (respawnMobs now z w))"
  have w': "w' = w1\<lparr>zw_Zones := fst (RecordLastResetTs (zw_Zones w1) (zn_ID z) nowSec)\<rparr>"
    using True assms(4) by (simp add: reset_zone_def w1_def Let_def)
  have d: "distinct (map mt_ID ?ts)"
    unfolding ListByRespawnZone_def distinct_map_sort by (rule distinct_map_filter [OF assms(2)])
  have mobs: "zw_Mobs w1 = fold (respawn_one now (zn_ID z)) ?ts (zw_Mobs w)"
    by (simp add: w1_def respawnItems_def restoreDoors_def respawnMobs_def Let_def)
  have items: "zw_Items w1 = fold (respawn_item (zw_Rooms w)) (map_get specs (zn_ExternalID z) []) (zw_Items w)"
    by (simp add: w1_def respawnItems_def restoreDoors_def respawnMobs_def Let_def)
  have same: "\<not> diverged ids e \<Longrightarrow> ex_FromRoomID e \<in> set ids \<Longrightarrow> restored e = e" for ids e by (simp add: diverged_def restored_def)
  have exits: "er_exits (zw_Exits w1) = map (\<lambda>e. if ex_FromRoomID e \<in> set ?ids then restored e else e) (er_exits (zw_Exits w))"
  proof (cases "?ids = []")
    case True
    then show ?thesis by (simp add: w1_def respawnItems_def restoreDoors_def respawnMobs_def)
  next
    case False
    have "diverged ?ids e \<Longrightarrow> ex_FromRoomID e \<in> set ?ids" for e by (simp add: diverged_def)
    with False same show ?thesis by (simp add: w1_def respawnItems_def restoreDoors_def respawnMobs_def RestoreAuthored_def Let_def)
  qed
  have zones: "zw_Zones w1 = zw_Zones w" by (simp add: w1_def respawnItems_def restoreDoors_def respawnMobs_def Let_def)
  have ts: "LastResetTs (zw_Zones w') (zn_ID z) = Inr nowSec"
    using True by (auto simp: w' zones reset_due_def LastResetTs_def RecordLastResetTs_def split: if_splits)
  note r = respawn_rows [OF assms(1) d, of _ _ now "zn_ID z"] and it = respawn_items [OF assms(3), of "zw_Rooms w" "map_get specs (zn_ExternalID z) []"]
  have mobs': "\<forall>i m. mob_GetByID (zw_Mobs w) i = Inr m \<longrightarrow> mob_GetByID (zw_Mobs w') i = Inr m" using r mobs by (simp add: w')
  have counts: "\<forall>t\<in>set ?ts. rt_HomeRoomID t \<noteq> 0 \<and> mt_ID t \<noteq> 0 \<longrightarrow>
      CountByTemplate (zw_Mobs w') (mt_ID t) = max 1 (CountByTemplate (zw_Mobs w) (mt_ID t))" using r mobs by (auto simp: w')
  have e': "zw_Exits w' = zw_Exits w1" "zw_Items w' = zw_Items w1" by (simp_all add: w')
  show ?thesis using True mobs' counts ts it exits unfolding e' items by simp
next
  case False
  then show ?thesis using assms(4) by (simp add: reset_zone_def)
qed

definition apple_stall :: MemoryShopRepo where
  "apple_stall = \<lparr>sp_nextID = 1, sp_shops = [(1, zero_Shop\<lparr>sh_ID := 1, sh_MobTemplateID := 4, sh_RestockIntervalS := 60\<rparr>)], sp_byMobTpl = [(4, 1)],
     sp_stockNext = 1,
     sp_stock = [(1, [\<lparr>sr_ID = 1, sr_ShopID = 1, sr_ItemExternalID = ''apple'', sr_Qty = 2, sr_QtyMax = 5, sr_LastRestockTs = 100\<rparr>])]\<rparr>"

lemma restock_exact_witness:
  "stock_line (restock_Tick 170 apple_stall) 1 ''apple''
     = Some \<lparr>sr_ID = 1, sr_ShopID = 1, sr_ItemExternalID = ''apple'', sr_Qty = 5, sr_QtyMax = 5, sr_LastRestockTs = 170\<rparr>"
proof -
  have ok: "shops_ok apple_stall" by (simp add: apple_stall_def shops_ok_def)
  have "i64 70 = 70" by (simp add: i64_id)
  with restock_exact [OF ok, of 170 1 "''apple''"] show ?thesis
    by (simp add: apple_stall_def stock_line_def map_get_def restocked_def)
qed

definition empty_den :: ZoneWorld where
  "empty_den = \<lparr>zw_Zones = \<lparr>zr_zones = [\<lparr>zn_ID = 1, zn_ExternalID = ''den'', zn_Name = [], zn_Builder = [], zn_MinLevel = 0, zn_MaxLevel = 0,
       zn_ResetIntervalS = 300, zn_ResetMode = ZoneResetAlways, zn_Climate = [], zn_Ambient = []\<rparr>], zr_lastReset = [], zr_maxID = 1\<rparr>,
     zw_Templates = \<lparr>tp_byID = [(4, \<lparr>mt_ID = 4, mt_ExternalID = ''wolf'', mt_ChallengeCode = CHR ''A'', mt_XPValue = 0, mt_GoldDice = [],
       rt_HPMax = 9, rt_RespawnZoneResetID = 1, rt_HomeRoomID = 3\<rparr>)], tp_byExt = [(''wolf'', 4)], tp_maxID = 4\<rparr>,
     zw_Mobs = NewMemoryMobInstanceRepo, zw_Rooms = NewMemoryRoomRepo, zw_Exits = NewMemoryExitRepo, zw_Items = NewMemoryItemRepo,
     zw_Sess = \<lparr>ss_heap = [], ss_bound = [], ss_Out = []\<rparr>\<rparr>"

lemma zone_reset_exact_witness:
  "CountByTemplate (zw_Mobs (reset_zone [] 1000 5 (hd (zr_zones (zw_Zones empty_den))) empty_den)) 4 = 1"
proof -
  let ?z = "hd (zr_zones (zw_Zones empty_den))"
  have h: "mobs_fresh (zw_Mobs empty_den) (length (ListByRespawnZone (zw_Templates empty_den) (zn_ID ?z)))"
    "distinct (map mt_ID (map snd (tp_byID (zw_Templates empty_den))))" "ext_index_ok (zw_Items empty_den)"
    by (simp_all add: empty_den_def mobs_fresh_def ext_index_ok_def NewMemoryMobInstanceRepo_def NewMemoryItemRepo_def ListByRespawnZone_def)
  have "i64 1000 = 1000" by (simp add: i64_id)
  then have due: "reset_due 1000 empty_den ?z"
    by (simp add: reset_due_def empty_den_def LastResetTs_def ZoneResetAlways_def ZoneResetNever_def ZoneResetEmpty_def map_get_def)
  from zone_reset_exact [OF h refl, where specs = "[]" and nowSec = 1000 and now = 5] due show ?thesis
    by (simp add: empty_den_def ListByRespawnZone_def CountByTemplate_def NewMemoryMobInstanceRepo_def)
qed

end
