(* ===== verification/Spec2Isabelle.thy ===== *)
theory Spec2Isabelle
  imports Moves SessionTickers CombatRoll CombatXP TelnetInput Dispatch CombatPulse Wander Shops Carrying FightVerbs DayClock Coords Quest Tick ZoneReset
begin

text \<open>
  A model of WheelMUD, a multi-user dungeon server written in Go (\<open>src/\<close>), and the theorems that make it correct.

  \<^bold>\<open>The program.\<close> A player connects over telnet. The read loop of the connection strips the telnet protocol from the bytes, edits
  one input line and puts it in the inbox of the session; the dispatcher splits the line, expands aliases, looks the verb up and runs the
  command. A command reads and writes the stores (characters, items, mobs, rooms, exits, shops) and the registry of live sessions. Beside
  the commands a scheduler fires tickers: fights, wandering mobs, affects, stamina, corpse decay, zone resets, restocking and the day clock.
  What a command or ticker announces goes over an event bus, on which the quest engine listens.

  \<^bold>\<open>Theories.\<close> Each imports the ones it calls, as the packages do.

  \<^item> Prelude. \<open>GoPrelude\<close>: fixed-width integers, \<open>strconv\<close>, \<open>strings\<close>, draws of \<open>math/rand\<close>, and the contract \<open>row_store\<close> every store
    satisfies. \<open>GoFloat\<close>: \<open>float64\<close> and \<open>float32\<close>. \<open>Utf8\<close>: \<open>unicode/utf8\<close>. \<open>StableSort\<close>: \<open>sort.SliceStable\<close>, with the contract
    \<open>strict_weak_order\<close>. \<open>Json\<close>: the decoder of \<open>encoding/json\<close>.
  \<^item> Data. \<open>Currency\<close> (\<open>internal/currency\<close>), \<open>Creature\<close> (\<open>internal/creature\<close>, with the contract \<open>slots\<close> of the equipment record),
    \<open>Progression\<close> (\<open>internal/progression\<close>), \<open>Affects\<close> (\<open>internal/affects\<close>).
  \<^item> Stores. \<open>CharacterRepo\<close>, \<open>ItemRepo\<close>, \<open>MobRepo\<close>, \<open>RoomRepo\<close>, \<open>ExitRepo\<close>, \<open>ShopRepo\<close>: the in-memory stores of
    \<open>internal/repo\<close>, one operation of the interface per definition.
  \<^item> Telnet. \<open>TelnetColor\<close> (\<open>telnet/color.go\<close>), \<open>TelnetWire\<close> (\<open>iac.go\<close>, \<open>csi.go\<close>, \<open>mssp.go\<close>), \<open>LineEditor\<close> (\<open>lineedit.go\<close>,
    \<open>history.go\<close>), \<open>TelnetInput\<close> (the read side of \<open>server.go\<close>), \<open>Tokenizer\<close> (\<open>tokenize.go\<close>), \<open>CommandLine\<close> and \<open>Dispatch\<close>
    (\<open>command.go\<close>, \<open>alias.go\<close>, \<open>badinput.go\<close>).
  \<^item> Combat (\<open>internal/combat\<close>). \<open>CombatRoll\<close>: attack and damage rolls. \<open>CombatXP\<close>: experience of a kill. \<open>CombatCost\<close>: cadence and
    stamina. \<open>CombatFight\<close>: the state of a fight. \<open>CombatDecay\<close>: the corpse queue. \<open>CombatDeath\<close>: deaths of mobs and characters.
    \<open>CombatManager\<close>: the manager and its pulse. \<open>CombatPulse\<close>: what a pulse guarantees.
  \<^item> Players. \<open>PartyGroup\<close> (\<open>internal/group\<close>), \<open>Sessions\<close> (\<open>internal/session\<close>, \<open>internal/visibility\<close>, the follow verbs), \<open>Keyword\<close>
    (naming things), \<open>Container\<close> (nesting), \<open>Gear\<close> (wearing and wielding), \<open>Inventory\<close> (carrying), \<open>Carrying\<close> (what both guarantee), \<open>Doors\<close>, \<open>Moves\<close>,
    \<open>Shops\<close> (trade and banking), \<open>FightVerbs\<close> (the verbs of a fight), \<open>Quest\<close> (\<open>internal/quest\<close>), \<open>SessionTickers\<close> (affects and channeling of players in the world).
  \<^item> World. \<open>Bfs\<close> and \<open>Wander\<close> (\<open>internal/mob\<close>), \<open>DayClock\<close>, \<open>Coords\<close> and \<open>ZoneReset\<close> (\<open>internal/world\<close>), \<open>Tick\<close>
    (\<open>internal/tick\<close>).

  \<^bold>\<open>Correspondence.\<close> A struct is a record with its fields in the order of the source, an enumeration a datatype or the integers of its
  constants, a function or method a definition of the same name (with a prefix of its receiver where two types share a method name). A loop
  is a recursion named after it. A verb of the game is a function from the shared world and the address of the session to the new world,
  and what it writes to sessions is a log in that world. The rules that hold everywhere:

  \<^item> Integers are \<open>int\<close> values, and every operation that can leave the width of its Go type is wrapped (\<open>i8\<close>, \<open>i16\<close>, \<open>i32\<close>, \<open>i64\<close>); bit
    sets are words. Floats are dyadic numbers rounded as IEEE 754 does, without fused multiply-add.
  \<^item> A Go map is an association list with distinct keys. Where the code iterates over it the list is the order of iteration, so a theorem
    about every list covers every order Go may choose.
  \<^item> Pointers that matter for aliasing (rows of the room store, sessions) are addresses of a heap.
  \<^item> Errors are values of a sum or of an error datatype; a panic (nil dereference, index out of range, division by zero) is \<open>None\<close>.
  \<^item> Time and randomness are arguments: the readings of the clock (nanoseconds) and the draws of the generator still to come.
  \<^item> A handler runs to its end before the next one starts. Locks and goroutines are not modelled; operations interleave as sequences, and
    the guarded writes of the stores (versions, compare-and-move) are modelled and used.
  \<^item> Text is bytes. Lower-casing and the character classes of \<open>unicode\<close> are those of ASCII; UTF-8 decoding is complete.
  \<^item> Optional dependencies that the server always wires are wired.

  \<^bold>\<open>What the lemmas show.\<close> For each store: it satisfies \<open>row_store\<close> (a row is what was last written, others unchanged), an invariant (unique
  ids and keys, items in one place) that every operation keeps, and the races its guards exclude. For the telnet layer: the line editor
  refines a gap buffer, any typed UTF-8 line arrives, frames and quoting read back, and the dispatcher runs nothing a session may not run.
  For combat: the rules of a roll and the odds they fix, bounds of hit points and stamina, the order and schedule of a fight, whom a verb may
  start one with, what a death does to rows, coin and loot whoever killed, and who is credited. For the verbs: the exact effect on every branch, refusals included, and the invariants that span verbs (coin is
  conserved, nothing worn is not carried, containers do not form cycles, follow chains do not either). For the world: shortest steps, mobs
  staying in their zone, consistent coordinates, resets, restocking, daylight and tickers that fire exactly when due. For quests: well-typed
  logs and rewards paid once.

  \<^bold>\<open>Recursion and fuel.\<close> Most loops are structural or have a measure. \<open>owned_loop\<close> of \<open>ItemRepo\<close> has as many passes as rows, since a pass that
  finds nothing ends it and each other finds a new row; the recursive helpers of \<open>Container\<close> and the walk over parent links may run forever on a
  cycle, so they take fuel, \<open>None\<close> is running out, and they are shown to return on the trees the verbs build with fuel equal to the
  number of rows and a few more (four for what a container holds or a player carries, two for the view of a container on the floor); \<open>run_segment\<close> of \<open>Dispatch\<close> counts the alias depth of the source, three; \<open>chain_loop\<close> of \<open>Moves\<close> counts the follow depth of
  the source, sixteen; \<open>Bfs\<close> counts the hop limit of the source; the chain of predecessors there is a partial function shown to be defined;
  \<open>coords_loop\<close> terminates by the rooms not yet placed; the JSON reader has fuel above the length of its text.

  \<^bold>\<open>Not modelled.\<close> The SQLite stores (SQL run by a driver; their in-memory twins have the same interface), the YAML loaders and catalogues (third-party decoder
  and file I/O), login, menus and character creation (forms over the modelled session), Lua scripts (third-party interpreter), the verbs
  that only print, GMCP payloads, configuration, metrics and process life cycle, and delivery of bus events on goroutines.
\<close>

end
